(* ===== verification/Kernel_Prelude.thy ===== *)
theory Kernel_Prelude
  imports Main "HOL-Library.Word" "HOL-Library.Tree"
begin

unbundle bit_operations_syntax

text \<open>
  Shared material of the development: the machine types of a 64-bit kernel, the error
  numbers the drivers return, the alignment macros of the kernel headers that the sources
  use, doubly linked lists seen as HOL lists, and the lemmas on words and lists that the
  component theories use.
\<close>

section \<open>Machine types and error numbers\<close>

type_synonym u8 = "8 word"
type_synonym u32 = "32 word"
type_synonym u64 = "64 word"

text \<open>Kernel objects are named by their address; \<open>None\<close> of \<open>ptr option\<close> is \<open>NULL\<close>.\<close>

type_synonym ptr = nat

datatype errno =
    EPERM | EBADF | ENOMEM | EFAULT | EBUSY | EINVAL | ENOTTY | ENOSPC | ESRCH
  | EPROTO | EAGAIN | ERESTARTSYS | EEXIST | EACCES | ENOENT | EINTR | EIO | ENODEV | EBADFD | ERANGE | EADDRNOTAVAIL
  | E2BIG | ETIMEDOUT | EOVERFLOW

text \<open>The result of a call that returns either a negative error number or a value.\<close>

type_synonym 'a result = "errno + 'a"

section \<open>Page and alignment macros\<close>

definition PAGE_SIZE :: u64 where
  "PAGE_SIZE = 4096"

definition PAGE_MASK :: u64 where
  "PAGE_MASK = NOT (PAGE_SIZE - 1)"

text \<open>\<open>ALIGN(x, a)\<close> for a power of two \<open>a\<close>: round up, wrapping at the word size.\<close>

definition ALIGN :: "u64 \<Rightarrow> u64 \<Rightarrow> u64" where
  "ALIGN x a = (x + (a - 1)) AND NOT (a - 1)"

definition PAGE_ALIGN :: "u64 \<Rightarrow> u64" where
  "PAGE_ALIGN x = ALIGN x PAGE_SIZE"

definition IS_ALIGNED :: "u64 \<Rightarrow> u64 \<Rightarrow> bool" where
  "IS_ALIGNED x a \<longleftrightarrow> x AND (a - 1) = 0"

section \<open>Doubly linked lists\<close>

text \<open>
  A \<open>struct list_head\<close> list is the HOL list of its entries. \<open>list_add_tail(new, pos)\<close>
  links \<open>new\<close> before \<open>pos\<close>; when \<open>pos\<close> is the list head itself (\<open>None\<close>) that is the tail.
  \<open>list_add(new, pos)\<close> links \<open>new\<close> right after \<open>pos\<close>.
\<close>

fun list_insert_before :: "'a \<Rightarrow> 'a \<Rightarrow> 'a list \<Rightarrow> 'a list" where
  "list_insert_before x pos [] = []"
| "list_insert_before x pos (y # ys) =
     (if y = pos then x # y # ys else y # list_insert_before x pos ys)"

definition list_add_tail :: "'a \<Rightarrow> 'a option \<Rightarrow> 'a list \<Rightarrow> 'a list" where
  "list_add_tail x pos ys = (case pos of None \<Rightarrow> ys @ [x] | Some p \<Rightarrow> list_insert_before x p ys)"

fun list_insert_after :: "'a \<Rightarrow> 'a \<Rightarrow> 'a list \<Rightarrow> 'a list" where
  "list_insert_after x pos [] = []"
| "list_insert_after x pos (y # ys) =
     (if y = pos then y # x # ys else y # list_insert_after x pos ys)"

definition list_del :: "'a \<Rightarrow> 'a list \<Rightarrow> 'a list" where
  "list_del x ys = remove1 x ys"

section \<open>Lemmas on lists\<close>

lemma list_add_tail_None [simp]: "list_add_tail x None ys = ys @ [x]"
  by (simp add: list_add_tail_def)

lemma set_list_insert_before [simp]:
  "pos \<in> set ys \<Longrightarrow> set (list_insert_before x pos ys) = insert x (set ys)"
  by (induction ys) auto

lemma set_list_insert_after [simp]:
  "pos \<in> set ys \<Longrightarrow> set (list_insert_after x pos ys) = insert x (set ys)"
  by (induction ys) auto

lemma list_insert_before_split:
  "p \<notin> set us \<Longrightarrow> list_insert_before x p (us @ p # vs) = us @ x # p # vs"
  by (induction us) auto

lemma list_insert_after_split:
  "p \<notin> set us \<Longrightarrow> list_insert_after x p (us @ p # vs) = us @ p # x # vs"
  by (induction us) auto

lemma list_del_split:
  "p \<notin> set us \<Longrightarrow> list_del p (us @ p # vs) = us @ vs"
  by (simp add: list_del_def remove1_append)

lemma set_list_del [simp]: "distinct ys \<Longrightarrow> set (list_del x ys) = set ys - {x}"
  by (simp add: list_del_def)

lemma distinct_list_del [simp]: "distinct ys \<Longrightarrow> distinct (list_del x ys)"
  by (simp add: list_del_def)

lemma list_del_notin [simp]: "x \<notin> set ys \<Longrightarrow> list_del x ys = ys"
  by (simp add: list_del_def remove1_idem)

lemma sum_list_map_list_del:
  fixes f :: "'a \<Rightarrow> 'b::ab_group_add"
  assumes "x \<in> set ys"
  shows "sum_list (map f (list_del x ys)) = sum_list (map f ys) - f x"
  using assms by (induction ys) (auto simp: list_del_def)

lemma sum_list_map_upd:
  fixes f :: "'a \<Rightarrow> 'b::ab_group_add"
  assumes "distinct ys" "x \<in> set ys" "\<And>y. y \<noteq> x \<Longrightarrow> g y = f y"
  shows "sum_list (map g ys) = sum_list (map f ys) - f x + g x"
  using assms
proof (induction ys)
  case (Cons y ys)
  show ?case
  proof (cases "x = y")
    case True
    with Cons.prems have "sum_list (map g ys) = sum_list (map f ys)"
      by (intro arg_cong [where f = sum_list] map_cong) (auto, metis)
    with True show ?thesis by simp
  next
    case False
    with Cons.prems have "sum_list (map g ys) = sum_list (map f ys) - f x + g x"
      by (intro Cons.IH) auto
    with False Cons.prems show ?thesis by (simp add: algebra_simps)
  qed
qed simp

section \<open>Lemmas on words\<close>

text \<open>Below a larger value the successor does not wrap; above a smaller one the predecessor does not.\<close>

lemma word_succ_le_iff: "(a :: 'a::len word) < b \<Longrightarrow> a + 1 \<le> x \<longleftrightarrow> a < x"
  by uint_arith

lemma word_le_pred_iff: "(b :: 'a::len word) < a \<Longrightarrow> x \<le> a - 1 \<longleftrightarrow> x < a"
  by uint_arith

lemma word_or_eq_0_iff: "(a :: 'a::len word) OR b = 0 \<longleftrightarrow> a = 0 \<and> b = 0"
  by (metis or_eq_0_iff)

lemma unat_ucast_u32 [simp]: "unat (ucast (x :: u32) :: u64) = unat x"
proof -
  have "unat x < 2 ^ LENGTH(32)" by (rule unsigned_less)
  then have "unat x < 2 ^ 64" by simp
  then show ?thesis by (simp add: unsigned_ucast_eq take_bit_nat_eq_self)
qed

lemma unat_of_nat_u64: "k < 2 ^ 64 \<Longrightarrow> unat (of_nat k :: u64) = k"
  by (simp add: unsigned_of_nat take_bit_nat_eq_self)

lemma word_split_mask: "(x :: 'a::len word) AND NOT (mask n) = x - (x AND mask n)"
proof -
  have "(x AND mask n) + (x AND NOT (mask n)) = (x AND mask n) OR (x AND NOT (mask n))"
    by (rule disjunctive_add_eq_or) (simp add: bit_eq_iff bit_simps)
  also have "\<dots> = x" by (simp add: bit_eq_iff bit_simps) blast
  finally show ?thesis by (simp add: algebra_simps)
qed

lemma unat_and_mask: "unat ((x :: 'a::len word) AND mask n) = unat x mod 2 ^ n"
  unfolding take_bit_eq_mask [symmetric] unsigned_take_bit_eq by (rule take_bit_eq_mod)

lemma unat_and_not_mask: "unat ((x :: 'a::len word) AND NOT (mask n)) = unat x - unat x mod 2 ^ n"
  unfolding word_split_mask by (subst unat_sub) (simp_all add: unat_and_mask word_le_nat_alt)

text \<open>Alignment to a power of two, when the addition does not wrap and when it does.\<close>

lemma ALIGN_mask: "ALIGN x (2 ^ n) = (x + mask n) AND NOT (mask n)"
  by (simp add: ALIGN_def mask_eq_exp_minus_1)

lemma unat_ALIGN:
  assumes "unat x + unat (mask n :: u64) < 2 ^ 64"
  shows "unat (ALIGN x (2 ^ n)) = unat x + unat (mask n :: u64) - (unat x + unat (mask n :: u64)) mod 2 ^ n"
  using assms by (simp add: ALIGN_mask unat_and_not_mask unat_add_lem [THEN iffD1])

lemma ALIGN_dvd: "n < 64 \<Longrightarrow> 2 ^ n dvd unat (ALIGN x (2 ^ n))"
  by (simp add: ALIGN_mask unat_and_not_mask dvd_minus_mod)

lemma page_offset_zero: "x AND NOT PAGE_MASK = 0 \<longleftrightarrow> 4096 dvd unat x"
proof -
  have m: "NOT PAGE_MASK = mask 12" by (simp add: PAGE_MASK_def PAGE_SIZE_def mask_eq_exp_minus_1)
  show ?thesis using and_mask_dvd_nat [of 12 x] by (simp add: m)
qed

end
