(* ===== verification/Ashmem_Range.thy ===== *)
theory Ashmem_Range
  imports Kernel_Prelude
begin

text \<open>
  The unpinned ranges of ashmem areas (\<^verbatim>\<open>src/ashmem/ashmem.c\<close>, lines 58 to 290 and 737 to 869):
  the structures \<open>ashmem_area\<close> and \<open>ashmem_range\<close>, the LRU list and its page counter, and
  the three operations on ranges, \<open>ashmem_pin\<close>, \<open>ashmem_unpin\<close> and \<open>ashmem_get_pin_status\<close>.
  A range is linked in two lists (its area's \<open>unpinned_list\<close> and the LRU list), so ranges
  live in a store indexed by their address and the lists hold addresses.
\<close>

section \<open>Data\<close>

datatype ashmem_backing_type = ASHMEM_BACKING_SHMEM | ASHMEM_BACKING_MEMFD

record ashmem_area =
  a_name :: "char list"
  unpinned_list :: "ptr list"
  a_file :: "ptr option"
  a_size :: u64
  prot_mask :: u64
  backing :: ashmem_backing_type

record ashmem_range =
  asma :: ptr
  pgstart :: u64
  pgend :: u64
  purged :: u32

text \<open>
  What the driver uses of a backing \<open>struct file\<close>: its reference count, its position, whether
  \<open>FMODE_LSEEK\<close> is set and whether \<open>f_op\<close> is the driver's \<open>vmfile_fops\<close>.
\<close>

record kfile =
  f_count :: int
  f_pos :: u64
  fmode_lseek :: bool
  f_op_vmfile :: bool

text \<open>
  The driver's globals. \<open>punched\<close> records the \<open>fallocate(PUNCH_HOLE)\<close> calls issued by
  the shrinker as (file, start, length): the effect of the driver on the backing files.
  \<open>inflight\<close> lists the hole punches between the increment and the decrement of
  \<open>ashmem_shrink_inflight\<close> as (file, area, first page, last page); the counter is its length.
\<close>

record ashmem_state =
  areas :: "ptr \<Rightarrow> ashmem_area"
  ashmem_area_list :: "ptr list"
  ranges :: "ptr \<Rightarrow> ashmem_range"
  ashmem_lru_list :: "ptr list"
  lru_count :: u64
  punched :: "(ptr \<times> u64 \<times> u64) list"
  inflight :: "(ptr \<times> ptr \<times> u64 \<times> u64) list"
  files :: "ptr \<Rightarrow> kfile"

definition ASHMEM_NOT_PURGED :: u32 where
  "ASHMEM_NOT_PURGED = 0"

definition ASHMEM_WAS_PURGED :: u32 where
  "ASHMEM_WAS_PURGED = 1"

definition ASHMEM_IS_UNPINNED :: u32 where
  "ASHMEM_IS_UNPINNED = 0"

definition ASHMEM_IS_PINNED :: u32 where
  "ASHMEM_IS_PINNED = 1"

section \<open>Predicates on ranges\<close>

definition range_size :: "ashmem_range \<Rightarrow> u64" where
  "range_size r = pgend r - pgstart r + 1"

definition range_on_lru :: "ashmem_range \<Rightarrow> bool" where
  "range_on_lru r \<longleftrightarrow> purged r = ASHMEM_NOT_PURGED"

definition page_range_subsumes_range :: "ashmem_range \<Rightarrow> u64 \<Rightarrow> u64 \<Rightarrow> bool" where
  "page_range_subsumes_range r start e \<longleftrightarrow> pgstart r \<ge> start \<and> pgend r \<le> e"

definition page_range_subsumed_by_range :: "ashmem_range \<Rightarrow> u64 \<Rightarrow> u64 \<Rightarrow> bool" where
  "page_range_subsumed_by_range r start e \<longleftrightarrow> pgstart r \<le> start \<and> pgend r \<ge> e"

definition page_in_range :: "ashmem_range \<Rightarrow> u64 \<Rightarrow> bool" where
  "page_in_range r page \<longleftrightarrow> pgstart r \<le> page \<and> pgend r \<ge> page"

definition page_range_in_range :: "ashmem_range \<Rightarrow> u64 \<Rightarrow> u64 \<Rightarrow> bool" where
  "page_range_in_range r start e \<longleftrightarrow>
     page_in_range r start \<or> page_in_range r e \<or> page_range_subsumes_range r start e"

definition range_before_page :: "ashmem_range \<Rightarrow> u64 \<Rightarrow> bool" where
  "range_before_page r page \<longleftrightarrow> pgend r < page"

section \<open>The LRU list and the life of a range\<close>

definition lru_add :: "ptr \<Rightarrow> ashmem_state \<Rightarrow> ashmem_state" where
  "lru_add p s = s\<lparr>ashmem_lru_list := list_add_tail p None (ashmem_lru_list s),
                   lru_count := lru_count s + range_size (ranges s p)\<rparr>"

definition lru_del :: "ptr \<Rightarrow> ashmem_state \<Rightarrow> ashmem_state" where
  "lru_del p s = s\<lparr>ashmem_lru_list := list_del p (ashmem_lru_list s),
                   lru_count := lru_count s - range_size (ranges s p)\<rparr>"

definition set_range :: "ptr \<Rightarrow> ashmem_range \<Rightarrow> ashmem_state \<Rightarrow> ashmem_state" where
  "set_range p r s = s\<lparr>ranges := (ranges s)(p := r)\<rparr>"

definition set_unpinned :: "ptr \<Rightarrow> ptr list \<Rightarrow> ashmem_state \<Rightarrow> ashmem_state" where
  "set_unpinned a ps s = s\<lparr>areas := (areas s)(a := (areas s a)\<lparr>unpinned_list := ps\<rparr>)\<rparr>"

text \<open>
  \<open>range_alloc\<close> fills the preallocated range \<open>p\<close> and links it before \<open>prev\<close> in the area's
  list (\<open>None\<close>: before the list head, at the tail).
\<close>

definition range_alloc ::
    "ptr \<Rightarrow> ptr option \<Rightarrow> u32 \<Rightarrow> u64 \<Rightarrow> u64 \<Rightarrow> ptr \<Rightarrow> ashmem_state \<Rightarrow> ashmem_state" where
  "range_alloc a prev pu start e p s =
     (let s1 = set_range p \<lparr>asma = a, pgstart = start, pgend = e, purged = pu\<rparr> s;
          s2 = set_unpinned a (list_add_tail p prev (unpinned_list (areas s1 a))) s1
      in if range_on_lru (ranges s2 p) then lru_add p s2 else s2)"

text \<open>\<open>list_del\<close> unlinks the range from the list it is in, the \<open>unpinned_list\<close> of area \<open>a\<close>.\<close>

definition range_del :: "ptr \<Rightarrow> ptr \<Rightarrow> ashmem_state \<Rightarrow> ashmem_state" where
  "range_del a p s =
     (let s1 = set_unpinned a (list_del p (unpinned_list (areas s a))) s
      in if range_on_lru (ranges s1 p) then lru_del p s1 else s1)"

definition range_shrink :: "ptr \<Rightarrow> u64 \<Rightarrow> u64 \<Rightarrow> ashmem_state \<Rightarrow> ashmem_state" where
  "range_shrink p start e s =
     (let pre = range_size (ranges s p);
          s1 = set_range p ((ranges s p)\<lparr>pgstart := start, pgend := e\<rparr>) s
      in if range_on_lru (ranges s1 p)
         then s1\<lparr>lru_count := lru_count s1 - (pre - range_size (ranges s1 p))\<rparr>
         else s1)"

section \<open>Pinning, unpinning and the pin status\<close>

text \<open>
  \<open>list_for_each_entry_safe\<close> walks the entries present at the start: a deleted entry is the
  current one and a new one is linked before it, so the walk is a recursion over the list.
  The result carries what is left of \<open>*new_range\<close>: \<open>None\<close> once \<open>range_alloc\<close> has used it.
\<close>

fun ashmem_pin_loop ::
    "ptr \<Rightarrow> u64 \<Rightarrow> u64 \<Rightarrow> ptr \<Rightarrow> ptr list \<Rightarrow> u32 \<Rightarrow> ashmem_state \<Rightarrow>
     ashmem_state \<times> u32 \<times> ptr option" where
  "ashmem_pin_loop a st en new [] ret s = (s, ret, Some new)"
| "ashmem_pin_loop a st en new (p # ps) ret s =
     (let r = ranges s p in
      if range_before_page r st then (s, ret, Some new)
      else if page_range_in_range r st en then
        (let ret' = ret OR purged r in
         if page_range_subsumes_range r st en then
           ashmem_pin_loop a st en new ps ret' (range_del a p s)
         else if pgstart r \<ge> st then
           ashmem_pin_loop a st en new ps ret' (range_shrink p (en + 1) (pgend r) s)
         else if pgend r \<le> en then
           ashmem_pin_loop a st en new ps ret' (range_shrink p (pgstart r) (st - 1) s)
         else
           (range_shrink p (pgstart r) (st - 1)
              (range_alloc a (Some p) (purged r) (en + 1) (pgend r) new s), ret', None))
      else ashmem_pin_loop a st en new ps ret s)"

definition ashmem_pin ::
    "ptr \<Rightarrow> u64 \<Rightarrow> u64 \<Rightarrow> ptr \<Rightarrow> ashmem_state \<Rightarrow> ashmem_state \<times> u32 \<times> ptr option" where
  "ashmem_pin a st en new s =
     ashmem_pin_loop a st en new (unpinned_list (areas s a)) ASHMEM_NOT_PURGED s"

text \<open>
  One pass of \<open>ashmem_unpin\<close> over the list: it returns early when an entry covers the request,
  restarts after absorbing an overlapping entry, or stops at the insertion point.
\<close>

datatype unpin_pass = Covered | Absorb ptr | Insert_At "ptr option"

fun ashmem_unpin_pass :: "(ptr \<Rightarrow> ashmem_range) \<Rightarrow> u64 \<Rightarrow> u64 \<Rightarrow> ptr list \<Rightarrow> unpin_pass" where
  "ashmem_unpin_pass rs st en [] = Insert_At None"
| "ashmem_unpin_pass rs st en (p # ps) =
     (if range_before_page (rs p) st then Insert_At (Some p)
      else if page_range_subsumed_by_range (rs p) st en then Covered
      else if page_range_in_range (rs p) st en then Absorb p
      else ashmem_unpin_pass rs st en ps)"

lemma ashmem_unpin_pass_Absorb_in:
  "ashmem_unpin_pass rs st en ps = Absorb p \<Longrightarrow> p \<in> set ps"
  by (induction ps) (auto split: if_splits)

lemma unpinned_range_del [simp]:
  "unpinned_list (areas (range_del a p s) a) = list_del p (unpinned_list (areas s a))"
  by (simp add: range_del_def set_unpinned_def lru_del_def Let_def)

function ashmem_unpin_loop ::
    "ptr \<Rightarrow> ptr \<Rightarrow> u64 \<Rightarrow> u64 \<Rightarrow> u32 \<Rightarrow> ashmem_state \<Rightarrow> ashmem_state \<times> ptr option" where
  "ashmem_unpin_loop a new st en pu s =
     (case ashmem_unpin_pass (ranges s) st en (unpinned_list (areas s a)) of
        Covered \<Rightarrow> (s, Some new)
      | Absorb p \<Rightarrow>
          ashmem_unpin_loop a new (min (pgstart (ranges s p)) st) (max (pgend (ranges s p)) en)
            (pu OR purged (ranges s p)) (range_del a p s)
      | Insert_At pos \<Rightarrow> (range_alloc a pos pu st en new s, None))"
  by pat_completeness auto
termination
  by (relation "measure (\<lambda>(a, new, st, en, pu, s). length (unpinned_list (areas s a)))")
    (auto dest!: ashmem_unpin_pass_Absorb_in simp: list_del_def length_remove1
      intro: diff_less length_pos_if_in_set)

declare ashmem_unpin_loop.simps [simp del]

definition ashmem_unpin ::
    "ptr \<Rightarrow> u64 \<Rightarrow> u64 \<Rightarrow> ptr \<Rightarrow> ashmem_state \<Rightarrow> ashmem_state \<times> u32 \<times> ptr option" where
  "ashmem_unpin a st en new s =
     (let (s', nr) = ashmem_unpin_loop a new st en ASHMEM_NOT_PURGED s in (s', 0, nr))"

fun ashmem_get_pin_status_loop :: "(ptr \<Rightarrow> ashmem_range) \<Rightarrow> u64 \<Rightarrow> u64 \<Rightarrow> ptr list \<Rightarrow> u32" where
  "ashmem_get_pin_status_loop rs st en [] = ASHMEM_IS_PINNED"
| "ashmem_get_pin_status_loop rs st en (p # ps) =
     (if range_before_page (rs p) st then ASHMEM_IS_PINNED
      else if page_range_in_range (rs p) st en then ASHMEM_IS_UNPINNED
      else ashmem_get_pin_status_loop rs st en ps)"

definition ashmem_get_pin_status :: "ptr \<Rightarrow> u64 \<Rightarrow> u64 \<Rightarrow> ashmem_state \<Rightarrow> u32" where
  "ashmem_get_pin_status a st en s =
     ashmem_get_pin_status_loop (ranges s) st en (unpinned_list (areas s a))"

end
