(* ===== verification/Ashmem_Driver.thy ===== *)
theory Ashmem_Driver
  imports Ashmem_Range
begin

text \<open>
  The file operations of the ashmem driver (\<^verbatim>\<open>src/ashmem/ashmem.c\<close>, lines 300 to 736 and
  876 to 1233): open, release, read, llseek, mmap with its protection checks, the shrinker,
  the ioctls, and module initialisation. An operation is given the address of the area in
  \<open>file->private_data\<close>. What the kernel decides (allocations, copies from and to user memory,
  capabilities, the outcome of \<open>mutex_trylock\<close>, the functions of the shmem file system) is an
  argument. \<open>ashmem_mutex\<close> makes the operations atomic, except for the shrinker, which drops it.
\<close>

section \<open>Constants\<close>

definition PROT_READ :: u64 where "PROT_READ = 1"
definition PROT_WRITE :: u64 where "PROT_WRITE = 2"
definition PROT_EXEC :: u64 where "PROT_EXEC = 4"
definition VM_READ :: u64 where "VM_READ = 0x1"
definition VM_WRITE :: u64 where "VM_WRITE = 0x2"
definition VM_EXEC :: u64 where "VM_EXEC = 0x4"
definition VM_SHARED :: u64 where "VM_SHARED = 0x8"
definition VM_MAYREAD :: u64 where "VM_MAYREAD = 0x10"
definition VM_MAYWRITE :: u64 where "VM_MAYWRITE = 0x20"
definition VM_MAYEXEC :: u64 where "VM_MAYEXEC = 0x40"
definition VM_NORESERVE :: u64 where "VM_NORESERVE = 0x200000"

definition PROT_MASK :: u64 where
  "PROT_MASK = PROT_EXEC OR PROT_READ OR PROT_WRITE"

definition ASHMEM_NAME_LEN :: nat where "ASHMEM_NAME_LEN = 256"
definition ASHMEM_NAME_PREFIX :: string where "ASHMEM_NAME_PREFIX = ''dev/ashmem/''"
definition ASHMEM_NAME_PREFIX_LEN :: nat where "ASHMEM_NAME_PREFIX_LEN = 11"
definition ASHMEM_FULL_NAME_LEN :: nat where "ASHMEM_FULL_NAME_LEN = 267"
definition ASHMEM_NAME_DEF :: string where "ASHMEM_NAME_DEF = ''dev/ashmem''"

definition NUL :: char where "NUL = CHR 0x00"

section \<open>C strings and user strings\<close>

text \<open>\<open>c_string bs\<close> is the string stored in the byte array \<open>bs\<close>: the bytes before the first \<open>NUL\<close>.\<close>

definition c_string :: "char list \<Rightarrow> char list" where
  "c_string bs = takeWhile (\<lambda>c. c \<noteq> NUL) bs"

definition strcpy_at :: "nat \<Rightarrow> char list \<Rightarrow> char list \<Rightarrow> char list" where
  "strcpy_at off dst src =
     take off dst @ c_string src @ [NUL] @ drop (off + length (c_string src) + 1) dst"

text \<open>
  \<open>strncpy_from_user\<close> on the readable bytes \<open>ub\<close> at the user address (reading past them
  faults): the copied bytes and the length without the \<open>NUL\<close>, or \<open>count\<close> when none was found.
\<close>

definition strncpy_from_user :: "nat \<Rightarrow> char list \<Rightarrow> (char list \<times> nat) result" where
  "strncpy_from_user count ub =
     (let bs = take count ub; str = c_string bs in
      if length str < length bs then Inr (str @ [NUL], length str)
      else if length bs = count then Inr (bs, count)
      else Inl EFAULT)"

section \<open>Reference counts of backing files\<close>

definition get_file :: "ptr \<Rightarrow> ashmem_state \<Rightarrow> ashmem_state" where
  "get_file f s = s\<lparr>files := (files s)(f := (files s f)\<lparr>f_count := f_count (files s f) + 1\<rparr>)\<rparr>"

definition fput :: "ptr \<Rightarrow> ashmem_state \<Rightarrow> ashmem_state" where
  "fput f s = s\<lparr>files := (files s)(f := (files s f)\<lparr>f_count := f_count (files s f) - 1\<rparr>)\<rparr>"

definition set_area :: "ptr \<Rightarrow> ashmem_area \<Rightarrow> ashmem_state \<Rightarrow> ashmem_state" where
  "set_area a r s = s\<lparr>areas := (areas s)(a := r)\<rparr>"

section \<open>Open and release\<close>

text \<open>
  \<open>open_ret\<close> is the outcome of \<open>generic_file_open\<close>, \<open>alloc\<close> that of \<open>kmem_cache_zalloc\<close> and
  \<open>mode\<close> the module parameter \<open>ashmem_backing_mode\<close>.
\<close>

definition ashmem_open ::
    "errno option \<Rightarrow> ptr option \<Rightarrow> int \<Rightarrow> ashmem_state \<Rightarrow> ptr result \<times> ashmem_state" where
  "ashmem_open open_ret alloc mode s =
     (case open_ret of Some e \<Rightarrow> (Inl e, s)
      | None \<Rightarrow> (case alloc of None \<Rightarrow> (Inl ENOMEM, s)
        | Some a \<Rightarrow>
            (let area = \<lparr>a_name = ASHMEM_NAME_PREFIX @ replicate ASHMEM_NAME_LEN NUL,
                         unpinned_list = [], a_file = None, a_size = 0, prot_mask = PROT_MASK,
                         backing = (if mode = 1 then ASHMEM_BACKING_MEMFD else ASHMEM_BACKING_SHMEM)\<rparr>;
                 s1 = set_area a area s
             in (Inr a, s1\<lparr>ashmem_area_list := list_add_tail a None (ashmem_area_list s1)\<rparr>))))"

definition ashmem_release :: "ptr \<Rightarrow> ashmem_state \<Rightarrow> ashmem_state" where
  "ashmem_release a s =
     (let ps = unpinned_list (areas s a);
          s1 = s\<lparr>ashmem_area_list := list_del a (ashmem_area_list s)\<rparr>;
          s2 = fold (range_del a) ps s1
      in case a_file (areas s2 a) of None \<Rightarrow> s2 | Some f \<Rightarrow> fput f s2)"

section \<open>Read and seek\<close>

text \<open>
  \<open>vfs_iter_read\<close> and \<open>vfs_llseek\<close> of the backing file are parameters: a read yields the byte
  count (or an error) and the new position; a seek yields the resulting offset or an error and
  the backing file it leaves.
\<close>

definition ashmem_read_iter ::
    "(ptr \<Rightarrow> u64 \<Rightarrow> nat result \<times> u64) \<Rightarrow> ptr \<Rightarrow> u64 \<Rightarrow> ashmem_state \<Rightarrow>
     nat result \<times> u64 \<times> ashmem_state" where
  "ashmem_read_iter vfs_iter_read a ki_pos s =
     (if a_size (areas s a) = 0 then (Inr 0, ki_pos, s)
      else case a_file (areas s a) of
        None \<Rightarrow> (Inl EBADF, ki_pos, s)
      | Some f \<Rightarrow>
          (let (ret, pos) = vfs_iter_read f ki_pos in
           case ret of
             Inr (Suc n) \<Rightarrow> (ret, pos, s\<lparr>files := (files s)(f := (files s f)\<lparr>f_pos := pos\<rparr>)\<rparr>)
           | _ \<Rightarrow> (ret, pos, s)))"

definition ashmem_llseek ::
    "(kfile \<Rightarrow> u64 \<Rightarrow> int \<Rightarrow> u64 result \<times> kfile) \<Rightarrow> ptr \<Rightarrow> u64 \<Rightarrow> u64 \<Rightarrow> int \<Rightarrow> ashmem_state \<Rightarrow>
     u64 result \<times> u64 \<times> ashmem_state" where
  "ashmem_llseek vfs_llseek a fpos offset origin s =
     (if a_size (areas s a) = 0 then (Inl EINVAL, fpos, s)
      else case a_file (areas s a) of
        None \<Rightarrow> (Inl EBADF, fpos, s)
      | Some f \<Rightarrow>
          (let (ret, file) = vfs_llseek (files s f) offset origin;
               s1 = s\<lparr>files := (files s)(f := file)\<rparr>
           in case ret of Inl e \<Rightarrow> (Inl e, fpos, s1) | Inr v \<Rightarrow> (Inr v, f_pos file, s1)))"

section \<open>Mapping\<close>

record ashmem_vma =
  vm_start :: u64
  vm_end :: u64
  vm_flags :: u64
  vm_file :: "ptr option"
  vm_anonymous :: bool

definition calc_vm_trans :: "u64 \<Rightarrow> u64 \<Rightarrow> u64 \<Rightarrow> u64" where
  "calc_vm_trans x bit1 bit2 = (if x AND bit1 = 0 then 0 else bit2)"

definition calc_vm_prot_bits :: "u64 \<Rightarrow> u64" where
  "calc_vm_prot_bits prot = calc_vm_trans prot PROT_READ VM_READ OR
     calc_vm_trans prot PROT_WRITE VM_WRITE OR calc_vm_trans prot PROT_EXEC VM_EXEC"

definition calc_vm_may_flags :: "u64 \<Rightarrow> u64" where
  "calc_vm_may_flags prot = calc_vm_trans prot PROT_READ VM_MAYREAD OR
     calc_vm_trans prot PROT_WRITE VM_MAYWRITE OR calc_vm_trans prot PROT_EXEC VM_MAYEXEC"

text \<open>The compatibility macro is empty on kernels before 6.3 (\<open>since_6_3\<close> false).\<close>

definition compat_vm_flags_clear :: "bool \<Rightarrow> u64 \<Rightarrow> ashmem_vma \<Rightarrow> ashmem_vma" where
  "compat_vm_flags_clear since_6_3 flags vma =
     (if since_6_3 then vma\<lparr>vm_flags := vm_flags vma AND NOT flags\<rparr> else vma)"

definition ashmem_vmfile_mmap :: "ashmem_vma \<Rightarrow> unit result" where
  "ashmem_vmfile_mmap vma = Inl EPERM"

record mmap_env =
  since_6_3 :: bool
  shmem_file_setup :: "char list \<Rightarrow> u64 \<Rightarrow> u64 \<Rightarrow> ptr result"
  shmem_zero_setup :: "ashmem_vma \<Rightarrow> (ptr \<Rightarrow> kfile) \<Rightarrow> errno option \<times> ashmem_vma \<times> (ptr \<Rightarrow> kfile)"

definition ashmem_create_backing_file :: "mmap_env \<Rightarrow> ashmem_area \<Rightarrow> u64 \<Rightarrow> ptr result" where
  "ashmem_create_backing_file env area flags =
     (let nm = (if a_name area ! ASHMEM_NAME_PREFIX_LEN \<noteq> NUL then c_string (a_name area)
                else ASHMEM_NAME_DEF)
      in case backing area of
           ASHMEM_BACKING_MEMFD \<Rightarrow> shmem_file_setup env nm (a_size area) VM_NORESERVE
         | ASHMEM_BACKING_SHMEM \<Rightarrow> shmem_file_setup env nm (a_size area) flags)"

text \<open>
  \<open>ashmem_attach_file\<close> is the block that creates the backing file on the first mapping (a new
  file has one reference); \<open>ashmem_map_file\<close> the rest of the function after it.
\<close>

definition ashmem_attach_file :: "mmap_env \<Rightarrow> ptr \<Rightarrow> u64 \<Rightarrow> ashmem_state \<Rightarrow> (ptr \<times> ashmem_state) result" where
  "ashmem_attach_file env a flags s =
     (case a_file (areas s a) of
        Some f \<Rightarrow> Inr (f, s)
      | None \<Rightarrow> (case ashmem_create_backing_file env (areas s a) flags of
          Inl e \<Rightarrow> Inl e
        | Inr f \<Rightarrow>
            Inr (f, (set_area a ((areas s a)\<lparr>a_file := Some f\<rparr>) s)\<lparr>files :=
              (files s)(f := \<lparr>f_count = 1, f_pos = 0, fmode_lseek = True, f_op_vmfile = True\<rparr>)\<rparr>)))"

definition ashmem_map_file ::
    "mmap_env \<Rightarrow> ptr \<Rightarrow> ashmem_vma \<Rightarrow> ashmem_state \<Rightarrow> unit result \<times> ashmem_vma \<times> ashmem_state" where
  "ashmem_map_file env f vma s =
     (let s1 = get_file f s;
          (ret, vma1, fs) = (if vm_flags vma AND VM_SHARED \<noteq> 0
             then shmem_zero_setup env vma (files s1)
             else (None, vma\<lparr>vm_anonymous := True\<rparr>, files s1));
          s2 = s1\<lparr>files := fs\<rparr>
      in case ret of
           Some e \<Rightarrow> (Inl e, vma1, fput f s2)
         | None \<Rightarrow>
             (let s3 = (case vm_file vma1 of None \<Rightarrow> s2 | Some g \<Rightarrow> fput g s2)
              in (Inr (), vma1\<lparr>vm_file := Some f\<rparr>, s3)))"

definition ashmem_mmap ::
    "mmap_env \<Rightarrow> ptr \<Rightarrow> ashmem_vma \<Rightarrow> ashmem_state \<Rightarrow> unit result \<times> ashmem_vma \<times> ashmem_state" where
  "ashmem_mmap env a vma s =
     (let area = areas s a in
      if a_size area = 0 then (Inl EINVAL, vma, s)
      else if vm_end vma - vm_start vma > PAGE_ALIGN (a_size area) then (Inl EINVAL, vma, s)
      else if (vm_flags vma AND NOT (calc_vm_prot_bits (prot_mask area))) AND
              calc_vm_prot_bits PROT_MASK \<noteq> 0 then (Inl EPERM, vma, s)
      else
        (let vma1 = compat_vm_flags_clear (since_6_3 env) (calc_vm_may_flags (NOT (prot_mask area))) vma
         in case ashmem_attach_file env a (vm_flags vma1) s of
              Inl e \<Rightarrow> (Inl e, vma1, s)
            | Inr (f, s1) \<Rightarrow> ashmem_map_file env f vma1 s1))"

section \<open>The shrinker\<close>

text \<open>
  One round under the mutex takes the first range of the LRU list: it marks the range purged,
  unlinks it and registers the hole punch as in flight. \<open>None\<close> is the dereference of a missing
  backing file. The punch itself runs without the mutex.
\<close>

definition shrink_take :: "ashmem_state \<Rightarrow> ((ptr \<times> ptr \<times> u64 \<times> u64) \<times> u64 \<times> ashmem_state) option" where
  "shrink_take s =
     (case ashmem_lru_list s of [] \<Rightarrow> None
      | p # _ \<Rightarrow>
          (let r = ranges s p in
           case a_file (areas s (asma r)) of None \<Rightarrow> None
           | Some f \<Rightarrow>
               (let x = (f, asma r, pgstart r, pgend r);
                    s1 = get_file f s;
                    s2 = s1\<lparr>inflight := x # inflight s1\<rparr>;
                    s3 = set_range p (r\<lparr>purged := ASHMEM_WAS_PURGED\<rparr>) s2
                in Some (x, range_size r, lru_del p s3))))"

definition shrink_punch :: "(ptr \<times> ptr \<times> u64 \<times> u64) \<Rightarrow> ashmem_state \<Rightarrow> ashmem_state" where
  "shrink_punch x s =
     (case x of (f, a, st, en) \<Rightarrow>
        (let start = st * PAGE_SIZE; e = (en + 1) * PAGE_SIZE;
             s1 = s\<lparr>punched := punched s @ [(f, start, e - start)]\<rparr>;
             s2 = fput f s1
         in s2\<lparr>inflight := remove1 x (inflight s2)\<rparr>))"

text \<open>
  The loop of \<open>ashmem_shrink_scan\<close>. \<open>other i\<close> is what other threads do to the state while the
  mutex is dropped in round \<open>i\<close>, \<open>trylock i\<close> whether it is taken again. \<open>--nr_to_scan <= 0\<close>
  compares an unsigned value, so it tests for zero.
\<close>

lemma unat_dec_twice: "(nr :: u64) \<noteq> 1 \<Longrightarrow> unat (nr - 2) < unat (nr - 1)"
  using measure_unat [of "nr - 1"] by (simp add: diff_diff_eq)

function ashmem_shrink_loop ::
    "(nat \<Rightarrow> bool) \<Rightarrow> (nat \<Rightarrow> ashmem_state \<Rightarrow> ashmem_state) \<Rightarrow> nat \<Rightarrow> u64 \<Rightarrow> u64 \<Rightarrow>
     ashmem_state \<Rightarrow> (u64 \<times> ashmem_state) option" where
  "ashmem_shrink_loop trylock other i nr_to_scan freed s =
     (if ashmem_lru_list s = [] then Some (freed, s)
      else case shrink_take s of None \<Rightarrow> None
      | Some (x, n, s1) \<Rightarrow>
          (let freed' = freed + n; s2 = shrink_punch x (other i s1) in
           if \<not> trylock i then Some (freed', s2)
           else if nr_to_scan - 1 = 0 then Some (freed', s2)
           else ashmem_shrink_loop trylock other (Suc i) (nr_to_scan - 1) freed' s2))"
  by pat_completeness auto
termination
  by (relation "measure (\<lambda>(_, _, _, nr :: u64, _, _). unat (nr - 1))")
    (simp_all add: unat_dec_twice)

declare ashmem_shrink_loop.simps [simp del]

definition SHRINK_STOP :: u64 where "SHRINK_STOP = -1"

definition ashmem_shrink_scan ::
    "bool \<Rightarrow> bool \<Rightarrow> (nat \<Rightarrow> bool) \<Rightarrow> (nat \<Rightarrow> ashmem_state \<Rightarrow> ashmem_state) \<Rightarrow> u64 \<Rightarrow>
     ashmem_state \<Rightarrow> (u64 \<times> ashmem_state) option" where
  "ashmem_shrink_scan gfp_fs trylock0 trylock other nr_to_scan s =
     (if \<not> gfp_fs then Some (SHRINK_STOP, s)
      else if \<not> trylock0 then Some (-1, s)
      else ashmem_shrink_loop trylock other 0 nr_to_scan 0 s)"

definition ashmem_shrink_count :: "ashmem_state \<Rightarrow> u64" where
  "ashmem_shrink_count s = lru_count s"

section \<open>The ioctls\<close>

text \<open>
  \<open>personality\<close> says whether \<open>READ_IMPLIES_EXEC\<close> is set for the caller.
\<close>

definition set_prot_mask :: "bool \<Rightarrow> ptr \<Rightarrow> u64 \<Rightarrow> ashmem_state \<Rightarrow> u64 result \<times> ashmem_state" where
  "set_prot_mask personality a prot s =
     (if prot_mask (areas s a) AND prot \<noteq> prot then (Inl EINVAL, s)
      else
        (let prot' = (if prot AND PROT_READ \<noteq> 0 \<and> personality then prot OR PROT_EXEC else prot)
         in (Inr 0, set_area a ((areas s a)\<lparr>prot_mask := prot'\<rparr>) s)))"

definition set_name :: "ptr \<Rightarrow> char list \<Rightarrow> ashmem_state \<Rightarrow> u64 result \<times> ashmem_state" where
  "set_name a ub s =
     (case strncpy_from_user ASHMEM_NAME_LEN ub of
        Inl e \<Rightarrow> (Inl e, s)
      | Inr (bs, len) \<Rightarrow>
          (let local_name = (if len = ASHMEM_NAME_LEN then bs[ASHMEM_NAME_LEN - 1 := NUL] else bs) in
           if a_file (areas s a) \<noteq> None then (Inl EINVAL, s)
           else (Inr 0, set_area a ((areas s a)\<lparr>a_name :=
                   strcpy_at ASHMEM_NAME_PREFIX_LEN (a_name (areas s a)) local_name\<rparr>) s)))"

text \<open>The bytes \<open>get_name\<close> copies to the user; \<open>writable\<close> says whether \<open>copy_to_user\<close> succeeds.\<close>

definition get_name :: "ptr \<Rightarrow> bool \<Rightarrow> ashmem_state \<Rightarrow> char list result" where
  "get_name a writable s =
     (let nm = a_name (areas s a);
          local_name =
            (if nm ! ASHMEM_NAME_PREFIX_LEN \<noteq> NUL
             then c_string (drop ASHMEM_NAME_PREFIX_LEN nm) @ [NUL]
             else ASHMEM_NAME_DEF @ [NUL])
      in if writable then Inr local_name else Inl EFAULT)"

datatype ashmem_cmd =
    ASHMEM_SET_NAME | ASHMEM_GET_NAME | ASHMEM_SET_SIZE | ASHMEM_GET_SIZE
  | ASHMEM_SET_PROT_MASK | ASHMEM_GET_PROT_MASK | ASHMEM_PIN | ASHMEM_UNPIN
  | ASHMEM_GET_PIN_STATUS | ASHMEM_PURGE_ALL_CACHES
  | COMPAT_ASHMEM_SET_SIZE | COMPAT_ASHMEM_SET_PROT_MASK | ASHMEM_UNKNOWN_CMD

record ashmem_pin_arg =
  pin_offset :: u32
  pin_len :: u32

text \<open>
  The page range a request denotes for an area of \<open>size\<close> bytes, or \<open>None\<close> when a check rejects it.
  The length is a 32-bit field, so the default length is truncated.
\<close>

definition pin_pages :: "u64 \<Rightarrow> ashmem_pin_arg \<Rightarrow> (u64 \<times> u64) option" where
  "pin_pages sz pin =
     (let offset = pin_offset pin;
          len = (if pin_len pin = 0 then ucast (PAGE_ALIGN sz - ucast offset) else pin_len pin)
      in if ucast (offset OR len) AND NOT PAGE_MASK \<noteq> 0 then None
         else if (-1) - offset < len then None
         else if PAGE_ALIGN sz < ucast (offset + len) then None
         else (let start = ucast offset div PAGE_SIZE
               in Some (start, start + ucast len div PAGE_SIZE - 1)))"

text \<open>
  \<open>user_pin\<close> is the structure read by \<open>copy_from_user\<close> (\<open>None\<close>: fault) and \<open>new\<close> the outcome
  of \<open>kmem_cache_zalloc\<close>. The wait for \<open>ashmem_shrink_inflight\<close> to reach zero is over when
  this runs: it is the guard of the corresponding steps of the driver.
\<close>

definition ashmem_pin_unpin ::
    "ptr \<Rightarrow> ashmem_cmd \<Rightarrow> ashmem_pin_arg option \<Rightarrow> ptr option \<Rightarrow> ashmem_state \<Rightarrow> u64 result \<times> ashmem_state" where
  "ashmem_pin_unpin a cmd user_pin new s =
     (case user_pin of None \<Rightarrow> (Inl EFAULT, s)
      | Some pin \<Rightarrow>
          if (cmd = ASHMEM_PIN \<or> cmd = ASHMEM_UNPIN) \<and> new = None then (Inl ENOMEM, s)
          else if a_file (areas s a) = None then (Inl EINVAL, s)
          else case pin_pages (a_size (areas s a)) pin of None \<Rightarrow> (Inl EINVAL, s)
          | Some (st, en) \<Rightarrow>
              (case cmd of
                 ASHMEM_PIN \<Rightarrow> (let (s', ret, _) = ashmem_pin a st en (the new) s in (Inr (ucast ret), s'))
               | ASHMEM_UNPIN \<Rightarrow> (let (s', ret, _) = ashmem_unpin a st en (the new) s in (Inr (ucast ret), s'))
               | ASHMEM_GET_PIN_STATUS \<Rightarrow> (Inr (ucast (ashmem_get_pin_status a st en s)), s)
               | _ \<Rightarrow> (Inl EINVAL, s)))"

text \<open>What the kernel and the caller supply to an ioctl.\<close>

record ioctl_env =
  arg :: u64
  user_bytes :: "char list"
  user_writable :: bool
  user_pin :: "ashmem_pin_arg option"
  new_range :: "ptr option"
  read_implies_exec :: bool
  cap_sys_admin :: bool
  trylock_first :: bool
  trylock_again :: "nat \<Rightarrow> bool"
  others :: "nat \<Rightarrow> ashmem_state \<Rightarrow> ashmem_state"

text \<open>
  The result of the ioctl, the bytes it writes to user memory and the new state; \<open>None\<close> is the
  shrinker's dereference of a missing backing file.
\<close>

definition ashmem_ioctl ::
    "ioctl_env \<Rightarrow> ptr \<Rightarrow> ashmem_cmd \<Rightarrow> ashmem_state \<Rightarrow> (u64 result \<times> char list \<times> ashmem_state) option" where
  "ashmem_ioctl env a cmd s =
     (case cmd of
        ASHMEM_SET_NAME \<Rightarrow> (let (ret, s') = set_name a (user_bytes env) s in Some (ret, [], s'))
      | ASHMEM_GET_NAME \<Rightarrow> (case get_name a (user_writable env) s of
            Inl e \<Rightarrow> Some (Inl e, [], s) | Inr bs \<Rightarrow> Some (Inr 0, bs, s))
      | ASHMEM_SET_SIZE \<Rightarrow>
          if a_file (areas s a) = None
          then Some (Inr 0, [], set_area a ((areas s a)\<lparr>a_size := arg env\<rparr>) s)
          else Some (Inl EINVAL, [], s)
      | ASHMEM_GET_SIZE \<Rightarrow> Some (Inr (a_size (areas s a)), [], s)
      | ASHMEM_SET_PROT_MASK \<Rightarrow>
          (let (ret, s') = set_prot_mask (read_implies_exec env) a (arg env) s in Some (ret, [], s'))
      | ASHMEM_GET_PROT_MASK \<Rightarrow> Some (Inr (prot_mask (areas s a)), [], s)
      | ASHMEM_PIN \<Rightarrow> (let (ret, s') = ashmem_pin_unpin a cmd (user_pin env) (new_range env) s in Some (ret, [], s'))
      | ASHMEM_UNPIN \<Rightarrow> (let (ret, s') = ashmem_pin_unpin a cmd (user_pin env) (new_range env) s in Some (ret, [], s'))
      | ASHMEM_GET_PIN_STATUS \<Rightarrow>
          (let (ret, s') = ashmem_pin_unpin a cmd (user_pin env) (new_range env) s in Some (ret, [], s'))
      | ASHMEM_PURGE_ALL_CACHES \<Rightarrow>
          if \<not> cap_sys_admin env then Some (Inl EPERM, [], s)
          else (case ashmem_shrink_scan True (trylock_first env) (trylock_again env) (others env)
                       (2 ^ 63 - 1) s of
                  None \<Rightarrow> None
                | Some (_, s') \<Rightarrow> Some (Inr (ashmem_shrink_count s), [], s'))
      | _ \<Rightarrow> Some (Inl ENOTTY, [], s))"

definition compat_ashmem_ioctl ::
    "ioctl_env \<Rightarrow> ptr \<Rightarrow> ashmem_cmd \<Rightarrow> ashmem_state \<Rightarrow> (u64 result \<times> char list \<times> ashmem_state) option" where
  "compat_ashmem_ioctl env a cmd s =
     ashmem_ioctl env a
       (case cmd of COMPAT_ASHMEM_SET_SIZE \<Rightarrow> ASHMEM_SET_SIZE
        | COMPAT_ASHMEM_SET_PROT_MASK \<Rightarrow> ASHMEM_SET_PROT_MASK | _ \<Rightarrow> cmd) s"

section \<open>Statistics and module initialisation\<close>

record ashmem_stats =
  total_regions :: u64
  total_size :: u64
  mapped :: u64
  shmem_count :: u64
  memfd_count :: u64

definition ashmem_stats_show :: "ashmem_state \<Rightarrow> ashmem_stats" where
  "ashmem_stats_show s =
     fold (\<lambda>a st.
       (let st1 = st\<lparr>total_regions := total_regions st + 1, total_size := total_size st + a_size (areas s a)\<rparr>;
            st2 = (if a_file (areas s a) \<noteq> None then st1\<lparr>mapped := mapped st1 + 1\<rparr> else st1)
        in if backing (areas s a) = ASHMEM_BACKING_MEMFD
           then st2\<lparr>memfd_count := memfd_count st2 + 1\<rparr>
           else st2\<lparr>shmem_count := shmem_count st2 + 1\<rparr>))
       (ashmem_area_list s)
       \<lparr>total_regions = 0, total_size = 0, mapped = 0, shmem_count = 0, memfd_count = 0\<rparr>"

text \<open>The resources the module holds.\<close>

record ashmem_module =
  area_cachep :: bool
  range_cachep :: bool
  misc_registered :: bool
  shrinker_registered :: bool
  debugfs :: bool

definition ashmem_module_none :: ashmem_module where
  "ashmem_module_none = \<lparr>area_cachep = False, range_cachep = False, misc_registered = False,
     shrinker_registered = False, debugfs = False\<rparr>"

text \<open>
  The outcomes of the two cache creations, of \<open>misc_register\<close> and of the shrinker set-up;
  \<open>shrinker_dynamic\<close> is \<open>COMPAT_SHRINKER_DYNAMIC\<close>. The result is the return value (\<open>None\<close>: 0).
\<close>

record init_env =
  area_cache_ok :: bool
  range_cache_ok :: bool
  misc_register_ret :: "errno option"
  shrinker_dynamic :: bool
  shrinker_ret :: "errno option"

definition ashmem_init :: "init_env \<Rightarrow> errno option \<times> ashmem_module" where
  "ashmem_init env =
     (if \<not> area_cache_ok env then (Some ENOMEM, ashmem_module_none)
      else let m1 = ashmem_module_none\<lparr>area_cachep := True\<rparr> in
      if \<not> range_cache_ok env then (Some ENOMEM, m1\<lparr>area_cachep := False\<rparr>)
      else let m2 = m1\<lparr>range_cachep := True\<rparr> in
      case misc_register_ret env of
        Some e \<Rightarrow> (Some e, m2\<lparr>range_cachep := False, area_cachep := False\<rparr>)
      | None \<Rightarrow>
          (let m3 = m2\<lparr>misc_registered := True\<rparr> in
           case shrinker_ret env of
             Some e \<Rightarrow>
               (if shrinker_dynamic env then None else Some e,
                m3\<lparr>misc_registered := False, range_cachep := False, area_cachep := False\<rparr>)
           | None \<Rightarrow> (None, m3\<lparr>shrinker_registered := True, debugfs := True\<rparr>)))"

definition ashmem_exit :: "ashmem_module \<Rightarrow> ashmem_module" where
  "ashmem_exit m = m\<lparr>debugfs := False, shrinker_registered := False, misc_registered := False,
     range_cachep := False, area_cachep := False\<rparr>"

end
