(* ===== verification/Ashmem_Range_Inv.thy ===== *)
theory Ashmem_Range_Inv
  imports Ashmem_Range
begin

text \<open>
  The invariant of the unpinned ranges and its preservation by the range primitives; the
  abstract view of an area as the set of its unpinned pages. There are two invariants: \<open>ashmem_wf\<close> lets
  ranges be empty, as requests for no page leave them, and is kept by the whole driver; \<open>ashmem_inv\<close> is
  the same without empty ranges.
\<close>

section \<open>The abstract view and the invariant\<close>

definition range_pages :: "ashmem_range \<Rightarrow> u64 set" where
  "range_pages r = {pgstart r .. pgend r}"

definition unpinned_pages :: "ashmem_state \<Rightarrow> ptr \<Rightarrow> u64 set" where
  "unpinned_pages s a = (\<Union>p\<in>set (unpinned_list (areas s a)). range_pages (ranges s p))"

text \<open>
  The bounds of a request or range: the first page and the last page. The checks of the driver let requests for no page pass; their
  last page is the one before the first.
\<close>

definition bounds_wf :: "u64 \<Rightarrow> u64 \<Rightarrow> bool" where
  "bounds_wf st en \<longleftrightarrow> st \<le> en \<or> st \<noteq> 0 \<and> en = st - 1"

lemma bounds_wf_le [simp]: "st \<le> en \<Longrightarrow> bounds_wf st en"
  by (simp add: bounds_wf_def)

lemma bounds_wfD: "bounds_wf st en \<Longrightarrow> x < st \<Longrightarrow> x \<le> en"
  using word_le_pred_iff [of x st x] by (auto simp: bounds_wf_def)

lemma bounds_wf_empty: "bounds_wf st en \<Longrightarrow> \<not> st \<le> en \<Longrightarrow> en < st"
  by simp

text \<open>The list of an area holds ranges, disjoint and in descending order; a range may be empty after a request for no page.\<close>

definition ranges_wf :: "(ptr \<Rightarrow> ashmem_range) \<Rightarrow> ptr list \<Rightarrow> bool" where
  "ranges_wf rs ps \<longleftrightarrow> (\<forall>p\<in>set ps. bounds_wf (pgstart (rs p)) (pgend (rs p))) \<and> distinct ps \<and>
     sorted_wrt (\<lambda>p q. pgend (rs q) < pgstart (rs p)) ps"

definition live_ranges :: "ashmem_state \<Rightarrow> ptr set" where
  "live_ranges s = (\<Union>a\<in>set (ashmem_area_list s). set (unpinned_list (areas s a)))"

definition ashmem_wf :: "ashmem_state \<Rightarrow> bool" where
  "ashmem_wf s \<longleftrightarrow>
     distinct (ashmem_area_list s) \<and>
     (\<forall>a\<in>set (ashmem_area_list s). ranges_wf (ranges s) (unpinned_list (areas s a)) \<and>
        (\<forall>p\<in>set (unpinned_list (areas s a)). asma (ranges s p) = a)) \<and>
     distinct (ashmem_lru_list s) \<and>
     set (ashmem_lru_list s) = {p \<in> live_ranges s. range_on_lru (ranges s p)} \<and>
     lru_count s = (\<Sum>p\<leftarrow>ashmem_lru_list s. range_size (ranges s p))"

lemma ashmem_wfD:
  assumes "ashmem_wf s"
  shows "distinct (ashmem_area_list s)"
    and "a \<in> set (ashmem_area_list s) \<Longrightarrow> ranges_wf (ranges s) (unpinned_list (areas s a))"
    and "a \<in> set (ashmem_area_list s) \<Longrightarrow> p \<in> set (unpinned_list (areas s a)) \<Longrightarrow>
           asma (ranges s p) = a"
    and "distinct (ashmem_lru_list s)"
    and "p \<in> set (ashmem_lru_list s) \<longleftrightarrow> p \<in> live_ranges s \<and> range_on_lru (ranges s p)"
    and "lru_count s = (\<Sum>p\<leftarrow>ashmem_lru_list s. range_size (ranges s p))"
  using assms unfolding ashmem_wf_def by auto

lemma ranges_wf_Nil [simp]: "ranges_wf rs []"
  by (simp add: ranges_wf_def)

lemma ranges_wf_distinct: "ranges_wf rs ps \<Longrightarrow> distinct ps"
  by (simp add: ranges_wf_def)

lemma ranges_wf_Cons:
  "ranges_wf rs (p # ps) \<longleftrightarrow> bounds_wf (pgstart (rs p)) (pgend (rs p)) \<and> p \<notin> set ps \<and>
     (\<forall>q\<in>set ps. pgend (rs q) < pgstart (rs p)) \<and> ranges_wf rs ps"
  by (auto simp: ranges_wf_def)

lemma ranges_wf_append:
  "ranges_wf rs (ps @ qs) \<longleftrightarrow> ranges_wf rs ps \<and> ranges_wf rs qs \<and> set ps \<inter> set qs = {} \<and>
     (\<forall>p\<in>set ps. \<forall>q\<in>set qs. pgend (rs q) < pgstart (rs p))"
  by (auto simp: ranges_wf_def sorted_wrt_append)

lemma ranges_wf_cong:
  "(\<And>p. p \<in> set ps \<Longrightarrow> pgstart (rs' p) = pgstart (rs p) \<and> pgend (rs' p) = pgend (rs p)) \<Longrightarrow>
   ranges_wf rs' ps = ranges_wf rs ps"
  by (induction ps) (auto simp: ranges_wf_Cons)

section \<open>What the primitives change\<close>

lemma range_shrink_simps [simp]:
  "areas (range_shrink p st e s) = areas s"
  "ashmem_area_list (range_shrink p st e s) = ashmem_area_list s"
  "ashmem_lru_list (range_shrink p st e s) = ashmem_lru_list s"
  "ranges (range_shrink p st e s) = (ranges s)(p := (ranges s p)\<lparr>pgstart := st, pgend := e\<rparr>)"
  by (simp_all add: range_shrink_def set_range_def Let_def)

lemma range_del_simps [simp]:
  "areas (range_del a p s) = (areas s)(a := (areas s a)\<lparr>unpinned_list :=
      list_del p (unpinned_list (areas s a))\<rparr>)"
  "ashmem_area_list (range_del a p s) = ashmem_area_list s"
  "ashmem_lru_list (range_del a p s) =
     (if range_on_lru (ranges s p) then list_del p (ashmem_lru_list s) else ashmem_lru_list s)"
  "ranges (range_del a p s) = ranges s"
  "lru_count (range_del a p s) =
     (if range_on_lru (ranges s p) then lru_count s - range_size (ranges s p) else lru_count s)"
  by (simp_all add: range_del_def set_unpinned_def lru_del_def Let_def)

lemma range_alloc_simps [simp]:
  "areas (range_alloc a pos pu st e p s) = (areas s)(a := (areas s a)\<lparr>unpinned_list :=
      list_add_tail p pos (unpinned_list (areas s a))\<rparr>)"
  "ashmem_area_list (range_alloc a pos pu st e p s) = ashmem_area_list s"
  "ashmem_lru_list (range_alloc a pos pu st e p s) =
     (if pu = ASHMEM_NOT_PURGED then ashmem_lru_list s @ [p] else ashmem_lru_list s)"
  "ranges (range_alloc a pos pu st e p s) =
     (ranges s)(p := \<lparr>asma = a, pgstart = st, pgend = e, purged = pu\<rparr>)"
  "lru_count (range_alloc a pos pu st e p s) =
     (if pu = ASHMEM_NOT_PURGED then lru_count s + (e - st + 1) else lru_count s)"
  by (simp_all add: range_alloc_def set_unpinned_def set_range_def lru_add_def Let_def
      range_on_lru_def range_size_def)

section \<open>Preservation by the primitives\<close>

lemma lru_not_live: "ashmem_wf s \<Longrightarrow> p \<notin> live_ranges s \<Longrightarrow> p \<notin> set (ashmem_lru_list s)"
  by (simp add: ashmem_wfD)

lemma live_rangesI:
  "a \<in> set (ashmem_area_list s) \<Longrightarrow> p \<in> set (unpinned_list (areas s a)) \<Longrightarrow> p \<in> live_ranges s"
  by (auto simp: live_ranges_def)

lemma ashmem_wf_range_shrink:
  assumes inv: "ashmem_wf s" and a: "a \<in> set (ashmem_area_list s)"
    and p: "p \<in> set (unpinned_list (areas s a))"
    and sub: "pgstart (ranges s p) \<le> st" "st \<le> e" "e \<le> pgend (ranges s p)"
  shows "ashmem_wf (range_shrink p st e s)"
proof -
  let ?r = "(ranges s p)\<lparr>pgstart := st, pgend := e\<rparr>"
  have ok: "ranges_wf ((ranges s)(p := ?r)) ps" if "ranges_wf (ranges s) ps" for ps
    using that sub
    by (induction ps) (auto simp: ranges_wf_Cons intro: le_less_trans less_le_trans)
  have lru: "p \<in> set (ashmem_lru_list s) \<longleftrightarrow> range_on_lru (ranges s p)"
    using inv live_rangesI [OF a p] by (simp add: ashmem_wfD)
  have cnt: "lru_count (range_shrink p st e s) =
      (\<Sum>q\<leftarrow>ashmem_lru_list s. range_size (((ranges s)(p := ?r)) q))"
  proof (cases "range_on_lru (ranges s p)")
    case True
    then have "p \<in> set (ashmem_lru_list s)" by (simp add: lru)
    with inv have "(\<Sum>q\<leftarrow>ashmem_lru_list s. range_size (((ranges s)(p := ?r)) q)) =
        lru_count s - range_size (ranges s p) + range_size ?r"
      by (subst sum_list_map_upd [where f = "\<lambda>q. range_size (ranges s q)"])
        (auto simp: ashmem_wfD)
    with True show ?thesis
      by (simp add: range_shrink_def set_range_def Let_def range_on_lru_def)
  next
    case False
    then have "p \<notin> set (ashmem_lru_list s)" by (simp add: lru)
    then have "(\<Sum>q\<leftarrow>ashmem_lru_list s. range_size (((ranges s)(p := ?r)) q)) =
        (\<Sum>q\<leftarrow>ashmem_lru_list s. range_size (ranges s q))"
      by (intro arg_cong [where f = sum_list] map_cong) auto
    with False inv show ?thesis
      by (simp add: range_shrink_def set_range_def Let_def range_on_lru_def ashmem_wfD)
  qed
  show ?thesis
    unfolding ashmem_wf_def cnt
    using inv ok
    by (auto simp: ashmem_wfD live_ranges_def range_on_lru_def)
qed

lemma ashmem_wf_range_del:
  assumes inv: "ashmem_wf s" and a: "a \<in> set (ashmem_area_list s)"
    and p: "p \<in> set (unpinned_list (areas s a))"
  shows "ashmem_wf (range_del a p s)"
proof -
  note ok = ashmem_wfD(2) [OF inv a]
  have d: "distinct (unpinned_list (areas s a))" by (rule ranges_wf_distinct [OF ok])
  have ok': "ranges_wf (ranges s) (list_del p (unpinned_list (areas s a)))"
  proof -
    obtain us vs where "unpinned_list (areas s a) = us @ p # vs" using p by (auto simp: in_set_conv_decomp)
    with d ok show ?thesis by (auto simp: list_del_split ranges_wf_append ranges_wf_Cons)
  qed
  have live: "live_ranges (range_del a p s) = live_ranges s - {p}"
  proof -
    have "p \<notin> set (unpinned_list (areas s b))" if "b \<in> set (ashmem_area_list s)" "b \<noteq> a" for b
      using that ashmem_wfD(3) [OF inv] a p by metis
    with d a show ?thesis by (auto simp: live_ranges_def split: if_splits)
  qed
  have lru: "p \<in> set (ashmem_lru_list s) \<longleftrightarrow> range_on_lru (ranges s p)"
    using inv live_rangesI [OF a p] by (simp add: ashmem_wfD)
  have cnt: "lru_count (range_del a p s) =
      (\<Sum>q\<leftarrow>ashmem_lru_list (range_del a p s). range_size (ranges s q))"
    using inv lru by (auto simp: ashmem_wfD sum_list_map_list_del)
  show ?thesis
    unfolding ashmem_wf_def cnt live
    using inv d a ok' lru
    by (auto simp: ashmem_wfD)
qed

lemma ashmem_wf_range_alloc:
  assumes inv: "ashmem_wf s" and a: "a \<in> set (ashmem_area_list s)"
    and new: "p \<notin> live_ranges s"
    and pos: "case pos of None \<Rightarrow> True | Some q \<Rightarrow> q \<in> set (unpinned_list (areas s a))"
    and ok: "ranges_wf ((ranges s)(p := \<lparr>asma = a, pgstart = st, pgend = e, purged = pu\<rparr>))
               (list_add_tail p pos (unpinned_list (areas s a)))"
  shows "ashmem_wf (range_alloc a pos pu st e p s)"
proof -
  let ?r = "\<lparr>asma = a, pgstart = st, pgend = e, purged = pu\<rparr>"
  have set': "set (list_add_tail p pos (unpinned_list (areas s a))) =
      insert p (set (unpinned_list (areas s a)))"
    using pos by (auto simp: list_add_tail_def split: option.splits)
  have live: "live_ranges (range_alloc a pos pu st e p s) = insert p (live_ranges s)"
    using a set' by (auto simp: live_ranges_def split: if_splits)
  have notin: "p \<notin> set (unpinned_list (areas s b))" if "b \<in> set (ashmem_area_list s)" for b
    using new that by (auto simp: live_ranges_def)
  have ok': "ranges_wf ((ranges s)(p := ?r)) (unpinned_list (areas s b))"
    if "b \<in> set (ashmem_area_list s)" for b
    using ashmem_wfD(2) [OF inv that] notin [OF that]
    by (subst ranges_wf_cong [where rs = "ranges s"]) auto
  have nlru: "p \<notin> set (ashmem_lru_list s)" using lru_not_live [OF inv new] .
  then have cnt0: "(\<Sum>q\<leftarrow>ashmem_lru_list s. range_size (((ranges s)(p := ?r)) q)) = lru_count s"
    using inv by (subst ashmem_wfD(6), simp, intro arg_cong [where f = sum_list] map_cong) auto
  have cnt: "lru_count (range_alloc a pos pu st e p s) =
      (\<Sum>q\<leftarrow>ashmem_lru_list (range_alloc a pos pu st e p s). range_size (((ranges s)(p := ?r)) q))"
    using cnt0 by (simp add: range_size_def)
  show ?thesis
    unfolding ashmem_wf_def cnt live
    using inv a ok ok' nlru new set' notin
    by (auto simp: ashmem_wfD range_on_lru_def)
qed

lemma range_alloc_shrink_commute:
  assumes "p \<noteq> q"
  shows "range_shrink p st e (range_alloc a pos pu st' e' q s) =
         range_alloc a pos pu st' e' q (range_shrink p st e s)"
  using assms
  by (simp add: range_shrink_def range_alloc_def set_range_def set_unpinned_def lru_add_def
      Let_def range_on_lru_def range_size_def fun_upd_twist algebra_simps)

section \<open>Without empty ranges\<close>

text \<open>The stronger invariant of a history without requests for no page: all ranges are non-empty.\<close>

definition ranges_ok :: "(ptr \<Rightarrow> ashmem_range) \<Rightarrow> ptr list \<Rightarrow> bool" where
  "ranges_ok rs ps \<longleftrightarrow> (\<forall>p\<in>set ps. pgstart (rs p) \<le> pgend (rs p)) \<and>
     sorted_wrt (\<lambda>p q. pgend (rs q) < pgstart (rs p)) ps"

definition ashmem_inv :: "ashmem_state \<Rightarrow> bool" where
  "ashmem_inv s \<longleftrightarrow>
     distinct (ashmem_area_list s) \<and>
     (\<forall>a\<in>set (ashmem_area_list s). ranges_ok (ranges s) (unpinned_list (areas s a)) \<and>
        (\<forall>p\<in>set (unpinned_list (areas s a)). asma (ranges s p) = a)) \<and>
     distinct (ashmem_lru_list s) \<and>
     set (ashmem_lru_list s) = {p \<in> live_ranges s. range_on_lru (ranges s p)} \<and>
     lru_count s = (\<Sum>p\<leftarrow>ashmem_lru_list s. range_size (ranges s p))"

definition all_full :: "ashmem_state \<Rightarrow> ptr \<Rightarrow> bool" where
  "all_full s a \<longleftrightarrow> (\<forall>p\<in>set (unpinned_list (areas s a)). pgstart (ranges s p) \<le> pgend (ranges s p))"

lemma ranges_ok_distinct: "ranges_ok rs ps \<Longrightarrow> distinct ps"
  unfolding ranges_ok_def by (induction ps) (auto simp: not_le [symmetric])

lemma ranges_ok_iff: "ranges_ok rs ps \<longleftrightarrow> ranges_wf rs ps \<and> (\<forall>p\<in>set ps. pgstart (rs p) \<le> pgend (rs p))"
  using ranges_ok_distinct [of rs ps] by (auto simp: ranges_ok_def ranges_wf_def)

lemma ashmem_inv_iff: "ashmem_inv s \<longleftrightarrow> ashmem_wf s \<and> (\<forall>a\<in>set (ashmem_area_list s). all_full s a)"
  by (auto simp: ashmem_inv_def ashmem_wf_def ranges_ok_iff all_full_def)

end
