(* ===== verification/Ashmem_Range_Spec.thy ===== *)
theory Ashmem_Range_Spec
  imports Ashmem_Range_Inv
begin

text \<open>
  What pinning and unpinning do to the set of unpinned pages of an area, with the invariant,
  and the contract of a page-range tracker as a locale, interpreted on the driver's operations.
\<close>

section \<open>Overlap tests\<close>

lemma range_before_page_disjoint:
  "range_before_page r st \<Longrightarrow> range_pages r \<inter> {st..en} = {}"
  by (auto simp: range_before_page_def range_pages_def)

lemma page_range_in_range_iff:
  assumes "st \<le> en" "pgstart r \<le> pgend r"
  shows "page_range_in_range r st en \<longleftrightarrow> range_pages r \<inter> {st..en} \<noteq> {}"
proof -
  have "range_pages r \<inter> {st..en} = {max (pgstart r) st .. min (pgend r) en}"
    by (auto simp: range_pages_def)
  moreover have "\<dots> \<noteq> {} \<longleftrightarrow> max (pgstart r) st \<le> min (pgend r) en" by auto
  moreover have "\<dots> \<longleftrightarrow> page_range_in_range r st en"
    using assms
    by (auto simp: page_range_in_range_def page_in_range_def page_range_subsumes_range_def
        max_def min_def)
  ultimately show ?thesis by simp
qed

text \<open>A range that the walk finds overlapping the request; when neither is empty they share a page.\<close>

definition hits :: "ashmem_range \<Rightarrow> u64 \<Rightarrow> u64 \<Rightarrow> bool" where
  "hits r st en \<longleftrightarrow> \<not> range_before_page r st \<and> page_range_in_range r st en"

lemma hits_iff:
  assumes "st \<le> en" "pgstart r \<le> pgend r"
  shows "hits r st en \<longleftrightarrow> range_pages r \<inter> {st..en} \<noteq> {}"
  using page_range_in_range_iff [OF assms] range_before_page_disjoint [of r st en] by (auto simp: hits_def)

lemma misses_above:
  assumes "bounds_wf st en" "\<not> range_before_page r st" "\<not> page_range_in_range r st en"
  shows "en < pgstart r"
proof (rule ccontr)
  assume "\<not> en < pgstart r"
  then have "pgstart r \<le> en" by simp
  moreover have "st \<le> pgend r" using assms(2) by (simp add: range_before_page_def)
  ultimately show False
    using assms(3) unfolding page_range_in_range_def page_in_range_def page_range_subsumes_range_def by (meson le_cases)
qed

lemma above_disjoint: "en < pgstart r \<Longrightarrow> range_pages r \<inter> {st..en} = {}"
  by (auto simp: range_pages_def)

text \<open>In a descending list, once one range lies before the request all later ones do.\<close>

lemma ranges_wf_before:
  assumes "ranges_wf rs (p # ps)" "range_before_page (rs p) st" "q \<in> set (p # ps)"
  shows "range_before_page (rs q) st"
proof (cases "q = p")
  case False
  with assms have "pgend (rs q) < pgstart (rs p)" "bounds_wf (pgstart (rs p)) (pgend (rs p))" "pgend (rs p) < st"
    by (auto simp: ranges_wf_Cons range_before_page_def)
  then show ?thesis using bounds_wfD by (auto simp: range_before_page_def intro: le_less_trans)
qed (use assms in simp)

lemma unpinned_pages_eq:
  "unpinned_list (areas s a) = us @ ps \<Longrightarrow> unpinned_pages s a =
     (\<Union>p\<in>set us. range_pages (ranges s p)) \<union> (\<Union>p\<in>set ps. range_pages (ranges s p))"
  by (simp add: unpinned_pages_def)

section \<open>The pin status\<close>

lemma get_pin_status_loop:
  assumes "ranges_ok rs ps" "st \<le> en"
  shows "ashmem_get_pin_status_loop rs st en ps = ASHMEM_IS_UNPINNED \<longleftrightarrow>
     (\<Union>p\<in>set ps. range_pages (rs p)) \<inter> {st..en} \<noteq> {}"
  using assms(1)
proof (induction ps)
  case (Cons p ps)
  have wf: "ranges_wf rs (p # ps)" "ranges_ok rs ps" "pgstart (rs p) \<le> pgend (rs p)" using Cons.prems by (auto simp: ranges_ok_iff ranges_wf_Cons)
  show ?case
  proof (cases "range_before_page (rs p) st")
    case True
    have "(\<Union>q\<in>set (p # ps). range_pages (rs q)) \<inter> {st..en} = {}"
      using range_before_page_disjoint [OF ranges_wf_before [OF wf(1) True]] by blast
    with True show ?thesis by (simp add: ASHMEM_IS_PINNED_def ASHMEM_IS_UNPINNED_def)
  next
    case False
    with Cons.IH wf assms(2) show ?thesis
      using page_range_in_range_iff [of st en "rs p"] by auto
  qed
qed (simp add: ASHMEM_IS_PINNED_def ASHMEM_IS_UNPINNED_def)

section \<open>Pinning\<close>

text \<open>The pages left when a request overlaps the start, the end or the middle of a range.\<close>

lemma range_pages_diff:
  "x \<in> range_pages r - {st..en} \<longleftrightarrow> pgstart r \<le> x \<and> x \<le> pgend r \<and> (x < st \<or> en < x)"
  by (auto simp: range_pages_def not_le)

lemma shrink_front_pages:
  assumes "st \<le> pgstart r" "pgstart r \<le> en + 1" "en < pgend r"
  shows "range_pages r - {st..en} = {en + 1 .. pgend r}"
proof (rule set_eqI)
  fix x
  have "x \<in> range_pages r - {st..en} \<longleftrightarrow> en + 1 \<le> x \<and> x \<le> pgend r"
    unfolding range_pages_diff word_succ_le_iff [OF assms(3)] using assms word_succ_le_iff [OF assms(3), of x]
    by (meson leD le_less_trans less_le_trans less_imp_le order_trans)
  then show "x \<in> range_pages r - {st..en} \<longleftrightarrow> x \<in> {en + 1 .. pgend r}" by simp
qed

lemma shrink_rear_pages:
  assumes "pgstart r < st" "st \<le> pgend r" "pgend r \<le> en"
  shows "range_pages r - {st..en} = {pgstart r .. st - 1}"
proof (rule set_eqI)
  fix x
  have "x \<in> range_pages r - {st..en} \<longleftrightarrow> pgstart r \<le> x \<and> x < st"
    unfolding range_pages_diff using assms
    by (meson leD le_less_trans less_le_trans less_imp_le order_trans)
  then show "x \<in> range_pages r - {st..en} \<longleftrightarrow> x \<in> {pgstart r .. st - 1}"
    by (simp add: word_le_pred_iff [OF assms(1)])
qed

lemma split_pages:
  assumes "pgstart r < st" "bounds_wf st en" "en < pgend r"
  shows "range_pages r - {st..en} = {pgstart r .. st - 1} \<union> {en + 1 .. pgend r}"
proof (rule set_eqI)
  fix x
  have a: "x \<le> pgend r" if "x < st" using bounds_wfD [OF assms(2) that] assms(3) by simp
  have b: "pgstart r \<le> x" if "en < x" using bounds_wfD [OF assms(2,1)] that by simp
  have "x \<in> range_pages r - {st..en} \<longleftrightarrow>
      (pgstart r \<le> x \<and> x < st) \<or> (en < x \<and> x \<le> pgend r)"
    unfolding range_pages_diff using a b by blast
  then show "x \<in> range_pages r - {st..en} \<longleftrightarrow> x \<in> {pgstart r .. st - 1} \<union> {en + 1 .. pgend r}"
    by (simp add: word_le_pred_iff [OF assms(1)] word_succ_le_iff [OF assms(3)])
qed

text \<open>
  The bits a pin call reports: the disjunction of the purge marks of the ranges it overlaps.
\<close>

definition overlap_purged :: "(ptr \<Rightarrow> ashmem_range) \<Rightarrow> u64 \<Rightarrow> u64 \<Rightarrow> ptr list \<Rightarrow> u32 \<Rightarrow> u32" where
  "overlap_purged rs st en ps ret =
     foldl (\<lambda>acc p. acc OR purged (rs p)) ret
       (filter (\<lambda>p. hits (rs p) st en) ps)"

lemma foldl_or_zero:
  "foldl (\<lambda>acc p. acc OR f p) (x :: 'a::len word) ps = 0 \<longleftrightarrow> x = 0 \<and> (\<forall>p\<in>set ps. f p = 0)"
  by (induction ps arbitrary: x) (auto simp: word_or_eq_0_iff)

text \<open>One step of the walk: what deleting, shrinking or splitting the current range leaves.\<close>

definition pin_post ::
    "ptr \<Rightarrow> u64 \<Rightarrow> u64 \<Rightarrow> ptr \<Rightarrow> ptr list \<Rightarrow> u32 \<Rightarrow> ashmem_state \<Rightarrow>
     ashmem_state \<times> u32 \<times> ptr option \<Rightarrow> bool" where
  "pin_post a st en new ps ret s = (\<lambda>(s', ret', nr).
     ashmem_wf s' \<and> (all_full s a \<longrightarrow> all_full s' a) \<and>
     unpinned_pages s' a = unpinned_pages s a - {st..en} \<and>
     ret' = overlap_purged (ranges s) st en ps ret \<and>
     ashmem_area_list s' = ashmem_area_list s \<and>
     (\<forall>b. b \<noteq> a \<longrightarrow> areas s' b = areas s b) \<and>
     (\<forall>q. q \<notin> set (unpinned_list (areas s a)) \<and> q \<noteq> new \<longrightarrow> ranges s' q = ranges s q))"

lemma overlap_purged_cong:
  "(\<And>p. p \<in> set ps \<Longrightarrow> rs' p = rs p) \<Longrightarrow> overlap_purged rs' st en ps ret = overlap_purged rs st en ps ret"
  unfolding overlap_purged_def
  by (intro foldl_cong filter_cong) (auto cong: filter_cong)

lemma overlap_purged_disjoint:
  "(\<And>p. p \<in> set ps \<Longrightarrow> \<not> hits (rs p) st en) \<Longrightarrow> overlap_purged rs st en ps ret = ret"
  by (simp add: overlap_purged_def filter_False)

lemma overlap_purged_Cons:
  "overlap_purged rs st en (p # ps) ret =
     overlap_purged rs st en ps
       (if hits (rs p) st en then ret OR purged (rs p) else ret)"
  by (simp add: overlap_purged_def)

lemma pin_postI:
  assumes "ashmem_wf s'" and "all_full s a \<Longrightarrow> all_full s' a" and "unpinned_pages s' a = unpinned_pages s a - {st..en}"
    and "ret' = overlap_purged (ranges s) st en ps ret"
    and "ashmem_area_list s' = ashmem_area_list s"
    and "\<And>b. b \<noteq> a \<Longrightarrow> areas s' b = areas s b"
    and "\<And>q. q \<notin> set (unpinned_list (areas s a)) \<Longrightarrow> q \<noteq> new \<Longrightarrow> ranges s' q = ranges s q"
  shows "pin_post a st en new ps ret s (s', ret', nr)"
  using assms by (simp add: pin_post_def)

text \<open>Continuing the walk from a state that differs from \<open>s\<close> only in the current range.\<close>

lemma pin_post_step:
  assumes "pin_post a st en new ps (ret OR purged (ranges s p)) s1 res"
    and "hits (ranges s p) st en"
    and "unpinned_pages s1 a - {st..en} = unpinned_pages s a - {st..en}"
    and "ashmem_area_list s1 = ashmem_area_list s" and "\<And>b. b \<noteq> a \<Longrightarrow> areas s1 b = areas s b"
    and "\<And>q. q \<noteq> p \<Longrightarrow> ranges s1 q = ranges s q" and "p \<notin> set ps"
    and "p \<in> set (unpinned_list (areas s a))"
    and "set (unpinned_list (areas s1 a)) \<subseteq> set (unpinned_list (areas s a))"
    and "all_full s a \<Longrightarrow> all_full s1 a"
  shows "pin_post a st en new (p # ps) ret s res"
proof -
  have "overlap_purged (ranges s1) st en ps r = overlap_purged (ranges s) st en ps r" for r
    using assms(6,7) by (intro overlap_purged_cong) metis
  moreover have "ranges s1 q = ranges s q \<and> q \<notin> set (unpinned_list (areas s1 a))"
    if "q \<notin> set (unpinned_list (areas s a))" for q
    using that assms(6,8,9) by (metis subsetD)
  ultimately show ?thesis
    using assms(1-5,10) by (cases res) (simp add: pin_post_def overlap_purged_Cons)
qed

lemma hits_bounds:
  assumes "hits r st en" "bounds_wf st en"
  shows "st \<le> pgend r" and "en < pgend r \<Longrightarrow> pgstart r \<le> en + 1"
proof -
  show "st \<le> pgend r" using assms(1) by (simp add: hits_def range_before_page_def not_less)
  assume e: "en < pgend r"
  then have s: "x \<le> en \<Longrightarrow> x \<le> en + 1" for x using word_succ_le_iff [OF e, of "en + 1"] by (meson less_imp_le order_trans order_refl)
  have "pgstart r \<le> st \<or> pgstart r \<le> en"
    using assms(1) e by (auto simp: hits_def page_range_in_range_def page_in_range_def page_range_subsumes_range_def)
  moreover have "st \<le> en + 1" using assms(2) s by (auto simp: bounds_wf_def)
  ultimately show "pgstart r \<le> en + 1" using s by (meson order_trans)
qed

lemma unpinned_pages_split:
  assumes "unpinned_list (areas s a) = us @ p # ps"
  shows "unpinned_pages s a = (\<Union>q\<in>set us \<union> set ps. range_pages (ranges s q)) \<union> range_pages (ranges s p)"
  using assms by (auto simp: unpinned_pages_def)

lemma unpinned_pages_shrink:
  assumes "unpinned_list (areas s a) = us @ p # ps" "p \<notin> set us" "p \<notin> set ps"
  shows "unpinned_pages (range_shrink p x y s) a =
    (\<Union>q\<in>set us \<union> set ps. range_pages (ranges s q)) \<union> {x..y}"
proof -
  let ?rs = "ranges (range_shrink p x y s)"
  have "unpinned_pages (range_shrink p x y s) a =
      (\<Union>q\<in>set us \<union> set ps. range_pages (?rs q)) \<union> range_pages (?rs p)"
    using assms(1) by (intro unpinned_pages_split) simp
  also have "(\<Union>q\<in>set us \<union> set ps. range_pages (?rs q)) =
      (\<Union>q\<in>set us \<union> set ps. range_pages (ranges s q))"
    using assms(2,3) by (intro SUP_cong) auto
  finally show ?thesis by (simp add: range_pages_def)
qed

lemma unpinned_pages_del:
  assumes "unpinned_list (areas s a) = us @ p # ps" "p \<notin> set us"
  shows "unpinned_pages (range_del a p s) a = (\<Union>q\<in>set us \<union> set ps. range_pages (ranges s q))"
  using assms by (auto simp: unpinned_pages_def list_del_split)

lemma live_ranges_shrink [simp]: "live_ranges (range_shrink p x y s) = live_ranges s"
  by (simp add: live_ranges_def)

lemma live_ranges_del_subset: "live_ranges (range_del a p s) \<subseteq> live_ranges s"
  using set_remove1_subset [of p "unpinned_list (areas s a)"]
  by (fastforce simp: live_ranges_def list_del_def split: if_splits)

text \<open>Splitting: the state after the hole is punched, and its invariant.\<close>

lemma ashmem_wf_split:
  assumes inv: "ashmem_wf s" and a: "a \<in> set (ashmem_area_list s)"
    and ls: "unpinned_list (areas s a) = us @ p # ps" and new: "new \<notin> live_ranges s"
    and b: "pgstart (ranges s p) < st" "bounds_wf st en" "en < pgend (ranges s p)"
    and s': "s' = range_shrink p (pgstart (ranges s p)) (st - 1)
       (range_alloc a (Some p) pu (en + 1) (pgend (ranges s p)) new s)"
  shows "ashmem_wf s'" and "unpinned_list (areas s' a) = us @ new # p # ps"
    and "ranges s' = (ranges s)(p := (ranges s p)\<lparr>pgend := st - 1\<rparr>,
           new := \<lparr>asma = a, pgstart = en + 1, pgend = pgend (ranges s p), purged = pu\<rparr>)"
proof -
  let ?r = "ranges s p"
  let ?s1 = "range_shrink p (pgstart ?r) (st - 1) s"
  let ?n = "\<lparr>asma = a, pgstart = en + 1, pgend = pgend ?r, purged = pu\<rparr>"
  have p: "p \<in> set (unpinned_list (areas s a))" using ls by simp
  have np: "p \<noteq> new" using live_rangesI [OF a p] new by auto
  have ok: "ranges_wf (ranges s) (us @ p # ps)" using ashmem_wfD(2) [OF inv a] ls by simp
  have d: "p \<notin> set us" "p \<notin> set ps" using ranges_wf_distinct [OF ok] by auto
  have nus: "new \<notin> set us" "new \<notin> set ps"
    using live_rangesI [OF a, of new] new ls by auto
  have pred: "st - 1 < st" "pgstart ?r \<le> st - 1" using word_le_pred_iff [OF b(1)] b(1) by auto
  have succ: "en < en + 1" "en + 1 \<le> pgend ?r" using word_succ_le_iff [OF b(3)] b(3) by auto
  have le: "st - 1 \<le> pgend ?r" "pgstart ?r \<le> st - 1" "st - 1 < en + 1" "en + 1 \<le> pgend ?r"
    using pred succ b(3) bounds_wfD [OF b(2) pred(1)] by (order, simp, order, simp)
  have s'2: "s' = range_alloc a (Some p) pu (en + 1) (pgend ?r) new ?s1"
    unfolding s' using range_alloc_shrink_commute [OF np] by simp
  have inv1: "ashmem_wf ?s1" using inv a p le by (intro ashmem_wf_range_shrink) auto
  have same: "ranges_wf ((ranges ?s1)(new := ?n)) us" "ranges_wf ((ranges ?s1)(new := ?n)) ps"
    using ok nus d by (subst ranges_wf_cong [where rs = "ranges s"];
      force simp: ranges_wf_append ranges_wf_Cons)+
  have above: "pgend ?r < pgstart (ranges s q)" if "q \<in> set us" for q
    using ok that by (auto simp: ranges_wf_append)
  have below: "pgend (ranges s q) < pgstart ?r" if "q \<in> set ps" for q
    using ok that by (auto simp: ranges_wf_append ranges_wf_Cons)
  have "st - 1 < pgstart (ranges s q)" if "q \<in> set us" for q
    using le_less_trans [OF le(1) above [OF that]] .
  moreover have "pgend (ranges s q) < en + 1" if "q \<in> set ps" for q
    using below [OF that] le(2,3) by order
  ultimately have ok1: "ranges_wf ((ranges ?s1)(new := ?n)) (us @ new # p # ps)"
    using ok nus np d le above below same
    by (auto simp: ranges_wf_append ranges_wf_Cons)
  show "ashmem_wf s'"
    unfolding s'2 using a new ls ok1 d
    by (intro ashmem_wf_range_alloc inv1) (auto simp: list_add_tail_def list_insert_before_split)
  show "unpinned_list (areas s' a) = us @ new # p # ps"
    unfolding s'2 using ls d by (simp add: list_add_tail_def list_insert_before_split)
  show "ranges s' = (ranges s)(p := ?r\<lparr>pgend := st - 1\<rparr>, new := ?n)"
    unfolding s'2 using np by simp
qed

text \<open>
  The walk's precondition: the entries already passed (\<open>us\<close>) are disjoint from the request.
\<close>

definition pin_pre :: "ptr \<Rightarrow> u64 \<Rightarrow> u64 \<Rightarrow> ptr \<Rightarrow> ptr list \<Rightarrow> ptr list \<Rightarrow> ashmem_state \<Rightarrow> bool" where
  "pin_pre a st en new us ps s \<longleftrightarrow>
     ashmem_wf s \<and> a \<in> set (ashmem_area_list s) \<and> unpinned_list (areas s a) = us @ ps \<and>
     (\<forall>p\<in>set us. range_pages (ranges s p) \<inter> {st..en} = {}) \<and> bounds_wf st en \<and> new \<notin> live_ranges s"

lemma pin_preD:
  assumes "pin_pre a st en new us (p # ps) s"
  shows "ashmem_wf s" "a \<in> set (ashmem_area_list s)" "unpinned_list (areas s a) = us @ p # ps"
    "\<forall>q\<in>set us. range_pages (ranges s q) \<inter> {st..en} = {}" "bounds_wf st en" "new \<notin> live_ranges s"
    "ranges_wf (ranges s) (p # ps)" "bounds_wf (pgstart (ranges s p)) (pgend (ranges s p))"
    "p \<in> set (unpinned_list (areas s a))" "p \<notin> set us" "p \<notin> set ps"
    "new \<notin> set us" "new \<notin> set ps" "new \<noteq> p"
proof -
  show pre: "ashmem_wf s" "a \<in> set (ashmem_area_list s)" "unpinned_list (areas s a) = us @ p # ps"
    "\<forall>q\<in>set us. range_pages (ranges s q) \<inter> {st..en} = {}" "bounds_wf st en" "new \<notin> live_ranges s"
    using assms by (auto simp: pin_pre_def)
  have ok: "ranges_wf (ranges s) (us @ p # ps)" using ashmem_wfD(2) [OF pre(1,2)] pre(3) by simp
  then show "ranges_wf (ranges s) (p # ps)" "bounds_wf (pgstart (ranges s p)) (pgend (ranges s p))"
    by (auto simp: ranges_wf_append ranges_wf_Cons)
  show "p \<in> set (unpinned_list (areas s a))" using pre(3) by simp
  show "p \<notin> set us" "p \<notin> set ps" using ranges_wf_distinct [OF ok] by auto
  show "new \<notin> set us" "new \<notin> set ps" "new \<noteq> p"
    using live_rangesI [OF pre(2), of new] pre(3,6) by auto
qed

lemma pin_del_step:
  assumes pre: "pin_pre a st en new us (p # ps) s"
    and hit: "hits (ranges s p) st en"
    and del: "page_range_subsumes_range (ranges s p) st en"
  shows "pin_pre a st en new us ps (range_del a p s)"
    and "pin_post a st en new ps (ret OR purged (ranges s p)) (range_del a p s) res \<Longrightarrow>
         pin_post a st en new (p # ps) ret s res"
proof -
  note d = pin_preD [OF pre]
  show "pin_pre a st en new us ps (range_del a p s)"
    using d live_ranges_del_subset [of a p s] ashmem_wf_range_del [OF d(1,2,9)]
    by (auto simp: pin_pre_def list_del_split)
  assume "pin_post a st en new ps (ret OR purged (ranges s p)) (range_del a p s) res"
  then show "pin_post a st en new (p # ps) ret s res"
    by (rule pin_post_step)
      (use hit del d in \<open>auto simp: unpinned_pages_split [OF d(3)] unpinned_pages_del [OF d(3,10)]
        list_del_split range_pages_def page_range_subsumes_range_def all_full_def\<close>)
qed

lemma pin_shrink_step:
  assumes pre: "pin_pre a st en new us (p # ps) s"
    and hit: "hits (ranges s p) st en"
    and sub: "pgstart (ranges s p) \<le> x" "x \<le> y" "y \<le> pgend (ranges s p)"
    and pages: "range_pages (ranges s p) - {st..en} = {x..y}"
  shows "pin_pre a st en new (us @ [p]) ps (range_shrink p x y s)"
    and "pin_post a st en new ps (ret OR purged (ranges s p)) (range_shrink p x y s) res \<Longrightarrow>
         pin_post a st en new (p # ps) ret s res"
proof -
  note d = pin_preD [OF pre]
  have "{x..y} \<inter> {st..en} = {}" using pages by blast
  then show "pin_pre a st en new (us @ [p]) ps (range_shrink p x y s)"
    using d ashmem_wf_range_shrink [OF d(1,2,9) sub] by (auto simp: pin_pre_def range_pages_def)
  assume "pin_post a st en new ps (ret OR purged (ranges s p)) (range_shrink p x y s) res"
  then show "pin_post a st en new (p # ps) ret s res"
    by (rule pin_post_step)
      (use hit d sub in \<open>auto simp: unpinned_pages_split [OF d(3)] unpinned_pages_shrink [OF d(3,10,11)]
        pages [symmetric] all_full_def\<close>)
qed

lemma pin_hole_step:
  assumes pre: "pin_pre a st en new us (p # ps) s"
    and hit: "hits (ranges s p) st en"
    and hole: "pgstart (ranges s p) < st" "en < pgend (ranges s p)"
    and s': "s' = range_shrink p (pgstart (ranges s p)) (st - 1)
       (range_alloc a (Some p) (purged (ranges s p)) (en + 1) (pgend (ranges s p)) new s)"
  shows "pin_post a st en new (p # ps) ret s (s', ret OR purged (ranges s p), None)"
proof -
  let ?r = "ranges s p"
  note d = pin_preD [OF pre]
  note sp = ashmem_wf_split [OF d(1,2,3,6) hole(1) d(5) hole(2) s']
  have ne: "pgstart ?r \<le> st - 1" "en + 1 \<le> pgend ?r"
    using word_le_pred_iff [OF hole(1)] hole(1) word_succ_le_iff [OF hole(2)] hole(2) by auto
  have psb: "range_before_page (ranges s q) st" if "q \<in> set ps" for q
  proof -
    have "pgend (ranges s q) < pgstart ?r" using d(7) that by (auto simp: ranges_wf_Cons)
    with hole(1) show ?thesis unfolding range_before_page_def by order
  qed
  note psd = range_before_page_disjoint [OF psb]
  have "(\<Union>q\<in>set us \<union> set ps. range_pages (ranges s' q)) =
      (\<Union>q\<in>set us \<union> set ps. range_pages (ranges s q))"
    using d(10-13) sp(3) by (intro SUP_cong) auto
  then have "unpinned_pages s' a = (\<Union>q\<in>set us \<union> set ps. range_pages (ranges s q)) \<union>
      ({pgstart ?r .. st - 1} \<union> {en + 1 .. pgend ?r})"
    unfolding unpinned_pages_def sp(2) using sp(3) d(14) by (simp add: range_pages_def Un_ac)
  also have "\<dots> = unpinned_pages s a - {st..en}"
    unfolding unpinned_pages_split [OF d(3)] split_pages [OF hole(1) d(5) hole(2), symmetric]
    using d(4) psd by fastforce
  finally have "unpinned_pages s' a = unpinned_pages s a - {st..en}" .
  moreover have "overlap_purged (ranges s) st en (p # ps) ret = ret OR purged ?r"
    using hit psb by (simp add: overlap_purged_Cons overlap_purged_disjoint hits_def)
  moreover have "all_full s' a" if "all_full s a"
    using that d(3,10-14) ne unfolding all_full_def sp(2,3) by auto
  ultimately show ?thesis using sp d(3) by (intro pin_postI) (auto simp: s')
qed

lemma pin_stop_step:
  assumes pre: "pin_pre a st en new us (p # ps) s" and before: "range_before_page (ranges s p) st"
  shows "pin_post a st en new (p # ps) ret s (s, ret, Some new)"
proof -
  note d = pin_preD [OF pre]
  note bf = ranges_wf_before [OF d(7) before]
  have dis: "range_pages (ranges s q) \<inter> {st..en} = {}" if "q \<in> set (p # ps)" for q
    using range_before_page_disjoint [OF bf [OF that]] .
  then have "unpinned_pages s a = unpinned_pages s a - {st..en}"
    using d(4) unpinned_pages_eq [OF d(3)] by fastforce
  moreover have "overlap_purged (ranges s) st en (p # ps) ret = ret"
    using bf by (intro overlap_purged_disjoint) (simp add: hits_def)
  ultimately show ?thesis using d(1) by (auto intro!: pin_postI)
qed

lemma pin_loop_post:
  "pin_pre a st en new us ps s \<Longrightarrow>
   pin_post a st en new ps ret s (ashmem_pin_loop a st en new ps ret s)"
proof (induction ps arbitrary: us ret s)
  case Nil
  then show ?case
    by (simp, intro pin_postI) (force simp: pin_pre_def overlap_purged_def unpinned_pages_def)+
next
  case (Cons p ps)
  let ?r = "ranges s p"
  note d = pin_preD [OF Cons.prems]
  consider (before) "range_before_page ?r st"
    | (miss) "\<not> range_before_page ?r st" "\<not> page_range_in_range ?r st en"
    | (hit) "\<not> range_before_page ?r st" "page_range_in_range ?r st en" "hits ?r st en" by (auto simp: hits_def)
  then show ?case
  proof cases
    case before
    then show ?thesis using pin_stop_step [OF Cons.prems] by simp
  next
    case miss
    have "pin_post a st en new ps ret s (ashmem_pin_loop a st en new ps ret s)"
      using above_disjoint [OF misses_above [OF d(5) miss]] Cons.prems by (intro Cons.IH [of "us @ [p]"]) (auto simp: pin_pre_def)
    with miss show ?thesis
      unfolding pin_post_def by (auto simp: overlap_purged_Cons hits_def)
  next
    case hit
    note bnd = hits_bounds [OF hit(3) d(5)]
    consider (del) "page_range_subsumes_range ?r st en"
      | (front) "\<not> page_range_subsumes_range ?r st en" "st \<le> pgstart ?r" "en < pgend ?r"
      | (rear) "\<not> page_range_subsumes_range ?r st en" "pgstart ?r < st" "pgend ?r \<le> en"
      | (hole) "\<not> page_range_subsumes_range ?r st en" "pgstart ?r < st" "en < pgend ?r"
      by (cases "st \<le> pgstart ?r"; cases "pgend ?r \<le> en")
        (auto simp: page_range_subsumes_range_def not_le)
    then show ?thesis
    proof cases
      case del
      with hit(1,2) show ?thesis
        using pin_del_step [OF Cons.prems hit(3) del] Cons.IH by (simp add: Let_def)
    next
      case front
      note x = bnd(2) [OF front(3)]
      have y: "en + 1 \<le> pgend ?r" using word_succ_le_iff [OF front(3)] front(3) by simp
      note st = pin_shrink_step [OF Cons.prems hit(3) x y order.refl
          shrink_front_pages [OF front(2) x front(3)]]
      from st(2) [OF Cons.IH [OF st(1)]] hit(1,2) front show ?thesis by (simp add: Let_def)
    next
      case rear
      have "st - 1 < st" using word_le_pred_iff [OF rear(2), of "st - 1"] by simp
      then have y: "st - 1 \<le> pgend ?r" using bnd(1) by order
      have x: "pgstart ?r \<le> st - 1" using word_le_pred_iff [OF rear(2)] rear(2) by simp
      note st = pin_shrink_step [OF Cons.prems hit(3) order.refl x y
          shrink_rear_pages [OF rear(2) bnd(1) rear(3)]]
      from st(2) [OF Cons.IH [OF st(1)]] hit(1,2) rear not_le [THEN iffD2, OF rear(2)]
      show ?thesis by (simp add: Let_def)
    next
      case hole
      with hit(1,2) pin_hole_step [OF Cons.prems hit(3) hole(2,3) refl]
        not_le [THEN iffD2, OF hole(2)] not_le [THEN iffD2, OF hole(3)]
      show ?thesis by (simp add: Let_def)
    qed
  qed
qed

section \<open>Unpinning\<close>

definition purged_pages :: "ashmem_state \<Rightarrow> ptr \<Rightarrow> u64 set" where
  "purged_pages s a = (\<Union>p\<in>{p\<in>set (unpinned_list (areas s a)). \<not> range_on_lru (ranges s p)}.
     range_pages (ranges s p))"

lemma purged_pages_mono:
  assumes "\<And>p. p \<in> set (unpinned_list (areas s a)) \<Longrightarrow>
    p \<in> set (unpinned_list (areas s' a)) \<and> ranges s' p = ranges s p"
  shows "purged_pages s a \<subseteq> purged_pages s' a"
  using assms by (force simp: purged_pages_def)

lemma purged_pagesI:
  "p \<in> set (unpinned_list (areas s a)) \<Longrightarrow> purged (ranges s p) \<noteq> 0 \<Longrightarrow>
   range_pages (ranges s p) \<subseteq> purged_pages s a"
  by (auto simp: purged_pages_def range_on_lru_def ASHMEM_NOT_PURGED_def)

lemma overlap_bounds:
  assumes "range_pages r \<inter> {st..en} \<noteq> {}"
  shows "pgstart r \<le> en" and "st \<le> pgend r"
  using assms by (auto simp: range_pages_def intro: order_trans)

lemma overlap_hull:
  assumes "hits r st en" "st \<le> en" "bounds_wf (pgstart r) (pgend r)"
  shows "{min (pgstart r) st .. max (pgend r) en} = range_pages r \<union> {st..en}"
proof (cases "pgstart r \<le> pgend r")
  case True
  have "range_pages r \<inter> {st..en} \<noteq> {}" using assms hits_iff True by blast
  note b = overlap_bounds [OF this]
  show ?thesis
    using b assms(2) True by (auto simp: range_pages_def min_le_iff_disj le_max_iff_disj dest: order_trans)
next
  case False
  then have "\<not> page_in_range r x" for x by (auto simp: page_in_range_def dest: order_trans)
  then have "st \<le> pgstart r" "pgend r \<le> en"
    using assms(1) by (auto simp: hits_def page_range_in_range_def page_range_subsumes_range_def)
  then show ?thesis using False by (auto simp: range_pages_def min_absorb2 max_absorb2)
qed

text \<open>A request for no page is never merged with a range: a range that it meets covers it.\<close>

lemma absorb_nonempty:
  assumes "bounds_wf st en" "hits r st en" "\<not> page_range_subsumed_by_range r st en"
  shows "st \<le> en"
proof (rule ccontr)
  assume "\<not> st \<le> en"
  then have lt: "en < st" by simp
  have e: "st \<le> pgend r" using hits_bounds(1) [OF assms(2,1)] .
  then have "en \<le> pgend r" using lt by simp
  then have "\<not> pgstart r \<le> st" using assms(3) by (simp add: page_range_subsumed_by_range_def)
  then have "st < pgstart r" by simp
  then have "\<not> page_in_range r st" "\<not> page_in_range r en" "\<not> pgend r \<le> en"
    using lt e by (auto simp: page_in_range_def)
  then show False using assms(2) by (auto simp: hits_def page_range_in_range_def page_range_subsumes_range_def)
qed

text \<open>At the insertion point the passed entries lie above the request and the rest below.\<close>

lemma unpin_pass_insert:
  assumes "ashmem_unpin_pass rs st en ps = Insert_At pos" "ranges_wf rs ps" "bounds_wf st en"
  obtains us vs where "ps = us @ vs" "pos = (case vs of [] \<Rightarrow> None | q # _ \<Rightarrow> Some q)"
    "\<And>p. p \<in> set us \<Longrightarrow> en < pgstart (rs p)" "\<And>q. q \<in> set vs \<Longrightarrow> pgend (rs q) < st"
proof -
  have "\<exists>us vs. ps = us @ vs \<and> pos = (case vs of [] \<Rightarrow> None | q # _ \<Rightarrow> Some q) \<and>
      (\<forall>p\<in>set us. en < pgstart (rs p)) \<and> (\<forall>q\<in>set vs. pgend (rs q) < st)"
    using assms
  proof (induction ps)
    case (Cons p ps)
    show ?case
    proof (cases "range_before_page (rs p) st")
      case True
      then have "\<forall>q\<in>set (p # ps). pgend (rs q) < st"
        using ranges_wf_before [OF Cons.prems(2) True] by (simp add: range_before_page_def)
      with True Cons.prems show ?thesis by (intro exI [of _ "[]"] exI [of _ "p # ps"]) auto
    next
      case False
      then have np: "ashmem_unpin_pass rs st en ps = Insert_At pos" "\<not> page_range_in_range (rs p) st en"
        using Cons.prems(1) by (auto split: if_splits)
      with Cons obtain us vs where uv: "ps = us @ vs"
        "pos = (case vs of [] \<Rightarrow> None | q # _ \<Rightarrow> Some q)"
        "\<forall>p\<in>set us. en < pgstart (rs p)" "\<forall>q\<in>set vs. pgend (rs q) < st"
        by (auto simp: ranges_wf_Cons)
      have "en < pgstart (rs p)"
        by (rule misses_above [OF Cons.prems(3) False np(2)])
      with uv show ?thesis by (intro exI [of _ "p # us"] exI [of _ vs]) auto
    qed
  qed simp
  with that show ?thesis by blast
qed

text \<open>\<open>P\<close> are the purged pages of the ranges that the request has already been merged with.\<close>

definition unpin_post ::
    "ptr \<Rightarrow> u64 \<Rightarrow> u64 \<Rightarrow> ptr \<Rightarrow> u64 set \<Rightarrow> ashmem_state \<Rightarrow> ashmem_state \<times> ptr option \<Rightarrow> bool" where
  "unpin_post a st en new P s = (\<lambda>(s', nr).
     ashmem_wf s' \<and> (st \<le> en \<and> all_full s a \<longrightarrow> all_full s' a) \<and>
     unpinned_pages s' a = unpinned_pages s a \<union> {st..en} \<and>
     purged_pages s a \<union> P \<subseteq> purged_pages s' a \<and>
     ashmem_area_list s' = ashmem_area_list s \<and>
     (\<forall>b. b \<noteq> a \<longrightarrow> areas s' b = areas s b) \<and>
     (\<forall>q. q \<notin> set (unpinned_list (areas s a)) \<and> q \<noteq> new \<longrightarrow> ranges s' q = ranges s q))"

lemma unpin_insert_step:
  assumes inv: "ashmem_wf s" and a: "a \<in> set (ashmem_area_list s)" and le: "bounds_wf st en"
    and new: "new \<notin> live_ranges s" and P: "P \<subseteq> {st..en}" "P \<noteq> {} \<Longrightarrow> pu \<noteq> 0"
    and pass: "ashmem_unpin_pass (ranges s) st en (unpinned_list (areas s a)) = Insert_At pos"
  shows "unpin_post a st en new P s (range_alloc a pos pu st en new s, None)"
proof -
  let ?n = "\<lparr>asma = a, pgstart = st, pgend = en, purged = pu\<rparr>"
  let ?s' = "range_alloc a pos pu st en new s"
  note ok = ashmem_wfD(2) [OF inv a]
  obtain us vs where uv: "unpinned_list (areas s a) = us @ vs"
    "pos = (case vs of [] \<Rightarrow> None | q # _ \<Rightarrow> Some q)"
    "\<And>p. p \<in> set us \<Longrightarrow> en < pgstart (ranges s p)" "\<And>q. q \<in> set vs \<Longrightarrow> pgend (ranges s q) < st"
    using unpin_pass_insert [OF pass ok le] by metis
  have d: "distinct (us @ vs)" using ranges_wf_distinct [OF ok] uv(1) by simp
  have nl: "new \<notin> set us" "new \<notin> set vs" using live_rangesI [OF a, of new] new uv(1) by auto
  have ls: "list_add_tail new pos (us @ vs) = us @ new # vs"
    using uv(2) d by (cases vs) (auto simp: list_add_tail_def list_insert_before_split)
  have "ranges_wf ((ranges s)(new := ?n)) us" "ranges_wf ((ranges s)(new := ?n)) vs"
    using ok uv(1) nl by (subst ranges_wf_cong [where rs = "ranges s"]; force simp: ranges_wf_append)+
  then have ok': "ranges_wf ((ranges s)(new := ?n)) (us @ new # vs)"
    using ok uv nl le by (auto simp: ranges_wf_append ranges_wf_Cons)
  have inv': "ashmem_wf ?s'"
    using ok' uv ls by (intro ashmem_wf_range_alloc [OF inv a new]) (auto split: list.splits option.splits)
  have un: "unpinned_list (areas ?s' a) = us @ new # vs" using uv(1) ls by simp
  have "unpinned_pages ?s' a = unpinned_pages s a \<union> {st..en}"
  proof -
    have "(\<Union>q\<in>set us \<union> set vs. range_pages (ranges ?s' q)) =
        (\<Union>q\<in>set us \<union> set vs. range_pages (ranges s q))"
      using nl by (intro SUP_cong) auto
    then show ?thesis
      unfolding unpinned_pages_split [OF un] by (simp add: unpinned_pages_def uv(1) range_pages_def)
  qed
  moreover have "purged_pages s a \<subseteq> purged_pages ?s' a"
    using un uv(1) nl by (intro purged_pages_mono) auto
  moreover have "{st..en} \<subseteq> purged_pages ?s' a" if "pu \<noteq> 0"
    using purged_pagesI [of new ?s' a] un that by (simp add: range_pages_def)
  moreover have "all_full ?s' a" if "st \<le> en" "all_full s a"
    using that nl uv(1) unfolding all_full_def un by auto
  ultimately show ?thesis using inv' P by (auto simp: unpin_post_def)
qed

lemma unpin_pass_absorb:
  assumes "ashmem_unpin_pass rs st en ps = Absorb p"
  shows "p \<in> set ps" and "hits (rs p) st en" and "\<not> page_range_subsumed_by_range (rs p) st en"
proof -
  show p: "p \<in> set ps" using ashmem_unpin_pass_Absorb_in [OF assms(1)] .
  show "hits (rs p) st en" "\<not> page_range_subsumed_by_range (rs p) st en"
    using assms(1) by (induction ps) (auto simp: hits_def split: if_splits)
qed

lemma unpin_pass_covered:
  assumes "ashmem_unpin_pass rs st en ps = Covered"
  shows "\<exists>p\<in>set ps. {st..en} \<subseteq> range_pages (rs p)"
  using assms
  by (induction ps) (auto simp: page_range_subsumed_by_range_def range_pages_def split: if_splits)

text \<open>
  The walk restarts with the hull of the request and the absorbed range. When a purged range with pages
  has been absorbed the request reaches outside the remaining ranges, so no entry covers it; an empty one leaves no page to mark.
\<close>

lemma ranges_wf_disjoint:
  assumes "ranges_wf rs (us @ p # ps)" "q \<in> set us \<union> set ps"
  shows "range_pages (rs p) \<inter> range_pages (rs q) = {}"
proof -
  have "pgend (rs p) < pgstart (rs q) \<or> pgend (rs q) < pgstart (rs p)"
    using assms by (auto simp: ranges_wf_append ranges_wf_Cons)
  then show ?thesis by (auto simp: range_pages_def)
qed

lemma unpin_absorb_step:
  assumes inv: "ashmem_wf s" and a: "a \<in> set (ashmem_area_list s)"
    and ls: "unpinned_list (areas s a) = us @ p # ps" "p \<notin> set us"
    and hit: "hits (ranges s p) st en" and le: "st \<le> en"
    and ne: "bounds_wf (pgstart (ranges s p)) (pgend (ranges s p))"
    and post: "unpin_post a (min (pgstart (ranges s p)) st) (max (pgend (ranges s p)) en) new
       (P \<union> (if purged (ranges s p) = 0 then {} else range_pages (ranges s p))) (range_del a p s) res"
  shows "unpin_post a st en new P s res"
proof -
  let ?r = "ranges s p" and ?s1 = "range_del a p s"
  note hull = overlap_hull [OF hit le ne]
  have "unpinned_pages ?s1 a \<union> (range_pages ?r \<union> {st..en}) = unpinned_pages s a \<union> {st..en}"
    unfolding unpinned_pages_del [OF ls] unpinned_pages_split [OF ls(1)] by blast
  moreover have "purged_pages s a \<subseteq> purged_pages ?s1 a \<union> (if purged ?r = 0 then {} else range_pages ?r)"
    using ls by (fastforce simp: purged_pages_def list_del_split range_on_lru_def ASHMEM_NOT_PURGED_def)
  moreover have sub: "set (unpinned_list (areas ?s1 a)) \<subseteq> set (unpinned_list (areas s a))"
    using ls by (auto simp: list_del_split)
  moreover have "all_full ?s1 a" if "all_full s a" using that sub by (auto simp: all_full_def)
  moreover have "min (pgstart ?r) st \<le> max (pgend ?r) en" using le by (simp add: min_le_iff_disj le_max_iff_disj)
  ultimately show ?thesis
    using post unfolding unpin_post_def hull
    by (cases res) (auto split: if_splits)
qed

lemma unpin_loop_post:
  assumes "ashmem_wf s" "a \<in> set (ashmem_area_list s)" "bounds_wf st en" "new \<notin> live_ranges s"
    and "P \<subseteq> {st..en}" "P \<noteq> {} \<Longrightarrow> pu \<noteq> 0" "P \<inter> unpinned_pages s a = {}"
  shows "unpin_post a st en new P s (ashmem_unpin_loop a new st en pu s)"
  using assms
proof (induction a new st en pu s arbitrary: P rule: ashmem_unpin_loop.induct)
  case (1 a new st en pu s)
  note inv = "1.prems"(1) and a = "1.prems"(2) and wf = "1.prems"(3) and new = "1.prems"(4) and P = "1.prems"(5-7)
  note ok = ashmem_wfD(2) [OF inv a]
  show ?case
  proof (cases "ashmem_unpin_pass (ranges s) st en (unpinned_list (areas s a))")
    case Covered
    then have "{st..en} \<subseteq> unpinned_pages s a"
      using unpin_pass_covered by (fastforce simp: unpinned_pages_def)
    with P have "P = {}" by blast
    with Covered inv \<open>{st..en} \<subseteq> unpinned_pages s a\<close> show ?thesis
      by (auto simp: ashmem_unpin_loop.simps [of a new st en pu s] unpin_post_def)
  next
    case (Insert_At pos)
    with unpin_insert_step [OF inv a wf new P(1,2) Insert_At] show ?thesis
      by (simp add: ashmem_unpin_loop.simps [of a new st en pu s])
  next
    case (Absorb p)
    let ?r = "ranges s p" and ?s1 = "range_del a p s"
    let ?st = "min (pgstart ?r) st" and ?en = "max (pgend ?r) en" and ?pu = "pu OR purged ?r"
    let ?P = "P \<union> (if purged ?r = 0 then {} else range_pages ?r)"
    note ab = unpin_pass_absorb [OF Absorb]
    have le: "st \<le> en" by (rule absorb_nonempty [OF wf ab(2,3)])
    obtain us ps where ls: "unpinned_list (areas s a) = us @ p # ps" "p \<notin> set us"
      using split_list_first [OF ab(1)] by blast
    have ne: "bounds_wf (pgstart ?r) (pgend ?r)" using ok ab(1) by (auto simp: ranges_wf_def)
    have hull: "{?st..?en} = range_pages ?r \<union> {st..en}" by (rule overlap_hull [OF ab(2) le ne])
    have gone: "range_pages ?r \<inter> unpinned_pages ?s1 a = {}"
      unfolding unpinned_pages_del [OF ls] using ranges_wf_disjoint ok ls(1) by fastforce
    have "unpinned_pages ?s1 a \<subseteq> unpinned_pages s a"
      unfolding unpinned_pages_del [OF ls] unpinned_pages_split [OF ls(1)] by blast
    then have "unpin_post a ?st ?en new ?P ?s1 (ashmem_unpin_loop a new ?st ?en ?pu ?s1)"
      using a le new live_ranges_del_subset [of a p s] P gone
      by (intro "1.IH" [OF Absorb] ashmem_wf_range_del [OF inv a ab(1)] bounds_wf_le)
        (auto simp: hull min_le_iff_disj le_max_iff_disj word_or_eq_0_iff)
    then show ?thesis
      using unpin_absorb_step [OF inv a ls ab(2) le ne, of new P]
      by (simp add: ashmem_unpin_loop.simps [of a new st en pu s] Absorb)
  qed
qed

section \<open>The contract of a page tracker\<close>

text \<open>
  What a client of the pin operations relies on: a set of unpinned pages per area, which
  unpinning extends by exactly the requested pages, pinning reduces by exactly those, and the
  status query reads. \<open>ready\<close> says that the state is consistent, the area exists and the
  preallocated range is unused.
\<close>

locale page_tracker =
  fixes pages :: "'s \<Rightarrow> ptr \<Rightarrow> u64 set"
    and ready :: "'s \<Rightarrow> ptr \<Rightarrow> bool"
    and unused :: "'s \<Rightarrow> ptr \<Rightarrow> bool"
    and pin :: "ptr \<Rightarrow> u64 \<Rightarrow> u64 \<Rightarrow> ptr \<Rightarrow> 's \<Rightarrow> 's"
    and unpin :: "ptr \<Rightarrow> u64 \<Rightarrow> u64 \<Rightarrow> ptr \<Rightarrow> 's \<Rightarrow> 's"
    and pinned :: "ptr \<Rightarrow> u64 \<Rightarrow> u64 \<Rightarrow> 's \<Rightarrow> bool"
  assumes pages_pin: "ready s a \<Longrightarrow> unused s new \<Longrightarrow> st \<le> en \<Longrightarrow>
            pages (pin a st en new s) a = pages s a - {st..en}"
    and pages_unpin: "ready s a \<Longrightarrow> unused s new \<Longrightarrow> st \<le> en \<Longrightarrow>
            pages (unpin a st en new s) a = pages s a \<union> {st..en}"
    and pages_pin_other: "ready s a \<Longrightarrow> ready s b \<Longrightarrow> unused s new \<Longrightarrow> st \<le> en \<Longrightarrow> b \<noteq> a \<Longrightarrow>
            pages (pin a st en new s) b = pages s b"
    and pages_unpin_other: "ready s a \<Longrightarrow> ready s b \<Longrightarrow> unused s new \<Longrightarrow> st \<le> en \<Longrightarrow> b \<noteq> a \<Longrightarrow>
            pages (unpin a st en new s) b = pages s b"
    and ready_pin: "ready s a \<Longrightarrow> ready s b \<Longrightarrow> unused s new \<Longrightarrow> st \<le> en \<Longrightarrow>
            ready (pin a st en new s) b"
    and ready_unpin: "ready s a \<Longrightarrow> ready s b \<Longrightarrow> unused s new \<Longrightarrow> st \<le> en \<Longrightarrow>
            ready (unpin a st en new s) b"
    and pinned_iff: "ready s a \<Longrightarrow> st \<le> en \<Longrightarrow> pinned a st en s \<longleftrightarrow> pages s a \<inter> {st..en} = {}"
begin

lemma pinned_after_pin:
  "ready s a \<Longrightarrow> unused s new \<Longrightarrow> st \<le> en \<Longrightarrow> pinned a st en (pin a st en new s)"
  by (subst pinned_iff) (auto simp: ready_pin pages_pin)

lemma not_pinned_after_unpin:
  "ready s a \<Longrightarrow> unused s new \<Longrightarrow> st \<le> en \<Longrightarrow> \<not> pinned a st en (unpin a st en new s)"
  by (subst pinned_iff) (auto simp: ready_unpin pages_unpin)

lemma unpin_then_pin:
  assumes "ready s a" "unused s new" "unused (unpin a st en new s) new'" "st \<le> en"
    and "pinned a st en s"
  shows "pages (pin a st en new' (unpin a st en new s)) a = pages s a"
  using assms by (auto simp: pages_pin pages_unpin ready_unpin pinned_iff)

end

lemma ashmem_pin_post:
  assumes "ashmem_wf s" "a \<in> set (ashmem_area_list s)" "new \<notin> live_ranges s" "bounds_wf st en"
  shows "pin_post a st en new (unpinned_list (areas s a)) ASHMEM_NOT_PURGED s (ashmem_pin a st en new s)"
  unfolding ashmem_pin_def using assms by (intro pin_loop_post [of _ _ _ _ "[]"]) (simp add: pin_pre_def)

lemma ashmem_unpin_post:
  assumes "ashmem_wf s" "a \<in> set (ashmem_area_list s)" "new \<notin> live_ranges s" "bounds_wf st en"
    and "ashmem_unpin a st en new s = (s', ret, nr)"
  shows "ret = 0" and "unpin_post a st en new {} s (s', nr)"
proof -
  have "unpin_post a st en new {} s
      (ashmem_unpin_loop a new st en ASHMEM_NOT_PURGED s)"
    using assms by (intro unpin_loop_post) auto
  with assms(5) show "ret = 0" and "unpin_post a st en new {} s (s', nr)"
    by (auto simp: ashmem_unpin_def split: prod.splits)
qed

text \<open>Areas other than the one worked on keep their pages: no range is shared.\<close>

lemma other_area_ranges:
  assumes inv: "ashmem_wf s" and ab: "a \<in> set (ashmem_area_list s)" "b \<in> set (ashmem_area_list s)" "b \<noteq> a"
    and new: "new \<notin> live_ranges s" and q: "q \<in> set (unpinned_list (areas s b))"
    and frame: "\<forall>q. q \<notin> set (unpinned_list (areas s a)) \<and> q \<noteq> new \<longrightarrow> ranges s' q = ranges s q"
  shows "ranges s' q = ranges s q"
proof -
  have "q \<notin> set (unpinned_list (areas s a))"
    using ashmem_wfD(3) [OF inv ab(1), of q] ashmem_wfD(3) [OF inv ab(2) q] ab(3) by blast
  moreover have "q \<noteq> new" using live_rangesI [OF ab(2) q] new by blast
  ultimately show ?thesis using frame by blast
qed

lemma other_area_pages:
  assumes inv: "ashmem_wf s" and ab: "a \<in> set (ashmem_area_list s)" "b \<in> set (ashmem_area_list s)" "b \<noteq> a"
    and new: "new \<notin> live_ranges s"
    and frame: "areas s' b = areas s b"
      "\<forall>q. q \<notin> set (unpinned_list (areas s a)) \<and> q \<noteq> new \<longrightarrow> ranges s' q = ranges s q"
  shows "unpinned_pages s' b = unpinned_pages s b"
  unfolding unpinned_pages_def frame(1)
  by (intro SUP_cong refl arg_cong [of _ _ range_pages] other_area_ranges [OF inv ab new _ frame(2)])

text \<open>Where there were no empty ranges, a request for pages leaves none.\<close>

lemma ashmem_inv_kept:
  assumes inv: "ashmem_inv s" and a: "a \<in> set (ashmem_area_list s)" and new: "new \<notin> live_ranges s"
    and wf: "ashmem_wf s'" "all_full s' a" "ashmem_area_list s' = ashmem_area_list s" "\<And>b. b \<noteq> a \<Longrightarrow> areas s' b = areas s b"
      "\<forall>q. q \<notin> set (unpinned_list (areas s a)) \<and> q \<noteq> new \<longrightarrow> ranges s' q = ranges s q"
  shows "ashmem_inv s'"
proof -
  note iw = inv [unfolded ashmem_inv_iff]
  have "all_full s' b" if b: "b \<in> set (ashmem_area_list s)" for b
  proof (cases "b = a")
    case False
    have "all_full s b" using iw b by simp
    then show ?thesis
      unfolding all_full_def wf(4) [OF False] using other_area_ranges [OF _ a b False new _ wf(5)] iw by auto
  qed (use wf(2) in simp)
  then show ?thesis using wf(1,3) by (simp add: ashmem_inv_iff)
qed

lemma ashmem_pin_inv:
  assumes "ashmem_inv s" "a \<in> set (ashmem_area_list s)" "new \<notin> live_ranges s" "bounds_wf st en"
  shows "ashmem_inv (fst (ashmem_pin a st en new s))"
proof -
  have w: "ashmem_wf s" "all_full s a" using assms(1,2) by (simp_all add: ashmem_inv_iff)
  show ?thesis
    using ashmem_pin_post [OF w(1) assms(2-4)] w(2)
    by (intro ashmem_inv_kept [OF assms(1-3)]) (auto simp: pin_post_def split: prod.splits)
qed

lemma ashmem_unpin_inv:
  assumes "ashmem_inv s" "a \<in> set (ashmem_area_list s)" "new \<notin> live_ranges s" "st \<le> en"
  shows "ashmem_inv (fst (ashmem_unpin a st en new s))"
proof -
  have w: "ashmem_wf s" "all_full s a" using assms(1,2) by (simp_all add: ashmem_inv_iff)
  have "unpin_post a st en new {} s (fst (ashmem_unpin a st en new s), snd (snd (ashmem_unpin a st en new s)))"
    using ashmem_unpin_post(2) [OF w(1) assms(2,3) bounds_wf_le [OF assms(4)]] by (metis prod.collapse)
  then show ?thesis using w(2) assms(4) by (intro ashmem_inv_kept [OF assms(1-3)]) (auto simp: unpin_post_def)
qed

definition ashmem_ready :: "ashmem_state \<Rightarrow> ptr \<Rightarrow> bool" where
  "ashmem_ready s a \<longleftrightarrow> ashmem_inv s \<and> a \<in> set (ashmem_area_list s)"

interpretation pt: page_tracker unpinned_pages ashmem_ready "\<lambda>s new. new \<notin> live_ranges s"
  "\<lambda>a st en new s. fst (ashmem_pin a st en new s)"
  "\<lambda>a st en new s. fst (ashmem_unpin a st en new s)"
  "\<lambda>a st en s. ashmem_get_pin_status a st en s = ASHMEM_IS_PINNED"
proof unfold_locales
  fix s :: ashmem_state and a b new :: ptr and st en :: u64
  assume r: "ashmem_ready s a" and new: "new \<notin> live_ranges s" and le: "st \<le> en"
  note d = r [unfolded ashmem_ready_def ashmem_inv_iff] and pin = ashmem_pin_post [of s a new st en]
  have p: "pin_post a st en new (unpinned_list (areas s a)) ASHMEM_NOT_PURGED s (ashmem_pin a st en new s)"
    using d new le by (intro pin) auto
  have u: "unpin_post a st en new {} s
      (fst (ashmem_unpin a st en new s), snd (snd (ashmem_unpin a st en new s)))"
    using ashmem_unpin_post(2) [of s a new st en] d new bounds_wf_le [OF le] by (metis prod.collapse)
  show "unpinned_pages (fst (ashmem_pin a st en new s)) a = unpinned_pages s a - {st..en}"
    using p by (cases "ashmem_pin a st en new s") (simp add: pin_post_def)
  show "unpinned_pages (fst (ashmem_unpin a st en new s)) a = unpinned_pages s a \<union> {st..en}"
    using u by (simp add: unpin_post_def)
  show "ashmem_ready (fst (ashmem_pin a st en new s)) b" if "ashmem_ready s b"
    using p that r new le ashmem_pin_inv [of s a new st en] by (cases "ashmem_pin a st en new s") (simp add: pin_post_def ashmem_ready_def)
  show "ashmem_ready (fst (ashmem_unpin a st en new s)) b" if "ashmem_ready s b"
    using u that r new le ashmem_unpin_inv [of s a new st en] by (simp add: unpin_post_def ashmem_ready_def)
  show "unpinned_pages (fst (ashmem_pin a st en new s)) b = unpinned_pages s b"
    if "ashmem_ready s b" "b \<noteq> a"
    by (rule other_area_pages [of s a b new], insert p that d new)
      (cases "ashmem_pin a st en new s", auto simp: pin_post_def ashmem_ready_def ashmem_inv_iff)+
  show "unpinned_pages (fst (ashmem_unpin a st en new s)) b = unpinned_pages s b"
    if "ashmem_ready s b" "b \<noteq> a"
    by (rule other_area_pages [of s a b new], insert u that d new)
      (auto simp: unpin_post_def ashmem_ready_def ashmem_inv_iff)
next
  fix s :: ashmem_state and a :: ptr and st en :: u64
  assume r: "ashmem_ready s a" and le: "st \<le> en"
  have "ranges_ok (ranges s) (unpinned_list (areas s a))"
    using r by (simp add: ashmem_ready_def ashmem_inv_def)
  note l = get_pin_status_loop [OF this le]
  have "ashmem_get_pin_status_loop rs st en ps \<in> {ASHMEM_IS_UNPINNED, ASHMEM_IS_PINNED}" for rs ps
    by (induction ps) auto
  with l show "ashmem_get_pin_status a st en s = ASHMEM_IS_PINNED \<longleftrightarrow> unpinned_pages s a \<inter> {st..en} = {}"
    unfolding ashmem_get_pin_status_def unpinned_pages_def
    by (auto simp: ASHMEM_IS_PINNED_def ASHMEM_IS_UNPINNED_def)
qed

end
