(* ===== verification/Ashmem_Driver_Inv.thy ===== *)
theory Ashmem_Driver_Inv
  imports Ashmem_Driver Ashmem_Range_Spec
begin

text \<open>
  The driver as a transition system: the operations of the driver as the steps of an inductive
  relation in which the shrinker's hole punches are in flight between two steps, the invariant
  of its reachable states, and its preservation by every step.
\<close>

section \<open>What pinning leaves alone\<close>

text \<open>The parts of the state outside the unpinned ranges.\<close>

definition outside_ranges :: "ashmem_state \<Rightarrow> ashmem_state \<Rightarrow> bool" where
  "outside_ranges s s' \<longleftrightarrow> inflight s' = inflight s \<and> files s' = files s \<and> punched s' = punched s \<and>
     ashmem_area_list s' = ashmem_area_list s \<and>
     (\<forall>b. \<exists>ps. areas s' b = (areas s b)\<lparr>unpinned_list := ps\<rparr>)"

lemma outside_ranges_refl [intro, simp]: "outside_ranges s s"
proof -
  have "areas s b = (areas s b)\<lparr>unpinned_list := unpinned_list (areas s b)\<rparr>" for b by simp
  then show ?thesis unfolding outside_ranges_def by metis
qed

lemma outside_ranges_trans:
  assumes "outside_ranges s s'" "outside_ranges s' s''"
  shows "outside_ranges s s''"
  unfolding outside_ranges_def
proof (intro conjI allI)
  fix b
  obtain ps qs where "areas s' b = (areas s b)\<lparr>unpinned_list := ps\<rparr>"
    "areas s'' b = (areas s' b)\<lparr>unpinned_list := qs\<rparr>"
    using assms unfolding outside_ranges_def by metis
  then show "\<exists>ps. areas s'' b = (areas s b)\<lparr>unpinned_list := ps\<rparr>" by auto
qed (use assms in \<open>auto simp: outside_ranges_def\<close>)

lemma outside_ranges_primitives:
  "outside_ranges s (range_del a p s)"
  "outside_ranges s (range_shrink p st e s)"
  "outside_ranges s (range_alloc a pos pu st e p s)"
  using outside_ranges_refl [of s]
  unfolding outside_ranges_def
  by (auto simp: range_del_def range_shrink_def range_alloc_def set_unpinned_def set_range_def
      lru_del_def lru_add_def Let_def)

lemma outside_ranges_pin_loop:
  "outside_ranges s (fst (ashmem_pin_loop a st en new ps ret s))"
proof (induction ps arbitrary: ret s)
  case (Cons p ps)
  show ?case
    using outside_ranges_trans [OF outside_ranges_primitives(1) Cons.IH]
      outside_ranges_trans [OF outside_ranges_primitives(2) Cons.IH] Cons.IH
      outside_ranges_trans [OF outside_ranges_primitives(3) outside_ranges_primitives(2)]
    by (simp add: Let_def)
qed simp

lemma outside_ranges_pin: "outside_ranges s (fst (ashmem_pin a st en new s))"
  unfolding ashmem_pin_def by (rule outside_ranges_pin_loop)

lemma outside_ranges_unpin_loop:
  "outside_ranges s (fst (ashmem_unpin_loop a new st en pu s))"
proof (induction a new st en pu s rule: ashmem_unpin_loop.induct)
  case (1 a new st en pu s)
  show ?case
  proof (cases "ashmem_unpin_pass (ranges s) st en (unpinned_list (areas s a))")
    case (Absorb p)
    from outside_ranges_trans [OF outside_ranges_primitives(1) "1.IH" [OF Absorb]] show ?thesis
      by (simp add: ashmem_unpin_loop.simps [of a new st en pu s] Absorb)
  qed (simp_all add: ashmem_unpin_loop.simps [of a new st en pu s] outside_ranges_primitives)
qed

lemma outside_ranges_unpin: "outside_ranges s (fst (ashmem_unpin a st en new s))"
  unfolding ashmem_unpin_def using outside_ranges_unpin_loop [of s a new st en ASHMEM_NOT_PURGED]
  by (simp add: split_beta)

lemma outside_rangesD:
  assumes "outside_ranges s s'"
  shows "inflight s' = inflight s" "files s' = files s" "ashmem_area_list s' = ashmem_area_list s"
    "a_file (areas s' b) = a_file (areas s b)" "a_size (areas s' b) = a_size (areas s b)"
    "prot_mask (areas s' b) = prot_mask (areas s b)" "a_name (areas s' b) = a_name (areas s b)"
proof -
  obtain ps where "areas s' b = (areas s b)\<lparr>unpinned_list := ps\<rparr>"
    using assms unfolding outside_ranges_def by metis
  then show "a_file (areas s' b) = a_file (areas s b)" "a_size (areas s' b) = a_size (areas s b)"
    "prot_mask (areas s' b) = prot_mask (areas s b)" "a_name (areas s' b) = a_name (areas s b)"
    by simp_all
qed (use assms in \<open>auto simp: outside_ranges_def\<close>)

section \<open>The invariant under changes outside the ranges\<close>

definition same_ranges :: "ashmem_state \<Rightarrow> ashmem_state \<Rightarrow> bool" where
  "same_ranges s s' \<longleftrightarrow> ashmem_area_list s' = ashmem_area_list s \<and> ranges s' = ranges s \<and>
     ashmem_lru_list s' = ashmem_lru_list s \<and> lru_count s' = lru_count s \<and>
     (\<forall>b\<in>set (ashmem_area_list s). unpinned_list (areas s' b) = unpinned_list (areas s b))"

lemma same_ranges_inv: "same_ranges s s' \<Longrightarrow> ashmem_wf s \<Longrightarrow> ashmem_wf s'"
  unfolding same_ranges_def ashmem_wf_def live_ranges_def by simp

lemma same_ranges_pages:
  "same_ranges s s' \<Longrightarrow> b \<in> set (ashmem_area_list s) \<Longrightarrow>
     unpinned_pages s' b = unpinned_pages s b \<and> purged_pages s' b = purged_pages s b"
  unfolding same_ranges_def unpinned_pages_def purged_pages_def by simp

lemma same_ranges_upd [simp]:
  "same_ranges s (get_file f s)" "same_ranges s (fput f s)"
  "same_ranges s (s\<lparr>inflight := xs\<rparr>)" "same_ranges s (s\<lparr>files := fs\<rparr>)"
  "same_ranges s (s\<lparr>punched := ys\<rparr>)"
  "unpinned_list ar = unpinned_list (areas s a) \<Longrightarrow> same_ranges s (set_area a ar s)"
  by (simp_all add: same_ranges_def get_file_def fput_def set_area_def)

lemma same_ranges_trans: "same_ranges s s' \<Longrightarrow> same_ranges s' s'' \<Longrightarrow> same_ranges s s''"
  by (simp add: same_ranges_def)

section \<open>The invariant of the driver\<close>

text \<open>
  Beside the invariant of the ranges: only areas with a backing file have unpinned ranges, and
  the pages of every hole punch in flight are marked purged in the area that owns the file.
\<close>

definition inflight_ok :: "ashmem_state \<Rightarrow> bool" where
  "inflight_ok s \<longleftrightarrow> (\<forall>(f, a, st, en) \<in> set (inflight s).
     a \<in> set (ashmem_area_list s) \<and> a_file (areas s a) = Some f \<longrightarrow> {st..en} \<subseteq> purged_pages s a)"

lemma inflight_okI:
  "(\<And>f a st en. (f, a, st, en) \<in> set (inflight s) \<Longrightarrow> a \<in> set (ashmem_area_list s) \<Longrightarrow>
     a_file (areas s a) = Some f \<Longrightarrow> {st..en} \<subseteq> purged_pages s a) \<Longrightarrow> inflight_ok s"
  unfolding inflight_ok_def by (intro ballI, clarify) blast

lemma inflight_okD:
  "inflight_ok s \<Longrightarrow> (f, a, st, en) \<in> set (inflight s) \<Longrightarrow> a \<in> set (ashmem_area_list s) \<Longrightarrow>
     a_file (areas s a) = Some f \<Longrightarrow> {st..en} \<subseteq> purged_pages s a"
  by (fastforce simp: inflight_ok_def)

definition driver_inv :: "ashmem_state \<Rightarrow> bool" where
  "driver_inv s \<longleftrightarrow> ashmem_wf s \<and> inflight_ok s \<and>
     (\<forall>a\<in>set (ashmem_area_list s). unpinned_list (areas s a) \<noteq> [] \<longrightarrow> a_file (areas s a) \<noteq> None)"

lemma driver_invD:
  assumes "driver_inv s"
  shows "ashmem_wf s" "inflight_ok s"
    "a \<in> set (ashmem_area_list s) \<Longrightarrow> unpinned_list (areas s a) \<noteq> [] \<Longrightarrow> a_file (areas s a) \<noteq> None"
  using assms by (auto simp: driver_inv_def)

text \<open>A step outside the ranges keeps the invariant when it keeps files attached and starts no punch.\<close>

lemma driver_inv_same_ranges:
  assumes inv: "driver_inv s" and same: "same_ranges s s'"
    and fl: "set (inflight s') \<subseteq> set (inflight s)"
    and files: "\<And>b. b \<in> set (ashmem_area_list s) \<Longrightarrow> a_file (areas s' b) = a_file (areas s b) \<or>
       a_file (areas s b) = None \<and> a_file (areas s' b) \<notin> (\<lambda>(f, _). Some f) ` set (inflight s)"
  shows "driver_inv s'"
proof -
  have al: "ashmem_area_list s' = ashmem_area_list s" using same by (simp add: same_ranges_def)
  have "inflight_ok s'"
    unfolding inflight_ok_def al
  proof (intro ballI, clarify)
    fix f a st en x
    assume i: "(f, a, st, en) \<in> set (inflight s')" and a: "a \<in> set (ashmem_area_list s)"
      and f: "a_file (areas s' a) = Some f" and x: "x \<in> {st..en}"
    have "(f, a, st, en) \<in> set (inflight s)" using i fl by blast
    moreover from this have "a_file (areas s a) = Some f" using files [OF a] f by force
    ultimately have "{st..en} \<subseteq> purged_pages s a"
      using driver_invD(2) [OF inv] a by (fastforce simp: inflight_ok_def)
    then show "x \<in> purged_pages s' a" using same_ranges_pages [OF same a] x by auto
  qed
  moreover have "a_file (areas s' a) \<noteq> None"
    if "a \<in> set (ashmem_area_list s)" "unpinned_list (areas s' a) \<noteq> []" for a
  proof -
    have "a_file (areas s a) \<noteq> None"
      using that same driver_invD(3) [OF inv that(1)] by (simp add: same_ranges_def)
    with files [OF that(1)] show ?thesis by auto
  qed
  ultimately show ?thesis
    using same_ranges_inv [OF same driver_invD(1) [OF inv]] by (simp add: driver_inv_def al)
qed

section \<open>Preservation by the operations\<close>

lemma driver_inv_open:
  assumes inv: "driver_inv s" and fresh: "\<forall>a. alloc = Some a \<longrightarrow> a \<notin> set (ashmem_area_list s)"
  shows "driver_inv (snd (ashmem_open r alloc mode s))"
proof (cases "r = None \<and> alloc \<noteq> None")
  case True
  then obtain a where a: "r = None" "alloc = Some a" by auto
  let ?s = "snd (ashmem_open r alloc mode s)"
  have new: "a \<notin> set (ashmem_area_list s)" using fresh a by simp
  have upd: "ashmem_area_list ?s = ashmem_area_list s @ [a]" "ranges ?s = ranges s"
    "ashmem_lru_list ?s = ashmem_lru_list s" "lru_count ?s = lru_count s" "inflight ?s = inflight s"
    "unpinned_list (areas ?s a) = []" "a_file (areas ?s a) = None"
    "b \<noteq> a \<Longrightarrow> areas ?s b = areas s b" for b
    using a by (simp_all add: ashmem_open_def set_area_def Let_def)
  have live: "live_ranges ?s = live_ranges s"
    using new upd(6) upd(8) unfolding live_ranges_def upd(1) by (auto) metis+
  have "ashmem_wf ?s"
    unfolding ashmem_wf_def live upd(1,2,3,4)
    using driver_invD(1) [OF inv] new upd(6,8) by (auto simp: ashmem_wfD) (metis ashmem_wfD(2,3))+
  moreover have "inflight_ok ?s"
  proof (rule inflight_okI)
    fix f b st en
    assume i: "(f, b, st, en) \<in> set (inflight ?s)" "b \<in> set (ashmem_area_list ?s)" "a_file (areas ?s b) = Some f"
    then have b: "b \<noteq> a" using upd(7) by auto
    then have "{st..en} \<subseteq> purged_pages s b"
      using i inflight_okD [OF driver_invD(2) [OF inv], of f b] upd(1,5) upd(8) [OF b] by simp
    then show "{st..en} \<subseteq> purged_pages ?s b" by (simp add: purged_pages_def upd(2) upd(8) [OF b])
  qed
  ultimately show ?thesis
    using driver_invD(3) [OF inv] upd new unfolding driver_inv_def by (auto) metis+
qed (use inv in \<open>auto simp: ashmem_open_def split: option.splits\<close>)

lemma fold_range_del_area_list:
  "fold (range_del a) ps (s\<lparr>ashmem_area_list := xs\<rparr>) = (fold (range_del a) ps s)\<lparr>ashmem_area_list := xs\<rparr>"
proof (induction ps arbitrary: s)
  case (Cons p ps)
  have "range_del a p (s\<lparr>ashmem_area_list := xs\<rparr>) = (range_del a p s)\<lparr>ashmem_area_list := xs\<rparr>"
    by (simp add: range_del_def set_unpinned_def lru_del_def Let_def)
  then show ?case using Cons by simp
qed simp

lemma fold_range_del:
  assumes "ashmem_wf s" "a \<in> set (ashmem_area_list s)" "unpinned_list (areas s a) = ps"
  shows "ashmem_wf (fold (range_del a) ps s) \<and> outside_ranges s (fold (range_del a) ps s) \<and>
    unpinned_list (areas (fold (range_del a) ps s) a) = [] \<and>
    (\<forall>b. b \<noteq> a \<longrightarrow> areas (fold (range_del a) ps s) b = areas s b) \<and>
    ranges (fold (range_del a) ps s) = ranges s"
  using assms
proof (induction ps arbitrary: s)
  case (Cons p ps)
  have "ashmem_wf (range_del a p s)"
    using Cons.prems by (intro ashmem_wf_range_del) auto
  moreover have "unpinned_list (areas (range_del a p s) a) = ps"
    using Cons.prems(3) by (simp add: list_del_def)
  ultimately show ?case
    using Cons.IH [of "range_del a p s"] Cons.prems(2)
      outside_ranges_trans [OF outside_ranges_primitives(1) [of s a p]]
    by simp
qed simp

lemma driver_inv_release:
  assumes inv: "driver_inv s" and a: "a \<in> set (ashmem_area_list s)"
  shows "driver_inv (ashmem_release a s)"
proof -
  let ?ps = "unpinned_list (areas s a)" and ?al = "list_del a (ashmem_area_list s)"
  let ?t = "fold (range_del a) ?ps s"
  note t = fold_range_del [OF driver_invD(1) [OF inv] a refl]
  have o: "outside_ranges s ?t" using t by blast
  have al: "set ?al = set (ashmem_area_list s) - {a}"
    using ashmem_wfD(1) [OF driver_invD(1) [OF inv]] by simp
  have live: "live_ranges (?t\<lparr>ashmem_area_list := ?al\<rparr>) = live_ranges ?t"
  proof -
    have "unpinned_list (areas ?t a) = []" using t by blast
    then show ?thesis
      using outside_rangesD(3) [OF o] unfolding live_ranges_def
      by (auto simp: al)
  qed
  have "ashmem_wf ?t" using t by blast
  then have "ashmem_wf (?t\<lparr>ashmem_area_list := ?al\<rparr>)"
    unfolding ashmem_wf_def live using al outside_rangesD(3) [OF o] by auto
  moreover have "inflight_ok (?t\<lparr>ashmem_area_list := ?al\<rparr>)"
  proof (rule inflight_okI)
    fix f b st en
    assume i: "(f, b, st, en) \<in> set (inflight (?t\<lparr>ashmem_area_list := ?al\<rparr>))"
      "b \<in> set (ashmem_area_list (?t\<lparr>ashmem_area_list := ?al\<rparr>))"
      "a_file (areas (?t\<lparr>ashmem_area_list := ?al\<rparr>) b) = Some f"
    then have b: "b \<noteq> a" "b \<in> set (ashmem_area_list s)" using al by auto
    have ar: "areas ?t b = areas s b" "ranges ?t = ranges s" using t b(1) by auto
    have "{st..en} \<subseteq> purged_pages s b"
      using i inflight_okD [OF driver_invD(2) [OF inv] _ b(2), of f st en] outside_rangesD(1) [OF o] ar by simp
    then show "{st..en} \<subseteq> purged_pages (?t\<lparr>ashmem_area_list := ?al\<rparr>) b"
      by (simp add: purged_pages_def ar)
  qed
  moreover have "a_file (areas ?t b) \<noteq> None"
    if "b \<in> set ?al" "unpinned_list (areas ?t b) \<noteq> []" for b
    using that al t driver_invD(3) [OF inv, of b] by auto
  ultimately have "driver_inv (?t\<lparr>ashmem_area_list := ?al\<rparr>)" by (simp add: driver_inv_def)
  then show ?thesis
    unfolding ashmem_release_def Let_def fold_range_del_area_list
    by (auto split: option.splits intro: driver_inv_same_ranges simp: fput_def)
qed

text \<open>The first range of the LRU list belongs to an area with a backing file, so a round can run.\<close>

lemma shrink_take_step:
  assumes inv: "driver_inv s" and lru: "ashmem_lru_list s = p # ls"
  obtains f b s' where "shrink_take s =
        Some ((f, b, pgstart (ranges s p), pgend (ranges s p)), range_size (ranges s p), s')"
    and "b \<in> set (ashmem_area_list s)" "p \<in> set (unpinned_list (areas s b))" "a_file (areas s b) = Some f"
    and "areas s' = areas s" "ashmem_area_list s' = ashmem_area_list s"
    and "ranges s' = (ranges s)(p := (ranges s p)\<lparr>purged := ASHMEM_WAS_PURGED\<rparr>)"
    and "ashmem_lru_list s' = ls" "lru_count s' = lru_count s - range_size (ranges s p)"
    and "inflight s' = (f, b, pgstart (ranges s p), pgend (ranges s p)) # inflight s"
proof -
  let ?r = "ranges s p" let ?r' = "(ranges s p)\<lparr>purged := ASHMEM_WAS_PURGED\<rparr>"
  note ai = driver_invD(1) [OF inv]
  have "p \<in> live_ranges s" using ashmem_wfD(5) [OF ai, of p] lru by auto
  then obtain b where b: "b \<in> set (ashmem_area_list s)" "p \<in> set (unpinned_list (areas s b))"
    by (auto simp: live_ranges_def)
  then have a: "asma ?r = b" using ashmem_wfD(3) [OF ai] by blast
  obtain f where f: "a_file (areas s b) = Some f" using driver_invD(3) [OF inv b(1)] b(2) by fastforce
  let ?s = "lru_del p (set_range p ?r' ((get_file f s)\<lparr>inflight := (f, b, pgstart ?r, pgend ?r) # inflight s\<rparr>))"
  show thesis
    by (rule that [of f b ?s])
      (simp_all add: b f a shrink_take_def lru Let_def lru_del_def set_range_def get_file_def
        list_del_def range_size_def)
qed

lemma ashmem_wf_purge:
  assumes ai: "ashmem_wf s" and lru: "ashmem_lru_list s = p # ls"
    and upd: "areas s' = areas s" "ashmem_area_list s' = ashmem_area_list s"
      "ranges s' = (ranges s)(p := (ranges s p)\<lparr>purged := ASHMEM_WAS_PURGED\<rparr>)"
      "ashmem_lru_list s' = ls" "lru_count s' = lru_count s - range_size (ranges s p)"
  shows "ashmem_wf s'"
proof -
  let ?rs = "(ranges s)(p := (ranges s p)\<lparr>purged := ASHMEM_WAS_PURGED\<rparr>)"
  have d: "distinct (p # ls)" using ashmem_wfD(4) [OF ai] lru by simp
  have live: "live_ranges s' = live_ranges s" by (simp add: live_ranges_def upd(1,2))
  have "set (p # ls) = {q \<in> live_ranges s. range_on_lru (ranges s q)}"
    using ashmem_wfD(5) [OF ai] lru by auto
  then have set_ls: "set ls = {q \<in> live_ranges s. range_on_lru (?rs q)}"
    using d by (auto simp: range_on_lru_def ASHMEM_WAS_PURGED_def ASHMEM_NOT_PURGED_def split: if_splits)
  have "(\<Sum>q\<leftarrow>ls. range_size (?rs q)) = (\<Sum>q\<leftarrow>ls. range_size (ranges s q))"
    using d by (intro arg_cong [where f = sum_list] map_cong) auto
  then have cnt: "lru_count s - range_size (ranges s p) = (\<Sum>q\<leftarrow>ls. range_size (?rs q))"
    using ashmem_wfD(6) [OF ai] lru by simp
  have ok: "ranges_wf ?rs ps = ranges_wf (ranges s) ps" for ps by (rule ranges_wf_cong) auto
  show ?thesis
    unfolding ashmem_wf_def live upd cnt ok
    using ai d set_ls by (auto simp: ashmem_wfD)
qed

lemma purged_pages_purge:
  assumes "areas s' = areas s" "ranges s' = (ranges s)(p := (ranges s p)\<lparr>purged := ASHMEM_WAS_PURGED\<rparr>)"
  shows "purged_pages s c \<subseteq> purged_pages s' c"
    and "p \<in> set (unpinned_list (areas s c)) \<Longrightarrow> range_pages (ranges s p) \<subseteq> purged_pages s' c"
  using assms
  by (auto simp: purged_pages_def range_pages_def range_on_lru_def ASHMEM_WAS_PURGED_def
      ASHMEM_NOT_PURGED_def)

lemma shrink_take_inv:
  assumes inv: "driver_inv s" and lru: "ashmem_lru_list s = p # ls"
  shows "\<exists>x s'. shrink_take s = Some (x, range_size (ranges s p), s') \<and> driver_inv s' \<and>
    ashmem_lru_list s' = ls \<and> lru_count s' = lru_count s - range_size (ranges s p)"
proof -
  obtain f b s' where take: "shrink_take s =
        Some ((f, b, pgstart (ranges s p), pgend (ranges s p)), range_size (ranges s p), s')"
    and b: "b \<in> set (ashmem_area_list s)" "p \<in> set (unpinned_list (areas s b))" "a_file (areas s b) = Some f"
    and upd: "areas s' = areas s" "ashmem_area_list s' = ashmem_area_list s"
      "ranges s' = (ranges s)(p := (ranges s p)\<lparr>purged := ASHMEM_WAS_PURGED\<rparr>)"
      "ashmem_lru_list s' = ls" "lru_count s' = lru_count s - range_size (ranges s p)"
      "inflight s' = (f, b, pgstart (ranges s p), pgend (ranges s p)) # inflight s"
    by (rule shrink_take_step [OF inv lru])
  have "inflight_ok s'"
  proof (rule inflight_okI)
    fix g c st en
    assume i: "(g, c, st, en) \<in> set (inflight s')" "c \<in> set (ashmem_area_list s')" "a_file (areas s' c) = Some g"
    show "{st..en} \<subseteq> purged_pages s' c"
    proof (cases "(g, c, st, en) \<in> set (inflight s)")
      case True
      then have "{st..en} \<subseteq> purged_pages s c"
        using i inflight_okD [OF driver_invD(2) [OF inv] True] by (simp add: upd)
      then show ?thesis using purged_pages_purge(1) [OF upd(1,3)] by blast
    next
      case False
      then have "c = b" "{st..en} = range_pages (ranges s p)" using i(1) by (auto simp: upd range_pages_def)
      then show ?thesis using purged_pages_purge(2) [OF upd(1,3) b(2)] by simp
    qed
  qed
  then have "driver_inv s'"
    using driver_invD(3) [OF inv] ashmem_wf_purge [OF driver_invD(1) [OF inv] lru upd(1-5)]
    by (simp add: driver_inv_def upd(1,2))
  then show ?thesis using take upd(4,5) by blast
qed

lemma driver_inv_punch: "driver_inv s \<Longrightarrow> driver_inv (shrink_punch x s)"
  by (rule driver_inv_same_ranges)
    (auto simp: shrink_punch_def Let_def same_ranges_def fput_def split: prod.splits
      dest: notin_set_remove1 intro: in_set_remove1 [THEN iffD1] set_remove1_subset [THEN subsetD])

section \<open>The page range of a pin request\<close>

lemma pin_pages_bytes:
  assumes "pin_pages sz pin = Some (st, en)" "pin_len pin \<noteq> 0"
  shows "unat st * 4096 = unat (pin_offset pin)"
    and "(unat en + 1) * 4096 = unat (pin_offset pin) + unat (pin_len pin)"
    and "unat (pin_offset pin) + unat (pin_len pin) \<le> unat (PAGE_ALIGN sz)"
    and "st \<le> en"
proof -
  let ?o = "unat (pin_offset pin)" and ?l = "unat (pin_len pin)"
  have c: "ucast (pin_offset pin OR pin_len pin) AND NOT PAGE_MASK = 0"
    "\<not> (-1) - pin_offset pin < pin_len pin" "\<not> PAGE_ALIGN sz < ucast (pin_offset pin + pin_len pin)"
    "st = ucast (pin_offset pin) div PAGE_SIZE" "en = st + ucast (pin_len pin) div PAGE_SIZE - 1"
    using assms by (auto simp: pin_pages_def Let_def split: if_splits)
  have "(ucast (pin_offset pin) :: u64) AND NOT PAGE_MASK = 0" "(ucast (pin_len pin) :: u64) AND NOT PAGE_MASK = 0"
    using c(1) by (simp_all add: unsigned_or_eq word_ao_dist word_or_eq_0_iff)
  then have al: "4096 dvd ?o" "4096 dvd ?l" by (simp_all add: page_offset_zero)
  have lt: "?o < 2 ^ 32" "?l < 2 ^ 32"
    using unsigned_less [of "pin_offset pin"] unsigned_less [of "pin_len pin"] by simp_all
  have "unat ((-1) - pin_offset pin) = 2 ^ 32 - 1 - ?o"
    by (subst unat_sub) (simp_all add: unsigned_minus_1_eq_mask mask_eq_exp_minus_1)
  with c(2) lt have sum: "?o + ?l < 2 ^ 32" by (simp add: word_less_nat_alt)
  show st: "unat st * 4096 = ?o" using c(4) al by (simp add: unat_div PAGE_SIZE_def)
  obtain k where k: "?l = k * 4096" using al(2) by (metis dvd_div_mult_self)
  have k0: "0 < k" using assms(2) k by (cases k) (auto simp: unat_eq_zero)
  have klt: "unat st + k < 2 ^ 20" using st k sum by simp
  have kw: "unat (ucast (pin_len pin) div PAGE_SIZE) = k" by (simp add: unat_div PAGE_SIZE_def k)
  have "unat (st + ucast (pin_len pin) div PAGE_SIZE) = unat st + k"
    using klt kw by (subst unat_add_lem [THEN iffD1]) simp_all
  moreover have "st + ucast (pin_len pin) div PAGE_SIZE \<noteq> 0"
    using calculation k0 by auto
  ultimately have en: "unat en = unat st + k - 1" unfolding c(5) by (simp add: unat_minus_one)
  show "(unat en + 1) * 4096 = ?o + ?l" using en k0 st k by simp
  show "?o + ?l \<le> unat (PAGE_ALIGN sz)"
    using c(3) sum by (simp add: word_less_nat_alt unat_add_lem [THEN iffD1])
  show "st \<le> en" using en k0 by (simp add: word_le_nat_alt)
qed

section \<open>Pinning and the ioctls\<close>

text \<open>The bounds of a request that passes the checks of the driver; it may be for no page.\<close>

lemma pin_pages_wf:
  assumes "pin_pages sz pin = Some (st, en)"
  shows "bounds_wf st en"
proof -
  let ?len = "if pin_len pin = 0 then ucast (PAGE_ALIGN sz - ucast (pin_offset pin)) else pin_len pin"
  show ?thesis
  proof (cases "?len = 0")
    case True
    then have "en = st - 1" using assms by (auto simp: pin_pages_def Let_def split: if_splits)
    then show ?thesis by (cases "st = 0") (simp_all add: bounds_wf_def)
  next
    case False
    then have "pin_pages sz (pin\<lparr>pin_len := ?len\<rparr>) = Some (st, en)" using assms by (auto simp: pin_pages_def Let_def split: if_splits)
    then show ?thesis using pin_pages_bytes(4) False by fastforce
  qed
qed

lemma driver_inv_replace_ranges:
  assumes "driver_inv s" "ashmem_wf s'" "outside_ranges s s'" "a_file (areas s a) \<noteq> None"
    "\<And>b. b \<noteq> a \<Longrightarrow> areas s' b = areas s b" "inflight s = []"
  shows "driver_inv s'"
  using assms driver_invD(3) [OF assms(1)] outside_rangesD [OF assms(3)]
  unfolding driver_inv_def inflight_ok_def by (auto) (metis option.distinct(1))

lemma driver_inv_pin_unpin:
  assumes inv: "driver_inv s" and a: "a \<in> set (ashmem_area_list s)" and idle: "inflight s = []"
    and new: "\<forall>p. new = Some p \<longrightarrow> p \<notin> live_ranges s"
  shows "driver_inv (snd (ashmem_pin_unpin a cmd up new s))"
proof -
  have "driver_inv (fst (ashmem_pin a st en p s)) \<and> driver_inv (fst (ashmem_unpin a st en p s))"
    if p: "p \<notin> live_ranges s" and le: "bounds_wf st en" and f: "a_file (areas s a) \<noteq> None" for p st en
  proof
    note ai = driver_invD(1) [OF inv]
    have "pin_post a st en p (unpinned_list (areas s a)) ASHMEM_NOT_PURGED s (ashmem_pin a st en p s)"
      by (rule ashmem_pin_post [OF ai a p le])
    then show "driver_inv (fst (ashmem_pin a st en p s))"
      by (intro driver_inv_replace_ranges [OF inv _ outside_ranges_pin f _ idle])
        (auto simp: pin_post_def split_beta)
    have "unpin_post a st en p {} s
        (fst (ashmem_unpin a st en p s), snd (snd (ashmem_unpin a st en p s)))"
      using ashmem_unpin_post(2) [OF ai a p le] by (metis prod.collapse)
    then show "driver_inv (fst (ashmem_unpin a st en p s))"
      by (intro driver_inv_replace_ranges [OF inv _ outside_ranges_unpin f _ idle])
        (auto simp: unpin_post_def)
  qed
  then show ?thesis
    using inv new pin_pages_wf
    by (auto simp: ashmem_pin_unpin_def split_beta split: option.splits ashmem_cmd.splits)
qed

lemma driver_inv_set_area:
  assumes "driver_inv s" "unpinned_list ar = unpinned_list (areas s a)" "a_file ar = a_file (areas s a)"
  shows "driver_inv (set_area a ar s)"
  by (rule driver_inv_same_ranges [OF assms(1)]) (use assms in \<open>auto simp: set_area_def same_ranges_def\<close>)

lemma driver_inv_ioctl:
  assumes inv: "driver_inv s" and a: "a \<in> set (ashmem_area_list s)"
    and cmd: "cmd \<noteq> ASHMEM_PURGE_ALL_CACHES"
    and idle: "cmd \<in> {ASHMEM_PIN, ASHMEM_UNPIN, ASHMEM_GET_PIN_STATUS} \<Longrightarrow> inflight s = []"
    and new: "\<forall>p. new_range env = Some p \<longrightarrow> p \<notin> live_ranges s"
    and res: "ashmem_ioctl env a cmd s = Some (ret, out, s')"
  shows "driver_inv s'"
proof (cases "cmd \<in> {ASHMEM_PIN, ASHMEM_UNPIN, ASHMEM_GET_PIN_STATUS}")
  case True
  have "s' = snd (ashmem_pin_unpin a cmd (user_pin env) (new_range env) s)"
    using True res by (auto simp: ashmem_ioctl_def split_beta)
  then show ?thesis using driver_inv_pin_unpin [OF inv a idle [OF True] new] by simp
next
  case False
  then show ?thesis
    using cmd res inv
    by (cases cmd)
      (auto simp: ashmem_ioctl_def set_name_def set_prot_mask_def Let_def intro!: driver_inv_set_area
        split: sum.splits if_splits prod.splits)
qed

section \<open>Mapping\<close>

lemma attach_file_cases:
  assumes "ashmem_attach_file env a fl s = Inr (f, s')"
  obtains (old) "a_file (areas s a) = Some f" "s' = s"
  | (fresh) "a_file (areas s a) = None" "ashmem_create_backing_file env (areas s a) fl = Inr f"
      "s' = (set_area a ((areas s a)\<lparr>a_file := Some f\<rparr>) s)\<lparr>files :=
         (files s)(f := \<lparr>f_count = 1, f_pos = 0, fmode_lseek = True, f_op_vmfile = True\<rparr>)\<rparr>"
  using assms unfolding ashmem_attach_file_def by (auto split: option.splits sum.splits)

lemma map_file_areas:
  "ashmem_map_file env f vma s = (r, vma', s') \<Longrightarrow> same_ranges s s' \<and> areas s' = areas s \<and> inflight s' = inflight s"
  by (auto simp: ashmem_map_file_def Let_def same_ranges_def get_file_def fput_def
      split: prod.splits option.splits if_splits)

lemma driver_inv_mmap:
  assumes inv: "driver_inv s"
    and fresh: "\<And>nm n fl f. shmem_file_setup env nm n fl = Inr f \<Longrightarrow> f \<notin> fst ` set (inflight s)"
    and res: "ashmem_mmap env a vma s = (r, vma', s')"
  shows "driver_inv s'"
proof -
  have keep: "driver_inv s2"
    if at: "ashmem_attach_file env a fl s = Inr (f, s1)" and m: "ashmem_map_file env f v s1 = (r, vma', s2)"
    for f s1 s2 fl v
  proof -
    have "driver_inv s1"
      using at
    proof (cases rule: attach_file_cases)
      case fresh': fresh
      have "f \<notin> fst ` set (inflight s)"
        using fresh'(2) fresh by (auto simp: ashmem_create_backing_file_def Let_def split: ashmem_backing_type.splits)
      then show ?thesis
        using fresh' by (intro driver_inv_same_ranges [OF inv])
          (auto simp: set_area_def same_ranges_def image_iff split: prod.splits)
    qed (use inv in simp)
    then show ?thesis using map_file_areas [OF m] by (auto intro: driver_inv_same_ranges)
  qed
  show ?thesis
    using res inv keep
    by (auto simp: ashmem_mmap_def Let_def split: if_splits sum.splits)
qed

section \<open>The driver as a transition system\<close>

text \<open>
  The steps are the critical sections of \<open>ashmem_mutex\<close>. Pin requests wait, with the mutex held,
  until no hole punch is in flight. Addresses handed out by the allocators are not in use, and a
  new file is not one of a punch in flight. \<open>ASHMEM_PURGE_ALL_CACHES\<close> runs rounds of the shrinker, which
  are the last two kinds of steps.
\<close>

inductive ashmem_step :: "ashmem_state \<Rightarrow> ashmem_state \<Rightarrow> bool" where
  open_step: "(\<forall>a. alloc = Some a \<longrightarrow> a \<notin> set (ashmem_area_list s)) \<Longrightarrow>
     ashmem_step s (snd (ashmem_open r alloc mode s))"
| release_step: "a \<in> set (ashmem_area_list s) \<Longrightarrow> ashmem_step s (ashmem_release a s)"
| read_step: "ashmem_read_iter rd a pos s = (r, pos', s') \<Longrightarrow> ashmem_step s s'"
| llseek_step: "ashmem_llseek sk a fpos off origin s = (r, fpos', s') \<Longrightarrow> ashmem_step s s'"
| mmap_step: "\<lbrakk> a \<in> set (ashmem_area_list s);
     \<forall>nm n fl f. shmem_file_setup env nm n fl = Inr f \<longrightarrow> f \<notin> fst ` set (inflight s);
     ashmem_mmap env a vma s = (r, vma', s') \<rbrakk> \<Longrightarrow> ashmem_step s s'"
| ioctl_step: "\<lbrakk> a \<in> set (ashmem_area_list s); cmd \<noteq> ASHMEM_PURGE_ALL_CACHES;
     cmd \<in> {ASHMEM_PIN, ASHMEM_UNPIN, ASHMEM_GET_PIN_STATUS} \<longrightarrow> inflight s = [];
     \<forall>p. new_range ienv = Some p \<longrightarrow> p \<notin> live_ranges s;
     ashmem_ioctl ienv a cmd s = Some (ret, out, s') \<rbrakk> \<Longrightarrow> ashmem_step s s'"
| take_step: "shrink_take s = Some (x, n, s') \<Longrightarrow> ashmem_step s s'"
| punch_step: "x \<in> set (inflight s) \<Longrightarrow> ashmem_step s (shrink_punch x s)"

definition ashmem_initial :: "ashmem_state \<Rightarrow> bool" where
  "ashmem_initial s \<longleftrightarrow> ashmem_area_list s = [] \<and> ashmem_lru_list s = [] \<and> lru_count s = 0 \<and> inflight s = []"

inductive ashmem_reachable :: "ashmem_state \<Rightarrow> bool" where
  reach_init: "ashmem_initial s \<Longrightarrow> ashmem_reachable s"
| reach_step: "ashmem_reachable s \<Longrightarrow> ashmem_step s s' \<Longrightarrow> ashmem_reachable s'"

lemma driver_inv_initial: "ashmem_initial s \<Longrightarrow> driver_inv s"
  by (simp add: ashmem_initial_def driver_inv_def ashmem_wf_def inflight_ok_def live_ranges_def)

lemma driver_inv_files:
  assumes "driver_inv s" "same_ranges s s' \<and> areas s' = areas s \<and> inflight s' = inflight s"
  shows "driver_inv s'"
  by (rule driver_inv_same_ranges [OF assms(1)]) (use assms in auto)

lemma driver_inv_step: "ashmem_step s s' \<Longrightarrow> driver_inv s \<Longrightarrow> driver_inv s'"
proof (induction rule: ashmem_step.induct)
  case (read_step rd a pos s r pos' s')
  have "same_ranges s s' \<and> areas s' = areas s \<and> inflight s' = inflight s"
    using read_step(1)
    by (auto simp: ashmem_read_iter_def same_ranges_def
        split: if_splits option.splits sum.splits prod.splits nat.splits)
  with read_step(2) show ?case by (rule driver_inv_files)
next
  case (llseek_step sk a fpos off origin s r fpos' s')
  have "same_ranges s s' \<and> areas s' = areas s \<and> inflight s' = inflight s"
    using llseek_step(1)
    by (auto simp: ashmem_llseek_def same_ranges_def Let_def
        split: if_splits option.splits sum.splits prod.splits)
  with llseek_step(2) show ?case by (rule driver_inv_files)
next
  case (mmap_step a s env vma r vma' s')
  then show ?case by (blast intro: driver_inv_mmap [of s env a vma r vma' s'])
next
  case (ioctl_step a s cmd ienv ret out s')
  then show ?case by (blast intro: driver_inv_ioctl [of s a cmd ienv ret out s'])
next
  case (take_step s x n s')
  then obtain p ls where "ashmem_lru_list s = p # ls" by (auto simp: shrink_take_def split: list.splits)
  with take_step shrink_take_inv [of s p ls] show ?case by auto
qed (auto intro: driver_inv_open driver_inv_release driver_inv_punch)

lemma driver_inv_reachable: "ashmem_reachable s \<Longrightarrow> driver_inv s"
  by (induction rule: ashmem_reachable.induct) (auto intro: driver_inv_initial driver_inv_step)

end
