(* ===== verification/Ashmem_Props.thy ===== *)
theory Ashmem_Props
  imports Ashmem_Driver_Inv
begin

text \<open>
  The properties of the ashmem driver: what pinning and unpinning do to the pages of an area,
  the safety of the shrinker against concurrent operations, the protection mask, names,
  mappings and module initialisation, each with a concrete instance.
\<close>

section \<open>A concrete state\<close>

text \<open>
  One area of eight pages with backing file 9 and two unpinned ranges: pages 5 and 6, and
  pages 1 and 2, which have been purged.
\<close>

definition demo_range :: "ptr \<Rightarrow> ashmem_range" where
  "demo_range p = (if p = 20 then \<lparr>asma = 10, pgstart = 5, pgend = 6, purged = 0\<rparr>
                   else \<lparr>asma = 10, pgstart = 1, pgend = 2, purged = 1\<rparr>)"

definition demo_area :: ashmem_area where
  "demo_area = \<lparr>a_name = ASHMEM_NAME_PREFIX @ replicate ASHMEM_NAME_LEN NUL, unpinned_list = [20, 21],
     a_file = Some 9, a_size = 0x8000, prot_mask = PROT_MASK, backing = ASHMEM_BACKING_SHMEM\<rparr>"

definition demo_file :: kfile where
  "demo_file = \<lparr>f_count = 1, f_pos = 0, fmode_lseek = True, f_op_vmfile = True\<rparr>"

definition demo :: ashmem_state where
  "demo = \<lparr>areas = (\<lambda>_. demo_area), ashmem_area_list = [10], ranges = demo_range,
     ashmem_lru_list = [20], lru_count = 2, punched = [], inflight = [], files = (\<lambda>_. demo_file)\<rparr>"

lemma demo_live: "live_ranges demo = {20, 21}"
  by (auto simp: live_ranges_def demo_def demo_area_def)

lemma demo_area_list: "ashmem_area_list demo = [10]"
  by (simp add: demo_def)

lemma demo_inv: "driver_inv demo"
  unfolding driver_inv_def ashmem_wf_def inflight_ok_def demo_live
  by (auto simp: demo_def demo_area_def demo_range_def range_on_lru_def ASHMEM_NOT_PURGED_def
      range_size_def ranges_wf_def)

lemma demo_ashmem_inv: "ashmem_inv demo"
  using driver_invD(1) [OF demo_inv] by (auto simp: ashmem_inv_iff all_full_def demo_def demo_area_def demo_range_def)

lemmas demo_simps = demo_def demo_area_def demo_range_def demo_file_def

section \<open>Pinning and unpinning\<close>

text \<open>
  C3. Pinning pages \<open>st\<close> to \<open>en\<close> of an area removes exactly those pages from the area's unpinned
  pages, leaves every other area alone, keeps the invariant of the ranges (descending disjoint
  ranges, the LRU list holding exactly the ranges that are not purged, the page counter), and
  reports a purge exactly when a range overlapping the request had been purged.
\<close>

theorem ashmem_pin_correct:
  assumes "ashmem_inv s" "a \<in> set (ashmem_area_list s)" "new \<notin> live_ranges s" "st \<le> en"
    and "ashmem_pin a st en new s = (s', ret, nr)"
  shows "ashmem_inv s' \<and> unpinned_pages s' a = unpinned_pages s a - {st..en} \<and>
    (\<forall>b\<in>set (ashmem_area_list s). b \<noteq> a \<longrightarrow> unpinned_pages s' b = unpinned_pages s b) \<and>
    (ret = ASHMEM_NOT_PURGED \<longleftrightarrow>
       (\<forall>p\<in>set (unpinned_list (areas s a)). range_pages (ranges s p) \<inter> {st..en} \<noteq> {} \<longrightarrow>
          purged (ranges s p) = ASHMEM_NOT_PURGED))"
proof -
  have w: "ashmem_wf s" "all_full s a" using assms(1,2) by (simp_all add: ashmem_inv_iff)
  have p: "pin_post a st en new (unpinned_list (areas s a)) ASHMEM_NOT_PURGED s (s', ret, nr)"
    using ashmem_pin_post [OF w(1) assms(2,3) bounds_wf_le [OF assms(4)]] assms(5) by simp
  have inv: "ashmem_inv s'" using ashmem_pin_inv [OF assms(1-3) bounds_wf_le [OF assms(4)]] assms(5) by simp
  have other: "unpinned_pages s' b = unpinned_pages s b" if "b \<in> set (ashmem_area_list s)" "b \<noteq> a" for b
    using pt.pages_pin_other [of s a b new st en] assms that by (simp add: ashmem_ready_def)
  have "ret = 0 \<longleftrightarrow> (\<forall>p\<in>set (unpinned_list (areas s a)).
      range_pages (ranges s p) \<inter> {st..en} \<noteq> {} \<longrightarrow> purged (ranges s p) = 0)"
  proof -
    have h: "hits (ranges s p) st en \<longleftrightarrow> range_pages (ranges s p) \<inter> {st..en} \<noteq> {}" if "p \<in> set (unpinned_list (areas s a))" for p
      using w(2) that assms(4) by (intro hits_iff) (simp_all add: all_full_def)
    have "ret = overlap_purged (ranges s) st en (unpinned_list (areas s a)) 0"
      using p by (simp add: pin_post_def ASHMEM_NOT_PURGED_def)
    then have "ret = 0 \<longleftrightarrow> (\<forall>p\<in>set (unpinned_list (areas s a)). hits (ranges s p) st en \<longrightarrow> purged (ranges s p) = 0)"
      by (simp only: overlap_purged_def foldl_or_zero) auto
    then show ?thesis using h by blast
  qed
  with p other inv show ?thesis by (simp add: pin_post_def ASHMEM_NOT_PURGED_def)
qed

theorem ashmem_pin_correct_witness:
  "ashmem_inv demo \<and> fst (snd (ashmem_pin 10 2 5 30 demo)) = ASHMEM_WAS_PURGED \<and>
   unpinned_pages (fst (ashmem_pin 10 2 5 30 demo)) 10 = unpinned_pages demo 10 - {2..5}"
proof -
  have "fst (snd (ashmem_pin 10 2 5 30 demo)) = ASHMEM_WAS_PURGED"
    by code_simp
  moreover obtain s' ret nr where e: "ashmem_pin 10 2 5 30 demo = (s', ret, nr)"
    by (cases "ashmem_pin 10 2 5 30 demo")
  ultimately show ?thesis
    using ashmem_pin_correct [OF demo_ashmem_inv _ _ _ e] demo_ashmem_inv
    by (simp add: demo_live demo_area_list)
qed

text \<open>
  C4. Unpinning pages \<open>st\<close> to \<open>en\<close> of an area adds exactly those pages to the area's unpinned
  pages, whatever ranges they merge with, leaves other areas alone, keeps the invariant, never
  forgets that a page was purged, and returns 0.
\<close>

theorem ashmem_unpin_correct:
  assumes "ashmem_inv s" "a \<in> set (ashmem_area_list s)" "new \<notin> live_ranges s" "st \<le> en"
    and "ashmem_unpin a st en new s = (s', ret, nr)"
  shows "ret = 0 \<and> ashmem_inv s' \<and> unpinned_pages s' a = unpinned_pages s a \<union> {st..en} \<and>
    purged_pages s a \<subseteq> purged_pages s' a \<and>
    (\<forall>b\<in>set (ashmem_area_list s). b \<noteq> a \<longrightarrow> unpinned_pages s' b = unpinned_pages s b)"
proof -
  have w: "ashmem_wf s" using assms(1) by (simp add: ashmem_inv_iff)
  show ?thesis
    using ashmem_unpin_post [OF w assms(2,3) bounds_wf_le [OF assms(4)] assms(5)] ashmem_unpin_inv [OF assms(1-4)]
      pt.pages_unpin_other [of s a _ new st en] assms
    by (simp add: unpin_post_def ashmem_ready_def)
qed

theorem ashmem_unpin_correct_witness:
  "ashmem_inv demo \<and> unpinned_pages (fst (ashmem_unpin 10 2 5 30 demo)) 10 = unpinned_pages demo 10 \<union> {2..5}
   \<and> {1..2} \<subseteq> purged_pages (fst (ashmem_unpin 10 2 5 30 demo)) 10"
proof -
  have "{1..2} \<subseteq> purged_pages demo 10"
    using purged_pagesI [of 21 demo 10] by (simp add: demo_simps range_pages_def)
  then show ?thesis
    using ashmem_unpin_correct [OF demo_ashmem_inv, of 10 30 2 5 "fst (ashmem_unpin 10 2 5 30 demo)"
        "fst (snd (ashmem_unpin 10 2 5 30 demo))" "snd (snd (ashmem_unpin 10 2 5 30 demo))"] demo_ashmem_inv
    by (auto simp: demo_live demo_area_list)
qed

text \<open>
  The pin status query answers "unpinned" exactly when some requested page is unpinned; so
  right after a pin request the same pages are reported pinned, and right after an unpin request
  unpinned.
\<close>

theorem ashmem_pin_status_correct:
  assumes "ashmem_inv s" "a \<in> set (ashmem_area_list s)" "st \<le> en" "new \<notin> live_ranges s"
  shows "(ashmem_get_pin_status a st en s = ASHMEM_IS_PINNED \<longleftrightarrow> unpinned_pages s a \<inter> {st..en} = {}) \<and>
    ashmem_get_pin_status a st en (fst (ashmem_pin a st en new s)) = ASHMEM_IS_PINNED \<and>
    ashmem_get_pin_status a st en (fst (ashmem_unpin a st en new s)) \<noteq> ASHMEM_IS_PINNED"
  using assms pt.pinned_iff [of s a st en] pt.pinned_after_pin [of s a new st en]
    pt.not_pinned_after_unpin [of s a new st en]
  by (simp add: ashmem_ready_def)

theorem ashmem_pin_status_correct_witness:
  "ashmem_inv demo \<and> ashmem_get_pin_status 10 2 5 (fst (ashmem_pin 10 2 5 30 demo)) = ASHMEM_IS_PINNED"
  using ashmem_pin_status_correct [OF demo_ashmem_inv, of 10 2 5 30] demo_ashmem_inv
  by (auto simp: demo_live demo_area_list)

section \<open>Reachable states and the shrinker\<close>

text \<open>A sequence of steps to a state with a hole punch in flight.\<close>

definition demo_start :: ashmem_state where
  "demo_start = \<lparr>areas = (\<lambda>_. demo_area), ashmem_area_list = [], ranges = demo_range,
     ashmem_lru_list = [], lru_count = 0, punched = [], inflight = [], files = (\<lambda>_. demo_file)\<rparr>"

definition demo_ioctl :: ioctl_env where
  "demo_ioctl = \<lparr>arg = 0x8000, user_bytes = ''shm'' @ [NUL], user_writable = True,
     user_pin = Some \<lparr>pin_offset = 0x1000, pin_len = 0x2000\<rparr>, new_range = Some 20,
     read_implies_exec = False, cap_sys_admin = False, trylock_first = True,
     trylock_again = (\<lambda>_. True), others = (\<lambda>_ s. s)\<rparr>"

definition demo_mmap :: mmap_env where
  "demo_mmap = \<lparr>since_6_3 = True, shmem_file_setup = (\<lambda>_ _ _. Inr 9),
     shmem_zero_setup = (\<lambda>v fs. (None, v, fs))\<rparr>"

definition demo_vma :: ashmem_vma where
  "demo_vma = \<lparr>vm_start = 0x10000, vm_end = 0x18000, vm_flags = 0x7B, vm_file = None, vm_anonymous = False\<rparr>"

definition demo_opened :: ashmem_state where
  "demo_opened = snd (ashmem_open None (Some 10) 0 demo_start)"

definition demo_sized :: ashmem_state where
  "demo_sized = snd (snd (the (ashmem_ioctl demo_ioctl 10 ASHMEM_SET_SIZE demo_opened)))"

definition demo_mapped :: ashmem_state where
  "demo_mapped = snd (snd (ashmem_mmap demo_mmap 10 demo_vma demo_sized))"

definition demo_unpinned :: ashmem_state where
  "demo_unpinned = snd (snd (the (ashmem_ioctl demo_ioctl 10 ASHMEM_UNPIN demo_mapped)))"

definition demo_taken :: ashmem_state where
  "demo_taken = snd (snd (the (shrink_take demo_unpinned)))"

lemma ioctl_Some:
  "cmd \<noteq> ASHMEM_PURGE_ALL_CACHES \<Longrightarrow> \<exists>ret out s'. ashmem_ioctl env a cmd s = Some (ret, out, s')"
  by (cases cmd) (auto simp: ashmem_ioctl_def split_beta split: sum.splits)

lemma ioctl_step_the:
  assumes "a \<in> set (ashmem_area_list s)" "cmd \<noteq> ASHMEM_PURGE_ALL_CACHES" "inflight s = []"
    "\<forall>p. new_range ienv = Some p \<longrightarrow> p \<notin> live_ranges s"
  shows "ashmem_step s (snd (snd (the (ashmem_ioctl ienv a cmd s))))"
  using ioctl_Some [OF assms(2), of ienv a s] ioctl_step [OF assms(1,2) _ assms(4)] assms(3) by auto

lemma demo_reachable: "ashmem_reachable demo_unpinned"
proof -
  have env: "(\<forall>p. new_range demo_ioctl = Some p \<longrightarrow> P p) \<longleftrightarrow> P 20" for P
    by (auto simp: demo_ioctl_def)
  have "ashmem_reachable demo_start"
    by (rule reach_init) (simp add: ashmem_initial_def demo_start_def)
  then have "ashmem_reachable demo_opened"
    unfolding demo_opened_def by (rule reach_step) (rule open_step, simp add: demo_start_def)
  then have "ashmem_reachable demo_sized"
    unfolding demo_sized_def
    by (rule reach_step) (rule ioctl_step_the, code_simp, simp, code_simp, unfold env, code_simp+)
  then have "ashmem_reachable demo_mapped"
  proof (rule reach_step)
    have "10 \<in> set (ashmem_area_list demo_sized)" "inflight demo_sized = []" by code_simp+
    then show "ashmem_step demo_sized demo_mapped"
      unfolding demo_mapped_def
      by (intro mmap_step [of 10 demo_sized demo_mmap demo_vma
            "fst (ashmem_mmap demo_mmap 10 demo_vma demo_sized)"
            "fst (snd (ashmem_mmap demo_mmap 10 demo_vma demo_sized))"]) simp_all
  qed
  then show ?thesis
    unfolding demo_unpinned_def
    by (rule reach_step) (rule ioctl_step_the, code_simp, simp, code_simp, unfold env, code_simp+)
qed

lemma demo_taken_reachable: "ashmem_reachable demo_taken"
proof -
  have "ashmem_lru_list demo_unpinned = [20]" by code_simp
  then obtain x s' where "shrink_take demo_unpinned = Some (x, range_size (ranges demo_unpinned 20), s')"
    using shrink_take_inv [OF driver_inv_reachable [OF demo_reachable]] by blast
  then show ?thesis
    unfolding demo_taken_def using reach_step [OF demo_reachable take_step] by simp
qed

text \<open>
  C2. In every state the driver can reach, by any interleaving of open, release, read, seek, mmap,
  ioctls and the two halves of the shrinker's rounds: the unpinned ranges of each area are
  disjoint and in descending order, each with its last page not before the first or, after a request for no page, just
  before it; the LRU list holds exactly the ranges that have
  not been purged, the page counter is the sum of their sizes, and only areas with a backing
  file have ranges.
\<close>

theorem reachable_ranges_invariant:
  assumes "ashmem_reachable s"
  shows "(\<forall>a\<in>set (ashmem_area_list s). ranges_wf (ranges s) (unpinned_list (areas s a)) \<and>
      (unpinned_list (areas s a) \<noteq> [] \<longrightarrow> a_file (areas s a) \<noteq> None)) \<and>
    set (ashmem_lru_list s) = {p \<in> live_ranges s. range_on_lru (ranges s p)} \<and>
    distinct (ashmem_lru_list s) \<and>
    lru_count s = (\<Sum>p\<leftarrow>ashmem_lru_list s. range_size (ranges s p))"
  using driver_inv_reachable [OF assms] by (simp add: driver_inv_def ashmem_wf_def)

theorem reachable_ranges_invariant_witness:
  "ashmem_reachable demo_unpinned \<and> lru_count demo_unpinned = 2 \<and>
   ranges_wf (ranges demo_unpinned) (unpinned_list (areas demo_unpinned 10))"
proof -
  have "10 \<in> set (ashmem_area_list demo_unpinned)" "lru_count demo_unpinned = 2" by code_simp+
  then show ?thesis using reachable_ranges_invariant [OF demo_reachable] demo_reachable by blast
qed

text \<open>
  C1. The shrinker punches holes without holding the mutex, yet in every reachable state the pages
  of a hole punch in flight are unpinned, and marked purged, in the area that owns the file: no
  pinned page is ever discarded, and a later pin request reports the loss. The states are those of
  \<open>ashmem_step\<close>: any interleaving of the operations, where pin requests, also those for no page, wait for the
  punches in flight as in the code, and the allocators hand out addresses not in use.
\<close>

theorem no_pinned_page_punched:
  assumes "ashmem_reachable s" "(f, a, st, en) \<in> set (inflight s)"
    and "a \<in> set (ashmem_area_list s)" "a_file (areas s a) = Some f"
  shows "{st..en} \<subseteq> purged_pages s a \<and> {st..en} \<subseteq> unpinned_pages s a"
proof -
  have "{st..en} \<subseteq> purged_pages s a"
    using inflight_okD [OF driver_invD(2) [OF driver_inv_reachable [OF assms(1)]] assms(2-4)] .
  moreover have "purged_pages s a \<subseteq> unpinned_pages s a"
    by (auto simp: purged_pages_def unpinned_pages_def)
  ultimately show ?thesis by blast
qed

theorem no_pinned_page_punched_witness:
  "ashmem_reachable demo_taken \<and> inflight demo_taken = [(9, 10, 1, 2)] \<and>
   {1..2} \<subseteq> purged_pages demo_taken 10"
proof -
  have "inflight demo_taken = [(9, 10, 1, 2)]" "10 \<in> set (ashmem_area_list demo_taken)"
    "a_file (areas demo_taken 10) = Some 9" by code_simp+
  then show ?thesis
    using no_pinned_page_punched [OF demo_taken_reachable, of 9 10 1 2] demo_taken_reachable by simp
qed

lemma shrink_loop_unfold:
  assumes "ashmem_lru_list s = p # ls" "shrink_take s = Some (x, n, s1)"
  shows "ashmem_shrink_loop trylock other i nr freed s =
    (let s2 = shrink_punch x (other i s1) in
     if \<not> trylock i \<or> nr = 1 then Some (freed + n, s2)
     else ashmem_shrink_loop trylock other (Suc i) (nr - 1) (freed + n) s2)"
  using assms by (subst ashmem_shrink_loop.simps) (simp add: Let_def)

lemma shrink_loop_Nil:
  "ashmem_lru_list s = [] \<Longrightarrow> ashmem_shrink_loop trylock other i nr freed s = Some (freed, s)"
  by (subst ashmem_shrink_loop.simps) simp

lemma shrink_loop_returns:
  assumes "driver_inv s" and "\<And>i t. driver_inv t \<Longrightarrow> driver_inv (other i t)"
  shows "\<exists>freed' s'. ashmem_shrink_loop trylock other i nr freed s = Some (freed', s') \<and> driver_inv s'"
  using assms
proof (induction trylock other i nr freed s rule: ashmem_shrink_loop.induct)
  case (1 trylock other i nr freed s)
  show ?case
  proof (cases "ashmem_lru_list s")
    case (Cons p ls)
    then obtain x n s1 where t: "shrink_take s = Some (x, n, s1)" "driver_inv s1"
      using shrink_take_inv [OF "1.prems"(1) Cons] by blast
    let ?s2 = "shrink_punch x (other i s1)"
    have s2: "driver_inv ?s2" using t(2) "1.prems"(2) driver_inv_punch by blast
    show ?thesis
    proof (cases "\<not> trylock i \<or> nr = 1")
      case False
      then have "\<exists>freed' s'. ashmem_shrink_loop trylock other (Suc i) (nr - 1) (freed + n) ?s2 =
          Some (freed', s') \<and> driver_inv s'"
        using Cons by (intro "1.IH" [OF _ t(1) refl refl refl refl _ _ s2 "1.prems"(2)]) auto
      with False show ?thesis unfolding shrink_loop_unfold [OF Cons t(1)] by simp
    qed (use s2 in \<open>simp add: shrink_loop_unfold [OF Cons t(1)]\<close>)
  qed (use "1.prems" in \<open>simp add: shrink_loop_Nil\<close>)
qed

text \<open>
  C5. The shrinker always returns: whatever other threads do while the mutex is dropped, as long as
  they keep the driver's invariant, every round finds a backing file for the range it takes, and
  the scan ends in a state that satisfies the invariant.
\<close>

theorem shrink_scan_returns:
  assumes "driver_inv s" and "\<And>i t. driver_inv t \<Longrightarrow> driver_inv (other i t)"
  shows "\<exists>freed s'. ashmem_shrink_scan gfp_fs trylock0 trylock other nr s = Some (freed, s') \<and> driver_inv s'"
  using shrink_loop_returns [OF assms] assms(1) by (simp add: ashmem_shrink_scan_def)

theorem shrink_scan_returns_witness:
  "\<exists>freed s'. ashmem_shrink_scan True True (\<lambda>_. True) (\<lambda>_ s. s) 5 demo = Some (freed, s') \<and> driver_inv s'"
  by (rule shrink_scan_returns [OF demo_inv])

lemma shrink_punch_lru [simp]:
  "ashmem_lru_list (shrink_punch x s) = ashmem_lru_list s" "lru_count (shrink_punch x s) = lru_count s"
  by (simp_all add: shrink_punch_def Let_def fput_def split: prod.splits)

lemma shrink_loop_empties:
  assumes "driver_inv s" "length (ashmem_lru_list s) \<le> unat nr" "nr \<noteq> 0"
  shows "\<exists>s'. ashmem_shrink_loop (\<lambda>_. True) (\<lambda>_ t. t) i nr freed s = Some (freed + lru_count s, s') \<and>
    driver_inv s' \<and> ashmem_lru_list s' = [] \<and> lru_count s' = 0"
  using assms
proof (induction "ashmem_lru_list s" arbitrary: i nr freed s)
  case Nil
  then show ?case using ashmem_wfD(6) [OF driver_invD(1) [OF Nil(2)]] by (simp add: shrink_loop_Nil)
next
  case (Cons p ls)
  let ?n = "range_size (ranges s p)"
  obtain x s1 where t: "shrink_take s = Some (x, ?n, s1)" "driver_inv s1" "ashmem_lru_list s1 = ls"
    "lru_count s1 = lru_count s - ?n"
    using shrink_take_inv [OF Cons.prems(1) Cons.hyps(2) [symmetric]] by blast
  let ?s2 = "shrink_punch x s1"
  have s2: "driver_inv ?s2" using driver_inv_punch [OF t(2)] .
  note unfold = shrink_loop_unfold [OF Cons.hyps(2) [symmetric] t(1)]
  show ?case
  proof (cases "nr = 1")
    case True
    then have "ls = []" using Cons.hyps(2) [symmetric] Cons.prems(2) by simp
    then have "lru_count s1 = 0" using ashmem_wfD(6) [OF driver_invD(1) [OF t(2)]] t(3) by simp
    then show ?thesis using True s2 t \<open>ls = []\<close> by (simp add: unfold)
  next
    case False
    have "length ls \<le> unat (nr - 1)"
      using Cons.prems(2) Cons.hyps(2) [symmetric] unat_minus_one [OF Cons.prems(3)] by simp
    moreover have "nr - 1 \<noteq> 0" using False by simp
    ultimately obtain s' where "ashmem_shrink_loop (\<lambda>_. True) (\<lambda>_ t. t) (Suc i) (nr - 1) (freed + ?n) ?s2 =
        Some (freed + ?n + lru_count ?s2, s') \<and> driver_inv s' \<and> ashmem_lru_list s' = [] \<and> lru_count s' = 0"
      using Cons.hyps(1) [of ?s2 "nr - 1" "Suc i" "freed + ?n"] s2 t(3) by auto
    then show ?thesis using False t(4) by (simp add: unfold)
  qed
qed

text \<open>
  When no other thread interferes and the scan target is at least the number of unpurged
  ranges, the shrinker purges all of them: the LRU list is empty afterwards, the counter is 0,
  and the returned number of pages is the counter's old value, what \<open>ashmem_shrink_count\<close> announced.
\<close>

theorem shrink_scan_purges_all:
  assumes "driver_inv s" "length (ashmem_lru_list s) \<le> unat nr" "nr \<noteq> 0"
  shows "\<exists>s'. ashmem_shrink_scan True True (\<lambda>_. True) (\<lambda>_ t. t) nr s = Some (ashmem_shrink_count s, s') \<and>
    ashmem_lru_list s' = [] \<and> ashmem_shrink_count s' = 0 \<and> driver_inv s'"
  using shrink_loop_empties [OF assms, of 0 0]
  by (auto simp: ashmem_shrink_scan_def ashmem_shrink_count_def)

theorem shrink_scan_purges_all_witness:
  "driver_inv demo \<and> (\<exists>s'. ashmem_shrink_scan True True (\<lambda>_. True) (\<lambda>_ t. t) 3 demo = Some (2, s') \<and>
     ashmem_lru_list s' = [])"
  using shrink_scan_purges_all [OF demo_inv, of 3] demo_inv by (auto simp: demo_def ashmem_shrink_count_def)

end
