(* ===== verification/Ashmem_Map_Props.thy ===== *)
theory Ashmem_Map_Props
  imports Ashmem_Props
begin

text \<open>
  Mappings, protection masks, names, the decoding of pin requests and module initialisation of
  the ashmem driver.
\<close>

section \<open>Mapping and protection\<close>

text \<open>Read, write and execute are bits 0 to 2 of a protection and of the flags, and bits 4 to 6 of the may-flags.\<close>

lemma prot_bit_tests:
  "(x :: u64) AND PROT_READ = 0 \<longleftrightarrow> \<not> bit x 0" "x AND PROT_WRITE = 0 \<longleftrightarrow> \<not> bit x 1"
  "x AND PROT_EXEC = 0 \<longleftrightarrow> \<not> bit x 2"
  using and_exp_eq_0_iff_not_bit [of x 0] and_exp_eq_0_iff_not_bit [of x 1] and_exp_eq_0_iff_not_bit [of x 2]
  by (simp_all add: PROT_READ_def PROT_WRITE_def PROT_EXEC_def)

lemma flag_bits:
  "bit VM_READ i \<longleftrightarrow> i = 0" "bit VM_WRITE i \<longleftrightarrow> i = 1" "bit VM_EXEC i \<longleftrightarrow> i = 2"
  "bit VM_MAYREAD i \<longleftrightarrow> i = 4" "bit VM_MAYWRITE i \<longleftrightarrow> i = 5" "bit VM_MAYEXEC i \<longleftrightarrow> i = 6"
proof -
  have b: "bit (2 ^ n :: u64) i \<longleftrightarrow> n < 64 \<and> i = n" for n by (auto simp: bit_exp_iff)
  show "bit VM_READ i \<longleftrightarrow> i = 0" "bit VM_WRITE i \<longleftrightarrow> i = 1" "bit VM_EXEC i \<longleftrightarrow> i = 2"
    "bit VM_MAYREAD i \<longleftrightarrow> i = 4" "bit VM_MAYWRITE i \<longleftrightarrow> i = 5" "bit VM_MAYEXEC i \<longleftrightarrow> i = 6"
    using b [of 0] b [of 1] b [of 2] b [of 4] b [of 5] b [of 6]
    by (simp_all add: VM_READ_def VM_WRITE_def VM_EXEC_def VM_MAYREAD_def VM_MAYWRITE_def VM_MAYEXEC_def)
qed

lemma bit_calc_vm_trans: "bit (calc_vm_trans x b y) i \<longleftrightarrow> x AND b \<noteq> 0 \<and> bit y i"
  by (simp add: calc_vm_trans_def)

lemma bit_calc_vm_prot_bits: "bit (calc_vm_prot_bits m) i \<longleftrightarrow> i < 3 \<and> bit m i"
  by (auto simp: calc_vm_prot_bits_def bit_or_iff bit_calc_vm_trans prot_bit_tests flag_bits
      less_Suc_eq numeral_eq_Suc)

lemma bit_calc_vm_may_flags: "i < 3 \<Longrightarrow> bit (calc_vm_may_flags m) (i + 4) \<longleftrightarrow> bit m i"
  by (auto simp: calc_vm_may_flags_def bit_or_iff bit_calc_vm_trans prot_bit_tests flag_bits
      less_Suc_eq numeral_eq_Suc)

lemma prot_check:
  assumes "(fl AND NOT (calc_vm_prot_bits m)) AND calc_vm_prot_bits PROT_MASK = 0" "i < 3" "bit fl i"
  shows "bit m i"
proof -
  have "bit PROT_MASK i"
    using assms(2) by (auto simp: PROT_MASK_def bit_or_iff PROT_EXEC_def PROT_READ_def PROT_WRITE_def
        less_Suc_eq numeral_eq_Suc)
  moreover have "\<not> bit ((fl AND NOT (calc_vm_prot_bits m)) AND calc_vm_prot_bits PROT_MASK) i"
    by (simp add: assms(1))
  ultimately show ?thesis
    using assms(2,3) by (auto simp: bit_and_iff bit_not_iff bit_calc_vm_prot_bits)
qed

lemma map_file_result:
  assumes "ashmem_map_file env f v s = (Inr (), vma', s')"
    and "\<And>v fs r v' fs'. shmem_zero_setup env v fs = (r, v', fs') \<Longrightarrow> vm_flags v' = vm_flags v"
  shows "vm_flags vma' = vm_flags v" "vm_file vma' = Some f"
  using assms
  by (auto simp: ashmem_map_file_def Let_def split: prod.splits option.splits if_splits)

lemma mmap_success:
  assumes "ashmem_mmap env a vma s = (Inr (), vma', s')"
  obtains f s1 v where "v = compat_vm_flags_clear (since_6_3 env) (calc_vm_may_flags (NOT (prot_mask (areas s a)))) vma"
    "ashmem_attach_file env a (vm_flags v) s = Inr (f, s1)" "ashmem_map_file env f v s1 = (Inr (), vma', s')"
    "a_size (areas s a) \<noteq> 0" "vm_end vma - vm_start vma \<le> PAGE_ALIGN (a_size (areas s a))"
    "(vm_flags vma AND NOT (calc_vm_prot_bits (prot_mask (areas s a)))) AND calc_vm_prot_bits PROT_MASK = 0"
  using assms by (auto simp: ashmem_mmap_def Let_def not_less split: if_splits sum.splits)

text \<open>
  C6. A mapping that succeeds has an area of non-zero size, is no longer than the area rounded up to
  pages, and asks only for protection bits of the area's mask (bit 0 read, 1 write, 2 execute); it
  refers to the area's backing file, which is attached to the area from then on, while size and
  mask are unchanged. From kernel 6.3 on, the mapping cannot be given a protection outside the
  mask later: its may-flags (bits 4 to 6) are within the mask too.
\<close>

theorem ashmem_mmap_respects_mask:
  assumes "ashmem_mmap env a vma s = (Inr (), vma', s')" "i < 3"
    and "\<And>v fs r v' fs'. shmem_zero_setup env v fs = (r, v', fs') \<Longrightarrow> vm_flags v' = vm_flags v"
  shows "a_size (areas s a) \<noteq> 0 \<and> vm_end vma - vm_start vma \<le> PAGE_ALIGN (a_size (areas s a)) \<and>
    (bit (vm_flags vma) i \<longrightarrow> bit (prot_mask (areas s a)) i) \<and>
    (since_6_3 env \<longrightarrow> bit (vm_flags vma') (i + 4) \<longrightarrow> bit (prot_mask (areas s a)) i) \<and>
    vm_file vma' \<noteq> None \<and> a_file (areas s' a) = vm_file vma' \<and>
    a_size (areas s' a) = a_size (areas s a) \<and> prot_mask (areas s' a) = prot_mask (areas s a)"
proof -
  obtain f s1 v where m: "v = compat_vm_flags_clear (since_6_3 env) (calc_vm_may_flags (NOT (prot_mask (areas s a)))) vma"
    "ashmem_attach_file env a (vm_flags v) s = Inr (f, s1)" "ashmem_map_file env f v s1 = (Inr (), vma', s')"
    "a_size (areas s a) \<noteq> 0" "vm_end vma - vm_start vma \<le> PAGE_ALIGN (a_size (areas s a))"
    "(vm_flags vma AND NOT (calc_vm_prot_bits (prot_mask (areas s a)))) AND calc_vm_prot_bits PROT_MASK = 0"
    by (rule mmap_success [OF assms(1)])
  have may: "bit (prot_mask (areas s a)) i" if "since_6_3 env" "bit (vm_flags vma') (i + 4)"
    using that map_file_result(1) [OF m(3) assms(3)] m(1) bit_calc_vm_may_flags [OF assms(2)] assms(2)
    by (auto simp: compat_vm_flags_clear_def bit_and_iff bit_not_iff)
  have "a_file (areas s1 a) = Some f \<and> a_size (areas s1 a) = a_size (areas s a) \<and>
      prot_mask (areas s1 a) = prot_mask (areas s a)"
    by (rule attach_file_cases [OF m(2)]) (auto simp: set_area_def)
  then show ?thesis
    using m(4,5) may prot_check [OF m(6) assms(2)] map_file_result(2) [OF m(3) assms(3)] map_file_areas [OF m(3)]
    by simp
qed

theorem ashmem_mmap_respects_mask_witness:
  "\<exists>vma' s'. ashmem_mmap demo_mmap 10 demo_vma demo = (Inr (), vma', s') \<and>
     vm_file vma' = Some 9 \<and> a_file (areas s' 10) = Some 9"
proof -
  have "fst (ashmem_mmap demo_mmap 10 demo_vma demo) = Inr ()" "fst (snd (ashmem_mmap demo_mmap 10 demo_vma demo)) = demo_vma\<lparr>vm_file := Some 9\<rparr>"
    by code_simp+
  then obtain vma' s' where e: "ashmem_mmap demo_mmap 10 demo_vma demo = (Inr (), vma', s')" "vm_file vma' = Some 9"
    by (cases "ashmem_mmap demo_mmap 10 demo_vma demo") auto
  have "\<And>v fs r v' fs'. shmem_zero_setup demo_mmap v fs = (r, v', fs') \<Longrightarrow> vm_flags v' = vm_flags v"
    by (simp add: demo_mmap_def)
  with e ashmem_mmap_respects_mask [OF e(1), of 0] show ?thesis by auto
qed

text \<open>
  On kernels before 6.3 \<open>compat_vm_flags_clear\<close> does nothing, so a private mapping keeps every
  may-flag the kernel gave it, also those outside the area's protection mask: \<open>mprotect\<close> can
  then add a protection that the mask forbids.
\<close>

theorem mmap_keeps_may_flags_before_6_3:
  assumes "\<not> since_6_3 env" "vm_flags vma AND VM_SHARED = 0"
    and "ashmem_mmap env a vma s = (Inr (), vma', s')"
  shows "vm_flags vma' = vm_flags vma"
proof -
  obtain f s1 v where m: "v = compat_vm_flags_clear (since_6_3 env) (calc_vm_may_flags (NOT (prot_mask (areas s a)))) vma"
    "ashmem_map_file env f v s1 = (Inr (), vma', s')"
    by (rule mmap_success [OF assms(3)])
  with assms(1,2) show ?thesis
    by (auto simp: compat_vm_flags_clear_def ashmem_map_file_def Let_def split: option.splits)
qed

definition demo_read_only :: ashmem_state where
  "demo_read_only = set_area 10 (demo_area\<lparr>prot_mask := PROT_READ\<rparr>) demo"

definition demo_private_vma :: ashmem_vma where
  "demo_private_vma = demo_vma\<lparr>vm_flags := VM_READ OR VM_MAYREAD OR VM_MAYWRITE\<rparr>"

theorem mmap_keeps_may_flags_before_6_3_witness:
  "\<exists>vma' s'. ashmem_mmap (demo_mmap\<lparr>since_6_3 := False\<rparr>) 10 demo_private_vma demo_read_only = (Inr (), vma', s') \<and>
     prot_mask (areas demo_read_only 10) = PROT_READ \<and> vm_flags vma' AND VM_MAYWRITE \<noteq> 0"
proof -
  let ?m = "ashmem_mmap (demo_mmap\<lparr>since_6_3 := False\<rparr>) 10 demo_private_vma demo_read_only"
  have "fst ?m = Inr ()" by code_simp
  then obtain vma' s' where e: "?m = (Inr (), vma', s')" by (cases ?m) auto
  have "vm_flags demo_private_vma AND VM_SHARED = 0" "vm_flags demo_private_vma AND VM_MAYWRITE \<noteq> 0"
    "prot_mask (areas demo_read_only 10) = PROT_READ" by code_simp+
  with mmap_keeps_may_flags_before_6_3 [OF _ _ e] e show ?thesis by simp
qed

section \<open>The backing file of an area\<close>

definition same_mapping :: "ashmem_area \<Rightarrow> ashmem_area \<Rightarrow> bool" where
  "same_mapping r r' \<longleftrightarrow> a_file r' = a_file r \<and> a_size r' = a_size r \<and> a_name r' = a_name r"

lemma same_mapping_refl [simp]: "same_mapping r r"
  by (simp add: same_mapping_def)

lemma outside_ranges_mapping: "outside_ranges s s' \<Longrightarrow> same_mapping (areas s b) (areas s' b)"
  using outside_rangesD(4,5,7) by (simp add: same_mapping_def)

lemma pin_unpin_mapping: "same_mapping (areas s b) (areas (snd (ashmem_pin_unpin a cmd up new s)) b)"
  using outside_ranges_mapping [OF outside_ranges_pin] outside_ranges_mapping [OF outside_ranges_unpin]
  by (auto simp: ashmem_pin_unpin_def split_beta split: option.splits ashmem_cmd.splits)

lemma ioctl_mapping:
  assumes "ashmem_ioctl env b cmd s = Some (ret, out, s')" "cmd \<noteq> ASHMEM_PURGE_ALL_CACHES"
    and "a_file (areas s a) \<noteq> None"
  shows "same_mapping (areas s a) (areas s' a)"
proof (cases "cmd \<in> {ASHMEM_PIN, ASHMEM_UNPIN, ASHMEM_GET_PIN_STATUS}")
  case True
  then have "s' = snd (ashmem_pin_unpin b cmd (user_pin env) (new_range env) s)"
    using assms(1) by (auto simp: ashmem_ioctl_def split_beta)
  then show ?thesis by (simp add: pin_unpin_mapping)
next
  case False
  then show ?thesis
    using assms
    by (cases cmd)
      (auto simp: ashmem_ioctl_def set_name_def set_prot_mask_def Let_def set_area_def same_mapping_def
        split: sum.splits if_splits prod.splits)
qed

lemma mmap_mapping:
  assumes "ashmem_mmap env b vma s = (r, vma', s')" "a_file (areas s a) \<noteq> None"
  shows "same_mapping (areas s a) (areas s' a)"
proof -
  have "same_mapping (areas s a) (areas s2 a)"
    if "ashmem_attach_file env b fl s = Inr (f, s1)" "ashmem_map_file env f v s1 = (r, vma', s2)" for f fl s1 v s2
    by (rule attach_file_cases [OF that(1)])
      (use assms(2) map_file_areas [OF that(2)] in \<open>auto simp: set_area_def same_mapping_def\<close>)
  then show ?thesis using assms(1) by (auto simp: ashmem_mmap_def Let_def split: if_splits sum.splits)
qed

lemma release_mapping:
  assumes inv: "driver_inv s" and b: "b \<in> set (ashmem_area_list s)"
  shows "same_mapping (areas s a) (areas (ashmem_release b s) a)"
    and "a \<in> set (ashmem_area_list (ashmem_release b s)) \<Longrightarrow> a \<noteq> b \<and> a \<in> set (ashmem_area_list s)"
proof -
  let ?t = "fold (range_del b) (unpinned_list (areas s b)) s"
  have o: "outside_ranges s ?t" using fold_range_del [OF driver_invD(1) [OF inv] b refl] by blast
  have ar: "areas (ashmem_release b s) = areas ?t"
    "ashmem_area_list (ashmem_release b s) = list_del b (ashmem_area_list s)"
    unfolding ashmem_release_def Let_def fold_range_del_area_list by (simp_all add: fput_def split: option.splits)
  then show "same_mapping (areas s a) (areas (ashmem_release b s) a)"
    using outside_ranges_mapping [OF o] by simp
  show "a \<noteq> b \<and> a \<in> set (ashmem_area_list s)" if "a \<in> set (ashmem_area_list (ashmem_release b s))"
    using that ar ashmem_wfD(1) [OF driver_invD(1) [OF inv]] by simp
qed

text \<open>
  Once an area has a backing file, no step of the driver changes its file, its size or its name
  for as long as the area lives; in particular the read path, which uses the file after dropping
  the mutex, sees the file it checked.
\<close>

theorem backing_file_stable:
  assumes "ashmem_reachable s" "ashmem_step s s'" "a \<in> set (ashmem_area_list s)" "a_file (areas s a) = Some f"
  shows "a_file (areas s' a) = Some f \<and> a_size (areas s' a) = a_size (areas s a) \<and>
    a_name (areas s' a) = a_name (areas s a)"
proof -
  note inv = driver_inv_reachable [OF assms(1)]
  have "same_mapping (areas s a) (areas s' a)"
    using assms(2)
  proof cases
    case (open_step alloc r mode)
    then show ?thesis
      using assms(3) by (auto simp: ashmem_open_def Let_def set_area_def split: option.splits)
  next
    case (read_step rd b pos r pos')
    then show ?thesis
      by (auto simp: ashmem_read_iter_def split: if_splits option.splits sum.splits prod.splits nat.splits)
  next
    case (llseek_step sk b fpos off origin r fpos')
    then show ?thesis
      by (auto simp: ashmem_llseek_def Let_def split: if_splits option.splits sum.splits prod.splits)
  next
    case (take_step x n)
    then obtain p ls where l: "ashmem_lru_list s = p # ls" by (auto simp: shrink_take_def split: list.splits)
    then show ?thesis
      using take_step by (metis shrink_take_step [OF inv l] option.inject prod.inject same_mapping_refl)
  next
    case (ioctl_step b cmd ienv ret out)
    then show ?thesis using ioctl_mapping assms(4) by simp
  next
    case (mmap_step b env vma r vma')
    then show ?thesis using mmap_mapping assms(4) by simp
  next
    case (release_step b)
    then show ?thesis using release_mapping(1) [OF inv] by simp
  next
    case (punch_step x)
    then show ?thesis by (simp add: shrink_punch_def Let_def fput_def split: prod.splits)
  qed
  then show ?thesis using assms(4) by (simp add: same_mapping_def)
qed

theorem backing_file_stable_witness:
  "ashmem_reachable demo_unpinned \<and> a_file (areas (ashmem_release 10 demo_unpinned) 10) = Some 9"
proof -
  have "10 \<in> set (ashmem_area_list demo_unpinned)" "a_file (areas demo_unpinned 10) = Some 9" by code_simp+
  then show ?thesis
    using backing_file_stable [OF demo_reachable release_step, of 10 10 9] demo_reachable by blast
qed

section \<open>The protection mask and the name\<close>

text \<open>
  Without \<open>READ_IMPLIES_EXEC\<close> the protection mask of an area only shrinks: the request succeeds
  exactly when every requested bit is in the mask, the mask then becomes the request, and a
  failing request changes nothing. With \<open>READ_IMPLIES_EXEC\<close>, a request for read access adds
  execute access to the mask even when the mask did not have it.
\<close>

theorem set_prot_mask_shrinks:
  fixes a :: ptr and prot :: u64
  assumes "set_prot_mask personality a prot s = (ret, s')"
  shows "(ret = Inr 0 \<longleftrightarrow> (\<forall>i. bit prot i \<longrightarrow> bit (prot_mask (areas s a)) i)) \<and>
    (ret \<noteq> Inr 0 \<longrightarrow> ret = Inl EINVAL \<and> s' = s) \<and>
    (ret = Inr 0 \<and> \<not> personality \<longrightarrow> prot_mask (areas s' a) = prot) \<and>
    (ret = Inr 0 \<and> personality \<and> bit prot 0 \<longrightarrow> bit (prot_mask (areas s' a)) 2)"
proof -
  have "prot_mask (areas s a) AND prot = prot \<longleftrightarrow> (\<forall>i. bit prot i \<longrightarrow> bit (prot_mask (areas s a)) i)"
    using bit_imp_le_length [of prot] by (force simp: bit_eq_iff bit_and_iff)
  moreover have "bit (prot OR PROT_EXEC) 2" by (simp add: PROT_EXEC_def bit_or_iff)
  ultimately show ?thesis
    using assms by (auto simp: set_prot_mask_def Let_def set_area_def prot_bit_tests split: if_splits)
qed

theorem set_prot_mask_shrinks_witness:
  "\<exists>s'. set_prot_mask True 10 PROT_READ demo_read_only = (Inr 0, s') \<and>
     \<not> bit (prot_mask (areas demo_read_only 10)) 2 \<and> bit (prot_mask (areas s' 10)) 2"
proof -
  obtain ret s' where e: "set_prot_mask True 10 PROT_READ demo_read_only = (ret, s')" by fastforce
  have "prot_mask (areas demo_read_only 10) = PROT_READ" by code_simp
  moreover have "bit PROT_READ 0" "\<not> bit PROT_READ 2" by (simp_all add: PROT_READ_def)
  ultimately show ?thesis using set_prot_mask_shrinks [OF e] e by auto
qed

lemma c_string_append_NUL: "NUL \<notin> set xs \<Longrightarrow> c_string (xs @ NUL # ys) = xs"
  by (simp add: c_string_def takeWhile_append)

lemma NUL_notin_c_string: "NUL \<notin> set (c_string xs)"
  by (auto simp: c_string_def dest: set_takeWhileD)

lemma c_string_length: "length (c_string xs) \<le> length xs"
  by (simp add: c_string_def length_takeWhile_le)

lemma c_string_take: "c_string (take n xs) = take n (c_string xs)"
proof -
  have "takeWhile P (take n xs) = take n (takeWhile P xs)" for P :: "char \<Rightarrow> bool"
    by (induction xs arbitrary: n) (auto simp: take_Cons' )
  then show ?thesis by (simp add: c_string_def)
qed

text \<open>The string that reaches the area: the user's string, cut to 255 bytes.\<close>

lemma set_name_local:
  assumes "strncpy_from_user n ub = Inr (bs, len)" "0 < n"
  shows "c_string (if len = n then bs[n - 1 := NUL] else bs) = c_string (take (n - 1) ub)"
proof (cases "length (c_string (take n ub)) < length (take n ub)")
  case True
  then have "length (c_string ub) < n" by (auto simp: c_string_take min_def split: if_splits)
  moreover from this have "bs = c_string ub @ [NUL]" "len = length (c_string ub)"
    using assms True by (auto simp: strncpy_from_user_def Let_def c_string_take)
  ultimately show ?thesis
    using NUL_notin_c_string [of ub] by (simp add: c_string_append_NUL c_string_take)
next
  case False
  have e: "c_string (take n ub) = take n ub" using False c_string_length [of "take n ub"]
    by (metis c_string_def le_neq_implies_less takeWhile_eq_take take_all_iff le_refl)
  have b: "bs = take n ub" "len = n" "length (take n ub) = n"
    using assms False by (auto simp: strncpy_from_user_def Let_def split: if_splits)
  have "bs[n - 1 := NUL] = take (n - 1) ub @ [NUL]"
    using b assms(2) by (simp add: list_update_append upd_conv_take_nth_drop min_def)
  moreover have "take (n - 1) ub = c_string (take (n - 1) ub)"
    using arg_cong [OF e, of "take (n - 1)"] by (simp add: c_string_take min_def)
  moreover have "NUL \<notin> set (take (n - 1) ub)"
    using calculation(2) NUL_notin_c_string by metis
  ultimately show ?thesis using b by (simp add: c_string_append_NUL)
qed

text \<open>
  A name that has been set is read back: after \<open>ASHMEM_SET_NAME\<close> succeeds with a non-empty string,
  \<open>ASHMEM_GET_NAME\<close> copies out that string, cut to 255 bytes, and its terminator, never more than
  \<open>ASHMEM_NAME_LEN\<close> bytes; the name array keeps its length and its prefix.
\<close>

theorem set_name_get_name:
  assumes "set_name a ub s = (Inr r, s')" "length (a_name (areas s a)) = ASHMEM_FULL_NAME_LEN"
    and "c_string ub \<noteq> []"
  shows "get_name a True s' = Inr (c_string (take (ASHMEM_NAME_LEN - 1) ub) @ [NUL]) \<and>
    length (c_string (take (ASHMEM_NAME_LEN - 1) ub) @ [NUL]) \<le> ASHMEM_NAME_LEN \<and>
    length (a_name (areas s' a)) = ASHMEM_FULL_NAME_LEN \<and>
    take ASHMEM_NAME_PREFIX_LEN (a_name (areas s' a)) = take ASHMEM_NAME_PREFIX_LEN (a_name (areas s a))"
proof -
  let ?str = "c_string (take (ASHMEM_NAME_LEN - 1) ub)" and ?nm = "a_name (areas s a)"
  obtain bs len where c: "strncpy_from_user ASHMEM_NAME_LEN ub = Inr (bs, len)"
    using assms(1) by (auto simp: set_name_def split: sum.splits)
  have nm: "a_name (areas s' a) = take 11 ?nm @ ?str @ [NUL] @ drop (12 + length ?str) ?nm"
    using assms(1) c set_name_local [OF c]
    by (auto simp: set_name_def strcpy_at_def ASHMEM_NAME_PREFIX_LEN_def ASHMEM_NAME_LEN_def set_area_def
        Let_def split: if_splits)
  have len: "length ?str \<le> 255" using c_string_length [of "take (ASHMEM_NAME_LEN - 1) ub"]
    by (simp add: ASHMEM_NAME_LEN_def)
  have l: "length ?nm = 267" using assms(2) by (simp add: ASHMEM_FULL_NAME_LEN_def)
  have ne: "?str \<noteq> []" using assms(3) by (simp add: c_string_take ASHMEM_NAME_LEN_def)
  then have "(?str @ [NUL] @ drop (12 + length ?str) ?nm) ! 0 \<noteq> NUL"
    using NUL_notin_c_string by (cases ?str) (simp, metis list.set_intros(1) nth_Cons_0 append_Cons)
  then have h: "a_name (areas s' a) ! 11 \<noteq> NUL" unfolding nm using l by (simp add: nth_append)
  have d: "drop 11 (a_name (areas s' a)) = ?str @ NUL # drop (12 + length ?str) ?nm" unfolding nm using l by simp
  show ?thesis
    using h d len l nm NUL_notin_c_string
    by (simp add: get_name_def ASHMEM_NAME_PREFIX_LEN_def ASHMEM_FULL_NAME_LEN_def ASHMEM_NAME_LEN_def
        c_string_append_NUL Let_def)
qed

theorem set_name_get_name_witness:
  "\<exists>r s'. set_name 10 (''shm'' @ [NUL]) demo_opened = (Inr r, s') \<and> get_name 10 True s' = Inr (''shm'' @ [NUL])"
proof -
  have "fst (set_name 10 (''shm'' @ [NUL]) demo_opened) = Inr 0" by code_simp
  then obtain r s' where e: "set_name 10 (''shm'' @ [NUL]) demo_opened = (Inr r, s')"
    by (cases "set_name 10 (''shm'' @ [NUL]) demo_opened") auto
  moreover have "length (a_name (areas demo_opened 10)) = ASHMEM_FULL_NAME_LEN"
    "c_string (''shm'' @ [NUL]) \<noteq> []" "c_string (take (ASHMEM_NAME_LEN - 1) (''shm'' @ [NUL])) = ''shm''" by code_simp+
  ultimately show ?thesis using set_name_get_name [OF e] by auto
qed

section \<open>Pin requests\<close>

text \<open>
  A pin request with a length that the driver accepts denotes exactly the pages of the bytes it
  names: the first page starts at \<open>offset\<close>, the last page ends at \<open>offset + len\<close>, which lies within
  the area rounded up to pages, and there is at least one page.
\<close>

theorem pin_request_pages:
  assumes "pin_pages sz pin = Some (st, en)" "pin_len pin \<noteq> 0"
  shows "unat st * 4096 = unat (pin_offset pin) \<and>
    (unat en + 1) * 4096 = unat (pin_offset pin) + unat (pin_len pin) \<and>
    unat (pin_offset pin) + unat (pin_len pin) \<le> unat (PAGE_ALIGN sz) \<and> st \<le> en"
  using pin_pages_bytes [OF assms] by simp

theorem pin_request_pages_witness:
  "pin_pages 0x8000 \<lparr>pin_offset = 0x1000, pin_len = 0x2000\<rparr> = Some (1, 2) \<and>
   (unat (2 :: u64) + 1) * 4096 = unat (0x1000 :: u32) + unat (0x2000 :: u32)"
proof -
  have "pin_pages 0x8000 \<lparr>pin_offset = 0x1000, pin_len = 0x2000\<rparr> = Some (1, 2)" by code_simp
  with pin_request_pages [OF this] show ?thesis by simp
qed

text \<open>
  A request with length 0 ("everything onward") whose offset is the end of an area of \<open>size\<close>
  pages is accepted although it denotes no page: its last page precedes its first, and
  unpinning with it links a range of size 0 into the area, so the ranges of the area are no
  longer non-empty.
\<close>

theorem empty_pin_request_accepted:
  "pin_pages 0x8000 \<lparr>pin_offset = 0x8000, pin_len = 0\<rparr> = Some (8, 7) \<and>
   fst (ashmem_pin_unpin 10 ASHMEM_UNPIN (Some \<lparr>pin_offset = 0x8000, pin_len = 0\<rparr>) (Some 30) demo) = Inr 0 \<and>
   \<not> ashmem_inv (snd (ashmem_pin_unpin 10 ASHMEM_UNPIN (Some \<lparr>pin_offset = 0x8000, pin_len = 0\<rparr>) (Some 30) demo))"
proof -
  let ?s = "snd (ashmem_pin_unpin 10 ASHMEM_UNPIN (Some \<lparr>pin_offset = 0x8000, pin_len = 0\<rparr>) (Some 30) demo)"
  have "pin_pages 0x8000 \<lparr>pin_offset = 0x8000, pin_len = 0\<rparr> = Some (8, 7)"
    "fst (ashmem_pin_unpin 10 ASHMEM_UNPIN (Some \<lparr>pin_offset = 0x8000, pin_len = 0\<rparr>) (Some 30) demo) = Inr 0"
    "10 \<in> set (ashmem_area_list ?s)" "30 \<in> set (unpinned_list (areas ?s 10))"
    "pgend (ranges ?s 30) < pgstart (ranges ?s 30)" by code_simp+
  then show ?thesis by (force simp: ashmem_inv_def ranges_ok_def)
qed

section \<open>Module initialisation\<close>

text \<open>
  When \<open>ashmem_init\<close> fails, everything it had set up is released again; when it succeeds with
  the shrinker in place, everything is registered and \<open>ashmem_exit\<close> releases it. The exception is the
  allocation of a dynamic shrinker: its failure releases everything but returns success.
\<close>

theorem ashmem_init_exit:
  "(fst (ashmem_init env) \<noteq> None \<longrightarrow> snd (ashmem_init env) = ashmem_module_none) \<and>
   (fst (ashmem_init env) = None \<and> shrinker_ret env = None \<longrightarrow>
      snd (ashmem_init env) = \<lparr>area_cachep = True, range_cachep = True, misc_registered = True,
        shrinker_registered = True, debugfs = True\<rparr> \<and>
      ashmem_exit (snd (ashmem_init env)) = ashmem_module_none) \<and>
   (area_cache_ok env \<and> range_cache_ok env \<and> misc_register_ret env = None \<and> shrinker_dynamic env \<and>
      shrinker_ret env \<noteq> None \<longrightarrow> ashmem_init env = (None, ashmem_module_none))"
  by (auto simp: ashmem_init_def ashmem_exit_def ashmem_module_none_def Let_def split: option.splits)

theorem ashmem_init_exit_witness:
  "ashmem_init \<lparr>area_cache_ok = True, range_cache_ok = True, misc_register_ret = None,
     shrinker_dynamic = True, shrinker_ret = Some ENOMEM\<rparr> = (None, ashmem_module_none)"
  using ashmem_init_exit [of "\<lparr>area_cache_ok = True, range_cache_ok = True, misc_register_ret = None,
     shrinker_dynamic = True, shrinker_ret = Some ENOMEM\<rparr>"] by simp

end
