(* ===== verification/Rbtree.thy ===== *)
theory Rbtree
  imports Kernel_Prelude
begin

text \<open>
  Red-black trees of the kernel library as the binder sources use them: a tree of object
  addresses, links made by the caller at the place its own search found, and the library's
  \<open>rb_insert_color\<close> and \<open>rb_erase\<close>. These two are arguments of the operations that call them;
  the documented behaviour that the callers rely on is that rebalancing keeps the in-order
  sequence of nodes and that erasing removes exactly one node from it.
\<close>

record rb_ops =
  rb_insert_color :: "ptr \<Rightarrow> ptr tree \<Rightarrow> ptr tree"
  rb_erase :: "ptr \<Rightarrow> ptr tree \<Rightarrow> ptr tree"

definition rb_ok :: "rb_ops \<Rightarrow> bool" where
  "rb_ok rb \<longleftrightarrow> (\<forall>p t. inorder (rb_insert_color rb p t) = inorder t) \<and>
     (\<forall>p t. distinct (inorder t) \<longrightarrow> inorder (rb_erase rb p t) = remove1 p (inorder t))"

lemma rb_okD:
  assumes "rb_ok rb"
  shows "inorder (rb_insert_color rb p t) = inorder t"
    and "distinct (inorder t) \<Longrightarrow> inorder (rb_erase rb p t) = remove1 p (inorder t)"
  using assms by (auto simp: rb_ok_def)

section \<open>Trees that satisfy the assumptions\<close>

text \<open>Linked nodes stay where they are; a node with two children is replaced by its successor.\<close>

fun del_min :: "'a tree \<Rightarrow> 'a \<Rightarrow> 'a tree \<Rightarrow> 'a \<times> 'a tree" where
  "del_min Leaf x r = (x, r)"
| "del_min (Node ll y lr) x r = (let (z, l') = del_min ll y lr in (z, Node l' x r))"

definition del_root :: "'a tree \<Rightarrow> 'a tree \<Rightarrow> 'a tree" where
  "del_root l r = (case r of Leaf \<Rightarrow> l | Node rl y rr \<Rightarrow> (let (z, r') = del_min rl y rr in Node l z r'))"

fun plain_erase :: "'a \<Rightarrow> 'a tree \<Rightarrow> 'a tree" where
  "plain_erase p Leaf = Leaf"
| "plain_erase p (Node l q r) =
     (if p = q then del_root l r else Node (plain_erase p l) q (plain_erase p r))"

definition plain_rb :: rb_ops where
  "plain_rb = \<lparr>rb_insert_color = (\<lambda>_ t. t), rb_erase = plain_erase\<rparr>"

lemma inorder_del_min: "del_min l x r = (z, t) \<Longrightarrow> z # inorder t = inorder l @ x # inorder r"
  by (induction l x r arbitrary: z t rule: del_min.induct) (auto split: prod.splits)

lemma inorder_del_root: "inorder (del_root l r) = inorder l @ inorder r"
  using inorder_del_min by (auto simp: del_root_def split: tree.splits prod.splits)

lemma inorder_plain_erase: "distinct (inorder t) \<Longrightarrow> inorder (plain_erase p t) = remove1 p (inorder t)"
proof (induction t)
  case (Node l q r)
  then have "p \<in> set_tree l \<Longrightarrow> remove1 p (inorder r) = inorder r" by (intro remove1_idem) auto
  with Node show ?case by (auto simp: inorder_del_root remove1_append remove1_idem)
qed simp

lemma plain_rb_ok: "rb_ok plain_rb"
  by (simp add: rb_ok_def plain_rb_def inorder_plain_erase)

section \<open>Searching and linking\<close>

text \<open>
  A search that goes left when \<open>less x\<close> holds for the key of the node it meets: in a tree whose
  in-order sequence is split by the test, the link is made at the split.
\<close>

fun bst_link :: "('a \<Rightarrow> bool) \<Rightarrow> 'a \<Rightarrow> 'a tree \<Rightarrow> 'a tree" where
  "bst_link goes_left x Leaf = Node Leaf x Leaf"
| "bst_link goes_left x (Node l y r) =
     (if goes_left y then Node (bst_link goes_left x l) y r else Node l y (bst_link goes_left x r))"

text \<open>The in-order sequence of the nodes passed on the right first, then those passed on the left.\<close>

definition mono_test :: "('a \<Rightarrow> bool) \<Rightarrow> 'a list \<Rightarrow> bool" where
  "mono_test goes_left xs \<longleftrightarrow> sorted_wrt (\<lambda>y z. goes_left y \<longrightarrow> goes_left z) xs"

lemma inorder_bst_link:
  assumes "mono_test g (inorder t)"
  shows "inorder (bst_link g x t) = filter (\<lambda>y. \<not> g y) (inorder t) @ x # filter g (inorder t)"
  using assms
proof (induction t)
  case (Node l y r)
  have m: "mono_test g (inorder l)" "mono_test g (inorder r)"
    using Node.prems unfolding mono_test_def inorder.simps sorted_wrt_append sorted_wrt.simps by blast+
  show ?case
  proof (cases "g y")
    case True
    then have all: "\<forall>z\<in>set (inorder r). g z"
      using Node.prems unfolding mono_test_def inorder.simps sorted_wrt_append sorted_wrt.simps by auto
    have "filter g (inorder r) = inorder r" by (rule filter_True) (use all in simp)
    moreover have "filter (\<lambda>z. \<not> g z) (inorder r) = []" by (rule filter_False) (use all in simp)
    ultimately show ?thesis using True Node.IH(1) [OF m(1)] by simp
  next
    case False
    then have all: "\<forall>z\<in>set (inorder l). \<not> g z"
      using Node.prems unfolding mono_test_def inorder.simps sorted_wrt_append sorted_wrt.simps by auto
    have "filter (\<lambda>z. \<not> g z) (inorder l) = inorder l" by (rule filter_True) (use all in simp)
    moreover have "filter g (inorder l) = []" by (rule filter_False) (use all in simp)
    ultimately show ?thesis using False Node.IH(2) [OF m(2)] by simp
  qed
qed simp

section \<open>Looking up a key\<close>

text \<open>The descent of a lookup: left for a smaller key, right for a larger one.\<close>

fun rb_search :: "('a \<Rightarrow> 'k::linorder) \<Rightarrow> 'k \<Rightarrow> 'a tree \<Rightarrow> 'a option" where
  "rb_search key k Leaf = None"
| "rb_search key k (Node l x r) =
     (if k < key x then rb_search key k l else if k > key x then rb_search key k r else Some x)"

text \<open>Trees sorted by a key, without duplicates.\<close>

definition keyed :: "('a \<Rightarrow> 'k::linorder) \<Rightarrow> 'a list \<Rightarrow> bool" where
  "keyed key xs \<longleftrightarrow> sorted_wrt (\<lambda>x y. key x < key y) xs"

lemma keyed_distinct: "keyed key xs \<Longrightarrow> distinct xs"
  unfolding keyed_def by (induction xs) auto

lemma keyed_inj: "keyed key xs \<Longrightarrow> x \<in> set xs \<Longrightarrow> y \<in> set xs \<Longrightarrow> key x = key y \<Longrightarrow> x = y"
proof (induction xs)
  case (Cons a xs)
  then have "\<forall>z\<in>set xs. key a < key z" "keyed key xs" by (simp_all add: keyed_def)
  then show ?case using Cons by (metis less_irrefl set_ConsD)
qed simp

lemma keyed_cong: "(\<And>x. x \<in> set xs \<Longrightarrow> key' x = key x) \<Longrightarrow> keyed key' xs = keyed key xs"
  unfolding keyed_def by (induction xs) auto

lemma keyed_remove1: "keyed key xs \<Longrightarrow> keyed key (remove1 x xs)"
  unfolding keyed_def by (induction xs) (auto dest: notin_set_remove1)

lemma rb_search_Some:
  assumes "keyed key (inorder t)"
  shows "rb_search key k t = Some x \<longleftrightarrow> x \<in> set (inorder t) \<and> key x = k"
  using assms
proof (induction t)
  case (Node l y r)
  have s: "keyed key (inorder l)" "keyed key (inorder r)" "\<forall>x\<in>set (inorder l). key x < key y"
    "\<forall>x\<in>set (inorder r). key y < key x"
    using Node.prems by (auto simp: keyed_def sorted_wrt_append)
  show ?case using Node.IH(1) [OF s(1)] Node.IH(2) [OF s(2)] s(3,4) by auto
qed simp

lemma rb_search_None:
  assumes "keyed key (inorder t)"
  shows "rb_search key k t = None \<longleftrightarrow> (\<forall>x\<in>set (inorder t). key x \<noteq> k)"
  using rb_search_Some [OF assms, of k] by (metis not_None_eq)

text \<open>Linking a new key at the place where its lookup ended.\<close>

lemma keyed_link:
  assumes "keyed key (inorder t)" "\<forall>y\<in>set (inorder t). key y \<noteq> key x"
  shows "keyed key (inorder (bst_link (\<lambda>y. key x < key y) x t))"
    and "set (inorder (bst_link (\<lambda>y. key x < key y) x t)) = insert x (set (inorder t))"
proof -
  let ?g = "\<lambda>y. key x < key y" and ?xs = "inorder t"
  have "mono_test ?g ?xs"
    using assms(1) unfolding mono_test_def keyed_def by (rule sorted_wrt_mono_rel [rotated]) (auto intro: less_trans)
  then have io: "inorder (bst_link ?g x t) = filter (\<lambda>y. \<not> ?g y) ?xs @ x # filter ?g ?xs" by (rule inorder_bst_link)
  have lt: "y \<in> set ?xs \<Longrightarrow> \<not> ?g y \<Longrightarrow> key y < key x" for y using assms(2) by (metis linorder_less_linear)
  show "keyed key (inorder (bst_link ?g x t))"
    unfolding io keyed_def using assms(1) lt
    by (auto simp: keyed_def sorted_wrt_append sorted_wrt_filter intro: less_trans)
  show "set (inorder (bst_link ?g x t)) = insert x (set ?xs)" unfolding io by auto
qed

end
