(* ===== verification/Binder_Alloc.thy ===== *)
theory Binder_Alloc
  imports Rbtree
begin

text \<open>
  The buffer allocator of the binder driver (\<^verbatim>\<open>src/binder/binder_alloc.c\<close>): the per-process
  address space is divided into buffers, all of them in an address-ordered list, the free ones
  in a red-black tree by size and the allocated ones in a tree by address, and the pages under
  the buffers come and go with them. \<open>None\<close> as the result of an operation is a \<open>BUG_ON\<close> that
  fires or an access outside the page array. The mutex of the allocator makes the operations
  atomic; allocation outcomes are arguments.
\<close>

section \<open>Data\<close>

record binder_buffer =
  b_free :: bool
  allow_user_free :: bool
  async_transaction :: bool
  b_debug_id :: nat
  b_transaction :: "ptr option"
  b_target_node :: "ptr option"
  data_size :: u64
  offsets_size :: u64
  extra_buffers_size :: u64
  user_data :: u64

text \<open>
  A page slot: the bytes of the page when there is one, whether its list entry is linked, and which of
  \<open>compat_list_lru_add\<close> (\<open>lru_added\<close>) and \<open>compat_list_lru_del\<close> the driver called last for it. Both
  wrappers are the constant \<open>true\<close> in \<^verbatim>\<open>src/binder/compat.h\<close>: they link nothing, so that the calls are
  only recorded here and \<open>page_linked\<close> stays as \<open>INIT_LIST_HEAD\<close> left it.
\<close>

record binder_lru_page =
  page_ptr :: "u8 list option"
  page_linked :: bool
  lru_added :: bool

record binder_alloc =
  vma :: "ptr option"
  vma_vm_mm :: "ptr option"
  mm_grabs :: int
  buffer :: u64
  buffers :: "ptr list"
  bufs :: "ptr \<Rightarrow> binder_buffer"
  free_buffers :: "ptr tree"
  allocated_buffers :: "ptr tree"
  free_async_space :: u64
  pages :: "binder_lru_page list"
  buffer_size :: u64
  pages_high :: u64

definition sizeof_ptr :: u64 where "sizeof_ptr = 8"

text \<open>The size of \<open>struct binder_buffer\<close> with 8-byte pointers.\<close>

definition sizeof_binder_buffer :: u64 where "sizeof_binder_buffer = 96"

definition SZ_4M :: u64 where "SZ_4M = 0x400000"

definition zero_buffer :: binder_buffer where
  "zero_buffer = \<lparr>b_free = False, allow_user_free = False, async_transaction = False, b_debug_id = 0,
     b_transaction = None, b_target_node = None, data_size = 0, offsets_size = 0,
     extra_buffers_size = 0, user_data = 0\<rparr>"

definition zero_page :: binder_lru_page where
  "zero_page = \<lparr>page_ptr = None, page_linked = False, lru_added = False\<rparr>"

definition set_buf :: "ptr \<Rightarrow> binder_buffer \<Rightarrow> binder_alloc \<Rightarrow> binder_alloc" where
  "set_buf p b al = al\<lparr>bufs := (bufs al)(p := b)\<rparr>"

section \<open>Buffers in the address-ordered list\<close>

text \<open>The entries after and before an entry of the list; \<open>None\<close> is the list head.\<close>

fun list_next :: "'a \<Rightarrow> 'a list \<Rightarrow> 'a option" where
  "list_next x [] = None"
| "list_next x (y # ys) = (if x = y then (case ys of [] \<Rightarrow> None | z # _ \<Rightarrow> Some z) else list_next x ys)"

fun list_prev :: "'a \<Rightarrow> 'a list \<Rightarrow> 'a option" where
  "list_prev x [] = None"
| "list_prev x [y] = None"
| "list_prev x (y # z # zs) = (if x = z then Some y else list_prev x (z # zs))"

definition binder_buffer_next :: "binder_alloc \<Rightarrow> ptr \<Rightarrow> ptr option" where
  "binder_buffer_next al b = list_next b (buffers al)"

definition binder_buffer_prev :: "binder_alloc \<Rightarrow> ptr \<Rightarrow> ptr option" where
  "binder_buffer_prev al b = list_prev b (buffers al)"

definition binder_alloc_buffer_size :: "binder_alloc \<Rightarrow> ptr \<Rightarrow> u64" where
  "binder_alloc_buffer_size al b =
     (case binder_buffer_next al b of
        None \<Rightarrow> buffer al + buffer_size al - user_data (bufs al b)
      | Some n \<Rightarrow> user_data (bufs al n) - user_data (bufs al b))"

section \<open>The trees\<close>

fun free_link :: "binder_alloc \<Rightarrow> u64 \<Rightarrow> ptr \<Rightarrow> ptr tree \<Rightarrow> ptr tree option" where
  "free_link al sz new Leaf = Some (Node Leaf new Leaf)"
| "free_link al sz new (Node l b r) =
     (if \<not> b_free (bufs al b) then None
      else if sz < binder_alloc_buffer_size al b
      then map_option (\<lambda>l'. Node l' b r) (free_link al sz new l)
      else map_option (\<lambda>r'. Node l b r') (free_link al sz new r))"

definition binder_insert_free_buffer :: "rb_ops \<Rightarrow> ptr \<Rightarrow> binder_alloc \<Rightarrow> binder_alloc option" where
  "binder_insert_free_buffer rb new al =
     (if \<not> b_free (bufs al new) then None
      else case free_link al (binder_alloc_buffer_size al new) new (free_buffers al) of
        None \<Rightarrow> None
      | Some t \<Rightarrow> Some (al\<lparr>free_buffers := rb_insert_color rb new t\<rparr>))"

fun allocated_link :: "binder_alloc \<Rightarrow> u64 \<Rightarrow> ptr \<Rightarrow> ptr tree \<Rightarrow> ptr tree option" where
  "allocated_link al addr new Leaf = Some (Node Leaf new Leaf)"
| "allocated_link al addr new (Node l b r) =
     (if b_free (bufs al b) then None
      else if addr < user_data (bufs al b)
      then map_option (\<lambda>l'. Node l' b r) (allocated_link al addr new l)
      else if addr > user_data (bufs al b)
      then map_option (\<lambda>r'. Node l b r') (allocated_link al addr new r)
      else None)"

definition binder_insert_allocated_buffer_locked :: "rb_ops \<Rightarrow> ptr \<Rightarrow> binder_alloc \<Rightarrow> binder_alloc option" where
  "binder_insert_allocated_buffer_locked rb new al =
     (if b_free (bufs al new) then None
      else case allocated_link al (user_data (bufs al new)) new (allocated_buffers al) of
        None \<Rightarrow> None
      | Some t \<Rightarrow> Some (al\<lparr>allocated_buffers := rb_insert_color rb new t\<rparr>))"

text \<open>
  The search for the buffer at a user address. The result is \<open>Inr None\<close> for \<open>NULL\<close> and \<open>Inl EPERM\<close>
  when the buffer may not be freed by the user.
\<close>

fun prepare_to_free_search :: "ptr tree \<Rightarrow> u64 \<Rightarrow> binder_alloc \<Rightarrow> (ptr option result \<times> binder_alloc) option" where
  "prepare_to_free_search Leaf uptr al = Some (Inr None, al)"
| "prepare_to_free_search (Node l b r) uptr al =
     (if b_free (bufs al b) then None
      else if uptr < user_data (bufs al b) then prepare_to_free_search l uptr al
      else if uptr > user_data (bufs al b) then prepare_to_free_search r uptr al
      else if \<not> allow_user_free (bufs al b) then Some (Inl EPERM, al)
      else Some (Inr (Some b), set_buf b ((bufs al b)\<lparr>allow_user_free := False\<rparr>) al))"

definition binder_alloc_prepare_to_free_locked ::
    "u64 \<Rightarrow> binder_alloc \<Rightarrow> (ptr option result \<times> binder_alloc) option" where
  "binder_alloc_prepare_to_free_locked uptr al = prepare_to_free_search (allocated_buffers al) uptr al"

definition binder_alloc_prepare_to_free ::
    "u64 \<Rightarrow> binder_alloc \<Rightarrow> (ptr option result \<times> binder_alloc) option" where
  "binder_alloc_prepare_to_free uptr al = binder_alloc_prepare_to_free_locked uptr al"

section \<open>Pages\<close>

text \<open>
  What the kernel decides during a call: whether \<open>mmget_not_zero\<close> succeeds, the outcome of
  \<open>alloc_page\<close> and \<open>vm_insert_page\<close> for each page slot, and the structure \<open>kzalloc\<close> returns.
\<close>

record alloc_env =
  mmget_ok :: bool
  alloc_page_ok :: "nat \<Rightarrow> bool"
  vm_insert_ok :: "nat \<Rightarrow> bool"
  kzalloc_buf :: "ptr option"

text \<open>
  The page slots from address \<open>start\<close> to \<open>end\<close>, both page aligned (the callers round them), in
  ascending order.
\<close>

definition page_index :: "binder_alloc \<Rightarrow> u64 \<Rightarrow> nat" where
  "page_index al addr = unat ((addr - buffer al) div PAGE_SIZE)"

definition page_slots :: "binder_alloc \<Rightarrow> u64 \<Rightarrow> u64 \<Rightarrow> nat list" where
  "page_slots al start e = map (\<lambda>i. page_index al (start + of_nat i * PAGE_SIZE))
     [0 ..< unat (e - start + (PAGE_SIZE - 1)) div 4096]"

definition set_page :: "nat \<Rightarrow> binder_lru_page \<Rightarrow> binder_alloc \<Rightarrow> binder_alloc" where
  "set_page i pg al = al\<lparr>pages := (pages al)[i := pg]\<rparr>"

fun lru_add_pages :: "nat list \<Rightarrow> binder_alloc \<Rightarrow> binder_alloc option" where
  "lru_add_pages [] al = Some al"
| "lru_add_pages (i # is) al =
     (if i \<ge> length (pages al) then None
      else lru_add_pages is (set_page i ((pages al ! i)\<lparr>lru_added := True\<rparr>) al))"

definition zeroed_page :: "u8 list" where
  "zeroed_page = replicate 4096 0"

text \<open>
  The second loop of \<open>binder_update_page_range\<close>; \<open>done\<close> are the slots already visited, in
  descending order, which the error path gives to \<open>compat_list_lru_add\<close>.
\<close>

fun alloc_pages_loop ::
    "alloc_env \<Rightarrow> nat list \<Rightarrow> nat list \<Rightarrow> binder_alloc \<Rightarrow> (unit result \<times> binder_alloc) option" where
  "alloc_pages_loop env visited [] al = Some (Inr (), al)"
| "alloc_pages_loop env visited (i # is) al =
     (if i \<ge> length (pages al) then None
      else if page_ptr (pages al ! i) \<noteq> None
      then alloc_pages_loop env (i # visited) is (set_page i ((pages al ! i)\<lparr>lru_added := False\<rparr>) al)
      else if \<not> alloc_page_ok env i \<or> \<not> vm_insert_ok env i
      then map_option (\<lambda>al'. (Inl ENOMEM, al')) (lru_add_pages visited al)
      else alloc_pages_loop env (i # visited) is
        ((set_page i \<lparr>page_ptr = Some zeroed_page, page_linked = False, lru_added = False\<rparr> al)
           \<lparr>pages_high := max (pages_high al) (of_nat i + 1)\<rparr>))"

text \<open>The first loop: whether a page is missing; it stops at the first one that is.\<close>

fun need_mm_loop :: "nat list \<Rightarrow> binder_alloc \<Rightarrow> bool option" where
  "need_mm_loop [] al = Some False"
| "need_mm_loop (i # is) al =
     (if i \<ge> length (pages al) then None
      else if page_ptr (pages al ! i) = None then Some True
      else need_mm_loop is al)"

definition binder_update_page_range ::
    "alloc_env \<Rightarrow> bool \<Rightarrow> u64 \<Rightarrow> u64 \<Rightarrow> binder_alloc \<Rightarrow> (unit result \<times> binder_alloc) option" where
  "binder_update_page_range env allocate start e al =
     (if e \<le> start then Some (Inr (), al)
      else let slots = page_slots al start e in
      if \<not> allocate
      then map_option (\<lambda>al'. (Inl ESRCH, al')) (lru_add_pages (rev slots) al)
      else case need_mm_loop slots al of None \<Rightarrow> None
      | Some need_mm \<Rightarrow>
          if need_mm \<and> (\<not> mmget_ok env \<or> vma al = None) then Some (Inl ESRCH, al)
          else alloc_pages_loop env [] slots al)"

section \<open>The address space\<close>

record vm_area =
  bvm_start :: u64
  bvm_end :: u64
  bvm_mm :: ptr
  bvm_addr :: ptr

definition binder_alloc_set_vma :: "vm_area option \<Rightarrow> binder_alloc \<Rightarrow> binder_alloc" where
  "binder_alloc_set_vma v al =
     (case v of None \<Rightarrow> al\<lparr>vma := None\<rparr>
      | Some w \<Rightarrow> al\<lparr>vma_vm_mm := Some (bvm_mm w), vma := Some (bvm_addr w)\<rparr>)"

definition binder_alloc_get_vma :: "binder_alloc \<Rightarrow> ptr option" where
  "binder_alloc_get_vma al = vma al"

section \<open>Allocating a buffer\<close>

text \<open>
  The walk down the free tree: the last node that is large enough, and whether a node of exactly
  the requested size ended the walk.
\<close>

fun best_fit_search :: "binder_alloc \<Rightarrow> u64 \<Rightarrow> ptr tree \<Rightarrow> ptr option \<Rightarrow> (ptr option \<times> bool) option" where
  "best_fit_search al sz Leaf best = Some (best, False)"
| "best_fit_search al sz (Node l b r) best =
     (if \<not> b_free (bufs al b) then None
      else if sz < binder_alloc_buffer_size al b then best_fit_search al sz l (Some b)
      else if sz > binder_alloc_buffer_size al b then best_fit_search al sz r best
      else Some (Some b, True))"

text \<open>The checks on the three sizes: the total, or \<open>None\<close> when an addition has wrapped.\<close>

definition checked_size :: "u64 \<Rightarrow> u64 \<Rightarrow> u64 \<Rightarrow> u64 option" where
  "checked_size ds os es =
     (let data_offsets_size = ALIGN ds sizeof_ptr + ALIGN os sizeof_ptr in
      if data_offsets_size < ds \<or> data_offsets_size < os then None
      else let sz = data_offsets_size + ALIGN es sizeof_ptr in
      if sz < data_offsets_size \<or> sz < es then None else Some sz)"

text \<open>The last block of \<open>binder_alloc_new_buf_locked\<close>: take the buffer out of the free tree and fill it in.\<close>

definition new_buf_take ::
    "rb_ops \<Rightarrow> ptr \<Rightarrow> u64 \<Rightarrow> u64 \<Rightarrow> u64 \<Rightarrow> u64 \<Rightarrow> bool \<Rightarrow> binder_alloc \<Rightarrow> binder_alloc option" where
  "new_buf_take rb b sz ds os es is_async al =
     (let al1 = al\<lparr>free_buffers := rb_erase rb b (free_buffers al)\<rparr>;
          al2 = set_buf b ((bufs al1 b)\<lparr>b_free := False, allow_user_free := False\<rparr>) al1
      in case binder_insert_allocated_buffer_locked rb b al2 of None \<Rightarrow> None
         | Some al3 \<Rightarrow>
             (let al4 = set_buf b ((bufs al3 b)\<lparr>data_size := ds, offsets_size := os,
                           async_transaction := is_async, extra_buffers_size := es\<rparr>) al3
              in Some (if is_async
                 then al4\<lparr>free_async_space := free_async_space al4 - (sz + sizeof_binder_buffer)\<rparr>
                 else al4)))"

text \<open>The block that cuts the rest of a larger buffer off as a new free buffer.\<close>

definition new_buf_split :: "rb_ops \<Rightarrow> ptr \<Rightarrow> ptr \<Rightarrow> u64 \<Rightarrow> binder_alloc \<Rightarrow> binder_alloc option" where
  "new_buf_split rb b new sz al =
     (let al1 = set_buf new (zero_buffer\<lparr>user_data := user_data (bufs al b) + sz\<rparr>) al;
          al2 = al1\<lparr>buffers := list_insert_after new b (buffers al1)\<rparr>;
          al3 = set_buf new ((bufs al2 new)\<lparr>b_free := True\<rparr>) al2
      in binder_insert_free_buffer rb new al3)"

definition new_buf_pages :: "binder_alloc \<Rightarrow> ptr \<Rightarrow> u64 \<Rightarrow> u64 \<times> u64" where
  "new_buf_pages al b sz =
     (let has_page_addr = (user_data (bufs al b) + binder_alloc_buffer_size al b) AND PAGE_MASK;
          end_page_addr = PAGE_ALIGN (user_data (bufs al b) + sz)
      in (PAGE_ALIGN (user_data (bufs al b)),
          if end_page_addr > has_page_addr then has_page_addr else end_page_addr))"

definition binder_alloc_new_buf_locked ::
    "rb_ops \<Rightarrow> alloc_env \<Rightarrow> u64 \<Rightarrow> u64 \<Rightarrow> u64 \<Rightarrow> bool \<Rightarrow> binder_alloc \<Rightarrow>
     (ptr result \<times> binder_alloc) option" where
  "binder_alloc_new_buf_locked rb env ds os es is_async al =
     (if binder_alloc_get_vma al = None then Some (Inl ESRCH, al)
      else case checked_size ds os es of None \<Rightarrow> Some (Inl EINVAL, al)
      | Some size0 \<Rightarrow>
        if is_async \<and> free_async_space al < size0 + sizeof_binder_buffer then Some (Inl ENOSPC, al)
        else let sz = max size0 sizeof_ptr in
        case best_fit_search al sz (free_buffers al) None of None \<Rightarrow> None
        | Some (None, _) \<Rightarrow> Some (Inl ENOSPC, al)
        | Some (Some b, _) \<Rightarrow>
          (let (start, e) = new_buf_pages al b sz in
           case binder_update_page_range env True start e al of None \<Rightarrow> None
           | Some (Inl err, al1) \<Rightarrow> Some (Inl err, al1)
           | Some (Inr _, al1) \<Rightarrow>
             if binder_alloc_buffer_size al b \<noteq> sz then
               (case kzalloc_buf env of
                  None \<Rightarrow> (case binder_update_page_range env False start e al1 of None \<Rightarrow> None
                    | Some (_, al2) \<Rightarrow> Some (Inl ENOMEM, al2))
                | Some new \<Rightarrow> (case new_buf_split rb b new sz al1 of None \<Rightarrow> None
                    | Some al2 \<Rightarrow> map_option (\<lambda>al3. (Inr b, al3)) (new_buf_take rb b sz ds os es is_async al2)))
             else map_option (\<lambda>al3. (Inr b, al3)) (new_buf_take rb b sz ds os es is_async al1)))"

definition binder_alloc_new_buf ::
    "rb_ops \<Rightarrow> alloc_env \<Rightarrow> u64 \<Rightarrow> u64 \<Rightarrow> u64 \<Rightarrow> bool \<Rightarrow> binder_alloc \<Rightarrow>
     (ptr result \<times> binder_alloc) option" where
  "binder_alloc_new_buf rb env ds os es is_async al =
     binder_alloc_new_buf_locked rb env ds os es is_async al"

section \<open>Freeing a buffer\<close>

definition buffer_start_page :: "binder_alloc \<Rightarrow> ptr \<Rightarrow> u64" where
  "buffer_start_page al b = user_data (bufs al b) AND PAGE_MASK"

definition prev_buffer_end_page :: "binder_alloc \<Rightarrow> ptr \<Rightarrow> u64" where
  "prev_buffer_end_page al b = (user_data (bufs al b) - 1) AND PAGE_MASK"

definition binder_delete_free_buffer :: "alloc_env \<Rightarrow> ptr \<Rightarrow> binder_alloc \<Rightarrow> binder_alloc option" where
  "binder_delete_free_buffer env b al =
     (case binder_buffer_prev al b of None \<Rightarrow> None
      | Some prv \<Rightarrow>
        if \<not> b_free (bufs al prv) then None
        else
          (let shares_prev = (prev_buffer_end_page al prv = buffer_start_page al b);
               shares_next = (case binder_buffer_next al b of None \<Rightarrow> False
                  | Some n \<Rightarrow> buffer_start_page al n = buffer_start_page al b);
               aligned = IS_ALIGNED (user_data (bufs al b)) PAGE_SIZE;
               page = buffer_start_page al b
           in case (if \<not> shares_prev \<and> \<not> shares_next \<and> \<not> aligned
                    then map_option snd (binder_update_page_range env False page (page + PAGE_SIZE) al)
                    else Some al) of
                None \<Rightarrow> None
              | Some al1 \<Rightarrow> Some (al1\<lparr>buffers := list_del b (buffers al1)\<rparr>)))"

text \<open>Merge a free successor into the buffer, then the buffer into a free predecessor.\<close>

definition merge_next :: "rb_ops \<Rightarrow> alloc_env \<Rightarrow> ptr \<Rightarrow> binder_alloc \<Rightarrow> binder_alloc option" where
  "merge_next rb env b al =
     (case binder_buffer_next al b of None \<Rightarrow> Some al
      | Some n \<Rightarrow>
          if b_free (bufs al n)
          then binder_delete_free_buffer env n (al\<lparr>free_buffers := rb_erase rb n (free_buffers al)\<rparr>)
          else Some al)"

definition merge_prev :: "rb_ops \<Rightarrow> alloc_env \<Rightarrow> ptr \<Rightarrow> binder_alloc \<Rightarrow> (ptr \<times> binder_alloc) option" where
  "merge_prev rb env b al =
     (case binder_buffer_prev al b of None \<Rightarrow> Some (b, al)
      | Some prv \<Rightarrow>
          if b_free (bufs al prv)
          then map_option (\<lambda>al1. (prv, al1\<lparr>free_buffers := rb_erase rb prv (free_buffers al1)\<rparr>))
                 (binder_delete_free_buffer env b al)
          else Some (b, al))"

definition buffer_used_size :: "binder_buffer \<Rightarrow> u64" where
  "buffer_used_size b = ALIGN (data_size b) sizeof_ptr + ALIGN (offsets_size b) sizeof_ptr +
     ALIGN (extra_buffers_size b) sizeof_ptr"

definition binder_free_buf_locked :: "rb_ops \<Rightarrow> alloc_env \<Rightarrow> ptr \<Rightarrow> binder_alloc \<Rightarrow> binder_alloc option" where
  "binder_free_buf_locked rb env b al =
     (let bsize = binder_alloc_buffer_size al b; bb = bufs al b; sz = buffer_used_size bb in
      if b_free bb \<or> sz > bsize \<or> b_transaction bb \<noteq> None \<or> user_data bb < buffer al \<or>
         user_data bb > buffer al + buffer_size al then None
      else let al1 = (if async_transaction bb
             then al\<lparr>free_async_space := free_async_space al + (sz + sizeof_binder_buffer)\<rparr> else al) in
      case binder_update_page_range env False (PAGE_ALIGN (user_data bb))
             ((user_data bb + bsize) AND PAGE_MASK) al1 of
        None \<Rightarrow> None
      | Some (_, al2) \<Rightarrow>
          (let al3 = al2\<lparr>allocated_buffers := rb_erase rb b (allocated_buffers al2)\<rparr>;
               al4 = set_buf b ((bufs al3 b)\<lparr>b_free := True\<rparr>) al3
           in case merge_next rb env b al4 of None \<Rightarrow> None
              | Some al5 \<Rightarrow> (case merge_prev rb env b al5 of None \<Rightarrow> None
                  | Some (b', al6) \<Rightarrow> binder_insert_free_buffer rb b' al6)))"

definition binder_alloc_free_buf :: "rb_ops \<Rightarrow> alloc_env \<Rightarrow> ptr \<Rightarrow> binder_alloc \<Rightarrow> binder_alloc option" where
  "binder_alloc_free_buf rb env b al = binder_free_buf_locked rb env b al"

section \<open>Mapping, release and statistics\<close>

text \<open>\<open>pages_ok\<close> is the outcome of \<open>kcalloc\<close> for the page array; a missing array is the empty list.\<close>

definition binder_alloc_mmap_handler ::
    "rb_ops \<Rightarrow> bool \<Rightarrow> ptr option \<Rightarrow> vm_area \<Rightarrow> binder_alloc \<Rightarrow> (unit result \<times> binder_alloc) option" where
  "binder_alloc_mmap_handler rb pages_ok new w al =
     (if buffer_size al \<noteq> 0 then Some (Inl EBUSY, al)
      else let al1 = al\<lparr>buffer_size := min (bvm_end w - bvm_start w) SZ_4M\<rparr>;
               al2 = al1\<lparr>buffer := bvm_start w\<rparr>
      in if \<not> pages_ok then Some (Inl ENOMEM, al2\<lparr>pages := [], buffer := 0, buffer_size := 0\<rparr>)
         else let al3 = al2\<lparr>pages := replicate (unat (buffer_size al2 div PAGE_SIZE)) zero_page\<rparr> in
         case new of
           None \<Rightarrow> Some (Inl ENOMEM, al3\<lparr>pages := [], buffer := 0, buffer_size := 0\<rparr>)
         | Some b \<Rightarrow>
             (let al4 = set_buf b (zero_buffer\<lparr>user_data := buffer al3\<rparr>) al3;
                  al5 = al4\<lparr>buffers := b # buffers al4\<rparr>;
                  al6 = set_buf b ((bufs al5 b)\<lparr>b_free := True\<rparr>) al5
              in case binder_insert_free_buffer rb b al6 of None \<Rightarrow> None
                 | Some al7 \<Rightarrow>
                     (let al8 = binder_alloc_set_vma (Some w) (al7\<lparr>free_async_space := buffer_size al7 div 2\<rparr>)
                      in Some (Inr (), al8\<lparr>mm_grabs := mm_grabs al8 + 1\<rparr>))))"

text \<open>
  The release of all allocated buffers, first in tree order first; the fuel bounds the number of
  rounds and \<open>None\<close> is also the result of running out of it.
\<close>

fun release_buffers :: "rb_ops \<Rightarrow> alloc_env \<Rightarrow> nat \<Rightarrow> nat \<Rightarrow> binder_alloc \<Rightarrow> (nat \<times> binder_alloc) option" where
  "release_buffers rb env 0 n al = None"
| "release_buffers rb env (Suc k) n al =
     (case inorder (allocated_buffers al) of [] \<Rightarrow> Some (n, al)
      | b # _ \<Rightarrow>
          if b_transaction (bufs al b) \<noteq> None then None
          else case binder_free_buf_locked rb env b al of None \<Rightarrow> None
          | Some al' \<Rightarrow> release_buffers rb env k (Suc n) al')"

definition count_pages :: "binder_lru_page list \<Rightarrow> nat" where
  "count_pages ps = length (filter (\<lambda>p. page_ptr p \<noteq> None) ps)"

definition binder_alloc_deferred_release ::
    "rb_ops \<Rightarrow> alloc_env \<Rightarrow> binder_alloc \<Rightarrow> (nat \<times> nat \<times> binder_alloc) option" where
  "binder_alloc_deferred_release rb env al =
     (if vma al \<noteq> None then None
      else case release_buffers rb env (length (inorder (allocated_buffers al)) + 1) 0 al of None \<Rightarrow> None
      | Some (n, al1) \<Rightarrow>
          (let al2 = al1\<lparr>buffers := []\<rparr>;
               page_count = count_pages (take (unat (buffer_size al2 div PAGE_SIZE)) (pages al2));
               al3 = al2\<lparr>pages := []\<rparr>
           in Some (n, page_count,
                if vma_vm_mm al3 \<noteq> None then al3\<lparr>mm_grabs := mm_grabs al3 - 1\<rparr> else al3)))"

text \<open>The three counters (active, on the LRU list, free) and the watermark of the pages file.\<close>

definition binder_alloc_print_pages :: "binder_alloc \<Rightarrow> nat \<times> nat \<times> nat \<times> u64" where
  "binder_alloc_print_pages al =
     (let ps = (if binder_alloc_get_vma al = None then []
                else take (unat (buffer_size al div PAGE_SIZE)) (pages al))
      in (length (filter (\<lambda>p. page_ptr p \<noteq> None \<and> \<not> page_linked p) ps),
          length (filter (\<lambda>p. page_ptr p \<noteq> None \<and> page_linked p) ps),
          length (filter (\<lambda>p. page_ptr p = None) ps), pages_high al))"

definition binder_alloc_get_allocated_count :: "binder_alloc \<Rightarrow> nat" where
  "binder_alloc_get_allocated_count al = length (inorder (allocated_buffers al))"

definition binder_alloc_vma_close :: "binder_alloc \<Rightarrow> binder_alloc" where
  "binder_alloc_vma_close al = binder_alloc_set_vma None al"

definition binder_alloc_init :: "binder_alloc \<Rightarrow> binder_alloc" where
  "binder_alloc_init al = al\<lparr>buffers := []\<rparr>"

definition binder_alloc_get_free_async_space :: "binder_alloc \<Rightarrow> u64" where
  "binder_alloc_get_free_async_space al = free_async_space al"

text \<open>
  The callback for the page in slot \<open>i\<close> of a walk over the LRU list, which nothing starts in this driver: the
  outcomes of the trylocks and of \<open>mmget_not_zero\<close> are arguments.
\<close>

datatype lru_status = LRU_REMOVED_RETRY | LRU_SKIP

definition binder_alloc_free_page :: "bool \<Rightarrow> bool \<Rightarrow> bool \<Rightarrow> nat \<Rightarrow> binder_alloc \<Rightarrow> lru_status \<times> binder_alloc" where
  "binder_alloc_free_page mutex_ok mmget mmap_trylock i al =
     (if \<not> mutex_ok \<or> page_ptr (pages al ! i) = None \<or> \<not> mmget \<or> \<not> mmap_trylock then (LRU_SKIP, al)
      else (LRU_REMOVED_RETRY, set_page i \<lparr>page_ptr = None, page_linked = False, lru_added = False\<rparr> al))"

definition binder_shrink_count :: u64 where "binder_shrink_count = 0"

definition binder_shrink_scan :: u64 where "binder_shrink_scan = 0"

text \<open>
  Initialisation of the shrinker: the outcomes of \<open>list_lru_init\<close> and of the registration (or
  allocation) of the shrinker; the result and whether the LRU list and the shrinker exist.
\<close>

definition binder_alloc_shrinker_init :: "errno option \<Rightarrow> bool \<Rightarrow> errno option \<Rightarrow> errno option \<times> bool \<times> bool" where
  "binder_alloc_shrinker_init lru_ret dynamic shrinker_ret =
     (case lru_ret of Some e \<Rightarrow> (Some e, False, False)
      | None \<Rightarrow> (case shrinker_ret of
            Some e \<Rightarrow> (if dynamic then Some ENOMEM else Some e, False, False)
          | None \<Rightarrow> (None, True, True)))"

section \<open>Access to the contents of a buffer\<close>

definition check_buffer :: "binder_alloc \<Rightarrow> ptr \<Rightarrow> u64 \<Rightarrow> u64 \<Rightarrow> bool" where
  "check_buffer al b offset bytes \<longleftrightarrow>
     (let bsize = binder_alloc_buffer_size al b in
      bsize \<ge> bytes \<and> offset \<le> bsize - bytes \<and> IS_ALIGNED offset 4 \<and> \<not> b_free (bufs al b) \<and>
      (\<not> allow_user_free (bufs al b) \<or> b_transaction (bufs al b) = None))"

definition PAGE_SHIFT :: nat where "PAGE_SHIFT = 12"

text \<open>The slot of the page at an offset of a buffer and the offset within the page.\<close>

definition binder_alloc_get_page :: "binder_alloc \<Rightarrow> ptr \<Rightarrow> u64 \<Rightarrow> nat \<times> nat" where
  "binder_alloc_get_page al b buffer_offset =
     (let buffer_space_offset = buffer_offset + (user_data (bufs al b) - buffer al)
      in (unat (drop_bit PAGE_SHIFT buffer_space_offset), unat (buffer_space_offset AND NOT PAGE_MASK)))"

text \<open>\<open>kmap\<close> of the page in a slot: its bytes; \<open>None\<close> for a missing page or a slot outside the array.\<close>

definition kmap :: "binder_alloc \<Rightarrow> nat \<Rightarrow> u8 list option" where
  "kmap al i = (if i < length (pages al) then page_ptr (pages al ! i) else None)"

definition memcpy_at :: "nat \<Rightarrow> u8 list \<Rightarrow> u8 list \<Rightarrow> u8 list" where
  "memcpy_at off src dst = take off dst @ src @ drop (off + length src) dst"

definition put_page :: "nat \<Rightarrow> u8 list \<Rightarrow> binder_alloc \<Rightarrow> binder_alloc" where
  "put_page i bs al = set_page i ((pages al ! i)\<lparr>page_ptr := Some bs\<rparr>) al"

lemma get_page_offset_less: "snd (binder_alloc_get_page al b off) < 4096"
proof -
  have "NOT PAGE_MASK = mask 12" by (simp add: PAGE_MASK_def PAGE_SIZE_def mask_eq_exp_minus_1)
  then show ?thesis by (simp add: binder_alloc_get_page_def unat_and_mask Let_def)
qed

function copy_to_loop :: "ptr \<Rightarrow> u64 \<Rightarrow> u8 list \<Rightarrow> binder_alloc \<Rightarrow> binder_alloc option" where
  "copy_to_loop b off src al =
     (if src = [] then Some al
      else let (i, pgoff) = binder_alloc_get_page al b off in
      case kmap al i of None \<Rightarrow> None
      | Some bs \<Rightarrow>
          (let n = min (length src) (4096 - pgoff)
           in copy_to_loop b (off + of_nat n) (drop n src)
                (put_page i (memcpy_at pgoff (take n src) bs) al)))"
  by pat_completeness auto
termination
proof (relation "measure (\<lambda>(b, off, src, al). length src)", goal_cases)
  case (2 b off src al x i pgoff bs n)
  then have "pgoff < 4096" using get_page_offset_less [of al b off] by (metis snd_conv)
  with 2 show ?case by (cases src) auto
qed simp

function copy_from_loop :: "ptr \<Rightarrow> u64 \<Rightarrow> nat \<Rightarrow> binder_alloc \<Rightarrow> u8 list option" where
  "copy_from_loop b off bytes al =
     (if bytes = 0 then Some []
      else let (i, pgoff) = binder_alloc_get_page al b off in
      case kmap al i of None \<Rightarrow> None
      | Some bs \<Rightarrow>
          (let n = min bytes (4096 - pgoff)
           in map_option (\<lambda>rest. take n (drop pgoff bs) @ rest)
                (copy_from_loop b (off + of_nat n) (bytes - n) al)))"
  by pat_completeness auto
termination
proof (relation "measure (\<lambda>(b, off, bytes, al). bytes)", goal_cases)
  case (2 b off bytes al x i pgoff bs n)
  then have "pgoff < 4096" using get_page_offset_less [of al b off] by (metis snd_conv)
  with 2 show ?case by auto
qed simp

declare copy_to_loop.simps [simp del] copy_from_loop.simps [simp del]

text \<open>\<open>binder_alloc_do_buffer_copy\<close> in its two directions; \<open>None\<close> is the access to a missing page.\<close>

definition binder_alloc_copy_to_buffer ::
    "ptr \<Rightarrow> u64 \<Rightarrow> u8 list \<Rightarrow> binder_alloc \<Rightarrow> (unit result \<times> binder_alloc) option" where
  "binder_alloc_copy_to_buffer b off src al =
     (if \<not> check_buffer al b off (of_nat (length src)) then Some (Inl EINVAL, al)
      else map_option (\<lambda>al'. (Inr (), al')) (copy_to_loop b off src al))"

definition binder_alloc_copy_from_buffer ::
    "ptr \<Rightarrow> u64 \<Rightarrow> u64 \<Rightarrow> binder_alloc \<Rightarrow> u8 list result option" where
  "binder_alloc_copy_from_buffer b off bytes al =
     (if \<not> check_buffer al b off bytes then Some (Inl EINVAL)
      else map_option Inr (copy_from_loop b off (unat bytes) al))"

text \<open>
  The copy from user space: \<open>ub\<close> are the bytes readable at \<open>from\<close>, and \<open>copy_from_user\<close> fills what it
  cannot read with zeros and returns how much that was. The result is the number of bytes left.
\<close>

function copy_user_loop :: "ptr \<Rightarrow> u64 \<Rightarrow> u8 list \<Rightarrow> nat \<Rightarrow> binder_alloc \<Rightarrow> (nat \<times> binder_alloc) option" where
  "copy_user_loop b off ub bytes al =
     (if bytes = 0 then Some (0, al)
      else let (i, pgoff) = binder_alloc_get_page al b off in
      case kmap al i of None \<Rightarrow> None
      | Some bs \<Rightarrow>
          (let n = min bytes (4096 - pgoff);
               got = take n ub;
               al' = put_page i (memcpy_at pgoff (got @ replicate (n - length got) 0) bs) al
           in if length got < n then Some (bytes - n + (n - length got), al')
              else copy_user_loop b (off + of_nat n) (drop n ub) (bytes - n) al'))"
  by pat_completeness auto
termination
proof (relation "measure (\<lambda>(b, off, ub, bytes, al). bytes)", goal_cases)
  case (2 b off ub bytes al x i pgoff bs n got al')
  then have "pgoff < 4096" using get_page_offset_less [of al b off] by (metis snd_conv)
  with 2 show ?case by auto
qed simp

declare copy_user_loop.simps [simp del]

definition binder_alloc_copy_user_to_buffer ::
    "ptr \<Rightarrow> u64 \<Rightarrow> u8 list \<Rightarrow> u64 \<Rightarrow> binder_alloc \<Rightarrow> (nat \<times> binder_alloc) option" where
  "binder_alloc_copy_user_to_buffer b off ub bytes al =
     (if \<not> check_buffer al b off bytes then Some (unat bytes, al)
      else copy_user_loop b off ub (unat bytes) al)"

end
