(* ===== verification/Binder_Alloc_Pages.thy ===== *)
theory Binder_Alloc_Pages
  imports Binder_Alloc
begin

text \<open>
  The page array under the buffers: which slots an address range covers, and what
  \<open>binder_update_page_range\<close> does to them.
\<close>

section \<open>Page slots of an address range\<close>

text \<open>The space is page aligned and has a slot for each of its pages.\<close>

definition space_ok :: "binder_alloc \<Rightarrow> bool" where
  "space_ok al \<longleftrightarrow> 4096 dvd unat (buffer al) \<and> 4096 dvd unat (buffer_size al) \<and>
     unat (buffer al) + unat (buffer_size al) < 2 ^ 64 \<and>
     length (pages al) = unat (buffer_size al) div 4096"

definition slot :: "binder_alloc \<Rightarrow> u64 \<Rightarrow> nat" where
  "slot al a = (unat a - unat (buffer al)) div 4096"

lemma unat_page_size [simp]: "unat PAGE_SIZE = 4096"
  by (simp add: PAGE_SIZE_def)

lemma page_index_slot: "buffer al \<le> a \<Longrightarrow> page_index al a = slot al a"
  by (simp add: page_index_def slot_def unat_div unat_sub)

lemma map_add_const_upt: "map (\<lambda>i. a + i) [0 ..< n] = [a ..< a + n]"
  using map_add_upt [of a n] by (simp add: add.commute)

lemma page_slots_eq:
  assumes al: "4096 dvd unat start" "4096 dvd unat e" and le: "buffer al \<le> start" "start \<le> e"
  shows "page_slots al start e = [slot al start ..< slot al e]"
proof -
  obtain m n where m: "unat start = 4096 * m" and n: "unat e = 4096 * n" using al by (auto elim!: dvdE)
  have e: "unat e < 2 ^ 64" using unsigned_less [of e] by simp
  have mn: "m \<le> n" using le(2) m n by (simp add: word_le_nat_alt)
  have "unat (e - start) = 4096 * (n - m)" using le(2) m n by (simp add: unat_sub right_diff_distrib')
  moreover have "4096 * (n - m) + 4095 < 2 ^ 64" using e n by simp
  ultimately have "unat (e - start + (PAGE_SIZE - 1)) = 4096 * (n - m) + 4095"
    by (subst unat_add_lem [THEN iffD1]) (simp_all add: PAGE_SIZE_def)
  then have cnt: "unat (e - start + (PAGE_SIZE - 1)) div 4096 = n - m" by simp
  have idx: "page_index al (start + of_nat i * PAGE_SIZE) = slot al start + i" if "i < n - m" for i
  proof -
    have lt: "4096 * m + i * 4096 < 2 ^ 64" using that e n by simp
    then have "unat (of_nat i * PAGE_SIZE :: u64) = i * 4096"
      using unat_of_nat_u64 [of "i * 4096"] by (simp add: PAGE_SIZE_def)
    then have u: "unat (start + of_nat i * PAGE_SIZE) = unat start + i * 4096"
      using lt m by (subst unat_add_lem [THEN iffD1]) simp_all
    then have "buffer al \<le> start + of_nat i * PAGE_SIZE" using le(1) by (simp add: word_le_nat_alt)
    then have "page_index al (start + of_nat i * PAGE_SIZE) = (unat start + i * 4096 - unat (buffer al)) div 4096"
      by (simp add: page_index_slot slot_def u)
    also have "unat start + i * 4096 - unat (buffer al) = (unat start - unat (buffer al)) + i * 4096"
      using le(1) by (simp add: word_le_nat_alt)
    finally show ?thesis by (simp add: slot_def)
  qed
  have "slot al e = slot al start + (n - m)"
  proof -
    have "unat e - unat (buffer al) = (unat start - unat (buffer al)) + (n - m) * 4096"
      using le mn m n by (simp add: word_le_nat_alt algebra_simps)
    then show ?thesis by (simp add: slot_def)
  qed
  moreover have "map (\<lambda>i. page_index al (start + of_nat i * PAGE_SIZE)) [0 ..< n - m] =
      map (\<lambda>i. slot al start + i) [0 ..< n - m]"
    by (rule map_cong) (auto simp: idx)
  ultimately show ?thesis
    unfolding page_slots_def cnt by (simp only: map_add_const_upt)
qed

section \<open>What the loops do to the slots\<close>

text \<open>A page is in use when it exists and the driver has not given it to \<open>compat_list_lru_add\<close>.\<close>

definition in_use :: "binder_lru_page \<Rightarrow> bool" where
  "in_use pg \<longleftrightarrow> page_ptr pg \<noteq> None \<and> \<not> lru_added pg"

text \<open>States that agree on everything but the pages.\<close>

definition same_space :: "binder_alloc \<Rightarrow> binder_alloc \<Rightarrow> bool" where
  "same_space al al' \<longleftrightarrow> al' = al\<lparr>pages := pages al', pages_high := pages_high al'\<rparr> \<and>
     length (pages al') = length (pages al)"

lemma same_space_refl [simp]: "same_space al al"
  by (simp add: same_space_def)

lemma same_space_set_page: "same_space al (set_page i pg al)" "same_space al ((set_page i pg al)\<lparr>pages_high := h\<rparr>)"
  by (simp_all add: same_space_def set_page_def)

lemma same_space_trans: "same_space al al' \<Longrightarrow> same_space al' al'' \<Longrightarrow> same_space al al''"
  unfolding same_space_def by (cases al, cases al', cases al'') simp

lemma same_spaceD:
  assumes "same_space al al'"
  shows "vma al' = vma al" "buffer al' = buffer al" "buffers al' = buffers al" "bufs al' = bufs al"
    "free_buffers al' = free_buffers al" "allocated_buffers al' = allocated_buffers al"
    "free_async_space al' = free_async_space al" "buffer_size al' = buffer_size al"
    "length (pages al') = length (pages al)" "vma_vm_mm al' = vma_vm_mm al"
  using assms unfolding same_space_def by (cases al, cases al', simp)+

lemma set_page_nth [simp]:
  "length (pages (set_page i pg al)) = length (pages al)"
  "i < length (pages al) \<Longrightarrow> pages (set_page i pg al) ! i = pg"
  "j \<noteq> i \<Longrightarrow> pages (set_page i pg al) ! j = pages al ! j"
  by (simp_all add: set_page_def)

lemma lru_add_pages_Some:
  assumes "\<forall>i\<in>set is. i < length (pages al)"
  shows "\<exists>al'. lru_add_pages is al = Some al' \<and> same_space al al' \<and>
    (\<forall>j. j \<in> set is \<longrightarrow> \<not> in_use (pages al' ! j)) \<and> (\<forall>j. j \<notin> set is \<longrightarrow> pages al' ! j = pages al ! j)"
  using assms
proof (induction "is" arbitrary: al)
  case (Cons i "is")
  let ?al = "set_page i ((pages al ! i)\<lparr>lru_added := True\<rparr>) al"
  obtain al' where al': "lru_add_pages is ?al = Some al'" "same_space ?al al'"
    "\<forall>j. j \<in> set is \<longrightarrow> \<not> in_use (pages al' ! j)" "\<forall>j. j \<notin> set is \<longrightarrow> pages al' ! j = pages ?al ! j"
    using Cons.IH [of ?al] Cons.prems by auto
  have "\<not> in_use (pages al' ! i)"
    using al'(3,4) Cons.prems by (cases "i \<in> set is") (auto simp: in_use_def)
  then show ?case
    using al' Cons.prems same_space_trans [OF same_space_set_page(1) al'(2)] by auto
qed simp

lemma alloc_pages_loop_Some:
  assumes "\<forall>i\<in>set is \<union> set vis. i < length (pages al)" "distinct (rev vis @ is)"
  shows "\<exists>r al'. alloc_pages_loop env vis is al = Some (r, al') \<and> same_space al al' \<and>
    (\<forall>j. j \<notin> set vis \<union> set is \<longrightarrow> pages al' ! j = pages al ! j) \<and>
    (r = Inr () \<longrightarrow> (\<forall>j\<in>set is. in_use (pages al' ! j)) \<and> (\<forall>j\<in>set vis. pages al' ! j = pages al ! j)) \<and>
    (r \<noteq> Inr () \<longrightarrow> r = Inl ENOMEM \<and> (\<forall>j\<in>set vis. \<not> in_use (pages al' ! j)) \<and>
       (\<forall>j\<in>set is. in_use (pages al' ! j) \<longrightarrow> in_use (pages al ! j)))"
  using assms
proof (induction "is" arbitrary: vis al)
  case (Cons i "is")
  have i: "i < length (pages al)" "i \<notin> set is" "i \<notin> set vis" using Cons.prems by auto
  have step: ?case if same: "same_space al al1" and other: "\<And>j. j \<noteq> i \<Longrightarrow> pages al1 ! j = pages al ! j"
    and u: "in_use (pages al1 ! i)"
    and eq: "alloc_pages_loop env vis (i # is) al = alloc_pages_loop env (i # vis) is al1" for al1
  proof -
    have "\<forall>j\<in>set is \<union> set (i # vis). j < length (pages al1)" "distinct (rev (i # vis) @ is)"
      using Cons.prems same_spaceD(9) [OF same] by auto
    from Cons.IH [OF this] obtain r al' where r: "alloc_pages_loop env (i # vis) is al1 = Some (r, al')"
      "same_space al1 al'" "\<forall>j. j \<notin> set (i # vis) \<union> set is \<longrightarrow> pages al' ! j = pages al1 ! j"
      "r = Inr () \<longrightarrow> (\<forall>j\<in>set is. in_use (pages al' ! j)) \<and> (\<forall>j\<in>set (i # vis). pages al' ! j = pages al1 ! j)"
      "r \<noteq> Inr () \<longrightarrow> r = Inl ENOMEM \<and> (\<forall>j\<in>set (i # vis). \<not> in_use (pages al' ! j)) \<and>
         (\<forall>j\<in>set is. in_use (pages al' ! j) \<longrightarrow> in_use (pages al1 ! j))" by blast
    show ?thesis
      unfolding eq
    proof (intro exI conjI)
      show "alloc_pages_loop env (i # vis) is al1 = Some (r, al')" by (rule r(1))
      show "same_space al al'" by (rule same_space_trans [OF same r(2)])
      show "\<forall>j. j \<notin> set vis \<union> set (i # is) \<longrightarrow> pages al' ! j = pages al ! j" using r(3) other by auto
      show "r = Inr () \<longrightarrow> (\<forall>j\<in>set (i # is). in_use (pages al' ! j)) \<and> (\<forall>j\<in>set vis. pages al' ! j = pages al ! j)"
        using r(4) u other i(3) by auto (metis)
      show "r \<noteq> Inr () \<longrightarrow> r = Inl ENOMEM \<and> (\<forall>j\<in>set vis. \<not> in_use (pages al' ! j)) \<and>
         (\<forall>j\<in>set (i # is). in_use (pages al' ! j) \<longrightarrow> in_use (pages al ! j))"
        using r(5) other i(2) by auto metis
    qed
  qed
  consider (present) "page_ptr (pages al ! i) \<noteq> None"
    | (fail) "page_ptr (pages al ! i) = None" "\<not> alloc_page_ok env i \<or> \<not> vm_insert_ok env i"
    | (fresh) "page_ptr (pages al ! i) = None" "alloc_page_ok env i" "vm_insert_ok env i" by blast
  then show ?case
  proof cases
    case present
    show ?thesis
      by (rule step [OF same_space_set_page(1) [of al i "(pages al ! i)\<lparr>lru_added := False\<rparr>"]])
        (use present i in \<open>auto simp: in_use_def\<close>)
  next
    case fresh
    show ?thesis
      by (rule step [OF same_space_set_page(2) [of al "max (pages_high al) (of_nat i + 1)" i "\<lparr>page_ptr = Some zeroed_page, page_linked = False, lru_added = False\<rparr>"]])
        (use fresh i in \<open>auto simp: in_use_def set_page_def\<close>)
  next
    case fail
    obtain al' where "lru_add_pages vis al = Some al'" "same_space al al'"
      "\<forall>j. j \<in> set vis \<longrightarrow> \<not> in_use (pages al' ! j)" "\<forall>j. j \<notin> set vis \<longrightarrow> pages al' ! j = pages al ! j"
      using lru_add_pages_Some [of vis al] Cons.prems by auto
    then show ?thesis using fail i Cons.prems by auto
  qed
qed auto

lemma need_mm_loop_Some:
  "\<forall>i\<in>set is. i < length (pages al) \<Longrightarrow> \<exists>b. need_mm_loop is al = Some b"
  by (induction "is") auto

section \<open>\<open>binder_update_page_range\<close>\<close>

text \<open>An address range of whole pages inside the space.\<close>

definition page_range :: "binder_alloc \<Rightarrow> u64 \<Rightarrow> u64 \<Rightarrow> bool" where
  "page_range al start e \<longleftrightarrow> 4096 dvd unat start \<and> 4096 dvd unat e \<and> buffer al \<le> start \<and>
     unat e \<le> unat (buffer al) + unat (buffer_size al)"

lemma page_range_slots:
  assumes "space_ok al" "page_range al start e" "start \<le> e"
  shows "page_slots al start e = [slot al start ..< slot al e]" "slot al e \<le> length (pages al)"
proof -
  show "page_slots al start e = [slot al start ..< slot al e]"
    using assms by (intro page_slots_eq) (auto simp: page_range_def)
  have "unat e - unat (buffer al) \<le> unat (buffer_size al)" using assms(2) by (auto simp: page_range_def)
  then show "slot al e \<le> length (pages al)" using assms(1) by (simp add: slot_def space_ok_def div_le_mono)
qed

text \<open>
  Giving pages back gives the slots of the range to \<open>compat_list_lru_add\<close>; fetching pages either succeeds
  and has every slot in use, or fails and has no slot in use that was not before. The rest of
  the state is untouched.
\<close>

lemma update_page_range_free:
  assumes "space_ok al" "page_range al start e"
  shows "\<exists>r al'. binder_update_page_range env False start e al = Some (r, al') \<and> same_space al al' \<and>
    (\<forall>j. slot al start \<le> j \<and> j < slot al e \<longrightarrow> \<not> in_use (pages al' ! j)) \<and>
    (\<forall>j. \<not> (slot al start \<le> j \<and> j < slot al e) \<longrightarrow> pages al' ! j = pages al ! j)"
proof (cases "e \<le> start")
  case True
  have "slot al e \<le> slot al start" using True by (simp add: slot_def word_le_nat_alt div_le_mono)
  then show ?thesis using True by (auto simp: binder_update_page_range_def)
next
  case False
  then have le: "start \<le> e" by simp
  note s = page_range_slots [OF assms le]
  have "\<forall>i\<in>set (rev (page_slots al start e)). i < length (pages al)" using s by auto
  from lru_add_pages_Some [OF this] show ?thesis using False s(1)
    by (auto simp: binder_update_page_range_def Let_def)
qed

lemma update_page_range_alloc:
  assumes "space_ok al" "page_range al start e"
  shows "\<exists>r al'. binder_update_page_range env True start e al = Some (r, al') \<and> same_space al al' \<and>
    (\<forall>j. \<not> (slot al start \<le> j \<and> j < slot al e) \<longrightarrow> pages al' ! j = pages al ! j) \<and>
    (r = Inr () \<longrightarrow> (\<forall>j. slot al start \<le> j \<and> j < slot al e \<longrightarrow> in_use (pages al' ! j))) \<and>
    (r \<noteq> Inr () \<longrightarrow> r \<in> {Inl ENOMEM, Inl ESRCH} \<and>
       (\<forall>j. slot al start \<le> j \<and> j < slot al e \<and> in_use (pages al' ! j) \<longrightarrow> in_use (pages al ! j)))"
proof (cases "e \<le> start")
  case True
  have "slot al e \<le> slot al start" using True by (simp add: slot_def word_le_nat_alt div_le_mono)
  then show ?thesis using True by (auto simp: binder_update_page_range_def)
next
  case False
  then have le: "start \<le> e" by simp
  note s = page_range_slots [OF assms le]
  have b: "\<forall>i\<in>set (page_slots al start e). i < length (pages al)" using s by auto
  obtain nm where nm: "need_mm_loop (page_slots al start e) al = Some nm" using need_mm_loop_Some [OF b] by blast
  show ?thesis
  proof (cases "nm \<and> (\<not> mmget_ok env \<or> vma al = None)")
    case True
    then show ?thesis using False nm by (auto simp: binder_update_page_range_def Let_def)
  next
    case no_err: False
    have eq: "binder_update_page_range env True start e al = alloc_pages_loop env [] (page_slots al start e) al"
      using False no_err nm by (auto simp: binder_update_page_range_def Let_def)
    have "\<forall>i\<in>set (page_slots al start e) \<union> set []. i < length (pages al)"
      "distinct (rev [] @ page_slots al start e)" using b s(1) by auto
    from alloc_pages_loop_Some [OF this, of env] show ?thesis unfolding eq s(1) by auto
  qed
qed

section \<open>Rounding to pages\<close>

lemma page_mask_mask: "PAGE_MASK = NOT (mask 12)" "PAGE_SIZE = 2 ^ 12"
  by (simp_all add: PAGE_MASK_def PAGE_SIZE_def mask_eq_exp_minus_1)

lemma unat_page_down: "unat (x AND PAGE_MASK) = unat x div 4096 * 4096"
  by (simp add: page_mask_mask unat_and_not_mask minus_mod_eq_div_mult)

lemma unat_PAGE_ALIGN:
  assumes "unat x + 4095 < 2 ^ 64"
  shows "unat (PAGE_ALIGN x) = (unat x + 4095) div 4096 * 4096"
proof -
  have m: "unat (mask 12 :: u64) = 4095" by (simp add: mask_eq_exp_minus_1)
  show ?thesis
    using unat_ALIGN [of x 12] assms unfolding PAGE_ALIGN_def page_mask_mask(2) m
    by (simp add: minus_mod_eq_div_mult)
qed

lemma round_up_ge: "n \<le> (n + 4095) div 4096 * (4096 :: nat)"
proof -
  have "(n + 4095) mod 4096 < 4096" by simp
  then show ?thesis using div_mult_mod_eq [of "n + 4095" 4096] by linarith
qed

lemma space_end_bound:
  assumes "space_ok al" "unat x \<le> unat (buffer al) + unat (buffer_size al)"
  shows "unat x + 4095 < 2 ^ 64"
proof -
  have "4096 dvd unat (buffer al) + unat (buffer_size al)" using assms(1) by (simp add: space_ok_def)
  then obtain k where "unat (buffer al) + unat (buffer_size al) = 4096 * k" by (elim dvdE)
  moreover have "unat (buffer al) + unat (buffer_size al) < 2 ^ 64" using assms(1) by (simp add: space_ok_def)
  ultimately show ?thesis using assms(2) by simp
qed

text \<open>The range that is fetched or given back for the addresses from \<open>a\<close> to \<open>c\<close>.\<close>

lemma page_range_between:
  assumes "space_ok al" "buffer al \<le> a" "unat a \<le> unat (buffer al) + unat (buffer_size al)"
    and "unat c \<le> unat (buffer al) + unat (buffer_size al)"
  shows "page_range al (PAGE_ALIGN a) (c AND PAGE_MASK)"
    and "e = PAGE_ALIGN d \<or> e = c AND PAGE_MASK \<Longrightarrow> e \<le> c AND PAGE_MASK \<Longrightarrow>
      unat d \<le> unat (buffer al) + unat (buffer_size al) \<Longrightarrow> page_range al (PAGE_ALIGN a) e"
proof -
  note up = unat_PAGE_ALIGN [OF space_end_bound [OF assms(1)]]
  have s: "4096 dvd unat (PAGE_ALIGN a)" "buffer al \<le> PAGE_ALIGN a"
    using assms(2) round_up_ge [of "unat a"] by (simp_all add: up [OF assms(3)] word_le_nat_alt)
  have d: "4096 dvd unat (c AND PAGE_MASK)" "unat (c AND PAGE_MASK) \<le> unat c"
    by (simp_all add: unat_page_down)
  show "page_range al (PAGE_ALIGN a) (c AND PAGE_MASK)"
    using s d assms(4) by (auto simp: page_range_def)
  show "page_range al (PAGE_ALIGN a) e"
    if "e = PAGE_ALIGN d \<or> e = c AND PAGE_MASK" "e \<le> c AND PAGE_MASK"
      "unat d \<le> unat (buffer al) + unat (buffer_size al)"
  proof -
    have "4096 dvd unat e" using that(1) d(1) up [OF that(3)] by auto
    moreover have "unat e \<le> unat (c AND PAGE_MASK)" using that(2) by (simp add: word_le_nat_alt)
    ultimately show ?thesis using s d(2) assms(4) by (simp add: page_range_def)
  qed
qed

end
