(* ===== verification/Binder_Alloc_Inv.thy ===== *)
theory Binder_Alloc_Inv
  imports Binder_Alloc_Pages
begin

text \<open>
  The invariant of the allocator's address space: the buffers tile the mapping in address order,
  the two trees hold exactly the free buffers by size and the allocated ones by address, no two
  neighbours are both free, and every allocated buffer is large enough for its contents.
\<close>

section \<open>Neighbours in a list\<close>

lemma list_next_split: "p \<notin> set us \<Longrightarrow> list_next p (us @ p # vs) = (case vs of [] \<Rightarrow> None | q # _ \<Rightarrow> Some q)"
  by (induction us) auto

lemma list_prev_notin: "p \<notin> set vs \<Longrightarrow> list_prev p (y # vs) = None"
  by (induction vs arbitrary: y) auto

lemma list_prev_split:
  assumes "p \<notin> set us" "p \<notin> set vs"
  shows "list_prev p (us @ p # vs) = (if us = [] then None else Some (last us))"
  using assms(1)
proof (induction us)
  case (Cons u us)
  then show ?case by (cases us) auto
qed (simp add: list_prev_notin assms(2))

lemma sorted_wrt_eq:
  "(\<And>x y. x \<in> set xs \<Longrightarrow> y \<in> set xs \<Longrightarrow> P x y = Q x y) \<Longrightarrow> sorted_wrt P xs = sorted_wrt Q xs"
  by (induction xs) auto

section \<open>The invariant\<close>

definition addr :: "binder_alloc \<Rightarrow> ptr \<Rightarrow> u64" where
  "addr al p = user_data (bufs al p)"

text \<open>The end of the space, and the end of a buffer given the buffers that follow it.\<close>

definition space_end :: "binder_alloc \<Rightarrow> u64" where
  "space_end al = buffer al + buffer_size al"

definition end_of :: "binder_alloc \<Rightarrow> ptr list \<Rightarrow> u64" where
  "end_of al vs = (case vs of [] \<Rightarrow> space_end al | q # _ \<Rightarrow> addr al q)"

definition layout_ok :: "binder_alloc \<Rightarrow> bool" where
  "layout_ok al \<longleftrightarrow> buffers al \<noteq> [] \<and> addr al (hd (buffers al)) = buffer al \<and>
     space_ok al \<and>
     sorted_wrt (\<lambda>p q. addr al p < addr al q) (buffers al) \<and>
     (\<forall>p\<in>set (buffers al). addr al p < space_end al)"

abbreviation bsize :: "binder_alloc \<Rightarrow> ptr \<Rightarrow> u64" where
  "bsize \<equiv> binder_alloc_buffer_size"

definition free_tree_ok :: "binder_alloc \<Rightarrow> bool" where
  "free_tree_ok al \<longleftrightarrow> distinct (inorder (free_buffers al)) \<and>
     set (inorder (free_buffers al)) = {p \<in> set (buffers al). b_free (bufs al p)} \<and>
     sorted_wrt (\<lambda>p q. bsize al p \<le> bsize al q) (inorder (free_buffers al))"

definition no_adjacent_free :: "binder_alloc \<Rightarrow> bool" where
  "no_adjacent_free al \<longleftrightarrow> successively (\<lambda>p q. \<not> (b_free (bufs al p) \<and> b_free (bufs al q))) (buffers al)"

definition allocated_tree_ok :: "binder_alloc \<Rightarrow> bool" where
  "allocated_tree_ok al \<longleftrightarrow> inorder (allocated_buffers al) = filter (\<lambda>p. \<not> b_free (bufs al p)) (buffers al)"

definition contents_fit :: "binder_alloc \<Rightarrow> bool" where
  "contents_fit al \<longleftrightarrow> (\<forall>p\<in>set (buffers al). \<not> b_free (bufs al p) \<longrightarrow>
     buffer_used_size (bufs al p) \<le> bsize al p)"

definition alloc_inv :: "binder_alloc \<Rightarrow> bool" where
  "alloc_inv al \<longleftrightarrow> layout_ok al \<and> free_tree_ok al \<and> allocated_tree_ok al \<and> no_adjacent_free al \<and>
     contents_fit al"

lemma alloc_invD:
  assumes "alloc_inv al"
  shows "layout_ok al" "free_tree_ok al" "allocated_tree_ok al" "no_adjacent_free al" "contents_fit al"
  using assms by (auto simp: alloc_inv_def)

lemma layout_distinct:
  assumes "layout_ok al"
  shows "distinct (buffers al)"
proof -
  have "sorted_wrt (\<lambda>p q. addr al p < addr al q) xs \<Longrightarrow> distinct xs" for xs
    by (induction xs) auto
  then show ?thesis using assms by (simp add: layout_ok_def)
qed

lemma layout_split:
  assumes "layout_ok al" "buffers al = us @ p # vs"
  shows "p \<notin> set us" "p \<notin> set vs" "set us \<inter> set vs = {}"
  using layout_distinct [OF assms(1)] assms(2) by auto

lemma bsize_split:
  assumes "buffers al = us @ p # vs" "p \<notin> set us"
  shows "bsize al p = end_of al vs - addr al p"
  unfolding binder_alloc_buffer_size_def binder_buffer_next_def assms(1) list_next_split [OF assms(2)]
  by (cases vs) (simp_all add: end_of_def space_end_def addr_def)

lemma end_of_greater:
  assumes "layout_ok al" "buffers al = us @ p # vs"
  shows "addr al p < end_of al vs"
  using assms by (cases vs) (auto simp: layout_ok_def end_of_def sorted_wrt_append)

lemma bsize_pos: "layout_ok al \<Longrightarrow> p \<in> set (buffers al) \<Longrightarrow> 0 < bsize al p"
proof -
  assume l: "layout_ok al" and "p \<in> set (buffers al)"
  then obtain us vs where s: "buffers al = us @ p # vs" by (auto simp: in_set_conv_decomp)
  show "0 < bsize al p"
    unfolding bsize_split [OF s layout_split(1) [OF l s]] using end_of_greater [OF l s]
    by (simp add: word_gt_0)
qed

text \<open>The size of a buffer depends on the list, the addresses and the space only.\<close>

lemma bsize_cong:
  assumes "buffers al' = buffers al" "\<And>q. addr al' q = addr al q" "buffer al' = buffer al"
    "buffer_size al' = buffer_size al"
  shows "bsize al' p = bsize al p"
  using assms unfolding binder_alloc_buffer_size_def binder_buffer_next_def addr_def by (auto split: option.splits)

section \<open>Inserting into the trees\<close>

lemma free_link_bst:
  assumes "\<forall>q\<in>set (inorder t). b_free (bufs al q)"
  shows "free_link al sz new t = Some (bst_link (\<lambda>q. sz < bsize al q) new t)"
  using assms by (induction t) auto

lemma sorted_mono_test:
  fixes f :: "'a \<Rightarrow> 'b::linorder"
  shows "sorted_wrt (\<lambda>p q. f p \<le> f q) xs \<Longrightarrow> mono_test (\<lambda>q. s < f q) xs"
  unfolding mono_test_def by (rule sorted_wrt_mono_rel) (auto intro: less_le_trans)

text \<open>Linking a free buffer keeps the tree sorted by size and adds exactly that buffer.\<close>

lemma insert_free_buffer:
  assumes rb: "rb_ok rb" and new: "b_free (bufs al new)" "new \<notin> set (inorder (free_buffers al))"
    and free: "\<forall>q\<in>set (inorder (free_buffers al)). b_free (bufs al q)"
    and d: "distinct (inorder (free_buffers al))"
    and srt: "sorted_wrt (\<lambda>p q. bsize al p \<le> bsize al q) (inorder (free_buffers al))"
  obtains t where "binder_insert_free_buffer rb new al = Some (al\<lparr>free_buffers := t\<rparr>)"
    "distinct (inorder t)" "set (inorder t) = insert new (set (inorder (free_buffers al)))"
    "sorted_wrt (\<lambda>p q. bsize al p \<le> bsize al q) (inorder t)"
proof -
  let ?g = "\<lambda>q. bsize al new < bsize al q" and ?xs = "inorder (free_buffers al)"
  let ?t = "rb_insert_color rb new (bst_link ?g new (free_buffers al))"
  have io: "inorder ?t = filter (\<lambda>y. \<not> ?g y) ?xs @ new # filter ?g ?xs"
    using inorder_bst_link [OF sorted_mono_test [OF srt]] rb_okD(1) [OF rb] by simp
  show thesis
  proof (rule that [of ?t])
    show "binder_insert_free_buffer rb new al = Some (al\<lparr>free_buffers := ?t\<rparr>)"
      by (simp add: binder_insert_free_buffer_def new free_link_bst [OF free])
    show "distinct (inorder ?t)" unfolding io using d new by auto
    show "set (inorder ?t) = insert new (set ?xs)" unfolding io by auto
    show "sorted_wrt (\<lambda>p q. bsize al p \<le> bsize al q) (inorder ?t)"
      unfolding io using srt by (auto simp: sorted_wrt_append sorted_wrt_filter not_less)
  qed
qed

lemma allocated_link_bst:
  assumes "\<forall>q\<in>set (inorder t). \<not> b_free (bufs al q) \<and> addr al q \<noteq> a"
  shows "allocated_link al a new t = Some (bst_link (\<lambda>q. a < addr al q) new t)"
  using assms by (induction t) (auto simp: addr_def neq_iff)

lemma strict_mono_test:
  fixes f :: "'a \<Rightarrow> 'b::linorder"
  shows "sorted_wrt (\<lambda>p q. f p < f q) xs \<Longrightarrow> mono_test (\<lambda>q. s < f q) xs"
  unfolding mono_test_def by (rule sorted_wrt_mono_rel) (auto intro: less_trans)

text \<open>An element between its neighbours in a strictly sorted list.\<close>

lemma filter_at_split:
  fixes f :: "'a \<Rightarrow> 'b::linorder"
  assumes "sorted_wrt (\<lambda>p q. f p < f q) (us @ p # vs)"
  shows "filter (\<lambda>q. \<not> f p < f q) us = us" "filter (\<lambda>q. f p < f q) us = []"
    "filter (\<lambda>q. f p < f q) vs = vs" "filter (\<lambda>q. \<not> f p < f q) vs = []"
  using assms by (auto simp: sorted_wrt_append filter_id_conv filter_empty_conv dest: less_asym)

section \<open>Updates that keep addresses and sizes\<close>

lemma addr_upd [simp]:
  "addr (set_buf p b al) q = (if q = p then user_data b else addr al q)"
  "addr (al\<lparr>buffers := xs\<rparr>) q = addr al q" "addr (al\<lparr>free_buffers := t\<rparr>) q = addr al q"
  "addr (al\<lparr>allocated_buffers := t\<rparr>) q = addr al q" "addr (al\<lparr>free_async_space := n\<rparr>) q = addr al q"
  by (simp_all add: addr_def set_buf_def)

lemma set_buf_simps [simp]:
  "buffers (set_buf p b al) = buffers al" "free_buffers (set_buf p b al) = free_buffers al"
  "allocated_buffers (set_buf p b al) = allocated_buffers al" "buffer (set_buf p b al) = buffer al"
  "buffer_size (set_buf p b al) = buffer_size al" "pages (set_buf p b al) = pages al"
  "free_async_space (set_buf p b al) = free_async_space al" "vma (set_buf p b al) = vma al"
  "bufs (set_buf p b al) = (bufs al)(p := b)" "vma_vm_mm (set_buf p b al) = vma_vm_mm al"
  by (simp_all add: set_buf_def)

lemma bsize_upd [simp]:
  "bsize (al\<lparr>free_buffers := t\<rparr>) p = bsize al p" "bsize (al\<lparr>allocated_buffers := t\<rparr>) p = bsize al p"
  "bsize (al\<lparr>free_async_space := n\<rparr>) p = bsize al p"
  by (auto simp: binder_alloc_buffer_size_def binder_buffer_next_def split: option.splits)

lemma bsize_set_buf: "user_data b = addr al q \<Longrightarrow> bsize (set_buf q b al) p = bsize al p"
  by (auto simp: binder_alloc_buffer_size_def binder_buffer_next_def set_buf_def addr_def split: option.splits)

lemma remove1_sorted_wrt: "sorted_wrt R xs \<Longrightarrow> sorted_wrt R (remove1 x xs)"
  by (induction xs) (auto dest: notin_set_remove1 set_remove1_subset [THEN subsetD])

lemma insert_allocated_buffer:
  assumes rb: "rb_ok rb" and nf: "\<not> b_free (bufs al b)"
    and bs: "buffers al = us @ b # vs" and srt: "sorted_wrt (\<lambda>p q. addr al p < addr al q) (buffers al)"
    and io: "inorder (allocated_buffers al) = filter (\<lambda>p. \<not> b_free (bufs al p)) (us @ vs)"
  obtains t where "binder_insert_allocated_buffer_locked rb b al = Some (al\<lparr>allocated_buffers := t\<rparr>)"
    "inorder t = filter (\<lambda>p. \<not> b_free (bufs al p)) (buffers al)"
proof -
  let ?g = "\<lambda>q. addr al b < addr al q" and ?a = "\<lambda>p. \<not> b_free (bufs al p)"
  let ?t = "rb_insert_color rb b (bst_link ?g b (allocated_buffers al))"
  note srt' = srt [unfolded bs]
  have ne: "\<forall>q\<in>set (inorder (allocated_buffers al)). \<not> b_free (bufs al q) \<and> addr al q \<noteq> addr al b"
    unfolding io using srt' by (auto simp: sorted_wrt_append)
  have "sorted_wrt (\<lambda>p q. addr al p < addr al q) (inorder (allocated_buffers al))"
    unfolding io using srt' by (intro sorted_wrt_filter) (auto simp: sorted_wrt_append)
  from inorder_bst_link [OF strict_mono_test [OF this], of "addr al b" b]
  have "inorder ?t = filter (\<lambda>y. \<not> ?g y) (filter ?a (us @ vs)) @ b # filter ?g (filter ?a (us @ vs))"
    by (simp add: rb_okD(1) [OF rb] io)
  also have "\<dots> = filter ?a (filter (\<lambda>y. \<not> ?g y) (us @ vs)) @ b # filter ?a (filter ?g (us @ vs))"
    by (simp add: conj_commute)
  also have "\<dots> = filter ?a us @ b # filter ?a vs"
    using filter_at_split [OF srt'] by simp
  finally have "inorder ?t = filter ?a (buffers al)" using nf by (simp add: bs)
  moreover have "binder_insert_allocated_buffer_locked rb b al = Some (al\<lparr>allocated_buffers := ?t\<rparr>)"
    by (simp add: binder_insert_allocated_buffer_locked_def nf allocated_link_bst [OF ne] flip: addr_def)
  ultimately show thesis by (rule that [rotated])
qed

section \<open>Addresses as numbers\<close>

text \<open>Offsets from the start of the space and sizes as natural numbers: buffers do not wrap around.\<close>

lemma unat_space_end: "space_ok al \<Longrightarrow> unat (space_end al) = unat (buffer al) + unat (buffer_size al)"
  unfolding space_end_def space_ok_def by (subst unat_add_lem [THEN iffD1]) simp_all

lemma layout_addr:
  assumes "layout_ok al" "p \<in> set (buffers al)"
  shows "buffer al \<le> addr al p" "unat (addr al p) < unat (buffer al) + unat (buffer_size al)"
proof -
  have sp: "space_ok al" using assms(1) by (simp add: layout_ok_def)
  obtain q qs where bs: "buffers al = q # qs" "addr al q = buffer al"
    using assms(1) by (cases "buffers al") (auto simp: layout_ok_def)
  then show "buffer al \<le> addr al p"
    using assms by (auto simp: layout_ok_def intro: less_imp_le)
  have "addr al p < space_end al" using assms by (simp add: layout_ok_def)
  then show "unat (addr al p) < unat (buffer al) + unat (buffer_size al)"
    using unat_space_end [OF sp] by (simp add: word_less_nat_alt)
qed

lemma end_of_le:
  assumes "layout_ok al" "buffers al = us @ p # vs"
  shows "unat (end_of al vs) \<le> unat (buffer al) + unat (buffer_size al)"
proof (cases vs)
  case Nil
  then show ?thesis using assms by (simp add: end_of_def unat_space_end layout_ok_def)
next
  case (Cons q qs)
  then show ?thesis using layout_addr(2) [OF assms(1), of q] assms(2) by (simp add: end_of_def)
qed

lemma addr_plus_bsize:
  assumes "layout_ok al" "buffers al = us @ p # vs"
  shows "addr al p + bsize al p = end_of al vs"
    and "unat (addr al p) + unat (bsize al p) = unat (end_of al vs)"
proof -
  have b: "bsize al p = end_of al vs - addr al p"
    by (rule bsize_split [OF assms(2) layout_split(1) [OF assms]])
  then show "addr al p + bsize al p = end_of al vs" by simp
  show "unat (addr al p) + unat (bsize al p) = unat (end_of al vs)"
    using end_of_greater [OF assms] by (simp add: b unat_sub word_less_nat_alt word_le_nat_alt)
qed

lemma same_space_eqs:
  assumes "same_space al al'"
  shows "addr al' p = addr al p" "bsize al' p = bsize al p" "space_end al' = space_end al"
    "space_ok al' = space_ok al" "slot al' a = slot al a"
  using same_spaceD [OF assms]
  by (simp_all add: addr_def space_end_def space_ok_def slot_def binder_alloc_buffer_size_def binder_buffer_next_def
      cong: option.case_cong)

lemma alloc_inv_same_space: "same_space al al' \<Longrightarrow> alloc_inv al \<Longrightarrow> alloc_inv al'"
  using same_spaceD [of al al'] same_space_eqs [of al al']
  by (simp add: alloc_inv_def layout_ok_def free_tree_ok_def allocated_tree_ok_def no_adjacent_free_def
      contents_fit_def)

lemma adjacent_split:
  assumes "no_adjacent_free al" "b_free (bufs al b)" "buffers al = us @ b # vs"
  shows "us \<noteq> [] \<Longrightarrow> \<not> b_free (bufs al (last us))" "vs \<noteq> [] \<Longrightarrow> \<not> b_free (bufs al (hd vs))"
  using assms by (auto simp: no_adjacent_free_def successively_append_iff successively_Cons)

end
