(* ===== verification/Binder_Alloc_New.thy ===== *)
theory Binder_Alloc_New
  imports Binder_Alloc_Inv
begin

text \<open>
  Allocation of a buffer: the best-fit search, splitting, and \<open>binder_alloc_new_buf_locked\<close> as a
  whole, which keeps the allocator's invariant and never hits a \<open>BUG_ON\<close>.
\<close>

section \<open>Best fit\<close>

text \<open>
  The search of the free tree finds the first buffer in size order that is large enough, or any
  buffer of exactly the requested size.
\<close>

lemma best_fit_search:
  assumes "\<forall>q\<in>set (inorder t). b_free (bufs al q)"
    and "sorted_wrt (\<lambda>p q. bsize al p \<le> bsize al q) (inorder t)"
  shows "\<exists>res ex. best_fit_search al sz t best = Some (res, ex) \<and>
    (if \<forall>q\<in>set (inorder t). bsize al q < sz then res = best
     else \<exists>b xs ys. res = Some b \<and> inorder t = xs @ b # ys \<and> sz \<le> bsize al b \<and>
       (bsize al b = sz \<or> (\<forall>x\<in>set xs. bsize al x < sz)))"
  using assms
proof (induction t arbitrary: best)
  case (Node l b r)
  have srt: "sorted_wrt (\<lambda>p q. bsize al p \<le> bsize al q) (inorder l)"
    "sorted_wrt (\<lambda>p q. bsize al p \<le> bsize al q) (inorder r)"
    and lb: "\<forall>q\<in>set (inorder l). bsize al q \<le> bsize al b"
    and br: "\<forall>q\<in>set (inorder r). bsize al b \<le> bsize al q"
    using Node.prems(2) by (auto simp: sorted_wrt_append)
  have fr: "\<forall>q\<in>set (inorder l). b_free (bufs al q)" "\<forall>q\<in>set (inorder r). b_free (bufs al q)"
    "b_free (bufs al b)" using Node.prems(1) by auto
  consider (lt) "sz < bsize al b" | (gt) "bsize al b < sz" | (eq) "bsize al b = sz" by fastforce
  then show ?case
  proof cases
    case lt
    obtain res ex where IH: "best_fit_search al sz l (Some b) = Some (res, ex)"
      "if \<forall>q\<in>set (inorder l). bsize al q < sz then res = Some b
       else \<exists>b xs ys. res = Some b \<and> inorder l = xs @ b # ys \<and> sz \<le> bsize al b \<and>
         (bsize al b = sz \<or> (\<forall>x\<in>set xs. bsize al x < sz))"
      using Node.IH(1) [OF fr(1) srt(1)] by blast
    have "\<exists>b' xs ys. res = Some b' \<and> inorder (Node l b r) = xs @ b' # ys \<and> sz \<le> bsize al b' \<and>
         (bsize al b' = sz \<or> (\<forall>x\<in>set xs. bsize al x < sz))"
    proof (cases "\<forall>q\<in>set (inorder l). bsize al q < sz")
      case True
      with IH(2) lt show ?thesis by (intro exI [of _ b] exI [of _ "inorder l"] exI [of _ "inorder r"]) auto
    next
      case False
      from IH(2) [unfolded if_not_P [OF False]] obtain b' xs ys where "res = Some b'" "inorder l = xs @ b' # ys" "sz \<le> bsize al b'"
        "bsize al b' = sz \<or> (\<forall>x\<in>set xs. bsize al x < sz)" by blast
      then show ?thesis by (intro exI [of _ b'] exI [of _ xs] exI [of _ "ys @ b # inorder r"]) auto
    qed
    then show ?thesis using IH(1) lt fr(3) by auto
  next
    case gt
    obtain res ex where IH: "best_fit_search al sz r best = Some (res, ex)"
      "if \<forall>q\<in>set (inorder r). bsize al q < sz then res = best
       else \<exists>b xs ys. res = Some b \<and> inorder r = xs @ b # ys \<and> sz \<le> bsize al b \<and>
         (bsize al b = sz \<or> (\<forall>x\<in>set xs. bsize al x < sz))"
      using Node.IH(2) [OF fr(2) srt(2)] by blast
    have l: "\<forall>q\<in>set (inorder l). bsize al q < sz" using lb gt by (auto intro: le_less_trans)
    show ?thesis
    proof (cases "\<forall>q\<in>set (inorder r). bsize al q < sz")
      case True
      with IH l gt fr(3) show ?thesis by (auto simp: not_less)
    next
      case False
      from IH(2) [unfolded if_not_P [OF False]] obtain b' xs ys where b': "res = Some b'" "inorder r = xs @ b' # ys" "sz \<le> bsize al b'"
        "bsize al b' = sz \<or> (\<forall>x\<in>set xs. bsize al x < sz)" by blast
      have "\<exists>b' xs ys. res = Some b' \<and> inorder (Node l b r) = xs @ b' # ys \<and> sz \<le> bsize al b' \<and>
         (bsize al b' = sz \<or> (\<forall>x\<in>set xs. bsize al x < sz))"
        using b' l gt by (intro exI [of _ b'] exI [of _ "inorder l @ b # xs"] exI [of _ ys]) auto
      then show ?thesis using IH(1) gt fr(3) False by auto
    qed
  next
    case eq
    then have "best_fit_search al sz (Node l b r) best = Some (Some b, True)" using fr(3) by simp
    moreover have "\<exists>b' xs ys. Some b = Some b' \<and> inorder (Node l b r) = xs @ b' # ys \<and> sz \<le> bsize al b' \<and>
         (bsize al b' = sz \<or> (\<forall>x\<in>set xs. bsize al x < sz))"
      using eq by (intro exI [of _ b] exI [of _ "inorder l"] exI [of _ "inorder r"]) auto
    ultimately show ?thesis using eq by auto
  qed
qed auto

section \<open>Taking a buffer\<close>

text \<open>
  \<open>new_buf_take\<close> on a state whose free tree is in order up to the buffer that is taken out of it:
  the buffer becomes allocated with the given sizes, and both trees are in order.
\<close>

definition taken_buffer :: "binder_buffer \<Rightarrow> u64 \<Rightarrow> u64 \<Rightarrow> u64 \<Rightarrow> bool \<Rightarrow> binder_buffer" where
  "taken_buffer b ds os es is_async = b\<lparr>b_free := False, allow_user_free := False, data_size := ds,
     offsets_size := os, async_transaction := is_async, extra_buffers_size := es\<rparr>"

lemma new_buf_take:
  fixes sz ds os es :: u64 and is_async :: bool
  assumes rb: "rb_ok rb" and lay: "layout_ok al" and ft: "free_tree_ok al" and at: "allocated_tree_ok al"
    and b: "b \<in> set (buffers al)" "b_free (bufs al b)"
  obtains t t' where "new_buf_take rb b sz ds os es is_async al =
      Some (set_buf b (taken_buffer (bufs al b) ds os es is_async)
        (al\<lparr>free_buffers := t, allocated_buffers := t',
            free_async_space := (if is_async then free_async_space al - (sz + sizeof_binder_buffer)
                                 else free_async_space al)\<rparr>))"
    "distinct (inorder t)" "set (inorder t) = set (inorder (free_buffers al)) - {b}"
    "sorted_wrt (\<lambda>p q. bsize al p \<le> bsize al q) (inorder t)"
    "inorder t' = filter (\<lambda>p. p = b \<or> \<not> b_free (bufs al p)) (buffers al)"
proof -
  let ?t = "rb_erase rb b (free_buffers al)"
  let ?al1 = "set_buf b ((bufs al b)\<lparr>b_free := False, allow_user_free := False\<rparr>) (al\<lparr>free_buffers := ?t\<rparr>)"
  obtain us vs where bs: "buffers al = us @ b # vs" using b(1) by (auto simp: in_set_conv_decomp)
  have nb: "b \<notin> set us" "b \<notin> set vs" using layout_split [OF lay bs] by auto
  have eqa: "addr ?al1 q = addr al q" for q by (simp add: addr_def)
  have io: "inorder ?t = remove1 b (inorder (free_buffers al))"
    using rb_okD(2) [OF rb] ft by (simp add: free_tree_ok_def)
  have alloc: "inorder (allocated_buffers ?al1) = filter (\<lambda>p. \<not> b_free (bufs ?al1 p)) (us @ vs)"
  proof -
    have "filter (\<lambda>p. \<not> b_free (bufs ?al1 p)) (us @ vs) = filter (\<lambda>p. \<not> b_free (bufs al p)) (us @ vs)"
      by (rule filter_cong) (use nb in auto)
    then show ?thesis using at b(2) by (simp add: allocated_tree_ok_def bs)
  qed
  have "sorted_wrt (\<lambda>p q. addr ?al1 p < addr ?al1 q) (buffers ?al1)"
    unfolding eqa using lay by (simp add: layout_ok_def)
  then obtain t' where t': "binder_insert_allocated_buffer_locked rb b ?al1 = Some (?al1\<lparr>allocated_buffers := t'\<rparr>)"
    "inorder t' = filter (\<lambda>p. \<not> b_free (bufs ?al1 p)) (buffers ?al1)"
    using insert_allocated_buffer [OF rb _ _ _ alloc] bs by auto
  show thesis
  proof (rule that [of t' ?t])
    show "new_buf_take rb b sz ds os es is_async al =
      Some (set_buf b (taken_buffer (bufs al b) ds os es is_async)
        (al\<lparr>free_buffers := ?t, allocated_buffers := t',
            free_async_space := (if is_async then free_async_space al - (sz + sizeof_binder_buffer)
                                 else free_async_space al)\<rparr>))"
      using t'(1) by (auto simp: new_buf_take_def Let_def taken_buffer_def set_buf_def)
    show "distinct (inorder ?t)" "set (inorder ?t) = set (inorder (free_buffers al)) - {b}"
      "sorted_wrt (\<lambda>p q. bsize al p \<le> bsize al q) (inorder ?t)"
      unfolding io using ft by (auto simp: free_tree_ok_def remove1_sorted_wrt)
    show "inorder t' = filter (\<lambda>p. p = b \<or> \<not> b_free (bufs al p)) (buffers al)"
      unfolding t'(2) by (auto intro!: filter_cong)
  qed
qed

section \<open>Splitting a buffer\<close>

lemma list_next_insert:
  "b \<notin> set us \<Longrightarrow> q \<noteq> b \<Longrightarrow> q \<noteq> new \<Longrightarrow> list_next q (us @ b # new # vs) = list_next q (us @ b # vs)"
proof (induction us)
  case (Cons u us)
  then show ?case by (cases us) auto
qed simp

lemma word_split_point:
  "(0 :: u64) < sz \<Longrightarrow> sz < e - a \<Longrightarrow> a < e \<Longrightarrow> a < a + sz \<and> a + sz < e"
  by uint_arith

text \<open>The list with a new buffer at \<open>sz\<close> bytes after the start of \<open>b\<close>.\<close>

definition cut_buffer :: "ptr list \<Rightarrow> ptr \<Rightarrow> ptr \<Rightarrow> ptr list \<Rightarrow> u64 \<Rightarrow> binder_alloc \<Rightarrow> binder_alloc" where
  "cut_buffer us b new vs sz al =
     (set_buf new (zero_buffer\<lparr>user_data := addr al b + sz, b_free := True\<rparr>) al)\<lparr>buffers := us @ b # new # vs\<rparr>"

lemma cut_buffer_simps [simp]:
  "buffers (cut_buffer us b new vs sz al) = us @ b # new # vs"
  "bufs (cut_buffer us b new vs sz al) = (bufs al)(new := zero_buffer\<lparr>user_data := addr al b + sz, b_free := True\<rparr>)"
  "free_buffers (cut_buffer us b new vs sz al) = free_buffers al"
  "allocated_buffers (cut_buffer us b new vs sz al) = allocated_buffers al"
  "buffer (cut_buffer us b new vs sz al) = buffer al" "buffer_size (cut_buffer us b new vs sz al) = buffer_size al"
  "pages (cut_buffer us b new vs sz al) = pages al"
  "free_async_space (cut_buffer us b new vs sz al) = free_async_space al"
  "vma (cut_buffer us b new vs sz al) = vma al"
  "addr (cut_buffer us b new vs sz al) q = (if q = new then addr al b + sz else addr al q)"
  "space_end (cut_buffer us b new vs sz al) = space_end al"
  by (simp_all add: cut_buffer_def addr_def space_end_def)

lemma cut_buffer_sizes:
  assumes lay: "layout_ok al" and bs: "buffers al = us @ b # vs" and new: "new \<notin> set (buffers al)"
  shows "bsize (cut_buffer us b new vs sz al) b = sz"
    and "bsize (cut_buffer us b new vs sz al) new = bsize al b - sz"
    and "q \<in> set us \<union> set vs \<Longrightarrow> bsize (cut_buffer us b new vs sz al) q = bsize al q"
proof -
  let ?al = "cut_buffer us b new vs sz al"
  have nb: "b \<notin> set us" "b \<notin> set vs" "set us \<inter> set vs = {}" using layout_split [OF lay bs] by auto
  have nn: "new \<notin> set us" "new \<noteq> b" "new \<notin> set vs" using new bs by auto
  have e: "end_of ?al vs = end_of al vs" using nn by (cases vs) (auto simp: end_of_def)
  show "bsize ?al b = sz"
    using bsize_split [of ?al us b "new # vs"] nb nn by (simp add: end_of_def)
  show "bsize ?al new = bsize al b - sz"
  proof -
    have "bsize ?al new = end_of al vs - (addr al b + sz)"
      using bsize_split [of ?al "us @ [b]" new vs] nn by (simp add: e)
    then show ?thesis unfolding bsize_split [OF bs nb(1)] by (simp add: diff_diff_eq)
  qed
  show "bsize ?al q = bsize al q" if "q \<in> set us \<union> set vs"
  proof -
    have q: "q \<noteq> b" "q \<noteq> new" using that nb nn by auto
    have "list_next q (us @ b # vs) \<noteq> Some new"
    proof -
      have "list_next q xs = Some x \<Longrightarrow> x \<in> set xs" for xs x
        by (induction xs) (auto split: if_splits list.splits)
      then show ?thesis using new bs by metis
    qed
    then show ?thesis
      using q unfolding binder_alloc_buffer_size_def binder_buffer_next_def
      by (auto simp: list_next_insert [OF nb(1)] bs split: option.splits)
  qed
qed

lemma cut_buffer_layout:
  assumes lay: "layout_ok al" and bs: "buffers al = us @ b # vs" and new: "new \<notin> set (buffers al)"
    and sz: "0 < sz" "sz < bsize al b"
  shows "layout_ok (cut_buffer us b new vs sz al)"
proof -
  let ?al = "cut_buffer us b new vs sz al"
  note d = layout_split [OF lay bs]
  have p: "addr al b < addr al b + sz" "addr al b + sz < end_of al vs"
    using word_split_point [of sz "end_of al vs" "addr al b"] sz bsize_split [OF bs d(1)] end_of_greater [OF lay bs]
    by auto
  have nn: "new \<notin> set us" "new \<noteq> b" "new \<notin> set vs" using new bs by auto
  have srt: "sorted_wrt (\<lambda>p q. addr al p < addr al q) (us @ b # vs)" using lay bs by (simp add: layout_ok_def)
  have end_le: "end_of al vs \<le> space_end al"
    using lay bs by (cases vs) (auto simp: end_of_def layout_ok_def less_imp_le)
  have before: "addr al x < addr al b + sz" if "x \<in> set us" for x
    using srt that p(1) by (auto simp: sorted_wrt_append intro: less_trans)
  have after: "addr al b + sz < addr al x" if x: "x \<in> set vs" for x
  proof -
    obtain v vs' where vs: "vs = v # vs'" using x by (cases vs) auto
    have "addr al v \<le> addr al x" using srt x by (auto simp: vs sorted_wrt_append)
    with p(2) show ?thesis by (simp add: vs end_of_def)
  qed
  have srt': "sorted_wrt (\<lambda>p q. addr ?al p < addr ?al q) (us @ b # new # vs)"
  proof -
    have "sorted_wrt (\<lambda>p q. addr ?al p < addr ?al q) us = sorted_wrt (\<lambda>p q. addr al p < addr al q) us"
      "sorted_wrt (\<lambda>p q. addr ?al p < addr ?al q) vs = sorted_wrt (\<lambda>p q. addr al p < addr al q) vs"
      by (rule sorted_wrt_eq, use nn in \<open>force\<close>)+
    then show ?thesis using srt nn before after p(1) by (auto simp: sorted_wrt_append)
  qed
  show ?thesis
    unfolding layout_ok_def
    using lay bs nn srt' p end_le
    by (auto simp: layout_ok_def space_ok_def hd_append intro: less_trans less_le_trans split: if_splits)
qed

text \<open>
  The state after a new free buffer has been cut off the end of \<open>b\<close>, before \<open>b\<close> leaves the free tree:
  \<open>b\<close> now has the requested size and still the right place in the tree, because every smaller
  buffer is smaller than the request.
\<close>

lemma cut_buffer_sorted:
  assumes lay: "layout_ok al" and bs: "buffers al = us @ b # vs" and new: "new \<notin> set (buffers al)"
    and ft: "free_tree_ok al" and io: "inorder (free_buffers al) = xs @ b # ys"
    and small: "\<forall>x\<in>set xs. bsize al x < sz" and sz: "sz < bsize al b"
  shows "sorted_wrt (\<lambda>p q. bsize (cut_buffer us b new vs sz al) p \<le> bsize (cut_buffer us b new vs sz al) q)
    (inorder (free_buffers al))"
proof -
  let ?al = "cut_buffer us b new vs sz al"
  note sizes = cut_buffer_sizes [OF lay bs new]
  have srt: "sorted_wrt (\<lambda>p q. bsize al p \<le> bsize al q) (xs @ b # ys)" and d: "distinct (xs @ b # ys)"
    and mem: "set (xs @ b # ys) \<subseteq> set us \<union> {b} \<union> set vs"
    using ft io bs by (auto simp: free_tree_ok_def)
  have same: "bsize ?al x = bsize al x" if "x \<in> set xs \<union> set ys" for x
    using that d mem sizes(3) [of x] by auto
  have "sorted_wrt (\<lambda>p q. bsize ?al p \<le> bsize ?al q) xs" "sorted_wrt (\<lambda>p q. bsize ?al p \<le> bsize ?al q) ys"
  proof -
    have "sorted_wrt (\<lambda>p q. bsize ?al p \<le> bsize ?al q) zs = sorted_wrt (\<lambda>p q. bsize al p \<le> bsize al q) zs"
      if "set zs \<subseteq> set xs \<union> set ys" for zs
      using that same by (intro sorted_wrt_eq) (metis subsetD)
    then show "sorted_wrt (\<lambda>p q. bsize ?al p \<le> bsize ?al q) xs" "sorted_wrt (\<lambda>p q. bsize ?al p \<le> bsize ?al q) ys"
      using srt by (auto simp: sorted_wrt_append)
  qed
  moreover have "bsize ?al x \<le> sz" if "x \<in> set xs" for x using same small that by (auto intro: less_imp_le)
  moreover have "sz \<le> bsize ?al y" if "y \<in> set ys" for y
  proof -
    have "bsize al b \<le> bsize al y" using srt that by (auto simp: sorted_wrt_append)
    then show ?thesis using same that sz by (auto intro: less_imp_le less_le_trans)
  qed
  ultimately show ?thesis unfolding io using sizes(1) by (auto simp: sorted_wrt_append intro: order_trans)
qed

lemma new_buf_split:
  assumes rb: "rb_ok rb" and lay: "layout_ok al" and ft: "free_tree_ok al" and at: "allocated_tree_ok al"
    and bs: "buffers al = us @ b # vs" and new: "new \<notin> set (buffers al)"
    and io: "inorder (free_buffers al) = xs @ b # ys" and small: "\<forall>x\<in>set xs. bsize al x < sz"
    and sz: "0 < sz" "sz < bsize al b"
  obtains t where "new_buf_split rb b new sz al = Some ((cut_buffer us b new vs sz al)\<lparr>free_buffers := t\<rparr>)"
    "layout_ok ((cut_buffer us b new vs sz al)\<lparr>free_buffers := t\<rparr>)"
    "free_tree_ok ((cut_buffer us b new vs sz al)\<lparr>free_buffers := t\<rparr>)"
    "allocated_tree_ok ((cut_buffer us b new vs sz al)\<lparr>free_buffers := t\<rparr>)"
proof -
  let ?al = "cut_buffer us b new vs sz al"
  have nb: "b \<notin> set us" using layout_split [OF lay bs] by auto
  have nn: "new \<notin> set us" "new \<noteq> b" "new \<notin> set vs" using new bs by auto
  have mem: "set (inorder (free_buffers al)) = {p \<in> set (buffers al). b_free (bufs al p)}"
    and d: "distinct (inorder (free_buffers al))" using ft by (auto simp: free_tree_ok_def)
  have eq: "new_buf_split rb b new sz al = binder_insert_free_buffer rb new ?al"
    by (cases al) (use bs in \<open>simp add: new_buf_split_def Let_def cut_buffer_def set_buf_def
        list_insert_after_split [OF nb] addr_def\<close>)
  obtain t where t: "binder_insert_free_buffer rb new ?al = Some (?al\<lparr>free_buffers := t\<rparr>)"
    "distinct (inorder t)" "set (inorder t) = insert new (set (inorder (free_buffers ?al)))"
    "sorted_wrt (\<lambda>p q. bsize ?al p \<le> bsize ?al q) (inorder t)"
  proof (rule insert_free_buffer [OF rb, of ?al new])
    show "\<forall>q\<in>set (inorder (free_buffers ?al)). b_free (bufs ?al q)" using mem by auto
    show "sorted_wrt (\<lambda>p q. bsize ?al p \<le> bsize ?al q) (inorder (free_buffers ?al))"
      using cut_buffer_sorted [OF lay bs new ft io small sz(2)] by simp
    show "new \<notin> set (inorder (free_buffers ?al))" using mem new by auto
  qed (use d in auto)
  show thesis
  proof (rule that [of t])
    show "new_buf_split rb b new sz al = Some (?al\<lparr>free_buffers := t\<rparr>)" using eq t(1) by simp
    show "layout_ok (?al\<lparr>free_buffers := t\<rparr>)"
      using cut_buffer_layout [OF lay bs new sz] by (simp add: layout_ok_def space_ok_def space_end_def)
    show "free_tree_ok (?al\<lparr>free_buffers := t\<rparr>)"
      using t(2-4) mem bs nn by (auto simp: free_tree_ok_def)
    have "filter (\<lambda>p. \<not> b_free (bufs ?al p)) (us @ b # new # vs) = filter (\<lambda>p. \<not> b_free (bufs al p)) (us @ b # vs)"
      using nn by (auto intro!: arg_cong2 [where f = append] filter_cong)
    then show "allocated_tree_ok (?al\<lparr>free_buffers := t\<rparr>)" using at bs by (simp add: allocated_tree_ok_def)
  qed
qed

lemma unat_add_le: "unat (a + b) \<le> unat a + unat (b :: u64)"
  by (simp add: unat_plus_if')

lemma new_buf_pages_range:
  assumes "layout_ok al" "b \<in> set (buffers al)" "sz \<le> bsize al b" "new_buf_pages al b sz = (start, e)"
  shows "page_range al start e"
proof -
  have sp: "space_ok al" using assms(1) by (simp add: layout_ok_def)
  obtain us vs where bs: "buffers al = us @ b # vs" using assms(2) by (auto simp: in_set_conv_decomp)
  note ad = layout_addr [OF assms(1,2)] and en = addr_plus_bsize [OF assms(1) bs] and el = end_of_le [OF assms(1) bs]
  have "unat (addr al b) + unat sz \<le> unat (end_of al vs)" using assms(3) en(2) by (simp add: word_le_nat_alt)
  then have "unat (addr al b + sz) \<le> unat (buffer al) + unat (buffer_size al)"
    using el unat_add_le [of "addr al b" sz] by linarith
  moreover have "start = PAGE_ALIGN (addr al b)" "e \<le> end_of al vs AND PAGE_MASK"
    "e = PAGE_ALIGN (addr al b + sz) \<or> e = end_of al vs AND PAGE_MASK"
    using assms(4) en(1) by (auto simp: new_buf_pages_def Let_def addr_def not_less split: if_splits)
  ultimately show ?thesis
    using page_range_between(2) [OF sp ad(1) less_imp_le [OF ad(2)] el] by blast
qed

section \<open>Allocation\<close>

lemma checked_size_Some:
  assumes "checked_size ds os es = Some n"
  shows "n = ALIGN ds sizeof_ptr + ALIGN os sizeof_ptr + ALIGN es sizeof_ptr"
  using assms by (auto simp: checked_size_def Let_def split: if_splits)

text \<open>Taking a buffer of the right size keeps the rest of the invariant.\<close>

lemma new_buf_take_inv:
  fixes sz ds os es :: u64 and is_async :: bool
  assumes rb: "rb_ok rb" and lay: "layout_ok al" and ft: "free_tree_ok al" and at: "allocated_tree_ok al"
    and b: "b \<in> set (buffers al)" "b_free (bufs al b)"
    and fit: "\<forall>p\<in>set (buffers al). \<not> b_free (bufs al p) \<longrightarrow> buffer_used_size (bufs al p) \<le> bsize al p"
      "ALIGN ds sizeof_ptr + ALIGN os sizeof_ptr + ALIGN es sizeof_ptr \<le> bsize al b"
    and adj: "successively (\<lambda>p q. p = b \<or> q = b \<or> \<not> (b_free (bufs al p) \<and> b_free (bufs al q))) (buffers al)"
  shows "\<exists>al'. new_buf_take rb b sz ds os es is_async al = Some al' \<and> alloc_inv al' \<and>
    buffers al' = buffers al \<and> bufs al' = (bufs al)(b := taken_buffer (bufs al b) ds os es is_async) \<and>
    pages al' = pages al \<and> (\<forall>p. bsize al' p = bsize al p) \<and> buffer al' = buffer al \<and>
    buffer_size al' = buffer_size al \<and> vma al' = vma al \<and>
    free_async_space al' = (if is_async then free_async_space al - (sz + sizeof_binder_buffer)
                            else free_async_space al)"
proof -
  let ?b = "taken_buffer (bufs al b) ds os es is_async"
  obtain t t' where t: "new_buf_take rb b sz ds os es is_async al =
      Some (set_buf b ?b (al\<lparr>free_buffers := t, allocated_buffers := t',
            free_async_space := (if is_async then free_async_space al - (sz + sizeof_binder_buffer)
                                 else free_async_space al)\<rparr>))" (is "_ = Some ?al")
    "distinct (inorder t)" "set (inorder t) = set (inorder (free_buffers al)) - {b}"
    "sorted_wrt (\<lambda>p q. bsize al p \<le> bsize al q) (inorder t)"
    "inorder t' = filter (\<lambda>p. p = b \<or> \<not> b_free (bufs al p)) (buffers al)"
    by (rule new_buf_take [OF rb lay ft at b])
  have ad: "addr ?al p = addr al p" for p by (simp add: addr_def taken_buffer_def)
  have sz: "bsize ?al p = bsize al p" for p by (subst bsize_set_buf) (simp_all add: addr_def taken_buffer_def)
  have fr: "b_free (bufs ?al p) \<longleftrightarrow> p \<noteq> b \<and> b_free (bufs al p)" for p by (simp add: taken_buffer_def)
  have "layout_ok ?al" using lay unfolding layout_ok_def ad by (simp add: space_ok_def space_end_def)
  moreover have "free_tree_ok ?al"
    unfolding free_tree_ok_def sz fr using t(2-4) ft b by (auto simp: free_tree_ok_def)
  moreover have "allocated_tree_ok ?al"
    unfolding allocated_tree_ok_def fr using t(5) by (simp add: disj_commute)
  moreover have "no_adjacent_free ?al"
    unfolding no_adjacent_free_def fr using adj by (auto elim!: successively_mono)
  moreover have "contents_fit ?al"
    unfolding contents_fit_def sz fr using fit b
    by (auto simp: taken_buffer_def buffer_used_size_def)
  ultimately have "alloc_inv ?al" by (simp add: alloc_inv_def)
  then show ?thesis using t(1) sz by (intro exI [of _ ?al]) auto
qed

text \<open>
  What an allocation of \<open>sz\<close> bytes at buffer \<open>b\<close> leaves: \<open>b\<close> was a best fit, keeps its address and has
  exactly the requested size; the rest of a larger buffer is a new free buffer behind it, and
  no other buffer has changed.
\<close>

definition new_buf_post ::
    "alloc_env \<Rightarrow> u64 \<Rightarrow> u64 \<Rightarrow> u64 \<Rightarrow> u64 \<Rightarrow> bool \<Rightarrow> binder_alloc \<Rightarrow> ptr \<Rightarrow> binder_alloc \<Rightarrow> bool" where
  "new_buf_post env sz ds os es is_async al b al' \<longleftrightarrow>
     b \<in> set (buffers al) \<and> b_free (bufs al b) \<and> sz \<le> bsize al b \<and>
     (\<forall>p\<in>set (buffers al). b_free (bufs al p) \<and> sz \<le> bsize al p \<longrightarrow> bsize al b \<le> bsize al p) \<and>
     bufs al' b = taken_buffer (bufs al b) ds os es is_async \<and> bsize al' b = sz \<and>
     (\<forall>p\<in>set (buffers al) - {b}. bufs al' p = bufs al p \<and> bsize al' p = bsize al p) \<and>
     (if bsize al b = sz then buffers al' = buffers al
      else \<exists>us new vs. buffers al = us @ b # vs \<and> buffers al' = us @ b # new # vs \<and>
        kzalloc_buf env = Some new \<and> b_free (bufs al' new) \<and> addr al' new = addr al b + sz) \<and>
     buffer al' = buffer al \<and> buffer_size al' = buffer_size al \<and> vma al' = vma al \<and>
     free_async_space al' = (if is_async then free_async_space al - (sz + sizeof_binder_buffer)
                             else free_async_space al)"

lemma new_buf_exact:
  fixes sz ds os es :: u64 and is_async :: bool
  assumes rb: "rb_ok rb" and inv: "alloc_inv al" and b: "b \<in> set (buffers al)" "b_free (bufs al b)"
    and eq: "bsize al b = sz" and fits: "ALIGN ds sizeof_ptr + ALIGN os sizeof_ptr + ALIGN es sizeof_ptr \<le> sz"
  shows "\<exists>al'. new_buf_take rb b sz ds os es is_async al = Some al' \<and> alloc_inv al' \<and> pages al' = pages al \<and>
    new_buf_post env sz ds os es is_async al b al'"
proof -
  note i = alloc_invD [OF inv]
  have "successively (\<lambda>p q. p = b \<or> q = b \<or> \<not> (b_free (bufs al p) \<and> b_free (bufs al q))) (buffers al)"
    using i(4) by (auto simp: no_adjacent_free_def elim!: successively_mono)
  from new_buf_take_inv [OF rb i(1-3) b _ _ this] i(5) fits eq obtain al' where
    "new_buf_take rb b sz ds os es is_async al = Some al'" "alloc_inv al'" "buffers al' = buffers al"
    "bufs al' = (bufs al)(b := taken_buffer (bufs al b) ds os es is_async)" "pages al' = pages al"
    "\<forall>p. bsize al' p = bsize al p" "buffer al' = buffer al" "buffer_size al' = buffer_size al" "vma al' = vma al"
    "free_async_space al' = (if is_async then free_async_space al - (sz + sizeof_binder_buffer)
                            else free_async_space al)"
    unfolding contents_fit_def by blast
  then show ?thesis using b eq by (auto simp: new_buf_post_def)
qed

lemma new_buf_cut:
  fixes sz ds os es :: u64 and is_async :: bool
  assumes rb: "rb_ok rb" and inv: "alloc_inv al" and bs: "buffers al = us @ b # vs" and fr: "b_free (bufs al b)"
    and new: "kzalloc_buf env = Some new" "new \<notin> set (buffers al)"
    and io: "inorder (free_buffers al) = xs @ b # ys" and small: "\<forall>x\<in>set xs. bsize al x < sz"
    and sz: "0 < sz" "sz < bsize al b"
    and fits: "ALIGN ds sizeof_ptr + ALIGN os sizeof_ptr + ALIGN es sizeof_ptr \<le> sz"
  shows "\<exists>al1 al'. new_buf_split rb b new sz al = Some al1 \<and>
    new_buf_take rb b sz ds os es is_async al1 = Some al' \<and> alloc_inv al' \<and> pages al' = pages al \<and>
    new_buf_post env sz ds os es is_async al b al'"
proof -
  note i = alloc_invD [OF inv]
  let ?c = "cut_buffer us b new vs sz al"
  have nn: "new \<notin> set us" "new \<noteq> b" "new \<notin> set vs" and nb: "b \<notin> set us" "b \<notin> set vs"
    using new bs layout_split [OF i(1) bs] by auto
  note sizes = cut_buffer_sizes [OF i(1) bs new(2), where sz = sz]
  obtain t where t: "new_buf_split rb b new sz al = Some (?c\<lparr>free_buffers := t\<rparr>)"
    "layout_ok (?c\<lparr>free_buffers := t\<rparr>)" "free_tree_ok (?c\<lparr>free_buffers := t\<rparr>)"
    "allocated_tree_ok (?c\<lparr>free_buffers := t\<rparr>)"
    by (rule new_buf_split [OF rb i(1-3) bs new(2) io small sz])
  let ?al = "?c\<lparr>free_buffers := t\<rparr>"
  have fit: "\<forall>p\<in>set (buffers ?al). \<not> b_free (bufs ?al p) \<longrightarrow> buffer_used_size (bufs ?al p) \<le> bsize ?al p"
    using i(5) bs fr nn sizes(3) by (auto simp: contents_fit_def)
  have adj: "successively (\<lambda>p q. p = b \<or> q = b \<or> \<not> (b_free (bufs ?al p) \<and> b_free (bufs ?al q))) (buffers ?al)"
  proof -
    let ?R = "\<lambda>p q. \<not> (b_free (bufs al p) \<and> b_free (bufs al q))"
    let ?S = "\<lambda>p q. p = b \<or> q = b \<or> \<not> (b_free (bufs ?al p) \<and> b_free (bufs ?al q))"
    have R: "successively ?R us" "successively ?R vs"
      using i(4) bs by (auto simp: no_adjacent_free_def successively_append_iff successively_Cons)
    have S: "successively ?S zs" if "successively ?R zs" "new \<notin> set zs" for zs
      using that by (auto elim!: successively_mono)
    have "vs = [] \<or> ?S new (hd vs)"
      using adjacent_split(2) [OF i(4) fr bs] nn by (cases vs) auto
    then show ?thesis
      using S [OF R(1) nn(1)] S [OF R(2) nn(3)] by (auto simp: successively_append_iff successively_Cons)
  qed
  obtain al' where al': "new_buf_take rb b sz ds os es is_async ?al = Some al'" "alloc_inv al'"
    "buffers al' = buffers ?al" "bufs al' = (bufs ?al)(b := taken_buffer (bufs ?al b) ds os es is_async)"
    "pages al' = pages ?al" "\<forall>p. bsize al' p = bsize ?al p" "buffer al' = buffer ?al"
    "buffer_size al' = buffer_size ?al" "vma al' = vma ?al"
    "free_async_space al' = (if is_async then free_async_space ?al - (sz + sizeof_binder_buffer)
                            else free_async_space ?al)"
    using new_buf_take_inv [OF rb t(2-4) _ _ fit _ adj, of ds os es sz is_async] fits fr nn sizes(1) by auto
  have best: "bsize al b \<le> bsize al p" if "p \<in> set (buffers al)" "b_free (bufs al p)" "sz \<le> bsize al p" for p
  proof -
    have "p \<in> set (inorder (free_buffers al))" using that i(2) by (simp add: free_tree_ok_def)
    then have "p = b \<or> p \<in> set ys" using io small that(3) by (auto dest: leD)
    then show ?thesis using i(2) io by (auto simp: free_tree_ok_def sorted_wrt_append)
  qed
  have "addr al' new = addr al b + sz" using nn by (simp add: addr_def al'(4))
  then have "new_buf_post env sz ds os es is_async al b al'"
    unfolding new_buf_post_def
    using al' bs fr sz(2) best sizes nn nb new(1) by (auto simp: less_imp_le)
  then show ?thesis using t(1) al'(1,2,5) by auto
qed

text \<open>
  The whole function: it never hits a \<open>BUG_ON\<close> and never leaves the page array; on an error only
  pages may have changed, and none is in use that was not before; on success the buffer is a
  best fit and its pages are in use.
\<close>

definition pages_within :: "binder_alloc \<Rightarrow> u64 \<Rightarrow> u64 \<Rightarrow> binder_alloc \<Rightarrow> bool" where
  "pages_within al start e al' \<longleftrightarrow>
     (\<forall>j. \<not> (slot al start \<le> j \<and> j < slot al e) \<longrightarrow> pages al' ! j = pages al ! j) \<and>
     length (pages al') = length (pages al)"

lemma new_buf_post_same_space:
  assumes "same_space al al1" "new_buf_post env sz ds os es is_async al1 b al'"
  shows "new_buf_post env sz ds os es is_async al b al'"
  using assms(2)
  unfolding new_buf_post_def same_space_eqs [OF assms(1)] same_spaceD [OF assms(1)] .

text \<open>The part of the function that follows the page set-up.\<close>

definition new_buf_finish ::
    "rb_ops \<Rightarrow> alloc_env \<Rightarrow> u64 \<Rightarrow> u64 \<Rightarrow> ptr \<Rightarrow> u64 \<Rightarrow> u64 \<Rightarrow> u64 \<Rightarrow> u64 \<Rightarrow> bool \<Rightarrow> u64 \<Rightarrow> binder_alloc \<Rightarrow>
     (ptr result \<times> binder_alloc) option" where
  "new_buf_finish rb env start e b sz ds os es is_async bsz al1 =
     (if bsz \<noteq> sz then
        (case kzalloc_buf env of
           None \<Rightarrow> (case binder_update_page_range env False start e al1 of None \<Rightarrow> None
             | Some (_, al2) \<Rightarrow> Some (Inl ENOMEM, al2))
         | Some new \<Rightarrow> (case new_buf_split rb b new sz al1 of None \<Rightarrow> None
             | Some al2 \<Rightarrow> map_option (\<lambda>al3. (Inr b, al3)) (new_buf_take rb b sz ds os es is_async al2)))
      else map_option (\<lambda>al3. (Inr b, al3)) (new_buf_take rb b sz ds os es is_async al1))"

lemma new_buf_finish:
  assumes rb: "rb_ok rb" and inv: "alloc_inv al"
    and fresh: "\<And>new. kzalloc_buf env = Some new \<Longrightarrow> new \<notin> set (buffers al)"
    and io: "inorder (free_buffers al) = xs @ b # ys" and sz: "0 < sz" "sz \<le> bsize al b"
    and small: "bsize al b = sz \<or> (\<forall>x\<in>set xs. bsize al x < sz)"
    and fits: "ALIGN ds sizeof_ptr + ALIGN os sizeof_ptr + ALIGN es sizeof_ptr \<le> sz"
    and range: "page_range al start e"
  shows "(\<exists>al'. new_buf_finish rb env start e b sz ds os es is_async (bsize al b) al = Some (Inl ENOMEM, al') \<and>
      same_space al al' \<and> (\<forall>j. slot al start \<le> j \<and> j < slot al e \<longrightarrow> \<not> in_use (pages al' ! j)) \<and>
      (\<forall>j. \<not> (slot al start \<le> j \<and> j < slot al e) \<longrightarrow> pages al' ! j = pages al ! j)) \<or>
    (\<exists>al'. new_buf_finish rb env start e b sz ds os es is_async (bsize al b) al = Some (Inr b, al') \<and>
      alloc_inv al' \<and> pages al' = pages al \<and> new_buf_post env sz ds os es is_async al b al')"
proof -
  note i = alloc_invD [OF inv]
  have b: "b \<in> set (buffers al)" "b_free (bufs al b)"
    using i(2) io by (auto simp: free_tree_ok_def)
  have sp: "space_ok al" using i(1) by (simp add: layout_ok_def)
  show ?thesis
  proof (cases "bsize al b = sz")
    case True
    then show ?thesis
      using new_buf_exact [OF rb inv b True fits, of is_async env] by (auto simp: new_buf_finish_def)
  next
    case False
    then have lt: "sz < bsize al b" using sz(2) by simp
    show ?thesis
    proof (cases "kzalloc_buf env")
      case None
      obtain r al2 where "binder_update_page_range env False start e al = Some (r, al2)" "same_space al al2"
        "\<forall>j. slot al start \<le> j \<and> j < slot al e \<longrightarrow> \<not> in_use (pages al2 ! j)"
        "\<forall>j. \<not> (slot al start \<le> j \<and> j < slot al e) \<longrightarrow> pages al2 ! j = pages al ! j"
        using update_page_range_free [OF sp range] by blast
      then show ?thesis using False None by (intro disjI1) (simp add: new_buf_finish_def)
    next
      case (Some new)
      obtain us vs where "buffers al = us @ b # vs" using b(1) by (auto simp: in_set_conv_decomp)
      from new_buf_cut [OF rb inv this b(2) Some fresh [OF Some] io _ sz(1) lt fits, of is_async] small False
      show ?thesis using False Some by (intro disjI2) (auto simp: new_buf_finish_def)
    qed
  qed
qed

lemma new_buf_unfold:
  assumes "vma al \<noteq> None" "checked_size ds os es = Some n"
    "\<not> (is_async \<and> free_async_space al < n + sizeof_binder_buffer)"
    "best_fit_search al (max n sizeof_ptr) (free_buffers al) None = Some (Some b, ex)"
    "new_buf_pages al b (max n sizeof_ptr) = (start, e)"
    "binder_update_page_range env True start e al = Some (r, al1)"
  shows "binder_alloc_new_buf_locked rb env ds os es is_async al =
    (case r of Inl err \<Rightarrow> Some (Inl err, al1)
     | Inr _ \<Rightarrow> new_buf_finish rb env start e b (max n sizeof_ptr) ds os es is_async (bsize al b) al1)"
  using assms
  by (auto simp: binder_alloc_new_buf_locked_def binder_alloc_get_vma_def new_buf_finish_def Let_def split: sum.splits)

text \<open>Either one of the checks fails, or there is a best fit.\<close>

lemma new_buf_cases:
  fixes ds os es :: u64
  assumes ft: "free_tree_ok al"
  obtains (early) x where "binder_alloc_new_buf_locked rb env ds os es is_async al = Some (Inl x, al)"
    | (go) n b ex xs ys where "vma al \<noteq> None" "checked_size ds os es = Some n"
      "\<not> (is_async \<and> free_async_space al < n + sizeof_binder_buffer)"
      "best_fit_search al (max n sizeof_ptr) (free_buffers al) None = Some (Some b, ex)"
      "inorder (free_buffers al) = xs @ b # ys" "max n sizeof_ptr \<le> bsize al b"
      "bsize al b = max n sizeof_ptr \<or> (\<forall>x\<in>set xs. bsize al x < max n sizeof_ptr)"
proof (cases "vma al = None \<or> checked_size ds os es = None \<or>
    is_async \<and> free_async_space al < the (checked_size ds os es) + sizeof_binder_buffer")
  case True
  then show thesis
    by (intro early [of "if vma al = None then ESRCH else if checked_size ds os es = None then EINVAL else ENOSPC"])
      (auto simp: binder_alloc_new_buf_locked_def binder_alloc_get_vma_def)
next
  case False
  then obtain n where n: "checked_size ds os es = Some n" "vma al \<noteq> None"
    "\<not> (is_async \<and> free_async_space al < n + sizeof_binder_buffer)" by auto
  have f: "\<forall>q\<in>set (inorder (free_buffers al)). b_free (bufs al q)"
    "sorted_wrt (\<lambda>p q. bsize al p \<le> bsize al q) (inorder (free_buffers al))"
    using ft by (auto simp: free_tree_ok_def)
  let ?sz = "max n sizeof_ptr"
  obtain res ex where s: "best_fit_search al ?sz (free_buffers al) None = Some (res, ex)"
    "if \<forall>q\<in>set (inorder (free_buffers al)). bsize al q < ?sz then res = None
     else \<exists>b xs ys. res = Some b \<and> inorder (free_buffers al) = xs @ b # ys \<and> ?sz \<le> bsize al b \<and>
       (bsize al b = ?sz \<or> (\<forall>x\<in>set xs. bsize al x < ?sz))"
    using best_fit_search [OF f] by blast
  show thesis
  proof (cases res)
    case None
    then show thesis
      using n s(1) by (intro early [of ENOSPC]) (simp add: binder_alloc_new_buf_locked_def binder_alloc_get_vma_def)
  next
    case (Some b)
    with s(2) obtain xs ys where "inorder (free_buffers al) = xs @ b # ys" "?sz \<le> bsize al b"
      "bsize al b = ?sz \<or> (\<forall>x\<in>set xs. bsize al x < ?sz)" by (auto split: if_splits)
    with Some n s(1) show thesis by (intro go [of n b ex xs ys]) auto
  qed
qed

text \<open>The slots that an allocation at some large enough free buffer fetches.\<close>

definition fetched_slot :: "binder_alloc \<Rightarrow> nat \<Rightarrow> bool" where
  "fetched_slot al j \<longleftrightarrow> (\<exists>b sz start e. b \<in> set (buffers al) \<and> b_free (bufs al b) \<and> sz \<le> bsize al b \<and>
     new_buf_pages al b sz = (start, e) \<and> slot al start \<le> j \<and> j < slot al e)"

text \<open>The structure that \<open>kzalloc\<close> returns is not in use.\<close>

definition fresh_buf :: "alloc_env \<Rightarrow> binder_alloc \<Rightarrow> bool" where
  "fresh_buf env al \<longleftrightarrow> (case kzalloc_buf env of None \<Rightarrow> True | Some new \<Rightarrow> new \<notin> set (buffers al))"

lemma new_buf_locked:
  fixes ds os es :: u64
  assumes rb: "rb_ok rb" and inv: "alloc_inv al"
    and fr: "fresh_buf env al"
  obtains (err) e al' where "binder_alloc_new_buf_locked rb env ds os es is_async al = Some (Inl e, al')"
    "same_space al al'" "\<forall>j. in_use (pages al' ! j) \<longrightarrow> in_use (pages al ! j)"
    "\<forall>j. in_use (pages al ! j) \<and> \<not> in_use (pages al' ! j) \<longrightarrow> fetched_slot al j"
  | (ok) n b start e al' where "binder_alloc_new_buf_locked rb env ds os es is_async al = Some (Inr b, al')"
    "checked_size ds os es = Some n" "alloc_inv al'"
    "new_buf_post env (max n sizeof_ptr) ds os es is_async al b al'"
    "new_buf_pages al b (max n sizeof_ptr) = (start, e)" "pages_within al start e al'"
    "\<forall>j. slot al start \<le> j \<and> j < slot al e \<longrightarrow> in_use (pages al' ! j)"
proof -
  have fresh: "\<And>new. kzalloc_buf env = Some new \<Longrightarrow> new \<notin> set (buffers al)"
    using fr by (simp add: fresh_buf_def)
  note i = alloc_invD [OF inv]
  have sp: "space_ok al" using i(1) by (simp add: layout_ok_def)
  show thesis
    using i(2)
  proof (cases rule: new_buf_cases [where rb = rb and env = env and ds = ds and os = os and es = es
        and is_async = is_async])
    case (early x)
    then show ?thesis by (intro err [of x al]) auto
  next
    case (go n b ex xs ys)
    let ?sz = "max n sizeof_ptr"
    have b: "b \<in> set (buffers al)" "b_free (bufs al b)" using go(5) i(2) by (auto simp: free_tree_ok_def)
    obtain start e where se: "new_buf_pages al b ?sz = (start, e)" by (cases "new_buf_pages al b ?sz")
    have range: "page_range al start e" by (rule new_buf_pages_range [OF i(1) b(1) go(6) se])
    have fetched: "fetched_slot al j" if "slot al start \<le> j \<and> j < slot al e" for j
      using that b go(6) se unfolding fetched_slot_def by blast
    obtain r al1 where r: "binder_update_page_range env True start e al = Some (r, al1)" "same_space al al1"
      "\<forall>j. \<not> (slot al start \<le> j \<and> j < slot al e) \<longrightarrow> pages al1 ! j = pages al ! j"
      "r = Inr () \<longrightarrow> (\<forall>j. slot al start \<le> j \<and> j < slot al e \<longrightarrow> in_use (pages al1 ! j))"
      "r \<noteq> Inr () \<longrightarrow> r \<in> {Inl ENOMEM, Inl ESRCH} \<and>
        (\<forall>j. slot al start \<le> j \<and> j < slot al e \<and> in_use (pages al1 ! j) \<longrightarrow> in_use (pages al ! j))"
      using update_page_range_alloc [OF sp range] by blast
    note eq = new_buf_unfold [OF go(1-4) se r(1), of rb]
    note S = same_spaceD [OF r(2)] same_space_eqs [OF r(2)]
    show ?thesis
    proof (cases r)
      case (Inl x)
      from Inl r(3,5) have "\<forall>j. in_use (pages al1 ! j) \<longrightarrow> in_use (pages al ! j)" by (metis sum.distinct(1))
      moreover have "\<forall>j. in_use (pages al ! j) \<and> \<not> in_use (pages al1 ! j) \<longrightarrow> fetched_slot al j"
        using r(3) fetched by metis
      ultimately show ?thesis using eq Inl r(2) by (intro err) auto
    next
      case (Inr u)
      have fits: "ALIGN ds sizeof_ptr + ALIGN os sizeof_ptr + ALIGN es sizeof_ptr \<le> ?sz"
        using checked_size_Some [OF go(2)] by simp
      have pos: "0 < ?sz" by (simp add: sizeof_ptr_def less_max_iff_disj)
      have "page_range al1 start e" using range by (simp add: page_range_def S)
      from new_buf_finish [OF rb alloc_inv_same_space [OF r(2) inv] _ _ pos _ _ fits this, of env xs b ys is_async]
        fresh go(5-7)
      consider (nomem) al' where "new_buf_finish rb env start e b ?sz ds os es is_async (bsize al b) al1 = Some (Inl ENOMEM, al')"
          "same_space al1 al'" "\<forall>j. slot al start \<le> j \<and> j < slot al e \<longrightarrow> \<not> in_use (pages al' ! j)"
          "\<forall>j. \<not> (slot al start \<le> j \<and> j < slot al e) \<longrightarrow> pages al' ! j = pages al1 ! j"
        | (fin) al' where "new_buf_finish rb env start e b ?sz ds os es is_async (bsize al b) al1 = Some (Inr b, al')"
          "alloc_inv al'" "pages al' = pages al1" "new_buf_post env ?sz ds os es is_async al1 b al'"
        unfolding S by auto
      then show ?thesis
      proof cases
        case nomem
        show ?thesis
        proof (rule err [OF _ same_space_trans [OF r(2) nomem(2)]])
          show "binder_alloc_new_buf_locked rb env ds os es is_async al = Some (Inl ENOMEM, al')"
            using eq Inr nomem(1) by simp
          show "\<forall>j. in_use (pages al' ! j) \<longrightarrow> in_use (pages al ! j)" using nomem(3,4) r(3) by metis
          show "\<forall>j. in_use (pages al ! j) \<and> \<not> in_use (pages al' ! j) \<longrightarrow> fetched_slot al j"
            using nomem(4) r(3) fetched by metis
        qed
      next
        case fin
        show ?thesis
        proof (rule ok [OF _ go(2) fin(2) new_buf_post_same_space [OF r(2) fin(4)] se])
          show "binder_alloc_new_buf_locked rb env ds os es is_async al = Some (Inr b, al')" using eq Inr fin(1) by simp
          show "pages_within al start e al'" using r(3) fin(3) S(9) by (simp add: pages_within_def)
          show "\<forall>j. slot al start \<le> j \<and> j < slot al e \<longrightarrow> in_use (pages al' ! j)" using r(4) Inr fin(3) by simp
        qed
      qed
    qed
  qed
qed

end
