(* ===== verification/Binder_Alloc_Free.thy ===== *)
theory Binder_Alloc_Free
  imports Binder_Alloc_New
begin

text \<open>
  Freeing a buffer: the buffer joins its free neighbours, the trees follow, and
  \<open>binder_free_buf_locked\<close> keeps the allocator's invariant without hitting a \<open>BUG_ON\<close>.
\<close>

section \<open>Dropping a boundary\<close>

lemma drop_boundary_sizes:
  assumes lay: "layout_ok al" and bs: "buffers al = us @ y # x # vs"
  shows "bsize (al\<lparr>buffers := us @ y # vs\<rparr>) y = bsize al y + bsize al x"
    and "q \<noteq> x \<Longrightarrow> q \<noteq> y \<Longrightarrow> bsize (al\<lparr>buffers := us @ y # vs\<rparr>) q = bsize al q"
proof -
  let ?al = "al\<lparr>buffers := us @ y # vs\<rparr>"
  have d: "y \<notin> set us" "x \<notin> set us" "x \<noteq> y" using layout_distinct [OF lay] bs by auto
  have e: "end_of ?al vs = end_of al vs" by (cases vs) (simp_all add: end_of_def space_end_def)
  have "bsize ?al y = end_of al vs - addr al y" using bsize_split [of ?al us y vs] d e by simp
  moreover have "bsize al y = addr al x - addr al y" using bsize_split [OF bs] d by (simp add: end_of_def)
  moreover have "bsize al x = end_of al vs - addr al x" using bsize_split [of al "us @ [y]" x vs] bs d by simp
  ultimately show "bsize ?al y = bsize al y + bsize al x" by simp
  show "bsize ?al q = bsize al q" if "q \<noteq> x" "q \<noteq> y"
    unfolding binder_alloc_buffer_size_def binder_buffer_next_def
    using list_next_insert [OF d(1) that(2,1)] bs by (simp split: option.splits)
qed

lemma drop_boundary_layout:
  assumes "layout_ok al" "buffers al = us @ y # x # vs"
  shows "layout_ok (al\<lparr>buffers := us @ y # vs\<rparr>)"
  using assms by (auto simp: layout_ok_def sorted_wrt_append space_ok_def space_end_def hd_append split: if_splits)

section \<open>A state with one buffer outside the trees\<close>

text \<open>
  While \<open>b\<close> is being freed it is marked free but is in neither tree; its neighbours may be free.
\<close>

definition freeing :: "ptr \<Rightarrow> binder_alloc \<Rightarrow> bool" where
  "freeing b al \<longleftrightarrow> layout_ok al \<and> b \<in> set (buffers al) \<and> b_free (bufs al b) \<and>
     allocated_tree_ok al \<and> contents_fit al \<and> distinct (inorder (free_buffers al)) \<and>
     set (inorder (free_buffers al)) = {p \<in> set (buffers al). b_free (bufs al p)} - {b} \<and>
     sorted_wrt (\<lambda>p q. bsize al p \<le> bsize al q) (inorder (free_buffers al)) \<and>
     successively (\<lambda>p q. p = b \<or> q = b \<or> \<not> (b_free (bufs al p) \<and> b_free (bufs al q))) (buffers al)"

lemma freeingD:
  assumes "freeing b al"
  shows "layout_ok al" "b \<in> set (buffers al)" "b_free (bufs al b)" "allocated_tree_ok al" "contents_fit al"
    "distinct (inorder (free_buffers al))"
    "set (inorder (free_buffers al)) = {p \<in> set (buffers al). b_free (bufs al p)} - {b}"
    "sorted_wrt (\<lambda>p q. bsize al p \<le> bsize al q) (inorder (free_buffers al))"
    "successively (\<lambda>p q. p = b \<or> q = b \<or> \<not> (b_free (bufs al p) \<and> b_free (bufs al q))) (buffers al)"
  using assms by (auto simp: freeing_def)

text \<open>\<open>b\<close> absorbs the free buffer after it, or is absorbed by the free buffer before it.\<close>

lemma freeing_drop:
  assumes fr: "freeing b al" and bs: "buffers al = us @ y # x # vs" and yx: "b_free (bufs al y)" "b_free (bufs al x)"
    and b: "b = y \<or> b = x" and rb: "rb_ok rb" and c: "c \<in> {x, y} - {b}"
  shows "freeing y (al\<lparr>buffers := us @ y # vs, free_buffers := rb_erase rb c (free_buffers al)\<rparr>)"
proof -
  note f = freeingD [OF fr]
  let ?al = "al\<lparr>buffers := us @ y # vs, free_buffers := rb_erase rb c (free_buffers al)\<rparr>"
  have d: "x \<noteq> y" "y \<notin> set us" "x \<notin> set us" "y \<notin> set vs" "x \<notin> set vs"
    using layout_distinct [OF f(1)] bs by auto
  have io: "inorder (rb_erase rb c (free_buffers al)) = remove1 c (inorder (free_buffers al))"
    by (rule rb_okD(2) [OF rb f(6)])
  have sz: "bsize ?al q = bsize al q" if "q \<noteq> x" "q \<noteq> y" for q
    using drop_boundary_sizes(2) [OF f(1) bs that] by simp
  have set_t: "set (remove1 c (inorder (free_buffers al))) = {p \<in> set (buffers ?al). b_free (bufs ?al p)} - {y}"
    using f(6,7) bs b c d by auto
  then have notxy: "q \<noteq> x \<and> q \<noteq> y" if "q \<in> set (remove1 c (inorder (free_buffers al)))" for q
    using that d by auto
  have "sorted_wrt (\<lambda>p q. bsize ?al p \<le> bsize ?al q) (remove1 c (inorder (free_buffers al))) =
      sorted_wrt (\<lambda>p q. bsize al p \<le> bsize al q) (remove1 c (inorder (free_buffers al)))"
    using notxy sz by (intro sorted_wrt_eq) metis
  then have srt: "sorted_wrt (\<lambda>p q. bsize ?al p \<le> bsize ?al q) (remove1 c (inorder (free_buffers al)))"
    using remove1_sorted_wrt [OF f(8)] by simp
  have "successively (\<lambda>p q. p = y \<or> q = y \<or> \<not> (b_free (bufs al p) \<and> b_free (bufs al q))) (us @ y # vs)"
  proof -
    let ?P = "\<lambda>p q. p = b \<or> q = b \<or> \<not> (b_free (bufs al p) \<and> b_free (bufs al q))"
    let ?Q = "\<lambda>p q. p = y \<or> q = y \<or> \<not> (b_free (bufs al p) \<and> b_free (bufs al q))"
    have "successively ?P us" "successively ?P vs"
      using f(9) unfolding bs by (auto simp: successively_append_iff successively_Cons)
    moreover have "successively ?Q zs" if "successively ?P zs" "b \<notin> set zs" for zs
      using that by (auto elim!: successively_mono)
    ultimately have "successively ?Q us" "successively ?Q vs" using b d by blast+
    then show ?thesis by (simp add: successively_append_iff successively_Cons)
  qed
  moreover have "layout_ok ?al"
    using drop_boundary_layout [OF f(1) bs] by (simp add: layout_ok_def space_ok_def space_end_def)
  moreover have "allocated_tree_ok ?al" using f(4) yx bs by (simp add: allocated_tree_ok_def)
  moreover have "contents_fit ?al"
  proof -
    have "bsize ?al p = bsize al p" if "p \<in> set us \<union> set vs" for p
      by (rule sz) (use that d in auto)
    then show ?thesis using f(5) yx by (auto simp: contents_fit_def bs)
  qed
  ultimately show ?thesis
    unfolding freeing_def using yx(1) f(6) set_t srt io by simp
qed

section \<open>Deleting and merging\<close>

lemma start_page_nat:
  assumes "layout_ok al" "b \<in> set (buffers al)"
  shows "unat (buffer_start_page al b) = unat (addr al b) div 4096 * 4096"
    and "unat (buffer_start_page al b + PAGE_SIZE) = unat (addr al b) div 4096 * 4096 + 4096"
    and "unat (buffer al) \<le> unat (addr al b) div 4096 * 4096"
    and "unat (addr al b) div 4096 * 4096 + 4096 \<le> unat (buffer al) + unat (buffer_size al)"
proof -
  have sp: "space_ok al" using assms(1) by (simp add: layout_ok_def)
  note ad = layout_addr [OF assms]
  let ?P = "unat (addr al b) div 4096 * 4096" and ?E = "unat (buffer al) + unat (buffer_size al)"
  show P: "unat (buffer_start_page al b) = ?P" by (simp add: buffer_start_page_def unat_page_down addr_def)
  have "4096 dvd unat (buffer al)" "4096 dvd ?E" using sp by (auto simp: space_ok_def)
  then obtain k m where k: "unat (buffer al) = k * 4096" and m: "?E = m * 4096"
    by (metis dvd_div_mult_self)
  have "unat (addr al b) div 4096 < m" using ad(2) m by (simp add: less_mult_imp_div_less)
  then show le: "?P + 4096 \<le> ?E" unfolding m by linarith
  have "?E < 2 ^ 64" using sp by (simp add: space_ok_def)
  then show "unat (buffer_start_page al b + PAGE_SIZE) = ?P + 4096"
    using P le by (subst unat_add_lem [THEN iffD1]) simp_all
  have "k \<le> unat (addr al b) div 4096"
    using ad(1) k by (simp add: word_le_nat_alt less_eq_div_iff_mult_less_eq)
  then show "unat (buffer al) \<le> ?P" unfolding k by simp
qed

lemma start_page_range:
  assumes "layout_ok al" "b \<in> set (buffers al)"
  shows "page_range al (buffer_start_page al b) (buffer_start_page al b + PAGE_SIZE)"
  unfolding page_range_def word_le_nat_alt start_page_nat [OF assms]
  using start_page_nat(3,4) [OF assms] by simp

lemma slot_next_page:
  assumes "layout_ok al" "b \<in> set (buffers al)"
  shows "slot al (buffer_start_page al b + PAGE_SIZE) = slot al (buffer_start_page al b) + 1"
  unfolding slot_def start_page_nat [OF assms] using start_page_nat(3) [OF assms] by simp

text \<open>
  \<open>binder_delete_free_buffer\<close> on a buffer \<open>x\<close> behind a free buffer \<open>y\<close>: the boundary goes, and the page of
  the boundary is given back unless it is shared.
\<close>

definition boundary_shared :: "binder_alloc \<Rightarrow> ptr \<Rightarrow> ptr \<Rightarrow> ptr list \<Rightarrow> bool" where
  "boundary_shared al y x vs \<longleftrightarrow> prev_buffer_end_page al y = buffer_start_page al x \<or>
     (vs \<noteq> [] \<and> buffer_start_page al (hd vs) = buffer_start_page al x) \<or>
     IS_ALIGNED (addr al x) PAGE_SIZE"

lemma delete_free_buffer:
  assumes lay: "layout_ok al" and bs: "buffers al = us @ y # x # vs" and fr: "b_free (bufs al y)"
  obtains al1 where "binder_delete_free_buffer env x al = Some (al1\<lparr>buffers := us @ y # vs\<rparr>)"
    "same_space al al1" "boundary_shared al y x vs \<Longrightarrow> al1 = al"
    "\<not> boundary_shared al y x vs \<Longrightarrow> \<not> in_use (pages al1 ! slot al (buffer_start_page al x)) \<and>
       (\<forall>j. j \<noteq> slot al (buffer_start_page al x) \<longrightarrow> pages al1 ! j = pages al ! j)"
proof -
  have d: "x \<noteq> y" "y \<notin> set us" "x \<notin> set us" "x \<notin> set vs" using layout_distinct [OF lay] bs by auto
  have x: "x \<in> set (buffers al)" using bs by simp
  have sp: "space_ok al" using lay by (simp add: layout_ok_def)
  have nx: "binder_buffer_prev al x = Some y" "binder_buffer_next al x = (case vs of [] \<Rightarrow> None | q # _ \<Rightarrow> Some q)"
    using list_prev_split [of x "us @ [y]" vs] list_next_split [of x "us @ [y]" vs] d bs
    by (auto simp: binder_buffer_prev_def binder_buffer_next_def)
  have del: "list_del x (us @ y # x # vs) = us @ y # vs" using list_del_split [of x "us @ [y]" vs] d by simp
  let ?p = "buffer_start_page al x"
  have sh: "boundary_shared al y x vs \<longleftrightarrow> \<not> (prev_buffer_end_page al y \<noteq> ?p \<and>
      \<not> (case binder_buffer_next al x of None \<Rightarrow> False | Some n \<Rightarrow> buffer_start_page al n = ?p) \<and>
      \<not> IS_ALIGNED (user_data (bufs al x)) PAGE_SIZE)"
    by (cases vs) (auto simp: boundary_shared_def nx addr_def)
  show thesis
  proof (cases "boundary_shared al y x vs")
    case True
    then have "binder_delete_free_buffer env x al = Some (al\<lparr>buffers := us @ y # vs\<rparr>)"
      using sh nx(1) fr del bs unfolding binder_delete_free_buffer_def Let_def by auto
    then show thesis using True that [of al] by simp
  next
    case False
    obtain r al1 where r: "binder_update_page_range env False ?p (?p + PAGE_SIZE) al = Some (r, al1)" "same_space al al1"
      "\<forall>j. slot al ?p \<le> j \<and> j < slot al (?p + PAGE_SIZE) \<longrightarrow> \<not> in_use (pages al1 ! j)"
      "\<forall>j. \<not> (slot al ?p \<le> j \<and> j < slot al (?p + PAGE_SIZE)) \<longrightarrow> pages al1 ! j = pages al ! j"
      using update_page_range_free [OF sp start_page_range [OF lay x]] by blast
    have s: "slot al (?p + PAGE_SIZE) = slot al ?p + 1" by (rule slot_next_page [OF lay x])
    have "binder_delete_free_buffer env x al = Some (al1\<lparr>buffers := us @ y # vs\<rparr>)"
      using False sh nx(1) fr del bs r(1) same_spaceD(3) [OF r(2)]
      unfolding binder_delete_free_buffer_def Let_def by simp
    then show thesis
      by (rule that [OF _ r(2)]) (use False r(3,4) s in \<open>auto\<close>)
  qed
qed

text \<open>The fields that freeing does not change once the buffer has left the tree of allocated buffers.\<close>

definition same_bufs :: "binder_alloc \<Rightarrow> binder_alloc \<Rightarrow> bool" where
  "same_bufs al al' \<longleftrightarrow> bufs al' = bufs al \<and> buffer al' = buffer al \<and> buffer_size al' = buffer_size al \<and>
     vma al' = vma al \<and> free_async_space al' = free_async_space al \<and> length (pages al') = length (pages al) \<and>
     allocated_buffers al' = allocated_buffers al \<and> vma_vm_mm al' = vma_vm_mm al"

text \<open>The page of the boundary before \<open>x\<close> has been given back unless it is shared.\<close>

definition boundary_page :: "binder_alloc \<Rightarrow> ptr \<Rightarrow> ptr \<Rightarrow> ptr list \<Rightarrow> binder_alloc \<Rightarrow> bool" where
  "boundary_page al y x vs al' \<longleftrightarrow>
     (if boundary_shared al y x vs then pages al' = pages al
      else \<not> in_use (pages al' ! slot al (buffer_start_page al x)) \<and>
        (\<forall>j. j \<noteq> slot al (buffer_start_page al x) \<longrightarrow> pages al' ! j = pages al ! j))"

lemma freeing_same_space: "same_space al al' \<Longrightarrow> freeing b al \<Longrightarrow> freeing b al'"
  using same_spaceD [of al al'] same_space_eqs [of al al']
  by (simp add: freeing_def layout_ok_def allocated_tree_ok_def contents_fit_def)

lemma same_space_upd:
  "same_space al al' \<Longrightarrow> same_space (al\<lparr>buffers := xs\<rparr>) (al'\<lparr>buffers := xs\<rparr>)"
  "same_space al al' \<Longrightarrow> same_space (al\<lparr>free_buffers := t\<rparr>) (al'\<lparr>free_buffers := t\<rparr>)"
  unfolding same_space_def by (cases al, cases al', simp)+

lemma tree_list_commute: "al\<lparr>free_buffers := t, buffers := xs\<rparr> = al\<lparr>buffers := xs, free_buffers := t\<rparr>"
  by (cases al) simp

lemma boundary_shared_free_tree [simp]:
  "boundary_shared (al\<lparr>free_buffers := t\<rparr>) y x vs = boundary_shared al y x vs"
  by (simp add: boundary_shared_def prev_buffer_end_page_def buffer_start_page_def)

lemma merge_next:
  assumes rb: "rb_ok rb" and fr: "freeing b al" and bs: "buffers al = us @ b # vs"
  obtains (keep) "merge_next rb env b al = Some al" "vs = [] \<or> \<not> b_free (bufs al (hd vs))"
  | (merge) n vs' al' where "vs = n # vs'" "b_free (bufs al n)" "merge_next rb env b al = Some al'" "freeing b al'"
      "buffers al' = us @ b # vs'" "same_bufs al al'" "boundary_page al b n vs' al'"
proof (cases "vs = [] \<or> \<not> b_free (bufs al (hd vs))")
  case True
  have "merge_next rb env b al = Some al"
    using True list_next_split [of b us vs] layout_split(1) [OF freeingD(1) [OF fr] bs]
    by (cases vs) (auto simp: merge_next_def binder_buffer_next_def bs)
  then show thesis using True keep by blast
next
  case False
  then obtain n vs' where vs: "vs = n # vs'" and n: "b_free (bufs al n)" by (cases vs) auto
  note f = freeingD [OF fr]
  let ?t = "rb_erase rb n (free_buffers al)" and ?xs = "us @ b # vs'"
  let ?X = "al\<lparr>free_buffers := ?t\<rparr>"
  have d: "b \<noteq> n" "b \<notin> set us" using layout_distinct [OF f(1)] bs vs by auto
  have lay: "layout_ok ?X" using f(1) by (simp add: layout_ok_def space_ok_def space_end_def)
  obtain al1 where al1: "binder_delete_free_buffer env n ?X = Some (al1\<lparr>buffers := ?xs\<rparr>)" "same_space ?X al1"
    "boundary_shared ?X b n vs' \<Longrightarrow> al1 = ?X"
    "\<not> boundary_shared ?X b n vs' \<Longrightarrow> \<not> in_use (pages al1 ! slot ?X (buffer_start_page ?X n)) \<and>
       (\<forall>j. j \<noteq> slot ?X (buffer_start_page ?X n) \<longrightarrow> pages al1 ! j = pages ?X ! j)"
    using delete_free_buffer [OF lay, of us b n vs' env] bs vs f(3) by auto
  note S = same_spaceD [OF al1(2)]
  have eq: "merge_next rb env b al = Some (al1\<lparr>buffers := ?xs\<rparr>)"
    using list_next_split [of b us vs] d vs n al1(1) by (simp add: merge_next_def binder_buffer_next_def bs)
  have "freeing b (?X\<lparr>buffers := ?xs\<rparr>)"
    unfolding tree_list_commute
    using freeing_drop [OF fr _ f(3) n disjI1 [OF refl] rb, of us vs' n] bs vs d by simp
  then have "freeing b (al1\<lparr>buffers := ?xs\<rparr>)" by (rule freeing_same_space [OF same_space_upd(1) [OF al1(2)]])
  moreover have "boundary_page al b n vs' (al1\<lparr>buffers := ?xs\<rparr>)"
    using al1(3,4) by (auto simp: boundary_page_def slot_def buffer_start_page_def)
  ultimately show thesis
    using S by (intro merge [OF vs n eq]) (auto simp: same_bufs_def)
qed

lemma merge_prev:
  assumes rb: "rb_ok rb" and fr: "freeing b al" and bs: "buffers al = us @ b # vs"
  obtains (keep) "merge_prev rb env b al = Some (b, al)" "us = [] \<or> \<not> b_free (bufs al (last us))"
  | (merge) us' p al' where "us = us' @ [p]" "b_free (bufs al p)" "merge_prev rb env b al = Some (p, al')" "freeing p al'"
      "buffers al' = us' @ p # vs" "same_bufs al al'" "boundary_page al p b vs al'"
proof (cases "us = [] \<or> \<not> b_free (bufs al (last us))")
  case True
  have "merge_prev rb env b al = Some (b, al)"
    using True list_prev_split [of b us vs] layout_split(1,2) [OF freeingD(1) [OF fr] bs]
    by (auto simp: merge_prev_def binder_buffer_prev_def bs)
  then show thesis using True keep by blast
next
  case False
  then obtain us' p where us: "us = us' @ [p]" and p: "b_free (bufs al p)" by (cases us rule: rev_cases) auto
  note f = freeingD [OF fr]
  let ?xs = "us' @ p # vs"
  have bs': "buffers al = us' @ p # b # vs" using bs us by simp
  have d: "b \<noteq> p" "b \<notin> set us" "b \<notin> set vs" using layout_distinct [OF f(1)] bs us by auto
  obtain al1 where al1: "binder_delete_free_buffer env b al = Some (al1\<lparr>buffers := ?xs\<rparr>)" "same_space al al1"
    "boundary_shared al p b vs \<Longrightarrow> al1 = al"
    "\<not> boundary_shared al p b vs \<Longrightarrow> \<not> in_use (pages al1 ! slot al (buffer_start_page al b)) \<and>
       (\<forall>j. j \<noteq> slot al (buffer_start_page al b) \<longrightarrow> pages al1 ! j = pages al ! j)"
    using delete_free_buffer [OF f(1) bs' p, where env = env] by auto
  note S = same_spaceD [OF al1(2)]
  let ?al = "al1\<lparr>buffers := ?xs, free_buffers := rb_erase rb p (free_buffers al)\<rparr>"
  have eq: "merge_prev rb env b al = Some (p, ?al)"
    using list_prev_split [of b us vs] d us p al1(1) S(5) by (simp add: merge_prev_def binder_buffer_prev_def bs)
  have "freeing p (al\<lparr>buffers := ?xs, free_buffers := rb_erase rb p (free_buffers al)\<rparr>)"
    using freeing_drop [OF fr bs' p f(3) disjI2 [OF refl] rb, of p] d by simp
  then have "freeing p ?al" by (rule freeing_same_space [OF same_space_upd(2) [OF same_space_upd(1) [OF al1(2)]]])
  moreover have "boundary_page al p b vs ?al" using al1(3,4) by (auto simp: boundary_page_def)
  ultimately show thesis
    using S by (intro merge [OF us p eq]) (auto simp: same_bufs_def)
qed

section \<open>\<open>binder_free_buf_locked\<close>\<close>

definition neighbours_allocated :: "binder_alloc \<Rightarrow> ptr list \<Rightarrow> ptr list \<Rightarrow> bool" where
  "neighbours_allocated al us vs \<longleftrightarrow> (us = [] \<or> \<not> b_free (bufs al (last us))) \<and>
     (vs = [] \<or> \<not> b_free (bufs al (hd vs)))"

lemma freeing_insert:
  assumes rb: "rb_ok rb" and fr: "freeing b al" and bs: "buffers al = us @ b # vs" and nb: "neighbours_allocated al us vs"
  shows "\<exists>t. binder_insert_free_buffer rb b al = Some (al\<lparr>free_buffers := t\<rparr>) \<and> alloc_inv (al\<lparr>free_buffers := t\<rparr>)"
proof -
  note f = freeingD [OF fr]
  have d: "b \<notin> set us" "b \<notin> set vs" using layout_split [OF f(1) bs] by auto
  obtain t where t: "binder_insert_free_buffer rb b al = Some (al\<lparr>free_buffers := t\<rparr>)"
    "distinct (inorder t)" "set (inorder t) = insert b (set (inorder (free_buffers al)))"
    "sorted_wrt (\<lambda>p q. bsize al p \<le> bsize al q) (inorder t)"
    by (rule insert_free_buffer [OF rb f(3) _ _ f(6,8)]) (use f(7) in auto)
  let ?al = "al\<lparr>free_buffers := t\<rparr>"
  have "successively (\<lambda>p q. \<not> (b_free (bufs al p) \<and> b_free (bufs al q))) (us @ b # vs)"
  proof -
    let ?P = "\<lambda>p q. p = b \<or> q = b \<or> \<not> (b_free (bufs al p) \<and> b_free (bufs al q))"
    let ?R = "\<lambda>p q. \<not> (b_free (bufs al p) \<and> b_free (bufs al q))"
    have "successively ?P us" "successively ?P vs"
      using f(9) unfolding bs by (auto simp: successively_append_iff successively_Cons)
    moreover have "successively ?R zs" if "successively ?P zs" "b \<notin> set zs" for zs
      using that by (auto elim!: successively_mono)
    ultimately have "successively ?R us" "successively ?R vs" using d by blast+
    then show ?thesis using nb by (auto simp: successively_append_iff successively_Cons neighbours_allocated_def)
  qed
  then have "alloc_inv ?al"
    unfolding alloc_inv_def using f bs t(2-4)
    by (auto simp: layout_ok_def space_ok_def space_end_def free_tree_ok_def allocated_tree_ok_def
        no_adjacent_free_def contents_fit_def)
  then show ?thesis using t(1) by blast
qed

text \<open>The state in which the buffer has left the tree of allocated buffers and its whole pages are given back.\<close>

definition free_buf_start :: "rb_ops \<Rightarrow> alloc_env \<Rightarrow> ptr \<Rightarrow> binder_alloc \<Rightarrow> binder_alloc \<Rightarrow> bool" where
  "free_buf_start rb env b al al4 \<longleftrightarrow>
     (let s = slot al (PAGE_ALIGN (addr al b)); e = slot al ((addr al b + bsize al b) AND PAGE_MASK) in
      binder_free_buf_locked rb env b al =
        (case merge_next rb env b al4 of None \<Rightarrow> None
         | Some al5 \<Rightarrow> (case merge_prev rb env b al5 of None \<Rightarrow> None
             | Some (b', al6) \<Rightarrow> binder_insert_free_buffer rb b' al6)) \<and>
      freeing b al4 \<and> buffers al4 = buffers al \<and> bufs al4 = (bufs al)(b := (bufs al b)\<lparr>b_free := True\<rparr>) \<and>
      buffer al4 = buffer al \<and> buffer_size al4 = buffer_size al \<and> vma al4 = vma al \<and>
      length (pages al4) = length (pages al) \<and>
      free_async_space al4 = free_async_space al +
        (if async_transaction (bufs al b) then buffer_used_size (bufs al b) + sizeof_binder_buffer else 0) \<and>
      (\<forall>j. s \<le> j \<and> j < e \<longrightarrow> \<not> in_use (pages al4 ! j)) \<and>
      (\<forall>j. \<not> (s \<le> j \<and> j < e) \<longrightarrow> pages al4 ! j = pages al ! j))"

lemma freeing_start:
  assumes rb: "rb_ok rb" and inv: "alloc_inv al" and b: "b \<in> set (buffers al)" "\<not> b_free (bufs al b)"
  shows "freeing b (set_buf b ((bufs al b)\<lparr>b_free := True\<rparr>)
    (al\<lparr>allocated_buffers := rb_erase rb b (allocated_buffers al)\<rparr>))"
proof -
  note i = alloc_invD [OF inv]
  let ?al = "set_buf b ((bufs al b)\<lparr>b_free := True\<rparr>) (al\<lparr>allocated_buffers := rb_erase rb b (allocated_buffers al)\<rparr>)"
  obtain us vs where bs: "buffers al = us @ b # vs" using b(1) by (auto simp: in_set_conv_decomp)
  have d: "b \<notin> set us" "b \<notin> set vs" using layout_split [OF i(1) bs] by auto
  have ad: "addr ?al p = addr al p" for p by (simp add: addr_def)
  have sz: "bsize ?al p = bsize al p" for p by (subst bsize_set_buf) (simp_all add: addr_def)
  have "distinct (inorder (allocated_buffers al))"
    using i(3) layout_distinct [OF i(1)] by (simp add: allocated_tree_ok_def)
  then have "inorder (rb_erase rb b (allocated_buffers al)) = remove1 b (inorder (allocated_buffers al))"
    by (rule rb_okD(2) [OF rb])
  also have "\<dots> = filter (\<lambda>p. \<not> b_free (bufs al p)) us @ filter (\<lambda>p. \<not> b_free (bufs al p)) vs"
    using i(3) d b(2) by (simp add: allocated_tree_ok_def bs remove1_append)
  also have "\<dots> = filter (\<lambda>p. \<not> b_free (bufs ?al p)) (us @ b # vs)"
    using d by (auto intro!: arg_cong2 [where f = append] filter_cong)
  finally have "allocated_tree_ok ?al" by (simp add: allocated_tree_ok_def bs)
  moreover have "layout_ok ?al" using i(1) unfolding layout_ok_def ad by (simp add: space_ok_def space_end_def)
  moreover have "contents_fit ?al" using i(5) unfolding contents_fit_def sz by simp
  moreover have "successively (\<lambda>p q. p = b \<or> q = b \<or> \<not> (b_free (bufs ?al p) \<and> b_free (bufs ?al q))) (buffers ?al)"
    using i(4) by (auto simp: no_adjacent_free_def elim!: successively_mono)
  ultimately show ?thesis
    unfolding freeing_def sz using b i(2) by (auto simp: free_tree_ok_def)
qed

lemma free_buf_start:
  assumes rb: "rb_ok rb" and inv: "alloc_inv al" and b: "b \<in> set (buffers al)" "\<not> b_free (bufs al b)"
    and tr: "b_transaction (bufs al b) = None"
  obtains al4 where "free_buf_start rb env b al al4"
proof -
  note i = alloc_invD [OF inv]
  have sp: "space_ok al" using i(1) by (simp add: layout_ok_def)
  obtain us vs where bs: "buffers al = us @ b # vs" using b(1) by (auto simp: in_set_conv_decomp)
  note ad = layout_addr [OF i(1) b(1)] and en = addr_plus_bsize [OF i(1) bs] and el = end_of_le [OF i(1) bs]
  let ?c = "if async_transaction (bufs al b) then buffer_used_size (bufs al b) + sizeof_binder_buffer else 0"
  let ?al1 = "al\<lparr>free_async_space := free_async_space al + ?c\<rparr>"
  let ?s = "PAGE_ALIGN (addr al b)" and ?e = "(addr al b + bsize al b) AND PAGE_MASK"
  have "page_range al ?s ?e"
    unfolding en(1) by (rule page_range_between(1) [OF sp ad(1) less_imp_le [OF ad(2)] el])
  then have "page_range ?al1 ?s ?e" "space_ok ?al1" using sp by (simp_all add: page_range_def space_ok_def)
  then obtain r al2 where r: "binder_update_page_range env False ?s ?e ?al1 = Some (r, al2)" "same_space ?al1 al2"
    "\<forall>j. slot ?al1 ?s \<le> j \<and> j < slot ?al1 ?e \<longrightarrow> \<not> in_use (pages al2 ! j)"
    "\<forall>j. \<not> (slot ?al1 ?s \<le> j \<and> j < slot ?al1 ?e) \<longrightarrow> pages al2 ! j = pages ?al1 ! j"
    using update_page_range_free by blast
  note S = same_spaceD [OF r(2)]
  let ?al4 = "set_buf b ((bufs al b)\<lparr>b_free := True\<rparr>) (al2\<lparr>allocated_buffers := rb_erase rb b (allocated_buffers al2)\<rparr>)"
  have "alloc_inv ?al1"
    using inv by (simp add: alloc_inv_def layout_ok_def space_ok_def space_end_def free_tree_ok_def
        allocated_tree_ok_def no_adjacent_free_def contents_fit_def)
  then have "alloc_inv al2" by (rule alloc_inv_same_space [OF r(2)])
  then have fr: "freeing b ?al4" using freeing_start [OF rb, of al2 b] S b by simp
  have "unat (addr al b) \<le> unat (space_end al)" using ad(2) unat_space_end [OF sp] by simp
  then have chk: "\<not> (b_free (bufs al b) \<or> buffer_used_size (bufs al b) > bsize al b \<or> b_transaction (bufs al b) \<noteq> None \<or>
      user_data (bufs al b) < buffer al \<or> user_data (bufs al b) > buffer al + buffer_size al)"
    using b tr i(5) ad(1) by (auto simp: contents_fit_def addr_def space_end_def word_le_nat_alt word_less_nat_alt)
  have "binder_free_buf_locked rb env b al =
        (case merge_next rb env b ?al4 of None \<Rightarrow> None
         | Some al5 \<Rightarrow> (case merge_prev rb env b al5 of None \<Rightarrow> None
             | Some (b', al6) \<Rightarrow> binder_insert_free_buffer rb b' al6))"
    using chk r(1) S(4) by (auto simp: binder_free_buf_locked_def Let_def addr_def)
  with fr r(3,4) S show thesis
    by (intro that [of ?al4]) (auto simp: free_buf_start_def Let_def slot_def)
qed

text \<open>The buffers after \<open>b\<close> between \<open>us\<close> and \<open>vs\<close> has been freed and merged with its free neighbours.\<close>

definition merged_before :: "binder_alloc \<Rightarrow> ptr list \<Rightarrow> ptr \<Rightarrow> ptr list" where
  "merged_before al us b = (if us \<noteq> [] \<and> b_free (bufs al (last us)) then us else us @ [b])"

definition merged_after :: "binder_alloc \<Rightarrow> ptr list \<Rightarrow> ptr list" where
  "merged_after al vs = (if vs \<noteq> [] \<and> b_free (bufs al (hd vs)) then tl vs else vs)"

lemma freeing_adjacent:
  assumes "freeing b al" "buffers al = us @ b # vs"
  shows "vs = n # vs' \<Longrightarrow> b_free (bufs al n) \<Longrightarrow> vs' = [] \<or> \<not> b_free (bufs al (hd vs'))"
    and "us = us' @ [p] \<Longrightarrow> b_free (bufs al p) \<Longrightarrow> us' = [] \<or> \<not> b_free (bufs al (last us'))"
proof -
  note f = freeingD [OF assms(1)]
  have d: "b \<notin> set us" "b \<notin> set vs" using layout_split [OF f(1) assms(2)] by auto
  show "vs' = [] \<or> \<not> b_free (bufs al (hd vs'))" if "vs = n # vs'" "b_free (bufs al n)"
    using f(9) d that unfolding assms(2) by (cases vs') (auto simp: successively_append_iff successively_Cons)
  show "us' = [] \<or> \<not> b_free (bufs al (last us'))" if "us = us' @ [p]" "b_free (bufs al p)"
    using f(9) d that unfolding assms(2)
    by (cases us' rule: rev_cases) (auto simp: successively_append_iff successively_Cons)
qed

text \<open>Merging with the neighbours and linking the result into the free tree.\<close>

lemma merge_all:
  assumes rb: "rb_ok rb" and fr: "freeing b al" and bs: "buffers al = us @ b # vs"
  obtains al5 al6 b' t where "merge_next rb env b al = Some al5" "merge_prev rb env b al5 = Some (b', al6)"
    "binder_insert_free_buffer rb b' al6 = Some (al6\<lparr>free_buffers := t\<rparr>)" "alloc_inv (al6\<lparr>free_buffers := t\<rparr>)"
    "buffers al6 = merged_before al us b @ merged_after al vs" "same_bufs al al5" "same_bufs al al6"
    "if vs \<noteq> [] \<and> b_free (bufs al (hd vs)) then boundary_page al b (hd vs) (tl vs) al5 else pages al5 = pages al"
    "if us \<noteq> [] \<and> b_free (bufs al (last us)) then boundary_page al5 (last us) b (merged_after al vs) al6
     else pages al6 = pages al5"
proof -
  let ?vs = "merged_after al vs"
  obtain al5 where al5: "merge_next rb env b al = Some al5" "freeing b al5" "buffers al5 = us @ b # ?vs" "same_bufs al al5"
    "if vs \<noteq> [] \<and> b_free (bufs al (hd vs)) then boundary_page al b (hd vs) (tl vs) al5 else pages al5 = pages al"
    "?vs = [] \<or> \<not> b_free (bufs al (hd ?vs))"
    using rb fr bs
  proof (cases rule: merge_next [where env = env])
    case keep
    then show thesis using fr bs by (intro that [of al]) (auto simp: same_bufs_def merged_after_def)
  next
    case (merge n vs' al')
    then show thesis
      using freeing_adjacent(1) [OF fr bs] by (intro that [of al']) (auto simp: merged_after_def)
  qed
  have eq5: "bufs al5 = bufs al" using al5(4) by (simp add: same_bufs_def)
  show thesis
    using rb al5(2,3)
  proof (cases rule: merge_prev [where env = env])
    case keep
    then have "neighbours_allocated al5 us ?vs" using al5(6) eq5 by (simp add: neighbours_allocated_def)
    from freeing_insert [OF rb al5(2,3) this] obtain t where
      "binder_insert_free_buffer rb b al5 = Some (al5\<lparr>free_buffers := t\<rparr>)" "alloc_inv (al5\<lparr>free_buffers := t\<rparr>)" by blast
    with keep al5 eq5 show thesis
      by (intro that [of al5 b al5 t]) (auto simp: merged_before_def)
  next
    case (merge us' p al')
    have "neighbours_allocated al' us' ?vs"
      using freeing_adjacent(2) [OF al5(2,3) merge(1,2)] al5(6) merge(6) eq5
      by (simp add: neighbours_allocated_def same_bufs_def)
    from freeing_insert [OF rb merge(4,5) this] obtain t where
      "binder_insert_free_buffer rb p al' = Some (al'\<lparr>free_buffers := t\<rparr>)" "alloc_inv (al'\<lparr>free_buffers := t\<rparr>)" by blast
    with merge al5 eq5 show thesis
      by (intro that [of al5 p al' t]) (auto simp: merged_before_def same_bufs_def)
  qed
qed

lemma free_buf_locked:
  assumes rb: "rb_ok rb" and inv: "alloc_inv al" and bs: "buffers al = us @ b # vs" and nf: "\<not> b_free (bufs al b)"
    and tr: "b_transaction (bufs al b) = None"
  obtains al4 al5 al' where "binder_free_buf_locked rb env b al = Some al'" "alloc_inv al'"
    "buffers al' = merged_before al us b @ merged_after al vs"
    "bufs al' = (bufs al)(b := (bufs al b)\<lparr>b_free := True\<rparr>)"
    "buffer al' = buffer al" "buffer_size al' = buffer_size al" "vma al' = vma al"
    "free_async_space al' = free_async_space al +
       (if async_transaction (bufs al b) then buffer_used_size (bufs al b) + sizeof_binder_buffer else 0)"
    "free_buf_start rb env b al al4" "length (pages al') = length (pages al)" "same_bufs al4 al5"
    "if vs \<noteq> [] \<and> b_free (bufs al (hd vs)) then boundary_page al4 b (hd vs) (tl vs) al5 else pages al5 = pages al4"
    "if us \<noteq> [] \<and> b_free (bufs al (last us)) then boundary_page al5 (last us) b (merged_after al vs) al'
     else pages al' = pages al5"
proof -
  have b: "b \<in> set (buffers al)" using bs by simp
  have d: "b \<notin> set us" "b \<notin> set vs" using layout_split [OF alloc_invD(1) [OF inv] bs] by auto
  obtain al4 where al4: "free_buf_start rb env b al al4" by (rule free_buf_start [OF rb inv b nf tr])
  note F = al4 [unfolded free_buf_start_def Let_def]
  have bs4: "buffers al4 = us @ b # vs" and bu: "bufs al4 = (bufs al)(b := (bufs al b)\<lparr>b_free := True\<rparr>)"
    using F bs by simp_all
  have eq: "merged_before al4 us b = merged_before al us b" "merged_after al4 vs = merged_after al vs"
    "(us \<noteq> [] \<and> b_free (bufs al4 (last us))) = (us \<noteq> [] \<and> b_free (bufs al (last us)))"
    "(vs \<noteq> [] \<and> b_free (bufs al4 (hd vs))) = (vs \<noteq> [] \<and> b_free (bufs al (hd vs)))"
    unfolding merged_before_def merged_after_def bu using d by (auto dest: last_in_set hd_in_set)
  have "freeing b al4" using F by blast
  then obtain al5 al6 b' t where m: "merge_next rb env b al4 = Some al5" "merge_prev rb env b al5 = Some (b', al6)"
    "binder_insert_free_buffer rb b' al6 = Some (al6\<lparr>free_buffers := t\<rparr>)" "alloc_inv (al6\<lparr>free_buffers := t\<rparr>)"
    "buffers al6 = merged_before al4 us b @ merged_after al4 vs" "same_bufs al4 al5" "same_bufs al4 al6"
    "if vs \<noteq> [] \<and> b_free (bufs al4 (hd vs)) then boundary_page al4 b (hd vs) (tl vs) al5 else pages al5 = pages al4"
    "if us \<noteq> [] \<and> b_free (bufs al4 (last us)) then boundary_page al5 (last us) b (merged_after al4 vs) al6
     else pages al6 = pages al5"
    using merge_all [OF rb _ bs4, where env = env] by metis
  have "binder_free_buf_locked rb env b al = Some (al6\<lparr>free_buffers := t\<rparr>)" using F m(1-3) by simp
  then show thesis
  proof (rule that [OF _ m(4) _ _ _ _ _ _ al4 _ m(6)])
    show "if us \<noteq> [] \<and> b_free (bufs al (last us))
      then boundary_page al5 (last us) b (merged_after al vs) (al6\<lparr>free_buffers := t\<rparr>)
      else pages (al6\<lparr>free_buffers := t\<rparr>) = pages al5"
      using m(9) unfolding eq boundary_page_def by (simp split: if_splits)
    show "if vs \<noteq> [] \<and> b_free (bufs al (hd vs)) then boundary_page al4 b (hd vs) (tl vs) al5 else pages al5 = pages al4"
      using m(8) unfolding eq .
  qed (use F m(5,7) eq in \<open>simp_all add: same_bufs_def\<close>)
qed

end
