(* ===== verification/Binder_Alloc_Cover.thy ===== *)
theory Binder_Alloc_Cover
  imports Binder_Alloc_Free
begin

text \<open>
  The pages under the buffers: a page of the space is in use (present and not given up to the LRU list)
  exactly when an allocated buffer overlaps it. Allocation, failing or not, and freeing keep this.
\<close>

section \<open>Offsets\<close>

definition off :: "binder_alloc \<Rightarrow> ptr \<Rightarrow> nat" where
  "off al p = unat (addr al p) - unat (buffer al)"

definition eoff :: "binder_alloc \<Rightarrow> ptr list \<Rightarrow> nat" where
  "eoff al vs = (case vs of [] \<Rightarrow> unat (buffer_size al) | q # _ \<Rightarrow> off al q)"

definition blen :: "binder_alloc \<Rightarrow> ptr \<Rightarrow> nat" where
  "blen al p = unat (bsize al p)"

definition overlaps :: "binder_alloc \<Rightarrow> ptr \<Rightarrow> nat \<Rightarrow> bool" where
  "overlaps al p i \<longleftrightarrow> off al p < 4096 * i + 4096 \<and> 4096 * i < off al p + blen al p"

definition covered :: "binder_alloc \<Rightarrow> nat \<Rightarrow> bool" where
  "covered al i \<longleftrightarrow> (\<exists>p\<in>set (buffers al). \<not> b_free (bufs al p) \<and> overlaps al p i)"

definition pages_inv :: "binder_alloc \<Rightarrow> bool" where
  "pages_inv al \<longleftrightarrow> (\<forall>i<length (pages al). in_use (pages al ! i) \<longleftrightarrow> covered al i)"

lemma unat_addr_off: "layout_ok al \<Longrightarrow> p \<in> set (buffers al) \<Longrightarrow> unat (addr al p) = unat (buffer al) + off al p"
  using layout_addr(1) by (simp add: off_def word_le_nat_alt)

lemma off_split:
  assumes lay: "layout_ok al" and bs: "buffers al = us @ p # vs"
  shows "off al p + blen al p = eoff al vs" and "0 < blen al p" and "eoff al vs \<le> unat (buffer_size al)"
proof -
  have p: "p \<in> set (buffers al)" using bs by simp
  have e: "unat (end_of al vs) = unat (buffer al) + eoff al vs"
  proof (cases vs)
    case Nil
    then show ?thesis using lay by (simp add: end_of_def eoff_def unat_space_end layout_ok_def)
  next
    case (Cons q qs)
    then show ?thesis using unat_addr_off [OF lay, of q] bs by (simp add: end_of_def eoff_def)
  qed
  show "off al p + blen al p = eoff al vs"
    using addr_plus_bsize(2) [OF lay bs] unat_addr_off [OF lay p] e by (simp add: blen_def)
  show "0 < blen al p" using bsize_pos [OF lay p] by (simp add: blen_def unat_gt_0 word_gt_0)
  show "eoff al vs \<le> unat (buffer_size al)" using end_of_le [OF lay bs] e by simp
qed

lemma off_mono:
  assumes lay: "layout_ok al" and bs: "buffers al = us @ p # vs"
  shows "q \<in> set us \<Longrightarrow> off al q + blen al q \<le> off al p"
    and "q \<in> set vs \<Longrightarrow> eoff al vs \<le> off al q"
proof -
  have srt: "sorted_wrt (\<lambda>p q. addr al p < addr al q) (us @ p # vs)" using lay bs by (simp add: layout_ok_def)
  have mono: "addr al x < addr al y \<Longrightarrow> off al x \<le> off al y" for x y
    by (simp add: off_def word_less_nat_alt)
  show "off al q + blen al q \<le> off al p" if q: "q \<in> set us"
  proof -
    obtain us1 us2 where us: "us = us1 @ q # us2" using q by (auto simp: in_set_conv_decomp)
    have "off al q + blen al q = eoff al (us2 @ p # vs)"
      using off_split(1) [OF lay, of us1 q "us2 @ p # vs"] bs us by simp
    also have "\<dots> \<le> off al p" using srt mono by (cases us2) (auto simp: eoff_def us sorted_wrt_append)
    finally show ?thesis .
  qed
  show "eoff al vs \<le> off al q" if "q \<in> set vs"
    using that srt mono by (cases vs) (auto simp: eoff_def sorted_wrt_append)
qed

section \<open>Slots in terms of offsets\<close>

lemma buffer_div: "layout_ok al \<Longrightarrow> \<exists>k. unat (buffer al) = k * 4096"
  by (metis dvd_div_mult_self layout_ok_def space_ok_def)

lemma slot_at: "unat a = unat (buffer al) + n \<Longrightarrow> slot al a = n div 4096"
  by (simp add: slot_def)

lemma slot_PAGE_ALIGN:
  assumes lay: "layout_ok al" and a: "unat a = unat (buffer al) + n" "n \<le> unat (buffer_size al)"
  shows "slot al (PAGE_ALIGN a) = (n + 4095) div 4096"
proof -
  obtain k where k: "unat (buffer al) = k * 4096" using buffer_div [OF lay] by blast
  have "unat (PAGE_ALIGN a) = (unat a + 4095) div 4096 * 4096"
    using lay a by (intro unat_PAGE_ALIGN space_end_bound) (auto simp: layout_ok_def)
  also have "\<dots> = unat (buffer al) + (n + 4095) div 4096 * 4096"
    using a(1) k by (simp add: add.assoc distrib_right)
  finally show ?thesis using slot_at by fastforce
qed

lemma slot_page_down:
  assumes lay: "layout_ok al" and a: "unat a = unat (buffer al) + n"
  shows "slot al (a AND PAGE_MASK) = n div 4096"
    and "unat (a AND PAGE_MASK) = unat (buffer al) + n div 4096 * 4096"
proof -
  obtain k where k: "unat (buffer al) = k * 4096" using buffer_div [OF lay] by blast
  show u: "unat (a AND PAGE_MASK) = unat (buffer al) + n div 4096 * 4096"
    using a k by (simp add: unat_page_down distrib_right)
  show "slot al (a AND PAGE_MASK) = n div 4096" using slot_at [OF u] by simp
qed

lemma slot_start_page:
  "layout_ok al \<Longrightarrow> p \<in> set (buffers al) \<Longrightarrow> slot al (buffer_start_page al p) = off al p div 4096"
  using slot_page_down(1) [OF _ unat_addr_off] by (simp add: buffer_start_page_def addr_def)

text \<open>When the page of a boundary is shared, in offsets.\<close>

lemma same_page_iff:
  assumes lay: "layout_ok al" and "unat a = unat (buffer al) + m" "unat c = unat (buffer al) + n"
  shows "a AND PAGE_MASK = c AND PAGE_MASK \<longleftrightarrow> m div 4096 = n div 4096"
proof -
  have "a AND PAGE_MASK = c AND PAGE_MASK \<longleftrightarrow> unat (a AND PAGE_MASK) = unat (c AND PAGE_MASK)"
    by (simp add: word_unat_eq_iff)
  also have "\<dots> \<longleftrightarrow> m div 4096 = n div 4096"
    unfolding slot_page_down(2) [OF lay assms(2)] slot_page_down(2) [OF lay assms(3)] by simp
  finally show ?thesis .
qed

lemma prev_end_page_iff:
  assumes lay: "layout_ok al" and y: "y \<in> set (buffers al)" and x: "x \<in> set (buffers al)"
  shows "prev_buffer_end_page al y = buffer_start_page al x \<longleftrightarrow>
    0 < off al y \<and> (off al y - 1) div 4096 = off al x div 4096"
proof (cases "0 < off al y")
  case True
  have "addr al y \<noteq> 0" using True by (auto simp: off_def)
  then have "unat (addr al y - 1) = unat (buffer al) + (off al y - 1)"
    using True unat_addr_off [OF lay y] by (simp add: unat_minus_one)
  from same_page_iff [OF lay this unat_addr_off [OF lay x]] True show ?thesis
    by (simp add: prev_buffer_end_page_def buffer_start_page_def addr_def)
next
  case False
  have P: "unat (buffer_start_page al x) = unat (addr al x) div 4096 * 4096"
    "unat (buffer al) \<le> unat (addr al x) div 4096 * 4096"
    "unat (addr al x) div 4096 * 4096 + 4096 \<le> unat (buffer al) + unat (buffer_size al)"
    by (rule start_page_nat [OF lay x])+
  have sp: "unat (buffer al) + unat (buffer_size al) < 2 ^ 64" using lay by (simp add: layout_ok_def space_ok_def)
  have b: "addr al y = buffer al" using False unat_addr_off [OF lay y] by (simp add: word_unat_eq_iff)
  have "unat (prev_buffer_end_page al y) \<noteq> unat (buffer_start_page al x)"
  proof (cases "buffer al = 0")
    case True
    have "unat (prev_buffer_end_page al y) = 18446744073709547520"
      using True b unat_page_down [of "-1"]
      by (simp add: prev_buffer_end_page_def addr_def unsigned_minus_1_eq_mask mask_eq_exp_minus_1)
    then show ?thesis using P sp True by simp
  next
    case nz: False
    have "unat (prev_buffer_end_page al y) \<le> unat (buffer al) - 1"
      using b nz by (simp add: prev_buffer_end_page_def addr_def unat_page_down unat_minus_one)
    moreover have "0 < unat (buffer al)" using nz by (simp add: unat_gt_0)
    ultimately show ?thesis using P by linarith
  qed
  then show ?thesis using False by auto
qed

lemma boundary_shared_iff:
  assumes lay: "layout_ok al" and y: "y \<in> set (buffers al)" and x: "x \<in> set (buffers al)"
    and vs: "set vs \<subseteq> set (buffers al)"
  shows "boundary_shared al y x vs \<longleftrightarrow> 0 < off al y \<and> (off al y - 1) div 4096 = off al x div 4096 \<or>
    (vs \<noteq> [] \<and> off al (hd vs) div 4096 = off al x div 4096) \<or> 4096 dvd off al x"
proof -
  have n: "vs \<noteq> [] \<Longrightarrow> buffer_start_page al (hd vs) = buffer_start_page al x \<longleftrightarrow>
      off al (hd vs) div 4096 = off al x div 4096"
    using same_page_iff [OF lay unat_addr_off [OF lay] unat_addr_off [OF lay x], of "hd vs"] vs hd_in_set
    by (simp add: buffer_start_page_def addr_def subset_iff)
  have "IS_ALIGNED (addr al x) PAGE_SIZE \<longleftrightarrow> 4096 dvd unat (addr al x)"
    using page_offset_zero [of "addr al x"] by (simp add: IS_ALIGNED_def PAGE_MASK_def)
  also have "\<dots> \<longleftrightarrow> 4096 dvd off al x"
    using buffer_div [OF lay] unat_addr_off [OF lay x] by (auto simp: dvd_add_right_iff)
  finally show ?thesis unfolding boundary_shared_def prev_end_page_iff [OF lay y x] using n by auto
qed

section \<open>Allocation\<close>

text \<open>Buffers that touch the same page from the left and from the right.\<close>

lemma overlaps_last:
  assumes "layout_ok al" "buffers al = us @ b # vs" "us \<noteq> []" "4096 * i < off al b" "off al b < 4096 * i + 4096"
  shows "overlaps al (last us) i"
proof -
  obtain us' l where us: "us = us' @ [l]" using assms(3) by (cases us rule: rev_cases) auto
  have "off al l + blen al l = off al b" "0 < blen al l"
    using off_split [OF assms(1), of us' l "b # vs"] assms(2) us by (auto simp: eoff_def)
  then show ?thesis using assms(4,5) us by (simp add: overlaps_def)
qed

lemma overlaps_next:
  assumes "layout_ok al" "buffers al = us @ q # vs" "4096 * i \<le> off al q" "off al q < 4096 * i + 4096"
  shows "overlaps al q i"
  using assms off_split(2) [OF assms(1,2)] by (simp add: overlaps_def)

lemma off_first: "layout_ok al \<Longrightarrow> buffers al = b # vs \<Longrightarrow> off al b = 0"
  by (simp add: layout_ok_def off_def)

lemma page_aligned_end:
  assumes "layout_ok al" "eoff al vs div 4096 \<le> i" "4096 * i < eoff al vs"
  shows "vs \<noteq> []"
proof
  assume "vs = []"
  then have "4096 dvd eoff al vs" using assms(1) by (simp add: eoff_def layout_ok_def space_ok_def)
  then show False using assms(2,3) by auto
qed

text \<open>
  An allocation of \<open>s\<close> bytes at \<open>b\<close>: the slots it fetches are slots it overlaps, and the other slots it
  overlaps are shared with an allocated neighbour.
\<close>

lemma new_buf_slots:
  assumes lay: "layout_ok al" and adj: "no_adjacent_free al" and bs: "buffers al = us @ b # vs"
    and fr: "b_free (bufs al b)" and s: "s \<le> blen al b" "0 < s"
  defines "lo \<equiv> (off al b + 4095) div 4096"
    and "hi \<equiv> min ((off al b + s + 4095) div 4096) (eoff al vs div 4096)"
  shows "lo \<le> i \<and> i < hi \<Longrightarrow> off al b < 4096 * i + 4096 \<and> 4096 * i < off al b + s"
    and "\<not> (lo \<le> i \<and> i < hi) \<Longrightarrow> off al b < 4096 * i + 4096 \<Longrightarrow> 4096 * i < off al b + s \<Longrightarrow> covered al i"
proof -
  let ?x = "off al b"
  show "?x < 4096 * i + 4096 \<and> 4096 * i < ?x + s" if "lo \<le> i \<and> i < hi"
    using that unfolding lo_def hi_def by linarith
  show "covered al i" if out: "\<not> (lo \<le> i \<and> i < hi)" and o: "?x < 4096 * i + 4096" "4096 * i < ?x + s"
  proof (cases "lo \<le> i")
    case False
    then have lt: "4096 * i < ?x" unfolding lo_def by linarith
    then have us: "us \<noteq> []" using off_first [OF lay] bs by (cases us) auto
    have "\<not> b_free (bufs al (last us))" by (rule adjacent_split(1) [OF adj fr bs us])
    then show ?thesis
      using overlaps_last [OF lay bs us lt o(1)] us bs by (force simp: covered_def)
  next
    case True
    have e: "?x + blen al b = eoff al vs" by (rule off_split(1) [OF lay bs])
    have "i < (?x + s + 4095) div 4096" using o(2) by linarith
    with out True have ge: "eoff al vs div 4096 \<le> i" unfolding hi_def by simp
    have lt: "4096 * i < eoff al vs" using o(2) s(1) e by simp
    obtain q vs' where vs: "vs = q # vs'" using page_aligned_end [OF lay ge lt] by (cases vs) auto
    have "\<not> b_free (bufs al q)" using adjacent_split(2) [OF adj fr bs] vs by simp
    moreover have "overlaps al q i"
      using overlaps_next [OF lay, of "us @ [b]" q vs' i] bs vs ge lt by (simp add: eoff_def)
    ultimately show ?thesis using bs vs by (auto simp: covered_def)
  qed
qed

lemma new_buf_pages_slots:
  assumes lay: "layout_ok al" and bs: "buffers al = us @ b # vs" and sz: "sz \<le> bsize al b"
    and se: "new_buf_pages al b sz = (start, e)"
  shows "slot al start = (off al b + 4095) div 4096"
    and "slot al e = min ((off al b + unat sz + 4095) div 4096) (eoff al vs div 4096)"
proof -
  have b: "b \<in> set (buffers al)" using bs by simp
  note x = unat_addr_off [OF lay b] and en = addr_plus_bsize [OF lay bs] and of = off_split [OF lay bs]
  let ?h = "(addr al b + bsize al b) AND PAGE_MASK" and ?p = "PAGE_ALIGN (addr al b + sz)"
  have st: "start = PAGE_ALIGN (addr al b)" and e: "e = (if ?p > ?h then ?h else ?p)"
    using se by (auto simp: new_buf_pages_def Let_def addr_def)
  have le: "off al b + unat sz \<le> unat (buffer_size al)"
    using sz of by (simp add: blen_def word_le_nat_alt)
  then show "slot al start = (off al b + 4095) div 4096" unfolding st by (intro slot_PAGE_ALIGN [OF lay x]) simp
  have "unat (addr al b) + unat sz < 2 ^ 64" using x le lay by (simp add: layout_ok_def space_ok_def)
  then have us: "unat (addr al b + sz) = unat (buffer al) + (off al b + unat sz)"
    using x by (subst unat_add_lem [THEN iffD1]) simp_all
  have ue: "unat (addr al b + bsize al b) = unat (buffer al) + eoff al vs"
    using en x of(1) by (simp add: blen_def)
  have sp: "slot al ?p = (off al b + unat sz + 4095) div 4096" by (rule slot_PAGE_ALIGN [OF lay us le])
  have sh: "slot al ?h = eoff al vs div 4096" by (rule slot_page_down(1) [OF lay ue])
  have mono: "a \<le> c \<Longrightarrow> slot al a \<le> slot al c" for a c
    by (simp add: slot_def word_le_nat_alt div_le_mono diff_le_mono)
  show "slot al e = min ((off al b + unat sz + 4095) div 4096) (eoff al vs div 4096)"
    unfolding sp [symmetric] sh [symmetric] e using mono [of ?h ?p] mono [of ?p ?h] by (auto simp: min_def)
qed

lemma covered_new_buf:
  assumes post: "new_buf_post env sz ds os es is_async al b al'"
  shows "covered al' i \<longleftrightarrow> covered al i \<or> (off al b < 4096 * i + 4096 \<and> 4096 * i < off al b + unat sz)"
proof -
  note P = post [unfolded new_buf_post_def]
  have fr: "b_free (bufs al b)" "b \<in> set (buffers al)" using P by auto
  have b': "bufs al' b = taken_buffer (bufs al b) ds os es is_async" "bsize al' b = sz" "buffer al' = buffer al"
    using P by auto
  have ob: "overlaps al' b i \<longleftrightarrow> off al b < 4096 * i + 4096 \<and> 4096 * i < off al b + unat sz"
    using b' by (simp add: overlaps_def off_def blen_def addr_def taken_buffer_def)
  have other: "bufs al' p = bufs al p" "overlaps al' p i = overlaps al p i" if "p \<in> set (buffers al) - {b}" for p
    using P that by (auto simp: overlaps_def off_def blen_def addr_def)
  have "(\<exists>p\<in>set (buffers al'). \<not> b_free (bufs al' p) \<and> overlaps al' p i) \<longleftrightarrow>
      (\<exists>p\<in>set (buffers al). \<not> b_free (bufs al' p) \<and> overlaps al' p i)"
  proof (cases "bsize al b = sz")
    case False
    then obtain us new vs where "buffers al = us @ b # vs" "buffers al' = us @ b # new # vs" "b_free (bufs al' new)"
      using P by auto
    then show ?thesis by auto
  qed (use P in simp)
  also have "\<dots> \<longleftrightarrow> covered al i \<or> overlaps al' b i"
  proof -
    have split: "(\<exists>p\<in>set (buffers al). Q p) \<longleftrightarrow> Q b \<or> (\<exists>p\<in>set (buffers al) - {b}. Q p)" for Q
      using fr(2) by blast
    have "(\<exists>p\<in>set (buffers al) - {b}. \<not> b_free (bufs al' p) \<and> overlaps al' p i) \<longleftrightarrow>
        (\<exists>p\<in>set (buffers al) - {b}. \<not> b_free (bufs al p) \<and> overlaps al p i)"
      using other by (intro bex_cong) auto
    then show ?thesis unfolding covered_def split using fr(1) b'(1) by (auto simp: taken_buffer_def)
  qed
  finally show ?thesis unfolding ob covered_def [of al'] .
qed

lemma pages_inv_new_buf:
  assumes inv: "alloc_inv al" and pi: "pages_inv al" and post: "new_buf_post env sz ds os es is_async al b al'"
    and sz: "0 < sz" and se: "new_buf_pages al b sz = (start, e)" and w: "pages_within al start e al'"
    and u: "\<forall>j. slot al start \<le> j \<and> j < slot al e \<longrightarrow> in_use (pages al' ! j)"
  shows "pages_inv al'"
proof -
  note i = alloc_invD [OF inv]
  have b: "b \<in> set (buffers al)" "b_free (bufs al b)" "sz \<le> bsize al b" using post by (auto simp: new_buf_post_def)
  obtain us vs where bs: "buffers al = us @ b # vs" using b(1) by (auto simp: in_set_conv_decomp)
  have s: "unat sz \<le> blen al b" "0 < unat sz" using b(3) sz by (auto simp: blen_def word_le_nat_alt word_less_nat_alt)
  note slots = new_buf_pages_slots [OF i(1) bs b(3) se]
  note N = new_buf_slots [OF i(1) i(4) bs b(2) s, folded slots]
  show ?thesis
    unfolding pages_inv_def
  proof (intro allI impI)
    fix j assume "j < length (pages al')"
    then have j: "j < length (pages al)" using w by (simp add: pages_within_def)
    show "in_use (pages al' ! j) \<longleftrightarrow> covered al' j"
    proof (cases "slot al start \<le> j \<and> j < slot al e")
      case True
      then show ?thesis using u N(1) covered_new_buf [OF post] by blast
    next
      case False
      then have "pages al' ! j = pages al ! j" using w by (simp add: pages_within_def)
      then show ?thesis using N(2) [OF False] pi j covered_new_buf [OF post] by (auto simp: pages_inv_def)
    qed
  qed
qed

text \<open>
  A failing call does not take a page of an allocated buffer away: the slots it may have visited lie
  inside a free buffer.
\<close>

lemma free_slot_not_covered:
  assumes lay: "layout_ok al" and bs: "buffers al = us @ b # vs" and fr: "b_free (bufs al b)"
    and j: "(off al b + 4095) div 4096 \<le> j" "j < eoff al vs div 4096"
  shows "\<not> covered al j"
proof
  assume "covered al j"
  then obtain q where q: "q \<in> set (buffers al)" "\<not> b_free (bufs al q)" "overlaps al q j" by (auto simp: covered_def)
  have page: "off al b \<le> 4096 * j" "4096 * j + 4096 \<le> eoff al vs" using j by linarith+
  have "q \<in> set us \<or> q \<in> set vs" using q fr bs by auto
  then show False using off_mono [OF lay bs, of q] q(3) page by (auto simp: overlaps_def)
qed

lemma pages_inv_error:
  assumes inv: "alloc_inv al" and pi: "pages_inv al" and same: "same_space al al'"
    and "\<forall>j. in_use (pages al' ! j) \<longrightarrow> in_use (pages al ! j)"
    and f: "\<forall>j. in_use (pages al ! j) \<and> \<not> in_use (pages al' ! j) \<longrightarrow> fetched_slot al j"
  shows "pages_inv al'"
proof -
  note i = alloc_invD [OF inv] and S = same_spaceD [OF same] same_space_eqs [OF same]
  have cov: "covered al' j \<longleftrightarrow> covered al j" for j
    by (simp add: covered_def overlaps_def off_def blen_def S)
  have "\<not> covered al j" if fs: "fetched_slot al j" for j
  proof -
    obtain b sz start e where b: "b \<in> set (buffers al)" "b_free (bufs al b)" "sz \<le> bsize al b"
      "new_buf_pages al b sz = (start, e)" "slot al start \<le> j" "j < slot al e"
      using fs by (auto simp: fetched_slot_def)
    obtain us vs where bs: "buffers al = us @ b # vs" using b(1) by (auto simp: in_set_conv_decomp)
    show ?thesis
      using b(5,6) new_buf_pages_slots [OF i(1) bs b(3,4)] by (intro free_slot_not_covered [OF i(1) bs b(2)]) auto
  qed
  then show ?thesis using assms(4) f pi S(9) unfolding pages_inv_def cov by metis
qed

section \<open>Freeing\<close>

text \<open>The allocated buffers other than the freed one keep their place and size.\<close>

lemma merged_bsize:
  assumes lay: "layout_ok al" "layout_ok al'" and bs: "buffers al = us @ b # vs"
    and bs': "buffers al' = merged_before al us b @ merged_after al vs"
    and same: "\<And>p. addr al' p = addr al p" "buffer al' = buffer al" "buffer_size al' = buffer_size al"
    and q: "q \<in> set us \<union> set vs" "\<not> b_free (bufs al q)"
  shows "q \<in> set (buffers al') \<and> bsize al' q = bsize al q"
proof -
  have eo: "end_of al' zs = end_of al zs" for zs by (cases zs) (simp_all add: end_of_def space_end_def same)
  have key: "bsize al' q = bsize al q"
    if "buffers al = xs @ q # ys" "buffers al' = xs' @ q # ys'" "end_of al ys' = end_of al ys" for xs ys xs' ys'
    using bsize_split [OF that(1)] bsize_split [OF that(2)] layout_split(1) [OF lay(1) that(1)]
      layout_split(1) [OF lay(2) that(2)] that(3) eo by (simp add: same)
  show ?thesis
  proof (cases "q \<in> set us")
    case True
    then obtain us1 us2 where us: "us = us1 @ q # us2" by (auto simp: in_set_conv_decomp)
    let ?R = "if us2 \<noteq> [] \<and> b_free (bufs al (last us2)) then merged_after al vs else b # merged_after al vs"
    have b': "buffers al' = us1 @ q # us2 @ ?R" using bs' us q(2) by (auto simp: merged_before_def)
    have "end_of al (us2 @ ?R) = end_of al (us2 @ b # vs)" by (cases us2) (auto simp: end_of_def)
    then have "bsize al' q = bsize al q" using key [of us1 "us2 @ b # vs" us1 "us2 @ ?R"] bs us b' by simp
    with b' show ?thesis by simp
  next
    case False
    then obtain vs1 vs2 where vs: "vs = vs1 @ q # vs2" using q(1) by (auto simp: in_set_conv_decomp)
    have "\<exists>zs. merged_after al vs = zs @ q # vs2"
      using vs q(2) by (cases vs1) (auto simp: merged_after_def intro: exI [of _ "a # b" for a b])
    then obtain zs where "merged_after al vs = zs @ q # vs2" by blast
    then have b': "buffers al' = (merged_before al us b @ zs) @ q # vs2" using bs' by simp
    then have "bsize al' q = bsize al q" using key [of "us @ b # vs1" vs2, OF _ b'] bs vs by simp
    with b' show ?thesis by simp
  qed
qed

lemma covered_free_buf:
  assumes lay: "layout_ok al" "layout_ok al'" and bs: "buffers al = us @ b # vs"
    and bs': "buffers al' = merged_before al us b @ merged_after al vs"
    and bu: "bufs al' = (bufs al)(b := (bufs al b)\<lparr>b_free := True\<rparr>)"
    and same: "buffer al' = buffer al" "buffer_size al' = buffer_size al"
  shows "covered al' i \<longleftrightarrow> (\<exists>q\<in>set us \<union> set vs. \<not> b_free (bufs al q) \<and> overlaps al q i)"
proof -
  have d: "b \<notin> set us" "b \<notin> set vs" using layout_split [OF lay(1) bs] by auto
  have ad: "addr al' p = addr al p" for p by (simp add: addr_def bu)
  note K = merged_bsize [OF lay bs bs' ad same]
  have sub: "q \<in> set us \<union> set vs \<and> \<not> b_free (bufs al q)" if "q \<in> set (buffers al')" "\<not> b_free (bufs al' q)" for q
    using that bs' bu d by (auto simp: merged_before_def merged_after_def split: if_splits dest: list.set_sel(2))
  have ov: "overlaps al' q i = overlaps al q i" if "q \<in> set us \<union> set vs" "\<not> b_free (bufs al q)" for q
    using K [OF that] by (simp add: overlaps_def off_def blen_def ad same)
  have nf: "\<not> b_free (bufs al' q)" if "q \<in> set us \<union> set vs" "\<not> b_free (bufs al q)" for q
    using that bu d by auto
  show ?thesis
    unfolding covered_def using sub ov nf K by blast
qed

text \<open>
  Which slots freeing takes out of use, with the offsets \<open>x\<close> and \<open>e\<close> of the start and the end of the
  buffer: the whole pages between them, the page of \<open>e\<close> when the buffer behind is free and the page
  is not shared, and likewise the page of \<open>x\<close>.
\<close>

definition next_page_freed :: "binder_alloc \<Rightarrow> ptr \<Rightarrow> ptr list \<Rightarrow> bool" where
  "next_page_freed al b vs \<longleftrightarrow> vs \<noteq> [] \<and> b_free (bufs al (hd vs)) \<and>
     \<not> (0 < off al b \<and> (off al b - 1) div 4096 = eoff al vs div 4096) \<and>
     \<not> (tl vs \<noteq> [] \<and> off al (hd (tl vs)) div 4096 = eoff al vs div 4096) \<and> \<not> 4096 dvd eoff al vs"

definition prev_page_freed :: "binder_alloc \<Rightarrow> ptr list \<Rightarrow> ptr \<Rightarrow> ptr list \<Rightarrow> bool" where
  "prev_page_freed al us b vs \<longleftrightarrow> us \<noteq> [] \<and> b_free (bufs al (last us)) \<and>
     \<not> (0 < off al (last us) \<and> (off al (last us) - 1) div 4096 = off al b div 4096) \<and>
     \<not> (merged_after al vs \<noteq> [] \<and> off al (hd (merged_after al vs)) div 4096 = off al b div 4096) \<and>
     \<not> 4096 dvd off al b"

definition slot_freed :: "binder_alloc \<Rightarrow> ptr list \<Rightarrow> ptr \<Rightarrow> ptr list \<Rightarrow> nat \<Rightarrow> bool" where
  "slot_freed al us b vs i \<longleftrightarrow>
     (off al b + 4095) div 4096 \<le> i \<and> i < eoff al vs div 4096 \<or>
     next_page_freed al b vs \<and> i = eoff al vs div 4096 \<or>
     prev_page_freed al us b vs \<and> i = off al b div 4096"

text \<open>No slot of another allocated buffer is taken out of use.\<close>

lemma slot_freed_not_other:
  assumes lay: "layout_ok al" and bs: "buffers al = us @ b # vs"
    and q: "q \<in> set us \<union> set vs" "\<not> b_free (bufs al q)" "overlaps al q i"
  shows "\<not> slot_freed al us b vs i"
proof -
  note of = off_split [OF lay bs]
  have o: "off al q < 4096 * i + 4096" "4096 * i < off al q + blen al q" using q(3) by (auto simp: overlaps_def)
  show ?thesis
  proof (cases "q \<in> set us")
    case True
    have le: "off al q + blen al q \<le> off al b" by (rule off_mono(1) [OF lay bs True])
    then have x: "4096 * i < off al b" using o by simp
    have "\<not> next_page_freed al b vs" if "i = eoff al vs div 4096"
    proof -
      have "(off al b - 1) div 4096 = i" using x of that by linarith
      then show ?thesis using that x by (simp add: next_page_freed_def)
    qed
    moreover have "\<not> prev_page_freed al us b vs" if i: "i = off al b div 4096"
    proof (cases "b_free (bufs al (last us))")
      case fr: True
      obtain us' p where us: "us = us' @ [p]" using True by (cases us rule: rev_cases) auto
      then have "q \<in> set us'" using True q(2) fr by auto
      then have "off al q + blen al q \<le> off al p" using off_mono(1) [OF lay, of us' p "b # vs"] bs us by simp
      moreover have "off al p < off al b" using off_split(1,2) [OF lay, of us' p "b # vs"] bs us by (simp add: eoff_def)
      ultimately have "0 < off al p" "(off al p - 1) div 4096 = i" using o i by linarith+
      then show ?thesis using us i by (simp add: prev_page_freed_def)
    qed (simp add: prev_page_freed_def)
    ultimately show ?thesis using x by (auto simp: slot_freed_def)
  next
    case False
    then have qv: "q \<in> set vs" using q(1) by simp
    then obtain n vs' where vs: "vs = n # vs'" by (cases vs) auto
    have ge: "eoff al vs \<le> off al q" by (rule off_mono(2) [OF lay bs qv])
    have e: "eoff al vs = off al n" by (simp add: vs eoff_def)
    have tail: "vs' \<noteq> [] \<and> off al n \<le> off al (hd vs') \<and> off al (hd vs') \<le> off al q" if "q \<in> set vs'"
      using off_split(1) [OF lay, of "us @ [b]" n vs'] off_mono(2) [OF lay, of "us @ [b]" n vs' q] that bs vs
      by (cases vs') (auto simp: eoff_def)
    have "\<not> next_page_freed al b vs" if i: "i = eoff al vs div 4096"
    proof (cases "b_free (bufs al n)")
      case fr: True
      have t: "vs' \<noteq> []" "off al n \<le> off al (hd vs')" "off al (hd vs') \<le> off al q"
        using tail qv vs fr q(2) by auto
      then have "off al (hd vs') div 4096 = i" using i e o(1) by linarith
      then show ?thesis using i t(1) by (simp add: next_page_freed_def vs)
    qed (simp add: next_page_freed_def vs)
    moreover have "\<not> prev_page_freed al us b vs" if i: "i = off al b div 4096"
    proof -
      have t: "merged_after al vs \<noteq> []" "off al n \<le> off al (hd (merged_after al vs))"
        "off al (hd (merged_after al vs)) \<le> off al q"
        using tail qv vs q(2) ge e by (auto simp: merged_after_def)
      moreover have "off al b \<le> off al n" using of(1) e by simp
      ultimately have "off al (hd (merged_after al vs)) div 4096 = i" using i o(1) by linarith
      then show ?thesis using i t(1) by (simp add: prev_page_freed_def)
    qed
    moreover have "\<not> i < eoff al vs div 4096" using ge o(1) by linarith
    ultimately show ?thesis by (auto simp: slot_freed_def)
  qed
qed

text \<open>The buffer behind the merged one is allocated, so it does not share a page that only \<open>b\<close> uses.\<close>

lemma merged_after_not_in_page:
  assumes inv: "alloc_inv al" and bs: "buffers al = us @ b # vs" and e: "4096 * i < eoff al vs"
    and other: "\<And>q. q \<in> set vs \<Longrightarrow> overlaps al q i \<Longrightarrow> b_free (bufs al q)"
  shows "\<not> (merged_after al vs \<noteq> [] \<and> off al (hd (merged_after al vs)) div 4096 = i)"
proof
  note lay = alloc_invD(1) [OF inv] and adj = alloc_invD(4) [OF inv]
  assume a: "merged_after al vs \<noteq> [] \<and> off al (hd (merged_after al vs)) div 4096 = i"
  then obtain h t where h: "merged_after al vs = h # t" by (cases "merged_after al vs") auto
  obtain vs1 where vs: "vs = vs1 @ h # t" using h by (cases vs) (auto simp: merged_after_def split: if_splits)
  have "off al h div 4096 = i" using a h by simp
  then have "4096 * i \<le> off al h" "off al h < 4096 * i + 4096" by auto
  then have "overlaps al h i" using overlaps_next [OF lay, of "us @ b # vs1" h t i] bs vs by simp
  then have "b_free (bufs al h)" using other [of h] vs by simp
  moreover have "\<not> b_free (bufs al h)"
    using h adjacent_split(2) [OF adj, of "hd vs" "us @ [b]" "tl vs"] bs vs
    by (cases vs) (auto simp: merged_after_def split: if_splits)
  ultimately show False by blast
qed

text \<open>Every slot that only the freed buffer overlaps is taken out of use.\<close>

lemma slot_freed_own:
  assumes inv: "alloc_inv al" and bs: "buffers al = us @ b # vs" and o: "overlaps al b i"
    and nf: "\<not> b_free (bufs al b)"
    and other: "\<And>q. q \<in> set us \<union> set vs \<Longrightarrow> overlaps al q i \<Longrightarrow> b_free (bufs al q)"
  shows "slot_freed al us b vs i"
proof -
  note lay = alloc_invD(1) [OF inv] and adj = alloc_invD(4) [OF inv]
  let ?x = "off al b" and ?e = "eoff al vs"
  have xe: "?x < 4096 * i + 4096" "4096 * i < ?e"
    using o off_split(1) [OF lay bs] by (auto simp: overlaps_def)
  consider (whole) "?x \<le> 4096 * i" "4096 * i + 4096 \<le> ?e" | (left) "4096 * i < ?x"
    | (right) "?x \<le> 4096 * i" "?e < 4096 * i + 4096" by linarith
  then show ?thesis
  proof cases
    case whole
    then have "(?x + 4095) div 4096 \<le> i" "i < ?e div 4096" by linarith+
    then show ?thesis by (simp add: slot_freed_def)
  next
    case left
    have us: "us \<noteq> []" using off_first [OF lay] bs left by (cases us) auto
    then obtain us' p where us': "us = us' @ [p]" by (cases us rule: rev_cases) auto
    have bs': "buffers al = us' @ p # b # vs" using bs us' by simp
    have p: "b_free (bufs al p)" using overlaps_last [OF lay bs us left xe(1)] other [of p] us' by simp
    have px: "off al p < ?x" using off_split(1,2) [OF lay bs'] by (simp add: eoff_def)
    have i: "?x div 4096 = i" and nd: "\<not> 4096 dvd ?x" using left xe(1) by (auto elim!: dvdE)
    have "\<not> (0 < off al p \<and> (off al p - 1) div 4096 = i)"
    proof
      assume "0 < off al p \<and> (off al p - 1) div 4096 = i"
      then have l: "4096 * i < off al p" by auto
      then have "us' \<noteq> []" using off_first [OF lay] bs' by (cases us') auto
      then show False
        using overlaps_last [OF lay bs' _ l] px xe(1) adjacent_split(1) [OF adj p bs'] other [of "last us'"] us' by simp
    qed
    moreover have "\<not> (merged_after al vs \<noteq> [] \<and> off al (hd (merged_after al vs)) div 4096 = i)"
      by (rule merged_after_not_in_page [OF inv bs xe(2)]) (use other in auto)
    ultimately have "prev_page_freed al us b vs" using p us' i nd by (simp add: prev_page_freed_def)
    then show ?thesis using i by (simp add: slot_freed_def)
  next
    case right
    have i: "?e div 4096 = i" and nd: "\<not> 4096 dvd ?e" using right xe(2) by (auto elim!: dvdE)
    obtain n vs' where vs: "vs = n # vs'" using page_aligned_end [OF lay _ xe(2)] i by (cases vs) auto
    have e: "?e = off al n" by (simp add: vs eoff_def)
    have n: "b_free (bufs al n)"
      using overlaps_next [OF lay, of "us @ [b]" n vs' i] bs vs e xe(2) right other [of n] by simp
    have m: "merged_after al vs = vs'" using vs n by (simp add: merged_after_def)
    have "\<not> (merged_after al vs \<noteq> [] \<and> off al (hd (merged_after al vs)) div 4096 = i)"
      by (rule merged_after_not_in_page [OF inv bs xe(2)]) (use other in auto)
    moreover have "\<not> (0 < ?x \<and> (?x - 1) div 4096 = i)" using right(1) by auto
    ultimately have "next_page_freed al b vs" using vs n i nd m by (simp add: next_page_freed_def)
    then show ?thesis using i by (simp add: slot_freed_def)
  qed
qed


lemma boundary_page_off:
  assumes ad: "\<And>p. addr al0 p = addr al p" "buffer al0 = buffer al" and lay: "layout_ok al"
    and y: "y \<in> set (buffers al)" and x: "x \<in> set (buffers al)" and vs: "set vs \<subseteq> set (buffers al)"
    and bp: "boundary_page al0 y x vs al1"
  shows "in_use (pages al1 ! j) \<longleftrightarrow> in_use (pages al0 ! j) \<and> \<not> (j = off al x div 4096 \<and>
    \<not> (0 < off al y \<and> (off al y - 1) div 4096 = off al x div 4096) \<and>
    \<not> (vs \<noteq> [] \<and> off al (hd vs) div 4096 = off al x div 4096) \<and> \<not> 4096 dvd off al x)"
proof -
  have sh: "boundary_shared al0 y x vs = boundary_shared al y x vs"
    using ad by (simp add: boundary_shared_def prev_buffer_end_page_def buffer_start_page_def addr_def)
  have sl: "slot al0 (buffer_start_page al0 x) = off al x div 4096"
    using ad slot_start_page [OF lay x] by (simp add: slot_def buffer_start_page_def addr_def)
  have "in_use (pages al1 ! j) \<longleftrightarrow> in_use (pages al0 ! j) \<and> \<not> (j = off al x div 4096 \<and> \<not> boundary_shared al y x vs)"
    using bp unfolding boundary_page_def sh sl by (cases "boundary_shared al y x vs") (auto, metis+)
  then show ?thesis unfolding boundary_shared_iff [OF lay y x vs] by blast
qed

lemma free_buf_in_use:
  assumes inv: "alloc_inv al" and bs: "buffers al = us @ b # vs"
    and start: "free_buf_start rb env b al al4" and same: "same_bufs al4 al5"
    and nxt: "if vs \<noteq> [] \<and> b_free (bufs al (hd vs)) then boundary_page al4 b (hd vs) (tl vs) al5 else pages al5 = pages al4"
    and prv: "if us \<noteq> [] \<and> b_free (bufs al (last us)) then boundary_page al5 (last us) b (merged_after al vs) al'
      else pages al' = pages al5"
  shows "in_use (pages al' ! j) \<longleftrightarrow> in_use (pages al ! j) \<and> \<not> slot_freed al us b vs j"
proof -
  note lay = alloc_invD(1) [OF inv]
  have b: "b \<in> set (buffers al)" using bs by simp
  note F = start [unfolded free_buf_start_def Let_def]
  have ad4: "addr al4 p = addr al p" "buffer al4 = buffer al" for p using F by (auto simp: addr_def)
  have ad5: "addr al5 p = addr al p" "buffer al5 = buffer al" for p
    using ad4 same by (auto simp: addr_def same_bufs_def)
  have "unat (addr al b + bsize al b) = unat (buffer al) + eoff al vs"
    using addr_plus_bsize [OF lay bs] unat_addr_off [OF lay b] off_split(1) [OF lay bs] by (simp add: blen_def)
  from slot_page_down(1) [OF lay this]
  have e: "slot al ((addr al b + bsize al b) AND PAGE_MASK) = eoff al vs div 4096" .
  have s: "slot al (PAGE_ALIGN (addr al b)) = (off al b + 4095) div 4096"
    using off_split [OF lay bs] by (intro slot_PAGE_ALIGN [OF lay unat_addr_off [OF lay b]]) simp
  have u4: "in_use (pages al4 ! j) \<longleftrightarrow> in_use (pages al ! j) \<and>
      \<not> ((off al b + 4095) div 4096 \<le> j \<and> j < eoff al vs div 4096)" if "in_use (pages al4 ! j) \<or> in_use (pages al ! j)"
    using F that unfolding s e by metis
  have u5: "in_use (pages al5 ! j) \<longleftrightarrow> in_use (pages al4 ! j) \<and> \<not> (next_page_freed al b vs \<and> j = eoff al vs div 4096)"
  proof (cases "vs \<noteq> [] \<and> b_free (bufs al (hd vs))")
    case True
    then have "boundary_page al4 b (hd vs) (tl vs) al5" using nxt by simp
    moreover obtain n vs' where vs: "vs = n # vs'" using True by (cases vs) auto
    moreover have "set vs' \<subseteq> set (buffers al)" "n \<in> set (buffers al)" using bs vs by auto
    ultimately show ?thesis
      using boundary_page_off [OF ad4 lay b, of n vs' al5 j] True by (auto simp: next_page_freed_def eoff_def)
  qed (use nxt in \<open>auto simp: next_page_freed_def\<close>)
  have u6: "in_use (pages al' ! j) \<longleftrightarrow> in_use (pages al5 ! j) \<and> \<not> (prev_page_freed al us b vs \<and> j = off al b div 4096)"
  proof (cases "us \<noteq> [] \<and> b_free (bufs al (last us))")
    case True
    then have "boundary_page al5 (last us) b (merged_after al vs) al'" using prv by simp
    moreover have "set (merged_after al vs) \<subseteq> set (buffers al)" "last us \<in> set (buffers al)"
      using bs True by (auto simp: merged_after_def dest: list.set_sel(2))
    ultimately show ?thesis
      using boundary_page_off [OF ad5 lay _ b, of "last us" "merged_after al vs" al' j] True
      by (auto simp: prev_page_freed_def)
  qed (use prv in \<open>auto simp: prev_page_freed_def\<close>)
  show ?thesis using u4 u5 u6 by (auto simp: slot_freed_def)
qed

lemma pages_inv_free_buf:
  assumes inv: "alloc_inv al" and pi: "pages_inv al" and bs: "buffers al = us @ b # vs" and nf: "\<not> b_free (bufs al b)"
    and iu: "\<And>j. in_use (pages al' ! j) \<longleftrightarrow> in_use (pages al ! j) \<and> \<not> slot_freed al us b vs j"
    and cov: "\<And>j. covered al' j \<longleftrightarrow> (\<exists>q\<in>set us \<union> set vs. \<not> b_free (bufs al q) \<and> overlaps al q j)"
    and len: "length (pages al') = length (pages al)"
  shows "pages_inv al'"
  unfolding pages_inv_def
proof (intro allI impI)
  fix j assume "j < length (pages al')"
  then have j: "in_use (pages al ! j) \<longleftrightarrow> covered al j" using pi len by (simp add: pages_inv_def)
  have c: "covered al j \<longleftrightarrow> covered al' j \<or> overlaps al b j" using bs nf unfolding cov by (auto simp: covered_def)
  show "in_use (pages al' ! j) \<longleftrightarrow> covered al' j"
  proof (cases "covered al' j")
    case True
    then show ?thesis using slot_freed_not_other [OF alloc_invD(1) [OF inv] bs] iu j c unfolding cov by blast
  next
    case False
    then have "overlaps al b j \<Longrightarrow> slot_freed al us b vs j"
      unfolding cov by (intro slot_freed_own [OF inv bs _ nf]) auto
    then show ?thesis using iu j c False by blast
  qed
qed

end
