(* ===== verification/Binder_Alloc_Bytes.thy ===== *)
theory Binder_Alloc_Bytes
  imports Binder_Alloc_Cover
begin

text \<open>
  The bytes of the space: allocation and freeing never change a byte of a page that exists, and the
  page-wise copies of \<open>binder_alloc_do_buffer_copy\<close> read and write exactly the bytes of the buffer.
\<close>

section \<open>Pages keep their bytes\<close>

definition keeps_bytes :: "binder_alloc \<Rightarrow> binder_alloc \<Rightarrow> bool" where
  "keeps_bytes al al' \<longleftrightarrow> length (pages al') = length (pages al) \<and>
     (\<forall>i<length (pages al). page_ptr (pages al' ! i) = page_ptr (pages al ! i) \<or>
        page_ptr (pages al ! i) = None \<and> page_ptr (pages al' ! i) = Some zeroed_page)"

definition pages_sized :: "binder_alloc \<Rightarrow> bool" where
  "pages_sized al \<longleftrightarrow> (\<forall>i<length (pages al). \<forall>bs. page_ptr (pages al ! i) = Some bs \<longrightarrow> length bs = 4096)"

lemma keeps_bytes_refl: "pages al' = pages al \<Longrightarrow> keeps_bytes al al'"
  by (simp add: keeps_bytes_def)

lemma keeps_bytes_trans: "keeps_bytes al1 al2 \<Longrightarrow> keeps_bytes al2 al3 \<Longrightarrow> keeps_bytes al1 al3"
  unfolding keeps_bytes_def by (metis option.distinct(1))

lemma keeps_bytes_pages: "keeps_bytes al al1 \<Longrightarrow> pages al2 = pages al1 \<Longrightarrow> keeps_bytes al al2"
  by (simp add: keeps_bytes_def)

lemma keeps_bytes_sized: "keeps_bytes al al' \<Longrightarrow> pages_sized al \<Longrightarrow> pages_sized al'"
  unfolding keeps_bytes_def pages_sized_def by (metis length_replicate option.inject zeroed_page_def)

lemma keeps_bytes_set_page:
  assumes "page_ptr pg = page_ptr (pages al ! i) \<or> page_ptr (pages al ! i) = None \<and> page_ptr pg = Some zeroed_page"
    and "keeps_bytes (set_page i pg al) al'"
  shows "keeps_bytes al al'"
proof (rule keeps_bytes_trans [OF _ assms(2)])
  have "page_ptr (pages (set_page i pg al) ! j) = page_ptr (pages al ! j) \<or>
      page_ptr (pages al ! j) = None \<and> page_ptr (pages (set_page i pg al) ! j) = Some zeroed_page"
    if "j < length (pages al)" for j
    using assms(1) that by (cases "j = i") auto
  then show "keeps_bytes al (set_page i pg al)" by (simp add: keeps_bytes_def)
qed

lemma keeps_bytes_high: "keeps_bytes (al\<lparr>pages_high := h\<rparr>) al' = keeps_bytes al al'"
  by (simp add: keeps_bytes_def)

lemma lru_add_pages_bytes: "lru_add_pages is al = Some al' \<Longrightarrow> keeps_bytes al al'"
proof (induction "is" al rule: lru_add_pages.induct)
  case (2 i "is" al)
  then show ?case
    by (intro keeps_bytes_set_page [of "(pages al ! i)\<lparr>lru_added := True\<rparr>" al i]) (simp_all split: if_splits)
qed (simp add: keeps_bytes_refl)

lemma alloc_pages_loop_bytes: "alloc_pages_loop env visited is al = Some (r, al') \<Longrightarrow> keeps_bytes al al'"
proof (induction env visited "is" al rule: alloc_pages_loop.induct)
  case (2 env visited i "is" al)
  have i: "i < length (pages al)" using "2.prems" by (simp split: if_splits)
  show ?case
  proof (cases "page_ptr (pages al ! i) = None")
    case False
    then show ?thesis
      using 2 i by (intro keeps_bytes_set_page [of "(pages al ! i)\<lparr>lru_added := False\<rparr>" al i]) simp_all
  next
    case page: True
    show ?thesis
    proof (cases "\<not> alloc_page_ok env i \<or> \<not> vm_insert_ok env i")
      case True
      then show ?thesis using "2.prems" i page by (auto dest: lru_add_pages_bytes)
    next
      case False
      then show ?thesis
        using "2.prems" i page "2.IH"(2) keeps_bytes_high
        by (intro keeps_bytes_set_page [of "\<lparr>page_ptr = Some zeroed_page, page_linked = False, lru_added = False\<rparr>" al i]) auto
    qed
  qed
qed (simp add: keeps_bytes_refl)

lemma update_page_range_bytes:
  "binder_update_page_range env a start e al = Some (r, al') \<Longrightarrow> keeps_bytes al al'"
  by (auto simp: binder_update_page_range_def Let_def keeps_bytes_refl split: if_splits option.splits
      dest: lru_add_pages_bytes alloc_pages_loop_bytes)

lemma insert_free_pages: "binder_insert_free_buffer rb b al = Some al' \<Longrightarrow> pages al' = pages al"
  by (auto simp: binder_insert_free_buffer_def split: if_splits option.splits)

lemma new_buf_take_pages: "new_buf_take rb b sz ds os es a al = Some al' \<Longrightarrow> pages al' = pages al"
  by (auto simp: new_buf_take_def binder_insert_allocated_buffer_locked_def Let_def split: if_splits option.splits)

lemma new_buf_split_pages: "new_buf_split rb b new sz al = Some al' \<Longrightarrow> pages al' = pages al"
  by (auto simp: new_buf_split_def Let_def dest!: insert_free_pages)

lemma new_buf_bytes:
  "binder_alloc_new_buf_locked rb env ds os es a al = Some (r, al') \<Longrightarrow> keeps_bytes al al'"
  unfolding binder_alloc_new_buf_locked_def Let_def
  by (auto simp: keeps_bytes_refl split: if_splits option.splits prod.splits sum.splits
      dest!: update_page_range_bytes new_buf_take_pages new_buf_split_pages
      intro: keeps_bytes_pages keeps_bytes_trans)

lemma delete_free_buffer_bytes: "binder_delete_free_buffer env b al = Some al' \<Longrightarrow> keeps_bytes al al'"
  unfolding binder_delete_free_buffer_def Let_def
  by (auto simp: keeps_bytes_refl split: if_splits option.splits
      dest!: update_page_range_bytes intro: keeps_bytes_pages)

lemma merge_next_bytes: "merge_next rb env b al = Some al' \<Longrightarrow> keeps_bytes al al'"
  unfolding merge_next_def
  by (auto simp: keeps_bytes_refl keeps_bytes_def split: if_splits option.splits dest!: delete_free_buffer_bytes)

lemma merge_prev_bytes: "merge_prev rb env b al = Some (b', al') \<Longrightarrow> keeps_bytes al al'"
  unfolding merge_prev_def
  by (auto simp: keeps_bytes_refl split: if_splits option.splits dest!: delete_free_buffer_bytes intro: keeps_bytes_pages)

lemma free_buf_bytes:
  assumes "binder_free_buf_locked rb env b al = Some al'"
  shows "keeps_bytes al al'"
proof -
  define al1 where "al1 = (if async_transaction (bufs al b)
    then al\<lparr>free_async_space := free_async_space al + (buffer_used_size (bufs al b) + sizeof_binder_buffer)\<rparr> else al)"
  obtain r al2 al5 b' al6 where *: "binder_update_page_range env False (PAGE_ALIGN (user_data (bufs al b)))
      ((user_data (bufs al b) + bsize al b) AND PAGE_MASK) al1 = Some (r, al2)"
    "merge_next rb env b (set_buf b ((bufs al2 b)\<lparr>b_free := True\<rparr>)
      (al2\<lparr>allocated_buffers := rb_erase rb b (allocated_buffers al2)\<rparr>)) = Some al5"
    "merge_prev rb env b al5 = Some (b', al6)" "binder_insert_free_buffer rb b' al6 = Some al'"
    using assms unfolding binder_free_buf_locked_def Let_def al1_def
    by (auto split: if_split_asm option.splits prod.splits)
  have "keeps_bytes al al1" by (rule keeps_bytes_refl) (simp add: al1_def)
  moreover have "keeps_bytes al1 al2" by (rule update_page_range_bytes [OF *(1)])
  moreover have "keeps_bytes al2 al5" using merge_next_bytes [OF *(2)] by (simp add: keeps_bytes_def)
  moreover have "keeps_bytes al5 al'"
    by (rule keeps_bytes_pages [OF merge_prev_bytes [OF *(3)] insert_free_pages [OF *(4)]])
  ultimately show ?thesis by (blast intro: keeps_bytes_trans)
qed

section \<open>The bytes at an offset of the space\<close>

definition space_byte :: "binder_alloc \<Rightarrow> nat \<Rightarrow> u8 option" where
  "space_byte al a = map_option (\<lambda>bs. bs ! (a mod 4096)) (kmap al (a div 4096))"

text \<open>Every byte of \<open>n\<close> bytes from \<open>x\<close> on lies in a page that exists.\<close>

definition present :: "binder_alloc \<Rightarrow> nat \<Rightarrow> nat \<Rightarrow> bool" where
  "present al x n \<longleftrightarrow> (\<forall>a. x \<le> a \<and> a < x + n \<longrightarrow> kmap al (a div 4096) \<noteq> None)"

text \<open>\<open>al'\<close> is \<open>al\<close> with the bytes \<open>ys\<close> written at \<open>x\<close>; the pages keep their state.\<close>

definition written :: "binder_alloc \<Rightarrow> nat \<Rightarrow> u8 list \<Rightarrow> binder_alloc \<Rightarrow> bool" where
  "written al x ys al' \<longleftrightarrow> same_space al al' \<and> pages_high al' = pages_high al \<and>
     (\<forall>i. lru_added (pages al' ! i) = lru_added (pages al ! i)) \<and>
     (\<forall>i. kmap al' i = None \<longleftrightarrow> kmap al i = None) \<and> (pages_sized al \<longrightarrow> pages_sized al') \<and>
     (\<forall>a. space_byte al' a = (if x \<le> a \<and> a < x + length ys then Some (ys ! (a - x)) else space_byte al a))"

lemma written_Nil: "written al x [] al"
  by (auto simp: written_def)

lemma written_append:
  assumes "written al x ys al1" "written al1 (x + length ys) zs al2"
  shows "written al x (ys @ zs) al2"
proof -
  note w = assms [unfolded written_def]
  have "space_byte al2 a = (if x \<le> a \<and> a < x + length (ys @ zs) then Some ((ys @ zs) ! (a - x)) else space_byte al a)" for a
  proof -
    consider "a < x" | "x \<le> a" "a < x + length ys" "a - x < length ys" | "x + length ys \<le> a" "\<not> a - x < length ys"
      by linarith
    then show ?thesis using w by cases (simp_all add: nth_append)
  qed
  moreover have "same_space al al2" using w same_space_trans by blast
  ultimately show ?thesis using w unfolding written_def by simp
qed

lemma written_in_use:
  "written al x ys al' \<Longrightarrow> i < length (pages al) \<Longrightarrow> in_use (pages al' ! i) = in_use (pages al ! i)"
  unfolding written_def in_use_def kmap_def using same_spaceD(9) by metis

lemma get_page_off:
  assumes lay: "layout_ok al" and b: "b \<in> set (buffers al)" and le: "off al b + unat o1 < 2 ^ 64"
  shows "binder_alloc_get_page al b o1 = ((off al b + unat o1) div 4096, (off al b + unat o1) mod 4096)"
proof -
  have ge: "buffer al \<le> addr al b" by (rule layout_addr(1) [OF lay b])
  let ?s = "o1 + (user_data (bufs al b) - buffer al)"
  have "unat (user_data (bufs al b) - buffer al) = off al b"
    using ge by (simp add: off_def addr_def unat_sub)
  then have u: "unat ?s = off al b + unat o1" using le by (subst unat_add_lem [THEN iffD1]) simp_all
  have "NOT PAGE_MASK = mask 12" by (simp add: PAGE_MASK_def PAGE_SIZE_def mask_eq_exp_minus_1)
  then show ?thesis
    using u by (simp add: binder_alloc_get_page_def Let_def unat_and_mask PAGE_SHIFT_def drop_bit_eq_div unat_div)
qed

lemma chunk_div:
  fixes x a n :: nat
  assumes "x \<le> a" "a < x + n" "n \<le> 4096 - x mod 4096"
  shows "a div 4096 = x div 4096" "a mod 4096 = x mod 4096 + (a - x)"
proof -
  obtain d where a: "a = x + d" using assms(1) le_Suc_ex by blast
  have lt: "x mod 4096 + d < 4096" using assms a by simp
  have e: "x + d = 4096 * (x div 4096) + (x mod 4096 + d)" by simp
  have "(4096 * (x div 4096) + (x mod 4096 + d)) div 4096 = x div 4096" using lt by (subst div_mult_self4) simp_all
  then show "a div 4096 = x div 4096" using a e by metis
  have "(4096 * (x div 4096) + (x mod 4096 + d)) mod 4096 = x mod 4096 + d" using lt by (subst mod_mult_self4) simp_all
  then show "a mod 4096 = x mod 4096 + (a - x)" using a e by (metis add_diff_cancel_left')
qed

lemma unat_plus_nat:
  fixes o1 :: u64
  assumes "unat o1 + m < 2 ^ 64"
  shows "unat (o1 + of_nat m) = unat o1 + m"
proof -
  have "unat (of_nat m :: u64) = m" using assms by (intro unat_of_nat_u64) simp
  then show ?thesis using assms by (subst unat_add_lem [THEN iffD1]) simp_all
qed

section \<open>Reading\<close>

lemma read_chunk:
  assumes "kmap al (x div 4096) = Some bs" "length bs = 4096" "n \<le> 4096 - x mod 4096"
  shows "take n (drop (x mod 4096) bs) = map (\<lambda>a. the (space_byte al a)) [x ..< x + n]"
proof (rule nth_equalityI)
  show "length (take n (drop (x mod 4096) bs)) = length (map (\<lambda>a. the (space_byte al a)) [x ..< x + n])"
    using assms by simp
  fix k assume "k < length (take n (drop (x mod 4096) bs))"
  then have k: "k < n" by simp
  then show "take n (drop (x mod 4096) bs) ! k = map (\<lambda>a. the (space_byte al a)) [x ..< x + n] ! k"
    using chunk_div [of x "x + k" n] assms by (simp add: space_byte_def)
qed

lemma pages_sized_kmap: "pages_sized al \<Longrightarrow> kmap al i = Some bs \<Longrightarrow> length bs = 4096"
  by (simp add: pages_sized_def kmap_def split: if_splits)

lemma copy_from_loop_present:
  assumes "layout_ok al" "pages_sized al" "b \<in> set (buffers al)" "off al b + unat o1 + n < 2 ^ 64"
    "present al (off al b + unat o1) n"
  shows "copy_from_loop b o1 n al =
    Some (map (\<lambda>a. the (space_byte al a)) [off al b + unat o1 ..< off al b + unat o1 + n])"
  using assms
proof (induction b o1 n al rule: copy_from_loop.induct)
  case (1 b o1 n al)
  let ?x = "off al b + unat o1"
  show ?case
  proof (cases "n = 0")
    case False
    have gp: "binder_alloc_get_page al b o1 = (?x div 4096, ?x mod 4096)"
      using "1.prems"(1,3,4) by (intro get_page_off) simp_all
    have "kmap al (?x div 4096) \<noteq> None" using "1.prems"(5) False by (simp add: present_def)
    then obtain bs where bs: "kmap al (?x div 4096) = Some bs" by blast
    let ?m = "min n (4096 - ?x mod 4096)"
    obtain m where md: "m = ?m" by blast
    have ml: "m \<le> n" "m \<le> 4096 - ?x mod 4096" unfolding md by (rule min.cobounded1, rule min.cobounded2)
    have m: "unat (o1 + of_nat m) = unat o1 + m" by (rule unat_plus_nat) (use "1.prems"(4) ml in linarith)
    have pr: "present al (?x + m) (n - m)" using "1.prems"(5) ml(1) by (auto simp: present_def)
    have "copy_from_loop b (o1 + of_nat m) (n - m) al =
        Some (map (\<lambda>a. the (space_byte al a)) [off al b + unat (o1 + of_nat m) ..< off al b + unat (o1 + of_nat m) + (n - m)])"
      by (rule "1.IH" [OF False gp [symmetric] refl bs md "1.prems"(1-3)])
        (use "1.prems"(4) ml(1) pr m in \<open>simp_all add: add.assoc\<close>)
    then have rest: "copy_from_loop b (o1 + of_nat m) (n - m) al = Some (map (\<lambda>a. the (space_byte al a)) [?x + m ..< ?x + n])"
      unfolding m using ml(1) by (simp add: add.assoc)
    have "map (\<lambda>a. the (space_byte al a)) [?x ..< ?x + m] @ map (\<lambda>a. the (space_byte al a)) [?x + m ..< ?x + n] =
        map (\<lambda>a. the (space_byte al a)) [?x ..< ?x + n]"
      unfolding map_append [symmetric] using ml(1) upt_add_eq_append [of ?x "?x + m" "n - m"] by (simp add: add.assoc)
    then show ?thesis
      using False rest read_chunk [OF bs pages_sized_kmap [OF "1.prems"(2) bs] ml(2)]
      unfolding copy_from_loop.simps [of b o1 n al] gp Let_def case_prod_conv bs option.case md [symmetric] by simp
  qed (simp add: copy_from_loop.simps)
qed

section \<open>Writing\<close>

lemma memcpy_at_nth:
  assumes "p + length ys \<le> length bs" "k < length bs"
  shows "memcpy_at p ys bs ! k = (if p \<le> k \<and> k < p + length ys then ys ! (k - p) else bs ! k)"
    and "length (memcpy_at p ys bs) = length bs"
  using assms by (auto simp: memcpy_at_def nth_append)

lemma write_chunk:
  assumes sz: "pages_sized al" and bs: "kmap al (x div 4096) = Some bs" and le: "length ys \<le> 4096 - x mod 4096"
  shows "written al x ys (put_page (x div 4096) (memcpy_at (x mod 4096) ys bs) al)"
proof -
  let ?i = "x div 4096" and ?p = "x mod 4096"
  let ?al = "put_page ?i (memcpy_at ?p ys bs) al"
  have i: "?i < length (pages al)" "page_ptr (pages al ! ?i) = Some bs"
    using bs by (auto simp: kmap_def split: if_splits)
  have len: "length bs = 4096" by (rule pages_sized_kmap [OF sz bs])
  have fit: "?p + length ys \<le> length bs" using le len by (simp add: le_diff_conv2)
  have km: "kmap ?al j = (if j = ?i then Some (memcpy_at ?p ys bs) else kmap al j)" for j
    using i by (auto simp: kmap_def put_page_def)
  have "space_byte ?al a = (if x \<le> a \<and> a < x + length ys then Some (ys ! (a - x)) else space_byte al a)" for a
  proof (cases "a div 4096 = ?i")
    case True
    have a: "a = 4096 * ?i + a mod 4096" using True div_mult_mod_eq [of a 4096] by (simp add: mult.commute)
    have x: "x = 4096 * ?i + ?p" by simp
    have "x \<le> a \<longleftrightarrow> ?p \<le> a mod 4096" "a < x + length ys \<longleftrightarrow> a mod 4096 < ?p + length ys" "a - x = a mod 4096 - ?p"
      using a x by linarith+
    moreover have "memcpy_at ?p ys bs ! (a mod 4096) =
        (if ?p \<le> a mod 4096 \<and> a mod 4096 < ?p + length ys then ys ! (a mod 4096 - ?p) else bs ! (a mod 4096))"
      by (rule memcpy_at_nth(1) [OF fit]) (simp add: len)
    moreover have "space_byte ?al a = Some (memcpy_at ?p ys bs ! (a mod 4096))" "space_byte al a = Some (bs ! (a mod 4096))"
      using True bs by (simp_all add: space_byte_def km)
    ultimately show ?thesis by presburger
  next
    case False
    then have "\<not> (x \<le> a \<and> a < x + length ys)" using chunk_div(1) [of x a "length ys"] le by blast
    moreover have "space_byte ?al a = space_byte al a" using False by (simp add: space_byte_def km)
    ultimately show ?thesis by presburger
  qed
  moreover have "pages_sized ?al"
    using sz memcpy_at_nth(2) [OF fit, of 0] len i
    by (auto simp: pages_sized_def put_page_def set_page_def nth_list_update)
  moreover have "lru_added (pages ?al ! j) = lru_added (pages al ! j)" for j
    using i by (cases "j = ?i") (simp_all add: put_page_def)
  ultimately show ?thesis
    unfolding written_def using km bs same_space_set_page(1) by (auto simp: put_page_def set_page_def)
qed

lemma written_eqs:
  assumes "written al x ys al'"
  shows "layout_ok al' = layout_ok al" "off al' b = off al b" "buffers al' = buffers al" "present al' y n = present al y n"
    "pages_sized al \<Longrightarrow> pages_sized al'"
proof -
  have S: "same_space al al'" using assms by (simp add: written_def)
  show "layout_ok al' = layout_ok al" "off al' b = off al b" "buffers al' = buffers al"
    using same_spaceD [OF S] same_space_eqs [OF S] by (simp_all add: layout_ok_def off_def)
  show "present al' y n = present al y n" "pages_sized al \<Longrightarrow> pages_sized al'"
    using assms by (auto simp: written_def present_def)
qed

lemma copy_to_loop_present:
  assumes "layout_ok al" "pages_sized al" "b \<in> set (buffers al)" "off al b + unat o1 + length src < 2 ^ 64"
    "present al (off al b + unat o1) (length src)"
  shows "\<exists>al'. copy_to_loop b o1 src al = Some al' \<and> written al (off al b + unat o1) src al'"
  using assms
proof (induction b o1 src al rule: copy_to_loop.induct)
  case (1 b o1 src al)
  let ?x = "off al b + unat o1"
  show ?case
  proof (cases "src = []")
    case False
    have gp: "binder_alloc_get_page al b o1 = (?x div 4096, ?x mod 4096)"
      using "1.prems"(1,3,4) by (intro get_page_off) simp_all
    have "kmap al (?x div 4096) \<noteq> None" using "1.prems"(5) False by (simp add: present_def)
    then obtain bs where bs: "kmap al (?x div 4096) = Some bs" by blast
    let ?m = "min (length src) (4096 - ?x mod 4096)"
    obtain m where md: "m = ?m" by blast
    have ml: "m \<le> length src" "m \<le> 4096 - ?x mod 4096" unfolding md by (rule min.cobounded1, rule min.cobounded2)
    let ?al = "put_page (?x div 4096) (memcpy_at (?x mod 4096) (take m src) bs) al"
    have m: "unat (o1 + of_nat m) = unat o1 + m" by (rule unat_plus_nat) (use "1.prems"(4) ml in linarith)
    have w: "written al ?x (take m src) ?al" by (rule write_chunk [OF "1.prems"(2) bs]) (use ml(2) in simp)
    note E = written_eqs [OF w]
    have pr: "present al (?x + m) (length src - m)" using "1.prems"(5) ml(1) by (auto simp: present_def)
    have "\<exists>al'. copy_to_loop b (o1 + of_nat m) (drop m src) ?al = Some al' \<and>
        written ?al (off ?al b + unat (o1 + of_nat m)) (drop m src) al'"
      by (rule "1.IH" [OF False gp [symmetric] refl bs md])
        (use "1.prems"(1-4) E ml(1) pr m in \<open>simp_all add: add.assoc\<close>)
    then obtain al' where al': "copy_to_loop b (o1 + of_nat m) (drop m src) ?al = Some al'"
      "written ?al (?x + m) (drop m src) al'"
      unfolding E m add.assoc [symmetric] by blast
    have "written al ?x (take m src @ drop m src) al'"
      by (rule written_append [OF w]) (use al'(2) ml(1) in simp)
    then have "written al ?x src al'" unfolding append_take_drop_id .
    moreover have "copy_to_loop b o1 src al = Some al'"
      using False al'(1)
      unfolding copy_to_loop.simps [of b o1 src al] gp Let_def case_prod_conv bs option.case md [symmetric] by simp
    ultimately show ?thesis by blast
  qed (simp add: copy_to_loop.simps written_Nil)
qed

lemma copy_user_loop_present:
  assumes "layout_ok al" "pages_sized al" "b \<in> set (buffers al)" "off al b + unat o1 + n < 2 ^ 64"
    "present al (off al b + unat o1) n"
  shows "\<exists>al' zs. copy_user_loop b o1 ub n al = Some (n - length ub, al') \<and>
    written al (off al b + unat o1) (take n ub @ zs) al' \<and> length (take n ub @ zs) \<le> n"
  using assms
proof (induction b o1 ub n al rule: copy_user_loop.induct)
  case (1 b o1 ub n al)
  let ?x = "off al b + unat o1"
  show ?case
  proof (cases "n = 0")
    case False
    have gp: "binder_alloc_get_page al b o1 = (?x div 4096, ?x mod 4096)"
      using "1.prems"(1,3,4) by (intro get_page_off) simp_all
    have "kmap al (?x div 4096) \<noteq> None" using "1.prems"(5) False by (simp add: present_def)
    then obtain bs where bs: "kmap al (?x div 4096) = Some bs" by blast
    obtain m where md: "m = min n (4096 - ?x mod 4096)" by blast
    have ml: "m \<le> n" "m \<le> 4096 - ?x mod 4096" unfolding md by (rule min.cobounded1, rule min.cobounded2)
    define zs where "zs = replicate (m - length (take m ub)) (0 :: u8)"
    define al1 where "al1 = put_page (?x div 4096) (memcpy_at (?x mod 4096) (take m ub @ zs) bs) al"
    have len: "length (take m ub @ zs) = m" by (simp add: zs_def)
    have w: "written al ?x (take m ub @ zs) al1"
      unfolding al1_def by (rule write_chunk [OF "1.prems"(2) bs]) (use ml(2) len in simp)
    note E = written_eqs [OF w]
    note unf = copy_user_loop.simps [of b o1 ub n al, unfolded gp Let_def case_prod_conv bs option.case md [symmetric],
        folded zs_def, folded al1_def]
    show ?thesis
    proof (cases "length (take m ub) < m")
      case True
      then have ub: "length ub < m" by simp
      then have "copy_user_loop b o1 ub n al = Some (n - length ub, al1)" using unf False ml(1) by simp
      moreover have "take n ub = take m ub" using ub ml(1) by simp
      ultimately show ?thesis using w len ml(1) by metis
    next
      case full: False
      then have ub: "m \<le> length ub" and zs: "zs = []" by (auto simp: zs_def)
      have m: "unat (o1 + of_nat m) = unat o1 + m" by (rule unat_plus_nat) (use "1.prems"(4) ml in linarith)
      have pr: "present al (?x + m) (n - m)" using "1.prems"(5) ml(1) by (auto simp: present_def)
      have "\<exists>al' zs. copy_user_loop b (o1 + of_nat m) (drop m ub) (n - m) al1 = Some (n - m - length (drop m ub), al') \<and>
          written al1 (off al1 b + unat (o1 + of_nat m)) (take (n - m) (drop m ub) @ zs) al' \<and>
          length (take (n - m) (drop m ub) @ zs) \<le> n - m"
        by (rule "1.IH" [OF False gp [symmetric] refl bs md refl al1_def [unfolded zs_def] full])
          (use "1.prems"(1-4) E ml(1) pr m in \<open>simp_all add: add.assoc\<close>)
      then obtain al' zs' where al': "copy_user_loop b (o1 + of_nat m) (drop m ub) (n - m) al1 = Some (n - length ub, al')"
        "written al1 (?x + m) (take (n - m) (drop m ub) @ zs') al'" "length (take (n - m) (drop m ub) @ zs') \<le> n - m"
        using ub unfolding E m add.assoc [symmetric] by auto
      have split: "take n ub = take m ub @ take (n - m) (drop m ub)"
        using ml(1) by (metis le_add_diff_inverse take_add)
      have "written al ?x (take m ub @ (take (n - m) (drop m ub) @ zs')) al'"
        by (rule written_append) (use w zs al'(2) ub in simp_all)
      moreover have "copy_user_loop b o1 ub n al = Some (n - length ub, al')"
        using unf False full al'(1) by simp
      ultimately show ?thesis using al'(3) ml(1) ub unfolding split by (intro exI [of _ al'] exI [of _ zs']) simp
    qed
  qed (auto simp: copy_user_loop.simps written_Nil intro: exI [of _ "[]"])
qed

section \<open>Accesses that \<open>check_buffer\<close> admits\<close>

lemma check_buffer_range:
  assumes "check_buffer al b o1 n"
  shows "unat o1 + unat n \<le> blen al b" "\<not> b_free (bufs al b)"
proof -
  have c: "n \<le> bsize al b" "o1 \<le> bsize al b - n" "\<not> b_free (bufs al b)"
    using assms by (auto simp: check_buffer_def Let_def)
  then have "unat o1 \<le> unat (bsize al b) - unat n" by (simp add: word_le_nat_alt unat_sub)
  then show "unat o1 + unat n \<le> blen al b" using c(1) by (simp add: blen_def word_le_nat_alt)
  show "\<not> b_free (bufs al b)" by (rule c(3))
qed

lemma allocated_present:
  assumes lay: "layout_ok al" and pi: "pages_inv al" and b: "b \<in> set (buffers al)" "\<not> b_free (bufs al b)"
    and k: "k + n \<le> blen al b"
  shows "present al (off al b + k) n" "off al b + k + n \<le> unat (buffer_size al)" "off al b + k + n < 2 ^ 64"
proof -
  obtain us vs where bs: "buffers al = us @ b # vs" using b(1) by (auto simp: in_set_conv_decomp)
  note o = off_split [OF lay bs]
  show le: "off al b + k + n \<le> unat (buffer_size al)" using o k by linarith
  have len: "length (pages al) = unat (buffer_size al) div 4096" "4096 dvd unat (buffer_size al)"
    using lay by (auto simp: layout_ok_def space_ok_def)
  show "off al b + k + n < 2 ^ 64" using le lay unfolding layout_ok_def space_ok_def by linarith
  show "present al (off al b + k) n"
    unfolding present_def
  proof (intro allI impI)
    fix a assume a: "off al b + k \<le> a \<and> a < off al b + k + n"
    have lt: "a div 4096 < length (pages al)"
      unfolding len(1) using a le len(2) by (auto elim!: dvdE intro: less_mult_imp_div_less simp: mult.commute)
    have d: "4096 * (a div 4096) \<le> a" "a < 4096 * (a div 4096) + 4096" by auto
    have "overlaps al b (a div 4096)" using a k d unfolding overlaps_def by linarith
    then have "in_use (pages al ! (a div 4096))" using pi lt b by (auto simp: pages_inv_def covered_def)
    then show "kmap al (a div 4096) \<noteq> None" using lt by (simp add: kmap_def in_use_def)
  qed
qed

end
