(* ===== verification/Binder_Alloc_Spec.thy ===== *)
theory Binder_Alloc_Spec
  imports Binder_Alloc_Bytes
begin

text \<open>
  What the allocator promises its client, as a locale: held buffers are disjoint pieces of the space,
  requests and frees never hit a \<open>BUG_ON\<close>, and a held buffer keeps its place, its size and its bytes
  whatever happens to the others. The interpretation shows that \<open>binder_alloc_new_buf\<close> and
  \<open>binder_alloc_free_buf\<close> provide this.
\<close>

section \<open>The contract\<close>

datatype ('r, 'e) alloc_op = OpNew 'r | OpFree 'e ptr

fun run_ops :: "('r \<Rightarrow> 's \<Rightarrow> (ptr result \<times> 's) option) \<Rightarrow> ('e \<Rightarrow> ptr \<Rightarrow> 's \<Rightarrow> 's option) \<Rightarrow>
    ('r, 'e) alloc_op list \<Rightarrow> 's \<Rightarrow> 's option" where
  "run_ops new fr [] s = Some s"
| "run_ops new fr (OpNew r # ops) s =
     (case new r s of None \<Rightarrow> None | Some (_, s') \<Rightarrow> run_ops new fr ops s')"
| "run_ops new fr (OpFree e b # ops) s =
     (case fr e b s of None \<Rightarrow> None | Some s' \<Rightarrow> run_ops new fr ops s')"

text \<open>Legal sequences: requests get fresh structures, and only held buffers that may be freed are freed.\<close>

fun legal_ops :: "('e \<Rightarrow> ptr \<Rightarrow> 's \<Rightarrow> bool) \<Rightarrow> ('r \<Rightarrow> 's \<Rightarrow> bool) \<Rightarrow> ('r \<Rightarrow> 's \<Rightarrow> (ptr result \<times> 's) option) \<Rightarrow>
    ('e \<Rightarrow> ptr \<Rightarrow> 's \<Rightarrow> 's option) \<Rightarrow> ('r, 'e) alloc_op list \<Rightarrow> 's \<Rightarrow> bool" where
  "legal_ops freeable fresh new fr [] s \<longleftrightarrow> True"
| "legal_ops freeable fresh new fr (OpNew r # ops) s \<longleftrightarrow> fresh r s \<and>
     (case new r s of None \<Rightarrow> True | Some (_, s') \<Rightarrow> legal_ops freeable fresh new fr ops s')"
| "legal_ops freeable fresh new fr (OpFree e b # ops) s \<longleftrightarrow> freeable e b s \<and>
     (case fr e b s of None \<Rightarrow> True | Some s' \<Rightarrow> legal_ops freeable fresh new fr ops s')"

fun freed_ptrs :: "('r, 'e) alloc_op list \<Rightarrow> ptr set" where
  "freed_ptrs [] = {}"
| "freed_ptrs (OpNew r # ops) = freed_ptrs ops"
| "freed_ptrs (OpFree e b # ops) = insert b (freed_ptrs ops)"

locale buffer_allocator =
  fixes inv :: "'s \<Rightarrow> bool" and held :: "'s \<Rightarrow> ptr set" and place :: "'s \<Rightarrow> ptr \<Rightarrow> nat set"
    and contents :: "'s \<Rightarrow> ptr \<Rightarrow> u8 list" and freeable :: "'e \<Rightarrow> ptr \<Rightarrow> 's \<Rightarrow> bool" and fresh :: "'r \<Rightarrow> 's \<Rightarrow> bool"
    and new :: "'r \<Rightarrow> 's \<Rightarrow> (ptr result \<times> 's) option" and fr :: "'e \<Rightarrow> ptr \<Rightarrow> 's \<Rightarrow> 's option"
  assumes disjoint: "inv s \<Longrightarrow> p \<in> held s \<Longrightarrow> q \<in> held s \<Longrightarrow> p \<noteq> q \<Longrightarrow> place s p \<inter> place s q = {}"
    and freeable_held: "freeable v b s \<Longrightarrow> b \<in> held s"
    and new_returns: "inv s \<Longrightarrow> fresh r s \<Longrightarrow> \<exists>res s'. new r s = Some (res, s') \<and> inv s'"
    and new_error: "inv s \<Longrightarrow> fresh r s \<Longrightarrow> new r s = Some (Inl e, s') \<Longrightarrow> held s' = held s"
    and new_buffer: "inv s \<Longrightarrow> fresh r s \<Longrightarrow> new r s = Some (Inr b, s') \<Longrightarrow> b \<notin> held s \<and> held s' = insert b (held s)"
    and new_keeps: "inv s \<Longrightarrow> fresh r s \<Longrightarrow> new r s = Some (res, s') \<Longrightarrow> p \<in> held s \<Longrightarrow>
      place s' p = place s p \<and> contents s' p = contents s p"
    and free_returns: "inv s \<Longrightarrow> freeable v b s \<Longrightarrow> \<exists>s'. fr v b s = Some s' \<and> inv s' \<and> held s' = held s - {b}"
    and free_keeps: "inv s \<Longrightarrow> freeable v b s \<Longrightarrow> fr v b s = Some s' \<Longrightarrow> p \<in> held s - {b} \<Longrightarrow>
      place s' p = place s p \<and> contents s' p = contents s p"
begin

lemma new_step:
  assumes "inv s" "fresh r s"
  obtains res s' where "new r s = Some (res, s')" "inv s'" "held s \<subseteq> held s'"
    "\<forall>p\<in>held s. place s' p = place s p \<and> contents s' p = contents s p"
proof -
  obtain res s' where n: "new r s = Some (res, s')" "inv s'" using new_returns [OF assms] by blast
  have "held s \<subseteq> held s'" using n(1) new_error [OF assms] new_buffer [OF assms] by (cases res) auto
  then show thesis using n new_keeps [OF assms n(1)] that by blast
qed

lemma run_legal:
  assumes "inv s" "legal_ops freeable fresh new fr ops s"
  shows "\<exists>s'. run_ops new fr ops s = Some s' \<and> inv s' \<and> held s - freed_ptrs ops \<subseteq> held s' \<and>
    (\<forall>p\<in>held s - freed_ptrs ops. place s' p = place s p \<and> contents s' p = contents s p) \<and>
    (\<forall>p\<in>held s'. \<forall>q\<in>held s'. p \<noteq> q \<longrightarrow> place s' p \<inter> place s' q = {})"
  using assms
proof (induction ops arbitrary: s rule: freed_ptrs.induct)
  case 1
  then show ?case using disjoint by auto
next
  case (2 r ops)
  from "2.prems" have "fresh r s" by simp
  from new_step [OF "2.prems"(1) this] obtain res s1 where s1: "new r s = Some (res, s1)" "inv s1" "held s \<subseteq> held s1"
    "\<forall>p\<in>held s. place s1 p = place s p \<and> contents s1 p = contents s p" by blast
  from "2.IH" [OF s1(2)] "2.prems"(2) s1(1) obtain s' where "run_ops new fr ops s1 = Some s'" "inv s'"
    "held s1 - freed_ptrs ops \<subseteq> held s'"
    "\<forall>p\<in>held s1 - freed_ptrs ops. place s' p = place s1 p \<and> contents s' p = contents s1 p"
    "\<forall>p\<in>held s'. \<forall>q\<in>held s'. p \<noteq> q \<longrightarrow> place s' p \<inter> place s' q = {}" by auto
  then show ?case using s1 by (intro exI [of _ s']) auto
next
  case (3 e b ops)
  from "3.prems" have fb: "freeable e b s" by simp
  from free_returns [OF "3.prems"(1) fb] obtain s1 where s1: "fr e b s = Some s1" "inv s1" "held s1 = held s - {b}" by blast
  note k = free_keeps [OF "3.prems"(1) fb s1(1)]
  from "3.IH" [OF s1(2)] "3.prems"(2) s1(1) obtain s' where "run_ops new fr ops s1 = Some s'" "inv s'"
    "held s1 - freed_ptrs ops \<subseteq> held s'"
    "\<forall>p\<in>held s1 - freed_ptrs ops. place s' p = place s1 p \<and> contents s' p = contents s1 p"
    "\<forall>p\<in>held s'. \<forall>q\<in>held s'. p \<noteq> q \<longrightarrow> place s' p \<inter> place s' q = {}" by auto
  then show ?case using s1 k by (intro exI [of _ s']) auto
qed

end

section \<open>The driver's allocator\<close>

definition space_inv :: "binder_alloc \<Rightarrow> bool" where
  "space_inv al \<longleftrightarrow> alloc_inv al \<and> pages_inv al \<and> pages_sized al"

definition held :: "binder_alloc \<Rightarrow> ptr set" where
  "held al = {p \<in> set (buffers al). \<not> b_free (bufs al p)}"

definition place :: "binder_alloc \<Rightarrow> ptr \<Rightarrow> nat set" where
  "place al p = {off al p ..< off al p + blen al p}"

definition contents :: "binder_alloc \<Rightarrow> ptr \<Rightarrow> u8 list" where
  "contents al p = map (\<lambda>a. the (space_byte al a)) [off al p ..< off al p + blen al p]"

definition freeable :: "rb_ops \<times> alloc_env \<Rightarrow> ptr \<Rightarrow> binder_alloc \<Rightarrow> bool" where
  "freeable v b al \<longleftrightarrow> rb_ok (fst v) \<and> b \<in> held al \<and> b_transaction (bufs al b) = None"

definition release_buf :: "rb_ops \<times> alloc_env \<Rightarrow> ptr \<Rightarrow> binder_alloc \<Rightarrow> binder_alloc option" where
  "release_buf v b al = binder_alloc_free_buf (fst v) (snd v) b al"

text \<open>A request: the environment of the call and its arguments; \<open>kzalloc\<close> returns an unused structure.\<close>

record buf_request =
  rq_rb :: rb_ops
  rq_env :: alloc_env
  rq_data :: u64
  rq_offsets :: u64
  rq_extra :: u64
  rq_async :: bool

definition fresh_request :: "buf_request \<Rightarrow> binder_alloc \<Rightarrow> bool" where
  "fresh_request r al \<longleftrightarrow> rb_ok (rq_rb r) \<and> fresh_buf (rq_env r) al"

definition request_buf :: "buf_request \<Rightarrow> binder_alloc \<Rightarrow> (ptr result \<times> binder_alloc) option" where
  "request_buf r al = binder_alloc_new_buf (rq_rb r) (rq_env r) (rq_data r) (rq_offsets r) (rq_extra r) (rq_async r) al"

lemma held_place_disjoint:
  assumes inv: "space_inv al" and p: "p \<in> held al" and q: "q \<in> held al" and ne: "p \<noteq> q"
  shows "place al p \<inter> place al q = {}"
proof -
  have lay: "layout_ok al" using inv by (simp add: space_inv_def alloc_inv_def)
  obtain us vs where bs: "buffers al = us @ p # vs" using p by (auto simp: held_def in_set_conv_decomp)
  have "q \<in> set us \<or> q \<in> set vs" using q bs ne by (auto simp: held_def)
  then show ?thesis
    using off_mono [OF lay bs, of q] off_split(1) [OF lay bs] by (auto simp: place_def)
qed

lemma contents_cong:
  assumes "off al' p = off al p" "blen al' p = blen al p"
    and "present al (off al p) (blen al p)" and "keeps_bytes al al'"
  shows "contents al' p = contents al p"
proof -
  have "space_byte al' a = space_byte al a" if a: "off al p \<le> a" "a < off al p + blen al p" for a
  proof -
    have "kmap al (a div 4096) \<noteq> None" using assms(3) a by (simp add: present_def)
    then obtain bs where "a div 4096 < length (pages al)" "page_ptr (pages al ! (a div 4096)) = Some bs"
      by (auto simp: kmap_def split: if_splits)
    then have "kmap al' (a div 4096) = kmap al (a div 4096)" using assms(4) by (auto simp: keeps_bytes_def kmap_def)
    then show ?thesis by (simp add: space_byte_def)
  qed
  then show ?thesis using assms(1,2) by (simp add: contents_def)
qed

lemma held_present:
  assumes "space_inv al" "p \<in> held al"
  shows "present al (off al p) (blen al p)"
  using allocated_present(1) [of al p 0 "blen al p"] assms by (simp add: space_inv_def alloc_inv_def held_def)

text \<open>Held buffers that keep their address and size, in a state reached without a change of their bytes.\<close>

lemma held_keeps:
  assumes "space_inv al" "p \<in> held al" "addr al' p = addr al p" "bsize al' p = bsize al p" "buffer al' = buffer al"
    "keeps_bytes al al'"
  shows "place al' p = place al p \<and> contents al' p = contents al p"
proof -
  have "off al' p = off al p" "blen al' p = blen al p" using assms by (simp_all add: off_def blen_def)
  then show ?thesis using contents_cong [OF _ _ held_present] assms by (simp add: place_def)
qed

lemma new_buf_held:
  assumes post: "new_buf_post env sz ds os es is_async al b al'"
    and fresh: "fresh_buf env al"
  shows "b \<notin> held al" "held al' = insert b (held al)"
proof -
  note P = post [unfolded new_buf_post_def]
  show "b \<notin> held al" using P by (simp add: held_def)
  have nf: "\<not> b_free (bufs al' b)" "b \<in> set (buffers al)" using P by (auto simp: taken_buffer_def)
  have other: "p \<in> set (buffers al) - {b} \<Longrightarrow> bufs al' p = bufs al p" for p using P by blast
  have "p \<in> held al' \<longleftrightarrow> p = b \<or> p \<in> held al" for p
  proof (cases "bsize al b = sz")
    case True
    then have "buffers al' = buffers al" using P by simp
    then show ?thesis using nf other [of p] P by (cases "p = b") (auto simp: held_def)
  next
    case False
    then obtain us new vs where d: "buffers al = us @ b # vs" "buffers al' = us @ b # new # vs"
      "kzalloc_buf env = Some new" "b_free (bufs al' new)" using P by auto
    have "new \<notin> set (buffers al)" using fresh d(3) by (simp add: fresh_buf_def)
    moreover have "b_free (bufs al b)" using P by blast
    ultimately show ?thesis using nf other [of p] d by (cases "p = b"; cases "p = new") (auto simp: held_def)
  qed
  then show "held al' = insert b (held al)" by blast
qed

lemma new_buf_spec:
  assumes rb: "rb_ok rb" and inv: "space_inv al"
    and fresh: "fresh_buf env al"
  obtains (err) e al' where "binder_alloc_new_buf_locked rb env ds os es is_async al = Some (Inl e, al')"
    "space_inv al'" "same_space al al'"
  | (ok) n b al' where "binder_alloc_new_buf_locked rb env ds os es is_async al = Some (Inr b, al')"
    "space_inv al'" "checked_size ds os es = Some n" "new_buf_post env (max n sizeof_ptr) ds os es is_async al b al'"
proof -
  have i: "alloc_inv al" "pages_inv al" "pages_sized al" using inv by (auto simp: space_inv_def)
  show thesis
    using rb i(1) fresh
  proof (cases rule: new_buf_locked [where env = env and ds = ds and os = os and es = es and is_async = is_async])
    case (err e al')
    have "pages_sized al'" by (rule keeps_bytes_sized [OF new_buf_bytes [OF err(1)] i(3)])
    moreover have "pages_inv al'" by (rule pages_inv_error [OF i(1,2) err(2-4)])
    moreover have "alloc_inv al'" by (rule alloc_inv_same_space [OF err(2) i(1)])
    ultimately show thesis using err that(1) by (simp add: space_inv_def)
  next
    case (ok n b start e al')
    have "pages_sized al'" by (rule keeps_bytes_sized [OF new_buf_bytes [OF ok(1)] i(3)])
    moreover have "0 < max n sizeof_ptr" by (simp add: sizeof_ptr_def less_max_iff_disj)
    then have "pages_inv al'" by (rule pages_inv_new_buf [OF i(1,2) ok(4) _ ok(5-7)])
    ultimately show thesis using ok that(2) by (simp add: space_inv_def)
  qed
qed

lemma new_buf_keeps:
  assumes rb: "rb_ok rb" and inv: "space_inv al"
    and fresh: "fresh_buf env al"
    and new: "binder_alloc_new_buf_locked rb env ds os es is_async al = Some (r, al')" and p: "p \<in> held al"
  shows "place al' p = place al p \<and> contents al' p = contents al p"
  using rb inv fresh
proof (cases rule: new_buf_spec [where env = env and ds = ds and os = os and es = es and is_async = is_async])
  case (err e al1)
  then have "al1 = al'" using new by simp
  then show ?thesis
    using held_keeps [OF inv p _ _ _ new_buf_bytes [OF new]] same_space_eqs [OF err(3)] same_spaceD(2) [OF err(3)] by simp
next
  case (ok n b al1)
  then have al1: "al1 = al'" using new by simp
  have "p \<in> set (buffers al) - {b}" using p new_buf_held(1) [OF ok(4) fresh] by (auto simp: held_def)
  then show ?thesis
    using held_keeps [OF inv p _ _ _ new_buf_bytes [OF new]] ok(4) al1 by (simp add: new_buf_post_def addr_def)
qed

lemma free_buf_spec:
  assumes rb: "rb_ok rb" and inv: "space_inv al" and bs: "buffers al = us @ b # vs" and nf: "\<not> b_free (bufs al b)"
    and tr: "b_transaction (bufs al b) = None"
  obtains al' where "binder_free_buf_locked rb env b al = Some al'" "space_inv al'"
    "buffers al' = merged_before al us b @ merged_after al vs"
    "bufs al' = (bufs al)(b := (bufs al b)\<lparr>b_free := True\<rparr>)"
    "buffer al' = buffer al" "buffer_size al' = buffer_size al" "vma al' = vma al"
    "free_async_space al' = free_async_space al +
       (if async_transaction (bufs al b) then buffer_used_size (bufs al b) + sizeof_binder_buffer else 0)"
    "held al' = held al - {b}" "\<forall>p\<in>held al - {b}. place al' p = place al p \<and> contents al' p = contents al p"
proof -
  have i: "alloc_inv al" "pages_inv al" "pages_sized al" using inv by (auto simp: space_inv_def)
  note lay = alloc_invD(1) [OF i(1)]
  obtain al4 al5 al' where F: "binder_free_buf_locked rb env b al = Some al'" "alloc_inv al'"
    "buffers al' = merged_before al us b @ merged_after al vs"
    "bufs al' = (bufs al)(b := (bufs al b)\<lparr>b_free := True\<rparr>)"
    "buffer al' = buffer al" "buffer_size al' = buffer_size al" "vma al' = vma al"
    "free_async_space al' = free_async_space al +
       (if async_transaction (bufs al b) then buffer_used_size (bufs al b) + sizeof_binder_buffer else 0)"
    "free_buf_start rb env b al al4" "length (pages al') = length (pages al)" "same_bufs al4 al5"
    "if vs \<noteq> [] \<and> b_free (bufs al (hd vs)) then boundary_page al4 b (hd vs) (tl vs) al5 else pages al5 = pages al4"
    "if us \<noteq> [] \<and> b_free (bufs al (last us)) then boundary_page al5 (last us) b (merged_after al vs) al'
     else pages al' = pages al5"
    using free_buf_locked [OF rb i(1) bs nf tr, where env = env] by blast
  note lay' = alloc_invD(1) [OF F(2)]
  have ad: "addr al' p = addr al p" for p using F(4) by (simp add: addr_def)
  note M = merged_bsize [OF lay lay' bs F(3) ad F(5,6)]
  have "pages_inv al'"
    by (rule pages_inv_free_buf [OF i(1,2) bs nf free_buf_in_use [OF i(1) bs F(9,11-13)]
          covered_free_buf [OF lay lay' bs F(3,4,5,6)] F(10)])
  moreover have "pages_sized al'" by (rule keeps_bytes_sized [OF free_buf_bytes [OF F(1)] i(3)])
  ultimately have inv': "space_inv al'" using F(2) by (simp add: space_inv_def)
  have d: "b \<notin> set us" "b \<notin> set vs" using layout_split [OF lay bs] by auto
  have sub: "set (buffers al') \<subseteq> set (buffers al)"
    unfolding F(3) bs by (auto simp: merged_before_def merged_after_def dest: list.set_sel(2))
  have other: "p \<in> set us \<union> set vs \<and> \<not> b_free (bufs al p)" if "p \<in> held al - {b}" for p
    using that bs by (auto simp: held_def)
  have h: "held al' = held al - {b}"
  proof (intro equalityI subsetI)
    fix p assume "p \<in> held al'"
    then show "p \<in> held al - {b}" using sub F(4) by (auto simp: held_def split: if_splits)
  next
    fix p assume p: "p \<in> held al - {b}"
    then show "p \<in> held al'" using M [of p] other [OF p] F(4) by (auto simp: held_def)
  qed
  have "place al' p = place al p \<and> contents al' p = contents al p" if p: "p \<in> held al - {b}" for p
    using held_keeps [OF inv _ ad _ F(5) free_buf_bytes [OF F(1)], of p] M [of p] other [OF p] p by blast
  then show thesis using that F(1) inv' F(3-8) h by blast
qed

lemma release_held:
  assumes "space_inv al" "freeable v b al"
  obtains al' where "release_buf v b al = Some al'" "space_inv al'" "held al' = held al - {b}"
    "\<forall>p\<in>held al - {b}. place al' p = place al p \<and> contents al' p = contents al p"
proof -
  have b: "b \<in> set (buffers al)" "\<not> b_free (bufs al b)" "b_transaction (bufs al b) = None" "rb_ok (fst v)"
    using assms(2) by (auto simp: freeable_def held_def)
  obtain us vs where bs: "buffers al = us @ b # vs" using b(1) by (auto simp: in_set_conv_decomp)
  show thesis
    by (rule free_buf_spec [OF b(4) assms(1) bs b(2,3), of "snd v"])
      (use that in \<open>simp add: release_buf_def binder_alloc_free_buf_def\<close>)
qed

interpretation ba: buffer_allocator space_inv held place contents freeable fresh_request request_buf release_buf
proof (standard, goal_cases)
  case (1 s p q)
  then show ?case by (rule held_place_disjoint)
next
  case (2 v b s)
  then show ?case by (simp add: freeable_def)
next
  case (3 s r)
  then have "rb_ok (rq_rb r)" "fresh_buf (rq_env r) s"
    by (auto simp: fresh_request_def)
  from this(1) 3(1) this(2) show ?case
    by (cases rule: new_buf_spec [where env = "rq_env r" and ds = "rq_data r" and os = "rq_offsets r" and
          es = "rq_extra r" and is_async = "rq_async r" and rb = "rq_rb r"])
      (auto simp: request_buf_def binder_alloc_new_buf_def)
next
  case (4 s r e s')
  then have "rb_ok (rq_rb r)" "fresh_buf (rq_env r) s"
    by (auto simp: fresh_request_def)
  from this(1) 4(1) this(2) show ?case using 4(3)
    by (cases rule: new_buf_spec [where env = "rq_env r" and ds = "rq_data r" and os = "rq_offsets r" and
          es = "rq_extra r" and is_async = "rq_async r" and rb = "rq_rb r"])
      (auto simp: request_buf_def binder_alloc_new_buf_def held_def dest: same_spaceD)
next
  case (5 s r b s')
  then have f: "rb_ok (rq_rb r)" "fresh_buf (rq_env r) s"
    by (auto simp: fresh_request_def)
  from this(1) 5(1) this(2) show ?case using 5(3)
    by (cases rule: new_buf_spec [where env = "rq_env r" and ds = "rq_data r" and os = "rq_offsets r" and
          es = "rq_extra r" and is_async = "rq_async r" and rb = "rq_rb r"])
      (auto simp: request_buf_def binder_alloc_new_buf_def dest: new_buf_held [OF _ f(2)])
next
  case (6 s r res s' p)
  then have "rb_ok (rq_rb r)" "fresh_buf (rq_env r) s"
    by (auto simp: fresh_request_def)
  with 6 show ?case by (intro new_buf_keeps) (auto simp: request_buf_def binder_alloc_new_buf_def)
next
  case (7 s v b)
  then show ?case using release_held by (metis release_buf_def)
next
  case (8 s v b s' p)
  then show ?case using release_held [OF 8(1,2)] by auto
qed

end
