(* ===== verification/Binder_Alloc_Life.thy ===== *)
theory Binder_Alloc_Life
  imports Binder_Alloc_Spec
begin

text \<open>
  The life of an allocator: \<open>binder_alloc_mmap_handler\<close> sets the space up, the user gives buffers back
  by address (\<open>binder_alloc_prepare_to_free\<close>), the client reads, writes and marks its buffers, the
  shrinker takes pages, and \<open>binder_alloc_deferred_release\<close> frees what is left. The step relation
  collects these operations; the invariant holds in every reachable state.
\<close>

section \<open>Mapping\<close>

definition unmapped :: "binder_alloc \<Rightarrow> bool" where
  "unmapped al \<longleftrightarrow> buffer_size al = 0 \<and> buffers al = [] \<and> free_buffers al = Leaf \<and> allocated_buffers al = Leaf \<and>
     vma al = None"

text \<open>What the kernel guarantees of a mapping: page-aligned, not empty, no wrap-around.\<close>

definition vm_area_ok :: "vm_area \<Rightarrow> bool" where
  "vm_area_ok w \<longleftrightarrow> 4096 dvd unat (bvm_start w) \<and> 4096 dvd unat (bvm_end w) \<and> bvm_start w < bvm_end w"

definition mapped_size :: "vm_area \<Rightarrow> u64" where
  "mapped_size w = min (bvm_end w - bvm_start w) SZ_4M"

lemma mapped_size_facts:
  assumes "vm_area_ok w"
  shows "4096 dvd unat (mapped_size w)" "0 < unat (mapped_size w)"
    "unat (bvm_start w) + unat (mapped_size w) < 2 ^ 64" "unat (mapped_size w) \<le> 4 * 1024 * 1024"
proof -
  let ?d = "bvm_end w - bvm_start w"
  have v: "4096 dvd unat (bvm_start w)" "4096 dvd unat (bvm_end w)" "unat (bvm_start w) < unat (bvm_end w)"
    using assms by (auto simp: vm_area_ok_def word_less_nat_alt)
  have d: "unat ?d = unat (bvm_end w) - unat (bvm_start w)"
    using v by (intro unat_sub) (simp add: word_le_nat_alt)
  have m: "unat (mapped_size w) = min (unat ?d) 4194304"
    by (simp add: mapped_size_def SZ_4M_def min_def word_le_nat_alt)
  show "4096 dvd unat (mapped_size w)" unfolding m d using v by (auto simp: min_def)
  show "0 < unat (mapped_size w)" "unat (mapped_size w) \<le> 4 * 1024 * 1024" unfolding m d using v by auto
  have "unat (bvm_end w) < 2 ^ 64" using unsigned_less [of "bvm_end w"] by simp
  then show "unat (bvm_start w) + unat (mapped_size w) < 2 ^ 64" unfolding m d using v by linarith
qed

definition mapped_alloc :: "rb_ops \<Rightarrow> ptr \<Rightarrow> vm_area \<Rightarrow> binder_alloc \<Rightarrow> binder_alloc" where
  "mapped_alloc rb b w al = al\<lparr>buffer_size := mapped_size w, buffer := bvm_start w,
     pages := replicate (unat (mapped_size w) div 4096) zero_page,
     bufs := (bufs al)(b := zero_buffer\<lparr>user_data := bvm_start w, b_free := True\<rparr>), buffers := [b],
     free_buffers := rb_insert_color rb b (Node Leaf b Leaf), free_async_space := mapped_size w div 2,
     vma_vm_mm := Some (bvm_mm w), vma := Some (bvm_addr w), mm_grabs := mm_grabs al + 1\<rparr>"

lemma mmap_handler_maps:
  assumes "unmapped al"
  shows "binder_alloc_mmap_handler rb True (Some b) w al = Some (Inr (), mapped_alloc rb b w al)"
  using assms
  by (cases al) (simp add: binder_alloc_mmap_handler_def Let_def unmapped_def binder_insert_free_buffer_def set_buf_def
      binder_alloc_set_vma_def mapped_alloc_def mapped_size_def unat_div zero_buffer_def)

lemma mapped_alloc_inv:
  assumes rb: "rb_ok rb" and um: "unmapped al" and w: "vm_area_ok w"
  shows "space_inv (mapped_alloc rb b w al)"
proof -
  let ?al = "mapped_alloc rb b w al"
  note m = mapped_size_facts [OF w]
  have io: "inorder (free_buffers ?al) = [b]" by (simp add: mapped_alloc_def rb_okD(1) [OF rb])
  have "bvm_start w < bvm_start w + mapped_size w"
    using m(2,3) by (simp add: word_less_nat_alt unat_word_ariths)
  then have "layout_ok ?al"
    using m w by (simp add: layout_ok_def space_ok_def mapped_alloc_def addr_def space_end_def vm_area_ok_def)
  moreover have "free_tree_ok ?al" using io by (simp add: free_tree_ok_def) (simp add: mapped_alloc_def)
  moreover have "allocated_tree_ok ?al" using um by (simp add: allocated_tree_ok_def mapped_alloc_def unmapped_def)
  moreover have "no_adjacent_free ?al" by (simp add: no_adjacent_free_def mapped_alloc_def)
  moreover have "contents_fit ?al" by (simp add: contents_fit_def mapped_alloc_def)
  ultimately have "alloc_inv ?al" by (simp add: alloc_inv_def)
  moreover have "pages_inv ?al"
    by (simp add: pages_inv_def covered_def mapped_alloc_def in_use_def zero_page_def)
  moreover have "pages_sized ?al" by (simp add: pages_sized_def mapped_alloc_def zero_page_def)
  ultimately show ?thesis by (simp add: space_inv_def)
qed

lemma mmap_handler_cases:
  assumes "binder_alloc_mmap_handler rb pages_ok new w al = Some (r, al')"
  obtains (busy) "buffer_size al \<noteq> 0" "r = Inl EBUSY" "al' = al"
  | (nomem) "buffer_size al = 0" "r = Inl ENOMEM" "\<not> pages_ok \<or> new = None"
      "al' = al\<lparr>buffer_size := 0, buffer := 0, pages := []\<rparr>"
  | (ok) b where "buffer_size al = 0" "r = Inr ()" "pages_ok" "new = Some b"
proof (cases "buffer_size al = 0 \<and> pages_ok \<and> new \<noteq> None")
  case True
  then show thesis using assms ok
    by (auto simp: binder_alloc_mmap_handler_def Let_def split: option.splits)
next
  case False
  then show thesis using assms busy nomem
    by (cases al; cases "buffer_size al = 0") (auto simp: binder_alloc_mmap_handler_def Let_def split: if_splits option.splits)
qed

section \<open>Giving a buffer back by its address\<close>

lemma prepare_search:
  assumes "\<forall>q\<in>set_tree t. \<not> b_free (bufs al q)" "sorted_wrt (\<lambda>p q. addr al p < addr al q) (inorder t)"
  shows "b \<in> set_tree t \<Longrightarrow> prepare_to_free_search t (addr al b) al =
      (if allow_user_free (bufs al b)
       then Some (Inr (Some b), set_buf b ((bufs al b)\<lparr>allow_user_free := False\<rparr>) al) else Some (Inl EPERM, al))"
    and "\<forall>b\<in>set_tree t. addr al b \<noteq> uptr \<Longrightarrow> prepare_to_free_search t uptr al = Some (Inr None, al)"
proof -
  show "prepare_to_free_search t (addr al b) al =
      (if allow_user_free (bufs al b)
       then Some (Inr (Some b), set_buf b ((bufs al b)\<lparr>allow_user_free := False\<rparr>) al) else Some (Inl EPERM, al))"
    if "b \<in> set_tree t"
    using assms that
  proof (induction t)
    case (Node l q r)
    consider "b = q" | "b \<in> set_tree l" "addr al b < addr al q" | "b \<in> set_tree r" "addr al q < addr al b"
      using Node.prems by (auto simp: sorted_wrt_append)
    then show ?case
      using Node by cases (auto simp: sorted_wrt_append addr_def)
  qed simp
  show "prepare_to_free_search t uptr al = Some (Inr None, al)" if "\<forall>b\<in>set_tree t. addr al b \<noteq> uptr"
    using assms that by (induction t) (auto simp: sorted_wrt_append addr_def)
qed

lemma held_tree:
  assumes "alloc_inv al"
  shows "set_tree (allocated_buffers al) = held al"
    "sorted_wrt (\<lambda>p q. addr al p < addr al q) (inorder (allocated_buffers al))"
proof -
  have io: "inorder (allocated_buffers al) = filter (\<lambda>p. \<not> b_free (bufs al p)) (buffers al)"
    using alloc_invD(3) [OF assms] by (simp add: allocated_tree_ok_def)
  have "set_tree (allocated_buffers al) = set (inorder (allocated_buffers al))" by simp
  then show "set_tree (allocated_buffers al) = held al" unfolding io by (auto simp: held_def)
  show "sorted_wrt (\<lambda>p q. addr al p < addr al q) (inorder (allocated_buffers al))"
    unfolding io using alloc_invD(1) [OF assms] by (intro sorted_wrt_filter) (simp add: layout_ok_def)
qed

lemma prepare_to_free_cases:
  assumes inv: "alloc_inv al"
  shows "b \<in> held al \<Longrightarrow> binder_alloc_prepare_to_free (addr al b) al =
      (if allow_user_free (bufs al b)
       then Some (Inr (Some b), set_buf b ((bufs al b)\<lparr>allow_user_free := False\<rparr>) al) else Some (Inl EPERM, al))"
    and "\<forall>b\<in>held al. addr al b \<noteq> uptr \<Longrightarrow> binder_alloc_prepare_to_free uptr al = Some (Inr None, al)"
proof -
  have nf: "\<forall>q\<in>set_tree (allocated_buffers al). \<not> b_free (bufs al q)"
    unfolding held_tree(1) [OF inv] by (simp add: held_def)
  note s = prepare_search [OF nf held_tree(2) [OF inv], unfolded held_tree(1) [OF inv]]
  show "b \<in> held al \<Longrightarrow> binder_alloc_prepare_to_free (addr al b) al =
      (if allow_user_free (bufs al b)
       then Some (Inr (Some b), set_buf b ((bufs al b)\<lparr>allow_user_free := False\<rparr>) al) else Some (Inl EPERM, al))"
    "\<forall>b\<in>held al. addr al b \<noteq> uptr \<Longrightarrow> binder_alloc_prepare_to_free uptr al = Some (Inr None, al)"
    using s by (simp_all add: binder_alloc_prepare_to_free_def binder_alloc_prepare_to_free_locked_def)
qed

section \<open>Fields that belong to the client\<close>

text \<open>The client marks a buffer as freeable by the user and attaches a transaction and a node to it.\<close>

definition client_fields :: "ptr \<Rightarrow> bool \<Rightarrow> ptr option \<Rightarrow> ptr option \<Rightarrow> nat \<Rightarrow> binder_alloc \<Rightarrow> binder_alloc" where
  "client_fields b allow t n d al = set_buf b ((bufs al b)\<lparr>allow_user_free := allow, b_transaction := t,
     b_target_node := n, b_debug_id := d\<rparr>) al"

lemma client_fields_eqs [simp]:
  "addr (client_fields b x t n d al) p = addr al p" "bsize (client_fields b x t n d al) p = bsize al p"
  "b_free (bufs (client_fields b x t n d al) p) = b_free (bufs al p)"
  "buffer_used_size (bufs (client_fields b x t n d al) p) = buffer_used_size (bufs al p)"
  "buffers (client_fields b x t n d al) = buffers al" "buffer (client_fields b x t n d al) = buffer al"
  "buffer_size (client_fields b x t n d al) = buffer_size al" "pages (client_fields b x t n d al) = pages al"
  "free_buffers (client_fields b x t n d al) = free_buffers al"
  "allocated_buffers (client_fields b x t n d al) = allocated_buffers al" "vma (client_fields b x t n d al) = vma al"
  by (auto simp: client_fields_def addr_def bsize_set_buf buffer_used_size_def)

lemma space_inv_cong:
  assumes "\<And>p. addr al' p = addr al p" "\<And>p. bsize al' p = bsize al p" "\<And>p. b_free (bufs al' p) = b_free (bufs al p)"
    "\<And>p. buffer_used_size (bufs al' p) = buffer_used_size (bufs al p)" "buffers al' = buffers al"
    "buffer al' = buffer al" "buffer_size al' = buffer_size al" "free_buffers al' = free_buffers al"
    "allocated_buffers al' = allocated_buffers al" "length (pages al') = length (pages al)"
    "\<And>i. i < length (pages al) \<Longrightarrow> in_use (pages al' ! i) = in_use (pages al ! i)"
    "pages_sized al \<Longrightarrow> pages_sized al'"
  shows "space_inv al \<Longrightarrow> space_inv al'"
proof -
  have "covered al' i = covered al i" for i
    using assms(1-7) by (simp add: covered_def overlaps_def off_def blen_def)
  then show "space_inv al \<Longrightarrow> space_inv al'"
    using assms by (simp add: space_inv_def alloc_inv_def layout_ok_def space_ok_def space_end_def free_tree_ok_def
        allocated_tree_ok_def no_adjacent_free_def contents_fit_def pages_inv_def)
qed

lemma space_inv_client: "space_inv al \<Longrightarrow> space_inv (client_fields b x t n d al)"
  by (rule space_inv_cong [of _ al]) (simp_all add: pages_sized_def)

lemma prepare_client:
  "set_buf b ((bufs al b)\<lparr>allow_user_free := False\<rparr>) al =
   client_fields b False (b_transaction (bufs al b)) (b_target_node (bufs al b)) (b_debug_id (bufs al b)) al"
  by (simp add: client_fields_def)

lemma space_inv_prepare:
  assumes "space_inv al" "binder_alloc_prepare_to_free uptr al = Some (r, al')"
  shows "space_inv al'"
proof (cases "\<exists>b\<in>held al. addr al b = uptr")
  case True
  then obtain b where "b \<in> held al" "addr al b = uptr" by blast
  then show ?thesis
    using assms prepare_to_free_cases(1) [of al b] space_inv_client unfolding prepare_client
    by (auto simp: space_inv_def split: if_splits)
next
  case False
  then show ?thesis using assms prepare_to_free_cases(2) [of al uptr] by (auto simp: space_inv_def)
qed

lemma space_inv_written:
  assumes "space_inv al" "written al x ys al'"
  shows "space_inv al'"
proof (rule space_inv_cong [OF _ _ _ _ _ _ _ _ _ _ _ _ assms(1)])
  have S: "same_space al al'" using assms(2) by (simp add: written_def)
  note e = same_spaceD [OF S] same_space_eqs [OF S]
  show "addr al' p = addr al p" "bsize al' p = bsize al p" "b_free (bufs al' p) = b_free (bufs al p)"
    "buffer_used_size (bufs al' p) = buffer_used_size (bufs al p)" "buffers al' = buffers al" "buffer al' = buffer al"
    "buffer_size al' = buffer_size al" "free_buffers al' = free_buffers al"
    "allocated_buffers al' = allocated_buffers al" "length (pages al') = length (pages al)" for p
    by (simp_all add: e)
  show "in_use (pages al' ! i) = in_use (pages al ! i)" if "i < length (pages al)" for i
    by (rule written_in_use [OF assms(2) that])
  show "pages_sized al \<Longrightarrow> pages_sized al'" by (rule written_eqs(5) [OF assms(2)])
qed

section \<open>Reading and writing a buffer\<close>

lemma checked_access:
  assumes inv: "space_inv al" and b: "b \<in> set (buffers al)" and c: "check_buffer al b o1 n"
  shows "layout_ok al" "pages_sized al" "off al b + unat o1 + unat n < 2 ^ 64" "present al (off al b + unat o1) (unat n)"
    "unat o1 + unat n \<le> blen al b" "b \<in> held al"
proof -
  show i: "layout_ok al" "pages_sized al" using inv by (auto simp: space_inv_def alloc_inv_def)
  note r = check_buffer_range [OF c]
  have pi: "pages_inv al" using inv by (simp add: space_inv_def)
  show "present al (off al b + unat o1) (unat n)" "off al b + unat o1 + unat n < 2 ^ 64"
    using allocated_present [OF i(1) pi b r(2,1)] by auto
  show "unat o1 + unat n \<le> blen al b" "b \<in> held al" using r b by (auto simp: held_def)
qed

lemma copy_to_buffer_writes:
  assumes inv: "space_inv al" and b: "b \<in> set (buffers al)" and len: "length src < 2 ^ 64"
    and c: "check_buffer al b o1 (of_nat (length src))"
  obtains al' where "binder_alloc_copy_to_buffer b o1 src al = Some (Inr (), al')" "written al (off al b + unat o1) src al'"
proof -
  have u: "unat (of_nat (length src) :: u64) = length src" by (rule unat_of_nat_u64 [OF len])
  note a = checked_access [OF inv b c, unfolded u]
  obtain al' where "copy_to_loop b o1 src al = Some al'" "written al (off al b + unat o1) src al'"
    using copy_to_loop_present [OF a(1,2) b a(3,4)] by blast
  then show thesis using c that by (simp add: binder_alloc_copy_to_buffer_def)
qed

lemma copy_from_buffer_reads:
  assumes inv: "space_inv al" and b: "b \<in> set (buffers al)" and c: "check_buffer al b o1 n"
  shows "binder_alloc_copy_from_buffer b o1 n al = Some (Inr (take (unat n) (drop (unat o1) (contents al b))))"
proof -
  note a = checked_access [OF inv b c]
  let ?f = "\<lambda>a. the (space_byte al a)" and ?x = "off al b"
  have "map ?f [?x + unat o1 ..< ?x + unat o1 + unat n] = take (unat n) (drop (unat o1) (map ?f [?x ..< ?x + blen al b]))"
    using a(5) by (simp add: drop_map take_map)
  then show ?thesis
    using copy_from_loop_present [OF a(1,2) b a(3,4)] c by (simp add: binder_alloc_copy_from_buffer_def contents_def)
qed

lemma copy_user_to_buffer_writes:
  assumes inv: "space_inv al" and b: "b \<in> set (buffers al)" and c: "check_buffer al b o1 n"
  obtains al' zs where "binder_alloc_copy_user_to_buffer b o1 ub n al = Some (unat n - length ub, al')"
    "written al (off al b + unat o1) (take (unat n) ub @ zs) al'" "length (take (unat n) ub @ zs) \<le> unat n"
proof -
  note a = checked_access [OF inv b c]
  show thesis
    using copy_user_loop_present [OF a(1,2) b a(3,4), of ub] c that by (auto simp: binder_alloc_copy_user_to_buffer_def)
qed

text \<open>Writing inside one held buffer: its contents change there, and no other contents change.\<close>

lemma written_contents:
  assumes inv: "space_inv al" and b: "b \<in> held al" and w: "written al (off al b + k) ys al'" and k: "k + length ys \<le> blen al b"
  shows "contents al' b = take k (contents al b) @ ys @ drop (k + length ys) (contents al b)"
    and "p \<in> held al - {b} \<Longrightarrow> contents al' p = contents al p"
    and "place al' p = place al p" "held al' = held al"
proof -
  have S: "same_space al al'" using w by (simp add: written_def)
  note e = same_spaceD [OF S] same_space_eqs [OF S]
  have ob: "off al' p = off al p" "blen al' p = blen al p" for p by (simp_all add: off_def blen_def e)
  then show "place al' p = place al p" "held al' = held al" by (simp_all add: place_def held_def e)
  have sb: "space_byte al' a = (if off al b + k \<le> a \<and> a < off al b + k + length ys then Some (ys ! (a - (off al b + k)))
      else space_byte al a)" for a
    using w unfolding written_def by blast
  show "contents al' b = take k (contents al b) @ ys @ drop (k + length ys) (contents al b)"
  proof (rule nth_equalityI)
    show "length (contents al' b) = length (take k (contents al b) @ ys @ drop (k + length ys) (contents al b))"
      using k by (simp add: contents_def ob)
    fix i assume "i < length (contents al' b)"
    then have lt: "i < blen al b" by (simp add: contents_def ob)
    consider "i < k" | j where "i = k + j" "j < length ys" | j where "i = k + length ys + j"
      by (metis add_less_cancel_left le_add_diff_inverse not_less)
    then show "contents al' b ! i = (take k (contents al b) @ ys @ drop (k + length ys) (contents al b)) ! i"
      using lt k by cases (simp_all add: contents_def ob sb nth_append add.assoc)
  qed
  show "contents al' p = contents al p" if p: "p \<in> held al - {b}"
  proof -
    have "place al p \<inter> place al b = {}" using held_place_disjoint [OF inv _ b] p by blast
    then have "space_byte al' a = space_byte al a" if "a \<in> place al p" for a
      using that k unfolding sb place_def by auto
    then show ?thesis by (simp add: contents_def ob place_def)
  qed
qed

section \<open>Release\<close>

lemma all_free_single:
  assumes "alloc_inv al" "held al = {}"
  shows "\<exists>b. buffers al = [b]"
proof -
  note i = alloc_invD [OF assms(1)]
  have f: "\<forall>p\<in>set (buffers al). b_free (bufs al p)" using assms(2) by (auto simp: held_def)
  obtain b bs where bs: "buffers al = b # bs" using i(1) by (cases "buffers al") (auto simp: layout_ok_def)
  have "bs = []" using i(4) f bs by (cases bs) (auto simp: no_adjacent_free_def)
  then show ?thesis using bs by blast
qed

lemma release_buffers_all:
  assumes "rb_ok rb" "space_inv al" "\<forall>p\<in>held al. b_transaction (bufs al p) = None" "card (held al) < k"
  shows "\<exists>al'. release_buffers rb env k n al = Some (n + card (held al), al') \<and> space_inv al' \<and> held al' = {} \<and>
    buffer_size al' = buffer_size al \<and> vma al' = vma al"
  using assms(2-)
proof (induction k arbitrary: n al)
  case (Suc k)
  have inv: "alloc_inv al" using Suc.prems(1) by (simp add: space_inv_def)
  have fin: "finite (held al)" by (simp add: held_def)
  have tree: "set (inorder (allocated_buffers al)) = held al" using held_tree(1) [OF inv] by simp
  show ?case
  proof (cases "inorder (allocated_buffers al)")
    case Nil
    then show ?thesis using tree Suc.prems(1) by simp
  next
    case (Cons b bs)
    then have b: "b \<in> held al" using tree by auto
    then obtain us vs where s: "buffers al = us @ b # vs" by (auto simp: held_def in_set_conv_decomp)
    have b': "\<not> b_free (bufs al b)" "b_transaction (bufs al b) = None" using b Suc.prems(2) by (auto simp: held_def)
    obtain al1 where al1: "binder_free_buf_locked rb env b al = Some al1" "space_inv al1" "held al1 = held al - {b}"
      "bufs al1 = (bufs al)(b := (bufs al b)\<lparr>b_free := True\<rparr>)" "buffer_size al1 = buffer_size al" "vma al1 = vma al"
      using free_buf_spec [OF assms(1) Suc.prems(1) s b'] by metis
    have "\<forall>p\<in>held al1. b_transaction (bufs al1 p) = None" using al1(3,4) Suc.prems(2) by auto
    moreover have "card (held al1) < k" "card (held al) = Suc (card (held al1))"
      using card_Suc_Diff1 [OF fin b] Suc.prems(3) unfolding al1(3) by linarith+
    ultimately obtain al' where al': "release_buffers rb env k (Suc n) al1 = Some (Suc n + card (held al1), al')"
      "space_inv al'" "held al' = {}" "buffer_size al' = buffer_size al1" "vma al' = vma al1"
      and c: "card (held al) = Suc (card (held al1))"
      using Suc.IH [OF al1(2), of "Suc n"] by blast
    have "release_buffers rb env (Suc k) n al = release_buffers rb env k (Suc n) al1"
      using Cons b'(2) al1(1) by simp
    then show ?thesis using al' al1(5,6) c by simp
  qed
qed simp

section \<open>The step relation\<close>

definition alloc_start :: "binder_alloc \<Rightarrow> bool" where
  "alloc_start al \<longleftrightarrow> unmapped al \<and> pages al = []"

inductive alloc_step :: "binder_alloc \<Rightarrow> binder_alloc \<Rightarrow> bool" where
  mmap: "rb_ok rb \<Longrightarrow> vm_area_ok w \<Longrightarrow> binder_alloc_mmap_handler rb pages_ok new w al = Some (r, al') \<Longrightarrow> alloc_step al al'"
| new_buf: "rb_ok rb \<Longrightarrow> fresh_buf env al \<Longrightarrow>
    binder_alloc_new_buf rb env ds os es is_async al = Some (rb', al') \<Longrightarrow> alloc_step al al'"
| free_buf: "freeable (rb, env) b al \<Longrightarrow> binder_alloc_free_buf rb env b al = Some al' \<Longrightarrow> alloc_step al al'"
| prepare: "binder_alloc_prepare_to_free uptr al = Some (rp, al') \<Longrightarrow> alloc_step al al'"
| copy_to: "b \<in> set (buffers al) \<Longrightarrow> length src < 2 ^ 64 \<Longrightarrow>
    binder_alloc_copy_to_buffer b o1 src al = Some (r, al') \<Longrightarrow> alloc_step al al'"
| copy_user: "b \<in> set (buffers al) \<Longrightarrow>
    binder_alloc_copy_user_to_buffer b o1 ub n al = Some (rest, al') \<Longrightarrow> alloc_step al al'"
| client: "b \<in> held al \<Longrightarrow> alloc_step al (client_fields b allow t node d al)"
| vma_close: "alloc_step al (binder_alloc_vma_close al)"

inductive alloc_reachable :: "binder_alloc \<Rightarrow> bool" where
  start: "alloc_start al \<Longrightarrow> alloc_reachable al"
| step: "alloc_reachable al \<Longrightarrow> alloc_step al al' \<Longrightarrow> alloc_reachable al'"

lemma unmapped_new_buf:
  "unmapped al \<Longrightarrow> binder_alloc_new_buf rb env ds os es is_async al = Some (Inl ESRCH, al)"
  by (simp add: binder_alloc_new_buf_def binder_alloc_new_buf_locked_def binder_alloc_get_vma_def unmapped_def)

lemma unmapped_prepare: "unmapped al \<Longrightarrow> binder_alloc_prepare_to_free uptr al = Some (Inr None, al)"
  by (simp add: binder_alloc_prepare_to_free_def binder_alloc_prepare_to_free_locked_def unmapped_def)

definition alloc_state_inv :: "binder_alloc \<Rightarrow> bool" where
  "alloc_state_inv al \<longleftrightarrow> unmapped al \<or> space_inv al"

lemma space_inv_size: "space_inv al \<Longrightarrow> buffer_size al \<noteq> 0"
proof
  assume i: "space_inv al" and z: "buffer_size al = 0"
  have lay: "layout_ok al" using i by (simp add: space_inv_def alloc_inv_def)
  then obtain b bs where "buffers al = b # bs" by (cases "buffers al") (auto simp: layout_ok_def)
  then show False using layout_addr [OF lay, of b] z by (simp add: word_le_nat_alt)
qed

lemma alloc_step_inv:
  assumes "alloc_step al al'" "alloc_state_inv al"
  shows "alloc_state_inv al'"
  using assms
proof (induction rule: alloc_step.induct)
  case (mmap rb w pages_ok new al r al')
  show ?case
    using mmap(3)
  proof (cases rule: mmap_handler_cases)
    case nomem
    then show ?thesis using mmap(4) space_inv_size by (auto simp: alloc_state_inv_def unmapped_def)
  next
    case (ok b)
    then have um: "unmapped al" using mmap(4) space_inv_size by (auto simp: alloc_state_inv_def)
    then have "al' = mapped_alloc rb b w al" using mmap_handler_maps [OF um] mmap(3) ok by simp
    then show ?thesis using mapped_alloc_inv [OF mmap(1) um mmap(2)] by (simp add: alloc_state_inv_def)
  qed (use mmap(4) in simp)
next
  case (new_buf rb env al ds os es is_async rb' al')
  show ?case
  proof (cases "unmapped al")
    case True
    then show ?thesis using new_buf(3) unmapped_new_buf by (simp add: alloc_state_inv_def)
  next
    case False
    then have inv: "space_inv al" using new_buf(4) by (simp add: alloc_state_inv_def)
    show ?thesis
      using new_buf(1) inv new_buf(2)
      by (cases rule: new_buf_spec [where env = env and ds = ds and os = os and es = es and is_async = is_async])
        (use new_buf(3) in \<open>auto simp: binder_alloc_new_buf_def alloc_state_inv_def\<close>)
  qed
next
  case (free_buf rb env b al al')
  have "space_inv al" using free_buf by (auto simp: alloc_state_inv_def unmapped_def freeable_def held_def)
  then show ?case
    using release_held [OF _ free_buf(1)] free_buf(2) by (auto simp: release_buf_def alloc_state_inv_def)
next
  case (prepare uptr al rp al')
  then show ?case using space_inv_prepare unmapped_prepare by (auto simp: alloc_state_inv_def)
next
  case (copy_to b al src o1 r al')
  have inv: "space_inv al" using copy_to by (auto simp: alloc_state_inv_def unmapped_def)
  then show ?case
    using copy_to_buffer_writes [OF inv copy_to(1,2), of o1] copy_to(3) space_inv_written [OF inv]
    by (cases "check_buffer al b o1 (of_nat (length src))") (auto simp: alloc_state_inv_def binder_alloc_copy_to_buffer_def)
next
  case (copy_user b al o1 ub n rest al')
  have inv: "space_inv al" using copy_user by (auto simp: alloc_state_inv_def unmapped_def)
  then show ?case
    using copy_user_to_buffer_writes [OF inv copy_user(1), of o1 n ub] copy_user(2) space_inv_written [OF inv]
    by (cases "check_buffer al b o1 n") (auto simp: alloc_state_inv_def binder_alloc_copy_user_to_buffer_def)
next
  case (client b al allow t node d)
  then show ?case using space_inv_client by (auto simp: alloc_state_inv_def unmapped_def held_def)
next
  case (vma_close al)
  have "space_inv al \<Longrightarrow> space_inv (al\<lparr>vma := None\<rparr>)"
    by (rule space_inv_cong [of _ al])
      (simp_all add: addr_def binder_alloc_buffer_size_def binder_buffer_next_def pages_sized_def cong: option.case_cong)
  then show ?case
    using vma_close by (auto simp: alloc_state_inv_def unmapped_def binder_alloc_vma_close_def binder_alloc_set_vma_def)
qed

lemma alloc_reachable_inv: "alloc_reachable al \<Longrightarrow> alloc_state_inv al"
  by (induction rule: alloc_reachable.induct) (simp add: alloc_start_def alloc_state_inv_def, rule alloc_step_inv)

end
