(* ===== verification/Binder_Alloc_Props.thy ===== *)
theory Binder_Alloc_Props
  imports Binder_Alloc_Life
begin

text \<open>
  The properties of the buffer allocator: what \<open>binder_alloc_new_buf\<close> and \<open>binder_alloc_free_buf\<close> do on
  every branch, how they undo each other, the isolation of buffers, the pages under them, and the
  accounting of the space for one-way transactions.
\<close>

section \<open>When a request succeeds\<close>

text \<open>An environment in which no allocation of the kernel fails.\<close>

definition generous :: "alloc_env \<Rightarrow> bool" where
  "generous env \<longleftrightarrow> mmget_ok env \<and> (\<forall>i. alloc_page_ok env i \<and> vm_insert_ok env i) \<and> kzalloc_buf env \<noteq> None"

lemma alloc_pages_loop_generous:
  "generous env \<Longrightarrow> alloc_pages_loop env vis is al = Some (r, al') \<Longrightarrow> r = Inr ()"
  by (induction env vis "is" al rule: alloc_pages_loop.induct) (auto simp: generous_def split: if_splits)

lemma update_page_range_generous:
  assumes "generous env" "vma al \<noteq> None" "binder_update_page_range env True start e al = Some (r, al')"
  shows "r = Inr ()"
proof -
  have "mmget_ok env" using assms(1) by (simp add: generous_def)
  then show ?thesis
    using assms(2,3) alloc_pages_loop_generous [OF assms(1)]
    by (auto simp: binder_update_page_range_def Let_def split: if_splits option.splits)
qed

definition request_fits :: "u64 \<Rightarrow> u64 \<Rightarrow> u64 \<Rightarrow> bool \<Rightarrow> binder_alloc \<Rightarrow> bool" where
  "request_fits ds os es is_async al \<longleftrightarrow>
     (case checked_size ds os es of None \<Rightarrow> False
      | Some n \<Rightarrow> \<not> (is_async \<and> free_async_space al < n + sizeof_binder_buffer) \<and>
          (\<exists>p\<in>set (buffers al). b_free (bufs al p) \<and> max n sizeof_ptr \<le> bsize al p))"

lemma new_buf_no_error:
  assumes inv: "alloc_inv al" and env: "generous env" and v: "vma al \<noteq> None" and fits: "request_fits ds os es is_async al"
  shows "binder_alloc_new_buf_locked rb env ds os es is_async al \<noteq> Some (Inl e, al')"
proof
  assume err: "binder_alloc_new_buf_locked rb env ds os es is_async al = Some (Inl e, al')"
  obtain n p where n: "checked_size ds os es = Some n" "\<not> (is_async \<and> free_async_space al < n + sizeof_binder_buffer)"
    and p: "p \<in> set (buffers al)" "b_free (bufs al p)" "max n sizeof_ptr \<le> bsize al p"
    using fits by (auto simp: request_fits_def split: option.splits)
  have ft: "free_tree_ok al" by (rule alloc_invD(2) [OF inv])
  then have f: "\<forall>q\<in>set (inorder (free_buffers al)). b_free (bufs al q)"
    "sorted_wrt (\<lambda>p q. bsize al p \<le> bsize al q) (inorder (free_buffers al))" "p \<in> set (inorder (free_buffers al))"
    using p by (auto simp: free_tree_ok_def)
  obtain b ex where s: "best_fit_search al (max n sizeof_ptr) (free_buffers al) None = Some (Some b, ex)"
    using best_fit_search [OF f(1,2), of "max n sizeof_ptr"] f(3) p(3) by (metis not_less)
  obtain start e1 where se: "new_buf_pages al b (max n sizeof_ptr) = (start, e1)"
    by (cases "new_buf_pages al b (max n sizeof_ptr)")
  have "binder_update_page_range env True start e1 al \<noteq> None"
  proof
    assume "binder_update_page_range env True start e1 al = None"
    with err v n s se show False by (auto simp: binder_alloc_new_buf_locked_def binder_alloc_get_vma_def Let_def)
  qed
  then obtain r al1 where r: "binder_update_page_range env True start e1 al = Some (r, al1)" by auto
  have "r = Inr ()" by (rule update_page_range_generous [OF env v r])
  then have "new_buf_finish rb env start e1 b (max n sizeof_ptr) ds os es is_async (bsize al b) al1 = Some (Inl e, al')"
    using new_buf_unfold [OF v n s se r, of rb] err by simp
  then show False
    using env by (auto simp: new_buf_finish_def generous_def split: if_splits option.splits)
qed

lemma new_buf_succeeds:
  assumes rb: "rb_ok rb" and inv: "space_inv al" and fr: "fresh_buf env al" and env: "generous env" and v: "vma al \<noteq> None"
    and fits: "request_fits ds os es is_async al"
  obtains n b al' where "binder_alloc_new_buf_locked rb env ds os es is_async al = Some (Inr b, al')"
    "space_inv al'" "checked_size ds os es = Some n" "new_buf_post env (max n sizeof_ptr) ds os es is_async al b al'"
  using rb inv fr
proof (cases rule: new_buf_spec [where env = env and ds = ds and os = os and es = es and is_async = is_async])
  case (err e al')
  then show thesis
    using new_buf_no_error [OF _ env v fits] inv by (simp add: space_inv_def)
next
  case (ok n b al')
  then show thesis using that by blast
qed

section \<open>A small allocator\<close>

definition demo_empty :: binder_alloc where
  "demo_empty = \<lparr>vma = None, vma_vm_mm = None, mm_grabs = 0, buffer = 0, buffers = [], bufs = (\<lambda>_. zero_buffer),
     free_buffers = Leaf, allocated_buffers = Leaf, free_async_space = 0, pages = [], buffer_size = 0, pages_high = 0\<rparr>"

definition demo_area :: vm_area where
  "demo_area = \<lparr>bvm_start = 0x10000, bvm_end = 0x14000, bvm_mm = 2, bvm_addr = 3\<rparr>"

definition demo_space :: binder_alloc where
  "demo_space = mapped_alloc plain_rb 5 demo_area demo_empty"

definition demo_env :: "ptr \<Rightarrow> alloc_env" where
  "demo_env p = \<lparr>mmget_ok = True, alloc_page_ok = (\<lambda>_. True), vm_insert_ok = (\<lambda>_. True), kzalloc_buf = Some p\<rparr>"

lemma demo_space_facts:
  "alloc_start demo_empty" "vm_area_ok demo_area" "space_inv demo_space" "vma demo_space = Some 3"
  "buffers demo_space = [5]" "b_free (bufs demo_space 5)" "bsize demo_space 5 = 0x4000" "held demo_space = {}"
  "free_async_space demo_space = 0x2000" "alloc_reachable demo_space" "buffer_size demo_space = 0x4000"
proof -
  show s: "alloc_start demo_empty" by (simp add: alloc_start_def unmapped_def demo_empty_def)
  then have um: "unmapped demo_empty" by (simp add: alloc_start_def)
  show v: "vm_area_ok demo_area" by (simp add: vm_area_ok_def demo_area_def)
  show "space_inv demo_space" unfolding demo_space_def by (rule mapped_alloc_inv [OF plain_rb_ok um v])
  have ms: "mapped_size demo_area = 0x4000" by (simp add: mapped_size_def demo_area_def SZ_4M_def min_def)
  show "vma demo_space = Some 3" "buffers demo_space = [5]" "b_free (bufs demo_space 5)" "buffer_size demo_space = 0x4000"
    "free_async_space demo_space = 0x2000" using ms by (simp_all add: demo_space_def mapped_alloc_def demo_area_def)
  show "bsize demo_space 5 = 0x4000" using ms
    by (simp add: binder_alloc_buffer_size_def binder_buffer_next_def demo_space_def mapped_alloc_def)
  show "held demo_space = {}" by (auto simp: held_def demo_space_def mapped_alloc_def)
  show "alloc_reachable demo_space"
    using alloc_reachable.step [OF alloc_reachable.start [OF s] alloc_step.mmap [OF plain_rb_ok v mmap_handler_maps [OF um]]]
    unfolding demo_space_def .
qed

lemma demo_env_facts: "generous (demo_env p)" "p \<noteq> 5 \<Longrightarrow> fresh_buf (demo_env p) demo_space"
  by (simp_all add: generous_def demo_env_def fresh_buf_def demo_space_facts(5))

lemma demo_checked_size: "checked_size 100 16 0 = Some 120" "checked_size 0 0 0 = Some 0"
  by (simp_all add: checked_size_def sizeof_ptr_def ALIGN_def Let_def)

lemma demo_fits: "request_fits 100 16 0 is_async demo_space" "request_fits 0 0 0 is_async demo_space"
  by (simp_all add: request_fits_def demo_checked_size demo_space_facts sizeof_ptr_def sizeof_binder_buffer_def)

text \<open>The allocator with one buffer taken.\<close>

lemma demo_new:
  obtains al' where "binder_alloc_new_buf plain_rb (demo_env 6) 100 16 0 is_async demo_space = Some (Inr 5, al')"
    "space_inv al'" "new_buf_post (demo_env 6) 120 100 16 0 is_async demo_space 5 al'"
    "held al' = {5}" "buffers al' = [5, 6]" "alloc_reachable al'"
proof -
  note d = demo_space_facts
  obtain n b al' where n: "binder_alloc_new_buf_locked plain_rb (demo_env 6) 100 16 0 is_async demo_space = Some (Inr b, al')"
    "space_inv al'" "checked_size 100 16 0 = Some n"
    "new_buf_post (demo_env 6) (max n sizeof_ptr) 100 16 0 is_async demo_space b al'"
    by (rule new_buf_succeeds [OF plain_rb_ok d(3) demo_env_facts(2,1) _ demo_fits(1), of 6 is_async]) (use d(4) in auto)
  have nn: "max n sizeof_ptr = 120" using n(3) demo_checked_size by (simp add: sizeof_ptr_def)
  have b: "b = 5" using n(4) d(5) by (simp add: new_buf_post_def)
  have fr: "fresh_buf (demo_env 6) demo_space" by (rule demo_env_facts(2)) simp
  have h: "held al' = {5}" using new_buf_held(2) [OF n(4) fr] d(8) b by simp
  have "buffers al' = [5, 6]" using n(4) d(5,7) b nn by (auto simp: new_buf_post_def demo_env_def Cons_eq_append_conv)
  moreover have "alloc_reachable al'"
    using alloc_reachable.step [OF d(10) alloc_step.new_buf [OF plain_rb_ok fr]] n(1) by (simp add: binder_alloc_new_buf_def)
  ultimately show thesis using that n nn b h by (simp add: binder_alloc_new_buf_def)
qed


section \<open>Properties\<close>

text \<open>
  C7. In every reachable state the invariant of the space holds (or nothing is mapped yet), and no
  operation that the driver calls hits a \<open>BUG_ON\<close> or an absent page: \<open>binder_alloc_new_buf\<close>,
  \<open>binder_alloc_free_buf\<close> of a held buffer without transaction, \<open>binder_alloc_prepare_to_free\<close> with any
  address, and the copies to and from a buffer with any offset and length all return.
\<close>

theorem alloc_never_bugs:
  assumes "alloc_reachable al"
  shows "alloc_state_inv al \<and>
    (rb_ok rb \<and> fresh_buf env al \<longrightarrow> binder_alloc_new_buf rb env ds os es is_async al \<noteq> None) \<and>
    (freeable (rb, env) b al \<longrightarrow> binder_alloc_free_buf rb env b al \<noteq> None) \<and>
    binder_alloc_prepare_to_free uptr al \<noteq> None \<and>
    (b \<in> set (buffers al) \<and> length src < 2 ^ 64 \<longrightarrow> binder_alloc_copy_to_buffer b o1 src al \<noteq> None) \<and>
    (b \<in> set (buffers al) \<longrightarrow> binder_alloc_copy_from_buffer b o1 n al \<noteq> None \<and>
       binder_alloc_copy_user_to_buffer b o1 ub n al \<noteq> None)"
proof -
  have st: "alloc_state_inv al" by (rule alloc_reachable_inv [OF assms])
  show ?thesis
  proof (cases "unmapped al")
    case True
    then have "buffers al = []" "\<not> freeable (rb, env) b al" by (auto simp: unmapped_def freeable_def held_def)
    then show ?thesis using st unmapped_new_buf [OF True] unmapped_prepare [OF True] by simp
  next
    case False
    then have inv: "space_inv al" using st by (simp add: alloc_state_inv_def)
    have ai: "alloc_inv al" using inv by (simp add: space_inv_def)
    have "binder_alloc_new_buf rb env ds os es is_async al \<noteq> None" if "rb_ok rb \<and> fresh_buf env al"
      by (rule new_buf_spec [OF _ inv, of rb env ds os es is_async]) (use that in \<open>auto simp: binder_alloc_new_buf_def\<close>)
    moreover have "binder_alloc_free_buf rb env b al \<noteq> None" if "freeable (rb, env) b al"
      by (rule release_held [OF inv that]) (simp add: release_buf_def)
    moreover have "binder_alloc_prepare_to_free uptr al \<noteq> None"
      using prepare_to_free_cases [OF ai] by (cases "\<exists>b\<in>held al. addr al b = uptr") (auto split: if_splits)
    moreover have "binder_alloc_copy_to_buffer b o1 src al \<noteq> None" if "b \<in> set (buffers al)" "length src < 2 ^ 64"
    proof (cases "check_buffer al b o1 (of_nat (length src))")
      case True
      show ?thesis by (rule copy_to_buffer_writes [OF inv that True]) simp
    qed (simp add: binder_alloc_copy_to_buffer_def)
    moreover have "binder_alloc_copy_from_buffer b o1 n al \<noteq> None" if "b \<in> set (buffers al)"
      using copy_from_buffer_reads [OF inv that, of o1 n]
      by (cases "check_buffer al b o1 n") (auto simp: binder_alloc_copy_from_buffer_def)
    moreover have "binder_alloc_copy_user_to_buffer b o1 ub n al \<noteq> None" if "b \<in> set (buffers al)"
    proof (cases "check_buffer al b o1 n")
      case True
      show ?thesis by (rule copy_user_to_buffer_writes [OF inv that True, of ub]) simp
    qed (simp add: binder_alloc_copy_user_to_buffer_def)
    ultimately show ?thesis using st by blast
  qed
qed

theorem alloc_never_bugs_witness:
  "binder_alloc_new_buf plain_rb (demo_env 6) 100 16 0 True demo_space \<noteq> None \<and>
   binder_alloc_copy_from_buffer 5 0 8 demo_space \<noteq> None"
  using alloc_never_bugs [OF demo_space_facts(10), of plain_rb "demo_env 6" 100 16 0 True 5 0 "[]" 0 8 "[]"]
    demo_env_facts(2) [of 6] plain_rb_ok demo_space_facts(5) by simp

text \<open>
  C8. A request that succeeds returns a buffer that was free and is a best fit, and gives it exactly
  the aligned size of the three areas (at least 8 bytes). The buffer becomes the only new held buffer;
  it lies inside the free buffer it was cut from; every other held buffer keeps its place and its
  bytes; and the invariant is kept.
\<close>

theorem new_buf_best_fit:
  assumes "rb_ok rb" "space_inv al" "fresh_buf env al"
    and "binder_alloc_new_buf rb env ds os es is_async al = Some (Inr b, al')"
  shows "\<exists>n. checked_size ds os es = Some n \<and> blen al' b = max (unat n) 8 \<and> space_inv al' \<and>
    b \<in> set (buffers al) \<and> b_free (bufs al b) \<and> place al' b \<subseteq> place al b \<and>
    (\<forall>p\<in>set (buffers al). b_free (bufs al p) \<and> max (unat n) 8 \<le> blen al p \<longrightarrow> blen al b \<le> blen al p) \<and>
    held al' = insert b (held al) \<and>
    (\<forall>p\<in>held al. place al' p = place al p \<and> contents al' p = contents al p) \<and>
    data_size (bufs al' b) = ds \<and> offsets_size (bufs al' b) = os \<and> extra_buffers_size (bufs al' b) = es \<and>
    async_transaction (bufs al' b) = is_async \<and> \<not> allow_user_free (bufs al' b)"
proof -
  have new: "binder_alloc_new_buf_locked rb env ds os es is_async al = Some (Inr b, al')"
    using assms(4) by (simp add: binder_alloc_new_buf_def)
  show ?thesis
    using assms(1-3)
  proof (cases rule: new_buf_spec [where env = env and ds = ds and os = os and es = es and is_async = is_async])
    case (err e al1)
    then show ?thesis using new by simp
  next
    case (ok n b1 al1)
    then have eq: "b1 = b" "al1 = al'" using new by auto
    note P = ok(4) [unfolded eq new_buf_post_def]
    have mx: "unat (max n sizeof_ptr) = max (unat n) 8" by (simp add: max_def word_le_nat_alt sizeof_ptr_def)
    have bl: "blen al' b = max (unat n) 8" unfolding mx [symmetric] using P by (simp add: blen_def)
    have "off al' b = off al b" using P by (simp add: off_def addr_def taken_buffer_def)
    moreover have "blen al' b \<le> blen al b" using P by (simp add: blen_def word_le_nat_alt)
    ultimately have "place al' b \<subseteq> place al b" by (auto simp: place_def)
    moreover have "\<forall>p\<in>set (buffers al). b_free (bufs al p) \<and> max (unat n) 8 \<le> blen al p \<longrightarrow> blen al b \<le> blen al p"
      using P unfolding mx [symmetric] blen_def word_le_nat_alt by blast
    moreover have "\<forall>p\<in>held al. place al' p = place al p \<and> contents al' p = contents al p"
      using new_buf_keeps [OF assms(1-3) new] by blast
    ultimately show ?thesis
      using ok(2,3) eq bl P new_buf_held(2) [OF ok(4) assms(3)] by (intro exI [of _ n]) (simp add: taken_buffer_def)
  qed
qed

theorem new_buf_best_fit_witness:
  "\<exists>al'. binder_alloc_new_buf plain_rb (demo_env 6) 100 16 0 False demo_space = Some (Inr 5, al') \<and>
     blen al' 5 = 120 \<and> held al' = {5} \<and> data_size (bufs al' 5) = 100"
proof -
  obtain al' where al': "binder_alloc_new_buf plain_rb (demo_env 6) 100 16 0 False demo_space = Some (Inr 5, al')"
    by (rule demo_new [of False])
  have "fresh_buf (demo_env 6) demo_space" by (rule demo_env_facts(2)) simp
  from new_buf_best_fit [OF plain_rb_ok demo_space_facts(3) this al'] show ?thesis
    using al' demo_checked_size(1) demo_space_facts(8) by auto
qed

text \<open>
  C9. A request cannot fail for no reason: when the space is mapped, the sizes do not overflow, the
  one-way quota covers the request, some free buffer is large enough and the kernel's own allocations
  succeed, \<open>binder_alloc_new_buf\<close> returns a buffer.
\<close>

theorem new_buf_available:
  assumes "rb_ok rb" "space_inv al" "fresh_buf env al" "generous env" "vma al \<noteq> None"
    and "request_fits ds os es is_async al"
  shows "\<exists>b al'. binder_alloc_new_buf rb env ds os es is_async al = Some (Inr b, al')"
  by (rule new_buf_succeeds [OF assms]) (auto simp: binder_alloc_new_buf_def)

theorem new_buf_available_witness:
  "\<exists>b al'. binder_alloc_new_buf plain_rb (demo_env 6) 0 0 0 True demo_space = Some (Inr b, al')"
  using new_buf_available [OF plain_rb_ok demo_space_facts(3) demo_env_facts(2,1) _ demo_fits(2), of 6 True]
    demo_space_facts(4) by simp

text \<open>
  A request that fails changes nothing but pages: the list, the trees, every buffer and the
  one-way quota are as before, held buffers keep their bytes, and the invariant (so also which pages
  are in use) is kept, also after a failure half-way through the pages.
\<close>

theorem new_buf_failure:
  assumes "rb_ok rb" "space_inv al" "fresh_buf env al"
    and "binder_alloc_new_buf rb env ds os es is_async al = Some (Inl e, al')"
  shows "space_inv al' \<and> al' = al\<lparr>pages := pages al', pages_high := pages_high al'\<rparr> \<and>
    (\<forall>i<length (pages al). in_use (pages al' ! i) \<longleftrightarrow> in_use (pages al ! i)) \<and>
    (\<forall>p\<in>held al. contents al' p = contents al p)"
proof -
  have new: "binder_alloc_new_buf_locked rb env ds os es is_async al = Some (Inl e, al')"
    using assms(4) by (simp add: binder_alloc_new_buf_def)
  show ?thesis
    using assms(1-3)
  proof (cases rule: new_buf_spec [where env = env and ds = ds and os = os and es = es and is_async = is_async])
    case (err e1 al1)
    then have eq: "al1 = al'" using new by simp
    note S = same_spaceD [OF err(3)] same_space_eqs [OF err(3)]
    have "covered al' i = covered al i" for i
      using S unfolding eq by (simp add: covered_def overlaps_def off_def blen_def)
    then have "\<forall>i<length (pages al). in_use (pages al' ! i) \<longleftrightarrow> in_use (pages al ! i)"
      using err(2) assms(2) S(9) unfolding eq by (simp add: space_inv_def pages_inv_def)
    then show ?thesis
      using err(2,3) eq new_buf_keeps [OF assms(1-3) new] by (simp add: same_space_def)
  qed (use new in simp)
qed

theorem new_buf_failure_witness:
  "binder_alloc_new_buf plain_rb (demo_env 6) 0x8000 0 0 False demo_space = Some (Inl ENOSPC, demo_space) \<and> space_inv demo_space"
proof -
  have t: "free_buffers demo_space = Node Leaf 5 Leaf" by (simp add: demo_space_def mapped_alloc_def plain_rb_def)
  have "checked_size 0x8000 0 0 = Some 0x8000" by (simp add: checked_size_def sizeof_ptr_def ALIGN_def Let_def)
  then have r: "binder_alloc_new_buf plain_rb (demo_env 6) 0x8000 0 0 False demo_space = Some (Inl ENOSPC, demo_space)"
    by (simp add: binder_alloc_new_buf_def binder_alloc_new_buf_locked_def binder_alloc_get_vma_def demo_space_facts t
        sizeof_ptr_def)
  moreover have "fresh_buf (demo_env 6) demo_space" by (rule demo_env_facts(2)) simp
  ultimately show ?thesis using new_buf_failure [OF plain_rb_ok demo_space_facts(3) _ r] by blast
qed

text \<open>
  C10. Freeing a held buffer that no transaction uses succeeds: the buffer joins the free buffer before
  and the free buffer after it, so that again no two neighbours are free; it leaves the held buffers,
  the others keep their place and their bytes, and the quota gets the size of its contents back when
  it was a one-way buffer.
\<close>

theorem free_buf_coalesces:
  assumes "rb_ok rb" "space_inv al" "buffers al = us @ b # vs" "\<not> b_free (bufs al b)" "b_transaction (bufs al b) = None"
  shows "\<exists>al'. binder_alloc_free_buf rb env b al = Some al' \<and> space_inv al' \<and>
    buffers al' = (if us \<noteq> [] \<and> b_free (bufs al (last us)) then us else us @ [b]) @
      (if vs \<noteq> [] \<and> b_free (bufs al (hd vs)) then tl vs else vs) \<and>
    held al' = held al - {b} \<and> (\<forall>p\<in>held al - {b}. place al' p = place al p \<and> contents al' p = contents al p) \<and>
    free_async_space al' = free_async_space al +
      (if async_transaction (bufs al b) then buffer_used_size (bufs al b) + sizeof_binder_buffer else 0)"
proof -
  obtain al' where "binder_free_buf_locked rb env b al = Some al'" "space_inv al'"
    "buffers al' = merged_before al us b @ merged_after al vs" "held al' = held al - {b}"
    "free_async_space al' = free_async_space al +
       (if async_transaction (bufs al b) then buffer_used_size (bufs al b) + sizeof_binder_buffer else 0)"
    "\<forall>p\<in>held al - {b}. place al' p = place al p \<and> contents al' p = contents al p"
    by (rule free_buf_spec [OF assms, of env])
  then show ?thesis by (auto simp: binder_alloc_free_buf_def merged_before_def merged_after_def)
qed

theorem free_buf_coalesces_witness:
  "\<exists>al al'. binder_alloc_new_buf plain_rb (demo_env 6) 100 16 0 True demo_space = Some (Inr 5, al) \<and>
     binder_alloc_free_buf plain_rb (demo_env 7) 5 al = Some al' \<and> buffers al' = [5] \<and> held al' = {}"
proof -
  obtain al where al: "binder_alloc_new_buf plain_rb (demo_env 6) 100 16 0 True demo_space = Some (Inr 5, al)"
    "space_inv al" "new_buf_post (demo_env 6) 120 100 16 0 True demo_space 5 al" "held al = {5}" "buffers al = [5, 6]"
    by (rule demo_new [of True])
  have "\<not> b_free (bufs al 5)" "b_transaction (bufs al 5) = None"
    using al(3) by (auto simp: new_buf_post_def taken_buffer_def demo_space_def mapped_alloc_def zero_buffer_def)
  moreover have "6 \<notin> held al" "6 \<in> set (buffers al)" using al(4,5) by auto
  then have "b_free (bufs al 6)" by (simp add: held_def)
  ultimately show ?thesis
    using free_buf_coalesces [OF plain_rb_ok al(2), of "[]" 5 "[6]" "demo_env 7"] al by auto
qed

text \<open>
  C11. Allocating a buffer and freeing it again restores the list of buffers, their addresses, sizes
  and states, and the held buffers. The one-way quota is restored except for the padding of small
  buffers: an empty one-way buffer is charged 8 bytes more than it gives back.
\<close>

theorem new_then_free:
  assumes "rb_ok rb" "rb_ok rb'" "space_inv al" "fresh_buf env al"
    and "binder_alloc_new_buf rb env ds os es is_async al = Some (Inr b, al1)" "b_transaction (bufs al b) = None"
  shows "\<exists>al2 n. binder_alloc_free_buf rb' env' b al1 = Some al2 \<and> checked_size ds os es = Some n \<and>
    buffers al2 = buffers al \<and> held al2 = held al \<and> space_inv al2 \<and>
    (\<forall>p\<in>set (buffers al). addr al2 p = addr al p \<and> bsize al2 p = bsize al p \<and>
       b_free (bufs al2 p) = b_free (bufs al p)) \<and>
    (\<forall>p\<in>held al. contents al2 p = contents al p) \<and>
    free_async_space al2 = free_async_space al - (if is_async then max n 8 - n else 0)"
proof -
  have new: "binder_alloc_new_buf_locked rb env ds os es is_async al = Some (Inr b, al1)"
    using assms(5) by (simp add: binder_alloc_new_buf_def)
  obtain n where n: "checked_size ds os es = Some n" "space_inv al1"
    and post: "new_buf_post env (max n sizeof_ptr) ds os es is_async al b al1"
    using assms(1,3,4)
  proof (cases rule: new_buf_spec [where env = env and ds = ds and os = os and es = es and is_async = is_async])
    case (ok n b' al')
    then show thesis using new that by simp
  qed (use new in simp)
  note P = post [unfolded new_buf_post_def]
  have b1: "bufs al1 b = taken_buffer (bufs al b) ds os es is_async" "b \<in> set (buffers al)" "b_free (bufs al b)"
    using P by auto
  have other: "p \<in> set (buffers al) - {b} \<Longrightarrow> bufs al1 p = bufs al p" for p using P by blast
  obtain us vs where bs: "buffers al = us @ b # vs" using b1(2) by (auto simp: in_set_conv_decomp)
  have lay: "layout_ok al" and adj: "no_adjacent_free al" using assms(3) by (auto simp: space_inv_def alloc_inv_def)
  note d = layout_split [OF lay bs] and nb = adjacent_split [OF adj b1(3) bs]
  have us: "us \<noteq> [] \<Longrightarrow> \<not> b_free (bufs al1 (last us))"
    using nb(1) d(1) other [of "last us"] bs last_in_set [of us] by fastforce
  have vs: "vs \<noteq> [] \<Longrightarrow> \<not> b_free (bufs al1 (hd vs))"
    using nb(2) d(2) other [of "hd vs"] bs hd_in_set [of vs] by fastforce
  obtain ws where ws: "buffers al1 = us @ b # ws" "merged_after al1 ws = vs"
  proof (cases "bsize al b = max n sizeof_ptr")
    case True
    then have "buffers al1 = us @ b # vs" using P bs by simp
    moreover have "merged_after al1 vs = vs" using vs by (auto simp: merged_after_def)
    ultimately show thesis by (rule that)
  next
    case False
    then obtain us' new vs' where s: "buffers al = us' @ b # vs'" "buffers al1 = us' @ b # new # vs'" "b_free (bufs al1 new)"
      using P by auto
    have "us' = us \<and> vs' = vs" using bs s(1) d layout_split [OF lay s(1)] by (metis append_Cons_eq_iff)
    then show thesis using that [of "new # vs"] s by (simp add: merged_after_def)
  qed
  have f: "\<not> b_free (bufs al1 b)" "b_transaction (bufs al1 b) = None" using b1(1) assms(6) by (auto simp: taken_buffer_def)
  obtain al2 where F: "binder_free_buf_locked rb' env' b al1 = Some al2" "space_inv al2"
    "buffers al2 = merged_before al1 us b @ merged_after al1 ws" "bufs al2 = (bufs al1)(b := (bufs al1 b)\<lparr>b_free := True\<rparr>)"
    "buffer al2 = buffer al1" "buffer_size al2 = buffer_size al1"
    "free_async_space al2 = free_async_space al1 +
       (if async_transaction (bufs al1 b) then buffer_used_size (bufs al1 b) + sizeof_binder_buffer else 0)"
    "held al2 = held al1 - {b}" "\<forall>p\<in>held al1 - {b}. place al2 p = place al1 p \<and> contents al2 p = contents al1 p"
    by (rule free_buf_spec [OF assms(2) n(2) ws(1) f, of env'])
  have bs2: "buffers al2 = buffers al" using F(3) ws(2) us bs by (auto simp: merged_before_def)
  have ad: "addr al2 p = addr al p" if "p \<in> set (buffers al)" for p
    using F(4) b1(1) other [of p] that by (auto simp: addr_def taken_buffer_def)
  have sz: "bsize al2 p = bsize al p" if p: "p \<in> set (buffers al)" for p
  proof -
    obtain xs ys where xs: "buffers al = xs @ p # ys" using p by (auto simp: in_set_conv_decomp)
    have "end_of al2 ys = end_of al ys"
      using ad xs F(5,6) P by (cases ys) (simp_all add: end_of_def space_end_def)
    then show ?thesis
      using bsize_split [of al xs p ys] bsize_split [of al2 xs p ys] layout_split(1) [OF lay xs] xs bs2 ad [OF p] by simp
  qed
  have fr: "b_free (bufs al2 p) = b_free (bufs al p)" if "p \<in> set (buffers al)" for p
    using F(4) b1(3) other [of p] that by auto
  have h: "held al2 = held al" using F(8) new_buf_held [OF post assms(4)] by simp
  have c: "contents al2 p = contents al p" if "p \<in> held al" for p
    using F(9) new_buf_held [OF post assms(4)] new_buf_keeps [OF assms(1,3,4) new that] that by auto
  have "buffer_used_size (bufs al1 b) = n"
    using checked_size_Some [OF n(1)] b1(1) by (simp add: buffer_used_size_def taken_buffer_def)
  then have "free_async_space al2 = free_async_space al - (if is_async then max n 8 - n else 0)"
    using F(7) P b1(1) by (auto simp: taken_buffer_def sizeof_ptr_def)
  then show ?thesis
    using F(1,2) n bs2 h ad sz fr c by (intro exI [of _ al2] exI [of _ n]) (simp add: binder_alloc_free_buf_def)
qed

theorem new_then_free_witness:
  "\<exists>al1 al2. binder_alloc_new_buf plain_rb (demo_env 6) 0 0 0 True demo_space = Some (Inr 5, al1) \<and>
     binder_alloc_free_buf plain_rb (demo_env 7) 5 al1 = Some al2 \<and> buffers al2 = [5] \<and>
     free_async_space al2 = free_async_space demo_space - 8"
proof -
  have fr: "fresh_buf (demo_env 6) demo_space" by (rule demo_env_facts(2)) simp
  obtain n b al1 where al1: "binder_alloc_new_buf_locked plain_rb (demo_env 6) 0 0 0 True demo_space = Some (Inr b, al1)"
    "new_buf_post (demo_env 6) (max n sizeof_ptr) 0 0 0 True demo_space b al1"
    by (rule new_buf_succeeds [OF plain_rb_ok demo_space_facts(3) fr demo_env_facts(1) _ demo_fits(2), of True])
      (use demo_space_facts(4) in auto)
  have b: "b = 5" using al1(2) demo_space_facts(5) by (simp add: new_buf_post_def)
  have t: "b_transaction (bufs demo_space 5) = None" by (simp add: demo_space_def mapped_alloc_def zero_buffer_def)
  have new: "binder_alloc_new_buf plain_rb (demo_env 6) 0 0 0 True demo_space = Some (Inr 5, al1)"
    using al1(1) b by (simp add: binder_alloc_new_buf_def)
  from new_then_free [OF plain_rb_ok plain_rb_ok demo_space_facts(3) fr new t, of "demo_env 7"]
  show ?thesis using new demo_checked_size(2) demo_space_facts(5) by (auto simp: max_def)
qed

text \<open>
  The quota for one-way transactions is compared with the request before the request is padded to
  8 bytes, so an empty one-way request that is accepted with less than 104 bytes left wraps the quota
  around to almost \<open>2 ^ 64\<close> bytes: from then on it no longer limits anything.
\<close>

theorem async_quota_wraps:
  assumes "rb_ok rb" "space_inv al" "fresh_buf env al"
    and "binder_alloc_new_buf rb env 0 0 0 True al = Some (Inr b, al')" "free_async_space al < 104"
  shows "unat (free_async_space al') \<ge> 2 ^ 64 - 8"
proof -
  have new: "binder_alloc_new_buf_locked rb env 0 0 0 True al = Some (Inr b, al')"
    using assms(4) by (simp add: binder_alloc_new_buf_def)
  have q: "free_async_space al' = free_async_space al - 104"
    using assms(1-3)
  proof (cases rule: new_buf_spec [where env = env and ds = 0 and os = 0 and es = 0 and is_async = True])
    case (ok n b1 al1)
    then show ?thesis
      using new demo_checked_size(2) by (simp add: new_buf_post_def max_def sizeof_ptr_def sizeof_binder_buffer_def)
  qed (use new in simp)
  have "\<not> free_async_space al < 96"
    using new demo_checked_size(2)
    by (auto simp: binder_alloc_new_buf_locked_def sizeof_binder_buffer_def split: if_splits)
  then have lo: "96 \<le> unat (free_async_space al)" "unat (free_async_space al) < 104"
    using assms(5) by (simp_all add: word_less_nat_alt)
  have "unat (free_async_space al - 104) = 2 ^ 64 + unat (free_async_space al) - 104"
    using lo by (simp add: unat_sub_if_size word_le_nat_alt word_size)
  then show ?thesis unfolding q using lo by simp
qed

definition demo_low_quota :: binder_alloc where
  "demo_low_quota = demo_space\<lparr>free_async_space := 96\<rparr>"

theorem async_quota_wraps_witness:
  "\<exists>b al'. binder_alloc_new_buf plain_rb (demo_env 6) 0 0 0 True demo_low_quota = Some (Inr b, al') \<and>
     unat (free_async_space al') \<ge> 2 ^ 64 - 8"
proof -
  have inv: "space_inv demo_low_quota"
    using demo_space_facts(3) unfolding demo_low_quota_def
    by (rule space_inv_cong [rotated -1]) (simp_all add: pages_sized_def)
  have fr: "fresh_buf (demo_env 6) demo_low_quota" by (simp add: fresh_buf_def demo_env_def demo_low_quota_def demo_space_facts)
  have fits: "request_fits 0 0 0 True demo_low_quota"
    by (simp add: request_fits_def demo_checked_size demo_low_quota_def demo_space_facts sizeof_ptr_def
        sizeof_binder_buffer_def)
  obtain n b al' where al': "binder_alloc_new_buf_locked plain_rb (demo_env 6) 0 0 0 True demo_low_quota = Some (Inr b, al')"
    by (rule new_buf_succeeds [OF plain_rb_ok inv fr demo_env_facts(1) _ fits])
      (auto simp: demo_low_quota_def demo_space_facts)
  then have "binder_alloc_new_buf plain_rb (demo_env 6) 0 0 0 True demo_low_quota = Some (Inr b, al')"
    by (simp add: binder_alloc_new_buf_def)
  with async_quota_wraps [OF plain_rb_ok inv fr this] show ?thesis by (auto simp: demo_low_quota_def)
qed

text \<open>
  A page of the space is in use (it exists and the driver has not given it up with
  \<open>compat_list_lru_add\<close>) exactly when a held buffer overlaps it, in every reachable state with a mapped space.
\<close>

theorem page_in_use_iff_overlapped:
  assumes "alloc_reachable al" "buffer_size al \<noteq> 0" "i < length (pages al)"
  shows "in_use (pages al ! i) \<longleftrightarrow> (\<exists>p\<in>held al. place al p \<inter> {4096 * i ..< 4096 * i + 4096} \<noteq> {})"
proof -
  have "space_inv al" using alloc_reachable_inv [OF assms(1)] assms(2) by (auto simp: alloc_state_inv_def unmapped_def)
  then have "in_use (pages al ! i) \<longleftrightarrow> covered al i" and lay: "layout_ok al"
    using assms(3) by (auto simp: space_inv_def pages_inv_def alloc_inv_def)
  moreover have "overlaps al p i \<longleftrightarrow> place al p \<inter> {4096 * i ..< 4096 * i + 4096} \<noteq> {}" if "p \<in> held al" for p
  proof -
    have "0 < blen al p" using bsize_pos [OF lay, of p] that by (auto simp: blen_def held_def unat_gt_0 word_gt_0)
    then have "overlaps al p i \<Longrightarrow> max (off al p) (4096 * i) \<in> place al p \<inter> {4096 * i ..< 4096 * i + 4096}"
      by (auto simp: overlaps_def place_def)
    then show ?thesis by (auto simp: overlaps_def place_def)
  qed
  ultimately show ?thesis by (auto simp: covered_def held_def)
qed

theorem page_in_use_iff_overlapped_witness:
  "\<exists>al. alloc_reachable al \<and> in_use (pages al ! 0) \<and> \<not> in_use (pages al ! 1)"
proof -
  obtain al where al: "alloc_reachable al" "new_buf_post (demo_env 6) 120 100 16 0 True demo_space 5 al" "held al = {5}"
    "space_inv al"
    by (rule demo_new [of True])
  have sz: "buffer_size al = 0x4000" "buffer al = 0x10000" "addr al 5 = 0x10000" "bsize al 5 = 120"
    using al(2) demo_space_facts
    by (auto simp: new_buf_post_def taken_buffer_def addr_def demo_space_def mapped_alloc_def demo_area_def)
  then have pl: "place al 5 = {0 ..< 120}" by (simp add: place_def off_def blen_def)
  have len: "length (pages al) = 4" using al(4) sz(1) by (simp add: space_inv_def alloc_inv_def layout_ok_def space_ok_def)
  have "in_use (pages al ! 0)"
    using page_in_use_iff_overlapped [OF al(1), of 0] sz(1) len al(3) pl by (auto intro: exI [of _ 0])
  moreover have "\<not> in_use (pages al ! 1)"
    using page_in_use_iff_overlapped [OF al(1), of 1] sz(1) len al(3) pl by auto
  ultimately show ?thesis using al(1) by blast
qed

text \<open>
  C12. Any sequence of requests and legal frees runs through, whatever the kernel's allocations do:
  held buffers never overlap, and every buffer that the sequence does not free keeps its place and its
  bytes.
\<close>

theorem alloc_isolation:
  assumes "space_inv al" "legal_ops freeable fresh_request request_buf release_buf ops al"
  shows "\<exists>al'. run_ops request_buf release_buf ops al = Some al' \<and> space_inv al' \<and>
    held al - freed_ptrs ops \<subseteq> held al' \<and>
    (\<forall>p\<in>held al - freed_ptrs ops. place al' p = place al p \<and> contents al' p = contents al p) \<and>
    (\<forall>p\<in>held al'. \<forall>q\<in>held al'. p \<noteq> q \<longrightarrow> place al' p \<inter> place al' q = {})"
  by (rule ba.run_legal [OF assms])

theorem alloc_isolation_witness:
  "\<exists>al'. run_ops request_buf release_buf
     [OpNew \<lparr>rq_rb = plain_rb, rq_env = demo_env 6, rq_data = 100, rq_offsets = 16, rq_extra = 0, rq_async = False\<rparr>,
      OpFree (plain_rb, demo_env 7) 5] demo_space = Some al' \<and> space_inv al'"
proof -
  let ?r = "\<lparr>rq_rb = plain_rb, rq_env = demo_env 6, rq_data = 100, rq_offsets = 16, rq_extra = 0, rq_async = False\<rparr>"
  let ?ops = "[OpNew ?r, OpFree (plain_rb, demo_env 7) 5]"
  obtain al where al: "binder_alloc_new_buf plain_rb (demo_env 6) 100 16 0 False demo_space = Some (Inr 5, al)"
    "new_buf_post (demo_env 6) 120 100 16 0 False demo_space 5 al" "held al = {5}"
    by (rule demo_new [of False])
  have "b_transaction (bufs al 5) = None"
    using al(2) by (auto simp: new_buf_post_def taken_buffer_def demo_space_def mapped_alloc_def zero_buffer_def)
  then have "freeable (plain_rb, demo_env 7) 5 al" using al(3) plain_rb_ok by (simp add: freeable_def)
  moreover have "fresh_request ?r demo_space" using demo_env_facts(2) [of 6] plain_rb_ok by (simp add: fresh_request_def)
  moreover have "request_buf ?r demo_space = Some (Inr 5, al)" using al(1) by (simp add: request_buf_def)
  ultimately have "legal_ops freeable fresh_request request_buf release_buf ?ops demo_space" by (simp split: option.splits)
  from alloc_isolation [OF demo_space_facts(3) this] show ?thesis by blast
qed

text \<open>
  Giving a buffer back by address is exact: an address that is the start of a held buffer the user
  may free finds that buffer and withdraws the permission, so that a second attempt fails with
  \<open>EPERM\<close>; a held buffer that the user may not free gives \<open>EPERM\<close>; any other address finds nothing.
\<close>

theorem prepare_to_free_exact:
  assumes "space_inv al"
  shows "(case binder_alloc_prepare_to_free uptr al of
      None \<Rightarrow> False
    | Some (Inr None, al') \<Rightarrow> al' = al \<and> (\<forall>b\<in>held al. addr al b \<noteq> uptr)
    | Some (Inl e, al') \<Rightarrow> al' = al \<and> e = EPERM \<and> (\<exists>b\<in>held al. addr al b = uptr \<and> \<not> allow_user_free (bufs al b))
    | Some (Inr (Some b), al') \<Rightarrow> b \<in> held al \<and> addr al b = uptr \<and> allow_user_free (bufs al b) \<and> space_inv al' \<and>
        held al' = held al \<and> binder_alloc_prepare_to_free uptr al' = Some (Inl EPERM, al'))"
proof (cases "\<exists>b\<in>held al. addr al b = uptr")
  case True
  then obtain b where b: "b \<in> held al" "addr al b = uptr" by blast
  have ai: "alloc_inv al" using assms by (simp add: space_inv_def)
  let ?al = "set_buf b ((bufs al b)\<lparr>allow_user_free := False\<rparr>) al"
  have inv: "space_inv ?al" unfolding prepare_client by (rule space_inv_client [OF assms])
  then have ai': "alloc_inv ?al" by (simp add: space_inv_def)
  have h: "held ?al = held al" by (auto simp: held_def)
  have "addr ?al b = uptr" using b(2) by (simp add: addr_def)
  then have "binder_alloc_prepare_to_free uptr ?al = Some (Inl EPERM, ?al)"
    using prepare_to_free_cases(1) [OF ai', of b] b(1) h by simp
  then show ?thesis using prepare_to_free_cases(1) [OF ai b(1)] b inv h by auto
next
  case False
  then show ?thesis using prepare_to_free_cases(2) [of al uptr] assms by (auto simp: space_inv_def)
qed

theorem prepare_to_free_exact_witness:
  "binder_alloc_prepare_to_free 0x10000 demo_space = Some (Inr None, demo_space)"
proof -
  note e = prepare_to_free_exact [OF demo_space_facts(3), of "0x10000"]
  obtain r al where r: "binder_alloc_prepare_to_free 0x10000 demo_space = Some (r, al)"
    using e by (auto split: option.splits)
  then show ?thesis using e demo_space_facts(8) by (cases r) (auto split: option.splits)
qed

text \<open>
  C13. What is copied into a held buffer is read back, and no other held buffer changes: the copies,
  which go page by page, act on exactly the bytes that \<open>check_buffer\<close> admitted.
\<close>

theorem copy_round_trip:
  assumes "space_inv al" "b \<in> set (buffers al)" "length src < 2 ^ 64" "check_buffer al b o1 (of_nat (length src))"
  shows "\<exists>al'. binder_alloc_copy_to_buffer b o1 src al = Some (Inr (), al') \<and>
    binder_alloc_copy_from_buffer b o1 (of_nat (length src)) al' = Some (Inr src) \<and> space_inv al' \<and>
    contents al' b = take (unat o1) (contents al b) @ src @ drop (unat o1 + length src) (contents al b) \<and>
    (\<forall>p\<in>held al - {b}. contents al' p = contents al p)"
proof -
  obtain al' where al': "binder_alloc_copy_to_buffer b o1 src al = Some (Inr (), al')" "written al (off al b + unat o1) src al'"
    by (rule copy_to_buffer_writes [OF assms])
  have u: "unat (of_nat (length src) :: u64) = length src" by (rule unat_of_nat_u64 [OF assms(3)])
  note a = checked_access [OF assms(1,2,4), unfolded u]
  note c = written_contents [OF assms(1) a(6) al'(2) a(5)]
  have S: "same_space al al'" using al'(2) by (simp add: written_def)
  have inv: "space_inv al'" by (rule space_inv_written [OF assms(1) al'(2)])
  have "check_buffer al' b o1 (of_nat (length src))"
    using assms(4) same_spaceD(4) [OF S] same_space_eqs(2) [OF S] by (simp add: check_buffer_def)
  from copy_from_buffer_reads [OF inv _ this]
  have "binder_alloc_copy_from_buffer b o1 (of_nat (length src)) al' = Some (Inr src)"
    unfolding c(1) u using assms(2) same_spaceD(3) [OF S] a(5) by (simp add: contents_def)
  then show ?thesis using al'(1) inv c(1,2) by blast
qed

theorem copy_round_trip_witness:
  "\<exists>al al'. space_inv al \<and> binder_alloc_copy_to_buffer 5 8 [1, 2, 3, 4] al = Some (Inr (), al') \<and>
     binder_alloc_copy_from_buffer 5 8 4 al' = Some (Inr [1, 2, 3, 4])"
proof -
  obtain al where al: "space_inv al" "new_buf_post (demo_env 6) 120 100 16 0 True demo_space 5 al" "held al = {5}"
    by (rule demo_new [of True])
  have "check_buffer al 5 8 (of_nat (length [1, 2, 3, 4 :: u8]))"
    using al(2) by (simp add: check_buffer_def new_buf_post_def taken_buffer_def IS_ALIGNED_def Let_def)
  moreover have "5 \<in> set (buffers al)" using al(3) by (auto simp: held_def)
  ultimately show ?thesis using copy_round_trip [OF al(1), of 5 "[1, 2, 3, 4]" 8] al(1) by auto
qed

text \<open>
  C14. The release of a process frees every buffer: once the mapping is gone and no buffer belongs to a
  transaction, \<open>binder_alloc_deferred_release\<close> returns, having freed as many buffers as were held, and
  leaves neither buffers nor pages; the list it drops had a single free buffer.
\<close>

theorem deferred_release_frees_all:
  assumes "rb_ok rb" "space_inv al" "vma al = None" "\<forall>p\<in>held al. b_transaction (bufs al p) = None"
  shows "\<exists>n page_count al1 al'. binder_alloc_deferred_release rb env al = Some (card (held al), page_count, al') \<and>
    release_buffers rb env n 0 al = Some (card (held al), al1) \<and> (\<exists>b. buffers al1 = [b]) \<and> held al1 = {} \<and>
    buffers al' = [] \<and> pages al' = [] \<and> inorder (allocated_buffers al') = []"
proof -
  obtain k where k: "k = length (inorder (allocated_buffers al)) + 1" by blast
  have ai: "alloc_inv al" using assms(2) by (simp add: space_inv_def)
  have "card (held al) < k"
    using card_length [of "inorder (allocated_buffers al)"] held_tree(1) [OF ai] k by simp
  from release_buffers_all [OF assms(1,2,4) this, of env 0] obtain al1 where
    al1: "release_buffers rb env k 0 al = Some (card (held al), al1)" "space_inv al1" "held al1 = {}" by auto
  have ai1: "alloc_inv al1" using al1(2) by (simp add: space_inv_def)
  have tr: "inorder (allocated_buffers al1) = []" using held_tree(1) [OF ai1] al1(3) by simp
  obtain b where b: "buffers al1 = [b]" using all_free_single [OF ai1 al1(3)] by blast
  obtain pc al' where "binder_alloc_deferred_release rb env al = Some (card (held al), pc, al')" "buffers al' = []"
    "pages al' = []" "allocated_buffers al' = allocated_buffers al1"
    using assms(3) al1(1) unfolding binder_alloc_deferred_release_def k [symmetric] by (auto simp: Let_def)
  then show ?thesis using al1 tr b by auto
qed

theorem deferred_release_frees_all_witness:
  "\<exists>pc al'. binder_alloc_deferred_release plain_rb (demo_env 6) (demo_space\<lparr>vma := None\<rparr>) = Some (0, pc, al')"
proof -
  let ?al = "demo_space\<lparr>vma := None\<rparr>"
  have "space_inv ?al"
    using demo_space_facts(3)
    by (rule space_inv_cong [rotated -1])
      (simp_all add: pages_sized_def addr_def binder_alloc_buffer_size_def binder_buffer_next_def cong: option.case_cong)
  moreover have "held ?al = {}" using demo_space_facts(8) by (simp add: held_def)
  ultimately show ?thesis
    using deferred_release_frees_all [OF plain_rb_ok, of ?al "demo_env 6"] by auto
qed

end
