(* ===== verification/Binder_State.thy ===== *)
theory Binder_State
  imports Binder_Alloc
begin

text \<open>
  The state of the binder driver (\<^verbatim>\<open>src/binder/binder.c\<close>): processes, threads, nodes, references,
  death notifications and transactions in stores indexed by address. A store is total; a second
  field says which addresses hold a live object, \<open>kfree\<close> clears it. A \<open>struct binder_work\<close> is named by
  the object it is embedded in; its list links are the field \<open>wpos\<close>, so that \<open>list_empty(&work->entry)\<close>
  is \<open>wpos s w = None\<close>. The spin locks of the driver make each function one step. Reference counters
  are unbounded integers.
\<close>

section \<open>Work\<close>

datatype work_type =
    BINDER_WORK_TRANSACTION | BINDER_WORK_TRANSACTION_COMPLETE | BINDER_WORK_RETURN_ERROR | BINDER_WORK_NODE
  | BINDER_WORK_DEAD_BINDER | BINDER_WORK_DEAD_BINDER_AND_CLEAR | BINDER_WORK_CLEAR_DEATH_NOTIFICATION

text \<open>The work of a transaction, a completion, the two errors of a thread, a node and a death notification.\<close>

datatype work_id = TxnWork ptr | CompleteWork ptr | ReturnErrorWork ptr | ReplyErrorWork ptr | NodeWork ptr | DeathWork ptr

datatype worklist = ThreadTodo ptr | ProcTodo ptr | NodeAsync ptr | DeliveredDeath ptr

section \<open>Nodes and references\<close>

record binder_node =
  n_debug_id :: nat
  n_proc :: "ptr option"
  n_refs :: "ptr list"
  internal_strong_refs :: int
  local_weak_refs :: int
  local_strong_refs :: int
  tmp_refs :: int
  n_ptr :: u64
  n_cookie :: u64
  has_strong_ref :: bool
  pending_strong_ref :: bool
  has_weak_ref :: bool
  pending_weak_ref :: bool
  accept_fds :: bool
  txn_security_ctx :: bool
  min_priority :: u8
  has_async_transaction :: bool

text \<open>
  The counts of a reference are integers here and of type \<open>int\<close> in C; \<open>BC_ACQUIRE\<close> and \<open>BC_INCREFS\<close> raise them without a check, so
  the two agree only while the counts are at most $2^{31} - 1$.
\<close>

record binder_ref_data =
  rd_debug_id :: nat
  desc :: u32
  strong :: int
  weak :: int

record binder_ref =
  r_data :: binder_ref_data
  r_proc :: ptr
  r_node :: "ptr option"
  r_death :: "ptr option"

record flat_binder_object =
  fb_type :: u32
  fb_flags :: u32
  fb_binder :: u64
  fb_cookie :: u64

section \<open>Processes, threads and transactions\<close>

definition BINDER_LOOPER_STATE_REGISTERED :: u32 where "BINDER_LOOPER_STATE_REGISTERED = 0x01"
definition BINDER_LOOPER_STATE_ENTERED :: u32 where "BINDER_LOOPER_STATE_ENTERED = 0x02"
definition BINDER_LOOPER_STATE_EXITED :: u32 where "BINDER_LOOPER_STATE_EXITED = 0x04"
definition BINDER_LOOPER_STATE_INVALID :: u32 where "BINDER_LOOPER_STATE_INVALID = 0x08"
definition BINDER_LOOPER_STATE_WAITING :: u32 where "BINDER_LOOPER_STATE_WAITING = 0x10"
definition BINDER_LOOPER_STATE_POLL :: u32 where "BINDER_LOOPER_STATE_POLL = 0x20"

record binder_proc =
  p_threads :: "ptr tree"
  p_nodes :: "ptr tree"
  refs_by_desc :: "ptr tree"
  refs_by_node :: "ptr tree"
  waiting_threads :: "ptr list"
  p_pid :: nat
  p_deferred_work :: u32
  p_is_dead :: bool
  max_threads :: int
  requested_threads :: int
  requested_threads_started :: int
  p_tmp_ref :: int
  default_priority :: int
  p_alloc :: binder_alloc
  p_context :: ptr

record binder_thread =
  t_proc :: ptr
  t_pid :: nat
  looper :: u32
  looper_need_return :: bool
  transaction_stack :: "ptr option"
  process_todo :: bool
  return_error_cmd :: u32
  reply_error_cmd :: u32
  t_tmp_ref :: int
  t_is_dead :: bool

text \<open>The buffer of a transaction is given with the process in whose space it lies.\<close>

record binder_transaction =
  x_debug_id :: nat
  x_from :: "ptr option"
  from_parent :: "ptr option"
  to_proc :: "ptr option"
  to_thread :: "ptr option"
  to_parent :: "ptr option"
  need_reply :: bool
  x_buffer :: "(ptr \<times> ptr) option"
  x_code :: u32
  x_flags :: u32
  x_priority :: int
  saved_priority :: int
  sender_euid :: nat
  fd_fixups :: "(ptr \<times> u64) list"
  x_security_ctx :: u64

record binder_context =
  binder_context_mgr_node :: "ptr option"
  binder_context_mgr_uid :: "nat option"

text \<open>
  The whole driver. \<open>woken\<close> records the wake-ups (thread, synchronous or not), \<open>fput_log\<close> the files
  whose reference the driver has dropped, \<open>task_work\<close> the files that are to be dropped when the current task
  returns to user space. A device is named by its context.
\<close>

record bstate =
  node_at :: "ptr \<Rightarrow> binder_node"
  node_live :: "ptr \<Rightarrow> bool"
  ref_at :: "ptr \<Rightarrow> binder_ref"
  ref_live :: "ptr \<Rightarrow> bool"
  proc_at :: "ptr \<Rightarrow> binder_proc"
  proc_live :: "ptr \<Rightarrow> bool"
  thread_at :: "ptr \<Rightarrow> binder_thread"
  thread_live :: "ptr \<Rightarrow> bool"
  txn_at :: "ptr \<Rightarrow> binder_transaction"
  txn_live :: "ptr \<Rightarrow> bool"
  death_cookie :: "ptr \<Rightarrow> u64"
  death_live :: "ptr \<Rightarrow> bool"
  ctx_at :: "ptr \<Rightarrow> binder_context"
  wlist :: "worklist \<Rightarrow> work_id list"
  wpos :: "work_id \<Rightarrow> worklist option"
  wtype :: "work_id \<Rightarrow> work_type"
  dead_nodes :: "ptr list"
  last_id :: nat
  woken :: "(ptr \<times> bool) list"
  fput_log :: "ptr list"
  task_work :: "ptr list"
  device_ref :: "ptr \<Rightarrow> int"
  device_live :: "ptr \<Rightarrow> bool"
  binder_procs :: "ptr list"
  binder_deferred_list :: "ptr list"

definition upd_node :: "ptr \<Rightarrow> (binder_node \<Rightarrow> binder_node) \<Rightarrow> bstate \<Rightarrow> bstate" where
  "upd_node n f s = s\<lparr>node_at := (node_at s)(n := f (node_at s n))\<rparr>"

definition upd_ref :: "ptr \<Rightarrow> (binder_ref \<Rightarrow> binder_ref) \<Rightarrow> bstate \<Rightarrow> bstate" where
  "upd_ref r f s = s\<lparr>ref_at := (ref_at s)(r := f (ref_at s r))\<rparr>"

definition upd_proc :: "ptr \<Rightarrow> (binder_proc \<Rightarrow> binder_proc) \<Rightarrow> bstate \<Rightarrow> bstate" where
  "upd_proc p f s = s\<lparr>proc_at := (proc_at s)(p := f (proc_at s p))\<rparr>"

definition upd_thread :: "ptr \<Rightarrow> (binder_thread \<Rightarrow> binder_thread) \<Rightarrow> bstate \<Rightarrow> bstate" where
  "upd_thread t f s = s\<lparr>thread_at := (thread_at s)(t := f (thread_at s t))\<rparr>"

definition upd_txn :: "ptr \<Rightarrow> (binder_transaction \<Rightarrow> binder_transaction) \<Rightarrow> bstate \<Rightarrow> bstate" where
  "upd_txn t f s = s\<lparr>txn_at := (txn_at s)(t := f (txn_at s t))\<rparr>"

section \<open>Work lists\<close>

definition binder_worklist_empty_ilocked :: "worklist \<Rightarrow> bstate \<Rightarrow> bool" where
  "binder_worklist_empty_ilocked l s \<longleftrightarrow> wlist s l = []"

definition binder_worklist_empty :: "worklist \<Rightarrow> bstate \<Rightarrow> bool" where
  "binder_worklist_empty l s \<longleftrightarrow> binder_worklist_empty_ilocked l s"

text \<open>\<open>None\<close> is one of the two \<open>BUG_ON\<close>s.\<close>

definition binder_enqueue_work_ilocked :: "work_id \<Rightarrow> worklist option \<Rightarrow> bstate \<Rightarrow> bstate option" where
  "binder_enqueue_work_ilocked w target s =
     (case target of None \<Rightarrow> None
      | Some l \<Rightarrow>
          if wpos s w \<noteq> None then None
          else Some (s\<lparr>wlist := (wlist s)(l := wlist s l @ [w]), wpos := (wpos s)(w := Some l)\<rparr>))"

definition binder_enqueue_deferred_thread_work_ilocked :: "ptr \<Rightarrow> work_id \<Rightarrow> bstate \<Rightarrow> bstate option" where
  "binder_enqueue_deferred_thread_work_ilocked t w s = binder_enqueue_work_ilocked w (Some (ThreadTodo t)) s"

definition binder_enqueue_thread_work_ilocked :: "ptr \<Rightarrow> work_id \<Rightarrow> bstate \<Rightarrow> bstate option" where
  "binder_enqueue_thread_work_ilocked t w s =
     map_option (upd_thread t (\<lambda>th. th\<lparr>process_todo := True\<rparr>))
       (binder_enqueue_work_ilocked w (Some (ThreadTodo t)) s)"

definition binder_enqueue_thread_work :: "ptr \<Rightarrow> work_id \<Rightarrow> bstate \<Rightarrow> bstate option" where
  "binder_enqueue_thread_work t w s = binder_enqueue_thread_work_ilocked t w s"

definition binder_dequeue_work_ilocked :: "work_id \<Rightarrow> bstate \<Rightarrow> bstate" where
  "binder_dequeue_work_ilocked w s =
     (case wpos s w of None \<Rightarrow> s
      | Some l \<Rightarrow> s\<lparr>wlist := (wlist s)(l := list_del w (wlist s l)), wpos := (wpos s)(w := None)\<rparr>)"

definition binder_dequeue_work :: "work_id \<Rightarrow> bstate \<Rightarrow> bstate" where
  "binder_dequeue_work w s = binder_dequeue_work_ilocked w s"

definition binder_dequeue_work_head_ilocked :: "worklist \<Rightarrow> bstate \<Rightarrow> work_id option \<times> bstate" where
  "binder_dequeue_work_head_ilocked l s =
     (case wlist s l of [] \<Rightarrow> (None, s)
      | w # _ \<Rightarrow> (Some w, s\<lparr>wlist := (wlist s)(l := list_del w (wlist s l)), wpos := (wpos s)(w := None)\<rparr>))"

definition binder_has_work_ilocked :: "ptr \<Rightarrow> bool \<Rightarrow> bstate \<Rightarrow> bool" where
  "binder_has_work_ilocked t do_proc_work s \<longleftrightarrow>
     process_todo (thread_at s t) \<or> looper_need_return (thread_at s t) \<or>
     (do_proc_work \<and> \<not> binder_worklist_empty_ilocked (ProcTodo (t_proc (thread_at s t))) s)"

definition binder_has_work :: "ptr \<Rightarrow> bool \<Rightarrow> bstate \<Rightarrow> bool" where
  "binder_has_work t do_proc_work s \<longleftrightarrow> binder_has_work_ilocked t do_proc_work s"

definition binder_available_for_proc_work_ilocked :: "ptr \<Rightarrow> bstate \<Rightarrow> bool" where
  "binder_available_for_proc_work_ilocked t s \<longleftrightarrow>
     transaction_stack (thread_at s t) = None \<and> binder_worklist_empty_ilocked (ThreadTodo t) s \<and>
     looper (thread_at s t) AND (BINDER_LOOPER_STATE_ENTERED OR BINDER_LOOPER_STATE_REGISTERED) \<noteq> 0"

section \<open>Waking threads\<close>

definition wake_up_interruptible :: "bool \<Rightarrow> ptr \<Rightarrow> bstate \<Rightarrow> bstate" where
  "wake_up_interruptible sync t s = s\<lparr>woken := woken s @ [(t, sync)]\<rparr>"

definition binder_wakeup_poll_threads_ilocked :: "ptr \<Rightarrow> bool \<Rightarrow> bstate \<Rightarrow> bstate" where
  "binder_wakeup_poll_threads_ilocked p sync s =
     fold (\<lambda>t s. if looper (thread_at s t) AND BINDER_LOOPER_STATE_POLL \<noteq> 0 \<and> binder_available_for_proc_work_ilocked t s
                 then wake_up_interruptible sync t s else s)
       (inorder (p_threads (proc_at s p))) s"

definition binder_select_thread_ilocked :: "ptr \<Rightarrow> bstate \<Rightarrow> ptr option \<times> bstate" where
  "binder_select_thread_ilocked p s =
     (case waiting_threads (proc_at s p) of [] \<Rightarrow> (None, s)
      | t # ts \<Rightarrow> (Some t, upd_proc p (\<lambda>pr. pr\<lparr>waiting_threads := ts\<rparr>) s))"

definition binder_wakeup_thread_ilocked :: "ptr \<Rightarrow> ptr option \<Rightarrow> bool \<Rightarrow> bstate \<Rightarrow> bstate" where
  "binder_wakeup_thread_ilocked p thread sync s =
     (case thread of Some t \<Rightarrow> wake_up_interruptible sync t s
      | None \<Rightarrow> binder_wakeup_poll_threads_ilocked p sync s)"

definition binder_wakeup_proc_ilocked :: "ptr \<Rightarrow> bstate \<Rightarrow> bstate" where
  "binder_wakeup_proc_ilocked p s =
     (let (thread, s1) = binder_select_thread_ilocked p s in binder_wakeup_thread_ilocked p thread False s1)"

text \<open>The nice value that \<open>binder_set_nice\<close> gives the current task; the limits are arguments.\<close>

definition binder_set_nice :: "(int \<Rightarrow> bool) \<Rightarrow> int \<Rightarrow> int \<Rightarrow> int" where
  "binder_set_nice can_nice rlimit_nice nice = (if can_nice nice then nice else rlimit_nice)"

section \<open>The transaction log\<close>

record binder_transaction_log_entry =
  e_debug_id :: int
  e_debug_id_done :: int
  e_call_type :: int
  e_from_proc :: int
  e_from_thread :: int
  e_target_handle :: int
  e_to_proc :: int
  e_to_thread :: int
  e_to_node :: int
  e_data_size :: int
  e_offsets_size :: int
  e_return_error_line :: int
  e_return_error :: u32
  e_return_error_param :: u32
  e_context_name :: string

definition zero_log_entry :: binder_transaction_log_entry where
  "zero_log_entry = \<lparr>e_debug_id = 0, e_debug_id_done = 0, e_call_type = 0, e_from_proc = 0, e_from_thread = 0,
     e_target_handle = 0, e_to_proc = 0, e_to_thread = 0, e_to_node = 0, e_data_size = 0, e_offsets_size = 0,
     e_return_error_line = 0, e_return_error = 0, e_return_error_param = 0, e_context_name = []\<rparr>"

record binder_transaction_log =
  log_cur :: u32
  log_full :: bool
  log_entry :: "binder_transaction_log_entry list"

text \<open>The result is the index of the entry to fill, zeroed. The array has 32 entries.\<close>

definition binder_transaction_log_add :: "binder_transaction_log \<Rightarrow> nat \<times> binder_transaction_log" where
  "binder_transaction_log_add l =
     (let cur = log_cur l + 1; i = unat (cur mod 32);
          full = (cur \<ge> 32 \<or> log_full l)
      in (i, l\<lparr>log_cur := cur, log_full := full, log_entry := (log_entry l)[i := zero_log_entry]\<rparr>))"

end
