(* ===== verification/Binder_Node.thy ===== *)
theory Binder_Node
  imports Binder_State
begin

text \<open>
  Nodes: lookup and creation in the tree of a process, and the reference counts that decide when a
  node is announced to its owner and when it is freed. \<open>None\<close> is a \<open>BUG_ON\<close> or a free of a dead object.
\<close>

section \<open>Lookup and creation\<close>

definition node_key :: "bstate \<Rightarrow> ptr \<Rightarrow> u64" where
  "node_key s n = n_ptr (node_at s n)"

definition binder_inc_node_tmpref_ilocked :: "ptr \<Rightarrow> bstate \<Rightarrow> bstate" where
  "binder_inc_node_tmpref_ilocked n s = upd_node n (\<lambda>nd. nd\<lparr>tmp_refs := tmp_refs nd + 1\<rparr>) s"

definition binder_inc_node_tmpref :: "ptr \<Rightarrow> bstate \<Rightarrow> bstate" where
  "binder_inc_node_tmpref n s = binder_inc_node_tmpref_ilocked n s"

definition binder_get_node_ilocked :: "ptr \<Rightarrow> u64 \<Rightarrow> bstate \<Rightarrow> ptr option \<times> bstate" where
  "binder_get_node_ilocked p uptr s =
     (case rb_search (node_key s) uptr (p_nodes (proc_at s p)) of None \<Rightarrow> (None, s)
      | Some n \<Rightarrow> (Some n, binder_inc_node_tmpref_ilocked n s))"

definition binder_get_node :: "ptr \<Rightarrow> u64 \<Rightarrow> bstate \<Rightarrow> ptr option \<times> bstate" where
  "binder_get_node p uptr s = binder_get_node_ilocked p uptr s"

definition FLAT_BINDER_FLAG_PRIORITY_MASK :: u32 where "FLAT_BINDER_FLAG_PRIORITY_MASK = 0xff"
definition FLAT_BINDER_FLAG_ACCEPTS_FDS :: u32 where "FLAT_BINDER_FLAG_ACCEPTS_FDS = 0x100"
definition FLAT_BINDER_FLAG_TXN_SECURITY_CTX :: u32 where "FLAT_BINDER_FLAG_TXN_SECURITY_CTX = 0x1000"

text \<open>The fields of a zeroed node after \<open>binder_init_node_ilocked\<close> has filled it in.\<close>

definition new_node_fields :: "ptr \<Rightarrow> nat \<Rightarrow> flat_binder_object option \<Rightarrow> binder_node" where
  "new_node_fields p did fp =
     (let flags = (case fp of None \<Rightarrow> 0 | Some f \<Rightarrow> fb_flags f) in
      \<lparr>n_debug_id = did, n_proc = Some p, n_refs = [], internal_strong_refs = 0, local_weak_refs = 0,
       local_strong_refs = 0, tmp_refs = 1,
       n_ptr = (case fp of None \<Rightarrow> 0 | Some f \<Rightarrow> fb_binder f),
       n_cookie = (case fp of None \<Rightarrow> 0 | Some f \<Rightarrow> fb_cookie f),
       has_strong_ref = False, pending_strong_ref = False, has_weak_ref = False, pending_weak_ref = False,
       accept_fds = (flags AND FLAT_BINDER_FLAG_ACCEPTS_FDS \<noteq> 0),
       txn_security_ctx = (flags AND FLAT_BINDER_FLAG_TXN_SECURITY_CTX \<noteq> 0),
       min_priority = ucast (flags AND FLAT_BINDER_FLAG_PRIORITY_MASK), has_async_transaction = False\<rparr>)"

definition binder_init_node_ilocked ::
    "rb_ops \<Rightarrow> ptr \<Rightarrow> ptr \<Rightarrow> flat_binder_object option \<Rightarrow> bstate \<Rightarrow> ptr \<times> bstate" where
  "binder_init_node_ilocked rb p new fp s =
     (let uptr = (case fp of None \<Rightarrow> 0 | Some f \<Rightarrow> fb_binder f) in
      case rb_search (node_key s) uptr (p_nodes (proc_at s p)) of
        Some n \<Rightarrow> (n, binder_inc_node_tmpref_ilocked n s)
      | None \<Rightarrow>
          (let s1 = upd_proc p (\<lambda>pr. pr\<lparr>p_nodes := rb_insert_color rb new
                      (bst_link (\<lambda>n. uptr < node_key s n) new (p_nodes pr))\<rparr>) s;
               s2 = s1\<lparr>last_id := last_id s1 + 1\<rparr>;
               s3 = s2\<lparr>node_at := (node_at s2)(new := new_node_fields p (last_id s2) fp),
                       wtype := (wtype s2)(NodeWork new := BINDER_WORK_NODE),
                       wpos := (wpos s2)(NodeWork new := None),
                       wlist := (wlist s2)(NodeAsync new := [])\<rparr>
           in (new, s3)))"

text \<open>\<open>kz\<close> is the structure that \<open>kzalloc\<close> returns; it is given back when the node exists already.\<close>

definition binder_new_node ::
    "rb_ops \<Rightarrow> ptr option \<Rightarrow> ptr \<Rightarrow> flat_binder_object option \<Rightarrow> bstate \<Rightarrow> ptr option \<times> bstate" where
  "binder_new_node rb kz p fp s =
     (case kz of None \<Rightarrow> (None, s)
      | Some new \<Rightarrow>
          (let (n, s1) = binder_init_node_ilocked rb p new fp s
           in (Some n, s1\<lparr>node_live := (node_live s1)(new := (n = new))\<rparr>)))"

definition binder_free_node :: "ptr \<Rightarrow> bstate \<Rightarrow> bstate option" where
  "binder_free_node n s = (if node_live s n then Some (s\<lparr>node_live := (node_live s)(n := False)\<rparr>) else None)"

section \<open>Counting references\<close>

text \<open>The manager node of the context of a process.\<close>

definition context_mgr_of :: "bstate \<Rightarrow> ptr \<Rightarrow> ptr option" where
  "context_mgr_of s p = binder_context_mgr_node (ctx_at s (p_context (proc_at s p)))"

definition binder_inc_node_nilocked ::
    "ptr \<Rightarrow> bool \<Rightarrow> bool \<Rightarrow> worklist option \<Rightarrow> bstate \<Rightarrow> (unit result \<times> bstate) option" where
  "binder_inc_node_nilocked n is_strong internal target s =
     (let nd = node_at s n in
      if is_strong then
        if internal \<and> target = None \<and> internal_strong_refs nd = 0 \<and>
           \<not> (case n_proc nd of None \<Rightarrow> False
              | Some p \<Rightarrow> context_mgr_of s p = Some n \<and> has_strong_ref nd)
        then Some (Inl EINVAL, s)
        else
          (let s1 = (if internal
                     then upd_node n (\<lambda>nd. nd\<lparr>internal_strong_refs := internal_strong_refs nd + 1\<rparr>) s
                     else upd_node n (\<lambda>nd. nd\<lparr>local_strong_refs := local_strong_refs nd + 1\<rparr>) s) in
           if \<not> has_strong_ref nd \<and> target \<noteq> None then
             (case target of
                Some (ThreadTodo t) \<Rightarrow>
                  map_option (\<lambda>s2. (Inr (), s2))
                    (binder_enqueue_deferred_thread_work_ilocked t (NodeWork n)
                      (binder_dequeue_work_ilocked (NodeWork n) s1))
              | _ \<Rightarrow> None)
           else Some (Inr (), s1))
      else
        (let s1 = (if \<not> internal
                   then upd_node n (\<lambda>nd. nd\<lparr>local_weak_refs := local_weak_refs nd + 1\<rparr>) s else s) in
         if \<not> has_weak_ref nd \<and> wpos s1 (NodeWork n) = None then
           (if target = None then Some (Inl EINVAL, s1)
            else map_option (\<lambda>s2. (Inr (), s2)) (binder_enqueue_work_ilocked (NodeWork n) target s1))
         else Some (Inr (), s1)))"

definition binder_inc_node ::
    "ptr \<Rightarrow> bool \<Rightarrow> bool \<Rightarrow> worklist option \<Rightarrow> bstate \<Rightarrow> (unit result \<times> bstate) option" where
  "binder_inc_node n is_strong internal target s = binder_inc_node_nilocked n is_strong internal target s"

text \<open>The part of \<open>binder_dec_node_nilocked\<close> after the counter: announce to the owner, or unlink and free.\<close>

definition dec_node_check :: "rb_ops \<Rightarrow> ptr \<Rightarrow> bstate \<Rightarrow> (bool \<times> bstate) option" where
  "dec_node_check rb n s =
     (let nd = node_at s n in
      case n_proc nd of
        Some p \<Rightarrow>
          if has_strong_ref nd \<or> has_weak_ref nd then
            if wpos s (NodeWork n) = None
            then map_option (\<lambda>s1. (False, binder_wakeup_proc_ilocked p s1))
                   (binder_enqueue_work_ilocked (NodeWork n) (Some (ProcTodo p)) s)
            else Some (False, s)
          else if n_refs nd = [] \<and> local_strong_refs nd = 0 \<and> local_weak_refs nd = 0 \<and> tmp_refs nd = 0
          then Some (True, upd_proc p (\<lambda>pr. pr\<lparr>p_nodes := rb_erase rb n (p_nodes pr)\<rparr>)
                 (binder_dequeue_work_ilocked (NodeWork n) s))
          else Some (False, s)
      | None \<Rightarrow>
          if n_refs nd = [] \<and> local_strong_refs nd = 0 \<and> local_weak_refs nd = 0 \<and> tmp_refs nd = 0
          then if wpos s (NodeWork n) \<noteq> None then None
            else Some (True, s\<lparr>dead_nodes := list_del n (dead_nodes s)\<rparr>)
          else Some (False, s))"

definition binder_dec_node_nilocked :: "rb_ops \<Rightarrow> ptr \<Rightarrow> bool \<Rightarrow> bool \<Rightarrow> bstate \<Rightarrow> (bool \<times> bstate) option" where
  "binder_dec_node_nilocked rb n is_strong internal s =
     (if is_strong then
        (let s1 = (if internal
                   then upd_node n (\<lambda>nd. nd\<lparr>internal_strong_refs := internal_strong_refs nd - 1\<rparr>) s
                   else upd_node n (\<lambda>nd. nd\<lparr>local_strong_refs := local_strong_refs nd - 1\<rparr>) s) in
         if local_strong_refs (node_at s1 n) \<noteq> 0 \<or> internal_strong_refs (node_at s1 n) \<noteq> 0
         then Some (False, s1) else dec_node_check rb n s1)
      else
        (let s1 = (if \<not> internal
                   then upd_node n (\<lambda>nd. nd\<lparr>local_weak_refs := local_weak_refs nd - 1\<rparr>) s else s) in
         if local_weak_refs (node_at s1 n) \<noteq> 0 \<or> tmp_refs (node_at s1 n) \<noteq> 0 \<or> n_refs (node_at s1 n) \<noteq> []
         then Some (False, s1) else dec_node_check rb n s1))"

definition binder_dec_node :: "rb_ops \<Rightarrow> ptr \<Rightarrow> bool \<Rightarrow> bool \<Rightarrow> bstate \<Rightarrow> bstate option" where
  "binder_dec_node rb n is_strong internal s =
     (case binder_dec_node_nilocked rb n is_strong internal s of None \<Rightarrow> None
      | Some (free_node, s1) \<Rightarrow> if free_node then binder_free_node n s1 else Some s1)"

definition binder_dec_node_tmpref :: "rb_ops \<Rightarrow> ptr \<Rightarrow> bstate \<Rightarrow> bstate option" where
  "binder_dec_node_tmpref rb n s =
     (let s1 = upd_node n (\<lambda>nd. nd\<lparr>tmp_refs := tmp_refs nd - 1\<rparr>) s in
      if tmp_refs (node_at s1 n) < 0 then None
      else case binder_dec_node_nilocked rb n False True s1 of None \<Rightarrow> None
      | Some (free_node, s2) \<Rightarrow> if free_node then binder_free_node n s2 else Some s2)"

definition binder_put_node :: "rb_ops \<Rightarrow> ptr \<Rightarrow> bstate \<Rightarrow> bstate option" where
  "binder_put_node rb n s = binder_dec_node_tmpref rb n s"

end
