(* ===== verification/Binder_Ref.thy ===== *)
theory Binder_Ref
  imports Binder_Node
begin

text \<open>
  References: the handles a process has on nodes, in two trees of the process (by handle and by node)
  and in the list of the node. \<open>None\<close> is a \<open>BUG\<close>, a missing node or a double free.
\<close>

definition zero_ref :: binder_ref where
  "zero_ref = \<lparr>r_data = \<lparr>rd_debug_id = 0, desc = 0, strong = 0, weak = 0\<rparr>, r_proc = 0, r_node = None, r_death = None\<rparr>"

definition ref_desc :: "bstate \<Rightarrow> ptr \<Rightarrow> u32" where
  "ref_desc s r = desc (r_data (ref_at s r))"

text \<open>References are ordered by the address of their node.\<close>

definition ref_node_key :: "bstate \<Rightarrow> ptr \<Rightarrow> ptr" where
  "ref_node_key s r = (case r_node (ref_at s r) of None \<Rightarrow> 0 | Some n \<Rightarrow> n)"

definition upd_ref_data :: "ptr \<Rightarrow> (binder_ref_data \<Rightarrow> binder_ref_data) \<Rightarrow> bstate \<Rightarrow> bstate" where
  "upd_ref_data r f s = upd_ref r (\<lambda>rf. rf\<lparr>r_data := f (r_data rf)\<rparr>) s"

section \<open>Lookup and creation\<close>

definition binder_get_ref_olocked :: "ptr \<Rightarrow> u32 \<Rightarrow> bool \<Rightarrow> bstate \<Rightarrow> ptr option" where
  "binder_get_ref_olocked p d need_strong_ref s =
     (case rb_search (ref_desc s) d (refs_by_desc (proc_at s p)) of None \<Rightarrow> None
      | Some r \<Rightarrow> if need_strong_ref \<and> strong (r_data (ref_at s r)) = 0 then None else Some r)"

text \<open>The walk over the handles in ascending order that picks the handle of a new reference.\<close>

fun next_desc :: "(ptr \<Rightarrow> u32) \<Rightarrow> ptr list \<Rightarrow> u32 \<Rightarrow> u32" where
  "next_desc key [] d = d"
| "next_desc key (r # rs) d = (if key r > d then d else next_desc key rs (key r + 1))"

fun desc_link :: "(ptr \<Rightarrow> u32) \<Rightarrow> u32 \<Rightarrow> ptr \<Rightarrow> ptr tree \<Rightarrow> ptr tree option" where
  "desc_link key d new Leaf = Some (Node Leaf new Leaf)"
| "desc_link key d new (Node l r rt) =
     (if d < key r then map_option (\<lambda>l'. Node l' r rt) (desc_link key d new l)
      else if d > key r then map_option (\<lambda>rt'. Node l r rt') (desc_link key d new rt)
      else None)"

definition binder_get_ref_for_node_olocked ::
    "rb_ops \<Rightarrow> ptr \<Rightarrow> ptr \<Rightarrow> ptr option \<Rightarrow> bstate \<Rightarrow> (ptr option \<times> bstate) option" where
  "binder_get_ref_for_node_olocked rb p n new_ref s =
     (let pr = proc_at s p in
      case rb_search (ref_node_key s) n (refs_by_node pr) of
        Some r \<Rightarrow> Some (Some r, s)
      | None \<Rightarrow>
        (case new_ref of None \<Rightarrow> Some (None, s)
         | Some new \<Rightarrow>
           (let s1 = s\<lparr>last_id := last_id s + 1\<rparr>;
                s2 = upd_proc p (\<lambda>pr. pr\<lparr>refs_by_node := rb_insert_color rb new
                       (bst_link (\<lambda>r. n < ref_node_key s r) new (refs_by_node pr))\<rparr>) s1;
                d = next_desc (ref_desc s) (inorder (refs_by_desc pr)) (if context_mgr_of s p = Some n then 0 else 1)
            in case desc_link (ref_desc s) d new (refs_by_desc pr) of None \<Rightarrow> None
               | Some t \<Rightarrow>
                   (let s3 = upd_ref new (\<lambda>rf. rf\<lparr>r_data := (r_data rf)\<lparr>rd_debug_id := last_id s1, desc := d\<rparr>,
                               r_proc := p, r_node := Some n\<rparr>) s2;
                        s4 = upd_proc p (\<lambda>pr. pr\<lparr>refs_by_desc := rb_insert_color rb new t\<rparr>) s3
                    in Some (Some new, upd_node n (\<lambda>nd. nd\<lparr>n_refs := new # n_refs nd\<rparr>) s4)))))"

section \<open>Counting\<close>

definition binder_cleanup_ref_olocked :: "rb_ops \<Rightarrow> ptr \<Rightarrow> bstate \<Rightarrow> bstate option" where
  "binder_cleanup_ref_olocked rb r s =
     (let rf = ref_at s r;
          s1 = upd_proc (r_proc rf) (\<lambda>pr. pr\<lparr>refs_by_desc := rb_erase rb r (refs_by_desc pr),
                 refs_by_node := rb_erase rb r (refs_by_node pr)\<rparr>) s
      in case r_node rf of None \<Rightarrow> None
         | Some n \<Rightarrow>
           (case (if strong (r_data rf) \<noteq> 0 then map_option snd (binder_dec_node_nilocked rb n True True s1) else Some s1) of
              None \<Rightarrow> None
            | Some s2 \<Rightarrow>
              (let s3 = upd_node n (\<lambda>nd. nd\<lparr>n_refs := list_del r (n_refs nd)\<rparr>) s2 in
               case binder_dec_node_nilocked rb n False True s3 of None \<Rightarrow> None
               | Some (delete_node, s4) \<Rightarrow>
                 (let s5 = (if \<not> delete_node then upd_ref r (\<lambda>rf. rf\<lparr>r_node := None\<rparr>) s4 else s4)
                  in Some (case r_death rf of None \<Rightarrow> s5 | Some d \<Rightarrow> binder_dequeue_work (DeathWork d) s5)))))"

definition binder_inc_ref_olocked ::
    "ptr \<Rightarrow> bool \<Rightarrow> worklist option \<Rightarrow> bstate \<Rightarrow> (unit result \<times> bstate) option" where
  "binder_inc_ref_olocked r is_strong target s =
     (let rf = ref_at s r;
          inc = (if is_strong then upd_ref_data r (\<lambda>d. d\<lparr>strong := strong d + 1\<rparr>)
                 else upd_ref_data r (\<lambda>d. d\<lparr>weak := weak d + 1\<rparr>));
          cnt = (if is_strong then strong (r_data rf) else weak (r_data rf))
      in if cnt = 0 then
           (case r_node rf of None \<Rightarrow> None
            | Some n \<Rightarrow> (case binder_inc_node n is_strong True target s of None \<Rightarrow> None
                | Some (Inl e, s1) \<Rightarrow> Some (Inl e, s1)
                | Some (Inr _, s1) \<Rightarrow> Some (Inr (), inc s1)))
         else Some (Inr (), inc s))"

definition binder_dec_ref_olocked :: "rb_ops \<Rightarrow> ptr \<Rightarrow> bool \<Rightarrow> bstate \<Rightarrow> (bool \<times> bstate) option" where
  "binder_dec_ref_olocked rb r is_strong s =
     (let rd = r_data (ref_at s r) in
      if (if is_strong then strong rd = 0 else weak rd = 0) then Some (False, s)
      else
        (let s1 = (if is_strong then upd_ref_data r (\<lambda>d. d\<lparr>strong := strong d - 1\<rparr>) s
                   else upd_ref_data r (\<lambda>d. d\<lparr>weak := weak d - 1\<rparr>) s);
             rd1 = r_data (ref_at s1 r)
         in case (if is_strong \<and> strong rd1 = 0
                  then (case r_node (ref_at s1 r) of None \<Rightarrow> None | Some n \<Rightarrow> binder_dec_node rb n True True s1)
                  else Some s1) of
              None \<Rightarrow> None
            | Some s2 \<Rightarrow>
                if strong rd1 = 0 \<and> weak rd1 = 0
                then map_option (\<lambda>s3. (True, s3)) (binder_cleanup_ref_olocked rb r s2)
                else Some (False, s2)))"

section \<open>The operations on handles\<close>

definition binder_get_node_from_ref ::
    "ptr \<Rightarrow> u32 \<Rightarrow> bool \<Rightarrow> bstate \<Rightarrow> ((ptr \<times> binder_ref_data) option \<times> bstate) option" where
  "binder_get_node_from_ref p d need_strong_ref s =
     (case binder_get_ref_olocked p d need_strong_ref s of None \<Rightarrow> Some (None, s)
      | Some r \<Rightarrow> (case r_node (ref_at s r) of None \<Rightarrow> None
          | Some n \<Rightarrow> Some (Some (n, r_data (ref_at s r)), binder_inc_node_tmpref n s)))"

definition binder_free_ref :: "ptr \<Rightarrow> bstate \<Rightarrow> bstate option" where
  "binder_free_ref r s =
     (case (case r_node (ref_at s r) of None \<Rightarrow> Some s | Some n \<Rightarrow> binder_free_node n s) of None \<Rightarrow> None
      | Some s1 \<Rightarrow>
          (let s2 = (case r_death (ref_at s r) of None \<Rightarrow> s1
                     | Some d \<Rightarrow> s1\<lparr>death_live := (death_live s1)(d := False)\<rparr>)
           in if ref_live s2 r then Some (s2\<lparr>ref_live := (ref_live s2)(r := False)\<rparr>) else None))"

text \<open>The result, the counts of the reference when it was found, and the new state.\<close>

definition binder_update_ref_for_handle ::
    "rb_ops \<Rightarrow> ptr \<Rightarrow> u32 \<Rightarrow> bool \<Rightarrow> bool \<Rightarrow> bstate \<Rightarrow> (unit result \<times> binder_ref_data option \<times> bstate) option" where
  "binder_update_ref_for_handle rb p d increment is_strong s =
     (case binder_get_ref_olocked p d is_strong s of None \<Rightarrow> Some (Inl EINVAL, None, s)
      | Some r \<Rightarrow>
          if increment
          then map_option (\<lambda>(ret, s1). (ret, Some (r_data (ref_at s1 r)), s1)) (binder_inc_ref_olocked r is_strong None s)
          else (case binder_dec_ref_olocked rb r is_strong s of None \<Rightarrow> None
            | Some (delete_ref, s1) \<Rightarrow>
                (let rdata = r_data (ref_at s1 r)
                 in if delete_ref then map_option (\<lambda>s2. (Inr (), Some rdata, s2)) (binder_free_ref r s1)
                    else Some (Inr (), Some rdata, s1))))"

definition binder_dec_ref_for_handle ::
    "rb_ops \<Rightarrow> ptr \<Rightarrow> u32 \<Rightarrow> bool \<Rightarrow> bstate \<Rightarrow> (unit result \<times> binder_ref_data option \<times> bstate) option" where
  "binder_dec_ref_for_handle rb p d is_strong s = binder_update_ref_for_handle rb p d False is_strong s"

text \<open>
  \<open>kz\<close> is the structure that \<open>kzalloc\<close> returns and \<open>intf\<close> what other threads do while the lock of the
  process is dropped for the allocation.
\<close>

definition binder_inc_ref_for_node ::
    "rb_ops \<Rightarrow> ptr option \<Rightarrow> (bstate \<Rightarrow> bstate) \<Rightarrow> ptr \<Rightarrow> ptr \<Rightarrow> bool \<Rightarrow> worklist option \<Rightarrow> bstate \<Rightarrow>
     (unit result \<times> binder_ref_data option \<times> bstate) option" where
  "binder_inc_ref_for_node rb kz intf p n is_strong target s =
     (case binder_get_ref_for_node_olocked rb p n None s of None \<Rightarrow> None
      | Some (Some r, s1) \<Rightarrow>
          map_option (\<lambda>(ret, s2). (ret, Some (r_data (ref_at s2 r)), s2)) (binder_inc_ref_olocked r is_strong target s1)
      | Some (None, s1) \<Rightarrow>
          (case kz of None \<Rightarrow> Some (Inl ENOMEM, None, intf s1)
           | Some new \<Rightarrow>
               (let s2 = intf s1;
                    s3 = s2\<lparr>ref_at := (ref_at s2)(new := zero_ref), ref_live := (ref_live s2)(new := True)\<rparr>
                in case binder_get_ref_for_node_olocked rb p n (Some new) s3 of
                     None \<Rightarrow> None
                   | Some (None, _) \<Rightarrow> None
                   | Some (Some r, s4) \<Rightarrow>
                       map_option (\<lambda>(ret, s5). (ret, Some (r_data (ref_at s5 r)),
                           if r \<noteq> new then s5\<lparr>ref_live := (ref_live s5)(new := False)\<rparr> else s5))
                         (binder_inc_ref_olocked r is_strong target s4))))"

end
