(* ===== verification/Binder_Ref_Inv.thy ===== *)
theory Binder_Ref_Inv
  imports Binder_Ref
begin

text \<open>
  The invariant of nodes, references and work lists: the trees of a process hold exactly its live
  references and its own nodes, a live reference is in the list of a live node, the internal strong
  count of a node is the number of its strong references, and no list holds the work of a freed node.
\<close>

lemma upd_simps [simp]:
  "node_at (upd_node n f s) = (node_at s)(n := f (node_at s n))" "ref_at (upd_node n f s) = ref_at s"
  "proc_at (upd_node n f s) = proc_at s" "node_live (upd_node n f s) = node_live s" "ref_live (upd_node n f s) = ref_live s"
  "proc_live (upd_node n f s) = proc_live s" "dead_nodes (upd_node n f s) = dead_nodes s"
  "death_live (upd_node n f s) = death_live s" "wlist (upd_node n f s) = wlist s" "wpos (upd_node n f s) = wpos s"
  "ctx_at (upd_node n f s) = ctx_at s"
  "ref_at (upd_ref r g s) = (ref_at s)(r := g (ref_at s r))" "node_at (upd_ref r g s) = node_at s"
  "proc_at (upd_ref r g s) = proc_at s" "node_live (upd_ref r g s) = node_live s" "ref_live (upd_ref r g s) = ref_live s"
  "proc_live (upd_ref r g s) = proc_live s" "dead_nodes (upd_ref r g s) = dead_nodes s"
  "death_live (upd_ref r g s) = death_live s" "wlist (upd_ref r g s) = wlist s" "wpos (upd_ref r g s) = wpos s"
  "ctx_at (upd_ref r g s) = ctx_at s"
  "proc_at (upd_proc p h s) = (proc_at s)(p := h (proc_at s p))" "node_at (upd_proc p h s) = node_at s"
  "ref_at (upd_proc p h s) = ref_at s" "node_live (upd_proc p h s) = node_live s" "ref_live (upd_proc p h s) = ref_live s"
  "proc_live (upd_proc p h s) = proc_live s" "dead_nodes (upd_proc p h s) = dead_nodes s"
  "death_live (upd_proc p h s) = death_live s" "wlist (upd_proc p h s) = wlist s" "wpos (upd_proc p h s) = wpos s"
  "ctx_at (upd_proc p h s) = ctx_at s"
  by (simp_all add: upd_node_def upd_ref_def upd_proc_def)

section \<open>The invariant\<close>

definition work_ok :: "bstate \<Rightarrow> bool" where
  "work_ok s \<longleftrightarrow> (\<forall>w l. w \<in> set (wlist s l) \<longleftrightarrow> wpos s w = Some l) \<and> (\<forall>l. distinct (wlist s l)) \<and>
     (\<forall>n. wpos s (NodeWork n) \<noteq> None \<longrightarrow> node_live s n) \<and> (\<forall>d. wpos s (DeathWork d) \<noteq> None \<longrightarrow> death_live s d)"

definition strong_refs :: "bstate \<Rightarrow> ptr \<Rightarrow> nat" where
  "strong_refs s n = length (filter (\<lambda>r. strong (r_data (ref_at s r)) \<noteq> 0) (n_refs (node_at s n)))"

definition node_ok :: "int \<Rightarrow> ptr set \<Rightarrow> bstate \<Rightarrow> ptr \<Rightarrow> bool" where
  "node_ok k X s n \<longleftrightarrow>
     (let nd = node_at s n in
      distinct (n_refs nd) \<and> (\<forall>r\<in>set (n_refs nd). ref_live s r \<and> r \<notin> X \<and> r_node (ref_at s r) = Some n) \<and>
      internal_strong_refs nd = int (strong_refs s n) + k \<and>
      0 \<le> local_strong_refs nd \<and> 0 \<le> local_weak_refs nd \<and> 0 \<le> tmp_refs nd \<and>
      (case n_proc nd of Some p \<Rightarrow> proc_live s p \<and> n \<in> set (inorder (p_nodes (proc_at s p)))
       | None \<Rightarrow> n \<in> set (dead_nodes s) \<and> wpos s (NodeWork n) = None))"

text \<open>A death notification belongs to one reference.\<close>

definition sole_death :: "ptr set \<Rightarrow> bstate \<Rightarrow> ptr \<Rightarrow> ptr \<Rightarrow> bool" where
  "sole_death X s d r \<longleftrightarrow> (\<forall>r'. ref_live s r' \<and> r' \<notin> X \<and> r_death (ref_at s r') = Some d \<longrightarrow> r' = r)"

definition ref_ok :: "ptr set \<Rightarrow> bstate \<Rightarrow> ptr \<Rightarrow> bool" where
  "ref_ok X s r \<longleftrightarrow>
     (let rf = ref_at s r in
      proc_live s (r_proc rf) \<and>
      (case r_node rf of None \<Rightarrow> False | Some n \<Rightarrow> node_live s n \<and> r \<in> set (n_refs (node_at s n))) \<and>
      0 \<le> strong (r_data rf) \<and> 0 \<le> weak (r_data rf) \<and>
      (case r_death rf of None \<Rightarrow> True | Some d \<Rightarrow> death_live s d \<and> sole_death X s d r))"

definition proc_ok :: "ptr set \<Rightarrow> bstate \<Rightarrow> ptr \<Rightarrow> bool" where
  "proc_ok X s p \<longleftrightarrow>
     (let pr = proc_at s p in
      keyed (node_key s) (inorder (p_nodes pr)) \<and>
      (\<forall>n\<in>set (inorder (p_nodes pr)). node_live s n \<and> n_proc (node_at s n) = Some p) \<and>
      keyed (ref_desc s) (inorder (refs_by_desc pr)) \<and> keyed (ref_node_key s) (inorder (refs_by_node pr)) \<and>
      (\<forall>r. r \<in> set (inorder (refs_by_desc pr)) \<longleftrightarrow> ref_live s r \<and> r \<notin> X \<and> r_proc (ref_at s r) = p) \<and>
      (\<forall>r. r \<in> set (inorder (refs_by_node pr)) \<longleftrightarrow> ref_live s r \<and> r \<notin> X \<and> r_proc (ref_at s r) = p))"

text \<open>
  \<open>k n\<close> is by how much the internal strong count of \<open>n\<close> differs from the number of its strong
  references; it is 0 except in the middle of an operation.
\<close>

definition inv_but :: "(ptr \<Rightarrow> int) \<Rightarrow> ptr set \<Rightarrow> bstate \<Rightarrow> bool" where
  "inv_but k X s \<longleftrightarrow> work_ok s \<and> (\<forall>n. node_live s n \<longrightarrow> node_ok (k n) X s n) \<and> (\<forall>r. ref_live s r \<and> r \<notin> X \<longrightarrow> ref_ok X s r) \<and>
     (\<forall>p. proc_live s p \<longrightarrow> proc_ok X s p) \<and> distinct (dead_nodes s) \<and>
     (\<forall>n\<in>set (dead_nodes s). node_live s n \<and> n_proc (node_at s n) = None)"

abbreviation binder_inv :: "bstate \<Rightarrow> bool" where
  "binder_inv \<equiv> inv_but (\<lambda>_. 0) {}"

lemma inv_butD:
  assumes "inv_but k X s"
  shows "work_ok s" "node_live s n \<Longrightarrow> node_ok (k n) X s n" "ref_live s r \<Longrightarrow> r \<notin> X \<Longrightarrow> ref_ok X s r" "proc_live s p \<Longrightarrow> proc_ok X s p"
    "distinct (dead_nodes s)" "n \<in> set (dead_nodes s) \<Longrightarrow> node_live s n \<and> n_proc (node_at s n) = None"
  using assms by (auto simp: inv_but_def)

section \<open>States that agree for the invariant\<close>

text \<open>Counters and flags of nodes other than the internal count, and whom the driver wakes, do not matter.\<close>

definition same_core :: "bstate \<Rightarrow> bstate \<Rightarrow> bool" where
  "same_core s s' \<longleftrightarrow> node_live s' = node_live s \<and> ref_at s' = ref_at s \<and> ref_live s' = ref_live s \<and>
     proc_live s' = proc_live s \<and> death_live s' = death_live s \<and> dead_nodes s' = dead_nodes s \<and> ctx_at s' = ctx_at s \<and>
     (\<forall>n. n_refs (node_at s' n) = n_refs (node_at s n) \<and> n_proc (node_at s' n) = n_proc (node_at s n) \<and>
        n_ptr (node_at s' n) = n_ptr (node_at s n)) \<and>
     (\<forall>p. p_nodes (proc_at s' p) = p_nodes (proc_at s p) \<and> refs_by_desc (proc_at s' p) = refs_by_desc (proc_at s p) \<and>
        refs_by_node (proc_at s' p) = refs_by_node (proc_at s p) \<and> p_context (proc_at s' p) = p_context (proc_at s p))"

lemma same_core_refl [simp]: "same_core s s"
  by (simp add: same_core_def)

lemma same_core_trans: "same_core s1 s2 \<Longrightarrow> same_core s2 s3 \<Longrightarrow> same_core s1 s3"
  by (simp add: same_core_def)

lemma same_coreD:
  assumes "same_core s s'"
  shows "node_live s' = node_live s" "ref_at s' = ref_at s" "ref_live s' = ref_live s" "proc_live s' = proc_live s"
    "death_live s' = death_live s" "dead_nodes s' = dead_nodes s" "n_refs (node_at s' n) = n_refs (node_at s n)"
    "n_proc (node_at s' n) = n_proc (node_at s n)" "n_ptr (node_at s' n) = n_ptr (node_at s n)"
    "p_nodes (proc_at s' p) = p_nodes (proc_at s p)" "refs_by_desc (proc_at s' p) = refs_by_desc (proc_at s p)"
    "refs_by_node (proc_at s' p) = refs_by_node (proc_at s p)" "ctx_at s' = ctx_at s"
    "p_context (proc_at s' p) = p_context (proc_at s p)"
  using assms by (auto simp: same_core_def)

text \<open>No operation on nodes and references creates or frees a process or changes its context.\<close>

definition same_procs :: "bstate \<Rightarrow> bstate \<Rightarrow> bool" where
  "same_procs s s' \<longleftrightarrow> proc_live s' = proc_live s \<and> ctx_at s' = ctx_at s \<and>
     (\<forall>p. p_context (proc_at s' p) = p_context (proc_at s p))"

lemma same_procs_refl [simp]: "same_procs s s"
  by (simp add: same_procs_def)

lemma same_procs_trans [trans]: "same_procs s1 s2 \<Longrightarrow> same_procs s2 s3 \<Longrightarrow> same_procs s1 s3"
  by (simp add: same_procs_def)

lemma same_core_procs: "same_core s s' \<Longrightarrow> same_procs s s'"
  by (simp add: same_core_def same_procs_def)

lemma same_core_keys:
  assumes "same_core s s'"
  shows "node_key s' = node_key s" "ref_desc s' = ref_desc s" "ref_node_key s' = ref_node_key s" "strong_refs s' = strong_refs s"
  using same_coreD [OF assms]
  by (auto simp: fun_eq_iff node_key_def ref_desc_def ref_node_key_def strong_refs_def)

lemma inv_but_core:
  assumes inv: "inv_but k X s" and core: "same_core s s'" and w: "work_ok s'"
    and cnt: "\<And>n. node_live s n \<Longrightarrow> internal_strong_refs (node_at s' n) = int (strong_refs s n) + k' n \<and>
      0 \<le> local_strong_refs (node_at s' n) \<and> 0 \<le> local_weak_refs (node_at s' n) \<and> 0 \<le> tmp_refs (node_at s' n)"
    and pos: "\<And>n. node_live s n \<Longrightarrow> n_proc (node_at s n) = None \<Longrightarrow> wpos s' (NodeWork n) = None"
  shows "inv_but k' X s'"
proof -
  note c = same_coreD [OF core] same_core_keys [OF core]
  have n: "node_ok (k' n) X s' n" if "node_live s n" for n
    using inv_butD(2) [OF inv that] cnt [OF that] pos [OF that]
    unfolding node_ok_def Let_def c by (auto split: option.splits)
  have r: "ref_ok X s' r" if "ref_live s r" "r \<notin> X" for r
    using inv_butD(3) [OF inv that] unfolding ref_ok_def sole_death_def Let_def c .
  have p: "proc_ok X s' p" if "proc_live s p" for p
    using inv_butD(4) [OF inv that] unfolding proc_ok_def Let_def c by simp
  have "distinct (dead_nodes s')" "\<forall>n\<in>set (dead_nodes s'). node_live s' n \<and> n_proc (node_at s' n) = None"
    unfolding c using inv_butD(5,6) [OF inv] by auto
  then show ?thesis using w n r p unfolding inv_but_def by (simp add: c)
qed

text \<open>Waking threads.\<close>

lemma wake_poll_fold:
  "\<exists>wk. fold (\<lambda>t s. if looper (thread_at s t) AND BINDER_LOOPER_STATE_POLL \<noteq> 0 \<and> binder_available_for_proc_work_ilocked t s
                 then wake_up_interruptible sync t s else s) ts s = s\<lparr>woken := wk\<rparr>"
proof (induction ts arbitrary: s)
  case Nil
  show ?case by (intro exI [of _ "woken s"]) simp
next
  case (Cons t ts)
  show ?case
  proof (cases "looper (thread_at s t) AND BINDER_LOOPER_STATE_POLL \<noteq> 0 \<and> binder_available_for_proc_work_ilocked t s")
    case True
    then show ?thesis using Cons.IH [of "wake_up_interruptible sync t s"] by (auto simp: wake_up_interruptible_def)
  next
    case False
    then show ?thesis using Cons.IH [of s] by auto
  qed
qed

lemma wakeup_proc_core:
  "same_core s (binder_wakeup_proc_ilocked p s)" "wlist (binder_wakeup_proc_ilocked p s) = wlist s"
  "wpos (binder_wakeup_proc_ilocked p s) = wpos s" "node_at (binder_wakeup_proc_ilocked p s) = node_at s"
proof -
  let ?f = "\<lambda>t s. if looper (thread_at s t) AND BINDER_LOOPER_STATE_POLL \<noteq> 0 \<and> binder_available_for_proc_work_ilocked t s
                 then wake_up_interruptible False t s else s"
  obtain wk where "fold ?f (inorder (p_threads (proc_at s p))) s = s\<lparr>woken := wk\<rparr>" using wake_poll_fold by blast
  then have "same_core s (binder_wakeup_proc_ilocked p s) \<and> wlist (binder_wakeup_proc_ilocked p s) = wlist s \<and>
      wpos (binder_wakeup_proc_ilocked p s) = wpos s \<and> node_at (binder_wakeup_proc_ilocked p s) = node_at s"
    by (auto simp: binder_wakeup_proc_ilocked_def binder_select_thread_ilocked_def binder_wakeup_thread_ilocked_def
        binder_wakeup_poll_threads_ilocked_def wake_up_interruptible_def same_core_def split: list.splits)
  then show "same_core s (binder_wakeup_proc_ilocked p s)" "wlist (binder_wakeup_proc_ilocked p s) = wlist s"
    "wpos (binder_wakeup_proc_ilocked p s) = wpos s" "node_at (binder_wakeup_proc_ilocked p s) = node_at s" by auto
qed

section \<open>Queueing and removing work\<close>

definition enqueued :: "work_id \<Rightarrow> worklist \<Rightarrow> bstate \<Rightarrow> bstate" where
  "enqueued w l s = s\<lparr>wlist := (wlist s)(l := wlist s l @ [w]), wpos := (wpos s)(w := Some l)\<rparr>"

lemma enqueue_work: "wpos s w = None \<Longrightarrow> binder_enqueue_work_ilocked w (Some l) s = Some (enqueued w l s)"
  by (simp add: binder_enqueue_work_ilocked_def enqueued_def)

lemma enqueued_simps [simp]:
  "same_core s (enqueued w l s)" "node_at (enqueued w l s) = node_at s" "wpos (enqueued w l s) = (wpos s)(w := Some l)"
  "wlist (enqueued w l s) = (wlist s)(l := wlist s l @ [w])"
  by (simp_all add: enqueued_def same_core_def)

lemma work_ok_enqueued:
  assumes "work_ok s" "wpos s w = None" "\<And>n. w = NodeWork n \<Longrightarrow> node_live s n" "\<And>d. w = DeathWork d \<Longrightarrow> death_live s d"
  shows "work_ok (enqueued w l s)"
proof -
  have "w \<notin> set (wlist s l')" for l' using assms(1,2) by (simp add: work_ok_def)
  then show ?thesis using assms unfolding work_ok_def by (auto simp: enqueued_def)
qed

lemma dequeue_simps [simp]:
  "same_core s (binder_dequeue_work_ilocked w s)" "node_at (binder_dequeue_work_ilocked w s) = node_at s"
  "proc_at (binder_dequeue_work_ilocked w s) = proc_at s"
  "wpos (binder_dequeue_work_ilocked w s) = (wpos s)(w := None)"
  by (auto simp: binder_dequeue_work_ilocked_def same_core_def split: option.splits)

lemma work_ok_dequeue:
  assumes "work_ok s"
  shows "work_ok (binder_dequeue_work_ilocked w s)"
proof (cases "wpos s w")
  case (Some l)
  let ?s = "binder_dequeue_work_ilocked w s"
  have d: "distinct (wlist s l')" for l' using assms by (simp add: work_ok_def)
  have m: "v \<in> set (wlist s l') \<longleftrightarrow> wpos s v = Some l'" for v l' using assms by (simp add: work_ok_def)
  have "wlist ?s = (wlist s)(l := list_del w (wlist s l))" using Some by (simp add: binder_dequeue_work_ilocked_def)
  moreover have "node_live ?s = node_live s" "death_live ?s = death_live s"
    using same_coreD [OF dequeue_simps(1)] by auto
  ultimately show ?thesis
    using assms Some d m unfolding work_ok_def by auto
qed (use assms in \<open>simp add: binder_dequeue_work_ilocked_def\<close>)

section \<open>Node counts\<close>

text \<open>A node whose work is put on the list of a thread still has an owner, and strong work goes to a thread.\<close>

definition target_ok :: "bool \<Rightarrow> worklist option \<Rightarrow> ptr \<Rightarrow> bstate \<Rightarrow> bool" where
  "target_ok is_strong target n s \<longleftrightarrow>
     (case target of None \<Rightarrow> True
      | Some l \<Rightarrow> n_proc (node_at s n) \<noteq> None \<and> (is_strong \<longrightarrow> (\<exists>t. l = ThreadTodo t)))"

lemma same_core_upd_node:
  assumes "\<And>nd. n_refs (f nd) = n_refs nd" "\<And>nd. n_proc (f nd) = n_proc nd" "\<And>nd. n_ptr (f nd) = n_ptr nd"
  shows "same_core s (upd_node n f s)"
  using assms by (simp add: same_core_def)

text \<open>Adding to the counts of one node.\<close>

lemma inv_but_count:
  assumes inv: "inv_but k X s" and f: "\<And>nd. n_refs (f nd) = n_refs nd" "\<And>nd. n_proc (f nd) = n_proc nd" "\<And>nd. n_ptr (f nd) = n_ptr nd"
    and c: "node_live s n \<Longrightarrow> 0 \<le> local_strong_refs (f (node_at s n)) \<and> 0 \<le> local_weak_refs (f (node_at s n)) \<and>
      0 \<le> tmp_refs (f (node_at s n))"
    and i: "internal_strong_refs (f (node_at s n)) = internal_strong_refs (node_at s n) + d"
  shows "inv_but (k(n := k n + d)) X (upd_node n f s)"
proof (rule inv_but_core [OF inv same_core_upd_node [OF f]])
  show "work_ok (upd_node n f s)" using inv_butD(1) [OF inv] by (simp add: work_ok_def)
  show "wpos (upd_node n f s) (NodeWork m) = None" if "node_live s m" "n_proc (node_at s m) = None" for m
    using inv_butD(2) [OF inv that(1)] that(2) by (simp add: node_ok_def Let_def)
  show "internal_strong_refs (node_at (upd_node n f s) m) = int (strong_refs s m) + (k(n := k n + d)) m \<and>
      0 \<le> local_strong_refs (node_at (upd_node n f s) m) \<and> 0 \<le> local_weak_refs (node_at (upd_node n f s) m) \<and>
      0 \<le> tmp_refs (node_at (upd_node n f s) m)" if m: "node_live s m" for m
    using inv_butD(2) [OF inv m] c i m by (auto simp: node_ok_def Let_def)
qed

lemma inv_but_enqueue_node:
  assumes inv: "inv_but k X s" and n: "node_live s n" "wpos s (NodeWork n) = None" "n_proc (node_at s n) \<noteq> None"
  shows "inv_but k X (enqueued (NodeWork n) l s)"
proof (rule inv_but_core [OF inv enqueued_simps(1)])
  show "work_ok (enqueued (NodeWork n) l s)" using work_ok_enqueued [OF inv_butD(1) [OF inv] n(2)] n(1) by simp
  show "wpos (enqueued (NodeWork n) l s) (NodeWork m) = None" if "node_live s m" "n_proc (node_at s m) = None" for m
    using inv_butD(2) [OF inv that(1)] that(2) n(3) by (auto simp: node_ok_def Let_def)
qed (use inv_butD(2) [OF inv] in \<open>auto simp: node_ok_def Let_def\<close>)

lemma inv_but_dequeue:
  assumes inv: "inv_but k X s"
  shows "inv_but k X (binder_dequeue_work_ilocked w s)"
proof (rule inv_but_core [OF inv dequeue_simps(1) work_ok_dequeue [OF inv_butD(1) [OF inv]]])
  show "wpos (binder_dequeue_work_ilocked w s) (NodeWork m) = None" if "node_live s m" "n_proc (node_at s m) = None" for m
    using inv_butD(2) [OF inv that(1)] that(2) by (auto simp: node_ok_def Let_def)
qed (use inv_butD(2) [OF inv] in \<open>auto simp: node_ok_def Let_def\<close>)

lemma inv_but_wake: "inv_but k X s \<Longrightarrow> inv_but k X (binder_wakeup_proc_ilocked p s)"
  by (rule inv_but_core [OF _ wakeup_proc_core(1)])
    (auto simp: wakeup_proc_core(3,4) node_ok_def Let_def work_ok_def wakeup_proc_core(2) same_coreD [OF wakeup_proc_core(1)]
      dest: inv_butD(2) inv_butD(1))

text \<open>The strong path and the weak path of \<open>binder_inc_node_nilocked\<close>.\<close>

lemma inc_node:
  assumes inv: "inv_but k X s" and n: "node_live s n" and t: "target_ok is_strong target n s"
  obtains (err) s' where "binder_inc_node n is_strong internal target s = Some (Inl EINVAL, s')" "inv_but k X s'" "same_core s s'"
    "target = None" "internal \<Longrightarrow> s' = s"
  | (ok) s' where "binder_inc_node n is_strong internal target s = Some (Inr (), s')"
    "inv_but (k(n := k n + (if is_strong \<and> internal then 1 else 0))) X s'" "same_core s s'"
proof (cases is_strong)
  case True
  let ?f = "if internal then (\<lambda>nd. nd\<lparr>internal_strong_refs := internal_strong_refs nd + 1\<rparr>)
    else (\<lambda>nd. nd\<lparr>local_strong_refs := local_strong_refs nd + 1\<rparr>)"
  let ?s1 = "upd_node n ?f s" and ?k = "k(n := k n + (if is_strong \<and> internal then 1 else 0))"
  have eq1: "(if internal then upd_node n (\<lambda>nd. nd\<lparr>internal_strong_refs := internal_strong_refs nd + 1\<rparr>) s
      else upd_node n (\<lambda>nd. nd\<lparr>local_strong_refs := local_strong_refs nd + 1\<rparr>) s) = ?s1" by simp
  have inv1: "inv_but ?k X ?s1"
    by (rule inv_but_count [OF inv]) (use True inv_butD(2) [OF inv n] in \<open>auto simp: node_ok_def Let_def\<close>)
  have core1: "same_core s ?s1" by (rule same_core_upd_node) simp_all
  note unf = binder_inc_node_def binder_inc_node_nilocked_def Let_def
  consider (bad) "binder_inc_node n is_strong internal target s = Some (Inl EINVAL, s)" "target = None"
    | (queue) t where "target = Some (ThreadTodo t)"
        "binder_inc_node n is_strong internal target s = map_option (\<lambda>s2. (Inr (), s2))
          (binder_enqueue_deferred_thread_work_ilocked t (NodeWork n) (binder_dequeue_work_ilocked (NodeWork n) ?s1))"
    | (plain) "binder_inc_node n is_strong internal target s = Some (Inr (), ?s1)"
    using t True unfolding unf target_ok_def by (fastforce split: option.splits if_splits)
  then show thesis
  proof cases
    case bad
    then show thesis using err inv by simp
  next
    case (queue t')
    let ?s2 = "binder_dequeue_work_ilocked (NodeWork n) ?s1"
    have "inv_but ?k X ?s2" by (rule inv_but_dequeue [OF inv1])
    moreover have "node_live ?s2 n" "n_proc (node_at ?s2 n) \<noteq> None"
      using n t queue(1) same_coreD(1) [OF dequeue_simps(1)] by (auto simp: target_ok_def)
    ultimately have "inv_but ?k X (enqueued (NodeWork n) (ThreadTodo t') ?s2)" by (intro inv_but_enqueue_node) simp_all
    moreover have "same_core s (enqueued (NodeWork n) (ThreadTodo t') ?s2)"
      by (rule same_core_trans [OF same_core_trans [OF core1 dequeue_simps(1)] enqueued_simps(1)])
    moreover have "binder_inc_node n is_strong internal target s = Some (Inr (), enqueued (NodeWork n) (ThreadTodo t') ?s2)"
      using queue(2) enqueue_work [of ?s2 "NodeWork n"] by (simp add: binder_enqueue_deferred_thread_work_ilocked_def)
    ultimately show thesis by (intro ok)
  next
    case plain
    then show thesis using ok inv1 core1 by blast
  qed
next
  case False
  let ?f = "if \<not> internal then (\<lambda>nd. nd\<lparr>local_weak_refs := local_weak_refs nd + 1\<rparr>) else (\<lambda>nd. nd)"
  let ?s1 = "upd_node n ?f s"
  have eq1: "(if \<not> internal then upd_node n (\<lambda>nd. nd\<lparr>local_weak_refs := local_weak_refs nd + 1\<rparr>) s else s) = ?s1"
    by (simp add: upd_node_def)
  have "inv_but (k(n := k n + 0)) X ?s1"
    by (rule inv_but_count [OF inv]) (use inv_butD(2) [OF inv n] in \<open>auto simp: node_ok_def Let_def\<close>)
  then have inv1: "inv_but k X ?s1" by simp
  have core1: "same_core s ?s1" by (rule same_core_upd_node) simp_all
  have int: "internal \<Longrightarrow> ?s1 = s" by (simp add: upd_node_def)
  have E: "binder_inc_node n is_strong internal target s =
      (if \<not> has_weak_ref (node_at s n) \<and> wpos ?s1 (NodeWork n) = None then
         (if target = None then Some (Inl EINVAL, ?s1)
          else map_option (\<lambda>s2. (Inr (), s2)) (binder_enqueue_work_ilocked (NodeWork n) target ?s1))
       else Some (Inr (), ?s1))"
    unfolding binder_inc_node_def binder_inc_node_nilocked_def Let_def eq1 using False by simp
  consider (bad) "binder_inc_node n is_strong internal target s = Some (Inl EINVAL, ?s1)" "target = None"
    | (queue) l where "target = Some l" "wpos ?s1 (NodeWork n) = None"
        "binder_inc_node n is_strong internal target s = Some (Inr (), enqueued (NodeWork n) l ?s1)"
    | (plain) "binder_inc_node n is_strong internal target s = Some (Inr (), ?s1)"
  proof (cases "\<not> has_weak_ref (node_at s n) \<and> wpos ?s1 (NodeWork n) = None")
    case True
    then have "binder_inc_node n is_strong internal target s =
        (if target = None then Some (Inl EINVAL, ?s1)
         else map_option (\<lambda>s2. (Inr (), s2)) (binder_enqueue_work_ilocked (NodeWork n) target ?s1))"
      unfolding E by (rule if_P)
    then show thesis using that(1,2) True enqueue_work [of ?s1 "NodeWork n"] by (cases target) simp_all
  next
    case False
    then have "binder_inc_node n is_strong internal target s = Some (Inr (), ?s1)" unfolding E by (rule if_not_P)
    then show thesis by (rule that(3))
  qed
  then show thesis
  proof cases
    case bad
    then show thesis using err inv1 core1 int by blast
  next
    case (queue l)
    have "inv_but k X (enqueued (NodeWork n) l ?s1)"
      by (rule inv_but_enqueue_node [OF inv1 _ queue(2)]) (use n t queue(1) in \<open>auto simp: target_ok_def\<close>)
    moreover have "same_core s (enqueued (NodeWork n) l ?s1)" by (rule same_core_trans [OF core1 enqueued_simps(1)])
    ultimately show thesis using ok queue(3) False by simp
  next
    case plain
    then show thesis using ok inv1 core1 False by simp
  qed
qed

section \<open>Unlinking a node\<close>

definition hide_node :: "ptr \<Rightarrow> bstate \<Rightarrow> bstate" where
  "hide_node n s = s\<lparr>node_live := (node_live s)(n := False)\<rparr>"

lemma hide_node_simps [simp]:
  "node_at (hide_node n s) = node_at s" "ref_at (hide_node n s) = ref_at s" "proc_at (hide_node n s) = proc_at s"
  "node_live (hide_node n s) = (node_live s)(n := False)" "ref_live (hide_node n s) = ref_live s"
  "proc_live (hide_node n s) = proc_live s" "dead_nodes (hide_node n s) = dead_nodes s"
  "death_live (hide_node n s) = death_live s" "wlist (hide_node n s) = wlist s" "wpos (hide_node n s) = wpos s"
  "ctx_at (hide_node n s) = ctx_at s"
  by (simp_all add: hide_node_def)

text \<open>A node without references, taken out of the tree of its owner and of the dead nodes.\<close>

lemma inv_unlink_node:
  assumes inv: "inv_but k X s" and none: "n_refs (node_at s n) = []"
    and st: "node_at s' = node_at s" "ref_at s' = ref_at s" "ref_live s' = ref_live s" "proc_live s' = proc_live s"
      "death_live s' = death_live s" "node_live s' = (node_live s)(n := False)"
    and pn: "\<And>p. proc_live s p \<Longrightarrow> inorder (p_nodes (proc_at s' p)) = remove1 n (inorder (p_nodes (proc_at s p)))"
    and pr: "\<And>p. refs_by_desc (proc_at s' p) = refs_by_desc (proc_at s p)"
      "\<And>p. refs_by_node (proc_at s' p) = refs_by_node (proc_at s p)"
    and dn: "dead_nodes s' = remove1 n (dead_nodes s)"
    and w: "work_ok s'" "\<And>m. m \<noteq> n \<Longrightarrow> wpos s' (NodeWork m) = wpos s (NodeWork m)"
  shows "inv_but k X s'"
proof -
  have keys: "node_key s' = node_key s" "ref_desc s' = ref_desc s" "ref_node_key s' = ref_node_key s"
    "strong_refs s' = strong_refs s"
    using st by (auto simp: fun_eq_iff node_key_def ref_desc_def ref_node_key_def strong_refs_def)
  have dd: "distinct (dead_nodes s)" by (rule inv_butD(5) [OF inv])
  have mem: "m \<in> set_tree (p_nodes (proc_at s' q))"
    if "proc_live s q" "m \<noteq> n" "m \<in> set_tree (p_nodes (proc_at s q))" for m q
    using pn [OF that(1)] that(2,3) by (metis in_set_remove1 set_inorder)
  have node: "node_ok (k m) X s' m" if "node_live s' m" for m
  proof -
    have m: "node_live s m" "m \<noteq> n" using that st(6) by (auto split: if_splits)
    show ?thesis
      using inv_butD(2) [OF inv m(1)] mem w(2) [OF m(2)] m(2) dd
      unfolding node_ok_def Let_def st keys dn by (auto split: option.splits)
  qed
  have sole: "sole_death X s' d r = sole_death X s d r" for d r using st by (simp add: sole_death_def)
  have ref: "ref_ok X s' r" if "ref_live s' r" "r \<notin> X" for r
    using inv_butD(3) [OF inv, of r] that none unfolding ref_ok_def Let_def st sole
    by (auto split: option.splits)
  have proc: "proc_ok X s' p" if p: "proc_live s' p" for p
  proof -
    have ok: "proc_ok X s p" using inv_butD(4) [OF inv] p st(4) by simp
    have "distinct (inorder (p_nodes (proc_at s p)))" using ok by (auto simp: proc_ok_def Let_def intro: keyed_distinct)
    then show ?thesis
      using ok pn [of p] p unfolding proc_ok_def Let_def st pr keys by (auto intro: keyed_remove1)
  qed
  have "distinct (dead_nodes s')" "\<forall>m\<in>set (dead_nodes s'). node_live s' m \<and> n_proc (node_at s' m) = None"
    unfolding dn st using dd inv_butD(6) [OF inv] by auto
  then show ?thesis using w(1) node ref proc by (simp add: inv_but_def)
qed

lemma dec_node_check:
  assumes rb: "rb_ok rb" and inv: "inv_but k X s" and n: "node_live s n"
  obtains (keep) s' where "dec_node_check rb n s = Some (False, s')" "inv_but k X s'" "same_core s s'" "node_at s' = node_at s"
  | (free) s' where "dec_node_check rb n s = Some (True, s')" "inv_but k X (hide_node n s')" "ref_at s' = ref_at s"
      "ref_live s' = ref_live s" "node_live s' = node_live s" "node_at s' = node_at s" "n_refs (node_at s n) = []"
      "local_strong_refs (node_at s n) = 0" "local_weak_refs (node_at s n) = 0" "tmp_refs (node_at s n) = 0" "same_procs s s'"
proof -
  let ?nd = "node_at s n"
  let ?none = "n_refs ?nd = [] \<and> local_strong_refs ?nd = 0 \<and> local_weak_refs ?nd = 0 \<and> tmp_refs ?nd = 0"
  have ok: "node_ok (k n) X s n" by (rule inv_butD(2) [OF inv n])
  show thesis
  proof (cases "n_proc ?nd")
    case (Some p)
    have pl: "proc_live s p" "n \<in> set (inorder (p_nodes (proc_at s p)))" using ok Some by (auto simp: node_ok_def Let_def)
    consider (told) "has_strong_ref ?nd \<or> has_weak_ref ?nd" "wpos s (NodeWork n) = None"
      | (queued) "has_strong_ref ?nd \<or> has_weak_ref ?nd" "wpos s (NodeWork n) \<noteq> None"
      | (gone) "\<not> (has_strong_ref ?nd \<or> has_weak_ref ?nd)" ?none
      | (used) "\<not> (has_strong_ref ?nd \<or> has_weak_ref ?nd)" "\<not> ?none" by blast
    then show thesis
    proof cases
      case told
      let ?s1 = "enqueued (NodeWork n) (ProcTodo p) s"
      have "dec_node_check rb n s = Some (False, binder_wakeup_proc_ilocked p ?s1)"
        using Some told enqueue_work [OF told(2)] by (simp add: dec_node_check_def Let_def)
      moreover have "inv_but k X (binder_wakeup_proc_ilocked p ?s1)"
        by (rule inv_but_wake [OF inv_but_enqueue_node [OF inv n told(2)]]) (simp add: Some)
      moreover have "same_core s (binder_wakeup_proc_ilocked p ?s1)"
        by (rule same_core_trans [OF enqueued_simps(1) wakeup_proc_core(1)])
      ultimately show thesis by (rule keep) (simp add: wakeup_proc_core)
    next
      case gone
      let ?s1 = "upd_proc p (\<lambda>pr. pr\<lparr>p_nodes := rb_erase rb n (p_nodes pr)\<rparr>) (binder_dequeue_work_ilocked (NodeWork n) s)"
      have eq: "dec_node_check rb n s = Some (True, ?s1)" using Some gone by (simp add: dec_node_check_def Let_def)
      note D = same_coreD [OF dequeue_simps(1) [of s "NodeWork n"]]
      have other: "n \<notin> set (inorder (p_nodes (proc_at s q)))" if "proc_live s q" "q \<noteq> p" for q
        using inv_butD(4) [OF inv that(1)] that(2) Some by (auto simp: proc_ok_def Let_def)
      have dist: "distinct (inorder (p_nodes (proc_at s p)))"
        using inv_butD(4) [OF inv pl(1)] by (auto simp: proc_ok_def Let_def intro: keyed_distinct)
      have nd: "n \<notin> set (dead_nodes s)" using inv_butD(6) [OF inv, of n] Some by auto
      have "inv_but k X (hide_node n ?s1)"
      proof (rule inv_unlink_node [OF inv])
        show "inorder (p_nodes (proc_at (hide_node n ?s1) q)) = remove1 n (inorder (p_nodes (proc_at s q)))"
          if "proc_live s q" for q
          using rb_okD(2) [OF rb dist, of n] other [OF that] by (cases "q = p") (simp_all add: remove1_idem)
        have "work_ok (binder_dequeue_work_ilocked (NodeWork n) s)" by (rule work_ok_dequeue [OF inv_butD(1) [OF inv]])
        then show "work_ok (hide_node n ?s1)" by (auto simp: work_ok_def)
      qed (use gone D nd in \<open>auto simp: remove1_idem fun_eq_iff\<close>)
      then show thesis using free [OF eq] gone(2) D by (simp add: same_procs_def)
    qed (use keep inv Some in \<open>auto simp: dec_node_check_def Let_def\<close>)
  next
    case None
    then have d: "n \<in> set (dead_nodes s)" "wpos s (NodeWork n) = None" using ok by (auto simp: node_ok_def Let_def)
    show thesis
    proof (cases ?none)
      case True
      let ?s1 = "s\<lparr>dead_nodes := list_del n (dead_nodes s)\<rparr>"
      have eq: "dec_node_check rb n s = Some (True, ?s1)" using None d True by (simp add: dec_node_check_def Let_def)
      have out: "n \<notin> set (inorder (p_nodes (proc_at s q)))" if "proc_live s q" for q
        using inv_butD(4) [OF inv that] None by (auto simp: proc_ok_def Let_def)
      have "inv_but k X (hide_node n ?s1)"
      proof (rule inv_unlink_node [OF inv])
        show "work_ok (hide_node n ?s1)" using inv_butD(1) [OF inv] d(2) by (auto simp: work_ok_def)
      qed (use True out in \<open>auto simp: remove1_idem list_del_def\<close>)
      then show thesis using free [OF eq] True by (simp add: same_procs_def)
    next
      case False
      then show thesis using keep inv None by (auto simp: dec_node_check_def Let_def)
    qed
  qed
qed

text \<open>The counter that a call of \<open>binder_dec_node_nilocked\<close> lowers.\<close>

definition lowered :: "bool \<Rightarrow> bool \<Rightarrow> binder_node \<Rightarrow> binder_node" where
  "lowered is_strong internal nd =
     (if is_strong then if internal then nd\<lparr>internal_strong_refs := internal_strong_refs nd - 1\<rparr>
        else nd\<lparr>local_strong_refs := local_strong_refs nd - 1\<rparr>
      else if internal then nd else nd\<lparr>local_weak_refs := local_weak_refs nd - 1\<rparr>)"

lemma dec_node_unfold:
  "binder_dec_node_nilocked rb n is_strong internal s =
     (let s1 = upd_node n (lowered is_strong internal) s in
      if (if is_strong then local_strong_refs (node_at s1 n) \<noteq> 0 \<or> internal_strong_refs (node_at s1 n) \<noteq> 0
          else local_weak_refs (node_at s1 n) \<noteq> 0 \<or> tmp_refs (node_at s1 n) \<noteq> 0 \<or> n_refs (node_at s1 n) \<noteq> [])
      then Some (False, s1) else dec_node_check rb n s1)"
proof -
  have "upd_node n (lowered is_strong internal) s =
      (if is_strong then if internal then upd_node n (\<lambda>nd. nd\<lparr>internal_strong_refs := internal_strong_refs nd - 1\<rparr>) s
         else upd_node n (\<lambda>nd. nd\<lparr>local_strong_refs := local_strong_refs nd - 1\<rparr>) s
       else if \<not> internal then upd_node n (\<lambda>nd. nd\<lparr>local_weak_refs := local_weak_refs nd - 1\<rparr>) s else s)"
    by (simp add: lowered_def upd_node_def)
  then show ?thesis by (simp add: binder_dec_node_nilocked_def Let_def)
qed

definition may_lower :: "bool \<Rightarrow> bool \<Rightarrow> binder_node \<Rightarrow> bool" where
  "may_lower is_strong internal nd \<longleftrightarrow> internal \<or> (if is_strong then 0 < local_strong_refs nd else 0 < local_weak_refs nd)"

lemma dec_node_nilocked:
  assumes rb: "rb_ok rb" and inv: "inv_but k X s" and n: "node_live s n" and may: "may_lower is_strong internal (node_at s n)"
  obtains (keep) s' where "binder_dec_node_nilocked rb n is_strong internal s = Some (False, s')"
      "inv_but (k(n := k n - (if is_strong \<and> internal then 1 else 0))) X s'" "same_core s s'"
  | (free) s' where "binder_dec_node_nilocked rb n is_strong internal s = Some (True, s')"
      "inv_but (k(n := k n - (if is_strong \<and> internal then 1 else 0))) X (hide_node n s')"
      "ref_at s' = ref_at s" "ref_live s' = ref_live s" "node_live s' = node_live s" "n_refs (node_at s n) = []" "same_procs s s'"
proof -
  let ?k = "k(n := k n - (if is_strong \<and> internal then 1 else 0))"
  define s1 where "s1 = upd_node n (lowered is_strong internal) s"
  have ok: "node_ok (k n) X s n" by (rule inv_butD(2) [OF inv n])
  have "inv_but (k(n := k n + - (if is_strong \<and> internal then 1 else 0))) X s1"
    unfolding s1_def
    by (rule inv_but_count [OF inv])
      (use may ok in \<open>auto simp: lowered_def may_lower_def node_ok_def Let_def\<close>)
  then have inv1: "inv_but ?k X s1" by simp
  have core1: "same_core s s1" unfolding s1_def by (rule same_core_upd_node) (simp_all add: lowered_def)
  have n1: "node_live s1 n" using n by (simp add: s1_def)
  show thesis
  proof (cases "binder_dec_node_nilocked rb n is_strong internal s = Some (False, s1)")
    case True
    then show thesis using keep inv1 core1 by blast
  next
    case False
    then have eq: "binder_dec_node_nilocked rb n is_strong internal s = dec_node_check rb n s1"
      unfolding dec_node_unfold Let_def s1_def [symmetric] by (simp split: if_splits)
    show thesis
      using rb inv1 n1
    proof (cases rule: dec_node_check)
      case (keep s')
      then show thesis using that(1) eq same_core_trans [OF core1] by simp
    next
      case (free s')
      then show thesis
        using that(2) eq same_coreD [OF core1] same_procs_trans [OF same_core_procs [OF core1]] by simp
    qed
  qed
qed

lemma dec_node:
  assumes rb: "rb_ok rb" and inv: "inv_but k X s" and n: "node_live s n" and may: "may_lower is_strong internal (node_at s n)"
  obtains (keep) s' where "binder_dec_node rb n is_strong internal s = Some s'"
      "inv_but (k(n := k n - (if is_strong \<and> internal then 1 else 0))) X s'" "same_core s s'"
  | (free) s' where "binder_dec_node rb n is_strong internal s = Some s'"
      "inv_but (k(n := k n - (if is_strong \<and> internal then 1 else 0))) X s'"
      "ref_at s' = ref_at s" "ref_live s' = ref_live s" "node_live s' = (node_live s)(n := False)" "n_refs (node_at s n) = []" "same_procs s s'"
  using rb inv n may
proof (cases rule: dec_node_nilocked)
  case (keep s')
  then show thesis using that(1) by (simp add: binder_dec_node_def)
next
  case (free s')
  have "binder_free_node n s' = Some (hide_node n s')" using n free(5) by (simp add: binder_free_node_def hide_node_def)
  moreover have "same_procs s (hide_node n s')" using free(7) by (simp add: same_procs_def)
  ultimately show thesis using that(2) free by (simp add: binder_dec_node_def)
qed

section \<open>Counts of references\<close>

text \<open>Changing the counts of one reference changes the strong references of its node.\<close>

lemma length_filter_upd:
  assumes "distinct xs" "\<And>x. x \<noteq> r \<Longrightarrow> P' x = P x"
  shows "int (length (filter P' xs)) = int (length (filter P xs)) +
    (if r \<in> set xs then (if P' r then 1 else 0) - (if P r then 1 else 0) else 0)"
  using assms(1)
proof (induction xs)
  case (Cons a xs)
  then show ?case using assms(2) [of a] by (cases "a = r") auto
qed simp

lemma strong_refs_upd:
  assumes "distinct (n_refs (node_at s m))"
  shows "int (strong_refs (upd_ref_data r f s) m) = int (strong_refs s m) +
    (if r \<in> set (n_refs (node_at s m))
     then (if strong (f (r_data (ref_at s r))) \<noteq> 0 then 1 else 0) - (if strong (r_data (ref_at s r)) \<noteq> 0 then 1 else 0)
     else 0)"
  using length_filter_upd [OF assms, of r "\<lambda>x. strong (r_data (ref_at (upd_ref_data r f s) x)) \<noteq> 0"
      "\<lambda>x. strong (r_data (ref_at s x)) \<noteq> 0"]
  by (simp add: strong_refs_def upd_ref_data_def)

lemma upd_ref_data_simps [simp]:
  "node_at (upd_ref_data r f s) = node_at s" "proc_at (upd_ref_data r f s) = proc_at s"
  "node_live (upd_ref_data r f s) = node_live s" "ref_live (upd_ref_data r f s) = ref_live s"
  "proc_live (upd_ref_data r f s) = proc_live s" "dead_nodes (upd_ref_data r f s) = dead_nodes s"
  "death_live (upd_ref_data r f s) = death_live s" "wlist (upd_ref_data r f s) = wlist s" "wpos (upd_ref_data r f s) = wpos s"
  "ctx_at (upd_ref_data r f s) = ctx_at s" "r_data (ref_at (upd_ref_data r f s) r) = f (r_data (ref_at s r))"
  "r_node (ref_at (upd_ref_data r f s) x) = r_node (ref_at s x)" "r_proc (ref_at (upd_ref_data r f s) x) = r_proc (ref_at s x)"
  "r_death (ref_at (upd_ref_data r f s) x) = r_death (ref_at s x)"
  "x \<noteq> r \<Longrightarrow> ref_at (upd_ref_data r f s) x = ref_at s x"
  by (auto simp: upd_ref_data_def)

lemma inv_but_ref_count:
  assumes inv: "inv_but k X s" and r: "ref_live s r" "r_node (ref_at s r) = Some n" "r \<notin> X"
    and f: "\<And>d. desc (f d) = desc d" and nn: "0 \<le> strong (f (r_data (ref_at s r)))" "0 \<le> weak (f (r_data (ref_at s r)))"
  shows "inv_but (k(n := k n - ((if strong (f (r_data (ref_at s r))) \<noteq> 0 then 1 else 0) -
    (if strong (r_data (ref_at s r)) \<noteq> 0 then 1 else 0)))) X (upd_ref_data r f s)"
proof -
  let ?s = "upd_ref_data r f s"
  let ?d = "(if strong (f (r_data (ref_at s r))) \<noteq> 0 then 1 else 0) - (if strong (r_data (ref_at s r)) \<noteq> 0 then 1 else 0) :: int"
  have keys: "node_key ?s = node_key s" "ref_desc ?s = ref_desc s" "ref_node_key ?s = ref_node_key s"
    using f by (auto simp: fun_eq_iff node_key_def ref_desc_def ref_node_key_def upd_ref_data_def)
  have sole: "sole_death X ?s d x = sole_death X s d x" for d x by (simp add: sole_death_def)
  have node: "node_ok ((k(n := k n - ?d)) m) X ?s m" if m: "node_live s m" for m
  proof -
    have ok: "node_ok (k m) X s m" by (rule inv_butD(2) [OF inv m])
    have in_n: "r \<in> set (n_refs (node_at s n))" using inv_butD(3) [OF inv r(1,3)] r(2) by (simp add: ref_ok_def Let_def)
    have "distinct (n_refs (node_at s m))" "\<forall>x\<in>set (n_refs (node_at s m)). r_node (ref_at s x) = Some m"
      using ok by (simp_all add: node_ok_def Let_def)
    moreover from this(2) have "(r \<in> set (n_refs (node_at s m))) = (m = n)" using r(2) in_n by force
    ultimately have "int (strong_refs ?s m) = int (strong_refs s m) + (if m = n then ?d else 0)"
      using strong_refs_upd [of s m r f] by presburger
    then show ?thesis using ok unfolding node_ok_def Let_def upd_ref_data_simps by simp
  qed
  have ref: "ref_ok X ?s x" if x: "ref_live s x" "x \<notin> X" for x
    using inv_butD(3) [OF inv x] nn unfolding ref_ok_def Let_def sole upd_ref_data_simps by (cases "x = r") simp_all
  have proc: "proc_ok X ?s p" if p: "proc_live s p" for p
    using inv_butD(4) [OF inv p] unfolding proc_ok_def Let_def keys by simp
  show ?thesis using inv node ref proc unfolding inv_but_def by (simp add: work_ok_def)
qed

end
