(* ===== verification/Binder_Ref_Ops.thy ===== *)
theory Binder_Ref_Ops
  imports Binder_Ref_Inv
begin

text \<open>
  The operations on references keep the invariant: taking a count, dropping one, removing a reference
  whose counts are gone together with its node when that has become unused, and creating one.
\<close>

section \<open>Taking a count\<close>

lemma inc_ref:
  assumes inv: "inv_but (\<lambda>_. 0) X s" and r: "ref_live s r" "r_node (ref_at s r) = Some n" "r \<notin> X"
    and t: "target_ok is_strong target n s"
  obtains (err) "binder_inc_ref_olocked r is_strong target s = Some (Inl EINVAL, s)" "target = None"
      "if is_strong then strong (r_data (ref_at s r)) = 0 else weak (r_data (ref_at s r)) = 0"
  | (ok) s1 s' where "binder_inc_ref_olocked r is_strong target s = Some (Inr (), s')" "inv_but (\<lambda>_. 0) X s'" "same_core s s1"
      "s' = upd_ref_data r (if is_strong then (\<lambda>d. d\<lparr>strong := strong d + 1\<rparr>) else (\<lambda>d. d\<lparr>weak := weak d + 1\<rparr>)) s1"
proof -
  let ?f = "if is_strong then (\<lambda>d. d\<lparr>strong := strong d + 1\<rparr>) else (\<lambda>d. d\<lparr>weak := weak d + 1\<rparr>)"
  let ?rd = "r_data (ref_at s r)"
  let ?cnt = "if is_strong then strong ?rd else weak ?rd"
  have rok: "ref_ok X s r" by (rule inv_butD(3) [OF inv r(1,3)])
  have n: "node_live s n" and nn: "0 \<le> strong ?rd" "0 \<le> weak ?rd" using rok r(2) by (auto simp: ref_ok_def Let_def)
  have f: "\<And>d. desc (?f d) = desc d" by simp
  have upd: "(if is_strong then upd_ref_data r (\<lambda>d. d\<lparr>strong := strong d + 1\<rparr>)
      else upd_ref_data r (\<lambda>d. d\<lparr>weak := weak d + 1\<rparr>)) = upd_ref_data r ?f" by simp
  show thesis
  proof (cases "?cnt = 0")
    case True
    have eq: "binder_inc_ref_olocked r is_strong target s = (case binder_inc_node n is_strong True target s of None \<Rightarrow> None
        | Some (Inl e, s1) \<Rightarrow> Some (Inl e, s1) | Some (Inr _, s1) \<Rightarrow> Some (Inr (), upd_ref_data r ?f s1))"
      using True r(2) unfolding binder_inc_ref_olocked_def Let_def upd by simp
    show thesis
      using inv n t
    proof (cases rule: inc_node [where internal = True])
      case (err s1)
      then show thesis using that(1) eq True by (auto split: if_splits)
    next
      case (ok s1)
      note c = same_coreD [OF ok(3)]
      have "inv_but ((\<lambda>_. 0)(n := 0)) X (upd_ref_data r ?f s1)"
        using inv_but_ref_count [OF ok(2), of r n ?f] r nn True by (cases is_strong) (simp_all add: c)
      then have "inv_but (\<lambda>_. 0) X (upd_ref_data r ?f s1)" by (simp add: fun_upd_idem)
      then show thesis using that(2) eq ok by simp
    qed
  next
    case False
    have eq: "binder_inc_ref_olocked r is_strong target s = Some (Inr (), upd_ref_data r ?f s)"
      using False unfolding binder_inc_ref_olocked_def Let_def upd by simp
    have "inv_but ((\<lambda>_. 0)(n := 0)) X (upd_ref_data r ?f s)"
      using inv_but_ref_count [OF inv r(1,2,3), of ?f] nn False by (cases is_strong) simp_all
    then have "inv_but (\<lambda>_. 0) X (upd_ref_data r ?f s)" by (simp add: fun_upd_idem)
    then show thesis using that(2) eq same_core_refl by blast
  qed
qed

section \<open>Removing a reference\<close>

definition detached :: "rb_ops \<Rightarrow> ptr \<Rightarrow> ptr \<Rightarrow> bstate \<Rightarrow> bstate" where
  "detached rb r n s = upd_node n (\<lambda>nd. nd\<lparr>n_refs := list_del r (n_refs nd)\<rparr>)
     (upd_proc (r_proc (ref_at s r)) (\<lambda>pr. pr\<lparr>refs_by_desc := rb_erase rb r (refs_by_desc pr),
        refs_by_node := rb_erase rb r (refs_by_node pr)\<rparr>) s)"

lemma length_filter_remove1:
  "r \<in> set xs \<Longrightarrow> int (length (filter P (remove1 r xs))) = int (length (filter P xs)) - (if P r then 1 else 0)"
  by (induction xs) auto

lemma inv_detached:
  assumes rb: "rb_ok rb" and inv: "inv_but k X s" and r: "ref_live s r" "r \<notin> X" "r_node (ref_at s r) = Some n"
  shows "inv_but (k(n := k n + (if strong (r_data (ref_at s r)) \<noteq> 0 then 1 else 0))) (insert r X) (detached rb r n s)"
proof -
  let ?s = "detached rb r n s" and ?p = "r_proc (ref_at s r)"
  have rok: "ref_ok X s r" by (rule inv_butD(3) [OF inv r(1,2)])
  have in_n: "r \<in> set (n_refs (node_at s n))" and pl: "proc_live s ?p" using rok r(3) by (auto simp: ref_ok_def Let_def)
  have pok: "proc_ok X s ?p" by (rule inv_butD(4) [OF inv pl])
  have io: "inorder (refs_by_desc (proc_at ?s q)) = (if q = ?p then remove1 r (inorder (refs_by_desc (proc_at s q)))
        else inorder (refs_by_desc (proc_at s q)))"
    "inorder (refs_by_node (proc_at ?s q)) = (if q = ?p then remove1 r (inorder (refs_by_node (proc_at s q)))
        else inorder (refs_by_node (proc_at s q)))" for q
    using pok by (auto simp: detached_def proc_ok_def Let_def intro!: rb_okD(2) [OF rb] keyed_distinct)
  have same: "ref_at ?s = ref_at s" "ref_live ?s = ref_live s" "node_live ?s = node_live s" "proc_live ?s = proc_live s"
    "dead_nodes ?s = dead_nodes s" "death_live ?s = death_live s" "wlist ?s = wlist s" "wpos ?s = wpos s"
    "p_nodes (proc_at ?s q) = p_nodes (proc_at s q)"
    "n_refs (node_at ?s m) = (if m = n then remove1 r (n_refs (node_at s n)) else n_refs (node_at s m))"
    "internal_strong_refs (node_at ?s m) = internal_strong_refs (node_at s m)"
    "local_strong_refs (node_at ?s m) = local_strong_refs (node_at s m)"
    "local_weak_refs (node_at ?s m) = local_weak_refs (node_at s m)" "tmp_refs (node_at ?s m) = tmp_refs (node_at s m)"
    "n_proc (node_at ?s m) = n_proc (node_at s m)" "n_ptr (node_at ?s m) = n_ptr (node_at s m)" for m q
    by (auto simp: detached_def list_del_def)
  have keys: "node_key ?s = node_key s" "ref_desc ?s = ref_desc s" "ref_node_key ?s = ref_node_key s"
    by (auto simp: fun_eq_iff node_key_def ref_desc_def ref_node_key_def same)
  have sr: "int (strong_refs ?s m) = int (strong_refs s m) -
      (if m = n \<and> strong (r_data (ref_at s r)) \<noteq> 0 then 1 else 0)" for m
    using length_filter_remove1 [OF in_n, of "\<lambda>r. strong (r_data (ref_at s r)) \<noteq> 0"] by (auto simp: strong_refs_def same)
  have node: "node_ok ((k(n := k n + (if strong (r_data (ref_at s r)) \<noteq> 0 then 1 else 0))) m) (insert r X) ?s m"
    if m: "node_live s m" for m
  proof -
    have ok: "node_ok (k m) X s m" by (rule inv_butD(2) [OF inv m])
    then have "m \<noteq> n \<Longrightarrow> r \<notin> set (n_refs (node_at s m))" using r(3) by (auto simp: node_ok_def Let_def)
    then show ?thesis using ok sr [of m] unfolding node_ok_def Let_def same by (auto split: option.splits)
  qed
  have ref: "ref_ok (insert r X) ?s x" if x: "ref_live s x" "x \<notin> insert r X" for x
  proof -
    have "sole_death X s d x \<Longrightarrow> sole_death (insert r X) ?s d x" for d by (simp add: sole_death_def same)
    then show ?thesis
      using inv_butD(3) [OF inv x(1)] x(2) unfolding ref_ok_def Let_def same by (auto split: option.splits)
  qed
  have proc: "proc_ok (insert r X) ?s q" if q: "proc_live s q" for q
  proof -
    have ok: "proc_ok X s q" by (rule inv_butD(4) [OF inv q])
    then have "distinct (inorder (refs_by_desc (proc_at s q)))" "distinct (inorder (refs_by_node (proc_at s q)))"
      by (auto simp: proc_ok_def Let_def intro: keyed_distinct)
    then show ?thesis
      using ok unfolding proc_ok_def Let_def io same keys by (auto intro: keyed_remove1)
  qed
  show ?thesis using inv node ref proc unfolding inv_but_def by (simp add: same work_ok_def)
qed

text \<open>Dropping an internal strong count of a node that still has references.\<close>

lemma dec_strong_used:
  assumes w: "work_ok s" and n: "node_live s n" "n_refs (node_at s n) \<noteq> []"
  obtains s' where "binder_dec_node_nilocked rb n True True s = Some (False, s')" "same_core s s'" "work_ok s'"
    "node_at s' = (node_at s)(n := lowered True True (node_at s n))"
    "\<And>m. n_proc (node_at s m) = None \<Longrightarrow> wpos s' (NodeWork m) = wpos s (NodeWork m)"
proof -
  define s1 where "s1 = upd_node n (lowered True True) s"
  have s1: "same_core s s1" "work_ok s1" "node_at s1 = (node_at s)(n := lowered True True (node_at s n))" "wpos s1 = wpos s"
    unfolding s1_def using w by (auto simp: same_core_def lowered_def work_ok_def)
  have un: "binder_dec_node_nilocked rb n True True s =
      (if local_strong_refs (node_at s1 n) \<noteq> 0 \<or> internal_strong_refs (node_at s1 n) \<noteq> 0 then Some (False, s1)
       else dec_node_check rb n s1)"
    unfolding dec_node_unfold Let_def s1_def by simp
  show thesis
  proof (cases "binder_dec_node_nilocked rb n True True s = Some (False, s1)")
    case True
    then show thesis using that s1 by simp
  next
    case False
    then have chk: "binder_dec_node_nilocked rb n True True s = dec_node_check rb n s1" using un by (simp split: if_splits)
    have refs: "n_refs (node_at s1 n) \<noteq> []" using n(2) s1(3) by (simp add: lowered_def)
    show thesis
    proof (cases "dec_node_check rb n s1 = Some (False, s1)")
      case True
      then show thesis using that chk s1 by simp
    next
      case no: False
      obtain p where p: "n_proc (node_at s1 n) = Some p" "wpos s1 (NodeWork n) = None"
        "dec_node_check rb n s1 = Some (False, binder_wakeup_proc_ilocked p (enqueued (NodeWork n) (ProcTodo p) s1))"
        using no refs enqueue_work [of s1 "NodeWork n"] unfolding dec_node_check_def Let_def
        by (auto split: option.splits if_splits)
      let ?e = "enqueued (NodeWork n) (ProcTodo p) s1"
      have wk: "work_ok ?e"
        using work_ok_enqueued [OF s1(2) p(2)] n(1) same_coreD(1) [OF s1(1)] by simp
      note wake = wakeup_proc_core [where s = ?e and p = p]
      have "work_ok (binder_wakeup_proc_ilocked p ?e)"
        using wk same_coreD(1,5) [OF wake(1)] by (simp add: work_ok_def wake)
      moreover have "same_core s (binder_wakeup_proc_ilocked p ?e)"
        by (rule same_core_trans [OF s1(1) same_core_trans [OF enqueued_simps(1) wake(1)]])
      moreover have "n_proc (node_at s n) = Some p" using p(1) s1(3) by (simp add: lowered_def)
      ultimately show thesis using chk p(3) s1(3,4) 
        by (intro that [of "binder_wakeup_proc_ilocked p ?e"]) (auto simp: wake)
    qed
  qed
qed


lemma inv_but_upd_detached:
  assumes inv: "inv_but k X s" and r: "r \<in> X"
  shows "inv_but k X (upd_ref r f s)"
proof -
  let ?s = "upd_ref r f s"
  have out: "x \<notin> X \<Longrightarrow> ref_at ?s x = ref_at s x" for x using r by auto
  have node: "node_ok (k n) X ?s n" if n: "node_live s n" for n
  proof -
    have ok: "node_ok (k n) X s n" by (rule inv_butD(2) [OF inv n])
    then have m: "x \<in> set (n_refs (node_at s n)) \<Longrightarrow> ref_at ?s x = ref_at s x" for x
      using out by (simp add: node_ok_def Let_def)
    then have "strong_refs ?s n = strong_refs s n"
      unfolding strong_refs_def upd_simps(2) by (metis (mono_tags, lifting) filter_cong upd_simps(13))
    then show ?thesis using ok m unfolding node_ok_def Let_def by (simp split: option.splits)
  qed
  have ref: "ref_ok X ?s x" if x: "ref_live s x" "x \<notin> X" for x
  proof -
    have "sole_death X ?s d x = sole_death X s d x" for d unfolding sole_death_def using out by (metis upd_simps(16))
    then show ?thesis using inv_butD(3) [OF inv x] out [OF x(2)] unfolding ref_ok_def Let_def by (simp split: option.splits)
  qed
  have proc: "proc_ok X ?s p" if p: "proc_live s p" for p
  proof -
    have ok: "proc_ok X s p" by (rule inv_butD(4) [OF inv p])
    have t: "x \<in> set (inorder (refs_by_desc (proc_at s p))) \<or> x \<in> set (inorder (refs_by_node (proc_at s p))) \<Longrightarrow> x \<notin> X" for x
      using ok unfolding proc_ok_def Let_def by blast
    have "keyed (ref_desc ?s) (inorder (refs_by_desc (proc_at s p))) = keyed (ref_desc s) (inorder (refs_by_desc (proc_at s p)))"
      by (rule keyed_cong) (use t out in \<open>metis ref_desc_def\<close>)
    moreover have "keyed (ref_node_key ?s) (inorder (refs_by_node (proc_at s p))) =
        keyed (ref_node_key s) (inorder (refs_by_node (proc_at s p)))"
      by (rule keyed_cong) (use t out in \<open>metis ref_node_key_def\<close>)
    moreover have "node_key ?s = node_key s" by (simp add: fun_eq_iff node_key_def)
    ultimately show ?thesis using ok r out unfolding proc_ok_def Let_def by auto
  qed
  show ?thesis using inv node ref proc unfolding inv_but_def by (simp add: work_ok_def)
qed

text \<open>
  Removing a reference leaves it detached; when its node has become unused, the node is out of every
  structure and is freed together with the reference.
\<close>

lemma cleanup_ref:
  assumes rb: "rb_ok rb" and inv: "binder_inv s" and r: "ref_live s r" "r_node (ref_at s r) = Some n"
  obtains (keep) s' where "binder_cleanup_ref_olocked rb r s = Some s'" "inv_but (\<lambda>_. 0) {r} s'"
      "ref_live s' = ref_live s" "ref_at s' = (ref_at s)(r := (ref_at s r)\<lparr>r_node := None\<rparr>)"
      "node_live s' = node_live s" "\<And>d. r_death (ref_at s r) = Some d \<Longrightarrow> wpos s' (DeathWork d) = None" "same_procs s s'"
  | (free) s' where "binder_cleanup_ref_olocked rb r s = Some s'" "inv_but (\<lambda>_. 0) {r} (hide_node n s')"
      "ref_live s' = ref_live s" "ref_at s' = ref_at s" "node_live s' = node_live s" "n_refs (node_at s n) = [r]"
      "\<And>d. r_death (ref_at s r) = Some d \<Longrightarrow> wpos s' (DeathWork d) = None" "same_procs s s'"
proof -
  let ?p = "r_proc (ref_at s r)" and ?st = "strong (r_data (ref_at s r)) \<noteq> 0"
  define s1 where "s1 = upd_proc ?p (\<lambda>pr. pr\<lparr>refs_by_desc := rb_erase rb r (refs_by_desc pr),
    refs_by_node := rb_erase rb r (refs_by_node pr)\<rparr>) s"
  define s2o where "s2o = (if ?st then map_option snd (binder_dec_node_nilocked rb n True True s1) else Some s1)"
  let ?del = "\<lambda>nd. nd\<lparr>n_refs := list_del r (n_refs nd)\<rparr>"
  have rok: "ref_ok {} s r" using inv_butD(3) [OF inv r(1)] by simp
  have n: "node_live s n" "r \<in> set (n_refs (node_at s n))" using rok r(2) by (auto simp: ref_ok_def Let_def)
  have nok: "node_ok 0 {} s n" using inv_butD(2) [OF inv n(1)] by simp
  have w1: "work_ok s1" using inv_butD(1) [OF inv] by (simp add: s1_def work_ok_def)
  have det: "detached rb r n s = upd_node n ?del s1" by (simp add: detached_def s1_def)
  obtain s2 where s2: "s2o = Some s2" "same_core s1 s2" "work_ok s2"
    "node_at s2 = (node_at s)(n := (if ?st then lowered True True (node_at s n) else node_at s n))"
    "\<And>m. n_proc (node_at s m) = None \<Longrightarrow> wpos s2 (NodeWork m) = wpos s (NodeWork m)"
  proof (cases ?st)
    case True
    have "node_live s1 n" "n_refs (node_at s1 n) \<noteq> []" using n by (auto simp: s1_def)
    then show thesis
      by (rule dec_strong_used [OF w1, of n rb]) (use True that in \<open>auto simp: s2o_def s1_def\<close>)
  next
    case False
    then show thesis using that [of s1] w1 by (simp add: s2o_def s1_def)
  qed
  define s3 where "s3 = upd_node n ?del s2"
  have core3: "same_core (detached rb r n s) s3"
    using s2(2) unfolding det s3_def same_core_def by simp
  note c3 = same_coreD [OF core3]
  have keep3: "ref_at s3 = ref_at s" "ref_live s3 = ref_live s" "node_live s3 = node_live s"
    by (simp_all add: c3 detached_def)
  have procs3: "same_procs s s3"
    using same_procs_trans [OF _ same_core_procs [OF core3]] by (simp add: same_procs_def detached_def)
  have inv3: "inv_but (\<lambda>_. 0) {r} s3"
  proof (rule inv_but_core [OF inv_detached [OF rb inv r(1) _ r(2), simplified] core3])
    show "work_ok s3" using s2(3) by (simp add: s3_def work_ok_def)
    show "wpos s3 (NodeWork m) = None" if m: "node_live (detached rb r n s) m" "n_proc (node_at (detached rb r n s) m) = None" for m
    proof -
      have "node_live s m" "n_proc (node_at s m) = None" using m by (auto simp: detached_def split: if_splits)
      then show ?thesis using inv_butD(2) [OF inv, of m] s2(5) [of m] by (simp add: s3_def node_ok_def Let_def)
    qed
    show "internal_strong_refs (node_at s3 m) = int (strong_refs (detached rb r n s) m) + 0 \<and>
        0 \<le> local_strong_refs (node_at s3 m) \<and> 0 \<le> local_weak_refs (node_at s3 m) \<and> 0 \<le> tmp_refs (node_at s3 m)"
      if m: "node_live (detached rb r n s) m" for m
    proof -
      have "node_ok (if m = n then if ?st then 1 else 0 else 0) {r} (detached rb r n s) m"
        using inv_butD(2) [OF inv_detached [OF rb inv r(1) _ r(2)] m] by (simp split: if_splits)
      then show ?thesis
        unfolding node_ok_def Let_def by (cases "m = n") (auto simp: s3_def s2(4) lowered_def detached_def)
    qed
  qed
  have n3: "node_live s3 n" using n(1) keep3 by simp
  have eq: "binder_cleanup_ref_olocked rb r s = (case binder_dec_node_nilocked rb n False True s3 of None \<Rightarrow> None
     | Some (delete_node, s4) \<Rightarrow>
       (let s5 = (if \<not> delete_node then upd_ref r (\<lambda>rf. rf\<lparr>r_node := None\<rparr>) s4 else s4)
        in Some (case r_death (ref_at s r) of None \<Rightarrow> s5 | Some d \<Rightarrow> binder_dequeue_work (DeathWork d) s5)))"
    using s2(1) r(2) unfolding binder_cleanup_ref_olocked_def Let_def s1_def [symmetric] s2o_def s3_def by simp
  define fin where "fin s5 = (case r_death (ref_at s r) of None \<Rightarrow> s5 | Some d \<Rightarrow> binder_dequeue_work (DeathWork d) s5)" for s5
  note fin_unf = fin_def binder_dequeue_work_def
  have fin: "inv_but k Y s5 \<Longrightarrow> inv_but k Y (fin s5)" for s5 k Y
    by (cases "r_death (ref_at s r)") (simp_all add: fin_unf inv_but_dequeue)
  have fin_hide: "hide_node n (fin s5) = fin (hide_node n s5)" for s5
    by (simp add: fin_unf binder_dequeue_work_ilocked_def hide_node_def split: option.split)
  have fin_none: "r_death (ref_at s r) = Some d \<Longrightarrow> wpos (fin s5) (DeathWork d) = None" for d s5
    by (simp add: fin_unf)
  have core_fin: "same_core s5 (fin s5)" for s5
    by (cases "r_death (ref_at s r)") (simp_all add: fin_unf)
  note fin_core = same_coreD [OF core_fin]
  have may: "may_lower False True (node_at s3 n)" by (simp add: may_lower_def)
  show thesis
    using rb inv3 n3 may
  proof (cases rule: dec_node_nilocked)
    case (keep s4)
    let ?s5 = "upd_ref r (\<lambda>rf. rf\<lparr>r_node := None\<rparr>) s4"
    have "inv_but (\<lambda>_. 0) {r} (fin ?s5)" using keep(2) by (intro fin inv_but_upd_detached) (simp_all add: fun_upd_idem)
    moreover have "same_procs s (fin ?s5)"
      using procs3 same_core_procs [OF keep(3)] same_core_procs [OF core_fin [of ?s5]] by (simp add: same_procs_def)
    ultimately show thesis
      using eq keep(1) fin_none same_coreD [OF keep(3)]
      by (intro that(1) [of "fin ?s5"]) (simp_all add: fin_def [symmetric] fin_core keep3)
  next
    case (free s4)
    have "n_refs (node_at s n) = [r]"
      using free(6) n(2) nok c3 by (cases "n_refs (node_at s n)")
        (auto simp: s3_def s2(4) lowered_def list_del_def node_ok_def Let_def split: if_splits)
    moreover have "inv_but (\<lambda>_. 0) {r} (hide_node n (fin s4))" using free(2) by (simp add: fin fin_hide fun_upd_idem)
    moreover have "same_procs s (fin s4)"
      using procs3 free(7) same_core_procs [OF core_fin [of s4]] by (simp add: same_procs_def)
    ultimately show thesis
      using eq free fin_none by (intro that(2) [of "fin s4"]) (simp_all add: fin_def [symmetric] fin_core keep3)
  qed
qed

lemma sole_death_cong:
  "ref_live s' = ref_live s \<Longrightarrow> (\<And>x. r_death (ref_at s' x) = r_death (ref_at s x)) \<Longrightarrow> sole_death X s' d r = sole_death X s d r"
  by (simp add: sole_death_def)

text \<open>Freeing a detached reference with its death notification.\<close>

lemma inv_free_detached:
  assumes inv: "inv_but k {r} s" and w: "\<And>d. r_death (ref_at s r) = Some d \<Longrightarrow> wpos s (DeathWork d) = None"
    and sole: "\<And>d. r_death (ref_at s r) = Some d \<Longrightarrow> sole_death {} s d r"
  shows "inv_but k {} (s\<lparr>ref_live := (ref_live s)(r := False),
    death_live := (case r_death (ref_at s r) of None \<Rightarrow> death_live s | Some d \<Rightarrow> (death_live s)(d := False))\<rparr>)"
    (is "inv_but k {} ?s")
proof -
  have same: "node_at ?s = node_at s" "ref_at ?s = ref_at s" "proc_at ?s = proc_at s" "node_live ?s = node_live s"
    "proc_live ?s = proc_live s" "dead_nodes ?s = dead_nodes s" "wlist ?s = wlist s" "wpos ?s = wpos s"
    "ref_live ?s x \<longleftrightarrow> ref_live s x \<and> x \<noteq> r" for x by auto
  have keys: "node_key ?s = node_key s" "ref_desc ?s = ref_desc s" "ref_node_key ?s = ref_node_key s" "strong_refs ?s = strong_refs s"
    by (auto simp: fun_eq_iff node_key_def ref_desc_def ref_node_key_def strong_refs_def)
  have dl: "death_live ?s d" if "death_live s d" "r_death (ref_at s r) \<noteq> Some d" for d
    using that by (auto split: option.splits)
  have node: "node_ok (k n) {} ?s n" if "node_live s n" for n
    using inv_butD(2) [OF inv that] unfolding node_ok_def Let_def same keys by (auto split: option.splits)
  have ref: "ref_ok {} ?s x" if x: "ref_live s x" "x \<noteq> r" for x
  proof -
    have ok: "ref_ok {r} s x" using inv_butD(3) [OF inv x(1)] x(2) by simp
    have "sole_death {} ?s d x" if "sole_death {r} s d x" for d using that by (simp add: sole_death_def)
    moreover have "r_death (ref_at s r) \<noteq> Some d" if "r_death (ref_at s x) = Some d" for d
      using sole [of d] that x by (auto simp: sole_death_def)
    ultimately show ?thesis
      using ok dl unfolding ref_ok_def Let_def same by (auto split: option.splits simp del: simp_thms)
  qed
  have proc: "proc_ok {} ?s p" if "proc_live s p" for p
    using inv_butD(4) [OF inv that] unfolding proc_ok_def Let_def same keys by auto
  have "work_ok ?s" using inv_butD(1) [OF inv] dl w unfolding work_ok_def same by fastforce
  then show ?thesis using node ref proc inv_butD(5,6) [OF inv] unfolding inv_but_def same by auto
qed

text \<open>Removing a reference and freeing it.\<close>

lemma release_ref:
  assumes rb: "rb_ok rb" and inv: "binder_inv s" and r: "ref_live s r" "r_node (ref_at s r) = Some n"
  obtains s1 s' where "binder_cleanup_ref_olocked rb r s = Some s1" "binder_free_ref r s1 = Some s'" "binder_inv s'"
    "r_data (ref_at s1 r) = r_data (ref_at s r)"
    "ref_live s' = (ref_live s)(r := False)" "\<And>x. x \<noteq> r \<Longrightarrow> ref_at s' x = ref_at s x"
    "node_live s' = node_live s \<or> n_refs (node_at s n) = [r] \<and> node_live s' = (node_live s)(n := False)" "same_procs s s'"
proof -
  have rok: "ref_ok {} s r" using inv_butD(3) [OF inv r(1)] by simp
  then have n: "node_live s n" using r(2) by (simp add: ref_ok_def Let_def)
  have sole: "sole_death {} s d r" if "r_death (ref_at s r) = Some d" for d using rok that by (simp add: ref_ok_def Let_def)
  let ?fin = "\<lambda>u. u\<lparr>ref_live := (ref_live u)(r := False),
    death_live := (case r_death (ref_at u r) of None \<Rightarrow> death_live u | Some d \<Rightarrow> (death_live u)(d := False))\<rparr>"
  show thesis
    using rb inv r
  proof (cases rule: cleanup_ref)
    case (keep s1)
    have "sole_death {} s1 d r" if "r_death (ref_at s1 r) = Some d" for d
      using sole [of d] that keep(4) sole_death_cong [OF keep(3), of "{}"] by simp
    then have "binder_inv (?fin s1)" using keep(4,6) by (intro inv_free_detached [OF keep(2)]) auto
    moreover have "binder_free_ref r s1 = Some (?fin s1)"
      using keep(3,4) r(1) by (simp add: binder_free_ref_def Let_def split: option.split)
    moreover have "same_procs s (?fin s1)" using keep(7) by (simp add: same_procs_def)
    ultimately show thesis using keep by (intro that [of s1 "?fin s1"]) simp_all
  next
    case (free s1)
    let ?h = "hide_node n s1"
    have "sole_death {} ?h d r" if "r_death (ref_at ?h r) = Some d" for d
      using sole [of d] that free(4) sole_death_cong [of ?h s "{}"] free(3) by simp
    then have "binder_inv (?fin ?h)" using free(4,7) by (intro inv_free_detached [OF free(2)]) auto
    moreover have "binder_free_ref r s1 = Some (?fin ?h)"
      using free(3,4,5) r n by (simp add: binder_free_ref_def binder_free_node_def hide_node_def Let_def split: option.split)
    moreover have "same_procs s (?fin ?h)" using free(8) by (simp add: same_procs_def)
    ultimately show thesis using free by (intro that [of s1 "?fin ?h"]) simp_all
  qed
qed

section \<open>Dropping a count\<close>

abbreviation less_one :: "bool \<Rightarrow> binder_ref_data \<Rightarrow> binder_ref_data" where
  "less_one is_strong d \<equiv> (if is_strong then d\<lparr>strong := strong d - 1\<rparr> else d\<lparr>weak := weak d - 1\<rparr>)"

text \<open>The count of the reference and, with the last strong one, that of the node.\<close>

lemma dec_ref_count:
  assumes rb: "rb_ok rb" and inv: "binder_inv s" and r: "ref_live s r" "r_node (ref_at s r) = Some n"
    and pos: "if is_strong then strong (r_data (ref_at s r)) \<noteq> 0 else weak (r_data (ref_at s r)) \<noteq> 0"
  obtains s' where "(let s1 = upd_ref_data r (less_one is_strong) s in
      if is_strong \<and> strong (r_data (ref_at s1 r)) = 0
      then (case r_node (ref_at s1 r) of None \<Rightarrow> None | Some n \<Rightarrow> binder_dec_node rb n True True s1) else Some s1) = Some s'"
    "binder_inv s'" "same_core (upd_ref_data r (less_one is_strong) s) s'"
proof -
  let ?s1 = "upd_ref_data r (less_one is_strong) s" and ?rd = "r_data (ref_at s r)"
  have rok: "ref_ok {} s r" using inv_butD(3) [OF inv r(1)] by simp
  have n: "node_live s n" "r \<in> set (n_refs (node_at s n))" and nn: "0 \<le> strong ?rd" "0 \<le> weak ?rd"
    using rok r(2) by (auto simp: ref_ok_def Let_def)
  have "inv_but ((\<lambda>_. 0)(n := 0 - ((if strong (less_one is_strong ?rd) \<noteq> 0 then 1 else 0) - (if strong ?rd \<noteq> 0 then 1 else 0)))) {} ?s1"
    using nn pos by (intro inv_but_ref_count [OF inv r, where f = "less_one is_strong"]) (auto split: if_splits)
  then have inv1: "inv_but ((\<lambda>_. 0)(n := (if is_strong \<and> strong ?rd = 1 then 1 else 0))) {} ?s1"
    using pos by (simp split: if_splits)
  show thesis
  proof (cases "is_strong \<and> strong ?rd = 1")
    case True
    have may: "may_lower True True (node_at ?s1 n)" by (simp add: may_lower_def)
    have n1: "node_live ?s1 n" using n by simp
    show thesis
      using rb inv1 n1 may
    proof (cases rule: dec_node)
      case (keep s')
      then show thesis using True r(2) by (intro that [of s']) (auto simp: Let_def fun_upd_idem)
    next
      case (free s')
      then show thesis using n(2) by simp
    qed
  next
    case False
    then show thesis using inv1 by (intro that [of ?s1]) (auto simp: Let_def fun_upd_idem)
  qed
qed

lemma dec_ref:
  assumes rb: "rb_ok rb" and inv: "binder_inv s" and r: "ref_live s r" "r_node (ref_at s r) = Some n"
  obtains (none) "binder_dec_ref_olocked rb r is_strong s = Some (False, s)"
      "if is_strong then strong (r_data (ref_at s r)) = 0 else weak (r_data (ref_at s r)) = 0"
  | (keep) s' where "binder_dec_ref_olocked rb r is_strong s = Some (False, s')" "binder_inv s'"
      "same_core (upd_ref_data r (less_one is_strong) s) s'"
      "if is_strong then strong (r_data (ref_at s r)) \<noteq> 0 else weak (r_data (ref_at s r)) \<noteq> 0"
      "strong (less_one is_strong (r_data (ref_at s r))) \<noteq> 0 \<or> weak (less_one is_strong (r_data (ref_at s r))) \<noteq> 0"
  | (gone) s2 where "binder_dec_ref_olocked rb r is_strong s = map_option (\<lambda>s3. (True, s3)) (binder_cleanup_ref_olocked rb r s2)"
      "binder_inv s2" "same_core (upd_ref_data r (less_one is_strong) s) s2"
      "if is_strong then strong (r_data (ref_at s r)) \<noteq> 0 else weak (r_data (ref_at s r)) \<noteq> 0"
      "strong (less_one is_strong (r_data (ref_at s r))) = 0" "weak (less_one is_strong (r_data (ref_at s r))) = 0"
proof (cases "if is_strong then strong (r_data (ref_at s r)) = 0 else weak (r_data (ref_at s r)) = 0")
  case True
  then show thesis by (intro none) (simp_all add: binder_dec_ref_olocked_def Let_def)
next
  case False
  let ?s1 = "upd_ref_data r (less_one is_strong) s"
  have pos: "if is_strong then strong (r_data (ref_at s r)) \<noteq> 0 else weak (r_data (ref_at s r)) \<noteq> 0" using False by (simp split: if_splits)
  obtain s2 where s2: "(if is_strong \<and> strong (r_data (ref_at ?s1 r)) = 0
      then (case r_node (ref_at ?s1 r) of None \<Rightarrow> None | Some n \<Rightarrow> binder_dec_node rb n True True ?s1) else Some ?s1) = Some s2"
    "binder_inv s2" "same_core ?s1 s2"
    by (rule dec_ref_count [OF rb inv r pos, unfolded Let_def])
  have upd: "(if is_strong then upd_ref_data r (\<lambda>d. d\<lparr>strong := strong d - 1\<rparr>) s
      else upd_ref_data r (\<lambda>d. d\<lparr>weak := weak d - 1\<rparr>) s) = ?s1" by simp
  have eq: "binder_dec_ref_olocked rb r is_strong s =
      (if strong (r_data (ref_at ?s1 r)) = 0 \<and> weak (r_data (ref_at ?s1 r)) = 0
       then map_option (\<lambda>s3. (True, s3)) (binder_cleanup_ref_olocked rb r s2) else Some (False, s2))"
    unfolding binder_dec_ref_olocked_def Let_def upd s2(1) using False by simp
  show thesis
  proof (cases "strong (r_data (ref_at ?s1 r)) = 0 \<and> weak (r_data (ref_at ?s1 r)) = 0")
    case True
    then show thesis using gone [of s2] eq s2 pos by simp
  next
    case False
    then show thesis using keep [of s2] eq s2 pos by simp
  qed
qed

end
