(* ===== verification/Binder_Ref_New.thy ===== *)
theory Binder_Ref_New
  imports Binder_Ref_Ops
begin

text \<open>
  Creating a reference: the walk over the handles of a process, the links into its trees and the
  list of the node, and the whole of \<open>binder_inc_ref_for_node\<close>.
\<close>

section \<open>The next handle\<close>

text \<open>The walk over the handles finds the least one from its start on that is not taken.\<close>

lemma next_desc_above:
  assumes "keyed key xs" "\<forall>x\<in>set xs. d \<le> key x" "unat d + length xs < 2 ^ 32"
  shows "d \<le> next_desc key xs d \<and> next_desc key xs d \<notin> key ` set xs \<and>
    (\<forall>e. d \<le> e \<and> e < next_desc key xs d \<longrightarrow> e \<in> key ` set xs)"
  using assms
proof (induction key xs d rule: next_desc.induct)
  case (2 key r rs d)
  show ?case
  proof (cases "key r > d")
    case True
    then show ?thesis using "2.prems"(1) by (fastforce simp: keyed_def)
  next
    case False
    then have d: "key r = d" using "2.prems"(2) by auto
    have up: "unat (d + 1) = unat d + 1" using "2.prems"(3) unat_word_ariths(1) [of d 1] by simp
    then have le: "d + 1 \<le> e \<longleftrightarrow> d < e" for e :: u32 by (simp add: word_le_nat_alt word_less_nat_alt) linarith
    have "keyed key rs" "\<forall>x\<in>set rs. d + 1 \<le> key x" using "2.prems"(1) d by (auto simp: keyed_def le)
    then have IH: "d + 1 \<le> next_desc key rs (d + 1) \<and> next_desc key rs (d + 1) \<notin> key ` set rs \<and>
        (\<forall>e. d + 1 \<le> e \<and> e < next_desc key rs (d + 1) \<longrightarrow> e \<in> key ` set rs)"
      using "2.IH" False "2.prems"(3) up d by simp
    then show ?thesis using False d by (auto simp: le)
  qed
qed auto

lemma next_desc_least:
  assumes k: "keyed key xs" and d: "d \<le> 1" and len: "length xs < 2 ^ 32 - 1"
  shows "d \<le> next_desc key xs d" "next_desc key xs d \<notin> key ` set xs"
    "d \<le> e \<Longrightarrow> e < next_desc key xs d \<Longrightarrow> e \<in> key ` set xs"
proof -
  have "unat d \<le> 1" using d by (simp add: word_le_nat_alt)
  then have bound: "unat d + length xs < 2 ^ 32" using len by simp
  have "d \<le> next_desc key xs d \<and> next_desc key xs d \<notin> key ` set xs \<and>
    (\<forall>e. d \<le> e \<and> e < next_desc key xs d \<longrightarrow> e \<in> key ` set xs)"
  proof (cases "\<forall>x\<in>set xs. d \<le> key x")
    case True
    then show ?thesis using next_desc_above [OF k _ bound] by blast
  next
    case False
    then obtain r where r: "r \<in> set xs" "key r < d" by force
    have one: "d = 1" "key r = 0" using r(2) d by (simp_all add: word_less_nat_alt word_le_nat_alt word_unat_eq_iff)
    obtain x rs where xs: "xs = x # rs" using r(1) by (cases xs) auto
    have kx: "\<forall>y\<in>set rs. key x < key y" "keyed key rs" using k xs by (auto simp: keyed_def)
    have x0: "key x = 0" using r(1) kx(1) one(2) xs by auto
    have gt: "\<forall>y\<in>set rs. 1 \<le> key y" using kx(1) x0 by (auto simp: word_less_nat_alt word_le_nat_alt)
    have nd: "next_desc key xs d = next_desc key rs 1" using xs x0 one(1) by simp
    have "1 \<le> next_desc key rs 1 \<and> next_desc key rs 1 \<notin> key ` set rs \<and>
      (\<forall>e. 1 \<le> e \<and> e < next_desc key rs 1 \<longrightarrow> e \<in> key ` set rs)"
      using next_desc_above [OF kx(2) gt] len xs by simp
    then show ?thesis unfolding nd using xs x0 one(1) by auto
  qed
  then show "d \<le> next_desc key xs d" "next_desc key xs d \<notin> key ` set xs"
    "d \<le> e \<Longrightarrow> e < next_desc key xs d \<Longrightarrow> e \<in> key ` set xs" by auto
qed

lemma bst_link_cong: "(\<And>y. y \<in> set (inorder t) \<Longrightarrow> g y = h y) \<Longrightarrow> bst_link g x t = bst_link h x t"
  by (induction t) auto

lemma desc_link_unused:
  assumes "d \<notin> key ` set (inorder t)"
  shows "desc_link key d new t = Some (bst_link (\<lambda>r. d < key r) new t)"
  using assms by (induction t) auto

section \<open>Linking\<close>

text \<open>A new reference, linked into the two trees of its process and the list of its node.\<close>

definition new_link :: "rb_ops \<Rightarrow> ptr \<Rightarrow> ptr \<Rightarrow> u32 \<Rightarrow> ptr \<Rightarrow> bstate \<Rightarrow> bstate" where
  "new_link rb p n d new s =
     upd_node n (\<lambda>nd. nd\<lparr>n_refs := new # n_refs nd\<rparr>)
      (upd_proc p (\<lambda>pr. pr\<lparr>refs_by_desc := rb_insert_color rb new (bst_link (\<lambda>r. d < ref_desc s r) new (refs_by_desc (proc_at s p)))\<rparr>)
        (upd_ref new (\<lambda>rf. rf\<lparr>r_data := (r_data rf)\<lparr>rd_debug_id := last_id s + 1, desc := d\<rparr>, r_proc := p, r_node := Some n\<rparr>)
          (upd_proc p (\<lambda>pr. pr\<lparr>refs_by_node := rb_insert_color rb new
              (bst_link (\<lambda>r. n < ref_node_key s r) new (refs_by_node pr))\<rparr>) (s\<lparr>last_id := last_id s + 1\<rparr>))))"

lemma new_link_simps:
  "ref_at (new_link rb p n d new s) = (ref_at s)(new := (ref_at s new)\<lparr>r_data := (r_data (ref_at s new))\<lparr>rd_debug_id := last_id s + 1,
     desc := d\<rparr>, r_proc := p, r_node := Some n\<rparr>)"
  "node_at (new_link rb p n d new s) = (node_at s)(n := (node_at s n)\<lparr>n_refs := new # n_refs (node_at s n)\<rparr>)"
  "proc_at (new_link rb p n d new s) = (proc_at s)(p := (proc_at s p)
     \<lparr>refs_by_node := rb_insert_color rb new (bst_link (\<lambda>r. n < ref_node_key s r) new (refs_by_node (proc_at s p))),
      refs_by_desc := rb_insert_color rb new (bst_link (\<lambda>r. d < ref_desc s r) new (refs_by_desc (proc_at s p)))\<rparr>)"
  "ref_live (new_link rb p n d new s) = ref_live s" "node_live (new_link rb p n d new s) = node_live s"
  "proc_live (new_link rb p n d new s) = proc_live s" "death_live (new_link rb p n d new s) = death_live s"
  "dead_nodes (new_link rb p n d new s) = dead_nodes s" "wlist (new_link rb p n d new s) = wlist s"
  "wpos (new_link rb p n d new s) = wpos s" "ctx_at (new_link rb p n d new s) = ctx_at s"
  by (simp_all add: new_link_def upd_proc_def upd_node_def upd_ref_def)

text \<open>The two trees of the process after the link.\<close>

lemma new_link_trees:
  assumes rb: "rb_ok rb" and ok: "proc_ok {new} s p" and d: "d \<notin> ref_desc s ` set (inorder (refs_by_desc (proc_at s p)))"
    and none: "rb_search (ref_node_key s) n (refs_by_node (proc_at s p)) = None"
  shows "keyed (ref_desc (new_link rb p n d new s)) (inorder (refs_by_desc (proc_at (new_link rb p n d new s) p)))"
    "keyed (ref_node_key (new_link rb p n d new s)) (inorder (refs_by_node (proc_at (new_link rb p n d new s) p)))"
    "set (inorder (refs_by_desc (proc_at (new_link rb p n d new s) p))) = insert new (set (inorder (refs_by_desc (proc_at s p))))"
    "set (inorder (refs_by_node (proc_at (new_link rb p n d new s) p))) = insert new (set (inorder (refs_by_node (proc_at s p))))"
proof -
  let ?s = "new_link rb p n d new s"
  let ?td = "refs_by_desc (proc_at s p)" and ?tn = "refs_by_node (proc_at s p)"
  have kd: "keyed (ref_desc s) (inorder ?td)" and kn: "keyed (ref_node_key s) (inorder ?tn)"
    and out: "new \<notin> set (inorder ?td)" "new \<notin> set (inorder ?tn)" using ok by (auto simp: proc_ok_def Let_def)
  have old: "x \<noteq> new \<Longrightarrow> ref_desc ?s x = ref_desc s x" "x \<noteq> new \<Longrightarrow> ref_node_key ?s x = ref_node_key s x"
    and new: "ref_desc ?s new = d" "ref_node_key ?s new = n" for x
    by (simp_all add: ref_desc_def ref_node_key_def new_link_simps)
  have kd': "keyed (ref_desc ?s) (inorder ?td)" and kn': "keyed (ref_node_key ?s) (inorder ?tn)"
    using kd kn keyed_cong [of "inorder ?td" "ref_desc ?s" "ref_desc s"]
      keyed_cong [of "inorder ?tn" "ref_node_key ?s" "ref_node_key s"] old out by metis+
  have nd: "\<forall>y\<in>set (inorder ?td). ref_desc ?s y \<noteq> ref_desc ?s new" using d out(1) old(1) new(1) by (metis image_eqI)
  have nn: "\<forall>y\<in>set (inorder ?tn). ref_node_key ?s y \<noteq> ref_node_key ?s new"
    using none out(2) old(2) new(2) unfolding rb_search_None [OF kn] by metis
  have ld: "bst_link (\<lambda>r. d < ref_desc s r) new ?td = bst_link (\<lambda>r. ref_desc ?s new < ref_desc ?s r) new ?td"
    and ln: "bst_link (\<lambda>r. n < ref_node_key s r) new ?tn = bst_link (\<lambda>r. ref_node_key ?s new < ref_node_key ?s r) new ?tn"
    unfolding new by (rule bst_link_cong, metis out old)+
  have io: "inorder (refs_by_desc (proc_at ?s p)) = inorder (bst_link (\<lambda>r. ref_desc ?s new < ref_desc ?s r) new ?td)"
    "inorder (refs_by_node (proc_at ?s p)) = inorder (bst_link (\<lambda>r. ref_node_key ?s new < ref_node_key ?s r) new ?tn)"
    unfolding ld [symmetric] ln [symmetric] by (simp_all add: new_link_simps rb_okD(1) [OF rb])
  show "keyed (ref_desc ?s) (inorder (refs_by_desc (proc_at ?s p)))" "keyed (ref_node_key ?s) (inorder (refs_by_node (proc_at ?s p)))"
    "set (inorder (refs_by_desc (proc_at ?s p))) = insert new (set (inorder ?td))"
    "set (inorder (refs_by_node (proc_at ?s p))) = insert new (set (inorder ?tn))"
    unfolding io by (rule keyed_link [OF kd' nd] keyed_link [OF kn' nn])+
qed

lemma inv_new_link:
  assumes rb: "rb_ok rb" and inv: "inv_but k {new} s" and new: "ref_live s new" "strong (r_data (ref_at s new)) = 0"
      "0 \<le> weak (r_data (ref_at s new))" "r_death (ref_at s new) = None"
    and p: "proc_live s p" and n: "node_live s n" and d: "d \<notin> ref_desc s ` set (inorder (refs_by_desc (proc_at s p)))"
    and none: "rb_search (ref_node_key s) n (refs_by_node (proc_at s p)) = None"
  shows "inv_but k {} (new_link rb p n d new s)"
proof -
  let ?s = "new_link rb p n d new s"
  note S = new_link_simps [of rb p n d new s]
  have pok: "proc_ok {new} s p" by (rule inv_butD(4) [OF inv p])
  note trees = new_link_trees [OF rb pok d none]
  have node: "node_ok (k m) {} ?s m" if m: "node_live s m" for m
  proof -
    have ok: "node_ok (k m) {new} s m" by (rule inv_butD(2) [OF inv m])
    then have out: "new \<notin> set (n_refs (node_at s m))" by (auto simp: node_ok_def Let_def)
    have st: "strong (r_data (ref_at ?s r)) = strong (r_data (ref_at s r))" for r by (simp add: S)
    have "strong_refs ?s m = strong_refs s m" using new(2) unfolding strong_refs_def st by (simp add: S(2))
    moreover have "p_nodes (proc_at ?s q) = p_nodes (proc_at s q)" for q by (simp add: S)
    ultimately show ?thesis using ok out new(1) unfolding node_ok_def Let_def by (auto simp: S split: option.splits)
  qed
  have sole: "sole_death {} ?s e x = sole_death {new} s e x" for e x
    unfolding sole_death_def using new(4) by (auto simp: S)
  have ref: "ref_ok {} ?s x" if x: "ref_live s x" for x
  proof (cases "x = new")
    case True
    then show ?thesis using new p n unfolding ref_ok_def Let_def by (simp add: S)
  next
    case False
    then show ?thesis
      using inv_butD(3) [OF inv x] unfolding ref_ok_def Let_def sole by (auto simp: S split: option.splits)
  qed
  have proc: "proc_ok {} ?s q" if q: "proc_live s q" for q
  proof -
    have nk: "node_key ?s = node_key s" by (auto simp: fun_eq_iff node_key_def S)
    have np: "n_proc (node_at ?s m) = n_proc (node_at s m)" for m by (simp add: S)
    have ok: "proc_ok {new} s q" by (rule inv_butD(4) [OF inv q])
    show ?thesis
    proof (cases "q = p")
      case True
      have "p_nodes (proc_at ?s p) = p_nodes (proc_at s p)" by (simp add: S)
      then show ?thesis using pok new(1) trees unfolding True proc_ok_def Let_def nk np by (auto simp: S(1,4,5))
    next
      case False
      have "new \<notin> set (inorder (refs_by_desc (proc_at s q)))" "new \<notin> set (inorder (refs_by_node (proc_at s q)))"
        using ok by (auto simp: proc_ok_def Let_def)
      then have "keyed (ref_desc ?s) (inorder (refs_by_desc (proc_at s q))) = keyed (ref_desc s) (inorder (refs_by_desc (proc_at s q)))"
        "keyed (ref_node_key ?s) (inorder (refs_by_node (proc_at s q))) = keyed (ref_node_key s) (inorder (refs_by_node (proc_at s q)))"
        by (intro keyed_cong; force simp: ref_desc_def ref_node_key_def S)+
      moreover have "proc_at ?s q = proc_at s q" using False by (simp add: S)
      ultimately show ?thesis using ok False unfolding proc_ok_def Let_def nk np by (auto simp: S(1,4,5))
    qed
  qed
  show ?thesis using inv node ref proc unfolding inv_but_def by (auto simp: work_ok_def S)
qed

text \<open>The handle that a process gives a node it has no reference to.\<close>

definition least_unused :: "u32 \<Rightarrow> u32 set \<Rightarrow> u32 \<Rightarrow> bool" where
  "least_unused d0 used d \<longleftrightarrow> d0 \<le> d \<and> d \<notin> used \<and> (\<forall>e. d0 \<le> e \<and> e < d \<longrightarrow> e \<in> used)"

definition first_desc :: "ptr \<Rightarrow> ptr \<Rightarrow> bstate \<Rightarrow> u32" where
  "first_desc p n s = (if context_mgr_of s p = Some n then 0 else 1)"

lemma get_ref_for_node_new:
  assumes rb: "rb_ok rb" and inv: "inv_but k {new} s" and new: "ref_live s new" "ref_at s new = zero_ref"
    and p: "proc_live s p" and n: "node_live s n" and few: "length (inorder (refs_by_desc (proc_at s p))) < 2 ^ 32 - 1"
    and none: "rb_search (ref_node_key s) n (refs_by_node (proc_at s p)) = None"
  obtains d where "binder_get_ref_for_node_olocked rb p n (Some new) s = Some (Some new, new_link rb p n d new s)"
    "inv_but k {} (new_link rb p n d new s)"
    "least_unused (first_desc p n s) (ref_desc s ` set (inorder (refs_by_desc (proc_at s p)))) d"
proof -
  let ?used = "ref_desc s ` set (inorder (refs_by_desc (proc_at s p)))"
  let ?d = "next_desc (ref_desc s) (inorder (refs_by_desc (proc_at s p))) (first_desc p n s)"
  have "keyed (ref_desc s) (inorder (refs_by_desc (proc_at s p)))"
    using inv_butD(4) [OF inv p] by (simp add: proc_ok_def Let_def)
  then have least: "least_unused (first_desc p n s) ?used ?d"
    using next_desc_least [OF _ _ few, of "ref_desc s" "first_desc p n s"] unfolding least_unused_def
    by (simp add: first_desc_def)
  then have d: "?d \<notin> ?used" by (simp add: least_unused_def)
  have "inv_but k {} (new_link rb p n ?d new s)"
    by (rule inv_new_link [OF rb inv new(1) _ _ _ p n d none]) (simp_all add: new(2) zero_ref_def)
  moreover have "binder_get_ref_for_node_olocked rb p n (Some new) s = Some (Some new, new_link rb p n ?d new s)"
    using none desc_link_unused [OF d] unfolding binder_get_ref_for_node_olocked_def Let_def new_link_def first_desc_def by simp
  ultimately show thesis using that least by blast
qed

text \<open>A zeroed structure that no list knows yet, and giving it back.\<close>

definition with_new :: "ptr \<Rightarrow> bstate \<Rightarrow> bstate" where
  "with_new new s = s\<lparr>ref_at := (ref_at s)(new := zero_ref), ref_live := (ref_live s)(new := True)\<rparr>"

lemma inv_with_new:
  assumes inv: "inv_but k {} s" and new: "\<not> ref_live s new"
  shows "inv_but k {new} (with_new new s)"
proof -
  have "inv_but k {new} (s\<lparr>ref_live := (ref_live s)(new := True)\<rparr>)" (is "inv_but k {new} ?s")
  proof -
    have keys: "node_key ?s = node_key s" "ref_desc ?s = ref_desc s" "ref_node_key ?s = ref_node_key s" "strong_refs ?s = strong_refs s"
      by (auto simp: fun_eq_iff node_key_def ref_desc_def ref_node_key_def strong_refs_def)
    have sole: "sole_death {new} ?s d r = sole_death {} s d r" for d r using new by (auto simp: sole_death_def)
    have "node_ok (k n) {new} ?s n" if "node_live s n" for n
      using inv_butD(2) [OF inv that] new unfolding node_ok_def Let_def keys by (auto split: option.splits)
    moreover have "ref_ok {new} ?s r" if "ref_live s r" for r
      using inv_butD(3) [OF inv that] unfolding ref_ok_def Let_def sole by (auto split: option.splits)
    moreover have "proc_ok {new} ?s p" if "proc_live s p" for p
      using inv_butD(4) [OF inv that] new unfolding proc_ok_def Let_def keys by auto
    ultimately show ?thesis using inv unfolding inv_but_def by (auto simp: work_ok_def)
  qed
  then have "inv_but k {new} (upd_ref new (\<lambda>_. zero_ref) (s\<lparr>ref_live := (ref_live s)(new := True)\<rparr>))"
    by (rule inv_but_upd_detached) simp
  then show ?thesis by (cases s) (simp add: with_new_def upd_ref_def)
qed

lemma free_new:
  assumes inv: "inv_but k {new} s" and z: "ref_at s new = zero_ref"
  shows "inv_but k {} (s\<lparr>ref_live := (ref_live s)(new := False)\<rparr>)"
  using inv_free_detached [OF inv] z by (simp add: zero_ref_def)

section \<open>Taking a reference on a node\<close>

text \<open>What other threads do while the lock of the process is dropped: they leave the process and the node alone.\<close>

definition safe_interference :: "(bstate \<Rightarrow> bstate) \<Rightarrow> ptr \<Rightarrow> ptr \<Rightarrow> bstate \<Rightarrow> bool" where
  "safe_interference intf p n s \<longleftrightarrow> binder_inv (intf s) \<and> proc_live (intf s) p \<and> node_live (intf s) n \<and>
     n_proc (node_at (intf s) n) = n_proc (node_at s n) \<and> length (inorder (refs_by_desc (proc_at (intf s) p))) < 2 ^ 32 - 1"

lemma get_ref_for_node_old:
  assumes inv: "inv_but k X s" and p: "proc_live s p" and f: "rb_search (ref_node_key s) n (refs_by_node (proc_at s p)) = Some r"
  shows "binder_get_ref_for_node_olocked rb p n new s = Some (Some r, s)" "ref_live s r" "r \<notin> X" "r_node (ref_at s r) = Some n"
    "r_proc (ref_at s r) = p"
proof -
  have "r \<in> set (inorder (refs_by_node (proc_at s p)))" "ref_node_key s r = n"
    using inv_butD(4) [OF inv p] f rb_search_Some [of "ref_node_key s" "refs_by_node (proc_at s p)" n r]
    by (simp_all add: proc_ok_def Let_def)
  then have r: "ref_live s r" "r \<notin> X" "r_proc (ref_at s r) = p" "ref_node_key s r = n"
    using inv_butD(4) [OF inv p] by (auto simp: proc_ok_def Let_def)
  then show "ref_live s r" "r \<notin> X" "r_proc (ref_at s r) = p" by auto
  show "r_node (ref_at s r) = Some n"
    using inv_butD(3) [OF inv r(1,2)] r(4) by (auto simp: ref_ok_def Let_def ref_node_key_def split: option.splits)
  show "binder_get_ref_for_node_olocked rb p n new s = Some (Some r, s)"
    using f by (simp add: binder_get_ref_for_node_olocked_def Let_def)
qed

end
