(* ===== verification/Binder_Handles.thy ===== *)
theory Binder_Handles
  imports Binder_Ref_New
begin

text \<open>
  What the reference structures mean: each process has a table from handles to a node with a strong
  and a weak count. The operations on references are operations on this table.
\<close>

section \<open>The table of a process\<close>

type_synonym handle_entry = "ptr \<times> int \<times> int"

definition ref_view :: "bstate \<Rightarrow> ptr \<Rightarrow> handle_entry option" where
  "ref_view s r = map_option (\<lambda>n. (n, strong (r_data (ref_at s r)), weak (r_data (ref_at s r)))) (r_node (ref_at s r))"

definition handles :: "bstate \<Rightarrow> ptr \<Rightarrow> u32 \<Rightarrow> handle_entry option" where
  "handles s p d = (case rb_search (ref_desc s) d (refs_by_desc (proc_at s p)) of None \<Rightarrow> None | Some r \<Rightarrow> ref_view s r)"

lemma get_ref_desc:
  assumes inv: "binder_inv s" and p: "proc_live s p"
  shows "rb_search (ref_desc s) d (refs_by_desc (proc_at s p)) = Some r \<longleftrightarrow>
    ref_live s r \<and> r_proc (ref_at s r) = p \<and> ref_desc s r = d"
  using inv_butD(4) [OF inv p] rb_search_Some [of "ref_desc s" "refs_by_desc (proc_at s p)" d r]
  by (simp add: proc_ok_def Let_def)

lemma ref_view_live: "binder_inv s \<Longrightarrow> ref_live s r \<Longrightarrow> \<exists>n. r_node (ref_at s r) = Some n \<and> node_live s n"
  using inv_butD(3) [of "\<lambda>_. 0" "{}" s r] by (auto simp: ref_ok_def Let_def split: option.splits)

lemma handles_ref:
  assumes "binder_inv s" "proc_live s p" "ref_live s r" "r_proc (ref_at s r) = p"
  shows "handles s p (ref_desc s r) = ref_view s r"
  using get_ref_desc [OF assms(1,2), of "ref_desc s r" r] assms(3,4) by (simp add: handles_def)

lemma handles_None:
  assumes "binder_inv s" "proc_live s p"
  shows "handles s p d = None \<longleftrightarrow> (\<forall>r. ref_live s r \<and> r_proc (ref_at s r) = p \<longrightarrow> ref_desc s r \<noteq> d)"
proof (cases "rb_search (ref_desc s) d (refs_by_desc (proc_at s p))")
  case None
  then show ?thesis using get_ref_desc [OF assms, of d] by (auto simp: handles_def)
next
  case (Some r)
  then have r: "ref_live s r" "r_proc (ref_at s r) = p" "ref_desc s r = d" using get_ref_desc [OF assms, of d r] by auto
  then have "handles s p d \<noteq> None" using Some ref_view_live [OF assms(1) r(1)] by (auto simp: handles_def ref_view_def)
  then show ?thesis using r by blast
qed

lemma same_handle_same_ref:
  assumes "binder_inv s" "proc_live s p" "ref_live s r" "r_proc (ref_at s r) = p" "ref_live s x" "r_proc (ref_at s x) = p"
    "ref_desc s r = ref_desc s x"
  shows "r = x"
  using get_ref_desc [OF assms(1,2), of "ref_desc s x"] assms(3-7) by (metis option.inject)

text \<open>A change to one reference changes one entry of one table.\<close>

lemma handles_frame:
  assumes inv: "binder_inv s" "binder_inv s'" and pl: "proc_live s' = proc_live s"
    and rest: "\<And>x. x \<noteq> r \<Longrightarrow> ref_live s' x = ref_live s x" "\<And>x. x \<noteq> r \<Longrightarrow> ref_live s x \<Longrightarrow> ref_at s' x = ref_at s x"
    and at: "ref_live s r \<Longrightarrow> r_proc (ref_at s r) = p \<and> ref_desc s r = d"
      "ref_live s' r \<Longrightarrow> r_proc (ref_at s' r) = p \<and> ref_desc s' r = d" "ref_live s r \<or> ref_live s' r"
    and q: "proc_live s q"
  shows "handles s' q = (if q = p then (handles s p)(d := if ref_live s' r then ref_view s' r else None) else handles s q)"
proof
  fix e
  have q': "proc_live s' q" using q pl by simp
  have old: "ref_desc s' x = ref_desc s x" "ref_view s' x = ref_view s x" if "x \<noteq> r" "ref_live s x" for x
    using rest(2) [OF that] by (simp_all add: ref_desc_def ref_view_def)
  have same: "handles s' q e = handles s q e" if ne: "q \<noteq> p \<or> e \<noteq> d"
  proof (cases "handles s q e")
    case None
    have "ref_desc s' x \<noteq> e" if x: "ref_live s' x" "r_proc (ref_at s' x) = q" for x
    proof (cases "x = r")
      case True
      then show ?thesis using at(2) ne x by auto
    next
      case False
      then have "ref_live s x" using rest(1) x(1) by simp
      then show ?thesis using None handles_None [OF inv(1) q] rest(2) [OF False] x(2) old(1) [OF False] by auto
    qed
    then show ?thesis using None handles_None [OF inv(2) q'] by simp
  next
    case (Some h)
    then obtain x where x: "ref_live s x" "r_proc (ref_at s x) = q" "ref_desc s x = e"
      using handles_None [OF inv(1) q, of e] by auto
    have xr: "x \<noteq> r" using at(1) x ne by auto
    have x': "ref_live s' x" "r_proc (ref_at s' x) = q" using x rest xr by auto
    show ?thesis
      using handles_ref [OF inv(1) q x(1,2)] handles_ref [OF inv(2) q' x'] old [OF xr x(1)] x(3) by simp
  qed
  show "handles s' q e = (if q = p then (handles s p)(d := if ref_live s' r then ref_view s' r else None) else handles s q) e"
  proof (cases "q = p \<and> e = d")
    case True
    show ?thesis
    proof (cases "ref_live s' r")
      case live: True
      then show ?thesis using handles_ref [OF inv(2) q' live] at(2) [OF live] True by auto
    next
      case dead: False
      then have r: "ref_live s r" using at(3) by simp
      have "ref_desc s' x \<noteq> e" if x: "ref_live s' x" "r_proc (ref_at s' x) = q" for x
      proof
        assume e: "ref_desc s' x = e"
        have xr: "x \<noteq> r" using x(1) dead by auto
        have "ref_live s x" "ref_at s' x = ref_at s x" using x xr rest by auto
        then show False
          using same_handle_same_ref [OF inv(1) q, of r x] old(1) [OF xr] at(1) [OF r] r e True x(2) xr by auto
      qed
      then show ?thesis using handles_None [OF inv(2) q'] dead True by auto
    qed
  qed (use same in auto)
qed

section \<open>The operations on the table\<close>

fun count_up :: "bool \<Rightarrow> handle_entry \<Rightarrow> handle_entry" where
  "count_up is_strong (n, st, wk) = (if is_strong then (n, st + 1, wk) else (n, st, wk + 1))"

text \<open>An entry whose two counts are gone is dropped; a count that is already 0 stays.\<close>

fun count_down :: "bool \<Rightarrow> handle_entry \<Rightarrow> handle_entry option" where
  "count_down is_strong (n, st, wk) =
     (let st' = (if is_strong then st - 1 else st); wk' = (if is_strong then wk else wk - 1) in
      if (if is_strong then st = 0 else wk = 0) then Some (n, st, wk)
      else if st' = 0 \<and> wk' = 0 then None else Some (n, st', wk'))"

fun visible :: "bool \<Rightarrow> handle_entry \<Rightarrow> bool" where
  "visible is_strong (n, st, wk) \<longleftrightarrow> \<not> (is_strong \<and> st = 0)"

definition table_update :: "bool \<Rightarrow> bool \<Rightarrow> u32 \<Rightarrow> (u32 \<Rightarrow> handle_entry option) \<Rightarrow> (u32 \<Rightarrow> handle_entry option)" where
  "table_update increment is_strong d t =
     (case t d of None \<Rightarrow> t | Some h \<Rightarrow> t(d := if increment then Some (count_up is_strong h) else count_down is_strong h))"

lemma get_ref_olocked:
  assumes inv: "binder_inv s" and p: "proc_live s p" and r: "binder_get_ref_olocked p d is_strong s = Some r"
  shows "ref_live s r" "r_proc (ref_at s r) = p" "ref_desc s r = d" "handles s p d = ref_view s r"
    "is_strong \<Longrightarrow> strong (r_data (ref_at s r)) \<noteq> 0"
proof -
  have "rb_search (ref_desc s) d (refs_by_desc (proc_at s p)) = Some r" and st: "is_strong \<Longrightarrow> strong (r_data (ref_at s r)) \<noteq> 0"
    using r by (auto simp: binder_get_ref_olocked_def split: option.splits if_splits)
  then show x: "ref_live s r" "r_proc (ref_at s r) = p" "ref_desc s r = d" "is_strong \<Longrightarrow> strong (r_data (ref_at s r)) \<noteq> 0"
    using get_ref_desc [OF inv p, of d r] by auto
  show "handles s p d = ref_view s r" using handles_ref [OF inv p x(1,2)] x(3) by simp
qed

lemma get_ref_olocked_None:
  assumes inv: "binder_inv s" and p: "proc_live s p"
  shows "binder_get_ref_olocked p d is_strong s = None \<longleftrightarrow> (case handles s p d of None \<Rightarrow> True | Some h \<Rightarrow> \<not> visible is_strong h)"
proof (cases "rb_search (ref_desc s) d (refs_by_desc (proc_at s p))")
  case None
  then show ?thesis by (simp add: binder_get_ref_olocked_def handles_def)
next
  case (Some r)
  then show ?thesis
    using get_ref_desc [OF inv p, of d r] ref_view_live [OF inv, of r]
    by (auto simp: binder_get_ref_olocked_def handles_def ref_view_def)
qed

text \<open>Taking a count through a handle.\<close>

abbreviation one_more :: "bool \<Rightarrow> binder_ref_data \<Rightarrow> binder_ref_data" where
  "one_more is_strong d \<equiv> (if is_strong then d\<lparr>strong := strong d + 1\<rparr> else d\<lparr>weak := weak d + 1\<rparr>)"

lemma handles_count:
  assumes inv: "binder_inv s" "binder_inv s'" and r: "ref_live s r" "r_proc (ref_at s r) = p"
    and core: "same_core (upd_ref_data r f s) s'" and f: "\<And>d. desc (f d) = desc d" and q: "proc_live s q"
  shows "handles s' q = (if q = p then (handles s p)(ref_desc s r := ref_view (upd_ref_data r f s) r) else handles s q)"
proof -
  note c = same_coreD [OF core]
  have d: "ref_desc s' r = ref_desc s r" by (simp add: ref_desc_def c f)
  have "handles s' q = (if q = p then (handles s p)(ref_desc s r := if ref_live s' r then ref_view s' r else None) else handles s q)"
    by (rule handles_frame [OF inv]) (use r q d in \<open>simp_all add: c\<close>)
  then show ?thesis using r(1) by (simp add: c ref_view_def)
qed

lemma handles_inc:
  assumes inv: "binder_inv s" "binder_inv s'" and r: "ref_live s r" "r_proc (ref_at s r) = p" and core: "same_core s s1"
    and s': "s' = upd_ref_data r (one_more is_strong) s1" and q: "proc_live s q"
  shows "handles s' q = (if q = p then table_update True is_strong (ref_desc s r) (handles s p) else handles s q)"
proof -
  note c = same_coreD [OF core]
  have core': "same_core (upd_ref_data r (one_more is_strong) s) s'"
    using core unfolding s' same_core_def by (simp add: upd_ref_data_def)
  have p: "proc_live s p" using r inv_butD(3) [OF inv(1) r(1)] by (simp add: ref_ok_def Let_def)
  have e: "handles s p (ref_desc s r) = ref_view s r" by (rule handles_ref [OF inv(1) p r])
  obtain n where n: "r_node (ref_at s r) = Some n" using ref_view_live [OF inv(1) r(1)] by auto
  have "ref_view (upd_ref_data r (one_more is_strong) s) r = map_option (count_up is_strong) (ref_view s r)"
    using n by (simp add: ref_view_def)
  then show ?thesis
    using handles_count [OF inv r core' _ q] e n by (simp add: table_update_def ref_view_def)
qed

lemma handles_dec:
  assumes inv: "binder_inv s" "binder_inv s'" and r: "ref_live s r" "r_proc (ref_at s r) = p"
    and core: "same_core (upd_ref_data r (less_one is_strong) s) s'" and q: "proc_live s q"
    and pos: "if is_strong then strong (r_data (ref_at s r)) \<noteq> 0 else weak (r_data (ref_at s r)) \<noteq> 0"
    and still: "strong (less_one is_strong (r_data (ref_at s r))) \<noteq> 0 \<or> weak (less_one is_strong (r_data (ref_at s r))) \<noteq> 0"
  shows "handles s' q = (if q = p then table_update False is_strong (ref_desc s r) (handles s p) else handles s q)"
proof -
  have p: "proc_live s p" using r inv_butD(3) [OF inv(1) r(1)] by (simp add: ref_ok_def Let_def)
  have e: "handles s p (ref_desc s r) = ref_view s r" by (rule handles_ref [OF inv(1) p r])
  obtain n where n: "r_node (ref_at s r) = Some n" using ref_view_live [OF inv(1) r(1)] by auto
  have "ref_view (upd_ref_data r (less_one is_strong) s) r = count_down is_strong (n, strong (r_data (ref_at s r)), weak (r_data (ref_at s r)))"
    using n pos still by (cases is_strong) (simp_all add: ref_view_def Let_def)
  then show ?thesis
    using handles_count [OF inv r core _ q] e n by (simp add: table_update_def ref_view_def)
qed

lemma handles_release:
  assumes inv: "binder_inv s" "binder_inv s'" and r: "ref_live s r" "r_proc (ref_at s r) = p"
    and gone: "ref_live s' = (ref_live s)(r := False)" "\<And>x. x \<noteq> r \<Longrightarrow> ref_at s' x = ref_at s x" "proc_live s' = proc_live s"
    and pos: "if is_strong then strong (r_data (ref_at s r)) \<noteq> 0 else weak (r_data (ref_at s r)) \<noteq> 0"
    and last: "strong (less_one is_strong (r_data (ref_at s r))) = 0" "weak (less_one is_strong (r_data (ref_at s r))) = 0"
    and q: "proc_live s q"
  shows "handles s' q = (if q = p then table_update False is_strong (ref_desc s r) (handles s p) else handles s q)"
proof -
  have p: "proc_live s p" using r inv_butD(3) [OF inv(1) r(1)] by (simp add: ref_ok_def Let_def)
  have e: "handles s p (ref_desc s r) = ref_view s r" by (rule handles_ref [OF inv(1) p r])
  obtain n where n: "r_node (ref_at s r) = Some n" using ref_view_live [OF inv(1) r(1)] by auto
  have "count_down is_strong (n, strong (r_data (ref_at s r)), weak (r_data (ref_at s r))) = None"
    using pos last by (cases is_strong) (simp_all add: Let_def)
  moreover have "handles s' q = (if q = p then (handles s p)(ref_desc s r := if ref_live s' r then ref_view s' r else None) else handles s q)"
    by (rule handles_frame [OF inv gone(3)]) (use gone r q in simp_all)
  ultimately show ?thesis using e n gone(1) by (simp add: table_update_def ref_view_def)
qed

section \<open>The operations on handles\<close>

definition invisible :: "bool \<Rightarrow> handle_entry option \<Rightarrow> bool" where
  "invisible is_strong h \<longleftrightarrow> (case h of None \<Rightarrow> True | Some e \<Rightarrow> \<not> visible is_strong e)"

lemma update_ref:
  assumes rb: "rb_ok rb" and inv: "binder_inv s" and p: "proc_live s p"
  obtains (bad) rd where "binder_update_ref_for_handle rb p d increment is_strong s = Some (Inl EINVAL, rd, s)"
      "invisible is_strong (handles s p d) \<or> increment"
  | (ok) rd s' where "binder_update_ref_for_handle rb p d increment is_strong s = Some (Inr (), rd, s')" "binder_inv s'"
      "same_procs s s'" "\<not> invisible is_strong (handles s p d)"
      "\<And>q. proc_live s q \<Longrightarrow>
         handles s' q = (if q = p then table_update increment is_strong d (handles s p) else handles s q)"
proof (cases "binder_get_ref_olocked p d is_strong s")
  case None
  then show thesis
    using get_ref_olocked_None [OF inv p, of d is_strong]
    by (intro that(1) [of None]) (simp_all add: binder_update_ref_for_handle_def invisible_def)
next
  case (Some r)
  note r = get_ref_olocked [OF inv p Some]
  have vis: "\<not> invisible is_strong (handles s p d)" 
    using Some get_ref_olocked_None [OF inv p, of d is_strong] by (simp add: invisible_def)
  obtain n where n: "r_node (ref_at s r) = Some n" using ref_view_live [OF inv r(1)] by auto
  show thesis
  proof (cases increment)
    case True
    have none: "r \<notin> {}" "target_ok is_strong None n s" by (simp_all add: target_ok_def)
    show thesis
      using inv r(1) n none
    proof (cases rule: inc_ref)
      case err
      then show thesis using that(1) Some True by (simp add: binder_update_ref_for_handle_def)
    next
      case (ok s1 s')
      have "handles s' q = (if q = p then table_update increment is_strong d (handles s p) else handles s q)" if "proc_live s q" for q
        using handles_inc [OF inv ok(2) r(1,2) ok(3) _ that, of is_strong] ok(4) r(3) True by (cases is_strong) simp_all
      moreover have "same_procs s s'" using same_core_procs [OF ok(3)] ok(4) by (simp add: same_procs_def)
      ultimately show thesis using that(2) [OF _ ok(2)] ok(1) Some True vis by (simp add: binder_update_ref_for_handle_def)
    qed
  next
    case False
    show thesis
      using rb inv r(1) n
    proof (cases rule: dec_ref [where is_strong = is_strong])
      case none
      have "table_update False is_strong d (handles s p) = handles s p"
        using none(2) r(4) n by (cases is_strong) (simp_all add: table_update_def ref_view_def Let_def fun_upd_idem)
      then show thesis using that(2) [OF _ inv same_procs_refl vis] none(1) Some False by (simp add: binder_update_ref_for_handle_def Let_def)
    next
      case (keep s')
      have "same_procs s s'" using same_core_procs [OF keep(3)] by (simp add: same_procs_def)
      then show thesis
        using that(2) [OF _ keep(2) _ vis] keep(1) Some False handles_dec [OF inv keep(2) r(1,2) keep(3) _ keep(4,5)] r(3)
        by (simp add: binder_update_ref_for_handle_def Let_def)
    next
      case (gone s2)
      note c = same_coreD [OF gone(3)]
      have r2: "ref_live s2 r" "r_node (ref_at s2 r) = Some n" using r(1) n by (simp_all add: c)
      obtain s3 s' where s3: "binder_cleanup_ref_olocked rb r s2 = Some s3" "binder_free_ref r s3 = Some s'" "binder_inv s'"
        "ref_live s' = (ref_live s2)(r := False)" "\<And>x. x \<noteq> r \<Longrightarrow> ref_at s' x = ref_at s2 x" "same_procs s2 s'"
        by (rule release_ref [OF rb gone(2) r2]) blast
      have procs: "same_procs s s'"
        using same_procs_trans [OF same_core_procs [OF gone(3)] s3(6)] by (simp add: same_procs_def)
      have "handles s' q = (if q = p then table_update False is_strong (ref_desc s r) (handles s p) else handles s q)"
        if "proc_live s q" for q
        using handles_release [OF inv s3(3) r(1,2) _ _ _ gone(4,5,6) that] s3(4,5) procs by (simp add: c same_procs_def)
      then show thesis
        using that(2) [OF _ s3(3) procs vis] gone(1) s3(1,2) Some False r(3) by (simp add: binder_update_ref_for_handle_def Let_def)
    qed
  qed
qed

text \<open>The handle that a process has on a node.\<close>

lemma node_handle:
  assumes inv: "binder_inv s" and p: "proc_live s p"
  shows "rb_search (ref_node_key s) n (refs_by_node (proc_at s p)) = None \<longleftrightarrow> (\<forall>d h. handles s p d = Some h \<longrightarrow> fst h \<noteq> n)"
proof (cases "rb_search (ref_node_key s) n (refs_by_node (proc_at s p))")
  case (Some r)
  note r = get_ref_for_node_old [OF inv p Some]
  have "handles s p (ref_desc s r) = Some (n, strong (r_data (ref_at s r)), weak (r_data (ref_at s r)))"
    using handles_ref [OF inv p r(2,5)] r(4) by (simp add: ref_view_def)
  then show ?thesis using Some by fastforce
next
  case None
  have "fst h \<noteq> n" if h: "handles s p d = Some h" for d h
  proof -
    obtain x where x: "ref_live s x" "r_proc (ref_at s x) = p" "ref_desc s x = d"
      using h handles_None [OF inv p, of d] by auto
    have "x \<in> set (inorder (refs_by_node (proc_at s p)))" using inv_butD(4) [OF inv p] x by (simp add: proc_ok_def Let_def)
    then have "ref_node_key s x \<noteq> n"
      using None rb_search_None [of "ref_node_key s" "refs_by_node (proc_at s p)" n] inv_butD(4) [OF inv p]
      by (auto simp: proc_ok_def Let_def)
    then show ?thesis
      using handles_ref [OF inv p x(1,2)] x(3) h ref_view_live [OF inv x(1)] by (auto simp: ref_view_def ref_node_key_def)
  qed
  then show ?thesis using None by simp
qed

lemma used_handles:
  assumes inv: "binder_inv s" and p: "proc_live s p"
  shows "ref_desc s ` set (inorder (refs_by_desc (proc_at s p))) = dom (handles s p)"
proof -
  have "d \<in> ref_desc s ` set (inorder (refs_by_desc (proc_at s p))) \<longleftrightarrow> handles s p d \<noteq> None" for d
    using handles_None [OF inv p, of d] inv_butD(4) [OF inv p] by (auto simp: proc_ok_def Let_def)
  then show ?thesis by auto
qed

text \<open>Taking a count on a node that the process already has a handle on.\<close>

lemma inc_ref_for_node_old:
  assumes inv: "binder_inv s" and p: "proc_live s p" and t: "target_ok is_strong target n s"
    and h: "handles s p d = Some h" "fst h = n"
  obtains (bad) rd where "binder_inc_ref_for_node rb kz intf p n is_strong target s = Some (Inl EINVAL, rd, s)" "target = None"
  | (ok) rd s' where "binder_inc_ref_for_node rb kz intf p n is_strong target s = Some (Inr (), Some rd, s')" "binder_inv s'"
      "same_procs s s'" "desc rd = d"
      "\<And>q. proc_live s q \<Longrightarrow> handles s' q = (if q = p then (handles s p)(d \<mapsto> count_up is_strong h) else handles s q)"
proof -
  obtain r where f: "rb_search (ref_node_key s) n (refs_by_node (proc_at s p)) = Some r"
    using node_handle [OF inv p, of n] h by (cases "rb_search (ref_node_key s) n (refs_by_node (proc_at s p))") blast+
  note r = get_ref_for_node_old [OF inv p f]
  have d: "ref_desc s r = d"
  proof -
    obtain x where x: "ref_live s x" "r_proc (ref_at s x) = p" "ref_desc s x = d"
      using h handles_None [OF inv p, of d] by auto
    have "ref_node_key s x = n" using handles_ref [OF inv p x(1,2)] x(3) h
      by (cases "r_node (ref_at s x)") (auto simp: ref_view_def ref_node_key_def)
    moreover have "ref_node_key s r = n" using r(4) by (simp add: ref_node_key_def)
    ultimately have "x = r" using inv_butD(4) [OF inv p] x r keyed_inj [of "ref_node_key s" "inorder (refs_by_node (proc_at s p))" x r]
      by (simp add: proc_ok_def Let_def)
    then show ?thesis using x(3) by simp
  qed
  have eq: "binder_inc_ref_for_node rb kz intf p n is_strong target s =
      map_option (\<lambda>(ret, s2). (ret, Some (r_data (ref_at s2 r)), s2)) (binder_inc_ref_olocked r is_strong target s)"
    unfolding binder_inc_ref_for_node_def r(1) by simp
  show thesis
    using inv r(2,4,3) t
  proof (cases rule: inc_ref)
    case err
    then show thesis using eq by (intro that(1)) simp_all
  next
    case (ok s1 s')
    have "table_update True is_strong d (handles s p) = (handles s p)(d \<mapsto> count_up is_strong h)"
      using h(1) by (simp add: table_update_def)
    then have "handles s' q = (if q = p then (handles s p)(d \<mapsto> count_up is_strong h) else handles s q)" if "proc_live s q" for q
      using handles_inc [OF inv ok(2) r(2,5) ok(3) _ that, of is_strong] ok(4) d by (cases is_strong) simp_all
    moreover have "same_procs s s'" using same_core_procs [OF ok(3)] ok(4) by (simp add: same_procs_def)
    moreover have "desc (r_data (ref_at s' r)) = d" using d ok(4) same_coreD(2) [OF ok(3)] by (simp add: ref_desc_def)
    ultimately show thesis using that(2) [OF _ ok(2)] ok(1) eq by simp
  qed
qed

text \<open>The entry of a node: the one the process has, or a fresh one with the least unused handle.\<close>

definition entry_for :: "ptr \<Rightarrow> u32 \<Rightarrow> (u32 \<Rightarrow> handle_entry option) \<Rightarrow> u32 \<Rightarrow> handle_entry \<Rightarrow> bool" where
  "entry_for n d0 tab d h \<longleftrightarrow> (tab d = Some h \<and> fst h = n) \<or>
     (\<forall>e g. tab e = Some g \<longrightarrow> fst g \<noteq> n) \<and> h = (n, 0, 0) \<and> least_unused d0 (dom tab) d"

lemma with_new_simps [simp]:
  "ref_at (with_new new s) = (ref_at s)(new := zero_ref)" "ref_live (with_new new s) = (ref_live s)(new := True)"
  "node_at (with_new new s) = node_at s" "proc_at (with_new new s) = proc_at s" "node_live (with_new new s) = node_live s"
  "proc_live (with_new new s) = proc_live s" "ctx_at (with_new new s) = ctx_at s"
  by (simp_all add: with_new_def)

text \<open>The process still has no reference to the node when it has taken its lock again.\<close>

lemma inc_ref_fresh:
  assumes rb: "rb_ok rb" and inv: "binder_inv t" and p: "proc_live t p" and n: "node_live t n" and new: "\<not> ref_live t new"
    and few: "length (inorder (refs_by_desc (proc_at t p))) < 2 ^ 32 - 1" and tgt: "target_ok is_strong target n t"
    and none: "\<forall>e g. handles t p e = Some g \<longrightarrow> fst g \<noteq> n"
  obtains d ret s4 s' where "binder_get_ref_for_node_olocked rb p n (Some new) (with_new new t) = Some (Some new, s4)"
    "binder_inc_ref_olocked new is_strong target s4 = Some (ret, s')" "binder_inv s'" "same_procs t s'"
    "least_unused (first_desc p n t) (dom (handles t p)) d" "ref_desc s' new = d" "ret = Inr () \<or> ret = Inl EINVAL \<and> target = None"
    "\<And>q. proc_live t q \<Longrightarrow>
      handles s' q = (if q = p then (handles t p)(d \<mapsto> if ret = Inr () then count_up is_strong (n, 0, 0) else (n, 0, 0)) else handles t q)"
proof -
  let ?s3 = "with_new new t"
  have inv3: "inv_but (\<lambda>_. 0) {new} ?s3" by (rule inv_with_new [OF inv new])
  have pok: "proc_ok {} t p" by (rule inv_butD(4) [OF inv p])
  have out: "x \<in> set (inorder (refs_by_desc (proc_at t p))) \<Longrightarrow> x \<noteq> new" "x \<in> set (inorder (refs_by_node (proc_at t p))) \<Longrightarrow> x \<noteq> new" for x
    using pok new by (auto simp: proc_ok_def Let_def)
  have keys: "x \<noteq> new \<Longrightarrow> ref_desc ?s3 x = ref_desc t x" "x \<noteq> new \<Longrightarrow> ref_node_key ?s3 x = ref_node_key t x" for x
    by (simp_all add: ref_desc_def ref_node_key_def)
  have k3: "keyed (ref_node_key ?s3) (inorder (refs_by_node (proc_at ?s3 p)))"
    using inv_butD(4) [OF inv3, of p] p by (simp add: proc_ok_def Let_def)
  have "rb_search (ref_node_key t) n (refs_by_node (proc_at t p)) = None" using node_handle [OF inv p] none by blast
  then have "\<forall>x\<in>set (inorder (refs_by_node (proc_at t p))). ref_node_key t x \<noteq> n"
    using rb_search_None [of "ref_node_key t"] pok by (auto simp: proc_ok_def Let_def)
  then have none3: "rb_search (ref_node_key ?s3) n (refs_by_node (proc_at ?s3 p)) = None"
    unfolding rb_search_None [OF k3] using out(2) keys(2) by (metis with_new_simps(4))
  have used: "ref_desc ?s3 ` set (inorder (refs_by_desc (proc_at ?s3 p))) = dom (handles t p)"
    unfolding used_handles [OF inv p, symmetric] with_new_simps(4) by (rule image_cong [OF refl]) (metis out(1) keys(1))
  have first: "first_desc p n ?s3 = first_desc p n t" by (simp add: first_desc_def context_mgr_of_def)
  have new3: "ref_live ?s3 new" "ref_at ?s3 new = zero_ref" "proc_live ?s3 p" "node_live ?s3 n"
    "length (inorder (refs_by_desc (proc_at ?s3 p))) < 2 ^ 32 - 1" using p n few by simp_all
  obtain d where d: "binder_get_ref_for_node_olocked rb p n (Some new) ?s3 = Some (Some new, new_link rb p n d new ?s3)"
    "binder_inv (new_link rb p n d new ?s3)" "least_unused (first_desc p n t) (dom (handles t p)) d"
    using get_ref_for_node_new [OF rb inv3 new3 none3] unfolding used first by blast
  let ?s4 = "new_link rb p n d new ?s3"
  note S = new_link_simps [of rb p n d new ?s3]
  have r4: "ref_live ?s4 new" "r_node (ref_at ?s4 new) = Some n" "new \<notin> {}" and t4: "target_ok is_strong target n ?s4"
    using tgt by (simp_all add: S target_ok_def split: option.splits)
  have procs4: "same_procs t ?s4" by (simp add: same_procs_def S)
  have tab: "handles s' q = (if q = p then (handles t p)(d := ref_view s' new) else handles t q)"
    if s': "binder_inv s'" "same_core (upd_ref_data new f ?s4) s'" "\<And>x. desc (f x) = desc x" and q: "proc_live t q" for s' f q
  proof -
    note c = same_coreD [OF s'(2)]
    have "handles s' q = (if q = p then (handles t p)(d := if ref_live s' new then ref_view s' new else None) else handles t q)"
      by (rule handles_frame [OF inv s'(1)]) (use new q in \<open>simp_all add: c S ref_desc_def s'(3)\<close>)
    then show ?thesis by (simp add: c S)
  qed
  show thesis
    using d(2) r4 t4
  proof (cases rule: inc_ref)
    case err
    have "ref_view ?s4 new = Some (n, 0, 0)" by (simp add: ref_view_def S zero_ref_def)
    moreover have "same_core (upd_ref_data new (\<lambda>x. x) ?s4) ?s4" by (simp add: upd_ref_data_def upd_ref_def fun_upd_idem)
    ultimately show thesis
      using that [OF d(1) err(1) d(2) procs4 d(3)] err(2) tab [OF d(2), of "\<lambda>x. x"] by (simp add: ref_desc_def S)
  next
    case (ok s1 s')
    note c = same_coreD [OF ok(3)]
    let ?f = "one_more is_strong"
    have s': "s' = upd_ref_data new ?f s1" using ok(4) by (cases is_strong) simp_all
    have "same_core (upd_ref_data new ?f ?s4) s'"
      using ok(3) unfolding s' same_core_def by (simp add: upd_ref_data_def)
    note tb = tab [OF ok(2) this]
    have "ref_view s' new = Some (count_up is_strong (n, 0, 0))"
      unfolding s' by (simp add: ref_view_def c S zero_ref_def)
    moreover have "same_procs t s'"
      using same_procs_trans [OF procs4 same_core_procs [OF ok(3)]] by (simp add: same_procs_def s')
    moreover have "ref_desc s' new = d" unfolding s' by (simp add: ref_desc_def c S)
    ultimately show thesis using that [OF d(1) ok(1,2) _ d(3)] tb by simp
  qed
qed

text \<open>Another thread has created the reference meanwhile: the structure allocated here is freed.\<close>

lemma inc_ref_raced:
  assumes inv: "binder_inv t" and p: "proc_live t p" and new: "\<not> ref_live t new" and tgt: "target_ok is_strong target n t"
    and h: "handles t p d = Some h" "fst h = n"
  obtains r ret s5 where "binder_get_ref_for_node_olocked rb p n (Some new) (with_new new t) = Some (Some r, with_new new t)"
    "r \<noteq> new" "binder_inc_ref_olocked r is_strong target (with_new new t) = Some (ret, s5)"
    "binder_inv (s5\<lparr>ref_live := (ref_live s5)(new := False)\<rparr>)" "same_procs t (s5\<lparr>ref_live := (ref_live s5)(new := False)\<rparr>)"
    "ref_desc s5 r = d" "ret = Inr () \<or> ret = Inl EINVAL \<and> target = None"
    "\<And>q. proc_live t q \<Longrightarrow> handles (s5\<lparr>ref_live := (ref_live s5)(new := False)\<rparr>) q =
      (if q = p then (handles t p)(d \<mapsto> if ret = Inr () then count_up is_strong h else h) else handles t q)"
proof -
  let ?s3 = "with_new new t" and ?drop = "\<lambda>u. u\<lparr>ref_live := (ref_live u)(new := False)\<rparr>"
  have inv3: "inv_but (\<lambda>_. 0) {new} ?s3" by (rule inv_with_new [OF inv new])
  have p3: "proc_live ?s3 p" using p by simp
  obtain x where x: "ref_live t x" "r_proc (ref_at t x) = p" "ref_desc t x = d" using h handles_None [OF inv p, of d] by auto
  have vx: "ref_view t x = Some h" using handles_ref [OF inv p x(1,2)] x(3) h(1) by simp
  then have nx: "r_node (ref_at t x) = Some n" using h(2) by (auto simp: ref_view_def)
  have xn: "x \<noteq> new" using x(1) new by auto
  have tr: "x \<in> set (inorder (refs_by_node (proc_at ?s3 p)))" "ref_node_key ?s3 x = n" "keyed (ref_node_key ?s3) (inorder (refs_by_node (proc_at ?s3 p)))"
    using inv_butD(4) [OF inv3 p3] x nx xn by (auto simp: proc_ok_def Let_def ref_node_key_def)
  then have f: "rb_search (ref_node_key ?s3) n (refs_by_node (proc_at ?s3 p)) = Some x" using rb_search_Some [OF tr(3)] by simp
  note g = get_ref_for_node_old [OF inv3 p3 f]
  have t3: "target_ok is_strong target n ?s3" using tgt by (simp add: target_ok_def split: option.splits)
  have tab: "handles (?drop s5) q = (if q = p then (handles t p)(d := ref_view s5 x) else handles t q)"
    if s5: "binder_inv (?drop s5)" "same_core (upd_ref_data x k ?s3) s5" "\<And>y. desc (k y) = desc y" and q: "proc_live t q" for s5 k q
  proof -
    note c = same_coreD [OF s5(2)]
    have "handles (?drop s5) q = (if q = p then (handles t p)(d := if ref_live (?drop s5) x then ref_view (?drop s5) x else None) else handles t q)"
      by (rule handles_frame [OF inv s5(1)]) (use x q xn new in \<open>auto simp: c ref_desc_def s5(3) upd_ref_data_def\<close>)
    then show ?thesis using x(1) xn by (simp add: c ref_view_def)
  qed
  show thesis
    using inv3 g(2,4,3) t3
  proof (cases rule: inc_ref)
    case err
    have core: "same_core (upd_ref_data x (\<lambda>y. y) ?s3) ?s3" by (simp add: upd_ref_data_def same_core_def fun_upd_idem)
    have i: "binder_inv (?drop ?s3)" by (rule free_new [OF inv3]) simp
    have "ref_view ?s3 x = Some h" using vx xn by (simp add: ref_view_def)
    then show thesis
      using that [OF g(1) xn err(1) i] err(2) tab [OF i core] x(3) xn by (simp add: same_procs_def ref_desc_def)
  next
    case (ok s1 s5)
    note c = same_coreD [OF ok(3)]
    let ?f = "one_more is_strong"
    have s5: "s5 = upd_ref_data x ?f s1" using ok(4) by (cases is_strong) simp_all
    have core: "same_core (upd_ref_data x ?f ?s3) s5"
      using ok(3) unfolding s5 same_core_def by (simp add: upd_ref_data_def)
    have i: "binder_inv (?drop s5)" by (rule free_new [OF ok(2)]) (use xn in \<open>simp add: s5 c\<close>)
    have "ref_view s5 x = Some (count_up is_strong h)" using vx nx xn unfolding s5 by (auto simp: ref_view_def c)
    then show thesis
      using that [OF g(1) xn ok(1) i] tab [OF i core] x(3) xn same_core_procs [OF ok(3)]
      by (simp add: same_procs_def ref_desc_def s5 c)
  qed
qed

section \<open>Taking a reference on a node\<close>

lemma inc_ref_for_node:
  assumes rb: "rb_ok rb" and inv: "binder_inv s" and p: "proc_live s p" and tgt: "target_ok is_strong target n s"
    and none: "\<forall>e g. handles s p e = Some g \<longrightarrow> fst g \<noteq> n" and safe: "safe_interference intf p n s" and new: "\<not> ref_live (intf s) new"
  obtains d h ret rd s' where "binder_inc_ref_for_node rb (Some new) intf p n is_strong target s = Some (ret, Some rd, s')"
    "binder_inv s'" "same_procs (intf s) s'" "entry_for n (first_desc p n (intf s)) (handles (intf s) p) d h" "desc rd = d"
    "ret = Inr () \<or> ret = Inl EINVAL \<and> target = None"
    "\<And>q. proc_live (intf s) q \<Longrightarrow> handles s' q =
      (if q = p then (handles (intf s) p)(d \<mapsto> if ret = Inr () then count_up is_strong h else h) else handles (intf s) q)"
proof -
  let ?t = "intf s"
  have t: "binder_inv ?t" "proc_live ?t p" "node_live ?t n" "length (inorder (refs_by_desc (proc_at ?t p))) < 2 ^ 32 - 1"
    and tgt': "target_ok is_strong target n ?t"
    using safe tgt by (auto simp: safe_interference_def target_ok_def split: option.splits)
  have "rb_search (ref_node_key s) n (refs_by_node (proc_at s p)) = None" using node_handle [OF inv p] none by blast
  then have eq: "binder_inc_ref_for_node rb (Some new) intf p n is_strong target s =
     (case binder_get_ref_for_node_olocked rb p n (Some new) (with_new new ?t) of None \<Rightarrow> None | Some (None, _) \<Rightarrow> None
      | Some (Some r, s4) \<Rightarrow> map_option (\<lambda>(ret, s5). (ret, Some (r_data (ref_at s5 r)),
          if r \<noteq> new then s5\<lparr>ref_live := (ref_live s5)(new := False)\<rparr> else s5)) (binder_inc_ref_olocked r is_strong target s4))"
    by (simp add: binder_inc_ref_for_node_def binder_get_ref_for_node_olocked_def [of rb p n None] Let_def with_new_def)
  show thesis
  proof (cases "\<exists>d h. handles ?t p d = Some h \<and> fst h = n")
    case True
    then obtain d h where h: "handles ?t p d = Some h" "fst h = n" by auto
    show thesis
      by (rule inc_ref_raced [OF t(1,2) new tgt' h, of rb])
        (rule that, use eq h in \<open>auto simp: entry_for_def ref_desc_def\<close>)
  next
    case False
    then have no: "\<forall>e g. handles ?t p e = Some g \<longrightarrow> fst g \<noteq> n" by blast
    show thesis
      by (rule inc_ref_fresh [OF rb t(1,2,3) new t(4) tgt' no])
        (rule that, use eq no in \<open>auto simp: entry_for_def ref_desc_def\<close>)
  qed
qed

end
