(* ===== verification/Binder_Sample.thy ===== *)
theory Binder_Sample
  imports Binder_Handles
begin

text \<open>
  A concrete driver state for examples: process 2 owns node 4, process 3 has handle 1 on it with one
  strong count, thread 6 belongs to process 2 and thread 7 to process 3.
\<close>

definition sample_alloc :: binder_alloc where
  "sample_alloc = \<lparr>vma = None, vma_vm_mm = None, mm_grabs = 0, buffer = 0, buffers = [], bufs = (\<lambda>_. zero_buffer),
     free_buffers = Leaf, allocated_buffers = Leaf, free_async_space = 0, pages = [], buffer_size = 0, pages_high = 0\<rparr>"

definition sample_proc :: "ptr tree \<Rightarrow> ptr tree \<Rightarrow> ptr tree \<Rightarrow> binder_proc" where
  "sample_proc ts ns rs = \<lparr>p_threads = ts, p_nodes = ns, refs_by_desc = rs, refs_by_node = rs, waiting_threads = [], p_pid = 1,
     p_deferred_work = 0, p_is_dead = False, max_threads = 0, requested_threads = 0, requested_threads_started = 0, p_tmp_ref = 0,
     default_priority = 0, p_alloc = sample_alloc, p_context = 0\<rparr>"

definition sample_thread :: "ptr \<Rightarrow> binder_thread" where
  "sample_thread p = \<lparr>t_proc = p, t_pid = 1, looper = 0, looper_need_return = False, transaction_stack = None, process_todo = False,
     return_error_cmd = 0, reply_error_cmd = 0, t_tmp_ref = 0, t_is_dead = False\<rparr>"

definition sample_txn :: binder_transaction where
  "sample_txn = \<lparr>x_debug_id = 0, x_from = None, from_parent = None, to_proc = None, to_thread = None, to_parent = None, need_reply = False,
     x_buffer = None, x_code = 0, x_flags = 0, x_priority = 0, saved_priority = 0, sender_euid = 0, fd_fixups = [], x_security_ctx = 0\<rparr>"

definition sample_node :: binder_node where
  "sample_node = (new_node_fields 2 1 None)\<lparr>tmp_refs := 0, n_refs := [5], internal_strong_refs := 1, has_strong_ref := True, has_weak_ref := True\<rparr>"

definition sample_ref :: binder_ref where
  "sample_ref = \<lparr>r_data = \<lparr>rd_debug_id = 2, desc = 1, strong = 1, weak = 0\<rparr>, r_proc = 3, r_node = Some 4, r_death = None\<rparr>"

definition sample_state :: bstate where
  "sample_state = \<lparr>node_at = (\<lambda>_. sample_node), node_live = (\<lambda>n. n = 4), ref_at = (\<lambda>_. sample_ref), ref_live = (\<lambda>r. r = 5),
     proc_at = (\<lambda>p. if p = 2 then sample_proc (Node Leaf 6 Leaf) (Node Leaf 4 Leaf) Leaf
                     else sample_proc (Node Leaf 7 Leaf) Leaf (Node Leaf 5 Leaf)),
     proc_live = (\<lambda>p. p = 2 \<or> p = 3), thread_at = (\<lambda>t. sample_thread (if t = 6 then 2 else 3)), thread_live = (\<lambda>t. t = 6 \<or> t = 7),
     txn_at = (\<lambda>_. sample_txn), txn_live = (\<lambda>_. False), death_cookie = (\<lambda>_. 0), death_live = (\<lambda>_. False),
     ctx_at = (\<lambda>_. \<lparr>binder_context_mgr_node = None, binder_context_mgr_uid = None\<rparr>),
     wlist = (\<lambda>_. []), wpos = (\<lambda>_. None), wtype = (\<lambda>_. BINDER_WORK_NODE), dead_nodes = [], last_id = 2, woken = [], fput_log = [],
     task_work = [], device_ref = (\<lambda>_. 2), device_live = (\<lambda>_. True), binder_procs = [2, 3],
     binder_deferred_list = []\<rparr>"

lemmas sample_defs = sample_state_def sample_proc_def sample_node_def sample_ref_def sample_thread_def new_node_fields_def

lemma sample_inv: "binder_inv sample_state"
  unfolding inv_but_def work_ok_def node_ok_def ref_ok_def proc_ok_def sole_death_def strong_refs_def
  by (simp add: sample_defs keyed_def Let_def)

lemma sample_live: "proc_live sample_state 2" "proc_live sample_state 3" "node_live sample_state 4"
  by (simp_all add: sample_state_def)

lemma sample_handles: "handles sample_state 3 d = (if d = 1 then Some (4, 1, 0) else None)"
proof -
  have "d = 1" if "\<not> 1 < d" "d \<noteq> 0"
  proof -
    have "unat d \<noteq> 0" "\<not> 1 < unat d" using that by (simp_all add: word_less_nat_alt unat_eq_zero)
    then have "unat d = unat (1 :: u32)" by simp
    then show ?thesis by (simp add: word_unat_eq_iff)
  qed
  then show ?thesis by (auto simp: handles_def sample_defs ref_desc_def ref_view_def)
qed

lemma sample_handles_2: "handles sample_state 2 d = None"
  by (simp add: handles_def sample_defs)

end
