(* ===== verification/Binder_Handle_Props.thy ===== *)
theory Binder_Handle_Props
  imports Binder_Sample
begin

text \<open>
  The properties of nodes and references: the operations on handles refine the operations on the
  table of handles and keep the invariant, the handle of a new reference, and when a node is freed.
\<close>

section \<open>The interface of the handles\<close>

text \<open>
  A client names a handle of a process and asks for a count more or less. The answer is the table
  operation, or \<open>EINVAL\<close> and nothing has changed.
\<close>

locale handle_table =
  fixes tab :: "'s \<Rightarrow> 'p \<Rightarrow> u32 \<Rightarrow> handle_entry option" and upd :: "'p \<Rightarrow> u32 \<Rightarrow> bool \<Rightarrow> bool \<Rightarrow> 's \<Rightarrow> (unit result \<times> 's) option"
    and good :: "'s \<Rightarrow> bool" and live :: "'s \<Rightarrow> 'p \<Rightarrow> bool"
  assumes total: "good s \<Longrightarrow> live s p \<Longrightarrow> \<exists>ret s'. upd p d increment is_strong s = Some (ret, s')"
    and good_kept: "good s \<Longrightarrow> live s p \<Longrightarrow> upd p d increment is_strong s = Some (ret, s') \<Longrightarrow> good s' \<and> live s' = live s"
    and table: "good s \<Longrightarrow> live s p \<Longrightarrow> upd p d increment is_strong s = Some (ret, s') \<Longrightarrow> live s q \<Longrightarrow>
      tab s' q = (if q = p \<and> ret = Inr () then table_update increment is_strong d (tab s p) else tab s q)"
    and result: "good s \<Longrightarrow> live s p \<Longrightarrow> upd p d increment is_strong s = Some (ret, s') \<Longrightarrow>
      ret = Inr () \<and> \<not> invisible is_strong (tab s p d) \<or> ret = Inl EINVAL \<and> s' = s \<and> (invisible is_strong (tab s p d) \<or> increment)"
begin

text \<open>A sequence of commands, each a process, a handle, the direction and the kind of count; it stops at a fault.\<close>

fun run :: "('p \<times> u32 \<times> bool \<times> bool) list \<Rightarrow> 's \<Rightarrow> 's option" where
  "run [] s = Some s"
| "run ((p, d, increment, is_strong) # cs) s = (case upd p d increment is_strong s of None \<Rightarrow> None | Some (_, s') \<Rightarrow> run cs s')"

lemma run_total:
  assumes "good s" "\<forall>c\<in>set cs. live s (fst c)"
  shows "\<exists>s'. run cs s = Some s' \<and> good s' \<and> live s' = live s \<and> (\<forall>q. live s q \<and> q \<notin> fst ` set cs \<longrightarrow> tab s' q = tab s q)"
  using assms
proof (induction cs s rule: run.induct)
  case (2 p d increment is_strong cs s)
  have p: "live s p" using "2.prems"(2) by simp
  obtain ret s1 where u: "upd p d increment is_strong s = Some (ret, s1)" using total [OF "2.prems"(1) p] by blast
  have g: "good s1" "live s1 = live s" using good_kept [OF "2.prems"(1) p u] by auto
  obtain s' where s': "run cs s1 = Some s'" "good s'" "live s' = live s1"
    "\<forall>q. live s1 q \<and> q \<notin> fst ` set cs \<longrightarrow> tab s' q = tab s1 q"
    using "2.IH" [OF u refl g(1)] "2.prems"(2) g(2) by auto
  then show ?case using u g table [OF "2.prems"(1) p u] by auto
qed simp

text \<open>A count that was taken can be given back, and the tables are as before.\<close>

lemma round_trip:
  assumes g: "good s" and p: "live s p" and i: "upd p d True is_strong s = Some (Inr (), s1)"
    and nn: "\<And>n st wk. tab s p d = Some (n, st, wk) \<Longrightarrow> 0 \<le> st \<and> 0 \<le> wk \<and> (st \<noteq> 0 \<or> wk \<noteq> 0)"
  obtains s2 where "upd p d False is_strong s1 = Some (Inr (), s2)" "good s2" "\<And>q. live s q \<Longrightarrow> tab s2 q = tab s q"
proof -
  have g1: "good s1" "live s1 = live s" using good_kept [OF g p i] by auto
  have p1: "live s1 p" using p g1(2) by simp
  obtain n st wk where h: "tab s p d = Some (n, st, wk)"
    using result [OF g p i] by (cases "tab s p d") (auto simp: invisible_def)
  have t1: "tab s1 p = (tab s p)(d \<mapsto> count_up is_strong (n, st, wk))"
    using table [OF g p i p] h by (simp add: table_update_def)
  obtain ret s2 where u: "upd p d False is_strong s1 = Some (ret, s2)" using total [OF g1(1) p1] by blast
  have "\<not> invisible is_strong (tab s1 p d)" using nn [OF h] by (simp add: t1 invisible_def)
  then have ret: "ret = Inr ()" using result [OF g1(1) p1 u] by auto
  have "table_update False is_strong d (tab s1 p) = tab s p"
    using nn [OF h] h by (cases is_strong) (auto simp: t1 table_update_def Let_def fun_eq_iff)
  then show thesis
    using that [of s2] u ret good_kept [OF g1(1) p1 u] table [OF g1(1) p1 u] table [OF g p i] g1(2) by auto
qed

end

definition update_handle :: "rb_ops \<Rightarrow> ptr \<Rightarrow> u32 \<Rightarrow> bool \<Rightarrow> bool \<Rightarrow> bstate \<Rightarrow> (unit result \<times> bstate) option" where
  "update_handle rb p d increment is_strong s =
     map_option (\<lambda>(ret, _, s'). (ret, s')) (binder_update_ref_for_handle rb p d increment is_strong s)"

lemma handle_table_update:
  assumes rb: "rb_ok rb"
  shows "handle_table handles (update_handle rb) binder_inv proc_live"
proof
  fix s p d increment is_strong
  assume a: "binder_inv s" "proc_live s p"
  note E = update_ref [OF rb a, of d increment is_strong]
  show "\<exists>ret s'. update_handle rb p d increment is_strong s = Some (ret, s')"
    by (rule E) (simp_all add: update_handle_def)
  fix ret s'
  assume u: "update_handle rb p d increment is_strong s = Some (ret, s')"
  show "binder_inv s' \<and> proc_live s' = proc_live s"
    by (rule E) (use u a in \<open>simp_all add: update_handle_def same_procs_def\<close>)
  show "handles s' q = (if q = p \<and> ret = Inr () then table_update increment is_strong d (handles s p) else handles s q)"
    if "proc_live s q" for q
    by (rule E) (use u that in \<open>auto simp: update_handle_def\<close>)
  show "ret = Inr () \<and> \<not> invisible is_strong (handles s p d) \<or>
      ret = Inl EINVAL \<and> s' = s \<and> (invisible is_strong (handles s p d) \<or> increment)"
    by (rule E) (use u in \<open>auto simp: update_handle_def\<close>)
qed

interpretation plain: handle_table handles "update_handle plain_rb" binder_inv proc_live
  by (rule handle_table_update [OF plain_rb_ok])

fun run_handles :: "rb_ops \<Rightarrow> (ptr \<times> u32 \<times> bool \<times> bool) list \<Rightarrow> bstate \<Rightarrow> bstate option" where
  "run_handles rb [] s = Some s"
| "run_handles rb ((p, d, increment, is_strong) # cs) s =
     (case update_handle rb p d increment is_strong s of None \<Rightarrow> None | Some (_, s') \<Rightarrow> run_handles rb cs s')"

lemma run_handles_run: "rb_ok rb \<Longrightarrow> run_handles rb cs s = handle_table.run (update_handle rb) cs s"
  by (induction rb cs s rule: run_handles.induct)
    (simp_all add: handle_table.run.simps [OF handle_table_update] split: option.splits prod.splits)

section \<open>Properties\<close>



lemma counts_nonneg:
  assumes "binder_inv s" "proc_live s p" "handles s p d = Some (n, st, wk)"
  shows "0 \<le> st \<and> 0 \<le> wk"
proof -
  obtain r where r: "ref_live s r" "r_proc (ref_at s r) = p" "ref_desc s r = d"
    using assms(3) handles_None [OF assms(1,2), of d] by auto
  then have "ref_view s r = Some (n, st, wk)" using handles_ref [OF assms(1,2) r(1,2)] assms(3) by simp
  then show ?thesis using inv_butD(3) [OF assms(1) r(1)] by (auto simp: ref_ok_def Let_def ref_view_def)
qed




text \<open>
  Any sequence of such commands by live processes runs to its end without a fault, and the handles
  of a process that issues none of them stay as they are.
\<close>

theorem handle_commands_safe:
  assumes "rb_ok rb" "binder_inv s" "\<forall>c\<in>set cs. proc_live s (fst c)"
  shows "\<exists>s'. run_handles rb cs s = Some s' \<and> binder_inv s' \<and> (\<forall>q. proc_live s q \<and> q \<notin> fst ` set cs \<longrightarrow> handles s' q = handles s q)"
  using handle_table.run_total [OF handle_table_update [OF assms(1)] assms(2,3)] run_handles_run [OF assms(1)] by metis

theorem handle_commands_safe_witness:
  "\<exists>s'. run_handles plain_rb [(3, 1, True, False), (3, 1, False, True), (3, 7, False, False)] sample_state = Some s' \<and> binder_inv s' \<and>
     handles s' 2 = handles sample_state 2"
  using handle_commands_safe [OF plain_rb_ok sample_inv, of "[(3, 1, True, False), (3, 1, False, True), (3, 7, False, False)]"] sample_live
  by auto

text \<open>
  A count that was taken through a handle can be given back through it, and then all tables are as before.
\<close>

theorem handle_round_trip:
  assumes "rb_ok rb" "binder_inv s" "proc_live s p" "handles s p d = Some (n, st, wk)" "st \<noteq> 0 \<or> wk \<noteq> 0"
    and "update_handle rb p d True is_strong s = Some (Inr (), s1)"
  shows "\<exists>s2. update_handle rb p d False is_strong s1 = Some (Inr (), s2) \<and> binder_inv s2 \<and> (\<forall>q. proc_live s q \<longrightarrow> handles s2 q = handles s q)"
proof -
  have nn: "0 \<le> st' \<and> 0 \<le> wk' \<and> (st' \<noteq> 0 \<or> wk' \<noteq> 0)" if "handles s p d = Some (n', st', wk')" for n' st' wk'
    using counts_nonneg [OF assms(2,3) that] that assms(4,5) by simp
  show ?thesis
    by (rule handle_table.round_trip [OF handle_table_update [OF assms(1)] assms(2,3,6) nn]) blast+
qed

theorem handle_round_trip_witness:
  "\<exists>s1 s2. update_handle plain_rb 3 1 True True sample_state = Some (Inr (), s1) \<and>
     update_handle plain_rb 3 1 False True s1 = Some (Inr (), s2) \<and> handles s2 3 = handles sample_state 3"
proof -
  obtain s1 where s1: "update_handle plain_rb 3 1 True True sample_state = Some (Inr (), s1)"
    by (simp add: update_handle_def binder_update_ref_for_handle_def binder_get_ref_olocked_def binder_inc_ref_olocked_def sample_defs ref_desc_def)
  show ?thesis
    using handle_round_trip [OF plain_rb_ok sample_inv sample_live(2) _ _ s1, of 4 1 0] s1 sample_live by (auto simp: sample_handles)
qed

text \<open>
  C16. When a process that has no handle on a node takes a reference to it, the state stays consistent
  whatever other threads did during the allocation, and the process gets an entry for the node: the
  one another thread has made, or a new one at the least unused handle, from 0 on for the context
  manager and from 1 on for every other node. The handle is reported to the caller, the count of the
  entry is one more on success, and only that entry changes.
\<close>

theorem new_handle_least:
  assumes "rb_ok rb" "binder_inv s" "proc_live s p" "\<forall>e g. handles s p e = Some g \<longrightarrow> fst g \<noteq> n" "safe_interference intf p n s"
    and "\<not> ref_live (intf s) new" "target_ok is_strong target n s"
  shows "\<exists>d h ret rd s'. binder_inc_ref_for_node rb (Some new) intf p n is_strong target s = Some (ret, Some rd, s') \<and>
    binder_inv s' \<and> desc rd = d \<and> (ret = Inr () \<or> ret = Inl EINVAL \<and> target = None) \<and>
    entry_for n (if context_mgr_of (intf s) p = Some n then 0 else 1) (handles (intf s) p) d h \<and>
    (\<forall>q. proc_live (intf s) q \<longrightarrow> handles s' q =
       (if q = p then (handles (intf s) p)(d \<mapsto> if ret = Inr () then count_up is_strong h else h) else handles (intf s) q))"
  unfolding first_desc_def [symmetric] by (rule inc_ref_for_node [OF assms(1-3,7,4-6)]) blast

theorem new_handle_least_witness:
  "\<exists>d h ret rd s'. binder_inc_ref_for_node plain_rb (Some 8) id 2 4 True None sample_state = Some (ret, Some rd, s') \<and>
    binder_inv s' \<and> desc rd = d \<and> entry_for 4 1 (handles sample_state 2) d h"
proof -
  have "safe_interference id 2 4 sample_state" using sample_inv sample_live by (simp add: safe_interference_def sample_defs)
  moreover have "\<not> ref_live (id sample_state) 8" "target_ok True None 4 sample_state" "context_mgr_of (id sample_state) 2 \<noteq> Some 4"
    by (simp_all add: sample_state_def target_ok_def context_mgr_of_def)
  ultimately show ?thesis
    using new_handle_least [OF plain_rb_ok sample_inv sample_live(1), of 4 id 8 True None] by (simp add: sample_handles_2) blast
qed

text \<open>
  When the very first count on a node is refused, \<open>binder_inc_ref_for_node\<close> reports the error but leaves the new
  reference behind: an entry with no counts, which dropping a count through that handle does not remove.
\<close>

theorem refused_reference_stays:
  assumes "rb_ok rb" "binder_inv s" "proc_live s p" "\<forall>e g. handles s p e = Some g \<longrightarrow> fst g \<noteq> n" "safe_interference id p n s"
    and "\<not> ref_live s new" "binder_inc_ref_for_node rb (Some new) id p n is_strong None s = Some (Inl EINVAL, rd, s')"
  shows "\<exists>d. handles s p d = None \<and> handles s' p d = Some (n, 0, 0) \<and>
    (\<forall>st. \<exists>ret rd' s''. binder_update_ref_for_handle rb p d False st s' = Some (ret, rd', s'') \<and> handles s'' p d = Some (n, 0, 0))"
proof -
  have t: "target_ok is_strong None n s" by (simp add: target_ok_def)
  have safe: "\<not> ref_live (id s) new" using assms(6) by simp
  obtain d h ret rd0 s0 where i: "binder_inc_ref_for_node rb (Some new) id p n is_strong None s = Some (ret, Some rd0, s0)"
    "binder_inv s0" "same_procs (id s) s0" "entry_for n (first_desc p n (id s)) (handles (id s) p) d h"
    "\<And>q. proc_live (id s) q \<Longrightarrow> handles s0 q = (if q = p then (handles (id s) p)(d \<mapsto> if ret = Inr () then count_up is_strong h else h)
      else handles (id s) q)"
    by (rule inc_ref_for_node [OF assms(1-3) t assms(4,5) safe]) blast
  have "s0 = s'" "ret = Inl EINVAL" using i(1) assms(7) by simp_all
  then have d: "binder_inv s'" "same_procs s s'" "entry_for n (first_desc p n s) (handles s p) d h" "handles s' p = (handles s p)(d \<mapsto> h)"
    using i(2-5) assms(3) by simp_all
  have "\<not> (handles s p d = Some h \<and> fst h = n)" using assms(4) by blast
  then have h: "h = (n, 0, 0)" "handles s p d = None" 
    using d(3) unfolding entry_for_def least_unused_def domIff by blast+
  have p: "proc_live s' p" using d(2) assms(3) by (simp add: same_procs_def)
  have "\<exists>ret rd' s''. binder_update_ref_for_handle rb p d False st s' = Some (ret, rd', s'') \<and> handles s'' p d = Some (n, 0, 0)" for st
    using assms(1) d(1) p
  proof (cases rule: update_ref [where d = d and increment = False and is_strong = st])
    case (ok rd1 s1)
    then show ?thesis using d(4) h p by (auto simp: table_update_def)
  qed (use d(4) h in auto)
  then show ?thesis using d(4) h by auto
qed

definition silent_state :: bstate where
  "silent_state = upd_node 4 (\<lambda>nd. nd\<lparr>has_weak_ref := False\<rparr>) sample_state"

theorem refused_reference_stays_witness:
  "\<exists>rd s' d. binder_inc_ref_for_node plain_rb (Some 8) id 2 4 False None silent_state = Some (Inl EINVAL, rd, s') \<and>
     handles s' 2 d = Some (4, 0, 0)"
proof -
  have "inv_but ((\<lambda>_. 0)(4 := 0 + 0)) {} silent_state"
    unfolding silent_state_def by (rule inv_but_count [OF sample_inv]) (simp_all add: sample_defs)
  then have inv: "binder_inv silent_state" by (simp add: fun_upd_idem)
  have live: "proc_live silent_state 2" "proc_live silent_state 3" "node_live silent_state 4" "\<not> ref_live silent_state 8"
    by (simp_all add: silent_state_def sample_state_def)
  have none: "handles silent_state 2 d = None" for d by (simp add: handles_def silent_state_def sample_defs)
  have safe: "safe_interference id 2 4 silent_state" using inv live by (simp add: safe_interference_def silent_state_def sample_defs)
  obtain rd s' where r: "binder_inc_ref_for_node plain_rb (Some 8) id 2 4 False None silent_state = Some (Inl EINVAL, rd, s')"
    by (simp add: binder_inc_ref_for_node_def binder_get_ref_for_node_olocked_def binder_inc_ref_olocked_def binder_inc_node_def
        binder_inc_node_nilocked_def silent_state_def sample_defs Let_def zero_ref_def)
  then show ?thesis
    using refused_reference_stays [OF plain_rb_ok inv live(1) _ safe live(4) r] none by (metis option.distinct(1))
qed

text \<open>Whether a node has no reference, no count and no claim that its owner was told of.\<close>

definition node_unused :: "bstate \<Rightarrow> ptr \<Rightarrow> bool" where
  "node_unused s n \<longleftrightarrow> (let nd = node_at s n in n_refs nd = [] \<and> local_strong_refs nd = 0 \<and> local_weak_refs nd = 0 \<and> tmp_refs nd = 0 \<and>
     (n_proc nd = None \<or> \<not> has_strong_ref nd \<and> \<not> has_weak_ref nd))"

lemma dec_node_check_free: "dec_node_check rb n s = Some (free, s') \<Longrightarrow> free \<longleftrightarrow> node_unused s n"
  by (auto simp: dec_node_check_def node_unused_def Let_def split: option.splits if_splits)

text \<open>
  Dropping the temporary reference of a node (\<open>binder_put_node\<close>) never faults and keeps the invariant; the node is
  freed exactly when it has become unused, and then no reference of any process refers to it. Every other
  node stays.
\<close>

theorem put_node_frees_unused:
  assumes "rb_ok rb" "binder_inv s" "node_live s n" "0 < tmp_refs (node_at s n)"
  shows "\<exists>s'. binder_put_node rb n s = Some s' \<and> binder_inv s' \<and> (\<forall>m. m \<noteq> n \<longrightarrow> node_live s' m = node_live s m) \<and>
    (\<not> node_live s' n \<longleftrightarrow> node_unused (upd_node n (\<lambda>nd. nd\<lparr>tmp_refs := tmp_refs nd - 1\<rparr>) s) n) \<and>
    (\<not> node_live s' n \<longrightarrow> (\<forall>r. ref_live s' r \<longrightarrow> r_node (ref_at s' r) \<noteq> Some n))"
proof -
  let ?s1 = "upd_node n (\<lambda>nd. nd\<lparr>tmp_refs := tmp_refs nd - 1\<rparr>) s"
  have ok: "node_ok 0 {} s n" using inv_butD(2) [OF assms(2,3)] by simp
  have "inv_but ((\<lambda>_. 0)(n := 0 + 0)) {} ?s1"
    by (rule inv_but_count [OF assms(2)]) (use ok assms(4) in \<open>auto simp: node_ok_def Let_def\<close>)
  then have inv1: "binder_inv ?s1" by (simp add: fun_upd_idem)
  have eq: "binder_put_node rb n s = binder_dec_node rb n False True ?s1"
    using assms(4) by (simp add: binder_put_node_def binder_dec_node_tmpref_def binder_dec_node_def Let_def)
  have same: "upd_node n (lowered False True) ?s1 = ?s1" by (simp add: lowered_def upd_node_def)
  have free_iff: "free \<longleftrightarrow> node_unused ?s1 n" if "binder_dec_node_nilocked rb n False True ?s1 = Some (free, u)" for free u
    using that dec_node_check_free [of rb n ?s1] unfolding dec_node_unfold Let_def same
    by (auto simp: node_unused_def Let_def split: if_splits)
  have gone: "\<forall>r. ref_live s' r \<longrightarrow> r_node (ref_at s' r) \<noteq> Some n" if "binder_inv s'" "\<not> node_live s' n" for s'
    using that(2) inv_butD(3) [OF that(1)] by (fastforce simp: ref_ok_def Let_def)
  have n1: "node_live ?s1 n" "may_lower False True (node_at ?s1 n)" using assms(3) by (simp_all add: may_lower_def)
  show ?thesis
    using assms(1) inv1 n1
  proof (cases rule: dec_node_nilocked)
    case (keep s')
    then show ?thesis
      using eq free_iff [OF keep(1)] same_coreD(1) [OF keep(3)] assms(3) by (simp add: binder_dec_node_def fun_upd_idem)
  next
    case (free s')
    have "binder_free_node n s' = Some (hide_node n s')" using n1(1) free(5) by (simp add: binder_free_node_def hide_node_def)
    then show ?thesis
      using eq free_iff [OF free(1)] free gone [of "hide_node n s'"] by (simp add: binder_dec_node_def fun_upd_idem)
  qed
qed

definition held_state :: bstate where
  "held_state = binder_inc_node_tmpref 4 sample_state"

theorem put_node_frees_unused_witness:
  "\<exists>s'. binder_put_node plain_rb 4 held_state = Some s' \<and> binder_inv s' \<and> node_live s' 4"
proof -
  have "inv_but ((\<lambda>_. 0)(4 := 0 + 0)) {} held_state"
    unfolding held_state_def binder_inc_node_tmpref_def binder_inc_node_tmpref_ilocked_def
    by (rule inv_but_count [OF sample_inv]) (simp_all add: sample_defs)
  then have inv: "binder_inv held_state" by (simp add: fun_upd_idem)
  have live: "node_live held_state 4" "0 < tmp_refs (node_at held_state 4)"
    "\<not> node_unused (upd_node 4 (\<lambda>nd. nd\<lparr>tmp_refs := tmp_refs nd - 1\<rparr>) held_state) 4"
    by (simp_all add: held_state_def binder_inc_node_tmpref_def binder_inc_node_tmpref_ilocked_def sample_defs node_unused_def)
  show ?thesis using put_node_frees_unused [OF plain_rb_ok inv live(1,2)] live(3) by blast
qed

end
