(* ===== verification/Binder_Txn.thy ===== *)
theory Binder_Txn
  imports Binder_Ref
begin

text \<open>
  Transactions: the stack of a thread, the temporary references that keep threads and processes alive,
  tearing a transaction down, and the failed reply that is sent up the chain of callers. \<open>None\<close> is a
  \<open>BUG_ON\<close>, the free of a dead object or, for the loop, that it never ends.
\<close>

section \<open>Commands and flags\<close>

definition TF_ONE_WAY :: u32 where "TF_ONE_WAY = 0x01"
definition TF_ACCEPT_FDS :: u32 where "TF_ACCEPT_FDS = 0x10"
definition BR_OK :: u32 where "BR_OK = 0x7201"
definition BR_DEAD_REPLY :: u32 where "BR_DEAD_REPLY = 0x7205"
definition BR_FAILED_REPLY :: u32 where "BR_FAILED_REPLY = 0x7211"

definition oneway :: "bstate \<Rightarrow> ptr \<Rightarrow> bool" where
  "oneway s t \<longleftrightarrow> x_flags (txn_at s t) AND TF_ONE_WAY \<noteq> 0"

section \<open>Freeing processes and threads\<close>

text \<open>The task and the credentials that a process holds are not part of the state.\<close>

definition binder_free_proc :: "rb_ops \<Rightarrow> alloc_env \<Rightarrow> ptr \<Rightarrow> bstate \<Rightarrow> bstate option" where
  "binder_free_proc rb env p s =
     (if wlist s (ProcTodo p) \<noteq> [] \<or> wlist s (DeliveredDeath p) \<noteq> [] then None
      else
        (let c = p_context (proc_at s p);
             s1 = s\<lparr>device_ref := (device_ref s)(c := device_ref s c - 1)\<rparr>;
             s2 = (if device_ref s1 c = 0 then s1\<lparr>device_live := (device_live s1)(c := False)\<rparr> else s1)
         in case binder_alloc_deferred_release rb env (p_alloc (proc_at s2 p)) of None \<Rightarrow> None
            | Some (_, _, al) \<Rightarrow>
                if proc_live s2 p
                then Some ((upd_proc p (\<lambda>pr. pr\<lparr>p_alloc := al\<rparr>) s2)\<lparr>proc_live := (proc_live s2)(p := False)\<rparr>) else None))"

definition binder_proc_dec_tmpref :: "rb_ops \<Rightarrow> alloc_env \<Rightarrow> ptr \<Rightarrow> bstate \<Rightarrow> bstate option" where
  "binder_proc_dec_tmpref rb env p s =
     (let s1 = upd_proc p (\<lambda>pr. pr\<lparr>p_tmp_ref := p_tmp_ref pr - 1\<rparr>) s; pr = proc_at s1 p in
      if p_is_dead pr \<and> p_threads pr = Leaf \<and> p_tmp_ref pr = 0 then binder_free_proc rb env p s1 else Some s1)"

definition binder_free_thread :: "rb_ops \<Rightarrow> alloc_env \<Rightarrow> ptr \<Rightarrow> bstate \<Rightarrow> bstate option" where
  "binder_free_thread rb env t s =
     (if wlist s (ThreadTodo t) \<noteq> [] then None
      else case binder_proc_dec_tmpref rb env (t_proc (thread_at s t)) s of None \<Rightarrow> None
      | Some s1 \<Rightarrow> if thread_live s1 t then Some (s1\<lparr>thread_live := (thread_live s1)(t := False)\<rparr>) else None)"

definition binder_thread_dec_tmpref :: "rb_ops \<Rightarrow> alloc_env \<Rightarrow> ptr \<Rightarrow> bstate \<Rightarrow> bstate option" where
  "binder_thread_dec_tmpref rb env t s =
     (let s1 = upd_thread t (\<lambda>th. th\<lparr>t_tmp_ref := t_tmp_ref th - 1\<rparr>) s; th = thread_at s1 t in
      if t_is_dead th \<and> t_tmp_ref th = 0 then binder_free_thread rb env t s1 else Some s1)"

section \<open>The sender of a transaction\<close>

definition binder_get_txn_from :: "ptr \<Rightarrow> bstate \<Rightarrow> ptr option \<times> bstate" where
  "binder_get_txn_from t s =
     (case x_from (txn_at s t) of None \<Rightarrow> (None, s)
      | Some from \<Rightarrow> (Some from, upd_thread from (\<lambda>th. th\<lparr>t_tmp_ref := t_tmp_ref th + 1\<rparr>) s))"

text \<open>\<open>intf\<close> is what other threads do before the inner lock of the sender's process is taken.\<close>

definition binder_get_txn_from_and_acq_inner ::
    "rb_ops \<Rightarrow> alloc_env \<Rightarrow> (bstate \<Rightarrow> bstate) \<Rightarrow> ptr \<Rightarrow> bstate \<Rightarrow> (ptr option \<times> bstate) option" where
  "binder_get_txn_from_and_acq_inner rb env intf t s =
     (case binder_get_txn_from t s of
        (None, s1) \<Rightarrow> Some (None, s1)
      | (Some from, s1) \<Rightarrow>
          (let s2 = intf s1 in
           case x_from (txn_at s2 t) of
             Some from' \<Rightarrow> if from \<noteq> from' then None else Some (Some from, s2)
           | None \<Rightarrow> map_option (\<lambda>s3. (None, s3)) (binder_thread_dec_tmpref rb env from s2)))"

definition binder_pop_transaction_ilocked :: "ptr option \<Rightarrow> ptr \<Rightarrow> bstate \<Rightarrow> bstate option" where
  "binder_pop_transaction_ilocked target_thread t s =
     (case target_thread of None \<Rightarrow> None
      | Some th \<Rightarrow>
          if transaction_stack (thread_at s th) \<noteq> Some t then None
          else if x_from (txn_at s t) \<noteq> Some th then None
          else Some (upd_txn t (\<lambda>x. x\<lparr>x_from := None\<rparr>)
                 (upd_thread th (\<lambda>r. r\<lparr>transaction_stack := from_parent (txn_at s t)\<rparr>) s)))"

section \<open>Freeing a transaction\<close>

definition binder_free_txn_fixups :: "ptr \<Rightarrow> bstate \<Rightarrow> bstate" where
  "binder_free_txn_fixups t s =
     upd_txn t (\<lambda>x. x\<lparr>fd_fixups := []\<rparr>) (s\<lparr>fput_log := fput_log s @ map fst (fd_fixups (txn_at s t))\<rparr>)"

definition upd_buf :: "ptr \<Rightarrow> ptr \<Rightarrow> (binder_buffer \<Rightarrow> binder_buffer) \<Rightarrow> bstate \<Rightarrow> bstate" where
  "upd_buf p b f s = upd_proc p (\<lambda>pr. pr\<lparr>p_alloc := set_buf b (f (bufs (p_alloc pr) b)) (p_alloc pr)\<rparr>) s"

definition binder_free_transaction :: "ptr \<Rightarrow> bstate \<Rightarrow> bstate option" where
  "binder_free_transaction t s =
     (let x = txn_at s t;
          s1 = (case (to_proc x, x_buffer x) of
                  (Some _, Some (p, b)) \<Rightarrow> upd_buf p b (\<lambda>bf. bf\<lparr>b_transaction := None\<rparr>) s
                | _ \<Rightarrow> s);
          s2 = binder_free_txn_fixups t s1
      in if txn_live s2 t then Some (s2\<lparr>txn_live := (txn_live s2)(t := False)\<rparr>) else None)"

section \<open>Failed replies\<close>

text \<open>What happens to the thread that waits for the reply.\<close>

definition fail_caller :: "rb_ops \<Rightarrow> alloc_env \<Rightarrow> u32 \<Rightarrow> ptr \<Rightarrow> ptr \<Rightarrow> bstate \<Rightarrow> bstate option" where
  "fail_caller rb env error_code th t s =
     (case binder_pop_transaction_ilocked (Some th) t s of None \<Rightarrow> None
      | Some s1 \<Rightarrow>
        (case (if reply_error_cmd (thread_at s1 th) = BR_OK
               then map_option (wake_up_interruptible False th)
                      (binder_enqueue_thread_work_ilocked th (ReplyErrorWork th)
                        (upd_thread th (\<lambda>r. r\<lparr>reply_error_cmd := error_code\<rparr>) s1))
               else Some s1) of None \<Rightarrow> None
         | Some s2 \<Rightarrow>
           (case binder_thread_dec_tmpref rb env th s2 of None \<Rightarrow> None
            | Some s3 \<Rightarrow> binder_free_transaction t s3)))"

partial_function (option) send_failed_reply_loop ::
    "rb_ops \<Rightarrow> alloc_env \<Rightarrow> (bstate \<Rightarrow> bstate) \<Rightarrow> u32 \<Rightarrow> ptr \<Rightarrow> bstate \<Rightarrow> bstate option" where
  "send_failed_reply_loop rb env intf error_code t s =
     (case binder_get_txn_from_and_acq_inner rb env intf t s of None \<Rightarrow> None
      | Some (target_thread, s1) \<Rightarrow>
        (case target_thread of Some th \<Rightarrow> fail_caller rb env error_code th t s1
         | None \<Rightarrow>
           (case binder_free_transaction t s1 of None \<Rightarrow> None
            | Some s2 \<Rightarrow>
              (case from_parent (txn_at s1 t) of None \<Rightarrow> Some s2
               | Some t' \<Rightarrow> send_failed_reply_loop rb env intf error_code t' s2))))"

definition binder_send_failed_reply ::
    "rb_ops \<Rightarrow> alloc_env \<Rightarrow> (bstate \<Rightarrow> bstate) \<Rightarrow> ptr \<Rightarrow> u32 \<Rightarrow> bstate \<Rightarrow> bstate option" where
  "binder_send_failed_reply rb env intf t error_code s =
     (if oneway s t then None else send_failed_reply_loop rb env intf error_code t s)"

definition buf_at :: "bstate \<Rightarrow> ptr \<times> ptr \<Rightarrow> binder_buffer" where
  "buf_at s pb = bufs (p_alloc (proc_at s (fst pb))) (snd pb)"

definition binder_cleanup_transaction ::
    "rb_ops \<Rightarrow> alloc_env \<Rightarrow> (bstate \<Rightarrow> bstate) \<Rightarrow> ptr \<Rightarrow> u32 \<Rightarrow> bstate \<Rightarrow> bstate option" where
  "binder_cleanup_transaction rb env intf t error_code s =
     (case x_buffer (txn_at s t) of None \<Rightarrow> None
      | Some pb \<Rightarrow>
          if b_target_node (buf_at s pb) \<noteq> None \<and> \<not> oneway s t then binder_send_failed_reply rb env intf t error_code s
          else binder_free_transaction t s)"

end
