(* ===== verification/Binder_Txn_Props.thy ===== *)
theory Binder_Txn_Props
  imports Binder_Txn Binder_Sample
begin

text \<open>
  The failed reply: it goes up the chain of transactions whose sender is gone, frees each of them and
  reports the error to the first caller that still waits.
\<close>

section \<open>Frames\<close>

lemma upd_txn_simps [simp]:
  "txn_at (upd_txn t f s) = (txn_at s)(t := f (txn_at s t))" "txn_live (upd_txn t f s) = txn_live s"
  "thread_at (upd_txn t f s) = thread_at s" "wlist (upd_txn t f s) = wlist s" "wpos (upd_txn t f s) = wpos s"
  "woken (upd_txn t f s) = woken s" "fput_log (upd_txn t f s) = fput_log s" "thread_live (upd_txn t f s) = thread_live s"
  by (simp_all add: upd_txn_def)

lemma upd_thread_simps [simp]:
  "thread_at (upd_thread t g s) = (thread_at s)(t := g (thread_at s t))" "txn_at (upd_thread t g s) = txn_at s"
  "txn_live (upd_thread t g s) = txn_live s" "wlist (upd_thread t g s) = wlist s" "wpos (upd_thread t g s) = wpos s"
  "woken (upd_thread t g s) = woken s" "fput_log (upd_thread t g s) = fput_log s" "thread_live (upd_thread t g s) = thread_live s"
  by (simp_all add: upd_thread_def)

lemma upd_buf_simps [simp]:
  "txn_at (upd_buf p b f s) = txn_at s" "txn_live (upd_buf p b f s) = txn_live s" "thread_at (upd_buf p b f s) = thread_at s"
  "wlist (upd_buf p b f s) = wlist s" "wpos (upd_buf p b f s) = wpos s" "woken (upd_buf p b f s) = woken s"
  "fput_log (upd_buf p b f s) = fput_log s" "thread_live (upd_buf p b f s) = thread_live s"
  by (simp_all add: upd_buf_def upd_proc_def)

text \<open>The files whose descriptors were to be installed in the target.\<close>

definition txn_files :: "bstate \<Rightarrow> ptr \<Rightarrow> ptr list" where
  "txn_files s t = map fst (fd_fixups (txn_at s t))"

lemma free_transaction:
  assumes "txn_live s t"
  obtains s' where "binder_free_transaction t s = Some s'" "txn_live s' = (txn_live s)(t := False)"
    "txn_at s' = (txn_at s)(t := (txn_at s t)\<lparr>fd_fixups := []\<rparr>)" "fput_log s' = fput_log s @ txn_files s t"
    "thread_at s' = thread_at s" "wlist s' = wlist s" "wpos s' = wpos s" "woken s' = woken s"
proof -
  define s1 where "s1 = (case (to_proc (txn_at s t), x_buffer (txn_at s t)) of
      (Some _, Some (p, b)) \<Rightarrow> upd_buf p b (\<lambda>bf. bf\<lparr>b_transaction := None\<rparr>) s | _ \<Rightarrow> s)"
  have f: "txn_at s1 = txn_at s" "txn_live s1 = txn_live s" "thread_at s1 = thread_at s" "wlist s1 = wlist s"
    "wpos s1 = wpos s" "woken s1 = woken s" "fput_log s1 = fput_log s"
    by (simp_all add: s1_def split: option.split)
  let ?s2 = "binder_free_txn_fixups t s1"
  have "binder_free_transaction t s = Some (?s2\<lparr>txn_live := (txn_live ?s2)(t := False)\<rparr>)"
    using assms unfolding binder_free_transaction_def Let_def s1_def [symmetric] by (simp add: binder_free_txn_fixups_def f)
  then show thesis by (rule that) (simp_all add: binder_free_txn_fixups_def f txn_files_def upd_txn_def)
qed

section \<open>The chain of callers\<close>

text \<open>The transactions up to the first with a waiting sender, or up to the root when there is none.\<close>

fun reply_chain :: "bstate \<Rightarrow> ptr list \<Rightarrow> bool" where
  "reply_chain s [] \<longleftrightarrow> False"
| "reply_chain s [t] \<longleftrightarrow> txn_live s t \<and> (x_from (txn_at s t) = None \<longrightarrow> from_parent (txn_at s t) = None)"
| "reply_chain s (t # t' # ts) \<longleftrightarrow> txn_live s t \<and> x_from (txn_at s t) = None \<and> from_parent (txn_at s t) = Some t' \<and> reply_chain s (t' # ts)"

lemma reply_chain_cong:
  "(\<And>x. x \<in> set ts \<Longrightarrow> txn_at s' x = txn_at s x \<and> txn_live s' x = txn_live s x) \<Longrightarrow> reply_chain s' ts = reply_chain s ts"
  by (induction s ts rule: reply_chain.induct) auto

text \<open>Interference that does not touch transactions, threads and work lists.\<close>

definition calm :: "(bstate \<Rightarrow> bstate) \<Rightarrow> bool" where
  "calm intf \<longleftrightarrow> (\<forall>s. txn_at (intf s) = txn_at s \<and> txn_live (intf s) = txn_live s \<and> thread_at (intf s) = thread_at s \<and>
     wlist (intf s) = wlist s \<and> wpos (intf s) = wpos s \<and> woken (intf s) = woken s \<and> fput_log (intf s) = fput_log s)"

text \<open>A thread that waits for the reply to a transaction.\<close>

definition waits_for :: "bstate \<Rightarrow> ptr \<Rightarrow> ptr \<Rightarrow> bool" where
  "waits_for s th t \<longleftrightarrow> transaction_stack (thread_at s th) = Some t \<and> \<not> t_is_dead (thread_at s th) \<and>
     (reply_error_cmd (thread_at s th) = BR_OK \<longrightarrow> wpos s (ReplyErrorWork th) = None)"

definition told :: "u32 \<Rightarrow> ptr option \<Rightarrow> binder_thread \<Rightarrow> binder_thread" where
  "told e parent r = (if reply_error_cmd r = BR_OK then r\<lparr>transaction_stack := parent, reply_error_cmd := e, process_todo := True\<rparr>
     else r\<lparr>transaction_stack := parent\<rparr>)"

lemma fail_caller:
  assumes w: "waits_for s th t" and f: "x_from (txn_at s t) = Some th" and l: "txn_live s t"
  obtains s' where "fail_caller rb env e th t s = Some s'" "txn_live s' = (txn_live s)(t := False)" "fput_log s' = fput_log s @ txn_files s t"
    "thread_at s' = (thread_at s)(th := (told e (from_parent (txn_at s t)) (thread_at s th))\<lparr>t_tmp_ref := t_tmp_ref (thread_at s th) - 1\<rparr>)"
    "wlist s' (ThreadTodo th) = wlist s (ThreadTodo th) @ (if reply_error_cmd (thread_at s th) = BR_OK then [ReplyErrorWork th] else [])"
    "woken s' = woken s @ (if reply_error_cmd (thread_at s th) = BR_OK then [(th, False)] else [])"
proof -
  let ?r = "thread_at s th"
  define s1 where "s1 = upd_txn t (\<lambda>x. x\<lparr>x_from := None\<rparr>) (upd_thread th (\<lambda>r. r\<lparr>transaction_stack := from_parent (txn_at s t)\<rparr>) s)"
  define s2 where "s2 = (if reply_error_cmd ?r = BR_OK
      then wake_up_interruptible False th (upd_thread th (\<lambda>r. r\<lparr>process_todo := True\<rparr>)
             (enqueued (ReplyErrorWork th) (ThreadTodo th) (upd_thread th (\<lambda>r. r\<lparr>reply_error_cmd := e\<rparr>) s1))) else s1)"
  define s3 where "s3 = upd_thread th (\<lambda>r. r\<lparr>t_tmp_ref := t_tmp_ref r - 1\<rparr>) s2"
  note en = enqueued_def wake_up_interruptible_def
  have pop: "binder_pop_transaction_ilocked (Some th) t s = Some s1"
    using w f by (simp add: binder_pop_transaction_ilocked_def waits_for_def s1_def)
  have r1: "reply_error_cmd (thread_at s1 th) = reply_error_cmd ?r" "wpos s1 = wpos s" by (simp_all add: s1_def)
  have mid: "(if reply_error_cmd (thread_at s1 th) = BR_OK
      then map_option (wake_up_interruptible False th)
             (binder_enqueue_thread_work_ilocked th (ReplyErrorWork th) (upd_thread th (\<lambda>r. r\<lparr>reply_error_cmd := e\<rparr>) s1))
      else Some s1) = Some s2"
    using w by (simp add: r1 s2_def waits_for_def binder_enqueue_thread_work_ilocked_def enqueue_work)
  have th2: "thread_at s2 = (thread_at s)(th := told e (from_parent (txn_at s t)) ?r)"
    by (simp add: s2_def s1_def en told_def)
  have dec: "binder_thread_dec_tmpref rb env th s2 = Some s3"
    using w th2 by (simp add: binder_thread_dec_tmpref_def Let_def s3_def waits_for_def told_def)
  have s3: "txn_live s3 = txn_live s" "txn_files s3 t = txn_files s t" "fput_log s3 = fput_log s"
    "thread_at s3 = (thread_at s)(th := (told e (from_parent (txn_at s t)) ?r)\<lparr>t_tmp_ref := t_tmp_ref ?r - 1\<rparr>)"
    "wlist s3 (ThreadTodo th) = wlist s (ThreadTodo th) @ (if reply_error_cmd ?r = BR_OK then [ReplyErrorWork th] else [])"
    "woken s3 = woken s @ (if reply_error_cmd ?r = BR_OK then [(th, False)] else [])"
    by (simp_all add: s3_def th2 s2_def s1_def en txn_files_def told_def)
  obtain s' where s': "binder_free_transaction t s3 = Some s'" "txn_live s' = (txn_live s3)(t := False)"
    "fput_log s' = fput_log s3 @ txn_files s3 t" "thread_at s' = thread_at s3" "wlist s' = wlist s3" "woken s' = woken s3"
    using free_transaction [of s3 t] l s3(1) by metis
  have "fail_caller rb env e th t s = Some s'"
    unfolding fail_caller_def pop by (simp add: mid [unfolded r1] r1 dec s'(1))
  then show thesis using that s' s3 by simp
qed

text \<open>What a failed reply along a chain has done: the chain is freed with its files, the waiting thread is told.\<close>

definition reply_failed :: "u32 \<Rightarrow> bstate \<Rightarrow> ptr list \<Rightarrow> bstate \<Rightarrow> bool" where
  "reply_failed e s ts s' \<longleftrightarrow>
     (\<forall>x. txn_live s' x \<longleftrightarrow> txn_live s x \<and> x \<notin> set ts) \<and> fput_log s' = fput_log s @ concat (map (txn_files s) ts) \<and>
     (case x_from (txn_at s (last ts)) of
        None \<Rightarrow> thread_at s' = thread_at s \<and> wlist s' = wlist s \<and> woken s' = woken s
      | Some th \<Rightarrow> thread_at s' = (thread_at s)(th := told e (from_parent (txn_at s (last ts))) (thread_at s th)) \<and>
          wlist s' (ThreadTodo th) = wlist s (ThreadTodo th) @ (if reply_error_cmd (thread_at s th) = BR_OK then [ReplyErrorWork th] else []) \<and>
          woken s' = woken s @ (if reply_error_cmd (thread_at s th) = BR_OK then [(th, False)] else []))"

lemma send_failed_reply_loop:
  assumes "calm intf" "reply_chain s (t # ts)" "distinct (t # ts)"
    and "\<And>th. x_from (txn_at s (last (t # ts))) = Some th \<Longrightarrow> waits_for s th (last (t # ts))"
  shows "\<exists>s'. send_failed_reply_loop rb env intf e t s = Some s' \<and> reply_failed e s (t # ts) s'"
  using assms
proof (induction ts arbitrary: t s)
  case Nil
  have live: "txn_live s t" using Nil.prems(2) by simp
  show ?case
  proof (cases "x_from (txn_at s t)")
    case None
    have root: "from_parent (txn_at s t) = None" using Nil.prems(2) None by simp
    have g: "binder_get_txn_from_and_acq_inner rb env intf t s = Some (None, s)"
      using None by (simp add: binder_get_txn_from_and_acq_inner_def binder_get_txn_from_def)
    obtain s' where s': "binder_free_transaction t s = Some s'" "txn_live s' = (txn_live s)(t := False)"
      "fput_log s' = fput_log s @ txn_files s t" "thread_at s' = thread_at s" "wlist s' = wlist s" "woken s' = woken s"
      using free_transaction [OF live] by metis
    have "send_failed_reply_loop rb env intf e t s = Some s'"
      by (subst send_failed_reply_loop.simps) (simp add: g s'(1) root)
    then show ?thesis using None s' by (simp add: reply_failed_def)
  next
    case (Some th)
    let ?s1 = "intf (upd_thread th (\<lambda>r. r\<lparr>t_tmp_ref := t_tmp_ref r + 1\<rparr>) s)"
    have c: "txn_at ?s1 = txn_at s" "txn_live ?s1 = txn_live s" "thread_at ?s1 = (thread_at s)(th := (thread_at s th)\<lparr>t_tmp_ref := t_tmp_ref (thread_at s th) + 1\<rparr>)"
      "wlist ?s1 = wlist s" "wpos ?s1 = wpos s" "woken ?s1 = woken s" "fput_log ?s1 = fput_log s"
      using Nil.prems(1) by (simp_all add: calm_def)
    have g: "binder_get_txn_from_and_acq_inner rb env intf t s = Some (Some th, ?s1)"
      using Some by (simp add: binder_get_txn_from_and_acq_inner_def binder_get_txn_from_def c Let_def)
    have w: "waits_for ?s1 th t" "x_from (txn_at ?s1 t) = Some th" "txn_live ?s1 t"
      using Nil.prems(4) [of th] Some live by (simp_all add: waits_for_def c)
    obtain s' where s': "fail_caller rb env e th t ?s1 = Some s'" "txn_live s' = (txn_live ?s1)(t := False)" "fput_log s' = fput_log ?s1 @ txn_files ?s1 t"
      "thread_at s' = (thread_at ?s1)(th := (told e (from_parent (txn_at ?s1 t)) (thread_at ?s1 th))\<lparr>t_tmp_ref := t_tmp_ref (thread_at ?s1 th) - 1\<rparr>)"
      "wlist s' (ThreadTodo th) = wlist ?s1 (ThreadTodo th) @ (if reply_error_cmd (thread_at ?s1 th) = BR_OK then [ReplyErrorWork th] else [])"
      "woken s' = woken ?s1 @ (if reply_error_cmd (thread_at ?s1 th) = BR_OK then [(th, False)] else [])"
      by (rule fail_caller [OF w])
    have "send_failed_reply_loop rb env intf e t s = Some s'"
      by (subst send_failed_reply_loop.simps) (simp add: g s'(1))
    moreover have "thread_at s' = (thread_at s)(th := told e (from_parent (txn_at s t)) (thread_at s th))"
      using s'(4) by (auto simp: c told_def)
    ultimately show ?thesis using Some s' by (simp add: c txn_files_def reply_failed_def)
  qed
next
  case (Cons t' ts)
  have t: "txn_live s t" "x_from (txn_at s t) = None" "from_parent (txn_at s t) = Some t'" "reply_chain s (t' # ts)"
    using Cons.prems(2) by simp_all
  have d: "t \<notin> set (t' # ts)" "distinct (t' # ts)" using Cons.prems(3) by simp_all
  have g: "binder_get_txn_from_and_acq_inner rb env intf t s = Some (None, s)"
    using t(2) by (simp add: binder_get_txn_from_and_acq_inner_def binder_get_txn_from_def)
  obtain s1 where s1: "binder_free_transaction t s = Some s1" "txn_live s1 = (txn_live s)(t := False)"
    "txn_at s1 = (txn_at s)(t := (txn_at s t)\<lparr>fd_fixups := []\<rparr>)" "fput_log s1 = fput_log s @ txn_files s t"
    "thread_at s1 = thread_at s" "wlist s1 = wlist s" "wpos s1 = wpos s" "woken s1 = woken s"
    by (rule free_transaction [OF t(1)])
  have at: "x \<in> set (t' # ts) \<Longrightarrow> txn_at s1 x = txn_at s x \<and> txn_live s1 x = txn_live s x" for x using d(1) by (auto simp: s1)
  have l: "last (t' # ts) \<in> set (t' # ts)" by simp
  have ll: "txn_at s1 (last (t' # ts)) = txn_at s (last (t' # ts))" using at [OF l] by simp
  have files: "map (txn_files s1) (t' # ts) = map (txn_files s) (t' # ts)"
    using at by (intro map_cong) (simp_all add: txn_files_def)
  have loop: "send_failed_reply_loop rb env intf e t s = send_failed_reply_loop rb env intf e t' s1"
    by (subst send_failed_reply_loop.simps) (simp add: g s1(1) t(3))
  have chain1: "reply_chain s1 (t' # ts)" using t(4) reply_chain_cong [OF at] by blast
  have wait1: "waits_for s1 th (last (t' # ts))" if "x_from (txn_at s1 (last (t' # ts))) = Some th" for th
    using Cons.prems(4) [of th] that unfolding ll by (simp add: waits_for_def s1)
  have live1: "txn_live s1 x \<longleftrightarrow> txn_live s x \<and> x \<noteq> t" for x by (simp add: s1(2))
  obtain s' where s': "send_failed_reply_loop rb env intf e t' s1 = Some s'" "reply_failed e s1 (t' # ts) s'"
    using Cons.IH [OF Cons.prems(1) chain1 d(2) wait1] by blast
  have lst: "last (t # t' # ts) = last (t' # ts)" by simp
  have "reply_failed e s (t # t' # ts) s'"
    using s'(2) live1 d unfolding reply_failed_def files s1(4-8) lst ll by auto
  then show ?case using s'(1) loop by auto
qed

section \<open>Properties\<close>

text \<open>
  C17. Sending a failed reply ends: it frees every transaction of the chain up to the first one whose sender
  still waits, drops each of their files once, and the waiting thread loses the transaction from its stack
  and has the error queued and is woken, unless an earlier error is still to be delivered. When no sender is left, no
  thread is changed or woken.
\<close>

theorem failed_reply_reaches_caller:
  assumes "calm intf" "reply_chain s (t # ts)" "distinct (t # ts)" "\<not> oneway s t"
    and "\<forall>th. x_from (txn_at s (last (t # ts))) = Some th \<longrightarrow> waits_for s th (last (t # ts))"
  shows "\<exists>s'. binder_send_failed_reply rb env intf t e s = Some s' \<and> reply_failed e s (t # ts) s'"
  using send_failed_reply_loop [OF assms(1-3)] assms(4,5) unfolding binder_send_failed_reply_def by simp

definition sample_env :: alloc_env where
  "sample_env = \<lparr>mmget_ok = True, alloc_page_ok = (\<lambda>_. True), vm_insert_ok = (\<lambda>_. True), kzalloc_buf = None\<rparr>"

definition chain_state :: bstate where
  "chain_state = sample_state\<lparr>
     txn_at := (\<lambda>t. if t = 10 then sample_txn\<lparr>from_parent := Some 11, fd_fixups := [(20, 0)]\<rparr> else sample_txn\<lparr>x_from := Some 7\<rparr>),
     txn_live := (\<lambda>t. t = 10 \<or> t = 11),
     thread_at := (\<lambda>t. (sample_thread (if t = 6 then 2 else 3))\<lparr>transaction_stack := if t = 7 then Some 11 else None, reply_error_cmd := BR_OK\<rparr>)\<rparr>"

theorem failed_reply_reaches_caller_witness:
  "\<exists>s'. binder_send_failed_reply plain_rb sample_env id 10 BR_DEAD_REPLY chain_state = Some s' \<and> fput_log s' = [20] \<and>
     \<not> txn_live s' 10 \<and> \<not> txn_live s' 11 \<and> wlist s' (ThreadTodo 7) = [ReplyErrorWork 7] \<and>
     reply_error_cmd (thread_at s' 7) = BR_DEAD_REPLY"
proof -
  have "calm id" by (simp add: calm_def)
  moreover have "reply_chain chain_state [10, 11]" "\<not> oneway chain_state 10" "distinct [10, 11 :: ptr]"
    "\<forall>th. x_from (txn_at chain_state (last [10, 11])) = Some th \<longrightarrow> waits_for chain_state th (last [10, 11])"
    by (simp_all add: chain_state_def sample_txn_def sample_thread_def sample_state_def oneway_def waits_for_def)
  ultimately obtain s' where "binder_send_failed_reply plain_rb sample_env id 10 BR_DEAD_REPLY chain_state = Some s'"
    "reply_failed BR_DEAD_REPLY chain_state [10, 11] s'"
    using failed_reply_reaches_caller [of id chain_state 10 "[11]" plain_rb sample_env BR_DEAD_REPLY] by blast
  then show ?thesis
    by (auto simp: reply_failed_def chain_state_def sample_txn_def sample_thread_def sample_state_def txn_files_def told_def)
qed

end
