(* ===== verification/Kernel_Bytes.thy ===== *)
theory Kernel_Bytes
  imports Kernel_Prelude
begin

text \<open>
  Bytes and words in memory (little-endian), and the copies from user memory that the drivers make. User memory
  is the function that gives the readable bytes from an address on; a copy of more bytes fails.
\<close>

section \<open>Words in memory\<close>

fun le_nat :: "u8 list \<Rightarrow> nat" where
  "le_nat [] = 0"
| "le_nat (x # xs) = unat x + 256 * le_nat xs"

definition get_u32 :: "nat \<Rightarrow> u8 list \<Rightarrow> u32" where
  "get_u32 i bs = of_nat (le_nat (take 4 (drop i bs)))"

definition get_u64 :: "nat \<Rightarrow> u8 list \<Rightarrow> u64" where
  "get_u64 i bs = of_nat (le_nat (take 8 (drop i bs)))"

definition word_bytes :: "nat \<Rightarrow> 'a::len word \<Rightarrow> u8 list" where
  "word_bytes n w = map (\<lambda>i. ucast (drop_bit (8 * i) w)) [0..<n]"

section \<open>Copies from user memory\<close>

definition copy_from_user :: "(u64 \<Rightarrow> u8 list) \<Rightarrow> u64 \<Rightarrow> nat \<Rightarrow> u8 list option" where
  "copy_from_user user a n = (if length (user a) < n then None else Some (take n (user a)))"

definition get_user_u32 :: "(u64 \<Rightarrow> u8 list) \<Rightarrow> u64 \<Rightarrow> u32 option" where
  "get_user_u32 user a = map_option (get_u32 0) (copy_from_user user a 4)"

definition get_user_u64 :: "(u64 \<Rightarrow> u8 list) \<Rightarrow> u64 \<Rightarrow> u64 option" where
  "get_user_u64 user a = map_option (get_u64 0) (copy_from_user user a 8)"

section \<open>Lemmas\<close>

lemma get_u32_take: "i + 4 \<le> n \<Longrightarrow> get_u32 i (take n (drop k bs)) = get_u32 (k + i) bs"
  by (simp add: get_u32_def drop_take add.commute min_def)

lemma get_u64_take: "i + 8 \<le> n \<Longrightarrow> get_u64 i (take n (drop k bs)) = get_u64 (k + i) bs"
  by (simp add: get_u64_def drop_take add.commute min_def)

lemma le_nat_zeros: "le_nat (replicate n 0) = 0"
  by (induction n) simp_all

lemma length_word_bytes [simp]: "length (word_bytes n w) = n"
  by (simp add: word_bytes_def)

lemma word_bytes_Suc: "word_bytes (Suc n) w = ucast w # word_bytes n (drop_bit 8 w)"
  by (simp add: word_bytes_def upt_conv_Cons map_Suc_upt [symmetric] comp_def drop_bit_drop_bit add.commute del: upt_Suc)

text \<open>Storing a word and reading it back.\<close>

lemma unat_low_byte: "unat (ucast w :: u8) = unat w mod 256"
  by (simp add: unsigned_ucast_eq take_bit_eq_mod)

lemma unat_drop_byte: "unat (drop_bit 8 w) = unat (w :: 'a::len word) div 256"
proof -
  have "unat (drop_bit 8 w) = drop_bit 8 (unat w)"
    unfolding unsigned_drop_bit_eq by (simp add: take_bit_nat_eq_self)
  then show ?thesis by (simp add: drop_bit_eq_div)
qed

lemma le_nat_word_bytes: "le_nat (word_bytes n w) = unat w mod 256 ^ n"
proof (induction n arbitrary: w)
  case (Suc n)
  show ?case by (simp add: word_bytes_Suc unat_low_byte unat_drop_byte Suc.IH mod_mult2_eq)
qed (simp add: word_bytes_def)

lemma le_nat_less: "le_nat bs < 256 ^ length bs"
proof (induction bs)
  case (Cons x xs)
  have "unat x < 256" using unsigned_less [of x, where ?'a = nat] by simp
  with Cons show ?case by simp
qed simp

text \<open>Reading bytes as a word and storing it gives the bytes back.\<close>

lemma word_bytes_le_nat: "unat w = le_nat bs \<Longrightarrow> word_bytes (length bs) w = bs"
proof (induction bs arbitrary: w)
  case (Cons x xs)
  have x: "unat x < 256" using unsigned_less [of x, where ?'a = nat] by simp
  then have "unat (drop_bit 8 w) = le_nat xs" "unat (ucast w :: u8) = unat x"
    using Cons.prems by (simp_all only: unat_drop_byte unat_low_byte) simp_all
  then show ?case using Cons.IH by (simp add: word_bytes_Suc word_unat_eq_iff)
qed (simp add: word_bytes_def)

lemma word_bytes_get_u32:
  assumes "length bs = 4"
  shows "word_bytes 4 (get_u32 0 bs) = bs"
proof -
  have "le_nat bs < 2 ^ 32" using le_nat_less [of bs] assms by simp
  then have "unat (get_u32 0 bs) = le_nat bs"
    using assms by (simp only: get_u32_def drop_0 take_all) (simp add: unsigned_of_nat take_bit_nat_eq_self)
  then show ?thesis using word_bytes_le_nat assms by metis
qed

lemma get_u32_word_bytes [simp]: "get_u32 0 (word_bytes 4 w) = w"
proof -
  have "unat w < 2 ^ LENGTH(32)" by (rule unsigned_less)
  then show ?thesis by (simp add: get_u32_def le_nat_word_bytes)
qed

end
