(* ===== verification/Binder_Object.thy ===== *)
theory Binder_Object
  imports Binder_Ref Kernel_Bytes
begin

text \<open>
  The objects inside a transaction buffer: their layout in memory (little-endian, 64-bit pointers),
  reading one at an offset, and the checks that a pointer fix-up stays inside a buffer that was
  verified before. The outer \<open>option\<close> of a result is \<open>None\<close> for an access to an absent page or, for the
  loop, when it never ends.
\<close>

section \<open>Object types and layouts\<close>

definition BINDER_TYPE_BINDER :: u32 where "BINDER_TYPE_BINDER = 0x73622a85"
definition BINDER_TYPE_WEAK_BINDER :: u32 where "BINDER_TYPE_WEAK_BINDER = 0x77622a85"
definition BINDER_TYPE_HANDLE :: u32 where "BINDER_TYPE_HANDLE = 0x73682a85"
definition BINDER_TYPE_WEAK_HANDLE :: u32 where "BINDER_TYPE_WEAK_HANDLE = 0x77682a85"
definition BINDER_TYPE_FD :: u32 where "BINDER_TYPE_FD = 0x66642a85"
definition BINDER_TYPE_FDA :: u32 where "BINDER_TYPE_FDA = 0x66646185"
definition BINDER_TYPE_PTR :: u32 where "BINDER_TYPE_PTR = 0x70742a85"
definition BINDER_BUFFER_FLAG_HAS_PARENT :: u32 where "BINDER_BUFFER_FLAG_HAS_PARENT = 0x01"

lemmas type_defs = BINDER_TYPE_BINDER_def BINDER_TYPE_WEAK_BINDER_def BINDER_TYPE_HANDLE_def BINDER_TYPE_WEAK_HANDLE_def
  BINDER_TYPE_FD_def BINDER_TYPE_FDA_def BINDER_TYPE_PTR_def

definition sizeof_binder_object :: u64 where "sizeof_binder_object = 40"
definition sizeof_flat_binder_object :: u64 where "sizeof_flat_binder_object = 24"
definition sizeof_binder_fd_object :: u64 where "sizeof_binder_fd_object = 24"
definition sizeof_binder_buffer_object :: u64 where "sizeof_binder_buffer_object = 40"
definition sizeof_binder_fd_array_object :: u64 where "sizeof_binder_fd_array_object = 32"

lemmas sizeof_defs = sizeof_binder_object_def sizeof_flat_binder_object_def sizeof_binder_fd_object_def
  sizeof_binder_buffer_object_def sizeof_binder_fd_array_object_def

record binder_fd_object =
  fdo_fd :: u32
  fdo_cookie :: u64

record binder_buffer_object =
  bbo_flags :: u32
  bbo_buffer :: u64
  bbo_length :: u64
  bbo_parent :: u64
  bbo_parent_offset :: u64

record binder_fd_array_object =
  num_fds :: u64
  fda_parent :: u64
  fda_parent_offset :: u64

definition object_type :: "u8 list \<Rightarrow> u32" where
  "object_type obj = get_u32 0 obj"

definition to_flat_binder_object :: "u8 list \<Rightarrow> flat_binder_object" where
  "to_flat_binder_object obj =
     \<lparr>fb_type = get_u32 0 obj, fb_flags = get_u32 4 obj, fb_binder = get_u64 8 obj, fb_cookie = get_u64 16 obj\<rparr>"

text \<open>The handle shares its bytes with the low half of the pointer.\<close>

definition fb_handle :: "flat_binder_object \<Rightarrow> u32" where
  "fb_handle fp = ucast (fb_binder fp)"

definition flat_bytes :: "flat_binder_object \<Rightarrow> u8 list" where
  "flat_bytes fp = word_bytes 4 (fb_type fp) @ word_bytes 4 (fb_flags fp) @ word_bytes 8 (fb_binder fp) @ word_bytes 8 (fb_cookie fp)"

definition to_binder_fd_object :: "u8 list \<Rightarrow> binder_fd_object" where
  "to_binder_fd_object obj = \<lparr>fdo_fd = get_u32 8 obj, fdo_cookie = get_u64 16 obj\<rparr>"

definition to_binder_buffer_object :: "u8 list \<Rightarrow> binder_buffer_object" where
  "to_binder_buffer_object obj =
     \<lparr>bbo_flags = get_u32 4 obj, bbo_buffer = get_u64 8 obj, bbo_length = get_u64 16 obj, bbo_parent = get_u64 24 obj,
      bbo_parent_offset = get_u64 32 obj\<rparr>"

definition to_binder_fd_array_object :: "u8 list \<Rightarrow> binder_fd_array_object" where
  "to_binder_fd_array_object obj = \<lparr>num_fds = get_u64 8 obj, fda_parent = get_u64 16 obj, fda_parent_offset = get_u64 24 obj\<rparr>"

section \<open>Reading an object\<close>

text \<open>The size that the type of an object asks for, 0 for an unknown type.\<close>

definition object_size_of :: "u32 \<Rightarrow> u64" where
  "object_size_of ty =
     (if ty = BINDER_TYPE_BINDER \<or> ty = BINDER_TYPE_WEAK_BINDER \<or> ty = BINDER_TYPE_HANDLE \<or> ty = BINDER_TYPE_WEAK_HANDLE
      then sizeof_flat_binder_object
      else if ty = BINDER_TYPE_FD then sizeof_binder_fd_object
      else if ty = BINDER_TYPE_PTR then sizeof_binder_buffer_object
      else if ty = BINDER_TYPE_FDA then sizeof_binder_fd_array_object
      else 0)"

text \<open>The result is the size of the object, 0 when there is none, and the bytes read.\<close>

definition binder_get_object :: "binder_alloc \<Rightarrow> ptr \<Rightarrow> u64 \<Rightarrow> (u64 \<times> u8 list) option" where
  "binder_get_object al b offset =
     (let ds = data_size (bufs al b);
          read_size = min sizeof_binder_object (ds - offset)
      in if offset > ds \<or> read_size < 4 then Some (0, [])
         else case binder_alloc_copy_from_buffer b offset read_size al of None \<Rightarrow> None
         | Some (Inl _) \<Rightarrow> Some (0, [])
         | Some (Inr obj) \<Rightarrow>
             (let object_size = object_size_of (object_type obj) in
              if object_size = 0 then Some (0, obj)
              else if offset \<le> ds - object_size \<and> ds \<ge> object_size then Some (object_size, obj) else Some (0, obj)))"

text \<open>An entry of the offset array.\<close>

definition read_u64 :: "binder_alloc \<Rightarrow> ptr \<Rightarrow> u64 \<Rightarrow> u64 result option" where
  "read_u64 al b off = map_option (map_sum id (get_u64 0)) (binder_alloc_copy_from_buffer b off 8 al)"

definition binder_validate_ptr ::
    "binder_alloc \<Rightarrow> ptr \<Rightarrow> u64 \<Rightarrow> u64 \<Rightarrow> u64 \<Rightarrow> (binder_buffer_object \<times> u64) option option" where
  "binder_validate_ptr al b index start_offset num_valid =
     (if index \<ge> num_valid then Some None
      else case read_u64 al b (start_offset + 8 * index) of None \<Rightarrow> None
      | Some (Inl _) \<Rightarrow> Some None
      | Some (Inr object_offset) \<Rightarrow>
          (case binder_get_object al b object_offset of None \<Rightarrow> None
           | Some (object_size, obj) \<Rightarrow>
               if object_size = 0 \<or> object_type obj \<noteq> BINDER_TYPE_PTR then Some None
               else Some (Some (to_binder_buffer_object obj, object_offset))))"

section \<open>The order of fix-ups\<close>

partial_function (option) validate_fixup_loop ::
    "binder_alloc \<Rightarrow> ptr \<Rightarrow> u64 \<Rightarrow> u64 \<Rightarrow> u64 \<Rightarrow> u64 \<Rightarrow> u64 \<Rightarrow> bool option" where
  "validate_fixup_loop al b objects_start buffer_obj_offset fixup_offset last_obj_offset last_min_offset =
     (if last_obj_offset = buffer_obj_offset then Some (fixup_offset \<ge> last_min_offset)
      else case binder_get_object al b last_obj_offset of None \<Rightarrow> None
      | Some (object_size, obj) \<Rightarrow>
          if object_size \<noteq> sizeof_binder_buffer_object then Some False
          else let last_bbo = to_binder_buffer_object obj in
          if bbo_flags last_bbo AND BINDER_BUFFER_FLAG_HAS_PARENT = 0 then Some False
          else case read_u64 al b (objects_start + 8 * bbo_parent last_bbo) of None \<Rightarrow> None
          | Some (Inl _) \<Rightarrow> Some False
          | Some (Inr off) \<Rightarrow>
              validate_fixup_loop al b objects_start buffer_obj_offset fixup_offset off (bbo_parent_offset last_bbo + 8))"

definition binder_validate_fixup ::
    "binder_alloc \<Rightarrow> ptr \<Rightarrow> u64 \<Rightarrow> u64 \<Rightarrow> u64 \<Rightarrow> u64 \<Rightarrow> u64 \<Rightarrow> bool option" where
  "binder_validate_fixup al b objects_start_offset buffer_obj_offset fixup_offset last_obj_offset last_min_offset =
     (if last_obj_offset = 0 then Some False
      else validate_fixup_loop al b objects_start_offset buffer_obj_offset fixup_offset last_obj_offset last_min_offset)"

end
