(* ===== verification/Binder_Object_Props.thy ===== *)
theory Binder_Object_Props
  imports Binder_Object Binder_Alloc_Props
begin

text \<open>
  Reading objects is parsing the bytes of the buffer, never outside its data; the check of the order
  of fix-ups ends and follows the parents of the last object.
\<close>

section \<open>Reading\<close>

definition readable :: "binder_alloc \<Rightarrow> ptr \<Rightarrow> bool" where
  "readable al b \<longleftrightarrow> space_inv al \<and> b \<in> set (buffers al) \<and> \<not> b_free (bufs al b) \<and>
     (\<not> allow_user_free (bufs al b) \<or> b_transaction (bufs al b) = None) \<and> unat (data_size (bufs al b)) \<le> blen al b"

lemma unat_min: "unat (min x y) = min (unat x) (unat (y :: u64))"
  by (simp add: min_def word_le_nat_alt)

lemma aligned_4: "IS_ALIGNED x 4 \<longleftrightarrow> unat x mod 4 = 0"
proof -
  have "x AND 3 = x AND mask 2" by (simp add: mask_eq_exp_minus_1)
  then have "unat (x AND 3) = unat x mod 4" by (simp add: unat_and_mask)
  then show ?thesis by (simp add: IS_ALIGNED_def unat_eq_zero [symmetric])
qed

lemma copy_from_readable:
  assumes r: "readable al b" and fit: "unat o1 + unat n \<le> blen al b"
  shows "binder_alloc_copy_from_buffer b o1 n al =
    (if unat o1 mod 4 = 0 then Some (Inr (take (unat n) (drop (unat o1) (contents al b)))) else Some (Inl EINVAL))"
proof (cases "unat o1 mod 4 = 0")
  case True
  have n: "n \<le> bsize al b" using fit by (simp add: word_le_nat_alt blen_def)
  then have "o1 \<le> bsize al b - n" using fit by (simp add: word_le_nat_alt unat_sub blen_def)
  then have "check_buffer al b o1 n" using n r True by (simp add: check_buffer_def Let_def aligned_4 readable_def)
  then show ?thesis using copy_from_buffer_reads [of al b o1 n] r True by (simp add: readable_def)
next
  case False
  then show ?thesis by (simp add: binder_alloc_copy_from_buffer_def check_buffer_def Let_def aligned_4)
qed

lemma length_contents [simp]: "length (contents al b) = blen al b"
  by (simp add: contents_def)

section \<open>Objects\<close>

text \<open>What an object at a position of the data is: aligned, of a known type, and complete.\<close>

definition object_at :: "u8 list \<Rightarrow> nat \<Rightarrow> nat \<Rightarrow> bool" where
  "object_at bs ds i \<longleftrightarrow> i mod 4 = 0 \<and> i + 4 \<le> ds \<and>
     (let sz = unat (object_size_of (get_u32 i bs)) in sz \<noteq> 0 \<and> i + sz \<le> ds)"

lemma object_size_cases: "object_size_of ty \<in> {0, 24, 32, 40}"
  by (simp add: object_size_of_def sizeof_defs)

lemma get_object:
  assumes r: "readable al b"
  defines "ds \<equiv> unat (data_size (bufs al b))" and "bs \<equiv> contents al b"
  obtains (none) obj where "binder_get_object al b offset = Some (0, obj)" "\<not> object_at bs ds (unat offset)"
  | (object) n obj where "binder_get_object al b offset = Some (n, obj)" "n = object_size_of (get_u32 (unat offset) bs)" "n \<noteq> 0"
      "object_at bs ds (unat offset)" "obj = take (min 40 (ds - unat offset)) (drop (unat offset) bs)"
proof -
  let ?dw = "data_size (bufs al b)" and ?i = "unat offset"
  let ?rs = "min sizeof_binder_object (?dw - offset)"
  show thesis
  proof (cases "offset > ?dw \<or> ?rs < 4")
    case True
    have "\<not> ?i + 4 \<le> ds"
    proof
      assume i: "?i + 4 \<le> ds"
      then have "offset \<le> ?dw" by (simp add: word_le_nat_alt ds_def)
      then have "unat ?rs = min 40 (ds - ?i)" by (simp add: unat_min sizeof_defs unat_sub word_le_nat_alt ds_def)
      then have "4 \<le> unat ?rs" using i by simp
      then show False using True \<open>offset \<le> ?dw\<close> by (simp add: word_less_nat_alt not_less [symmetric] word_le_nat_alt)
    qed
    then show thesis using True by (intro none [of "[]"]) (simp_all add: binder_get_object_def Let_def object_at_def)
  next
    case False
    then have le: "offset \<le> ?dw" "4 \<le> ?rs" by (simp_all only: de_Morgan_disj not_less)
    have rs: "unat ?rs = min 40 (ds - ?i)" using le(1) by (simp add: unat_min sizeof_defs unat_sub word_le_nat_alt ds_def)
    have i4: "?i + 4 \<le> ds" using le rs by (simp add: word_le_nat_alt ds_def)
    have fit: "?i + unat ?rs \<le> blen al b" using rs i4 r by (simp add: readable_def ds_def min_def split: if_splits)
    note copy = copy_from_readable [OF r fit]
    show thesis
    proof (cases "?i mod 4 = 0")
      case al4: True
      define obj where "obj = take (min 40 (ds - ?i)) (drop ?i bs)"
      have copy': "binder_alloc_copy_from_buffer b offset ?rs al = Some (Inr obj)"
        using copy al4 rs by (simp add: obj_def bs_def)
      have ty: "object_type obj = get_u32 ?i bs"
        using i4 get_u32_take [of 0 "min 40 (ds - ?i)" ?i bs] by (simp add: object_type_def obj_def)
      let ?sz = "object_size_of (get_u32 ?i bs)"
      have ge: "binder_get_object al b offset =
          (if ?sz = 0 then Some (0, obj) else if offset \<le> ?dw - ?sz \<and> ?dw \<ge> ?sz then Some (?sz, obj) else Some (0, obj))"
        unfolding binder_get_object_def Let_def using False copy' by (simp add: ty)
      have fits: "offset \<le> ?dw - ?sz \<and> ?dw \<ge> ?sz \<longleftrightarrow> ?i + unat ?sz \<le> ds"
        by (auto simp: word_le_nat_alt unat_sub ds_def)
      have nz: "?sz = 0 \<longleftrightarrow> unat ?sz = 0" by (simp add: unat_eq_zero)
      show thesis
      proof (cases "?sz \<noteq> 0 \<and> ?i + unat ?sz \<le> ds")
        case True
        then show thesis using ge fits nz al4 i4 by (intro object [of ?sz obj]) (simp_all add: object_at_def Let_def obj_def)
      next
        case no: False
        have "binder_get_object al b offset = Some (0, obj)" using ge no unfolding fits by auto
        then show thesis using no nz by (intro none [of obj]) (auto simp: object_at_def Let_def)
      qed
    next
      case mis: False
      then have "binder_get_object al b offset = Some (0, [])"
        using False copy by (simp add: binder_get_object_def Let_def)
      then show thesis using mis by (intro none [of "[]"]) (simp_all add: object_at_def)
    qed
  qed
qed

section \<open>Parents\<close>

text \<open>An entry of the offset array that starts at \<open>start\<close>, and the parent that a buffer object names.\<close>

definition offset_at :: "u8 list \<Rightarrow> nat \<Rightarrow> nat \<Rightarrow> u64" where
  "offset_at bs start i = get_u64 (start + 8 * i) bs"

definition parent_of :: "u8 list \<Rightarrow> nat \<Rightarrow> u64 \<Rightarrow> (nat \<times> u64) option" where
  "parent_of bs ds o1 =
     (let i = unat o1 in
      if object_at bs ds i \<and> get_u32 i bs = BINDER_TYPE_PTR \<and> get_u32 (i + 4) bs AND BINDER_BUFFER_FLAG_HAS_PARENT \<noteq> 0
      then Some (unat (get_u64 (i + 24) bs), get_u64 (i + 32) bs) else None)"

text \<open>Every parent comes before its children, as the driver has verified for the objects so far.\<close>

definition parents_below :: "u8 list \<Rightarrow> nat \<Rightarrow> nat \<Rightarrow> nat \<Rightarrow> bool" where
  "parents_below bs ds start n \<longleftrightarrow> (\<forall>i<n. case parent_of bs ds (offset_at bs start i) of None \<Rightarrow> True | Some (j, _) \<Rightarrow> j < i)"

text \<open>
  The rule of the documentation: a fix-up is allowed in the last object or in one of its ancestors, at an
  offset not below the end of the pointer through which the last object hangs on that ancestor.
\<close>

function fixup_allowed :: "u8 list \<Rightarrow> nat \<Rightarrow> nat \<Rightarrow> u64 \<Rightarrow> u64 \<Rightarrow> nat \<Rightarrow> u64 \<Rightarrow> bool" where
  "fixup_allowed bs ds start target fixup i min_off =
     (if offset_at bs start i = target then fixup \<ge> min_off
      else case parent_of bs ds (offset_at bs start i) of None \<Rightarrow> False
      | Some (j, po) \<Rightarrow> if j < i then fixup_allowed bs ds start target fixup j (po + 8) else False)"
  by pat_completeness auto
termination by (relation "measure (\<lambda>(bs, ds, start, target, fixup, i, min_off). i)") auto

declare fixup_allowed.simps [simp del]

lemma size_is_ptr: "object_size_of ty = sizeof_binder_buffer_object \<longleftrightarrow> ty = BINDER_TYPE_PTR"
  by (auto simp: object_size_of_def sizeof_defs type_defs)

lemma read_offset:
  assumes r: "readable al b" and st: "start + 8 * n \<le> blen al b" "start mod 4 = 0" and i: "unat i < n" and w: "unat sw = start"
  shows "read_u64 al b (sw + 8 * i) = Some (Inr (offset_at (contents al b) start (unat i)))"
proof -
  have lt: "blen al b < 2 ^ 64" using unsigned_less [of "bsize al b"] by (simp add: blen_def)
  have m: "start + 8 * unat i + 8 \<le> blen al b" using st(1) i by simp
  have "8 * unat i < 2 ^ 64" using m lt by linarith
  then have "unat (8 * i) = 8 * unat i" using unat_word_ariths(2) [of 8 i] by simp
  then have u: "unat (sw + 8 * i) = start + 8 * unat i" using unat_word_ariths(1) [of sw "8 * i"] m lt w by simp
  have a: "(start + 8 * unat i) mod 4 = 0" using st(2) by presburger
  have "binder_alloc_copy_from_buffer b (sw + 8 * i) 8 al = Some (Inr (take 8 (drop (start + 8 * unat i) (contents al b))))"
    using copy_from_readable [OF r, of "sw + 8 * i" 8] m u a by simp
  then show ?thesis using get_u64_take [of 0 8 "start + 8 * unat i" "contents al b"] by (simp add: read_u64_def offset_at_def)
qed

lemma validate_fixup_loop:
  assumes r: "readable al b" and st: "start + 8 * n \<le> blen al b" "start mod 4 = 0" "unat sw = start"
    and pb: "parents_below (contents al b) (unat (data_size (bufs al b))) start n" and k: "k < n"
  shows "validate_fixup_loop al b sw target fixup (offset_at (contents al b) start k) min_off =
    Some (fixup_allowed (contents al b) (unat (data_size (bufs al b))) start target fixup k min_off)"
  using k
proof (induction k arbitrary: min_off rule: less_induct)
  case (less k)
  let ?bs = "contents al b" and ?ds = "unat (data_size (bufs al b))"
  let ?o = "offset_at ?bs start k"
  note V = validate_fixup_loop.simps [of al b sw target fixup ?o min_off]
  note F = fixup_allowed.simps [of ?bs ?ds start target fixup k min_off]
  show ?case
  proof (cases "?o = target")
    case True
    then show ?thesis by (subst V, subst F) simp
  next
    case ne: False
    show ?thesis
      using r
    proof (cases rule: get_object [where offset = ?o])
      case (none obj)
      then have "parent_of ?bs ?ds ?o = None" by (simp add: parent_of_def Let_def)
      then show ?thesis using ne none(1) by (subst V, subst F) (simp add: sizeof_defs)
    next
      case (object m obj)
      let ?i = "unat ?o"
      show ?thesis
      proof (cases "get_u32 ?i ?bs = BINDER_TYPE_PTR")
        case False
        then have "m \<noteq> sizeof_binder_buffer_object" using object(2) size_is_ptr by simp
        moreover have "parent_of ?bs ?ds ?o = None" using False by (simp add: parent_of_def Let_def)
        ultimately show ?thesis using ne object(1) by (subst V, subst F) simp
      next
        case ptr: True
        have m: "m = 40" using object(2) ptr by (simp add: object_size_of_def type_defs sizeof_defs)
        have "?i + 40 \<le> ?ds" using object(4) ptr by (simp add: object_at_def Let_def object_size_of_def type_defs sizeof_defs)
        then have obj: "obj = take 40 (drop ?i ?bs)" using object(5) by (simp add: min_def)
        have bbo: "bbo_flags (to_binder_buffer_object obj) = get_u32 (?i + 4) ?bs" "bbo_parent (to_binder_buffer_object obj) = get_u64 (?i + 24) ?bs"
          "bbo_parent_offset (to_binder_buffer_object obj) = get_u64 (?i + 32) ?bs"
          unfolding obj to_binder_buffer_object_def by (simp_all add: get_u32_take get_u64_take)
        show ?thesis
        proof (cases "get_u32 (?i + 4) ?bs AND BINDER_BUFFER_FLAG_HAS_PARENT = 0")
          case True
          then have "parent_of ?bs ?ds ?o = None" by (simp add: parent_of_def Let_def)
          then show ?thesis using ne object(1) m True by (subst V, subst F) (simp add: sizeof_defs bbo Let_def)
        next
          case flag: False
          let ?j = "get_u64 (?i + 24) ?bs" and ?po = "get_u64 (?i + 32) ?bs"
          have par: "parent_of ?bs ?ds ?o = Some (unat ?j, ?po)" using object(4) ptr flag by (simp add: parent_of_def Let_def)
          have j: "unat ?j < k" using pb less.prems par by (auto simp: parents_below_def)
          have rd: "read_u64 al b (sw + 8 * ?j) = Some (Inr (offset_at ?bs start (unat ?j)))"
            using read_offset [OF r st(1,2) _ st(3)] j less.prems by simp
          show ?thesis
            using ne object(1) m flag rd par less.IH [OF j] j less.prems by (subst V, subst F) (simp add: sizeof_defs bbo Let_def)
        qed
      qed
    qed
  qed
qed

section \<open>A buffer with given contents\<close>

lemma demo_filled:
  assumes len: "length ys = 120"
  obtains al where "readable al 5" "contents al 5 = ys" "data_size (bufs al 5) = 100" "blen al 5 = 120"
proof -
  obtain al where al: "space_inv al" "new_buf_post (demo_env 6) 120 100 16 0 True demo_space 5 al" "held al = {5}"
    by (rule demo_new [of True])
  have b: "5 \<in> set (buffers al)" using al(3) by (auto simp: held_def)
  have f: "bsize al 5 = 120" "data_size (bufs al 5) = 100" "\<not> allow_user_free (bufs al 5)" "\<not> b_free (bufs al 5)"
    using al(2) by (simp_all add: new_buf_post_def taken_buffer_def)
  have c: "check_buffer al 5 0 (of_nat (length ys))" using f len by (simp add: check_buffer_def IS_ALIGNED_def Let_def)
  obtain al' where w: "written al (off al 5 + unat 0) ys al'" by (rule copy_to_buffer_writes [OF al(1) b _ c]) (use len in simp_all)
  have S: "same_space al al'" using w by (simp add: written_def)
  have k: "0 + length ys \<le> blen al 5" using f(1) len by (simp add: blen_def)
  have "contents al' 5 = ys"
    using written_contents(1) [OF al(1) _ _ k, of al'] w al(3) len f(1) by (simp add: blen_def)
  moreover have "bufs al' = bufs al" "bsize al' 5 = bsize al 5" using same_spaceD(4) [OF S] same_space_eqs(2) [OF S] by simp_all
  moreover have "space_inv al'" by (rule space_inv_written [OF al(1) w])
  moreover have "5 \<in> set (buffers al')" using b same_spaceD(3) [OF S] by simp
  ultimately show thesis using that [of al'] f by (simp add: readable_def blen_def)
qed

section \<open>Properties\<close>

text \<open>
  C18. Reading an object from a held buffer never touches an absent page and finds an object exactly when
  the data has a complete one of a known type at an aligned offset; the size is that of its type, the object
  lies within the data, and the bytes are those of the buffer.
\<close>

theorem get_object_parses:
  assumes "readable al b"
  shows "\<exists>n obj. binder_get_object al b offset = Some (n, obj) \<and>
    (n \<noteq> 0 \<longleftrightarrow> object_at (contents al b) (unat (data_size (bufs al b))) (unat offset)) \<and>
    (n \<noteq> 0 \<longrightarrow> object_type obj = get_u32 (unat offset) (contents al b) \<and> n = object_size_of (object_type obj) \<and> unat offset + unat n \<le> unat (data_size (bufs al b)) \<and>
       take (unat n) obj = take (unat n) (drop (unat offset) (contents al b)))"
  using assms
proof (cases rule: get_object [where offset = offset])
  case (object n obj)
  let ?ds = "unat (data_size (bufs al b))" and ?bs = "contents al b" and ?i = "unat offset"
  have n: "?i + unat n \<le> ?ds" "?i + 4 \<le> ?ds" using object(2,4) by (simp_all add: object_at_def Let_def)
  have "n \<in> {0, 24, 32, 40}" using object_size_cases [of "get_u32 ?i ?bs"] object(2) by simp
  then have "unat n \<le> 40" by auto
  then have t: "take (unat n) obj = take (unat n) (drop ?i ?bs)" using n(1) object(5) by (simp add: min_def)
  have "object_type obj = get_u32 ?i ?bs"
    using n(2) get_u32_take [of 0 "min 40 (?ds - ?i)" ?i ?bs] object(5) by (simp add: object_type_def)
  then show ?thesis using object n(1) t by auto
qed auto

definition handle_bytes :: "u8 list" where
  "handle_bytes = [0x85, 0x2a, 0x68, 0x73, 0, 0, 0, 0, 7, 0, 0, 0, 0, 0, 0, 0] @ replicate 104 0"

theorem get_object_parses_witness:
  "\<exists>al obj. readable al 5 \<and> binder_get_object al 5 0 = Some (24, obj) \<and> fb_handle (to_flat_binder_object (take 24 obj)) = 7"
proof -
  have len: "length handle_bytes = 120" by (simp add: handle_bytes_def)
  obtain al where al: "readable al 5" "contents al 5 = handle_bytes" "data_size (bufs al 5) = 100" "blen al 5 = 120"
    by (rule demo_filled [OF len])
  have ty: "get_u32 0 handle_bytes = BINDER_TYPE_HANDLE" by (simp add: get_u32_def handle_bytes_def type_defs)
  then have "object_at handle_bytes 100 0" by (simp add: object_at_def Let_def object_size_of_def type_defs sizeof_defs)
  then obtain n obj where g: "binder_get_object al 5 0 = Some (n, obj)" "n \<noteq> 0" "object_type obj = BINDER_TYPE_HANDLE"
    "n = object_size_of (object_type obj)" "take (unat n) obj = take (unat n) handle_bytes"
    using get_object_parses [OF al(1), of 0] al(2,3) ty by auto
  have n: "n = 24" using g(3,4) by (simp add: object_size_of_def type_defs sizeof_defs)
  have "fb_handle (to_flat_binder_object (take 24 handle_bytes)) = 7"
    by (simp add: handle_bytes_def fb_handle_def to_flat_binder_object_def get_u64_def)
  then show ?thesis using al(1) g(1,5) n by auto
qed

text \<open>
  C19. The check of a pointer fix-up ends for the objects the driver has verified so far, whose parents come before
  them, and is this rule: a fix-up is allowed in the last object or one of its ancestors; in the last object at an offset not below the given
  minimum, in an ancestor at an offset not below \<open>parent_offset + 8\<close>, the end of the pointer on the way there. (The example
  in the comment of the function gives \<open>parent_offset\<close> itself as the minimum; the code adds the size of the pointer.) The exception is a
  last object at offset 0 of the data, for which every fix-up is refused.
\<close>

theorem fixup_follows_parents:
  assumes "readable al b" "unat sw mod 4 = 0" "unat sw + 8 * n \<le> blen al b" "k < n"
    and "parents_below (contents al b) (unat (data_size (bufs al b))) (unat sw) n"
  shows "binder_validate_fixup al b sw target fixup (offset_at (contents al b) (unat sw) k) min_off =
    Some (offset_at (contents al b) (unat sw) k \<noteq> 0 \<and>
      fixup_allowed (contents al b) (unat (data_size (bufs al b))) (unat sw) target fixup k min_off)"
  using validate_fixup_loop [OF assms(1,3,2) refl assms(5,4)] by (simp add: binder_validate_fixup_def)

text \<open>A buffer object at offset 8 and its child at offset 48, which hangs at offset 0 of the parent.\<close>

definition family_bytes :: "u8 list" where
  "family_bytes = replicate 8 0 @ [0x85, 0x2a, 0x74, 0x70] @ replicate 36 0 @ [0x85, 0x2a, 0x74, 0x70, 1, 0, 0, 0] @ replicate 48 0 @
     [8, 0, 0, 0, 0, 0, 0, 0, 48, 0, 0, 0, 0, 0, 0, 0]"

theorem fixup_follows_parents_witness:
  "\<exists>al. readable al 5 \<and> binder_validate_fixup al 5 104 8 8 48 0 = Some True \<and> binder_validate_fixup al 5 104 8 4 48 0 = Some False"
proof -
  have len: "length family_bytes = 120" by (simp add: family_bytes_def)
  obtain al where al: "readable al 5" "contents al 5 = family_bytes" "data_size (bufs al 5) = 100" "blen al 5 = 120"
    by (rule demo_filled [OF len])
  have off: "offset_at family_bytes 104 0 = 8" "offset_at family_bytes 104 1 = 48"
    by (simp_all add: offset_at_def get_u64_def family_bytes_def)
  have par: "parent_of family_bytes 100 8 = None" "parent_of family_bytes 100 48 = Some (0, 0)"
    by (simp_all add: parent_of_def Let_def object_at_def object_size_of_def get_u32_def get_u64_def family_bytes_def type_defs sizeof_defs
        BINDER_BUFFER_FLAG_HAS_PARENT_def le_nat_zeros)
  have i: "i < 2 \<longleftrightarrow> i = 0 \<or> i = 1" for i :: nat by auto
  have below: "parents_below family_bytes 100 104 2" unfolding parents_below_def i by (auto simp: off par simp flip: One_nat_def)
  have "fixup_allowed family_bytes 100 104 8 f 0 8 \<longleftrightarrow> f \<ge> 8" for f by (subst fixup_allowed.simps) (simp add: off)
  then have allowed: "fixup_allowed family_bytes 100 104 8 f 1 0 \<longleftrightarrow> f \<ge> 8" for f
    by (subst fixup_allowed.simps) (simp add: off [unfolded One_nat_def] par)
  show ?thesis
    using al(1) fixup_follows_parents [of al 5 104 2 1 8 8 0] fixup_follows_parents [of al 5 104 2 1 8 4 0] al(2-4) below allowed off by auto
qed

end
