(* ===== verification/Binder_Translate.thy ===== *)
theory Binder_Translate
  imports Binder_Txn Binder_Object
begin

text \<open>
  What happens to the objects of a transaction: binders become handles of the receiver and handles
  become binders of their owner, file descriptors are recorded for the receiver, pointers are fixed up,
  and everything is undone when the buffer is released. Then the queueing of a transaction.
\<close>

section \<open>Binders and handles\<close>

text \<open>
  What the kernel decides meanwhile: the structures that \<open>kzalloc\<close> returns, the security hooks, the
  files behind descriptors and whether the record of a descriptor can be allocated, by the number of records so far.
\<close>

record txn_env =
  new_node :: "ptr option"
  new_ref :: "ptr option"
  others :: "bstate \<Rightarrow> bstate"
  forbid_binder :: "ptr \<Rightarrow> ptr \<Rightarrow> bool"
  fget :: "u32 \<Rightarrow> ptr option"
  forbid_file :: "ptr \<Rightarrow> ptr \<Rightarrow> ptr \<Rightarrow> bool"
  new_fixup :: "nat \<Rightarrow> bool"

definition put_after :: "rb_ops \<Rightarrow> ptr \<Rightarrow> 'a \<Rightarrow> bstate \<Rightarrow> ('a \<times> bstate) option" where
  "put_after rb n ret s = map_option (\<lambda>s'. (ret, s')) (binder_put_node rb n s)"

definition binder_translate_binder ::
    "rb_ops \<Rightarrow> txn_env \<Rightarrow> flat_binder_object \<Rightarrow> ptr \<Rightarrow> ptr \<Rightarrow> bstate \<Rightarrow> (flat_binder_object result \<times> bstate) option" where
  "binder_translate_binder rb env fp t thread s =
     (let p = t_proc (thread_at s thread);
          (node, s1) = (case binder_get_node p (fb_binder fp) s of
                          (Some n, s1) \<Rightarrow> (Some n, s1)
                        | (None, s1) \<Rightarrow> binder_new_node rb (new_node env) p (Some fp) s1)
      in case node of None \<Rightarrow> Some (Inl ENOMEM, s1)
         | Some n \<Rightarrow>
             if fb_cookie fp \<noteq> n_cookie (node_at s1 n) then put_after rb n (Inl EINVAL) s1
             else
             (case to_proc (txn_at s t) of None \<Rightarrow> None
              | Some q \<Rightarrow>
                  if forbid_binder env p q then put_after rb n (Inl EPERM) s1
                  else case binder_inc_ref_for_node rb (new_ref env) (others env) q n (fb_type fp = BINDER_TYPE_BINDER)
                              (Some (ThreadTodo thread)) s1 of None \<Rightarrow> None
                  | Some (Inl e, _, s2) \<Rightarrow> put_after rb n (Inl e) s2
                  | Some (Inr _, None, s2) \<Rightarrow> None
                  | Some (Inr _, Some rdata, s2) \<Rightarrow>
                      put_after rb n
                        (Inr (fp\<lparr>fb_type := if fb_type fp = BINDER_TYPE_BINDER then BINDER_TYPE_HANDLE else BINDER_TYPE_WEAK_HANDLE,
                                 fb_binder := ucast (desc rdata), fb_cookie := 0\<rparr>)) s2))"

definition binder_translate_handle ::
    "rb_ops \<Rightarrow> txn_env \<Rightarrow> flat_binder_object \<Rightarrow> ptr \<Rightarrow> ptr \<Rightarrow> bstate \<Rightarrow> (flat_binder_object result \<times> bstate) option" where
  "binder_translate_handle rb env fp t thread s =
     (let p = t_proc (thread_at s thread) in
      case binder_get_node_from_ref p (fb_handle fp) (fb_type fp = BINDER_TYPE_HANDLE) s of None \<Rightarrow> None
      | Some (None, s1) \<Rightarrow> Some (Inl EINVAL, s1)
      | Some (Some (n, _), s1) \<Rightarrow>
          (case to_proc (txn_at s t) of None \<Rightarrow> None
           | Some q \<Rightarrow>
               if forbid_binder env p q then put_after rb n (Inl EPERM) s1
               else if n_proc (node_at s1 n) = Some q
               then (let fp' = fp\<lparr>fb_type := if fb_type fp = BINDER_TYPE_HANDLE then BINDER_TYPE_BINDER else BINDER_TYPE_WEAK_BINDER,
                                  fb_binder := n_ptr (node_at s1 n), fb_cookie := n_cookie (node_at s1 n)\<rparr>
                     in case binder_inc_node_nilocked n (fb_type fp' = BINDER_TYPE_BINDER) False None s1 of None \<Rightarrow> None
                        | Some (_, s2) \<Rightarrow> put_after rb n (Inr fp') s2)
               else (case binder_inc_ref_for_node rb (new_ref env) (others env) q n (fb_type fp = BINDER_TYPE_HANDLE) None s1 of None \<Rightarrow> None
                     | Some (Inl e, _, s2) \<Rightarrow> put_after rb n (Inl e) s2
                     | Some (Inr _, None, s2) \<Rightarrow> None
                     | Some (Inr _, Some dest, s2) \<Rightarrow>
                         put_after rb n (Inr (fp\<lparr>fb_binder := ucast (desc dest), fb_cookie := 0\<rparr>)) s2)))"

section \<open>File descriptors\<close>

text \<open>\<open>file\<close> references that are dropped again on an error path go to the log of dropped references.\<close>

definition binder_translate_fd ::
    "txn_env \<Rightarrow> u32 \<Rightarrow> u64 \<Rightarrow> ptr \<Rightarrow> ptr \<Rightarrow> ptr option \<Rightarrow> bstate \<Rightarrow> (unit result \<times> bstate) option" where
  "binder_translate_fd env fd fd_offset t thread in_reply_to s =
     (let p = t_proc (thread_at s thread) in
      case (case in_reply_to of
              Some r \<Rightarrow> Some (x_flags (txn_at s r) AND TF_ACCEPT_FDS \<noteq> 0)
            | None \<Rightarrow> (case x_buffer (txn_at s t) of None \<Rightarrow> None
                | Some pb \<Rightarrow> (case b_target_node (buf_at s pb) of None \<Rightarrow> None | Some n \<Rightarrow> Some (accept_fds (node_at s n))))) of
        None \<Rightarrow> None
      | Some target_allows_fd \<Rightarrow>
          if \<not> target_allows_fd then Some (Inl EPERM, s)
          else case fget env fd of None \<Rightarrow> Some (Inl EBADF, s)
          | Some file \<Rightarrow>
              (case to_proc (txn_at s t) of None \<Rightarrow> None
               | Some q \<Rightarrow>
                   if forbid_file env p q file then Some (Inl EPERM, s\<lparr>fput_log := fput_log s @ [file]\<rparr>)
                   else if \<not> new_fixup env (length (fd_fixups (txn_at s t)))
                   then Some (Inl ENOMEM, s\<lparr>fput_log := fput_log s @ [file]\<rparr>)
                   else Some (Inr (), upd_txn t (\<lambda>x. x\<lparr>fd_fixups := fd_fixups x @ [(file, fd_offset)]\<rparr>) s)))"

definition read_u32 :: "binder_alloc \<Rightarrow> ptr \<Rightarrow> u64 \<Rightarrow> u32 result option" where
  "read_u32 al b off = map_option (map_sum id (get_u32 0)) (binder_alloc_copy_from_buffer b off 4 al)"

text \<open>The loop over the descriptors that are left, at offset \<open>offset\<close> on.\<close>

fun fd_array_loop ::
    "txn_env \<Rightarrow> nat \<Rightarrow> u64 \<Rightarrow> ptr \<Rightarrow> ptr \<Rightarrow> ptr option \<Rightarrow> ptr \<times> ptr \<Rightarrow> bstate \<Rightarrow> (unit result \<times> bstate) option" where
  "fd_array_loop env 0 offset t thread in_reply_to pb s = Some (Inr (), s)"
| "fd_array_loop env (Suc k) offset t thread in_reply_to pb s =
     (case read_u32 (p_alloc (proc_at s (fst pb))) (snd pb) offset of None \<Rightarrow> None
      | Some (Inl e) \<Rightarrow> Some (Inl e, s)
      | Some (Inr fd) \<Rightarrow>
          (case binder_translate_fd env fd offset t thread in_reply_to s of None \<Rightarrow> None
           | Some (Inl e, s1) \<Rightarrow> Some (Inl e, s1)
           | Some (Inr _, s1) \<Rightarrow> fd_array_loop env k (offset + 4) t thread in_reply_to pb s1))"

definition SIZE_MAX :: u64 where "SIZE_MAX = - 1"

definition binder_translate_fd_array ::
    "txn_env \<Rightarrow> binder_fd_array_object \<Rightarrow> binder_buffer_object \<Rightarrow> ptr \<Rightarrow> ptr \<Rightarrow> ptr option \<Rightarrow> bstate \<Rightarrow> (unit result \<times> bstate) option" where
  "binder_translate_fd_array env fda parent t thread in_reply_to s =
     (let fd_buf_size = 4 * num_fds fda in
      if num_fds fda \<ge> SIZE_MAX div 4 then Some (Inl EINVAL, s)
      else if fd_buf_size > bbo_length parent \<or> fda_parent_offset fda > bbo_length parent - fd_buf_size then Some (Inl EINVAL, s)
      else case x_buffer (txn_at s t) of None \<Rightarrow> None
      | Some pb \<Rightarrow>
          (let fda_offset = (bbo_buffer parent - user_data (buf_at s pb)) + fda_parent_offset fda in
           if \<not> IS_ALIGNED fda_offset 4 then Some (Inl EINVAL, s)
           else fd_array_loop env (unat (num_fds fda)) fda_offset t thread in_reply_to pb s))"

section \<open>Pointers\<close>

definition set_alloc :: "ptr \<Rightarrow> binder_alloc \<Rightarrow> bstate \<Rightarrow> bstate" where
  "set_alloc p al s = upd_proc p (\<lambda>pr. pr\<lparr>p_alloc := al\<rparr>) s"

definition binder_fixup_parent ::
    "ptr \<Rightarrow> binder_buffer_object \<Rightarrow> u64 \<Rightarrow> u64 \<Rightarrow> u64 \<Rightarrow> u64 \<Rightarrow> bstate \<Rightarrow> (unit result \<times> bstate) option" where
  "binder_fixup_parent t bp off_start_offset num_valid last_fixup_obj_off last_fixup_min_off s =
     (if bbo_flags bp AND BINDER_BUFFER_FLAG_HAS_PARENT = 0 then Some (Inr (), s)
      else case x_buffer (txn_at s t) of None \<Rightarrow> None
      | Some (q, b) \<Rightarrow>
          (let al = p_alloc (proc_at s q) in
           case binder_validate_ptr al b (bbo_parent bp) off_start_offset num_valid of None \<Rightarrow> None
           | Some None \<Rightarrow> Some (Inl EINVAL, s)
           | Some (Some (parent, parent_offset)) \<Rightarrow>
               (case binder_validate_fixup al b off_start_offset parent_offset (bbo_parent_offset bp)
                       last_fixup_obj_off last_fixup_min_off of None \<Rightarrow> None
                | Some False \<Rightarrow> Some (Inl EINVAL, s)
                | Some True \<Rightarrow>
                    if bbo_length parent < 8 \<or> bbo_parent_offset bp > bbo_length parent - 8 then Some (Inl EINVAL, s)
                    else
                      (let buffer_offset = bbo_parent_offset bp + bbo_buffer parent - user_data (bufs al b) in
                       case binder_alloc_copy_to_buffer b buffer_offset (word_bytes 8 (bbo_buffer bp)) al of None \<Rightarrow> None
                       | Some (Inl _, al') \<Rightarrow> Some (Inl EINVAL, set_alloc q al' s)
                       | Some (Inr _, al') \<Rightarrow> Some (Inr (), set_alloc q al' s)))))"

section \<open>Releasing a buffer\<close>

text \<open>\<open>same_task\<close>: the driver runs in the process that owns the buffer; then descriptors are closed.\<close>

record release_env =
  same_task :: bool
  kz_twcb :: "u32 \<Rightarrow> bool"
  file_close_fd :: "u32 \<Rightarrow> ptr option"

definition binder_do_fd_close :: "ptr \<Rightarrow> bstate \<Rightarrow> bstate" where
  "binder_do_fd_close file s = s\<lparr>fput_log := fput_log s @ [file], task_work := list_del file (task_work s)\<rparr>"

definition binder_deferred_fd_close :: "release_env \<Rightarrow> u32 \<Rightarrow> bstate \<Rightarrow> bstate" where
  "binder_deferred_fd_close env fd s =
     (if \<not> kz_twcb env fd then s
      else case file_close_fd env fd of None \<Rightarrow> s | Some file \<Rightarrow> s\<lparr>task_work := task_work s @ [file]\<rparr>)"

fun close_fds_loop :: "release_env \<Rightarrow> nat \<Rightarrow> u64 \<Rightarrow> ptr \<times> ptr \<Rightarrow> bstate \<Rightarrow> bstate option" where
  "close_fds_loop env 0 offset pb s = Some s"
| "close_fds_loop env (Suc k) offset pb s =
     (case read_u32 (p_alloc (proc_at s (fst pb))) (snd pb) offset of None \<Rightarrow> None
      | Some (Inl _) \<Rightarrow> close_fds_loop env k (offset + 4) pb s
      | Some (Inr fd) \<Rightarrow> close_fds_loop env k (offset + 4) pb (binder_deferred_fd_close env fd s))"

definition release_fd_array :: "release_env \<Rightarrow> ptr \<Rightarrow> ptr \<Rightarrow> u64 \<Rightarrow> u64 \<Rightarrow> binder_fd_array_object \<Rightarrow> bstate \<Rightarrow> bstate option" where
  "release_fd_array env p b off_start buffer_offset fda s =
     (let al = p_alloc (proc_at s p) in
      if \<not> same_task env then Some s
      else case binder_validate_ptr al b (fda_parent fda) off_start ((buffer_offset - off_start) div 8) of None \<Rightarrow> None
      | Some None \<Rightarrow> Some s
      | Some (Some (parent, _)) \<Rightarrow>
          (let fd_buf_size = 4 * num_fds fda in
           if num_fds fda \<ge> SIZE_MAX div 4 then Some s
           else if fd_buf_size > bbo_length parent \<or> fda_parent_offset fda > bbo_length parent - fd_buf_size then Some s
           else close_fds_loop env (unat (num_fds fda))
                  ((bbo_buffer parent - user_data (bufs al b)) + fda_parent_offset fda) (p, b) s))"

definition release_object :: "rb_ops \<Rightarrow> release_env \<Rightarrow> ptr \<Rightarrow> ptr \<Rightarrow> u64 \<Rightarrow> u64 \<Rightarrow> bstate \<Rightarrow> bstate option" where
  "release_object rb env p b off_start buffer_offset s =
     (let al = p_alloc (proc_at s p) in
      case read_u64 al b buffer_offset of None \<Rightarrow> None
      | Some (Inl _) \<Rightarrow> Some s
      | Some (Inr object_offset) \<Rightarrow>
          (case binder_get_object al b object_offset of None \<Rightarrow> None
           | Some (object_size, obj) \<Rightarrow>
               (let ty = object_type obj; fp = to_flat_binder_object obj in
                if object_size = 0 then Some s
                else if ty = BINDER_TYPE_BINDER \<or> ty = BINDER_TYPE_WEAK_BINDER
                then (case binder_get_node p (fb_binder fp) s of
                        (None, s1) \<Rightarrow> Some s1
                      | (Some n, s1) \<Rightarrow>
                          (case binder_dec_node rb n (ty = BINDER_TYPE_BINDER) False s1 of None \<Rightarrow> None
                           | Some s2 \<Rightarrow> binder_put_node rb n s2))
                else if ty = BINDER_TYPE_HANDLE \<or> ty = BINDER_TYPE_WEAK_HANDLE
                then map_option (\<lambda>(_, _, s1). s1) (binder_dec_ref_for_handle rb p (fb_handle fp) (ty = BINDER_TYPE_HANDLE) s)
                else if ty = BINDER_TYPE_FDA then release_fd_array env p b off_start buffer_offset (to_binder_fd_array_object obj) s
                else Some s)))"

partial_function (option) release_loop ::
    "rb_ops \<Rightarrow> release_env \<Rightarrow> ptr \<Rightarrow> ptr \<Rightarrow> u64 \<Rightarrow> u64 \<Rightarrow> u64 \<Rightarrow> bstate \<Rightarrow> bstate option" where
  "release_loop rb env p b off_start off_end buffer_offset s =
     (if buffer_offset \<ge> off_end then Some s
      else case release_object rb env p b off_start buffer_offset s of None \<Rightarrow> None
      | Some s1 \<Rightarrow> release_loop rb env p b off_start off_end (buffer_offset + 8) s1)"

definition binder_transaction_buffer_release ::
    "rb_ops \<Rightarrow> release_env \<Rightarrow> ptr \<Rightarrow> ptr \<Rightarrow> u64 \<Rightarrow> bool \<Rightarrow> bstate \<Rightarrow> bstate option" where
  "binder_transaction_buffer_release rb env p b failed_at is_failure s =
     (let bf = bufs (p_alloc (proc_at s p)) b;
          off_start = ALIGN (data_size bf) 8;
          off_end = (if is_failure then failed_at else off_start + offsets_size bf)
      in case (case b_target_node bf of None \<Rightarrow> Some s | Some n \<Rightarrow> binder_dec_node rb n True False s) of None \<Rightarrow> None
         | Some s1 \<Rightarrow> release_loop rb env p b off_start off_end off_start s1)"

section \<open>Queueing a transaction\<close>

definition binder_proc_transaction :: "ptr \<Rightarrow> ptr \<Rightarrow> ptr option \<Rightarrow> bstate \<Rightarrow> (bool \<times> bstate) option" where
  "binder_proc_transaction t p thread s =
     (case x_buffer (txn_at s t) of None \<Rightarrow> None
      | Some pb \<Rightarrow>
        (case b_target_node (buf_at s pb) of None \<Rightarrow> None
         | Some n \<Rightarrow>
             if oneway s t \<and> thread \<noteq> None then None
             else
               (let pending_async = (oneway s t \<and> has_async_transaction (node_at s n));
                    s1 = (if oneway s t then upd_node n (\<lambda>nd. nd\<lparr>has_async_transaction := True\<rparr>) s else s)
                in if p_is_dead (proc_at s1 p) \<or> (case thread of None \<Rightarrow> False | Some th \<Rightarrow> t_is_dead (thread_at s1 th))
                   then Some (False, s1)
                   else
                     (let (thread', s2) = (if thread = None \<and> \<not> pending_async then binder_select_thread_ilocked p s1 else (thread, s1))
                      in case (case thread' of
                                 Some th \<Rightarrow> binder_enqueue_thread_work_ilocked th (TxnWork t) s2
                               | None \<Rightarrow> if \<not> pending_async then binder_enqueue_work_ilocked (TxnWork t) (Some (ProcTodo p)) s2
                                         else binder_enqueue_work_ilocked (TxnWork t) (Some (NodeAsync n)) s2) of
                           None \<Rightarrow> None
                         | Some s3 \<Rightarrow>
                             Some (True, if \<not> pending_async then binder_wakeup_thread_ilocked p thread' (\<not> oneway s t) s3 else s3)))))"

text \<open>The node with the references taken on it and its process, or nothing when the process is gone.\<close>

definition binder_get_node_refs_for_txn :: "ptr \<Rightarrow> bstate \<Rightarrow> ((ptr \<times> ptr) option \<times> bstate) option" where
  "binder_get_node_refs_for_txn n s =
     (case n_proc (node_at s n) of None \<Rightarrow> Some (None, s)
      | Some p \<Rightarrow>
          (case binder_inc_node_nilocked n True False None s of None \<Rightarrow> None
           | Some (_, s1) \<Rightarrow>
               Some (Some (n, p), upd_proc p (\<lambda>pr. pr\<lparr>p_tmp_ref := p_tmp_ref pr + 1\<rparr>) (binder_inc_node_tmpref_ilocked n s1))))"

section \<open>Freeing a delivered buffer\<close>

text \<open>The next one-way transaction of the node is passed on when the buffer of the last one is freed.\<close>

definition next_async :: "ptr \<Rightarrow> ptr \<Rightarrow> bstate \<Rightarrow> bstate option" where
  "next_async p b s =
     (let bf = bufs (p_alloc (proc_at s p)) b in
      if \<not> async_transaction bf then Some s
      else case b_target_node bf of None \<Rightarrow> Some s
      | Some n \<Rightarrow>
          if \<not> has_async_transaction (node_at s n) then None
          else if n_proc (node_at s n) \<noteq> Some p then None
          else case binder_dequeue_work_head_ilocked (NodeAsync n) s of
                 (None, s1) \<Rightarrow> Some (upd_node n (\<lambda>nd. nd\<lparr>has_async_transaction := False\<rparr>) s1)
               | (Some w, s1) \<Rightarrow>
                   map_option (binder_wakeup_proc_ilocked p) (binder_enqueue_work_ilocked w (Some (ProcTodo p)) s1))"

definition binder_free_buf :: "rb_ops \<Rightarrow> release_env \<Rightarrow> alloc_env \<Rightarrow> ptr \<Rightarrow> ptr \<Rightarrow> bstate \<Rightarrow> bstate option" where
  "binder_free_buf rb env aenv p b s =
     (let s1 = (case b_transaction (bufs (p_alloc (proc_at s p)) b) of None \<Rightarrow> s
                | Some t \<Rightarrow> upd_buf p b (\<lambda>bf. bf\<lparr>b_transaction := None\<rparr>) (upd_txn t (\<lambda>x. x\<lparr>x_buffer := None\<rparr>) s))
      in case next_async p b s1 of None \<Rightarrow> None
         | Some s2 \<Rightarrow>
           (case binder_transaction_buffer_release rb env p b 0 False s2 of None \<Rightarrow> None
            | Some s3 \<Rightarrow>
                map_option (\<lambda>al. set_alloc p al s3) (binder_alloc_free_buf rb aenv b (p_alloc (proc_at s3 p)))))"

end
