(* ===== verification/Binder_Async_Props.thy ===== *)
theory Binder_Async_Props
  imports Binder_Translate Binder_Txn_Props
begin

text \<open>
  One-way transactions to a node: the driver delivers them one at a time and in the order in which
  they were sent; the next is delivered when the buffer of the last one is freed.
\<close>

section \<open>Effects on the waiting list\<close>

lemma wake_frame:
  "wlist (binder_wakeup_thread_ilocked p th sync s) = wlist s" "wpos (binder_wakeup_thread_ilocked p th sync s) = wpos s"
  "node_at (binder_wakeup_thread_ilocked p th sync s) = node_at s" "txn_at (binder_wakeup_thread_ilocked p th sync s) = txn_at s"
  "proc_at (binder_wakeup_thread_ilocked p th sync s) = proc_at s"
proof -
  obtain wk where "fold (\<lambda>t s. if looper (thread_at s t) AND BINDER_LOOPER_STATE_POLL \<noteq> 0 \<and> binder_available_for_proc_work_ilocked t s
                 then wake_up_interruptible sync t s else s) (inorder (p_threads (proc_at s p))) s = s\<lparr>woken := wk\<rparr>"
    using wake_poll_fold by blast
  then show "wlist (binder_wakeup_thread_ilocked p th sync s) = wlist s" "wpos (binder_wakeup_thread_ilocked p th sync s) = wpos s"
    "node_at (binder_wakeup_thread_ilocked p th sync s) = node_at s" "txn_at (binder_wakeup_thread_ilocked p th sync s) = txn_at s"
    "proc_at (binder_wakeup_thread_ilocked p th sync s) = proc_at s"
    by (simp_all add: binder_wakeup_thread_ilocked_def binder_wakeup_poll_threads_ilocked_def wake_up_interruptible_def split: option.split)
qed

definition txn_target :: "bstate \<Rightarrow> ptr \<Rightarrow> ptr option" where
  "txn_target s t = (case x_buffer (txn_at s t) of None \<Rightarrow> None | Some pb \<Rightarrow> b_target_node (buf_at s pb))"

lemma send_async:
  assumes "binder_proc_transaction t p None s = Some (True, s')" "oneway s t" "txn_target s t = Some n"
  shows "has_async_transaction (node_at s' n)"
    "if has_async_transaction (node_at s n)
     then wpos s' (TxnWork t) = Some (NodeAsync n) \<and> wlist s' (NodeAsync n) = wlist s (NodeAsync n) @ [TxnWork t]
     else wlist s' (NodeAsync n) = wlist s (NodeAsync n) \<and>
       (wpos s' (TxnWork t) = Some (ProcTodo p) \<or> (\<exists>th. wpos s' (TxnWork t) = Some (ThreadTodo th)))"
proof -
  obtain pb where pb: "x_buffer (txn_at s t) = Some pb" "b_target_node (buf_at s pb) = Some n"
    using assms(3) by (auto simp: txn_target_def split: option.splits)
  note unf = binder_proc_transaction_def pb option.case Let_def
  have "has_async_transaction (node_at s' n) \<and>
    (if has_async_transaction (node_at s n)
     then wpos s' (TxnWork t) = Some (NodeAsync n) \<and> wlist s' (NodeAsync n) = wlist s (NodeAsync n) @ [TxnWork t]
     else wlist s' (NodeAsync n) = wlist s (NodeAsync n) \<and>
       (wpos s' (TxnWork t) = Some (ProcTodo p) \<or> (\<exists>th. wpos s' (TxnWork t) = Some (ThreadTodo th))))"
    using assms(1,2) unfolding unf
    by (auto simp: wake_frame binder_select_thread_ilocked_def binder_enqueue_thread_work_ilocked_def binder_enqueue_work_ilocked_def
        upd_thread_def split: if_splits option.splits list.splits)
  then show "has_async_transaction (node_at s' n)"
    "if has_async_transaction (node_at s n)
     then wpos s' (TxnWork t) = Some (NodeAsync n) \<and> wlist s' (NodeAsync n) = wlist s (NodeAsync n) @ [TxnWork t]
     else wlist s' (NodeAsync n) = wlist s (NodeAsync n) \<and>
       (wpos s' (TxnWork t) = Some (ProcTodo p) \<or> (\<exists>th. wpos s' (TxnWork t) = Some (ThreadTodo th)))" by auto
qed

definition async_buffer :: "bstate \<Rightarrow> ptr \<Rightarrow> ptr \<Rightarrow> ptr \<Rightarrow> bool" where
  "async_buffer s p b n \<longleftrightarrow> async_transaction (buf_at s (p, b)) \<and> b_target_node (buf_at s (p, b)) = Some n"

lemma finish_async:
  assumes "next_async p b s = Some s'" "async_buffer s p b n"
  shows "has_async_transaction (node_at s n)" "has_async_transaction (node_at s' n) \<longleftrightarrow> wlist s (NodeAsync n) \<noteq> []"
    "distinct (wlist s (NodeAsync n)) \<Longrightarrow> wlist s' (NodeAsync n) = tl (wlist s (NodeAsync n))"
    "wlist s (NodeAsync n) = w # ws \<Longrightarrow> wpos s' w = Some (ProcTodo p)"
proof -
  have "has_async_transaction (node_at s n) \<and> (has_async_transaction (node_at s' n) \<longleftrightarrow> wlist s (NodeAsync n) \<noteq> []) \<and>
      (distinct (wlist s (NodeAsync n)) \<longrightarrow> wlist s' (NodeAsync n) = tl (wlist s (NodeAsync n))) \<and>
      (wlist s (NodeAsync n) = w # ws \<longrightarrow> wpos s' w = Some (ProcTodo p))"
    using assms unfolding next_async_def Let_def async_buffer_def buf_at_def
    by (auto simp: binder_dequeue_work_head_ilocked_def binder_enqueue_work_ilocked_def wakeup_proc_core list_del_def
        split: if_splits list.splits)
  then show "has_async_transaction (node_at s n)" "has_async_transaction (node_at s' n) \<longleftrightarrow> wlist s (NodeAsync n) \<noteq> []"
    "distinct (wlist s (NodeAsync n)) \<Longrightarrow> wlist s' (NodeAsync n) = tl (wlist s (NodeAsync n))"
    "wlist s (NodeAsync n) = w # ws \<Longrightarrow> wpos s' w = Some (ProcTodo p)" by auto
qed

section \<open>Runs\<close>

text \<open>
  The history of a node: the transactions sent to it, those passed to a thread or the process, and how many
  of their buffers have been freed. Whatever else happens leaves the flag and the waiting list alone.
\<close>

inductive async_run :: "ptr \<Rightarrow> ptr \<Rightarrow> bstate \<Rightarrow> ptr list \<Rightarrow> ptr list \<Rightarrow> nat \<Rightarrow> bool" for n p where
  start: "\<not> has_async_transaction (node_at s n) \<Longrightarrow> wlist s (NodeAsync n) = [] \<Longrightarrow> async_run n p s [] [] 0"
| other: "async_run n p s sent passed freed \<Longrightarrow> has_async_transaction (node_at s' n) = has_async_transaction (node_at s n) \<Longrightarrow>
    wlist s' (NodeAsync n) = wlist s (NodeAsync n) \<Longrightarrow> async_run n p s' sent passed freed"
| send: "async_run n p s sent passed freed \<Longrightarrow> oneway s t \<Longrightarrow> txn_target s t = Some n \<Longrightarrow> t \<notin> set sent \<Longrightarrow>
    binder_proc_transaction t p None s = Some (True, s') \<Longrightarrow>
    async_run n p s' (sent @ [t]) (if wpos s' (TxnWork t) = Some (NodeAsync n) then passed else passed @ [t]) freed"
| free: "async_run n p s sent passed freed \<Longrightarrow> async_buffer s p b n \<Longrightarrow> next_async p b s = Some s' \<Longrightarrow>
    async_run n p s' sent (passed @ filter (\<lambda>t. wpos s' (TxnWork t) = Some (ProcTodo p)) (take 1 (drop (length passed) sent))) (Suc freed)"

lemma async_run_fifo:
  assumes "async_run n p s sent passed freed"
  shows "\<exists>waiting. sent = passed @ waiting \<and> wlist s (NodeAsync n) = map TxnWork waiting \<and> distinct sent \<and>
    length passed = freed + (if has_async_transaction (node_at s n) then 1 else 0) \<and>
    (\<not> has_async_transaction (node_at s n) \<longrightarrow> waiting = [])"
  using assms
proof (induction rule: async_run.induct)
  case (send s sent passed freed t s')
  then obtain waiting where w: "sent = passed @ waiting" "wlist s (NodeAsync n) = map TxnWork waiting" "distinct sent"
    "length passed = freed + (if has_async_transaction (node_at s n) then 1 else 0)"
    "\<not> has_async_transaction (node_at s n) \<longrightarrow> waiting = []" by blast
  note a = send_async [OF send.hyps(5,2,3)]
  show ?case
  proof (cases "has_async_transaction (node_at s n)")
    case True
    then show ?thesis using w a send.hyps(4) by (intro exI [of _ "waiting @ [t]"]) auto
  next
    case False
    then show ?thesis using w a send.hyps(4) by (intro exI [of _ "[]"]) auto
  qed
next
  case (free s sent passed freed b s')
  then obtain waiting where w: "sent = passed @ waiting" "wlist s (NodeAsync n) = map TxnWork waiting" "distinct sent"
    "length passed = freed + (if has_async_transaction (node_at s n) then 1 else 0)" by blast
  have "distinct waiting" using w(1,3) by simp
  then have d: "distinct (wlist s (NodeAsync n))" unfolding w(2) by (simp add: distinct_map inj_on_def)
  note a = finish_async [OF free.hyps(3,2)]
  show ?case
  proof (cases waiting)
    case Nil
    then show ?thesis using w a(1,2) a(3) [OF d] by (intro exI [of _ "[]"]) auto
  next
    case (Cons t ts)
    have "wpos s' (TxnWork t) = Some (ProcTodo p)" using a(4) [of "TxnWork t"] w(2) Cons by simp
    then show ?thesis using w a(1,2) a(3) [OF d] Cons by (intro exI [of _ ts]) auto
  qed
qed auto

section \<open>Properties\<close>

text \<open>
  C20. In every history of a node the transactions passed on are the first of those sent, in the same order, the
  rest waits in that order, and at most one is passed on whose buffer is not freed yet. Freeing the buffer of one that
  is under way never hits the driver's \<open>BUG_ON\<close>s in the owner of the node.
\<close>

theorem async_one_at_a_time:
  assumes "async_run n p s sent passed freed"
  shows "(\<exists>waiting. sent = passed @ waiting \<and> wlist s (NodeAsync n) = map TxnWork waiting) \<and> freed \<le> length passed \<and>
    length passed \<le> freed + 1 \<and> (length passed < length sent \<longrightarrow> length passed = freed + 1) \<and>
    (\<forall>b. freed < length passed \<and> async_buffer s p b n \<and> n_proc (node_at s n) = Some p \<longrightarrow> next_async p b s \<noteq> None)"
proof -
  obtain waiting where w: "sent = passed @ waiting" "wlist s (NodeAsync n) = map TxnWork waiting"
    "length passed = freed + (if has_async_transaction (node_at s n) then 1 else 0)"
    "\<not> has_async_transaction (node_at s n) \<longrightarrow> waiting = []"
    using async_run_fifo [OF assms] by blast
  have "next_async p b s \<noteq> None" if "has_async_transaction (node_at s n)" "async_buffer s p b n" "n_proc (node_at s n) = Some p" for b
    using that unfolding next_async_def async_buffer_def buf_at_def
    by (auto simp: binder_dequeue_work_head_ilocked_def binder_enqueue_work_ilocked_def Let_def split: list.splits)
  then show ?thesis using w by (auto split: if_splits)
qed

text \<open>Two one-way transactions to node 4, both with buffer 50 of process 2.\<close>

definition oneway_state :: bstate where
  "oneway_state = (upd_proc 2 (\<lambda>pr. pr\<lparr>p_alloc := (p_alloc pr)\<lparr>bufs := (\<lambda>_. zero_buffer\<lparr>async_transaction := True, b_target_node := Some 4\<rparr>)\<rparr>\<rparr>) sample_state)
     \<lparr>txn_at := (\<lambda>_. sample_txn\<lparr>x_flags := TF_ONE_WAY, to_proc := Some 2, x_buffer := Some (2, 50)\<rparr>)\<rparr>"

lemmas oneway_defs = oneway_state_def sample_txn_def oneway_def TF_ONE_WAY_def txn_target_def buf_at_def sample_alloc_def sample_defs

lemma send_frame:
  assumes "binder_proc_transaction t p None s = Some (r, s')"
  shows "txn_at s' = txn_at s" "p_is_dead (proc_at s' q) = p_is_dead (proc_at s q)" "buf_at s' pb = buf_at s pb"
    "w \<noteq> TxnWork t \<Longrightarrow> wpos s' w = wpos s w"
proof -
  have "txn_at s' = txn_at s \<and> p_is_dead (proc_at s' q) = p_is_dead (proc_at s q) \<and> buf_at s' pb = buf_at s pb \<and>
      (w \<noteq> TxnWork t \<longrightarrow> wpos s' w = wpos s w)"
    using assms unfolding binder_proc_transaction_def
    by (auto simp: wake_frame binder_select_thread_ilocked_def binder_enqueue_thread_work_ilocked_def binder_enqueue_work_ilocked_def
        buf_at_def upd_node_def upd_proc_def upd_thread_def Let_def split: if_splits option.splits list.splits)
  then show "txn_at s' = txn_at s" "p_is_dead (proc_at s' q) = p_is_dead (proc_at s q)" "buf_at s' pb = buf_at s pb"
    "w \<noteq> TxnWork t \<Longrightarrow> wpos s' w = wpos s w" by auto
qed

lemma send_accepted:
  assumes "oneway s t" "txn_target s t = Some n" "\<not> p_is_dead (proc_at s p)" "wpos s (TxnWork t) = None"
  shows "\<exists>s'. binder_proc_transaction t p None s = Some (True, s')"
  using assms unfolding txn_target_def
  by (auto simp: binder_proc_transaction_def Let_def binder_select_thread_ilocked_def binder_enqueue_thread_work_ilocked_def
      binder_enqueue_work_ilocked_def split: option.splits list.splits)

theorem async_one_at_a_time_witness:
  "\<exists>s sent passed freed. async_run 4 2 s sent passed freed \<and> sent = [10, 11] \<and> passed = [10] \<and> wlist s (NodeAsync 4) = [TxnWork 11]"
proof -
  have s0: "async_run 4 2 oneway_state [] [] 0" by (rule start) (simp_all add: oneway_defs)
  have t0: "oneway oneway_state 10" "txn_target oneway_state 10 = Some 4" by (simp_all add: oneway_defs)
  have "\<not> p_is_dead (proc_at oneway_state 2)" "wpos oneway_state (TxnWork 10) = None" by (simp_all add: oneway_defs)
  then obtain s1 where s1: "binder_proc_transaction 10 2 None oneway_state = Some (True, s1)" using send_accepted [OF t0] by blast
  have f1: "oneway s1 11" "txn_target s1 11 = Some 4" "\<not> p_is_dead (proc_at s1 2)" "wpos s1 (TxnWork 11) = None"
    unfolding txn_target_def oneway_def send_frame [OF s1] send_frame(4) [OF s1, of "TxnWork 11", simplified]
    by (simp_all add: oneway_defs)
  note a1 = send_async [OF s1 t0]
  have h0: "\<not> has_async_transaction (node_at oneway_state 4)" by (simp add: oneway_defs)
  have r1: "async_run 4 2 s1 [10] [10] 0" using send [OF s0 t0 _ s1] a1(2) h0 by (auto split: if_splits)
  obtain s2 where s2: "binder_proc_transaction 11 2 None s1 = Some (True, s2)" using send_accepted [OF f1] by blast
  have "async_run 4 2 s2 [10, 11] [10] 0" using send [OF r1 f1(1,2) _ s2] send_async [OF s2 f1(1,2)] a1(1) by simp
  then show ?thesis using async_one_at_a_time [of 4 2 s2 "[10, 11]" "[10]" 0] by auto
qed

end
