(* ===== verification/Binder_Translate_Inv.thy ===== *)
theory Binder_Translate_Inv
  imports Binder_Translate Binder_Handles
begin

text \<open>
  The steps of a translation keep the invariant of nodes and references: looking up or creating the
  node, taking the reference for the receiver, and dropping the temporary reference.
\<close>

section \<open>What taking a reference leaves alone\<close>

definition same_nodes :: "bstate \<Rightarrow> bstate \<Rightarrow> bool" where
  "same_nodes s s' \<longleftrightarrow> node_live s' = node_live s \<and> txn_at s' = txn_at s \<and> (\<forall>t. t_proc (thread_at s' t) = t_proc (thread_at s t)) \<and>
     (\<forall>m. tmp_refs (node_at s' m) = tmp_refs (node_at s m) \<and> n_ptr (node_at s' m) = n_ptr (node_at s m) \<and>
       n_cookie (node_at s' m) = n_cookie (node_at s m) \<and> n_proc (node_at s' m) = n_proc (node_at s m))"

lemma same_nodes_refl [simp]: "same_nodes s s"
  by (simp add: same_nodes_def)

lemma same_nodes_trans: "same_nodes s1 s2 \<Longrightarrow> same_nodes s2 s3 \<Longrightarrow> same_nodes s1 s3"
  by (simp add: same_nodes_def)

lemma same_nodes_inc_node: "binder_inc_node n is_strong internal target s = Some (r, s') \<Longrightarrow> same_nodes s s'"
  unfolding binder_inc_node_def binder_inc_node_nilocked_def Let_def
  by (auto simp: same_nodes_def upd_node_def binder_enqueue_deferred_thread_work_ilocked_def binder_enqueue_work_ilocked_def
      binder_dequeue_work_ilocked_def split: if_splits option.splits worklist.splits)

lemma same_nodes_upd_ref: "same_nodes s (upd_ref_data r f s)"
  by (simp add: same_nodes_def upd_ref_data_def upd_ref_def)

lemma same_nodes_inc_ref: "binder_inc_ref_olocked r is_strong target s = Some (ret, s') \<Longrightarrow> same_nodes s s'"
  unfolding binder_inc_ref_olocked_def Let_def
  by (auto split: if_splits option.splits sum.splits prod.splits
      dest!: same_nodes_inc_node intro: same_nodes_trans [OF _ same_nodes_upd_ref] same_nodes_upd_ref)

lemma same_nodes_get_ref: "binder_get_ref_for_node_olocked rb p n kz s = Some (ret, s') \<Longrightarrow> same_nodes s s'"
  unfolding binder_get_ref_for_node_olocked_def Let_def
  by (auto simp: same_nodes_def upd_ref_def upd_proc_def upd_node_def split: option.splits)

lemma same_nodes_inc_ref_for_node:
  assumes "binder_inc_ref_for_node rb kz id p n is_strong target s = Some (ret, rd, s')"
  shows "same_nodes s s'"
proof -
  obtain r0 s1 where g: "binder_get_ref_for_node_olocked rb p n None s = Some (r0, s1)"
    using assms by (cases "binder_get_ref_for_node_olocked rb p n None s") (auto simp: binder_inc_ref_for_node_def)
  have s1: "s1 = s" using g by (auto simp: binder_get_ref_for_node_olocked_def Let_def split: option.splits)
  show ?thesis
  proof (cases r0)
    case (Some r)
    then show ?thesis using assms g s1 by (auto simp: binder_inc_ref_for_node_def dest: same_nodes_inc_ref)
  next
    case None
    show ?thesis
    proof (cases kz)
      case (Some new)
      let ?s3 = "s\<lparr>ref_at := (ref_at s)(new := zero_ref), ref_live := (ref_live s)(new := True)\<rparr>"
      have s3: "same_nodes s ?s3" by (simp add: same_nodes_def)
      obtain r s4 ret' s5 where i: "binder_get_ref_for_node_olocked rb p n (Some new) ?s3 = Some (Some r, s4)"
        "binder_inc_ref_olocked r is_strong target s4 = Some (ret', s5)"
        "s' = (if r \<noteq> new then s5\<lparr>ref_live := (ref_live s5)(new := False)\<rparr> else s5)"
        using assms g s1 None Some by (auto simp: binder_inc_ref_for_node_def Let_def split: option.splits)
      have "same_nodes s s5" by (rule same_nodes_trans [OF s3 same_nodes_trans [OF same_nodes_get_ref [OF i(1)] same_nodes_inc_ref [OF i(2)]]])
      then show ?thesis by (simp add: same_nodes_def i(3))
    qed (use assms g s1 None in \<open>simp add: binder_inc_ref_for_node_def\<close>)
  qed
qed

section \<open>The node of a binder\<close>

lemma inv_tmpref:
  assumes "inv_but k X s"
  shows "inv_but k X (binder_inc_node_tmpref_ilocked n s)"
proof -
  have "inv_but (k(n := k n + 0)) X (binder_inc_node_tmpref_ilocked n s)"
    unfolding binder_inc_node_tmpref_ilocked_def
    by (rule inv_but_count [OF assms]) (use inv_butD(2) [OF assms, of n] in \<open>auto simp: node_ok_def Let_def\<close>)
  then show ?thesis by simp
qed

lemma core_tmpref: "same_core s (binder_inc_node_tmpref_ilocked n s)"
  unfolding binder_inc_node_tmpref_ilocked_def by (rule same_core_upd_node) simp_all

text \<open>The lookup key of a node in the tree of its owner.\<close>

lemma node_search:
  assumes inv: "binder_inv s" and p: "proc_live s p"
  shows "rb_search (node_key s) u (p_nodes (proc_at s p)) = Some n \<longleftrightarrow>
    n \<in> set (inorder (p_nodes (proc_at s p))) \<and> n_ptr (node_at s n) = u"
  using inv_butD(4) [OF inv p] rb_search_Some [of "node_key s" "p_nodes (proc_at s p)" u n]
  by (simp add: proc_ok_def Let_def node_key_def)

definition fresh_node :: "ptr option \<Rightarrow> bstate \<Rightarrow> bool" where
  "fresh_node kz s \<longleftrightarrow> (case kz of None \<Rightarrow> True | Some new \<Rightarrow> \<not> node_live s new \<and> wlist s (NodeAsync new) = [])"

text \<open>A new node in the tree of its owner.\<close>

definition linked_node :: "rb_ops \<Rightarrow> ptr \<Rightarrow> ptr \<Rightarrow> flat_binder_object \<Rightarrow> bstate \<Rightarrow> bstate" where
  "linked_node rb p new fp s = snd (binder_new_node rb (Some new) p (Some fp) s)"

lemma inv_linked_node:
  assumes rb: "rb_ok rb" and inv: "binder_inv s" and p: "proc_live s p" and new: "fresh_node (Some new) s"
    and none: "rb_search (node_key s) (fb_binder fp) (p_nodes (proc_at s p)) = None"
  shows "binder_new_node rb (Some new) p (Some fp) s = (Some new, linked_node rb p new fp s)" "binder_inv (linked_node rb p new fp s)"
    "node_live (linked_node rb p new fp s) new" "node_at (linked_node rb p new fp s) new = new_node_fields p (last_id s + 1) (Some fp)"
    "ref_at (linked_node rb p new fp s) = ref_at s" "ref_live (linked_node rb p new fp s) = ref_live s"
    "proc_live (linked_node rb p new fp s) = proc_live s" "ctx_at (linked_node rb p new fp s) = ctx_at s"
    "refs_by_desc (proc_at (linked_node rb p new fp s) q) = refs_by_desc (proc_at s q)"
    "p_context (proc_at (linked_node rb p new fp s) q) = p_context (proc_at s q)"
    "txn_at (linked_node rb p new fp s) = txn_at s" "thread_at (linked_node rb p new fp s) = thread_at s"
proof -
  let ?s = "linked_node rb p new fp s"
  have S: "?s = (upd_proc p (\<lambda>pr. pr\<lparr>p_nodes := rb_insert_color rb new (bst_link (\<lambda>n. fb_binder fp < node_key s n) new (p_nodes pr))\<rparr>) s)
     \<lparr>last_id := last_id s + 1, node_at := (node_at s)(new := new_node_fields p (last_id s + 1) (Some fp)),
      wtype := (wtype s)(NodeWork new := BINDER_WORK_NODE), wpos := (wpos s)(NodeWork new := None),
      wlist := (wlist s)(NodeAsync new := []), node_live := (node_live s)(new := True)\<rparr>"
    using none by (simp add: linked_node_def binder_new_node_def binder_init_node_ilocked_def upd_proc_def Let_def)
  show "binder_new_node rb (Some new) p (Some fp) s = (Some new, ?s)" using none
    by (simp add: linked_node_def binder_new_node_def binder_init_node_ilocked_def Let_def)
  show "node_live ?s new" "node_at ?s new = new_node_fields p (last_id s + 1) (Some fp)"
    "ref_at ?s = ref_at s" "ref_live ?s = ref_live s" "proc_live ?s = proc_live s" "ctx_at ?s = ctx_at s"
    "refs_by_desc (proc_at ?s q) = refs_by_desc (proc_at s q)" "p_context (proc_at ?s q) = p_context (proc_at s q)"
    "txn_at ?s = txn_at s" "thread_at ?s = thread_at s"
    unfolding S by (simp_all add: upd_proc_def)
  have nl: "\<not> node_live s new" and na: "wlist s (NodeAsync new) = []" using new by (simp_all add: fresh_node_def)
  have "wpos s (NodeWork new) = None" using inv_butD(1) [OF inv] nl by (auto simp: work_ok_def)
  then have W: "wlist ?s = wlist s" "wpos ?s = wpos s" unfolding S using na by (simp_all add: fun_upd_idem)
  have N: "node_at ?s = (node_at s)(new := new_node_fields p (last_id s + 1) (Some fp))" "node_live ?s = (node_live s)(new := True)"
    "death_live ?s = death_live s" "dead_nodes ?s = dead_nodes s" "refs_by_node (proc_at ?s q) = refs_by_node (proc_at s q)"
    "q \<noteq> p \<Longrightarrow> p_nodes (proc_at ?s q) = p_nodes (proc_at s q)" "refs_by_desc (proc_at ?s q) = refs_by_desc (proc_at s q)" for q
    unfolding S by (simp_all add: upd_proc_def)
  have T: "p_nodes (proc_at ?s p) = rb_insert_color rb new (bst_link (\<lambda>n. fb_binder fp < node_key s n) new (p_nodes (proc_at s p)))"
    unfolding S by (simp add: upd_proc_def)
  have out: "new \<notin> set (inorder (p_nodes (proc_at s q)))" if "proc_live s q" for q
    using inv_butD(4) [OF inv that] nl by (auto simp: proc_ok_def Let_def)
  have key: "n \<noteq> new \<Longrightarrow> node_key ?s n = node_key s n" "node_key ?s new = fb_binder fp" for n
    by (simp_all add: node_key_def N(1) new_node_fields_def Let_def)
  have tree: "keyed (node_key ?s) (inorder (p_nodes (proc_at ?s p)))"
    "set (inorder (p_nodes (proc_at ?s p))) = insert new (set (inorder (p_nodes (proc_at s p))))"
  proof -
    let ?t = "p_nodes (proc_at s p)"
    have k: "keyed (node_key s) (inorder ?t)" using inv_butD(4) [OF inv p] by (simp add: proc_ok_def Let_def)
    have k': "keyed (node_key ?s) (inorder ?t)"
      using k keyed_cong [of "inorder ?t" "node_key ?s" "node_key s"] key(1) out [OF p] by metis
    have nk: "\<forall>y\<in>set (inorder ?t). node_key ?s y \<noteq> node_key ?s new"
      using none key out [OF p] unfolding rb_search_None [OF k] by metis
    have l: "bst_link (\<lambda>n. fb_binder fp < node_key s n) new ?t = bst_link (\<lambda>n. node_key ?s new < node_key ?s n) new ?t"
      unfolding key(2) by (rule bst_link_cong) (metis key(1) out [OF p])
    have io: "inorder (p_nodes (proc_at ?s p)) = inorder (bst_link (\<lambda>n. node_key ?s new < node_key ?s n) new ?t)"
      unfolding l [symmetric] T by (rule rb_okD(1) [OF rb])
    show "keyed (node_key ?s) (inorder (p_nodes (proc_at ?s p)))"
      "set (inorder (p_nodes (proc_at ?s p))) = insert new (set (inorder ?t))"
      unfolding io by (rule keyed_link [OF k' nk])+
  qed
  have mem: "n \<in> set (inorder (p_nodes (proc_at s q))) \<Longrightarrow> n \<in> set (inorder (p_nodes (proc_at ?s q)))" for n q
    using tree(2) N(6) [of q] by (cases "q = p") auto
  note R = \<open>ref_at ?s = ref_at s\<close> \<open>ref_live ?s = ref_live s\<close> \<open>proc_live ?s = proc_live s\<close>
  show "binder_inv ?s"
  proof -
    have node: "node_ok 0 {} ?s m" if m: "node_live ?s m" for m
    proof (cases "m = new")
      case True
      have "strong_refs ?s new = 0" by (simp add: strong_refs_def N(1) new_node_fields_def Let_def)
      then show ?thesis unfolding True node_ok_def Let_def using tree(2) p by (simp add: N(1) new_node_fields_def Let_def R)
    next
      case False
      then have "node_live s m" using m N(2) by simp
      moreover have "strong_refs ?s m = strong_refs s m" using False by (simp add: strong_refs_def N(1) R)
      ultimately show ?thesis
        using inv_butD(2) [OF inv, of m] False mem unfolding node_ok_def Let_def
        by (simp add: N W R split: option.splits del: set_inorder)
    qed
    have ref: "ref_ok {} ?s r" if r: "ref_live s r" for r
    proof -
      have "sole_death {} ?s d r = sole_death {} s d r" for d by (simp add: sole_death_def R)
      then show ?thesis
        using inv_butD(3) [OF inv r] nl unfolding ref_ok_def Let_def by (auto simp: N R split: option.splits)
    qed
    have rk: "ref_desc ?s = ref_desc s" "ref_node_key ?s = ref_node_key s" by (auto simp: fun_eq_iff ref_desc_def ref_node_key_def R)
    have proc: "proc_ok {} ?s q" if q: "proc_live s q" for q
    proof -
      have ok: "proc_ok {} s q" by (rule inv_butD(4) [OF inv q])
      have "keyed (node_key ?s) (inorder (p_nodes (proc_at ?s q)))"
      proof (cases "q = p")
        case False
        then show ?thesis
          using ok keyed_cong [of "inorder (p_nodes (proc_at s q))" "node_key ?s" "node_key s"] key(1) out [OF q] N(6)
          unfolding proc_ok_def Let_def by metis
      qed (use tree(1) in simp)
      moreover have "\<forall>n\<in>set (inorder (p_nodes (proc_at ?s q))). node_live ?s n \<and> n_proc (node_at ?s n) = Some q"
        using ok out [OF q] tree(2) N(6) [of q] by (cases "q = p") (auto simp: proc_ok_def Let_def N(1,2) new_node_fields_def)
      ultimately show ?thesis using ok unfolding proc_ok_def Let_def by (simp add: N(5,7) R rk)
    qed
    have "work_ok ?s" using inv_butD(1) [OF inv] by (simp add: work_ok_def W N)
    then show ?thesis using node ref proc inv_butD(5,6) [OF inv] nl unfolding inv_but_def by (auto simp: N R)
  qed
qed

lemma inv_node_fields:
  assumes "binder_inv s" "proc_live s p" "rb_search (node_key s) u (p_nodes (proc_at s p)) = Some n"
  shows "node_live s n" "n_proc (node_at s n) = Some p" "n_ptr (node_at s n) = u" "0 \<le> tmp_refs (node_at s n)"
proof -
  have n: "n \<in> set (inorder (p_nodes (proc_at s p)))" "n_ptr (node_at s n) = u" using node_search [OF assms(1,2)] assms(3) by auto
  then show "node_live s n" "n_proc (node_at s n) = Some p" "n_ptr (node_at s n) = u"
    using inv_butD(4) [OF assms(1,2)] by (auto simp: proc_ok_def Let_def)
  then show "0 \<le> tmp_refs (node_at s n)" using inv_butD(2) [OF assms(1), of n] by (simp add: node_ok_def Let_def)
qed

text \<open>Same references, same handles.\<close>

lemma option_eq_by_Some: "(\<And>z. x = Some z \<longleftrightarrow> y = Some z) \<Longrightarrow> x = y"
  by (cases x; cases y) auto

lemma handles_cong:
  assumes "ref_at s' = ref_at s" "refs_by_desc (proc_at s' p) = refs_by_desc (proc_at s p)"
  shows "handles s' p = handles s p"
proof -
  have "ref_desc s' = ref_desc s" "ref_view s' = ref_view s" by (intro ext, simp add: ref_desc_def ref_view_def assms(1))+
  then show ?thesis using assms(2) by (intro ext) (simp add: handles_def split: option.split)
qed

lemma handles_same_refs:
  assumes "binder_inv s" "binder_inv s'" "ref_at s' = ref_at s" "ref_live s' = ref_live s" "same_procs s s'" "proc_live s p"
  shows "handles s' p = handles s p"
proof
  fix d
  have k: "ref_desc s' = ref_desc s" "ref_view s' = ref_view s" by (intro ext, simp add: ref_desc_def ref_view_def assms(3))+
  have "rb_search (ref_desc s') d (refs_by_desc (proc_at s' p)) = rb_search (ref_desc s) d (refs_by_desc (proc_at s p))"
    using get_ref_desc [OF assms(1,6), of d] get_ref_desc [OF assms(2), of p d] assms(3-6)
    by (intro option_eq_by_Some) (simp add: k same_procs_def)
  then show "handles s' p d = handles s p d" by (simp add: handles_def k(2) split: option.split)
qed

text \<open>The node of a binder that is sent, found or created, with a temporary reference.\<close>

definition own_node :: "rb_ops \<Rightarrow> txn_env \<Rightarrow> ptr \<Rightarrow> flat_binder_object \<Rightarrow> bstate \<Rightarrow> ptr option \<times> bstate" where
  "own_node rb env p fp s = (case binder_get_node p (fb_binder fp) s of (Some n, s1) \<Rightarrow> (Some n, s1)
     | (None, s1) \<Rightarrow> binder_new_node rb (new_node env) p (Some fp) s1)"

lemma own_node:
  assumes rb: "rb_ok rb" and inv: "binder_inv s" and p: "proc_live s p" and new: "fresh_node (new_node env) s"
  obtains (none) "own_node rb env p fp s = (None, s)" "new_node env = None"
  | (node) n s1 where "own_node rb env p fp s = (Some n, s1)" "binder_inv s1" "node_live s1 n" "0 < tmp_refs (node_at s1 n)"
      "n_proc (node_at s1 n) = Some p" "n_ptr (node_at s1 n) = fb_binder fp" "same_procs s s1" "ref_live s1 = ref_live s"
      "txn_at s1 = txn_at s" "thread_at s1 = thread_at s" "\<And>q. handles s1 q = handles s q"
      "\<And>q. refs_by_desc (proc_at s1 q) = refs_by_desc (proc_at s q)"
proof (cases "rb_search (node_key s) (fb_binder fp) (p_nodes (proc_at s p))")
  case (Some n)
  let ?s1 = "binder_inc_node_tmpref_ilocked n s"
  note f = inv_node_fields [OF inv p Some]
  note c = same_coreD [OF core_tmpref [of s n]]
  have eq: "own_node rb env p fp s = (Some n, ?s1)" using Some by (simp add: own_node_def binder_get_node_def binder_get_node_ilocked_def)
  have t: "0 < tmp_refs (node_at ?s1 n)" using f(4) by (simp add: binder_inc_node_tmpref_ilocked_def)
  have e: "txn_at ?s1 = txn_at s" "thread_at ?s1 = thread_at s" by (simp_all add: binder_inc_node_tmpref_ilocked_def upd_node_def)
  have h: "handles ?s1 q = handles s q" for q by (rule handles_cong) (simp_all add: c)
  show thesis
    by (rule node [OF eq inv_tmpref [OF inv]]) (use f t e same_core_procs [OF core_tmpref] in \<open>simp_all add: c h\<close>)
next
  case None
  have g: "binder_get_node p (fb_binder fp) s = (None, s)" using None by (simp add: binder_get_node_def binder_get_node_ilocked_def)
  show thesis
  proof (cases "new_node env")
    case (Some new')
    note L = inv_linked_node [OF rb inv p _ None, of new']
    have fr: "fresh_node (Some new') s" using new Some by simp
    note L = L [OF fr]
    have eq: "own_node rb env p fp s = (Some new', linked_node rb p new' fp s)" using g Some L(1) by (simp add: own_node_def)
    have h: "handles (linked_node rb p new' fp s) q = handles s q" for q by (rule handles_cong) (simp_all add: L)
    show thesis
      by (rule node [OF eq L(2,3)]) (simp_all add: L(4-12) new_node_fields_def Let_def same_procs_def h)
  qed (use none g in \<open>simp add: own_node_def binder_new_node_def\<close>)
qed

section \<open>Dropping the temporary reference\<close>

lemma put_node:
  assumes rb: "rb_ok rb" and inv: "binder_inv s" and n: "node_live s n" and t: "0 < tmp_refs (node_at s n)"
  obtains s' where "binder_put_node rb n s = Some s'" "binder_inv s'" "ref_at s' = ref_at s" "ref_live s' = ref_live s" "same_procs s s'"
    "\<And>m. m \<noteq> n \<Longrightarrow> node_live s' m = node_live s m" "n_refs (node_at s n) \<noteq> [] \<Longrightarrow> same_core s s'"
proof -
  let ?s1 = "upd_node n (\<lambda>nd. nd\<lparr>tmp_refs := tmp_refs nd - 1\<rparr>) s"
  have "inv_but ((\<lambda>_. 0)(n := 0 + 0)) {} ?s1"
    by (rule inv_but_count [OF inv]) (use inv_butD(2) [OF inv n] t in \<open>auto simp: node_ok_def Let_def\<close>)
  then have inv1: "binder_inv ?s1" by (simp add: fun_upd_idem)
  have core1: "same_core s ?s1" by (rule same_core_upd_node) simp_all
  note c1 = same_coreD [OF core1]
  have eq: "binder_put_node rb n s = binder_dec_node rb n False True ?s1"
    using t by (simp add: binder_put_node_def binder_dec_node_tmpref_def binder_dec_node_def Let_def)
  have n1: "node_live ?s1 n" "may_lower False True (node_at ?s1 n)" using n by (simp_all add: may_lower_def)
  show thesis
    using rb inv1 n1
  proof (cases rule: dec_node)
    case (keep s')
    then show thesis
      using that [of s'] eq same_core_trans [OF core1 keep(3)] same_core_procs same_coreD [OF keep(3)] by (simp add: fun_upd_idem)
  next
    case (free s')
    then show thesis
      using that [of s'] eq same_procs_trans [OF same_core_procs [OF core1] free(7)] by (simp add: fun_upd_idem c1)
  qed
qed

lemma put_node_cookie: "binder_put_node rb n s = Some s' \<Longrightarrow> n_cookie (node_at s' m) = n_cookie (node_at s m)"
  unfolding binder_put_node_def binder_dec_node_tmpref_def binder_dec_node_nilocked_def dec_node_check_def binder_free_node_def Let_def
  by (auto simp: wakeup_proc_core binder_enqueue_work_ilocked_def split: if_splits option.splits)

section \<open>The reference of the receiver\<close>

text \<open>The receiver has a handle on the node and one count more on it, or there was no memory.\<close>

lemma receiver_ref:
  assumes rb: "rb_ok rb" and inv: "binder_inv s" and q: "proc_live s q" and n: "node_live s n" and t: "target_ok is_strong target n s"
    and few: "length (inorder (refs_by_desc (proc_at s q))) < 2 ^ 32 - 1" and fresh: "case kz of None \<Rightarrow> True | Some r \<Rightarrow> \<not> ref_live s r"
  obtains (err) e rd s' where "binder_inc_ref_for_node rb kz id q n is_strong target s = Some (Inl e, rd, s')" "binder_inv s'" "same_procs s s'"
      "e = ENOMEM \<and> kz = None \<and> s' = s \<or> e = EINVAL \<and> target = None"
  | (ok) d h rd s' where "binder_inc_ref_for_node rb kz id q n is_strong target s = Some (Inr (), Some rd, s')" "binder_inv s'" "same_procs s s'"
      "desc rd = d" "entry_for n (first_desc q n s) (handles s q) d h"
      "\<And>x. proc_live s x \<Longrightarrow> handles s' x = (if x = q then (handles s q)(d \<mapsto> count_up is_strong h) else handles s x)"
proof (cases "\<exists>d h. handles s q d = Some h \<and> fst h = n")
  case True
  then obtain d h where h: "handles s q d = Some h" "fst h = n" by blast
  show thesis
    using inv q t h
  proof (cases rule: inc_ref_for_node_old [where rb = rb and kz = kz and intf = id])
    case (bad rd)
    then show thesis using err inv by simp
  next
    case (ok rd s')
    then show thesis using that(2) [of rd s' d h] h by (simp add: entry_for_def)
  qed
next
  case False
  then have none: "\<forall>e g. handles s q e = Some g \<longrightarrow> fst g \<noteq> n" by blast
  show thesis
  proof (cases kz)
    case None
    have "rb_search (ref_node_key s) n (refs_by_node (proc_at s q)) = None" using node_handle [OF inv q] none by blast
    then have "binder_inc_ref_for_node rb kz id q n is_strong target s = Some (Inl ENOMEM, None, s)"
      using None by (simp add: binder_inc_ref_for_node_def binder_get_ref_for_node_olocked_def Let_def)
    then show thesis using err [of ENOMEM None s] inv None by simp
  next
    case (Some new)
    have safe: "safe_interference id q n s" "\<not> ref_live (id s) new" using inv q n few fresh Some by (simp_all add: safe_interference_def)
    obtain d h ret rd s' where i: "binder_inc_ref_for_node rb (Some new) id q n is_strong target s = Some (ret, Some rd, s')"
      "binder_inv s'" "same_procs (id s) s'" "entry_for n (first_desc q n (id s)) (handles (id s) q) d h" "desc rd = d"
      "ret = Inr () \<or> ret = Inl EINVAL \<and> target = None"
      "\<And>x. proc_live (id s) x \<Longrightarrow> handles s' x =
        (if x = q then (handles (id s) q)(d \<mapsto> if ret = Inr () then count_up is_strong h else h) else handles (id s) x)"
      by (rule inc_ref_for_node [OF rb inv q t none safe]) blast
    show thesis
    proof (cases "ret = Inr ()")
      case True
      then show thesis using that(2) [of rd s' d h] i Some by simp
    next
      case False
      then have "ret = Inl EINVAL" "target = None" using i(6) by auto
      then show thesis using err [of EINVAL "Some rd" s'] i(1-3) Some by simp
    qed
  qed
qed

section \<open>Sending a binder\<close>

text \<open>The processes of a translation: the sender's thread and the receiver of the transaction, with nothing else going on.\<close>

definition translation :: "txn_env \<Rightarrow> ptr \<Rightarrow> ptr \<Rightarrow> ptr \<Rightarrow> ptr \<Rightarrow> bstate \<Rightarrow> bool" where
  "translation env t thread p q s \<longleftrightarrow> t_proc (thread_at s thread) = p \<and> to_proc (txn_at s t) = Some q \<and> proc_live s p \<and> proc_live s q \<and>
     others env = id \<and> fresh_node (new_node env) s \<and> (case new_ref env of None \<Rightarrow> True | Some r \<Rightarrow> \<not> ref_live s r) \<and>
     length (inorder (refs_by_desc (proc_at s q))) < 2 ^ 32 - 1"

definition handle_for :: "flat_binder_object \<Rightarrow> u32 \<Rightarrow> flat_binder_object" where
  "handle_for fp d = fp\<lparr>fb_type := if fb_type fp = BINDER_TYPE_BINDER then BINDER_TYPE_HANDLE else BINDER_TYPE_WEAK_HANDLE,
     fb_binder := ucast d, fb_cookie := 0\<rparr>"

lemma entry_in_refs:
  assumes inv: "binder_inv s" and p: "proc_live s p" and h: "handles s p d = Some h" "fst h = n"
  shows "n_refs (node_at s n) \<noteq> []" "node_live s n"
proof -
  obtain r where r: "ref_live s r" "r_proc (ref_at s r) = p" "ref_desc s r = d" using h(1) handles_None [OF inv p, of d] by auto
  then have "ref_view s r = Some h" using handles_ref [OF inv p r(1,2)] h(1) by simp
  then have "r_node (ref_at s r) = Some n" using h(2) by (auto simp: ref_view_def)
  then show "n_refs (node_at s n) \<noteq> []" "node_live s n" using inv_butD(3) [OF inv r(1)] by (auto simp: ref_ok_def Let_def)
qed

lemma handles_nonneg:
  assumes inv: "binder_inv s" and p: "proc_live s p" and h: "handles s p d = Some (n, st, wk)"
  shows "0 \<le> st \<and> 0 \<le> wk"
proof -
  obtain r where r: "ref_live s r" "r_proc (ref_at s r) = p" "ref_desc s r = d" using h handles_None [OF inv p, of d] by auto
  then have "ref_view s r = Some (n, st, wk)" using handles_ref [OF inv p r(1,2)] h by simp
  then show ?thesis using inv_butD(3) [OF inv r(1)] by (auto simp: ref_ok_def Let_def ref_view_def)
qed

lemma translate_binder:
  assumes rb: "rb_ok rb" and inv: "binder_inv s" and tr: "translation env t thread p q s"
  obtains (fail) e s' where "binder_translate_binder rb env fp t thread s = Some (Inl e, s')" "binder_inv s'"
      "\<And>x. proc_live s x \<Longrightarrow> handles s' x = handles s x"
  | (ok) d h n s' where "binder_translate_binder rb env fp t thread s = Some (Inr (handle_for fp d), s')" "binder_inv s'" "same_procs s s'"
      "entry_for n (first_desc q n s) (handles s q) d h" "n_proc (node_at s' n) = Some p" "n_ptr (node_at s' n) = fb_binder fp"
      "n_cookie (node_at s' n) = fb_cookie fp" "node_live s' n"
      "\<And>x. proc_live s x \<Longrightarrow> handles s' x = (if x = q then (handles s q)(d \<mapsto> count_up (fb_type fp = BINDER_TYPE_BINDER) h) else handles s x)"
proof -
  note T = tr [unfolded translation_def]
  have pl: "proc_live s p" "proc_live s q" and fr: "fresh_node (new_node env) s" using T by auto
  have P: "t_proc (thread_at s thread) = p" "to_proc (txn_at s t) = Some q" "others env = id" using T by auto
  let ?st = "fb_type fp = BINDER_TYPE_BINDER"
  have unf: "binder_translate_binder rb env fp t thread s =
     (let (node, s1) = own_node rb env p fp s in
      case node of None \<Rightarrow> Some (Inl ENOMEM, s1)
      | Some n \<Rightarrow>
          if fb_cookie fp \<noteq> n_cookie (node_at s1 n) then put_after rb n (Inl EINVAL) s1
          else if forbid_binder env p q then put_after rb n (Inl EPERM) s1
          else case binder_inc_ref_for_node rb (new_ref env) id q n ?st (Some (ThreadTodo thread)) s1 of None \<Rightarrow> None
          | Some (Inl e, _, s2) \<Rightarrow> put_after rb n (Inl e) s2
          | Some (Inr _, None, s2) \<Rightarrow> None
          | Some (Inr _, Some rdata, s2) \<Rightarrow> put_after rb n (Inr (handle_for fp (desc rdata))) s2)"
    unfolding binder_translate_binder_def Let_def P option.case own_node_def handle_for_def ..
  show thesis
    using rb inv pl(1) fr
  proof (cases rule: own_node [where fp = fp])
    case none
    then show thesis using fail [of ENOMEM s] inv unf by simp
  next
    case (node n s1)
    have live1: "proc_live s1 x = proc_live s x" for x using node(7) by (simp add: same_procs_def)
    have undo: thesis if e: "binder_translate_binder rb env fp t thread s = put_after rb n (Inl e) s1" for e
    proof -
      obtain s' where s': "binder_put_node rb n s1 = Some s'" "binder_inv s'" "ref_at s' = ref_at s1" "ref_live s' = ref_live s1" "same_procs s1 s'"
        by (rule put_node [OF rb node(2,3,4)]) blast
      have "handles s' x = handles s x" if "proc_live s x" for x
        using handles_same_refs [OF node(2) s'(2-5)] that live1 node(11) by simp
      then show thesis using fail [OF _ s'(2)] e s'(1) by (simp add: put_after_def)
    qed
    show thesis
    proof (cases "fb_cookie fp \<noteq> n_cookie (node_at s1 n) \<or> forbid_binder env p q")
      case True
      then have "\<exists>e. binder_translate_binder rb env fp t thread s = put_after rb n (Inl e) s1" unfolding unf node(1) by auto
      then show thesis using undo by blast
    next
      case False
      have q1: "proc_live s1 q" using pl(2) live1 by simp
      have tgt: "target_ok ?st (Some (ThreadTodo thread)) n s1" using node(5) by (simp add: target_ok_def)
      have few: "length (inorder (refs_by_desc (proc_at s1 q))) < 2 ^ 32 - 1" using T node(12) [of q] by simp
      have fresh: "case new_ref env of None \<Rightarrow> True | Some r \<Rightarrow> \<not> ref_live s1 r"
        using T node(8) by (simp split: option.splits)
      show thesis
        using rb node(2) q1 node(3) tgt few fresh
      proof (cases rule: receiver_ref)
        case (err e rd s2)
        then have "binder_translate_binder rb env fp t thread s = put_after rb n (Inl e) s1" using False unfolding unf node(1) by auto
        then show thesis by (rule undo)
      next
        case (ok d h rd s2)
        note S2 = same_nodes_inc_ref_for_node [OF ok(1), unfolded same_nodes_def]
        have h: "handles s2 q d = Some (count_up ?st h)" using ok(6) [OF q1] by simp
        have fh: "fst h = n" using ok(5) by (auto simp: entry_for_def)
        then have fst_h: "fst (count_up ?st h) = n" by (cases h) simp
        have q2: "proc_live s2 q" using q1 ok(3) by (simp add: same_procs_def)
        note refs = entry_in_refs [OF ok(2) q2 h fst_h]
        have t2: "0 < tmp_refs (node_at s2 n)" using S2 node(4) by simp
        obtain s' where s': "binder_put_node rb n s2 = Some s'" "binder_inv s'" "same_core s2 s'"
          by (rule put_node [OF rb ok(2) refs(2) t2]) (use refs(1) in blast)
        note c = same_coreD [OF s'(3)]
        have eq: "binder_translate_binder rb env fp t thread s = Some (Inr (handle_for fp d), s')"
          using False ok(1,4) s'(1) unfolding unf node(1) by (simp add: put_after_def)
        have fd: "first_desc q n s1 = first_desc q n s" using node(7) by (simp add: first_desc_def context_mgr_of_def same_procs_def)
        have tab: "handles s' x = (if x = q then (handles s q)(d \<mapsto> count_up ?st h) else handles s x)" if x: "proc_live s x" for x
        proof -
          have "handles s' x = handles s2 x" by (rule handles_cong) (simp_all add: c)
          then show ?thesis using ok(6) [of x] x live1 node(11) by simp
        qed
        show thesis
        proof (rule that(2) [OF eq s'(2)])
          show "same_procs s s'"
            using same_procs_trans [OF node(7) same_procs_trans [OF ok(3) same_core_procs [OF s'(3)]]] .
          show "entry_for n (first_desc q n s) (handles s q) d h" using ok(5) fd node(11) by simp
          show "n_cookie (node_at s' n) = fb_cookie fp" using put_node_cookie [OF s'(1), of n] S2 False by simp
        qed (use S2 node(5,6) refs(2) tab in \<open>simp_all add: c\<close>)
      qed
    qed
  qed
qed

section \<open>Sending a handle back to the owner\<close>

definition binder_for :: "flat_binder_object \<Rightarrow> binder_node \<Rightarrow> flat_binder_object" where
  "binder_for fp nd = fp\<lparr>fb_type := if fb_type fp = BINDER_TYPE_HANDLE then BINDER_TYPE_BINDER else BINDER_TYPE_WEAK_BINDER,
     fb_binder := n_ptr nd, fb_cookie := n_cookie nd\<rparr>"

lemma translate_handle_owner:
  assumes rb: "rb_ok rb" and inv: "binder_inv s" and q: "t_proc (thread_at s thread) = q" "proc_live s q"
    and h: "handles s q (fb_handle fp) = Some h" "visible (fb_type fp = BINDER_TYPE_HANDLE) h"
    and own: "to_proc (txn_at s t) = Some p" "n_proc (node_at s (fst h)) = Some p" "\<not> forbid_binder env q p"
  obtains s' where "binder_translate_handle rb env fp t thread s = Some (Inr (binder_for fp (node_at s (fst h))), s')" "binder_inv s'"
proof -
  let ?st = "fb_type fp = BINDER_TYPE_HANDLE" and ?n = "fst h"
  obtain r where r: "binder_get_ref_olocked q (fb_handle fp) ?st s = Some r"
    using get_ref_olocked_None [OF inv q(2), of "fb_handle fp" ?st] h by fastforce
  note g = get_ref_olocked [OF inv q(2) r]
  have rn: "r_node (ref_at s r) = Some ?n" using g(4) h(1) by (cases "r_node (ref_at s r)") (auto simp: ref_view_def)
  let ?s1 = "binder_inc_node_tmpref_ilocked ?n s"
  have gn: "binder_get_node_from_ref q (fb_handle fp) ?st s = Some (Some (?n, r_data (ref_at s r)), ?s1)"
    using r rn by (simp add: binder_get_node_from_ref_def binder_inc_node_tmpref_def)
  have inv1: "binder_inv ?s1" by (rule inv_tmpref [OF inv])
  have n: "node_live s ?n" "0 \<le> tmp_refs (node_at s ?n)"
    using ref_view_live [OF inv g(1)] rn inv_butD(2) [OF inv, of ?n] by (auto simp: node_ok_def Let_def)
  have N1: "node_at ?s1 ?n = (node_at s ?n)\<lparr>tmp_refs := tmp_refs (node_at s ?n) + 1\<rparr>" "node_live ?s1 ?n"
    using n by (simp_all add: binder_inc_node_tmpref_ilocked_def)
  have bst: "(fb_type (binder_for fp (node_at s ?n)) = BINDER_TYPE_BINDER) = ?st" by (simp add: binder_for_def type_defs)
  have tgt: "target_ok ?st None ?n ?s1" by (simp add: target_ok_def)
  obtain x s2 where s2: "binder_inc_node ?n ?st False None ?s1 = Some (x, s2)" "binder_inv s2"
    by (rule inc_node [OF inv1 N1(2) tgt, of False]) (auto simp: fun_upd_idem)
  note S2 = same_nodes_inc_node [OF s2(1), unfolded same_nodes_def]
  have l2: "node_live s2 ?n" "0 < tmp_refs (node_at s2 ?n)" using S2 N1 n by simp_all
  obtain s' where s': "binder_put_node rb ?n s2 = Some s'" "binder_inv s'" by (rule put_node [OF rb s2(2) l2]) blast
  have same: "binder_for fp (node_at ?s1 ?n) = binder_for fp (node_at s ?n)" by (simp add: N1 binder_for_def)
  have "binder_translate_handle rb env fp t thread s = Some (Inr (binder_for fp (node_at s ?n)), s')"
    unfolding binder_translate_handle_def Let_def q(1) gn option.case prod.case own(1)
    using own(2,3) N1(1) s2(1) s'(1) bst same
    by (simp add: put_after_def binder_for_def [symmetric] binder_inc_node_def)
  then show thesis using that s'(2) by blast
qed

end
