(* ===== verification/Binder_Translate_Props.thy ===== *)
theory Binder_Translate_Props
  imports Binder_Translate_Inv Binder_Sample
begin

text \<open>
  The properties of the translation of binders and handles.
\<close>

text \<open>What the receiver gets for a binder: a handle on the sender's node.\<close>

definition received :: "flat_binder_object \<Rightarrow> ptr \<Rightarrow> ptr \<Rightarrow> bstate \<Rightarrow> bstate \<Rightarrow> flat_binder_object \<Rightarrow> bool" where
  "received fp p q s s' fp' \<longleftrightarrow>
     (\<exists>d h n. fp' = handle_for fp d \<and> entry_for n (if context_mgr_of s q = Some n then 0 else 1) (handles s q) d h \<and>
        node_live s' n \<and> n_proc (node_at s' n) = Some p \<and> n_ptr (node_at s' n) = fb_binder fp \<and> n_cookie (node_at s' n) = fb_cookie fp \<and>
        (\<forall>x. proc_live s x \<longrightarrow> handles s' x =
           (if x = q then (handles s q)(d \<mapsto> count_up (fb_type fp = BINDER_TYPE_BINDER) h) else handles s x)))"

text \<open>
  Sending a local binder never faults and keeps the invariant. On success the object becomes a handle of
  the receiver that its table maps to the sender's node with that pointer and cookie, with one count more of
  the kind asked for, and no other handle of any process changes; on failure no table changes.
\<close>

theorem translate_binder_gives_handle:
  assumes "rb_ok rb" "binder_inv s" "translation env t thread p q s"
  shows "\<exists>ret s'. binder_translate_binder rb env fp t thread s = Some (ret, s') \<and> binder_inv s' \<and>
    (case ret of Inl e \<Rightarrow> \<forall>x. proc_live s x \<longrightarrow> handles s' x = handles s x | Inr fp' \<Rightarrow> received fp p q s s' fp')"
  using assms
proof (cases rule: translate_binder [where fp = fp])
  case (fail e s')
  then show ?thesis by auto
next
  case (ok d h n s')
  then have "received fp p q s s' (handle_for fp d)" unfolding received_def first_desc_def by blast
  then show ?thesis using ok(1,2) by auto
qed

definition quiet_env :: txn_env where
  "quiet_env = \<lparr>new_node = Some 12, new_ref = Some 13, others = id, forbid_binder = (\<lambda>_ _. False), fget = (\<lambda>_. None),
     forbid_file = (\<lambda>_ _ _. False), new_fixup = (\<lambda>_. True)\<rparr>"

definition sending_state :: bstate where
  "sending_state = sample_state\<lparr>txn_at := (\<lambda>t. sample_txn\<lparr>to_proc := Some (if t = 10 then 3 else 2)\<rparr>)\<rparr>"

definition sent_binder :: flat_binder_object where
  "sent_binder = \<lparr>fb_type = BINDER_TYPE_BINDER, fb_flags = 0, fb_binder = 0x1000, fb_cookie = 0x2000\<rparr>"

lemma sending_inv: "binder_inv sending_state"
proof (rule inv_but_core [OF sample_inv])
  show "same_core sample_state sending_state" by (simp add: same_core_def sending_state_def)
  show "work_ok sending_state" using inv_butD(1) [OF sample_inv] by (simp add: work_ok_def sending_state_def)
  show "wpos sending_state (NodeWork m) = None" for m by (simp add: sending_state_def sample_state_def)
qed (use inv_butD(2) [OF sample_inv] in \<open>auto simp: sending_state_def node_ok_def Let_def\<close>)

lemma sending_translation: "translation quiet_env 10 6 2 3 sending_state"
  by (simp add: translation_def quiet_env_def sending_state_def fresh_node_def sample_defs)

theorem translate_binder_gives_handle_witness:
  "\<exists>ret s'. binder_translate_binder plain_rb quiet_env sent_binder 10 6 sending_state = Some (ret, s') \<and> binder_inv s'"
  using translate_binder_gives_handle [OF plain_rb_ok sending_inv sending_translation, of sent_binder] by blast

text \<open>
  C21. A binder that was sent and comes back as the handle it became is the same object for its owner: the
  same type, pointer and cookie.
\<close>

theorem binder_handle_round_trip:
  assumes "rb_ok rb" "binder_inv s" "translation env t thread p q s" "binder_translate_binder rb env fp t thread s = Some (Inr fp', s')"
    and "fb_type fp \<in> {BINDER_TYPE_BINDER, BINDER_TYPE_WEAK_BINDER}"
    and "t_proc (thread_at s' thread2) = q" "to_proc (txn_at s' t2) = Some p" "\<not> forbid_binder env2 q p"
  shows "\<exists>fp'' s''. binder_translate_handle rb env2 fp' t2 thread2 s' = Some (Inr fp'', s'') \<and> fp'' = fp \<and> binder_inv s''"
  using assms(1-3)
proof (cases rule: translate_binder [where fp = fp])
  case (fail e s1)
  then show ?thesis using assms(4) by simp
next
  case (ok d h n s1)
  have e: "fp' = handle_for fp d" "s1 = s'" using ok(1) assms(4) by simp_all
  let ?st = "fb_type fp = BINDER_TYPE_BINDER" and ?h = "count_up (fb_type fp = BINDER_TYPE_BINDER) h"
  have q: "proc_live s q" "proc_live s' q" using assms(3) ok(3) e(2) by (simp_all add: translation_def same_procs_def)
  have fh: "fst h = n" using ok(4) by (auto simp: entry_for_def)
  then have fh': "fst ?h = n" by (cases h) simp
  have hd: "fb_handle fp' = d" by (simp add: e fb_handle_def handle_for_def ucast_down_ucast_id is_down)
  have ty: "(fb_type fp' = BINDER_TYPE_HANDLE) = ?st" by (simp add: e handle_for_def type_defs)
  have h': "handles s' q (fb_handle fp') = Some ?h" using ok(9) [OF q(1)] e(2) hd by simp
  have nn: "0 \<le> fst (snd h)"
    using ok(4) handles_nonneg [OF assms(2) q(1), of d n "fst (snd h)" "snd (snd h)"] by (auto simp: entry_for_def)
  then have vis: "visible (fb_type fp' = BINDER_TYPE_HANDLE) ?h" unfolding ty by (cases h) auto
  have own: "n_proc (node_at s' (fst ?h)) = Some p" using ok(5) fh' e(2) by simp
  obtain s'' where "binder_translate_handle rb env2 fp' t2 thread2 s' = Some (Inr (binder_for fp' (node_at s' (fst ?h))), s'')" "binder_inv s''"
    by (rule translate_handle_owner [OF assms(1) ok(2) [unfolded e(2)] assms(6) q(2) h' vis assms(7) own assms(8)])
  moreover have "binder_for fp' (node_at s' (fst ?h)) = fp"
    using ok(6,7) fh' e(2) assms(5) ty by (auto simp: binder_for_def e(1) handle_for_def type_defs)
  ultimately show ?thesis by auto
qed

definition old_binder :: flat_binder_object where
  "old_binder = \<lparr>fb_type = BINDER_TYPE_BINDER, fb_flags = 0, fb_binder = 0, fb_cookie = 0\<rparr>"

theorem binder_handle_round_trip_witness:
  "\<exists>fp' s' s''. binder_translate_binder plain_rb quiet_env old_binder 10 6 sending_state = Some (Inr fp', s') \<and> fb_handle fp' = 1 \<and>
     binder_translate_handle plain_rb quiet_env fp' 11 7 s' = Some (Inr old_binder, s'')"
proof -
  obtain fp' s' where t: "binder_translate_binder plain_rb quiet_env old_binder 10 6 sending_state = Some (Inr fp', s')" "fb_handle fp' = 1"
    "t_proc (thread_at s' 7) = 3" "to_proc (txn_at s' 11) = Some 2"
    by (simp add: binder_translate_binder_def binder_get_node_def binder_get_node_ilocked_def binder_inc_ref_for_node_def
        binder_get_ref_for_node_olocked_def binder_inc_ref_olocked_def put_after_def binder_put_node_def binder_dec_node_tmpref_def
        binder_dec_node_nilocked_def binder_inc_node_tmpref_ilocked_def Let_def node_key_def ref_node_key_def upd_ref_data_def upd_ref_def
        upd_node_def fb_handle_def old_binder_def quiet_env_def sending_state_def sample_defs)
  then show ?thesis
    using binder_handle_round_trip [OF plain_rb_ok sending_inv sending_translation t(1) _ t(3,4), of quiet_env]
    by (auto simp: old_binder_def quiet_env_def)
qed

end
