(* ===== verification/Binder_Send.thy ===== *)
theory Binder_Send
  imports Binder_Translate
begin

text \<open>
  Sending a transaction or a reply (\<open>binder_transaction\<close>): finding the target, the buffer in the space of the
  target, the objects, and the delivery, with the clean-up of every error path. \<open>None\<close> is a \<open>BUG_ON\<close>, an access
  through a missing pointer or a loop that never ends. The entry of the diagnostic log is not modelled.
\<close>

section \<open>Requests\<close>

definition BR_TRANSACTION_COMPLETE :: u32 where "BR_TRANSACTION_COMPLETE = 0x7206"

record binder_transaction_data =
  td_handle :: u32
  td_code :: u32
  td_flags :: u32
  td_data_size :: u64
  td_offsets_size :: u64
  td_buffer :: u64
  td_offsets :: u64

text \<open>
  What the kernel decides while a transaction is sent: the bytes readable at a user address, the allocations, the
  security hook, the identity and priority of the sender, and for the object whose offset stands at a given place the
  decisions of its translation.
\<close>

record send_env =
  user_bytes :: "u64 \<Rightarrow> u8 list"
  new_txn :: "ptr option"
  new_complete :: "ptr option"
  buf_env :: alloc_env
  close_env :: release_env
  obj_env :: "u64 \<Rightarrow> txn_env"
  forbid_transaction :: "ptr \<Rightarrow> ptr \<Rightarrow> bool"
  before_acq :: "bstate \<Rightarrow> bstate"
  task_euid :: nat
  task_nice :: int

record txn_target =
  tg_proc :: "ptr option"
  tg_thread :: "ptr option"
  tg_node :: "ptr option"
  in_reply_to :: "ptr option"

definition no_target :: txn_target where
  "no_target = \<lparr>tg_proc = None, tg_thread = None, tg_node = None, in_reply_to = None\<rparr>"

definition td_one_way :: "binder_transaction_data \<Rightarrow> bool" where
  "td_one_way tr \<longleftrightarrow> td_flags tr AND TF_ONE_WAY \<noteq> 0"

section \<open>The target\<close>

text \<open>
  The target of a reply is the thread that waits for it. The priority that the thread gets back is not part of the
  state.
\<close>

definition reply_target ::
    "rb_ops \<Rightarrow> send_env \<Rightarrow> ptr \<Rightarrow> bstate \<Rightarrow> ((u32 + unit) \<times> txn_target \<times> bstate) option" where
  "reply_target rb env thread s =
     (case transaction_stack (thread_at s thread) of None \<Rightarrow> Some (Inl BR_FAILED_REPLY, no_target, s)
      | Some t \<Rightarrow>
          if to_thread (txn_at s t) \<noteq> Some thread then Some (Inl BR_FAILED_REPLY, no_target, s)
          else
            (let s1 = upd_thread thread (\<lambda>th. th\<lparr>transaction_stack := to_parent (txn_at s t)\<rparr>) s in
             case binder_get_txn_from_and_acq_inner rb (buf_env env) (before_acq env) t s1 of None \<Rightarrow> None
             | Some (None, s2) \<Rightarrow> Some (Inl BR_DEAD_REPLY, no_target\<lparr>in_reply_to := Some t\<rparr>, s2)
             | Some (Some th, s2) \<Rightarrow>
                 if transaction_stack (thread_at s2 th) \<noteq> Some t then Some (Inl BR_FAILED_REPLY, no_target, s2)
                 else
                   (let q = t_proc (thread_at s2 th) in
                    Some (Inr (), no_target\<lparr>tg_proc := Some q, tg_thread := Some th, in_reply_to := Some t\<rparr>,
                      upd_proc q (\<lambda>pr. pr\<lparr>p_tmp_ref := p_tmp_ref pr + 1\<rparr>) s2))))"

text \<open>The node of a call, with the references taken on it and on its process, or the error.\<close>

definition node_for_txn :: "ptr \<Rightarrow> bstate \<Rightarrow> ((u32 + ptr \<times> ptr) \<times> bstate) option" where
  "node_for_txn n s =
     (case binder_get_node_refs_for_txn n s of None \<Rightarrow> None
      | Some (None, s1) \<Rightarrow> Some (Inl BR_DEAD_REPLY, s1)
      | Some (Some np, s1) \<Rightarrow> Some (Inr np, s1))"

definition lookup_target :: "ptr \<Rightarrow> u32 \<Rightarrow> bstate \<Rightarrow> ((u32 + ptr \<times> ptr) \<times> bstate) option" where
  "lookup_target p handle s =
     (if handle \<noteq> 0 then
        (case binder_get_ref_olocked p handle True s of None \<Rightarrow> Some (Inl BR_FAILED_REPLY, s)
         | Some r \<Rightarrow> (case r_node (ref_at s r) of None \<Rightarrow> None | Some n \<Rightarrow> node_for_txn n s))
      else
        (case context_mgr_of s p of None \<Rightarrow> Some (Inl BR_DEAD_REPLY, s)
         | Some n \<Rightarrow> node_for_txn n s))"

text \<open>A thread of the target process that waits, further up the stack, for the sender.\<close>

partial_function (option) waiting_caller :: "ptr \<Rightarrow> bstate \<Rightarrow> ptr option \<Rightarrow> ptr option option" where
  "waiting_caller q s tmp =
     (case tmp of None \<Rightarrow> Some None
      | Some t \<Rightarrow>
          (case x_from (txn_at s t) of
             Some th \<Rightarrow> if t_proc (thread_at s th) = q then Some (Some th) else waiting_caller q s (from_parent (txn_at s t))
           | None \<Rightarrow> waiting_caller q s (from_parent (txn_at s t))))"

definition todo_head_is_txn :: "ptr \<Rightarrow> bstate \<Rightarrow> bool" where
  "todo_head_is_txn thread s \<longleftrightarrow>
     (case wlist s (ThreadTodo thread) of [] \<Rightarrow> False | w # _ \<Rightarrow> wtype s w = BINDER_WORK_TRANSACTION)"

definition call_thread :: "ptr \<Rightarrow> binder_transaction_data \<Rightarrow> txn_target \<Rightarrow> ptr \<Rightarrow> bstate \<Rightarrow>
    ((u32 + unit) \<times> txn_target \<times> bstate) option" where
  "call_thread thread tr tg q s =
     (if td_one_way tr then Some (Inr (), tg, s)
      else if todo_head_is_txn thread s then Some (Inl BR_FAILED_REPLY, tg, s)
      else case transaction_stack (thread_at s thread) of None \<Rightarrow> Some (Inr (), tg, s)
      | Some t \<Rightarrow>
          if to_thread (txn_at s t) \<noteq> Some thread then Some (Inl BR_FAILED_REPLY, tg, s)
          else (case waiting_caller q s (Some t) of None \<Rightarrow> None
            | Some None \<Rightarrow> Some (Inr (), tg, s)
            | Some (Some th) \<Rightarrow>
                Some (Inr (), tg\<lparr>tg_thread := Some th\<rparr>, upd_thread th (\<lambda>r. r\<lparr>t_tmp_ref := t_tmp_ref r + 1\<rparr>) s)))"

definition call_target ::
    "send_env \<Rightarrow> ptr \<Rightarrow> binder_transaction_data \<Rightarrow> bstate \<Rightarrow> ((u32 + unit) \<times> txn_target \<times> bstate) option" where
  "call_target env thread tr s =
     (let p = t_proc (thread_at s thread) in
      case lookup_target p (td_handle tr) s of None \<Rightarrow> None
      | Some (Inl e, s1) \<Rightarrow> Some (Inl e, no_target, s1)
      | Some (Inr (n, q), s1) \<Rightarrow>
          (let tg = no_target\<lparr>tg_proc := Some q, tg_node := Some n\<rparr> in
           if td_handle tr = 0 \<and> p_pid (proc_at s1 q) = p_pid (proc_at s1 p) then Some (Inl BR_FAILED_REPLY, tg, s1)
           else if p = q then Some (Inl BR_FAILED_REPLY, tg, s1)
           else if forbid_transaction env p q then Some (Inl BR_FAILED_REPLY, tg, s1)
           else call_thread thread tr tg q s1))"

section \<open>The security context\<close>

text \<open>The wrappers of \<^verbatim>\<open>src/binder/compat.h\<close>: the context is always empty.\<close>

record compat_lsm_ctx =
  lsm_context :: "u8 list option"
  lsm_len :: u32

definition COMPAT_LSM_CTX_INIT :: compat_lsm_ctx where
  "COMPAT_LSM_CTX_INIT = \<lparr>lsm_context = None, lsm_len = 0\<rparr>"

definition compat_task_getsecid :: "ptr \<Rightarrow> u32" where
  "compat_task_getsecid tsk = 0"

definition compat_secid_to_secctx :: "u32 \<Rightarrow> compat_lsm_ctx \<Rightarrow> unit result \<times> compat_lsm_ctx" where
  "compat_secid_to_secctx secid ctx = (Inr (), ctx\<lparr>lsm_context := None, lsm_len := 0\<rparr>)"

definition compat_secctx_data :: "compat_lsm_ctx \<Rightarrow> u8 list option" where
  "compat_secctx_data ctx = lsm_context ctx"

definition compat_secctx_len :: "compat_lsm_ctx \<Rightarrow> u32" where
  "compat_secctx_len ctx = lsm_len ctx"

definition secctx_size :: "compat_lsm_ctx \<Rightarrow> u64" where
  "secctx_size ctx = ALIGN (ucast (compat_secctx_len ctx)) 8"

text \<open>The context and the size of the extra buffers with it; \<open>None\<close> stands for the two failures.\<close>

definition add_secctx :: "ptr option \<Rightarrow> ptr \<Rightarrow> u64 \<Rightarrow> bstate \<Rightarrow> (compat_lsm_ctx \<times> u64) option" where
  "add_secctx node p extra s =
     (case node of
        Some n \<Rightarrow>
          if txn_security_ctx (node_at s n)
          then (case compat_secid_to_secctx (compat_task_getsecid p) COMPAT_LSM_CTX_INIT of
                  (Inl _, _) \<Rightarrow> None
                | (Inr _, ctx) \<Rightarrow>
                    (let extra' = extra + secctx_size ctx in if extra' < secctx_size ctx then None else Some (ctx, extra')))
          else Some (COMPAT_LSM_CTX_INIT, extra)
      | None \<Rightarrow> Some (COMPAT_LSM_CTX_INIT, extra))"

text \<open>Copying the context to the end of the buffer.\<close>

definition put_secctx :: "compat_lsm_ctx \<Rightarrow> binder_transaction_data \<Rightarrow> u64 \<Rightarrow> ptr \<Rightarrow> ptr \<Rightarrow> ptr \<Rightarrow> bstate \<Rightarrow> bstate option" where
  "put_secctx ctx tr extra q b t s =
     (case compat_secctx_data ctx of None \<Rightarrow> Some s
      | Some bytes \<Rightarrow>
          (let buf_offset = ALIGN (td_data_size tr) 8 + ALIGN (td_offsets_size tr) 8 + ALIGN extra 8 - secctx_size ctx;
               al = p_alloc (proc_at s q) in
           case binder_alloc_copy_to_buffer b buf_offset bytes al of None \<Rightarrow> None
           | Some (Inl _, al') \<Rightarrow> Some (upd_txn t (\<lambda>x. x\<lparr>x_security_ctx := 0\<rparr>) (set_alloc q al' s))
           | Some (Inr _, al') \<Rightarrow>
               Some (upd_txn t (\<lambda>x. x\<lparr>x_security_ctx := user_data (bufs al b) + buf_offset\<rparr>) (set_alloc q al' s))))"

section \<open>The objects\<close>

text \<open>What the loop over the objects carries along.\<close>

record obj_loop =
  off_min :: u64
  sg_buf_offset :: u64
  last_fixup_obj_off :: u64
  last_fixup_min_off :: u64

definition write_object :: "ptr \<Rightarrow> ptr \<Rightarrow> u64 \<Rightarrow> u8 list \<Rightarrow> bstate \<Rightarrow> (unit result \<times> bstate) option" where
  "write_object q b off bytes s =
     map_option (\<lambda>(r, al). (r, set_alloc q al s)) (binder_alloc_copy_to_buffer b off bytes (p_alloc (proc_at s q)))"

definition send_flat ::
    "rb_ops \<Rightarrow> txn_env \<Rightarrow> u8 list \<Rightarrow> u64 \<Rightarrow> ptr \<Rightarrow> ptr \<Rightarrow> ptr \<times> ptr \<Rightarrow> bstate \<Rightarrow> (unit result \<times> bstate) option" where
  "send_flat rb env obj object_offset t thread pb s =
     (let fp = to_flat_binder_object obj in
      case (if fb_type fp = BINDER_TYPE_BINDER \<or> fb_type fp = BINDER_TYPE_WEAK_BINDER
            then binder_translate_binder rb env fp t thread s else binder_translate_handle rb env fp t thread s) of None \<Rightarrow> None
      | Some (Inl e, s1) \<Rightarrow> Some (Inl e, s1)
      | Some (Inr fp', s1) \<Rightarrow> write_object (fst pb) (snd pb) object_offset (flat_bytes fp') s1)"

definition send_fd ::
    "txn_env \<Rightarrow> u8 list \<Rightarrow> u64 \<Rightarrow> ptr \<Rightarrow> ptr \<Rightarrow> ptr option \<Rightarrow> ptr \<times> ptr \<Rightarrow> bstate \<Rightarrow> (unit result \<times> bstate) option" where
  "send_fd env obj object_offset t thread irt pb s =
     (case binder_translate_fd env (fdo_fd (to_binder_fd_object obj)) (object_offset + 8) t thread irt s of None \<Rightarrow> None
      | Some (Inl e, s1) \<Rightarrow> Some (Inl e, s1)
      | Some (Inr _, s1) \<Rightarrow>
          write_object (fst pb) (snd pb) object_offset (take 8 obj @ replicate 8 0 @ take 8 (drop 16 obj)) s1)"

definition send_fd_array ::
    "txn_env \<Rightarrow> u8 list \<Rightarrow> u64 \<Rightarrow> u64 \<Rightarrow> obj_loop \<Rightarrow> ptr \<Rightarrow> ptr \<Rightarrow> ptr option \<Rightarrow> ptr \<times> ptr \<Rightarrow> bstate \<Rightarrow>
     (obj_loop result \<times> bstate) option" where
  "send_fd_array env obj off_start num_valid lp t thread irt pb s =
     (let fda = to_binder_fd_array_object obj; al = p_alloc (proc_at s (fst pb)); b = snd pb in
      case binder_validate_ptr al b (fda_parent fda) off_start num_valid of None \<Rightarrow> None
      | Some None \<Rightarrow> Some (Inl EINVAL, s)
      | Some (Some (parent, parent_offset)) \<Rightarrow>
          (case binder_validate_fixup al b off_start parent_offset (fda_parent_offset fda)
                  (last_fixup_obj_off lp) (last_fixup_min_off lp) of None \<Rightarrow> None
           | Some False \<Rightarrow> Some (Inl EINVAL, s)
           | Some True \<Rightarrow>
               (case binder_translate_fd_array env fda parent t thread irt s of None \<Rightarrow> None
                | Some (Inl e, s1) \<Rightarrow> Some (Inl e, s1)
                | Some (Inr _, s1) \<Rightarrow>
                    Some (Inr (lp\<lparr>last_fixup_obj_off := parent_offset,
                               last_fixup_min_off := fda_parent_offset fda + 4 * num_fds fda\<rparr>), s1))))"

definition send_ptr ::
    "send_env \<Rightarrow> u8 list \<Rightarrow> u64 \<Rightarrow> u64 \<Rightarrow> u64 \<Rightarrow> u64 \<Rightarrow> obj_loop \<Rightarrow> ptr \<Rightarrow> ptr \<times> ptr \<Rightarrow> bstate \<Rightarrow>
     (obj_loop result \<times> bstate) option" where
  "send_ptr env obj object_offset off_start num_valid sg_buf_end lp t pb s =
     (let bp = to_binder_buffer_object obj; al = p_alloc (proc_at s (fst pb)); b = snd pb in
      if bbo_length bp > sg_buf_end - sg_buf_offset lp then Some (Inl EINVAL, s)
      else case binder_alloc_copy_user_to_buffer b (sg_buf_offset lp) (user_bytes env (bbo_buffer bp)) (bbo_length bp) al of
        None \<Rightarrow> None
      | Some (rest, al1) \<Rightarrow>
          (let s1 = set_alloc (fst pb) al1 s in
           if rest \<noteq> 0 then Some (Inl EFAULT, s1)
           else
             (let bp' = bp\<lparr>bbo_buffer := user_data (bufs al1 b) + sg_buf_offset lp\<rparr> in
              case binder_fixup_parent t bp' off_start num_valid (last_fixup_obj_off lp) (last_fixup_min_off lp) s1 of None \<Rightarrow> None
              | Some (Inl e, s2) \<Rightarrow> Some (Inl e, s2)
              | Some (Inr _, s2) \<Rightarrow>
                  (case write_object (fst pb) b object_offset
                          (take 8 obj @ word_bytes 8 (bbo_buffer bp') @ take 24 (drop 16 obj)) s2 of None \<Rightarrow> None
                   | Some (Inl e, s3) \<Rightarrow> Some (Inl e, s3)
                   | Some (Inr _, s3) \<Rightarrow>
                       Some (Inr (lp\<lparr>sg_buf_offset := sg_buf_offset lp + ALIGN (bbo_length bp) 8,
                                  last_fixup_obj_off := object_offset, last_fixup_min_off := 0\<rparr>), s3)))))"

text \<open>One round of the loop: the object whose offset stands at \<open>buffer_offset\<close>.\<close>

definition send_object ::
    "rb_ops \<Rightarrow> send_env \<Rightarrow> u64 \<Rightarrow> u64 \<Rightarrow> u64 \<Rightarrow> obj_loop \<Rightarrow> ptr \<Rightarrow> ptr \<Rightarrow> ptr option \<Rightarrow> ptr \<times> ptr \<Rightarrow> bstate \<Rightarrow>
     (obj_loop result \<times> bstate) option" where
  "send_object rb env off_start sg_buf_end buffer_offset lp t thread irt pb s =
     (let al = p_alloc (proc_at s (fst pb)); b = snd pb in
      case read_u64 al b buffer_offset of None \<Rightarrow> None
      | Some (Inl _) \<Rightarrow> Some (Inl EINVAL, s)
      | Some (Inr object_offset) \<Rightarrow>
          (case binder_get_object al b object_offset of None \<Rightarrow> None
           | Some (object_size, obj) \<Rightarrow>
               if object_size = 0 \<or> object_offset < off_min lp then Some (Inl EINVAL, s)
               else
                 (let ty = object_type obj; oe = obj_env env buffer_offset;
                      lp1 = lp\<lparr>off_min := object_offset + object_size\<rparr>;
                      num_valid = (buffer_offset - off_start) div 8 in
                  if ty = BINDER_TYPE_BINDER \<or> ty = BINDER_TYPE_WEAK_BINDER \<or> ty = BINDER_TYPE_HANDLE \<or> ty = BINDER_TYPE_WEAK_HANDLE
                  then map_option (map_prod (map_sum id (\<lambda>_. lp1)) id) (send_flat rb oe obj object_offset t thread pb s)
                  else if ty = BINDER_TYPE_FD
                  then map_option (map_prod (map_sum id (\<lambda>_. lp1)) id) (send_fd oe obj object_offset t thread irt pb s)
                  else if ty = BINDER_TYPE_FDA then send_fd_array oe obj off_start num_valid lp1 t thread irt pb s
                  else if ty = BINDER_TYPE_PTR then send_ptr env obj object_offset off_start num_valid sg_buf_end lp1 t pb s
                  else Some (Inl EINVAL, s))))"

text \<open>The result of the loop has the offset at which it failed.\<close>

partial_function (option) send_objects ::
    "rb_ops \<Rightarrow> send_env \<Rightarrow> u64 \<Rightarrow> u64 \<Rightarrow> u64 \<Rightarrow> u64 \<Rightarrow> obj_loop \<Rightarrow> ptr \<Rightarrow> ptr \<Rightarrow> ptr option \<Rightarrow> ptr \<times> ptr \<Rightarrow> bstate \<Rightarrow>
     ((u64 + u64) \<times> bstate) option" where
  "send_objects rb env off_start off_end sg_buf_end buffer_offset lp t thread irt pb s =
     (if buffer_offset \<ge> off_end then Some (Inr buffer_offset, s)
      else case send_object rb env off_start sg_buf_end buffer_offset lp t thread irt pb s of None \<Rightarrow> None
      | Some (Inl _, s1) \<Rightarrow> Some (Inl buffer_offset, s1)
      | Some (Inr lp', s1) \<Rightarrow> send_objects rb env off_start off_end sg_buf_end (buffer_offset + 8) lp' t thread irt pb s1)"

section \<open>The new transaction\<close>

definition new_txn_fields ::
    "send_env \<Rightarrow> nat \<Rightarrow> ptr \<Rightarrow> txn_target \<Rightarrow> binder_transaction_data \<Rightarrow> bool \<Rightarrow> binder_transaction" where
  "new_txn_fields env did thread tg tr reply =
     \<lparr>x_debug_id = did, x_from = (if \<not> reply \<and> \<not> td_one_way tr then Some thread else None), from_parent = None,
      to_proc = tg_proc tg, to_thread = tg_thread tg, to_parent = None, need_reply = False, x_buffer = None,
      x_code = td_code tr, x_flags = td_flags tr, x_priority = task_nice env, saved_priority = 0,
      sender_euid = task_euid env, fd_fixups = [], x_security_ctx = 0\<rparr>"

text \<open>The memory that \<open>kzalloc\<close> returns: the transaction and its completion, both on no list.\<close>

definition alloc_txn :: "ptr \<Rightarrow> binder_transaction \<Rightarrow> bstate \<Rightarrow> bstate" where
  "alloc_txn t x s = s\<lparr>txn_at := (txn_at s)(t := x), txn_live := (txn_live s)(t := True), wpos := (wpos s)(TxnWork t := None)\<rparr>"

definition kfree_txn :: "ptr \<Rightarrow> bstate \<Rightarrow> bstate option" where
  "kfree_txn t s = (if txn_live s t then Some (s\<lparr>txn_live := (txn_live s)(t := False)\<rparr>) else None)"

section \<open>The data\<close>

text \<open>
  Filling the buffer: the data and the offsets from user space, then the objects. The result has the offset to which
  the objects were translated.
\<close>

definition send_data ::
    "rb_ops \<Rightarrow> send_env \<Rightarrow> ptr \<Rightarrow> binder_transaction_data \<Rightarrow> compat_lsm_ctx \<Rightarrow> u64 \<Rightarrow> txn_target \<Rightarrow> ptr \<Rightarrow> ptr \<times> ptr \<Rightarrow> bstate \<Rightarrow>
     ((u64 + u64) \<times> bstate) option" where
  "send_data rb env thread tr ctx extra tg t pb s =
     (let q = fst pb; b = snd pb; off_start = ALIGN (td_data_size tr) 8 in
      case binder_alloc_copy_user_to_buffer b 0 (user_bytes env (td_buffer tr)) (td_data_size tr) (p_alloc (proc_at s q)) of None \<Rightarrow> None
      | Some (rest, al1) \<Rightarrow>
          (let s1 = set_alloc q al1 s in
           if rest \<noteq> 0 then Some (Inl 0, s1)
           else case binder_alloc_copy_user_to_buffer b off_start (user_bytes env (td_offsets tr)) (td_offsets_size tr) al1 of None \<Rightarrow> None
           | Some (rest2, al2) \<Rightarrow>
               (let s2 = set_alloc q al2 s1 in
                if rest2 \<noteq> 0 then Some (Inl 0, s2)
                else if \<not> IS_ALIGNED (td_offsets_size tr) 8 then Some (Inl 0, s2)
                else if \<not> IS_ALIGNED extra 8 then Some (Inl 0, s2)
                else
                  (let off_end = off_start + td_offsets_size tr; sg = ALIGN off_end 8 in
                   send_objects rb env off_start off_end (sg + extra - secctx_size ctx) off_start
                     \<lparr>off_min = 0, sg_buf_offset = sg, last_fixup_obj_off = 0, last_fixup_min_off = 0\<rparr>
                     t thread (in_reply_to tg) pb s2))))"

section \<open>Delivery\<close>

text \<open>\<open>False\<close>: the target died meanwhile.\<close>

definition deliver_reply :: "ptr \<Rightarrow> ptr \<Rightarrow> ptr \<Rightarrow> txn_target \<Rightarrow> ptr \<times> ptr \<Rightarrow> bstate \<Rightarrow> (bool \<times> bstate) option" where
  "deliver_reply thread t c tg pb s =
     (case binder_enqueue_thread_work thread (CompleteWork c) s of None \<Rightarrow> None
      | Some s1 \<Rightarrow>
        (case (tg_thread tg, in_reply_to tg) of
           (Some th, Some irt) \<Rightarrow>
             if t_is_dead (thread_at s1 th) then Some (False, s1)
             else if async_transaction (buf_at s1 pb) then None
             else
               (case binder_pop_transaction_ilocked (Some th) irt s1 of None \<Rightarrow> None
                | Some s2 \<Rightarrow>
                  (case binder_enqueue_thread_work_ilocked th (TxnWork t) s2 of None \<Rightarrow> None
                   | Some s3 \<Rightarrow>
                       map_option (\<lambda>s4. (True, s4)) (binder_free_transaction irt (wake_up_interruptible True th s3))))
         | _ \<Rightarrow> None))"

definition deliver_call :: "ptr \<Rightarrow> ptr \<Rightarrow> ptr \<Rightarrow> ptr \<Rightarrow> txn_target \<Rightarrow> ptr \<times> ptr \<Rightarrow> bstate \<Rightarrow> (bool \<times> bstate) option" where
  "deliver_call thread t c q tg pb s =
     (if async_transaction (buf_at s pb) then None
      else case binder_enqueue_deferred_thread_work_ilocked thread (CompleteWork c) s of None \<Rightarrow> None
      | Some s1 \<Rightarrow>
          (let s2 = upd_txn t (\<lambda>x. x\<lparr>need_reply := True, from_parent := transaction_stack (thread_at s1 thread)\<rparr>) s1;
               s3 = upd_thread thread (\<lambda>th. th\<lparr>transaction_stack := Some t\<rparr>) s2
           in case binder_proc_transaction t q (tg_thread tg) s3 of None \<Rightarrow> None
              | Some (True, s4) \<Rightarrow> Some (True, s4)
              | Some (False, s4) \<Rightarrow> map_option (\<lambda>s5. (False, s5)) (binder_pop_transaction_ilocked (Some thread) t s4)))"

definition deliver_one_way :: "ptr \<Rightarrow> ptr \<Rightarrow> ptr \<Rightarrow> ptr \<Rightarrow> txn_target \<Rightarrow> ptr \<times> ptr \<Rightarrow> bstate \<Rightarrow> (bool \<times> bstate) option" where
  "deliver_one_way thread t c q tg pb s =
     (if tg_node tg = None \<or> \<not> async_transaction (buf_at s pb) then None
      else case binder_enqueue_thread_work thread (CompleteWork c) s of None \<Rightarrow> None
      | Some s1 \<Rightarrow> binder_proc_transaction t q None s1)"

definition deliver ::
    "ptr \<Rightarrow> ptr \<Rightarrow> ptr \<Rightarrow> ptr \<Rightarrow> txn_target \<Rightarrow> bool \<Rightarrow> ptr \<times> ptr \<Rightarrow> bstate \<Rightarrow> (bool \<times> bstate) option" where
  "deliver thread t c q tg reply pb s =
     (let s1 = s\<lparr>wtype := (wtype s)(CompleteWork c := BINDER_WORK_TRANSACTION_COMPLETE, TxnWork t := BINDER_WORK_TRANSACTION)\<rparr> in
      if reply then deliver_reply thread t c tg pb s1
      else if \<not> oneway s1 t then deliver_call thread t c q tg pb s1
      else deliver_one_way thread t c q tg pb s1)"

section \<open>Error paths\<close>

text \<open>The temporary references on the target that are dropped on every path.\<close>

definition put_target :: "rb_ops \<Rightarrow> alloc_env \<Rightarrow> txn_target \<Rightarrow> bstate \<Rightarrow> bstate option" where
  "put_target rb env tg s =
     (case (case tg_thread tg of None \<Rightarrow> Some s | Some th \<Rightarrow> binder_thread_dec_tmpref rb env th s) of None \<Rightarrow> None
      | Some s1 \<Rightarrow> (case tg_proc tg of None \<Rightarrow> Some s1 | Some q \<Rightarrow> binder_proc_dec_tmpref rb env q s1))"

text \<open>From \<open>err_copy_data_failed\<close> on: the buffer goes, and with it the strong reference on the target node.\<close>

definition undo_buffer :: "rb_ops \<Rightarrow> send_env \<Rightarrow> u64 \<Rightarrow> txn_target \<Rightarrow> ptr \<Rightarrow> ptr \<times> ptr \<Rightarrow> bstate \<Rightarrow> bstate option" where
  "undo_buffer rb env buffer_offset tg t pb s =
     (let q = fst pb; b = snd pb in
      case binder_transaction_buffer_release rb (close_env env) q b buffer_offset True (binder_free_txn_fixups t s) of None \<Rightarrow> None
      | Some s1 \<Rightarrow>
        (case (case tg_node tg of None \<Rightarrow> Some s1 | Some n \<Rightarrow> binder_dec_node_tmpref rb n s1) of None \<Rightarrow> None
         | Some s2 \<Rightarrow>
             (let s3 = upd_buf q b (\<lambda>bf. bf\<lparr>b_transaction := None\<rparr>) s2 in
              map_option (\<lambda>al. set_alloc q al s3) (binder_alloc_free_buf rb (buf_env env) b (p_alloc (proc_at s3 q))))))"

text \<open>From \<open>err_invalid_target_handle\<close> on: the references on the target go and the sender is told.\<close>

definition send_failed ::
    "rb_ops \<Rightarrow> send_env \<Rightarrow> ptr \<Rightarrow> u32 \<Rightarrow> txn_target \<Rightarrow> bstate \<Rightarrow> bstate option" where
  "send_failed rb env thread return_error tg s =
     (case put_target rb (buf_env env) tg s of None \<Rightarrow> None
      | Some s1 \<Rightarrow>
        (case (case tg_node tg of None \<Rightarrow> Some s1
               | Some n \<Rightarrow> (case binder_dec_node rb n True False s1 of None \<Rightarrow> None | Some s2 \<Rightarrow> binder_dec_node_tmpref rb n s2)) of
           None \<Rightarrow> None
         | Some s2 \<Rightarrow>
             if return_error_cmd (thread_at s2 thread) \<noteq> BR_OK then None
             else
               (case in_reply_to tg of
                  Some irt \<Rightarrow>
                    (case binder_enqueue_thread_work thread (ReturnErrorWork thread)
                            (upd_thread thread (\<lambda>th. th\<lparr>return_error_cmd := BR_TRANSACTION_COMPLETE\<rparr>) s2) of None \<Rightarrow> None
                     | Some s3 \<Rightarrow> binder_send_failed_reply rb (buf_env env) (before_acq env) irt return_error s3)
                | None \<Rightarrow>
                    binder_enqueue_thread_work thread (ReturnErrorWork thread)
                      (upd_thread thread (\<lambda>th. th\<lparr>return_error_cmd := return_error\<rparr>) s2))))"

definition send_undone ::
    "rb_ops \<Rightarrow> send_env \<Rightarrow> ptr \<Rightarrow> u32 \<Rightarrow> u64 \<Rightarrow> txn_target \<Rightarrow> ptr \<Rightarrow> ptr \<times> ptr \<Rightarrow> bstate \<Rightarrow> bstate option" where
  "send_undone rb env thread return_error buffer_offset tg t pb s =
     (case undo_buffer rb env buffer_offset tg t pb s of None \<Rightarrow> None
      | Some s1 \<Rightarrow>
        (case kfree_txn t s1 of None \<Rightarrow> None
         | Some s2 \<Rightarrow> send_failed rb env thread return_error (tg\<lparr>tg_node := None\<rparr>) s2))"

section \<open>The whole\<close>

text \<open>The end of a transaction that was delivered.\<close>

definition send_done :: "rb_ops \<Rightarrow> send_env \<Rightarrow> txn_target \<Rightarrow> bstate \<Rightarrow> bstate option" where
  "send_done rb env tg s =
     (case put_target rb (buf_env env) tg s of None \<Rightarrow> None
      | Some s1 \<Rightarrow> (case tg_node tg of None \<Rightarrow> Some s1 | Some n \<Rightarrow> binder_dec_node_tmpref rb n s1))"

text \<open>With the buffer of the transaction in place.\<close>

definition send_buffer ::
    "rb_ops \<Rightarrow> send_env \<Rightarrow> ptr \<Rightarrow> binder_transaction_data \<Rightarrow> bool \<Rightarrow> compat_lsm_ctx \<Rightarrow> u64 \<Rightarrow> txn_target \<Rightarrow> ptr \<Rightarrow> ptr \<Rightarrow> ptr \<times> ptr \<Rightarrow>
     bstate \<Rightarrow> bstate option" where
  "send_buffer rb env thread tr reply ctx extra tg t c pb s =
     (case put_secctx ctx tr extra (fst pb) (snd pb) t s of None \<Rightarrow> None
      | Some s1 \<Rightarrow>
          (let s2 = upd_buf (fst pb) (snd pb) (\<lambda>bf. bf\<lparr>b_debug_id := x_debug_id (txn_at s1 t), b_transaction := Some t,
                      b_target_node := tg_node tg\<rparr>) s1
           in case send_data rb env thread tr ctx extra tg t pb s2 of None \<Rightarrow> None
              | Some (Inl off, s3) \<Rightarrow> send_undone rb env thread BR_FAILED_REPLY off tg t pb s3
              | Some (Inr off, s3) \<Rightarrow>
                  (case deliver thread t c (fst pb) tg reply pb s3 of None \<Rightarrow> None
                   | Some (True, s4) \<Rightarrow> send_done rb env tg s4
                   | Some (False, s4) \<Rightarrow>
                       send_undone rb env thread BR_DEAD_REPLY off tg t pb (binder_dequeue_work (CompleteWork c) s4))))"

text \<open>With the target found.\<close>

definition send_to ::
    "rb_ops \<Rightarrow> send_env \<Rightarrow> ptr \<Rightarrow> binder_transaction_data \<Rightarrow> bool \<Rightarrow> u64 \<Rightarrow> nat \<Rightarrow> txn_target \<Rightarrow> bstate \<Rightarrow> bstate option" where
  "send_to rb env thread tr reply extra did tg s =
     (case (tg_proc tg, new_txn env) of
        (None, _) \<Rightarrow> None
      | (Some q, None) \<Rightarrow> send_failed rb env thread BR_FAILED_REPLY tg s
      | (Some q, Some t) \<Rightarrow>
          (let s1 = alloc_txn t (new_txn_fields env did thread tg tr reply) s;
               failed = (\<lambda>err s'. case kfree_txn t s' of None \<Rightarrow> None | Some s'' \<Rightarrow> send_failed rb env thread err tg s'')
           in case new_complete env of None \<Rightarrow> failed BR_FAILED_REPLY s1
              | Some c \<Rightarrow>
                  (let s2 = s1\<lparr>wpos := (wpos s1)(CompleteWork c := None)\<rparr> in
                   case add_secctx (tg_node tg) (t_proc (thread_at s2 thread)) extra s2 of None \<Rightarrow> failed BR_FAILED_REPLY s2
                   | Some (ctx, extra') \<Rightarrow>
                       (case binder_alloc_new_buf rb (buf_env env) (td_data_size tr) (td_offsets_size tr) extra'
                               (\<not> reply \<and> oneway s2 t) (p_alloc (proc_at s2 q)) of None \<Rightarrow> None
                        | Some (Inl e, al) \<Rightarrow> failed (if e = ESRCH then BR_DEAD_REPLY else BR_FAILED_REPLY) (set_alloc q al s2)
                        | Some (Inr b, al) \<Rightarrow>
                            send_buffer rb env thread tr reply ctx extra' tg t c (q, b)
                              (upd_txn t (\<lambda>x. x\<lparr>x_buffer := Some (q, b)\<rparr>) (set_alloc q al s2))))))"

definition binder_transaction_fn ::
    "rb_ops \<Rightarrow> send_env \<Rightarrow> ptr \<Rightarrow> binder_transaction_data \<Rightarrow> bool \<Rightarrow> u64 \<Rightarrow> bstate \<Rightarrow> bstate option" where
  "binder_transaction_fn rb env thread tr reply extra s =
     (let s0 = s\<lparr>last_id := last_id s + 1\<rparr> in
      case (if reply then reply_target rb env thread s0 else call_target env thread tr s0) of None \<Rightarrow> None
      | Some (Inl e, tg, s1) \<Rightarrow> send_failed rb env thread e tg s1
      | Some (Inr _, tg, s1) \<Rightarrow> send_to rb env thread tr reply extra (last_id s0) tg s1)"

end
