(* ===== verification/Binder_Write.thy ===== *)
theory Binder_Write
  imports Binder_Send
begin

text \<open>
  The commands of user space (\<open>binder_thread_write\<close>): the stream of commands of a thread is read from user memory and
  carried out one after the other. \<open>None\<close> is a \<open>BUG_ON\<close>, an access through a missing pointer or a loop that never ends.
  The statistics counters are not modelled.
\<close>

section \<open>Commands\<close>

definition BC_TRANSACTION :: u32 where "BC_TRANSACTION = 0x40406300"
definition BC_REPLY :: u32 where "BC_REPLY = 0x40406301"
definition BC_ACQUIRE_RESULT :: u32 where "BC_ACQUIRE_RESULT = 0x40046302"
definition BC_FREE_BUFFER :: u32 where "BC_FREE_BUFFER = 0x40086303"
definition BC_INCREFS :: u32 where "BC_INCREFS = 0x40046304"
definition BC_ACQUIRE :: u32 where "BC_ACQUIRE = 0x40046305"
definition BC_RELEASE :: u32 where "BC_RELEASE = 0x40046306"
definition BC_DECREFS :: u32 where "BC_DECREFS = 0x40046307"
definition BC_INCREFS_DONE :: u32 where "BC_INCREFS_DONE = 0x40106308"
definition BC_ACQUIRE_DONE :: u32 where "BC_ACQUIRE_DONE = 0x40106309"
definition BC_ATTEMPT_ACQUIRE :: u32 where "BC_ATTEMPT_ACQUIRE = 0x4008630a"
definition BC_REGISTER_LOOPER :: u32 where "BC_REGISTER_LOOPER = 0x630b"
definition BC_ENTER_LOOPER :: u32 where "BC_ENTER_LOOPER = 0x630c"
definition BC_EXIT_LOOPER :: u32 where "BC_EXIT_LOOPER = 0x630d"
definition BC_REQUEST_DEATH_NOTIFICATION :: u32 where "BC_REQUEST_DEATH_NOTIFICATION = 0x400c630e"
definition BC_CLEAR_DEATH_NOTIFICATION :: u32 where "BC_CLEAR_DEATH_NOTIFICATION = 0x400c630f"
definition BC_DEAD_BINDER_DONE :: u32 where "BC_DEAD_BINDER_DONE = 0x40086310"
definition BC_TRANSACTION_SG :: u32 where "BC_TRANSACTION_SG = 0x40486311"
definition BC_REPLY_SG :: u32 where "BC_REPLY_SG = 0x40486312"
definition BR_ERROR :: u32 where "BR_ERROR = 0x80047200"

lemmas bc_defs = BC_TRANSACTION_def BC_REPLY_def BC_ACQUIRE_RESULT_def BC_FREE_BUFFER_def BC_INCREFS_def BC_ACQUIRE_def
  BC_RELEASE_def BC_DECREFS_def BC_INCREFS_DONE_def BC_ACQUIRE_DONE_def BC_ATTEMPT_ACQUIRE_def BC_REGISTER_LOOPER_def
  BC_ENTER_LOOPER_def BC_EXIT_LOOPER_def BC_REQUEST_DEATH_NOTIFICATION_def BC_CLEAR_DEATH_NOTIFICATION_def
  BC_DEAD_BINDER_DONE_def BC_TRANSACTION_SG_def BC_REPLY_SG_def

text \<open>What the kernel decides while one command is carried out.\<close>

record write_env =
  w_send :: send_env
  w_new_ref :: "ptr option"
  w_others :: "bstate \<Rightarrow> bstate"
  w_new_death :: "ptr option"

section \<open>Counts\<close>

text \<open>\<open>Inl\<close> ends the whole call with that error; \<open>Inr\<close> goes on with the next command.\<close>

definition update_by_handle :: "rb_ops \<Rightarrow> ptr \<Rightarrow> u32 \<Rightarrow> bool \<Rightarrow> bool \<Rightarrow> bstate \<Rightarrow> (unit result \<times> bstate) option" where
  "update_by_handle rb p target increment is_strong s =
     map_option (\<lambda>(_, _, s1). (Inr (), s1)) (binder_update_ref_for_handle rb p target increment is_strong s)"

definition bc_refs :: "rb_ops \<Rightarrow> write_env \<Rightarrow> ptr \<Rightarrow> u32 \<Rightarrow> u32 \<Rightarrow> bstate \<Rightarrow> (unit result \<times> bstate) option" where
  "bc_refs rb env p cmd target s =
     (let is_strong = (cmd = BC_ACQUIRE \<or> cmd = BC_RELEASE);
          increment = (cmd = BC_INCREFS \<or> cmd = BC_ACQUIRE)
      in if increment \<and> target = 0 then
           (case context_mgr_of s p of None \<Rightarrow> update_by_handle rb p target increment is_strong s
            | Some n \<Rightarrow>
                if n_proc (node_at s n) = Some p then Some (Inl EINVAL, s)
                else (case binder_inc_ref_for_node rb (w_new_ref env) (w_others env) p n is_strong None s of None \<Rightarrow> None
                  | Some (Inl _, _, s1) \<Rightarrow> update_by_handle rb p target increment is_strong s1
                  | Some (Inr _, _, s1) \<Rightarrow> Some (Inr (), s1)))
         else update_by_handle rb p target increment is_strong s)"

definition bc_refs_done :: "rb_ops \<Rightarrow> ptr \<Rightarrow> u32 \<Rightarrow> u64 \<Rightarrow> u64 \<Rightarrow> bstate \<Rightarrow> bstate option" where
  "bc_refs_done rb p cmd node_ptr cookie s =
     (case binder_get_node p node_ptr s of (None, s1) \<Rightarrow> Some s1
      | (Some n, s1) \<Rightarrow>
          if cookie \<noteq> n_cookie (node_at s1 n) then binder_put_node rb n s1
          else if cmd = BC_ACQUIRE_DONE \<and> \<not> pending_strong_ref (node_at s1 n) then binder_put_node rb n s1
          else if cmd \<noteq> BC_ACQUIRE_DONE \<and> \<not> pending_weak_ref (node_at s1 n) then binder_put_node rb n s1
          else
            (let s2 = (if cmd = BC_ACQUIRE_DONE then upd_node n (\<lambda>nd. nd\<lparr>pending_strong_ref := False\<rparr>) s1
                       else upd_node n (\<lambda>nd. nd\<lparr>pending_weak_ref := False\<rparr>) s1)
             in case binder_dec_node_nilocked rb n (cmd = BC_ACQUIRE_DONE) False s2 of None \<Rightarrow> None
                | Some (_, s3) \<Rightarrow> binder_put_node rb n s3))"

section \<open>Buffers\<close>

definition bc_free_buffer :: "rb_ops \<Rightarrow> write_env \<Rightarrow> ptr \<Rightarrow> u64 \<Rightarrow> bstate \<Rightarrow> bstate option" where
  "bc_free_buffer rb env p data_ptr s =
     (case binder_alloc_prepare_to_free data_ptr (p_alloc (proc_at s p)) of None \<Rightarrow> None
      | Some (Inr (Some b), al) \<Rightarrow> binder_free_buf rb (close_env (w_send env)) (buf_env (w_send env)) p b (set_alloc p al s)
      | Some (_, al) \<Rightarrow> Some (set_alloc p al s))"

section \<open>Transactions\<close>

text \<open>The structure of 64 bytes, and the one of 72 with the size of the extra buffers.\<close>

definition to_transaction_data :: "u8 list \<Rightarrow> binder_transaction_data" where
  "to_transaction_data bs =
     \<lparr>td_handle = get_u32 0 bs, td_code = get_u32 16 bs, td_flags = get_u32 20 bs, td_data_size = get_u64 32 bs,
      td_offsets_size = get_u64 40 bs, td_buffer = get_u64 48 bs, td_offsets = get_u64 56 bs\<rparr>"

definition bc_transaction :: "rb_ops \<Rightarrow> write_env \<Rightarrow> ptr \<Rightarrow> u32 \<Rightarrow> u8 list \<Rightarrow> bstate \<Rightarrow> bstate option" where
  "bc_transaction rb env thread cmd bs s =
     (if cmd = BC_TRANSACTION_SG \<or> cmd = BC_REPLY_SG
      then binder_transaction_fn rb (w_send env) thread (to_transaction_data bs) (cmd = BC_REPLY_SG) (get_u64 64 bs) s
      else binder_transaction_fn rb (w_send env) thread (to_transaction_data bs) (cmd = BC_REPLY) 0 s)"

section \<open>Looper threads\<close>

definition set_looper :: "ptr \<Rightarrow> u32 \<Rightarrow> bstate \<Rightarrow> bstate" where
  "set_looper thread flags s = upd_thread thread (\<lambda>th. th\<lparr>looper := looper th OR flags\<rparr>) s"

definition bc_register_looper :: "ptr \<Rightarrow> ptr \<Rightarrow> bstate \<Rightarrow> bstate" where
  "bc_register_looper p thread s =
     set_looper thread BINDER_LOOPER_STATE_REGISTERED
       (if looper (thread_at s thread) AND BINDER_LOOPER_STATE_ENTERED \<noteq> 0 then set_looper thread BINDER_LOOPER_STATE_INVALID s
        else if requested_threads (proc_at s p) = 0 then set_looper thread BINDER_LOOPER_STATE_INVALID s
        else upd_proc p (\<lambda>pr. pr\<lparr>requested_threads := requested_threads pr - 1,
                              requested_threads_started := requested_threads_started pr + 1\<rparr>) s)"

definition bc_enter_looper :: "ptr \<Rightarrow> bstate \<Rightarrow> bstate" where
  "bc_enter_looper thread s =
     set_looper thread BINDER_LOOPER_STATE_ENTERED
       (if looper (thread_at s thread) AND BINDER_LOOPER_STATE_REGISTERED \<noteq> 0 then set_looper thread BINDER_LOOPER_STATE_INVALID s else s)"

definition bc_exit_looper :: "ptr \<Rightarrow> bstate \<Rightarrow> bstate" where
  "bc_exit_looper thread s = set_looper thread BINDER_LOOPER_STATE_EXITED s"

section \<open>Death notifications\<close>

definition set_wtype :: "work_id \<Rightarrow> work_type \<Rightarrow> bstate \<Rightarrow> bstate" where
  "set_wtype w ty s = s\<lparr>wtype := (wtype s)(w := ty)\<rparr>"

text \<open>Work for the thread itself when it takes work, for the process otherwise.\<close>

definition queue_for_looper :: "ptr \<Rightarrow> ptr \<Rightarrow> work_id \<Rightarrow> bstate \<Rightarrow> bstate option" where
  "queue_for_looper p thread w s =
     (if looper (thread_at s thread) AND (BINDER_LOOPER_STATE_REGISTERED OR BINDER_LOOPER_STATE_ENTERED) \<noteq> 0
      then binder_enqueue_thread_work_ilocked thread w s
      else map_option (binder_wakeup_proc_ilocked p) (binder_enqueue_work_ilocked w (Some (ProcTodo p)) s))"

definition bc_request_death :: "write_env \<Rightarrow> ptr \<Rightarrow> ptr \<Rightarrow> u32 \<Rightarrow> u64 \<Rightarrow> bstate \<Rightarrow> bstate option" where
  "bc_request_death env p thread target cookie s =
     (case w_new_death env of
        None \<Rightarrow> binder_enqueue_thread_work thread (ReturnErrorWork thread)
                  (upd_thread thread (\<lambda>th. th\<lparr>return_error_cmd := BR_ERROR\<rparr>) s)
      | Some d \<Rightarrow>
          (case binder_get_ref_olocked p target False s of None \<Rightarrow> Some s
           | Some r \<Rightarrow>
               if r_death (ref_at s r) \<noteq> None then Some s
               else
                 (let s1 = s\<lparr>death_cookie := (death_cookie s)(d := cookie), death_live := (death_live s)(d := True),
                             wpos := (wpos s)(DeathWork d := None)\<rparr>;
                      s2 = upd_ref r (\<lambda>rf. rf\<lparr>r_death := Some d\<rparr>) s1
                  in case r_node (ref_at s2 r) of None \<Rightarrow> None
                     | Some n \<Rightarrow>
                         if n_proc (node_at s2 n) = None
                         then map_option (binder_wakeup_proc_ilocked p)
                                (binder_enqueue_work_ilocked (DeathWork d) (Some (ProcTodo p))
                                  (set_wtype (DeathWork d) BINDER_WORK_DEAD_BINDER s2))
                         else Some s2)))"

definition bc_clear_death :: "ptr \<Rightarrow> ptr \<Rightarrow> u32 \<Rightarrow> u64 \<Rightarrow> bstate \<Rightarrow> bstate option" where
  "bc_clear_death p thread target cookie s =
     (case binder_get_ref_olocked p target False s of None \<Rightarrow> Some s
      | Some r \<Rightarrow>
          (case r_death (ref_at s r) of None \<Rightarrow> Some s
           | Some d \<Rightarrow>
               if death_cookie s d \<noteq> cookie then Some s
               else
                 (let s1 = upd_ref r (\<lambda>rf. rf\<lparr>r_death := None\<rparr>) s in
                  if wpos s1 (DeathWork d) = None
                  then queue_for_looper p thread (DeathWork d) (set_wtype (DeathWork d) BINDER_WORK_CLEAR_DEATH_NOTIFICATION s1)
                  else if wtype s1 (DeathWork d) \<noteq> BINDER_WORK_DEAD_BINDER then None
                  else Some (set_wtype (DeathWork d) BINDER_WORK_DEAD_BINDER_AND_CLEAR s1))))"

text \<open>The notification with the given cookie among those delivered to the process; their list holds nothing else.\<close>

fun find_death :: "bstate \<Rightarrow> u64 \<Rightarrow> work_id list \<Rightarrow> ptr option" where
  "find_death s cookie [] = None"
| "find_death s cookie (DeathWork d # ws) = (if death_cookie s d = cookie then Some d else find_death s cookie ws)"
| "find_death s cookie (w # ws) = find_death s cookie ws"

definition bc_dead_binder_done :: "ptr \<Rightarrow> ptr \<Rightarrow> u64 \<Rightarrow> bstate \<Rightarrow> bstate option" where
  "bc_dead_binder_done p thread cookie s =
     (case find_death s cookie (wlist s (DeliveredDeath p)) of None \<Rightarrow> Some s
      | Some d \<Rightarrow>
          (let s1 = binder_dequeue_work_ilocked (DeathWork d) s in
           if wtype s1 (DeathWork d) = BINDER_WORK_DEAD_BINDER_AND_CLEAR
           then queue_for_looper p thread (DeathWork d) (set_wtype (DeathWork d) BINDER_WORK_CLEAR_DEATH_NOTIFICATION s1)
           else Some s1))"

section \<open>The command stream\<close>

text \<open>One command, with its arguments behind \<open>a\<close>; the result is the address behind the arguments.\<close>

definition on_to :: "u64 \<Rightarrow> bstate option \<Rightarrow> (u64 result \<times> bstate) option" where
  "on_to a r = map_option (\<lambda>s. (Inr a, s)) r"

definition write_command ::
    "rb_ops \<Rightarrow> write_env \<Rightarrow> ptr \<Rightarrow> ptr \<Rightarrow> u32 \<Rightarrow> u64 \<Rightarrow> bstate \<Rightarrow> (u64 result \<times> bstate) option" where
  "write_command rb env p thread cmd a s =
     (let user = user_bytes (w_send env) in
      if cmd \<in> {BC_INCREFS, BC_ACQUIRE, BC_RELEASE, BC_DECREFS} then
        (case get_user_u32 user a of None \<Rightarrow> Some (Inl EFAULT, s)
         | Some target \<Rightarrow> map_option (map_prod (map_sum id (\<lambda>_. a + 4)) id) (bc_refs rb env p cmd target s))
      else if cmd \<in> {BC_INCREFS_DONE, BC_ACQUIRE_DONE} then
        (case get_user_u64 user a of None \<Rightarrow> Some (Inl EFAULT, s)
         | Some node_ptr \<Rightarrow>
             (case get_user_u64 user (a + 8) of None \<Rightarrow> Some (Inl EFAULT, s)
              | Some cookie \<Rightarrow> on_to (a + 16) (bc_refs_done rb p cmd node_ptr cookie s)))
      else if cmd \<in> {BC_ATTEMPT_ACQUIRE, BC_ACQUIRE_RESULT} then Some (Inl EINVAL, s)
      else if cmd = BC_FREE_BUFFER then
        (case get_user_u64 user a of None \<Rightarrow> Some (Inl EFAULT, s)
         | Some data_ptr \<Rightarrow> on_to (a + 8) (bc_free_buffer rb env p data_ptr s))
      else if cmd \<in> {BC_TRANSACTION_SG, BC_REPLY_SG} then
        (case copy_from_user user a 72 of None \<Rightarrow> Some (Inl EFAULT, s)
         | Some bs \<Rightarrow> on_to (a + 72) (bc_transaction rb env thread cmd bs s))
      else if cmd \<in> {BC_TRANSACTION, BC_REPLY} then
        (case copy_from_user user a 64 of None \<Rightarrow> Some (Inl EFAULT, s)
         | Some bs \<Rightarrow> on_to (a + 64) (bc_transaction rb env thread cmd bs s))
      else if cmd = BC_REGISTER_LOOPER then Some (Inr a, bc_register_looper p thread s)
      else if cmd = BC_ENTER_LOOPER then Some (Inr a, bc_enter_looper thread s)
      else if cmd = BC_EXIT_LOOPER then Some (Inr a, bc_exit_looper thread s)
      else if cmd \<in> {BC_REQUEST_DEATH_NOTIFICATION, BC_CLEAR_DEATH_NOTIFICATION} then
        (case get_user_u32 user a of None \<Rightarrow> Some (Inl EFAULT, s)
         | Some target \<Rightarrow>
             (case get_user_u64 user (a + 4) of None \<Rightarrow> Some (Inl EFAULT, s)
              | Some cookie \<Rightarrow>
                  on_to (a + 12) (if cmd = BC_REQUEST_DEATH_NOTIFICATION then bc_request_death env p thread target cookie s
                                  else bc_clear_death p thread target cookie s)))
      else if cmd = BC_DEAD_BINDER_DONE then
        (case get_user_u64 user a of None \<Rightarrow> Some (Inl EFAULT, s)
         | Some cookie \<Rightarrow> on_to (a + 8) (bc_dead_binder_done p thread cookie s))
      else Some (Inl EINVAL, s))"

text \<open>
  The loop over the commands. \<open>env\<close> gives the decisions of the kernel for the command at an address; the result is the
  error, the number of bytes consumed and the new state.
\<close>

partial_function (option) thread_write_loop ::
    "rb_ops \<Rightarrow> (u64 \<Rightarrow> write_env) \<Rightarrow> ptr \<Rightarrow> ptr \<Rightarrow> u64 \<Rightarrow> u64 \<Rightarrow> u64 \<Rightarrow> bstate \<Rightarrow> (unit result \<times> u64 \<times> bstate) option" where
  "thread_write_loop rb env p thread buf sz a s =
     (if \<not> (a < buf + sz \<and> return_error_cmd (thread_at s thread) = BR_OK) then Some (Inr (), a - buf, s)
      else case get_user_u32 (user_bytes (w_send (env a))) a of None \<Rightarrow> Some (Inl EFAULT, a - buf, s)
      | Some cmd \<Rightarrow>
          (case write_command rb (env a) p thread cmd (a + 4) s of None \<Rightarrow> None
           | Some (Inl e, s1) \<Rightarrow> Some (Inl e, a - buf, s1)
           | Some (Inr a', s1) \<Rightarrow> thread_write_loop rb env p thread buf sz a' s1))"

definition binder_thread_write ::
    "rb_ops \<Rightarrow> (u64 \<Rightarrow> write_env) \<Rightarrow> ptr \<Rightarrow> ptr \<Rightarrow> u64 \<Rightarrow> u64 \<Rightarrow> u64 \<Rightarrow> bstate \<Rightarrow> (unit result \<times> u64 \<times> bstate) option" where
  "binder_thread_write rb env p thread buf sz consumed s = thread_write_loop rb env p thread buf sz (buf + consumed) s"

end
