(* ===== verification/Binder_Read.thy ===== *)
theory Binder_Read
  imports Binder_Write
begin

text \<open>
  What a thread reads from the driver (\<open>binder_thread_read\<close>): waiting for work, and the work of the thread or of its
  process turned into return commands in user memory. \<open>None\<close> is a \<open>BUG_ON\<close>, an access through a missing pointer or a
  loop that never ends.
\<close>

section \<open>Return commands\<close>

definition BR_TRANSACTION_SEC_CTX :: u32 where "BR_TRANSACTION_SEC_CTX = 0x80487202"
definition BR_TRANSACTION :: u32 where "BR_TRANSACTION = 0x80407202"
definition BR_REPLY :: u32 where "BR_REPLY = 0x80407203"
definition BR_INCREFS :: u32 where "BR_INCREFS = 0x80107207"
definition BR_ACQUIRE :: u32 where "BR_ACQUIRE = 0x80107208"
definition BR_RELEASE :: u32 where "BR_RELEASE = 0x80107209"
definition BR_DECREFS :: u32 where "BR_DECREFS = 0x8010720a"
definition BR_NOOP :: u32 where "BR_NOOP = 0x720c"
definition BR_SPAWN_LOOPER :: u32 where "BR_SPAWN_LOOPER = 0x720d"
definition BR_DEAD_BINDER :: u32 where "BR_DEAD_BINDER = 0x8008720f"
definition BR_CLEAR_DEATH_NOTIFICATION_DONE :: u32 where "BR_CLEAR_DEATH_NOTIFICATION_DONE = 0x80087210"

text \<open>
  What the kernel decides while one work item is read: which addresses can be written, the identity of the sender as the
  reader sees it, the unused descriptors, and the arguments of the clean-up paths.
\<close>

record read_env =
  put_ok :: "u64 \<Rightarrow> bool"
  from_kuid :: "nat \<Rightarrow> u32"
  task_tgid :: "ptr \<Rightarrow> u32"
  cur_nice :: int
  unused_fd :: "nat \<Rightarrow> u32 option"
  rd_alloc :: alloc_env
  rd_close :: release_env
  rd_acq :: "bstate \<Rightarrow> bstate"

text \<open>Where the next command goes, and the writes to user memory that the driver has issued.\<close>

record cursor =
  rc_ptr :: u64
  rc_writes :: "(u64 \<times> u8 list) list"

definition put_user :: "(u64 \<Rightarrow> bool) \<Rightarrow> u8 list \<Rightarrow> cursor \<Rightarrow> unit result \<times> cursor" where
  "put_user ok bs cur =
     (if ok (rc_ptr cur) then Inr () else Inl EFAULT,
      cur\<lparr>rc_ptr := rc_ptr cur + of_nat (length bs), rc_writes := rc_writes cur @ [(rc_ptr cur, bs)]\<rparr>)"

section \<open>Waiting\<close>

text \<open>
  \<open>sched k\<close> is what the other threads do during the \<open>k\<close>-th call of \<open>schedule\<close>, with a signal at its end or not.
\<close>

partial_function (option) wait_for_work_loop ::
    "(nat \<Rightarrow> bstate \<Rightarrow> bool \<times> bstate) \<Rightarrow> nat \<Rightarrow> ptr \<Rightarrow> bool \<Rightarrow> bstate \<Rightarrow> (unit result \<times> bstate) option" where
  "wait_for_work_loop sched k thread do_proc_work s =
     (if binder_has_work_ilocked thread do_proc_work s then Some (Inr (), s)
      else
        (let p = t_proc (thread_at s thread);
             s1 = (if do_proc_work then upd_proc p (\<lambda>pr. pr\<lparr>waiting_threads := thread # waiting_threads pr\<rparr>) s else s);
             (signal, s2) = sched k s1;
             s3 = upd_proc p (\<lambda>pr. pr\<lparr>waiting_threads := list_del thread (waiting_threads pr)\<rparr>) s2
         in if signal then Some (Inl ERESTARTSYS, s3) else wait_for_work_loop sched (Suc k) thread do_proc_work s3))"

definition binder_wait_for_work ::
    "(nat \<Rightarrow> bstate \<Rightarrow> bool \<times> bstate) \<Rightarrow> ptr \<Rightarrow> bool \<Rightarrow> bstate \<Rightarrow> (unit result \<times> bstate) option" where
  "binder_wait_for_work sched thread do_proc_work s = wait_for_work_loop sched 0 thread do_proc_work s"

section \<open>Descriptors\<close>

text \<open>
  The first loop of \<open>binder_apply_fd_fixups\<close>: the result and the number of files that were installed. The table of
  descriptors of the process is not part of the state.
\<close>

fun install_fds :: "read_env \<Rightarrow> nat \<Rightarrow> ptr \<Rightarrow> ptr \<Rightarrow> (ptr \<times> u64) list \<Rightarrow> bstate \<Rightarrow> (unit result \<times> nat \<times> bstate) option" where
  "install_fds env i p b [] s = Some (Inr (), i, s)"
| "install_fds env i p b ((file, off) # fs) s =
     (case unused_fd env i of None \<Rightarrow> Some (Inl ENOMEM, i, s)
      | Some fd \<Rightarrow>
          (case write_object p b off (word_bytes 4 fd) s of None \<Rightarrow> None
           | Some (Inl _, s1) \<Rightarrow> Some (Inl EINVAL, Suc i, s1)
           | Some (Inr _, s1) \<Rightarrow> install_fds env (Suc i) p b fs s1))"

fun close_installed :: "read_env \<Rightarrow> ptr \<Rightarrow> ptr \<Rightarrow> (ptr \<times> u64) list \<Rightarrow> bstate \<Rightarrow> bstate option" where
  "close_installed env p b [] s = Some s"
| "close_installed env p b ((file, off) # fs) s =
     (case read_u32 (p_alloc (proc_at s p)) b off of None \<Rightarrow> None
      | Some (Inl _) \<Rightarrow> close_installed env p b fs s
      | Some (Inr fd) \<Rightarrow> close_installed env p b fs (binder_deferred_fd_close (rd_close env) fd s))"

definition binder_apply_fd_fixups :: "read_env \<Rightarrow> ptr \<Rightarrow> ptr \<Rightarrow> bstate \<Rightarrow> (unit result \<times> bstate) option" where
  "binder_apply_fd_fixups env p t s =
     (let fs = fd_fixups (txn_at s t) in
      case x_buffer (txn_at s t) of None \<Rightarrow> None
      | Some (_, b) \<Rightarrow>
        (case install_fds env 0 p b fs s of None \<Rightarrow> None
         | Some (ret, n, s1) \<Rightarrow>
           (case (if ret = Inr () then Some s1 else close_installed env p b (take n fs) s1) of None \<Rightarrow> None
            | Some s2 \<Rightarrow>
                Some (ret, upd_txn t (\<lambda>x. x\<lparr>fd_fixups := []\<rparr>)
                  (s2\<lparr>fput_log := fput_log s2 @ map fst (drop n fs)\<rparr>)))))"

section \<open>The kinds of work\<close>

text \<open>
  Whether the loop goes on, is left, or the call fails. The variable \<open>ret\<close> of the function is carried from one round to
  the next: a transaction whose descriptors could not be installed leaves its error there.
\<close>

datatype read_next = Go "errno option" | Stop | Fail errno

definition put_then :: "read_next \<Rightarrow> unit result \<times> cursor \<Rightarrow> bstate \<Rightarrow> (read_next \<times> cursor \<times> bstate) option" where
  "put_then nxt r s = (case r of (Inl e, cur) \<Rightarrow> Some (Fail e, cur, s) | (Inr _, cur) \<Rightarrow> Some (nxt, cur, s))"

definition binder_put_node_cmd :: "(u64 \<Rightarrow> bool) \<Rightarrow> u64 \<Rightarrow> u64 \<Rightarrow> u32 \<Rightarrow> cursor \<Rightarrow> unit result \<times> cursor" where
  "binder_put_node_cmd ok node_ptr node_cookie cmd cur =
     (case put_user ok (word_bytes 4 cmd) cur of (Inl e, c1) \<Rightarrow> (Inl e, c1)
      | (Inr _, c1) \<Rightarrow>
        (case put_user ok (word_bytes 8 node_ptr) c1 of (Inl e, c2) \<Rightarrow> (Inl e, c2)
         | (Inr _, c2) \<Rightarrow> put_user ok (word_bytes 8 node_cookie) c2))"

fun put_node_cmds :: "(u64 \<Rightarrow> bool) \<Rightarrow> u64 \<Rightarrow> u64 \<Rightarrow> u32 list \<Rightarrow> cursor \<Rightarrow> unit result \<times> cursor" where
  "put_node_cmds ok np nc [] cur = (Inr (), cur)"
| "put_node_cmds ok np nc (cmd # cmds) cur =
     (case binder_put_node_cmd ok np nc cmd cur of (Inl e, c1) \<Rightarrow> (Inl e, c1)
      | (Inr _, c1) \<Rightarrow> put_node_cmds ok np nc cmds c1)"

definition node_strong :: "binder_node \<Rightarrow> bool" where
  "node_strong nd \<longleftrightarrow> internal_strong_refs nd \<noteq> 0 \<or> local_strong_refs nd \<noteq> 0"

definition node_weak :: "binder_node \<Rightarrow> bool" where
  "node_weak nd \<longleftrightarrow> n_refs nd \<noteq> [] \<or> local_weak_refs nd \<noteq> 0 \<or> tmp_refs nd \<noteq> 0 \<or> node_strong nd"

definition node_commands :: "binder_node \<Rightarrow> u32 list" where
  "node_commands nd =
     (if node_weak nd \<and> \<not> has_weak_ref nd then [BR_INCREFS] else []) @
     (if node_strong nd \<and> \<not> has_strong_ref nd then [BR_ACQUIRE] else []) @
     (if \<not> node_strong nd \<and> has_strong_ref nd then [BR_RELEASE] else []) @
     (if \<not> node_weak nd \<and> has_weak_ref nd then [BR_DECREFS] else [])"

definition node_announced :: "binder_node \<Rightarrow> binder_node" where
  "node_announced nd =
     (let w = node_weak nd; st = node_strong nd;
          nd1 = (if w \<and> \<not> has_weak_ref nd
                 then nd\<lparr>has_weak_ref := True, pending_weak_ref := True, local_weak_refs := local_weak_refs nd + 1\<rparr> else nd);
          nd2 = (if st \<and> \<not> has_strong_ref nd
                 then nd1\<lparr>has_strong_ref := True, pending_strong_ref := True, local_strong_refs := local_strong_refs nd1 + 1\<rparr> else nd1);
          nd3 = (if \<not> st \<and> has_strong_ref nd then nd2\<lparr>has_strong_ref := False\<rparr> else nd2)
      in if \<not> w \<and> has_weak_ref nd then nd3\<lparr>has_weak_ref := False\<rparr> else nd3)"

text \<open>The commands depend on \<open>ret\<close>, which only the first of them sets without looking at it.\<close>

definition announce :: "read_env \<Rightarrow> binder_node \<Rightarrow> errno option \<Rightarrow> cursor \<Rightarrow> unit result \<times> cursor" where
  "announce env nd ret cur =
     (let weak_first = (node_weak nd \<and> \<not> has_weak_ref nd) in
      case ret of
        Some e \<Rightarrow> if weak_first then put_node_cmds (put_ok env) (n_ptr nd) (n_cookie nd) (node_commands nd) cur else (Inl e, cur)
      | None \<Rightarrow> put_node_cmds (put_ok env) (n_ptr nd) (n_cookie nd) (node_commands nd) cur)"

definition read_node ::
    "rb_ops \<Rightarrow> read_env \<Rightarrow> ptr \<Rightarrow> ptr \<Rightarrow> errno option \<Rightarrow> cursor \<Rightarrow> bstate \<Rightarrow> (read_next \<times> cursor \<times> bstate) option" where
  "read_node rb env p n ret cur s =
     (let nd = node_at s n; s1 = upd_node n node_announced s in
      if n_proc nd \<noteq> Some p then None
      else case (if \<not> node_weak nd \<and> \<not> node_strong nd
                 then binder_free_node n (upd_proc p (\<lambda>pr. pr\<lparr>p_nodes := rb_erase rb n (p_nodes pr)\<rparr>) s1) else Some s1) of None \<Rightarrow> None
      | Some s2 \<Rightarrow> put_then (Go None) (announce env nd ret cur) s2)"

definition read_error :: "read_env \<Rightarrow> work_id \<Rightarrow> errno option \<Rightarrow> cursor \<Rightarrow> bstate \<Rightarrow> (read_next \<times> cursor \<times> bstate) option" where
  "read_error env w ret cur s =
     (case w of
        ReturnErrorWork th \<Rightarrow>
          (case put_user (put_ok env) (word_bytes 4 (return_error_cmd (thread_at s th))) cur of
             (Inl e, c1) \<Rightarrow> Some (Fail e, c1, s)
           | (Inr _, c1) \<Rightarrow> Some (Go ret, c1, upd_thread th (\<lambda>r. r\<lparr>return_error_cmd := BR_OK\<rparr>) s))
      | ReplyErrorWork th \<Rightarrow>
          (case put_user (put_ok env) (word_bytes 4 (reply_error_cmd (thread_at s th))) cur of
             (Inl e, c1) \<Rightarrow> Some (Fail e, c1, s)
           | (Inr _, c1) \<Rightarrow> Some (Go ret, c1, upd_thread th (\<lambda>r. r\<lparr>reply_error_cmd := BR_OK\<rparr>) s))
      | _ \<Rightarrow> None)"

text \<open>A notification that was cleared is freed; one of a dead node waits for the answer of the process.\<close>

definition read_death :: "read_env \<Rightarrow> ptr \<Rightarrow> ptr \<Rightarrow> errno option \<Rightarrow> cursor \<Rightarrow> bstate \<Rightarrow> (read_next \<times> cursor \<times> bstate) option" where
  "read_death env p d ret cur s =
     (let cleared = (wtype s (DeathWork d) = BINDER_WORK_CLEAR_DEATH_NOTIFICATION);
          cmd = (if cleared then BR_CLEAR_DEATH_NOTIFICATION_DONE else BR_DEAD_BINDER);
          cookie = death_cookie s d
      in case (if cleared then if death_live s d then Some (s\<lparr>death_live := (death_live s)(d := False)\<rparr>) else None
               else binder_enqueue_work_ilocked (DeathWork d) (Some (DeliveredDeath p)) s) of None \<Rightarrow> None
         | Some s1 \<Rightarrow>
             (case put_user (put_ok env) (word_bytes 4 cmd) cur of (Inl e, c1) \<Rightarrow> Some (Fail e, c1, s1)
              | (Inr _, c1) \<Rightarrow>
                  put_then (if cleared then Go ret else Stop) (put_user (put_ok env) (word_bytes 8 cookie) c1) s1))"

section \<open>Transactions\<close>

text \<open>The structure that user space gets; the security context follows it only when there is one.\<close>

definition txn_bytes :: "read_env \<Rightarrow> ptr \<Rightarrow> ptr option \<Rightarrow> ptr \<times> ptr \<Rightarrow> bstate \<Rightarrow> u8 list" where
  "txn_bytes env t from_thread pb s =
     (let x = txn_at s t; bf = buf_at s pb;
          (tptr, tcookie) = (case b_target_node bf of None \<Rightarrow> (0, 0) | Some n \<Rightarrow> (n_ptr (node_at s n), n_cookie (node_at s n)));
          pid = (case from_thread of None \<Rightarrow> 0 | Some th \<Rightarrow> task_tgid env (t_proc (thread_at s th)))
      in word_bytes 8 tptr @ word_bytes 8 tcookie @ word_bytes 4 (x_code x) @ word_bytes 4 (x_flags x) @ word_bytes 4 pid @
         word_bytes 4 (from_kuid env (sender_euid x)) @ word_bytes 8 (data_size bf) @ word_bytes 8 (offsets_size bf) @
         word_bytes 8 (user_data bf) @ word_bytes 8 (user_data bf + ALIGN (data_size bf) 8) @
         (if x_security_ctx x \<noteq> 0 then word_bytes 8 (x_security_ctx x) else []))"

definition dec_from :: "rb_ops \<Rightarrow> read_env \<Rightarrow> ptr option \<Rightarrow> bstate \<Rightarrow> bstate option" where
  "dec_from rb env from_thread s = (case from_thread of None \<Rightarrow> Some s | Some th \<Rightarrow> binder_thread_dec_tmpref rb (rd_alloc env) th s)"

text \<open>The sender gets a failed reply when the transaction cannot be handed over.\<close>

definition read_txn_fault :: "rb_ops \<Rightarrow> read_env \<Rightarrow> ptr \<Rightarrow> ptr option \<Rightarrow> cursor \<Rightarrow> bstate \<Rightarrow> (read_next \<times> cursor \<times> bstate) option" where
  "read_txn_fault rb env t from_thread cur s =
     (case dec_from rb env from_thread s of None \<Rightarrow> None
      | Some s1 \<Rightarrow> map_option (\<lambda>s2. (Fail EFAULT, cur, s2)) (binder_cleanup_transaction rb (rd_alloc env) (rd_acq env) t BR_FAILED_REPLY s1))"

definition read_txn_no_fds ::
    "rb_ops \<Rightarrow> read_env \<Rightarrow> ptr \<Rightarrow> ptr \<Rightarrow> ptr option \<Rightarrow> bool \<Rightarrow> ptr \<times> ptr \<Rightarrow> errno \<Rightarrow> cursor \<Rightarrow> bstate \<Rightarrow>
     (read_next \<times> cursor \<times> bstate) option" where
  "read_txn_no_fds rb env p t from_thread is_reply pb err cur s =
     (case dec_from rb env from_thread s of None \<Rightarrow> None
      | Some s1 \<Rightarrow>
        (case binder_cleanup_transaction rb (rd_alloc env) (rd_acq env) t BR_FAILED_REPLY
                (upd_buf (fst pb) (snd pb) (\<lambda>bf. bf\<lparr>b_transaction := None\<rparr>) s1) of None \<Rightarrow> None
         | Some s2 \<Rightarrow>
           (case binder_free_buf rb (rd_close env) (rd_alloc env) p (snd pb) s2 of None \<Rightarrow> None
            | Some s3 \<Rightarrow>
                if is_reply then put_then Stop (put_user (put_ok env) (word_bytes 4 BR_FAILED_REPLY) cur) s3
                else Some (Go (Some err), cur, s3))))"

definition read_txn_done :: "rb_ops \<Rightarrow> read_env \<Rightarrow> ptr \<Rightarrow> ptr \<Rightarrow> ptr option \<Rightarrow> bool \<Rightarrow> ptr \<times> ptr \<Rightarrow> bstate \<Rightarrow> bstate option" where
  "read_txn_done rb env thread t from_thread is_reply pb s =
     (case dec_from rb env from_thread s of None \<Rightarrow> None
      | Some s1 \<Rightarrow>
          (let s2 = upd_buf (fst pb) (snd pb) (\<lambda>bf. bf\<lparr>allow_user_free := True\<rparr>) s1 in
           if \<not> is_reply \<and> \<not> oneway s2 t
           then Some (upd_thread thread (\<lambda>th. th\<lparr>transaction_stack := Some t\<rparr>)
                  (upd_txn t (\<lambda>x. x\<lparr>to_parent := transaction_stack (thread_at s2 thread), to_thread := Some thread\<rparr>) s2))
           else binder_free_transaction t s2))"

text \<open>The priority that the thread takes over is not part of the state, only the one that it gets back later.\<close>

definition read_txn :: "rb_ops \<Rightarrow> read_env \<Rightarrow> ptr \<Rightarrow> ptr \<Rightarrow> ptr \<Rightarrow> cursor \<Rightarrow> bstate \<Rightarrow> (read_next \<times> cursor \<times> bstate) option" where
  "read_txn rb env p thread t cur s =
     (case x_buffer (txn_at s t) of None \<Rightarrow> None
      | Some pb \<Rightarrow>
          (let is_reply = (b_target_node (buf_at s pb) = None);
               s1 = (if is_reply then s else upd_txn t (\<lambda>x. x\<lparr>saved_priority := cur_nice env\<rparr>) s);
               (from_thread, s2) = binder_get_txn_from t s1
           in case binder_apply_fd_fixups env p t s2 of None \<Rightarrow> None
              | Some (Inl e, s3) \<Rightarrow> read_txn_no_fds rb env p t from_thread is_reply pb e cur s3
              | Some (Inr _, s3) \<Rightarrow>
                  (let cmd = (if x_security_ctx (txn_at s3 t) \<noteq> 0 then BR_TRANSACTION_SEC_CTX
                              else if is_reply then BR_REPLY else BR_TRANSACTION)
                   in case put_user (put_ok env) (word_bytes 4 cmd) cur of
                        (Inl _, c1) \<Rightarrow> read_txn_fault rb env t from_thread c1 s3
                      | (Inr _, c1) \<Rightarrow>
                        (case put_user (put_ok env) (txn_bytes env t from_thread pb s3) c1 of
                           (Inl _, c2) \<Rightarrow> read_txn_fault rb env t from_thread c2 s3
                         | (Inr _, c2) \<Rightarrow>
                             map_option (\<lambda>s4. (Stop, c2, s4)) (read_txn_done rb env thread t from_thread (cmd = BR_REPLY) pb s3)))))"

text \<open>One work item, by the type of the work.\<close>

definition read_work ::
    "rb_ops \<Rightarrow> read_env \<Rightarrow> ptr \<Rightarrow> ptr \<Rightarrow> work_id \<Rightarrow> errno option \<Rightarrow> cursor \<Rightarrow> bstate \<Rightarrow> (read_next \<times> cursor \<times> bstate) option" where
  "read_work rb env p thread w ret cur s =
     (case wtype s w of
        BINDER_WORK_TRANSACTION \<Rightarrow> (case w of TxnWork t \<Rightarrow> read_txn rb env p thread t cur s | _ \<Rightarrow> None)
      | BINDER_WORK_RETURN_ERROR \<Rightarrow> read_error env w ret cur s
      | BINDER_WORK_TRANSACTION_COMPLETE \<Rightarrow> put_then (Go ret) (put_user (put_ok env) (word_bytes 4 BR_TRANSACTION_COMPLETE) cur) s
      | BINDER_WORK_NODE \<Rightarrow> (case w of NodeWork n \<Rightarrow> read_node rb env p n ret cur s | _ \<Rightarrow> None)
      | _ \<Rightarrow> (case w of DeathWork d \<Rightarrow> read_death env p d ret cur s | _ \<Rightarrow> None))"

section \<open>The loop\<close>

definition sizeof_secctx_and_cmd :: u64 where "sizeof_secctx_and_cmd = 76"

definition read_list :: "ptr \<Rightarrow> ptr \<Rightarrow> bool \<Rightarrow> bstate \<Rightarrow> worklist option" where
  "read_list p thread wait_for_proc_work s =
     (if \<not> binder_worklist_empty_ilocked (ThreadTodo thread) s then Some (ThreadTodo thread)
      else if \<not> binder_worklist_empty_ilocked (ProcTodo p) s \<and> wait_for_proc_work then Some (ProcTodo p) else None)"

definition take_work :: "ptr \<Rightarrow> worklist \<Rightarrow> bstate \<Rightarrow> work_id option \<times> bstate" where
  "take_work thread l s =
     (let (w, s1) = binder_dequeue_work_head_ilocked l s in
      (w, if binder_worklist_empty_ilocked (ThreadTodo thread) s1 then upd_thread thread (\<lambda>th. th\<lparr>process_todo := False\<rparr>) s1 else s1))"

text \<open>
  The part at \<open>retry\<close>: the result says whether work of the process may be taken. Without blocking, \<open>ret\<close> keeps its value
  when there is work.
\<close>

definition read_wait ::
    "(nat \<Rightarrow> bstate \<Rightarrow> bool \<times> bstate) \<Rightarrow> bool \<Rightarrow> ptr \<Rightarrow> errno option \<Rightarrow> bstate \<Rightarrow> (bool result \<times> bstate) option" where
  "read_wait sched non_block thread ret s =
     (let wait_for_proc_work = binder_available_for_proc_work_ilocked thread s;
          s1 = upd_thread thread (\<lambda>th. th\<lparr>looper := looper th OR BINDER_LOOPER_STATE_WAITING\<rparr>) s
      in case (if non_block then Some (if \<not> binder_has_work thread wait_for_proc_work s1 then Inl EAGAIN
                                      else case ret of None \<Rightarrow> Inr () | Some e \<Rightarrow> Inl e, s1)
               else binder_wait_for_work sched thread wait_for_proc_work s1) of None \<Rightarrow> None
         | Some (r, s2) \<Rightarrow>
             Some (map_sum id (\<lambda>_. wait_for_proc_work) r,
               upd_thread thread (\<lambda>th. th\<lparr>looper := looper th AND NOT BINDER_LOOPER_STATE_WAITING\<rparr>) s2))"

text \<open>
  \<open>wpw\<close> is \<open>None\<close> when the thread has to wait first. \<open>env\<close> and \<open>sched\<close> give the decisions of the kernel and the steps of the
  other threads for each round.
\<close>

partial_function (option) thread_read_loop ::
    "rb_ops \<Rightarrow> (nat \<Rightarrow> read_env) \<Rightarrow> (nat \<Rightarrow> nat \<Rightarrow> bstate \<Rightarrow> bool \<times> bstate) \<Rightarrow> ptr \<Rightarrow> ptr \<Rightarrow> u64 \<Rightarrow> u64 \<Rightarrow> bool \<Rightarrow> nat \<Rightarrow> bool option \<Rightarrow>
     errno option \<Rightarrow> cursor \<Rightarrow> bstate \<Rightarrow> (unit result \<times> cursor \<times> bstate) option" where
  "thread_read_loop rb env sched p thread buf sz non_block k wpw ret cur s =
     (case wpw of
        None \<Rightarrow>
          (case read_wait (sched k) non_block thread ret s of None \<Rightarrow> None
           | Some (Inl e, s1) \<Rightarrow> Some (Inl e, cur, s1)
           | Some (Inr w, s1) \<Rightarrow> thread_read_loop rb env sched p thread buf sz non_block (Suc k) (Some w) None cur s1)
      | Some wait_for_proc_work \<Rightarrow>
          (case read_list p thread wait_for_proc_work s of
             None \<Rightarrow>
               if rc_ptr cur - buf = 4 \<and> \<not> looper_need_return (thread_at s thread)
               then thread_read_loop rb env sched p thread buf sz non_block (Suc k) None ret cur s else Some (Inr (), cur, s)
           | Some l \<Rightarrow>
               if buf + sz - rc_ptr cur < sizeof_secctx_and_cmd then Some (Inr (), cur, s)
               else case take_work thread l s of (None, _) \<Rightarrow> None
               | (Some w, s1) \<Rightarrow>
                   (case read_work rb (env k) p thread w ret cur s1 of None \<Rightarrow> None
                    | Some (Go ret1, c1, s2) \<Rightarrow> thread_read_loop rb env sched p thread buf sz non_block (Suc k) wpw ret1 c1 s2
                    | Some (Stop, c1, s2) \<Rightarrow> Some (Inr (), c1, s2)
                    | Some (Fail e, c1, s2) \<Rightarrow> Some (Inl e, c1, s2))))"

text \<open>A new looper thread is asked for in the place of the first command.\<close>

definition read_spawn :: "(u64 \<Rightarrow> bool) \<Rightarrow> ptr \<Rightarrow> ptr \<Rightarrow> u64 \<Rightarrow> cursor \<Rightarrow> bstate \<Rightarrow> unit result \<times> cursor \<times> bstate" where
  "read_spawn ok p thread buf cur s =
     (let pr = proc_at s p in
      if requested_threads pr = 0 \<and> waiting_threads (proc_at s (t_proc (thread_at s thread))) = [] \<and>
         requested_threads_started pr < max_threads pr \<and>
         looper (thread_at s thread) AND (BINDER_LOOPER_STATE_REGISTERED OR BINDER_LOOPER_STATE_ENTERED) \<noteq> 0
      then (if ok buf then Inr () else Inl EFAULT,
            cur\<lparr>rc_writes := rc_writes cur @ [(buf, word_bytes 4 BR_SPAWN_LOOPER)]\<rparr>,
            upd_proc p (\<lambda>pr. pr\<lparr>requested_threads := requested_threads pr + 1\<rparr>) s)
      else (Inr (), cur, s))"

text \<open>The result, the number of bytes consumed, the writes to user memory and the new state.\<close>

definition binder_thread_read ::
    "rb_ops \<Rightarrow> (nat \<Rightarrow> read_env) \<Rightarrow> (nat \<Rightarrow> nat \<Rightarrow> bstate \<Rightarrow> bool \<times> bstate) \<Rightarrow> (u64 \<Rightarrow> bool) \<Rightarrow> ptr \<Rightarrow> ptr \<Rightarrow> u64 \<Rightarrow> u64 \<Rightarrow> u64 \<Rightarrow> bool \<Rightarrow>
     bstate \<Rightarrow> (unit result \<times> u64 \<times> (u64 \<times> u8 list) list \<times> bstate) option" where
  "binder_thread_read rb env sched ok p thread buf sz consumed non_block s =
     (let cur0 = \<lparr>rc_ptr = buf + consumed, rc_writes = []\<rparr> in
      case (if consumed = 0 then put_user ok (word_bytes 4 BR_NOOP) cur0 else (Inr (), cur0)) of
        (Inl e, c) \<Rightarrow> Some (Inl e, consumed, rc_writes c, s)
      | (Inr _, c) \<Rightarrow>
          (case thread_read_loop rb env sched p thread buf sz non_block 0 None None c s of None \<Rightarrow> None
           | Some (Inl e, c1, s1) \<Rightarrow> Some (Inl e, consumed, rc_writes c1, s1)
           | Some (Inr _, c1, s1) \<Rightarrow>
               (case read_spawn ok p thread buf c1 s1 of (r, c2, s2) \<Rightarrow> Some (r, rc_ptr c1 - buf, rc_writes c2, s2))))"

end
