(* ===== verification/Binder_Read_Props.thy ===== *)
theory Binder_Read_Props
  imports Binder_Read Binder_Sample
begin

text \<open>
  What the driver writes to user memory while a thread reads: it stays inside the buffer that the thread gave, when
  that has room for one command.
\<close>

section \<open>The space that a step needs\<close>

text \<open>The writes from \<open>c\<close> to \<open>c'\<close> lie in the \<open>n\<close> bytes from the address of \<open>c\<close> on.\<close>

definition extends :: "nat \<Rightarrow> cursor \<Rightarrow> cursor \<Rightarrow> bool" where
  "extends n c c' \<longleftrightarrow> (\<exists>m ws. m \<le> n \<and> rc_ptr c' = rc_ptr c + of_nat m \<and> rc_writes c' = rc_writes c @ ws \<and>
     (\<forall>(a, bs)\<in>set ws. \<exists>i. a = rc_ptr c + of_nat i \<and> i + length bs \<le> n))"

lemma extends_refl: "extends n c c"
  unfolding extends_def by (intro exI [of _ 0] exI [of _ "[]"]) simp

lemma extends_mono:
  assumes "extends m c c'" "m \<le> n"
  shows "extends n c c'"
proof -
  obtain k ws where e: "k \<le> m" "rc_ptr c' = rc_ptr c + of_nat k" "rc_writes c' = rc_writes c @ ws"
    "\<forall>(a, bs)\<in>set ws. \<exists>i. a = rc_ptr c + of_nat i \<and> i + length bs \<le> m"
    using assms(1) unfolding extends_def by blast
  have "\<exists>i. a = rc_ptr c + of_nat i \<and> i + length bs \<le> n" if "(a, bs) \<in> set ws" for a bs
    using that e(4) assms(2) by fastforce
  then show ?thesis unfolding extends_def using e assms(2) by (intro exI [of _ k] exI [of _ ws]) auto
qed

lemma extends_trans:
  assumes "extends m c c1" "extends k c1 c2"
  shows "extends (m + k) c c2"
proof -
  obtain m' ws where 1: "m' \<le> m" "rc_ptr c1 = rc_ptr c + of_nat m'" "rc_writes c1 = rc_writes c @ ws"
    "\<forall>(a, bs)\<in>set ws. \<exists>i. a = rc_ptr c + of_nat i \<and> i + length bs \<le> m"
    using assms(1) unfolding extends_def by blast
  obtain k' vs where 2: "k' \<le> k" "rc_ptr c2 = rc_ptr c1 + of_nat k'" "rc_writes c2 = rc_writes c1 @ vs"
    "\<forall>(a, bs)\<in>set vs. \<exists>i. a = rc_ptr c1 + of_nat i \<and> i + length bs \<le> k"
    using assms(2) unfolding extends_def by blast
  have "\<exists>i. a = rc_ptr c + of_nat i \<and> i + length bs \<le> m + k" if in_ws: "(a, bs) \<in> set (ws @ vs)" for a bs
  proof (cases "(a, bs) \<in> set ws")
    case True
    then show ?thesis using 1(4) by fastforce
  next
    case False
    then obtain i where "a = rc_ptr c1 + of_nat i" "i + length bs \<le> k" using in_ws 2(4) by fastforce
    then show ?thesis using 1(1,2) by (intro exI [of _ "m' + i"]) (simp add: add.assoc)
  qed
  then show ?thesis
    unfolding extends_def using 1 2 by (intro exI [of _ "m' + k'"] exI [of _ "ws @ vs"]) (auto simp: add.assoc)
qed

lemma put_user_extends: "put_user ok bs c = (r, c') \<Longrightarrow> extends (length bs) c c'"
  unfolding put_user_def extends_def
  by (intro exI [of _ "length bs"] exI [of _ "[(rc_ptr c, bs)]"]) (auto intro: exI [of _ 0])

lemma extends_two: "extends m c c1 \<Longrightarrow> extends k c1 c2 \<Longrightarrow> m + k \<le> n \<Longrightarrow> extends n c c2"
  using extends_mono extends_trans by blast

lemma extends_three: "extends m c c1 \<Longrightarrow> extends k c1 c2 \<Longrightarrow> extends l c2 c3 \<Longrightarrow> m + k + l \<le> n \<Longrightarrow> extends n c c3"
  using extends_two extends_trans by blast

lemma put_node_cmd_extends: "binder_put_node_cmd ok np nc cmd c = (r, c') \<Longrightarrow> extends 20 c c'"
  unfolding binder_put_node_cmd_def
  by (auto split: prod.splits sum.splits dest!: put_user_extends)
    (((erule extends_mono, simp) | (erule extends_two, assumption, simp) | (erule extends_three, assumption, assumption, simp))+)

lemma put_node_cmds_extends: "put_node_cmds ok np nc cmds c = (r, c') \<Longrightarrow> extends (20 * length cmds) c c'"
proof (induction ok np nc cmds c arbitrary: r c' rule: put_node_cmds.induct)
  case (2 ok np nc cmd cmds cur)
  then show ?case
    by (auto split: prod.splits sum.splits dest!: put_node_cmd_extends)
      ((erule extends_mono, simp) | (erule extends_trans, simp))+
qed (simp add: extends_refl)

lemma node_commands_length: "length (node_commands nd) \<le> 2"
  by (simp add: node_commands_def)

lemma txn_bytes_length: "length (txn_bytes env t from_thread pb s) \<le> 72"
  by (simp add: txn_bytes_def Let_def split: prod.split)

section \<open>Every kind of work\<close>

lemma put_then_extends: "put_then nxt (put_user ok bs c) s = Some (r, c', s') \<Longrightarrow> extends (length bs) c c'"
  by (auto simp: put_then_def split: prod.splits sum.splits dest: put_user_extends)

lemma read_node_extends: "read_node rb env p n ret c s = Some (r, c', s') \<Longrightarrow> extends 76 c c'"
  unfolding read_node_def announce_def Let_def put_then_def
  using node_commands_length [of "node_at s n"]
  by (auto split: if_splits option.splits prod.splits sum.splits dest!: put_node_cmds_extends elim!: extends_mono simp: extends_refl)

lemma read_error_extends: "read_error env w ret c s = Some (r, c', s') \<Longrightarrow> extends 76 c c'"
  unfolding read_error_def
  by (auto split: work_id.splits prod.splits sum.splits dest!: put_user_extends elim!: extends_mono)

lemma read_death_extends: "read_death env p d ret c s = Some (r, c', s') \<Longrightarrow> extends 76 c c'"
  unfolding read_death_def Let_def
  by (auto split: option.splits prod.splits sum.splits if_splits dest!: put_user_extends put_then_extends)
    (((erule extends_mono, simp) | (erule extends_two, assumption, simp) | (erule extends_three, assumption, assumption, simp))+)

lemma read_txn_no_fds_extends: "read_txn_no_fds rb env p t from_thread is_reply pb err c s = Some (r, c', s') \<Longrightarrow> extends 76 c c'"
  unfolding read_txn_no_fds_def
  by (auto split: option.splits if_splits dest!: put_then_extends elim!: extends_mono simp: extends_refl)

lemma read_txn_extends: "read_txn rb env p thread t c s = Some (r, c', s') \<Longrightarrow> extends 76 c c'"
  unfolding read_txn_def read_txn_fault_def Let_def
  by (auto split: option.splits prod.splits sum.splits dest!: put_user_extends read_txn_no_fds_extends)
    ((erule extends_mono, simp) | (erule extends_two, assumption, simp add: txn_bytes_length))+

lemma read_work_extends: "read_work rb env p thread w ret c s = Some (r, c', s') \<Longrightarrow> extends 76 c c'"
  unfolding read_work_def
  by (auto split: work_type.splits work_id.splits intro: read_txn_extends read_error_extends read_node_extends read_death_extends
      dest!: put_then_extends elim!: extends_mono)

section \<open>The loop\<close>

text \<open>A cursor inside the buffer of \<open>n\<close> bytes at \<open>buf\<close>, with all writes inside it.\<close>

definition inside :: "u64 \<Rightarrow> nat \<Rightarrow> u64 \<times> u8 list \<Rightarrow> bool" where
  "inside buf n w \<longleftrightarrow> unat buf \<le> unat (fst w) \<and> unat (fst w) + length (snd w) \<le> unat buf + n"

definition cur_inside :: "u64 \<Rightarrow> nat \<Rightarrow> cursor \<Rightarrow> bool" where
  "cur_inside buf n c \<longleftrightarrow> unat buf \<le> unat (rc_ptr c) \<and> unat (rc_ptr c) \<le> unat buf + n \<and> (\<forall>w\<in>set (rc_writes c). inside buf n w)"

lemma unat_plus_of_nat: "unat a + i < 2 ^ 64 \<Longrightarrow> unat (a + of_nat i :: u64) = unat a + i"
  by (subst unat_add_lem [THEN iffD1]) (simp_all add: unat_of_nat_u64)

lemma extends_inside:
  assumes "cur_inside buf n c" "extends k c c'" "unat (rc_ptr c) + k \<le> unat buf + n" "unat buf + n < 2 ^ 64"
  shows "cur_inside buf n c'"
proof -
  obtain m ws where e: "m \<le> k" "rc_ptr c' = rc_ptr c + of_nat m" "rc_writes c' = rc_writes c @ ws"
    "\<forall>(a, bs)\<in>set ws. \<exists>i. a = rc_ptr c + of_nat i \<and> i + length bs \<le> k"
    using assms(2) unfolding extends_def by blast
  have "inside buf n (a, bs)" if ab: "(a, bs) \<in> set ws" for a bs
  proof -
    obtain i where i: "a = rc_ptr c + of_nat i" "i + length bs \<le> k" using ab e(4) by fastforce
    then have "unat a = unat (rc_ptr c) + i" using assms(3,4) by (simp add: unat_plus_of_nat)
    then show ?thesis using i(2) assms(1,3) by (simp add: inside_def cur_inside_def)
  qed
  moreover have "unat (rc_ptr c') = unat (rc_ptr c) + m" using e(1,2) assms(3,4) by (simp add: unat_plus_of_nat)
  ultimately show ?thesis using assms(1,3) e(1,3) by (auto simp: cur_inside_def)
qed

lemma room_left:
  assumes "cur_inside buf (unat sz) c" "unat buf + unat sz < 2 ^ 64" "\<not> buf + sz - rc_ptr c < sizeof_secctx_and_cmd"
  shows "unat (rc_ptr c) + 76 \<le> unat buf + unat sz"
proof -
  have e: "unat (buf + sz) = unat buf + unat sz" using assms(2) by (subst unat_add_lem [THEN iffD1]) simp_all
  then have le: "rc_ptr c \<le> buf + sz" using assms(1) by (simp add: cur_inside_def word_le_nat_alt)
  then have "unat (buf + sz - rc_ptr c) = unat buf + unat sz - unat (rc_ptr c)" by (simp add: unat_sub e)
  then show ?thesis using assms(3) le e by (simp add: word_less_nat_alt sizeof_secctx_and_cmd_def word_le_nat_alt)
qed

lemma read_loop_inside_aux:
  assumes "thread_read_loop rb env sched p thread buf sz non_block k wpw ret c s = Some y"
  shows "unat buf + unat sz < 2 ^ 64 \<longrightarrow> cur_inside buf (unat sz) c \<longrightarrow> cur_inside buf (unat sz) (fst (snd y))"
proof (rule thread_read_loop.raw_induct [where P = "\<lambda>rb env sched p thread buf sz non_block k wpw ret c s y.
    unat buf + unat sz < 2 ^ 64 \<longrightarrow> cur_inside buf (unat sz) c \<longrightarrow> cur_inside buf (unat sz) (fst (snd y))", OF _ assms], goal_cases)
  case (1 f rb env sched p thread buf sz non_block k wpw ret c s y)
  have step: "cur_inside buf (unat sz) c1"
    if "read_work rb (env k) p thread w ret c s1 = Some (nxt, c1, s2)" "unat buf + unat sz < 2 ^ 64" "cur_inside buf (unat sz) c"
      "\<not> buf + sz - rc_ptr c < sizeof_secctx_and_cmd" for w s1 nxt c1 s2
    using extends_inside [OF that(3) read_work_extends [OF that(1)] room_left [OF that(3,2,4)] that(2)] .
  show ?case
    using 1(2) by (auto split: option.splits if_splits prod.splits sum.splits read_next.splits dest!: 1(1) dest: step)
qed

section \<open>The property\<close>

text \<open>
  C23. While a thread reads, the driver writes to user memory only inside the buffer of the thread, when that has room
  for one command at least and what is consumed already lies inside it; on success it consumes no more than that.
\<close>

theorem read_stays_in_buffer:
  assumes "binder_thread_read rb env sched ok p thread buf sz consumed non_block s = Some (r, consumed', ws, s')"
    and "unat buf + unat sz < 2 ^ 64" "4 \<le> sz" "consumed \<le> sz"
  shows "(\<forall>(a, bs)\<in>set ws. unat buf \<le> unat a \<and> unat a + length bs \<le> unat buf + unat sz) \<and> consumed' \<le> sz"
proof -
  let ?cur0 = "\<lparr>rc_ptr = buf + consumed, rc_writes = []\<rparr>"
  have sz: "4 \<le> unat sz" "unat consumed \<le> unat sz" using assms(3,4) by (simp_all add: word_le_nat_alt)
  have "unat (buf + consumed) = unat buf + unat consumed" using assms(2) sz(2) by (subst unat_add_lem [THEN iffD1]) simp_all
  then have c0: "cur_inside buf (unat sz) ?cur0" using sz(2) by (simp add: cur_inside_def)
  obtain r0 c where first: "(if consumed = 0 then put_user ok (word_bytes 4 BR_NOOP) ?cur0 else (Inr (), ?cur0)) = (r0, c)" by fastforce
  have c: "cur_inside buf (unat sz) c"
  proof (cases "consumed = 0")
    case True
    then have "put_user ok (word_bytes 4 BR_NOOP) ?cur0 = (r0, c)" using first by simp
    from extends_inside [OF c0 put_user_extends [OF this]] show ?thesis using True sz assms(2) by simp
  qed (use first c0 in simp)
  have last: "cur_inside buf (unat sz) c2" if "read_spawn ok p thread buf c1 s1 = (r1, c2, s2)" "cur_inside buf (unat sz) c1" for c1 s1 r1 c2 s2
    using that sz by (auto simp: read_spawn_def Let_def cur_inside_def inside_def split: if_splits)
  have consumed: "rc_ptr c - buf \<le> sz" if "cur_inside buf (unat sz) c" for c
    using that by (auto simp: cur_inside_def word_le_nat_alt unat_sub)
  have writes: "(\<forall>(a, bs)\<in>set (rc_writes c). unat buf \<le> unat a \<and> unat a + length bs \<le> unat buf + unat sz)" if "cur_inside buf (unat sz) c" for c
    using that by (auto simp: cur_inside_def inside_def)
  show ?thesis
  proof (cases r0)
    case (Inl e)
    then show ?thesis using assms(1,4) writes [OF c] unfolding binder_thread_read_def Let_def first by simp
  next
    case (Inr u)
    obtain r1 c1 s1 where l: "thread_read_loop rb env sched p thread buf sz non_block 0 None None c s = Some (r1, c1, s1)"
      using assms(1) unfolding binder_thread_read_def Let_def first Inr by (auto split: option.splits)
    have c1: "cur_inside buf (unat sz) c1" using read_loop_inside_aux [OF l] assms(2) c by simp
    obtain r2 c2 s2 where sp: "read_spawn ok p thread buf c1 s1 = (r2, c2, s2)" by (metis prod_cases3)
    show ?thesis
      using assms(1,4) writes [OF c1] writes [OF last [OF sp c1]] consumed [OF c1]
      unfolding binder_thread_read_def Let_def first Inr by (auto simp: l sp split: sum.splits)
  qed
qed

text \<open>A thread with an error to read.\<close>

definition error_state :: bstate where
  "error_state = sample_state\<lparr>wlist := (\<lambda>_. [])(ThreadTodo 6 := [ReturnErrorWork 6]), wpos := (\<lambda>_. None)(ReturnErrorWork 6 := Some (ThreadTodo 6)),
     wtype := (\<lambda>_. BINDER_WORK_RETURN_ERROR),
     thread_at := (thread_at sample_state)(6 := (sample_thread 2)\<lparr>process_todo := True, return_error_cmd := BR_FAILED_REPLY\<rparr>)\<rparr>"

definition error_env :: read_env where
  "error_env = \<lparr>put_ok = (\<lambda>_. True), from_kuid = (\<lambda>_. 0), task_tgid = (\<lambda>_. 0), cur_nice = 0, unused_fd = (\<lambda>_. None),
     rd_alloc = \<lparr>mmget_ok = True, alloc_page_ok = (\<lambda>_. True), vm_insert_ok = (\<lambda>_. True), kzalloc_buf = None\<rparr>,
     rd_close = \<lparr>same_task = True, kz_twcb = (\<lambda>_. True), file_close_fd = (\<lambda>_. None)\<rparr>, rd_acq = id\<rparr>"

definition error_read :: "u64 \<Rightarrow> (unit result \<times> u64 \<times> (u64 \<times> u8 list) list \<times> bstate) option" where
  "error_read sz = binder_thread_read plain_rb (\<lambda>_. error_env) (\<lambda>_ _ s. (False, s)) (\<lambda>_. True) 2 6 0x1000 sz 0 True error_state"

lemma error_read_writes:
  assumes "\<not> 0x1000 + sz - 0x1004 < 76"
  shows "\<exists>s'. error_read sz = Some (Inr (), 8, [(0x1000, word_bytes 4 BR_NOOP), (0x1004, word_bytes 4 BR_FAILED_REPLY)], s')"
  using assms
  apply (simp add: error_read_def binder_thread_read_def put_user_def Let_def)
  apply (subst thread_read_loop.simps)
  apply (simp add: read_wait_def binder_available_for_proc_work_ilocked_def binder_worklist_empty_ilocked_def error_state_def sample_defs
    binder_has_work_def binder_has_work_ilocked_def upd_thread_def Let_def)
  apply (subst thread_read_loop.simps)
  apply (simp add: read_list_def binder_worklist_empty_ilocked_def sizeof_secctx_and_cmd_def take_work_def binder_dequeue_work_head_ilocked_def
    read_work_def read_error_def put_user_def error_env_def list_del_def upd_thread_def)
  apply (subst thread_read_loop.simps)
  apply (simp add: read_list_def binder_worklist_empty_ilocked_def read_spawn_def sample_defs Let_def)
  done

theorem read_stays_in_buffer_witness:
  "\<exists>consumed' ws s'. error_read 256 = Some (Inr (), consumed', ws, s') \<and> ws \<noteq> [] \<and>
     (\<forall>(a, bs)\<in>set ws. 0x1000 \<le> unat a \<and> unat a + length bs \<le> 0x1000 + 256) \<and> consumed' \<le> 256"
proof -
  obtain s' where r: "error_read 256 = Some (Inr (), 8, [(0x1000, word_bytes 4 BR_NOOP), (0x1004, word_bytes 4 BR_FAILED_REPLY)], s')"
    using error_read_writes [of 256] by auto
  from read_stays_in_buffer [OF r [unfolded error_read_def]] show ?thesis unfolding r by auto
qed

text \<open>
  The room for a command is compared as an unsigned difference: a buffer of one to three bytes passes the check, since the
  first command has moved the cursor behind its end, and the driver writes on behind the buffer.
\<close>

theorem short_read_overruns:
  "\<exists>consumed' ws s'. error_read 3 = Some (Inr (), consumed', ws, s') \<and> (\<exists>(a, bs)\<in>set ws. unat a \<ge> 0x1000 + 3 \<and> bs \<noteq> [])"
proof -
  obtain s' where "error_read 3 = Some (Inr (), 8, [(0x1000, word_bytes 4 BR_NOOP), (0x1004, word_bytes 4 BR_FAILED_REPLY)], s')"
    using error_read_writes [of 3] by auto
  moreover have "word_bytes 4 BR_FAILED_REPLY \<noteq> []" by (simp add: word_bytes_def)
  ultimately show ?thesis by auto
qed

text \<open>
  The variable \<open>ret\<close> still holds the error of a transaction that was dropped earlier in the same call when the work of a
  node is read: the call fails with it, the node is marked as announced, and its owner never reads the strong count.
\<close>

theorem stale_error_loses_acquire:
  assumes "n_proc (node_at s n) = Some p" "node_strong (node_at s n)" "has_weak_ref (node_at s n)" "\<not> has_strong_ref (node_at s n)"
    "0 \<le> local_strong_refs (node_at s n)"
  shows "\<exists>s'. read_node rb env p n (Some e) cur s = Some (Fail e, cur, s') \<and> node_commands (node_at s n) = [BR_ACQUIRE] \<and>
    has_strong_ref (node_at s' n) \<and> node_commands (node_at s' n) = []"
  using assms
  by (auto simp: read_node_def announce_def put_then_def node_announced_def node_commands_def node_weak_def node_strong_def Let_def)

end
