(* ===== verification/Binder_Release.thy ===== *)
theory Binder_Release
  imports Binder_Read
begin

text \<open>
  Threads, processes and their end: the thread of a task, the release of a thread and of a node, the deferred release of
  a process, and opening, mapping and polling a binder file. \<open>None\<close> is a \<open>BUG_ON\<close>, a double free or a loop that
  never ends.
\<close>

section \<open>Dropping work\<close>

text \<open>What the clean-up paths need from outside: the allocator's environment and the steps of other threads.\<close>

record exit_env =
  ex_alloc :: alloc_env
  ex_acq :: "bstate \<Rightarrow> bstate"
  wait_active :: "ptr \<Rightarrow> bool"

definition release_work_item :: "rb_ops \<Rightarrow> exit_env \<Rightarrow> work_id \<Rightarrow> bstate \<Rightarrow> bstate option" where
  "release_work_item rb env w s =
     (case wtype s w of
        BINDER_WORK_TRANSACTION \<Rightarrow>
          (case w of TxnWork t \<Rightarrow> binder_cleanup_transaction rb (ex_alloc env) (ex_acq env) t BR_DEAD_REPLY s | _ \<Rightarrow> None)
      | BINDER_WORK_DEAD_BINDER_AND_CLEAR \<Rightarrow>
          (case w of DeathWork d \<Rightarrow> if death_live s d then Some (s\<lparr>death_live := (death_live s)(d := False)\<rparr>) else None | _ \<Rightarrow> None)
      | BINDER_WORK_CLEAR_DEATH_NOTIFICATION \<Rightarrow>
          (case w of DeathWork d \<Rightarrow> if death_live s d then Some (s\<lparr>death_live := (death_live s)(d := False)\<rparr>) else None | _ \<Rightarrow> None)
      | _ \<Rightarrow> Some s)"

partial_function (option) binder_release_work :: "rb_ops \<Rightarrow> exit_env \<Rightarrow> worklist \<Rightarrow> bstate \<Rightarrow> bstate option" where
  "binder_release_work rb env l s =
     (case binder_dequeue_work_head_ilocked l s of
        (None, s1) \<Rightarrow> Some s1
      | (Some w, s1) \<Rightarrow>
          (case release_work_item rb env w s1 of None \<Rightarrow> None
           | Some s2 \<Rightarrow> binder_release_work rb env l s2))"

section \<open>The thread of a task\<close>

definition thread_key :: "bstate \<Rightarrow> ptr \<Rightarrow> nat" where
  "thread_key s t = t_pid (thread_at s t)"

definition new_thread_fields :: "ptr \<Rightarrow> nat \<Rightarrow> binder_thread" where
  "new_thread_fields p pid =
     \<lparr>t_proc = p, t_pid = pid, looper = 0, looper_need_return = True, transaction_stack = None, process_todo = False,
      return_error_cmd = BR_OK, reply_error_cmd = BR_OK, t_tmp_ref = 0, t_is_dead = False\<rparr>"

definition binder_get_thread_ilocked :: "rb_ops \<Rightarrow> nat \<Rightarrow> ptr \<Rightarrow> ptr option \<Rightarrow> bstate \<Rightarrow> ptr option \<times> bstate" where
  "binder_get_thread_ilocked rb pid p new_thread s =
     (case rb_search (thread_key s) pid (p_threads (proc_at s p)) of
        Some t \<Rightarrow> (Some t, s)
      | None \<Rightarrow>
        (case new_thread of None \<Rightarrow> (None, s)
         | Some t \<Rightarrow>
             (Some t, (upd_proc p (\<lambda>pr. pr\<lparr>p_threads := rb_insert_color rb t (bst_link (\<lambda>x. pid < thread_key s x) t (p_threads pr))\<rparr>) s)
               \<lparr>thread_at := (thread_at s)(t := new_thread_fields p pid),
                wlist := (wlist s)(ThreadTodo t := []),
                wpos := (wpos s)(ReturnErrorWork t := None, ReplyErrorWork t := None),
                wtype := (wtype s)(ReturnErrorWork t := BINDER_WORK_RETURN_ERROR, ReplyErrorWork t := BINDER_WORK_RETURN_ERROR)\<rparr>)))"

text \<open>\<open>kz\<close> is the structure that \<open>kzalloc\<close> returns and \<open>intf\<close> what other threads do meanwhile.\<close>

definition binder_get_thread :: "rb_ops \<Rightarrow> ptr option \<Rightarrow> (bstate \<Rightarrow> bstate) \<Rightarrow> nat \<Rightarrow> ptr \<Rightarrow> bstate \<Rightarrow> ptr option \<times> bstate" where
  "binder_get_thread rb kz intf pid p s =
     (case binder_get_thread_ilocked rb pid p None s of
        (Some t, s1) \<Rightarrow> (Some t, s1)
      | (None, s1) \<Rightarrow>
        (case kz of None \<Rightarrow> (None, intf s1)
         | Some new \<Rightarrow>
             (let (t, s2) = binder_get_thread_ilocked rb pid p (Some new) (intf s1)
              in (t, s2\<lparr>thread_live := (thread_live s2)(new := (t = Some new))\<rparr>))))"

section \<open>The end of a thread\<close>

text \<open>The transactions on the stack of the thread forget it; the result is their number.\<close>

definition forget_incoming :: "ptr \<Rightarrow> bstate \<Rightarrow> bstate" where
  "forget_incoming t s =
     (let s1 = upd_txn t (\<lambda>x. x\<lparr>to_proc := None, to_thread := None\<rparr>) s in
      case x_buffer (txn_at s1 t) of None \<Rightarrow> s1
      | Some (p, b) \<Rightarrow> upd_txn t (\<lambda>x. x\<lparr>x_buffer := None\<rparr>) (upd_buf p b (\<lambda>bf. bf\<lparr>b_transaction := None\<rparr>) s1))"

partial_function (option) forget_stack :: "ptr \<Rightarrow> ptr option \<Rightarrow> nat \<Rightarrow> bstate \<Rightarrow> (nat \<times> bstate) option" where
  "forget_stack thread tmp k s =
     (case tmp of None \<Rightarrow> Some (k, s)
      | Some t \<Rightarrow>
          if to_thread (txn_at s t) = Some thread then forget_stack thread (to_parent (txn_at s t)) (Suc k) (forget_incoming t s)
          else if x_from (txn_at s t) = Some thread
          then forget_stack thread (from_parent (txn_at s t)) (Suc k) (upd_txn t (\<lambda>x. x\<lparr>x_from := None\<rparr>) s)
          else None)"

definition binder_thread_release :: "rb_ops \<Rightarrow> exit_env \<Rightarrow> ptr \<Rightarrow> ptr \<Rightarrow> bstate \<Rightarrow> (nat \<times> bstate) option" where
  "binder_thread_release rb env p thread s =
     (let s1 = upd_thread thread (\<lambda>th. th\<lparr>t_tmp_ref := t_tmp_ref th + 1, t_is_dead := True\<rparr>)
                 (upd_proc p (\<lambda>pr. pr\<lparr>p_tmp_ref := p_tmp_ref pr + 1, p_threads := rb_erase rb thread (p_threads pr)\<rparr>) s);
          stack = transaction_stack (thread_at s thread);
          send_reply = (case stack of None \<Rightarrow> None | Some t \<Rightarrow> if to_thread (txn_at s t) = Some thread then Some t else None)
      in case forget_stack thread stack 0 s1 of None \<Rightarrow> None
         | Some (active, s2) \<Rightarrow>
             (let s3 = (if looper (thread_at s2 thread) AND BINDER_LOOPER_STATE_POLL \<noteq> 0 \<and> wait_active env thread
                        then wake_up_interruptible False thread s2 else s2)
              in case (case send_reply of None \<Rightarrow> Some s3
                       | Some t \<Rightarrow> binder_send_failed_reply rb (ex_alloc env) (ex_acq env) t BR_DEAD_REPLY s3) of None \<Rightarrow> None
                 | Some s4 \<Rightarrow>
                   (case binder_release_work rb env (ThreadTodo thread) s4 of None \<Rightarrow> None
                    | Some s5 \<Rightarrow> map_option (\<lambda>s6. (active, s6)) (binder_thread_dec_tmpref rb (ex_alloc env) thread s5))))"

section \<open>The end of a node\<close>

text \<open>Every reference with a death notification gets it queued for its process.\<close>

definition notify_death :: "ptr \<Rightarrow> bstate \<Rightarrow> bstate option" where
  "notify_death r s =
     (case r_death (ref_at s r) of None \<Rightarrow> Some s
      | Some d \<Rightarrow>
          if wpos s (DeathWork d) \<noteq> None then None
          else map_option (binder_wakeup_proc_ilocked (r_proc (ref_at s r)))
                 (binder_enqueue_work_ilocked (DeathWork d) (Some (ProcTodo (r_proc (ref_at s r))))
                   (set_wtype (DeathWork d) BINDER_WORK_DEAD_BINDER s)))"

fun notify_deaths :: "ptr list \<Rightarrow> bstate \<Rightarrow> bstate option" where
  "notify_deaths [] s = Some s"
| "notify_deaths (r # rs) s = (case notify_death r s of None \<Rightarrow> None | Some s1 \<Rightarrow> notify_deaths rs s1)"

definition binder_node_release :: "rb_ops \<Rightarrow> exit_env \<Rightarrow> ptr \<Rightarrow> nat \<Rightarrow> bstate \<Rightarrow> (nat \<times> bstate) option" where
  "binder_node_release rb env n refs s =
     (case binder_release_work rb env (NodeAsync n) s of None \<Rightarrow> None
      | Some s1 \<Rightarrow>
          (let s2 = binder_dequeue_work_ilocked (NodeWork n) s1; nd = node_at s2 n in
           if tmp_refs nd = 0 then None
           else if n_refs nd = [] \<and> tmp_refs nd = 1 then map_option (\<lambda>s3. (refs, s3)) (binder_free_node n s2)
           else
             (let s3 = upd_node n (\<lambda>nd. nd\<lparr>n_proc := None, local_strong_refs := 0, local_weak_refs := 0\<rparr>) s2;
                  s4 = s3\<lparr>dead_nodes := n # dead_nodes s3\<rparr>
              in case notify_deaths (n_refs (node_at s4 n)) s4 of None \<Rightarrow> None
                 | Some s5 \<Rightarrow> map_option (\<lambda>s6. (refs + length (n_refs nd), s6)) (binder_put_node rb n s5))))"

section \<open>The end of a process\<close>

partial_function (option) release_threads :: "rb_ops \<Rightarrow> exit_env \<Rightarrow> ptr \<Rightarrow> bstate \<Rightarrow> bstate option" where
  "release_threads rb env p s =
     (case inorder (p_threads (proc_at s p)) of [] \<Rightarrow> Some s
      | t # _ \<Rightarrow> (case binder_thread_release rb env p t s of None \<Rightarrow> None | Some (_, s1) \<Rightarrow> release_threads rb env p s1))"

text \<open>The temporary reference keeps the node alive until \<open>binder_node_release\<close> is done with it.\<close>

definition release_one_node :: "rb_ops \<Rightarrow> exit_env \<Rightarrow> ptr \<Rightarrow> ptr \<Rightarrow> nat \<Rightarrow> bstate \<Rightarrow> (nat \<times> bstate) option" where
  "release_one_node rb env p n refs s =
     binder_node_release rb env n refs
       (upd_proc p (\<lambda>pr. pr\<lparr>p_nodes := rb_erase rb n (p_nodes pr)\<rparr>) (binder_inc_node_tmpref_ilocked n s))"

partial_function (option) release_nodes :: "rb_ops \<Rightarrow> exit_env \<Rightarrow> ptr \<Rightarrow> nat \<Rightarrow> bstate \<Rightarrow> bstate option" where
  "release_nodes rb env p refs s =
     (case inorder (p_nodes (proc_at s p)) of [] \<Rightarrow> Some s
      | n # _ \<Rightarrow>
          (case release_one_node rb env p n refs s of None \<Rightarrow> None
           | Some (refs', s1) \<Rightarrow> release_nodes rb env p refs' s1))"

partial_function (option) release_refs :: "rb_ops \<Rightarrow> ptr \<Rightarrow> bstate \<Rightarrow> bstate option" where
  "release_refs rb p s =
     (case inorder (refs_by_desc (proc_at s p)) of [] \<Rightarrow> Some s
      | r # _ \<Rightarrow>
          (case binder_cleanup_ref_olocked rb r s of None \<Rightarrow> None
           | Some s1 \<Rightarrow> (case binder_free_ref r s1 of None \<Rightarrow> None | Some s2 \<Rightarrow> release_refs rb p s2)))"

definition drop_context_mgr :: "ptr \<Rightarrow> bstate \<Rightarrow> bstate" where
  "drop_context_mgr p s =
     (let c = p_context (proc_at s p) in
      case binder_context_mgr_node (ctx_at s c) of None \<Rightarrow> s
      | Some n \<Rightarrow>
          if n_proc (node_at s n) = Some p
          then s\<lparr>ctx_at := (ctx_at s)(c := (ctx_at s c)\<lparr>binder_context_mgr_node := None\<rparr>)\<rparr> else s)"

definition binder_deferred_release :: "rb_ops \<Rightarrow> exit_env \<Rightarrow> ptr \<Rightarrow> bstate \<Rightarrow> bstate option" where
  "binder_deferred_release rb env p s =
     (let s1 = drop_context_mgr p (s\<lparr>binder_procs := list_del p (binder_procs s)\<rparr>);
          s2 = upd_proc p (\<lambda>pr. pr\<lparr>p_tmp_ref := p_tmp_ref pr + 1, p_is_dead := True\<rparr>) s1
      in case release_threads rb env p s2 of None \<Rightarrow> None
         | Some s3 \<Rightarrow>
           (case release_nodes rb env p 0 s3 of None \<Rightarrow> None
            | Some s4 \<Rightarrow>
              (case release_refs rb p s4 of None \<Rightarrow> None
               | Some s5 \<Rightarrow>
                 (case binder_release_work rb env (ProcTodo p) s5 of None \<Rightarrow> None
                  | Some s6 \<Rightarrow>
                    (case binder_release_work rb env (DeliveredDeath p) s6 of None \<Rightarrow> None
                     | Some s7 \<Rightarrow> binder_proc_dec_tmpref rb (ex_alloc env) p s7)))))"

section \<open>Deferred work\<close>

definition BINDER_DEFERRED_FLUSH :: u32 where "BINDER_DEFERRED_FLUSH = 0x01"
definition BINDER_DEFERRED_RELEASE :: u32 where "BINDER_DEFERRED_RELEASE = 0x02"

definition binder_defer_work :: "ptr \<Rightarrow> u32 \<Rightarrow> bstate \<Rightarrow> bstate" where
  "binder_defer_work p defer s =
     (let s1 = upd_proc p (\<lambda>pr. pr\<lparr>p_deferred_work := p_deferred_work pr OR defer\<rparr>) s in
      if p \<notin> set (binder_deferred_list s1) then s1\<lparr>binder_deferred_list := p # binder_deferred_list s1\<rparr> else s1)"

definition binder_flush :: "ptr \<Rightarrow> bstate \<Rightarrow> bstate" where
  "binder_flush p s = binder_defer_work p BINDER_DEFERRED_FLUSH s"

text \<open>The debug files of the process are not modelled.\<close>

definition binder_release :: "ptr \<Rightarrow> bstate \<Rightarrow> bstate" where
  "binder_release p s = binder_defer_work p BINDER_DEFERRED_RELEASE s"

definition flush_thread :: "ptr \<Rightarrow> bstate \<Rightarrow> bstate" where
  "flush_thread t s =
     (let s1 = upd_thread t (\<lambda>th. th\<lparr>looper_need_return := True\<rparr>) s in
      if looper (thread_at s1 t) AND BINDER_LOOPER_STATE_WAITING \<noteq> 0 then wake_up_interruptible False t s1 else s1)"

definition binder_deferred_flush :: "ptr \<Rightarrow> bstate \<Rightarrow> bstate" where
  "binder_deferred_flush p s = fold flush_thread (inorder (p_threads (proc_at s p))) s"

definition deferred_item :: "rb_ops \<Rightarrow> exit_env \<Rightarrow> ptr \<Rightarrow> bstate \<Rightarrow> bstate option" where
  "deferred_item rb env p s =
     (let defer = p_deferred_work (proc_at s p);
          s1 = upd_proc p (\<lambda>pr. pr\<lparr>p_deferred_work := 0\<rparr>) (s\<lparr>binder_deferred_list := list_del p (binder_deferred_list s)\<rparr>);
          s2 = (if defer AND BINDER_DEFERRED_FLUSH \<noteq> 0 then binder_deferred_flush p s1 else s1)
      in if defer AND BINDER_DEFERRED_RELEASE \<noteq> 0 then binder_deferred_release rb env p s2 else Some s2)"

partial_function (option) binder_deferred_func :: "rb_ops \<Rightarrow> exit_env \<Rightarrow> bstate \<Rightarrow> bstate option" where
  "binder_deferred_func rb env s =
     (case binder_deferred_list s of [] \<Rightarrow> Some s
      | p # _ \<Rightarrow> (case deferred_item rb env p s of None \<Rightarrow> None | Some s1 \<Rightarrow> binder_deferred_func rb env s1))"

section \<open>Opening, mapping and polling\<close>

text \<open>
  A new process: \<open>kz\<close> is the structure, \<open>c\<close> the device that was opened, \<open>al\<close> the allocator before
  \<open>binder_alloc_init\<close>. The task and the debug files are not part of the state.
\<close>

definition new_proc_fields :: "binder_alloc \<Rightarrow> nat \<Rightarrow> int \<Rightarrow> ptr \<Rightarrow> binder_proc" where
  "new_proc_fields al pid nice c =
     \<lparr>p_threads = Leaf, p_nodes = Leaf, refs_by_desc = Leaf, refs_by_node = Leaf, waiting_threads = [], p_pid = pid,
      p_deferred_work = 0, p_is_dead = False, max_threads = 0, requested_threads = 0, requested_threads_started = 0,
      p_tmp_ref = 0, default_priority = nice, p_alloc = binder_alloc_init al, p_context = c\<rparr>"

definition zero_alloc :: binder_alloc where
  "zero_alloc = \<lparr>vma = None, vma_vm_mm = None, mm_grabs = 0, buffer = 0, buffers = [], bufs = (\<lambda>_. zero_buffer),
     free_buffers = Leaf, allocated_buffers = Leaf, free_async_space = 0, pages = [], buffer_size = 0, pages_high = 0\<rparr>"

definition binder_open :: "ptr option \<Rightarrow> nat \<Rightarrow> int \<Rightarrow> ptr \<Rightarrow> bstate \<Rightarrow> ptr result \<times> bstate" where
  "binder_open kz pid nice c s =
     (case kz of None \<Rightarrow> (Inl ENOMEM, s)
      | Some p \<Rightarrow>
          (Inr p, s\<lparr>proc_at := (proc_at s)(p := new_proc_fields zero_alloc pid nice c), proc_live := (proc_live s)(p := True),
                    wlist := (wlist s)(ProcTodo p := [], DeliveredDeath p := []),
                    device_ref := (device_ref s)(c := device_ref s c + 1), binder_procs := p # binder_procs s\<rparr>))"

definition VM_WRITE :: u64 where "VM_WRITE = 0x2"
definition VM_MAYWRITE :: u64 where "VM_MAYWRITE = 0x20"
definition VM_DONTCOPY :: u64 where "VM_DONTCOPY = 0x20000"
definition VM_MIXEDMAP :: u64 where "VM_MIXEDMAP = 0x10000000"
definition FORBIDDEN_MMAP_FLAGS :: u64 where "FORBIDDEN_MMAP_FLAGS = VM_WRITE"

text \<open>The wrappers for the flags of a mapping are empty on kernels before 6.3.\<close>

definition binder_vm_flags_set :: "bool \<Rightarrow> u64 \<Rightarrow> u64 \<Rightarrow> u64" where
  "binder_vm_flags_set since_6_3 flags vm_flags = (if since_6_3 then vm_flags OR flags else vm_flags)"

definition binder_vm_flags_clear :: "bool \<Rightarrow> u64 \<Rightarrow> u64 \<Rightarrow> u64" where
  "binder_vm_flags_clear since_6_3 flags vm_flags = (if since_6_3 then vm_flags AND NOT flags else vm_flags)"

text \<open>
  The result, the flags of the mapping and the new state; \<open>own_task\<close>: the caller belongs to the process that opened
  the file.
\<close>

definition binder_mmap ::
    "rb_ops \<Rightarrow> bool \<Rightarrow> bool \<Rightarrow> bool \<Rightarrow> ptr option \<Rightarrow> vm_area \<Rightarrow> u64 \<Rightarrow> ptr \<Rightarrow> bstate \<Rightarrow> (unit result \<times> u64 \<times> bstate) option" where
  "binder_mmap rb since_6_3 own_task pages_ok new w vm_flags p s =
     (if \<not> own_task then Some (Inl EINVAL, vm_flags, s)
      else if vm_flags AND FORBIDDEN_MMAP_FLAGS \<noteq> 0 then Some (Inl EPERM, vm_flags, s)
      else
        (let f = binder_vm_flags_clear since_6_3 VM_MAYWRITE (binder_vm_flags_set since_6_3 (VM_DONTCOPY OR VM_MIXEDMAP) vm_flags)
         in map_option (\<lambda>(r, al). (r, f, set_alloc p al s)) (binder_alloc_mmap_handler rb pages_ok new w (p_alloc (proc_at s p)))))"

definition binder_vma_close :: "ptr \<Rightarrow> bstate \<Rightarrow> bstate" where
  "binder_vma_close p s = set_alloc p (binder_alloc_vma_close (p_alloc (proc_at s p))) s"

datatype poll_result = POLLERR | EPOLLIN | NoEvent

definition binder_poll :: "rb_ops \<Rightarrow> ptr option \<Rightarrow> (bstate \<Rightarrow> bstate) \<Rightarrow> nat \<Rightarrow> ptr \<Rightarrow> bstate \<Rightarrow> poll_result \<times> bstate" where
  "binder_poll rb kz intf pid p s =
     (case binder_get_thread rb kz intf pid p s of
        (None, s1) \<Rightarrow> (POLLERR, s1)
      | (Some t, s1) \<Rightarrow>
          (let s2 = upd_thread t (\<lambda>th. th\<lparr>looper := looper th OR BINDER_LOOPER_STATE_POLL\<rparr>) s1;
               wait_for_proc_work = binder_available_for_proc_work_ilocked t s2
           in (if binder_has_work t wait_for_proc_work s2 then EPOLLIN else NoEvent, s2)))"

end
