(* ===== verification/Binder_Ioctl.thy ===== *)
theory Binder_Ioctl
  imports Binder_Release
begin

text \<open>
  The ioctl commands of a binder file: writing and reading the command streams, the context manager, the number of
  threads, the end of a thread and the queries about nodes. Writes to user memory are returned as a list.
\<close>

section \<open>Commands\<close>

definition BINDER_WRITE_READ :: u32 where "BINDER_WRITE_READ = 0xc0306201"
definition BINDER_SET_MAX_THREADS :: u32 where "BINDER_SET_MAX_THREADS = 0x40046205"
definition BINDER_SET_CONTEXT_MGR :: u32 where "BINDER_SET_CONTEXT_MGR = 0x40046207"
definition BINDER_THREAD_EXIT :: u32 where "BINDER_THREAD_EXIT = 0x40046208"
definition BINDER_VERSION :: u32 where "BINDER_VERSION = 0xc0046209"
definition BINDER_GET_NODE_DEBUG_INFO :: u32 where "BINDER_GET_NODE_DEBUG_INFO = 0xc018620b"
definition BINDER_GET_NODE_INFO_FOR_REF :: u32 where "BINDER_GET_NODE_INFO_FOR_REF = 0xc018620c"
definition BINDER_SET_CONTEXT_MGR_EXT :: u32 where "BINDER_SET_CONTEXT_MGR_EXT = 0x4018620d"
definition BINDER_CURRENT_PROTOCOL_VERSION :: u32 where "BINDER_CURRENT_PROTOCOL_VERSION = 8"

definition ioc_size :: "u32 \<Rightarrow> nat" where
  "ioc_size cmd = unat (drop_bit 16 cmd AND 0x3fff)"

text \<open>What the kernel decides during one call.\<close>

record ioctl_env =
  io_user :: "u64 \<Rightarrow> u8 list"
  io_put :: "u64 \<Rightarrow> bool"
  io_interrupted :: bool
  io_pid :: nat
  io_new_thread :: "ptr option"
  io_between :: "bstate \<Rightarrow> bstate"
  io_write :: "u64 \<Rightarrow> write_env"
  io_read :: "nat \<Rightarrow> read_env"
  io_sched :: "nat \<Rightarrow> nat \<Rightarrow> bstate \<Rightarrow> bool \<times> bstate"
  io_nonblock :: bool
  io_forbid_mgr :: "errno option"
  io_euid :: nat
  io_new_node :: "ptr option"
  io_exit :: exit_env

type_synonym user_writes = "(u64 \<times> u8 list) list"

section \<open>Writing and reading\<close>

record binder_write_read =
  write_size :: u64
  write_consumed :: u64
  write_buffer :: u64
  read_size :: u64
  read_consumed :: u64
  read_buffer :: u64

definition to_write_read :: "u8 list \<Rightarrow> binder_write_read" where
  "to_write_read bs = \<lparr>write_size = get_u64 0 bs, write_consumed = get_u64 8 bs, write_buffer = get_u64 16 bs,
     read_size = get_u64 24 bs, read_consumed = get_u64 32 bs, read_buffer = get_u64 40 bs\<rparr>"

definition write_read_bytes :: "binder_write_read \<Rightarrow> u8 list" where
  "write_read_bytes b = word_bytes 8 (write_size b) @ word_bytes 8 (write_consumed b) @ word_bytes 8 (write_buffer b) @
     word_bytes 8 (read_size b) @ word_bytes 8 (read_consumed b) @ word_bytes 8 (read_buffer b)"

text \<open>\<open>copy_to_user\<close> of the structure; its failure replaces the result.\<close>

definition give_back ::
    "ioctl_env \<Rightarrow> u64 \<Rightarrow> binder_write_read \<Rightarrow> unit result \<Rightarrow> user_writes \<Rightarrow> bstate \<Rightarrow> unit result \<times> user_writes \<times> bstate" where
  "give_back env arg bwr r ws s = (if io_put env arg then r else Inl EFAULT, ws @ [(arg, write_read_bytes bwr)], s)"

definition write_part :: "rb_ops \<Rightarrow> ioctl_env \<Rightarrow> ptr \<Rightarrow> ptr \<Rightarrow> binder_write_read \<Rightarrow> bstate \<Rightarrow> (unit result \<times> binder_write_read \<times> bstate) option" where
  "write_part rb env p thread bwr s =
     (if write_size bwr = 0 then Some (Inr (), bwr, s)
      else case binder_thread_write rb (io_write env) p thread (write_buffer bwr) (write_size bwr) (write_consumed bwr) s of None \<Rightarrow> None
      | Some (r, consumed, s1) \<Rightarrow> Some (r, bwr\<lparr>write_consumed := consumed\<rparr>, s1))"

definition read_part :: "rb_ops \<Rightarrow> ioctl_env \<Rightarrow> ptr \<Rightarrow> ptr \<Rightarrow> binder_write_read \<Rightarrow> bstate \<Rightarrow>
    (unit result \<times> binder_write_read \<times> user_writes \<times> bstate) option" where
  "read_part rb env p thread bwr s =
     (if read_size bwr = 0 then Some (Inr (), bwr, [], s)
      else case binder_thread_read rb (io_read env) (io_sched env) (io_put env) p thread (read_buffer bwr) (read_size bwr)
                  (read_consumed bwr) (io_nonblock env) s of None \<Rightarrow> None
      | Some (r, consumed, ws, s1) \<Rightarrow>
          Some (r, bwr\<lparr>read_consumed := consumed\<rparr>, ws,
            if \<not> binder_worklist_empty_ilocked (ProcTodo p) s1 then binder_wakeup_proc_ilocked p s1 else s1))"

definition binder_ioctl_write_read ::
    "rb_ops \<Rightarrow> ioctl_env \<Rightarrow> ptr \<Rightarrow> ptr \<Rightarrow> u32 \<Rightarrow> u64 \<Rightarrow> bstate \<Rightarrow> (unit result \<times> user_writes \<times> bstate) option" where
  "binder_ioctl_write_read rb env p thread cmd arg s =
     (if ioc_size cmd \<noteq> 48 then Some (Inl EINVAL, [], s)
      else case copy_from_user (io_user env) arg 48 of None \<Rightarrow> Some (Inl EFAULT, [], s)
      | Some bs \<Rightarrow>
        (case write_part rb env p thread (to_write_read bs) s of None \<Rightarrow> None
         | Some (Inl e, bwr1, s1) \<Rightarrow> Some (give_back env arg (bwr1\<lparr>read_consumed := 0\<rparr>) (Inl e) [] s1)
         | Some (Inr _, bwr1, s1) \<Rightarrow>
           (case read_part rb env p thread bwr1 s1 of None \<Rightarrow> None
            | Some (r, bwr2, ws, s2) \<Rightarrow> Some (give_back env arg bwr2 r ws s2))))"

section \<open>The context manager\<close>

definition binder_ioctl_set_ctx_mgr ::
    "rb_ops \<Rightarrow> ioctl_env \<Rightarrow> ptr \<Rightarrow> flat_binder_object option \<Rightarrow> bstate \<Rightarrow> (unit result \<times> bstate) option" where
  "binder_ioctl_set_ctx_mgr rb env p fbo s =
     (let c = p_context (proc_at s p); ctx = ctx_at s c in
      if binder_context_mgr_node ctx \<noteq> None then Some (Inl EBUSY, s)
      else case io_forbid_mgr env of Some e \<Rightarrow> Some (Inl e, s)
      | None \<Rightarrow>
          if (case binder_context_mgr_uid ctx of None \<Rightarrow> False | Some u \<Rightarrow> u \<noteq> io_euid env) then Some (Inl EPERM, s)
          else
            (let s1 = s\<lparr>ctx_at := (ctx_at s)(c := ctx\<lparr>binder_context_mgr_uid := Some (io_euid env)\<rparr>)\<rparr> in
             case binder_new_node rb (io_new_node env) p fbo s1 of
               (None, s2) \<Rightarrow> Some (Inl ENOMEM, s2)
             | (Some n, s2) \<Rightarrow>
                 (let s3 = upd_node n (\<lambda>nd. nd\<lparr>local_weak_refs := local_weak_refs nd + 1, local_strong_refs := local_strong_refs nd + 1,
                             has_strong_ref := True, has_weak_ref := True\<rparr>) s2;
                      s4 = s3\<lparr>ctx_at := (ctx_at s3)(c := (ctx_at s3 c)\<lparr>binder_context_mgr_node := Some n\<rparr>)\<rparr>
                  in put_after rb n (Inr ()) s4)))"

section \<open>Queries\<close>

record binder_node_info_for_ref =
  ni_handle :: u32
  ni_strong :: u32
  ni_weak :: u32
  ni_reserved1 :: u32
  ni_reserved2 :: u32
  ni_reserved3 :: u32

definition to_node_info :: "u8 list \<Rightarrow> binder_node_info_for_ref" where
  "to_node_info bs = \<lparr>ni_handle = get_u32 0 bs, ni_strong = get_u32 4 bs, ni_weak = get_u32 8 bs, ni_reserved1 = get_u32 12 bs,
     ni_reserved2 = get_u32 16 bs, ni_reserved3 = get_u32 20 bs\<rparr>"

definition node_info_bytes :: "binder_node_info_for_ref \<Rightarrow> u8 list" where
  "node_info_bytes i = word_bytes 4 (ni_handle i) @ word_bytes 4 (ni_strong i) @ word_bytes 4 (ni_weak i) @
     word_bytes 4 (ni_reserved1 i) @ word_bytes 4 (ni_reserved2 i) @ word_bytes 4 (ni_reserved3 i)"

definition binder_ioctl_get_node_info_for_ref ::
    "rb_ops \<Rightarrow> ptr \<Rightarrow> binder_node_info_for_ref \<Rightarrow> bstate \<Rightarrow> (binder_node_info_for_ref result \<times> bstate) option" where
  "binder_ioctl_get_node_info_for_ref rb p info s =
     (if ni_strong info \<noteq> 0 \<or> ni_weak info \<noteq> 0 \<or> ni_reserved1 info \<noteq> 0 \<or> ni_reserved2 info \<noteq> 0 \<or> ni_reserved3 info \<noteq> 0
      then Some (Inl EINVAL, s)
      else case context_mgr_of s p of None \<Rightarrow> Some (Inl EPERM, s)
      | Some m \<Rightarrow>
          if n_proc (node_at s m) \<noteq> Some p then Some (Inl EPERM, s)
          else case binder_get_node_from_ref p (ni_handle info) True s of None \<Rightarrow> None
          | Some (None, s1) \<Rightarrow> Some (Inl EINVAL, s1)
          | Some (Some (n, _), s1) \<Rightarrow>
              put_after rb n
                (Inr (info\<lparr>ni_strong := word_of_int (local_strong_refs (node_at s1 n) + internal_strong_refs (node_at s1 n)),
                           ni_weak := word_of_int (local_weak_refs (node_at s1 n))\<rparr>)) s1)"

record binder_node_debug_info =
  nd_ptr :: u64
  nd_cookie :: u64
  nd_strong :: bool
  nd_weak :: bool

fun next_node :: "(ptr \<Rightarrow> u64) \<Rightarrow> u64 \<Rightarrow> ptr list \<Rightarrow> ptr option" where
  "next_node key a [] = None"
| "next_node key a (n # ns) = (if key n > a then Some n else next_node key a ns)"

definition binder_ioctl_get_node_debug_info :: "ptr \<Rightarrow> u64 \<Rightarrow> bstate \<Rightarrow> binder_node_debug_info" where
  "binder_ioctl_get_node_debug_info p a s =
     (case next_node (node_key s) a (inorder (p_nodes (proc_at s p))) of
        None \<Rightarrow> \<lparr>nd_ptr = 0, nd_cookie = 0, nd_strong = False, nd_weak = False\<rparr>
      | Some n \<Rightarrow> \<lparr>nd_ptr = n_ptr (node_at s n), nd_cookie = n_cookie (node_at s n), nd_strong = has_strong_ref (node_at s n),
                  nd_weak = has_weak_ref (node_at s n)\<rparr>)"

definition debug_info_bytes :: "binder_node_debug_info \<Rightarrow> u8 list" where
  "debug_info_bytes i = word_bytes 8 (nd_ptr i) @ word_bytes 8 (nd_cookie i) @
     word_bytes 4 (if nd_strong i then 1 else 0 :: u32) @ word_bytes 4 (if nd_weak i then 1 else 0 :: u32)"

section \<open>The call\<close>

text \<open>A command that writes an answer to its argument.\<close>

definition answer :: "ioctl_env \<Rightarrow> u64 \<Rightarrow> errno \<Rightarrow> u8 list \<Rightarrow> bstate \<Rightarrow> unit result \<times> user_writes \<times> bstate" where
  "answer env arg e bs s = (if io_put env arg then Inr () else Inl e, [(arg, bs)], s)"

definition ioctl_command ::
    "rb_ops \<Rightarrow> ioctl_env \<Rightarrow> ptr \<Rightarrow> ptr \<Rightarrow> u32 \<Rightarrow> u64 \<Rightarrow> bstate \<Rightarrow> (unit result \<times> user_writes \<times> bstate) option" where
  "ioctl_command rb env p thread cmd arg s =
     (if cmd = BINDER_WRITE_READ then binder_ioctl_write_read rb env p thread cmd arg s
      else if cmd = BINDER_SET_MAX_THREADS then
        (case copy_from_user (io_user env) arg 4 of None \<Rightarrow> Some (Inl EINVAL, [], s)
         | Some bs \<Rightarrow> Some (Inr (), [], upd_proc p (\<lambda>pr. pr\<lparr>max_threads := sint (get_u32 0 bs)\<rparr>) s))
      else if cmd = BINDER_SET_CONTEXT_MGR_EXT then
        (case copy_from_user (io_user env) arg 24 of None \<Rightarrow> Some (Inl EINVAL, [], s)
         | Some bs \<Rightarrow> map_option (\<lambda>(r, s1). (r, [], s1)) (binder_ioctl_set_ctx_mgr rb env p (Some (to_flat_binder_object bs)) s))
      else if cmd = BINDER_SET_CONTEXT_MGR then map_option (\<lambda>(r, s1). (r, [], s1)) (binder_ioctl_set_ctx_mgr rb env p None s)
      else if cmd = BINDER_THREAD_EXIT then
        map_option (\<lambda>(_, s1). (Inr (), [], s1)) (binder_thread_release rb (io_exit env) p thread s)
      else if cmd = BINDER_VERSION then
        (if ioc_size cmd \<noteq> 4 then Some (Inl EINVAL, [], s)
         else Some (answer env arg EINVAL (word_bytes 4 BINDER_CURRENT_PROTOCOL_VERSION) s))
      else if cmd = BINDER_GET_NODE_INFO_FOR_REF then
        (case copy_from_user (io_user env) arg 24 of None \<Rightarrow> Some (Inl EFAULT, [], s)
         | Some bs \<Rightarrow>
             (case binder_ioctl_get_node_info_for_ref rb p (to_node_info bs) s of None \<Rightarrow> None
              | Some (Inl e, s1) \<Rightarrow> Some (Inl e, [], s1)
              | Some (Inr info, s1) \<Rightarrow> Some (answer env arg EFAULT (node_info_bytes info) s1)))
      else if cmd = BINDER_GET_NODE_DEBUG_INFO then
        (case copy_from_user (io_user env) arg 24 of None \<Rightarrow> Some (Inl EFAULT, [], s)
         | Some bs \<Rightarrow> Some (answer env arg EFAULT (debug_info_bytes (binder_ioctl_get_node_debug_info p (get_u64 0 bs) s)) s))
      else Some (Inl EINVAL, [], s))"

text \<open>The thread is not touched any more after its end.\<close>

definition binder_ioctl :: "rb_ops \<Rightarrow> ioctl_env \<Rightarrow> ptr \<Rightarrow> u32 \<Rightarrow> u64 \<Rightarrow> bstate \<Rightarrow> (unit result \<times> user_writes \<times> bstate) option" where
  "binder_ioctl rb env p cmd arg s =
     (if io_interrupted env then Some (Inl ERESTARTSYS, [], s)
      else case binder_get_thread rb (io_new_thread env) (io_between env) (io_pid env) p s of
        (None, s1) \<Rightarrow> Some (Inl ENOMEM, [], s1)
      | (Some thread, s1) \<Rightarrow>
          (case ioctl_command rb env p thread cmd arg s1 of None \<Rightarrow> None
           | Some (r, ws, s2) \<Rightarrow>
               Some (r, ws, if cmd = BINDER_THREAD_EXIT then s2 else upd_thread thread (\<lambda>th. th\<lparr>looper_need_return := False\<rparr>) s2)))"

end
