(* ===== verification/Binder_Death.thy ===== *)
theory Binder_Death
  imports Binder_Release Binder_Translate_Inv
begin

text \<open>
  The end of a node: its owner lets go of it, the references of other processes stay, and every one of them that asked for
  it gets a death notification.
\<close>

section \<open>Queueing for a process\<close>

lemma wakeup_proc_fields:
  "wtype (binder_wakeup_proc_ilocked p s) = wtype s" "death_cookie (binder_wakeup_proc_ilocked p s) = death_cookie s"
  "thread_at (binder_wakeup_proc_ilocked p s) = thread_at s" "txn_at (binder_wakeup_proc_ilocked p s) = txn_at s"
  "txn_live (binder_wakeup_proc_ilocked p s) = txn_live s"
proof -
  obtain wk where "fold (\<lambda>t s. if looper (thread_at s t) AND BINDER_LOOPER_STATE_POLL \<noteq> 0 \<and> binder_available_for_proc_work_ilocked t s
      then wake_up_interruptible False t s else s) (inorder (p_threads (proc_at s p))) s = s\<lparr>woken := wk\<rparr>"
    using wake_poll_fold by blast
  then show "wtype (binder_wakeup_proc_ilocked p s) = wtype s" "death_cookie (binder_wakeup_proc_ilocked p s) = death_cookie s"
    "thread_at (binder_wakeup_proc_ilocked p s) = thread_at s" "txn_at (binder_wakeup_proc_ilocked p s) = txn_at s"
    "txn_live (binder_wakeup_proc_ilocked p s) = txn_live s"
    by (auto simp: binder_wakeup_proc_ilocked_def binder_select_thread_ilocked_def binder_wakeup_thread_ilocked_def
        binder_wakeup_poll_threads_ilocked_def wake_up_interruptible_def upd_proc_def split: list.splits)
qed

lemma set_wtype_simps [simp]:
  "same_core s (set_wtype w ty s)" "node_at (set_wtype w ty s) = node_at s" "wpos (set_wtype w ty s) = wpos s"
  "wlist (set_wtype w ty s) = wlist s" "wtype (set_wtype w ty s) = (wtype s)(w := ty)"
  "death_cookie (set_wtype w ty s) = death_cookie s" "thread_at (set_wtype w ty s) = thread_at s"
  "txn_at (set_wtype w ty s) = txn_at s" "txn_live (set_wtype w ty s) = txn_live s"
  by (simp_all add: set_wtype_def same_core_def)

lemma enqueued_fields [simp]:
  "wtype (enqueued w l s) = wtype s" "death_cookie (enqueued w l s) = death_cookie s" "thread_at (enqueued w l s) = thread_at s"
  "txn_at (enqueued w l s) = txn_at s" "txn_live (enqueued w l s) = txn_live s"
  by (simp_all add: enqueued_def)

text \<open>Work of a given type on the list of a process, whose threads are woken.\<close>

definition posted :: "ptr \<Rightarrow> work_id \<Rightarrow> work_type \<Rightarrow> bstate \<Rightarrow> bstate" where
  "posted p w ty s = binder_wakeup_proc_ilocked p (enqueued w (ProcTodo p) (set_wtype w ty s))"

lemma posted_simps [simp]:
  "same_core s (posted p w ty s)" "node_at (posted p w ty s) = node_at s" "wpos (posted p w ty s) = (wpos s)(w := Some (ProcTodo p))"
  "wtype (posted p w ty s) = (wtype s)(w := ty)" "death_cookie (posted p w ty s) = death_cookie s"
  "wlist (posted p w ty s) = (wlist s)(ProcTodo p := wlist s (ProcTodo p) @ [w])" "thread_at (posted p w ty s) = thread_at s"
  "txn_at (posted p w ty s) = txn_at s" "txn_live (posted p w ty s) = txn_live s"
  unfolding posted_def
  using same_core_trans [OF same_core_trans [OF set_wtype_simps(1) enqueued_simps(1)] wakeup_proc_core(1)]
  by (simp_all add: wakeup_proc_core wakeup_proc_fields)

lemma work_ok_posted:
  assumes "work_ok s" "wpos s w = None" "\<And>n. w \<noteq> NodeWork n" "\<And>d. w = DeathWork d \<Longrightarrow> death_live s d"
  shows "work_ok (posted p w ty s)"
proof -
  have "work_ok (enqueued w (ProcTodo p) s)" using assms by (intro work_ok_enqueued) auto
  then show ?thesis unfolding work_ok_def posted_simps same_coreD [OF posted_simps(1)] by (simp add: same_coreD [OF enqueued_simps(1)])
qed

section \<open>Notifying the references of a node\<close>

text \<open>The notification of each reference is idle and belongs to it alone.\<close>

definition armed :: "ptr list \<Rightarrow> bstate \<Rightarrow> bool" where
  "armed rs s \<longleftrightarrow> (\<forall>r\<in>set rs. \<forall>d. r_death (ref_at s r) = Some d \<longrightarrow> wpos s (DeathWork d) = None \<and> death_live s d \<and>
     (\<forall>r'\<in>set rs. r_death (ref_at s r') = Some d \<longrightarrow> r' = r))"

definition asked :: "ptr list \<Rightarrow> bstate \<Rightarrow> ptr \<Rightarrow> ptr \<Rightarrow> bool" where
  "asked rs s r d \<longleftrightarrow> r \<in> set rs \<and> r_death (ref_at s r) = Some d"

lemma armed_tail: "armed (r # rs) s \<Longrightarrow> armed rs s"
  unfolding armed_def by (meson list.set_intros(2))

lemma armedD:
  assumes "armed rs s" "asked rs s r d"
  shows "wpos s (DeathWork d) = None" "death_live s d" "asked rs s r' d \<Longrightarrow> r' = r"
  using assms unfolding armed_def asked_def by blast+

text \<open>From \<open>s\<close> to \<open>s'\<close> the notifications of \<open>rs\<close> were posted and nothing else happened.\<close>

definition notified :: "ptr list \<Rightarrow> bstate \<Rightarrow> bstate \<Rightarrow> bool" where
  "notified rs s s' \<longleftrightarrow> same_core s s' \<and> node_at s' = node_at s \<and> txn_at s' = txn_at s \<and> txn_live s' = txn_live s \<and> work_ok s' \<and>
     (\<forall>r d. asked rs s r d \<longrightarrow> wpos s' (DeathWork d) = Some (ProcTodo (r_proc (ref_at s r))) \<and>
        wtype s' (DeathWork d) = BINDER_WORK_DEAD_BINDER) \<and>
     (\<forall>w. (\<forall>r d. asked rs s r d \<longrightarrow> w \<noteq> DeathWork d) \<longrightarrow> wpos s' w = wpos s w \<and> wtype s' w = wtype s w)"

lemma notified_cons:
  assumes s': "notified rs (posted (r_proc (ref_at s r)) (DeathWork d) BINDER_WORK_DEAD_BINDER s) s'"
    and d: "r_death (ref_at s r) = Some d" and sole: "\<And>r' d'. asked rs s r' d' \<Longrightarrow> d' \<noteq> d"
  shows "notified (r # rs) s s'"
proof -
  let ?s1 = "posted (r_proc (ref_at s r)) (DeathWork d) BINDER_WORK_DEAD_BINDER s"
  note D = same_coreD [OF posted_simps(1) [of s "r_proc (ref_at s r)" "DeathWork d" BINDER_WORK_DEAD_BINDER]]
  have split: "asked (r # rs) s r' d' \<longleftrightarrow> r' = r \<and> d' = d \<or> asked rs s r' d'" for r' d' using d by (auto simp: asked_def)
  have a: "asked rs ?s1 r' d' = asked rs s r' d'" for r' d' by (simp add: asked_def D)
  note n = s' [unfolded notified_def a posted_simps D]
  have "wpos s' (DeathWork d) = Some (ProcTodo (r_proc (ref_at s r))) \<and> wtype s' (DeathWork d) = BINDER_WORK_DEAD_BINDER"
    using n sole by fastforce
  moreover have "wpos s' w = wpos s w \<and> wtype s' w = wtype s w" if "\<forall>r' d'. asked (r # rs) s r' d' \<longrightarrow> w \<noteq> DeathWork d'" for w
  proof -
    have "w \<noteq> DeathWork d" "\<forall>r' d'. asked rs s r' d' \<longrightarrow> w \<noteq> DeathWork d'" using that by (auto simp: split)
    then show ?thesis using n by auto
  qed
  ultimately show ?thesis
    using n same_core_trans [OF posted_simps(1) s' [unfolded notified_def, THEN conjunct1]]
    unfolding notified_def split by auto
qed

lemma notify_deaths:
  assumes "work_ok s" "armed rs s" "distinct rs"
  shows "\<exists>s'. notify_deaths rs s = Some s' \<and> notified rs s s'"
  using assms
proof (induction rs arbitrary: s)
  case Nil
  then show ?case by (simp add: notified_def asked_def)
next
  case (Cons r rs)
  have dist: "distinct rs" "r \<notin> set rs" using Cons.prems(3) by auto
  show ?case
  proof (cases "r_death (ref_at s r)")
    case None
    then have eq: "asked (r # rs) s r' d = asked rs s r' d" for r' d by (auto simp: asked_def)
    show ?thesis
      using Cons.IH [OF Cons.prems(1) armed_tail [OF Cons.prems(2)] dist(1)] None by (simp add: notify_death_def notified_def eq)
  next
    case (Some d)
    let ?s1 = "posted (r_proc (ref_at s r)) (DeathWork d) BINDER_WORK_DEAD_BINDER s"
    note D = same_coreD [OF posted_simps(1) [of s "r_proc (ref_at s r)" "DeathWork d" BINDER_WORK_DEAD_BINDER]]
    have idle: "wpos s (DeathWork d) = None" "death_live s d" 
      using armedD(1,2) [OF Cons.prems(2), of r d] Some by (simp_all add: asked_def)
    have sole: "d' \<noteq> d" if "asked rs s r' d'" for r' d'
    proof
      assume "d' = d"
      with that Some have "asked (r # rs) s r d" "asked (r # rs) s r' d" by (simp_all add: asked_def)
      then have "r' = r" by (rule armedD(3) [OF Cons.prems(2)])
      then show False using that dist(2) by (simp add: asked_def)
    qed
    have st: "notify_death r s = Some ?s1"
      using Some idle enqueue_work [of "set_wtype (DeathWork d) BINDER_WORK_DEAD_BINDER s" "DeathWork d"]
      by (simp add: notify_death_def posted_def)
    have w1: "work_ok ?s1" by (rule work_ok_posted [OF Cons.prems(1) idle(1)]) (use idle in auto)
    have "armed rs ?s1"
      using armed_tail [OF Cons.prems(2)] sole unfolding armed_def D posted_simps asked_def fun_upd_apply work_id.inject by metis
    from Cons.IH [OF w1 this dist(1)] obtain s' where "notify_deaths rs ?s1 = Some s'" "notified rs ?s1 s'" by blast
    then show ?thesis using st notified_cons [OF _ Some sole] by auto
  qed
qed

section \<open>A node without owner\<close>

lemma inv_dead_node:
  assumes rb: "rb_ok rb" and inv: "binder_inv s" and n: "node_live s n" "n_proc (node_at s n) = Some p"
    and node: "node_at s' = (node_at s)(n := nd)" "n_refs nd = n_refs (node_at s n)" "n_ptr nd = n_ptr (node_at s n)" "n_proc nd = None"
      "internal_strong_refs nd = internal_strong_refs (node_at s n)" "0 \<le> local_strong_refs nd" "0 \<le> local_weak_refs nd" "0 \<le> tmp_refs nd"
    and st: "ref_at s' = ref_at s" "ref_live s' = ref_live s" "proc_live s' = proc_live s" "death_live s' = death_live s" "node_live s' = node_live s"
    and pr: "proc_at s' = (proc_at s)(p := (proc_at s p)\<lparr>p_nodes := rb_erase rb n (p_nodes (proc_at s p))\<rparr>)"
    and dn: "dead_nodes s' = n # dead_nodes s"
    and w: "work_ok s'" "wpos s' (NodeWork n) = None" "\<And>m. m \<noteq> n \<Longrightarrow> wpos s' (NodeWork m) = wpos s (NodeWork m)"
  shows "binder_inv s'"
proof -
  have keys: "node_key s' = node_key s" "ref_desc s' = ref_desc s" "ref_node_key s' = ref_node_key s" "strong_refs s' = strong_refs s"
    using node st by (auto simp: fun_eq_iff node_key_def ref_desc_def ref_node_key_def strong_refs_def)
  have refs: "n_refs (node_at s' m) = n_refs (node_at s m)" for m using node by simp
  have pl: "proc_live s p" using inv_butD(2) [OF inv n(1)] n(2) by (simp add: node_ok_def Let_def)
  have dist: "distinct (inorder (p_nodes (proc_at s p)))"
    using inv_butD(4) [OF inv pl] by (auto simp: proc_ok_def Let_def intro: keyed_distinct)
  note er = rb_okD(2) [OF rb dist, of n]
  have mem: "m \<in> set (inorder (p_nodes (proc_at s' q))) \<longleftrightarrow> m \<in> set (inorder (p_nodes (proc_at s q))) \<and> \<not> (m = n \<and> q = p)" for m q
    using er dist by (auto simp: pr simp del: set_inorder)
  have ok: "node_ok 0 {} s' m" if "node_live s m" for m
  proof (cases "m = n")
    case True
    then show ?thesis using inv_butD(2) [OF inv n(1)] node dn w(2) keys unfolding node_ok_def Let_def st by simp
  next
    case False
    then show ?thesis
      using inv_butD(2) [OF inv that] node(1) dn w(3) [OF False] keys mem unfolding node_ok_def Let_def st
      by (auto split: option.splits)
  qed
  have ref: "ref_ok {} s' r" if "ref_live s r" for r
    using inv_butD(3) [OF inv that] unfolding ref_ok_def Let_def st sole_death_def refs by (auto split: option.splits)
  have proc: "proc_ok {} s' q" if q: "proc_live s q" for q
  proof -
    note k = inv_butD(4) [OF inv q, unfolded proc_ok_def Let_def]
    have "keyed (node_key s) (inorder (p_nodes (proc_at s' q)))" using k er by (auto simp: pr intro: keyed_remove1)
    moreover have "node_live s m \<and> n_proc (node_at s' m) = Some q" if "m \<in> set (inorder (p_nodes (proc_at s' q)))" for m
      using k that n(2) node(1) unfolding mem by auto
    ultimately show ?thesis using k unfolding proc_ok_def Let_def st keys by (auto simp: pr)
  qed
  have "n \<notin> set (dead_nodes s)" using inv_butD(6) [OF inv, of n] n(2) by auto
  then have "distinct (dead_nodes s')" "\<forall>m\<in>set (dead_nodes s'). node_live s' m \<and> n_proc (node_at s' m) = None"
    unfolding dn st using inv_butD(5,6) [OF inv] n(1) node(1,4) by auto
  then show ?thesis using w(1) ok ref proc unfolding inv_but_def by (simp add: st)
qed

text \<open>The state in which the references are notified.\<close>

definition orphaned :: "rb_ops \<Rightarrow> ptr \<Rightarrow> ptr \<Rightarrow> bstate \<Rightarrow> bstate" where
  "orphaned rb p n s =
     (let s1 = binder_dequeue_work_ilocked (NodeWork n)
                 (upd_proc p (\<lambda>pr. pr\<lparr>p_nodes := rb_erase rb n (p_nodes pr)\<rparr>) (binder_inc_node_tmpref_ilocked n s));
          s2 = upd_node n (\<lambda>nd. nd\<lparr>n_proc := None, local_strong_refs := 0, local_weak_refs := 0\<rparr>) s1
      in s2\<lparr>dead_nodes := n # dead_nodes s2\<rparr>)"

lemma orphaned_fields:
  "node_at (orphaned rb p n s) = (node_at s)(n := (node_at s n)\<lparr>n_proc := None, local_strong_refs := 0, local_weak_refs := 0,
     tmp_refs := tmp_refs (node_at s n) + 1\<rparr>)"
  "ref_at (orphaned rb p n s) = ref_at s" "ref_live (orphaned rb p n s) = ref_live s" "proc_live (orphaned rb p n s) = proc_live s"
  "death_live (orphaned rb p n s) = death_live s" "node_live (orphaned rb p n s) = node_live s"
  "proc_at (orphaned rb p n s) = (proc_at s)(p := (proc_at s p)\<lparr>p_nodes := rb_erase rb n (p_nodes (proc_at s p))\<rparr>)"
  "dead_nodes (orphaned rb p n s) = n # dead_nodes s" "wpos (orphaned rb p n s) = (wpos s)(NodeWork n := None)"
  "wtype (orphaned rb p n s) = wtype s" "txn_at (orphaned rb p n s) = txn_at s" "txn_live (orphaned rb p n s) = txn_live s" "ctx_at (orphaned rb p n s) = ctx_at s"
  by (auto simp: orphaned_def Let_def binder_inc_node_tmpref_ilocked_def binder_dequeue_work_ilocked_def upd_node_def upd_proc_def
      split: option.split)

lemma orphaned_work:
  assumes "work_ok s"
  shows "work_ok (orphaned rb p n s)"
proof -
  let ?s0 = "upd_proc p (\<lambda>pr. pr\<lparr>p_nodes := rb_erase rb n (p_nodes pr)\<rparr>) (binder_inc_node_tmpref_ilocked n s)"
  have "work_ok ?s0" using assms by (simp add: work_ok_def binder_inc_node_tmpref_ilocked_def)
  from work_ok_dequeue [OF this] show ?thesis
    by (simp add: orphaned_def Let_def work_ok_def)
qed

lemma inv_orphaned:
  assumes rb: "rb_ok rb" and inv: "binder_inv s" and n: "node_live s n" "n_proc (node_at s n) = Some p"
  shows "binder_inv (orphaned rb p n s)"
proof (rule inv_dead_node [OF rb inv n orphaned_fields(1)])
  show "0 \<le> tmp_refs ((node_at s n)\<lparr>n_proc := None, local_strong_refs := 0, local_weak_refs := 0, tmp_refs := tmp_refs (node_at s n) + 1\<rparr>)"
    using inv_butD(2) [OF inv n(1)] by (simp add: node_ok_def Let_def)
qed (simp_all add: orphaned_fields orphaned_work [OF inv_butD(1) [OF inv]])

lemma release_one_node_unfold:
  assumes "wlist s (NodeAsync n) = []" "n_refs (node_at s n) \<noteq> [] \<or> tmp_refs (node_at s n) \<noteq> 0" "0 \<le> tmp_refs (node_at s n)"
  shows "release_one_node rb env p n refs s =
    (case notify_deaths (n_refs (node_at s n)) (orphaned rb p n s) of None \<Rightarrow> None
     | Some s5 \<Rightarrow> map_option (\<lambda>s6. (refs + length (n_refs (node_at s n)), s6)) (binder_put_node rb n s5))"
proof -
  let ?s0 = "upd_proc p (\<lambda>pr. pr\<lparr>p_nodes := rb_erase rb n (p_nodes pr)\<rparr>) (binder_inc_node_tmpref_ilocked n s)"
  have "wlist ?s0 (NodeAsync n) = []" using assms(1) by (simp add: binder_inc_node_tmpref_ilocked_def)
  then have "binder_release_work rb env (NodeAsync n) ?s0 = Some ?s0"
    by (subst binder_release_work.simps) (simp add: binder_dequeue_work_head_ilocked_def)
  moreover have "tmp_refs (node_at ?s0 n) = tmp_refs (node_at s n) + 1" "n_refs (node_at ?s0 n) = n_refs (node_at s n)"
    by (simp_all add: binder_inc_node_tmpref_ilocked_def)
  ultimately show ?thesis
    using assms(2,3) by (auto simp: release_one_node_def binder_node_release_def orphaned_def Let_def cong: option.case_cong)
qed

lemma notified_idle: "notified rs s s' \<Longrightarrow> wpos s' (NodeWork m) = wpos s (NodeWork m)"
  by (simp add: notified_def)

lemma inv_notified:
  assumes "binder_inv s" "notified rs s s'"
  shows "binder_inv s'"
proof (rule inv_but_core [OF assms(1)])
  show "same_core s s'" "work_ok s'" using assms(2) by (simp_all add: notified_def)
  show "wpos s' (NodeWork m) = None" if "node_live s m" "n_proc (node_at s m) = None" for m
    using inv_butD(2) [OF assms(1) that(1)] that(2) notified_idle [OF assms(2)] by (simp add: node_ok_def Let_def)
qed (use inv_butD(2) [OF assms(1)] assms(2) in \<open>auto simp: node_ok_def Let_def notified_def\<close>)

section \<open>One-way transactions that wait for a node\<close>

text \<open>The list of a node holds one-way transactions, with their buffers.\<close>

definition async_ok :: "ptr \<Rightarrow> bstate \<Rightarrow> bool" where
  "async_ok n s \<longleftrightarrow> (\<forall>w \<in> set (wlist s (NodeAsync n)). \<exists>t. w = TxnWork t \<and> wtype s w = BINDER_WORK_TRANSACTION \<and>
     txn_live s t \<and> oneway s t \<and> x_buffer (txn_at s t) \<noteq> None)"

text \<open>What dropping them has done.\<close>

definition async_dropped :: "ptr \<Rightarrow> bstate \<Rightarrow> bstate \<Rightarrow> bool" where
  "async_dropped n s s' \<longleftrightarrow> same_core s s' \<and> node_at s' = node_at s \<and> work_ok s' \<and> wlist s' (NodeAsync n) = [] \<and> wtype s' = wtype s \<and>
     (\<forall>w. wpos s' w = (if w \<in> set (wlist s (NodeAsync n)) then None else wpos s w)) \<and>
     (\<forall>t. txn_live s' t \<longleftrightarrow> txn_live s t \<and> TxnWork t \<notin> set (wlist s (NodeAsync n))) \<and>
     (\<forall>t. TxnWork t \<notin> set (wlist s (NodeAsync n)) \<longrightarrow> txn_at s' t = txn_at s t)"

definition freed_txn :: "ptr \<Rightarrow> bstate \<Rightarrow> bstate" where
  "freed_txn t s =
     (let s1 = (case (to_proc (txn_at s t), x_buffer (txn_at s t)) of
                  (Some _, Some (p, b)) \<Rightarrow> upd_buf p b (\<lambda>bf. bf\<lparr>b_transaction := None\<rparr>) s
                | _ \<Rightarrow> s)
      in (binder_free_txn_fixups t s1)\<lparr>txn_live := (txn_live s)(t := False)\<rparr>)"

lemma free_transaction_freed: "txn_live s t \<Longrightarrow> binder_free_transaction t s = Some (freed_txn t s)"
  by (auto simp: binder_free_transaction_def freed_txn_def Let_def binder_free_txn_fixups_def upd_txn_def upd_buf_def upd_proc_def
      split: option.split)

lemma freed_txn_fields:
  "same_core s (freed_txn t s)" "node_at (freed_txn t s) = node_at s" "wlist (freed_txn t s) = wlist s" "wpos (freed_txn t s) = wpos s"
  "wtype (freed_txn t s) = wtype s" "txn_live (freed_txn t s) = (txn_live s)(t := False)"
  "txn_at (freed_txn t s) = (txn_at s)(t := (txn_at s t)\<lparr>fd_fixups := []\<rparr>)"
  by (auto simp: freed_txn_def Let_def binder_free_txn_fixups_def upd_txn_def upd_buf_def upd_proc_def same_core_def split: option.split)

text \<open>The state in which the owner of a node drops them.\<close>

definition taken_out :: "rb_ops \<Rightarrow> ptr \<Rightarrow> ptr \<Rightarrow> bstate \<Rightarrow> bstate" where
  "taken_out rb p n s = upd_proc p (\<lambda>pr. pr\<lparr>p_nodes := rb_erase rb n (p_nodes pr)\<rparr>) (binder_inc_node_tmpref_ilocked n s)"

lemma taken_out_fields [simp]:
  "wlist (taken_out rb p n s) = wlist s" "wpos (taken_out rb p n s) = wpos s" "wtype (taken_out rb p n s) = wtype s"
  "txn_live (taken_out rb p n s) = txn_live s" "txn_at (taken_out rb p n s) = txn_at s"
  by (simp_all add: taken_out_def binder_inc_node_tmpref_ilocked_def upd_node_def upd_proc_def)

lemma freed_taken_out: "freed_txn t (taken_out rb p n s) = taken_out rb p n (freed_txn t s)"
proof -
  have swap: "r\<lparr>p_nodes := x, p_alloc := y\<rparr> = r\<lparr>p_alloc := y, p_nodes := x\<rparr>" for r :: binder_proc and x y by simp
  have "upd_buf q b f (taken_out rb p n s) = taken_out rb p n (upd_buf q b f s)" for q b f
    by (cases "q = p") (simp_all add: taken_out_def upd_buf_def binder_inc_node_tmpref_ilocked_def upd_node_def upd_proc_def fun_upd_twist swap)
  moreover have "(binder_free_txn_fixups t (taken_out rb p n u))\<lparr>txn_live := l\<rparr> = taken_out rb p n ((binder_free_txn_fixups t u)\<lparr>txn_live := l\<rparr>)" for u l
    by (simp add: binder_free_txn_fixups_def taken_out_def upd_txn_def binder_inc_node_tmpref_ilocked_def upd_node_def upd_proc_def)
  ultimately show ?thesis by (simp add: freed_txn_def Let_def split: option.split)
qed

lemma release_async:
  assumes "work_ok s" "async_ok n s"
  shows "\<exists>s'. binder_release_work rb env (NodeAsync n) (taken_out rb p n s) = Some (taken_out rb p n s') \<and> async_dropped n s s'"
  using assms
proof (induction "length (wlist s (NodeAsync n))" arbitrary: s)
  case 0
  then show ?case
    by (intro exI [of _ s]) (subst binder_release_work.simps, simp add: binder_dequeue_work_head_ilocked_def async_dropped_def)
next
  case (Suc k)
  then obtain w ws where l: "wlist s (NodeAsync n) = w # ws" by (cases "wlist s (NodeAsync n)") auto
  then obtain t where t: "w = TxnWork t" "wtype s w = BINDER_WORK_TRANSACTION" "txn_live s t" "oneway s t" "x_buffer (txn_at s t) \<noteq> None"
    using Suc.prems(2) by (auto simp: async_ok_def)
  let ?s1 = "s\<lparr>wlist := (wlist s)(NodeAsync n := ws), wpos := (wpos s)(w := None)\<rparr>"
  let ?s2 = "freed_txn t ?s1"
  have d: "w \<notin> set ws" using Suc.prems(1) l by (auto simp: work_ok_def dest: spec [of _ "NodeAsync n"])
  have deq: "binder_dequeue_work_head_ilocked (NodeAsync n) (taken_out rb p n s) = (Some w, taken_out rb p n ?s1)"
    using l by (simp add: binder_dequeue_work_head_ilocked_def list_del_def) (simp add: taken_out_def binder_inc_node_tmpref_ilocked_def upd_node_def upd_proc_def)
  have item: "release_work_item rb env w (taken_out rb p n ?s1) = Some (taken_out rb p n ?s2)"
    using t free_transaction_freed [of "taken_out rb p n ?s1" t]
    by (auto simp: release_work_item_def binder_cleanup_transaction_def oneway_def freed_taken_out)
  have "wpos s w = Some (NodeAsync n)" using Suc.prems(1) l by (metis list.set_intros(1) work_ok_def)
  then have s1: "?s1 = binder_dequeue_work_ilocked w s" using l by (simp add: binder_dequeue_work_ilocked_def list_del_def)
  have w1: "work_ok ?s1" unfolding s1 by (rule work_ok_dequeue [OF Suc.prems(1)])
  note F = freed_txn_fields [where s = ?s1 and t = t] and C = same_coreD [OF freed_txn_fields(1) [of ?s1 t]]
  have c: "same_core s ?s2" by (rule same_core_trans [OF _ F(1)]) (simp add: same_core_def)
  have w2: "work_ok ?s2" using w1 unfolding work_ok_def F C by simp
  have l2: "wlist ?s2 (NodeAsync n) = ws" by (simp add: freed_txn_fields list_del_def)
  have "async_ok n ?s2"
    using Suc.prems(2) d unfolding async_ok_def l2 l t(1) by (fastforce simp: freed_txn_fields oneway_def)
  from Suc.hyps(1) [OF _ w2 this] l Suc.hyps(2) l2 obtain s' where
    s': "binder_release_work rb env (NodeAsync n) (taken_out rb p n ?s2) = Some (taken_out rb p n s')" "async_dropped n ?s2 s'" by auto
  have "async_dropped n s s'"
    using s'(2) same_core_trans [OF c, of s'] unfolding async_dropped_def l2 l t(1) by (auto simp: freed_txn_fields)
  moreover have "binder_release_work rb env (NodeAsync n) (taken_out rb p n s) = Some (taken_out rb p n s')"
    by (subst binder_release_work.simps) (simp add: deq item s'(1))
  ultimately show ?case by blast
qed

section \<open>The end of a node\<close>

text \<open>No notification of the death of the node \<open>n\<close> is under way, and only one-way transactions wait for it.\<close>

definition quiet_node :: "ptr \<Rightarrow> bstate \<Rightarrow> bool" where
  "quiet_node n s \<longleftrightarrow> (\<forall>r d. asked (n_refs (node_at s n)) s r d \<longrightarrow> wpos s (DeathWork d) = None)"

definition exit_ready :: "ptr \<Rightarrow> bstate \<Rightarrow> bool" where
  "exit_ready n s \<longleftrightarrow> async_ok n s \<and> quiet_node n s"

text \<open>What the release of one node has done.\<close>

definition node_released :: "rb_ops \<Rightarrow> ptr \<Rightarrow> ptr \<Rightarrow> bstate \<Rightarrow> bstate \<Rightarrow> bool" where
  "node_released rb p n s s' \<longleftrightarrow> ref_at s' = ref_at s \<and> ref_live s' = ref_live s \<and> death_live s' = death_live s \<and> same_procs s s' \<and>
     inorder (p_nodes (proc_at s' p)) = remove1 n (inorder (p_nodes (proc_at s p))) \<and>
     (\<forall>m. m \<noteq> n \<longrightarrow> node_at s' m = node_at s m \<and> node_live s' m = node_live s m) \<and> (node_live s' n \<longrightarrow> n_proc (node_at s' n) = None) \<and>
     (n_refs (node_at s n) \<noteq> [] \<longrightarrow> node_live s' n) \<and> n_refs (node_at s' n) = n_refs (node_at s n) \<and>
     wpos s' (NodeWork n) = None \<and>
     (\<forall>r d. asked (n_refs (node_at s n)) s r d \<longrightarrow>
        wpos s' (DeathWork d) = Some (ProcTodo (r_proc (ref_at s r))) \<and> wtype s' (DeathWork d) = BINDER_WORK_DEAD_BINDER) \<and>
     (\<forall>t. TxnWork t \<in> set (wlist s (NodeAsync n)) \<longrightarrow> wpos s' (TxnWork t) = None \<and> \<not> txn_live s' t) \<and>
     (\<forall>t. TxnWork t \<notin> set (wlist s (NodeAsync n)) \<longrightarrow> txn_at s' t = txn_at s t \<and> txn_live s' t = txn_live s t) \<and>
     (\<forall>w. w \<noteq> NodeWork n \<and> w \<notin> set (wlist s (NodeAsync n)) \<and> (\<forall>r d. asked (n_refs (node_at s n)) s r d \<longrightarrow> w \<noteq> DeathWork d) \<longrightarrow>
        wpos s' w = wpos s w \<and> wtype s' w = wtype s w)"

lemma node_releasedD:
  assumes "node_released rb p n s s'"
  shows "ref_at s' = ref_at s" "ref_live s' = ref_live s" "same_procs s s'" "wpos s' (NodeWork n) = None"
    "inorder (p_nodes (proc_at s' p)) = remove1 n (inorder (p_nodes (proc_at s p)))"
    "m \<noteq> n \<Longrightarrow> node_at s' m = node_at s m" "m \<noteq> n \<Longrightarrow> node_live s' m = node_live s m"
    "n_refs (node_at s' n) = n_refs (node_at s n)" "node_live s' n \<Longrightarrow> n_proc (node_at s' n) = None"
    "n_refs (node_at s n) \<noteq> [] \<Longrightarrow> node_live s' n"
    "asked (n_refs (node_at s n)) s r d \<Longrightarrow> wpos s' (DeathWork d) = Some (ProcTodo (r_proc (ref_at s r)))"
    "asked (n_refs (node_at s n)) s r d \<Longrightarrow> wtype s' (DeathWork d) = BINDER_WORK_DEAD_BINDER"
    "w \<noteq> NodeWork n \<Longrightarrow> w \<notin> set (wlist s (NodeAsync n)) \<Longrightarrow> (\<And>r d. w = DeathWork d \<Longrightarrow> \<not> asked (n_refs (node_at s n)) s r d) \<Longrightarrow>
       wpos s' w = wpos s w \<and> wtype s' w = wtype s w"
    "TxnWork t \<in> set (wlist s (NodeAsync n)) \<Longrightarrow> wpos s' (TxnWork t) = None \<and> \<not> txn_live s' t"
    "TxnWork t \<notin> set (wlist s (NodeAsync n)) \<Longrightarrow> txn_at s' t = txn_at s t \<and> txn_live s' t = txn_live s t"
proof -
  note R = assms [unfolded node_released_def]
  show "w \<noteq> NodeWork n \<Longrightarrow> w \<notin> set (wlist s (NodeAsync n)) \<Longrightarrow> (\<And>r d. w = DeathWork d \<Longrightarrow> \<not> asked (n_refs (node_at s n)) s r d) \<Longrightarrow> wpos s' w = wpos s w \<and> wtype s' w = wtype s w"
    using R by blast
qed (use assms in \<open>simp_all add: node_released_def\<close>)

lemma owned_nodes_distinct:
  assumes "binder_inv s" "node_live s n" "n_proc (node_at s n) = Some p"
  shows "distinct (inorder (p_nodes (proc_at s p)))" "n \<in> set (inorder (p_nodes (proc_at s p)))" "proc_live s p"
proof -
  show p: "proc_live s p" "n \<in> set (inorder (p_nodes (proc_at s p)))" using inv_butD(2) [OF assms(1,2)] assms(3) by (simp_all add: node_ok_def Let_def)
  show "distinct (inorder (p_nodes (proc_at s p)))" using inv_butD(4) [OF assms(1) p(1)] by (auto simp: proc_ok_def Let_def intro: keyed_distinct)
qed

text \<open>A node that nobody uses is freed at once.\<close>

lemma release_unused_node:
  assumes rb: "rb_ok rb" and inv: "binder_inv s" and n: "node_live s n" "n_proc (node_at s n) = Some p" "n_refs (node_at s n) = []"
    "tmp_refs (node_at s n) = 0" and async: "wlist s (NodeAsync n) = []"
  shows "\<exists>s'. release_one_node rb env p n refs s = Some (refs, s') \<and> binder_inv s' \<and> node_released rb p n s s'"
proof -
  let ?s0 = "upd_proc p (\<lambda>pr. pr\<lparr>p_nodes := rb_erase rb n (p_nodes pr)\<rparr>) (binder_inc_node_tmpref_ilocked n s)"
  let ?s1 = "binder_dequeue_work_ilocked (NodeWork n) ?s0" and ?s' = "hide_node n (binder_dequeue_work_ilocked (NodeWork n) ?s0)"
  note own = owned_nodes_distinct [OF inv n(1,2)]
  have wl: "wlist ?s0 (NodeAsync n) = []" using async by (simp add: binder_inc_node_tmpref_ilocked_def)
  then have rel: "binder_release_work rb env (NodeAsync n) ?s0 = Some ?s0"
    by (subst binder_release_work.simps) (simp add: binder_dequeue_work_head_ilocked_def)
  note D = same_coreD [OF dequeue_simps(1) [of ?s0 "NodeWork n"], unfolded binder_inc_node_tmpref_ilocked_def upd_simps]
  have run: "release_one_node rb env p n refs s = Some (refs, ?s')"
    using n(1,3,4) unfolding release_one_node_def binder_node_release_def rel option.case Let_def
    by (simp add: binder_inc_node_tmpref_ilocked_def binder_free_node_def hide_node_def D)
  let ?sa = "upd_node n (\<lambda>nd. nd\<lparr>tmp_refs := tmp_refs nd + 1\<rparr>) s"
  have inva: "binder_inv ?sa" using inv_but_count [OF inv, of "\<lambda>nd. nd\<lparr>tmp_refs := tmp_refs nd + 1\<rparr>" n 0] inv_butD(2) [OF inv n(1)]
    by (auto simp: node_ok_def Let_def fun_upd_idem)
  have fresh: "n \<notin> set (dead_nodes s)" using inv_butD(6) [OF inv, of n] n(2) by auto
  have er: "inorder (p_nodes (proc_at ?s' q)) = remove1 n (inorder (p_nodes (proc_at s q)))" if "proc_live s q" for q
  proof (cases "q = p")
    case False
    then have "n \<notin> set (inorder (p_nodes (proc_at s q)))" using inv_butD(4) [OF inv that] n(2) by (auto simp: proc_ok_def Let_def)
    then show ?thesis using False by (simp add: remove1_idem binder_inc_node_tmpref_ilocked_def del: set_inorder)
  qed (simp add: rb_okD(2) [OF rb own(1)] binder_inc_node_tmpref_ilocked_def)
  have "work_ok ?s1" by (rule work_ok_dequeue) (use inv_butD(1) [OF inva] in \<open>simp add: work_ok_def binder_inc_node_tmpref_ilocked_def\<close>)
  then have w: "work_ok ?s'" by (auto simp: work_ok_def)
  have inv': "binder_inv ?s'"
    by (rule inv_unlink_node [OF inva, of n])
      (use n(3) er w fresh in \<open>auto simp: binder_inc_node_tmpref_ilocked_def D remove1_idem\<close>)
  have "wtype ?s' = wtype s" "txn_at ?s' = txn_at s" "txn_live ?s' = txn_live s" by (auto simp: binder_dequeue_work_ilocked_def binder_inc_node_tmpref_ilocked_def hide_node_def upd_node_def upd_proc_def split: option.split)
  then have "node_released rb p n s ?s'"
    using n(3) er [OF own(3)] async by (simp add: node_released_def asked_def binder_inc_node_tmpref_ilocked_def D same_procs_def)
  then show ?thesis using run inv' by blast
qed

text \<open>A node that is still used stays as a dead node.\<close>

lemma release_used_node:
  assumes rb: "rb_ok rb" and inv: "binder_inv s" and n: "node_live s n" "n_proc (node_at s n) = Some p"
    "n_refs (node_at s n) \<noteq> [] \<or> tmp_refs (node_at s n) \<noteq> 0" and async: "wlist s (NodeAsync n) = []" and ready: "quiet_node n s"
  shows "\<exists>s'. release_one_node rb env p n refs s = Some (refs + length (n_refs (node_at s n)), s') \<and> binder_inv s' \<and>
    node_released rb p n s s' \<and> node_live s' n"
proof -
  let ?rs = "n_refs (node_at s n)" and ?o = "orphaned rb p n s"
  have ok: "distinct ?rs" "\<forall>r\<in>set ?rs. ref_live s r" "0 \<le> tmp_refs (node_at s n)"
    using inv_butD(2) [OF inv n(1)] by (auto simp: node_ok_def Let_def)
  note O = orphaned_fields [of rb p n s] and own = owned_nodes_distinct [OF inv n(1,2)]
  have inv1: "binder_inv ?o" by (rule inv_orphaned [OF rb inv n(1,2)])
  have "armed ?rs ?o" unfolding armed_def O
  proof (intro ballI allI impI conjI)
    fix r d assume r: "r \<in> set ?rs" "r_death (ref_at s r) = Some d"
    then have rf: "ref_ok {} s r" using inv_butD(3) [OF inv, of r] ok(2) by simp
    show "((wpos s)(NodeWork n := None)) (DeathWork d) = None" using ready r by (simp add: quiet_node_def asked_def)
    show "death_live s d" using rf r(2) by (simp add: ref_ok_def Let_def)
    show "r' = r" if "r' \<in> set ?rs" "r_death (ref_at s r') = Some d" for r'
      using rf r(2) that ok(2) by (auto simp: ref_ok_def Let_def sole_death_def)
  qed
  from notify_deaths [OF inv_butD(1) [OF inv1] this ok(1)]
  obtain s5 where s5: "notify_deaths ?rs ?o = Some s5" "notified ?rs ?o s5" by blast
  note N = s5(2) [unfolded notified_def] and C = same_coreD [OF s5(2) [unfolded notified_def, THEN conjunct1]]
  have nd: "node_at s5 = node_at ?o" using N by simp
  let ?s' = "upd_node n (\<lambda>nd. nd\<lparr>tmp_refs := tmp_refs nd - 1\<rparr>) s5"
  have put: "binder_put_node rb n s5 = Some ?s'"
    using n(3) ok(3) nd by (auto simp: O binder_put_node_def binder_dec_node_tmpref_def binder_dec_node_nilocked_def Let_def)
  have inv5: "binder_inv s5" by (rule inv_notified [OF inv1 s5(2)])
  have live: "node_live s5 n" "0 < tmp_refs (node_at s5 n)" using n(1) ok(3) nd by (simp_all add: C O)
  obtain s'' where "binder_put_node rb n s5 = Some s''" "binder_inv s''" using put_node [OF rb inv5 live] by blast
  then have inv': "binder_inv ?s'" using put by simp
  have a: "asked ?rs ?o = asked ?rs s" by (simp add: fun_eq_iff asked_def O)
  have "inorder (p_nodes (proc_at ?s' p)) = remove1 n (inorder (p_nodes (proc_at s p)))" by (simp add: C O rb_okD(2) [OF rb own(1)])
  moreover have "same_procs s ?s'" by (simp add: same_procs_def C O)
  moreover have "wtype ?s' = wtype s5" "txn_at ?s' = txn_at s5" "txn_live ?s' = txn_live s5" by (simp_all add: upd_node_def)
  ultimately have "node_released rb p n s ?s'"
    using N n(1) async unfolding node_released_def a by (simp add: C O nd)
  then show ?thesis
    using release_one_node_unfold [OF _ n(3) ok(3), of rb env p refs] async s5(1) put inv' n(1) C(1) O(6) by simp
qed

text \<open>The one-way transactions that wait for the node are dropped first, and then it is as if there had been none.\<close>

lemma release_one_node_async:
  assumes "work_ok s" "async_ok n s"
  obtains s1 where "async_dropped n s s1" "release_one_node rb env p n refs s = release_one_node rb env p n refs s1"
proof -
  from release_async [OF assms, of rb env p] obtain s1 where
    s1: "binder_release_work rb env (NodeAsync n) (taken_out rb p n s) = Some (taken_out rb p n s1)" "async_dropped n s s1" by blast
  have "binder_release_work rb env (NodeAsync n) (taken_out rb p n s1) = Some (taken_out rb p n s1)"
    using s1(2) by (subst binder_release_work.simps) (simp add: binder_dequeue_work_head_ilocked_def async_dropped_def)
  then show thesis
    using that [OF s1(2)] s1(1) by (simp add: release_one_node_def binder_node_release_def flip: taken_out_def)
qed

lemma inv_async_dropped:
  assumes "binder_inv s" "async_ok n s" "async_dropped n s s'"
  shows "binder_inv s'"
proof (rule inv_but_core [OF assms(1)])
  note A = assms(3) [unfolded async_dropped_def]
  show "same_core s s'" "work_ok s'" using A by simp_all
  show "wpos s' (NodeWork m) = None" if "node_live s m" "n_proc (node_at s m) = None" for m
    using inv_butD(2) [OF assms(1) that(1)] that(2) A by (simp add: node_ok_def Let_def)
qed (use inv_butD(2) [OF assms(1)] assms(3) in \<open>auto simp: node_ok_def Let_def async_dropped_def\<close>)

lemma node_released_async:
  assumes "async_ok n s" "async_dropped n s s1" "node_released rb p n s1 s'"
  shows "node_released rb p n s s'"
proof -
  note A = assms(2) [unfolded async_dropped_def] and C = same_coreD [OF assms(2) [unfolded async_dropped_def, THEN conjunct1]]
  have a: "asked (n_refs (node_at s1 n)) s1 = asked (n_refs (node_at s n)) s" using A by (simp add: fun_eq_iff asked_def C)
  have sp: "same_procs s s1" by (rule same_core_procs) (use A in simp)
  note R = node_releasedD [OF assms(3), unfolded a]
  have wl: "wlist s1 (NodeAsync n) = []" using A by simp
  have txn: "txn_at s' t = txn_at s1 t \<and> txn_live s' t = txn_live s1 t" "wpos s' (TxnWork t) = wpos s1 (TxnWork t)" for t
    using R(15) [of t] R(13) [of "TxnWork t"] by (simp_all add: wl)
  have frame: "wpos s' w = wpos s w \<and> wtype s' w = wtype s w"
    if "w \<noteq> NodeWork n" "w \<notin> set (wlist s (NodeAsync n))" "\<forall>r d. asked (n_refs (node_at s n)) s r d \<longrightarrow> w \<noteq> DeathWork d" for w
    using R(13) [of w] that A by (auto simp: wl a)
  have "death_live s' = death_live s" using assms(3) by (simp add: node_released_def C)
  moreover have "asked (n_refs (node_at s n)) s r d \<Longrightarrow> wpos s' (DeathWork d) = Some (ProcTodo (r_proc (ref_at s r)))"
    "asked (n_refs (node_at s n)) s r d \<Longrightarrow> wtype s' (DeathWork d) = BINDER_WORK_DEAD_BINDER" for r d
    using R(11,12) [of r d] by (simp_all add: a C)
  ultimately show ?thesis
    unfolding node_released_def using R(1-10) A txn frame same_procs_trans [OF sp R(3)] by (simp add: C)
qed

lemma release_one_node:
  assumes "rb_ok rb" "binder_inv s" "node_live s n" "n_proc (node_at s n) = Some p" "exit_ready n s"
  shows "\<exists>refs' s'. release_one_node rb env p n refs s = Some (refs', s') \<and> binder_inv s' \<and> node_released rb p n s s'"
proof -
  have ok: "async_ok n s" "quiet_node n s" using assms(5) by (simp_all add: exit_ready_def)
  obtain s1 where s1: "async_dropped n s s1" "release_one_node rb env p n refs s = release_one_node rb env p n refs s1"
    by (rule release_one_node_async [OF inv_butD(1) [OF assms(2)] ok(1)])
  note A = s1(1) [unfolded async_dropped_def] and C = same_coreD [OF s1(1) [unfolded async_dropped_def, THEN conjunct1]]
  have inv: "binder_inv s1" by (rule inv_async_dropped [OF assms(2) ok(1) s1(1)])
  have n: "node_live s1 n" "n_proc (node_at s1 n) = Some p" "wlist s1 (NodeAsync n) = []" using assms(3,4) A by (simp_all add: C)
  have q: "quiet_node n s1" using ok A by (auto simp: quiet_node_def asked_def C)
  have "\<exists>refs' s'. release_one_node rb env p n refs s1 = Some (refs', s') \<and> binder_inv s' \<and> node_released rb p n s1 s'"
  proof (cases "n_refs (node_at s1 n) \<noteq> [] \<or> tmp_refs (node_at s1 n) \<noteq> 0")
    case True
    then show ?thesis using release_used_node [OF assms(1) inv n(1,2) _ n(3) q, of env refs] by blast
  next
    case False
    then have "n_refs (node_at s1 n) = []" "tmp_refs (node_at s1 n) = 0" by auto
    from release_unused_node [OF assms(1) inv n(1,2) this n(3), of env refs] show ?thesis by auto
  qed
  then show ?thesis using s1(2) node_released_async [OF ok(1) s1(1)] by metis
qed

end
