(* ===== verification/Binder_Exit.thy ===== *)
theory Binder_Exit
  imports Binder_Death
begin

text \<open>
  The end of a process: the loops that release all its nodes and all its references.
\<close>

section \<open>All nodes\<close>

definition owns :: "ptr \<Rightarrow> bstate \<Rightarrow> ptr \<Rightarrow> bool" where
  "owns p s n \<longleftrightarrow> node_live s n \<and> n_proc (node_at s n) = Some p"

lemma owns_tree:
  assumes "binder_inv s" "proc_live s p"
  shows "owns p s n \<longleftrightarrow> n \<in> set (inorder (p_nodes (proc_at s p)))"
  using inv_butD(2) [OF assms(1), of n] inv_butD(4) [OF assms] by (auto simp: owns_def node_ok_def proc_ok_def Let_def)

lemma asked_live:
  assumes "binder_inv s" "node_live s n" "asked (n_refs (node_at s n)) s r d"
  shows "ref_live s r" "r_node (ref_at s r) = Some n" "sole_death {} s d r"
proof -
  show r: "ref_live s r" "r_node (ref_at s r) = Some n"
    using inv_butD(2) [OF assms(1,2)] assms(3) by (auto simp: node_ok_def asked_def Let_def)
  show "sole_death {} s d r" using inv_butD(3) [OF assms(1) r(1)] assms(3) by (simp add: ref_ok_def asked_def Let_def)
qed

text \<open>The notifications of different nodes are different.\<close>

lemma asked_disjoint:
  assumes inv: "binder_inv s" and n: "node_live s n" "node_live s m" "m \<noteq> n"
    and a: "asked (n_refs (node_at s n)) s r d" "asked (n_refs (node_at s m)) s r' d"
  shows False
proof -
  note x = asked_live [OF inv n(1) a(1)] and y = asked_live [OF inv n(2) a(2)]
  have "r' = r" using x(3) y(1) a(2) by (auto simp: sole_death_def asked_def)
  then show False using x(2) y(2) n(3) by simp
qed

lemma async_other:
  assumes "work_ok s" "m \<noteq> n" "w \<in> set (wlist s (NodeAsync m))"
  shows "w \<notin> set (wlist s (NodeAsync n))"
  using assms by (auto simp: work_ok_def)

lemma node_released_waiting:
  assumes inv: "binder_inv s" "binder_inv s'" and rel: "node_released rb p n s s'" and m: "m \<noteq> n" and a: "async_ok n s" "async_ok m s"
  shows "set (wlist s' (NodeAsync m)) = set (wlist s (NodeAsync m))"
proof -
  note R = node_releasedD [OF rel]
  have "wpos s' w = Some (NodeAsync m) \<longleftrightarrow> wpos s w = Some (NodeAsync m)" for w
  proof (cases "w = NodeWork n \<or> w \<in> set (wlist s (NodeAsync n)) \<or> (\<exists>r d. w = DeathWork d \<and> asked (n_refs (node_at s n)) s r d)")
    case True
    then have "wpos s' w \<noteq> Some (NodeAsync m)" using R(4,11,14) a(1) by (auto simp: async_ok_def)
    moreover have "w \<notin> set (wlist s (NodeAsync m))" using True a(2) async_other [OF inv_butD(1) [OF inv(1)] m] by (auto simp: async_ok_def)
    ultimately show ?thesis using inv_butD(1) [OF inv(1)] by (auto simp: work_ok_def)
  next
    case False
    then show ?thesis using R(13) [of w] by auto
  qed
  then show ?thesis using inv_butD(1) [OF inv(1)] inv_butD(1) [OF inv(2)] by (auto simp: work_ok_def)
qed

lemma node_released_ready:
  assumes inv: "binder_inv s" "binder_inv s'" and n: "node_live s n" and rel: "node_released rb p n s s'" and a0: "exit_ready n s"
    and m: "m \<noteq> n" "node_live s m" "exit_ready m s"
  shows "exit_ready m s'"
proof -
  note R = node_releasedD [OF rel]
  have a: "asked (n_refs (node_at s' m)) s' r d = asked (n_refs (node_at s m)) s r d" for r d by (simp add: asked_def R(1,6) m(1))
  have "wpos s' (DeathWork d) = None" if d: "asked (n_refs (node_at s m)) s r d" for r d
  proof -
    have "\<not> asked (n_refs (node_at s n)) s r' d" for r' using asked_disjoint [OF inv(1) n m(2,1)] d by blast
    moreover have "DeathWork d \<notin> set (wlist s (NodeAsync n))" using a0 by (auto simp: exit_ready_def async_ok_def)
    ultimately have "wpos s' (DeathWork d) = wpos s (DeathWork d)" using R(13) [of "DeathWork d"] by auto
    then show ?thesis using m(3) d by (auto simp: exit_ready_def quiet_node_def)
  qed
  moreover have "async_ok m s'"
    unfolding async_ok_def
      node_released_waiting [OF inv rel m(1) a0 [unfolded exit_ready_def, THEN conjunct1] m(3) [unfolded exit_ready_def, THEN conjunct1]]
  proof
    fix w assume w: "w \<in> set (wlist s (NodeAsync m))"
    then obtain t where t: "w = TxnWork t" "wtype s w = BINDER_WORK_TRANSACTION" "txn_live s t" "oneway s t" "x_buffer (txn_at s t) \<noteq> None"
      using m(3) by (auto simp: exit_ready_def async_ok_def)
    have "w \<notin> set (wlist s (NodeAsync n))" by (rule async_other [OF inv_butD(1) [OF inv(1)] m(1) w])
    then show "\<exists>t. w = TxnWork t \<and> wtype s' w = BINDER_WORK_TRANSACTION \<and> txn_live s' t \<and> oneway s' t \<and> x_buffer (txn_at s' t) \<noteq> None"
      using t R(13) [of w] R(15) [of t] by (auto simp: oneway_def)
  qed
  ultimately show ?thesis by (simp add: exit_ready_def quiet_node_def a)
qed

text \<open>The end of all nodes of a process, with the notifications of their deaths.\<close>

lemma release_nodes_loop:
  assumes "rb_ok rb" "binder_inv s" "proc_live s p" "\<forall>n. owns p s n \<longrightarrow> exit_ready n s"
  shows "\<exists>s'. release_nodes rb env p refs s = Some s' \<and> binder_inv s' \<and> p_nodes (proc_at s' p) = Leaf \<and>
    ref_at s' = ref_at s \<and> ref_live s' = ref_live s \<and> same_procs s s' \<and>
    (\<forall>n. owns p s n \<and> n_refs (node_at s n) \<noteq> [] \<longrightarrow> node_live s' n \<and> n_proc (node_at s' n) = None) \<and>
    (\<forall>n. \<not> owns p s n \<longrightarrow> node_at s' n = node_at s n \<and> node_live s' n = node_live s n) \<and>
    (\<forall>n r d. owns p s n \<and> asked (n_refs (node_at s n)) s r d \<longrightarrow>
       wpos s' (DeathWork d) = Some (ProcTodo (r_proc (ref_at s r))) \<and> wtype s' (DeathWork d) = BINDER_WORK_DEAD_BINDER) \<and>
    (\<forall>n t. owns p s n \<and> TxnWork t \<in> set (wlist s (NodeAsync n)) \<longrightarrow> wpos s' (TxnWork t) = None \<and> \<not> txn_live s' t) \<and>
    (\<forall>t. (\<forall>n. owns p s n \<longrightarrow> TxnWork t \<notin> set (wlist s (NodeAsync n))) \<longrightarrow> txn_at s' t = txn_at s t \<and> txn_live s' t = txn_live s t) \<and>
    (\<forall>w. (\<forall>n. owns p s n \<longrightarrow> w \<noteq> NodeWork n \<and> w \<notin> set (wlist s (NodeAsync n)) \<and>
         (\<forall>r d. asked (n_refs (node_at s n)) s r d \<longrightarrow> w \<noteq> DeathWork d)) \<longrightarrow>
       wpos s' w = wpos s w \<and> wtype s' w = wtype s w)"
  using assms
proof (induction "length (inorder (p_nodes (proc_at s p)))" arbitrary: s refs)
  case 0
  have "p_nodes (proc_at s p) = Leaf" using 0(1) by (cases "p_nodes (proc_at s p)") auto
  moreover have "\<not> owns p s n" for n using owns_tree [OF 0(3,4)] 0(1) by simp
  ultimately show ?case using 0(3) by (subst release_nodes.simps) simp
next
  case (Suc k)
  then obtain n ns where ns: "inorder (p_nodes (proc_at s p)) = n # ns" by (cases "inorder (p_nodes (proc_at s p))") auto
  then have own: "owns p s n" using owns_tree [OF Suc.prems(2,3), of n] by (simp del: set_inorder)
  then have n: "node_live s n" "n_proc (node_at s n) = Some p" by (simp_all add: owns_def)
  obtain refs1 s1 where s1: "release_one_node rb env p n refs s = Some (refs1, s1)" "binder_inv s1" "node_released rb p n s s1"
    using release_one_node [OF Suc.prems(1,2) n, of env refs] own Suc.prems(4) by blast
  note R = node_releasedD [OF s1(3)]
  have p1: "proc_live s1 p" "inorder (p_nodes (proc_at s1 p)) = ns" using R(3,5) Suc.prems(3) ns by (auto simp: same_procs_def)
  have o1: "owns p s1 m \<longleftrightarrow> owns p s m \<and> m \<noteq> n" for m using R(6,7) [of m] R(9) by (cases "m = n") (auto simp: owns_def)
  have "\<forall>m. owns p s1 m \<longrightarrow> exit_ready m s1"
    using node_released_ready [OF Suc.prems(2) s1(2) n(1) s1(3)] Suc.prems(4) own unfolding o1 by (auto simp: owns_def)
  from Suc.hyps(1) [OF _ Suc.prems(1) s1(2) p1(1) this, of refs1] obtain s' where s':
    "release_nodes rb env p refs1 s1 = Some s'" "binder_inv s'" "p_nodes (proc_at s' p) = Leaf"
    "ref_at s' = ref_at s1" "ref_live s' = ref_live s1" "same_procs s1 s'"
    "\<forall>n. owns p s1 n \<and> n_refs (node_at s1 n) \<noteq> [] \<longrightarrow> node_live s' n \<and> n_proc (node_at s' n) = None"
    "\<forall>n. \<not> owns p s1 n \<longrightarrow> node_at s' n = node_at s1 n \<and> node_live s' n = node_live s1 n"
    "\<forall>n r d. owns p s1 n \<and> asked (n_refs (node_at s1 n)) s1 r d \<longrightarrow>
       wpos s' (DeathWork d) = Some (ProcTodo (r_proc (ref_at s1 r))) \<and> wtype s' (DeathWork d) = BINDER_WORK_DEAD_BINDER"
    "\<forall>n t. owns p s1 n \<and> TxnWork t \<in> set (wlist s1 (NodeAsync n)) \<longrightarrow> wpos s' (TxnWork t) = None \<and> \<not> txn_live s' t"
    "\<forall>t. (\<forall>n. owns p s1 n \<longrightarrow> TxnWork t \<notin> set (wlist s1 (NodeAsync n))) \<longrightarrow> txn_at s' t = txn_at s1 t \<and> txn_live s' t = txn_live s1 t"
    "\<forall>w. (\<forall>n. owns p s1 n \<longrightarrow> w \<noteq> NodeWork n \<and> w \<notin> set (wlist s1 (NodeAsync n)) \<and>
         (\<forall>r d. asked (n_refs (node_at s1 n)) s1 r d \<longrightarrow> w \<noteq> DeathWork d)) \<longrightarrow>
       wpos s' w = wpos s1 w \<and> wtype s' w = wtype s1 w"
    using Suc.hyps(2) p1(2) ns by auto
  have run: "release_nodes rb env p refs s = Some s'"
    by (subst release_nodes.simps) (simp add: ns s1(1) s'(1))
  have a: "asked (n_refs (node_at s1 m)) s1 r d = asked (n_refs (node_at s m)) s r d" if "m \<noteq> n" for m r d
    using R(1,6) that by (simp add: asked_def)
  have live: "node_live s m" if "owns p s m" for m using that by (simp add: owns_def)
  have rd: "async_ok m s" if "owns p s m" for m using Suc.prems(4) that by (auto simp: exit_ready_def)
  have wl: "set (wlist s1 (NodeAsync m)) = set (wlist s (NodeAsync m))" if "owns p s m" "m \<noteq> n" for m
    by (rule node_released_waiting [OF Suc.prems(2) s1(2,3) that(2) rd [OF own] rd [OF that(1)]])
  have nod: "DeathWork d \<notin> set (wlist s (NodeAsync m))" if "owns p s m" for m d using rd [OF that] by (auto simp: async_ok_def)
  have dead: "node_live s' m \<and> n_proc (node_at s' m) = None" if m: "owns p s m" "n_refs (node_at s m) \<noteq> []" for m
  proof (cases "m = n")
    case True
    then show ?thesis using s'(8) o1 [of n] R(9,10) m by auto
  qed (use s'(7) o1 R(6) m in auto)
  have rest: "node_at s' m = node_at s m \<and> node_live s' m = node_live s m" if "\<not> owns p s m" for m
  proof -
    have "m \<noteq> n" using that own by auto
    then show ?thesis using s'(8) o1 R(6,7) that by auto
  qed
  have post: "wpos s' (DeathWork d) = Some (ProcTodo (r_proc (ref_at s r))) \<and> wtype s' (DeathWork d) = BINDER_WORK_DEAD_BINDER"
    if m: "owns p s m" "asked (n_refs (node_at s m)) s r d" for m r d
  proof (cases "m = n")
    case True
    have "\<not> asked (n_refs (node_at s m')) s r' d" if "owns p s m'" "m' \<noteq> n" for m' r'
      using asked_disjoint [OF Suc.prems(2) n(1) live [OF that(1)] that(2)] m(2) True by blast
    then have "wpos s' (DeathWork d) = wpos s1 (DeathWork d) \<and> wtype s' (DeathWork d) = wtype s1 (DeathWork d)"
      by (intro s'(12) [rule_format]) (use nod wl in \<open>auto simp: o1 a\<close>)
    then show ?thesis using R(11,12) m(2) True by simp
  next
    case False
    then have "owns p s1 m \<and> asked (n_refs (node_at s1 m)) s1 r d" using o1 [of m] a [OF False] m by simp
    from s'(9) [rule_format, OF this] show ?thesis by (simp add: R(1))
  qed
  have frame: "wpos s' w = wpos s w \<and> wtype s' w = wtype s w"
    if w: "\<forall>m. owns p s m \<longrightarrow> w \<noteq> NodeWork m \<and> w \<notin> set (wlist s (NodeAsync m)) \<and> (\<forall>r d. asked (n_refs (node_at s m)) s r d \<longrightarrow> w \<noteq> DeathWork d)" for w
  proof -
    have "wpos s' w = wpos s1 w \<and> wtype s' w = wtype s1 w" by (intro s'(12) [rule_format]) (use w a wl in \<open>auto simp: o1\<close>)
    moreover have "wpos s1 w = wpos s w \<and> wtype s1 w = wtype s w" by (rule R(13)) (use w own in auto)
    ultimately show ?thesis by simp
  qed
  have freed: "wpos s' (TxnWork t) = None \<and> \<not> txn_live s' t" if m: "owns p s m" "TxnWork t \<in> set (wlist s (NodeAsync m))" for m t
  proof (cases "m = n")
    case True
    have "TxnWork t \<notin> set (wlist s1 (NodeAsync k))" if "owns p s1 k" for k
      using async_other [OF inv_butD(1) [OF Suc.prems(2)] _ m(2), of k] wl [of k] that o1 [of k] True by auto
    then have "wpos s' (TxnWork t) = wpos s1 (TxnWork t)" "txn_live s' t = txn_live s1 t"
      using s'(11,12) by (auto simp: asked_def)
    then show ?thesis using R(14) m(2) True by simp
  qed (use s'(10) o1 wl m in blast)
  have kept: "txn_at s' t = txn_at s t \<and> txn_live s' t = txn_live s t" if "\<forall>m. owns p s m \<longrightarrow> TxnWork t \<notin> set (wlist s (NodeAsync m))" for t
  proof -
    have "txn_at s' t = txn_at s1 t \<and> txn_live s' t = txn_live s1 t" using s'(11) that o1 wl by blast
    then show ?thesis using R(15) that own by auto
  qed
  have same: "same_procs s s'" by (rule same_procs_trans [OF R(3) s'(6)])
  have refs: "ref_at s' = ref_at s" "ref_live s' = ref_live s" by (simp_all add: s'(4,5) R(1,2))
  show ?case
    by (rule exI [of _ s'], intro conjI allI impI)
      (use run s'(2,3) same refs dead rest kept frame in simp_all, (use post freed in blast)+)
qed

section \<open>All references\<close>

lemma handles_dropped:
  assumes inv: "binder_inv s" "binder_inv s'" and r: "ref_live s r" "r_proc (ref_at s r) = p"
    and gone: "ref_live s' = (ref_live s)(r := False)" "\<And>x. x \<noteq> r \<Longrightarrow> ref_at s' x = ref_at s x" "proc_live s' = proc_live s"
    and q: "proc_live s q" "q \<noteq> p"
  shows "handles s' q = handles s q"
  using handles_frame [OF inv gone(3), where r = r and p = p and q = q] gone(1,2) r q by simp

lemma refs_of_proc:
  assumes "binder_inv s" "proc_live s p"
  shows "r \<in> set (inorder (refs_by_desc (proc_at s p))) \<longleftrightarrow> ref_live s r \<and> r_proc (ref_at s r) = p"
    "distinct (inorder (refs_by_desc (proc_at s p)))"
  using inv_butD(4) [OF assms] by (auto simp: proc_ok_def Let_def intro: keyed_distinct)

lemma release_refs_loop:
  assumes "rb_ok rb" "binder_inv s" "proc_live s p"
  shows "\<exists>s'. release_refs rb p s = Some s' \<and> binder_inv s' \<and> same_procs s s' \<and> refs_by_desc (proc_at s' p) = Leaf \<and>
    (\<forall>r. ref_live s' r \<longleftrightarrow> ref_live s r \<and> r_proc (ref_at s r) \<noteq> p) \<and> (\<forall>r. r_proc (ref_at s r) \<noteq> p \<longrightarrow> ref_at s' r = ref_at s r) \<and>
    (\<forall>n. node_live s' n \<longrightarrow> node_live s n) \<and> (\<forall>q. proc_live s q \<and> q \<noteq> p \<longrightarrow> handles s' q = handles s q)"
  using assms
proof (induction "length (inorder (refs_by_desc (proc_at s p)))" arbitrary: s)
  case 0
  have "refs_by_desc (proc_at s p) = Leaf" using 0(1) by (cases "refs_by_desc (proc_at s p)") auto
  moreover have "\<not> (ref_live s r \<and> r_proc (ref_at s r) = p)" for r using refs_of_proc(1) [OF 0(3,4)] 0(1) by simp
  ultimately show ?case using 0(3) by (subst release_refs.simps) auto
next
  case (Suc k)
  then obtain r rs where rs: "inorder (refs_by_desc (proc_at s p)) = r # rs" by (cases "inorder (refs_by_desc (proc_at s p))") auto
  then have r: "ref_live s r" "r_proc (ref_at s r) = p" using refs_of_proc(1) [OF Suc.prems(2,3), of r] by (simp_all del: set_inorder)
  obtain n where n: "r_node (ref_at s r) = Some n" using ref_view_live [OF Suc.prems(2) r(1)] by blast
  obtain s0 s1 where s1: "binder_cleanup_ref_olocked rb r s = Some s0" "binder_free_ref r s0 = Some s1" "binder_inv s1"
    "ref_live s1 = (ref_live s)(r := False)" "\<And>x. x \<noteq> r \<Longrightarrow> ref_at s1 x = ref_at s x"
    "node_live s1 = node_live s \<or> n_refs (node_at s n) = [r] \<and> node_live s1 = (node_live s)(n := False)" "same_procs s s1"
    by (rule release_ref [OF Suc.prems(1,2) r(1) n]) blast
  have p1: "proc_live s1 p" "proc_live s1 = proc_live s" using s1(7) Suc.prems(3) by (auto simp: same_procs_def)
  have "set (inorder (refs_by_desc (proc_at s1 p))) = set (inorder (refs_by_desc (proc_at s p))) - {r}"
    using refs_of_proc(1) [OF s1(3) p1(1)] refs_of_proc(1) [OF Suc.prems(2,3)] s1(4,5) by (auto simp del: set_inorder split: if_splits)
  then have "set (inorder (refs_by_desc (proc_at s1 p))) = set rs"
    using refs_of_proc(2) [OF Suc.prems(2,3)] rs by (auto simp del: set_inorder)
  then have "length (inorder (refs_by_desc (proc_at s1 p))) = length rs"
    using refs_of_proc(2) [OF s1(3) p1(1)] refs_of_proc(2) [OF Suc.prems(2,3)] rs by (metis distinct.simps(2) distinct_card)
  then have "k = length (inorder (refs_by_desc (proc_at s1 p)))" using Suc.hyps(2) rs by simp
  from Suc.hyps(1) [OF this Suc.prems(1) s1(3) p1(1)] obtain s' where s': "release_refs rb p s1 = Some s'" "binder_inv s'" "same_procs s1 s'"
    "refs_by_desc (proc_at s' p) = Leaf" "\<forall>r. ref_live s' r \<longleftrightarrow> ref_live s1 r \<and> r_proc (ref_at s1 r) \<noteq> p"
    "\<forall>r. r_proc (ref_at s1 r) \<noteq> p \<longrightarrow> ref_at s' r = ref_at s1 r"
    "\<forall>n. node_live s' n \<longrightarrow> node_live s1 n" "\<forall>q. proc_live s1 q \<and> q \<noteq> p \<longrightarrow> handles s' q = handles s1 q" by blast
  have "release_refs rb p s = Some s'" by (subst release_refs.simps) (simp add: rs s1(1,2) s'(1))
  moreover have "ref_live s' x \<longleftrightarrow> ref_live s x \<and> r_proc (ref_at s x) \<noteq> p" for x
    using s'(5) s1(4,5) r(2) by (cases "x = r") auto
  moreover have "ref_at s' x = ref_at s x" if "r_proc (ref_at s x) \<noteq> p" for x
    using that s'(6) s1(5) [of x] r(2) by (cases "x = r") auto
  moreover have "node_live s m" if "node_live s' m" for m using that s'(7) s1(6) by (auto split: if_splits)
  moreover have "handles s' q = handles s q" if "proc_live s q" "q \<noteq> p" for q
    using handles_dropped [OF Suc.prems(2) s1(3) r s1(4,5) p1(2) that] s'(8) that p1(2) by simp
  ultimately show ?case using s'(2,4) same_procs_trans [OF s1(7) s'(3)] by blast
qed

end
