(* ===== verification/Binder_Death_Props.thy ===== *)
theory Binder_Death_Props
  imports Binder_Exit Binder_Sample
begin

text \<open>
  The properties of the end of a process: when it goes away, every reference on its nodes that asked for it is notified
  once, and its own references are dropped; a notification then follows its protocol with user space.
\<close>

section \<open>The end of a process\<close>

lemma count_distinct: "distinct xs \<Longrightarrow> count_list xs x = (if x \<in> set xs then 1 else 0)"
  by (induction xs) auto

text \<open>
  While the owner of a node is alive, no notification of its death is queued. The three commands of user space that handle notifications keep this.
\<close>

definition deaths_idle :: "bstate \<Rightarrow> bool" where
  "deaths_idle s \<longleftrightarrow> (\<forall>r d n. ref_live s r \<and> r_death (ref_at s r) = Some d \<and> r_node (ref_at s r) = Some n \<and> n_proc (node_at s n) \<noteq> None \<longrightarrow>
     wpos s (DeathWork d) = None)"

lemma deaths_idleI:
  "(\<And>r d n. ref_live s r \<Longrightarrow> r_death (ref_at s r) = Some d \<Longrightarrow> r_node (ref_at s r) = Some n \<Longrightarrow> n_proc (node_at s n) \<noteq> None \<Longrightarrow>
     wpos s (DeathWork d) = None) \<Longrightarrow> deaths_idle s"
  by (auto simp: deaths_idle_def)

lemma deaths_idleD:
  "deaths_idle s \<Longrightarrow> ref_live s r \<Longrightarrow> r_death (ref_at s r) = Some d \<Longrightarrow> r_node (ref_at s r) = Some n \<Longrightarrow> n_proc (node_at s n) \<noteq> None \<Longrightarrow>
   wpos s (DeathWork d) = None"
  unfolding deaths_idle_def by blast

lemma idle_quiet: "binder_inv s \<Longrightarrow> deaths_idle s \<Longrightarrow> owns p s n \<Longrightarrow> quiet_node n s"
  unfolding quiet_node_def owns_def
proof (intro allI impI)
  fix r d assume a: "binder_inv s" "deaths_idle s" "node_live s n \<and> n_proc (node_at s n) = Some p" "asked (n_refs (node_at s n)) s r d"
  then show "wpos s (DeathWork d) = None"
    using asked_live [OF a(1) _ a(4)] by (intro deaths_idleD [of s r d n]) (auto simp: asked_def)
qed

text \<open>Only the position of \<open>w\<close> changes, and nothing of references and nodes.\<close>

definition moves :: "work_id \<Rightarrow> bstate \<Rightarrow> bstate \<Rightarrow> bool" where
  "moves w s s' \<longleftrightarrow> ref_at s' = ref_at s \<and> ref_live s' = ref_live s \<and> node_at s' = node_at s \<and> (\<forall>v. v \<noteq> w \<longrightarrow> wpos s' v = wpos s v)"

lemma moves_enqueue_thread: "binder_enqueue_thread_work_ilocked th w s = Some s' \<Longrightarrow> moves w s s'"
  by (auto simp: binder_enqueue_thread_work_ilocked_def binder_enqueue_work_ilocked_def upd_thread_def moves_def split: if_splits option.splits)

lemma moves_enqueue_proc: "map_option (binder_wakeup_proc_ilocked p) (binder_enqueue_work_ilocked w (Some l) s) = Some s' \<Longrightarrow> moves w s s'"
  using same_coreD [OF wakeup_proc_core(1)] 
  by (auto simp: binder_enqueue_work_ilocked_def moves_def wakeup_proc_core split: if_splits option.splits)

lemma moves_looper: "queue_for_looper p th w s = Some s' \<Longrightarrow> moves w s s'"
  using moves_enqueue_thread moves_enqueue_proc by (auto simp: queue_for_looper_def split: if_splits)

lemma moves_idle:
  assumes "deaths_idle s" "moves w s s'" "\<And>r d n. w = DeathWork d \<Longrightarrow> ref_live s r \<Longrightarrow> r_death (ref_at s r) = Some d \<Longrightarrow> r_node (ref_at s r) = Some n \<Longrightarrow>
     n_proc (node_at s n) = None"
  shows "deaths_idle s'"
proof (rule deaths_idleI)
  fix r d n assume a: "ref_live s' r" "r_death (ref_at s' r) = Some d" "r_node (ref_at s' r) = Some n" "n_proc (node_at s' n) \<noteq> None"
  then have r: "ref_live s r" "r_death (ref_at s r) = Some d" "r_node (ref_at s r) = Some n" "n_proc (node_at s n) \<noteq> None"
    using assms(2) by (simp_all add: moves_def)
  have "w \<noteq> DeathWork d" using assms(3) [of d r n] r by auto
  then show "wpos s' (DeathWork d) = None" using deaths_idleD [OF assms(1) r] assms(2) by (auto simp: moves_def)
qed

lemma moves_wtype: "moves w (set_wtype v ty s) s' = moves w s s'"
  by (simp add: moves_def same_coreD [OF set_wtype_simps(1)])

lemma idle_cong:
  "ref_at s' = ref_at s \<Longrightarrow> ref_live s' = ref_live s \<Longrightarrow> node_at s' = node_at s \<Longrightarrow> wpos s' = wpos s \<Longrightarrow> deaths_idle s' = deaths_idle s"
  by (simp add: deaths_idle_def)

lemma clear_death_idle:
  assumes inv: "binder_inv s" and p: "proc_live s p" and i: "deaths_idle s" and c: "bc_clear_death p th target cookie s = Some s'"
  shows "deaths_idle s'"
proof (cases "\<exists>r d. binder_get_ref_olocked p target False s = Some r \<and> r_death (ref_at s r) = Some d \<and> death_cookie s d = cookie")
  case False
  then have "s' = s" using c by (auto simp: bc_clear_death_def split: option.splits if_splits)
  then show ?thesis using i by simp
next
  case True
  then obtain r d where r: "binder_get_ref_olocked p target False s = Some r" "r_death (ref_at s r) = Some d" "death_cookie s d = cookie" by blast
  let ?s1 = "upd_ref r (\<lambda>rf. rf\<lparr>r_death := None\<rparr>) s"
  have f: "ref_live ?s1 = ref_live s" "node_at ?s1 = node_at s" "wpos ?s1 = wpos s" "ref_at ?s1 = (ref_at s)(r := (ref_at s r)\<lparr>r_death := None\<rparr>)"
    by (simp_all add: upd_ref_def)
  have i1: "deaths_idle ?s1"
    by (rule deaths_idleI) (use deaths_idleD [OF i] in \<open>auto simp: f split: if_splits\<close>)
  have "sole_death {} s d r" using inv_butD(3) [OF inv get_ref_olocked(1) [OF inv p r(1)]] r(2) by (simp add: ref_ok_def Let_def)
  then have sole: "r_death (ref_at ?s1 r') \<noteq> Some d" if "ref_live ?s1 r'" for r' using that by (auto simp: f sole_death_def)
  show ?thesis
  proof (cases "wpos s (DeathWork d) = None")
    case True
    then have "moves (DeathWork d) ?s1 s'"
      using c r moves_looper [of p th "DeathWork d" "set_wtype (DeathWork d) BINDER_WORK_CLEAR_DEATH_NOTIFICATION ?s1" s', unfolded moves_wtype]
      by (simp add: bc_clear_death_def Let_def f)
    then show ?thesis by (rule moves_idle [OF i1]) (use sole in auto)
  next
    case False
    then have "s' = set_wtype (DeathWork d) BINDER_WORK_DEAD_BINDER_AND_CLEAR ?s1"
      using c r by (auto simp: bc_clear_death_def Let_def f split: if_splits)
    then show ?thesis using i1 idle_cong [of s' ?s1] by (simp add: same_coreD [OF set_wtype_simps(1)])
  qed
qed

lemma find_death_in: "find_death s cookie ws = Some d \<Longrightarrow> DeathWork d \<in> set ws"
  by (induction s cookie ws rule: find_death.induct) (auto split: if_splits)

lemma dead_binder_done_idle:
  assumes inv: "binder_inv s" and i: "deaths_idle s" and c: "bc_dead_binder_done p th cookie s = Some s'"
  shows "deaths_idle s'"
proof (cases "find_death s cookie (wlist s (DeliveredDeath p))")
  case None
  then show ?thesis using i c by (simp add: bc_dead_binder_done_def)
next
  case (Some d)
  let ?s1 = "binder_dequeue_work_ilocked (DeathWork d) s"
  note D = same_coreD [OF dequeue_simps(1) [of s "DeathWork d"]]
  have q: "wpos s (DeathWork d) \<noteq> None" using find_death_in [OF Some] inv_butD(1) [OF inv] by (auto simp: work_ok_def)
  have i1: "deaths_idle ?s1" by (rule deaths_idleI) (use deaths_idleD [OF i] in \<open>auto simp: D\<close>)
  have "s' = ?s1 \<or> moves (DeathWork d) ?s1 s'"
    using c Some moves_looper [of p th "DeathWork d" "set_wtype (DeathWork d) BINDER_WORK_CLEAR_DEATH_NOTIFICATION ?s1" s', unfolded moves_wtype]
    by (auto simp: bc_dead_binder_done_def Let_def split: if_splits)
  then show ?thesis
  proof
    assume "moves (DeathWork d) ?s1 s'"
    moreover have "n_proc (node_at ?s1 n) = None" if "DeathWork d = DeathWork d'" "ref_live ?s1 r" "r_death (ref_at ?s1 r) = Some d'" "r_node (ref_at ?s1 r) = Some n"
      for r d' n
    proof (rule ccontr)
      have "d' = d" using that(1) by simp
      moreover assume "n_proc (node_at ?s1 n) \<noteq> None"
      ultimately show False using deaths_idleD [OF i that(2,3,4) [unfolded D]] q unfolding D by blast
    qed
    ultimately show ?thesis by (rule moves_idle [OF i1])
  qed (use i1 in simp)
qed

lemma request_death_idle:
  assumes inv: "binder_inv s" and p: "proc_live s p" and i: "deaths_idle s" and c: "bc_request_death env p th target cookie s = Some s'"
    and fresh: "\<And>d r. w_new_death env = Some d \<Longrightarrow> ref_live s r \<Longrightarrow> r_death (ref_at s r) \<noteq> Some d"
  shows "deaths_idle s'"
proof (cases "w_new_death env")
  case None
  let ?s1 = "upd_thread th (\<lambda>r. r\<lparr>return_error_cmd := BR_ERROR\<rparr>) s"
  have "deaths_idle ?s1" using i idle_cong [of ?s1 s] by (simp add: upd_thread_def)
  then show ?thesis
    using c None moves_enqueue_thread [of th "ReturnErrorWork th" ?s1 s'] moves_idle by (auto simp: bc_request_death_def binder_enqueue_thread_work_def)
next
  case (Some d)
  show ?thesis
  proof (cases "\<exists>r. binder_get_ref_olocked p target False s = Some r \<and> r_death (ref_at s r) = None")
    case False
    then have "s' = s" using c Some by (auto simp: bc_request_death_def split: option.splits if_splits)
    then show ?thesis using i by simp
  next
    case True
    then obtain r where r: "binder_get_ref_olocked p target False s = Some r" "r_death (ref_at s r) = None" by blast
    let ?s2 = "upd_ref r (\<lambda>rf. rf\<lparr>r_death := Some d\<rparr>) (s\<lparr>death_cookie := (death_cookie s)(d := cookie), death_live := (death_live s)(d := True),
                             wpos := (wpos s)(DeathWork d := None)\<rparr>)"
    have f: "ref_live ?s2 = ref_live s" "node_at ?s2 = node_at s" "wpos ?s2 = (wpos s)(DeathWork d := None)"
      "ref_at ?s2 = (ref_at s)(r := (ref_at s r)\<lparr>r_death := Some d\<rparr>)" by (simp_all add: upd_ref_def)
    obtain n where n: "r_node (ref_at s r) = Some n" using ref_view_live [OF inv get_ref_olocked(1) [OF inv p r(1)]] by auto
    have i2: "deaths_idle ?s2" by (rule deaths_idleI) (use deaths_idleD [OF i] in \<open>auto simp: f split: if_splits\<close>)
    show ?thesis
    proof (cases "n_proc (node_at s n) = None")
      case True
      then have "moves (DeathWork d) ?s2 s'"
        using c Some r n moves_enqueue_proc [of p "DeathWork d" "ProcTodo p" "set_wtype (DeathWork d) BINDER_WORK_DEAD_BINDER ?s2" s', unfolded moves_wtype]
        by (simp add: bc_request_death_def Let_def f)
      then show ?thesis by (rule moves_idle [OF i2]) (use True n fresh [OF Some] in \<open>auto simp: f split: if_splits\<close>)
    next
      case False
      then have "s' = ?s2" using c Some r n by (auto simp: bc_request_death_def Let_def f)
      then show ?thesis using i2 by simp
    qed
  qed
qed

text \<open>
  C24. When a process goes away, the loop over its nodes ends. It never meets its \<open>BUG_ON\<close>s when, before, no death of a node with a
  living owner was queued (which the loop and the commands of user space keep) and the lists of one-way work of its nodes hold one-way
  transactions with their buffers: the process has no nodes any more, those that others still reference stay as dead nodes, the invariant and the
  handles of all processes are kept, and every reference that asked for it has its death notification on the list of its
  process, exactly once. The one-way transactions that waited for the nodes are freed, all other transactions stay, and no other work moves
  but that of the nodes.
\<close>

theorem exit_reports_deaths:
  assumes rb: "rb_ok rb" and inv: "binder_inv s" and p: "proc_live s p" and idle: "deaths_idle s" and async: "\<forall>n. owns p s n \<longrightarrow> async_ok n s"
  shows "\<exists>s'. release_nodes rb env p 0 s = Some s' \<and> binder_inv s' \<and> deaths_idle s' \<and> p_nodes (proc_at s' p) = Leaf \<and>
    (\<forall>q. proc_live s q \<longrightarrow> handles s' q = handles s q) \<and>
    (\<forall>n. owns p s n \<and> n_refs (node_at s n) \<noteq> [] \<longrightarrow> node_live s' n \<and> n_proc (node_at s' n) = None) \<and>
    (\<forall>n r d. owns p s n \<and> r \<in> set (n_refs (node_at s n)) \<and> r_death (ref_at s r) = Some d \<longrightarrow>
       wtype s' (DeathWork d) = BINDER_WORK_DEAD_BINDER \<and>
       (\<forall>l. count_list (wlist s' l) (DeathWork d) = (if l = ProcTodo (r_proc (ref_at s r)) then 1 else 0))) \<and>
    (\<forall>t. txn_live s' t \<longleftrightarrow> txn_live s t \<and> (\<forall>n. owns p s n \<longrightarrow> TxnWork t \<notin> set (wlist s (NodeAsync n)))) \<and>
    (\<forall>t. txn_live s' t \<longrightarrow> txn_at s' t = txn_at s t) \<and>
    (\<forall>w. (\<forall>n. owns p s n \<longrightarrow> w \<noteq> NodeWork n \<and> w \<notin> set (wlist s (NodeAsync n)) \<and>
         (\<forall>r\<in>set (n_refs (node_at s n)). \<forall>d. r_death (ref_at s r) = Some d \<longrightarrow> w \<noteq> DeathWork d)) \<longrightarrow>
       wpos s' w = wpos s w)"
proof -
  have "\<forall>n. owns p s n \<longrightarrow> exit_ready n s" using idle_quiet [OF inv idle] async by (auto simp: exit_ready_def)
  from release_nodes_loop [OF rb inv p this, of env 0]
  obtain s' where s': "release_nodes rb env p 0 s = Some s'" "binder_inv s'" "p_nodes (proc_at s' p) = Leaf"
    "ref_at s' = ref_at s" "ref_live s' = ref_live s" "same_procs s s'"
    "\<forall>n. owns p s n \<and> n_refs (node_at s n) \<noteq> [] \<longrightarrow> node_live s' n \<and> n_proc (node_at s' n) = None"
    "\<forall>n r d. owns p s n \<and> asked (n_refs (node_at s n)) s r d \<longrightarrow>
       wpos s' (DeathWork d) = Some (ProcTodo (r_proc (ref_at s r))) \<and> wtype s' (DeathWork d) = BINDER_WORK_DEAD_BINDER"
    "\<forall>n t. owns p s n \<and> TxnWork t \<in> set (wlist s (NodeAsync n)) \<longrightarrow> wpos s' (TxnWork t) = None \<and> \<not> txn_live s' t"
    "\<forall>t. (\<forall>n. owns p s n \<longrightarrow> TxnWork t \<notin> set (wlist s (NodeAsync n))) \<longrightarrow> txn_at s' t = txn_at s t \<and> txn_live s' t = txn_live s t"
    "\<forall>w. (\<forall>n. owns p s n \<longrightarrow> w \<noteq> NodeWork n \<and> w \<notin> set (wlist s (NodeAsync n)) \<and>
         (\<forall>r d. asked (n_refs (node_at s n)) s r d \<longrightarrow> w \<noteq> DeathWork d)) \<longrightarrow> wpos s' w = wpos s w \<and> wtype s' w = wtype s w"
    "\<forall>n. \<not> owns p s n \<longrightarrow> node_at s' n = node_at s n \<and> node_live s' n = node_live s n"
    by blast
  have posted: "wtype s' (DeathWork d) = BINDER_WORK_DEAD_BINDER \<and>
       (\<forall>l. count_list (wlist s' l) (DeathWork d) = (if l = ProcTodo (r_proc (ref_at s r)) then 1 else 0))"
    if "owns p s n \<and> r \<in> set (n_refs (node_at s n)) \<and> r_death (ref_at s r) = Some d" for n r d
  proof -
    have "wpos s' (DeathWork d) = Some (ProcTodo (r_proc (ref_at s r)))" "wtype s' (DeathWork d) = BINDER_WORK_DEAD_BINDER"
      using s'(8) that unfolding asked_def by blast+
    then show ?thesis using inv_butD(1) [OF s'(2)] by (auto simp: work_ok_def count_distinct)
  qed
  have frame: "wpos s' w = wpos s w"
    if "\<forall>n. owns p s n \<longrightarrow> w \<noteq> NodeWork n \<and> w \<notin> set (wlist s (NodeAsync n)) \<and>
      (\<forall>r\<in>set (n_refs (node_at s n)). \<forall>d. r_death (ref_at s r) = Some d \<longrightarrow> w \<noteq> DeathWork d)" for w
    using s'(11) that unfolding asked_def by blast
  have "deaths_idle s'"
  proof (rule deaths_idleI)
    fix r d n assume a: "ref_live s' r" "r_death (ref_at s' r) = Some d" "r_node (ref_at s' r) = Some n" "n_proc (node_at s' n) \<noteq> None"
    then have r: "ref_live s r" "r_death (ref_at s r) = Some d" "r_node (ref_at s r) = Some n" by (simp_all add: s'(4,5))
    then have m: "r \<in> set (n_refs (node_at s n))" and sole: "sole_death {} s d r"
      using inv_butD(3) [OF inv r(1)] by (auto simp: ref_ok_def Let_def)
    then have no: "\<not> owns p s n" using s'(7) a(4) by (auto dest: spec [of _ n])
    have "\<not> asked (n_refs (node_at s k)) s r' d" if "owns p s k" for k r'
    proof
      assume k: "asked (n_refs (node_at s k)) s r' d"
      have "node_live s k" using that by (simp add: owns_def)
      note l = asked_live [OF inv this k]
      have "r' = r" using sole l(1) k by (auto simp: sole_death_def asked_def)
      then show False using l(2) r(3) that no by simp
    qed
    moreover have "DeathWork d \<notin> set (wlist s (NodeAsync k))" if "owns p s k" for k using async that by (auto simp: async_ok_def)
    ultimately have "wpos s' (DeathWork d) = wpos s (DeathWork d)" using s'(11) by blast
    then show "wpos s' (DeathWork d) = None" using deaths_idleD [OF idle r] a(4) s'(12) no by simp
  qed
  moreover have "handles s' q = handles s q" if "proc_live s q" for q by (rule handles_same_refs [OF inv s'(2,4,5,6) that])
  moreover have "txn_live s' t \<longleftrightarrow> txn_live s t \<and> (\<forall>n. owns p s n \<longrightarrow> TxnWork t \<notin> set (wlist s (NodeAsync n)))" for t
    using s'(9,10) by blast
  moreover have "txn_at s' t = txn_at s t" if "txn_live s' t" for t using s'(9,10) that by blast
  ultimately show ?thesis using s'(1-3,7) posted frame by (intro exI [of _ s'] conjI) blast+
qed

text \<open>Process 3 has asked for the death of the node that process 2 owns, and a one-way transaction waits for the node.\<close>

definition mourning_state :: bstate where
  "mourning_state = sample_state\<lparr>ref_at := (\<lambda>_. sample_ref\<lparr>r_death := Some 9\<rparr>), death_live := (\<lambda>d. d = 9)\<rparr>"

definition exit_sample :: exit_env where
  "exit_sample = \<lparr>ex_alloc = \<lparr>mmget_ok = True, alloc_page_ok = (\<lambda>_. True), vm_insert_ok = (\<lambda>_. True), kzalloc_buf = None\<rparr>,
     ex_acq = id, wait_active = (\<lambda>_. False)\<rparr>"

lemma mourning_inv: "binder_inv mourning_state"
  unfolding inv_but_def work_ok_def node_ok_def ref_ok_def proc_ok_def sole_death_def strong_refs_def
  by (simp add: mourning_state_def sample_defs keyed_def Let_def)

definition waiting_state :: bstate where
  "waiting_state = mourning_state\<lparr>wlist := (wlist mourning_state)(NodeAsync 4 := [TxnWork 8]), wpos := (wpos mourning_state)(TxnWork 8 := Some (NodeAsync 4)),
     wtype := (wtype mourning_state)(TxnWork 8 := BINDER_WORK_TRANSACTION), txn_live := (\<lambda>t. t = 8),
     txn_at := (\<lambda>_. (txn_at mourning_state 8)\<lparr>x_flags := TF_ONE_WAY, x_buffer := Some (2, 0x100), to_proc := Some 2\<rparr>)\<rparr>"

lemma waiting_inv: "binder_inv waiting_state"
  unfolding inv_but_def work_ok_def node_ok_def ref_ok_def proc_ok_def sole_death_def strong_refs_def
  by (auto simp: waiting_state_def mourning_state_def sample_defs keyed_def Let_def)

lemma waiting_facts: "owns 2 waiting_state n \<longleftrightarrow> n = 4" "async_ok 4 waiting_state" "deaths_idle waiting_state"
  by (auto simp: owns_def async_ok_def deaths_idle_def oneway_def TF_ONE_WAY_def waiting_state_def mourning_state_def sample_defs)

theorem exit_reports_deaths_witness:
  "\<exists>s'. release_nodes plain_rb exit_sample 2 0 waiting_state = Some s' \<and> binder_inv s' \<and> p_nodes (proc_at s' 2) = Leaf \<and>
     count_list (wlist s' (ProcTodo 3)) (DeathWork 9) = 1 \<and> txn_live waiting_state 8 \<and> \<not> txn_live s' 8"
proof -
  have f: "n_refs (node_at waiting_state 4) = [5]" "r_death (ref_at waiting_state 5) = Some 9" "r_proc (ref_at waiting_state 5) = 3"
    "proc_live waiting_state 2" "txn_live waiting_state 8" "TxnWork 8 \<in> set (wlist waiting_state (NodeAsync 4))"
    by (simp_all add: waiting_state_def mourning_state_def sample_defs)
  have "\<forall>n. owns 2 waiting_state n \<longrightarrow> async_ok n waiting_state" by (simp add: waiting_facts)
  from exit_reports_deaths [OF plain_rb_ok waiting_inv f(4) waiting_facts(3) this, of exit_sample] show ?thesis
    unfolding waiting_facts(1) using f by fastforce
qed

text \<open>
  The loop over the references of a process that goes away ends and never faults: the process has no handles any more,
  its references and no others are gone, the other processes keep their handles, and the invariant holds, with the nodes
  that nobody uses any more freed.
\<close>

theorem exit_drops_references:
  assumes "rb_ok rb" "binder_inv s" "proc_live s p"
  shows "\<exists>s'. release_refs rb p s = Some s' \<and> binder_inv s' \<and> (\<forall>d. handles s' p d = None) \<and>
    (\<forall>q. proc_live s q \<and> q \<noteq> p \<longrightarrow> handles s' q = handles s q) \<and>
    (\<forall>r. ref_live s' r \<longleftrightarrow> ref_live s r \<and> r_proc (ref_at s r) \<noteq> p) \<and> (\<forall>n. node_live s' n \<longrightarrow> node_live s n)"
proof -
  obtain s' where s': "release_refs rb p s = Some s'" "binder_inv s'" "refs_by_desc (proc_at s' p) = Leaf"
    "\<forall>r. ref_live s' r \<longleftrightarrow> ref_live s r \<and> r_proc (ref_at s r) \<noteq> p" "\<forall>n. node_live s' n \<longrightarrow> node_live s n"
    "\<forall>q. proc_live s q \<and> q \<noteq> p \<longrightarrow> handles s' q = handles s q"
    using release_refs_loop [OF assms] by blast
  moreover have "handles s' p d = None" for d by (simp add: handles_def s'(3))
  ultimately show ?thesis by blast
qed

theorem exit_drops_references_witness:
  "\<exists>s'. release_refs plain_rb 3 mourning_state = Some s' \<and> binder_inv s' \<and> handles mourning_state 3 1 \<noteq> None \<and> handles s' 3 1 = None"
proof -
  have "proc_live mourning_state 3" by (simp add: mourning_state_def sample_state_def)
  from exit_drops_references [OF plain_rb_ok mourning_inv this] obtain s' where
    "release_refs plain_rb 3 mourning_state = Some s'" "binder_inv s'" "\<forall>d. handles s' 3 d = None" by blast
  moreover have "handles mourning_state 3 1 \<noteq> None" by (simp add: handles_def mourning_state_def sample_defs ref_desc_def ref_view_def)
  ultimately show ?thesis by blast
qed

section \<open>The protocol of a notification\<close>

text \<open>
  The states of a notification: nothing happens, the death is to be reported or has been reported to user space, the same
  with the reference already given up by user space, the end is to be confirmed, and freed.
\<close>

datatype notice = Quiet | Reporting | Reported | ReportingLast | ReportedLast | Clearing | Gone

definition notice :: "bstate \<Rightarrow> ptr \<Rightarrow> ptr \<Rightarrow> notice option" where
  "notice s p d =
     (if \<not> death_live s d then Some Gone
      else case wpos s (DeathWork d) of None \<Rightarrow> Some Quiet
      | Some l \<Rightarrow>
          (case wtype s (DeathWork d) of
             BINDER_WORK_DEAD_BINDER \<Rightarrow>
               if l = ProcTodo p then Some Reporting else if l = DeliveredDeath p then Some Reported else None
           | BINDER_WORK_DEAD_BINDER_AND_CLEAR \<Rightarrow>
               if l = ProcTodo p then Some ReportingLast else if l = DeliveredDeath p then Some ReportedLast else None
           | BINDER_WORK_CLEAR_DEATH_NOTIFICATION \<Rightarrow> if l = ProcTodo p \<or> (\<exists>t. l = ThreadTodo t) then Some Clearing else None
           | _ \<Rightarrow> None))"

datatype notice_event = NodeDied | IsRead | IsCleared | IsDone

fun notice_next :: "notice_event \<Rightarrow> notice \<Rightarrow> notice option" where
  "notice_next NodeDied Quiet = Some Reporting"
| "notice_next IsRead Reporting = Some Reported"
| "notice_next IsRead ReportingLast = Some ReportedLast"
| "notice_next IsRead Clearing = Some Gone"
| "notice_next IsCleared Quiet = Some Clearing"
| "notice_next IsCleared Reporting = Some ReportingLast"
| "notice_next IsCleared Reported = Some ReportedLast"
| "notice_next IsDone Reported = Some Quiet"
| "notice_next IsDone ReportedLast = Some Clearing"
| "notice_next _ _ = None"

lemma notice_cases:
  assumes "notice s p d = Some st" "death_live s d"
  obtains "st = Quiet" "wpos s (DeathWork d) = None"
  | l where "wpos s (DeathWork d) = Some l" "st = Reporting" "l = ProcTodo p" "wtype s (DeathWork d) = BINDER_WORK_DEAD_BINDER"
  | l where "wpos s (DeathWork d) = Some l" "st = Reported" "l = DeliveredDeath p" "wtype s (DeathWork d) = BINDER_WORK_DEAD_BINDER"
  | l where "wpos s (DeathWork d) = Some l" "st = ReportingLast" "l = ProcTodo p" "wtype s (DeathWork d) = BINDER_WORK_DEAD_BINDER_AND_CLEAR"
  | l where "wpos s (DeathWork d) = Some l" "st = ReportedLast" "l = DeliveredDeath p" "wtype s (DeathWork d) = BINDER_WORK_DEAD_BINDER_AND_CLEAR"
  | l where "wpos s (DeathWork d) = Some l" "st = Clearing" "l = ProcTodo p \<or> (\<exists>t. l = ThreadTodo t)"
      "wtype s (DeathWork d) = BINDER_WORK_CLEAR_DEATH_NOTIFICATION"
  using assms unfolding notice_def by (auto split: option.splits work_type.splits if_splits)

lemma queue_for_looper:
  assumes "wpos s (DeathWork d) = None" "death_live s d"
  obtains s' where "queue_for_looper p thread (DeathWork d) (set_wtype (DeathWork d) BINDER_WORK_CLEAR_DEATH_NOTIFICATION s) = Some s'"
    "notice s' p d = Some Clearing" "ref_at s' = ref_at s"
proof (cases "looper (thread_at s thread) AND (BINDER_LOOPER_STATE_REGISTERED OR BINDER_LOOPER_STATE_ENTERED) \<noteq> 0")
  case True
  then show thesis
    using that assms by (simp add: queue_for_looper_def binder_enqueue_thread_work_ilocked_def binder_enqueue_work_ilocked_def
        upd_thread_def set_wtype_def notice_def)
next
  case False
  let ?s' = "posted p (DeathWork d) BINDER_WORK_CLEAR_DEATH_NOTIFICATION s"
  note D = same_coreD [OF posted_simps(1) [of s p "DeathWork d" BINDER_WORK_CLEAR_DEATH_NOTIFICATION]]
  show thesis
  proof (rule that [of ?s'])
    show "queue_for_looper p thread (DeathWork d) (set_wtype (DeathWork d) BINDER_WORK_CLEAR_DEATH_NOTIFICATION s) = Some ?s'"
      using False assms(1) enqueue_work [of "set_wtype (DeathWork d) BINDER_WORK_CLEAR_DEATH_NOTIFICATION s" "DeathWork d" "ProcTodo p"]
      by (simp add: queue_for_looper_def posted_def)
  qed (use assms(2) in \<open>simp_all add: notice_def D\<close>)
qed

lemma notice_died:
  assumes "notice s p d = Some Quiet" "death_live s d" "r_death (ref_at s r) = Some d" "r_proc (ref_at s r) = p"
  shows "\<exists>s'. notify_death r s = Some s' \<and> notice s' p d = Some Reporting"
proof -
  have "wpos s (DeathWork d) = None" using assms(1,2) by (cases rule: notice_cases) auto
  then have "notify_death r s = Some (posted p (DeathWork d) BINDER_WORK_DEAD_BINDER s)"
    using assms(3,4) enqueue_work [of "set_wtype (DeathWork d) BINDER_WORK_DEAD_BINDER s" "DeathWork d" "ProcTodo p"]
    by (simp add: notify_death_def posted_def)
  then show ?thesis
    using assms(2) same_coreD(5) [OF posted_simps(1) [of s p "DeathWork d" BINDER_WORK_DEAD_BINDER]] by (simp add: notice_def)
qed

lemma notice_read:
  assumes st: "notice s p d = Some st" "death_live s d" "st \<in> {Reporting, ReportingLast, Clearing}"
    and l: "wlist s l = DeathWork d # ws" and ok: "\<And>a. put_ok env a"
  shows "\<exists>s1 nxt c' s'. take_work thread l s = (Some (DeathWork d), s1) \<and>
    read_work rb env p thread (DeathWork d) ret cur s1 = Some (nxt, c', s') \<and> notice s' p d = notice_next IsRead st \<and>
    map snd (rc_writes c') = map snd (rc_writes cur) @
      [word_bytes 4 (if st = Clearing then BR_CLEAR_DEATH_NOTIFICATION_DONE else BR_DEAD_BINDER), word_bytes 8 (death_cookie s d)]"
proof -
  let ?s1 = "snd (take_work thread l s)"
  have t: "take_work thread l s = (Some (DeathWork d), ?s1)" "wpos ?s1 = (wpos s)(DeathWork d := None)" "wtype ?s1 = wtype s"
    "death_live ?s1 = death_live s" "death_cookie ?s1 = death_cookie s"
    using l by (auto simp: take_work_def binder_dequeue_work_head_ilocked_def Let_def upd_thread_def)
  have "\<exists>nxt c' s'. read_work rb env p thread (DeathWork d) ret cur ?s1 = Some (nxt, c', s') \<and> notice s' p d = notice_next IsRead st \<and>
    map snd (rc_writes c') = map snd (rc_writes cur) @
      [word_bytes 4 (if st = Clearing then BR_CLEAR_DEATH_NOTIFICATION_DONE else BR_DEAD_BINDER), word_bytes 8 (death_cookie s d)]"
    using st(1,2)
    by (cases rule: notice_cases)
      (use st(2,3) ok t in \<open>auto simp: read_work_def read_death_def Let_def put_user_def put_then_def binder_enqueue_work_ilocked_def notice_def\<close>)
  then show ?thesis using t(1) by blast
qed

lemma notice_cleared:
  assumes st: "notice s p d = Some st" "death_live s d" "st \<in> {Quiet, Reporting, Reported}"
    and r: "binder_get_ref_olocked p h False s = Some r" "r_death (ref_at s r) = Some d"
  shows "\<exists>s'. bc_clear_death p thread h (death_cookie s d) s = Some s' \<and> notice s' p d = notice_next IsCleared st \<and>
    r_death (ref_at s' r) = None"
proof -
  let ?s1 = "upd_ref r (\<lambda>rf. rf\<lparr>r_death := None\<rparr>) s"
  have f: "wtype ?s1 = wtype s" by (simp add: upd_ref_def)
  show ?thesis
    using st(1,2)
  proof (cases rule: notice_cases)
    case 1
    obtain s' where "queue_for_looper p thread (DeathWork d) (set_wtype (DeathWork d) BINDER_WORK_CLEAR_DEATH_NOTIFICATION ?s1) = Some s'"
      "notice s' p d = Some Clearing" "ref_at s' = ref_at ?s1"
      using queue_for_looper [of ?s1 d p thread] 1 st(2) by auto
    then show ?thesis using r 1 by (simp add: bc_clear_death_def Let_def)
  qed (use r st f in \<open>auto simp: bc_clear_death_def Let_def notice_def same_coreD [OF set_wtype_simps(1)]\<close>)
qed

lemma notice_done:
  assumes st: "notice s p d = Some st" "death_live s d" "st \<in> {Reported, ReportedLast}"
    and f: "find_death s cookie (wlist s (DeliveredDeath p)) = Some d"
  shows "\<exists>s'. bc_dead_binder_done p thread cookie s = Some s' \<and> notice s' p d = notice_next IsDone st"
proof -
  let ?s1 = "binder_dequeue_work_ilocked (DeathWork d) s"
  have s1: "wtype ?s1 = wtype s" "death_live ?s1 = death_live s"
    by (auto simp: binder_dequeue_work_ilocked_def split: option.split)
  obtain s' where q: "queue_for_looper p thread (DeathWork d) (set_wtype (DeathWork d) BINDER_WORK_CLEAR_DEATH_NOTIFICATION ?s1) = Some s'"
    "notice s' p d = Some Clearing"
    using queue_for_looper [of ?s1 d p thread] st(2) s1 by auto
  show ?thesis
    using st(1,2) by (cases rule: notice_cases) (use st(2,3) f q s1 in \<open>auto simp: bc_dead_binder_done_def Let_def notice_def\<close>)
qed

text \<open>
  C25. A notification follows its protocol: the death of the node, reading it, giving the notification up and confirming it
  never fail in a state of the protocol that allows them and lead to the next one, and what user space reads says which
  notification it is and whether it is its end.
\<close>

theorem death_protocol:
  assumes "notice s p d = Some st" "death_live s d"
  shows "(st = Quiet \<and> r_death (ref_at s r) = Some d \<and> r_proc (ref_at s r) = p \<longrightarrow>
      (\<exists>s'. notify_death r s = Some s' \<and> notice s' p d = notice_next NodeDied st)) \<and>
    (st \<in> {Reporting, ReportingLast, Clearing} \<and> wlist s l = DeathWork d # ws \<and> (\<forall>a. put_ok env a) \<longrightarrow>
      (\<exists>s1 nxt c' s'. take_work thread l s = (Some (DeathWork d), s1) \<and>
         read_work rb env p thread (DeathWork d) ret cur s1 = Some (nxt, c', s') \<and> notice s' p d = notice_next IsRead st \<and>
         map snd (rc_writes c') = map snd (rc_writes cur) @
           [word_bytes 4 (if st = Clearing then BR_CLEAR_DEATH_NOTIFICATION_DONE else BR_DEAD_BINDER), word_bytes 8 (death_cookie s d)])) \<and>
    (st \<in> {Quiet, Reporting, Reported} \<and> binder_get_ref_olocked p h False s = Some r \<and> r_death (ref_at s r) = Some d \<longrightarrow>
      (\<exists>s'. bc_clear_death p thread h (death_cookie s d) s = Some s' \<and> notice s' p d = notice_next IsCleared st \<and>
         r_death (ref_at s' r) = None)) \<and>
    (st \<in> {Reported, ReportedLast} \<and> find_death s cookie (wlist s (DeliveredDeath p)) = Some d \<longrightarrow>
      (\<exists>s'. bc_dead_binder_done p thread cookie s = Some s' \<and> notice s' p d = notice_next IsDone st))"
proof (intro conjI impI)
  assume "st = Quiet \<and> r_death (ref_at s r) = Some d \<and> r_proc (ref_at s r) = p"
  then show "\<exists>s'. notify_death r s = Some s' \<and> notice s' p d = notice_next NodeDied st" using notice_died [of s p d r] assms by simp
qed (use assms notice_read notice_cleared notice_done in auto)

text \<open>The node of the mourning process dies, its thread 7 reads so, gives up the notification, and says it is done.\<close>

definition mourning_read :: read_env where
  "mourning_read = \<lparr>put_ok = (\<lambda>_. True), from_kuid = (\<lambda>_. 0), task_tgid = (\<lambda>_. 0), cur_nice = 0, unused_fd = (\<lambda>_. None),
     rd_alloc = ex_alloc exit_sample, rd_close = \<lparr>same_task = True, kz_twcb = (\<lambda>_. True), file_close_fd = (\<lambda>_. None)\<rparr>, rd_acq = id\<rparr>"

lemma mourning_quiet: "notice mourning_state 3 9 = Some Quiet" "death_live mourning_state 9"
  "r_death (ref_at mourning_state 5) = Some 9" "r_proc (ref_at mourning_state 5) = 3" "wlist mourning_state (ProcTodo 3) = []"
  by (simp_all add: notice_def mourning_state_def sample_defs)

lemma mourning_posted:
  assumes "notify_death 5 mourning_state = Some s1"
  shows "s1 = posted 3 (DeathWork 9) BINDER_WORK_DEAD_BINDER mourning_state"
  using assms mourning_quiet enqueue_work [of "set_wtype (DeathWork 9) BINDER_WORK_DEAD_BINDER mourning_state" "DeathWork 9" "ProcTodo 3"]
  by (simp add: notify_death_def posted_def mourning_state_def sample_defs)

theorem death_protocol_witness:
  "\<exists>s1 s2 s3 nxt c. notify_death 5 mourning_state = Some s1 \<and> notice s1 3 9 = Some Reporting \<and>
     take_work 7 (ProcTodo 3) s1 = (Some (DeathWork 9), s2) \<and>
     read_work plain_rb mourning_read 3 7 (DeathWork 9) None \<lparr>rc_ptr = 0, rc_writes = []\<rparr> s2 = Some (nxt, c, s3) \<and>
     notice s3 3 9 = Some Reported \<and> map snd (rc_writes c) = [word_bytes 4 BR_DEAD_BINDER, word_bytes 8 (0 :: u64)]"
proof -
  note Q = mourning_quiet
  obtain s1 where s1: "notify_death 5 mourning_state = Some s1" "notice s1 3 9 = Some Reporting"
    using death_protocol [OF Q(1,2), of 5] Q(3,4) by auto
  note P = mourning_posted [OF s1(1)]
  have f: "death_live s1 9" "wlist s1 (ProcTodo 3) = [DeathWork 9]" "death_cookie s1 9 = 0" "\<forall>a. put_ok mourning_read a"
    using Q(2,5) same_coreD [OF posted_simps(1) [of mourning_state 3 "DeathWork 9" BINDER_WORK_DEAD_BINDER]]
    by (simp_all add: P mourning_read_def) (simp add: mourning_state_def sample_defs)
  from death_protocol [OF s1(2) f(1), THEN conjunct2, THEN conjunct1, of "ProcTodo 3" "[]" mourning_read 7 plain_rb None "\<lparr>rc_ptr = 0, rc_writes = []\<rparr>"]
  obtain s2 nxt c s3 where "take_work 7 (ProcTodo 3) s1 = (Some (DeathWork 9), s2)"
    "read_work plain_rb mourning_read 3 7 (DeathWork 9) None \<lparr>rc_ptr = 0, rc_writes = []\<rparr> s2 = Some (nxt, c, s3)"
    "notice s3 3 9 = Some Reported" "map snd (rc_writes c) = [word_bytes 4 BR_DEAD_BINDER, word_bytes 8 (0 :: u64)]"
    unfolding f(3) using f(2,4) by (simp del: map_eq_Cons_conv Cons_eq_map_conv) metis
  with s1 show ?thesis by metis
qed

end
