(* ===== verification/Binder_Call.thy ===== *)
theory Binder_Call
  imports Binder_Send Binder_Alloc_Props Binder_Translate_Inv Binder_Async_Props
begin

text \<open>
  A call from one process to another: the stages of \<open>binder_transaction\<close> for a request whose data holds no objects.
\<close>

section \<open>The buffer of the call\<close>

text \<open>Filling in fields of a buffer that say nothing about its place.\<close>

definition tag_buffer :: "ptr \<Rightarrow> (binder_buffer \<Rightarrow> binder_buffer) \<Rightarrow> binder_alloc \<Rightarrow> binder_alloc" where
  "tag_buffer b f al = set_buf b (f (bufs al b)) al"

definition plain_tag :: "(binder_buffer \<Rightarrow> binder_buffer) \<Rightarrow> bool" where
  "plain_tag f \<longleftrightarrow> (\<forall>bf. user_data (f bf) = user_data bf \<and> b_free (f bf) = b_free bf \<and> data_size (f bf) = data_size bf \<and>
     offsets_size (f bf) = offsets_size bf \<and> extra_buffers_size (f bf) = extra_buffers_size bf \<and>
     allow_user_free (f bf) = allow_user_free bf)"

lemma tag_buffer_eqs:
  assumes "plain_tag f"
  shows "addr (tag_buffer b f al) p = addr al p" "bsize (tag_buffer b f al) p = bsize al p"
    "b_free (bufs (tag_buffer b f al) p) = b_free (bufs al p)" "buffers (tag_buffer b f al) = buffers al"
    "pages (tag_buffer b f al) = pages al" "buffer (tag_buffer b f al) = buffer al"
    "buffer_used_size (bufs (tag_buffer b f al) p) = buffer_used_size (bufs al p)" "vma (tag_buffer b f al) = vma al"
    "buffer_size (tag_buffer b f al) = buffer_size al" "free_buffers (tag_buffer b f al) = free_buffers al"
    "allocated_buffers (tag_buffer b f al) = allocated_buffers al"
  using assms
  by (auto simp: tag_buffer_def set_buf_def plain_tag_def addr_def binder_alloc_buffer_size_def binder_buffer_next_def buffer_used_size_def
      split: option.split)

lemma tag_buffer_keeps:
  assumes "plain_tag f"
  shows "space_inv al \<Longrightarrow> space_inv (tag_buffer b f al)" "held (tag_buffer b f al) = held al"
    "contents (tag_buffer b f al) p = contents al p"
proof -
  note e = tag_buffer_eqs [OF assms]
  show "space_inv al \<Longrightarrow> space_inv (tag_buffer b f al)" by (rule space_inv_cong) (simp_all add: e pages_sized_def)
  show "held (tag_buffer b f al) = held al" by (simp add: held_def e)
  show "contents (tag_buffer b f al) p = contents al p" 
    by (simp add: contents_def off_def blen_def space_byte_def kmap_def e)
qed

lemma fill_buffer:
  assumes rb: "rb_ok rb" and al: "space_inv al" "fresh_buf env al" "generous env" "vma al \<noteq> None" "request_fits ds 0 0 False al"
    and ub: "unat ds \<le> length ub" and f: "plain_tag f"
  obtains b al1 al2 where "binder_alloc_new_buf rb env ds 0 0 False al = Some (Inr b, al1)"
    "binder_alloc_copy_user_to_buffer b 0 ub ds (tag_buffer b f al1) = Some (0, al2)" "space_inv al2"
    "b \<notin> held al" "held al2 = insert b (held al)" "take (unat ds) (contents al2 b) = take (unat ds) ub"
    "\<forall>p\<in>held al. contents al2 p = contents al p" "bufs al2 b = f (bufs al1 b)"
    "bufs al1 b = taken_buffer (bufs al b) ds 0 0 False"
proof -
  obtain n b al1 where new: "binder_alloc_new_buf_locked rb env ds 0 0 False al = Some (Inr b, al1)" "space_inv al1"
    "checked_size ds 0 0 = Some n" "new_buf_post env (max n sizeof_ptr) ds 0 0 False al b al1"
    by (rule new_buf_succeeds [OF rb al])
  note h = new_buf_held [OF new(4) al(2)]
  let ?al = "tag_buffer b f al1"
  note k = tag_buffer_keeps [OF f] and e = tag_buffer_eqs [OF f]
  have inv: "space_inv ?al" by (rule k(1) [OF new(2)])
  have b: "b \<in> held ?al" "b \<in> set (buffers ?al)" using h(2) by (simp add: k, metis (lifting) e(4) held_def insertI1 mem_Collect_eq)
  have "ds \<le> n" using new(3) by (auto simp: checked_size_def Let_def ALIGN_def sizeof_ptr_def split: if_splits)
  then have "ds \<le> bsize ?al b" using new(4) by (simp add: e new_buf_post_def max.coboundedI1)
  moreover have "\<not> allow_user_free (bufs ?al b)" "\<not> b_free (bufs ?al b)"
    using new(4) f by (simp_all add: new_buf_post_def taken_buffer_def tag_buffer_def set_buf_def plain_tag_def)
  ultimately have "check_buffer ?al b 0 ds" by (simp add: check_buffer_def Let_def IS_ALIGNED_def)
  note c = checked_access [OF inv b(2) this] and w = copy_user_to_buffer_writes [OF inv b(2) this, of ub]
  obtain al2 zs where al2: "binder_alloc_copy_user_to_buffer b 0 ub ds ?al = Some (0, al2)"
    "written ?al (off ?al b) (take (unat ds) ub @ zs) al2" "length (take (unat ds) ub @ zs) \<le> unat ds"
    using w ub by (metis add_0_right diff_is_0_eq unat_0)
  have zs: "zs = []" using al2(3) ub by simp
  have "0 + length (take (unat ds) ub) \<le> blen ?al b" using c(5) by simp
  note wc = written_contents [OF inv b(1) _ this, of al2, unfolded add_0_right add_0] 
  have w2: "written ?al (off ?al b) (take (unat ds) ub) al2" using al2(2) zs by simp
  have "contents al2 b = take (unat ds) ub @ drop (length (take (unat ds) ub)) (contents ?al b)"
    using wc(1) [OF w2] by simp
  moreover have "\<forall>p\<in>held al. contents al2 p = contents al p"
    using wc(2) [OF w2] h new_buf_keeps [OF rb al(1,2) new(1)] by (auto simp: k)
  moreover have "bufs al2 b = f (bufs al1 b)" 
    using same_spaceD(4) [of ?al al2] w2 [unfolded written_def] by (auto simp: tag_buffer_def set_buf_def)
  ultimately show thesis
    using that [of b al1 al2] new al2(1) space_inv_written [OF inv w2] h wc(4) [OF w2] ub
    by (simp add: binder_alloc_new_buf_def k new_buf_post_def)
qed

section \<open>The target of the call\<close>

text \<open>The references that a call takes on the node and its process.\<close>

definition txn_refs_taken :: "ptr \<Rightarrow> ptr \<Rightarrow> bstate \<Rightarrow> bstate" where
  "txn_refs_taken n q s = upd_proc q (\<lambda>pr. pr\<lparr>p_tmp_ref := p_tmp_ref pr + 1\<rparr>)
     (upd_node n (\<lambda>nd. nd\<lparr>local_strong_refs := local_strong_refs nd + 1, tmp_refs := tmp_refs nd + 1\<rparr>) s)"

lemma node_for_txn:
  assumes "n_proc (node_at s n) = Some q"
  shows "node_for_txn n s = Some (Inr (n, q), txn_refs_taken n q s)"
  using assms
  by (simp add: node_for_txn_def binder_get_node_refs_for_txn_def binder_inc_node_nilocked_def binder_inc_node_tmpref_ilocked_def
      txn_refs_taken_def Let_def upd_node_def)

text \<open>A call that \<open>binder_transaction\<close> accepts: through handle \<open>h\<close> on a node of another process.\<close>

definition callable :: "send_env \<Rightarrow> ptr \<Rightarrow> u32 \<Rightarrow> ptr \<Rightarrow> ptr \<Rightarrow> bstate \<Rightarrow> bool" where
  "callable env p h n q s \<longleftrightarrow> h \<noteq> 0 \<and> p \<noteq> q \<and> \<not> forbid_transaction env p q \<and> n_proc (node_at s n) = Some q \<and>
     (\<exists>st wk. handles s p h = Some (n, st, wk) \<and> st \<noteq> 0)"

lemma callable_ref:
  assumes inv: "binder_inv s" and p: "proc_live s p" and c: "callable env p h n q s"
  obtains r where "binder_get_ref_olocked p h True s = Some r" "r_node (ref_at s r) = Some n" "r \<in> set (n_refs (node_at s n))"
    "node_live s n"
proof -
  obtain st wk where h: "handles s p h = Some (n, st, wk)" "st \<noteq> 0" using c by (auto simp: callable_def)
  then obtain r where r: "binder_get_ref_olocked p h True s = Some r"
    using get_ref_olocked_None [OF inv p, of h True] by (cases "binder_get_ref_olocked p h True s") auto
  note g = get_ref_olocked [OF inv p r]
  have n: "r_node (ref_at s r) = Some n" using g(4) h by (cases "r_node (ref_at s r)") (auto simp: ref_view_def)
  then show thesis using that r inv_butD(3) [OF inv g(1)] by (simp add: ref_ok_def Let_def)
qed

lemma call_target:
  assumes inv: "binder_inv s" and p: "p = t_proc (thread_at s thread)" "proc_live s p" and c: "callable env p (td_handle tr) n q s"
    and idle: "transaction_stack (thread_at s thread) = None" "\<not> todo_head_is_txn thread s"
  shows "call_target env thread tr s =
    Some (Inr (), no_target\<lparr>tg_proc := Some q, tg_node := Some n\<rparr>, txn_refs_taken n q s)"
proof -
  obtain r where r: "binder_get_ref_olocked p (td_handle tr) True s = Some r" "r_node (ref_at s r) = Some n"
    by (rule callable_ref [OF inv p(2) c])
  have s1: "thread_at (txn_refs_taken n q s) = thread_at s" "todo_head_is_txn thread (txn_refs_taken n q s) = todo_head_is_txn thread s"
    by (simp_all add: txn_refs_taken_def todo_head_is_txn_def upd_proc_def upd_node_def split: list.split)
  show ?thesis
    using c r idle node_for_txn [of s n q] p(1) s1
    by (simp add: call_target_def lookup_target_def callable_def call_thread_def Let_def)
qed

section \<open>Delivery\<close>

text \<open>Where a call goes: to a thread that waits for work, or to the list of the process.\<close>

definition call_list :: "ptr \<Rightarrow> bstate \<Rightarrow> worklist" where
  "call_list q s = (case waiting_threads (proc_at s q) of [] \<Rightarrow> ProcTodo q | th # _ \<Rightarrow> ThreadTodo th)"

text \<open>What the delivery of the call \<open>t\<close> with its completion \<open>c\<close> has done.\<close>

definition call_queued :: "ptr \<Rightarrow> ptr \<Rightarrow> ptr \<Rightarrow> ptr \<Rightarrow> bstate \<Rightarrow> bstate \<Rightarrow> bool" where
  "call_queued thread t c q s s' \<longleftrightarrow>
     (\<forall>l. wlist s' l = wlist s l @ (if l = ThreadTodo thread then [CompleteWork c] else []) @ (if l = call_list q s then [TxnWork t] else [])) \<and>
     wpos s' = (wpos s)(CompleteWork c := Some (ThreadTodo thread), TxnWork t := Some (call_list q s)) \<and>
     wtype s' (TxnWork t) = BINDER_WORK_TRANSACTION \<and> wtype s' (CompleteWork c) = BINDER_WORK_TRANSACTION_COMPLETE \<and>
     transaction_stack (thread_at s' thread) = Some t"

lemma wakeup_thread_fields:
  "same_core s (binder_wakeup_thread_ilocked p th sync s)" "thread_at (binder_wakeup_thread_ilocked p th sync s) = thread_at s"
  "wtype (binder_wakeup_thread_ilocked p th sync s) = wtype s" "txn_live (binder_wakeup_thread_ilocked p th sync s) = txn_live s"
  "last_id (binder_wakeup_thread_ilocked p th sync s) = last_id s"
proof -
  obtain wk where "fold (\<lambda>t s. if looper (thread_at s t) AND BINDER_LOOPER_STATE_POLL \<noteq> 0 \<and> binder_available_for_proc_work_ilocked t s
                 then wake_up_interruptible sync t s else s) (inorder (p_threads (proc_at s p))) s = s\<lparr>woken := wk\<rparr>"
    using wake_poll_fold by blast
  then show "same_core s (binder_wakeup_thread_ilocked p th sync s)" "thread_at (binder_wakeup_thread_ilocked p th sync s) = thread_at s"
    "wtype (binder_wakeup_thread_ilocked p th sync s) = wtype s" "txn_live (binder_wakeup_thread_ilocked p th sync s) = txn_live s"
    "last_id (binder_wakeup_thread_ilocked p th sync s) = last_id s"
    by (simp_all add: binder_wakeup_thread_ilocked_def binder_wakeup_poll_threads_ilocked_def wake_up_interruptible_def same_core_def
        split: option.split)
qed

lemma wakeup_same_core: "same_core s (binder_wakeup_thread_ilocked p th sync s1) = same_core s s1"
  using wakeup_thread_fields(1) [of s1 p th sync] unfolding same_core_def by (metis (no_types, lifting))

lemmas wakeup_thread_simps = wake_frame wakeup_thread_fields(2-) wakeup_same_core

lemma deliver_call:
  assumes t: "x_buffer (txn_at s t) = Some (q, b)" "\<not> oneway s t" "wpos s (TxnWork t) = None" "wpos s (CompleteWork c) = None"
    and b: "b_target_node (buf_at s (q, b)) = Some n" "\<not> async_transaction (buf_at s (q, b))"
    and q: "\<not> p_is_dead (proc_at s q)" and tg: "tg_thread tg = None"
  shows "\<exists>s'. deliver thread t c q tg False (q, b) s = Some (True, s') \<and> call_queued thread t c q s s' \<and>
    node_at s' = node_at s \<and> same_core s s' \<and> txn_live s' = txn_live s \<and>
    txn_at s' t = (txn_at s t)\<lparr>need_reply := True, from_parent := transaction_stack (thread_at s thread)\<rparr> \<and>
    (\<forall>p. p_alloc (proc_at s' p) = p_alloc (proc_at s p) \<and> p_is_dead (proc_at s' p) = p_is_dead (proc_at s p))"
proof (cases "waiting_threads (proc_at s q)")
  case Nil
  then show ?thesis
    using assms
    by (auto simp: deliver_def deliver_call_def binder_enqueue_deferred_thread_work_ilocked_def binder_enqueue_work_ilocked_def
        binder_proc_transaction_def binder_select_thread_ilocked_def upd_thread_def upd_txn_def upd_proc_def buf_at_def oneway_def Let_def call_list_def
        call_queued_def wakeup_thread_simps) (simp_all add: same_core_def)
next
  case (Cons th ths)
  then show ?thesis
    using assms
    by (auto simp: deliver_def deliver_call_def binder_enqueue_deferred_thread_work_ilocked_def binder_enqueue_work_ilocked_def
        binder_enqueue_thread_work_ilocked_def
        binder_proc_transaction_def binder_select_thread_ilocked_def upd_thread_def upd_txn_def upd_proc_def buf_at_def oneway_def Let_def call_list_def
        call_queued_def wakeup_thread_simps) (simp_all add: same_core_def)
qed

lemma work_ok_call:
  assumes "work_ok s" "call_queued thread t c q s s'" "same_core s s'" "wpos s (TxnWork t) = None" "wpos s (CompleteWork c) = None"
  shows "work_ok s'"
proof -
  have o: "TxnWork t \<notin> set (wlist s l)" "CompleteWork c \<notin> set (wlist s l)" "distinct (wlist s l)" "w \<in> set (wlist s l) \<longleftrightarrow> wpos s w = Some l" for w l
    using assms(1,4,5) by (auto simp: work_ok_def)
  note C = assms(2) [unfolded call_queued_def]
  have l: "wlist s' l = wlist s l @ (if l = ThreadTodo thread then [CompleteWork c] else []) @ (if l = call_list q s then [TxnWork t] else [])"
    and pos: "wpos s' = (wpos s)(CompleteWork c := Some (ThreadTodo thread), TxnWork t := Some (call_list q s))" for l using C by auto
  have "w \<in> set (wlist s' l) \<longleftrightarrow> wpos s' w = Some l" for w l
    unfolding l pos using o(4) [of w l] assms(4,5) by (auto split: if_splits)
  moreover have "distinct (wlist s' l)" for l unfolding l using o(1-3) by auto
  ultimately show ?thesis using assms(1) same_coreD(1,5) [OF assms(3)] by (simp add: work_ok_def pos)
qed

section \<open>The whole call\<close>

lemma inv_same_core:
  assumes inv: "binder_inv s" and core: "same_core s s'" and w: "work_ok s'" "\<And>n. wpos s' (NodeWork n) = wpos s (NodeWork n)"
    and cnt: "\<And>n. node_live s n \<Longrightarrow> internal_strong_refs (node_at s' n) = internal_strong_refs (node_at s n) \<and>
      local_strong_refs (node_at s n) \<le> local_strong_refs (node_at s' n) \<and> local_weak_refs (node_at s n) \<le> local_weak_refs (node_at s' n) \<and>
      tmp_refs (node_at s n) \<le> tmp_refs (node_at s' n)"
  shows "binder_inv s'"
proof (rule inv_but_core [OF inv core w(1)])
  fix n assume n: "node_live s n"
  note ok = inv_butD(2) [OF inv n, unfolded node_ok_def Let_def]
  show "internal_strong_refs (node_at s' n) = int (strong_refs s n) + 0 \<and> 0 \<le> local_strong_refs (node_at s' n) \<and>
      0 \<le> local_weak_refs (node_at s' n) \<and> 0 \<le> tmp_refs (node_at s' n)"
    using ok cnt [OF n] by linarith
  show "wpos s' (NodeWork n) = None" if "n_proc (node_at s n) = None" using ok that w(2) by simp
qed

lemma next_id:
  "binder_inv s \<Longrightarrow> binder_inv (s\<lparr>last_id := k\<rparr>)" "handles (s\<lparr>last_id := k\<rparr>) p = handles s p"
proof -
  have "same_core s (s\<lparr>last_id := k\<rparr>)" by (simp add: same_core_def)
  then show "binder_inv (s\<lparr>last_id := k\<rparr>)" if "binder_inv s"
    by (rule inv_same_core [OF that]) (use inv_butD(1) [OF that] in \<open>simp_all add: work_ok_def\<close>)
  have "ref_desc (s\<lparr>last_id := k\<rparr>) = ref_desc s" "ref_view (s\<lparr>last_id := k\<rparr>) = ref_view s"
    by (simp_all add: fun_eq_iff ref_desc_def ref_view_def)
  then show "handles (s\<lparr>last_id := k\<rparr>) p = handles s p" by (intro ext) (simp add: handles_def split: option.split)
qed

text \<open>The security context is empty, so it needs no room and nothing is copied.\<close>

lemma no_secctx: "add_secctx node p 0 s = Some (COMPAT_LSM_CTX_INIT, 0)" "put_secctx COMPAT_LSM_CTX_INIT tr extra q b t s = Some s"
  by (simp_all add: add_secctx_def compat_secid_to_secctx_def COMPAT_LSM_CTX_INIT_def secctx_size_def compat_secctx_len_def ALIGN_def Let_def
      put_secctx_def compat_secctx_data_def split: option.split)

lemma send_plain_data:
  assumes "td_offsets_size tr = 0"
    "binder_alloc_copy_user_to_buffer b 0 (user_bytes env (td_buffer tr)) (td_data_size tr) (p_alloc (proc_at s q)) = Some (0, al)"
  shows "send_data rb env thread tr COMPAT_LSM_CTX_INIT 0 tg t (q, b) s = Some (Inr (ALIGN (td_data_size tr) 8), set_alloc q al s)"
proof -
  have "binder_alloc_copy_user_to_buffer b o1 ub 0 al = Some (0, al)" for o1 ub
    by (simp add: binder_alloc_copy_user_to_buffer_def copy_user_loop.simps)
  moreover have "set_alloc q al (set_alloc q al s) = set_alloc q al s" by (simp add: set_alloc_def upd_proc_def)
  ultimately show ?thesis
    using assms by (simp add: send_data_def send_objects.simps IS_ALIGNED_def Let_def)
qed

text \<open>Dropping the temporary references of a call at its end.\<close>

lemma send_done:
  assumes tg: "tg = no_target\<lparr>tg_proc := Some q, tg_node := Some n\<rparr>" and q: "\<not> p_is_dead (proc_at s q)"
    and n: "n_refs (node_at s n) \<noteq> []" "1 \<le> tmp_refs (node_at s n)"
  shows "send_done rb env tg s = Some (upd_node n (\<lambda>nd. nd\<lparr>tmp_refs := tmp_refs nd - 1\<rparr>)
    (upd_proc q (\<lambda>pr. pr\<lparr>p_tmp_ref := p_tmp_ref pr - 1\<rparr>) s))"
  using assms
  by (simp add: send_done_def put_target_def no_target_def binder_proc_dec_tmpref_def binder_dec_node_tmpref_def binder_dec_node_nilocked_def Let_def)

text \<open>The state in which a call with its buffer \<open>b\<close> filled is delivered.\<close>

definition call_built ::
    "binder_transaction \<Rightarrow> ptr \<Rightarrow> ptr \<Rightarrow> ptr \<Rightarrow> ptr \<Rightarrow> binder_alloc \<Rightarrow> bstate \<Rightarrow> bstate" where
  "call_built x t c n q al s = set_alloc q al (txn_refs_taken n q (s\<lparr>last_id := last_id s + 1,
     txn_at := (txn_at s)(t := x), txn_live := (txn_live s)(t := True), wpos := (wpos s)(TxnWork t := None, CompleteWork c := None)\<rparr>))"

lemma send_plain_call:
  assumes inv: "binder_inv s" and p: "p = t_proc (thread_at s thread)" "proc_live s p"
    and idle: "transaction_stack (thread_at s thread) = None" "\<not> todo_head_is_txn thread s"
    and c: "callable env p (td_handle tr) n q s"
    and tr: "\<not> td_one_way tr" "td_offsets_size tr = 0" and new: "new_txn env = Some t" "new_complete env = Some c"
    and tg: "tg = no_target\<lparr>tg_proc := Some q, tg_node := Some n\<rparr>"
    and x: "x = new_txn_fields env (last_id s + 1) thread tg tr False"
    and f: "f = (\<lambda>bf. bf\<lparr>b_debug_id := last_id s + 1, b_transaction := Some t, b_target_node := Some n\<rparr>)"
    and b: "binder_alloc_new_buf rb (buf_env env) (td_data_size tr) 0 0 False (p_alloc (proc_at s q)) = Some (Inr b, al1)"
      "binder_alloc_copy_user_to_buffer b 0 (user_bytes env (td_buffer tr)) (td_data_size tr) (tag_buffer b f al1) = Some (0, al2)"
  shows "binder_transaction_fn rb env thread tr False 0 s =
    (case deliver thread t c q tg False (q, b) (call_built (x\<lparr>x_buffer := Some (q, b)\<rparr>) t c n q al2 s) of None \<Rightarrow> None
     | Some (True, s4) \<Rightarrow> send_done rb env tg s4
     | Some (False, s4) \<Rightarrow> send_undone rb env thread BR_DEAD_REPLY (ALIGN (td_data_size tr) 8) tg t (q, b)
         (binder_dequeue_work (CompleteWork c) s4))"
proof -
  let ?s0 = "s\<lparr>last_id := last_id s + 1\<rparr>" and ?s1 = "txn_refs_taken n q (s\<lparr>last_id := last_id s + 1\<rparr>)"
  let ?s2 = "(alloc_txn t x ?s1)\<lparr>wpos := (wpos (alloc_txn t x ?s1))(CompleteWork c := None)\<rparr>"
  let ?s3 = "upd_txn t (\<lambda>x. x\<lparr>x_buffer := Some (q, b)\<rparr>) (set_alloc q al1 ?s2)"
  have c0: "callable env p (td_handle tr) n q ?s0" using c by (simp add: callable_def next_id(2))
  have tgt: "call_target env thread tr ?s0 = Some (Inr (), tg, ?s1)"
    unfolding tg by (rule call_target [OF next_id(1) [OF inv] _ _ c0]) (use p idle in \<open>simp_all add: todo_head_is_txn_def split: list.split_asm\<close>)
  have flds: "tg_proc tg = Some q" "tg_node tg = Some n" by (simp_all add: tg no_target_def)
  have s2: "p_alloc (proc_at ?s2 q) = p_alloc (proc_at s q)" "\<not> oneway ?s2 t" "thread_at ?s2 = thread_at s"
    using tr(1) by (simp_all add: alloc_txn_def txn_refs_taken_def oneway_def x new_txn_fields_def td_one_way_def upd_proc_def upd_node_def)
  have "x_debug_id (txn_at ?s3 t) = last_id s + 1" by (simp add: upd_txn_def set_alloc_def upd_proc_def alloc_txn_def x new_txn_fields_def)
  then have tag: "upd_buf q b (\<lambda>bf. bf\<lparr>b_debug_id := x_debug_id (txn_at ?s3 t), b_transaction := Some t, b_target_node := tg_node tg\<rparr>) ?s3 =
      upd_buf q b f ?s3" by (simp add: f flds)
  have al: "p_alloc (proc_at (upd_buf q b f ?s3) q) = tag_buffer b f al1"
    by (simp add: upd_buf_def tag_buffer_def upd_txn_def set_alloc_def)
  have fin: "set_alloc q al2 (upd_buf q b f ?s3) = call_built (x\<lparr>x_buffer := Some (q, b)\<rparr>) t c n q al2 s"
    by (simp add: call_built_def upd_buf_def set_alloc_def upd_txn_def upd_proc_def upd_node_def txn_refs_taken_def alloc_txn_def)
  have "send_buffer rb env thread tr False COMPAT_LSM_CTX_INIT 0 tg t c (q, b) ?s3 =
    (case deliver thread t c q tg False (q, b) (call_built (x\<lparr>x_buffer := Some (q, b)\<rparr>) t c n q al2 s) of None \<Rightarrow> None
     | Some (True, s4) \<Rightarrow> send_done rb env tg s4
     | Some (False, s4) \<Rightarrow> send_undone rb env thread BR_DEAD_REPLY (ALIGN (td_data_size tr) 8) tg t (q, b)
         (binder_dequeue_work (CompleteWork c) s4))"
    unfolding send_buffer_def no_secctx(2) option.case Let_def fst_conv snd_conv tag
      send_plain_data [OF tr(2), of b env "upd_buf q b f ?s3" q al2 rb thread tg t, unfolded al, OF b(2)] prod.case sum.case fin ..
  moreover have "binder_transaction_fn rb env thread tr False 0 s = send_to rb env thread tr False 0 (last_id s + 1) tg ?s1"
    unfolding binder_transaction_fn_def Let_def using tgt by simp
  moreover have "send_to rb env thread tr False 0 (last_id s + 1) tg ?s1 =
      send_buffer rb env thread tr False COMPAT_LSM_CTX_INIT 0 tg t c (q, b) ?s3"
    unfolding send_to_def Let_def flds new option.case prod.case x [symmetric] no_secctx(1) using s2 b(1) tr(2) by simp
  ultimately show ?thesis by simp
qed

end
