(* ===== verification/Binder_Call_Props.thy ===== *)
theory Binder_Call_Props
  imports Binder_Call Binder_Sample
begin

text \<open>
  The properties of \<open>binder_transaction\<close>: what a call brings about in the receiver and the sender, and what a call that
  is refused leaves behind.
\<close>

section \<open>A call arrives\<close>

text \<open>
  C22. A call with a reply, without objects and without extra buffers, by a thread whose transaction stack is empty and whose list does
  not begin with a transaction, through a handle other than 0 (so not to the context manager) on a node of another process on which it has a strong count,
  runs to its end when the security hook allows it, the target is alive and has mapped a buffer with room for the data, the
  memory for the transaction, the completion and the buffer is there and the data of the sender is readable: the transaction waits for a thread of the target, or for
  the process when none is idle, behind the work that was
  there; the sender waits for the reply and has its completion to read. The data of the sender stands in a new buffer of the
  target, no other buffer and no handle of any process changes, the driver's invariants hold, and the node has one more count
  until the buffer is freed.
\<close>

theorem call_delivered:
  assumes rb: "rb_ok rb" and inv: "binder_inv s"
    and p: "p = t_proc (thread_at s thread)" "proc_live s p" "transaction_stack (thread_at s thread) = None" "\<not> todo_head_is_txn thread s"
    and c: "callable env p (td_handle tr) n q s" "\<not> p_is_dead (proc_at s q)"
    and al: "al = p_alloc (proc_at s q)" "space_inv al" "vma al \<noteq> None" "request_fits (td_data_size tr) 0 0 False al"
    and env: "generous (buf_env env)" "fresh_buf (buf_env env) al" "new_txn env = Some t" "new_complete env = Some c"
      "wpos s (TxnWork t) = None" "wpos s (CompleteWork c) = None"
    and tr: "\<not> td_one_way tr" "td_offsets_size tr = 0" "unat (td_data_size tr) \<le> length (user_bytes env (td_buffer tr))"
  shows "\<exists>b s'. binder_transaction_fn rb env thread tr False 0 s = Some s' \<and> binder_inv s' \<and> call_queued thread t c q s s' \<and>
    txn_live s' t \<and> x_from (txn_at s' t) = Some thread \<and> to_proc (txn_at s' t) = Some q \<and> need_reply (txn_at s' t) \<and>
    x_code (txn_at s' t) = td_code tr \<and> sender_euid (txn_at s' t) = task_euid env \<and> x_buffer (txn_at s' t) = Some (q, b) \<and>
    b \<notin> held al \<and> space_inv (p_alloc (proc_at s' q)) \<and> held (p_alloc (proc_at s' q)) = insert b (held al) \<and>
    data_size (buf_at s' (q, b)) = td_data_size tr \<and> b_target_node (buf_at s' (q, b)) = Some n \<and>
    take (unat (td_data_size tr)) (contents (p_alloc (proc_at s' q)) b) =
      take (unat (td_data_size tr)) (user_bytes env (td_buffer tr)) \<and>
    (\<forall>b'\<in>held al. contents (p_alloc (proc_at s' q)) b' = contents al b') \<and>
    (\<forall>q'. proc_live s q' \<longrightarrow> handles s' q' = handles s q') \<and>
    local_strong_refs (node_at s' n) = local_strong_refs (node_at s n) + 1 \<and> tmp_refs (node_at s' n) = tmp_refs (node_at s n)"
proof -
  define tg where "tg = no_target\<lparr>tg_proc := Some q, tg_node := Some n\<rparr>"
  define f where "f = (\<lambda>bf :: binder_buffer. bf\<lparr>b_debug_id := last_id s + 1, b_transaction := Some t, b_target_node := Some n\<rparr>)"
  have pf: "plain_tag f" by (simp add: plain_tag_def f_def)
  obtain b al1 al2 where b: "binder_alloc_new_buf rb (buf_env env) (td_data_size tr) 0 0 False al = Some (Inr b, al1)"
    "binder_alloc_copy_user_to_buffer b 0 (user_bytes env (td_buffer tr)) (td_data_size tr) (tag_buffer b f al1) = Some (0, al2)"
    "space_inv al2" "b \<notin> held al" "held al2 = insert b (held al)"
    "take (unat (td_data_size tr)) (contents al2 b) = take (unat (td_data_size tr)) (user_bytes env (td_buffer tr))"
    "\<forall>p\<in>held al. contents al2 p = contents al p" "bufs al2 b = f (bufs al1 b)"
    "bufs al1 b = taken_buffer (bufs al b) (td_data_size tr) 0 0 False"
    by (rule fill_buffer [OF rb al(2) env(2,1) al(3,4) tr(3) pf])
  define x where "x = (new_txn_fields env (last_id s + 1) thread tg tr False)\<lparr>x_buffer := Some (q, b)\<rparr>"
  let ?s4 = "call_built x t c n q al2 s"
  have run: "binder_transaction_fn rb env thread tr False 0 s =
    (case deliver thread t c q tg False (q, b) ?s4 of None \<Rightarrow> None
     | Some (True, s4) \<Rightarrow> send_done rb env tg s4
     | Some (False, s4) \<Rightarrow> send_undone rb env thread BR_DEAD_REPLY (ALIGN (td_data_size tr) 8) tg t (q, b) (binder_dequeue_work (CompleteWork c) s4))"
    unfolding x_def
    by (rule send_plain_call [OF inv p(1,2,3,4) c(1) tr(1,2) env(3,4) tg_def refl f_def b(1) [unfolded al(1)] b(2)])
  note bd = call_built_def txn_refs_taken_def set_alloc_def upd_proc_def upd_node_def
  obtain s5 where s5: "deliver thread t c q tg False (q, b) ?s4 = Some (True, s5)" "call_queued thread t c q ?s4 s5" "node_at s5 = node_at ?s4"
    "same_core ?s4 s5" "txn_live s5 = txn_live ?s4" "txn_at s5 t = x\<lparr>need_reply := True, from_parent := None\<rparr>"
    "p_alloc (proc_at s5 q) = al2" "\<not> p_is_dead (proc_at s5 q)"
    using deliver_call [of ?s4 t q b c n tg thread] b(8,9) c(2) tr(1) p(3)
    by (auto simp: bd x_def new_txn_fields_def oneway_def td_one_way_def buf_at_def f_def taken_buffer_def tg_def no_target_def)
  obtain r where r: "r \<in> set (n_refs (node_at s n))" "node_live s n" by (rule callable_ref [OF inv p(2) c(1)])
  have n0: "0 \<le> tmp_refs (node_at s n)" using inv_butD(2) [OF inv r(2)] by (simp add: node_ok_def Let_def)
  let ?s' = "upd_node n (\<lambda>nd. nd\<lparr>tmp_refs := tmp_refs nd - 1\<rparr>) (upd_proc q (\<lambda>pr. pr\<lparr>p_tmp_ref := p_tmp_ref pr - 1\<rparr>) s5)"
  have n5: "node_at s5 n = (node_at s n)\<lparr>local_strong_refs := local_strong_refs (node_at s n) + 1, tmp_refs := tmp_refs (node_at s n) + 1\<rparr>"
    "\<And>m. m \<noteq> n \<Longrightarrow> node_at s5 m = node_at s m" by (auto simp: s5(3) bd)
  have fin: "binder_transaction_fn rb env thread tr False 0 s = Some ?s'"
    unfolding run s5(1) option.case prod.case bool.case
    by (rule send_done [OF tg_def s5(8)]) (use r(1) n0 in \<open>auto simp: n5\<close>)
  have core4: "same_core s ?s4" by (auto simp: same_core_def bd)
  have core: "same_core s ?s'"
    using same_core_trans [OF core4 s5(4)] unfolding same_core_def by (auto simp: upd_node_def upd_proc_def)
  have wp: "(wpos s)(TxnWork t := None, CompleteWork c := None) = wpos s" using env(5,6) by auto
  have "call_list q ?s4 = call_list q s" by (simp add: call_list_def bd)
  then have q: "call_queued thread t c q s ?s'"
    using s5(2) wp unfolding call_queued_def by (auto simp: bd)
  have inv': "binder_inv ?s'"
    by (rule inv_same_core [OF inv core work_ok_call [OF inv_butD(1) [OF inv] q core env(5,6)]])
      (use q in \<open>auto simp: call_queued_def n5\<close>)
  have h: "handles ?s' q' = handles s q'" if "proc_live s q'" for q'
    by (rule handles_same_refs [OF inv inv' same_coreD(2,3) [OF core] same_core_procs [OF core] that])
  have F: "p_alloc (proc_at ?s' q) = al2" "txn_live ?s' t" "txn_at ?s' t = x\<lparr>need_reply := True, from_parent := None\<rparr>"
    "buf_at ?s' (q, b) = f (taken_buffer (bufs al b) (td_data_size tr) 0 0 False)"
    using s5(5-7) b(8,9) by (simp_all add: buf_at_def upd_node_def upd_proc_def) (simp add: bd)
  have G: "x_from x = Some thread" "to_proc x = Some q" "x_code x = td_code tr" "sender_euid x = task_euid env" "x_buffer x = Some (q, b)"
    using tr(1) by (simp_all add: x_def new_txn_fields_def tg_def no_target_def)
  show ?thesis
    using fin inv' q h F G b(3-7) n5(1) by (intro exI [of _ b] exI [of _ ?s']) (simp add: f_def taken_buffer_def)
qed

text \<open>Process 2 has mapped its space; thread 7 of process 3 calls its node through handle 1 with four bytes.\<close>

definition call_state :: bstate where
  "call_state = upd_proc 2 (\<lambda>pr. pr\<lparr>p_alloc := demo_space\<rparr>) sample_state"

definition call_env :: send_env where
  "call_env = \<lparr>user_bytes = (\<lambda>_. [1, 2, 3, 4]), new_txn = Some 20, new_complete = Some 21, buf_env = demo_env 6,
     close_env = \<lparr>same_task = True, kz_twcb = (\<lambda>_. True), file_close_fd = (\<lambda>_. None)\<rparr>,
     obj_env = (\<lambda>_. \<lparr>new_node = None, new_ref = None, others = id, forbid_binder = (\<lambda>_ _. False), fget = (\<lambda>_. None),
       forbid_file = (\<lambda>_ _ _. False), new_fixup = (\<lambda>_. True)\<rparr>), forbid_transaction = (\<lambda>_ _. False), before_acq = id, task_euid = 10, task_nice = 0\<rparr>"

definition call_data :: binder_transaction_data where
  "call_data = \<lparr>td_handle = 1, td_code = 7, td_flags = 0, td_data_size = 4, td_offsets_size = 0, td_buffer = 0x1000, td_offsets = 0\<rparr>"

lemma call_state_facts:
  "binder_inv call_state" "t_proc (thread_at call_state 7) = 3" "proc_live call_state 3" "transaction_stack (thread_at call_state 7) = None"
  "wlist call_state l = []" "wpos call_state w = None" "callable call_env 3 1 4 2 call_state" "p_alloc (proc_at call_state 2) = demo_space"
  "\<not> p_is_dead (proc_at call_state 2)" "return_error_cmd (thread_at call_state 7) = 0" "waiting_threads (proc_at call_state 2) = []"
proof -
  have core: "same_core sample_state call_state" by (simp add: same_core_def call_state_def)
  show inv: "binder_inv call_state"
    by (rule inv_same_core [OF sample_inv core]) (use inv_butD(1) [OF sample_inv] in \<open>simp_all add: call_state_def work_ok_def\<close>)
  show "t_proc (thread_at call_state 7) = 3" "proc_live call_state 3" "transaction_stack (thread_at call_state 7) = None"
    "wlist call_state l = []" "wpos call_state w = None" "p_alloc (proc_at call_state 2) = demo_space" "\<not> p_is_dead (proc_at call_state 2)"
    "return_error_cmd (thread_at call_state 7) = 0" "waiting_threads (proc_at call_state 2) = []"
    by (simp_all add: call_state_def sample_defs upd_proc_def)
  have "handles call_state 3 1 = Some (4, 1, 0)"
    using handles_same_refs [OF sample_inv inv same_coreD(2,3) [OF core] same_core_procs [OF core], of 3] sample_handles sample_live(2) by simp
  moreover have "n_proc (node_at call_state 4) = Some 2" by (simp add: call_state_def sample_defs)
  ultimately show "callable call_env 3 1 4 2 call_state" by (simp add: callable_def call_env_def)
qed

lemma call_fits: "request_fits 4 0 0 False demo_space"
proof -
  have "checked_size 4 0 0 = Some 8" by (simp add: checked_size_def sizeof_ptr_def ALIGN_def Let_def)
  then show ?thesis by (simp add: request_fits_def demo_space_facts sizeof_ptr_def sizeof_binder_buffer_def)
qed

theorem call_delivered_witness:
  "\<exists>b s'. binder_transaction_fn plain_rb call_env 7 call_data False 0 call_state = Some s' \<and> binder_inv s' \<and>
     wlist s' (ProcTodo 2) = [TxnWork 20] \<and> wlist s' (ThreadTodo 7) = [CompleteWork 21] \<and> x_buffer (txn_at s' 20) = Some (2, b) \<and>
     take 4 (contents (p_alloc (proc_at s' 2)) b) = [1, 2, 3, 4]"
proof -
  note S = call_state_facts and D = demo_space_facts
  have fr: "fresh_buf (demo_env 6) demo_space" by (rule demo_env_facts(2)) simp
  have sz: "unat (td_data_size call_data) = 4" by (simp add: call_data_def)
  have "\<exists>b s'. binder_transaction_fn plain_rb call_env 7 call_data False 0 call_state = Some s' \<and> binder_inv s' \<and>
     call_queued 7 20 21 2 call_state s' \<and> x_buffer (txn_at s' 20) = Some (2, b) \<and>
     take (unat (td_data_size call_data)) (contents (p_alloc (proc_at s' 2)) b) = take (unat (td_data_size call_data)) [1, 2, 3, 4]"
    using call_delivered [of plain_rb call_state 3 7 call_env call_data 4 2 demo_space 20 21] plain_rb_ok S D(3,4) demo_env_facts(1) fr call_fits
    by (force simp: call_env_def call_data_def todo_head_is_txn_def td_one_way_def)
  then show ?thesis unfolding sz by (auto simp: call_queued_def call_list_def S)
qed

section \<open>A call is refused\<close>

text \<open>The answer to a call that has no target.\<close>

definition owner_error :: "bstate \<Rightarrow> ptr \<Rightarrow> u32 option" where
  "owner_error s n = (if n_proc (node_at s n) = None then Some BR_DEAD_REPLY else None)"

definition call_error :: "bstate \<Rightarrow> ptr \<Rightarrow> u32 \<Rightarrow> u32 option" where
  "call_error s p h =
     (if h = 0 then (case context_mgr_of s p of None \<Rightarrow> Some BR_DEAD_REPLY | Some n \<Rightarrow> owner_error s n)
      else case handles s p h of None \<Rightarrow> Some BR_FAILED_REPLY
        | Some (n, st, wk) \<Rightarrow> if st = 0 then Some BR_FAILED_REPLY else owner_error s n)"

lemma lookup_refused:
  assumes inv: "binder_inv s" and p: "proc_live s p" and e: "call_error s p h = Some e"
  shows "lookup_target p h s = Some (Inl e, s)"
proof -
  have dead: "node_for_txn n s = Some (Inl e, s)" if "owner_error s n = Some e" for n
    using that by (auto simp: owner_error_def node_for_txn_def binder_get_node_refs_for_txn_def split: if_splits)
  show ?thesis
  proof (cases "h = 0")
    case True
    then show ?thesis using e dead by (auto simp: lookup_target_def call_error_def split: option.splits)
  next
    case h: False
    show ?thesis
    proof (cases "binder_get_ref_olocked p h True s")
      case None
      then have "e = BR_FAILED_REPLY"
        using e h get_ref_olocked_None [OF inv p, of h True] by (auto simp: call_error_def split: option.splits)
      then show ?thesis using None h by (simp add: lookup_target_def)
    next
      case (Some r)
      note g = get_ref_olocked [OF inv p Some]
      obtain n where n: "r_node (ref_at s r) = Some n" using ref_view_live [OF inv g(1)] by blast
      then have "owner_error s n = Some e" using e h g(4,5) by (simp add: call_error_def ref_view_def)
      then show ?thesis using Some n h dead by (simp add: lookup_target_def)
    qed
  qed
qed

text \<open>
  A call through a handle that the sender does not have or holds only weakly fails, one to a node whose owner is gone,
  or to a context without manager, is answered with a dead reply; either way the driver never faults and the only trace is
  the next id and the error on the list of the sender.
\<close>

theorem call_refused:
  assumes "binder_inv s" "p = t_proc (thread_at s thread)" "proc_live s p" "return_error_cmd (thread_at s thread) = BR_OK"
    and "wpos s (ReturnErrorWork thread) = None" "call_error s p (td_handle tr) = Some e"
  shows "binder_transaction_fn rb env thread tr False extra s =
    Some (upd_thread thread (\<lambda>th. th\<lparr>return_error_cmd := e, process_todo := True\<rparr>)
      (enqueued (ReturnErrorWork thread) (ThreadTodo thread) (s\<lparr>last_id := last_id s + 1\<rparr>)))"
proof -
  let ?s0 = "s\<lparr>last_id := last_id s + 1\<rparr>"
  have "call_error ?s0 p (td_handle tr) = Some e"
    using assms(6) by (auto simp: call_error_def owner_error_def next_id(2) context_mgr_of_def split: option.splits if_splits)
  from lookup_refused [OF next_id(1) [OF assms(1)] _ this] have "call_target env thread tr ?s0 = Some (Inl e, no_target, ?s0)"
    using assms(2,3) by (simp add: call_target_def)
  then show ?thesis
    unfolding binder_transaction_fn_def Let_def using assms(4,5)
    by (simp add: send_failed_def put_target_def no_target_def binder_enqueue_thread_work_def binder_enqueue_thread_work_ilocked_def
        binder_enqueue_work_ilocked_def upd_thread_def enqueued_def)
qed

theorem call_refused_witness:
  "binder_transaction_fn plain_rb call_env 7 (call_data\<lparr>td_handle := 9\<rparr>) False 0
     (upd_thread 7 (\<lambda>th. th\<lparr>return_error_cmd := BR_OK\<rparr>) call_state) =
   Some (upd_thread 7 (\<lambda>th. th\<lparr>return_error_cmd := BR_FAILED_REPLY, process_todo := True\<rparr>)
     (enqueued (ReturnErrorWork 7) (ThreadTodo 7)
       ((upd_thread 7 (\<lambda>th. th\<lparr>return_error_cmd := BR_OK\<rparr>) call_state)\<lparr>last_id := 3\<rparr>)))"
proof -
  let ?s = "upd_thread 7 (\<lambda>th. th\<lparr>return_error_cmd := BR_OK\<rparr>) call_state"
  have core: "same_core call_state ?s" by (simp add: same_core_def upd_thread_def)
  have inv: "binder_inv ?s"
    by (rule inv_same_core [OF call_state_facts(1) core]) (use inv_butD(1) [OF call_state_facts(1)] in \<open>simp_all add: upd_thread_def work_ok_def\<close>)
  have "handles ?s 3 9 = None" by (simp add: handles_def upd_thread_def call_state_def sample_defs ref_desc_def)
  then have e: "call_error ?s 3 (td_handle (call_data\<lparr>td_handle := 9\<rparr>)) = Some BR_FAILED_REPLY" by (simp add: call_error_def call_data_def)
  have "last_id ?s = 2" by (simp add: upd_thread_def call_state_def sample_state_def upd_proc_def)
  with call_refused [OF inv, of 3 7 "call_data\<lparr>td_handle := 9\<rparr>" BR_FAILED_REPLY plain_rb call_env 0, OF _ _ _ _ e] show ?thesis
    using call_state_facts(2,3,6) by (simp add: upd_thread_def)
qed

end
