(* ===== verification/Binder_File_Props.thy ===== *)
theory Binder_File_Props
  imports Binder_Ioctl Binder_Sample Binder_Alloc_Props
begin

text \<open>
  The properties of a binder file: what mapping it gives user space, and with which rights.
\<close>

unbundle bit_operations_syntax

lemma mmap_flags:
  fixes vm_flags :: u64 and since :: bool
  assumes "vm_flags AND FORBIDDEN_MMAP_FLAGS = 0"
  defines "f \<equiv> binder_vm_flags_clear since VM_MAYWRITE (binder_vm_flags_set since (VM_DONTCOPY OR VM_MIXEDMAP) vm_flags)"
  shows "f AND VM_WRITE = 0" "since \<Longrightarrow> f AND VM_MAYWRITE = 0 \<and> f AND VM_DONTCOPY = VM_DONTCOPY" "\<not> since \<Longrightarrow> f = vm_flags"
proof -
  note defs = f_def binder_vm_flags_clear_def binder_vm_flags_set_def FORBIDDEN_MMAP_FLAGS_def VM_WRITE_def VM_MAYWRITE_def VM_DONTCOPY_def
    VM_MIXEDMAP_def
  have w: "vm_flags AND 2 = 0" using assms(1) by (simp add: defs)
  have "((vm_flags OR m) AND NOT k) AND 2 = ((vm_flags AND 2) OR (m AND 2)) AND NOT k" for m k :: u64
    by (simp add: bit.conj_disj_distrib2 and.assoc and.commute [of "NOT k"])
  from this [of "VM_DONTCOPY OR VM_MIXEDMAP" VM_MAYWRITE] show "f AND VM_WRITE = 0" using w by (simp add: defs)
  have clear: "(x AND NOT k) AND k = 0" for x k :: u64 by (simp add: and.assoc)
  have keep: "((vm_flags OR m) AND NOT k) AND d = d" if "m AND d = d" "k AND d = 0" for m k d :: u64
    using that by (auto simp: bit_eq_iff bit_simps)
  show "since \<Longrightarrow> f AND VM_MAYWRITE = 0 \<and> f AND VM_DONTCOPY = VM_DONTCOPY"
    using clear [of "vm_flags OR (VM_DONTCOPY OR VM_MIXEDMAP)" VM_MAYWRITE] keep [of "VM_DONTCOPY OR VM_MIXEDMAP" VM_DONTCOPY VM_MAYWRITE]
    by (simp add: defs)
  show "\<not> since \<Longrightarrow> f = vm_flags" by (simp add: defs)
qed

text \<open>
  C26. Mapping a binder file never faults and keeps the allocator of every process consistent. It succeeds only for the
  process that opened the file, only once, and never with write access; from kernel 6.3 on the mapping cannot be made
  writable later and is not copied by \<open>fork\<close>, before that its flags stay as user space chose them.
\<close>

theorem binder_mmap_read_only:
  assumes "rb_ok rb" "alloc_state_inv (p_alloc (proc_at s p))" "vm_area_ok w"
  shows "\<exists>r f s'. binder_mmap rb since own_task pages_ok new w vm_flags p s = Some (r, f, s') \<and>
    alloc_state_inv (p_alloc (proc_at s' p)) \<and> (\<forall>q. q \<noteq> p \<longrightarrow> proc_at s' q = proc_at s q) \<and>
    (r = Inr () \<longrightarrow> own_task \<and> unmapped (p_alloc (proc_at s p)) \<and> space_inv (p_alloc (proc_at s' p)) \<and>
       vma (p_alloc (proc_at s' p)) = Some (bvm_addr w) \<and> f AND VM_WRITE = 0 \<and>
       (if since then f AND VM_MAYWRITE = 0 \<and> f AND VM_DONTCOPY = VM_DONTCOPY else f = vm_flags))"
proof -
  let ?al = "p_alloc (proc_at s p)"
  have handler: "\<exists>r al'. binder_alloc_mmap_handler rb pages_ok new w ?al = Some (r, al') \<and> alloc_state_inv al' \<and>
      (r = Inr () \<longrightarrow> unmapped ?al \<and> space_inv al' \<and> vma al' = Some (bvm_addr w))"
  proof (cases "buffer_size ?al = 0")
    case True
    then have um: "unmapped ?al" using assms(2) space_inv_size by (auto simp: alloc_state_inv_def)
    show ?thesis
    proof (cases "pages_ok \<and> new \<noteq> None")
      case True
      then obtain b where "pages_ok" "new = Some b" by auto
      then have "binder_alloc_mmap_handler rb pages_ok new w ?al = Some (Inr (), mapped_alloc rb b w ?al)" using mmap_handler_maps [OF um] by simp
      then show ?thesis using mapped_alloc_inv [OF assms(1) um assms(3)] um by (simp add: alloc_state_inv_def mapped_alloc_def)
    next
      case False
      then show ?thesis
        using um by (cases pages_ok) (auto simp: binder_alloc_mmap_handler_def unmapped_def alloc_state_inv_def Let_def)
    qed
  qed (use assms(2) in \<open>simp add: binder_alloc_mmap_handler_def\<close>)
  then obtain r al' where h: "binder_alloc_mmap_handler rb pages_ok new w ?al = Some (r, al')" "alloc_state_inv al'"
    "r = Inr () \<longrightarrow> unmapped ?al \<and> space_inv al' \<and> vma al' = Some (bvm_addr w)" by blast
  show ?thesis
  proof (cases "own_task \<and> vm_flags AND FORBIDDEN_MMAP_FLAGS = 0")
    case True
    then show ?thesis using h mmap_flags [of vm_flags since] by (simp add: binder_mmap_def Let_def set_alloc_def)
  next
    case False
    then show ?thesis using assms(2) by (auto simp: binder_mmap_def)
  qed
qed

theorem binder_mmap_read_only_witness:
  "\<exists>f s'. binder_mmap plain_rb True True True (Some 5) demo_area 0x71 2 sample_state = Some (Inr (), f, s') \<and>
     space_inv (p_alloc (proc_at s' 2)) \<and> f AND VM_MAYWRITE = 0"
proof -
  have um: "unmapped (p_alloc (proc_at sample_state 2))" by (simp add: unmapped_def sample_state_def sample_proc_def sample_alloc_def)
  have "binder_mmap plain_rb True True True (Some 5) demo_area 0x71 2 sample_state = Some (Inr (),
      binder_vm_flags_clear True VM_MAYWRITE (binder_vm_flags_set True (VM_DONTCOPY OR VM_MIXEDMAP) 0x71),
      set_alloc 2 (mapped_alloc plain_rb 5 demo_area (p_alloc (proc_at sample_state 2))) sample_state)"
    by (simp add: binder_mmap_def mmap_handler_maps [OF um] Let_def FORBIDDEN_MMAP_FLAGS_def VM_WRITE_def)
  with binder_mmap_read_only [OF plain_rb_ok _ demo_space_facts(2), where s = sample_state and p = 2 and
      since = True and own_task = True and pages_ok = True and new = "Some 5" and vm_flags = "0x71"] show ?thesis
    using um by (auto simp: alloc_state_inv_def)
qed

end
