(* ===== verification/Vsoc.thy ===== *)
theory Vsoc
  imports Kernel_Bytes
begin

text \<open>
  The VSoC driver (\<open>ashmem/vsoc.c\<close>): regions of a shared memory window of the emulator, the files opened on them and
  the permissions that scope a file to a part of its region. \<open>v_mem\<close> gives the bytes of the kernel's address space from
  the start of the mapped window on; the window is its first \<open>shm_size\<close> bytes, and the layout descriptor and the table of
  regions are read from it at every use, as the code does. The outer \<open>option\<close> of a result is \<open>None\<close> when a \<open>NULL\<close> pointer
  is dereferenced, when the private data of a file of another driver is taken for that of this one, and, for the waits,
  when they never end.
\<close>

section \<open>Data\<close>

definition VSOC_REGION_FREE :: u32 where "VSOC_REGION_FREE = 0"
definition VSOC_REGION_WHOLE :: u32 where "VSOC_REGION_WHOLE = 0"
definition VSOC_DEVICE_NAME_SZ :: nat where "VSOC_DEVICE_NAME_SZ = 16"

record fd_scoped_permission =
  begin_offset :: u32
  end_offset :: u32
  owner_offset :: u32
  owned_value :: u32

record vsoc_signal_table_layout =
  num_nodes_lg2 :: u32
  futex_uaddr_table_offset :: u32
  interrupt_signalled_offset :: u32

text \<open>The versions of a region, which the driver does not consult, are left out.\<close>

record vsoc_device_region =
  region_begin_offset :: u32
  region_end_offset :: u32
  offset_of_region_data :: u32
  guest_to_host_signal_table :: vsoc_signal_table_layout
  host_to_guest_signal_table :: vsoc_signal_table_layout
  device_name :: "u8 list"
  managed_by :: u32

definition sizeof_vsoc_device_region :: nat where "sizeof_vsoc_device_region = 60"

definition to_signal_table :: "u8 list \<Rightarrow> vsoc_signal_table_layout" where
  "to_signal_table bs =
     \<lparr>num_nodes_lg2 = get_u32 0 bs, futex_uaddr_table_offset = get_u32 4 bs, interrupt_signalled_offset = get_u32 8 bs\<rparr>"

definition to_region :: "u8 list \<Rightarrow> vsoc_device_region" where
  "to_region bs =
     \<lparr>region_begin_offset = get_u32 4 bs, region_end_offset = get_u32 8 bs, offset_of_region_data = get_u32 12 bs,
      guest_to_host_signal_table = to_signal_table (drop 16 bs), host_to_guest_signal_table = to_signal_table (drop 28 bs),
      device_name = take VSOC_DEVICE_NAME_SZ (drop 40 bs), managed_by = get_u32 56 bs\<rparr>"

definition to_permission :: "u8 list \<Rightarrow> fd_scoped_permission" where
  "to_permission bs =
     \<lparr>begin_offset = get_u32 0 bs, end_offset = get_u32 4 bs, owner_offset = get_u32 8 bs, owned_value = get_u32 12 bs\<rparr>"

definition permission_bytes :: "fd_scoped_permission \<Rightarrow> u8 list" where
  "permission_bytes p =
     word_bytes 4 (begin_offset p) @ word_bytes 4 (end_offset p) @ word_bytes 4 (owner_offset p) @ word_bytes 4 (owned_value p)"

text \<open>
  \<open>f_private\<close> is \<open>private_data\<close>: \<open>None\<close> when it is \<open>NULL\<close>, otherwise the permission node of the private data.
  \<open>f_vsoc\<close> tells whether the file is one of this driver.
\<close>

record vsoc_file =
  f_vsoc :: bool
  f_minor :: u32
  f_private :: "ptr option option"
  vf_pos :: u64

record vsoc_region_data =
  rd_name :: "u8 list"
  incoming_signalled :: nat
  outgoing_signalled :: nat
  irq_requested :: bool
  device_created :: bool

datatype vsoc_queue = InterruptQueue | FutexQueue

record vsoc_vma =
  vv_start :: u64
  vv_end :: u64
  vv_pgoff :: u64

text \<open>
  What the kernel holds for the driver. An interrupt is registered with its vector and the region whose data it passes to
  the handler (\<open>None\<close> is \<open>NULL\<close>).
\<close>

record pci_state =
  pci_enabled :: bool
  pci_regions :: bool
  pci_regs :: bool
  pci_shm :: bool
  pci_chrdev :: bool
  pci_cdev :: bool
  pci_class :: bool
  pci_msix :: bool
  pci_irqs :: "(u32 \<times> u32 option) list"
  pci_devices :: "u32 list"

text \<open>
  The device, and with it the state the driver shares: the permission nodes, the files, the values written to the doorbell
  register, the wake-ups of the queues and the physical ranges mapped into processes. Pointers of which only the presence
  matters are booleans, \<open>regions\<close> is an address in \<open>v_mem\<close> and \<open>msix_entries\<close> the list of the interrupt vectors.
\<close>

record vsoc_device =
  v_regs :: bool
  shm_phys_start :: u64
  kernel_mapped_shm :: bool
  shm_size :: u64
  layout :: bool
  regions :: "nat option"
  permissions :: "ptr list"
  v_dev :: bool
  regions_data :: "vsoc_region_data list option"
  msix_entries :: "u32 list option"
  v_major :: u32
  enabled_device :: bool
  requested_regions :: bool
  cdev_added :: bool
  class_added :: bool
  msix_enabled :: bool
  pci :: pci_state
  v_mem :: "nat \<Rightarrow> u8"
  v_nodes :: "ptr \<Rightarrow> fd_scoped_permission"
  v_files :: "ptr \<Rightarrow> vsoc_file"
  doorbell :: "u32 list"
  v_wakes :: "(u32 \<times> vsoc_queue) list"
  v_maps :: "(u64 \<times> u64 \<times> u64) list"

section \<open>Memory\<close>

definition mem_read :: "(nat \<Rightarrow> u8) \<Rightarrow> nat \<Rightarrow> nat \<Rightarrow> u8 list" where
  "mem_read m a n = map m [a..<a + n]"

definition mem_write :: "nat \<Rightarrow> u8 list \<Rightarrow> (nat \<Rightarrow> u8) \<Rightarrow> nat \<Rightarrow> u8" where
  "mem_write a bs m = (\<lambda>i. if a \<le> i \<and> i < a + length bs then bs ! (i - a) else m i)"

definition mem_u32 :: "(nat \<Rightarrow> u8) \<Rightarrow> nat \<Rightarrow> u32" where
  "mem_u32 m a = get_u32 0 (mem_read m a 4)"

definition set_mem_u32 :: "nat \<Rightarrow> u32 \<Rightarrow> vsoc_device \<Rightarrow> vsoc_device" where
  "set_mem_u32 a v d = d\<lparr>v_mem := mem_write a (word_bytes 4 v) (v_mem d)\<rparr>"

definition set_file :: "ptr \<Rightarrow> vsoc_file \<Rightarrow> vsoc_device \<Rightarrow> vsoc_device" where
  "set_file f x d = d\<lparr>v_files := (v_files d)(f := x)\<rparr>"

text \<open>Fields of the layout descriptor at the start of the window.\<close>

definition region_count :: "vsoc_device \<Rightarrow> u32" where
  "region_count d = mem_u32 (v_mem d) 8"

definition region_from :: "(nat \<Rightarrow> u8) \<Rightarrow> nat \<Rightarrow> u32 \<Rightarrow> vsoc_device_region" where
  "region_from m base i = to_region (mem_read m (base + sizeof_vsoc_device_region * unat i) sizeof_vsoc_device_region)"

definition vsoc_region :: "vsoc_device \<Rightarrow> u32 \<Rightarrow> vsoc_device_region" where
  "vsoc_region d i = region_from (v_mem d) (case regions d of None \<Rightarrow> 0 | Some base \<Rightarrow> base) i"

definition shm_off_to_virtual_addr :: "u32 \<Rightarrow> nat" where
  "shm_off_to_virtual_addr offset = unat offset"

definition shm_off_to_phys_addr :: "vsoc_device \<Rightarrow> u32 \<Rightarrow> u64" where
  "shm_off_to_phys_addr d offset = shm_phys_start d + ucast offset"

definition vsoc_device_region_size :: "vsoc_device_region \<Rightarrow> u32" where
  "vsoc_device_region_size r = region_end_offset r - region_begin_offset r"

section \<open>Validation\<close>

definition vsoc_validate_inode :: "vsoc_device \<Rightarrow> u32 \<Rightarrow> unit result option" where
  "vsoc_validate_inode d minor =
     (if \<not> layout d then None else if minor \<ge> region_count d then Some (Inl ENODEV) else Some (Inr ()))"

definition vsoc_validate_filep :: "vsoc_device \<Rightarrow> ptr \<Rightarrow> unit result option" where
  "vsoc_validate_filep d filp =
     (case vsoc_validate_inode d (f_minor (v_files d filp)) of None \<Rightarrow> None
      | Some (Inl e) \<Rightarrow> Some (Inl e)
      | Some (Inr _) \<Rightarrow> if f_private (v_files d filp) = None then Some (Inl EBADFD) else Some (Inr ()))"

text \<open>
  The permission node of a file. That of a file of another driver, or without private data, is not defined;
  \<open>regions\<close> is \<open>NULL\<close> only without a device.
\<close>

definition private_node :: "vsoc_device \<Rightarrow> ptr \<Rightarrow> ptr option option" where
  "private_node d filp = (if f_vsoc (v_files d filp) \<and> regions d \<noteq> None then f_private (v_files d filp) else None)"

section \<open>Permissions\<close>

definition PAGE_ALIGNED :: "u32 \<Rightarrow> bool" where
  "PAGE_ALIGNED a \<longleftrightarrow> a AND 0xFFF = 0"

text \<open>The checks on a proposed permission, for the region of the caller and the one of the managed file.\<close>

definition check_permission :: "vsoc_device_region \<Rightarrow> vsoc_device_region \<Rightarrow> fd_scoped_permission \<Rightarrow> unit result" where
  "check_permission owner managed p =
     (if begin_offset p \<ge> end_offset p then Inl EINVAL
      else if end_offset p > vsoc_device_region_size managed then Inl ERANGE
      else if begin_offset p < offset_of_region_data managed then Inl ERANGE
      else if \<not> PAGE_ALIGNED (begin_offset p) \<or> \<not> PAGE_ALIGNED (end_offset p) then Inl EINVAL
      else if owner_offset p AND 3 \<noteq> 0 then Inl EINVAL
      else if ucast (owner_offset p) + (4 :: u64) > ucast (vsoc_device_region_size owner) then Inl ERANGE
      else if owner_offset p < offset_of_region_data owner then Inl EINVAL
      else if owned_value p = VSOC_REGION_FREE then Inl EINVAL
      else Inr ())"

text \<open>The file position, moved into the coordinates of the new permission.\<close>

definition adjust_pos :: "fd_scoped_permission \<Rightarrow> u64 \<Rightarrow> u64" where
  "adjust_pos p pos =
     (if pos = 0 then pos
      else if sint pos > int (unat (end_offset p)) then ucast (end_offset p)
      else if sint pos < int (unat (begin_offset p)) then 0
      else pos - ucast (begin_offset p))"

definition owner_addr :: "vsoc_device_region \<Rightarrow> fd_scoped_permission \<Rightarrow> nat" where
  "owner_addr owner p = shm_off_to_virtual_addr (region_begin_offset owner + owner_offset p)"

text \<open>\<open>fdget\<close> is the file table of the calling process, \<open>user\<close> its memory.\<close>

definition do_create_fd_scoped_permission ::
    "(u32 \<Rightarrow> ptr option) \<Rightarrow> (u64 \<Rightarrow> u8 list) \<Rightarrow> u32 \<Rightarrow> ptr \<Rightarrow> u64 \<Rightarrow> vsoc_device \<Rightarrow> (unit result \<times> vsoc_device) option" where
  "do_create_fd_scoped_permission fdget user reg_num np arg d =
     (case (copy_from_user user arg 16, get_user_u32 user (arg + 16)) of
        (Some bs, Some fd) \<Rightarrow>
          (let p = to_permission bs; d1 = d\<lparr>v_nodes := (v_nodes d)(np := p)\<rparr> in
           case fdget fd of None \<Rightarrow> Some (Inl EPERM, d1)
           | Some f \<Rightarrow>
               (case vsoc_validate_filep d1 f of None \<Rightarrow> None
                | Some (Inl _) \<Rightarrow> Some (Inl EPERM, d1)
                | Some (Inr _) \<Rightarrow>
                    (case private_node d1 f of None \<Rightarrow> None
                     | Some (Some _) \<Rightarrow> Some (Inl EEXIST, d1)
                     | Some None \<Rightarrow>
                         (let owner = vsoc_region d1 reg_num; managed = vsoc_region d1 (f_minor (v_files d1 f)) in
                          if managed_by managed \<noteq> reg_num then Some (Inl EPERM, d1)
                          else case check_permission owner managed p of Inl e \<Rightarrow> Some (Inl e, d1)
                          | Inr _ \<Rightarrow>
                              if mem_u32 (v_mem d1) (owner_addr owner p) \<noteq> VSOC_REGION_FREE then Some (Inl EBUSY, d1)
                              else Some (Inr (), set_file f ((v_files d1 f)\<lparr>f_private := Some (Some np),
                                                                           vf_pos := adjust_pos p (vf_pos (v_files d1 f))\<rparr>)
                                                   (set_mem_u32 (owner_addr owner p) (owned_value p) d1))))))
      | _ \<Rightarrow> Some (Inl EFAULT, d))"

definition do_destroy_fd_scoped_permission :: "vsoc_device_region \<Rightarrow> fd_scoped_permission \<Rightarrow> vsoc_device \<Rightarrow> vsoc_device" where
  "do_destroy_fd_scoped_permission owner p d = set_mem_u32 (owner_addr owner p) VSOC_REGION_FREE d"

definition do_destroy_fd_scoped_permission_node :: "vsoc_device_region \<Rightarrow> ptr \<Rightarrow> vsoc_device \<Rightarrow> vsoc_device" where
  "do_destroy_fd_scoped_permission_node owner np d =
     (let d1 = do_destroy_fd_scoped_permission owner (v_nodes d np) d in d1\<lparr>permissions := list_del np (permissions d1)\<rparr>)"

section \<open>Opening and releasing files\<close>

text \<open>\<open>mem_ok\<close> tells whether the private data could be allocated.\<close>

definition vsoc_open :: "bool \<Rightarrow> ptr \<Rightarrow> vsoc_device \<Rightarrow> (unit result \<times> vsoc_device) option" where
  "vsoc_open mem_ok filp d =
     (case vsoc_validate_inode d (f_minor (v_files d filp)) of None \<Rightarrow> None
      | Some (Inl e) \<Rightarrow> Some (Inl e, d)
      | Some (Inr _) \<Rightarrow>
          if mem_ok then Some (Inr (), set_file filp ((v_files d filp)\<lparr>f_private := Some None\<rparr>) d)
          else Some (Inl ENOMEM, set_file filp ((v_files d filp)\<lparr>f_private := None\<rparr>) d))"

definition vsoc_release :: "ptr \<Rightarrow> vsoc_device \<Rightarrow> (unit result \<times> vsoc_device) option" where
  "vsoc_release filp d =
     (case vsoc_validate_filep d filp of None \<Rightarrow> None
      | Some (Inl e) \<Rightarrow> Some (Inl e, d)
      | Some (Inr _) \<Rightarrow>
          (case private_node d filp of None \<Rightarrow> None
           | Some node \<Rightarrow>
               (let own = vsoc_region d (f_minor (v_files d filp));
                    owner = (if managed_by own \<noteq> VSOC_REGION_WHOLE then vsoc_region d (managed_by own) else own);
                    d1 = (case node of None \<Rightarrow> d | Some np \<Rightarrow> do_destroy_fd_scoped_permission_node owner np d)
                in Some (Inr (), set_file filp ((v_files d1 filp)\<lparr>f_private := None\<rparr>) d1))))"

section \<open>The area of a file\<close>

text \<open>Offset in the window and length, a non-negative \<open>ssize_t\<close>.\<close>

definition vsoc_get_area :: "vsoc_device \<Rightarrow> ptr \<Rightarrow> (u32 \<times> u64) option" where
  "vsoc_get_area d filp =
     (case private_node d filp of None \<Rightarrow> None
      | Some node \<Rightarrow>
          (let r = vsoc_region d (f_minor (v_files d filp)) in
           case node of
             Some np \<Rightarrow> (let p = v_nodes d np in Some (region_begin_offset r + begin_offset p, ucast (end_offset p - begin_offset p)))
           | None \<Rightarrow>
               Some (region_begin_offset r, if managed_by r = VSOC_REGION_WHOLE then ucast (vsoc_device_region_size r) else 0)))"

section \<open>Reading, writing, seeking and mapping\<close>

text \<open>
  Reading gives the bytes copied to user memory, \<open>ok\<close> tells whether that succeeds. Both return the number of bytes and
  move the position.
\<close>

definition vsoc_read :: "bool \<Rightarrow> ptr \<Rightarrow> u64 \<Rightarrow> u64 \<Rightarrow> vsoc_device \<Rightarrow> (u64 result \<times> u8 list \<times> u64) option" where
  "vsoc_read ok filp len pos d =
     (case vsoc_validate_filep d filp of None \<Rightarrow> None
      | Some (Inl e) \<Rightarrow> Some (Inl e, [], pos)
      | Some (Inr _) \<Rightarrow>
          (case vsoc_get_area d filp of None \<Rightarrow> None
           | Some (area_off, area_len0) \<Rightarrow>
               (let area_len = area_len0 - pos in
                if sint area_len \<le> 0 then Some (Inr 0, [], pos)
                else (let n = (if area_len < len then area_len else len);
                          bs = mem_read (v_mem d) (shm_off_to_virtual_addr area_off + unat pos) (unat n)
                      in if ok then Some (Inr n, bs, pos + n) else Some (Inl EFAULT, [], pos)))))"

text \<open>When fewer bytes than wanted can be copied from user memory the rest of the destination is zeroed.\<close>

definition vsoc_write :: "(u64 \<Rightarrow> u8 list) \<Rightarrow> ptr \<Rightarrow> u64 \<Rightarrow> u64 \<Rightarrow> u64 \<Rightarrow> vsoc_device \<Rightarrow> (u64 result \<times> u64 \<times> vsoc_device) option" where
  "vsoc_write user filp buf len pos d =
     (case vsoc_validate_filep d filp of None \<Rightarrow> None
      | Some (Inl e) \<Rightarrow> Some (Inl e, pos, d)
      | Some (Inr _) \<Rightarrow>
          (case vsoc_get_area d filp of None \<Rightarrow> None
           | Some (area_off, area_len0) \<Rightarrow>
               (let area_len = area_len0 - pos in
                if sint area_len \<le> 0 then Some (Inr 0, pos, d)
                else (let n = (if area_len < len then area_len else len);
                          got = take (unat n) (user buf);
                          d1 = d\<lparr>v_mem := mem_write (shm_off_to_virtual_addr area_off + unat pos)
                                            (got @ replicate (unat n - length got) 0) (v_mem d)\<rparr>
                      in if length got < unat n then Some (Inl EFAULT, pos, d1) else Some (Inr n, pos + n, d1)))))"

text \<open>The new position for an origin, before the final range check.\<close>

definition seek_to :: "u64 \<Rightarrow> u64 \<Rightarrow> u64 \<Rightarrow> nat \<Rightarrow> u64 result" where
  "seek_to area_len pos offset origin =
     (if origin = 0 then Inr offset
      else if origin = 1 then
        (if sint offset > 0 \<and> sint (offset + pos) < 0 then Inl EOVERFLOW else Inr (offset + pos))
      else if origin = 2 then
        (if sint offset > 0 \<and> sint (offset + area_len) < 0 then Inl EOVERFLOW else Inr (offset + area_len))
      else if origin = 3 then
        (if sint offset \<ge> sint area_len then Inl EINVAL else Inr (if sint offset < 0 then 0 else offset))
      else if origin = 4 then Inr (if sint offset < sint area_len then area_len else offset)
      else Inl EINVAL)"

definition vsoc_lseek :: "ptr \<Rightarrow> u64 \<Rightarrow> nat \<Rightarrow> vsoc_device \<Rightarrow> (u64 result \<times> vsoc_device) option" where
  "vsoc_lseek filp offset0 origin d =
     (case vsoc_validate_filep d filp of None \<Rightarrow> None
      | Some (Inl e) \<Rightarrow> Some (Inl e, d)
      | Some (Inr _) \<Rightarrow>
          (case vsoc_get_area d filp of None \<Rightarrow> None
           | Some (_, area_len) \<Rightarrow>
               (case seek_to area_len (vf_pos (v_files d filp)) offset0 origin of
                  Inl e \<Rightarrow> Some (Inl e, d)
                | Inr offset \<Rightarrow>
                    if sint offset < 0 \<or> sint offset > sint area_len then Some (Inl EINVAL, d)
                    else Some (Inr offset, set_file filp ((v_files d filp)\<lparr>vf_pos := offset\<rparr>) d))))"

text \<open>\<open>remap_ok\<close> tells whether the pages could be mapped; a mapping is recorded as user address, physical address, length.\<close>

definition vsoc_mmap :: "bool \<Rightarrow> ptr \<Rightarrow> vsoc_vma \<Rightarrow> vsoc_device \<Rightarrow> (unit result \<times> vsoc_device) option" where
  "vsoc_mmap remap_ok filp vma d =
     (case vsoc_validate_filep d filp of None \<Rightarrow> None
      | Some (Inl e) \<Rightarrow> Some (Inl e, d)
      | Some (Inr _) \<Rightarrow>
          (case vsoc_get_area d filp of None \<Rightarrow> None
           | Some (area_off0, area_len0) \<Rightarrow>
               (let len = vv_end vma - vv_start vma;
                    area_off = area_off0 + ucast (push_bit 12 (vv_pgoff vma));
                    area_len = area_len0 - push_bit 12 (vv_pgoff vma);
                    mem_off = shm_off_to_phys_addr d area_off
                in if area_len < len then Some (Inl EINVAL, d)
                   else if remap_ok
                   then Some (Inr (), d\<lparr>v_maps := (vv_start vma, push_bit 12 (drop_bit 12 mem_off), len) # v_maps d\<rparr>)
                   else Some (Inl EAGAIN, d))))"

end
