(* ===== verification/Vsoc_Ioctl.thy ===== *)
theory Vsoc_Ioctl
  imports Vsoc
begin

text \<open>
  The ioctls of the VSoC driver, with the waits and the interrupt handler. While a thread sleeps, others run: \<open>sched k d\<close>
  gives, for the \<open>k\<close>-th sleep, whether the timer ran out, whether a signal is pending, and the device afterwards.
\<close>

type_synonym vsoc_sched = "nat \<Rightarrow> vsoc_device \<Rightarrow> bool \<times> bool \<times> vsoc_device"

section \<open>Waiting for a word to change\<close>

definition VSOC_WAIT_IF_EQUAL :: u32 where "VSOC_WAIT_IF_EQUAL = 1"
definition VSOC_WAIT_IF_EQUAL_TIMEOUT :: u32 where "VSOC_WAIT_IF_EQUAL_TIMEOUT = 2"
definition NSEC_PER_SEC :: u32 where "NSEC_PER_SEC = 1000000000"

record vsoc_cond_wait =
  cw_offset :: u32
  cw_value :: u32
  wake_time_sec :: u64
  wake_time_nsec :: u32
  wait_type :: u32
  wakes :: u32
  reserved_1 :: u32

definition to_cond_wait :: "u8 list \<Rightarrow> vsoc_cond_wait" where
  "to_cond_wait bs =
     \<lparr>cw_offset = get_u32 0 bs, cw_value = get_u32 4 bs, wake_time_sec = get_u64 8 bs, wake_time_nsec = get_u32 16 bs,
      wait_type = get_u32 20 bs, wakes = get_u32 24 bs, reserved_1 = get_u32 28 bs\<rparr>"

definition cond_wait_bytes :: "vsoc_cond_wait \<Rightarrow> u8 list" where
  "cond_wait_bytes a =
     word_bytes 4 (cw_offset a) @ word_bytes 4 (cw_value a) @ word_bytes 8 (wake_time_sec a) @ word_bytes 4 (wake_time_nsec a) @
     word_bytes 4 (wait_type a) @ word_bytes 4 (wakes a) @ word_bytes 4 (reserved_1 a)"

text \<open>A word of the region, as \<open>COND_WAIT\<close> and \<open>COND_WAKE\<close> check it.\<close>

definition check_cond_offset :: "vsoc_device_region \<Rightarrow> u32 \<Rightarrow> unit result" where
  "check_cond_offset r offset =
     (if offset AND 3 \<noteq> 0 then Inl EADDRNOTAVAIL
      else if ucast offset + ucast (region_begin_offset r) + (4 :: u64) > ucast (region_end_offset r) then Inl E2BIG
      else Inr ())"

partial_function (option) cond_wait_loop ::
    "vsoc_sched \<Rightarrow> bool \<Rightarrow> nat \<Rightarrow> u32 \<Rightarrow> nat \<Rightarrow> u32 \<Rightarrow> vsoc_device \<Rightarrow> (unit result \<times> u32 \<times> vsoc_device) option" where
  "cond_wait_loop sched timed address val k n d =
     (if mem_u32 (v_mem d) address \<noteq> val then Some (Inr (), n, d)
      else case sched k d of (expired, signal, d1) \<Rightarrow>
        if timed \<and> expired then Some (Inl ETIMEDOUT, n, d1)
        else if signal then Some (Inl EINTR, n + 1, d1)
        else cond_wait_loop sched timed address val (Suc k) (n + 1) d1)"

definition handle_vsoc_cond_wait ::
    "vsoc_sched \<Rightarrow> u32 \<Rightarrow> vsoc_cond_wait \<Rightarrow> vsoc_device \<Rightarrow> (unit result \<times> u32 \<times> vsoc_device) option" where
  "handle_vsoc_cond_wait sched reg_num arg d =
     (if regions d = None then None
      else (let r = vsoc_region d reg_num in
        case check_cond_offset r (cw_offset arg) of Inl e \<Rightarrow> Some (Inl e, wakes arg, d)
        | Inr _ \<Rightarrow>
            if wait_type arg \<noteq> VSOC_WAIT_IF_EQUAL \<and> wait_type arg \<noteq> VSOC_WAIT_IF_EQUAL_TIMEOUT then Some (Inl EINVAL, wakes arg, d)
            else if wait_type arg = VSOC_WAIT_IF_EQUAL_TIMEOUT \<and> wake_time_nsec arg \<ge> NSEC_PER_SEC then Some (Inl EINVAL, wakes arg, d)
            else cond_wait_loop sched (wait_type arg = VSOC_WAIT_IF_EQUAL_TIMEOUT)
                   (shm_off_to_virtual_addr (region_begin_offset r + cw_offset arg)) (cw_value arg) 0 (wakes arg) d))"

text \<open>The result, the bytes written back to user memory and the device; \<open>ok\<close> tells whether writing them back succeeds.\<close>

definition do_vsoc_cond_wait ::
    "vsoc_sched \<Rightarrow> (u64 \<Rightarrow> u8 list) \<Rightarrow> bool \<Rightarrow> u32 \<Rightarrow> u64 \<Rightarrow> vsoc_device \<Rightarrow> (unit result \<times> u8 list \<times> vsoc_device) option" where
  "do_vsoc_cond_wait sched user ok reg_num untrusted_in d =
     (case copy_from_user user untrusted_in 32 of None \<Rightarrow> Some (Inl EFAULT, [], d)
      | Some bs \<Rightarrow>
          (let arg = (to_cond_wait bs)\<lparr>wakes := 0\<rparr> in
           case handle_vsoc_cond_wait sched reg_num arg d of None \<Rightarrow> None
           | Some (rval, n, d1) \<Rightarrow>
               if ok then Some (rval, cond_wait_bytes (arg\<lparr>wakes := n\<rparr>), d1) else Some (Inl EFAULT, [], d1)))"

definition do_vsoc_cond_wake :: "u32 \<Rightarrow> u32 \<Rightarrow> vsoc_device \<Rightarrow> (unit result \<times> vsoc_device) option" where
  "do_vsoc_cond_wake reg_num offset d =
     (if regions d = None then None
      else case check_cond_offset (vsoc_region d reg_num) offset of Inl e \<Rightarrow> Some (Inl e, d)
      | Inr _ \<Rightarrow> Some (Inr (), d\<lparr>v_wakes := (reg_num, FutexQueue) # v_wakes d\<rparr>))"

section \<open>Interrupts\<close>

partial_function (option) wait_incoming :: "vsoc_sched \<Rightarrow> nat \<Rightarrow> nat \<Rightarrow> vsoc_device \<Rightarrow> vsoc_device option" where
  "wait_incoming sched address k d =
     (if mem_u32 (v_mem d) address \<noteq> 0 then Some d
      else case sched k d of (_, signal, d1) \<Rightarrow> if signal then Some d1 else wait_incoming sched address (Suc k) d1)"

datatype irqreturn = IRQ_NONE | IRQ_HANDLED

text \<open>
  The argument of the handler is a pointer: its distance from \<open>regions_data\<close> in elements and whether it is exactly an
  element, or \<open>None\<close> for \<open>NULL\<close>.
\<close>

definition vsoc_interrupt :: "(int \<times> bool) option \<Rightarrow> vsoc_device \<Rightarrow> (irqreturn \<times> vsoc_device) option" where
  "vsoc_interrupt region_data d =
     (case region_data of None \<Rightarrow> Some (IRQ_NONE, d)
      | Some (reg_num, exact) \<Rightarrow>
          if reg_num < 0 then Some (IRQ_NONE, d)
          else if \<not> layout d then None
          else if word_of_int reg_num \<ge> region_count d then Some (IRQ_NONE, d)
          else if \<not> exact then Some (IRQ_NONE, d)
          else Some (IRQ_HANDLED, d\<lparr>v_wakes := (word_of_int reg_num, InterruptQueue) # v_wakes d\<rparr>))"

section \<open>The ioctl dispatcher\<close>

definition VSOC_CREATE_FD_SCOPED_PERMISSION :: u32 where "VSOC_CREATE_FD_SCOPED_PERMISSION = 0x4010F500"
definition VSOC_GET_FD_SCOPED_PERMISSION :: u32 where "VSOC_GET_FD_SCOPED_PERMISSION = 0x8010F501"
definition VSOC_MAYBE_SEND_INTERRUPT_TO_HOST :: u32 where "VSOC_MAYBE_SEND_INTERRUPT_TO_HOST = 0xF502"
definition VSOC_WAIT_FOR_INCOMING_INTERRUPT :: u32 where "VSOC_WAIT_FOR_INCOMING_INTERRUPT = 0xF503"
definition VSOC_DESCRIBE_REGION :: u32 where "VSOC_DESCRIBE_REGION = 0x803CF504"
definition VSOC_SELF_INTERRUPT :: u32 where "VSOC_SELF_INTERRUPT = 0xF505"
definition VSOC_SEND_INTERRUPT_TO_HOST :: u32 where "VSOC_SEND_INTERRUPT_TO_HOST = 0xF506"
definition VSOC_COND_WAIT :: u32 where "VSOC_COND_WAIT = 0xC020F507"
definition VSOC_COND_WAKE :: u32 where "VSOC_COND_WAKE = 0xF508"

lemmas vsoc_cmds = VSOC_CREATE_FD_SCOPED_PERMISSION_def VSOC_GET_FD_SCOPED_PERMISSION_def VSOC_MAYBE_SEND_INTERRUPT_TO_HOST_def
  VSOC_WAIT_FOR_INCOMING_INTERRUPT_def VSOC_DESCRIBE_REGION_def VSOC_SELF_INTERRUPT_def VSOC_SEND_INTERRUPT_TO_HOST_def
  VSOC_COND_WAIT_def VSOC_COND_WAKE_def

record vsoc_env =
  ve_fdget :: "u32 \<Rightarrow> ptr option"
  ve_user :: "u64 \<Rightarrow> u8 list"
  ve_copy_ok :: bool
  ve_node :: "ptr option"
  ve_sched :: vsoc_sched

text \<open>The region is described by the bytes of its descriptor in the window.\<close>

definition do_vsoc_describe_region :: "bool \<Rightarrow> ptr \<Rightarrow> vsoc_device \<Rightarrow> (unit result \<times> u8 list) option" where
  "do_vsoc_describe_region ok filp d =
     (case vsoc_validate_filep d filp of None \<Rightarrow> None
      | Some (Inl e) \<Rightarrow> Some (Inl e, [])
      | Some (Inr _) \<Rightarrow>
          (case regions d of None \<Rightarrow> None
           | Some base \<Rightarrow>
               if ok then Some (Inr (), mem_read (v_mem d) (base + sizeof_vsoc_device_region * unat (f_minor (v_files d filp)))
                                          sizeof_vsoc_device_region)
               else Some (Inl EFAULT, [])))"

definition create_permission_ioctl :: "vsoc_env \<Rightarrow> u32 \<Rightarrow> u64 \<Rightarrow> vsoc_device \<Rightarrow> (unit result \<times> vsoc_device) option" where
  "create_permission_ioctl env reg_num arg d =
     (case ve_node env of None \<Rightarrow> Some (Inl ENOMEM, d)
      | Some np \<Rightarrow>
          (case do_create_fd_scoped_permission (ve_fdget env) (ve_user env) reg_num np arg d of None \<Rightarrow> None
           | Some (Inl e, d1) \<Rightarrow> Some (Inl e, d1)
           | Some (Inr _, d1) \<Rightarrow> Some (Inr (), d1\<lparr>permissions := np # permissions d1\<rparr>)))"

text \<open>The result, the bytes written to the user address given as argument, and the device.\<close>

definition vsoc_ioctl :: "vsoc_env \<Rightarrow> ptr \<Rightarrow> u32 \<Rightarrow> u64 \<Rightarrow> vsoc_device \<Rightarrow> (unit result \<times> u8 list \<times> vsoc_device) option" where
  "vsoc_ioctl env filp cmd arg d =
     (case vsoc_validate_filep d filp of None \<Rightarrow> None
      | Some (Inl e) \<Rightarrow> Some (Inl e, [], d)
      | Some (Inr _) \<Rightarrow>
          (case (private_node d filp, regions_data d) of (Some node, Some rds) \<Rightarrow>
             (let reg_num = f_minor (v_files d filp); rd = rds ! unat reg_num in
              if cmd = VSOC_CREATE_FD_SCOPED_PERMISSION then
                map_option (\<lambda>(r, d1). (r, [], d1)) (create_permission_ioctl env reg_num arg d)
              else if cmd = VSOC_GET_FD_SCOPED_PERMISSION then
                (case node of None \<Rightarrow> Some (Inl ENOENT, [], d)
                 | Some np \<Rightarrow> if ve_copy_ok env then Some (Inr (), permission_bytes (v_nodes d np), d) else Some (Inl EFAULT, [], d))
              else if cmd = VSOC_MAYBE_SEND_INTERRUPT_TO_HOST then
                (let d1 = set_mem_u32 (outgoing_signalled rd) 1 d in
                 if mem_u32 (v_mem d) (outgoing_signalled rd) = 0 then Some (Inr (), [], d1\<lparr>doorbell := reg_num # doorbell d1\<rparr>)
                 else Some (Inl EBUSY, [], d1))
              else if cmd = VSOC_SEND_INTERRUPT_TO_HOST then Some (Inr (), [], d\<lparr>doorbell := reg_num # doorbell d\<rparr>)
              else if cmd = VSOC_WAIT_FOR_INCOMING_INTERRUPT then
                map_option (\<lambda>d1. (Inr (), [], d1)) (wait_incoming (ve_sched env) (incoming_signalled rd) 0 d)
              else if cmd = VSOC_DESCRIBE_REGION then
                map_option (\<lambda>(r, bs). (r, bs, d)) (do_vsoc_describe_region (ve_copy_ok env) filp d)
              else if cmd = VSOC_SELF_INTERRUPT then
                (let d1 = set_mem_u32 (incoming_signalled rd) 1 d
                 in Some (Inr (), [], d1\<lparr>v_wakes := (reg_num, InterruptQueue) # v_wakes d1\<rparr>))
              else if cmd = VSOC_COND_WAIT then
                do_vsoc_cond_wait (ve_sched env) (ve_user env) (ve_copy_ok env) reg_num arg d
              else if cmd = VSOC_COND_WAKE then
                map_option (\<lambda>(r, d1). (r, [], d1)) (do_vsoc_cond_wake reg_num (ucast arg) d)
              else Some (Inl EINVAL, [], d))
           | _ \<Rightarrow> None))"

end
