(* ===== verification/Vsoc_Probe.thy ===== *)
theory Vsoc_Probe
  imports Vsoc
begin

text \<open>
  Attaching the VSoC driver to its PCI device and removing it again. The record \<open>pci_state\<close> of the device keeps what the
  kernel holds for the driver; the answers of the kernel are the fields of \<open>probe_env\<close>. The outer \<open>option\<close> is \<open>None\<close> when the
  removal indexes past the end of the data of the regions, when the probe reads behind the end of the mapped window, and when
  MSI-X is disabled with a handler still registered on a kernel where that is a bug (\<open>strict\<close>), as the documentation of MSI says.
\<close>

section \<open>Removal\<close>

definition CURRENT_VSOC_LAYOUT_MAJOR_VERSION :: nat where "CURRENT_VSOC_LAYOUT_MAJOR_VERSION = 2"
definition MAX_REGISTER_BAR_LEN :: u64 where "MAX_REGISTER_BAR_LEN = 0x100"

definition upd_pci :: "(pci_state \<Rightarrow> pci_state) \<Rightarrow> vsoc_device \<Rightarrow> vsoc_device" where
  "upd_pci f d = d\<lparr>pci := f (pci d)\<rparr>"

text \<open>\<open>free_irq\<close> drops the handler that was registered for the vector with the same device id.\<close>

definition free_irq :: "u32 \<Rightarrow> u32 option \<Rightarrow> pci_state \<Rightarrow> pci_state" where
  "free_irq vector dev_id k = k\<lparr>pci_irqs := remove1 (vector, dev_id) (pci_irqs k)\<rparr>"

definition region_vector :: "vsoc_device \<Rightarrow> nat \<Rightarrow> u32" where
  "region_vector d i = (case msix_entries d of None \<Rightarrow> 0 | Some vs \<Rightarrow> vs ! i)"

definition remove_region :: "nat \<Rightarrow> vsoc_region_data list \<Rightarrow> vsoc_device \<Rightarrow> vsoc_device" where
  "remove_region i rds d =
     (let d1 = (if device_created (rds ! i) then upd_pci (\<lambda>k. k\<lparr>pci_devices := remove1 (of_nat i) (pci_devices k)\<rparr>) d else d)
      in if irq_requested (rds ! i) then upd_pci (free_irq (region_vector d i) None) d1 else d1)"

fun remove_regions :: "nat list \<Rightarrow> vsoc_region_data list \<Rightarrow> vsoc_device \<Rightarrow> vsoc_device option" where
  "remove_regions [] rds d = Some d"
| "remove_regions (i # is) rds d = (if i < length rds then remove_regions is rds (remove_region i rds d) else None)"

text \<open>After the data of the regions: interrupts, class, character device and the mappings, as far as they were set up.\<close>

definition drop_msix :: "vsoc_device \<Rightarrow> vsoc_device" where
  "drop_msix d = (if msix_enabled d then upd_pci (\<lambda>k. k\<lparr>pci_msix := False\<rparr>) (d\<lparr>msix_enabled := False\<rparr>) else d)"

definition drop_class :: "vsoc_device \<Rightarrow> vsoc_device" where
  "drop_class d = (if class_added d then upd_pci (\<lambda>k. k\<lparr>pci_class := False\<rparr>) (d\<lparr>class_added := False\<rparr>) else d)"

definition drop_cdev :: "vsoc_device \<Rightarrow> vsoc_device" where
  "drop_cdev d = (if cdev_added d then upd_pci (\<lambda>k. k\<lparr>pci_cdev := False\<rparr>) (d\<lparr>cdev_added := False\<rparr>) else d)"

definition drop_chrdev :: "vsoc_device \<Rightarrow> vsoc_device" where
  "drop_chrdev d = (if v_major d \<noteq> 0 \<and> layout d then upd_pci (\<lambda>k. k\<lparr>pci_chrdev := False\<rparr>) (d\<lparr>v_major := 0\<rparr>) else d)"

definition drop_shm :: "vsoc_device \<Rightarrow> vsoc_device" where
  "drop_shm d = (if kernel_mapped_shm d then upd_pci (\<lambda>k. k\<lparr>pci_shm := False\<rparr>) (d\<lparr>kernel_mapped_shm := False\<rparr>) else d)"

definition drop_regs :: "vsoc_device \<Rightarrow> vsoc_device" where
  "drop_regs d = (if v_regs d then upd_pci (\<lambda>k. k\<lparr>pci_regs := False\<rparr>) (d\<lparr>v_regs := False\<rparr>) else d)"

definition drop_regions :: "vsoc_device \<Rightarrow> vsoc_device" where
  "drop_regions d = (if requested_regions d then upd_pci (\<lambda>k. k\<lparr>pci_regions := False\<rparr>) (d\<lparr>requested_regions := False\<rparr>) else d)"

definition drop_device :: "vsoc_device \<Rightarrow> vsoc_device" where
  "drop_device d = (if enabled_device d then upd_pci (\<lambda>k. k\<lparr>pci_enabled := False\<rparr>) (d\<lparr>enabled_device := False\<rparr>) else d)"

definition msix_bug :: "bool \<Rightarrow> vsoc_device \<Rightarrow> bool" where
  "msix_bug strict d \<longleftrightarrow> strict \<and> msix_enabled d \<and> pci_irqs (pci d) \<noteq> []"

definition remove_rest :: "bool \<Rightarrow> vsoc_device \<Rightarrow> vsoc_device option" where
  "remove_rest strict d =
     (if msix_bug strict d then None
      else let d1 = (drop_msix d)\<lparr>msix_entries := None, regions := None\<rparr>;
               d2 = (drop_chrdev (drop_cdev (drop_class d1)))\<lparr>layout := False\<rparr>
           in Some ((drop_device (drop_regions (drop_regs (drop_shm d2))))\<lparr>v_dev := False\<rparr>))"

definition vsoc_remove_device :: "bool \<Rightarrow> vsoc_device \<Rightarrow> vsoc_device option" where
  "vsoc_remove_device strict d =
     (if \<not> v_dev d then Some d
      else case regions_data d of None \<Rightarrow> remove_rest strict d
      | Some rds \<Rightarrow>
          if \<not> layout d then None
          else case remove_regions [0..<unat (region_count d)] rds d of None \<Rightarrow> None
               | Some d1 \<Rightarrow> remove_rest strict (d1\<lparr>regions_data := None\<rparr>))"

section \<open>Probing\<close>

text \<open>
  \<open>device_create\<close> answers with the device, with an encoded error or with \<open>NULL\<close>; the code takes all but \<open>NULL\<close> for success.
\<close>

datatype device_ptr = Null_Device | Error_Device errno | New_Device

record probe_env =
  pe_enable :: "errno option"
  pe_request :: bool
  pe_reg_size :: u64
  pe_regs :: "u64 \<Rightarrow> bool"
  pe_shm_start :: u64
  pe_shm_len :: u64
  pe_shm :: bool
  pe_chrdev :: "u32 option"
  pe_cdev :: bool
  pe_class :: "errno option"
  pe_entries :: bool
  pe_data :: bool
  pe_msix :: "u32 list option"
  pe_irq :: "nat \<Rightarrow> bool"
  pe_device :: "nat \<Rightarrow> device_ptr"
  pe_strict :: bool

definition vsoc_fail :: "probe_env \<Rightarrow> errno \<Rightarrow> vsoc_device \<Rightarrow> (unit result \<times> vsoc_device) option" where
  "vsoc_fail env e d = map_option (\<lambda>d1. (Inl e, d1)) (vsoc_remove_device (pe_strict env) d)"

text \<open>Reading the window: a read that does not end in it faults.\<close>

definition sizeof_vsoc_shm_layout_descriptor :: nat where "sizeof_vsoc_shm_layout_descriptor = 16"

definition in_window :: "vsoc_device \<Rightarrow> nat \<Rightarrow> nat \<Rightarrow> bool" where
  "in_window d a n \<longleftrightarrow> a + n \<le> unat (shm_size d)"

definition region_at :: "vsoc_device \<Rightarrow> nat \<Rightarrow> vsoc_device_region option" where
  "region_at d i =
     (case regions d of None \<Rightarrow> None
      | Some base \<Rightarrow>
          if in_window d (base + sizeof_vsoc_device_region * i) sizeof_vsoc_device_region
          then Some (vsoc_region d (of_nat i)) else None)"

definition region_ok :: "u64 \<Rightarrow> u32 \<Rightarrow> vsoc_device_region \<Rightarrow> bool" where
  "region_ok sz count r \<longleftrightarrow>
     PAGE_ALIGNED (region_begin_offset r) \<and> PAGE_ALIGNED (region_end_offset r) \<and>
     region_begin_offset r < region_end_offset r \<and> ucast (region_end_offset r) \<le> sz \<and> managed_by r < count"

definition zero_region_data :: vsoc_region_data where
  "zero_region_data = \<lparr>rd_name = replicate 17 0, incoming_signalled = 0, outgoing_signalled = 0, irq_requested = False, device_created = False\<rparr>"

definition upd_region_data :: "nat \<Rightarrow> (vsoc_region_data \<Rightarrow> vsoc_region_data) \<Rightarrow> vsoc_device \<Rightarrow> vsoc_device" where
  "upd_region_data i f d = d\<lparr>regions_data := map_option (\<lambda>rds. rds[i := f (rds ! i)]) (regions_data d)\<rparr>"

definition init_region_data :: "vsoc_device_region \<Rightarrow> vsoc_region_data \<Rightarrow> vsoc_region_data" where
  "init_region_data r rd =
     rd\<lparr>rd_name := device_name r @ [0],
        incoming_signalled := shm_off_to_virtual_addr (region_begin_offset r) +
                              unat (interrupt_signalled_offset (host_to_guest_signal_table r)),
        outgoing_signalled := shm_off_to_virtual_addr (region_begin_offset r) +
                              unat (interrupt_signalled_offset (guest_to_host_signal_table r))\<rparr>"

fun check_regions :: "nat list \<Rightarrow> vsoc_device \<Rightarrow> bool option" where
  "check_regions [] d = Some True"
| "check_regions (i # is) d =
     (case region_at d i of None \<Rightarrow> None
      | Some r \<Rightarrow> if region_ok (shm_size d) (region_count d) r then check_regions is d else Some False)"

text \<open>The loop that registers the interrupt and creates the device node of every region.\<close>

fun probe_regions :: "probe_env \<Rightarrow> nat list \<Rightarrow> vsoc_device \<Rightarrow> (unit result \<times> vsoc_device) option" where
  "probe_regions env [] d = Some (Inr (), d)"
| "probe_regions env (i # is) d =
     (case region_at d i of None \<Rightarrow> None
      | Some r \<Rightarrow>
          (let d1 = upd_region_data i (init_region_data r) d in
           if \<not> pe_irq env i then vsoc_fail env ENOSPC d1
           else (let d2 = upd_region_data i (\<lambda>rd. rd\<lparr>irq_requested := True\<rparr>)
                            (upd_pci (\<lambda>k. k\<lparr>pci_irqs := (region_vector d1 i, Some (of_nat i)) # pci_irqs k\<rparr>) d1) in
             if pe_device env i = Null_Device then vsoc_fail env EBUSY d2
             else (let d3 = (if pe_device env i = New_Device then upd_pci (\<lambda>k. k\<lparr>pci_devices := of_nat i # pci_devices k\<rparr>) d2 else d2)
                   in probe_regions env is (upd_region_data i (\<lambda>rd. rd\<lparr>device_created := True\<rparr>) d3)))))"

text \<open>From the layout on: version, character device, class, tables, interrupts and the check of the regions.\<close>

definition probe_layout :: "probe_env \<Rightarrow> vsoc_device \<Rightarrow> (unit result \<times> vsoc_device) option" where
  "probe_layout env d =
     (if \<not> in_window d 0 sizeof_vsoc_shm_layout_descriptor then None
      else if le_nat (mem_read (v_mem d) 0 2) \<noteq> CURRENT_VSOC_LAYOUT_MAJOR_VERSION then vsoc_fail env EBUSY d
      else case pe_chrdev env of None \<Rightarrow> vsoc_fail env EBUSY d
      | Some devt \<Rightarrow>
          (let d1 = upd_pci (\<lambda>k. k\<lparr>pci_chrdev := True\<rparr>) (d\<lparr>v_major := devt\<rparr>) in
           if \<not> pe_cdev env then vsoc_fail env EBUSY d1
           else (let d2 = upd_pci (\<lambda>k. k\<lparr>pci_cdev := True\<rparr>) (d1\<lparr>cdev_added := True\<rparr>) in
             case pe_class env of Some e \<Rightarrow> vsoc_fail env e d2
             | None \<Rightarrow>
                 (let d3 = upd_pci (\<lambda>k. k\<lparr>pci_class := True\<rparr>)
                             (d2\<lparr>class_added := True, regions := Some (unat (mem_u32 (v_mem d2) 12))\<rparr>);
                      count = region_count d3
                  in if \<not> pe_entries env then vsoc_fail env ENOSPC d3
                     else (let d4 = d3\<lparr>msix_entries := Some (replicate (unat count) 0)\<rparr> in
                       if \<not> pe_data env then vsoc_fail env ENOSPC d4
                       else (let d5 = d4\<lparr>regions_data := Some (replicate (unat count) zero_region_data)\<rparr> in
                         case pe_msix env of None \<Rightarrow> vsoc_fail env ENOSPC d5
                         | Some vs \<Rightarrow>
                             (let d6 = upd_pci (\<lambda>k. k\<lparr>pci_msix := True\<rparr>) (d5\<lparr>msix_entries := Some vs\<rparr>) in
                              case check_regions [0..<unat count] d6 of None \<Rightarrow> None
                              | Some fine \<Rightarrow>
                                  if \<not> fine then vsoc_fail env EFAULT d6
                                  else probe_regions env [0..<unat count] (d6\<lparr>msix_enabled := True\<rparr>))))))))"

definition vsoc_probe_device :: "probe_env \<Rightarrow> vsoc_device \<Rightarrow> (unit result \<times> vsoc_device) option" where
  "vsoc_probe_device env d0 =
     (let d1 = d0\<lparr>v_dev := True\<rparr> in
      case pe_enable env of Some e \<Rightarrow> Some (Inl e, d1)
      | None \<Rightarrow>
          (let d2 = upd_pci (\<lambda>k. k\<lparr>pci_enabled := True\<rparr>) (d1\<lparr>enabled_device := True\<rparr>) in
           if \<not> pe_request env then vsoc_fail env EBUSY d2
           else (let d3 = upd_pci (\<lambda>k. k\<lparr>pci_regions := True\<rparr>) (d2\<lparr>requested_regions := True\<rparr>) in
             if \<not> pe_regs env (min (pe_reg_size env) MAX_REGISTER_BAR_LEN) then vsoc_fail env EBUSY d3
             else (let d4 = upd_pci (\<lambda>k. k\<lparr>pci_regs := True\<rparr>)
                              (d3\<lparr>v_regs := True, shm_phys_start := pe_shm_start env, shm_size := pe_shm_len env\<rparr>) in
               if \<not> pe_shm env then vsoc_fail env EBUSY d4
               else probe_layout env (upd_pci (\<lambda>k. k\<lparr>pci_shm := True\<rparr>) (d4\<lparr>kernel_mapped_shm := True, layout := True\<rparr>))))))"

text \<open>Module entry and exit; \<open>reg\<close> is the result of registering the driver.\<close>

definition vsoc_init_module :: "errno option \<Rightarrow> vsoc_device \<Rightarrow> unit result \<times> vsoc_device" where
  "vsoc_init_module reg d = (case reg of Some e \<Rightarrow> Inl e | None \<Rightarrow> Inr (), d\<lparr>permissions := []\<rparr>)"

definition vsoc_cleanup_module :: "bool \<Rightarrow> vsoc_device \<Rightarrow> vsoc_device option" where
  "vsoc_cleanup_module strict d = vsoc_remove_device strict d"

end
