(* ===== verification/Vsoc_Inv.thy ===== *)
theory Vsoc_Inv
  imports Vsoc_Ioctl Vsoc_Probe
begin

text \<open>
  The invariant of the VSoC device under its file operations. The layout is the documented one: the descriptors lie in the
  first page of the window, which no region overlaps, and the signal words of a region lie in it. Then no operation
  changes a descriptor, and the permission of every file satisfies the checks that were made when it was created.
\<close>

section \<open>Memory\<close>

lemma mem_write_outside [simp]: "i < a \<or> a + length bs \<le> i \<Longrightarrow> mem_write a bs m i = m i"
  by (auto simp: mem_write_def)

lemma mem_read_cong: "(\<And>i. a \<le> i \<Longrightarrow> i < a + n \<Longrightarrow> m i = m' i) \<Longrightarrow> mem_read m a n = mem_read m' a n"
  by (simp add: mem_read_def)

lemma length_mem_read [simp]: "length (mem_read m a n) = n"
  by (simp add: mem_read_def)

lemma mem_read_write: "mem_read (mem_write a bs m) a (length bs) = bs"
  by (rule nth_equalityI) (simp_all add: mem_read_def mem_write_def)

lemma mem_u32_write [simp]: "mem_u32 (mem_write a (word_bytes 4 v) m) a = v"
  using mem_read_write [of a "word_bytes 4 v" m] by (simp add: mem_u32_def)

lemma mem_write_write: "length bs = length cs \<Longrightarrow> mem_write a bs (mem_write a cs m) = mem_write a bs m"
  by (auto simp: mem_write_def)

lemma word_bytes_mem_u32: "word_bytes 4 (mem_u32 m a) = mem_read m a 4"
  by (simp add: mem_u32_def word_bytes_get_u32)

lemma mem_write_same: "mem_write a (mem_read m a n) m = m"
  by (rule ext) (auto simp: mem_write_def mem_read_def)

section \<open>Descriptors\<close>

definition same_header :: "(nat \<Rightarrow> u8) \<Rightarrow> (nat \<Rightarrow> u8) \<Rightarrow> bool" where
  "same_header m m' \<longleftrightarrow> (\<forall>i < 4096. m i = m' i)"

definition header_ok :: "vsoc_device \<Rightarrow> bool" where
  "header_ok d \<longleftrightarrow> layout d \<and>
     (case regions d of None \<Rightarrow> False | Some base \<Rightarrow> base + sizeof_vsoc_device_region * unat (region_count d) \<le> 4096)"

definition region_inside :: "vsoc_device \<Rightarrow> vsoc_device_region \<Rightarrow> bool" where
  "region_inside d r \<longleftrightarrow> region_ok (shm_size d) (region_count d) r \<and> 4096 \<le> region_begin_offset r"

definition layout_ok :: "vsoc_device \<Rightarrow> bool" where
  "layout_ok d \<longleftrightarrow> header_ok d \<and> (\<forall>i < region_count d. region_inside d (vsoc_region d i))"

lemma same_header_write: "4096 \<le> a \<Longrightarrow> same_header m (mem_write a bs m)"
  by (simp add: same_header_def)

lemma region_count_same: "same_header (v_mem d) (v_mem d') \<Longrightarrow> region_count d' = region_count d"
  unfolding region_count_def mem_u32_def same_header_def by (intro arg_cong [where f = "get_u32 0"] mem_read_cong) simp

lemma vsoc_region_same:
  assumes "same_header (v_mem d) (v_mem d')" "regions d' = regions d" "header_ok d" "i < region_count d"
  shows "vsoc_region d' i = vsoc_region d i"
proof -
  obtain base where b: "regions d = Some base" "base + 60 * unat (region_count d) \<le> 4096"
    using assms(3) by (auto simp: header_ok_def sizeof_vsoc_device_region_def split: option.splits)
  have "unat i < unat (region_count d)" using assms(4) by (simp add: word_less_nat_alt)
  then have "base + 60 * unat i + 60 \<le> 4096" using b(2) by linarith
  then show ?thesis using assms(1,2) b(1)
    unfolding vsoc_region_def region_from_def sizeof_vsoc_device_region_def same_header_def
    by (auto intro!: arg_cong [where f = to_region] mem_read_cong)
qed

lemma layout_ok_same:
  assumes "same_header (v_mem d) (v_mem d')" "regions d' = regions d" "layout d' = layout d" "shm_size d' = shm_size d"
    and "layout_ok d"
  shows "layout_ok d'"
proof -
  have c: "region_count d' = region_count d" by (rule region_count_same [OF assms(1)])
  have h: "header_ok d" using assms(5) by (simp add: layout_ok_def)
  have "header_ok d'" using h unfolding header_ok_def c assms(2,3) .
  then show ?thesis using assms(5) vsoc_region_same [OF assms(1,2) h] assms(4)
    by (simp add: layout_ok_def region_inside_def c)
qed

section \<open>Bounds\<close>

lemma region_bounds:
  assumes "region_inside d r"
  shows "4096 \<le> unat (region_begin_offset r)" "unat (region_begin_offset r) < unat (region_end_offset r)"
    and "unat (region_end_offset r) \<le> unat (shm_size d)"
    and "unat (vsoc_device_region_size r) = unat (region_end_offset r) - unat (region_begin_offset r)"
    and "unat (region_end_offset r) < 2 ^ 32"
proof -
  have "region_begin_offset r < region_end_offset r" "ucast (region_end_offset r) \<le> shm_size d" "4096 \<le> region_begin_offset r"
    using assms by (auto simp: region_inside_def region_ok_def)
  then show "4096 \<le> unat (region_begin_offset r)" "unat (region_begin_offset r) < unat (region_end_offset r)"
    and "unat (region_end_offset r) \<le> unat (shm_size d)"
    and "unat (vsoc_device_region_size r) = unat (region_end_offset r) - unat (region_begin_offset r)"
    by (simp_all add: word_le_nat_alt word_less_nat_alt vsoc_device_region_size_def unat_sub)
  show "unat (region_end_offset r) < 2 ^ 32" using unsigned_less [of "region_end_offset r", where ?'a = nat] by simp
qed

lemma offset_in_region:
  assumes "region_inside d r" "unat x \<le> unat (vsoc_device_region_size r)"
  shows "unat (region_begin_offset r + x) = unat (region_begin_offset r) + unat x"
proof -
  have "unat (region_begin_offset r) + unat x < 2 ^ LENGTH(32)" using region_bounds [OF assms(1)] assms(2) by simp
  then show ?thesis by (rule unat_add_lem [THEN iffD1])
qed

lemma check_permission_bounds:
  assumes "check_permission owner managed p = Inr ()"
  shows "unat (begin_offset p) < unat (end_offset p)" "unat (end_offset p) \<le> unat (vsoc_device_region_size managed)"
    and "unat (offset_of_region_data managed) \<le> unat (begin_offset p)"
    and "unat (owner_offset p) + 4 \<le> unat (vsoc_device_region_size owner)"
    and "unat (offset_of_region_data owner) \<le> unat (owner_offset p)" "owned_value p \<noteq> 0"
proof -
  have c: "begin_offset p < end_offset p" "end_offset p \<le> vsoc_device_region_size managed"
      "offset_of_region_data managed \<le> begin_offset p" "offset_of_region_data owner \<le> owner_offset p"
      "ucast (owner_offset p) + (4 :: u64) \<le> ucast (vsoc_device_region_size owner)" "owned_value p \<noteq> 0"
    using assms by (auto simp: check_permission_def VSOC_REGION_FREE_def split: if_splits)
  have "unat (owner_offset p) < 2 ^ LENGTH(32)" by (rule unsigned_less)
  then have "unat (ucast (owner_offset p) + (4 :: u64)) = unat (owner_offset p) + 4"
    by (subst unat_add_lem [THEN iffD1]) simp_all
  with c show "unat (begin_offset p) < unat (end_offset p)" "unat (end_offset p) \<le> unat (vsoc_device_region_size managed)"
    and "unat (offset_of_region_data managed) \<le> unat (begin_offset p)"
    and "unat (owner_offset p) + 4 \<le> unat (vsoc_device_region_size owner)"
    and "unat (offset_of_region_data owner) \<le> unat (owner_offset p)" "owned_value p \<noteq> 0"
    by (simp_all add: word_le_nat_alt word_less_nat_alt)
qed

lemma owner_addr_bounds:
  assumes "check_permission owner managed p = Inr ()" "region_inside d owner"
  shows "owner_addr owner p = unat (region_begin_offset owner) + unat (owner_offset p)"
    and "owner_addr owner p + 4 \<le> unat (region_end_offset owner)" "4096 \<le> owner_addr owner p"
proof -
  note b = check_permission_bounds(4) [OF assms(1)] region_bounds [OF assms(2)]
  show e: "owner_addr owner p = unat (region_begin_offset owner) + unat (owner_offset p)"
    using offset_in_region [OF assms(2), of "owner_offset p"] b
    by (simp add: owner_addr_def shm_off_to_virtual_addr_def)
  show "owner_addr owner p + 4 \<le> unat (region_end_offset owner)" "4096 \<le> owner_addr owner p" using e b by simp_all
qed

section \<open>The invariant\<close>

text \<open>The area a file may use, as a set of bytes of the window.\<close>

definition file_area :: "vsoc_device \<Rightarrow> ptr \<Rightarrow> nat set" where
  "file_area d f =
     (let r = vsoc_region d (f_minor (v_files d f)); b = unat (region_begin_offset r) in
      case f_private (v_files d f) of
        Some (Some np) \<Rightarrow> {b + unat (begin_offset (v_nodes d np))..<b + unat (end_offset (v_nodes d np))}
      | _ \<Rightarrow> if managed_by r = VSOC_REGION_WHOLE then {b..<unat (region_end_offset r)} else {})"

definition region_bytes :: "vsoc_device \<Rightarrow> u32 \<Rightarrow> nat set" where
  "region_bytes d i = {unat (region_begin_offset (vsoc_region d i))..<unat (region_end_offset (vsoc_region d i))}"

text \<open>
  A permission on a file of region \<open>i\<close>: the checks hold with the managing region as owner, which is the region that
  \<open>vsoc_release\<close> takes for the owner.
\<close>

definition permission_ok :: "vsoc_device \<Rightarrow> u32 \<Rightarrow> fd_scoped_permission \<Rightarrow> bool" where
  "permission_ok d i p \<longleftrightarrow>
     i < region_count d \<and> check_permission (vsoc_region d (managed_by (vsoc_region d i))) (vsoc_region d i) p = Inr () \<and>
     (managed_by (vsoc_region d i) \<noteq> VSOC_REGION_WHOLE \<or> i = 0)"

definition has_node :: "vsoc_device \<Rightarrow> ptr \<Rightarrow> ptr \<Rightarrow> bool" where
  "has_node d f np \<longleftrightarrow> f_vsoc (v_files d f) \<and> f_private (v_files d f) = Some (Some np)"

text \<open>The permission nodes are those of the files, each of one file only.\<close>

definition nodes_ok :: "vsoc_device \<Rightarrow> bool" where
  "nodes_ok d \<longleftrightarrow>
     distinct (permissions d) \<and> (\<forall>np. np \<in> set (permissions d) \<longleftrightarrow> (\<exists>f. has_node d f np)) \<and>
     (\<forall>f g np. has_node d f np \<and> has_node d g np \<longrightarrow> f = g) \<and>
     (\<forall>f np. has_node d f np \<longrightarrow> permission_ok d (f_minor (v_files d f)) (v_nodes d np))"

definition signals_ok :: "vsoc_device \<Rightarrow> bool" where
  "signals_ok d \<longleftrightarrow> (case regions_data d of None \<Rightarrow> False | Some rds \<Rightarrow>
     \<forall>i < region_count d. 4096 \<le> incoming_signalled (rds ! unat i) \<and> 4096 \<le> outgoing_signalled (rds ! unat i))"

definition vsoc_inv :: "vsoc_device \<Rightarrow> bool" where
  "vsoc_inv d \<longleftrightarrow> layout_ok d \<and> signals_ok d \<and> nodes_ok d"

text \<open>Two devices with the same descriptors.\<close>

definition same_layout :: "vsoc_device \<Rightarrow> vsoc_device \<Rightarrow> bool" where
  "same_layout d d' \<longleftrightarrow> same_header (v_mem d) (v_mem d') \<and> regions d' = regions d \<and> layout d' = layout d \<and>
     shm_size d' = shm_size d \<and> regions_data d' = regions_data d"

lemma same_layout_refl [simp]: "same_layout d d"
  by (simp add: same_layout_def same_header_def)

lemma same_layout_region:
  "same_layout d d' \<Longrightarrow> layout_ok d \<Longrightarrow> i < region_count d \<Longrightarrow> vsoc_region d' i = vsoc_region d i"
  by (simp add: same_layout_def layout_ok_def vsoc_region_same)

lemma same_layout_count: "same_layout d d' \<Longrightarrow> region_count d' = region_count d"
  by (simp add: same_layout_def region_count_same)

lemma same_layout_ok: "same_layout d d' \<Longrightarrow> layout_ok d \<Longrightarrow> layout_ok d'"
  unfolding same_layout_def by (rule layout_ok_same) simp_all

lemma same_layout_signals: "same_layout d d' \<Longrightarrow> signals_ok d \<Longrightarrow> signals_ok d'"
  using same_layout_count [of d d'] by (simp add: same_layout_def signals_ok_def split: option.splits)

lemma managed_by_less: "layout_ok d \<Longrightarrow> i < region_count d \<Longrightarrow> managed_by (vsoc_region d i) < region_count d"
  by (simp add: layout_ok_def region_inside_def region_ok_def)

lemma same_layout_permission:
  assumes "same_layout d d'" "layout_ok d"
  shows "permission_ok d' i p = permission_ok d i p"
  using same_layout_region [OF assms] same_layout_count [OF assms(1)] managed_by_less [OF assms(2), of i]
  by (auto simp: permission_ok_def)

text \<open>An operation that keeps descriptors, nodes, and the minors and permissions of the files keeps the invariant.\<close>

lemma nodes_ok_keep:
  assumes "nodes_ok d" "layout_ok d" "same_layout d d'" "permissions d' = permissions d"
    and h: "\<And>f np. has_node d' f np = has_node d f np"
    and "\<And>f np. has_node d f np \<Longrightarrow> f_minor (v_files d' f) = f_minor (v_files d f) \<and> v_nodes d' np = v_nodes d np"
  shows "nodes_ok d'"
  using assms(1) unfolding nodes_ok_def h assms(4) same_layout_permission [OF assms(3,2)] using assms(6) by simp

lemma vsoc_inv_keep:
  assumes "vsoc_inv d" "same_layout d d'" "permissions d' = permissions d"
    and "\<And>f np. has_node d' f np = has_node d f np"
    and "\<And>f np. has_node d f np \<Longrightarrow> f_minor (v_files d' f) = f_minor (v_files d f) \<and> v_nodes d' np = v_nodes d np"
  shows "vsoc_inv d'"
proof -
  have l: "layout_ok d" and s: "signals_ok d" and n: "nodes_ok d" using assms(1) by (auto simp: vsoc_inv_def)
  show ?thesis
    using same_layout_ok [OF assms(2) l] same_layout_signals [OF assms(2) s] nodes_ok_keep [OF n l assms(2-5)]
    by (simp add: vsoc_inv_def)
qed

end
