(* ===== verification/Vsoc_Ops.thy ===== *)
theory Vsoc_Ops
  imports Vsoc_Inv
begin

text \<open>
  The file operations of the VSoC driver on a consistent device: what area a file gets, and that each operation runs
  without a fault and keeps the invariant.
\<close>

section \<open>Signed lengths\<close>

lemma sint_nonneg: "0 \<le> sint (w :: u64) \<Longrightarrow> sint w = uint w"
  unfolding uint_sint using sint_lt [of w] by (intro take_bit_int_eq_self [symmetric]) simp_all

lemma sint_small: "uint (w :: u64) < 2 ^ 63 \<Longrightarrow> sint w = uint w"
  unfolding sint_uint by (intro signed_take_bit_int_eq_self order_trans [OF _ uint_ge_0]) simp_all

lemma rest_of_area:
  fixes len pos :: u64
  assumes "unat len < 2 ^ 32" "0 \<le> sint pos" "0 < sint (len - pos)"
  shows "unat pos < unat len" "unat (len - pos) = unat len - unat pos"
proof -
  have "int (unat len) < int (2 ^ 32)" by (rule of_nat_less_iff [THEN iffD2, OF assms(1)])
  then have len: "uint len < 4294967296" by simp
  have l: "sint len = uint len" by (rule sint_small) (use len in simp)
  have p: "sint pos = uint pos" by (rule sint_nonneg [OF assms(2)])
  have "sint pos < 9223372036854775808" using sint_lt [of pos] by simp
  then have "- 9223372036854775808 \<le> uint len - sint pos" "uint len - sint pos < 9223372036854775808"
    using len assms(2) uint_ge_0 [of len] by (linarith, linarith)
  then have "sint (len - pos) = sint len - sint pos"
    unfolding sint_word_ariths l by (intro signed_take_bit_int_eq_self) simp_all
  then have "uint pos < uint len" using assms(3) l p by simp
  then show lt: "unat pos < unat len" by (simp add: word_less_def [symmetric] word_less_nat_alt [symmetric])
  then show "unat (len - pos) = unat len - unat pos" by (intro unat_sub) (simp add: word_le_nat_alt)
qed

section \<open>The area of a file\<close>

lemma region_bytes_window:
  assumes "layout_ok d" "i < region_count d"
  shows "region_bytes d i \<subseteq> {4096..<unat (shm_size d)}"
  using region_bounds [of d "vsoc_region d i"] assms by (auto simp: layout_ok_def region_bytes_def)

lemma get_area:
  assumes inv: "vsoc_inv d" and v: "f_vsoc (v_files d f)" "f_private (v_files d f) \<noteq> None" "f_minor (v_files d f) < region_count d"
  obtains off len where "vsoc_get_area d f = Some (off, len)" "file_area d f = {unat off..<unat off + unat len}"
    "file_area d f \<subseteq> region_bytes d (f_minor (v_files d f))" "4096 \<le> unat off" "unat len < 2 ^ 32"
proof -
  let ?i = "f_minor (v_files d f)" let ?r = "vsoc_region d ?i"
  have l: "layout_ok d" and n: "nodes_ok d" using inv by (auto simp: vsoc_inv_def)
  have ri: "region_inside d ?r" using l v(3) by (simp add: layout_ok_def)
  note b = region_bounds [OF ri]
  have rg: "regions d \<noteq> None" using l by (auto simp: layout_ok_def header_ok_def split: option.splits)
  obtain node where p: "f_private (v_files d f) = Some node" using v(2) by blast
  show thesis
  proof (cases node)
    case None
    show thesis
      by (rule that [of "region_begin_offset ?r" "if managed_by ?r = VSOC_REGION_WHOLE then ucast (vsoc_device_region_size ?r) else 0"])
        (use p None v rg b in \<open>auto simp: vsoc_get_area_def private_node_def file_area_def region_bytes_def Let_def\<close>)
  next
    case (Some np)
    have "permission_ok d ?i (v_nodes d np)" using n v p Some by (auto simp: nodes_ok_def has_node_def)
    then have c: "check_permission (vsoc_region d (managed_by ?r)) ?r (v_nodes d np) = Inr ()" by (simp add: permission_ok_def)
    note cb = check_permission_bounds [OF c]
    let ?p = "v_nodes d np"
    have o: "unat (region_begin_offset ?r + begin_offset ?p) = unat (region_begin_offset ?r) + unat (begin_offset ?p)"
      by (rule offset_in_region [OF ri]) (use cb in simp)
    have s: "unat (end_offset ?p - begin_offset ?p) = unat (end_offset ?p) - unat (begin_offset ?p)"
      by (rule unat_sub) (use cb(1) in \<open>simp add: word_le_nat_alt\<close>)
    have e: "unat (region_begin_offset ?r) + unat (end_offset ?p) \<le> unat (region_end_offset ?r)" using cb(2) b by linarith
    show thesis
    proof (rule that [of "region_begin_offset ?r + begin_offset ?p" "ucast (end_offset ?p - begin_offset ?p)"])
      show "vsoc_get_area d f = Some (region_begin_offset ?r + begin_offset ?p, ucast (end_offset ?p - begin_offset ?p))"
        using p Some v rg by (simp add: vsoc_get_area_def private_node_def Let_def)
    qed (use p Some o s cb e b in \<open>auto simp: file_area_def region_bytes_def Let_def\<close>)
  qed
qed

lemma validate_filep:
  assumes "layout_ok d"
  shows "vsoc_validate_filep d f =
    Some (if f_minor (v_files d f) \<ge> region_count d then Inl ENODEV
          else if f_private (v_files d f) = None then Inl EBADFD else Inr ())"
  using assms by (simp add: vsoc_validate_filep_def vsoc_validate_inode_def layout_ok_def header_ok_def)

lemma validate_ok:
  "layout_ok d \<Longrightarrow> f_minor (v_files d f) < region_count d \<Longrightarrow> f_private (v_files d f) \<noteq> None \<Longrightarrow>
   vsoc_validate_filep d f = Some (Inr ())"
  by (simp add: validate_filep not_le)

text \<open>Bytes of a file from a position on.\<close>

lemma area_from_pos:
  assumes a: "file_area d f = {unat off..<unat off + unat len}" "unat len < 2 ^ 32"
    and pos: "0 \<le> sint (pos :: u64)" "0 < sint (len - pos)" and n: "n \<le> len - pos"
  shows "{unat off + unat pos..<unat off + unat pos + unat n} \<subseteq> file_area d f"
proof -
  note r = rest_of_area [OF a(2) pos]
  have "unat n \<le> unat len - unat pos" using n r(2) by (simp add: word_le_nat_alt)
  then show ?thesis using r(1) a(1) by auto
qed

section \<open>Reading, writing, seeking and mapping\<close>

lemma vsoc_inv_mem:
  assumes "vsoc_inv d" "same_header (v_mem d) m"
  shows "vsoc_inv (d\<lparr>v_mem := m\<rparr>)"
  by (rule vsoc_inv_keep [OF assms(1)]) (use assms(2) in \<open>simp_all add: same_layout_def has_node_def\<close>)

lemma read_confined:
  assumes "vsoc_inv d" "f_vsoc (v_files d f)" "0 \<le> sint pos"
  shows "\<exists>r bs pos' a. vsoc_read ok f len pos d = Some (r, bs, pos') \<and> bs = mem_read (v_mem d) a (length bs) \<and>
    {a..<a + length bs} \<subseteq> file_area d f"
proof (cases "f_minor (v_files d f) < region_count d \<and> f_private (v_files d f) \<noteq> None")
  case True
  have l: "layout_ok d" using assms(1) by (simp add: vsoc_inv_def)
  have v: "vsoc_validate_filep d f = Some (Inr ())" using validate_ok [OF l] True by blast
  obtain off n where a: "vsoc_get_area d f = Some (off, n)" "file_area d f = {unat off..<unat off + unat n}" "unat n < 2 ^ 32"
    using get_area [OF assms(1,2)] True by metis
  show ?thesis
  proof (cases "0 < sint (n - pos) \<and> ok")
    case pos: True
    define k where "k = (if n - pos < len then n - pos else len)"
    have "{unat off + unat pos..<unat off + unat pos + unat k} \<subseteq> file_area d f"
      using area_from_pos [OF a(2,3) assms(3)] pos by (simp add: k_def)
    moreover have "vsoc_read ok f len pos d = Some (Inr k, mem_read (v_mem d) (unat off + unat pos) (unat k), pos + k)"
      using pos True by (simp add: vsoc_read_def v a(1) Let_def shm_off_to_virtual_addr_def k_def)
    ultimately show ?thesis by (metis length_mem_read)
  qed (use True in \<open>auto simp: vsoc_read_def v a(1) Let_def mem_read_def\<close>)
qed (use assms in \<open>auto simp: vsoc_read_def validate_filep vsoc_inv_def mem_read_def\<close>)

lemma write_confined:
  assumes "vsoc_inv d" "f_vsoc (v_files d f)" "0 \<le> sint pos"
  shows "\<exists>r pos' m. vsoc_write user f buf len pos d = Some (r, pos', d\<lparr>v_mem := m\<rparr>) \<and>
    (\<forall>i. m i \<noteq> v_mem d i \<longrightarrow> i \<in> file_area d f \<and> f_minor (v_files d f) < region_count d)"
proof (cases "f_minor (v_files d f) < region_count d \<and> f_private (v_files d f) \<noteq> None")
  case True
  have l: "layout_ok d" using assms(1) by (simp add: vsoc_inv_def)
  have v: "vsoc_validate_filep d f = Some (Inr ())" using validate_ok [OF l] True by blast
  obtain off n where a: "vsoc_get_area d f = Some (off, n)" "file_area d f = {unat off..<unat off + unat n}" "unat n < 2 ^ 32"
    using get_area [OF assms(1,2)] True by metis
  show ?thesis
  proof (cases "0 < sint (n - pos)")
    case pos: True
    define k where "k = (if n - pos < len then n - pos else len)"
    define bs where "bs = take (unat k) (user buf) @ replicate (unat k - length (take (unat k) (user buf))) 0"
    have "{unat off + unat pos..<unat off + unat pos + unat k} \<subseteq> file_area d f"
      using area_from_pos [OF a(2,3) assms(3)] pos by (simp add: k_def)
    moreover have "length bs = unat k" by (simp add: bs_def)
    ultimately have "mem_write (unat off + unat pos) bs (v_mem d) i \<noteq> v_mem d i \<Longrightarrow> i \<in> file_area d f" for i
      by (auto simp: mem_write_def split: if_splits)
    moreover have "\<exists>r pos'. vsoc_write user f buf len pos d = Some (r, pos', d\<lparr>v_mem := mem_write (unat off + unat pos) bs (v_mem d)\<rparr>)"
      using pos by (auto simp: vsoc_write_def v a(1) Let_def shm_off_to_virtual_addr_def k_def bs_def not_le)
    ultimately show ?thesis using True by metis
  next
    case False
    then show ?thesis
      by (intro exI [of _ "v_mem d"] exI) (simp add: vsoc_write_def v a(1) Let_def)
  qed
next
  case False
  then show ?thesis using assms(1)
    by (cases "region_count d \<le> f_minor (v_files d f)")
      (auto simp: vsoc_write_def validate_filep vsoc_inv_def intro!: exI [of _ "v_mem d"])
qed

lemma write_inv:
  assumes "vsoc_inv d" "f_vsoc (v_files d f)" "0 \<le> sint pos" "vsoc_write user f buf len pos d = Some (r, pos', d')"
  shows "vsoc_inv d'"
proof -
  obtain m where m: "d' = d\<lparr>v_mem := m\<rparr>"
    "\<And>i. m i \<noteq> v_mem d i \<Longrightarrow> i \<in> file_area d f \<and> f_minor (v_files d f) < region_count d"
    using write_confined [OF assms(1-3), of user buf len] assms(4) by auto
  have l: "layout_ok d" using assms(1) by (simp add: vsoc_inv_def)
  have "m i = v_mem d i" if "i < 4096" for i
  proof (cases "f_private (v_files d f) = None \<or> \<not> f_minor (v_files d f) < region_count d")
    case True
    then have "d' = d" using assms(4)
      by (cases "f_minor (v_files d f) \<ge> region_count d") (auto simp: vsoc_write_def validate_filep [OF l])
    then have "v_mem d = v_mem (d\<lparr>v_mem := m\<rparr>)" using m(1) by simp
    then show ?thesis by simp
  next
    case False
    then have "file_area d f \<subseteq> {4096..<unat (shm_size d)}"
      using get_area [OF assms(1,2)] region_bytes_window [OF l] by (metis order_trans)
    then show ?thesis using m(2) [of i] that by (meson atLeastLessThan_iff not_le subsetD)
  qed
  then show ?thesis unfolding m(1) by (intro vsoc_inv_mem [OF assms(1)]) (simp add: same_header_def)
qed

lemma lseek_inv:
  assumes "vsoc_inv d" "vsoc_lseek f offset origin d = Some (r, d')"
  shows "vsoc_inv d'"
proof -
  have "d' = d \<or> (\<exists>p. d' = set_file f ((v_files d f)\<lparr>vf_pos := p\<rparr>) d)"
    using assms(2) by (auto simp: vsoc_lseek_def split: option.splits sum.splits prod.splits if_splits)
  then show ?thesis
    by (elim disjE exE)
      (auto intro!: vsoc_inv_keep [OF assms(1)] simp: assms(1) same_layout_def same_header_def set_file_def has_node_def split: if_splits)
qed

lemma mmap_inv:
  assumes "vsoc_inv d" "vsoc_mmap ok f vma d = Some (r, d')"
  shows "vsoc_inv d'"
proof -
  have "d' = d \<or> (\<exists>x. d' = d\<lparr>v_maps := x\<rparr>)"
    using assms(2) by (auto simp: vsoc_mmap_def Let_def split: option.splits sum.splits prod.splits if_splits)
  then show ?thesis
    by (elim disjE exE) (auto intro: vsoc_inv_keep [OF assms(1)] simp: assms(1) same_layout_def same_header_def has_node_def)
qed

section \<open>Opening and releasing\<close>

lemma open_inv:
  assumes "vsoc_inv d" "f_private (v_files d f) = None" "vsoc_open ok f d = Some (r, d')"
  shows "vsoc_inv d'"
proof -
  have "d' = d \<or> (\<exists>x. x \<in> {None, Some None} \<and> d' = set_file f ((v_files d f)\<lparr>f_private := x\<rparr>) d)"
    using assms(3) by (auto simp: vsoc_open_def split: option.splits sum.splits if_splits)
  then show ?thesis
    by (elim disjE exE conjE)
      (use assms(2) in \<open>auto intro!: vsoc_inv_keep [OF assms(1)]
         simp: assms(1) same_layout_def same_header_def set_file_def has_node_def split: if_splits\<close>)
qed

lemma nodes_ok_remove:
  assumes "nodes_ok d" "layout_ok d" "same_layout d d'" "has_node d f np" "permissions d' = list_del np (permissions d)"
    and h: "\<And>g q. has_node d' g q \<longleftrightarrow> has_node d g q \<and> g \<noteq> f"
    and "\<And>g q. has_node d g q \<Longrightarrow> f_minor (v_files d' g) = f_minor (v_files d g) \<and> v_nodes d' q = v_nodes d q"
  shows "nodes_ok d'"
proof -
  have n: "distinct (permissions d)" "\<And>q. q \<in> set (permissions d) \<longleftrightarrow> (\<exists>g. has_node d g q)"
      "\<And>g g' q. has_node d g q \<Longrightarrow> has_node d g' q \<Longrightarrow> g = g'"
      "\<And>g q. has_node d g q \<Longrightarrow> permission_ok d (f_minor (v_files d g)) (v_nodes d q)"
    using assms(1) unfolding nodes_ok_def by blast+
  have f: "has_node d f q \<Longrightarrow> q = np" for q using assms(4) by (simp add: has_node_def)
  have "q \<in> set (permissions d') \<longleftrightarrow> (\<exists>g. has_node d' g q)" for q
    unfolding assms(5) h using n(1) f n(3) [OF assms(4)] by (auto simp: n(2))
  then show ?thesis unfolding nodes_ok_def assms(5) h same_layout_permission [OF assms(3,2)]
    using n assms(7) by (auto simp: assms(5) h)
qed

lemma nodes_ok_add:
  assumes "nodes_ok d" "layout_ok d" "same_layout d d'" "\<And>q. \<not> has_node d f q" "np \<notin> set (permissions d)"
    and "permissions d' = np # permissions d"
    and h: "\<And>g q. has_node d' g q \<longleftrightarrow> (if g = f then q = np else has_node d g q)"
    and "\<And>g q. has_node d g q \<Longrightarrow> f_minor (v_files d' g) = f_minor (v_files d g) \<and> v_nodes d' q = v_nodes d q"
    and "permission_ok d (f_minor (v_files d' f)) (v_nodes d' np)"
  shows "nodes_ok d'"
proof -
  have n: "distinct (permissions d)" "\<And>q. q \<in> set (permissions d) \<longleftrightarrow> (\<exists>g. has_node d g q)"
      "\<And>g g' q. has_node d g q \<Longrightarrow> has_node d g' q \<Longrightarrow> g = g'"
      "\<And>g q. has_node d g q \<Longrightarrow> permission_ok d (f_minor (v_files d g)) (v_nodes d q)"
    using assms(1) unfolding nodes_ok_def by blast+
  have new: "\<not> has_node d g np" for g using assms(5) n(2) by blast
  have m: "q \<in> set (permissions d') \<longleftrightarrow> (\<exists>g. has_node d' g q)" for q
    unfolding assms(6) h using n(2) assms(4) by (auto split: if_splits) metis
  have u: "g = g'" if "has_node d' g q" "has_node d' g' q" for g g' q
    using that n(3) new unfolding h by (metis (full_types))
  have k: "permission_ok d (f_minor (v_files d' g)) (v_nodes d' q)" if "has_node d' g q" for g q
    using that n(4) assms(8,9) unfolding h by (metis (full_types))
  have "distinct (permissions d')" using n(1) assms(5,6) by simp
  then show ?thesis unfolding nodes_ok_def same_layout_permission [OF assms(3,2)] using m u k by (intro conjI allI impI) blast+
qed

text \<open>The owner that \<open>vsoc_release\<close> finds is the region that manages the one of the file.\<close>

lemma release_owner:
  assumes "permission_ok d i p"
  shows "(if managed_by (vsoc_region d i) \<noteq> VSOC_REGION_WHOLE then vsoc_region d (managed_by (vsoc_region d i)) else vsoc_region d i) =
    vsoc_region d (managed_by (vsoc_region d i))"
  using assms by (auto simp: permission_ok_def VSOC_REGION_WHOLE_def)

lemma owner_inside:
  assumes "layout_ok d" "permission_ok d i p"
  defines "owner \<equiv> vsoc_region d (managed_by (vsoc_region d i))"
  shows "region_inside d owner" "4096 \<le> owner_addr owner p" "owner_addr owner p + 4 \<le> unat (region_end_offset owner)"
proof -
  show r: "region_inside d owner"
    using assms(1,2) managed_by_less [OF assms(1), of i] by (simp add: owner_def permission_ok_def layout_ok_def)
  have "check_permission owner (vsoc_region d i) p = Inr ()" using assms(2) by (simp add: owner_def permission_ok_def)
  then show "4096 \<le> owner_addr owner p" "owner_addr owner p + 4 \<le> unat (region_end_offset owner)"
    using owner_addr_bounds r by blast+
qed

lemma release_with_node:
  assumes "vsoc_inv d" "has_node d f np"
  defines "p \<equiv> v_nodes d np" and "owner \<equiv> vsoc_region d (managed_by (vsoc_region d (f_minor (v_files d f))))"
  shows "vsoc_release f d = Some (Inr (), set_file f ((v_files d f)\<lparr>f_private := None\<rparr>)
    ((set_mem_u32 (owner_addr owner p) VSOC_REGION_FREE d)\<lparr>permissions := list_del np (permissions d)\<rparr>))"
proof -
  have l: "layout_ok d" and n: "nodes_ok d" using assms(1) by (auto simp: vsoc_inv_def)
  have p: "permission_ok d (f_minor (v_files d f)) p" using n assms(2) by (auto simp: nodes_ok_def p_def)
  have "vsoc_validate_filep d f = Some (Inr ())"
    by (rule validate_ok [OF l]) (use p assms(2) in \<open>auto simp: permission_ok_def has_node_def\<close>)
  moreover have "private_node d f = Some (Some np)"
    using l assms(2) by (auto simp: private_node_def has_node_def layout_ok_def header_ok_def split: option.splits)
  ultimately show ?thesis
    by (simp add: vsoc_release_def Let_def release_owner [OF p] do_destroy_fd_scoped_permission_node_def
        do_destroy_fd_scoped_permission_def set_mem_u32_def owner_def [symmetric] p_def [symmetric])
qed

lemma release_inv:
  assumes "vsoc_inv d" "f_vsoc (v_files d f)" "vsoc_release f d = Some (r, d')"
  shows "vsoc_inv d'"
proof (cases "\<exists>np. has_node d f np")
  case True
  then obtain np where h: "has_node d f np" by blast
  have l: "layout_ok d" and n: "nodes_ok d" and sg: "signals_ok d" using assms(1) by (auto simp: vsoc_inv_def)
  have p: "permission_ok d (f_minor (v_files d f)) (v_nodes d np)" using n h by (auto simp: nodes_ok_def)
  define a where "a = owner_addr (vsoc_region d (managed_by (vsoc_region d (f_minor (v_files d f))))) (v_nodes d np)"
  have d': "d' = set_file f ((v_files d f)\<lparr>f_private := None\<rparr>)
    ((set_mem_u32 a VSOC_REGION_FREE d)\<lparr>permissions := list_del np (permissions d)\<rparr>)"
    using release_with_node [OF assms(1) h] assms(3) by (simp add: a_def)
  have "4096 \<le> a" using owner_inside(2) [OF l p] by (simp add: a_def)
  then have s: "same_layout d d'" by (simp add: same_layout_def d' set_file_def set_mem_u32_def same_header_write)
  have "nodes_ok d'"
    by (rule nodes_ok_remove [OF n l s h]) (auto simp: d' set_file_def set_mem_u32_def has_node_def)
  then show ?thesis using same_layout_ok [OF s l] same_layout_signals [OF s sg] by (simp add: vsoc_inv_def)
next
  case False
  have "d' = d \<or> d' = set_file f ((v_files d f)\<lparr>f_private := None\<rparr>) d"
    using assms(2,3) False
    by (auto simp: vsoc_release_def Let_def private_node_def has_node_def split: option.splits sum.splits if_splits)
  then show ?thesis
    by (elim disjE)
      (use False assms(2) in \<open>auto intro!: vsoc_inv_keep [OF assms(1)]
         simp: assms(1) same_layout_def same_header_def set_file_def has_node_def split: if_splits\<close>)
qed

section \<open>Creating a permission\<close>

text \<open>What the caller asks for: a permission and a file, which belongs to this driver.\<close>

definition asks :: "(u32 \<Rightarrow> ptr option) \<Rightarrow> (u64 \<Rightarrow> u8 list) \<Rightarrow> u64 \<Rightarrow> fd_scoped_permission \<Rightarrow> ptr \<Rightarrow> bool" where
  "asks fdget user arg p f \<longleftrightarrow>
     (\<exists>bs fd. copy_from_user user arg 16 = Some bs \<and> p = to_permission bs \<and> get_user_u32 user (arg + 16) = Some fd \<and> fdget fd = Some f)"

definition create_allowed :: "vsoc_device \<Rightarrow> u32 \<Rightarrow> fd_scoped_permission \<Rightarrow> ptr \<Rightarrow> bool" where
  "create_allowed d reg_num p f \<longleftrightarrow>
     f_minor (v_files d f) < region_count d \<and> f_private (v_files d f) = Some None \<and>
     managed_by (vsoc_region d (f_minor (v_files d f))) = reg_num \<and>
     check_permission (vsoc_region d reg_num) (vsoc_region d (f_minor (v_files d f))) p = Inr () \<and>
     mem_u32 (v_mem d) (owner_addr (vsoc_region d reg_num) p) = VSOC_REGION_FREE"

definition created :: "vsoc_device \<Rightarrow> u32 \<Rightarrow> ptr \<Rightarrow> fd_scoped_permission \<Rightarrow> ptr \<Rightarrow> vsoc_device" where
  "created d reg_num np p f =
     set_file f ((v_files d f)\<lparr>f_private := Some (Some np), vf_pos := adjust_pos p (vf_pos (v_files d f))\<rparr>)
       (set_mem_u32 (owner_addr (vsoc_region d reg_num) p) (owned_value p) (d\<lparr>v_nodes := (v_nodes d)(np := p)\<rparr>))"

lemma vsoc_region_nodes [simp]: "vsoc_region (d\<lparr>v_nodes := x\<rparr>) = vsoc_region d"
  by (simp add: vsoc_region_def fun_eq_iff)

lemma create_result:
  assumes "layout_ok d" "\<And>fd f. fdget fd = Some f \<Longrightarrow> f_vsoc (v_files d f)"
  obtains (granted) p f where "asks fdget user arg p f" "create_allowed d reg_num p f"
      "do_create_fd_scoped_permission fdget user reg_num np arg d = Some (Inr (), created d reg_num np p f)"
  | (refused) e d' where "do_create_fd_scoped_permission fdget user reg_num np arg d = Some (Inl e, d')"
      "\<And>p f. asks fdget user arg p f \<Longrightarrow> \<not> create_allowed d reg_num p f" "\<exists>x. d' = d\<lparr>v_nodes := (v_nodes d)(np := x)\<rparr>"
proof (cases "copy_from_user user arg 16")
  case None
  show thesis by (rule refused [of EFAULT d]) (auto simp: None do_create_fd_scoped_permission_def asks_def intro: exI [of _ "v_nodes d np"])
next
  case bs: (Some bs)
  show thesis
  proof (cases "get_user_u32 user (arg + 16)")
    case None
    show thesis by (rule refused [of EFAULT d]) (auto simp: bs None do_create_fd_scoped_permission_def asks_def intro: exI [of _ "v_nodes d np"])
  next
    case fd: (Some fd)
    let ?p = "to_permission bs"
    let ?d = "d\<lparr>v_nodes := (v_nodes d)(np := ?p)\<rparr>"
    have l: "layout_ok ?d" by (rule layout_ok_same [OF _ _ _ _ assms(1)]) (simp_all add: same_header_def)
    have c: "region_count ?d = region_count d" by (simp add: region_count_def)
    show thesis
    proof (cases "fdget fd")
      case None
      show thesis by (rule refused [of EPERM ?d]) (auto simp: bs fd None do_create_fd_scoped_permission_def asks_def)
    next
      case f: (Some f)
      have a: "asks fdget user arg p g \<longleftrightarrow> p = ?p \<and> g = f" for p g using bs fd f by (auto simp: asks_def)
      have pn: "private_node ?d f = f_private (v_files d f)"
        using assms f by (auto simp: private_node_def layout_ok_def header_ok_def split: option.splits)
      have eq: "do_create_fd_scoped_permission fdget user reg_num np arg d =
        (if create_allowed d reg_num ?p f then Some (Inr (), created d reg_num np ?p f)
         else Some (Inl (if f_minor (v_files d f) \<ge> region_count d \<or> f_private (v_files d f) = None then EPERM
                    else if f_private (v_files d f) \<noteq> Some None then EEXIST
                    else if managed_by (vsoc_region d (f_minor (v_files d f))) \<noteq> reg_num then EPERM
                    else case check_permission (vsoc_region d reg_num) (vsoc_region d (f_minor (v_files d f))) ?p of
                      Inl e \<Rightarrow> e | Inr _ \<Rightarrow> EBUSY), ?d))"
        by (cases "f_private (v_files d f)"; cases "f_minor (v_files d f) \<ge> region_count d")
          (auto simp: do_create_fd_scoped_permission_def bs fd f Let_def validate_filep [OF l] c pn create_allowed_def created_def
             split: option.split sum.split)
      show thesis
      proof (cases "create_allowed d reg_num ?p f")
        case True
        then show thesis using granted [of ?p f] eq a by simp
      next
        case False
        show thesis by (rule refused) (use eq False a in auto)
      qed
    qed
  qed
qed

end
