(* ===== verification/Vsoc_Steps.thy ===== *)
theory Vsoc_Steps
  imports Vsoc_Ops
begin

text \<open>
  The ioctls on a consistent device, and the device as a transition system: any sequence of the file operations and of the
  stores through mappings keeps the invariant.
\<close>

section \<open>The ioctls keep the invariant\<close>

lemma has_node_created: "has_node (created d reg_num np p f) g q \<longleftrightarrow>
    (if g = f then f_vsoc (v_files d f) \<and> q = np else has_node d g q)"
  by (auto simp: created_def set_file_def set_mem_u32_def has_node_def)

lemma created_layout:
  assumes "layout_ok d" "reg_num < region_count d" "create_allowed d reg_num p f"
  shows "same_layout d (created d reg_num np p f)"
proof -
  have "region_inside d (vsoc_region d reg_num)" using assms(1,2) by (simp add: layout_ok_def)
  then have "4096 \<le> owner_addr (vsoc_region d reg_num) p"
    using owner_addr_bounds(3) assms(3) unfolding create_allowed_def by blast
  then show ?thesis by (simp add: same_layout_def created_def set_file_def set_mem_u32_def same_header_write)
qed

lemma created_inv:
  assumes "vsoc_inv d" "reg_num < region_count d" "create_allowed d reg_num p f" "f_vsoc (v_files d f)" "np \<notin> set (permissions d)"
    and "reg_num \<noteq> 0 \<or> f_minor (v_files d f) = 0"
  shows "vsoc_inv ((created d reg_num np p f)\<lparr>permissions := np # permissions d\<rparr>)" (is "vsoc_inv ?d")
proof -
  have l: "layout_ok d" and n: "nodes_ok d" and sg: "signals_ok d" using assms(1) by (auto simp: vsoc_inv_def)
  have s: "same_layout d ?d" using created_layout [OF l assms(2,3)] by (simp add: same_layout_def)
  have h: "has_node ?d g q \<longleftrightarrow> (if g = f then q = np else has_node d g q)" for g q
    using has_node_created [of d reg_num np p f g q] assms(4) by (simp add: has_node_def)
  have np: "\<not> has_node d g np" for g using n assms(5) by (auto simp: nodes_ok_def)
  have nn: "\<not> has_node d f q" for q using assms(3) by (simp add: create_allowed_def has_node_def)
  have "nodes_ok ?d"
  proof (rule nodes_ok_add [OF n l s nn assms(5) _ h])
    show "f_minor (v_files ?d g) = f_minor (v_files d g) \<and> v_nodes ?d q = v_nodes d q" if "has_node d g q" for g q
      using that np by (auto simp: created_def set_file_def set_mem_u32_def)
    show "permission_ok d (f_minor (v_files ?d f)) (v_nodes ?d np)"
      using assms(3,6) by (auto simp: created_def set_file_def set_mem_u32_def permission_ok_def create_allowed_def VSOC_REGION_WHOLE_def)
  qed simp
  then show ?thesis using same_layout_ok [OF s l] same_layout_signals [OF s sg] by (simp add: vsoc_inv_def)
qed

text \<open>
  What the steps assume of the environment: file descriptors lead to files of this driver, a new node is not in use, others
  keep the invariant while a thread sleeps, and region 0 manages no other region (see \<open>release_frees_wrong_word\<close>).
\<close>

definition fair_env :: "vsoc_env \<Rightarrow> u64 \<Rightarrow> ptr \<Rightarrow> vsoc_device \<Rightarrow> bool" where
  "fair_env env arg f d \<longleftrightarrow>
     (\<forall>fd g. ve_fdget env fd = Some g \<longrightarrow> f_vsoc (v_files d g)) \<and> (\<forall>np. ve_node env = Some np \<longrightarrow> np \<notin> set (permissions d)) \<and>
     (\<forall>k e. vsoc_inv e \<longrightarrow> vsoc_inv (snd (snd (ve_sched env k e)))) \<and>
     (\<forall>p g. asks (ve_fdget env) (ve_user env) arg p g \<longrightarrow> f_minor (v_files d f) \<noteq> 0 \<or> f_minor (v_files d g) = 0)"

lemma create_ioctl_inv:
  assumes "vsoc_inv d" "fair_env env arg f d" "f_minor (v_files d f) < region_count d"
    and "create_permission_ioctl env (f_minor (v_files d f)) arg d = Some (r, d')"
  shows "vsoc_inv d'"
proof (cases "ve_node env")
  case None
  then show ?thesis using assms(1,4) by (simp add: create_permission_ioctl_def)
next
  case (Some np)
  have l: "layout_ok d" using assms(1) by (simp add: vsoc_inv_def)
  have v: "\<And>fd g. ve_fdget env fd = Some g \<Longrightarrow> f_vsoc (v_files d g)" and new: "np \<notin> set (permissions d)"
    using assms(2) Some by (auto simp: fair_env_def)
  show ?thesis
  proof (rule create_result [OF l, of "ve_fdget env", where user = "ve_user env" and arg = arg and reg_num = "f_minor (v_files d f)" and np = np])
    show "\<And>fd g. ve_fdget env fd = Some g \<Longrightarrow> f_vsoc (v_files d g)" by (rule v)
  next
    fix p g assume 2: "asks (ve_fdget env) (ve_user env) arg p g" "create_allowed d (f_minor (v_files d f)) p g"
      "do_create_fd_scoped_permission (ve_fdget env) (ve_user env) (f_minor (v_files d f)) np arg d =
       Some (Inr (), created d (f_minor (v_files d f)) np p g)"
    then have "f_vsoc (v_files d g)" using v by (auto simp: asks_def)
    then have "vsoc_inv ((created d (f_minor (v_files d f)) np p g)\<lparr>permissions := np # permissions d\<rparr>)"
      using created_inv [OF assms(1,3) 2(2) _ new] assms(2) 2(1) by (auto simp: fair_env_def)
    then show ?thesis using assms(4) Some 2(3) by (auto simp: create_permission_ioctl_def created_def set_file_def set_mem_u32_def)
  next
    fix e d'' assume 3: "do_create_fd_scoped_permission (ve_fdget env) (ve_user env) (f_minor (v_files d f)) np arg d = Some (Inl e, d'')"
      "\<exists>x. d'' = d\<lparr>v_nodes := (v_nodes d)(np := x)\<rparr>"
    have "\<not> has_node d g np" for g using new assms(1) by (auto simp: vsoc_inv_def nodes_ok_def)
    then have "vsoc_inv d''" using 3(2)
      by (elim exE) (auto intro!: vsoc_inv_keep [OF assms(1)] simp: same_layout_def same_header_def has_node_def)
    then show ?thesis using assms(4) Some 3(1) by (simp add: create_permission_ioctl_def)
  qed
qed

lemma set_mem_u32_inv: "vsoc_inv d \<Longrightarrow> 4096 \<le> a \<Longrightarrow> vsoc_inv (set_mem_u32 a v d)"
  unfolding set_mem_u32_def by (rule vsoc_inv_mem) (simp_all add: same_header_write)

lemma vsoc_inv_events: "vsoc_inv d \<Longrightarrow> vsoc_inv (d\<lparr>doorbell := x\<rparr>)" "vsoc_inv d \<Longrightarrow> vsoc_inv (d\<lparr>v_wakes := y\<rparr>)"
  by (rule vsoc_inv_keep; simp add: same_layout_def same_header_def has_node_def)+

definition keeps_inv :: "vsoc_sched \<Rightarrow> bool" where
  "keeps_inv sched \<longleftrightarrow> (\<forall>k e. vsoc_inv e \<longrightarrow> vsoc_inv (snd (snd (sched k e))))"

lemma wait_incoming_inv:
  assumes "wait_incoming sched a k d = Some d'"
  shows "keeps_inv sched \<longrightarrow> vsoc_inv d \<longrightarrow> vsoc_inv d'"
proof (rule wait_incoming.raw_induct [where P = "\<lambda>sched a k d d'. keeps_inv sched \<longrightarrow> vsoc_inv d \<longrightarrow> vsoc_inv d'", OF _ assms], goal_cases)
  case (1 w sched a k d d')
  have "keeps_inv sched \<Longrightarrow> vsoc_inv d \<Longrightarrow> sched k d = (x, y, d1) \<Longrightarrow> vsoc_inv d1" for x y d1
    unfolding keeps_inv_def by (metis snd_conv)
  then show ?case using 1(2) by (auto split: prod.splits if_splits dest: 1(1))
qed

lemma cond_wait_inv:
  assumes "cond_wait_loop sched timed a val k n d = Some x"
  shows "keeps_inv sched \<longrightarrow> vsoc_inv d \<longrightarrow> vsoc_inv (snd (snd x))"
proof (rule cond_wait_loop.raw_induct [where P = "\<lambda>sched timed a val k n d x. keeps_inv sched \<longrightarrow> vsoc_inv d \<longrightarrow> vsoc_inv (snd (snd x))",
    OF _ assms], goal_cases)
  case (1 w sched timed a val k n d x)
  obtain u v d1 where e: "sched k d = (u, v, d1)" by (cases "sched k d")
  then have "keeps_inv sched \<Longrightarrow> vsoc_inv d \<Longrightarrow> vsoc_inv d1" unfolding keeps_inv_def by (metis snd_conv)
  then show ?case using 1(2) 1(1) [of sched timed a val "Suc k" "n + 1" d1 x] by (auto simp: e split: if_splits)
qed

lemma cond_ioctl_inv:
  assumes "vsoc_inv d" "keeps_inv sched" "do_vsoc_cond_wait sched user ok reg_num arg d = Some (r, bs, d')"
  shows "vsoc_inv d'"
proof -
  have "vsoc_inv d1" if "handle_vsoc_cond_wait sched reg_num a d = Some (q, n, d1)" for a q n d1
    using that assms(1,2) by (auto simp: handle_vsoc_cond_wait_def Let_def split: if_splits sum.splits dest: cond_wait_inv)
  then show ?thesis using assms(1,3) by (auto simp: do_vsoc_cond_wait_def Let_def split: option.splits if_splits)
qed

lemma ioctl_inv:
  assumes inv: "vsoc_inv d" and fair: "fair_env env arg f d" and r: "vsoc_ioctl env f cmd arg d = Some (r, bs, d')"
  shows "vsoc_inv d'"
proof (cases "vsoc_validate_filep d f = Some (Inr ())")
  case True
  have l: "layout_ok d" and sg: "signals_ok d" using inv by (auto simp: vsoc_inv_def)
  have i: "f_minor (v_files d f) < region_count d" using True by (simp add: validate_filep [OF l] not_le split: if_splits)
  have k: "keeps_inv (ve_sched env)" using fair by (simp add: fair_env_def keeps_inv_def)
  obtain rds node where x: "regions_data d = Some rds" "private_node d f = Some node"
    using r True by (auto simp: vsoc_ioctl_def split: option.splits)
  let ?rd = "rds ! unat (f_minor (v_files d f))"
  have s: "4096 \<le> incoming_signalled ?rd" "4096 \<le> outgoing_signalled ?rd" using sg i x(1) by (auto simp: signals_ok_def)
  note ds = set_mem_u32_inv [OF inv s(1)] set_mem_u32_inv [OF inv s(2)] vsoc_inv_events
  have "do_vsoc_cond_wake reg off d = Some (q, d1) \<Longrightarrow> vsoc_inv d1" for reg off q d1
    using inv by (auto simp: do_vsoc_cond_wake_def vsoc_inv_events split: if_splits sum.splits)
  with r inv show ?thesis
    unfolding vsoc_ioctl_def True x Let_def
    by (auto split: if_splits option.splits simp: ds k dest: create_ioctl_inv [OF inv fair i] cond_ioctl_inv [OF inv k] wait_incoming_inv)
next
  case False
  then show ?thesis using r inv by (auto simp: vsoc_ioctl_def split: option.splits sum.splits)
qed

section \<open>The device as a transition system\<close>

text \<open>
  A process stores bytes through a mapping it was granted: the byte \<open>i\<close> of the window is at the physical address
  \<open>shm_phys_start + i\<close>. The stores into the page of the descriptors are left out. No mapping that lies in the area of its file
  reaches that page; one that lies behind the area may (see \<open>vsoc_mmap_bounds\<close>), and a process that uses it so can make the
  descriptors say anything.
\<close>

definition mapped_byte :: "vsoc_device \<Rightarrow> nat \<Rightarrow> bool" where
  "mapped_byte d i \<longleftrightarrow> (\<exists>va pa n. (va, pa, n) \<in> set (v_maps d) \<and> (\<exists>x < n. pa + x = shm_phys_start d + of_nat i))"

definition user_store :: "nat \<Rightarrow> u8 \<Rightarrow> vsoc_device \<Rightarrow> vsoc_device" where
  "user_store i b d = d\<lparr>v_mem := (v_mem d)(i := b)\<rparr>"

lemma user_store_inv: "vsoc_inv d \<Longrightarrow> 4096 \<le> i \<Longrightarrow> vsoc_inv (user_store i b d)"
  unfolding user_store_def by (rule vsoc_inv_mem) (simp_all add: same_header_def)

inductive vsoc_step :: "vsoc_device \<Rightarrow> vsoc_device \<Rightarrow> bool" where
  step_open: "f_private (v_files d f) = None \<Longrightarrow> vsoc_open ok f d = Some (r, d') \<Longrightarrow> vsoc_step d d'"
| step_release: "f_vsoc (v_files d f) \<Longrightarrow> vsoc_release f d = Some (r, d') \<Longrightarrow> vsoc_step d d'"
| step_write: "f_vsoc (v_files d f) \<Longrightarrow> 0 \<le> sint pos \<Longrightarrow> vsoc_write user f buf len pos d = Some (r, pos', d') \<Longrightarrow> vsoc_step d d'"
| step_lseek: "vsoc_lseek f offset origin d = Some (r, d') \<Longrightarrow> vsoc_step d d'"
| step_mmap: "vsoc_mmap ok f vma d = Some (r, d') \<Longrightarrow> vsoc_step d d'"
| step_ioctl: "fair_env env arg f d \<Longrightarrow> vsoc_ioctl env f cmd arg d = Some (r, bs, d') \<Longrightarrow> vsoc_step d d'"
| step_store: "mapped_byte d i \<Longrightarrow> i < unat (shm_size d) \<Longrightarrow> 4096 \<le> i \<Longrightarrow> vsoc_step d (user_store i b d)"

lemma vsoc_step_inv: "vsoc_step d d' \<Longrightarrow> vsoc_inv d \<Longrightarrow> vsoc_inv d'"
  by (induction rule: vsoc_step.induct)
    (blast intro: open_inv release_inv write_inv lseek_inv mmap_inv ioctl_inv user_store_inv)+

lemma vsoc_reachable_inv: "vsoc_step\<^sup>*\<^sup>* d d' \<Longrightarrow> vsoc_inv d \<Longrightarrow> vsoc_inv d'"
  by (induction rule: rtranclp_induct) (simp_all add: vsoc_step_inv)

text \<open>A device as the probe leaves it, with the documented layout and no open file.\<close>

definition vsoc_start :: "vsoc_device \<Rightarrow> bool" where
  "vsoc_start d \<longleftrightarrow> layout_ok d \<and> signals_ok d \<and> permissions d = [] \<and> (\<forall>f. f_private (v_files d f) = None)"

lemma vsoc_start_inv: "vsoc_start d \<Longrightarrow> vsoc_inv d"
  by (simp add: vsoc_start_def vsoc_inv_def nodes_ok_def has_node_def)

end
