(* ===== verification/Vsoc_Props.thy ===== *)
theory Vsoc_Props
  imports Vsoc_Steps
begin

text \<open>
  Properties of the VSoC driver: files are confined to the area their permission or region gives them, a permission is
  exclusive while it is held and leaves no trace when its file is closed, and which mappings are granted.
\<close>

section \<open>A sample device\<close>

text \<open>Three regions: region 0 and region 1 are whole, region 2 is managed by region 1.\<close>

definition demo_mem :: "nat \<Rightarrow> u8" where
  "demo_mem i =
     (if i = 0 then 2 else if i = 8 then 3 else if i = 12 then 16
      else if i = 21 then 0x10 else if i = 25 then 0x20
      else if i = 81 then 0x20 else if i = 85 then 0x30
      else if i = 141 then 0x30 else if i = 145 then 0x50 else if i = 192 then 1 else 0)"

definition demo_data :: "vsoc_region_data list" where
  "demo_data = map (\<lambda>b. zero_region_data\<lparr>incoming_signalled := b, outgoing_signalled := b + 4\<rparr>) [4096, 8192, 12288]"

definition no_pci :: pci_state where
  "no_pci = \<lparr>pci_enabled = False, pci_regions = False, pci_regs = False, pci_shm = False, pci_chrdev = False, pci_cdev = False,
     pci_class = False, pci_msix = False, pci_irqs = [], pci_devices = []\<rparr>"

text \<open>File \<open>k\<close> is opened on region \<open>k\<close>.\<close>

definition demo_device :: vsoc_device where
  "demo_device = \<lparr>v_regs = True, shm_phys_start = 0x10000000, kernel_mapped_shm = True, shm_size = 0x5000, layout = True,
     regions = Some 16, permissions = [], v_dev = True, regions_data = Some demo_data, msix_entries = Some [5, 6, 7], v_major = 240,
     enabled_device = True, requested_regions = True, cdev_added = True, class_added = True, msix_enabled = True, pci = no_pci,
     v_mem = demo_mem, v_nodes = (\<lambda>_. \<lparr>begin_offset = 0, end_offset = 0, owner_offset = 0, owned_value = 0\<rparr>),
     v_files = (\<lambda>f. \<lparr>f_vsoc = True, f_minor = of_nat f, f_private = None, vf_pos = 0\<rparr>),
     doorbell = [], v_wakes = [], v_maps = []\<rparr>"

lemma demo_fields: "regions_data demo_device = Some demo_data" "permissions demo_device = []" "regions demo_device = Some 16"
    "layout demo_device" "shm_size demo_device = 0x5000" "v_mem demo_device = demo_mem" "shm_phys_start demo_device = 0x10000000"
    "v_maps demo_device = []"
    "v_files demo_device f = \<lparr>f_vsoc = True, f_minor = of_nat f, f_private = None, vf_pos = 0\<rparr>"
  by (simp_all add: demo_device_def)

lemma demo_count: "region_count demo_device = 3"
  by (simp add: region_count_def mem_u32_def mem_read_def demo_device_def demo_mem_def get_u32_def upt_rec)

lemma demo_regions:
  "region_begin_offset (vsoc_region demo_device 0) = 0x1000" "region_end_offset (vsoc_region demo_device 0) = 0x2000"
  "managed_by (vsoc_region demo_device 0) = 0"
  "region_begin_offset (vsoc_region demo_device 1) = 0x2000" "region_end_offset (vsoc_region demo_device 1) = 0x3000"
  "managed_by (vsoc_region demo_device 1) = 0"
  "region_begin_offset (vsoc_region demo_device 2) = 0x3000" "region_end_offset (vsoc_region demo_device 2) = 0x5000"
  "managed_by (vsoc_region demo_device 2) = 1"
  "offset_of_region_data (vsoc_region demo_device 1) = 0" "offset_of_region_data (vsoc_region demo_device 2) = 0"
  by (simp_all add: vsoc_region_def region_from_def sizeof_vsoc_device_region_def to_region_def mem_read_def demo_device_def
      demo_mem_def get_u32_def drop_map take_map)

lemma below_three: "i < (3 :: u32) \<Longrightarrow> i = 0 \<or> i = 1 \<or> i = 2"
  by (simp add: word_less_nat_alt word_unat_eq_iff) linarith

lemma demo_layout: "layout_ok demo_device"
proof -
  have "region_inside demo_device (vsoc_region demo_device i)" if "i < 3" for i
    using below_three [OF that]
    by (elim disjE) (simp_all add: region_inside_def region_ok_def demo_count demo_regions PAGE_ALIGNED_def demo_fields)
  then show ?thesis
    by (simp add: layout_ok_def header_ok_def demo_count sizeof_vsoc_device_region_def demo_fields)
qed

lemma demo_start: "vsoc_start demo_device"
proof -
  have "4096 \<le> incoming_signalled (demo_data ! unat i) \<and> 4096 \<le> outgoing_signalled (demo_data ! unat i)" if "i < 3" for i :: u32
    using below_three [OF that] by (elim disjE) (simp_all add: demo_data_def)
  then show ?thesis
    using demo_layout by (simp add: vsoc_start_def signals_ok_def demo_count demo_fields)
qed

definition demo_open :: "ptr \<Rightarrow> vsoc_device \<Rightarrow> vsoc_device" where
  "demo_open f d = set_file f ((v_files d f)\<lparr>f_private := Some None\<rparr>) d"

lemma demo_open_step:
  assumes "layout_ok d" "f_minor (v_files d f) < region_count d" "f_private (v_files d f) = None"
  shows "vsoc_step d (demo_open f d)"
proof (rule step_open [of d f True "Inr ()"])
  have "layout d" using assms(1) by (simp add: layout_ok_def header_ok_def)
  then show "vsoc_open True f d = Some (Inr (), demo_open f d)"
    using assms(2) by (simp add: vsoc_open_def vsoc_validate_inode_def demo_open_def leD)
qed (rule assms(3))

section \<open>Confinement\<close>

lemma area_in_region:
  assumes "vsoc_inv d" "f_vsoc (v_files d f)" "f_private (v_files d f) \<noteq> None" "f_minor (v_files d f) < region_count d"
  shows "file_area d f \<subseteq> region_bytes d (f_minor (v_files d f))"
  using get_area [OF assms] by metis

text \<open>
  C27. In every state that the steps of \<open>vsoc_step\<close> reach from a freshly attached device with the documented layout
  (descriptors and table in the first page, regions behind it), an open file can use only the area that its permission gives
  it, or its whole region when that is managed by none: reading returns bytes of this area only, writing changes bytes of this
  area only, and the area lies in the region of the file, inside the window and outside the page of the descriptors. No read
  or write faults. The steps are the file operations and the stores of processes through granted mappings. Not among them
  are: a store into the page of the descriptors, which a mapping behind the area of its file makes possible (see
  \<open>vsoc_mmap_bounds\<close>); a request for a permission that names a file of another driver; and a request through region 0 for a
  file of another region (see \<open>release_frees_wrong_word\<close>). New permission nodes are unused ones, and what others do while a
  waiting thread sleeps keeps the invariant (\<open>fair_env\<close>).
\<close>

theorem vsoc_files_confined:
  assumes "vsoc_start d0" "vsoc_step\<^sup>*\<^sup>* d0 d"
    and "f_vsoc (v_files d f)" "f_private (v_files d f) \<noteq> None" "f_minor (v_files d f) < region_count d" "0 \<le> sint pos"
  shows "(\<exists>r bs pos' a. vsoc_read ok f len pos d = Some (r, bs, pos') \<and> bs = mem_read (v_mem d) a (length bs) \<and>
           {a..<a + length bs} \<subseteq> file_area d f) \<and>
         (\<exists>r pos' m. vsoc_write user f buf len pos d = Some (r, pos', d\<lparr>v_mem := m\<rparr>) \<and>
           (\<forall>i. m i \<noteq> v_mem d i \<longrightarrow> i \<in> file_area d f)) \<and>
         file_area d f \<subseteq> region_bytes d (f_minor (v_files d f)) \<and>
         region_bytes d (f_minor (v_files d f)) \<subseteq> {4096..<unat (shm_size d)}"
proof -
  have inv: "vsoc_inv d" using vsoc_reachable_inv [OF assms(2)] vsoc_start_inv [OF assms(1)] by blast
  have "\<exists>r pos' m. vsoc_write user f buf len pos d = Some (r, pos', d\<lparr>v_mem := m\<rparr>) \<and> (\<forall>i. m i \<noteq> v_mem d i \<longrightarrow> i \<in> file_area d f)"
    using write_confined [OF inv assms(3,6), of user buf len] by blast
  then show ?thesis
    using read_confined [OF inv assms(3,6), of ok len] area_in_region [OF inv assms(3-5)] region_bytes_window [OF _ assms(5)] inv
    by (simp add: vsoc_inv_def)
qed

theorem vsoc_files_confined_witness:
  "\<exists>r bs pos' a. vsoc_read True 0 16 0 (demo_open 0 demo_device) = Some (r, bs, pos') \<and>
     bs = mem_read (v_mem (demo_open 0 demo_device)) a (length bs) \<and> {a..<a + length bs} \<subseteq> file_area (demo_open 0 demo_device) 0"
proof -
  have "vsoc_step\<^sup>*\<^sup>* demo_device (demo_open 0 demo_device)"
    by (intro r_into_rtranclp demo_open_step demo_layout) (simp_all add: demo_fields demo_count)
  moreover have "region_count (demo_open 0 demo_device) = 3"
    using demo_count by (simp add: region_count_def demo_open_def set_file_def)
  ultimately show ?thesis
    using vsoc_files_confined [OF demo_start, of "demo_open 0 demo_device" 0 0 True 16 "\<lambda>_. []" 0]
    by (simp add: demo_open_def set_file_def demo_fields)
qed

section \<open>Permissions\<close>

text \<open>A successful request for a permission, seen from the ioctl.\<close>

lemma create_ioctl_granted:
  assumes inv: "vsoc_inv d" and fair: "fair_env env arg c d"
    and r: "vsoc_ioctl env c VSOC_CREATE_FD_SCOPED_PERMISSION arg d = Some (Inr (), bs, d1)"
  obtains p f np where "asks (ve_fdget env) (ve_user env) arg p f" "create_allowed d (f_minor (v_files d c)) p f"
    "f_minor (v_files d c) < region_count d" "np \<notin> set (permissions d)" "f_vsoc (v_files d f)"
    "d1 = (created d (f_minor (v_files d c)) np p f)\<lparr>permissions := np # permissions d\<rparr>"
proof -
  have l: "layout_ok d" using inv by (simp add: vsoc_inv_def)
  have v: "\<And>fd g. ve_fdget env fd = Some g \<Longrightarrow> f_vsoc (v_files d g)" using fair by (simp add: fair_env_def)
  have val: "vsoc_validate_filep d c = Some (Inr ())" using r by (auto simp: vsoc_ioctl_def split: option.splits sum.splits)
  then have i: "f_minor (v_files d c) < region_count d" by (simp add: validate_filep [OF l] not_le split: if_splits)
  have c: "create_permission_ioctl env (f_minor (v_files d c)) arg d = Some (Inr (), d1)"
    using r val by (auto simp: vsoc_ioctl_def Let_def split: option.splits)
  then obtain np where np: "ve_node env = Some np" by (auto simp: create_permission_ioctl_def split: option.splits)
  have new: "np \<notin> set (permissions d)" using fair np by (simp add: fair_env_def)
  show thesis
  proof (rule create_result [OF l, of "ve_fdget env", where user = "ve_user env" and arg = arg and reg_num = "f_minor (v_files d c)" and np = np])
    show "\<And>fd g. ve_fdget env fd = Some g \<Longrightarrow> f_vsoc (v_files d g)" by (rule v)
  next
    fix p f assume g: "asks (ve_fdget env) (ve_user env) arg p f" "create_allowed d (f_minor (v_files d c)) p f"
      "do_create_fd_scoped_permission (ve_fdget env) (ve_user env) (f_minor (v_files d c)) np arg d =
       Some (Inr (), created d (f_minor (v_files d c)) np p f)"
    have "d1 = (created d (f_minor (v_files d c)) np p f)\<lparr>permissions := np # permissions d\<rparr>"
      using c np g(3) by (auto simp: create_permission_ioctl_def created_def set_file_def set_mem_u32_def)
    moreover have "f_vsoc (v_files d f)" using g(1) v by (auto simp: asks_def)
    ultimately show thesis using that [OF g(1,2) i new] by blast
  next
    fix e d' assume "do_create_fd_scoped_permission (ve_fdget env) (ve_user env) (f_minor (v_files d c)) np arg d = Some (Inl e, d')"
    then show thesis using c np by (simp add: create_permission_ioctl_def)
  qed
qed

lemma mem_u32_other: "a + 4 \<le> b \<Longrightarrow> mem_u32 (mem_write b bs m) a = mem_u32 m a"
  unfolding mem_u32_def by (intro arg_cong [where f = "get_u32 0"] mem_read_cong) simp

lemma created_mem:
  "v_mem (created d reg_num np p f) = mem_write (owner_addr (vsoc_region d reg_num) p) (word_bytes 4 (owned_value p)) (v_mem d)"
  by (simp add: created_def set_file_def set_mem_u32_def)

lemma owner_word_restored:
  assumes "mem_u32 m a = v"
  shows "mem_write a (word_bytes 4 v) (mem_write a (word_bytes 4 w) m) = m"
  using assms word_bytes_mem_u32 [of m a] mem_write_same [of a m 4] by (simp add: mem_write_write)

text \<open>After the request: the descriptors, the word of the owner and the file.\<close>

definition granted :: "vsoc_device \<Rightarrow> u32 \<Rightarrow> ptr \<Rightarrow> fd_scoped_permission \<Rightarrow> ptr \<Rightarrow> vsoc_device \<Rightarrow> bool" where
  "granted d i np p f d1 \<longleftrightarrow>
     vsoc_inv d \<and> vsoc_inv d1 \<and> i < region_count d \<and> create_allowed d i p f \<and> np \<notin> set (permissions d) \<and> f_vsoc (v_files d f) \<and>
     d1 = (created d i np p f)\<lparr>permissions := np # permissions d\<rparr>"

lemma granted_facts:
  assumes "granted d i np p f d1"
  defines "a \<equiv> owner_addr (vsoc_region d i) p"
  shows "\<And>k. k < region_count d \<Longrightarrow> vsoc_region d1 k = vsoc_region d k"
    and "v_mem d1 = mem_write a (word_bytes 4 (owned_value p)) (v_mem d)" "mem_u32 (v_mem d1) a = owned_value p"
    and "\<And>x. f_minor (v_files d1 x) = f_minor (v_files d x)" "has_node d1 f np" "v_nodes d1 np = p"
    and "managed_by (vsoc_region d (f_minor (v_files d f))) = i" "f_minor (v_files d f) < region_count d"
    and "mem_u32 (v_mem d) a = VSOC_REGION_FREE" "owned_value p \<noteq> VSOC_REGION_FREE"
proof -
  note g = assms(1) [unfolded granted_def]
  have l: "layout_ok d" using g by (simp add: vsoc_inv_def)
  have "same_layout d d1" using created_layout [OF l, of i p f np] g by (simp add: same_layout_def)
  then show "\<And>k. k < region_count d \<Longrightarrow> vsoc_region d1 k = vsoc_region d k" using same_layout_region l by blast
  show m: "v_mem d1 = mem_write a (word_bytes 4 (owned_value p)) (v_mem d)" using g by (simp add: created_mem a_def)
  show "mem_u32 (v_mem d1) a = owned_value p" by (simp add: m)
  show "\<And>x. f_minor (v_files d1 x) = f_minor (v_files d x)" "has_node d1 f np" "v_nodes d1 np = p"
    using g by (auto simp: has_node_def created_def set_file_def set_mem_u32_def)
  show "managed_by (vsoc_region d (f_minor (v_files d f))) = i" "f_minor (v_files d f) < region_count d"
      "mem_u32 (v_mem d) a = VSOC_REGION_FREE" using g by (auto simp: create_allowed_def a_def)
  show "owned_value p \<noteq> VSOC_REGION_FREE"
    using g check_permission_bounds(6) by (auto simp: create_allowed_def VSOC_REGION_FREE_def)
qed

lemma granted_area:
  assumes "granted d i np p f d1"
  defines "b \<equiv> unat (region_begin_offset (vsoc_region d (f_minor (v_files d f))))"
  shows "file_area d1 f = {b + unat (begin_offset p)..<b + unat (end_offset p)}"
  using granted_facts [OF assms(1)] by (simp add: file_area_def has_node_def Let_def b_def)

lemma granted_busy:
  assumes g: "granted d i np p f d1" and c: "f_minor (v_files d1 c) = i" "fair_env env arg c d1"
    and a: "asks (ve_fdget env) (ve_user env) arg q g" "owner_offset q = owner_offset p"
  shows "vsoc_ioctl env c VSOC_CREATE_FD_SCOPED_PERMISSION arg d1 \<noteq> Some (Inr (), bs, d')"
proof
  assume "vsoc_ioctl env c VSOC_CREATE_FD_SCOPED_PERMISSION arg d1 = Some (Inr (), bs, d')"
  moreover have "vsoc_inv d1" using g unfolding granted_def by blast
  ultimately obtain q' g' where q: "asks (ve_fdget env) (ve_user env) arg q' g'" "create_allowed d1 i q' g'"
    using create_ioctl_granted [OF _ c(2)] c(1) by metis
  then have "q' = q" using a(1) by (auto simp: asks_def)
  moreover have "i < region_count d" using g by (simp add: granted_def)
  ultimately have "mem_u32 (v_mem d1) (owner_addr (vsoc_region d i) p) = VSOC_REGION_FREE"
    using q(2) a(2) by (simp add: create_allowed_def owner_addr_def granted_facts(1) [OF g])
  then show False using granted_facts(3,10) [OF g] by simp
qed

lemma granted_release:
  assumes g: "granted d i np p f d1"
  shows "\<exists>d2. vsoc_release f d1 = Some (Inr (), d2) \<and> v_mem d2 = v_mem d \<and> permissions d2 = permissions d \<and>
    f_private (v_files d2 f) = None \<and> (\<forall>g. g \<noteq> f \<longrightarrow> v_files d2 g = v_files d g)"
proof -
  note d = g [unfolded granted_def] and fs = granted_facts [OF g]
  let ?a = "owner_addr (vsoc_region d i) p"
  have inv: "vsoc_inv d1" using d by blast
  have "vsoc_region d1 (managed_by (vsoc_region d1 (f_minor (v_files d1 f)))) = vsoc_region d i"
    using d fs(1,4,7,8) by metis
  then have "vsoc_release f d1 = Some (Inr (), set_file f ((v_files d1 f)\<lparr>f_private := None\<rparr>)
      ((set_mem_u32 ?a VSOC_REGION_FREE d1)\<lparr>permissions := list_del np (permissions d1)\<rparr>))" (is "_ = Some (_, ?d2)")
    using release_with_node [OF inv fs(5)] unfolding fs(6) by simp
  moreover have "v_mem ?d2 = v_mem d"
    using owner_word_restored [OF fs(9), of "owned_value p"] by (simp add: set_file_def set_mem_u32_def fs(2))
  moreover have "permissions ?d2 = permissions d" using d by (simp add: set_file_def set_mem_u32_def list_del_def)
  moreover have "f_private (v_files ?d2 f) = None" "\<forall>g. g \<noteq> f \<longrightarrow> v_files ?d2 g = v_files d g"
    using d by (simp_all add: set_file_def set_mem_u32_def created_def)
  ultimately show ?thesis by blast
qed

text \<open>
  C28. When a request for a permission is granted, in a state reached as in C27 and from a caller that satisfies \<open>fair_env\<close>,
  the file got exactly the area asked for and the owner word holds the value asked for. Right after it no other request for
  the same owner word through the same region is granted, whoever makes it, as long as that one satisfies \<open>fair_env\<close>
  too. Closing the file then gives the permission back: memory and the list of permissions are what they were before.
  \<open>fair_env\<close> leaves out the requests through region 0 for a file of another region, for which closing the file does not restore the
  memory (\<open>release_frees_wrong_word\<close>), and the ones for a file of another driver.
\<close>

theorem permission_exclusive:
  assumes "vsoc_start d0" "vsoc_step\<^sup>*\<^sup>* d0 d" "fair_env env arg c d"
    and "vsoc_ioctl env c VSOC_CREATE_FD_SCOPED_PERMISSION arg d = Some (Inr (), bs, d1)"
  shows "\<exists>p f. asks (ve_fdget env) (ve_user env) arg p f \<and>
    file_area d1 f = {unat (region_begin_offset (vsoc_region d (f_minor (v_files d f)))) + unat (begin_offset p)..<
                      unat (region_begin_offset (vsoc_region d (f_minor (v_files d f)))) + unat (end_offset p)} \<and>
    mem_u32 (v_mem d1) (owner_addr (vsoc_region d (f_minor (v_files d c))) p) = owned_value p \<and>
    (\<forall>env' arg' c' q g bs' d'. asks (ve_fdget env') (ve_user env') arg' q g \<and> owner_offset q = owner_offset p \<and>
       f_minor (v_files d1 c') = f_minor (v_files d c) \<and> fair_env env' arg' c' d1 \<longrightarrow>
       vsoc_ioctl env' c' VSOC_CREATE_FD_SCOPED_PERMISSION arg' d1 \<noteq> Some (Inr (), bs', d')) \<and>
    (\<exists>d2. vsoc_release f d1 = Some (Inr (), d2) \<and> v_mem d2 = v_mem d \<and> permissions d2 = permissions d \<and>
       f_private (v_files d2 f) = None \<and> (\<forall>g. g \<noteq> f \<longrightarrow> v_files d2 g = v_files d g))"
proof -
  have inv: "vsoc_inv d" using vsoc_reachable_inv [OF assms(2)] vsoc_start_inv [OF assms(1)] by blast
  let ?i = "f_minor (v_files d c)"
  obtain p f np where g: "asks (ve_fdget env) (ve_user env) arg p f" "create_allowed d ?i p f" "?i < region_count d"
      "np \<notin> set (permissions d)" "f_vsoc (v_files d f)" and d1: "d1 = (created d ?i np p f)\<lparr>permissions := np # permissions d\<rparr>"
    using create_ioctl_granted [OF inv assms(3,4)] .
  have "vsoc_inv d1"
    unfolding d1 by (rule created_inv [OF inv g(3,2,5,4)]) (use assms(3) g(1) in \<open>auto simp: fair_env_def\<close>)
  then have gr: "granted d ?i np p f d1" using inv g d1 by (simp add: granted_def)
  show ?thesis
    using g(1) granted_area [OF gr] granted_facts(3) [OF gr] granted_busy [OF gr] granted_release [OF gr] by metis
qed

text \<open>The manager of region 1 grants the first page of region 2 to file 2.\<close>

definition demo_pair :: vsoc_device where "demo_pair = demo_open 2 (demo_open 1 demo_device)"

definition demo_permission :: fd_scoped_permission where
  "demo_permission = \<lparr>begin_offset = 0, end_offset = 0x1000, owner_offset = 0x100, owned_value = 1\<rparr>"

definition demo_request :: vsoc_env where
  "demo_request = \<lparr>ve_fdget = (\<lambda>fd. if fd = 5 then Some 2 else None),
     ve_user = (\<lambda>a. if a = 0 then permission_bytes demo_permission else if a = 16 then word_bytes 4 (5 :: u32) else []),
     ve_copy_ok = True, ve_node = Some 9, ve_sched = (\<lambda>k d. (False, True, d))\<rparr>"

lemma demo_pair_fields: "region_count demo_pair = 3" "vsoc_region demo_pair = vsoc_region demo_device" "v_mem demo_pair = demo_mem"
    "permissions demo_pair = []" "regions demo_pair = Some 16" "layout demo_pair" "regions_data demo_pair = Some demo_data"
    "v_files demo_pair f = \<lparr>f_vsoc = True, f_minor = of_nat f, f_private = (if f = 1 \<or> f = 2 then Some None else None), vf_pos = 0\<rparr>"
  using demo_count
  by (simp_all add: demo_pair_def demo_open_def set_file_def demo_fields region_count_def vsoc_region_def fun_eq_iff)

lemma demo_pair_reachable: "vsoc_step\<^sup>*\<^sup>* demo_device demo_pair"
proof -
  have 1: "vsoc_step demo_device (demo_open 1 demo_device)"
    by (intro demo_open_step demo_layout) (simp_all add: demo_fields demo_count)
  have "layout_ok (demo_open 1 demo_device)"
    by (rule layout_ok_same [OF _ _ _ _ demo_layout]) (simp_all add: demo_open_def set_file_def same_header_def)
  then have "vsoc_step (demo_open 1 demo_device) demo_pair"
    unfolding demo_pair_def using demo_count
    by (intro demo_open_step) (simp_all add: demo_open_def set_file_def demo_fields region_count_def)
  then show ?thesis using 1 by (meson rtranclp.rtrancl_into_rtrancl rtranclp.rtrancl_refl)
qed

lemma to_permission_bytes: "to_permission (permission_bytes p) = p"
proof -
  have g: "get_u32 i bs = get_u32 0 (take 4 (drop i bs))" for i bs by (simp add: get_u32_def)
  have "get_u32 0 (permission_bytes p) = begin_offset p" "get_u32 4 (permission_bytes p) = end_offset p"
      "get_u32 8 (permission_bytes p) = owner_offset p" "get_u32 12 (permission_bytes p) = owned_value p"
    by (subst g, simp add: permission_bytes_def)+
  then show ?thesis by (simp add: to_permission_def)
qed

lemma demo_granted:
  "vsoc_ioctl demo_request 1 VSOC_CREATE_FD_SCOPED_PERMISSION 0 demo_pair =
   Some (Inr (), [], (created demo_pair 1 9 demo_permission 2)\<lparr>permissions := [9]\<rparr>)"
proof -
  have a: "owner_addr (vsoc_region demo_device 1) demo_permission = 8448"
    by (simp add: owner_addr_def shm_off_to_virtual_addr_def demo_regions demo_permission_def)
  have free: "mem_u32 demo_mem 8448 = 0" by (simp add: mem_u32_def mem_read_def get_u32_def demo_mem_def upt_rec)
  have ck: "check_permission (vsoc_region demo_device 1) (vsoc_region demo_device 2) demo_permission = Inr ()"
    by (simp add: check_permission_def demo_permission_def demo_regions vsoc_device_region_size_def PAGE_ALIGNED_def VSOC_REGION_FREE_def)
  have v: "vsoc_validate_filep demo_pair 1 = Some (Inr ())" "vsoc_validate_filep (demo_pair\<lparr>v_nodes := x\<rparr>) 2 = Some (Inr ())" for x
    using demo_count by (simp_all add: vsoc_validate_filep_def vsoc_validate_inode_def demo_pair_fields region_count_def demo_fields word_le_nat_alt)
  have u: "copy_from_user (ve_user demo_request) 0 16 = Some (permission_bytes demo_permission)"
      "get_user_u32 (ve_user demo_request) 16 = Some 5" "ve_fdget demo_request 5 = Some 2" "ve_node demo_request = Some 9"
    by (simp_all add: demo_request_def copy_from_user_def get_user_u32_def permission_bytes_def)
  have c: "do_create_fd_scoped_permission (ve_fdget demo_request) (ve_user demo_request) 1 9 0 demo_pair =
      Some (Inr (), created demo_pair 1 9 demo_permission 2)"
    by (simp add: do_create_fd_scoped_permission_def u to_permission_bytes Let_def v private_node_def demo_pair_fields demo_regions ck a free
        VSOC_REGION_FREE_def created_def)
  show ?thesis
    by (simp add: vsoc_ioctl_def v [unfolded One_nat_def] private_node_def demo_pair_fields Let_def create_permission_ioctl_def c u)
      (simp add: created_def set_file_def set_mem_u32_def demo_pair_fields)
qed

lemma demo_fair: "fair_env demo_request 0 1 demo_pair"
  by (simp add: fair_env_def demo_request_def demo_pair_fields)

theorem permission_exclusive_witness:
  "\<exists>d1 p f. vsoc_ioctl demo_request 1 VSOC_CREATE_FD_SCOPED_PERMISSION 0 demo_pair = Some (Inr (), [], d1) \<and>
     asks (ve_fdget demo_request) (ve_user demo_request) 0 p f \<and>
     mem_u32 (v_mem d1) (owner_addr (vsoc_region demo_pair 1) p) = owned_value p \<and>
     (\<exists>d2. vsoc_release f d1 = Some (Inr (), d2) \<and> v_mem d2 = v_mem demo_pair \<and> permissions d2 = [])"
  using permission_exclusive [OF demo_start demo_pair_reachable demo_fair demo_granted] demo_granted
  by (simp add: demo_pair_fields) blast

section \<open>Mappings\<close>

lemma page_offset_nat: "unat (x :: u64) < 2 ^ 52 \<Longrightarrow> unat (push_bit 12 x) = 4096 * unat x"
  by (simp add: push_bit_eq_mult unat_word_ariths)

text \<open>
  C29. A mapping of an open file is granted exactly when it fits into the rest of the area behind its page offset, and then
  it maps bytes of the area; but the rest is computed as an unsigned number, so that a page offset behind the end of the
  area also passes, with up to \<open>2\<^sup>6\<^sup>4\<close> bytes less the distance from the end: then memory outside the area is mapped.
\<close>

theorem vsoc_mmap_bounds:
  assumes "vsoc_start d0" "vsoc_step\<^sup>*\<^sup>* d0 d"
    and "f_vsoc (v_files d f)" "f_private (v_files d f) \<noteq> None" "f_minor (v_files d f) < region_count d"
    and "unat (vv_pgoff vma) < 2 ^ 52"
  shows "\<exists>off len. vsoc_get_area d f = Some (off, len) \<and> file_area d f = {unat off..<unat off + unat len} \<and>
    (let k = 4096 * unat (vv_pgoff vma); n = vv_end vma - vv_start vma in
     vsoc_mmap True f vma d =
       (if (if k \<le> unat len then unat n \<le> unat len - k else unat n \<le> 2 ^ 64 - (k - unat len))
        then Some (Inr (), d\<lparr>v_maps := (vv_start vma, push_bit 12 (drop_bit 12 (shm_phys_start d + ucast (off + of_nat k))), n) # v_maps d\<rparr>)
        else Some (Inl EINVAL, d)) \<and>
     (k \<le> unat len \<and> unat n \<le> unat len - k \<longrightarrow> unat (off + of_nat k) = unat off + k \<and> {unat off + k..<unat off + k + unat n} \<subseteq> file_area d f))"
proof -
  have inv: "vsoc_inv d" using vsoc_reachable_inv [OF assms(2)] vsoc_start_inv [OF assms(1)] by blast
  have l: "layout_ok d" using inv by (simp add: vsoc_inv_def)
  obtain off len where a: "vsoc_get_area d f = Some (off, len)" "file_area d f = {unat off..<unat off + unat len}"
      "file_area d f \<subseteq> region_bytes d (f_minor (v_files d f))" "unat len < 2 ^ 32"
    using get_area [OF inv assms(3-5)] by metis
  define k where "k = 4096 * unat (vv_pgoff vma)"
  have o: "unat (push_bit 12 (vv_pgoff vma)) = k" using page_offset_nat [OF assms(6)] by (simp add: k_def)
  have rest: "unat (len - push_bit 12 (vv_pgoff vma)) = (if k \<le> unat len then unat len - k else 2 ^ 64 - (k - unat len))"
    using unsigned_less [of "vv_pgoff vma", where ?'a = nat]
    by (auto simp: unat_sub_if_size word_size o)
  have cast: "(ucast (push_bit 12 (vv_pgoff vma)) :: u32) = of_nat k"
    by (simp flip: o)
  have "vsoc_mmap True f vma d =
       (if len - push_bit 12 (vv_pgoff vma) < vv_end vma - vv_start vma then Some (Inl EINVAL, d)
        else Some (Inr (), d\<lparr>v_maps := (vv_start vma, push_bit 12 (drop_bit 12 (shm_phys_start d + ucast (off + of_nat k))), vv_end vma - vv_start vma) # v_maps d\<rparr>))"
    by (simp add: vsoc_mmap_def validate_ok [OF l assms(5,4)] a(1) Let_def shm_off_to_phys_addr_def cast)
  moreover have "unat (off + of_nat k) = unat off + k" if "k \<le> unat len"
  proof -
    have "unat off + unat len < 2 ^ 32 \<or> unat len = 0"
    proof (cases "unat len = 0")
      case False
      then have "unat off + unat len \<le> unat (region_end_offset (vsoc_region d (f_minor (v_files d f))))"
        using a(3) unfolding a(2) region_bytes_def by (auto dest: atLeastLessThan_subset_iff)
      then show ?thesis using unsigned_less [of "region_end_offset (vsoc_region d (f_minor (v_files d f)))", where ?'a = nat] by simp
    qed simp
    then have "unat off + k < 2 ^ LENGTH(32)" using that unsigned_less [of off, where ?'a = nat] by auto
    then show ?thesis by (simp add: unat_word_ariths unsigned_of_nat take_bit_eq_mod)
  qed
  ultimately show ?thesis
    using a(1,2) rest unfolding Let_def k_def [symmetric]
    by (intro exI [of _ off] exI [of _ len]) (auto simp: word_less_nat_alt not_less)
qed

theorem vsoc_mmap_bounds_witness:
  "vsoc_mmap True 2 \<lparr>vv_start = 0x7000000, vv_end = 0x7001000, vv_pgoff = 1\<rparr> demo_pair =
     Some (Inr (), demo_pair\<lparr>v_maps := [(0x7000000, 0x10004000, 0x1000)]\<rparr>) \<and> file_area demo_pair 2 = {}"
proof -
  let ?v = "\<lparr>vv_start = 0x7000000, vv_end = 0x7001000, vv_pgoff = 1\<rparr>"
  have a: "vsoc_get_area demo_pair 2 = Some (0x3000, 0)"
    by (simp add: vsoc_get_area_def private_node_def demo_pair_fields demo_regions VSOC_REGION_WHOLE_def Let_def)
  have p: "shm_phys_start demo_pair = 0x10000000" "v_maps demo_pair = []"
    by (simp_all add: demo_pair_def demo_open_def set_file_def demo_fields)
  show ?thesis
    using vsoc_mmap_bounds [OF demo_start demo_pair_reachable, of 2 ?v]
    by (simp add: demo_pair_fields a p)
qed

section \<open>A region managed by none\<close>

text \<open>
  A region that is managed by none has the same number in \<open>managed_by\<close> as one that is managed by region 0, so that region 0 can
  create permissions on its files. On release the region of the file itself is taken for the owner: its memory is
  overwritten, and the word of the owner stays taken although no permission is held any more.
\<close>

definition demo_other :: vsoc_env where
  "demo_other = demo_request\<lparr>ve_fdget := (\<lambda>fd. if fd = 5 then Some 1 else None)\<rparr>"

theorem release_frees_wrong_word:
  "\<exists>d1 d2. create_permission_ioctl demo_other 0 0 demo_pair = Some (Inr (), d1) \<and> vsoc_release 1 d1 = Some (Inr (), d2) \<and>
     permissions d2 = [] \<and> mem_u32 (v_mem d2) (owner_addr (vsoc_region demo_pair 0) demo_permission) = owned_value demo_permission"
proof -
  have a: "owner_addr (vsoc_region demo_device 0) demo_permission = 4352" "owner_addr (vsoc_region demo_device 1) demo_permission = 8448"
    by (simp_all add: owner_addr_def shm_off_to_virtual_addr_def demo_regions demo_permission_def)
  have free: "mem_u32 demo_mem 4352 = 0" by (simp add: mem_u32_def mem_read_def get_u32_def demo_mem_def upt_rec)
  have "offset_of_region_data (vsoc_region demo_device 0) = 0"
    by (simp add: vsoc_region_def region_from_def sizeof_vsoc_device_region_def to_region_def mem_read_def demo_fields
        demo_mem_def get_u32_def drop_map take_map)
  then have ck: "check_permission (vsoc_region demo_device 0) (vsoc_region demo_device 1) demo_permission = Inr ()"
    by (simp add: check_permission_def demo_permission_def demo_regions vsoc_device_region_size_def PAGE_ALIGNED_def VSOC_REGION_FREE_def)
  have v: "vsoc_validate_filep (demo_pair\<lparr>v_nodes := x\<rparr>) 1 = Some (Inr ())" for x
    using demo_count by (simp add: vsoc_validate_filep_def vsoc_validate_inode_def demo_pair_fields region_count_def demo_fields word_le_nat_alt)
  have u: "copy_from_user (ve_user demo_other) 0 16 = Some (permission_bytes demo_permission)"
      "get_user_u32 (ve_user demo_other) 16 = Some 5" "ve_fdget demo_other 5 = Some 1" "ve_node demo_other = Some 9"
    by (simp_all add: demo_other_def demo_request_def copy_from_user_def get_user_u32_def permission_bytes_def)
  let ?d1 = "(created demo_pair 0 9 demo_permission 1)\<lparr>permissions := [9]\<rparr>"
  have c: "create_permission_ioctl demo_other 0 0 demo_pair = Some (Inr (), ?d1)"
    by (simp add: create_permission_ioctl_def do_create_fd_scoped_permission_def u to_permission_bytes Let_def v [unfolded One_nat_def] private_node_def
        demo_pair_fields demo_regions ck a free VSOC_REGION_FREE_def created_def)
      (simp add: set_file_def set_mem_u32_def demo_pair_fields)
  have "same_header (v_mem demo_pair) (v_mem ?d1)" by (simp add: created_mem demo_pair_fields a same_header_write)
  then have r: "vsoc_region ?d1 1 = vsoc_region demo_device 1" "region_count ?d1 = 3"
    using vsoc_region_same [of demo_device ?d1 1] region_count_same [of demo_pair ?d1] demo_layout
    by (simp_all add: demo_pair_fields demo_fields layout_ok_def demo_count created_def set_file_def set_mem_u32_def)
  have f: "v_files ?d1 1 = \<lparr>f_vsoc = True, f_minor = 1, f_private = Some (Some 9), vf_pos = 0\<rparr>" "v_nodes ?d1 9 = demo_permission"
      "layout ?d1" "regions ?d1 = Some 16"
    by (simp_all add: created_def set_file_def set_mem_u32_def demo_pair_fields adjust_pos_def)
  have "vsoc_release 1 ?d1 = Some (Inr (), set_file 1 ((v_files ?d1 1)\<lparr>f_private := None\<rparr>)
      ((set_mem_u32 8448 VSOC_REGION_FREE ?d1)\<lparr>permissions := []\<rparr>))" (is "_ = Some (_, ?d2)")
    using r f by (simp add: vsoc_release_def vsoc_validate_filep_def vsoc_validate_inode_def private_node_def Let_def demo_regions VSOC_REGION_WHOLE_def
        word_le_nat_alt do_destroy_fd_scoped_permission_node_def do_destroy_fd_scoped_permission_def a set_mem_u32_def list_del_def)
  moreover have "mem_u32 (v_mem ?d2) 4352 = owned_value demo_permission"
    by (simp add: set_file_def set_mem_u32_def created_mem demo_pair_fields a mem_u32_other)
  ultimately show ?thesis using c a by (auto simp: demo_pair_fields set_file_def)
qed

end
