(* ===== verification/Vsoc_Probe_Props.thy ===== *)
theory Vsoc_Probe_Props
  imports Vsoc_Props
begin

text \<open>
  Attaching and removing the VSoC device: what the kernel still holds after a failed probe, and after a removal, and when the
  removal is a bug.
\<close>

section \<open>Removal\<close>

text \<open>The flags of the driver record what the kernel holds, except for interrupts and device nodes.\<close>

definition tracked :: "vsoc_device \<Rightarrow> bool" where
  "tracked d \<longleftrightarrow> v_dev d \<and> enabled_device d = pci_enabled (pci d) \<and> requested_regions d = pci_regions (pci d) \<and>
     v_regs d = pci_regs (pci d) \<and> kernel_mapped_shm d = pci_shm (pci d) \<and> (v_major d \<noteq> 0 \<and> layout d) = pci_chrdev (pci d) \<and>
     cdev_added d = pci_cdev (pci d) \<and> class_added d = pci_class (pci d)"

text \<open>Each step clears a flag and gives back what the flag records.\<close>

lemma drops:
  "drop_msix d = d\<lparr>msix_enabled := False, pci := (pci d)\<lparr>pci_msix := pci_msix (pci d) \<and> \<not> msix_enabled d\<rparr>\<rparr>"
  "drop_class d = d\<lparr>class_added := False, pci := (pci d)\<lparr>pci_class := pci_class (pci d) \<and> \<not> class_added d\<rparr>\<rparr>"
  "drop_cdev d = d\<lparr>cdev_added := False, pci := (pci d)\<lparr>pci_cdev := pci_cdev (pci d) \<and> \<not> cdev_added d\<rparr>\<rparr>"
  "drop_chrdev d = d\<lparr>v_major := if layout d then 0 else v_major d,
     pci := (pci d)\<lparr>pci_chrdev := pci_chrdev (pci d) \<and> \<not> (v_major d \<noteq> 0 \<and> layout d)\<rparr>\<rparr>"
  "drop_shm d = d\<lparr>kernel_mapped_shm := False, pci := (pci d)\<lparr>pci_shm := pci_shm (pci d) \<and> \<not> kernel_mapped_shm d\<rparr>\<rparr>"
  "drop_regs d = d\<lparr>v_regs := False, pci := (pci d)\<lparr>pci_regs := pci_regs (pci d) \<and> \<not> v_regs d\<rparr>\<rparr>"
  "drop_regions d = d\<lparr>requested_regions := False, pci := (pci d)\<lparr>pci_regions := pci_regions (pci d) \<and> \<not> requested_regions d\<rparr>\<rparr>"
  "drop_device d = d\<lparr>enabled_device := False, pci := (pci d)\<lparr>pci_enabled := pci_enabled (pci d) \<and> \<not> enabled_device d\<rparr>\<rparr>"
  by (rule vsoc_device.equality;
      simp add: drop_msix_def drop_class_def drop_cdev_def drop_chrdev_def drop_shm_def drop_regs_def drop_regions_def drop_device_def upd_pci_def)+

lemma pci_remove_rest:
  assumes "tracked d" "\<not> msix_bug strict d"
  shows "\<exists>d'. remove_rest strict d = Some d' \<and>
    pci d' = no_pci\<lparr>pci_msix := pci_msix (pci d) \<and> \<not> msix_enabled d, pci_irqs := pci_irqs (pci d), pci_devices := pci_devices (pci d)\<rparr>"
proof -
  have "pci (the (remove_rest strict d)) =
      no_pci\<lparr>pci_msix := pci_msix (pci d) \<and> \<not> msix_enabled d, pci_irqs := pci_irqs (pci d), pci_devices := pci_devices (pci d)\<rparr>"
    using assms unfolding tracked_def by (intro pci_state.equality) (simp_all add: remove_rest_def Let_def drops no_pci_def)
  moreover have "remove_rest strict d \<noteq> None" using assms(2) by (simp add: remove_rest_def Let_def)
  ultimately show ?thesis by auto
qed

text \<open>No handler was registered without a device id, so that none is freed.\<close>

definition owned_irqs :: "vsoc_device \<Rightarrow> bool" where
  "owned_irqs d \<longleftrightarrow> (\<forall>v. (v, None) \<notin> set (pci_irqs (pci d)))"

definition node_created :: "vsoc_region_data list \<Rightarrow> u32 \<Rightarrow> bool" where
  "node_created rds x \<longleftrightarrow> unat x < length rds \<and> device_created (rds ! unat x)"

lemma remove_region_effect:
  assumes "owned_irqs d"
  shows "remove_region i rds d = d\<lparr>pci := (pci d)\<lparr>pci_devices := (if device_created (rds ! i) then remove1 (of_nat i) (pci_devices (pci d)) else pci_devices (pci d))\<rparr>\<rparr>"
  using assms by (auto simp: remove_region_def upd_pci_def free_irq_def owned_irqs_def remove1_idem Let_def)

lemma remove_regions_effect:
  assumes "owned_irqs d" "\<forall>i \<in> set is. i < length rds" "distinct (pci_devices (pci d))" "length rds \<le> 2 ^ 32"
  shows "remove_regions is rds d =
    Some (d\<lparr>pci := (pci d)\<lparr>pci_devices := filter (\<lambda>x. \<not> (unat x \<in> set is \<and> node_created rds x)) (pci_devices (pci d))\<rparr>\<rparr>)"
  using assms
proof (induction "is" arbitrary: d)
  case (Cons i "is")
  let ?d = "remove_region i rds d"
  have i: "unat (of_nat i :: u32) = i"
    using Cons.prems(2,4) by (auto simp: unsigned_of_nat take_bit_nat_eq_self)
  then have x: "x = of_nat i \<longleftrightarrow> unat x = i" for x :: u32 by (metis word_unat_eq_iff)
  have "owned_irqs ?d" "distinct (pci_devices (pci ?d))"
    using Cons.prems by (simp_all add: remove_region_effect) (simp_all add: owned_irqs_def)
  then have "remove_regions is rds ?d =
      Some (?d\<lparr>pci := (pci ?d)\<lparr>pci_devices := filter (\<lambda>x. \<not> (unat x \<in> set is \<and> node_created rds x)) (pci_devices (pci ?d))\<rparr>\<rparr>)"
    using Cons.IH [of ?d] Cons.prems by simp
  moreover have "filter (\<lambda>x. \<not> (unat x \<in> set is \<and> node_created rds x)) (pci_devices (pci ?d)) =
      filter (\<lambda>x. \<not> (unat x \<in> set (i # is) \<and> node_created rds x)) (pci_devices (pci d))"
    using Cons.prems
    by (auto simp: remove_region_effect distinct_remove1_removeAll removeAll_filter_not_eq x i node_created_def intro!: filter_cong)
  ultimately show ?case using Cons.prems by (simp add: remove_region_effect)
qed simp

lemma remove_all:
  assumes "tracked d" "owned_irqs d" "distinct (pci_devices (pci d))" "layout d"
    and "case regions_data d of None \<Rightarrow> pci_devices (pci d) = [] | Some rds \<Rightarrow>
      length rds = unat (region_count d) \<and> (\<forall>x \<in> set (pci_devices (pci d)). node_created rds x)"
  shows "if msix_bug strict d then vsoc_remove_device strict d = None
    else \<exists>d'. vsoc_remove_device strict d = Some d' \<and> pci d' = no_pci\<lparr>pci_msix := pci_msix (pci d) \<and> \<not> msix_enabled d, pci_irqs := pci_irqs (pci d)\<rparr>"
proof (cases "regions_data d")
  case None
  then have "vsoc_remove_device strict d = remove_rest strict d" using assms(1) by (simp add: vsoc_remove_device_def tracked_def)
  moreover have "pci_devices (pci d) = []" using assms(5) None by simp
  ultimately show ?thesis using pci_remove_rest [OF assms(1)] by (cases "msix_bug strict d") (auto simp: remove_rest_def no_pci_def)
next
  case (Some rds)
  have len: "length rds = unat (region_count d)" and nodes: "\<And>x. x \<in> set (pci_devices (pci d)) \<Longrightarrow> node_created rds x"
    using assms(5) Some by auto
  have "unat (region_count d) < 2 ^ LENGTH(32)" by (rule unsigned_less)
  then have le: "length rds \<le> 2 ^ 32" using len by simp
  let ?d = "d\<lparr>pci := (pci d)\<lparr>pci_devices := []\<rparr>, regions_data := None\<rparr>"
  have all: "filter (\<lambda>x. \<not> (unat x \<in> set [0..<unat (region_count d)] \<and> node_created rds x)) (pci_devices (pci d)) = []"
    using nodes len by (auto simp: filter_empty_conv node_created_def)
  have "remove_regions [0..<unat (region_count d)] rds d = Some (d\<lparr>pci := (pci d)\<lparr>pci_devices := []\<rparr>\<rparr>)"
    using remove_regions_effect [OF assms(2) _ assms(3) le, of "[0..<unat (region_count d)]"] len all by auto
  then have "vsoc_remove_device strict d = remove_rest strict ?d"
    using assms(1,4) Some by (simp add: vsoc_remove_device_def tracked_def)
  moreover have "tracked ?d" "msix_bug strict ?d \<longleftrightarrow> msix_bug strict d" using assms(1) by (simp_all add: tracked_def msix_bug_def)
  ultimately show ?thesis using pci_remove_rest [of ?d strict]
    by (cases "msix_bug strict d") (auto simp: remove_rest_def no_pci_def)
qed

section \<open>The loop over the regions\<close>

text \<open>With \<open>j\<close> interrupts registered and device nodes created only for the first \<open>k\<close> of \<open>n\<close> regions.\<close>

definition attach :: "nat \<Rightarrow> nat \<Rightarrow> nat \<Rightarrow> vsoc_device \<Rightarrow> bool" where
  "attach n j k d \<longleftrightarrow> tracked d \<and> layout d \<and> msix_enabled d \<and> unat (region_count d) = n \<and>
     (\<exists>base. regions d = Some base \<and> in_window d base (sizeof_vsoc_device_region * n)) \<and>
     map snd (pci_irqs (pci d)) = rev (map (\<lambda>i. Some (of_nat i)) [0..<j]) \<and> distinct (pci_devices (pci d)) \<and>
     (\<exists>rds. regions_data d = Some rds \<and> length rds = n \<and> (\<forall>x \<in> set (pci_devices (pci d)). node_created rds x \<and> unat x < k))"

lemma attach_update:
  assumes "attach n j k d" "\<And>rd. device_created rd \<Longrightarrow> device_created (f rd)"
  shows "attach n j k (upd_region_data i f d)"
proof -
  obtain rds where r: "regions_data d = Some rds" "length rds = n" "\<forall>x \<in> set (pci_devices (pci d)). node_created rds x \<and> unat x < k"
    using assms(1) by (auto simp: attach_def)
  have "\<forall>x \<in> set (pci_devices (pci d)). node_created (rds[i := f (rds ! i)]) x \<and> unat x < k"
    using r(3) assms(2) unfolding node_created_def by (metis length_list_update nth_list_update_eq nth_list_update_neq)
  then show ?thesis using assms(1) r by (auto simp: attach_def upd_region_data_def tracked_def region_count_def in_window_def)
qed

lemma attach_irq:
  assumes "attach n j k d"
  shows "attach n (Suc j) k (upd_pci (\<lambda>p. p\<lparr>pci_irqs := (v, Some (of_nat j)) # pci_irqs p\<rparr>) d)"
  using assms by (auto simp: attach_def upd_pci_def tracked_def region_count_def in_window_def)

lemma attach_device:
  assumes "attach n j k d" "k < n" "device_created (the (regions_data d) ! k)"
  shows "attach n j (Suc k) (if new then upd_pci (\<lambda>p. p\<lparr>pci_devices := of_nat k # pci_devices p\<rparr>) d else d)"
proof -
  obtain rds where r: "regions_data d = Some rds" "length rds = n" "\<forall>x \<in> set (pci_devices (pci d)). node_created rds x \<and> unat x < k"
    using assms(1) by (auto simp: attach_def)
  have "n < 2 ^ LENGTH(32)" using assms(1) unsigned_less [of "region_count d", where ?'a = nat] by (simp add: attach_def)
  then have k: "unat (of_nat k :: u32) = k" using assms(2) by (simp add: unsigned_of_nat take_bit_nat_eq_self)
  have "of_nat k \<notin> set (pci_devices (pci d))" using r(3) k by force
  moreover have "node_created rds (of_nat k)" using assms(2,3) r k by (simp add: node_created_def)
  moreover have "\<forall>x \<in> set (pci_devices (pci d)). node_created rds x \<and> unat x < Suc k" using r(3) by force
  ultimately show ?thesis using assms(1) r k by (auto simp: attach_def upd_pci_def tracked_def region_count_def in_window_def)
qed

lemma upd_region_pci: "upd_region_data i f (upd_pci g d) = upd_pci g (upd_region_data i f d)"
  by (rule vsoc_device.equality) (simp_all add: upd_region_data_def upd_pci_def)

text \<open>The driver gives everything back but the handlers of the interrupts.\<close>

definition only_irqs :: "nat \<Rightarrow> vsoc_device \<Rightarrow> bool" where
  "only_irqs j d \<longleftrightarrow> pci d = no_pci\<lparr>pci_irqs := pci_irqs (pci d)\<rparr> \<and> map snd (pci_irqs (pci d)) = rev (map (\<lambda>i. Some (of_nat i)) [0..<j])"

lemma attach_remove:
  assumes "attach n j k d"
  shows "if strict \<and> 0 < j then vsoc_remove_device strict d = None
    else \<exists>d'. vsoc_remove_device strict d = Some d' \<and> only_irqs j d'"
proof -
  have irqs: "map snd (pci_irqs (pci d)) = rev (map (\<lambda>i. Some (of_nat i)) [0..<j])" using assms unfolding attach_def by blast
  have "owned_irqs d" unfolding owned_irqs_def
  proof (intro allI notI)
    fix v assume "(v, None) \<in> set (pci_irqs (pci d))"
    then have "None \<in> set (map snd (pci_irqs (pci d)))" by force
    then show False using irqs by auto
  qed
  moreover have "case regions_data d of None \<Rightarrow> pci_devices (pci d) = [] | Some rds \<Rightarrow>
      length rds = unat (region_count d) \<and> (\<forall>x \<in> set (pci_devices (pci d)). node_created rds x)"
    using assms by (auto simp: attach_def)
  ultimately have "if msix_bug strict d then vsoc_remove_device strict d = None
      else \<exists>d'. vsoc_remove_device strict d = Some d' \<and> pci d' = no_pci\<lparr>pci_msix := pci_msix (pci d) \<and> \<not> msix_enabled d, pci_irqs := pci_irqs (pci d)\<rparr>"
    using remove_all [of d strict] assms by (auto simp: attach_def)
  moreover have "length (pci_irqs (pci d)) = j" using arg_cong [OF irqs, of length] by simp
  then have "msix_bug strict d \<longleftrightarrow> strict \<and> 0 < j" using assms by (auto simp: msix_bug_def attach_def)
  ultimately show ?thesis using irqs assms by (auto simp: attach_def only_irqs_def no_pci_def)
qed

lemma attach_region_at:
  assumes "attach n j k d" "i < n"
  shows "region_at d i = Some (vsoc_region d (of_nat i))"
proof -
  obtain base where b: "regions d = Some base" "in_window d base (sizeof_vsoc_device_region * n)" using assms(1) by (auto simp: attach_def)
  have "sizeof_vsoc_device_region * i + sizeof_vsoc_device_region \<le> sizeof_vsoc_device_region * n"
    using mult_le_mono2 [of "Suc i" n sizeof_vsoc_device_region] assms(2) by simp
  then show ?thesis using b by (simp add: region_at_def in_window_def)
qed

text \<open>The loop stops at a region after a handler was registered.\<close>

definition stops_late :: "probe_env \<Rightarrow> nat \<Rightarrow> bool" where
  "stops_late env n \<longleftrightarrow>
     (\<exists>i < n. (\<forall>j < i. pe_irq env j \<and> pe_device env j \<noteq> Null_Device) \<and>
       (if pe_irq env i then pe_device env i = Null_Device else 0 < i))"

definition loop_outcome :: "probe_env \<Rightarrow> nat \<Rightarrow> (unit result \<times> vsoc_device) option \<Rightarrow> bool" where
  "loop_outcome env n x \<longleftrightarrow>
     (case x of None \<Rightarrow> pe_strict env \<and> stops_late env n
      | Some (Inl _, d) \<Rightarrow> \<exists>j \<le> n. only_irqs j d \<and> (pe_strict env \<longrightarrow> j = 0)
      | Some (Inr _, d) \<Rightarrow> attach n n n d)"

lemma attach_fail:
  assumes "attach n j k d" "j \<le> n" "0 < j \<Longrightarrow> stops_late env n"
  shows "loop_outcome env n (vsoc_fail env e d)"
  using attach_remove [OF assms(1), of "pe_strict env"] assms(2,3)
  by (cases "pe_strict env \<and> 0 < j") (auto simp: vsoc_fail_def loop_outcome_def)

lemma probe_regions_result:
  assumes "attach n k k d" "k \<le> n" "\<forall>j < k. pe_irq env j \<and> pe_device env j \<noteq> Null_Device"
  shows "loop_outcome env n (probe_regions env [k..<n] d)"
  using assms
proof (induction "n - k" arbitrary: k d)
  case 0
  then show ?case by (simp add: loop_outcome_def)
next
  case (Suc m)
  then have kn: "k < n" by simp
  define d1 where "d1 = upd_region_data k (init_region_data (vsoc_region d (of_nat k))) d"
  define d2 where "d2 = upd_region_data k (\<lambda>rd. rd\<lparr>irq_requested := True\<rparr>)
    (upd_pci (\<lambda>p. p\<lparr>pci_irqs := (region_vector d1 k, Some (of_nat k)) # pci_irqs p\<rparr>) d1)"
  define d3 where "d3 = (if pe_device env k = New_Device then upd_pci (\<lambda>p. p\<lparr>pci_devices := of_nat k # pci_devices p\<rparr>) d2 else d2)"
  define d4 where "d4 = upd_region_data k (\<lambda>rd. rd\<lparr>device_created := True\<rparr>) d3"
  have a1: "attach n k k d1" unfolding d1_def by (rule attach_update [OF Suc.prems(1)]) (simp add: init_region_data_def)
  have a2: "attach n (Suc k) k d2" unfolding d2_def by (intro attach_update attach_irq a1) simp
  have "attach n (Suc k) k (upd_region_data k (\<lambda>rd. rd\<lparr>device_created := True\<rparr>) d2)" by (rule attach_update [OF a2]) simp
  moreover have "device_created (the (regions_data (upd_region_data k (\<lambda>rd. rd\<lparr>device_created := True\<rparr>) d2)) ! k)"
    using a2 kn by (auto simp: attach_def upd_region_data_def)
  ultimately have "attach n (Suc k) (Suc k) (if pe_device env k = New_Device
      then upd_pci (\<lambda>p. p\<lparr>pci_devices := of_nat k # pci_devices p\<rparr>) (upd_region_data k (\<lambda>rd. rd\<lparr>device_created := True\<rparr>) d2)
      else upd_region_data k (\<lambda>rd. rd\<lparr>device_created := True\<rparr>) d2)"
    using attach_device kn by blast
  then have a4: "attach n (Suc k) (Suc k) d4" by (simp add: d4_def d3_def upd_region_pci split: if_splits)
  have eq: "probe_regions env [k..<n] d =
      (if \<not> pe_irq env k then vsoc_fail env ENOSPC d1 else if pe_device env k = Null_Device then vsoc_fail env EBUSY d2
       else probe_regions env [Suc k..<n] d4)"
    using kn by (simp add: upt_conv_Cons Let_def attach_region_at [OF Suc.prems(1) kn]
        d1_def [symmetric] d2_def [symmetric] d3_def [symmetric] d4_def [symmetric])
  consider "\<not> pe_irq env k" | "pe_irq env k" "pe_device env k = Null_Device" | "pe_irq env k" "pe_device env k \<noteq> Null_Device" by blast
  then show ?case
  proof cases
    case 1
    then have "0 < k \<Longrightarrow> stops_late env n" using kn Suc.prems(3) by (auto simp: stops_late_def)
    then show ?thesis using attach_fail [OF a1] kn eq 1 by simp
  next
    case 2
    then have "stops_late env n" using kn Suc.prems(3) by (auto simp: stops_late_def)
    then show ?thesis using attach_fail [OF a2] kn eq 2 by simp
  next
    case 3
    then have "\<forall>j < Suc k. pe_irq env j \<and> pe_device env j \<noteq> Null_Device" using Suc.prems(3) by (simp add: less_Suc_eq)
    then show ?thesis using Suc.hyps(1) [OF _ a4] Suc.hyps(2) kn eq 3 by simp
  qed
qed

section \<open>The property\<close>

text \<open>A driver that is not attached, and the probe reaching the check of the regions, which fails.\<close>

definition vsoc_idle :: "vsoc_device \<Rightarrow> bool" where
  "vsoc_idle d \<longleftrightarrow> \<not> enabled_device d \<and> \<not> requested_regions d \<and> \<not> v_regs d \<and> \<not> kernel_mapped_shm d \<and> v_major d = 0 \<and> \<not> layout d \<and>
     \<not> cdev_added d \<and> \<not> class_added d \<and> \<not> msix_enabled d \<and> regions_data d = None \<and> pci d = no_pci"

definition regions_rejected :: "probe_env \<Rightarrow> (nat \<Rightarrow> u8) \<Rightarrow> bool" where
  "regions_rejected env m \<longleftrightarrow>
     pe_enable env = None \<and> pe_request env \<and> pe_regs env (min (pe_reg_size env) MAX_REGISTER_BAR_LEN) \<and> pe_shm env \<and>
     le_nat (mem_read m 0 2) = CURRENT_VSOC_LAYOUT_MAJOR_VERSION \<and> pe_chrdev env \<noteq> None \<and> pe_cdev env \<and> pe_class env = None \<and>
     pe_entries env \<and> pe_data env \<and> pe_msix env \<noteq> None \<and>
     \<not> list_all (\<lambda>i. region_ok (pe_shm_len env) (mem_u32 m 8) (region_from m (unat (mem_u32 m 12)) (of_nat i))) [0..<unat (mem_u32 m 8)]"

lemma early_fail:
  assumes "tracked d" "regions_data d = None" "pci_irqs (pci d) = []" "pci_devices (pci d) = []"
  shows "\<exists>d'. vsoc_fail env e d = Some (Inl e, d') \<and> pci d' = no_pci\<lparr>pci_msix := pci_msix (pci d) \<and> \<not> msix_enabled d\<rparr>"
proof -
  have "\<not> msix_bug (pe_strict env) d" using assms(3) by (simp add: msix_bug_def)
  then obtain d' where "remove_rest (pe_strict env) d = Some d'"
      "pci d' = no_pci\<lparr>pci_msix := pci_msix (pci d) \<and> \<not> msix_enabled d, pci_irqs := pci_irqs (pci d), pci_devices := pci_devices (pci d)\<rparr>"
    using pci_remove_rest [OF assms(1)] by blast
  then show ?thesis using assms by (auto simp: vsoc_fail_def vsoc_remove_device_def tracked_def no_pci_def)
qed

lemma data_fail:
  assumes "tracked d" "layout d" "regions_data d = Some (replicate (unat (region_count d)) zero_region_data)"
    and "pci_irqs (pci d) = []" "pci_devices (pci d) = []"
  shows "\<exists>d'. vsoc_fail env e d = Some (Inl e, d') \<and> pci d' = no_pci\<lparr>pci_msix := pci_msix (pci d) \<and> \<not> msix_enabled d\<rparr>"
proof -
  have "\<not> msix_bug (pe_strict env) d" using assms(4) by (simp add: msix_bug_def)
  then obtain d' where "vsoc_remove_device (pe_strict env) d = Some d'"
      "pci d' = no_pci\<lparr>pci_msix := pci_msix (pci d) \<and> \<not> msix_enabled d, pci_irqs := pci_irqs (pci d)\<rparr>"
    using remove_all [OF assms(1) _ _ assms(2), of "pe_strict env"] assms by (auto simp: owned_irqs_def)
  then show ?thesis using assms(4) by (simp add: vsoc_fail_def no_pci_def)
qed

text \<open>What is left after a probe that failed and after the removal that follows one that succeeded.\<close>

definition probe_outcome :: "probe_env \<Rightarrow> bool \<Rightarrow> nat \<Rightarrow> (unit result \<times> vsoc_device) option \<Rightarrow> bool" where
  "probe_outcome env rejected n x \<longleftrightarrow>
     (case x of
        None \<Rightarrow> pe_strict env \<and> stops_late env n
      | Some (Inl _, d) \<Rightarrow>
          if rejected then pci d = no_pci\<lparr>pci_msix := True\<rparr> else (\<exists>j \<le> n. only_irqs j d \<and> (pe_strict env \<longrightarrow> j = 0))
      | Some (Inr _, d) \<Rightarrow> \<not> rejected \<and>
          (if pe_strict env \<and> 0 < n then vsoc_remove_device (pe_strict env) d = None
           else \<exists>d'. vsoc_remove_device (pe_strict env) d = Some d' \<and> only_irqs n d'))"

definition early :: "vsoc_device \<Rightarrow> bool" where
  "early d \<longleftrightarrow> tracked d \<and> regions_data d = None \<and> pci_irqs (pci d) = [] \<and> pci_devices (pci d) = [] \<and> \<not> pci_msix (pci d) \<and> \<not> msix_enabled d"

lemma outcome_nothing:
  assumes "pci d = no_pci"
  shows "probe_outcome env False n (Some (Inl e, d))"
  using assms by (auto simp: probe_outcome_def only_irqs_def no_pci_def intro!: exI [of _ 0])

lemma outcome_early:
  assumes "early d"
  shows "probe_outcome env False n (vsoc_fail env e d)"
proof -
  obtain d' where "vsoc_fail env e d = Some (Inl e, d')" "pci d' = no_pci"
    using early_fail [of d env e] assms by (auto simp: early_def no_pci_def)
  then show ?thesis using outcome_nothing by simp
qed

lemma outcome_data:
  assumes "tracked d" "layout d" "regions_data d = Some (replicate (unat (region_count d)) zero_region_data)"
    and "pci_irqs (pci d) = []" "pci_devices (pci d) = []" "\<not> msix_enabled d"
  shows "probe_outcome env (pci_msix (pci d)) n (vsoc_fail env e d)"
proof -
  obtain d' where d': "vsoc_fail env e d = Some (Inl e, d')" "pci d' = no_pci\<lparr>pci_msix := pci_msix (pci d)\<rparr>"
    using data_fail [OF assms(1-5), of env e] assms(6) by auto
  have "pci d' = no_pci" if "\<not> pci_msix (pci d)" using that d'(2) by (simp add: no_pci_def)
  then show ?thesis using d' outcome_nothing by (cases "pci_msix (pci d)") (auto simp: probe_outcome_def)
qed

lemma outcome_loop:
  assumes "attach n 0 0 d"
  shows "probe_outcome env False n (probe_regions env [0..<n] d)"
proof -
  have p: "loop_outcome env n (probe_regions env [0..<n] d)" using probe_regions_result [OF assms] by simp
  have r: "attach n n n d' \<Longrightarrow> if pe_strict env \<and> 0 < n then vsoc_remove_device (pe_strict env) d' = None
           else \<exists>d''. vsoc_remove_device (pe_strict env) d' = Some d'' \<and> only_irqs n d''" for d'
    by (rule attach_remove)
  show ?thesis
    using p r by (auto simp: loop_outcome_def probe_outcome_def split: option.splits sum.splits)
qed

text \<open>The stages of the second half of the probe.\<close>

definition at_chrdev :: "u32 \<Rightarrow> vsoc_device \<Rightarrow> vsoc_device" where
  "at_chrdev devt d = upd_pci (\<lambda>k. k\<lparr>pci_chrdev := True\<rparr>) (d\<lparr>v_major := devt\<rparr>)"

definition at_cdev :: "u32 \<Rightarrow> vsoc_device \<Rightarrow> vsoc_device" where
  "at_cdev devt d = upd_pci (\<lambda>k. k\<lparr>pci_cdev := True\<rparr>) ((at_chrdev devt d)\<lparr>cdev_added := True\<rparr>)"

definition at_class :: "u32 \<Rightarrow> vsoc_device \<Rightarrow> vsoc_device" where
  "at_class devt d = upd_pci (\<lambda>k. k\<lparr>pci_class := True\<rparr>) ((at_cdev devt d)\<lparr>class_added := True, regions := Some (unat (mem_u32 (v_mem d) 12))\<rparr>)"

definition at_entries :: "u32 \<Rightarrow> vsoc_device \<Rightarrow> vsoc_device" where
  "at_entries devt d = (at_class devt d)\<lparr>msix_entries := Some (replicate (unat (region_count d)) 0)\<rparr>"

definition at_data :: "u32 \<Rightarrow> vsoc_device \<Rightarrow> vsoc_device" where
  "at_data devt d = (at_entries devt d)\<lparr>regions_data := Some (replicate (unat (region_count d)) zero_region_data)\<rparr>"

definition at_msix :: "u32 \<Rightarrow> u32 list \<Rightarrow> vsoc_device \<Rightarrow> vsoc_device" where
  "at_msix devt vs d = upd_pci (\<lambda>k. k\<lparr>pci_msix := True\<rparr>) ((at_data devt d)\<lparr>msix_entries := Some vs\<rparr>)"

lemmas at_defs = at_chrdev_def at_cdev_def at_class_def at_entries_def at_data_def at_msix_def upd_pci_def

definition regions_fine :: "vsoc_device \<Rightarrow> bool" where
  "regions_fine d \<longleftrightarrow> list_all (\<lambda>i. region_ok (shm_size d) (region_count d) (region_from (v_mem d) (unat (mem_u32 (v_mem d) 12)) (of_nat i))) [0..<unat (region_count d)]"

text \<open>The table of the regions lies in the window, as far as the window is mapped.\<close>

definition table_inside :: "u64 \<Rightarrow> (nat \<Rightarrow> u8) \<Rightarrow> bool" where
  "table_inside len m \<longleftrightarrow> sizeof_vsoc_shm_layout_descriptor \<le> unat len \<and>
     unat (mem_u32 m 12) + sizeof_vsoc_device_region * unat (mem_u32 m 8) \<le> unat len"

lemma check_regions_eq:
  assumes "\<And>i. i \<in> set is \<Longrightarrow> region_at d i = Some (vsoc_region d (of_nat i))"
  shows "check_regions is d = Some (list_all (\<lambda>i. region_ok (shm_size d) (region_count d) (vsoc_region d (of_nat i))) is)"
  using assms by (induction "is") simp_all

lemma check_at_msix:
  assumes "table_inside (shm_size d) (v_mem d)"
  shows "check_regions [0..<unat (region_count d)] (at_msix devt vs d) = Some (regions_fine d)"
proof -
  have "region_at (at_msix devt vs d) i = Some (vsoc_region (at_msix devt vs d) (of_nat i))" if "i < unat (region_count d)" for i
  proof -
    have "sizeof_vsoc_device_region * i + sizeof_vsoc_device_region \<le> sizeof_vsoc_device_region * unat (region_count d)"
      using mult_le_mono2 [of "Suc i" "unat (region_count d)" sizeof_vsoc_device_region] that by simp
    then show ?thesis
      using assms by (simp add: region_at_def at_defs in_window_def table_inside_def region_count_def)
  qed
  then show ?thesis
    by (subst check_regions_eq) (simp_all add: regions_fine_def at_defs region_count_def vsoc_region_def)
qed

lemma probe_layout_eq:
  assumes "table_inside (shm_size d) (v_mem d)"
  shows "probe_layout env d =
     (if le_nat (mem_read (v_mem d) 0 2) \<noteq> CURRENT_VSOC_LAYOUT_MAJOR_VERSION then vsoc_fail env EBUSY d
      else case pe_chrdev env of None \<Rightarrow> vsoc_fail env EBUSY d
      | Some devt \<Rightarrow>
          if \<not> pe_cdev env then vsoc_fail env EBUSY (at_chrdev devt d)
          else case pe_class env of Some e \<Rightarrow> vsoc_fail env e (at_cdev devt d)
          | None \<Rightarrow>
              if \<not> pe_entries env then vsoc_fail env ENOSPC (at_class devt d)
              else if \<not> pe_data env then vsoc_fail env ENOSPC (at_entries devt d)
              else case pe_msix env of None \<Rightarrow> vsoc_fail env ENOSPC (at_data devt d)
              | Some vs \<Rightarrow>
                  if \<not> regions_fine d then vsoc_fail env EFAULT (at_msix devt vs d)
                  else probe_regions env [0..<unat (region_count d)] ((at_msix devt vs d)\<lparr>msix_enabled := True\<rparr>))"
proof -
  have "in_window d 0 sizeof_vsoc_shm_layout_descriptor" using assms by (simp add: in_window_def table_inside_def)
  then show ?thesis using check_at_msix [OF assms]
    by (simp add: probe_layout_def Let_def at_defs region_count_def cong: option.case_cong if_cong)
qed

lemma probe_layout_outcome:
  assumes e: "early d" and f: "layout d" "v_major d = 0" "\<not> cdev_added d" "\<not> class_added d"
    and w: "table_inside (shm_size d) (v_mem d)"
    and m: "\<And>m. pe_chrdev env = Some m \<Longrightarrow> m \<noteq> 0"
    and rej: "rejected \<longleftrightarrow> le_nat (mem_read (v_mem d) 0 2) = CURRENT_VSOC_LAYOUT_MAJOR_VERSION \<and> pe_chrdev env \<noteq> None \<and> pe_cdev env \<and>
      pe_class env = None \<and> pe_entries env \<and> pe_data env \<and> pe_msix env \<noteq> None \<and> \<not> regions_fine d"
  shows "probe_outcome env rejected (unat (region_count d)) (probe_layout env d)"
proof -
  let ?n = "unat (region_count d)"
  have early: "early (at_chrdev devt d)" "early (at_cdev devt d)" "early (at_class devt d)" "early (at_entries devt d)"
    if "devt \<noteq> 0" for devt using e f that by (simp_all add: early_def at_defs tracked_def)
  have data: "probe_outcome env False ?n (vsoc_fail env x (at_data devt d))"
      "probe_outcome env True ?n (vsoc_fail env x (at_msix devt vs d))" if "devt \<noteq> 0" for devt vs x
    using outcome_data [of "at_data devt d" env ?n x] outcome_data [of "at_msix devt vs d" env ?n x] e f that
    by (simp_all add: early_def at_defs tracked_def region_count_def)
  have loop: "probe_outcome env False ?n (probe_regions env [0..<?n] ((at_msix devt vs d)\<lparr>msix_enabled := True\<rparr>))"
    if "devt \<noteq> 0" for devt vs
    by (rule outcome_loop)
      (use e f that w in \<open>simp add: attach_def early_def at_defs tracked_def region_count_def in_window_def table_inside_def\<close>)
  show ?thesis
  proof (cases rejected)
    case True
    then show ?thesis using rej m data(2) by (auto simp: probe_layout_eq [OF w])
  next
    case False
    then show ?thesis using rej m outcome_early [OF e] outcome_early [OF early(1)] outcome_early [OF early(2)] outcome_early [OF early(3)]
        outcome_early [OF early(4)] data(1) loop
      by (auto simp: probe_layout_eq [OF w] split: option.split)
  qed
qed

text \<open>
  C30. Attaching the driver to a window that holds the layout descriptor and the whole table of regions it announces (the
  driver does not check that; reading behind the window would fault). When it fails, everything that was taken from
  the kernel is given back, with two exceptions: the handlers of the interrupts registered so far stay, since they are freed
  with another device id, and MSI-X stays enabled when a region was found malformed, since the flag that records it is set
  later. When it succeeds, removing the device gives back everything but the handlers, one for every region. This is what
  happens on a kernel that lets MSI-X be disabled while handlers are registered. Where that is a bug (\<open>pe_strict\<close>), as
  the kernel's documentation says, a probe that stops after the first handler was registered ends in this bug, and so
  does the removal after a probe that succeeded; all else is the same, and no handler stays.
\<close>

theorem vsoc_probe_releases:
  assumes "vsoc_idle d" "\<And>m. pe_chrdev env = Some m \<Longrightarrow> m \<noteq> 0" "table_inside (pe_shm_len env) (v_mem d)"
  shows "case vsoc_probe_device env d of
      None \<Rightarrow> pe_strict env \<and> stops_late env (unat (region_count d))
    | Some (Inl _, d') \<Rightarrow>
        if regions_rejected env (v_mem d) then pci d' = no_pci\<lparr>pci_msix := True\<rparr>
        else (\<exists>j \<le> unat (region_count d). only_irqs j d' \<and> (pe_strict env \<longrightarrow> j = 0))
    | Some (Inr _, d') \<Rightarrow> \<not> regions_rejected env (v_mem d) \<and>
        (if pe_strict env \<and> 0 < unat (region_count d) then vsoc_remove_device (pe_strict env) d' = None
         else \<exists>d''. vsoc_remove_device (pe_strict env) d' = Some d'' \<and> only_irqs (unat (region_count d)) d'')"
proof -
  let ?n = "unat (region_count d)" and ?bar = "min (pe_reg_size env) MAX_REGISTER_BAR_LEN"
  define d2 where "d2 = upd_pci (\<lambda>k. k\<lparr>pci_enabled := True\<rparr>) (d\<lparr>v_dev := True, enabled_device := True\<rparr>)"
  define d3 where "d3 = upd_pci (\<lambda>k. k\<lparr>pci_regions := True\<rparr>) (d2\<lparr>requested_regions := True\<rparr>)"
  define d4 where "d4 = upd_pci (\<lambda>k. k\<lparr>pci_regs := True\<rparr>) (d3\<lparr>v_regs := True, shm_phys_start := pe_shm_start env, shm_size := pe_shm_len env\<rparr>)"
  define d5 where "d5 = upd_pci (\<lambda>k. k\<lparr>pci_shm := True\<rparr>) (d4\<lparr>kernel_mapped_shm := True, layout := True\<rparr>)"
  note ds = d2_def d3_def d4_def d5_def upd_pci_def
  have eq: "vsoc_probe_device env d =
    (case pe_enable env of Some e \<Rightarrow> Some (Inl e, d\<lparr>v_dev := True\<rparr>)
     | None \<Rightarrow> if \<not> pe_request env then vsoc_fail env EBUSY d2 else if \<not> pe_regs env ?bar then vsoc_fail env EBUSY d3
         else if \<not> pe_shm env then vsoc_fail env EBUSY d4 else probe_layout env d5)"
    by (simp add: vsoc_probe_device_def Let_def ds cong: option.case_cong)
  have early: "early d2" "early d3" "early d4" "early d5"
    using assms(1) by (simp_all add: vsoc_idle_def early_def ds tracked_def no_pci_def)
  have first: "probe_outcome env False ?n (Some (Inl e, d\<lparr>v_dev := True\<rparr>))" for e
    by (rule outcome_nothing) (use assms(1) in \<open>simp add: vsoc_idle_def\<close>)
  have m: "v_mem d5 = v_mem d" "region_count d5 = region_count d" "shm_size d5 = pe_shm_len env" by (simp_all add: ds region_count_def)
  have "probe_outcome env (regions_rejected env (v_mem d)) ?n (vsoc_probe_device env d)"
  proof (cases "pe_enable env = None \<and> pe_request env \<and> pe_regs env ?bar \<and> pe_shm env")
    case True
    have "probe_outcome env (regions_rejected env (v_mem d)) (unat (region_count d5)) (probe_layout env d5)"
      by (rule probe_layout_outcome [OF early(4)])
        (use assms True in \<open>auto simp: vsoc_idle_def ds regions_rejected_def regions_fine_def region_count_def\<close>)
    then show ?thesis using True by (simp add: eq m(2))
  next
    case False
    then have "\<not> regions_rejected env (v_mem d)" by (auto simp: regions_rejected_def)
    then show ?thesis using False first outcome_early [OF early(1)] outcome_early [OF early(2)] outcome_early [OF early(3)]
      by (auto simp: eq split: option.split)
  qed
  then show ?thesis unfolding probe_outcome_def .
qed

text \<open>A kernel that grants everything, and the device of the earlier examples before it is attached.\<close>

definition kind_kernel :: probe_env where
  "kind_kernel = \<lparr>pe_enable = None, pe_request = True, pe_reg_size = 0x100, pe_regs = (\<lambda>_. True), pe_shm_start = 0x10000000,
     pe_shm_len = 0x5000, pe_shm = True, pe_chrdev = Some 240, pe_cdev = True, pe_class = None, pe_entries = True, pe_data = True,
     pe_msix = Some [5, 6, 7], pe_irq = (\<lambda>_. True), pe_device = (\<lambda>_. New_Device), pe_strict = True\<rparr>"

definition demo_detached :: vsoc_device where
  "demo_detached = demo_device\<lparr>v_regs := False, kernel_mapped_shm := False, layout := False, regions := None, v_dev := False,
     regions_data := None, msix_entries := None, v_major := 0, enabled_device := False, requested_regions := False,
     cdev_added := False, class_added := False, msix_enabled := False\<rparr>"

lemma demo_table: "table_inside 0x5000 demo_mem"
  by (simp add: table_inside_def sizeof_vsoc_shm_layout_descriptor_def sizeof_vsoc_device_region_def mem_u32_def mem_read_def
      demo_mem_def get_u32_def upt_rec)

theorem vsoc_probe_releases_witness:
  "vsoc_idle demo_detached \<and> (case vsoc_probe_device kind_kernel demo_detached of
      None \<Rightarrow> False
    | Some (Inl _, d') \<Rightarrow> if regions_rejected kind_kernel demo_mem then pci d' = no_pci\<lparr>pci_msix := True\<rparr> else only_irqs 0 d'
    | Some (Inr _, d') \<Rightarrow> \<not> regions_rejected kind_kernel demo_mem \<and> vsoc_remove_device True d' = None)"
proof -
  have i: "vsoc_idle demo_detached" by (simp add: vsoc_idle_def demo_detached_def demo_device_def)
  have m: "v_mem demo_detached = demo_mem" "unat (region_count demo_detached) = 3"
    using demo_count by (simp_all add: demo_detached_def demo_fields region_count_def)
  have c: "m \<noteq> 0" if "pe_chrdev kind_kernel = Some m" for m using that by (auto simp: kind_kernel_def)
  have k: "pe_strict kind_kernel" "\<not> stops_late kind_kernel 3" "table_inside (pe_shm_len kind_kernel) (v_mem demo_detached)"
    using demo_table m by (auto simp: kind_kernel_def stops_late_def)
  show ?thesis using i vsoc_probe_releases [OF i c k(3)] k(1,2) unfolding m
    by (auto split: option.splits sum.splits if_splits)
qed

end
