(* ===== verification/Ion_Pool.thy ===== *)
theory Ion_Pool
  imports Kernel_Prelude
begin

text \<open>
  The page pools of the ION allocator (\<open>ashmem/ion/ion_page_pool.c\<close>) and the data of the allocator. A page that the
  kernel hands out is named by a number; one of order \<open>k\<close> consists of \<open>2 ^ k\<close> page frames, and \<open>frames p i\<close> are the bytes of the
  \<open>i\<close>-th of them. \<open>in_use\<close> lists the pages that the kernel handed out and did not get back; \<open>freed_frames\<close> the single
  frames that were given back of a page that was split. The outer \<open>option\<close> of a result is
  \<open>None\<close> for a \<open>BUG\<close>, for the first entry of an empty list and, for the loops, when they never end.
\<close>

section \<open>Data\<close>

record ion_page_pool =
  high_count :: nat
  low_count :: nat
  high_items :: "ptr list"
  low_items :: "ptr list"
  pool_order :: nat

text \<open>A scatter list is the list of its entries: page and length in bytes.\<close>

record ion_buffer =
  ib_heap :: ptr
  ib_flags :: u64
  private_flags :: u64
  ib_size :: u64
  priv_virt :: "ptr option"
  sg_table :: "(ptr \<times> u64) list option"
  kmap_cnt :: int
  ib_vaddr :: "ptr option"
  attachments :: "ptr list"

record ion_heap =
  heap_flags :: u64
  h_id :: nat
  h_type :: u32
  h_name :: "u8 list"
  free_list :: "ptr list"
  free_list_size :: u64
  num_of_buffers :: u64
  num_of_alloc_bytes :: u64
  alloc_bytes_wm :: u64
  sys_pools :: "ion_page_pool list"

record ion =
  frames :: "ptr \<Rightarrow> nat \<Rightarrow> nat \<Rightarrow> u8"
  compound_order :: "ptr \<Rightarrow> nat"
  page_high :: "ptr \<Rightarrow> bool"
  in_use :: "ptr list"
  freed_frames :: "(ptr \<times> nat) list"
  ion_heaps :: "ptr \<Rightarrow> ion_heap"
  ion_buffers :: "ptr \<Rightarrow> ion_buffer"
  dev_heaps :: "ptr list"
  heap_cnt :: nat
  next_heap_id :: nat

text \<open>
  The answers of the kernel: a pending fatal signal, the page allocator, the contiguous memory allocator (for a number of frames and an alignment) and its largest alignment, the mapping of pages for clearing them, and the
  small allocations.
\<close>

record ion_env =
  fatal_signal :: "ion \<Rightarrow> bool"
  kernel_page :: "nat \<Rightarrow> ion \<Rightarrow> ptr option"
  cma_region :: "nat \<Rightarrow> nat \<Rightarrow> ion \<Rightarrow> ptr option"
  cma_alignment :: nat
  vmap_ok :: "(ptr \<times> nat) list \<Rightarrow> bool"
  vmap_addr :: "ion \<Rightarrow> ptr option"
  table_ok :: "ion \<Rightarrow> bool"
  sg_ok :: "ion \<Rightarrow> bool"
  ram_pages :: u64
  is_kswapd :: bool
  remap_err :: "u64 \<Rightarrow> errno option"

definition set_pool :: "ptr \<Rightarrow> nat \<Rightarrow> ion_page_pool \<Rightarrow> ion \<Rightarrow> ion" where
  "set_pool h i pl s = s\<lparr>ion_heaps := (ion_heaps s)(h := (ion_heaps s h)\<lparr>sys_pools := (sys_pools (ion_heaps s h))[i := pl]\<rparr>)\<rparr>"

definition pool_at :: "ion \<Rightarrow> ptr \<Rightarrow> nat \<Rightarrow> ion_page_pool" where
  "pool_at s h i = sys_pools (ion_heaps s h) ! i"

section \<open>Pages of the kernel\<close>

text \<open>The pools ask for zeroed compound pages.\<close>

definition take_page :: "ptr \<Rightarrow> nat \<Rightarrow> ion \<Rightarrow> ion" where
  "take_page p k s = s\<lparr>frames := (frames s)(p := (\<lambda>_ _. 0)), compound_order := (compound_order s)(p := k), in_use := p # in_use s\<rparr>"

definition give_page :: "ptr \<Rightarrow> ion \<Rightarrow> ion" where
  "give_page p s = s\<lparr>in_use := list_del p (in_use s)\<rparr>"

definition ion_page_pool_alloc_pages :: "ion_env \<Rightarrow> nat \<Rightarrow> ion \<Rightarrow> ptr option \<times> ion" where
  "ion_page_pool_alloc_pages env k s =
     (if fatal_signal env s then (None, s)
      else case kernel_page env k s of None \<Rightarrow> (None, s) | Some p \<Rightarrow> (Some p, take_page p k s))"

definition ion_page_pool_free_pages :: "ptr \<Rightarrow> ion \<Rightarrow> ion" where
  "ion_page_pool_free_pages p s = give_page p s"

section \<open>Pools\<close>

definition ion_page_pool_create :: "nat \<Rightarrow> ion_page_pool" where
  "ion_page_pool_create k = \<lparr>high_count = 0, low_count = 0, high_items = [], low_items = [], pool_order = k\<rparr>"

definition ion_page_pool_add :: "bool \<Rightarrow> ptr \<Rightarrow> ion_page_pool \<Rightarrow> ion_page_pool" where
  "ion_page_pool_add high p pl =
     (if high then pl\<lparr>high_items := high_items pl @ [p], high_count := high_count pl + 1\<rparr>
      else pl\<lparr>low_items := low_items pl @ [p], low_count := low_count pl + 1\<rparr>)"

definition ion_page_pool_remove :: "bool \<Rightarrow> ion_page_pool \<Rightarrow> (ptr \<times> ion_page_pool) option" where
  "ion_page_pool_remove high pl =
     (if high then
        (if high_count pl = 0 then None
         else case high_items pl of [] \<Rightarrow> None
         | p # ps \<Rightarrow> Some (p, pl\<lparr>high_items := ps, high_count := high_count pl - 1\<rparr>))
      else
        (if low_count pl = 0 then None
         else case low_items pl of [] \<Rightarrow> None
         | p # ps \<Rightarrow> Some (p, pl\<lparr>low_items := ps, low_count := low_count pl - 1\<rparr>)))"

definition ion_page_pool_alloc :: "ion_env \<Rightarrow> ptr \<Rightarrow> nat \<Rightarrow> ion \<Rightarrow> (ptr option \<times> ion) option" where
  "ion_page_pool_alloc env h i s =
     (let pl = pool_at s h i in
      if high_count pl \<noteq> 0 then map_option (\<lambda>(p, pl1). (Some p, set_pool h i pl1 s)) (ion_page_pool_remove True pl)
      else if low_count pl \<noteq> 0 then map_option (\<lambda>(p, pl1). (Some p, set_pool h i pl1 s)) (ion_page_pool_remove False pl)
      else Some (ion_page_pool_alloc_pages env (pool_order pl) s))"

definition ion_page_pool_free :: "ptr \<Rightarrow> nat \<Rightarrow> ptr \<Rightarrow> ion \<Rightarrow> ion option" where
  "ion_page_pool_free h i p s =
     (let pl = pool_at s h i in
      if pool_order pl \<noteq> compound_order s p then None else Some (set_pool h i (ion_page_pool_add (page_high s p) p pl) s))"

definition ion_page_pool_total :: "ion_page_pool \<Rightarrow> bool \<Rightarrow> int" where
  "ion_page_pool_total pl high = int (low_count pl + (if high then high_count pl else 0)) * 2 ^ pool_order pl"

text \<open>The loop of the shrinker: pages of low memory go first.\<close>

partial_function (option) pool_shrink_loop :: "ptr \<Rightarrow> nat \<Rightarrow> bool \<Rightarrow> int \<Rightarrow> int \<Rightarrow> ion \<Rightarrow> (int \<times> ion) option" where
  "pool_shrink_loop h i high nr freed s =
     (if \<not> freed < nr then Some (freed, s)
      else (let pl = pool_at s h i in
        if low_count pl \<noteq> 0 then
          (case ion_page_pool_remove False pl of None \<Rightarrow> None
           | Some (p, pl1) \<Rightarrow> pool_shrink_loop h i high nr (freed + 2 ^ pool_order pl) (ion_page_pool_free_pages p (set_pool h i pl1 s)))
        else if high \<and> high_count pl \<noteq> 0 then
          (case ion_page_pool_remove True pl of None \<Rightarrow> None
           | Some (p, pl1) \<Rightarrow> pool_shrink_loop h i high nr (freed + 2 ^ pool_order pl) (ion_page_pool_free_pages p (set_pool h i pl1 s)))
        else Some (freed, s)))"

text \<open>\<open>high\<close> tells whether the memory that is asked for may lie in high memory (\<open>__GFP_HIGHMEM\<close>).\<close>

definition ion_page_pool_shrink :: "ion_env \<Rightarrow> bool \<Rightarrow> ptr \<Rightarrow> nat \<Rightarrow> int \<Rightarrow> ion \<Rightarrow> (int \<times> ion) option" where
  "ion_page_pool_shrink env highmem h i nr s =
     (let high = (is_kswapd env \<or> highmem) in
      if nr = 0 then Some (ion_page_pool_total (pool_at s h i) high, s) else pool_shrink_loop h i high nr 0 s)"

end
