(* ===== verification/Ion_Heap.thy ===== *)
theory Ion_Heap
  imports Ion_Pool
begin

text \<open>
  The system heap (\<open>ion_system_heap.c\<close>) and the functions that heaps share (\<open>ion_heap.c\<close>): clearing and mapping the pages of
  a buffer. The list of buffers to be freed and the shrinker, which call back into the core, are in the theory \<open>Ion\<close>.
\<close>

definition ION_PRIV_FLAG_SHRINKER_FREE :: u64 where "ION_PRIV_FLAG_SHRINKER_FREE = 1"
definition ION_FLAG_CACHED :: u64 where "ION_FLAG_CACHED = 1"

definition buffer_at :: "ion \<Rightarrow> ptr \<Rightarrow> ion_buffer" where
  "buffer_at s b = ion_buffers s b"

definition upd_buffer :: "ptr \<Rightarrow> (ion_buffer \<Rightarrow> ion_buffer) \<Rightarrow> ion \<Rightarrow> ion" where
  "upd_buffer b f s = s\<lparr>ion_buffers := (ion_buffers s)(b := f (ion_buffers s b))\<rparr>"

definition upd_heap :: "ptr \<Rightarrow> (ion_heap \<Rightarrow> ion_heap) \<Rightarrow> ion \<Rightarrow> ion" where
  "upd_heap h f s = s\<lparr>ion_heaps := (ion_heaps s)(h := f (ion_heaps s h))\<rparr>"

section \<open>Clearing pages\<close>

definition clear_frame :: "ptr \<times> nat \<Rightarrow> ion \<Rightarrow> ion" where
  "clear_frame pi s = s\<lparr>frames := (frames s)(fst pi := (frames s (fst pi))(snd pi := (\<lambda>_. 0)))\<rparr>"

definition ion_heap_clear_pages :: "ion_env \<Rightarrow> (ptr \<times> nat) list \<Rightarrow> ion \<Rightarrow> unit result \<times> ion" where
  "ion_heap_clear_pages env pages s = (if vmap_ok env pages then (Inr (), fold clear_frame pages s) else (Inl ENOMEM, s))"

text \<open>The frames of a scatter list in order, cleared in batches of 32; the first batch that cannot be mapped ends it.\<close>

definition sg_frames :: "(ptr \<times> u64) list \<Rightarrow> (ptr \<times> nat) list" where
  "sg_frames sg = concat (map (\<lambda>(p, len). map (Pair p) [0..<unat (PAGE_ALIGN len) div 4096]) sg)"

function sglist_zero_loop :: "ion_env \<Rightarrow> (ptr \<times> nat) list \<Rightarrow> ion \<Rightarrow> unit result \<times> ion" where
  "sglist_zero_loop env fs s =
     (if fs = [] then (Inr (), s)
      else case ion_heap_clear_pages env (take 32 fs) s of (Inl e, s1) \<Rightarrow> (Inl e, s1) | (Inr _, s1) \<Rightarrow> sglist_zero_loop env (drop 32 fs) s1)"
  by pat_completeness auto
termination by (relation "measure (\<lambda>(_, fs, _). length fs)") auto

definition ion_heap_sglist_zero :: "ion_env \<Rightarrow> (ptr \<times> u64) list \<Rightarrow> ion \<Rightarrow> unit result \<times> ion" where
  "ion_heap_sglist_zero env sg s = sglist_zero_loop env (sg_frames sg) s"

definition ion_heap_buffer_zero :: "ion_env \<Rightarrow> ptr \<Rightarrow> ion \<Rightarrow> (unit result \<times> ion) option" where
  "ion_heap_buffer_zero env b s = map_option (\<lambda>sg. ion_heap_sglist_zero env sg s) (sg_table (buffer_at s b))"

definition ion_heap_pages_zero :: "ion_env \<Rightarrow> ptr \<Rightarrow> u64 \<Rightarrow> ion \<Rightarrow> unit result \<times> ion" where
  "ion_heap_pages_zero env p sz s = ion_heap_sglist_zero env [(p, sz)] s"

section \<open>Mapping buffers\<close>

text \<open>
  The array of the frames that are mapped for the kernel has room for the pages of the buffer; \<open>None\<close> also stands for a write
  behind its end.
\<close>

fun fill_pages :: "nat \<Rightarrow> nat \<Rightarrow> (ptr \<times> u64) list \<Rightarrow> (ptr \<times> nat) list \<Rightarrow> (ptr \<times> nat) list option" where
  "fill_pages npages i [] acc = Some acc"
| "fill_pages npages i ((p, len) # sg) acc =
     (if i \<ge> npages then None
      else (let n = unat (PAGE_ALIGN len) div 4096 in
        if length acc + n > npages then None else fill_pages npages (Suc i) sg (acc @ map (Pair p) [0..<n])))"

definition ion_heap_map_kernel :: "ion_env \<Rightarrow> ptr \<Rightarrow> ion \<Rightarrow> ptr result option" where
  "ion_heap_map_kernel env b s =
     (case sg_table (buffer_at s b) of None \<Rightarrow> None
      | Some sg \<Rightarrow>
          if \<not> table_ok env s then Some (Inl ENOMEM)
          else (case fill_pages (unat (PAGE_ALIGN (ib_size (buffer_at s b))) div 4096) 0 sg [] of None \<Rightarrow> None
            | Some pages \<Rightarrow> Some (case vmap_addr env s of None \<Rightarrow> Inl ENOMEM | Some a \<Rightarrow> Inr a)))"

text \<open>
  The loop over the scatter list: user address and offset so far; the result lists what is mapped as user address, page,
  first frame and length.
\<close>

fun map_user_loop :: "ion_env \<Rightarrow> u64 \<Rightarrow> u64 \<Rightarrow> u64 \<Rightarrow> (ptr \<times> u64) list \<Rightarrow> (u64 \<times> ptr \<times> nat \<times> u64) list \<Rightarrow>
    unit result \<times> (u64 \<times> ptr \<times> nat \<times> u64) list" where
  "map_user_loop env vm_end addr offset [] maps = (Inr (), maps)"
| "map_user_loop env vm_end addr offset ((p, sg_len) # sg) maps =
     (if offset \<ge> sg_len then map_user_loop env vm_end addr (offset - sg_len) sg maps
      else (let remainder = vm_end - addr;
                len = min (sg_len - offset) remainder;
                first = unat offset div 4096
            in case remap_err env addr of Some e \<Rightarrow> (Inl e, maps)
               | None \<Rightarrow> if addr + len \<ge> vm_end then (Inr (), maps @ [(addr, p, first, len)])
               else map_user_loop env vm_end (addr + len) 0 sg (maps @ [(addr, p, first, len)])))"

definition ion_heap_map_user :: "ion_env \<Rightarrow> ptr \<Rightarrow> u64 \<Rightarrow> u64 \<Rightarrow> u64 \<Rightarrow> ion \<Rightarrow> (unit result \<times> (u64 \<times> ptr \<times> nat \<times> u64) list) option" where
  "ion_heap_map_user env b vm_start vm_end vm_pgoff s =
     map_option (\<lambda>sg. map_user_loop env vm_end vm_start (vm_pgoff * 4096) sg []) (sg_table (buffer_at s b))"

section \<open>The system heap\<close>

definition orders :: "nat list" where "orders = [8, 4, 0]"

definition order_to_index :: "nat \<Rightarrow> nat option" where
  "order_to_index k = (if k = 8 then Some 0 else if k = 4 then Some 1 else if k = 0 then Some 2 else None)"

definition order_to_size :: "nat \<Rightarrow> u64" where
  "order_to_size k = push_bit k PAGE_SIZE"

definition alloc_buffer_page :: "ion_env \<Rightarrow> ptr \<Rightarrow> nat \<Rightarrow> ion \<Rightarrow> (ptr option \<times> ion) option" where
  "alloc_buffer_page env h k s = (case order_to_index k of None \<Rightarrow> None | Some i \<Rightarrow> ion_page_pool_alloc env h i s)"

definition free_buffer_page :: "ptr \<Rightarrow> u64 \<Rightarrow> ptr \<Rightarrow> ion \<Rightarrow> ion option" where
  "free_buffer_page h pflags p s =
     (if pflags AND ION_PRIV_FLAG_SHRINKER_FREE \<noteq> 0 then Some (give_page p s)
      else case order_to_index (compound_order s p) of None \<Rightarrow> None | Some i \<Rightarrow> ion_page_pool_free h i p s)"

fun free_buffer_pages :: "ptr \<Rightarrow> u64 \<Rightarrow> ptr list \<Rightarrow> ion \<Rightarrow> ion option" where
  "free_buffer_pages h pflags [] s = Some s"
| "free_buffer_pages h pflags (p # ps) s =
     (case free_buffer_page h pflags p s of None \<Rightarrow> None | Some s1 \<Rightarrow> free_buffer_pages h pflags ps s1)"

fun alloc_largest_loop :: "ion_env \<Rightarrow> ptr \<Rightarrow> u64 \<Rightarrow> nat \<Rightarrow> nat list \<Rightarrow> ion \<Rightarrow> (ptr option \<times> ion) option" where
  "alloc_largest_loop env h sz max_order [] s = Some (None, s)"
| "alloc_largest_loop env h sz max_order (k # ks) s =
     (if sz < order_to_size k \<or> max_order < k then alloc_largest_loop env h sz max_order ks s
      else case alloc_buffer_page env h k s of None \<Rightarrow> None
      | Some (None, s1) \<Rightarrow> alloc_largest_loop env h sz max_order ks s1
      | Some (Some p, s1) \<Rightarrow> Some (Some p, s1))"

definition alloc_largest_available :: "ion_env \<Rightarrow> ptr \<Rightarrow> u64 \<Rightarrow> nat \<Rightarrow> ion \<Rightarrow> (ptr option \<times> ion) option" where
  "alloc_largest_available env h sz max_order s = alloc_largest_loop env h sz max_order orders s"

definition page_bytes :: "ion \<Rightarrow> ptr \<Rightarrow> u64" where
  "page_bytes s p = push_bit (compound_order s p) PAGE_SIZE"

text \<open>The loop that collects pages: \<open>False\<close> with the pages so far when none is to be had.\<close>

partial_function (option) collect_pages :: "ion_env \<Rightarrow> ptr \<Rightarrow> u64 \<Rightarrow> nat \<Rightarrow> ptr list \<Rightarrow> ion \<Rightarrow> (bool \<times> ptr list \<times> ion) option" where
  "collect_pages env h remaining max_order pages s =
     (if remaining = 0 then Some (True, pages, s)
      else case alloc_largest_available env h remaining max_order s of None \<Rightarrow> None
      | Some (None, s1) \<Rightarrow> Some (False, pages, s1)
      | Some (Some p, s1) \<Rightarrow> collect_pages env h (remaining - page_bytes s1 p) (compound_order s1 p) (pages @ [p]) s1)"

definition ion_system_heap_allocate :: "ion_env \<Rightarrow> ptr \<Rightarrow> ptr \<Rightarrow> u64 \<Rightarrow> ion \<Rightarrow> (unit result \<times> ion) option" where
  "ion_system_heap_allocate env h b sz s =
     (if sz div PAGE_SIZE > ram_pages env div 2 then Some (Inl ENOMEM, s)
      else case collect_pages env h (PAGE_ALIGN sz) 8 [] s of None \<Rightarrow> None
      | Some (full, pages, s1) \<Rightarrow>
          if full \<and> table_ok env s1 \<and> sg_ok env s1
          then Some (Inr (), upd_buffer b (\<lambda>bf. bf\<lparr>sg_table := Some (map (\<lambda>p. (p, page_bytes s1 p)) pages)\<rparr>) s1)
          else map_option (\<lambda>s2. (Inl ENOMEM, s2)) (free_buffer_pages h (private_flags (buffer_at s1 b)) pages s1))"

definition ion_system_heap_free :: "ion_env \<Rightarrow> ptr \<Rightarrow> ion \<Rightarrow> ion option" where
  "ion_system_heap_free env b s =
     (let bf = buffer_at s b in
      case sg_table bf of None \<Rightarrow> None
      | Some sg \<Rightarrow>
          (let s1 = (if private_flags bf AND ION_PRIV_FLAG_SHRINKER_FREE = 0 then snd (ion_heap_sglist_zero env sg s) else s)
           in free_buffer_pages (ib_heap bf) (private_flags bf) (map fst sg) s1))"

text \<open>The loop over the pools; with nothing to scan it only counts.\<close>

fun system_shrink_loop :: "ion_env \<Rightarrow> bool \<Rightarrow> ptr \<Rightarrow> bool \<Rightarrow> nat list \<Rightarrow> int \<Rightarrow> int \<Rightarrow> ion \<Rightarrow> (int \<times> ion) option" where
  "system_shrink_loop env highmem h only_scan [] nr nr_total s = Some (nr_total, s)"
| "system_shrink_loop env highmem h only_scan (i # is) nr nr_total s =
     (case ion_page_pool_shrink env highmem h i nr s of None \<Rightarrow> None
      | Some (n, s1) \<Rightarrow>
          if only_scan then system_shrink_loop env highmem h only_scan is nr (nr_total + n) s1
          else if nr - n \<le> 0 then Some (nr_total + n, s1)
          else system_shrink_loop env highmem h only_scan is (nr - n) (nr_total + n) s1)"

definition ion_system_heap_shrink :: "ion_env \<Rightarrow> bool \<Rightarrow> ptr \<Rightarrow> int \<Rightarrow> ion \<Rightarrow> (int \<times> ion) option" where
  "ion_system_heap_shrink env highmem h nr s = system_shrink_loop env highmem h (nr = 0) [0, 1, 2] nr 0 s"

text \<open>The pools are created with empty lists; \<open>oks\<close> tells for each whether its memory could be had.\<close>

definition ion_system_heap_create_pools :: "(nat \<Rightarrow> bool) \<Rightarrow> ion_page_pool list result" where
  "ion_system_heap_create_pools oks = (if list_all oks [0..<3] then Inr (map ion_page_pool_create orders) else Inl ENOMEM)"

end
