(* ===== verification/Ion.thy ===== *)
theory Ion
  imports Ion_Heap Kernel_Bytes
begin

text \<open>
  The core of the ION allocator (\<open>ion.c\<close>) and the deferred freeing of buffers (\<open>ion_heap.c\<close>). The operations of a heap are
  function pointers in the code: here the table \<open>ops\<close>, which gives them for every heap. A buffer handed out is held by a
  dma-buf, whose last reference releases it. A loop that drops its lock to free a buffer is modelled without
  interference.
\<close>

record ion_heap_ops =
  op_allocate :: "ion_env \<Rightarrow> ptr \<Rightarrow> ptr \<Rightarrow> u64 \<Rightarrow> ion \<Rightarrow> (unit result \<times> ion) option"
  op_free :: "ion_env \<Rightarrow> ptr \<Rightarrow> ion \<Rightarrow> ion option"
  op_map_kernel :: "(ion_env \<Rightarrow> ptr \<Rightarrow> ion \<Rightarrow> ptr result option) option"
  op_map_user :: "(ion_env \<Rightarrow> ptr \<Rightarrow> u64 \<Rightarrow> u64 \<Rightarrow> u64 \<Rightarrow> ion \<Rightarrow> (unit result \<times> (u64 \<times> ptr \<times> nat \<times> u64) list) option) option"
  op_shrink :: "(ion_env \<Rightarrow> bool \<Rightarrow> ptr \<Rightarrow> int \<Rightarrow> ion \<Rightarrow> (int \<times> ion) option) option"

definition system_heap_ops :: ion_heap_ops where
  "system_heap_ops = \<lparr>op_allocate = ion_system_heap_allocate, op_free = ion_system_heap_free, op_map_kernel = Some ion_heap_map_kernel,
     op_map_user = Some ion_heap_map_user, op_shrink = Some ion_system_heap_shrink\<rparr>"

definition ION_HEAP_FLAG_DEFER_FREE :: u64 where "ION_HEAP_FLAG_DEFER_FREE = 1"

definition deferred :: "ion \<Rightarrow> ptr \<Rightarrow> bool" where
  "deferred s h \<longleftrightarrow> heap_flags (ion_heaps s h) AND ION_HEAP_FLAG_DEFER_FREE \<noteq> 0"

section \<open>Destroying buffers\<close>

definition count_out :: "u64 \<Rightarrow> ion_heap \<Rightarrow> ion_heap" where
  "count_out sz hp = hp\<lparr>num_of_buffers := num_of_buffers hp - 1, num_of_alloc_bytes := num_of_alloc_bytes hp - sz\<rparr>"

text \<open>A kernel mapping that is left is removed; that changes nothing else.\<close>

definition ion_buffer_destroy :: "(ptr \<Rightarrow> ion_heap_ops) \<Rightarrow> ion_env \<Rightarrow> ptr \<Rightarrow> ion \<Rightarrow> ion option" where
  "ion_buffer_destroy ops env b s =
     (let bf = buffer_at s b in
      map_option (upd_heap (ib_heap bf) (count_out (ib_size bf))) (op_free (ops (ib_heap bf)) env b s))"

definition ion_heap_freelist_add :: "ptr \<Rightarrow> ptr \<Rightarrow> ion \<Rightarrow> ion" where
  "ion_heap_freelist_add h b s =
     upd_heap h (\<lambda>hp. hp\<lparr>free_list := b # free_list hp, free_list_size := free_list_size hp + ib_size (buffer_at s b)\<rparr>) s"

definition ion_heap_freelist_size :: "ptr \<Rightarrow> ion \<Rightarrow> u64" where
  "ion_heap_freelist_size h s = free_list_size (ion_heaps s h)"

definition ion_release_buffer :: "(ptr \<Rightarrow> ion_heap_ops) \<Rightarrow> ion_env \<Rightarrow> ptr \<Rightarrow> ion \<Rightarrow> ion option" where
  "ion_release_buffer ops env b s =
     (let h = ib_heap (buffer_at s b) in
      if deferred s h then Some (ion_heap_freelist_add h b s) else ion_buffer_destroy ops env b s)"

definition ion_dma_buf_release :: "(ptr \<Rightarrow> ion_heap_ops) \<Rightarrow> ion_env \<Rightarrow> ptr \<Rightarrow> ion \<Rightarrow> ion option" where
  "ion_dma_buf_release ops env b s = ion_release_buffer ops env b s"

text \<open>Taking the first buffer off the list, with the mark that keeps its pages out of the pools.\<close>

definition freelist_take :: "ptr \<Rightarrow> bool \<Rightarrow> ptr \<Rightarrow> ion \<Rightarrow> ion" where
  "freelist_take h skip_pools b s =
     (let s1 = upd_heap h (\<lambda>hp. hp\<lparr>free_list := list_del b (free_list hp), free_list_size := free_list_size hp - ib_size (buffer_at s b)\<rparr>) s
      in if skip_pools then upd_buffer b (\<lambda>bf. bf\<lparr>private_flags := private_flags bf OR ION_PRIV_FLAG_SHRINKER_FREE\<rparr>) s1 else s1)"

partial_function (option) freelist_drain_loop ::
    "(ptr \<Rightarrow> ion_heap_ops) \<Rightarrow> ion_env \<Rightarrow> ptr \<Rightarrow> u64 \<Rightarrow> bool \<Rightarrow> u64 \<Rightarrow> ion \<Rightarrow> (u64 \<times> ion) option" where
  "freelist_drain_loop ops env h sz skip_pools drained s =
     (case free_list (ion_heaps s h) of [] \<Rightarrow> Some (drained, s)
      | b # _ \<Rightarrow>
          if drained \<ge> sz then Some (drained, s)
          else (case ion_buffer_destroy ops env b (freelist_take h skip_pools b s) of None \<Rightarrow> None
            | Some s1 \<Rightarrow> freelist_drain_loop ops env h sz skip_pools (drained + ib_size (buffer_at s b)) s1))"

definition ion_heap_freelist_drain_pools ::
    "(ptr \<Rightarrow> ion_heap_ops) \<Rightarrow> ion_env \<Rightarrow> ptr \<Rightarrow> u64 \<Rightarrow> bool \<Rightarrow> ion \<Rightarrow> (u64 \<times> ion) option" where
  "ion_heap_freelist_drain_pools ops env h sz skip_pools s =
     (if ion_heap_freelist_size h s = 0 then Some (0, s)
      else freelist_drain_loop ops env h (if sz = 0 then ion_heap_freelist_size h s else sz) skip_pools 0 s)"

definition ion_heap_freelist_drain :: "(ptr \<Rightarrow> ion_heap_ops) \<Rightarrow> ion_env \<Rightarrow> ptr \<Rightarrow> u64 \<Rightarrow> ion \<Rightarrow> (u64 \<times> ion) option" where
  "ion_heap_freelist_drain ops env h sz s = ion_heap_freelist_drain_pools ops env h sz False s"

definition ion_heap_freelist_shrink :: "(ptr \<Rightarrow> ion_heap_ops) \<Rightarrow> ion_env \<Rightarrow> ptr \<Rightarrow> u64 \<Rightarrow> ion \<Rightarrow> (u64 \<times> ion) option" where
  "ion_heap_freelist_shrink ops env h sz s = ion_heap_freelist_drain_pools ops env h sz True s"

text \<open>One round of the thread that frees buffers in the background; it waits while the list has size zero.\<close>

definition ion_heap_deferred_free :: "(ptr \<Rightarrow> ion_heap_ops) \<Rightarrow> ion_env \<Rightarrow> ptr \<Rightarrow> ion \<Rightarrow> ion option" where
  "ion_heap_deferred_free ops env h s =
     (if ion_heap_freelist_size h s = 0 then Some s
      else case free_list (ion_heaps s h) of [] \<Rightarrow> Some s | b # _ \<Rightarrow> ion_buffer_destroy ops env b (freelist_take h False b s))"

section \<open>The shrinker\<close>

definition ion_heap_shrink_count :: "(ptr \<Rightarrow> ion_heap_ops) \<Rightarrow> ion_env \<Rightarrow> bool \<Rightarrow> ptr \<Rightarrow> ion \<Rightarrow> (int \<times> ion) option" where
  "ion_heap_shrink_count ops env highmem h s =
     (let n = int (unat (ion_heap_freelist_size h s) div 4096) in
      case op_shrink (ops h) of None \<Rightarrow> Some (n, s) | Some shrink \<Rightarrow> map_option (\<lambda>(k, s1). (n + k, s1)) (shrink env highmem h 0 s))"

definition ion_heap_shrink_scan :: "(ptr \<Rightarrow> ion_heap_ops) \<Rightarrow> ion_env \<Rightarrow> bool \<Rightarrow> ptr \<Rightarrow> int \<Rightarrow> ion \<Rightarrow> (int \<times> ion) option" where
  "ion_heap_shrink_scan ops env highmem h to_scan s =
     (if to_scan = 0 then Some (0, s)
      else case (if deferred s h then ion_heap_freelist_shrink ops env h (of_int to_scan * PAGE_SIZE) s else Some (0, s)) of None \<Rightarrow> None
      | Some (drained, s1) \<Rightarrow>
          (let freed = int (unat drained div 4096) in
           if to_scan - freed \<le> 0 then Some (freed, s1)
           else case op_shrink (ops h) of None \<Rightarrow> Some (freed, s1)
           | Some shrink \<Rightarrow> map_option (\<lambda>(k, s2). (freed + k, s2)) (shrink env highmem h (to_scan - freed) s1)))"

text \<open>The file in debugfs: writing zero scans as much as the count says. The number is cut to a signed 32-bit integer.\<close>

definition debug_shrink_set :: "(ptr \<Rightarrow> ion_heap_ops) \<Rightarrow> ion_env \<Rightarrow> ptr \<Rightarrow> u64 \<Rightarrow> ion \<Rightarrow> ion option" where
  "debug_shrink_set ops env h val s =
     (case (if val = 0 then ion_heap_shrink_count ops env True h s else Some (sint (ucast val :: u32), s)) of None \<Rightarrow> None
      | Some (nr, s1) \<Rightarrow> map_option snd (ion_heap_shrink_scan ops env True h nr s1))"

definition debug_shrink_get :: "(ptr \<Rightarrow> ion_heap_ops) \<Rightarrow> ion_env \<Rightarrow> ptr \<Rightarrow> ion \<Rightarrow> (int \<times> ion) option" where
  "debug_shrink_get ops env h s = ion_heap_shrink_count ops env True h s"

section \<open>Creating buffers\<close>

definition new_buffer :: "ptr \<Rightarrow> u64 \<Rightarrow> u64 \<Rightarrow> ion_buffer" where
  "new_buffer h len flags = \<lparr>ib_heap = h, ib_flags = flags, private_flags = 0, ib_size = len, priv_virt = None, sg_table = None, kmap_cnt = 0,
     ib_vaddr = None, attachments = []\<rparr>"

definition count_in :: "u64 \<Rightarrow> ion_heap \<Rightarrow> ion_heap" where
  "count_in len hp =
     (let n = num_of_alloc_bytes hp + len
      in hp\<lparr>num_of_buffers := num_of_buffers hp + 1, num_of_alloc_bytes := n, alloc_bytes_wm := max n (alloc_bytes_wm hp)\<rparr>)"

text \<open>The second half: a heap must have set the scatter list.\<close>

definition ion_buffer_finish :: "(ptr \<Rightarrow> ion_heap_ops) \<Rightarrow> ion_env \<Rightarrow> ptr \<Rightarrow> ptr \<Rightarrow> u64 \<Rightarrow> ion \<Rightarrow> (ptr result \<times> ion) option" where
  "ion_buffer_finish ops env h b len s =
     (if sg_table (buffer_at s b) = None then map_option (\<lambda>s1. (Inl EINVAL, s1)) (op_free (ops h) env b s)
      else Some (Inr b, upd_heap h (count_in len) s))"

text \<open>\<open>nb\<close> is the memory for the buffer, if it could be had.\<close>

definition ion_buffer_create ::
    "(ptr \<Rightarrow> ion_heap_ops) \<Rightarrow> ion_env \<Rightarrow> ptr \<Rightarrow> ptr option \<Rightarrow> u64 \<Rightarrow> u64 \<Rightarrow> ion \<Rightarrow> (ptr result \<times> ion) option" where
  "ion_buffer_create ops env h nb len flags s =
     (case nb of None \<Rightarrow> Some (Inl ENOMEM, s)
      | Some b \<Rightarrow>
          (case op_allocate (ops h) env h b len (upd_buffer b (\<lambda>_. new_buffer h len flags) s) of None \<Rightarrow> None
           | Some (Inr _, s1) \<Rightarrow> ion_buffer_finish ops env h b len s1
           | Some (Inl e, s1) \<Rightarrow>
               if \<not> deferred s1 h then Some (Inl e, s1)
               else case ion_heap_freelist_drain ops env h 0 s1 of None \<Rightarrow> None
               | Some (_, s2) \<Rightarrow>
                   (case op_allocate (ops h) env h b len s2 of None \<Rightarrow> None
                    | Some (Inl e2, s3) \<Rightarrow> Some (Inl e2, s3)
                    | Some (Inr _, s3) \<Rightarrow> ion_buffer_finish ops env h b len s3)))"

section \<open>Kernel mappings and attachments\<close>

definition ion_buffer_kmap_get :: "(ptr \<Rightarrow> ion_heap_ops) \<Rightarrow> ion_env \<Rightarrow> ptr \<Rightarrow> ion \<Rightarrow> (ptr option result \<times> ion) option" where
  "ion_buffer_kmap_get ops env b s =
     (let bf = buffer_at s b in
      if kmap_cnt bf \<noteq> 0 then Some (Inr (ib_vaddr bf), upd_buffer b (\<lambda>x. x\<lparr>kmap_cnt := kmap_cnt x + 1\<rparr>) s)
      else case op_map_kernel (ops (ib_heap bf)) of None \<Rightarrow> None
      | Some map_kernel \<Rightarrow>
          (case map_kernel env b s of None \<Rightarrow> None
           | Some (Inl e) \<Rightarrow> Some (Inl e, s)
           | Some (Inr a) \<Rightarrow> Some (Inr (Some a), upd_buffer b (\<lambda>x. x\<lparr>ib_vaddr := Some a, kmap_cnt := kmap_cnt x + 1\<rparr>) s)))"

definition ion_buffer_kmap_put :: "ptr \<Rightarrow> ion \<Rightarrow> ion" where
  "ion_buffer_kmap_put b s =
     upd_buffer b (\<lambda>x. if kmap_cnt x - 1 = 0 then x\<lparr>kmap_cnt := 0, ib_vaddr := None\<rparr> else x\<lparr>kmap_cnt := kmap_cnt x - 1\<rparr>) s"

definition ion_dma_buf_begin_cpu_access :: "(ptr \<Rightarrow> ion_heap_ops) \<Rightarrow> ion_env \<Rightarrow> ptr \<Rightarrow> ion \<Rightarrow> (unit result \<times> ion) option" where
  "ion_dma_buf_begin_cpu_access ops env b s =
     (if op_map_kernel (ops (ib_heap (buffer_at s b))) = None then Some (Inr (), s)
      else map_option (\<lambda>(r, s1). (case r of Inl e \<Rightarrow> Inl e | Inr _ \<Rightarrow> Inr (), s1)) (ion_buffer_kmap_get ops env b s))"

definition ion_dma_buf_end_cpu_access :: "(ptr \<Rightarrow> ion_heap_ops) \<Rightarrow> ptr \<Rightarrow> ion \<Rightarrow> ion" where
  "ion_dma_buf_end_cpu_access ops b s =
     (if op_map_kernel (ops (ib_heap (buffer_at s b))) = None then s else ion_buffer_kmap_put b s)"

text \<open>\<open>a\<close> is the new attachment, if it and its copy of the scatter list could be allocated.\<close>

definition ion_dma_buf_attach :: "ptr option \<Rightarrow> ptr \<Rightarrow> ion \<Rightarrow> unit result \<times> ion" where
  "ion_dma_buf_attach a b s =
     (case a of None \<Rightarrow> (Inl ENOMEM, s) | Some x \<Rightarrow> (Inr (), upd_buffer b (\<lambda>bf. bf\<lparr>attachments := x # attachments bf\<rparr>) s))"

definition ion_dma_buf_detatch :: "ptr \<Rightarrow> ptr \<Rightarrow> ion \<Rightarrow> ion" where
  "ion_dma_buf_detatch x b s = upd_buffer b (\<lambda>bf. bf\<lparr>attachments := list_del x (attachments bf)\<rparr>) s"

definition ion_mmap :: "(ptr \<Rightarrow> ion_heap_ops) \<Rightarrow> ion_env \<Rightarrow> ptr \<Rightarrow> u64 \<Rightarrow> u64 \<Rightarrow> u64 \<Rightarrow> ion \<Rightarrow> (unit result \<times> (u64 \<times> ptr \<times> nat \<times> u64) list) option" where
  "ion_mmap ops env b vm_start vm_end vm_pgoff s =
     (case op_map_user (ops (ib_heap (buffer_at s b))) of None \<Rightarrow> Some (Inl EINVAL, [])
      | Some map_user \<Rightarrow> map_user env b vm_start vm_end vm_pgoff s)"

section \<open>The device\<close>

definition ion_device_add_heap :: "ptr \<Rightarrow> ion \<Rightarrow> ion" where
  "ion_device_add_heap h s =
     (let s1 = upd_heap h (\<lambda>hp. hp\<lparr>free_list := [], free_list_size := 0, num_of_buffers := 0, num_of_alloc_bytes := 0, alloc_bytes_wm := 0,
                                h_id := next_heap_id s\<rparr>) s
      in s1\<lparr>next_heap_id := next_heap_id s + 1, dev_heaps := h # dev_heaps s1, heap_cnt := heap_cnt s1 + 1\<rparr>)"

definition ION_HEAP_TYPE_SYSTEM :: u32 where "ION_HEAP_TYPE_SYSTEM = 0"

text \<open>The heap starts zeroed; \<open>oks\<close> tells for each pool whether its memory could be had.\<close>

definition ion_system_heap_create :: "ptr option \<Rightarrow> (nat \<Rightarrow> bool) \<Rightarrow> ion \<Rightarrow> unit result \<times> ion" where
  "ion_system_heap_create nh oks s =
     (case nh of None \<Rightarrow> (Inl ENOMEM, s)
      | Some h \<Rightarrow>
          (case ion_system_heap_create_pools oks of Inl _ \<Rightarrow> (Inl ENOMEM, s)
           | Inr pools \<Rightarrow>
               (Inr (), ion_device_add_heap h (upd_heap h (\<lambda>_. \<lparr>heap_flags = ION_HEAP_FLAG_DEFER_FREE, h_id = 0, h_type = ION_HEAP_TYPE_SYSTEM,
                  h_name = map of_char ''ion_system_heap'', free_list = [], free_list_size = 0, num_of_buffers = 0, num_of_alloc_bytes = 0,
                  alloc_bytes_wm = 0, sys_pools = pools\<rparr>) s))))"

text \<open>What the kernel decides for one request: memory for the buffer of each heap, the dma-buf and the descriptor.\<close>

record ion_alloc_env =
  ia_buffer :: "ptr \<Rightarrow> ptr option"
  ia_export :: "errno option"
  ia_fd :: "nat result"

fun ion_alloc_loop :: "(ptr \<Rightarrow> ion_heap_ops) \<Rightarrow> ion_env \<Rightarrow> (ptr \<Rightarrow> ptr option) \<Rightarrow> u64 \<Rightarrow> u32 \<Rightarrow> u64 \<Rightarrow> ptr list \<Rightarrow> ptr result option \<Rightarrow> ion \<Rightarrow>
    (ptr result option \<times> ion) option" where
  "ion_alloc_loop ops env nb len ids flags [] res s = Some (res, s)"
| "ion_alloc_loop ops env nb len ids flags (h # hs) res s =
     (if \<not> bit ids (h_id (ion_heaps s h)) then ion_alloc_loop ops env nb len ids flags hs res s
      else case ion_buffer_create ops env h (nb h) len flags s of None \<Rightarrow> None
      | Some (Inr b, s1) \<Rightarrow> Some (Some (Inr b), s1)
      | Some (Inl e, s1) \<Rightarrow> ion_alloc_loop ops env nb len ids flags hs (Some (Inl e)) s1)"

definition ion_alloc :: "(ptr \<Rightarrow> ion_heap_ops) \<Rightarrow> ion_env \<Rightarrow> ion_alloc_env \<Rightarrow> u64 \<Rightarrow> u32 \<Rightarrow> u32 \<Rightarrow> ion \<Rightarrow> (nat result \<times> ion) option" where
  "ion_alloc ops env ia len0 ids flags s =
     (let len = PAGE_ALIGN len0 in
      if len = 0 then Some (Inl EINVAL, s)
      else case ion_alloc_loop ops env (ia_buffer ia) len ids (ucast flags) (dev_heaps s) None s of None \<Rightarrow> None
      | Some (None, s1) \<Rightarrow> Some (Inl ENODEV, s1)
      | Some (Some (Inl e), s1) \<Rightarrow> Some (Inl e, s1)
      | Some (Some (Inr b), s1) \<Rightarrow>
          (case ia_export ia of Some e \<Rightarrow> map_option (\<lambda>s2. (Inl e, s2)) (ion_release_buffer ops env b s1)
           | None \<Rightarrow>
               (case ia_fd ia of Inl e \<Rightarrow> map_option (\<lambda>s2. (Inl e, s2)) (ion_dma_buf_release ops env b s1) | Inr fd \<Rightarrow> Some (Inr fd, s1))))"

record ion_heap_query =
  q_cnt :: u32
  q_reserved0 :: u32
  q_heaps :: u64
  q_reserved1 :: u32
  q_reserved2 :: u32

definition MAX_HEAP_NAME :: nat where "MAX_HEAP_NAME = 32"

text \<open>One entry of the answer: the name cut to 31 bytes and filled with zeros, type and id, and three reserved words.\<close>

definition heap_data_bytes :: "ion_heap \<Rightarrow> u8 list" where
  "heap_data_bytes hp =
     (let nm = take 31 (takeWhile (\<lambda>c. c \<noteq> 0) (h_name hp))
      in nm @ replicate (MAX_HEAP_NAME - length nm) 0 @ word_bytes 4 (h_type hp) @ word_bytes 4 (of_nat (h_id hp) :: u32) @ replicate 12 0)"

fun query_loop :: "(u64 \<Rightarrow> bool) \<Rightarrow> ion \<Rightarrow> u64 \<Rightarrow> int \<Rightarrow> ptr list \<Rightarrow> nat \<Rightarrow> (u64 \<times> u8 list) list \<Rightarrow> nat result \<times> (u64 \<times> u8 list) list" where
  "query_loop ok s buf max_cnt [] cnt out = (Inr cnt, out)"
| "query_loop ok s buf max_cnt (h # hs) cnt out =
     (let a = buf + of_nat (52 * cnt) in
      if \<not> ok a then (Inl EFAULT, out)
      else (let out1 = out @ [(a, heap_data_bytes (ion_heaps s h))] in
        if int (Suc cnt) \<ge> max_cnt then (Inr (Suc cnt), out1) else query_loop ok s buf max_cnt hs (Suc cnt) out1))"

definition ion_query_heaps :: "(u64 \<Rightarrow> bool) \<Rightarrow> ion_heap_query \<Rightarrow> ion \<Rightarrow> ion_heap_query result \<times> (u64 \<times> u8 list) list" where
  "ion_query_heaps ok q s =
     (if q_heaps q = 0 then (Inr (q\<lparr>q_cnt := of_nat (heap_cnt s)\<rparr>), [])
      else if q_cnt q = 0 then (Inl EINVAL, [])
      else case query_loop ok s (q_heaps q) (sint (q_cnt q)) (dev_heaps s) 0 [] of
        (Inl e, out) \<Rightarrow> (Inl e, out)
      | (Inr n, out) \<Rightarrow> (Inr (q\<lparr>q_cnt := of_nat n\<rparr>), out))"

definition validate_ioctl_arg :: "ion_heap_query \<Rightarrow> unit result" where
  "validate_ioctl_arg q = (if q_reserved0 q \<noteq> 0 \<or> q_reserved1 q \<noteq> 0 \<or> q_reserved2 q \<noteq> 0 then Inl EINVAL else Inr ())"

definition ION_IOC_ALLOC :: u32 where "ION_IOC_ALLOC = 0xC0184900"
definition ION_IOC_HEAP_QUERY :: u32 where "ION_IOC_HEAP_QUERY = 0xC0184908"

definition to_heap_query :: "u8 list \<Rightarrow> ion_heap_query" where
  "to_heap_query bs = \<lparr>q_cnt = get_u32 0 bs, q_reserved0 = get_u32 4 bs, q_heaps = get_u64 8 bs, q_reserved1 = get_u32 16 bs, q_reserved2 = get_u32 20 bs\<rparr>"

definition heap_query_bytes :: "ion_heap_query \<Rightarrow> u8 list" where
  "heap_query_bytes q = word_bytes 4 (q_cnt q) @ word_bytes 4 (q_reserved0 q) @ word_bytes 8 (q_heaps q) @ word_bytes 4 (q_reserved1 q) @ word_bytes 4 (q_reserved2 q)"

text \<open>
  The size of a command is bits 16 to 29. The result, the writes to user memory and the new state; a command
  other than the two known ones copies its argument before it is refused.
\<close>

definition ion_ioctl :: "(ptr \<Rightarrow> ion_heap_ops) \<Rightarrow> ion_env \<Rightarrow> ion_alloc_env \<Rightarrow> (u64 \<Rightarrow> u8 list) \<Rightarrow> (u64 \<Rightarrow> bool) \<Rightarrow> u32 \<Rightarrow> u64 \<Rightarrow> ion \<Rightarrow>
    (unit result \<times> (u64 \<times> u8 list) list \<times> ion) option" where
  "ion_ioctl ops env ia user ok cmd arg s =
     (let sz = unat (drop_bit 16 cmd AND 0x3FFF) in
      if sz > 24 then Some (Inl EINVAL, [], s)
      else case copy_from_user user arg sz of None \<Rightarrow> Some (Inl EFAULT, [], s)
      | Some bs \<Rightarrow>
          if cmd = ION_IOC_HEAP_QUERY then
            (case validate_ioctl_arg (to_heap_query bs) of Inl e \<Rightarrow> Some (Inl e, [], s)
             | Inr _ \<Rightarrow>
                 (case ion_query_heaps ok (to_heap_query bs) s of
                    (Inl e, out) \<Rightarrow> Some (if ok arg then (Inl e, out @ [(arg, bs)], s) else (Inl EFAULT, out, s))
                  | (Inr q, out) \<Rightarrow> Some (if ok arg then (Inr (), out @ [(arg, heap_query_bytes q)], s) else (Inl EFAULT, out, s))))
          else if cmd = ION_IOC_ALLOC then
            (case ion_alloc ops env ia (get_u64 0 bs) (get_u32 8 bs) (get_u32 12 bs) s of None \<Rightarrow> None
             | Some (Inl e, s1) \<Rightarrow> Some (Inl e, [], s1)
             | Some (Inr fd, s1) \<Rightarrow>
                 Some (if ok arg then (Inr (), [(arg, take 16 bs @ word_bytes 4 (of_nat fd :: u32) @ drop 20 bs)], s1) else (Inl EFAULT, [], s1)))
          else Some (Inl ENOTTY, [], s))"

end
