(* ===== verification/Ion_Inv.thy ===== *)
theory Ion_Inv
  imports Ion "HOL-Library.Multiset"
begin

text \<open>
  The pages of the system heap: every page that the kernel handed out is in one pool, in the scatter list of one buffer or
  in transit between them; the pages of the pools are zeroed as long as clearing does not fail. The operations of the page pools on such a state.
\<close>

section \<open>Where pages are\<close>

definition pool_items :: "ion_page_pool \<Rightarrow> ptr list" where
  "pool_items pl = high_items pl @ low_items pl"

definition pool_pages :: "ion \<Rightarrow> ptr \<Rightarrow> ptr list" where
  "pool_pages s h = concat (map pool_items (sys_pools (ion_heaps s h)))"

definition buffer_pages :: "ion \<Rightarrow> ptr \<Rightarrow> ptr list" where
  "buffer_pages s b = (case sg_table (ion_buffers s b) of None \<Rightarrow> [] | Some sg \<Rightarrow> map fst sg)"

definition clean_page :: "ion \<Rightarrow> ptr \<Rightarrow> bool" where
  "clean_page s p \<longleftrightarrow> (\<forall>i < 2 ^ compound_order s p. \<forall>j. frames s p i j = 0)"

text \<open>
  What is shown of the places of pages does not depend on their contents. \<open>cl\<close> tells whether the pages of the pools are to be
  zeroed: they are when no clearing has failed.
\<close>

definition clean_for :: "bool \<Rightarrow> ion \<Rightarrow> ptr \<Rightarrow> bool" where
  "clean_for cl s p \<longleftrightarrow> (cl \<longrightarrow> clean_page s p)"

definition pool_ok :: "bool \<Rightarrow> ion \<Rightarrow> nat \<Rightarrow> ion_page_pool \<Rightarrow> bool" where
  "pool_ok cl s k pl \<longleftrightarrow> pool_order pl = k \<and> high_count pl = length (high_items pl) \<and> low_count pl = length (low_items pl) \<and>
     (\<forall>p \<in> set (pool_items pl). compound_order s p = k \<and> clean_for cl s p)"

definition pools_ok :: "bool \<Rightarrow> ion \<Rightarrow> ptr \<Rightarrow> bool" where
  "pools_ok cl s h \<longleftrightarrow> length (sys_pools (ion_heaps s h)) = 3 \<and> (\<forall>i < 3. pool_ok cl s (orders ! i) (pool_at s h i))"

definition bytes_of :: "ion \<Rightarrow> ptr list \<Rightarrow> nat" where
  "bytes_of s ps = (\<Sum>p\<leftarrow>ps. unat (page_bytes s p))"

definition buffer_ok :: "ion \<Rightarrow> ptr \<Rightarrow> ptr \<Rightarrow> bool" where
  "buffer_ok s h b \<longleftrightarrow> ib_heap (ion_buffers s b) = h \<and> sg_table (ion_buffers s b) = Some (map (\<lambda>p. (p, page_bytes s p)) (buffer_pages s b)) \<and>
     (\<forall>p \<in> set (buffer_pages s b). compound_order s p \<in> set orders) \<and>
     bytes_of s (buffer_pages s b) = unat (PAGE_ALIGN (ib_size (ion_buffers s b)))"

lemma bytes_of_cong: "(\<And>p. p \<in> set ps \<Longrightarrow> compound_order s' p = compound_order s p) \<Longrightarrow> bytes_of s' ps = bytes_of s ps"
  unfolding bytes_of_def by (intro arg_cong [of _ _ sum_list] map_cong refl) (simp add: page_bytes_def)

text \<open>\<open>L\<close> are the buffers that exist, \<open>E\<close> the pages in transit.\<close>

definition pages_ok :: "bool \<Rightarrow> ptr \<Rightarrow> ptr list \<Rightarrow> ptr list \<Rightarrow> ion \<Rightarrow> bool" where
  "pages_ok cl h L E s \<longleftrightarrow> pools_ok cl s h \<and> distinct L \<and> (\<forall>b \<in> set L. buffer_ok s h b) \<and>
     distinct (pool_pages s h @ E @ concat (map (buffer_pages s) L)) \<and>
     set (pool_pages s h @ E @ concat (map (buffer_pages s) L)) \<subseteq> set (in_use s) \<and>
     (\<forall>p \<in> set E. compound_order s p \<in> set orders)"

lemma set_orders: "set orders = {8, 4, 0}" and length_orders: "length orders = 3"
  by (auto simp: orders_def)

lemma order_index: "order_to_index k = Some i \<longleftrightarrow> i < 3 \<and> orders ! i = k"
  by (auto simp: order_to_index_def orders_def nth_Cons' split: if_splits)

lemma order_index_ex: "k \<in> set orders \<Longrightarrow> \<exists>i < 3. order_to_index k = Some i \<and> orders ! i = k"
  by (auto simp: set_orders order_to_index_def orders_def)

lemma pool_in_pages: "length (sys_pools (ion_heaps s h)) = 3 \<Longrightarrow> i < 3 \<Longrightarrow> set (pool_items (pool_at s h i)) \<subseteq> set (pool_pages s h)"
  by (force simp: pool_pages_def pool_at_def)

text \<open>Replacing one pool.\<close>

lemma set_pool_simps [simp]:
  "frames (set_pool h i pl s) = frames s" "compound_order (set_pool h i pl s) = compound_order s" "in_use (set_pool h i pl s) = in_use s"
  "ion_buffers (set_pool h i pl s) = ion_buffers s" "page_high (set_pool h i pl s) = page_high s"
  "sys_pools (ion_heaps (set_pool h i pl s) h) = (sys_pools (ion_heaps s h))[i := pl]"
  by (simp_all add: set_pool_def)

lemma buffer_pages_set_pool [simp]: "buffer_pages (set_pool h i pl s) = buffer_pages s"
  by (simp add: buffer_pages_def fun_eq_iff)

lemma clean_for_set_pool [simp]: "clean_for cl (set_pool h i pl s) = clean_for cl s"
  by (simp add: clean_for_def clean_page_def fun_eq_iff)

lemma concat_update:
  "i < length xs \<Longrightarrow> concat (map f (xs[i := y])) = concat (map f (take i xs)) @ f y @ concat (map f (drop (Suc i) xs))"
  by (simp add: upd_conv_take_nth_drop)

lemma concat_split: "i < length xs \<Longrightarrow> concat (map f xs) = concat (map f (take i xs)) @ f (xs ! i) @ concat (map f (drop (Suc i) xs))"
  by (metis concat_append id_take_nth_drop list.simps(9) map_append concat.simps(2))

lemma mset_pool_pages:
  assumes "length (sys_pools (ion_heaps s h)) = 3" "i < 3"
  shows "mset (pool_pages (set_pool h i pl s) h) + mset (pool_items (pool_at s h i)) = mset (pool_pages s h) + mset (pool_items pl)"
  using assms concat_split [of i "sys_pools (ion_heaps s h)" pool_items] concat_update [of i "sys_pools (ion_heaps s h)" pool_items pl]
  by (simp add: pool_pages_def pool_at_def)

lemma pools_okD:
  assumes "pools_ok cl s h" "i < 3"
  shows "pool_ok cl s (orders ! i) (pool_at s h i)" "length (sys_pools (ion_heaps s h)) = 3" "pool_order (pool_at s h i) = orders ! i"
    "\<And>p. p \<in> set (pool_items (pool_at s h i)) \<Longrightarrow> compound_order s p = orders ! i \<and> clean_for cl s p"
  using assms by (auto simp: pools_ok_def pool_ok_def)

lemma order_nth: "i < 3 \<Longrightarrow> orders ! i \<in> set orders"
  using nth_mem [of i orders] by (simp add: length_orders)

lemma pool_ok_cong:
  assumes "\<And>p. p \<in> set (pool_items pl) \<Longrightarrow> compound_order s' p = compound_order s p \<and> frames s' p = frames s p"
  shows "pool_ok cl s' k pl = pool_ok cl s k pl"
  using assms by (auto simp: pool_ok_def clean_for_def clean_page_def)

lemma mset_exchange:
  fixes a b c d e f :: "'a multiset"
  assumes "a + c = b + d" "d + e = c + f"
  shows "a + e = b + f"
proof (rule multiset_eqI)
  show "count (a + e) x = count (b + f) x" for x using assms [THEN arg_cong, of "\<lambda>m. count m x"] by simp
qed

text \<open>Pages move between one pool and the pages in transit.\<close>

lemma pages_ok_set_pool:
  assumes ok: "pages_ok cl h L E s" and i: "i < 3" and pl: "pool_ok cl s (orders ! i) pl"
    and m: "mset (pool_items pl) + mset E' = mset (pool_items (pool_at s h i)) + mset E"
  shows "pages_ok cl h L E' (set_pool h i pl s)"
proof -
  let ?s = "set_pool h i pl s" and ?B = "concat (map (buffer_pages s) L)"
  have p: "pools_ok cl s h" using ok by (simp add: pages_ok_def)
  note len = pools_okD(2) [OF p i]
  have "mset (pool_pages ?s h) + mset E' = mset (pool_pages s h) + mset E"
    using mset_pool_pages [OF len i, of pl] m by (rule mset_exchange)
  then have M: "mset (pool_pages ?s h @ E' @ ?B) = mset (pool_pages s h @ E @ ?B)" by (simp flip: add.assoc)
  have "pools_ok cl ?s h"
  proof -
    have "pool_ok cl ?s (orders ! j) (pool_at ?s h j)" if "j < 3" for j
    proof -
      have "pool_ok cl ?s k = pool_ok cl s k" for k using pool_ok_cong [of _ ?s s] by (simp add: fun_eq_iff)
      moreover have "pool_at ?s h j = (if j = i then pl else pool_at s h j)" using i len that by (simp add: pool_at_def)
      ultimately show ?thesis using pl pools_okD(1) [OF p that] by simp
    qed
    then show ?thesis using len by (simp add: pools_ok_def)
  qed
  moreover have "compound_order s x \<in> set orders" if "x \<in> set E'" for x
  proof -
    have "x \<in> set (pool_items (pool_at s h i)) \<union> set E" using that m by (metis Un_iff set_mset_mset set_mset_union union_iff)
    then show ?thesis using pools_okD(4) [OF p i] order_nth [OF i] ok by (auto simp: pages_ok_def)
  qed
  moreover have "buffer_ok ?s h b = buffer_ok s h b" for b using bytes_of_cong [of _ ?s s] by (simp add: buffer_ok_def page_bytes_def)
  ultimately show ?thesis
    using ok mset_eq_imp_distinct_iff [OF M] mset_eq_setD [OF M] by (simp add: pages_ok_def)
qed

text \<open>Pages come from the kernel and go back to it.\<close>

lemma pages_ok_take:
  assumes ok: "pages_ok cl h L E s" and p: "p \<notin> set (in_use s)" and k: "k \<in> set orders"
  shows "pages_ok cl h L (E @ [p]) (take_page p k s)"
proof -
  let ?s = "take_page p k s"
  have bp: "buffer_pages ?s = buffer_pages s" "pool_pages ?s h = pool_pages s h" "pool_at ?s h = pool_at s h"
    by (simp_all add: fun_eq_iff take_page_def buffer_pages_def pool_pages_def pool_at_def)
  let ?A = "pool_pages s h @ E @ concat (map (buffer_pages s) L)"
  have A: "set ?A \<subseteq> set (in_use s)" "distinct ?A" "p \<notin> set ?A" using ok p by (auto simp: pages_ok_def)
  have same: "compound_order ?s x = compound_order s x \<and> frames ?s x = frames s x" if "x \<in> set ?A" for x
    using that A(3) by (auto simp: take_page_def)
  have po: "pools_ok cl s h" using ok by (simp add: pages_ok_def)
  have "pool_ok cl ?s (orders ! i) (pool_at s h i)" if i: "i < 3" for i
    using pool_ok_cong [of "pool_at s h i" ?s s cl "orders ! i"] same pool_in_pages [OF pools_okD(2) [OF po i] i] pools_okD(1) [OF po i] by auto
  then have "pools_ok cl ?s h" using po by (simp add: pools_ok_def bp) (simp add: take_page_def)
  moreover have "buffer_ok ?s h b" if "b \<in> set L" for b
  proof -
    have "\<And>x. x \<in> set (buffer_pages s b) \<Longrightarrow> compound_order ?s x = compound_order s x" using same that by auto
    then have "map (\<lambda>x. (x, page_bytes ?s x)) (buffer_pages s b) = map (\<lambda>x. (x, page_bytes s x)) (buffer_pages s b)"
      by (simp add: page_bytes_def)
    moreover have "buffer_ok s h b" using ok that by (simp add: pages_ok_def)
    moreover have "ion_buffers ?s = ion_buffers s" by (simp add: take_page_def)
    moreover have "\<forall>x \<in> set (buffer_pages s b). compound_order ?s x = compound_order s x" using same that by auto
    moreover have "bytes_of ?s (buffer_pages s b) = bytes_of s (buffer_pages s b)" by (rule bytes_of_cong) (use same that in auto)
    ultimately show ?thesis by (simp add: buffer_ok_def bp)
  qed
  moreover have "\<forall>x \<in> set (E @ [p]). compound_order ?s x \<in> set orders" using ok k by (auto simp: pages_ok_def take_page_def)
  ultimately show ?thesis using ok A by (auto simp: pages_ok_def bp) (auto simp: take_page_def)
qed

lemma pages_ok_give:
  assumes "pages_ok cl h L (p # E) s"
  shows "pages_ok cl h L E (give_page p s)"
proof -
  let ?s = "give_page p s"
  have bp: "buffer_pages ?s = buffer_pages s" "pool_pages ?s h = pool_pages s h" "pool_at ?s h = pool_at s h"
    "sys_pools (ion_heaps ?s h) = sys_pools (ion_heaps s h)"
    by (simp_all add: fun_eq_iff give_page_def buffer_pages_def pool_pages_def pool_at_def)
  have "pool_ok cl ?s = pool_ok cl s" by (simp add: fun_eq_iff pool_ok_def clean_for_def clean_page_def give_page_def)
  then have "pools_ok cl ?s h = pools_ok cl s h" by (simp add: pools_ok_def bp)
  moreover have "buffer_ok ?s h b = buffer_ok s h b" for b
    using bytes_of_cong [of _ ?s s] by (simp add: buffer_ok_def bp page_bytes_def) (simp add: give_page_def)
  moreover have "set (in_use s) - {p} \<subseteq> set (in_use ?s)" by (clarsimp simp: give_page_def list_del_def) (metis in_set_remove1)
  moreover have "compound_order ?s = compound_order s" by (simp add: give_page_def)
  moreover let ?A = "pool_pages s h @ E @ concat (map (buffer_pages s) L)"
  have "distinct ?A" "p \<notin> set ?A" "set ?A \<subseteq> set (in_use s)" using assms by (auto simp: pages_ok_def)
  ultimately have "set ?A \<subseteq> set (in_use ?s)" by blast
  show ?thesis
    using assms \<open>distinct ?A\<close> \<open>set ?A \<subseteq> set (in_use ?s)\<close> \<open>pools_ok cl ?s h = pools_ok cl s h\<close> \<open>\<And>b. buffer_ok ?s h b = buffer_ok s h b\<close>
      \<open>compound_order ?s = compound_order s\<close> by (simp add: pages_ok_def bp)
qed

end
