(* ===== verification/Ion_Sys.thy ===== *)
theory Ion_Sys
  imports Ion_Inv
begin

text \<open>
  The system heap on consistent states: an allocation collects pages that nobody else has, and it ends; the pages of a buffer
  that is freed go to the pools of their order, or back to the kernel.
\<close>

section \<open>What an allocation leaves alone\<close>

definition heap_core :: "ion \<Rightarrow> ptr \<Rightarrow> ion_heap" where
  "heap_core s h = (ion_heaps s h)\<lparr>sys_pools := []\<rparr>"

definition grows :: "ptr \<Rightarrow> ion \<Rightarrow> ion \<Rightarrow> bool" where
  "grows h s s' \<longleftrightarrow> ion_buffers s' = ion_buffers s \<and> heap_core s' h = heap_core s h \<and> set (in_use s) \<subseteq> set (in_use s') \<and>
     (\<forall>p \<in> set (in_use s). compound_order s' p = compound_order s p \<and> frames s' p = frames s p)"

lemma grows_refl [simp]: "grows h s s"
  by (simp add: grows_def)

lemma grows_trans [trans]: "grows h s t \<Longrightarrow> grows h t u \<Longrightarrow> grows h s u"
  by (auto simp: grows_def)

lemma grows_set_pool [simp]: "grows h s (set_pool h i pl s)"
  by (simp add: grows_def heap_core_def set_pool_def)

lemma grows_take: "p \<notin> set (in_use s) \<Longrightarrow> grows h s (take_page p k s)"
  by (auto simp: grows_def heap_core_def take_page_def)

definition fresh_pages :: "ion_env \<Rightarrow> bool" where
  "fresh_pages env \<longleftrightarrow> (\<forall>k s p. kernel_page env k s = Some p \<longrightarrow> p \<notin> set (in_use s))"

lemma pages_ok_in_use: "pages_ok cl h L E s \<Longrightarrow> p \<in> set E \<Longrightarrow> p \<in> set (in_use s)"
  by (auto simp: pages_ok_def)

lemma clean_grows: "grows h s s' \<Longrightarrow> p \<in> set (in_use s) \<Longrightarrow> clean_for cl s' p = clean_for cl s p"
  by (simp add: grows_def clean_for_def clean_page_def)

section \<open>One page\<close>

lemma pool_remove:
  assumes "pool_ok cl s k pl" "(if high then high_count pl else low_count pl) \<noteq> 0"
  obtains p pl1 where "ion_page_pool_remove high pl = Some (p, pl1)" "mset (pool_items pl1) + {#p#} = mset (pool_items pl)"
    "pool_ok cl s k pl1" "compound_order s p = k" "clean_for cl s p" "p \<in> set (pool_items pl)"
proof (cases high)
  case True
  with assms obtain p ps where "high_items pl = p # ps" by (cases "high_items pl") (auto simp: pool_ok_def)
  with assms True show ?thesis by (intro that) (auto simp: ion_page_pool_remove_def pool_ok_def pool_items_def)
next
  case False
  with assms obtain p ps where "low_items pl = p # ps" by (cases "low_items pl") (auto simp: pool_ok_def)
  with assms False show ?thesis by (intro that) (auto simp: ion_page_pool_remove_def pool_ok_def pool_items_def)
qed

lemma pool_take:
  assumes ok: "pages_ok cl h L E s" and i: "i < 3" and c: "(if high then high_count (pool_at s h i) else low_count (pool_at s h i)) \<noteq> 0"
  obtains p pl1 where "ion_page_pool_remove high (pool_at s h i) = Some (p, pl1)" "pages_ok cl h L (E @ [p]) (set_pool h i pl1 s)"
    "compound_order s p = orders ! i" "clean_for cl s p"
proof -
  have "pools_ok cl s h" using ok by (simp add: pages_ok_def)
  from pool_remove [OF pools_okD(1) [OF this i] c] obtain p pl1 where
    r: "ion_page_pool_remove high (pool_at s h i) = Some (p, pl1)" and m: "mset (pool_items pl1) + {#p#} = mset (pool_items (pool_at s h i))"
    and pl: "pool_ok cl s (orders ! i) pl1" and cp: "compound_order s p = orders ! i" "clean_for cl s p" by metis
  have "mset (pool_items pl1) + mset (E @ [p]) = mset (pool_items (pool_at s h i)) + mset E" by (simp flip: m)
  from that [OF r pages_ok_set_pool [OF ok i pl this] cp] show ?thesis .
qed

text \<open>A page that was handed out: in transit, of the order that was asked for, and zeroed if the pools are.\<close>

definition handed :: "bool \<Rightarrow> ptr \<Rightarrow> ptr list \<Rightarrow> ptr list \<Rightarrow> nat \<Rightarrow> ion \<Rightarrow> ptr option \<times> ion \<Rightarrow> bool" where
  "handed cl h L E k s r \<longleftrightarrow> grows h s (snd r) \<and>
     (case fst r of None \<Rightarrow> pages_ok cl h L E (snd r)
      | Some p \<Rightarrow> pages_ok cl h L (E @ [p]) (snd r) \<and> compound_order (snd r) p = k \<and> clean_for cl (snd r) p)"

lemma pool_alloc_handed:
  assumes ok: "pages_ok cl h L E s" and i: "i < 3" and f: "fresh_pages env"
  shows "\<exists>r. ion_page_pool_alloc env h i s = Some r \<and> handed cl h L E (orders ! i) s r"
proof -
  let ?pl = "pool_at s h i"
  have po: "pool_order ?pl = orders ! i" using ok pools_okD(3) i by (auto simp: pages_ok_def)
  have rm: ?thesis if "(if high then high_count ?pl else low_count ?pl) \<noteq> 0"
      "ion_page_pool_alloc env h i s = map_option (\<lambda>(p, pl1). (Some p, set_pool h i pl1 s)) (ion_page_pool_remove high ?pl)" for high
    using that(2) by (rule_tac pool_take [OF ok i that(1)]) (auto simp: handed_def)
  have kp: ?thesis if "ion_page_pool_alloc env h i s = Some (ion_page_pool_alloc_pages env (orders ! i) s)"
  proof (cases "kernel_page env (orders ! i) s")
    case None then show ?thesis using that ok by (simp add: ion_page_pool_alloc_pages_def handed_def)
  next
    case (Some p)
    then have p: "p \<notin> set (in_use s)" using f by (simp add: fresh_pages_def)
    show ?thesis using that Some ok pages_ok_take [OF ok p order_nth [OF i]] grows_take [OF p]
      by (simp add: ion_page_pool_alloc_pages_def handed_def) (simp add: take_page_def clean_for_def clean_page_def)
  qed
  show ?thesis using rm [of True] rm [of False] kp by (cases "high_count ?pl = 0"; cases "low_count ?pl = 0")
      (simp_all add: ion_page_pool_alloc_def Let_def po)
qed

lemma alloc_largest_handed:
  assumes ok: "pages_ok cl h L E s" and f: "fresh_pages env" and ks: "set ks \<subseteq> set orders"
  shows "\<exists>r k. alloc_largest_loop env h sz mo ks s = Some r \<and> handed cl h L E k s r \<and> (fst r \<noteq> None \<longrightarrow> k \<in> set orders \<and> order_to_size k \<le> sz \<and> k \<le> mo)"
  using ok ks
proof (induction ks arbitrary: s)
  case Nil then show ?case by (simp add: handed_def)
next
  case (Cons k ks)
  show ?case
  proof (cases "sz < order_to_size k \<or> mo < k")
    case True then show ?thesis using Cons.IH [OF Cons.prems(1)] Cons.prems(2) by simp
  next
    case False
    obtain i where i: "i < 3" "order_to_index k = Some i" "orders ! i = k" using order_index_ex [of k] Cons.prems(2) by auto
    from pool_alloc_handed [OF Cons.prems(1) i(1) f] obtain r where
      r: "ion_page_pool_alloc env h i s = Some r" "handed cl h L E k s r" unfolding i(3) by blast
    show ?thesis
    proof (cases "fst r")
      case None
      then have "pages_ok cl h L E (snd r)" "grows h s (snd r)" using r(2) by (simp_all add: handed_def)
      with Cons.IH [OF this(1)] Cons.prems(2) obtain r' k' where
        r': "alloc_largest_loop env h sz mo ks (snd r) = Some r'" "handed cl h L E k' (snd r) r'"
        "fst r' \<noteq> None \<longrightarrow> k' \<in> set orders \<and> order_to_size k' \<le> sz \<and> k' \<le> mo" by auto
      have "handed cl h L E k' s r'" using r'(2) grows_trans [OF \<open>grows h s (snd r)\<close>] by (simp add: handed_def)
      then show ?thesis using False r(1) i(2) None r'(1,3) by (cases r) (auto simp: alloc_buffer_page_def)
    next
      case (Some p)
      with False r i Cons.prems(2) show ?thesis by (cases r) (auto simp: alloc_buffer_page_def intro!: exI [of _ k])
    qed
  qed
qed

section \<open>Collecting pages\<close>

lemma order_to_size_nat: "k \<in> set orders \<Longrightarrow> unat (order_to_size k) = 4096 * 2 ^ k"
  by (auto simp: set_orders order_to_size_def PAGE_SIZE_def)

lemma page_bytes_nat: "compound_order s p \<in> set orders \<Longrightarrow> unat (page_bytes s p) = 4096 * 2 ^ compound_order s p"
  using order_to_size_nat by (simp add: page_bytes_def order_to_size_def)

lemma page_bytes_grows: "grows h s s' \<Longrightarrow> p \<in> set (in_use s) \<Longrightarrow> page_bytes s' p = page_bytes s p"
  by (simp add: grows_def page_bytes_def)

lemma bytes_of_simps [simp]: "bytes_of s [] = 0" "bytes_of s (p # ps) = unat (page_bytes s p) + bytes_of s ps"
  by (simp_all add: bytes_of_def)

lemma collect_pages_ok:
  assumes "4096 dvd unat remaining" "pages_ok cl h L pages s" "\<forall>p \<in> set pages. clean_for cl s p" "fresh_pages env"
  shows "\<exists>ok ps s'. collect_pages env h remaining mo pages s = Some (ok, pages @ ps, s') \<and> pages_ok cl h L (pages @ ps) s' \<and>
    (\<forall>p \<in> set (pages @ ps). clean_for cl s' p) \<and> grows h s s' \<and> (ok \<longrightarrow> bytes_of s' ps = unat remaining)"
  using assms(1-3)
proof (induction "unat remaining" arbitrary: remaining mo pages s rule: less_induct)
  case less
  show ?case
  proof (cases "remaining = 0")
    case True then show ?thesis using less.prems by (subst collect_pages.simps) auto
  next
    case False
    from alloc_largest_handed [OF less.prems(2) assms(4) subset_refl] obtain r k where
      r: "alloc_largest_available env h remaining mo s = Some r" and hd: "handed cl h L pages k s r" and
      k: "fst r \<noteq> None \<longrightarrow> k \<in> set orders \<and> order_to_size k \<le> remaining" unfolding alloc_largest_available_def by metis
    obtain po s1 where rr: "r = (po, s1)" by fastforce
    have g: "grows h s s1" using hd by (simp add: handed_def rr)
    have cl: "\<forall>p \<in> set pages. clean_for cl s1 p"
      using less.prems(3) clean_grows [OF g] pages_ok_in_use [OF less.prems(2)] by blast
    show ?thesis
    proof (cases po)
      case None then show ?thesis using r rr hd g cl False by (subst collect_pages.simps) (auto simp: handed_def)
    next
      case (Some p)
      have hd': "pages_ok cl h L (pages @ [p]) s1" "compound_order s1 p = k" "clean_for cl s1 p"
        using hd rr Some by (simp_all add: handed_def)
      have ko: "k \<in> set orders" and kr: "order_to_size k \<le> remaining" using k rr Some by simp_all
      let ?r1 = "remaining - page_bytes s1 p"
      have pb: "page_bytes s1 p = order_to_size k" by (simp add: page_bytes_def order_to_size_def hd'(2))
      have u: "unat ?r1 + unat (page_bytes s1 p) = unat remaining"
        using kr by (simp add: pb unat_sub word_le_nat_alt)
      have sz: "unat (page_bytes s1 p) = 4096 * 2 ^ k" using order_to_size_nat [OF ko] pb by simp
      have "(0::nat) < 4096 * 2 ^ k" by simp
      then have lt: "unat ?r1 < unat remaining" using u sz by linarith
      have dv: "4096 dvd unat ?r1" using less.prems(1) u sz by (metis dvd_add_left_iff dvd_triv_left)
      have "\<forall>q \<in> set (pages @ [p]). clean_for cl s1 q" using cl hd'(3) by simp
      from less.hyps [OF lt dv hd'(1) this, of k] obtain ok ps s' where
        c: "collect_pages env h ?r1 k (pages @ [p]) s1 = Some (ok, pages @ p # ps, s')" "pages_ok cl h L (pages @ p # ps) s'"
        "\<forall>q \<in> set (pages @ p # ps). clean_for cl s' q" "grows h s1 s'" "ok \<longrightarrow> bytes_of s' ps = unat ?r1" by auto
      have "page_bytes s' p = page_bytes s1 p" using page_bytes_grows [OF c(4)] pages_ok_in_use [OF hd'(1)] by simp
      then have "ok \<longrightarrow> bytes_of s' (p # ps) = unat remaining" using c(5) u by simp
      then show ?thesis using r rr Some False c(1-3) hd'(2) grows_trans [OF g c(4)]
        by (subst collect_pages.simps) (auto intro!: exI [of _ "p # ps"])
    qed
  qed
qed

section \<open>Freeing pages\<close>

lemma pool_add_mset: "mset (pool_items (ion_page_pool_add high p pl)) = mset (pool_items pl) + {#p#}"
  by (simp add: ion_page_pool_add_def pool_items_def)

lemma pool_add_ok: "pool_ok cl s k pl \<Longrightarrow> compound_order s p = k \<Longrightarrow> clean_for cl s p \<Longrightarrow> pool_ok cl s k (ion_page_pool_add high p pl)"
  by (auto simp: ion_page_pool_add_def pool_ok_def pool_items_def)

text \<open>What freeing leaves alone.\<close>

definition frees :: "ptr \<Rightarrow> ion \<Rightarrow> ion \<Rightarrow> bool" where
  "frees h s s' \<longleftrightarrow> ion_buffers s' = ion_buffers s \<and> heap_core s' h = heap_core s h \<and> compound_order s' = compound_order s \<and> frames s' = frames s"

lemma frees_refl [simp]: "frees h s s" and frees_trans: "frees h s t \<Longrightarrow> frees h t u \<Longrightarrow> frees h s u"
  by (auto simp: frees_def)

lemma free_page_ok:
  assumes ok: "pages_ok cl h L (p # E) s" and c: "pflags AND ION_PRIV_FLAG_SHRINKER_FREE = 0 \<longrightarrow> clean_for cl s p"
  shows "\<exists>s'. free_buffer_page h pflags p s = Some s' \<and> pages_ok cl h L E s' \<and> frees h s s'"
proof (cases "pflags AND ION_PRIV_FLAG_SHRINKER_FREE = 0")
  case True
  have "compound_order s p \<in> set orders" using ok by (simp add: pages_ok_def)
  then obtain i where i: "i < 3" "order_to_index (compound_order s p) = Some i" "orders ! i = compound_order s p"
    using order_index_ex by blast
  have "pools_ok cl s h" using ok by (simp add: pages_ok_def)
  note pl = pools_okD(1,3) [OF this i(1)]
  let ?pl = "ion_page_pool_add (page_high s p) p (pool_at s h i)"
  have "pages_ok cl h L E (set_pool h i ?pl s)"
    by (rule pages_ok_set_pool [OF ok i(1) pool_add_ok [OF pl(1)]]) (use i True c in \<open>simp_all add: pool_add_mset\<close>)
  then show ?thesis using True i pl(2)
    by (simp add: free_buffer_page_def ion_page_pool_free_def frees_def heap_core_def) (simp add: set_pool_def)
next
  case False then show ?thesis using pages_ok_give [OF ok]
    by (simp add: free_buffer_page_def frees_def heap_core_def) (simp add: give_page_def)
qed

lemma free_pages_ok:
  assumes "pages_ok cl h L (ps @ E) s" "pflags AND ION_PRIV_FLAG_SHRINKER_FREE = 0 \<longrightarrow> (\<forall>p \<in> set ps. clean_for cl s p)"
  shows "\<exists>s'. free_buffer_pages h pflags ps s = Some s' \<and> pages_ok cl h L E s' \<and> frees h s s'"
  using assms
proof (induction ps arbitrary: s)
  case (Cons p ps)
  have "pages_ok cl h L (p # ps @ E) s" using Cons.prems(1) by simp
  from free_page_ok [OF this] Cons.prems(2) obtain s1 where
    s1: "free_buffer_page h pflags p s = Some s1" "pages_ok cl h L (ps @ E) s1" "frees h s s1" by fastforce
  have "clean_for cl s1 = clean_for cl s" using s1(3) by (simp add: fun_eq_iff frees_def clean_for_def clean_page_def)
  with Cons.IH [OF s1(2)] Cons.prems(2) s1 show ?case by (auto intro: frees_trans)
qed simp

end
