(* ===== verification/Ion_Sys_Ops.thy ===== *)
theory Ion_Sys_Ops
  imports Ion_Sys
begin

text \<open>The operations of the system heap on consistent states: allocation, freeing with its clearing, and the shrinker.\<close>

section \<open>Clearing\<close>

definition can_map :: "ion_env \<Rightarrow> bool" where
  "can_map env \<longleftrightarrow> (\<forall>fs. vmap_ok env fs)"

text \<open>Clearing clears some of the frames, and all of them when the pages can be mapped.\<close>

lemma zero_loop:
  "\<exists>gs. snd (sglist_zero_loop env fs s) = fold clear_frame gs s \<and> set gs \<subseteq> set fs \<and> (can_map env \<longrightarrow> set gs = set fs)"
proof (induction env fs s rule: sglist_zero_loop.induct)
  case (1 env fs s)
  show ?case
  proof (cases "fs = [] \<or> \<not> vmap_ok env (take 32 fs)")
    case True
    then have "snd (sglist_zero_loop env fs s) = s" by (subst sglist_zero_loop.simps) (auto simp: ion_heap_clear_pages_def simp del: sglist_zero_loop.simps)
    then show ?thesis using True by (intro exI [of _ "[]"]) (auto simp: can_map_def simp del: sglist_zero_loop.simps)
  next
    case False
    let ?s = "fold clear_frame (take 32 fs) s"
    have c: "ion_heap_clear_pages env (take 32 fs) s = (Inr (), ?s)" using False by (simp add: ion_heap_clear_pages_def)
    from "1.IH" [OF _ c [symmetric] refl] False obtain gs where
      gs: "snd (sglist_zero_loop env (drop 32 fs) ?s) = fold clear_frame gs ?s" "set gs \<subseteq> set (drop 32 fs)" "can_map env \<longrightarrow> set gs = set (drop 32 fs)"
      by auto
    have fs: "set fs = set (take 32 fs) \<union> set (drop 32 fs)" by (metis append_take_drop_id set_append)
    have "snd (sglist_zero_loop env fs s) = fold clear_frame (take 32 fs @ gs) s"
      using gs(1) False c by (subst sglist_zero_loop.simps) (simp del: sglist_zero_loop.simps)
    moreover have "set (take 32 fs @ gs) \<subseteq> set fs" "can_map env \<longrightarrow> set (take 32 fs @ gs) = set fs" using gs(2,3) fs by auto
    ultimately show ?thesis by blast
  qed
qed

lemma fold_clear: "fold clear_frame fs s = s\<lparr>frames := (\<lambda>p i. if (p, i) \<in> set fs then \<lambda>_. 0 else frames s p i)\<rparr>"
proof (induction fs arbitrary: s)
  case (Cons pi fs) then show ?case by (cases pi) (auto simp: clear_frame_def fun_eq_iff intro!: ion.equality)
qed simp

lemma page_align_bytes: "compound_order s p \<in> set orders \<Longrightarrow> PAGE_ALIGN (page_bytes s p) = page_bytes s p"
  by (auto simp: set_orders page_bytes_def PAGE_ALIGN_def ALIGN_def PAGE_SIZE_def)

lemma sg_frames_set:
  assumes "\<forall>p \<in> set ps. compound_order s p \<in> set orders"
  shows "set (sg_frames (map (\<lambda>p. (p, page_bytes s p)) ps)) = {(p, i). p \<in> set ps \<and> i < 2 ^ compound_order s p}"
proof -
  have "unat (PAGE_ALIGN (page_bytes s p)) div 4096 = 2 ^ compound_order s p" if "p \<in> set ps" for p
    using assms that page_align_bytes [of s p] page_bytes_nat [of s p] by simp
  then show ?thesis by (auto simp: sg_frames_def)
qed

lemma pages_ok_frames:
  assumes ok: "pages_ok cl h L E s" and c: "\<forall>p \<in> set (pool_pages s h). clean_for cl (s\<lparr>frames := F\<rparr>) p"
  shows "pages_ok cl h L E (s\<lparr>frames := F\<rparr>)"
proof -
  let ?s = "s\<lparr>frames := F\<rparr>"
  have bp: "buffer_pages ?s = buffer_pages s" "pool_pages ?s h = pool_pages s h" "pool_at ?s h = pool_at s h"
    by (simp_all add: fun_eq_iff buffer_pages_def pool_pages_def pool_at_def)
  have po: "pools_ok cl s h" using ok by (simp add: pages_ok_def)
  have "pool_ok cl ?s (orders ! i) (pool_at s h i)" if "i < 3" for i
    using pools_okD(1) [OF po that] c pool_in_pages [OF pools_okD(2) [OF po that] that] by (auto simp: pool_ok_def)
  then have "pools_ok cl ?s h" using po by (simp add: pools_ok_def bp)
  moreover have "buffer_ok ?s h b = buffer_ok s h b" for b using bytes_of_cong [of _ ?s s] by (simp add: buffer_ok_def bp page_bytes_def)
  ultimately show ?thesis using ok by (simp add: pages_ok_def bp)
qed

lemma pools_clean: "pages_ok cl h L E s \<Longrightarrow> \<forall>p \<in> set (pool_pages s h). clean_for cl s p"
  by (auto simp: pages_ok_def pools_ok_def pool_pages_def in_set_conv_nth [of _ "sys_pools (ion_heaps s h)"] pool_at_def pool_ok_def)

section \<open>Freeing a buffer\<close>

lemma mset_concat_remove1: "b \<in> set L \<Longrightarrow> mset (concat (map f L)) = mset (f b) + mset (concat (map f (remove1 b L)))"
  by (induction L) auto

lemma pages_ok_release:
  assumes ok: "pages_ok cl h L [] s" and b: "b \<in> set L"
  shows "pages_ok cl h (remove1 b L) (buffer_pages s b) s"
proof -
  have "mset (pool_pages s h @ buffer_pages s b @ concat (map (buffer_pages s) (remove1 b L))) = mset (pool_pages s h @ [] @ concat (map (buffer_pages s) L))"
    using mset_concat_remove1 [OF b, of "buffer_pages s"] by simp
  note m = mset_eq_imp_distinct_iff [OF this] mset_eq_setD [OF this]
  have "\<forall>p \<in> set (buffer_pages s b). compound_order s p \<in> set orders" using ok b by (auto simp: pages_ok_def buffer_ok_def)
  then show ?thesis using ok m by (auto simp: pages_ok_def set_remove1_eq)
qed

text \<open>What an operation on buffer \<open>b\<close> leaves alone: the other buffers with the contents of the pages they have, and the heap but for its pools.\<close>

definition only_buffer :: "ptr \<Rightarrow> ptr \<Rightarrow> ptr list \<Rightarrow> ion \<Rightarrow> ion \<Rightarrow> bool" where
  "only_buffer h b L s s' \<longleftrightarrow> heap_core s' h = heap_core s h \<and>
     (\<exists>sg pv. ion_buffers s' = (ion_buffers s)(b := (ion_buffers s b)\<lparr>sg_table := sg, priv_virt := pv\<rparr>)) \<and>
     (\<forall>x \<in> set L. x \<noteq> b \<longrightarrow> (\<forall>p \<in> set (buffer_pages s x). frames s' p = frames s p \<and> compound_order s' p = compound_order s p))"

lemma only_buffer_frees:
  "frees h s s' \<Longrightarrow> only_buffer h b L s s'"
  by (auto simp: frees_def only_buffer_def intro!: exI [of _ "sg_table (ion_buffers s b)"] exI [of _ "priv_virt (ion_buffers s b)"])

lemma system_free_ok:
  assumes ok: "pages_ok cl h L [] s" and b: "b \<in> set L" and env: "cl \<longrightarrow> can_map env"
  shows "\<exists>s'. ion_system_heap_free env b s = Some s' \<and> pages_ok cl h (remove1 b L) [] s' \<and> only_buffer h b L s s'"
proof -
  let ?ps = "buffer_pages s b" and ?pf = "private_flags (ion_buffers s b)"
  have bo: "buffer_ok s h b" using ok b by (simp add: pages_ok_def)
  have sg: "sg_table (ion_buffers s b) = Some (map (\<lambda>p. (p, page_bytes s p)) ?ps)" and hb: "ib_heap (ion_buffers s b) = h"
    and ord: "\<forall>p \<in> set ?ps. compound_order s p \<in> set orders" using bo by (simp_all add: buffer_ok_def)
  obtain gs where z: "snd (ion_heap_sglist_zero env (map (\<lambda>p. (p, page_bytes s p)) ?ps) s) = s\<lparr>frames := \<lambda>p i. if (p, i) \<in> set gs then \<lambda>_. 0 else frames s p i\<rparr>"
    and gs: "set gs \<subseteq> {(p, i). p \<in> set ?ps \<and> i < 2 ^ compound_order s p}" "cl \<longrightarrow> set gs = {(p, i). p \<in> set ?ps \<and> i < 2 ^ compound_order s p}"
  proof -
    obtain gs where "snd (ion_heap_sglist_zero env (map (\<lambda>p. (p, page_bytes s p)) ?ps) s) = fold clear_frame gs s"
        "set gs \<subseteq> {(p, i). p \<in> set ?ps \<and> i < 2 ^ compound_order s p}" "can_map env \<longrightarrow> set gs = {(p, i). p \<in> set ?ps \<and> i < 2 ^ compound_order s p}"
      using zero_loop [of env "sg_frames (map (\<lambda>p. (p, page_bytes s p)) ?ps)" s] unfolding ion_heap_sglist_zero_def sg_frames_set [OF ord] by blast
    then show thesis using env by (intro that [of gs]) (simp_all add: fold_clear)
  qed
  let ?F = "\<lambda>p i. if (p, i) \<in> set gs then \<lambda>_. 0 else frames s p i"
  define s1 where "s1 = (if ?pf AND ION_PRIV_FLAG_SHRINKER_FREE = 0 then s\<lparr>frames := ?F\<rparr> else s)"
  have rel: "pages_ok cl h (remove1 b L) ?ps s" by (rule pages_ok_release [OF ok b])
  have dj: "set (pool_pages s h) \<inter> set ?ps = {}" using rel by (auto simp: pages_ok_def)
  note clean = pools_clean [OF ok]
  have "pages_ok cl h (remove1 b L) ?ps (s\<lparr>frames := ?F\<rparr>)"
    by (rule pages_ok_frames [OF rel]) (use dj clean gs(1) in \<open>auto simp: clean_for_def clean_page_def\<close>)
  then have "pages_ok cl h (remove1 b L) (?ps @ []) s1" using rel by (simp add: s1_def)
  from free_pages_ok [OF this, of ?pf] obtain s' where
    s': "free_buffer_pages h ?pf ?ps s1 = Some s'" "pages_ok cl h (remove1 b L) [] s'" "frees h s1 s'"
    using gs(2) by (auto simp: s1_def clean_for_def clean_page_def)
  have "ion_system_heap_free env b s = free_buffer_pages h ?pf ?ps s1"
    by (simp add: ion_system_heap_free_def buffer_at_def Let_def sg hb z s1_def comp_def)
  moreover have "only_buffer h b L s s1"
  proof -
    have "set (buffer_pages s x) \<inter> set ?ps = {}" if "x \<in> set L" "x \<noteq> b" for x
    proof -
      have "x \<in> set (remove1 b L)" using that by (simp add: in_set_remove1)
      then show ?thesis using rel by (auto simp: pages_ok_def)
    qed
    then show ?thesis using gs(1) by (auto simp: only_buffer_def s1_def heap_core_def fun_eq_iff intro!: exI [of _ "sg_table (ion_buffers s b)"] exI [of _ "priv_virt (ion_buffers s b)"])
  qed
  ultimately show ?thesis using s' by (auto simp: only_buffer_def frees_def)
qed

section \<open>Allocating a buffer\<close>

lemma page_align_dvd: "4096 dvd unat (PAGE_ALIGN sz)"
  using ALIGN_dvd [of 12 sz] by (simp add: PAGE_ALIGN_def PAGE_SIZE_def)

lemma page_align_whole:
  assumes "4096 dvd unat l"
  shows "PAGE_ALIGN l = l"
proof -
  obtain k where k: "unat l = 4096 * k" using assms by (auto elim: dvdE)
  then have "4096 * k < 2 ^ 64" using unsigned_less [of l, where 'a = nat] by simp
  then have "unat l + 4095 < 2 ^ 64" using k by simp
  then have "unat (ALIGN l (2 ^ 12)) = unat l + 4095 - (unat l + 4095) mod 2 ^ 12"
    using unat_ALIGN [of l 12] by (simp add: mask_eq_exp_minus_1)
  then have "unat (PAGE_ALIGN l) = unat l" using k by (simp add: PAGE_ALIGN_def PAGE_SIZE_def)
  then show ?thesis by (rule unsigned_word_eqI)
qed

lemma page_align_idem: "PAGE_ALIGN (PAGE_ALIGN sz) = PAGE_ALIGN sz"
  by (rule page_align_whole [OF page_align_dvd])

text \<open>The pages in transit become the scatter list of a new buffer.\<close>

lemma pages_ok_fill:
  assumes ok: "pages_ok cl h L ps s" and b: "b \<notin> set L" and hb: "ib_heap (ion_buffers s b) = h"
    and n: "bytes_of s ps = unat (PAGE_ALIGN (ib_size (ion_buffers s b)))"
  shows "pages_ok cl h (b # L) [] (upd_buffer b (\<lambda>bf. bf\<lparr>sg_table := Some (map (\<lambda>p. (p, page_bytes s p)) ps)\<rparr>) s)" (is "pages_ok cl _ _ _ ?s")
proof -
  have bp: "buffer_pages ?s = (buffer_pages s)(b := ps)" by (simp add: fun_eq_iff buffer_pages_def upd_buffer_def comp_def)
  have eq: "pool_pages ?s h = pool_pages s h" "pool_at ?s h = pool_at s h" "compound_order ?s = compound_order s" "page_bytes ?s = page_bytes s"
    "clean_for cl ?s = clean_for cl s" "in_use ?s = in_use s" "sys_pools (ion_heaps ?s h) = sys_pools (ion_heaps s h)"
    by (simp_all add: fun_eq_iff upd_buffer_def pool_pages_def pool_at_def page_bytes_def clean_for_def clean_page_def)
  have bo: "bytes_of ?s = bytes_of s" by (simp add: fun_eq_iff bytes_of_def eq)
  have map: "map (buffer_pages ?s) L = map (buffer_pages s) L" using b by (auto simp: bp)
  have "pools_ok cl ?s h = pools_ok cl s h" by (simp add: pools_ok_def pool_ok_def eq)
  moreover have "buffer_ok ?s h b" using ok hb n by (auto simp: buffer_ok_def bp eq pages_ok_def bo) (auto simp: upd_buffer_def)
  moreover have "buffer_ok ?s h x" if "x \<in> set L" for x
  proof -
    have "x \<noteq> b" "buffer_ok s h x" using that b ok by (auto simp: pages_ok_def)
    then show ?thesis by (simp add: buffer_ok_def bp eq bo) (simp add: upd_buffer_def)
  qed
  moreover have "concat (map (buffer_pages ?s) (b # L)) = ps @ concat (map (buffer_pages s) L)"
    using map fun_cong [OF bp, of b] by (simp only: list.map concat.simps fun_upd_same)
  ultimately show ?thesis using ok b by (auto simp: pages_ok_def eq map)
qed

lemma only_buffer_grows:
  assumes "grows h s s'" "pages_ok cl h L E s"
  shows "only_buffer h b L s s'"
proof -
  have "p \<in> set (in_use s)" if "x \<in> set L" "p \<in> set (buffer_pages s x)" for x p using assms(2) that by (auto simp: pages_ok_def)
  then show ?thesis using assms(1) by (auto simp: only_buffer_def grows_def intro!: exI [of _ "sg_table (ion_buffers s b)"] exI [of _ "priv_virt (ion_buffers s b)"])
qed

lemma only_buffer_trans:
  assumes "only_buffer h b L s t" "only_buffer h b L t u"
  shows "only_buffer h b L s u"
proof -
  have "buffer_pages t x = buffer_pages s x" if "x \<noteq> b" for x using assms(1) that by (auto simp: only_buffer_def buffer_pages_def)
  then show ?thesis using assms by (auto simp: only_buffer_def) blast
qed

lemma only_buffer_fill: "only_buffer h b L s (upd_buffer b (\<lambda>bf. bf\<lparr>sg_table := sg\<rparr>) s)"
  by (auto simp: only_buffer_def upd_buffer_def heap_core_def intro!: exI [of _ sg] exI [of _ "priv_virt (ion_buffers s b)"])

text \<open>A new buffer: its pages make up the size that was asked for, and are zeroed if \<open>cl\<close> holds.\<close>

definition filled :: "bool \<Rightarrow> ion \<Rightarrow> ptr \<Rightarrow> u64 \<Rightarrow> bool" where
  "filled cl s b len \<longleftrightarrow> (case sg_table (ion_buffers s b) of None \<Rightarrow> False
     | Some sg \<Rightarrow> (\<Sum>(p, l)\<leftarrow>sg. unat l) = unat (PAGE_ALIGN len) \<and> (cl \<longrightarrow> (\<forall>(p, i) \<in> set (sg_frames sg). \<forall>j. frames s p i j = 0)))"

lemma filled_pages:
  assumes "buffer_ok s h b" "\<forall>p \<in> set (buffer_pages s b). clean_for cl s p"
  shows "filled cl s b (ib_size (ion_buffers s b))"
  using assms sg_frames_set [of "buffer_pages s b" s] by (auto simp: filled_def buffer_ok_def clean_for_def clean_page_def bytes_of_def comp_def)

lemma system_allocate_ok:
  assumes ok: "pages_ok cl h L [] s" and b: "b \<notin> set L" and hb: "ib_heap (ion_buffers s b) = h" and sz: "ib_size (ion_buffers s b) = len"
    and f: "fresh_pages env"
  shows "\<exists>r s'. ion_system_heap_allocate env h b len s = Some (r, s') \<and> only_buffer h b L s s' \<and>
    (case r of Inl e \<Rightarrow> e = ENOMEM \<and> pages_ok cl h L [] s' | Inr _ \<Rightarrow> pages_ok cl h (b # L) [] s' \<and> filled cl s' b len)"
proof (cases "len div PAGE_SIZE > ram_pages env div 2")
  case True then show ?thesis using ok only_buffer_grows [OF grows_refl ok] by (auto simp: ion_system_heap_allocate_def)
next
  case False
  from collect_pages_ok [OF page_align_dvd ok _ f, of len 8] obtain full ps s1 where
    c: "collect_pages env h (PAGE_ALIGN len) 8 [] s = Some (full, ps, s1)" "pages_ok cl h L ps s1" "\<forall>p \<in> set ps. clean_for cl s1 p" "grows h s s1"
    and n: "full \<longrightarrow> bytes_of s1 ps = unat (PAGE_ALIGN len)" by auto
  note ob = only_buffer_grows [OF c(4) ok, of b]
  show ?thesis
  proof (cases "full \<and> table_ok env s1 \<and> sg_ok env s1")
    case True
    let ?s = "upd_buffer b (\<lambda>bf. bf\<lparr>sg_table := Some (map (\<lambda>p. (p, page_bytes s1 p)) ps)\<rparr>) s1"
    have "ib_heap (ion_buffers s1 b) = h" "ib_size (ion_buffers s1 b) = len" using c(4) hb sz by (simp_all add: grows_def)
    with n True have p: "pages_ok cl h (b # L) [] ?s" by (intro pages_ok_fill [OF c(2) b]) simp_all
    have "buffer_pages ?s b = ps" "clean_for cl ?s = clean_for cl s1" by (simp_all add: buffer_pages_def upd_buffer_def comp_def fun_eq_iff clean_for_def clean_page_def)
    then have "filled cl ?s b (ib_size (ion_buffers ?s b))" using p c(3) by (intro filled_pages [where h = h]) (simp_all add: pages_ok_def)
    moreover have "ib_size (ion_buffers ?s b) = len" using \<open>ib_size (ion_buffers s1 b) = len\<close> by (simp add: upd_buffer_def)
    ultimately have "filled cl ?s b len" by simp
    then show ?thesis using False True c(1) p only_buffer_trans [OF ob only_buffer_fill] by (simp add: ion_system_heap_allocate_def)
  next
    case err: False
    from free_pages_ok [of cl h L ps "[]" s1 "private_flags (ion_buffers s1 b)"] c(2,3) obtain s2 where
      "free_buffer_pages h (private_flags (ion_buffers s1 b)) ps s1 = Some s2" "pages_ok cl h L [] s2" "frees h s1 s2" by auto
    then show ?thesis using False err c(1) only_buffer_trans [OF ob only_buffer_frees]
      by (auto simp: ion_system_heap_allocate_def buffer_at_def)
  qed
qed

section \<open>Shrinking\<close>

text \<open>One page of a pool goes back to the kernel.\<close>

lemma shrink_one:
  assumes ok: "pages_ok cl h L [] s" and i: "i < 3" and c: "(if high then high_count (pool_at s h i) else low_count (pool_at s h i)) \<noteq> 0"
  obtains p pl1 where "ion_page_pool_remove high (pool_at s h i) = Some (p, pl1)"
    "pages_ok cl h L [] (give_page p (set_pool h i pl1 s))" "frees h s (give_page p (set_pool h i pl1 s))"
    "length (pool_items (pool_at s h i)) = Suc (length (pool_items (pool_at (give_page p (set_pool h i pl1 s)) h i)))"
proof -
  have po: "pools_ok cl s h" using ok by (simp add: pages_ok_def)
  from pool_remove [OF pools_okD(1) [OF po i] c] obtain q pl2 where
    q: "ion_page_pool_remove high (pool_at s h i) = Some (q, pl2)" "mset (pool_items pl2) + {#q#} = mset (pool_items (pool_at s h i))" by metis
  from pool_take [OF ok i c] obtain p pl1 where
    p: "ion_page_pool_remove high (pool_at s h i) = Some (p, pl1)" "pages_ok cl h L ([] @ [p]) (set_pool h i pl1 s)" by metis
  have "length (pool_items (pool_at s h i)) = Suc (length (pool_items pl1))"
    using q p(1) by (metis Pair_inject add.commute add_mset_add_single option.inject size_add_mset size_mset)
  moreover have "pool_at (give_page p (set_pool h i pl1 s)) h i = pl1" using pools_okD(2) [OF po i] i by (simp add: pool_at_def give_page_def)
  moreover have "frees h s (give_page p (set_pool h i pl1 s))" by (simp add: frees_def heap_core_def give_page_def set_pool_def)
  ultimately show ?thesis using that [OF p(1)] pages_ok_give p(2) by simp
qed

lemma pool_shrink_ok:
  assumes "pages_ok cl h L [] s" "i < 3"
  shows "\<exists>n s'. pool_shrink_loop h i high nr freed s = Some (n, s') \<and> pages_ok cl h L [] s' \<and> frees h s s'"
  using assms(1)
proof (induction "length (pool_items (pool_at s h i))" arbitrary: s freed rule: less_induct)
  case less
  let ?pl = "pool_at s h i"
  have step: ?case if c: "(if hi then high_count ?pl else low_count ?pl) \<noteq> 0" and eq: "pool_shrink_loop h i high nr freed s =
     (case ion_page_pool_remove hi ?pl of None \<Rightarrow> None
      | Some (p, pl1) \<Rightarrow> pool_shrink_loop h i high nr (freed + 2 ^ pool_order ?pl) (ion_page_pool_free_pages p (set_pool h i pl1 s)))" for hi
  proof -
    from shrink_one [OF less.prems assms(2) c] obtain p pl1 where
      p: "ion_page_pool_remove hi ?pl = Some (p, pl1)" and t: "pages_ok cl h L [] (give_page p (set_pool h i pl1 s))"
        "frees h s (give_page p (set_pool h i pl1 s))"
      and l: "length (pool_items ?pl) = Suc (length (pool_items (pool_at (give_page p (set_pool h i pl1 s)) h i)))" by metis
    from less.hyps [OF _ t(1), of "freed + 2 ^ pool_order ?pl"] l obtain n s' where
      "pool_shrink_loop h i high nr (freed + 2 ^ pool_order ?pl) (give_page p (set_pool h i pl1 s)) = Some (n, s')" "pages_ok cl h L [] s'"
      "frees h (give_page p (set_pool h i pl1 s)) s'" by auto
    then show ?thesis using eq p frees_trans [OF t(2)] by (auto simp: ion_page_pool_free_pages_def)
  qed
  show ?case
  proof (cases "freed < nr \<and> (low_count ?pl \<noteq> 0 \<or> high \<and> high_count ?pl \<noteq> 0)")
    case False then show ?thesis using less.prems by (subst pool_shrink_loop.simps) (auto simp: Let_def)
  next
    case True
    then have "pool_shrink_loop h i high nr freed s =
     (case ion_page_pool_remove (low_count ?pl = 0) ?pl of None \<Rightarrow> None
      | Some (p, pl1) \<Rightarrow> pool_shrink_loop h i high nr (freed + 2 ^ pool_order ?pl) (ion_page_pool_free_pages p (set_pool h i pl1 s)))"
      by (subst pool_shrink_loop.simps) (auto simp: Let_def)
    from step [OF _ this] True show ?thesis by auto
  qed
qed

lemma system_shrink_ok:
  assumes "pages_ok cl h L [] s"
  shows "\<exists>n s'. ion_system_heap_shrink env highmem h nr s = Some (n, s') \<and> pages_ok cl h L [] s' \<and> frees h s s'"
proof -
  have one: "\<exists>n s'. ion_page_pool_shrink env highmem h i nr s = Some (n, s') \<and> pages_ok cl h L [] s' \<and> frees h s s'"
    if "pages_ok cl h L [] s" "i < 3" for i nr s
    using pool_shrink_ok [OF that] that(1) by (auto simp: ion_page_pool_shrink_def Let_def)
  have loop: "\<exists>n s'. system_shrink_loop env highmem h scan is nr tot s = Some (n, s') \<and> pages_ok cl h L [] s' \<and> frees h s s'"
    if "pages_ok cl h L [] s" "set is \<subseteq> {..<3}" for scan "is" nr tot s
    using that
  proof (induction "is" arbitrary: nr tot s)
    case (Cons i js)
    from one [of s i nr] Cons.prems obtain n s1 where
      s1: "ion_page_pool_shrink env highmem h i nr s = Some (n, s1)" "pages_ok cl h L [] s1" "frees h s s1" by auto
    then show ?case using Cons.IH [OF s1(2)] Cons.prems(2) by (auto intro: frees_trans [OF s1(3)])
        (metis frees_trans s1(3))+
  qed simp
  show ?thesis unfolding ion_system_heap_shrink_def by (rule loop [OF assms]) auto
qed

end
