(* ===== verification/Ion_Client.thy ===== *)
theory Ion_Client
  imports Ion_Sys_Ops
begin

text \<open>
  The core of the allocator against the contract of a heap. A heap promises how allocating, freeing and shrinking change its
  pages; from that alone the core's bookkeeping is shown right: the list of buffers to be freed, the counters of the heap,
  and that no operation touches a buffer that is in use. The system heap keeps the contract. \<open>cl\<close> tells whether new buffers are
  promised to be zeroed: the system heap can do so only as long as no clearing fails.
\<close>

section \<open>The bookkeeping of a heap\<close>

definition book_ok :: "ptr \<Rightarrow> ptr list \<Rightarrow> ion \<Rightarrow> bool" where
  "book_ok h L s \<longleftrightarrow> (let hp = ion_heaps s h in distinct (free_list hp) \<and> set (free_list hp) \<subseteq> set L \<and>
     free_list_size hp = (\<Sum>b\<leftarrow>free_list hp. ib_size (ion_buffers s b)) \<and>
     num_of_buffers hp = of_nat (length L) \<and> num_of_alloc_bytes hp = (\<Sum>b\<leftarrow>L. ib_size (ion_buffers s b)))"

text \<open>The buffers that somebody holds.\<close>

definition live :: "ptr \<Rightarrow> ptr list \<Rightarrow> ion \<Rightarrow> ptr set" where
  "live h L s = set L - set (free_list (ion_heaps s h))"

definition kept :: "ptr set \<Rightarrow> ion \<Rightarrow> ion \<Rightarrow> bool" where
  "kept V s s' \<longleftrightarrow> (\<forall>b \<in> V. ion_buffers s' b = ion_buffers s b \<and> (\<forall>p \<in> set (buffer_pages s b). frames s' p = frames s p \<and> compound_order s' p = compound_order s p))"

lemma kept_refl [simp]: "kept V s s"
  by (simp add: kept_def)

lemma kept_trans: "kept V s t \<Longrightarrow> kept V t u \<Longrightarrow> kept V s u"
  by (auto simp: kept_def buffer_pages_def)

lemma kept_sub: "kept V s t \<Longrightarrow> W \<subseteq> V \<Longrightarrow> kept W s t"
  by (auto simp: kept_def)

lemma kept_only: "only_buffer h b L s s' \<Longrightarrow> kept (set L - {b}) s s'"
  by (auto simp: kept_def only_buffer_def)

lemma kept_upd_heap [simp]: "kept V s (upd_heap h f t) = kept V s t"
  by (simp add: kept_def upd_heap_def)

lemma kept_upd_buffer: "b \<notin> V \<Longrightarrow> kept V s (upd_buffer b f s)"
  by (auto simp: kept_def upd_buffer_def)

text \<open>Heap and size of a buffer never change.\<close>

definition same_heads :: "ion \<Rightarrow> ion \<Rightarrow> bool" where
  "same_heads s s' \<longleftrightarrow> (\<forall>x. ib_heap (ion_buffers s' x) = ib_heap (ion_buffers s x) \<and> ib_size (ion_buffers s' x) = ib_size (ion_buffers s x))"

lemma same_heads_refl [simp]: "same_heads s s" and same_heads_trans: "same_heads s t \<Longrightarrow> same_heads t u \<Longrightarrow> same_heads s u"
  by (simp_all add: same_heads_def)

lemma same_heads_take: "same_heads s (freelist_take h skip b s)"
  by (simp add: same_heads_def freelist_take_def upd_heap_def upd_buffer_def Let_def)

lemma core_fields:
  assumes "heap_core s' h = heap_core s h"
  shows "free_list (ion_heaps s' h) = free_list (ion_heaps s h)" "free_list_size (ion_heaps s' h) = free_list_size (ion_heaps s h)"
    "num_of_buffers (ion_heaps s' h) = num_of_buffers (ion_heaps s h)" "num_of_alloc_bytes (ion_heaps s' h) = num_of_alloc_bytes (ion_heaps s h)"
    "heap_flags (ion_heaps s' h) = heap_flags (ion_heaps s h)"
  using assms [THEN arg_cong, of free_list] assms [THEN arg_cong, of free_list_size] assms [THEN arg_cong, of num_of_buffers]
    assms [THEN arg_cong, of num_of_alloc_bytes] assms [THEN arg_cong, of heap_flags] by (simp_all add: heap_core_def)

lemma book_ok_cong:
  assumes "heap_core s' h = heap_core s h" "\<forall>b. ib_size (ion_buffers s' b) = ib_size (ion_buffers s b)"
  shows "book_ok h L s' = book_ok h L s"
  using assms(2) core_fields [OF assms(1)] by (simp add: book_ok_def Let_def)

lemma only_buffer_fields:
  assumes "only_buffer h b L s s'"
  shows "heap_core s' h = heap_core s h" "ib_size (ion_buffers s' x) = ib_size (ion_buffers s x)" "ib_heap (ion_buffers s' x) = ib_heap (ion_buffers s x)"
    "private_flags (ion_buffers s' x) = private_flags (ion_buffers s x)"
  using assms by (auto simp: only_buffer_def)

lemma same_heads_only: "only_buffer h b L s s' \<Longrightarrow> same_heads s (upd_heap k f s')"
  by (auto simp: same_heads_def upd_heap_def only_buffer_def)

lemma book_ok_only: "only_buffer h b L s s' \<Longrightarrow> book_ok h K s' = book_ok h K s"
  by (rule book_ok_cong) (simp_all add: only_buffer_fields)

lemma live_cong: "heap_core s' h = heap_core s h \<Longrightarrow> live h L s' = live h L s"
  by (drule core_fields(1)) (simp add: live_def)

lemma length_remove1_of_nat: "b \<in> set L \<Longrightarrow> (of_nat (length (remove1 b L)) :: u64) = of_nat (length L) - 1"
proof -
  assume "b \<in> set L"
  then have "length L = Suc (length (remove1 b L))" using length_pos_if_in_set [of b L] by (simp add: length_remove1)
  then show ?thesis by simp
qed

lemma sum_remove1: "b \<in> set L \<Longrightarrow> (\<Sum>x\<leftarrow>remove1 b L. f x) = (\<Sum>x\<leftarrow>L. f x) - (f b :: u64)"
  using sum_list_map_list_del [of b L f] by (simp add: list_del_def)

lemma book_count_out:
  assumes "book_ok h L s" "b \<in> set L" "b \<notin> set (free_list (ion_heaps s h))" "distinct L"
  shows "book_ok h (remove1 b L) (upd_heap h (count_out (ib_size (ion_buffers s b))) s)"
  using assms by (auto simp: book_ok_def upd_heap_def count_out_def Let_def length_remove1_of_nat sum_remove1)

lemma book_count_in:
  assumes "book_ok h L s" "ib_size (ion_buffers s b) = len" "b \<notin> set L"
  shows "book_ok h (b # L) (upd_heap h (count_in len) s)"
  using assms by (auto simp: book_ok_def upd_heap_def count_in_def Let_def add.commute)

lemma book_take:
  assumes "book_ok h L s" "b \<in> set (free_list (ion_heaps s h))"
  shows "book_ok h L (freelist_take h skip b s)"
  using assms by (auto simp: book_ok_def freelist_take_def upd_heap_def upd_buffer_def buffer_at_def Let_def list_del_def sum_remove1
      dest: notin_set_remove1 intro!: arg_cong [of _ _ sum_list])

section \<open>The contract of a heap\<close>

locale ion_heap_contract =
  fixes ops :: ion_heap_ops
    and cl :: bool
    and good :: "ion_env \<Rightarrow> bool"
    and inv :: "ptr \<Rightarrow> ptr list \<Rightarrow> ion \<Rightarrow> bool"
  assumes allocate: "inv h L s \<Longrightarrow> good env \<Longrightarrow> b \<notin> set L \<Longrightarrow> ib_heap (ion_buffers s b) = h \<Longrightarrow> ib_size (ion_buffers s b) = len \<Longrightarrow>
      \<exists>r s'. op_allocate ops env h b len s = Some (r, s') \<and> only_buffer h b L s s' \<and>
        (case r of Inl e \<Rightarrow> inv h L s' | Inr _ \<Rightarrow> inv h (b # L) s' \<and> filled cl s' b len)"
    and free: "inv h L s \<Longrightarrow> good env \<Longrightarrow> b \<in> set L \<Longrightarrow>
      \<exists>s'. op_free ops env b s = Some s' \<and> inv h (remove1 b L) s' \<and> only_buffer h b L s s'"
    and shrink: "inv h L s \<Longrightarrow> op_shrink ops = Some f \<Longrightarrow> \<exists>n s'. f env highmem h nr s = Some (n, s') \<and> inv h L s' \<and> frees h s s'"
    and book: "inv h L s \<Longrightarrow> (\<And>hp. sys_pools (g hp) = sys_pools hp) \<Longrightarrow> inv h L (upd_heap h g s)"
    and mark: "inv h L s \<Longrightarrow> (\<And>bf. sg_table (k bf) = sg_table bf \<and> ib_heap (k bf) = ib_heap bf \<and> ib_size (k bf) = ib_size bf \<and> priv_virt (k bf) = priv_virt bf) \<Longrightarrow> inv h L (upd_buffer b k s)"
    and renew: "inv h L s \<Longrightarrow> b \<notin> set L \<Longrightarrow> inv h L (upd_buffer b k s)"
    and store: "inv h L s \<Longrightarrow> b \<in> set L \<Longrightarrow> p \<in> set (buffer_pages s b) \<Longrightarrow> inv h L (s\<lparr>frames := (frames s)(p := fr)\<rparr>)"
    and buffers: "inv h L s \<Longrightarrow> distinct L \<and> (\<forall>b \<in> set L. ib_heap (ion_buffers s b) = h \<and> sg_table (ion_buffers s b) \<noteq> None)"
begin

definition ion_inv :: "ptr \<Rightarrow> ptr list \<Rightarrow> ion \<Rightarrow> bool" where
  "ion_inv h L s \<longleftrightarrow> inv h L s \<and> book_ok h L s"

lemma destroy:
  assumes i: "ion_inv h L s" and g: "good env" and t: "tab h = ops" and b: "b \<in> set L" "b \<notin> set (free_list (ion_heaps s h))"
  shows "\<exists>s'. ion_buffer_destroy tab env b s = Some s' \<and> ion_inv h (remove1 b L) s' \<and> kept (set L - {b}) s s' \<and>
    free_list (ion_heaps s' h) = free_list (ion_heaps s h) \<and> same_heads s s'"
proof -
  have iv: "inv h L s" "book_ok h L s" using i by (simp_all add: ion_inv_def)
  have hb: "ib_heap (ion_buffers s b) = h" and d: "distinct L" using buffers [OF iv(1)] b(1) by auto
  from free [OF iv(1) g b(1)] obtain s1 where s1: "op_free ops env b s = Some s1" "inv h (remove1 b L) s1" "only_buffer h b L s s1" by blast
  note o1 = only_buffer_fields [OF s1(3)]
  let ?s = "upd_heap h (count_out (ib_size (ion_buffers s b))) s1"
  have "inv h (remove1 b L) ?s" by (rule book [OF s1(2)]) (simp add: count_out_def)
  moreover have "book_ok h (remove1 b L) ?s"
    using book_count_out [of h L s1 b] book_ok_only [OF s1(3)] iv(2) b d o1(2) core_fields(1) [OF o1(1)] by simp
  moreover have "free_list (ion_heaps ?s h) = free_list (ion_heaps s h)"
    using core_fields(1) [OF o1(1)] by (simp add: upd_heap_def count_out_def)
  ultimately show ?thesis using s1(1) t hb kept_only [OF s1(3)] same_heads_only [OF s1(3)] by (simp add: ion_buffer_destroy_def buffer_at_def ion_inv_def)
qed

text \<open>The first buffer of the list is taken off and destroyed.\<close>

lemma take_destroy:
  assumes i: "ion_inv h L s" and g: "good env" and t: "tab h = ops" and b: "free_list (ion_heaps s h) = b # bs"
  shows "\<exists>s'. ion_buffer_destroy tab env b (freelist_take h skip b s) = Some s' \<and> ion_inv h (remove1 b L) s' \<and>
    free_list (ion_heaps s' h) = bs \<and> live h (remove1 b L) s' = live h L s \<and> kept (live h L s) s s' \<and> same_heads s s'"
proof -
  let ?s = "freelist_take h skip b s"
  have iv: "inv h L s" "book_ok h L s" using i by (simp_all add: ion_inv_def)
  have fl: "distinct (b # bs)" "set (b # bs) \<subseteq> set L" using iv(2) b by (simp_all add: book_ok_def Let_def)
  have "inv h L (upd_heap h (\<lambda>hp. hp\<lparr>free_list := list_del b (free_list hp), free_list_size := free_list_size hp - ib_size (buffer_at s b)\<rparr>) s)"
    by (rule book [OF iv(1)]) simp
  then have "inv h L ?s" using mark by (simp add: freelist_take_def Let_def)
  then have it: "ion_inv h L ?s" using book_take [OF iv(2), of b skip] b by (simp add: ion_inv_def)
  have fb: "free_list (ion_heaps ?s h) = bs" using b by (simp add: freelist_take_def upd_heap_def upd_buffer_def Let_def list_del_def)
  have bL: "b \<in> set L" "b \<notin> set bs" using fl by auto
  from destroy [where tab = tab, OF it g t bL(1)] bL(2) fb obtain s' where
    s': "ion_buffer_destroy tab env b ?s = Some s'" "ion_inv h (remove1 b L) s'" "kept (set L - {b}) ?s s'" "free_list (ion_heaps s' h) = bs" "same_heads ?s s'" by auto
  have "live h (remove1 b L) s' = live h L s" using buffers [OF iv(1)] s'(4) b by (auto simp: live_def)
  moreover have "kept (live h L s) s ?s" using b by (auto simp: kept_def live_def freelist_take_def upd_heap_def upd_buffer_def Let_def)
  moreover have "kept (live h L s) ?s s'" by (rule kept_sub [OF s'(3)]) (use b in \<open>auto simp: live_def\<close>)
  ultimately show ?thesis using s' kept_trans same_heads_trans [OF same_heads_take] by blast
qed

lemma drain:
  assumes "ion_inv h L s" "good env" "tab h = ops"
  shows "\<exists>d s' L'. freelist_drain_loop tab env h sz skip dr s = Some (d, s') \<and> ion_inv h L' s' \<and> set L' \<subseteq> set L \<and> live h L' s' = live h L s \<and>
    kept (live h L s) s s' \<and> same_heads s s'"
  using assms(1)
proof (induction "length (free_list (ion_heaps s h))" arbitrary: L s dr)
  case 0 then show ?case by (subst freelist_drain_loop.simps) (auto split: list.splits)
next
  case (Suc n)
  obtain b bs where b: "free_list (ion_heaps s h) = b # bs" using Suc.hyps(2) by (cases "free_list (ion_heaps s h)") auto
  show ?case
  proof (cases "dr \<ge> sz")
    case True then show ?thesis using b Suc.prems by (subst freelist_drain_loop.simps) auto
  next
    case False
    from take_destroy [where tab = tab, OF Suc.prems assms(2,3) b] obtain s1 where
      s1: "ion_buffer_destroy tab env b (freelist_take h skip b s) = Some s1" "ion_inv h (remove1 b L) s1"
      "free_list (ion_heaps s1 h) = bs" "live h (remove1 b L) s1 = live h L s" "kept (live h L s) s s1" "same_heads s s1" by blast
    from Suc.hyps(1) [OF _ s1(2), of "dr + ib_size (buffer_at s b)"] s1(3) Suc.hyps(2) b obtain d s' L' where
      r: "freelist_drain_loop tab env h sz skip (dr + ib_size (buffer_at s b)) s1 = Some (d, s')" "ion_inv h L' s'" "set L' \<subseteq> set (remove1 b L)"
      "live h L' s' = live h (remove1 b L) s1" "kept (live h (remove1 b L) s1) s1 s'" "same_heads s1 s'" by auto
    have "set L' \<subseteq> set L" using r(3) set_remove1_subset by fast
    then show ?thesis using r(1,2,4) False b s1(1,4) kept_trans [OF s1(5)] r(5) same_heads_trans [OF s1(6) r(6)]
      by (subst freelist_drain_loop.simps) auto
  qed
qed

lemma drain_pools:
  assumes "ion_inv h L s" "good env" "tab h = ops"
  shows "\<exists>d s' L'. ion_heap_freelist_drain_pools tab env h sz skip s = Some (d, s') \<and> ion_inv h L' s' \<and> set L' \<subseteq> set L \<and>
    live h L' s' = live h L s \<and> kept (live h L s) s s' \<and> same_heads s s'"
  using drain [where tab = tab, OF assms] assms(1) by (auto simp: ion_heap_freelist_drain_pools_def)

text \<open>An allocation for buffer \<open>b\<close>, which is not one of the heap's yet.\<close>

lemma allocate_core:
  assumes i: "ion_inv h L s" and g: "good env" and b: "b \<notin> set L" "ib_heap (ion_buffers s b) = h" "ib_size (ion_buffers s b) = len"
  obtains r s' where "op_allocate ops env h b len s = Some (r, s')" "only_buffer h b L s s'" "kept (set L) s s'"
    "live h L s' = live h L s" "book_ok h L s'"
    "case r of Inl e \<Rightarrow> inv h L s' | Inr _ \<Rightarrow> inv h (b # L) s' \<and> filled cl s' b len"
proof -
  have iv: "inv h L s" "book_ok h L s" using i by (simp_all add: ion_inv_def)
  from allocate [OF iv(1) g b] obtain r s' where r: "op_allocate ops env h b len s = Some (r, s')" "only_buffer h b L s s'"
    "case r of Inl e \<Rightarrow> inv h L s' | Inr _ \<Rightarrow> inv h (b # L) s' \<and> filled cl s' b len" by blast
  have "kept (set L) s s'" using kept_only [OF r(2)] b(1) by simp
  then show ?thesis using that [OF r(1,2)] r(3) live_cong [OF only_buffer_fields(1) [OF r(2)]] book_ok_only [OF r(2)] iv(2) by simp
qed

lemma finish:
  assumes "inv h (b # L) s" "book_ok h L s" "filled cl s b len" "ib_size (ion_buffers s b) = len"
  shows "\<exists>s'. ion_buffer_finish tab env h b len s = Some (Inr b, s') \<and> ion_inv h (b # L) s' \<and> filled cl s' b len \<and>
    live h (b # L) s' = insert b (live h L s) \<and> kept V s s' \<and> ib_size (ion_buffers s' b) = len"
proof -
  have b: "b \<notin> set L" "sg_table (ion_buffers s b) \<noteq> None" using buffers [OF assms(1)] by auto
  let ?s = "upd_heap h (count_in len) s"
  have "inv h (b # L) ?s" by (rule book [OF assms(1)]) (simp add: count_in_def Let_def)
  moreover have "filled cl ?s b len" using assms(3) by (auto simp: filled_def upd_heap_def split: option.splits)
  moreover have "b \<notin> set (free_list (ion_heaps s h))" using b(1) assms(2) by (auto simp: book_ok_def Let_def)
  then have "live h (b # L) ?s = insert b (live h L s)" by (auto simp: live_def upd_heap_def count_in_def Let_def)
  moreover have "ib_size (ion_buffers ?s b) = len" using assms(4) by (simp add: upd_heap_def)
  ultimately show ?thesis using book_count_in [OF assms(2,4) b(1)] b(2) by (simp add: ion_buffer_finish_def buffer_at_def ion_inv_def)
qed

text \<open>The outcome of creating buffer \<open>b\<close>: with an error nothing has changed for anybody who holds a buffer.\<close>

definition created_ok :: "ptr \<Rightarrow> ptr \<Rightarrow> ptr list \<Rightarrow> u64 \<Rightarrow> ion \<Rightarrow> ptr result \<Rightarrow> ion \<Rightarrow> bool" where
  "created_ok h b L len s r s' \<longleftrightarrow> (\<exists>L'. ion_inv h L' s' \<and> kept (live h L s) s s' \<and> set L' \<subseteq> insert b (set L) \<and>
     (case r of Inl _ \<Rightarrow> live h L' s' = live h L s
      | Inr x \<Rightarrow> x = b \<and> live h L' s' = insert b (live h L s) \<and> filled cl s' b len \<and> ib_size (ion_buffers s' b) = len))"

lemma finish_created:
  assumes "ion_inv h K t" "live h K t = live h L s" "kept (live h L s) s t" "set K \<subseteq> set L" "b \<notin> set K"
    and f: "inv h (b # K) u" "filled cl u b len" and u: "only_buffer h b K t u" "ib_size (ion_buffers t b) = len"
  shows "\<exists>r s'. ion_buffer_finish tab env h b len u = Some (r, s') \<and> created_ok h b L len s r s'"
proof -
  have b: "book_ok h K u" using assms(1) book_ok_only [OF u(1)] by (simp add: ion_inv_def)
  have "ib_size (ion_buffers u b) = len" using u only_buffer_fields(2) by simp
  from finish [OF f(1) b f(2) this, of tab env "live h L s"] obtain s' where
    s': "ion_buffer_finish tab env h b len u = Some (Inr b, s')" "ion_inv h (b # K) s'" "filled cl s' b len"
    "live h (b # K) s' = insert b (live h K u)" "kept (live h L s) u s'" "ib_size (ion_buffers s' b) = len" by blast
  have "live h K u = live h L s" using live_cong [OF only_buffer_fields(1) [OF u(1)]] assms(2) by simp
  moreover have "kept (live h L s) t u" using kept_sub [OF kept_only [OF u(1)]] assms(2,5) by (auto simp: live_def)
  then have "kept (live h L s) s s'" using assms(3) s'(5) kept_trans by blast
  ultimately show ?thesis using s' assms(4) unfolding created_ok_def by (intro exI conjI) auto
qed

lemma create:
  assumes i: "ion_inv h L s" and g: "good env" and t: "tab h = ops" and b: "b \<notin> set L"
  shows "\<exists>r s'. ion_buffer_create tab env h (Some b) len flags s = Some (r, s') \<and> created_ok h b L len s r s'"
proof -
  let ?s = "upd_buffer b (\<lambda>_. new_buffer h len flags) s"
  have bl: "b \<notin> live h L s" using b by (simp add: live_def)
  have sz: "(\<Sum>x\<leftarrow>xs. ib_size (ion_buffers ?s x)) = (\<Sum>x\<leftarrow>xs. ib_size (ion_buffers s x))" if "set xs \<subseteq> set L" for xs
    using that b by (intro arg_cong [of _ _ sum_list]) (auto simp: upd_buffer_def)
  have bk: "book_ok h L ?s"
    using i sz [of L] sz [of "free_list (ion_heaps s h)"] by (auto simp: ion_inv_def book_ok_def Let_def upd_buffer_def)
  have i0: "ion_inv h L ?s" using i b bk renew by (simp add: ion_inv_def)
  have nb: "ib_heap (ion_buffers ?s b) = h" "ib_size (ion_buffers ?s b) = len" by (simp_all add: upd_buffer_def new_buffer_def)
  have k0: "kept (live h L s) s ?s" "live h L ?s = live h L s" using kept_upd_buffer [OF bl] by (simp_all add: live_def upd_buffer_def)
  from allocate_core [OF i0 g b nb] obtain r s1 where
    r: "op_allocate ops env h b len ?s = Some (r, s1)" "only_buffer h b L ?s s1" "kept (set L) ?s s1" "live h L s1 = live h L ?s" "book_ok h L s1"
    and c: "case r of Inl e \<Rightarrow> inv h L s1 | Inr _ \<Rightarrow> inv h (b # L) s1 \<and> filled cl s1 b len" by metis
  note o1 = only_buffer_fields [OF r(2)]
  show ?thesis
  proof (cases r)
    case (Inr u)
    with c finish_created [OF i0 k0(2,1) subset_refl b _ _ r(2) nb(2), where tab = tab and env = env] r(1) t show ?thesis
      by (simp add: ion_buffer_create_def)
  next
    case (Inl e)
    have i1: "ion_inv h L s1" using c Inl r(5) by (simp add: ion_inv_def)
    have k1: "kept (live h L s) s s1" using kept_trans [OF k0(1) kept_sub [OF r(3)]] by (auto simp: live_def)
    show ?thesis
    proof (cases "deferred s1 h")
      case False
      then show ?thesis using r(1,4) Inl t i1 k1 k0(2) by (auto simp: ion_buffer_create_def created_ok_def)
    next
      case True
      from drain_pools [where tab = tab, OF i1 g t, of 0 False] obtain d s2 K where
        d: "ion_heap_freelist_drain tab env h 0 s1 = Some (d, s2)" "ion_inv h K s2" "set K \<subseteq> set L" "live h K s2 = live h L s1"
        "kept (live h L s1) s1 s2" "same_heads s1 s2" unfolding ion_heap_freelist_drain_def by blast
      have b2: "b \<notin> set K" using b d(3) by blast
      have nb2: "ib_heap (ion_buffers s2 b) = h" "ib_size (ion_buffers s2 b) = len" using d(6) nb o1 by (simp_all add: same_heads_def)
      have l2: "live h K s2 = live h L s" using d(4) r(4) k0(2) by simp
      have k2: "kept (live h L s) s s2" using kept_trans [OF k1] d(5) r(4) k0(2) by simp
      from allocate_core [OF d(2) g b2 nb2] obtain q s3 where
        q: "op_allocate ops env h b len s2 = Some (q, s3)" "only_buffer h b K s2 s3" "kept (set K) s2 s3" "live h K s3 = live h K s2" "book_ok h K s3"
        and c3: "case q of Inl e \<Rightarrow> inv h K s3 | Inr _ \<Rightarrow> inv h (b # K) s3 \<and> filled cl s3 b len" by metis
      show ?thesis
      proof (cases q)
        case (Inr u)
        with c3 finish_created [OF d(2) l2 k2 d(3) b2 _ _ q(2) nb2(2), where tab = tab and env = env] r(1) Inl True t d(1) q(1) show ?thesis
          by (simp add: ion_buffer_create_def)
      next
        case (Inl e2)
        have "kept (live h L s) s s3" using kept_trans [OF k2 kept_sub [OF q(3)]] l2 by (auto simp: live_def)
        then have "created_ok h b L len s (Inl e2) s3" using Inl c3 q(4,5) l2 d(3) by (auto simp: created_ok_def ion_inv_def)
        then show ?thesis using r(1) \<open>r = Inl e\<close> Inl True t d(1) q(1) by (simp add: ion_buffer_create_def)
      qed
    qed
  qed
qed

section \<open>The states of the allocator\<close>

text \<open>\<open>V\<close> are the buffers that somebody holds.\<close>

definition ion_ok :: "ptr \<Rightarrow> ptr set \<Rightarrow> ion \<Rightarrow> bool" where
  "ion_ok h V s \<longleftrightarrow> (\<exists>L. ion_inv h L s \<and> live h L s = V)"

lemma ion_okE:
  assumes "ion_ok h V s"
  obtains L where "ion_inv h L s" "inv h L s" "book_ok h L s" "live h L s = V" "V \<subseteq> set L" "set L = V \<union> set (free_list (ion_heaps s h))"
  using assms by (auto simp: ion_ok_def ion_inv_def live_def book_ok_def Let_def)

lemma ok_create:
  assumes i: "ion_ok h V s" and g: "good env" and t: "tab h = ops" and b: "b \<notin> V" "b \<notin> set (free_list (ion_heaps s h))"
  shows "\<exists>r s'. ion_buffer_create tab env h (Some b) len flags s = Some (r, s') \<and> kept V s s' \<and>
    (case r of Inl _ \<Rightarrow> ion_ok h V s' | Inr x \<Rightarrow> x = b \<and> ion_ok h (insert b V) s' \<and> filled cl s' b len \<and> ib_size (ion_buffers s' b) = len)"
proof -
  from i obtain L where L: "ion_inv h L s" "live h L s = V" "set L = V \<union> set (free_list (ion_heaps s h))" by (rule ion_okE)
  then have "b \<notin> set L" using b by simp
  from create [where tab = tab, OF L(1) g t this, of len flags] obtain r s' where
    "ion_buffer_create tab env h (Some b) len flags s = Some (r, s')" "created_ok h b L len s r s'" by blast
  then show ?thesis using L(2) by (cases r) (auto simp: created_ok_def ion_ok_def)
qed

lemma ok_release:
  assumes i: "ion_ok h V s" and g: "good env" and t: "tab h = ops" and b: "b \<in> V"
  shows "\<exists>s'. ion_dma_buf_release tab env b s = Some s' \<and> ion_ok h (V - {b}) s' \<and> kept (V - {b}) s s'"
proof -
  from i obtain L where L: "ion_inv h L s" "inv h L s" "book_ok h L s" "live h L s = V" "V \<subseteq> set L" by (rule ion_okE)
  have hb: "ib_heap (ion_buffers s b) = h" and bL: "b \<in> set L" "b \<notin> set (free_list (ion_heaps s h))" and d: "distinct L"
    using buffers [OF L(2)] L(4,5) b by (auto simp: live_def)
  show ?thesis
  proof (cases "deferred s h")
    case True
    let ?s = "ion_heap_freelist_add h b s"
    have "inv h L ?s" unfolding ion_heap_freelist_add_def by (rule book [OF L(2)]) simp
    moreover have "book_ok h L ?s" using L(3) bL by (auto simp: book_ok_def Let_def ion_heap_freelist_add_def upd_heap_def buffer_at_def)
    moreover have "live h L ?s = V - {b}" using L(4) by (auto simp: live_def ion_heap_freelist_add_def upd_heap_def)
    moreover have "kept W s ?s" for W by (simp add: ion_heap_freelist_add_def)
    ultimately show ?thesis using True hb by (auto simp: ion_dma_buf_release_def ion_release_buffer_def buffer_at_def ion_ok_def ion_inv_def)
  next
    case False
    from destroy [where tab = tab, OF L(1) g t bL] obtain s' where
      s': "ion_buffer_destroy tab env b s = Some s'" "ion_inv h (remove1 b L) s'" "kept (set L - {b}) s s'"
      "free_list (ion_heaps s' h) = free_list (ion_heaps s h)" by blast
    have "live h (remove1 b L) s' = V - {b}" using L(4) d s'(4) by (auto simp: live_def)
    moreover have "kept (V - {b}) s s'" by (rule kept_sub [OF s'(3)]) (use L(5) in auto)
    ultimately show ?thesis using s'(1,2) False hb
      by (auto simp: ion_dma_buf_release_def ion_release_buffer_def buffer_at_def ion_ok_def)
  qed
qed

lemma ok_deferred_free:
  assumes i: "ion_ok h V s" and g: "good env" and t: "tab h = ops"
  shows "\<exists>s'. ion_heap_deferred_free tab env h s = Some s' \<and> ion_ok h V s' \<and> kept V s s'"
proof -
  from i obtain L where L: "ion_inv h L s" "live h L s = V" by (rule ion_okE)
  show ?thesis
  proof (cases "free_list (ion_heaps s h)")
    case Nil then show ?thesis using i by (simp add: ion_heap_deferred_free_def)
  next
    case (Cons b bs)
    from take_destroy [where tab = tab and skip = False, OF L(1) g t Cons] L(1,2) Cons i show ?thesis by (cases "ion_heap_freelist_size h s = 0") (auto simp: ion_heap_deferred_free_def ion_ok_def)
  qed
qed

lemma ok_drain:
  assumes i: "ion_ok h V s" and g: "good env" and t: "tab h = ops"
  shows "\<exists>d s'. ion_heap_freelist_drain_pools tab env h sz skip s = Some (d, s') \<and> ion_ok h V s' \<and> kept V s s'"
proof -
  from i obtain L where L: "ion_inv h L s" "live h L s = V" by (rule ion_okE)
  from drain_pools [where tab = tab, OF L(1) g t, of sz skip] L(2) show ?thesis by (auto simp: ion_ok_def)
qed

lemma ok_frees:
  assumes i: "ion_inv h L s" and f: "inv h L s'" "frees h s s'"
  shows "ion_inv h L s' \<and> live h L s' = live h L s \<and> kept V s s'"
proof -
  have "heap_core s' h = heap_core s h" "ion_buffers s' = ion_buffers s" using f(2) by (simp_all add: frees_def)
  then show ?thesis using i f live_cong [of s' h s] book_ok_cong [of s' h s] by (simp add: ion_inv_def kept_def frees_def)
qed

lemma ok_shrink:
  assumes i: "ion_ok h V s" and sh: "op_shrink ops = Some f"
  shows "\<exists>n s'. f env highmem h nr s = Some (n, s') \<and> ion_ok h V s' \<and> kept V s s'"
proof -
  from i obtain L where L: "ion_inv h L s" "inv h L s" "live h L s = V" by (rule ion_okE)
  from shrink [OF L(2) sh, of env highmem nr] obtain n s' where s': "f env highmem h nr s = Some (n, s')" "inv h L s'" "frees h s s'" by blast
  then show ?thesis using ok_frees [OF L(1) s'(2,3), of V] L(3) by (auto simp: ion_ok_def)
qed

lemma ok_shrink_scan:
  assumes i: "ion_ok h V s" and g: "good env" and t: "tab h = ops"
  shows "\<exists>n s'. ion_heap_shrink_scan tab env highmem h nr s = Some (n, s') \<and> ion_ok h V s' \<and> kept V s s'"
proof -
  have "\<exists>d s1. (if deferred s h then ion_heap_freelist_shrink tab env h (of_int nr * PAGE_SIZE) s else Some (0, s)) = Some (d, s1) \<and>
      ion_ok h V s1 \<and> kept V s s1"
    using ok_drain [where tab = tab, OF assms, of "of_int nr * PAGE_SIZE" True] i by (simp add: ion_heap_freelist_shrink_def)
  then obtain d s1 where d: "(if deferred s h then ion_heap_freelist_shrink tab env h (of_int nr * PAGE_SIZE) s else Some (0, s)) = Some (d, s1)"
    "ion_ok h V s1" "kept V s s1" by blast
  show ?thesis
  proof (cases "op_shrink ops")
    case None then show ?thesis using d i t by (auto simp: ion_heap_shrink_scan_def Let_def)
  next
    case (Some f)
    from ok_shrink [OF d(2) Some, of env highmem "nr - int (unat d div 4096)"] obtain n s2 where
      "f env highmem h (nr - int (unat d div 4096)) s1 = Some (n, s2)" "ion_ok h V s2" "kept V s1 s2" by blast
    then show ?thesis using d i t Some kept_trans [OF d(3)] by (auto simp: ion_heap_shrink_scan_def Let_def)
  qed
qed

lemma ok_mark:
  assumes i: "ion_ok h V s" and k: "\<And>bf. sg_table (k bf) = sg_table bf \<and> ib_heap (k bf) = ib_heap bf \<and> ib_size (k bf) = ib_size bf \<and> priv_virt (k bf) = priv_virt bf"
  shows "ion_ok h V (upd_buffer b k s)"
proof -
  from i obtain L where L: "inv h L s" "book_ok h L s" "live h L s = V" by (rule ion_okE)
  let ?s = "upd_buffer b k s"
  have c: "heap_core ?s h = heap_core s h" by (simp add: heap_core_def upd_buffer_def)
  have "inv h L ?s" by (rule mark [OF L(1)]) (simp add: k)
  moreover have "book_ok h L ?s" using L(2) book_ok_cong [OF c] k by (simp add: upd_buffer_def)
  ultimately show ?thesis using live_cong [OF c] L(3) by (auto simp: ion_ok_def ion_inv_def)
qed

lemma ok_store:
  assumes i: "ion_ok h V s" and b: "b \<in> V" and p: "p \<in> set (buffer_pages s b)"
  shows "ion_ok h V (s\<lparr>frames := (frames s)(p := fr)\<rparr>)" (is "ion_ok h V ?s")
proof -
  from i obtain L where L: "inv h L s" "book_ok h L s" "live h L s = V" "V \<subseteq> set L" by (rule ion_okE)
  have c: "heap_core ?s h = heap_core s h" by (simp add: heap_core_def)
  have "inv h L ?s" by (rule store [OF L(1) _ p]) (use b L(4) in auto)
  moreover have "book_ok h L ?s" using L(2) book_ok_cong [OF c] by simp
  ultimately show ?thesis using live_cong [OF c] L(3) by (auto simp: ion_ok_def ion_inv_def)
qed

end

section \<open>The system heap keeps the contract\<close>

lemma pool_ok_same: "frames s' = frames s \<Longrightarrow> compound_order s' = compound_order s \<Longrightarrow> pool_ok cl s' = pool_ok cl s"
  by (simp add: fun_eq_iff pool_ok_def clean_for_def clean_page_def)

lemma pages_ok_same:
  assumes "frames s' = frames s" "compound_order s' = compound_order s" "in_use s' = in_use s"
    "sys_pools (ion_heaps s' h) = sys_pools (ion_heaps s h)"
    "\<forall>b \<in> set L. sg_table (ion_buffers s' b) = sg_table (ion_buffers s b) \<and> ib_heap (ion_buffers s' b) = ib_heap (ion_buffers s b) \<and>
      ib_size (ion_buffers s' b) = ib_size (ion_buffers s b)"
  shows "pages_ok cl h L E s' = pages_ok cl h L E s"
proof -
  have bp: "buffer_pages s' b = buffer_pages s b" if "b \<in> set L" for b using assms(5) that by (simp add: buffer_pages_def)
  have "pool_pages s' h = pool_pages s h" "pool_at s' h = pool_at s h" using assms(4) by (simp_all add: pool_pages_def pool_at_def fun_eq_iff)
  moreover have "pools_ok cl s' h = pools_ok cl s h" using assms(4) pool_ok_same [OF assms(1,2)] by (simp add: pools_ok_def pool_at_def)
  moreover have "buffer_ok s' h b = buffer_ok s h b" if "b \<in> set L" for b
    using assms(2,5) that bp [OF that] bytes_of_cong [of _ s' s] by (simp add: buffer_ok_def page_bytes_def)
  moreover have "concat (map (buffer_pages s') L) = concat (map (buffer_pages s) L)" using bp by (intro arg_cong [of _ _ concat]) simp
  ultimately show ?thesis using assms(2,3) by (simp add: pages_ok_def)
qed

lemma pages_ok_store:
  assumes "pages_ok cl h L [] s" "b \<in> set L" "p \<in> set (buffer_pages s b)"
  shows "pages_ok cl h L [] (s\<lparr>frames := (frames s)(p := fr)\<rparr>)"
proof (rule pages_ok_frames [OF assms(1)])
  have "p \<notin> set (pool_pages s h)" using assms by (auto simp: pages_ok_def)
  then show "\<forall>q \<in> set (pool_pages s h). clean_for cl (s\<lparr>frames := (frames s)(p := fr)\<rparr>) q"
    using pools_clean [OF assms(1)] by (auto simp: clean_for_def clean_page_def)
qed

definition sys_env :: "bool \<Rightarrow> ion_env \<Rightarrow> bool" where
  "sys_env cl env \<longleftrightarrow> fresh_pages env \<and> (cl \<longrightarrow> can_map env)"

interpretation sys: ion_heap_contract system_heap_ops cl "sys_env cl" "\<lambda>h L s. pages_ok cl h L [] s" for cl
proof unfold_locales
  show "\<exists>r s'. op_allocate system_heap_ops env h b len s = Some (r, s') \<and> only_buffer h b L s s' \<and>
      (case r of Inl e \<Rightarrow> pages_ok cl h L [] s' | Inr _ \<Rightarrow> pages_ok cl h (b # L) [] s' \<and> filled cl s' b len)"
    if "pages_ok cl h L [] s" "sys_env cl env" "b \<notin> set L" "ib_heap (ion_buffers s b) = h" "ib_size (ion_buffers s b) = len" for h L s env b len
  proof -
    have "fresh_pages env" using that(2) by (simp add: sys_env_def)
    from system_allocate_ok [OF that(1,3-5) this] obtain r s' where
      "ion_system_heap_allocate env h b len s = Some (r, s')" "only_buffer h b L s s'"
      "case r of Inl e \<Rightarrow> e = ENOMEM \<and> pages_ok cl h L [] s' | Inr _ \<Rightarrow> pages_ok cl h (b # L) [] s' \<and> filled cl s' b len" by blast
    then show ?thesis by (cases r) (auto simp: system_heap_ops_def)
  qed
  show "\<exists>s'. op_free system_heap_ops env b s = Some s' \<and> pages_ok cl h (remove1 b L) [] s' \<and> only_buffer h b L s s'"
    if "pages_ok cl h L [] s" "sys_env cl env" "b \<in> set L" for h L s env b
    using system_free_ok [OF that(1,3)] that(2) by (simp add: system_heap_ops_def sys_env_def)
  show "\<exists>n s'. f env highmem h nr s = Some (n, s') \<and> pages_ok cl h L [] s' \<and> frees h s s'"
    if "pages_ok cl h L [] s" "op_shrink system_heap_ops = Some f" for h L s f env highmem nr
    using system_shrink_ok [OF that(1)] that(2) by (auto simp: system_heap_ops_def)
  show "distinct L \<and> (\<forall>b \<in> set L. ib_heap (ion_buffers s b) = h \<and> sg_table (ion_buffers s b) \<noteq> None)" if "pages_ok cl h L [] s" for h L s
    using that by (auto simp: pages_ok_def buffer_ok_def)
  show "pages_ok cl h L [] (upd_heap h g s)" if "pages_ok cl h L [] s" "\<And>hp. sys_pools (g hp) = sys_pools hp" for h L s g
    by (subst pages_ok_same [of _ s]) (use that in \<open>simp_all add: upd_heap_def\<close>)
  show "pages_ok cl h L [] (upd_buffer b k s)" if "pages_ok cl h L [] s" "\<And>bf. sg_table (k bf) = sg_table bf \<and> ib_heap (k bf) = ib_heap bf \<and> ib_size (k bf) = ib_size bf \<and> priv_virt (k bf) = priv_virt bf" for h L s b k
    by (subst pages_ok_same [of _ s]) (use that in \<open>simp_all add: upd_buffer_def\<close>)
  show "pages_ok cl h L [] (upd_buffer b k s)" if "pages_ok cl h L [] s" "b \<notin> set L" for h L s b k
    by (subst pages_ok_same [of _ s]) (use that in \<open>auto simp: upd_buffer_def\<close>)
qed (rule pages_ok_store)

end
