(* ===== verification/Ion_Props.thy ===== *)
theory Ion_Props
  imports Ion_Client
begin

text \<open>
  The properties of the ION allocator with the system heap: the allocator as a transition system, whose states keep the pages
  of buffers apart and, as long as no clearing fails, the pages in the pools zeroed.
\<close>

section \<open>The allocator as a transition system\<close>

text \<open>
  A state is the set of buffers that somebody holds and the state of the allocator. Who holds a buffer may store to its pages at any
  time. Every step has answers of the kernel of its own: \<open>G\<close> tells which ones may occur, so that in one run an allocation or a
  mapping may fail at one step and succeed at another. A new buffer gets an address at which none exists.
\<close>

inductive ion_step :: "(ion_env \<Rightarrow> bool) \<Rightarrow> (ptr \<Rightarrow> ion_heap_ops) \<Rightarrow> ptr \<Rightarrow> ptr set \<times> ion \<Rightarrow> ptr set \<times> ion \<Rightarrow> bool" for G tab h where
  Create: "G env \<Longrightarrow> b \<notin> V \<Longrightarrow> b \<notin> set (free_list (ion_heaps s h)) \<Longrightarrow> ion_buffer_create tab env h (Some b) len flags s = Some (Inr x, s') \<Longrightarrow>
     ion_step G tab h (V, s) (insert x V, s')"
| Create_error: "G env \<Longrightarrow> b \<notin> V \<Longrightarrow> b \<notin> set (free_list (ion_heaps s h)) \<Longrightarrow> ion_buffer_create tab env h (Some b) len flags s = Some (Inl e, s') \<Longrightarrow>
     ion_step G tab h (V, s) (V, s')"
| Release: "G env \<Longrightarrow> b \<in> V \<Longrightarrow> ion_dma_buf_release tab env b s = Some s' \<Longrightarrow> ion_step G tab h (V, s) (V - {b}, s')"
| Deferred_free: "G env \<Longrightarrow> ion_heap_deferred_free tab env h s = Some s' \<Longrightarrow> ion_step G tab h (V, s) (V, s')"
| Shrink: "G env \<Longrightarrow> ion_heap_shrink_scan tab env highmem h nr s = Some (n, s') \<Longrightarrow> ion_step G tab h (V, s) (V, s')"
| Begin_cpu: "G env \<Longrightarrow> b \<in> V \<Longrightarrow> ion_dma_buf_begin_cpu_access tab env b s = Some (r, s') \<Longrightarrow> ion_step G tab h (V, s) (V, s')"
| End_cpu: "b \<in> V \<Longrightarrow> ion_step G tab h (V, s) (V, ion_dma_buf_end_cpu_access tab b s)"
| Attach: "b \<in> V \<Longrightarrow> ion_step G tab h (V, s) (V, snd (ion_dma_buf_attach a b s))"
| Detach: "b \<in> V \<Longrightarrow> ion_step G tab h (V, s) (V, ion_dma_buf_detatch x b s)"
| Store: "b \<in> V \<Longrightarrow> p \<in> set (buffer_pages s b) \<Longrightarrow> ion_step G tab h (V, s) (V, s\<lparr>frames := (frames s)(p := fr)\<rparr>)"

definition ion_reachable :: "(ion_env \<Rightarrow> bool) \<Rightarrow> (ptr \<Rightarrow> ion_heap_ops) \<Rightarrow> ptr \<Rightarrow> ptr set \<Rightarrow> ion \<Rightarrow> bool" where
  "ion_reachable G tab h V s \<longleftrightarrow>
     (\<exists>oks s0 s1. ion_system_heap_create (Some h) oks s0 = (Inr (), s1) \<and> (ion_step G tab h)\<^sup>*\<^sup>* ({}, s1) (V, s))"

text \<open>
  What is assumed of the answers throughout: the page allocator hands out pages that are not in use. That no page fails to be mapped for
  clearing is assumed only where pages are said to be zeroed.
\<close>

definition fresh_envs :: "(ion_env \<Rightarrow> bool) \<Rightarrow> bool" where
  "fresh_envs G \<longleftrightarrow> (\<forall>env. G env \<longrightarrow> fresh_pages env)"

definition clear_envs :: "(ion_env \<Rightarrow> bool) \<Rightarrow> bool" where
  "clear_envs G \<longleftrightarrow> (\<forall>env. G env \<longrightarrow> can_map env)"

lemma envs_ok: "fresh_envs G \<Longrightarrow> G env \<Longrightarrow> sys_env (clear_envs G) env"
  by (simp add: fresh_envs_def clear_envs_def sys_env_def)

lemma create_start:
  assumes "ion_system_heap_create (Some h) oks s0 = (Inr (), s1)"
  shows "sys.ion_ok cl h {} s1"
proof -
  have pl: "sys_pools (ion_heaps s1 h) = map ion_page_pool_create orders" and fl: "free_list (ion_heaps s1 h) = []"
    and c: "book_ok h [] s1"
    using assms by (auto simp: ion_system_heap_create_def ion_system_heap_create_pools_def ion_device_add_heap_def upd_heap_def book_ok_def Let_def
        split: if_splits)
  have "pools_ok cl s1 h" using pl by (auto simp: pools_ok_def pool_ok_def pool_at_def pool_items_def ion_page_pool_create_def length_orders)
  moreover have "pool_pages s1 h = []" using pl by (simp add: pool_pages_def pool_items_def ion_page_pool_create_def orders_def)
  ultimately have "pages_ok cl h [] [] s1" by (simp add: pages_ok_def)
  then show ?thesis using c fl by (auto simp: sys.ion_ok_def sys.ion_inv_def live_def)
qed

lemma kmap_get_ok:
  assumes "sys.ion_ok cl h V s" "ion_buffer_kmap_get tab env b s = Some (r, s')"
  shows "sys.ion_ok cl h V s'"
proof -
  have "s' = s \<or> (\<exists>k. s' = upd_buffer b k s \<and> (\<forall>bf. sg_table (k bf) = sg_table bf \<and> ib_heap (k bf) = ib_heap bf \<and> ib_size (k bf) = ib_size bf \<and> priv_virt (k bf) = priv_virt bf))"
    using assms(2) by (auto simp: ion_buffer_kmap_get_def Let_def split: if_splits option.splits sum.splits)
  then show ?thesis using assms(1) sys.ok_mark by blast
qed

lemma kmap_put_ok: "sys.ion_ok cl h V s \<Longrightarrow> sys.ion_ok cl h V (ion_buffer_kmap_put b s)"
  unfolding ion_buffer_kmap_put_def by (rule sys.ok_mark) simp_all

lemma step_ok:
  assumes "ion_step G tab h (V, s) (V', s')" "fresh_envs G" "tab h = system_heap_ops" "sys.ion_ok (clear_envs G) h V s"
  shows "sys.ion_ok (clear_envs G) h V' s'"
  using assms(1)
proof cases
  case (Create env b len flags x)
  with sys.ok_create [where tab = tab, OF assms(4) envs_ok [OF assms(2) Create(2)] assms(3) Create(3,4), of len flags] show ?thesis by simp
next
  case (Create_error env b len flags e)
  with sys.ok_create [where tab = tab, OF assms(4) envs_ok [OF assms(2) Create_error(2)] assms(3) Create_error(3,4), of len flags] show ?thesis by simp
next
  case (Release env b)
  with sys.ok_release [where tab = tab, OF assms(4) envs_ok [OF assms(2) Release(2)] assms(3), of b] show ?thesis by simp
next
  case (Deferred_free env)
  with sys.ok_deferred_free [where tab = tab, OF assms(4) envs_ok [OF assms(2) Deferred_free(2)] assms(3)] show ?thesis by simp
next
  case (Shrink env highmem nr n)
  with sys.ok_shrink_scan [where tab = tab, OF assms(4) envs_ok [OF assms(2) Shrink(2)] assms(3), of highmem nr] show ?thesis by simp
next
  case (Begin_cpu env b r)
  then show ?thesis using assms(4) kmap_get_ok by (auto simp: ion_dma_buf_begin_cpu_access_def split: if_splits)
next
  case (End_cpu b) then show ?thesis using assms(4) kmap_put_ok by (simp add: ion_dma_buf_end_cpu_access_def)
next
  case (Attach b a)
  then show ?thesis using assms(4) by (cases a) (auto simp: ion_dma_buf_attach_def intro!: sys.ok_mark)
next
  case (Detach b x) then show ?thesis using assms(4) by (auto simp: ion_dma_buf_detatch_def intro!: sys.ok_mark)
next
  case (Store b p fr) then show ?thesis using assms(4) by (auto intro: sys.ok_store)
qed

lemma reachable_ok:
  assumes "ion_reachable G tab h V s" "fresh_envs G" "tab h = system_heap_ops"
  shows "sys.ion_ok (clear_envs G) h V s"
proof -
  from assms(1) obtain oks s0 s1 where c: "ion_system_heap_create (Some h) oks s0 = (Inr (), s1)"
    and st: "(ion_step G tab h)\<^sup>*\<^sup>* ({}, s1) (V, s)" by (auto simp: ion_reachable_def)
  from st show ?thesis
  proof (induction "(V, s)" arbitrary: V s rule: rtranclp_induct)
    case base then show ?case using create_start [OF c] by simp
  next
    case (step y)
    obtain W t where y: "y = (W, t)" by fastforce
    show ?case by (rule step_ok [OF step.hyps(2) [unfolded y] assms(2,3) step.hyps(3) [OF y]])
  qed
qed

section \<open>A sample\<close>

text \<open>The heap at address 1, a kernel that gives page numbers not in use, and one buffer of a page.\<close>

definition sample_env :: ion_env where
  "sample_env = \<lparr>fatal_signal = (\<lambda>_. False), kernel_page = (\<lambda>_ s. Some (sum_list (in_use s) + 1)), cma_region = (\<lambda>_ _ s. Some (sum_list (in_use s) + 1)), cma_alignment = 8, vmap_ok = (\<lambda>_. True), vmap_addr = (\<lambda>_. Some 4096),
     table_ok = (\<lambda>_. True), sg_ok = (\<lambda>_. True), ram_pages = 1000, is_kswapd = False, remap_err = (\<lambda>_. None)\<rparr>"

definition sample_buffer :: ion_buffer where
  "sample_buffer = new_buffer 1 0 0"

definition ion_blank :: ion where
  "ion_blank = \<lparr>frames = (\<lambda>_ _ _. 7), compound_order = (\<lambda>_. 0), page_high = (\<lambda>_. False), in_use = [], freed_frames = [],
     ion_heaps = (\<lambda>_. \<lparr>heap_flags = 0, h_id = 0, h_type = 0, h_name = [], free_list = [], free_list_size = 0, num_of_buffers = 0, num_of_alloc_bytes = 0,
        alloc_bytes_wm = 0, sys_pools = []\<rparr>), ion_buffers = (\<lambda>_. sample_buffer), dev_heaps = [], heap_cnt = 0, next_heap_id = 0\<rparr>"

definition ion_started :: ion where
  "ion_started = snd (ion_system_heap_create (Some 1) (\<lambda>_. True) ion_blank)"

text \<open>In a run of the sample the memory for a scatter list may be had or not.\<close>

definition sample_envs :: "ion_env \<Rightarrow> bool" where
  "sample_envs env \<longleftrightarrow> env = sample_env \<or> env = sample_env\<lparr>sg_ok := (\<lambda>_. False)\<rparr>"

lemma sample_envs_ok: "fresh_envs sample_envs" "clear_envs sample_envs" "sample_envs sample_env" "sample_envs (sample_env\<lparr>sg_ok := (\<lambda>_. False)\<rparr>)"
  using member_le_sum_list [where 'a = nat]
  by (fastforce simp: fresh_envs_def clear_envs_def fresh_pages_def can_map_def sample_envs_def sample_env_def)+

lemma started_reachable: "ion_reachable G tab 1 {} ion_started"
proof -
  have "ion_system_heap_create (Some 1) (\<lambda>_. True) ion_blank = (Inr (), ion_started)"
    by (simp add: ion_started_def ion_system_heap_create_def ion_system_heap_create_pools_def list_all_iff)
  then show ?thesis unfolding ion_reachable_def by blast
qed

definition sample_tab :: "ptr \<Rightarrow> ion_heap_ops" where
  "sample_tab = (\<lambda>_. system_heap_ops)"

lemma sample_tab_at: "sample_tab h = system_heap_ops"
  by (simp add: sample_tab_def)

lemma reachable_step: "ion_reachable G tab h V s \<Longrightarrow> ion_step G tab h (V, s) (V', s') \<Longrightarrow> ion_reachable G tab h V' s'"
  unfolding ion_reachable_def by (meson rtranclp.rtrancl_into_rtrancl)

lemma collect_one:
  assumes "alloc_largest_available env h sz mo s = Some (Some p, s1)" "page_bytes s1 p = sz" "sz \<noteq> 0"
  shows "collect_pages env h sz mo ps s = Some (True, ps @ [p], s1)"
  using assms by (simp add: collect_pages.simps)

definition ion_filled :: ion where
  "ion_filled = upd_heap 1 (count_in 4096) (upd_buffer 5 (\<lambda>bf. bf\<lparr>sg_table := Some [(1, 4096)]\<rparr>)
     (take_page 1 0 (upd_buffer 5 (\<lambda>_. new_buffer 1 4096 0) ion_started)))"

lemma sample_alloc: "alloc_largest_available sample_env 1 4096 8 (upd_buffer 5 f ion_started) = Some (Some 1, take_page 1 0 (upd_buffer 5 f ion_started))"
  by (simp add: alloc_largest_available_def orders_def order_to_size_def PAGE_SIZE_def alloc_buffer_page_def order_to_index_def ion_page_pool_alloc_def
      pool_at_def upd_buffer_def ion_started_def ion_system_heap_create_def ion_system_heap_create_pools_def list_all_iff ion_device_add_heap_def upd_heap_def
      ion_page_pool_create_def ion_page_pool_alloc_pages_def sample_env_def ion_blank_def)

lemma sample_create: "ion_buffer_create sample_tab sample_env 1 (Some 5) 4096 0 ion_started = Some (Inr 5, ion_filled)"
proof -
  let ?s = "take_page 1 0 (upd_buffer 5 (\<lambda>_. new_buffer 1 4096 0) ion_started)"
  have "page_bytes ?s 1 = 4096" by (simp add: page_bytes_def take_page_def PAGE_SIZE_def)
  from collect_one [OF sample_alloc this] have
    "ion_system_heap_allocate sample_env 1 5 4096 (upd_buffer 5 (\<lambda>_. new_buffer 1 4096 0) ion_started) =
       Some (Inr (), upd_buffer 5 (\<lambda>bf. bf\<lparr>sg_table := Some [(1, 4096)]\<rparr>) ?s)"
    using \<open>page_bytes ?s 1 = 4096\<close> by (simp add: ion_system_heap_allocate_def PAGE_ALIGN_def ALIGN_def PAGE_SIZE_def sample_env_def)
  then show ?thesis by (simp add: ion_buffer_create_def sample_tab_def system_heap_ops_def ion_buffer_finish_def buffer_at_def ion_filled_def)
     (simp add: upd_buffer_def)
qed

lemma sample_reachable: "ion_reachable sample_envs sample_tab 1 {5} ion_filled"
  using reachable_step [OF started_reachable Create [where G = sample_envs, OF sample_envs_ok(3) _ _ sample_create]]
  by (simp add: ion_started_def ion_system_heap_create_def ion_system_heap_create_pools_def list_all_iff ion_device_add_heap_def upd_heap_def)

section \<open>Properties\<close>

lemma ok_apart:
  assumes "sys.ion_ok cl h V s"
  shows "\<forall>b \<in> V. set (buffer_pages s b) \<subseteq> set (in_use s) - set (pool_pages s h)"
    "\<forall>b \<in> V. \<forall>c \<in> V. b \<noteq> c \<longrightarrow> set (buffer_pages s b) \<inter> set (buffer_pages s c) = {}"
    "cl \<longrightarrow> (\<forall>p \<in> set (pool_pages s h). clean_page s p)"
proof -
  from assms obtain L where L: "pages_ok cl h L [] s" "V \<subseteq> set L" by (rule sys.ion_okE)
  show "\<forall>b \<in> V. set (buffer_pages s b) \<subseteq> set (in_use s) - set (pool_pages s h)" using L by (simp add: pages_ok_def) blast
  show "cl \<longrightarrow> (\<forall>p \<in> set (pool_pages s h). clean_page s p)" using pools_clean [OF L(1)] by (simp add: clean_for_def)
  have "set (buffer_pages s b) \<inter> set (buffer_pages s c) = {}" if "b \<in> V" "c \<in> V" "b \<noteq> c" for b c
  proof -
    have "pages_ok cl h (remove1 b L) (buffer_pages s b) s" using pages_ok_release [OF L(1)] L(2) that(1) by blast
    moreover have "c \<in> set (remove1 b L)" using that L(2) by (auto simp: in_set_remove1)
    ultimately show ?thesis by (auto simp: pages_ok_def)
  qed
  then show "\<forall>b \<in> V. \<forall>c \<in> V. b \<noteq> c \<longrightarrow> set (buffer_pages s b) \<inter> set (buffer_pages s c) = {}" by blast
qed

text \<open>
  C31. Whatever is done with the buffers of the system heap, whatever requests the kernel fails on the way, no page belongs to two buffers
  that are held, none of their pages is in a pool, and the heap's counters tell the number of its buffers and their size. If in
  addition no mapping of pages for clearing ever failed (\<open>clear_envs\<close>), every page in a pool is zeroed; without that it need
  not be (see \<open>failed_clear_leaks\<close>). Assumed is that the page allocator hands out pages not in use (\<open>fresh_envs\<close>).
\<close>

theorem ion_pages_apart:
  assumes "ion_reachable G tab h V s" "fresh_envs G" "tab h = system_heap_ops"
  shows "(\<forall>b \<in> V. set (buffer_pages s b) \<subseteq> set (in_use s) - set (pool_pages s h)) \<and>
    (\<forall>b \<in> V. \<forall>c \<in> V. b \<noteq> c \<longrightarrow> set (buffer_pages s b) \<inter> set (buffer_pages s c) = {}) \<and>
    num_of_buffers (ion_heaps s h) = of_nat (card (V \<union> set (free_list (ion_heaps s h)))) \<and>
    num_of_alloc_bytes (ion_heaps s h) = (\<Sum>b \<in> V \<union> set (free_list (ion_heaps s h)). ib_size (ion_buffers s b)) \<and>
    (clear_envs G \<longrightarrow> (\<forall>p \<in> set (pool_pages s h). clean_page s p))"
proof -
  have ok: "sys.ion_ok (clear_envs G) h V s" by (rule reachable_ok [OF assms])
  from ok obtain L where L: "pages_ok (clear_envs G) h L [] s" "book_ok h L s" "set L = V \<union> set (free_list (ion_heaps s h))" by (rule sys.ion_okE)
  have d: "distinct L" using L(1) by (simp add: pages_ok_def)
  have "num_of_buffers (ion_heaps s h) = of_nat (card (set L))" "num_of_alloc_bytes (ion_heaps s h) = (\<Sum>b \<in> set L. ib_size (ion_buffers s b))"
    using L(2) by (simp_all add: book_ok_def Let_def distinct_card [OF d] sum_list_distinct_conv_sum_set [OF d])
  then show ?thesis using ok_apart [OF ok] L(3) by simp
qed

theorem ion_pages_apart_witness:
  "set (buffer_pages ion_filled 5) \<subseteq> set (in_use ion_filled) - set (pool_pages ion_filled 1) \<and> num_of_buffers (ion_heaps ion_filled 1) = 1"
proof -
  have "free_list (ion_heaps ion_filled 1) = []"
    by (simp add: ion_filled_def upd_heap_def count_in_def Let_def take_page_def upd_buffer_def ion_started_def ion_system_heap_create_def
        ion_system_heap_create_pools_def list_all_iff ion_device_add_heap_def)
  then show ?thesis using ion_pages_apart [OF sample_reachable sample_envs_ok(1)] by (simp add: sample_tab_def)
qed


text \<open>
  C32. Creating a buffer in the system heap ends, with any answers of the kernel. On success the pages of the new buffer make up the size
  that was asked for, rounded up to pages, and they are zero if no mapping of pages for clearing ever failed; in any case
  the buffers that are held keep their pages and what is stored in them. The runs before it may mix answers that differ
  from those of this request. Assumed is that the page allocator hands out pages not in use (\<open>fresh_envs\<close>).
\<close>

theorem ion_buffer_create_zeroed:
  assumes "ion_reachable G tab h V s" "fresh_envs G" "tab h = system_heap_ops" "G env" "b \<notin> V" "b \<notin> set (free_list (ion_heaps s h))"
  shows "\<exists>r s'. ion_buffer_create tab env h (Some b) len flags s = Some (r, s') \<and> kept V s s' \<and>
    (case r of Inl _ \<Rightarrow> ion_reachable G tab h V s'
     | Inr x \<Rightarrow> x = b \<and> ion_reachable G tab h (insert b V) s' \<and> filled (clear_envs G) s' b len)"
proof -
  from sys.ok_create [where tab = tab, OF reachable_ok [OF assms(1-3)] envs_ok [OF assms(2,4)] assms(3,5,6), of len flags] obtain r s' where
    r: "ion_buffer_create tab env h (Some b) len flags s = Some (r, s')" "kept V s s'"
    and c: "case r of Inl _ \<Rightarrow> sys.ion_ok (clear_envs G) h V s'
      | Inr x \<Rightarrow> x = b \<and> sys.ion_ok (clear_envs G) h (insert b V) s' \<and> filled (clear_envs G) s' b len \<and> ib_size (ion_buffers s' b) = len"
    by blast
  have "ion_step G tab h (V, s) (case r of Inl _ \<Rightarrow> V | Inr x \<Rightarrow> insert x V, s')"
    using r(1) Create [where G = G, OF assms(4-6)] Create_error [where G = G, OF assms(4-6)] by (cases r) auto
  then have "ion_reachable G tab h (case r of Inl _ \<Rightarrow> V | Inr x \<Rightarrow> insert x V) s'"
    by (rule reachable_step [OF assms(1)])
  then show ?thesis using r c by (cases r) auto
qed

theorem ion_buffer_create_zeroed_witness:
  "\<exists>r s'. ion_buffer_create sample_tab sample_env 1 (Some 5) 4096 0 ion_started = Some (r, s') \<and> r = Inr 5 \<and> filled True s' 5 4096"
proof -
  have "free_list (ion_heaps ion_started 1) = []"
    by (simp add: ion_started_def ion_system_heap_create_def ion_system_heap_create_pools_def list_all_iff ion_device_add_heap_def upd_heap_def)
  then show ?thesis
    using ion_buffer_create_zeroed [OF started_reachable sample_envs_ok(1) _ sample_envs_ok(3), of sample_tab 5 4096 0] sample_create sample_envs_ok(2)
    by (simp add: sample_tab_def)
qed


text \<open>
  C35. The pools stay well-formed, whatever requests the kernel fails on the way: there is one for each of the orders 8, 4 and 0, its counts
  are the lengths of its lists, and it holds pages of its own order only. The pages of held buffers are of one of these orders and their
  scatter list tells their true length. Assumed is that the page allocator hands out pages not in use (\<open>fresh_envs\<close>).
\<close>

theorem ion_pools_typed:
  assumes "ion_reachable G tab h V s" "fresh_envs G" "tab h = system_heap_ops"
  shows "map pool_order (sys_pools (ion_heaps s h)) = orders \<and>
    (\<forall>pl \<in> set (sys_pools (ion_heaps s h)). high_count pl = length (high_items pl) \<and> low_count pl = length (low_items pl) \<and>
       (\<forall>p \<in> set (high_items pl @ low_items pl). compound_order s p = pool_order pl)) \<and>
    (\<forall>b \<in> V. sg_table (ion_buffers s b) = Some (map (\<lambda>p. (p, page_bytes s p)) (buffer_pages s b)) \<and>
       (\<forall>p \<in> set (buffer_pages s b). compound_order s p \<in> set orders))"
proof -
  let ?c = "clear_envs G"
  from reachable_ok [OF assms] obtain L where L: "pages_ok ?c h L [] s" "V \<subseteq> set L" by (rule sys.ion_okE)
  have po: "pools_ok ?c s h" using L(1) by (simp add: pages_ok_def)
  have len: "length (sys_pools (ion_heaps s h)) = 3" using po by (simp add: pools_ok_def)
  have "map pool_order (sys_pools (ion_heaps s h)) = orders"
    using po by (intro nth_equalityI) (auto simp: pools_ok_def pool_ok_def pool_at_def length_orders)
  moreover have "\<exists>k. pool_ok ?c s k pl" if "pl \<in> set (sys_pools (ion_heaps s h))" for pl
    using that po len by (auto simp: in_set_conv_nth pools_ok_def pool_at_def)
  then have "\<forall>pl \<in> set (sys_pools (ion_heaps s h)). high_count pl = length (high_items pl) \<and> low_count pl = length (low_items pl) \<and>
      (\<forall>p \<in> set (high_items pl @ low_items pl). compound_order s p = pool_order pl)" by (fastforce simp: pool_ok_def pool_items_def)
  moreover have "\<forall>b \<in> V. buffer_ok s h b" using L by (auto simp: pages_ok_def)
  ultimately show ?thesis by (simp add: buffer_ok_def)
qed

theorem ion_pools_typed_witness:
  "map pool_order (sys_pools (ion_heaps ion_filled 1)) = [8, 4, 0] \<and> sg_table (ion_buffers ion_filled 5) = Some [(1, page_bytes ion_filled 1)]"
proof -
  have "buffer_pages ion_filled 5 = [1]" by (simp add: buffer_pages_def ion_filled_def upd_heap_def upd_buffer_def)
  then show ?thesis using ion_pools_typed [OF sample_reachable sample_envs_ok(1) sample_tab_at] by (simp add: orders_def)
qed

text \<open>
  In every such state the other operations end without a \<open>BUG\<close>: releasing a buffer that is held, the background thread and the
  shrinker. They leave the buffers that stay held, and what is stored in them, as they are.
\<close>

theorem ion_free_paths_return:
  assumes "ion_reachable G tab h V s" "fresh_envs G" "tab h = system_heap_ops" "G env"
  shows "(\<forall>b \<in> V. \<exists>s'. ion_dma_buf_release tab env b s = Some s' \<and> kept (V - {b}) s s') \<and>
    (\<exists>s'. ion_heap_deferred_free tab env h s = Some s' \<and> kept V s s') \<and>
    (\<forall>highmem nr. \<exists>n s'. ion_heap_shrink_scan tab env highmem h nr s = Some (n, s') \<and> kept V s s')"
proof -
  note ok = reachable_ok [OF assms(1-3)] and e = envs_ok [OF assms(2,4)]
  show ?thesis
    using sys.ok_release [where tab = tab, OF ok e assms(3)] sys.ok_deferred_free [where tab = tab, OF ok e assms(3)]
      sys.ok_shrink_scan [where tab = tab, OF ok e assms(3)] by blast
qed

theorem ion_free_paths_return_witness:
  "(\<exists>s'. ion_dma_buf_release sample_tab sample_env 5 ion_filled = Some s') \<and> (\<exists>n s'. ion_heap_shrink_scan sample_tab sample_env True 1 3 ion_filled = Some (n, s'))"
  using ion_free_paths_return [OF sample_reachable sample_envs_ok(1) sample_tab_at sample_envs_ok(3)] by blast

text \<open>
  C33. A request for a buffer from a device whose only heap is the system heap (\<open>dev_heaps s = [h]\<close>) ends, with any answers of the kernel. A size
  that rounds up to zero is refused, as is a mask without the heap, and both leave the state alone. An error at any point, also when
  the dma-buf or the descriptor cannot be had, leaves nobody with the new buffer; success means a buffer of the size rounded up to
  pages, zeroed if no mapping of pages for clearing ever failed. Assumed is that the page allocator hands out pages not in use.
\<close>

theorem ion_alloc_outcome:
  assumes r: "ion_reachable G tab h V s" and env: "fresh_envs G" "G env" and tab: "tab h = system_heap_ops" and d: "dev_heaps s = [h]"
    and b: "ia_buffer ia h = Some b" "b \<notin> V" "b \<notin> set (free_list (ion_heaps s h))"
  shows "\<exists>res s'. ion_alloc tab env ia len ids flags s = Some (res, s') \<and> kept V s s' \<and>
    (PAGE_ALIGN len = 0 \<longrightarrow> res = Inl EINVAL \<and> s' = s) \<and>
    (PAGE_ALIGN len \<noteq> 0 \<and> \<not> bit ids (h_id (ion_heaps s h)) \<longrightarrow> res = Inl ENODEV \<and> s' = s) \<and>
    (case res of Inl _ \<Rightarrow> ion_reachable G tab h V s'
     | Inr fd \<Rightarrow> ia_fd ia = Inr fd \<and> ion_reachable G tab h (insert b V) s' \<and> filled (clear_envs G) s' b (PAGE_ALIGN len))"
proof (cases "PAGE_ALIGN len = 0 \<or> \<not> bit ids (h_id (ion_heaps s h))")
  case True then show ?thesis using r d by (auto simp: ion_alloc_def Let_def)
next
  case False
  note se = envs_ok [OF env]
  from sys.ok_create [where tab = tab, OF reachable_ok [OF r env(1) tab] se tab b(2,3), of "PAGE_ALIGN len" "ucast flags"] obtain c s1 where
    c: "ion_buffer_create tab env h (Some b) (PAGE_ALIGN len) (ucast flags) s = Some (c, s1)" "kept V s s1"
    and q: "case c of Inl _ \<Rightarrow> sys.ion_ok (clear_envs G) h V s1
      | Inr x \<Rightarrow> x = b \<and> sys.ion_ok (clear_envs G) h (insert b V) s1 \<and> filled (clear_envs G) s1 b (PAGE_ALIGN len) \<and>
          ib_size (ion_buffers s1 b) = PAGE_ALIGN len" by blast
  show ?thesis
  proof (cases c)
    case (Inl e)
    then have "ion_reachable G tab h V s1" using reachable_step [OF r Create_error [where G = G, OF env(2) b(2,3)]] c(1) by simp
    then show ?thesis using False Inl c d b(1) by (simp add: ion_alloc_def Let_def)
  next
    case (Inr x)
    have ok: "sys.ion_ok (clear_envs G) h (insert b V) s1" "filled (clear_envs G) s1 b (PAGE_ALIGN len)" "c = Inr b" using q Inr by simp_all
    have r1: "ion_reachable G tab h (insert b V) s1" using reachable_step [OF r Create [where G = G, OF env(2) b(2,3)]] c(1) ok(3) by simp
    from sys.ok_release [where tab = tab, OF ok(1) se tab, of b] obtain s2 where
      s2: "ion_dma_buf_release tab env b s1 = Some s2" "kept (insert b V - {b}) s1 s2" by blast
    have k: "kept V s s2" using kept_trans [OF c(2)] s2(2) b(2) by simp
    have "ion_reachable G tab h (insert b V - {b}) s2" by (rule reachable_step [OF r1 Release [where G = G, OF env(2) _ s2(1)]]) simp
    then have "ion_reachable G tab h V s2" using b(2) by simp
    moreover have "ion_release_buffer tab env b s1 = Some s2" using s2(1) by (simp add: ion_dma_buf_release_def)
    ultimately show ?thesis using False c d b(1) ok r1 s2(1) k
      by (auto simp: ion_alloc_def Let_def split: option.splits sum.splits)
  qed
qed

lemma sample_ion_alloc:
  "ion_alloc sample_tab sample_env \<lparr>ia_buffer = (\<lambda>_. Some 5), ia_export = None, ia_fd = Inr 3\<rparr> 4096 1 0 ion_started = Some (Inr 3, ion_filled)"
proof -
  have "PAGE_ALIGN 4096 = 4096" by (simp add: PAGE_ALIGN_def ALIGN_def PAGE_SIZE_def)
  moreover have "dev_heaps ion_started = [1]" "bit (1 :: u32) (h_id (ion_heaps ion_started 1))"
    by (simp_all add: ion_started_def ion_blank_def ion_system_heap_create_def ion_system_heap_create_pools_def list_all_iff ion_device_add_heap_def upd_heap_def)
  ultimately show ?thesis using sample_create by (simp add: ion_alloc_def)
qed

theorem ion_alloc_outcome_witness:
  "ion_alloc sample_tab sample_env \<lparr>ia_buffer = (\<lambda>_. Some 5), ia_export = None, ia_fd = Inr 3\<rparr> 4096 1 0 ion_started = Some (Inr 3, ion_filled) \<and>
   ion_reachable sample_envs sample_tab 1 {5} ion_filled \<and> filled True ion_filled 5 4096"
proof -
  have "dev_heaps ion_started = [1]" "free_list (ion_heaps ion_started 1) = []"
    by (simp_all add: ion_started_def ion_blank_def ion_system_heap_create_def ion_system_heap_create_pools_def list_all_iff ion_device_add_heap_def upd_heap_def)
  moreover have "PAGE_ALIGN 4096 = 4096" by (simp add: PAGE_ALIGN_def ALIGN_def PAGE_SIZE_def)
  ultimately show ?thesis
    using ion_alloc_outcome [OF started_reachable sample_envs_ok(1,3), of sample_tab "\<lparr>ia_buffer = (\<lambda>_. Some 5), ia_export = None, ia_fd = Inr 3\<rparr>" 5 4096 1 0]
      sample_ion_alloc sample_envs_ok(2)
    by (simp add: sample_tab_def)
qed


section \<open>A page that could not be cleared\<close>

text \<open>
  \<open>ion_system_heap_free\<close> ignores that clearing failed: when the pages cannot be mapped, what was stored in the buffer is in the pool, and
  the next buffer is made of it.
\<close>

definition dirty_env :: ion_env where
  "dirty_env = sample_env\<lparr>vmap_ok := (\<lambda>_. False)\<rparr>"

definition ion_dirty :: ion where
  "ion_dirty = ion_filled\<lparr>frames := (frames ion_filled)(1 := (\<lambda>_ _. 9))\<rparr>"

theorem failed_clear_leaks:
  "\<exists>s'. ion_system_heap_free dirty_env 5 ion_dirty = Some s' \<and> 1 \<in> set (pool_pages s' 1) \<and> frames s' 1 0 0 = 9"
proof -
  have bf: "buffer_at ion_dirty 5 = (new_buffer 1 4096 0)\<lparr>sg_table := Some [(1, 4096)]\<rparr>"
    by (simp add: ion_dirty_def ion_filled_def buffer_at_def upd_heap_def upd_buffer_def take_page_def)
  have fr: "sg_frames [(1, 4096)] = [(1, 0)]" by (simp add: sg_frames_def PAGE_ALIGN_def ALIGN_def PAGE_SIZE_def)
  have z: "snd (ion_heap_sglist_zero dirty_env [(1, 4096)] ion_dirty) = ion_dirty"
    unfolding ion_heap_sglist_zero_def fr by (subst sglist_zero_loop.simps) (simp add: ion_heap_clear_pages_def dirty_env_def)
  have co: "compound_order ion_dirty 1 = 0" by (simp add: ion_dirty_def ion_filled_def upd_heap_def upd_buffer_def take_page_def)
  have pl: "sys_pools (ion_heaps ion_dirty 1) = map ion_page_pool_create orders"
    by (simp add: ion_dirty_def ion_filled_def upd_heap_def upd_buffer_def take_page_def count_in_def Let_def ion_started_def ion_system_heap_create_def
        ion_system_heap_create_pools_def list_all_iff ion_device_add_heap_def)
  have "ion_system_heap_free dirty_env 5 ion_dirty = ion_page_pool_free 1 2 1 ion_dirty"
    by (simp add: ion_system_heap_free_def Let_def bf z [unfolded One_nat_def] new_buffer_def free_buffer_page_def co [unfolded One_nat_def] order_to_index_def split: option.split)
  moreover have "frames ion_dirty 1 0 0 = 9" by (simp add: ion_dirty_def)
  ultimately show ?thesis
    using pl co by (simp add: ion_page_pool_free_def Let_def pool_at_def orders_def ion_page_pool_create_def pool_pages_def pool_items_def ion_page_pool_add_def)
qed

end
