(* ===== verification/Ion_Map_Props.thy ===== *)
theory Ion_Map_Props
  imports Ion_Props
begin

text \<open>Mapping the buffers of the system heap, for the kernel and into a process.\<close>

section \<open>Scatter lists in whole pages\<close>

definition whole_pages :: "(ptr \<times> u64) list \<Rightarrow> bool" where
  "whole_pages sg \<longleftrightarrow> (\<forall>(p, l) \<in> set sg. 4096 dvd unat l \<and> l \<noteq> 0)"

lemma sg_frames_Nil [simp]: "sg_frames [] = []"
  by (simp add: sg_frames_def)

lemma sg_frames_whole: "4096 dvd unat l \<Longrightarrow> sg_frames ((p, l) # sg) = map (Pair p) [0..<unat l div 4096] @ sg_frames sg"
  by (simp add: sg_frames_def page_align_whole)

lemma whole_pages_Cons [simp]: "whole_pages ((p, l) # sg) \<longleftrightarrow> 4096 dvd unat l \<and> l \<noteq> 0 \<and> whole_pages sg"
  by (auto simp: whole_pages_def)

lemma length_sg_frames: "whole_pages sg \<Longrightarrow> length (sg_frames sg) = (\<Sum>(p, l)\<leftarrow>sg. unat l) div 4096 \<and> length sg \<le> length (sg_frames sg) \<and> 4096 dvd (\<Sum>(p, l)\<leftarrow>sg. unat l)"
proof (induction sg)
  case (Cons e sg)
  obtain p l where e: "e = (p, l)" by fastforce
  have d: "4096 dvd unat l" "0 < unat l" using Cons.prems e by (auto simp: unat_gt_0)
  then have "0 < unat l div 4096" by (auto elim!: dvdE)
  then show ?case using Cons d e by (auto simp: sg_frames_whole div_plus_div_distrib_dvd_left)
qed simp

lemma system_whole:
  assumes "sys.ion_ok cl h V s" "b \<in> V"
  obtains sg where "sg_table (buffer_at s b) = Some sg" "whole_pages sg" "length (sg_frames sg) = unat (PAGE_ALIGN (ib_size (buffer_at s b))) div 4096"
    "ib_heap (buffer_at s b) = h"
proof -
  from assms(1) obtain L where L: "pages_ok cl h L [] s" "V \<subseteq> set L" by (rule sys.ion_okE)
  then have bo: "buffer_ok s h b" using assms(2) by (auto simp: pages_ok_def)
  let ?sg = "map (\<lambda>p. (p, page_bytes s p)) (buffer_pages s b)"
  have "whole_pages ?sg"
    using bo page_bytes_nat by (force simp: whole_pages_def buffer_ok_def simp flip: unat_eq_0)
  moreover have "(\<Sum>(p, l)\<leftarrow>?sg. unat l) = unat (PAGE_ALIGN (ib_size (buffer_at s b)))"
    using bo by (simp add: buffer_ok_def bytes_of_def comp_def buffer_at_def)
  ultimately show ?thesis using that [of ?sg] bo length_sg_frames [of ?sg] by (simp add: buffer_ok_def buffer_at_def)
qed

section \<open>Mapping for the kernel\<close>

lemma fill_pages_whole:
  assumes "whole_pages sg" "i + length sg \<le> n" "length acc + length (sg_frames sg) \<le> n"
  shows "fill_pages n i sg acc = Some (acc @ sg_frames sg)"
  using assms
proof (induction sg arbitrary: i acc)
  case (Cons e sg)
  obtain p l where e: "e = (p, l)" by fastforce
  show ?case using Cons e by (simp add: sg_frames_whole page_align_whole Let_def)
qed simp

text \<open>
  Mapping a held buffer for the kernel fills the array of its frames exactly, so that the checks against its end never fail:
  the result is the address of the mapping, or the lack of memory for the array or the mapping.
\<close>

theorem map_kernel_fits:
  assumes "ion_reachable G tab h V s" "fresh_envs G" "tab h = system_heap_ops" "b \<in> V"
  shows "\<exists>sg. sg_table (buffer_at s b) = Some sg \<and>
    fill_pages (unat (PAGE_ALIGN (ib_size (buffer_at s b))) div 4096) 0 sg [] = Some (sg_frames sg) \<and>
    ion_heap_map_kernel env b s = Some (if table_ok env s then case vmap_addr env s of None \<Rightarrow> Inl ENOMEM | Some a \<Rightarrow> Inr a else Inl ENOMEM)"
proof -
  from system_whole [OF reachable_ok [OF assms(1-3)] assms(4)] obtain sg where
    sg: "sg_table (buffer_at s b) = Some sg" "whole_pages sg" "length (sg_frames sg) = unat (PAGE_ALIGN (ib_size (buffer_at s b))) div 4096" .
  have "fill_pages (unat (PAGE_ALIGN (ib_size (buffer_at s b))) div 4096) 0 sg [] = Some (sg_frames sg)"
    using fill_pages_whole [OF sg(2), of 0 _ "[]"] length_sg_frames [OF sg(2)] sg(3) by simp
  then show ?thesis using sg(1) by (simp add: ion_heap_map_kernel_def)
qed

theorem map_kernel_fits_witness: "ion_heap_map_kernel sample_env 5 ion_filled = Some (Inr 4096)"
  using map_kernel_fits [OF sample_reachable sample_envs_ok(1) sample_tab_at, of 5 sample_env] by (auto simp: sample_env_def)

section \<open>Mapping into a process\<close>

text \<open>The pages of one entry of the mapping: user address and frame of each, and a run of frames from a user address on.\<close>

fun mapped :: "u64 \<times> ptr \<times> nat \<times> u64 \<Rightarrow> (nat \<times> ptr \<times> nat) list" where
  "mapped (addr, p, first, len) = map (\<lambda>i. (unat addr + 4096 * i, p, first + i)) [0..<unat len div 4096]"

fun pages_at :: "nat \<Rightarrow> (ptr \<times> nat) list \<Rightarrow> (nat \<times> ptr \<times> nat) list" where
  "pages_at a [] = []"
| "pages_at a (f # fs) = (a, f) # pages_at (a + 4096) fs"

lemma pages_at_append: "pages_at a (xs @ ys) = pages_at a xs @ pages_at (a + 4096 * length xs) ys"
  by (induction xs arbitrary: a) (simp_all add: algebra_simps)

lemma mapped_eq: "mapped (addr, p, first, len) = pages_at (unat addr) (map (Pair p) [first..<first + unat len div 4096])"
proof -
  have "map (\<lambda>i. (a + 4096 * i, p, f + i)) [0..<n] = pages_at a (map (Pair p) [f..<f + n])" for a f n
    by (induction n) (simp_all add: pages_at_append)
  then show ?thesis by simp
qed

lemma take_drop_upt: "o1 \<le> L \<Longrightarrow> take n (drop o1 (map (Pair p) [0..<L])) = map (Pair p) [o1..<o1 + min n (L - o1)]"
  by (simp add: take_map drop_map take_upt min_def)

text \<open>
  The pages that are mapped are all that are to be, or those before the address at which the kernel refused to map.
\<close>

definition user_mapped :: "ion_env \<Rightarrow> unit result \<Rightarrow> (nat \<times> ptr \<times> nat) list \<Rightarrow> (nat \<times> ptr \<times> nat) list \<Rightarrow> bool" where
  "user_mapped env r xs full \<longleftrightarrow>
     (case r of Inr _ \<Rightarrow> xs = full
      | Inl e \<Rightarrow> \<exists>a f rest. full = xs @ (unat a, f) # rest \<and> remap_err env a = Some e)"

lemma user_mapped_append: "user_mapped env r xs full \<Longrightarrow> user_mapped env r (ys @ xs) (ys @ full)"
  by (auto simp: user_mapped_def split: sum.splits)

text \<open>One entry of the scatter list: \<open>o1\<close> is where the mapping starts in it, \<open>n\<close> how many pages are still to be mapped.\<close>

lemma take_drop_entry:
  assumes "o1 \<le> L"
  shows "take n (drop o1 (map (Pair p) [0..<L] @ fs)) = map (Pair p) [o1..<o1 + min n (L - o1)] @ take (n - (L - o1)) fs"
  using take_drop_upt [OF assms, of n p] assms by simp

lemma map_user_whole:
  assumes "whole_pages sg" "4096 dvd unat offset" "4096 dvd unat addr" "4096 dvd unat vm_end" "addr < vm_end"
  shows "\<exists>r ms. map_user_loop env vm_end addr offset sg maps = (r, maps @ ms) \<and>
    user_mapped env r (concat (map mapped ms)) (pages_at (unat addr) (take ((unat vm_end - unat addr) div 4096) (drop (unat offset div 4096) (sg_frames sg))))"
  using assms(1-3,5)
proof (induction sg arbitrary: addr offset maps)
  case (Cons e sg)
  obtain p l where e: "e = (p, l)" by fastforce
  obtain L where L: "unat l = 4096 * L" using Cons.prems(1) e by (auto elim: dvdE)
  obtain o1 where o1: "unat offset = 4096 * o1" using Cons.prems(2) by (auto elim: dvdE)
  obtain a where a: "unat addr = 4096 * a" using Cons.prems(3) by (auto elim: dvdE)
  obtain m where m: "unat vm_end = 4096 * m" using assms(4) by (auto elim: dvdE)
  have am: "a < m" using Cons.prems(4) a m by (simp add: word_less_nat_alt)
  have n: "(unat vm_end - unat addr) div 4096 = m - a" using a m by (simp flip: diff_mult_distrib2)
  have w: "whole_pages sg" and fr: "sg_frames (e # sg) = map (Pair p) [0..<L] @ sg_frames sg"
    using Cons.prems(1) e L by (simp_all add: sg_frames_whole)
  show ?case
  proof (cases "offset \<ge> l")
    case True
    then have "L \<le> o1" using L o1 by (simp add: word_le_nat_alt)
    then have u: "unat (offset - l) = 4096 * (o1 - L)" using True L o1 by (simp add: unat_sub diff_mult_distrib2)
    have "drop (unat offset div 4096) (sg_frames (e # sg)) = drop (unat (offset - l) div 4096) (sg_frames sg)"
      using fr u o1 \<open>L \<le> o1\<close> by simp
    then show ?thesis using Cons.IH [OF w _ Cons.prems(3,4), of "offset - l" maps] True e u by simp
  next
    case False
    then have ol: "o1 < L" using L o1 by (simp add: word_le_nat_alt not_le)
    have d1: "unat (l - offset) = 4096 * (L - o1)" using False L o1 by (simp add: unat_sub diff_mult_distrib2)
    have d2: "unat (vm_end - addr) = 4096 * (m - a)" using Cons.prems(4) a m by (simp add: unat_sub less_imp_le diff_mult_distrib2)
    let ?len = "min (l - offset) (vm_end - addr)"
    have ln: "unat ?len = 4096 * min (m - a) (L - o1)" using d1 d2 by (simp add: min_def word_le_nat_alt)
    have sum: "unat (addr + ?len) = 4096 * (a + min (m - a) (L - o1))"
    proof -
      have "unat addr + unat ?len \<le> unat vm_end" using a ln m am by simp
      then have "unat addr + unat ?len < 2 ^ 64" using unsigned_less [of vm_end, where 'a = nat] by simp
      then show ?thesis using a ln by (simp add: unat_add_lem [THEN iffD1])
    qed
    have mp: "mapped (addr, p, unat offset div 4096, ?len) = pages_at (unat addr) (map (Pair p) [o1..<o1 + min (m - a) (L - o1)])"
      using ln o1 by (simp only: mapped_eq) simp
    have td: "take (m - a) (drop o1 (sg_frames (e # sg))) = map (Pair p) [o1..<o1 + min (m - a) (L - o1)] @ take (m - a - (L - o1)) (sg_frames sg)"
      unfolding fr using ol by (intro take_drop_entry) simp
    show ?thesis
    proof (cases "remap_err env addr")
      case (Some err)
      obtain n where "min (m - a) (L - o1) = Suc n" using am ol by (cases "min (m - a) (L - o1)") auto
      then have "map (Pair p) [o1..<o1 + min (m - a) (L - o1)] = (p, o1) # map (Pair p) [Suc o1..<o1 + Suc n]" by (simp add: upt_conv_Cons)
      then have "user_mapped env (Inl err) [] (pages_at (unat addr) (take (m - a) (drop o1 (sg_frames (e # sg)))))"
        using Some unfolding td user_mapped_def by auto
      then show ?thesis using False Some e n o1 by (auto simp: Let_def intro!: exI [of _ "[]"])
    next
      case none: None
      show ?thesis
      proof (cases "addr + ?len \<ge> vm_end")
        case True
        then have "m - a \<le> L - o1" using sum m am by (simp add: word_le_nat_alt min_def split: if_splits)
        then show ?thesis using False True e none mp td n o1 by (simp add: Let_def user_mapped_def)
      next
        case less: False
        then have lt: "L - o1 < m - a" using sum m am by (simp add: word_le_nat_alt min_def split: if_splits)
        let ?e1 = "(addr, p, unat offset div 4096, ?len)"
        have "4096 dvd unat (addr + ?len)" "addr + ?len < vm_end" using sum less by simp_all
        from Cons.IH [OF w _ this, of 0 "maps @ [?e1]"] obtain r ms where
          ms: "map_user_loop env vm_end (addr + ?len) 0 sg (maps @ [?e1]) = (r, (maps @ [?e1]) @ ms)"
          "user_mapped env r (concat (map mapped ms)) (pages_at (unat (addr + ?len)) (take ((unat vm_end - unat (addr + ?len)) div 4096) (sg_frames sg)))" by auto
        have k: "(unat vm_end - unat (addr + ?len)) div 4096 = m - a - (L - o1)" using sum m lt by (simp flip: diff_mult_distrib2)
        have "pages_at (unat addr) (take (m - a) (drop o1 (sg_frames (e # sg)))) =
            mapped ?e1 @ pages_at (unat (addr + ?len)) (take ((unat vm_end - unat (addr + ?len)) div 4096) (sg_frames sg))"
          unfolding td pages_at_append using k mp sum a lt by (simp del: mapped.simps add: algebra_simps)
        then have "user_mapped env r (concat (map mapped (?e1 # ms))) (pages_at (unat addr) (take (m - a) (drop o1 (sg_frames (e # sg)))))"
          using user_mapped_append [OF ms(2), of "mapped ?e1"] by (simp del: mapped.simps)
        then show ?thesis using False less e none ms(1) n o1 by (auto simp: Let_def simp del: mapped.simps intro!: exI [of _ "?e1 # ms"])
      qed
    qed
  qed
qed (simp add: user_mapped_def)

text \<open>The page offset of a mapping is shifted to bytes in 64 bits.\<close>

lemma page_offset_bytes: "unat (pgoff * 4096 :: u64) = 4096 * (unat pgoff mod 2 ^ 52)" for pgoff :: u64
proof -
  have "unat (pgoff * 4096) = unat pgoff * 4096 mod 2 ^ 64" by (simp add: unat_word_ariths)
  also have "\<dots> = 4096 * (unat pgoff mod 2 ^ 52)" using mult_mod_right [of 4096 "unat pgoff" "2 ^ 52"] by (simp add: mult.commute)
  finally show ?thesis .
qed

text \<open>
  C34. Mapping a held buffer of the system heap into a process maps its frames in order, one after the other from the start of the
  range and from the page offset of the mapping (taken modulo \<open>2\<^sup>5\<^sup>2\<close>, since it is turned into bytes in 64 bits), up to the end
  of the range or of the buffer; no other frame is mapped. When the kernel refuses to map the pages at some address, the error
  is passed on, and mapped are exactly the frames before that address. The range starts and ends at page boundaries and
  is not empty, as ranges of the kernel do; the page allocator hands out pages not in use (\<open>fresh_envs\<close>).
\<close>

theorem ion_mmap_exact:
  assumes r: "ion_reachable G tab h V s" and env: "fresh_envs G" and tab: "tab h = system_heap_ops" and b: "b \<in> V"
    and al: "4096 dvd unat vm_start" "4096 dvd unat vm_end" "vm_start < vm_end"
  shows "\<exists>sg res ms. sg_table (buffer_at s b) = Some sg \<and> ion_mmap tab env b vm_start vm_end pgoff s = Some (res, ms) \<and>
    (let full = pages_at (unat vm_start) (take ((unat vm_end - unat vm_start) div 4096) (drop (unat pgoff mod 2 ^ 52) (sg_frames sg)))
     in case res of Inr _ \<Rightarrow> concat (map mapped ms) = full
        | Inl e \<Rightarrow> \<exists>a f rest. full = concat (map mapped ms) @ (unat a, f) # rest \<and> remap_err env a = Some e)"
proof -
  from system_whole [OF reachable_ok [OF r env tab] b] obtain sg where
    sg: "sg_table (buffer_at s b) = Some sg" "whole_pages sg" "ib_heap (buffer_at s b) = h" .
  from map_user_whole [OF sg(2) _ al, of "pgoff * 4096" env "[]"] obtain res ms where
    "map_user_loop env vm_end vm_start (pgoff * 4096) sg [] = (res, ms)"
    "user_mapped env res (concat (map mapped ms))
      (pages_at (unat vm_start) (take ((unat vm_end - unat vm_start) div 4096) (drop (unat pgoff mod 2 ^ 52) (sg_frames sg))))"
    by (auto simp: page_offset_bytes)
  then show ?thesis
    using sg tab by (simp add: ion_mmap_def system_heap_ops_def ion_heap_map_user_def user_mapped_def Let_def)
qed

theorem ion_mmap_exact_witness:
  "\<exists>ms. ion_mmap sample_tab sample_env 5 0x10000 0x11000 0 ion_filled = Some (Inr (), ms) \<and> concat (map mapped ms) = [(0x10000, 1, 0)]"
proof -
  have "sg_table (buffer_at ion_filled 5) = Some [(1, 4096)]" by (simp add: ion_filled_def buffer_at_def upd_heap_def upd_buffer_def)
  moreover have "sg_frames [(1, 4096)] = [(1, 0)]" by (simp add: sg_frames_def PAGE_ALIGN_def ALIGN_def PAGE_SIZE_def)
  moreover have "remap_err sample_env = (\<lambda>_. None)" by (simp add: sample_env_def)
  moreover obtain sg res ms where "sg_table (buffer_at ion_filled 5) = Some sg" "ion_mmap sample_tab sample_env 5 0x10000 0x11000 0 ion_filled = Some (res, ms)"
      "case res of Inr _ \<Rightarrow> concat (map mapped ms) = pages_at 0x10000 (take (Suc 0) (sg_frames sg))
        | Inl e \<Rightarrow> \<exists>a f rest. pages_at 0x10000 (take (Suc 0) (sg_frames sg)) = concat (map mapped ms) @ (unat a, f) # rest \<and> remap_err sample_env a = Some e"
    using ion_mmap_exact [OF sample_reachable sample_envs_ok(1) sample_tab_at, of 5 "0x10000" "0x11000" sample_env 0] by (auto simp: Let_def)
  ultimately show ?thesis by (cases res) auto
qed

end
