(* ===== verification/Ion_Contig.thy ===== *)
theory Ion_Contig
  imports Ion_Client
begin

text \<open>
  The heaps of contiguous memory: the one that splits a page of the page allocator (\<open>ion_system_contig_heap_*\<close>) and the one on
  top of the contiguous memory allocator (\<open>ion_cma_heap.c\<close>). A buffer of either is one run of frames. Both keep the contract of
  a heap, so everything shown of the core from that contract holds for them.
\<close>

section \<open>Sizes\<close>

fun fls :: "nat \<Rightarrow> nat" where
  "fls n = (if n = 0 then 0 else Suc (fls (n div 2)))"

declare fls.simps [simp del]

definition get_order :: "u64 \<Rightarrow> nat" where
  "get_order sz = fls (unat (sz - 1) div 4096)"

definition nr_frames :: "u64 \<Rightarrow> nat" where
  "nr_frames sz = unat (PAGE_ALIGN sz) div 4096"

section \<open>The contiguous heap\<close>

text \<open>Single frames of a page that was split go back to the kernel.\<close>

definition free_frames :: "ptr \<Rightarrow> nat list \<Rightarrow> ion \<Rightarrow> ion" where
  "free_frames p is s = s\<lparr>freed_frames := freed_frames s @ map (Pair p) is\<rparr>"

definition ion_system_contig_heap_allocate :: "ion_env \<Rightarrow> ptr \<Rightarrow> ptr \<Rightarrow> u64 \<Rightarrow> ion \<Rightarrow> (unit result \<times> ion) option" where
  "ion_system_contig_heap_allocate env h b len s =
     Some (let order = get_order len in
       case kernel_page env order s of None \<Rightarrow> (Inl ENOMEM, s)
       | Some p \<Rightarrow>
           (let s1 = free_frames p [nr_frames len..<2 ^ order] (take_page p order s) in
            if table_ok env s1 \<and> sg_ok env s1 then (Inr (), upd_buffer b (\<lambda>bf. bf\<lparr>sg_table := Some [(p, PAGE_ALIGN len)]\<rparr>) s1)
            else (Inl ENOMEM, give_page p (free_frames p [0..<nr_frames len] s1))))"

definition ion_system_contig_heap_free :: "ion_env \<Rightarrow> ptr \<Rightarrow> ion \<Rightarrow> ion option" where
  "ion_system_contig_heap_free env b s =
     (case sg_table (buffer_at s b) of Some ((p, _) # _) \<Rightarrow> Some (give_page p (free_frames p [0..<nr_frames (ib_size (buffer_at s b))] s))
      | _ \<Rightarrow> None)"

definition kmalloc_ops :: ion_heap_ops where
  "kmalloc_ops = \<lparr>op_allocate = ion_system_contig_heap_allocate, op_free = ion_system_contig_heap_free, op_map_kernel = Some ion_heap_map_kernel,
     op_map_user = Some ion_heap_map_user, op_shrink = None\<rparr>"

definition ION_HEAP_TYPE_SYSTEM_CONTIG :: u32 where "ION_HEAP_TYPE_SYSTEM_CONTIG = 1"
definition ION_HEAP_TYPE_DMA :: u32 where "ION_HEAP_TYPE_DMA = 4"

text \<open>A heap that is created without flags and pools.\<close>

definition plain_heap :: "u32 \<Rightarrow> u8 list \<Rightarrow> ion_heap" where
  "plain_heap ty nm = \<lparr>heap_flags = 0, h_id = 0, h_type = ty, h_name = nm, free_list = [], free_list_size = 0, num_of_buffers = 0,
     num_of_alloc_bytes = 0, alloc_bytes_wm = 0, sys_pools = []\<rparr>"

definition ion_system_contig_heap_create :: "ptr option \<Rightarrow> ion \<Rightarrow> unit result \<times> ion" where
  "ion_system_contig_heap_create nh s =
     (case nh of None \<Rightarrow> (Inl ENOMEM, s)
      | Some h \<Rightarrow> (Inr (), ion_device_add_heap h (upd_heap h (\<lambda>_. plain_heap ION_HEAP_TYPE_SYSTEM_CONTIG (map of_char ''ion_system_contig_heap'')) s)))"

section \<open>The CMA heap\<close>

definition take_region :: "ptr \<Rightarrow> ion \<Rightarrow> ion" where
  "take_region p s = s\<lparr>in_use := p # in_use s\<rparr>"

text \<open>Frames in high memory are cleared one by one, others all at once.\<close>

definition cma_clear :: "ptr \<Rightarrow> nat \<Rightarrow> ion \<Rightarrow> ion" where
  "cma_clear p n s =
     (if page_high s p then fold clear_frame (map (Pair p) [0..<n]) s
      else s\<lparr>frames := (frames s)(p := (\<lambda>i. if i < n then (\<lambda>_. 0) else frames s p i))\<rparr>)"

definition ion_cma_allocate :: "ion_env \<Rightarrow> ptr \<Rightarrow> ptr \<Rightarrow> u64 \<Rightarrow> ion \<Rightarrow> (unit result \<times> ion) option" where
  "ion_cma_allocate env h b len s =
     Some (let size = PAGE_ALIGN len; align = min (get_order size) (cma_alignment env) in
       case cma_region env (nr_frames len) align s of None \<Rightarrow> (Inl ENOMEM, s)
       | Some p \<Rightarrow>
           (let s1 = cma_clear p (nr_frames len) (take_region p s) in
            if table_ok env s1 \<and> sg_ok env s1
            then (Inr (), upd_buffer b (\<lambda>bf. bf\<lparr>sg_table := Some [(p, size)], priv_virt := Some p\<rparr>) s1)
            else (Inl ENOMEM, give_page p s1)))"

definition ion_cma_free :: "ion_env \<Rightarrow> ptr \<Rightarrow> ion \<Rightarrow> ion option" where
  "ion_cma_free env b s =
     (case priv_virt (buffer_at s b) of None \<Rightarrow> None
      | Some p \<Rightarrow> if sg_table (buffer_at s b) = None then None else Some (give_page p s))"

definition ion_cma_ops :: ion_heap_ops where
  "ion_cma_ops = \<lparr>op_allocate = ion_cma_allocate, op_free = ion_cma_free, op_map_kernel = Some ion_heap_map_kernel,
     op_map_user = Some ion_heap_map_user, op_shrink = None\<rparr>"

text \<open>One heap for every area, with its name; the first area without memory for its heap ends the walk.\<close>

fun ion_add_cma_heaps :: "(ptr option \<times> u8 list) list \<Rightarrow> ion \<Rightarrow> ion" where
  "ion_add_cma_heaps [] s = s"
| "ion_add_cma_heaps ((nh, nm) # areas) s =
     (case nh of None \<Rightarrow> s
      | Some h \<Rightarrow> ion_add_cma_heaps areas (ion_device_add_heap h (upd_heap h (\<lambda>_. plain_heap ION_HEAP_TYPE_DMA nm) s)))"

section \<open>Both keep the contract of a heap\<close>

text \<open>Every buffer is one run of frames in use, and no two share a run; the CMA heap remembers it twice.\<close>

definition run_of :: "ion \<Rightarrow> ptr \<Rightarrow> ptr" where
  "run_of s b = (case sg_table (ion_buffers s b) of Some ((p, _) # _) \<Rightarrow> p | _ \<Rightarrow> 0)"

definition run_ok :: "bool \<Rightarrow> ptr \<Rightarrow> ion \<Rightarrow> ptr \<Rightarrow> bool" where
  "run_ok virt h s b \<longleftrightarrow> ib_heap (ion_buffers s b) = h \<and> sg_table (ion_buffers s b) = Some [(run_of s b, PAGE_ALIGN (ib_size (ion_buffers s b)))] \<and>
     (virt \<longrightarrow> priv_virt (ion_buffers s b) = Some (run_of s b)) \<and> run_of s b \<in> set (in_use s)"

definition runs_ok :: "bool \<Rightarrow> ptr \<Rightarrow> ptr list \<Rightarrow> ion \<Rightarrow> bool" where
  "runs_ok virt h L s \<longleftrightarrow> distinct L \<and> distinct (map (run_of s) L) \<and> (\<forall>b \<in> set L. run_ok virt h s b)"

lemma runs_ok_cong:
  assumes "\<forall>b \<in> set L. sg_table (ion_buffers s' b) = sg_table (ion_buffers s b) \<and> ib_heap (ion_buffers s' b) = ib_heap (ion_buffers s b) \<and>
      ib_size (ion_buffers s' b) = ib_size (ion_buffers s b) \<and> priv_virt (ion_buffers s' b) = priv_virt (ion_buffers s b)"
    and "\<forall>b \<in> set L. run_of s b \<in> set (in_use s) \<longrightarrow> run_of s b \<in> set (in_use s')" "runs_ok virt h L s"
  shows "runs_ok virt h L s'"
proof -
  have r: "run_of s' b = run_of s b" if "b \<in> set L" for b using assms(1) that by (simp add: run_of_def)
  then have "map (run_of s') L = map (run_of s) L" by simp
  then have "distinct (map (run_of s') L)" using assms(3) by (simp only: runs_ok_def)
  moreover have "run_ok virt h s' b" if "b \<in> set L" for b using assms r [OF that] that by (auto simp: runs_ok_def run_ok_def)
  ultimately show ?thesis using assms(3) by (simp add: runs_ok_def)
qed

lemma runs_ok_new:
  assumes ok: "runs_ok virt h L s" and b: "b \<notin> set L" and p: "p \<notin> set (in_use s)" "p \<in> set (in_use s')" "set (in_use s) \<subseteq> set (in_use s')"
    and hb: "ib_heap (ion_buffers s b) = h" "ib_size (ion_buffers s b) = len"
    and s': "ion_buffers s' = (ion_buffers s)(b := (ion_buffers s b)\<lparr>sg_table := Some [(p, PAGE_ALIGN len)], priv_virt := pv\<rparr>)" "virt \<longrightarrow> pv = Some p"
  shows "runs_ok virt h (b # L) s'"
proof -
  have L: "runs_ok virt h L s'" by (rule runs_ok_cong [OF _ _ ok]) (use b s' p(3) in auto)
  have rb: "run_of s' b = p" using s' by (simp add: run_of_def)
  have np: "run_of s' x \<noteq> p" if "x \<in> set L" for x
  proof -
    have "run_of s' x = run_of s x" using s' b that by (auto simp: run_of_def)
    then show ?thesis using ok that p(1) by (auto simp: runs_ok_def run_ok_def)
  qed
  have "p \<notin> run_of s' ` set L" using np by blast
  moreover have "run_ok virt h s' b" using hb s' p(2) rb by (simp add: run_ok_def)
  ultimately show ?thesis using L b rb by (simp add: runs_ok_def)
qed

lemma runs_ok_free:
  assumes ok: "runs_ok virt h L s" and b: "b \<in> set L" and s': "ion_buffers s' = ion_buffers s" "in_use s' = list_del (run_of s b) (in_use s)"
  shows "runs_ok virt h (remove1 b L) s'"
proof -
  have d: "distinct L" "distinct (map (run_of s) L)" using ok by (simp_all add: runs_ok_def)
  have "run_of s x \<noteq> run_of s b" if "x \<in> set (remove1 b L)" for x
    using that d b by (auto simp: inj_on_def distinct_map)
  moreover have "runs_ok virt h (remove1 b L) s" using ok d by (auto simp: runs_ok_def distinct_map intro: inj_on_subset)
  ultimately show ?thesis using s' by (intro runs_ok_cong [where s = s and s' = s']) (auto simp: list_del_def in_set_remove1)
qed

lemma mem_run: "runs_ok virt h L s \<Longrightarrow> x \<in> set L \<Longrightarrow> buffer_pages s x = [run_of s x] \<and> run_of s x \<in> set (in_use s)"
  by (simp add: runs_ok_def run_ok_def buffer_pages_def)

text \<open>A change that touches the frames of runs not in use only, and at most buffer \<open>b\<close>.\<close>

lemma only_buffer_run:
  assumes ok: "runs_ok virt h L s" and hs: "ion_heaps s' = ion_heaps s"
    and bs: "\<exists>sg pv. ion_buffers s' = (ion_buffers s)(b := (ion_buffers s b)\<lparr>sg_table := sg, priv_virt := pv\<rparr>)"
    and fr: "\<forall>x \<in> set (in_use s). frames s' x = frames s x \<and> compound_order s' x = compound_order s x"
  shows "only_buffer h b L s s'"
proof -
  have "frames s' p = frames s p \<and> compound_order s' p = compound_order s p" if "x \<in> set L" "p \<in> set (buffer_pages s x)" for x p
    using mem_run [OF ok that(1)] that(2) fr by simp
  then show ?thesis using hs bs by (simp add: only_buffer_def heap_core_def)
qed

lemma only_buffer_same:
  assumes "runs_ok virt h L s" "ion_heaps s' = ion_heaps s" "ion_buffers s' = ion_buffers s"
    and "\<forall>x \<in> set (in_use s). frames s' x = frames s x \<and> compound_order s' x = compound_order s x"
  shows "only_buffer h b L s s'"
proof (rule only_buffer_run [OF assms(1,2) _ assms(4)])
  have "ion_buffers s' = (ion_buffers s)(b := (ion_buffers s b)\<lparr>sg_table := sg_table (ion_buffers s b), priv_virt := priv_virt (ion_buffers s b)\<rparr>)"
    using assms(3) by simp
  then show "\<exists>sg pv. ion_buffers s' = (ion_buffers s)(b := (ion_buffers s b)\<lparr>sg_table := sg, priv_virt := pv\<rparr>)" by blast
qed

lemma filled_run:
  assumes "sg_table (ion_buffers s b) = Some [(p, PAGE_ALIGN len)]" "\<forall>i < nr_frames len. \<forall>j. frames s p i j = 0"
  shows "filled True s b len"
proof -
  have "PAGE_ALIGN (PAGE_ALIGN len) = PAGE_ALIGN len" using page_align_idem .
  then show ?thesis using assms by (auto simp: filled_def sg_frames_def nr_frames_def)
qed

lemma run_laws:
  "runs_ok virt h L s \<Longrightarrow> (\<And>hp. sys_pools (g hp) = sys_pools hp) \<Longrightarrow> runs_ok virt h L (upd_heap h g s)"
  "runs_ok virt h L s \<Longrightarrow> (\<And>bf. sg_table (k bf) = sg_table bf \<and> ib_heap (k bf) = ib_heap bf \<and> ib_size (k bf) = ib_size bf \<and> priv_virt (k bf) = priv_virt bf) \<Longrightarrow>
    runs_ok virt h L (upd_buffer b k s)"
  "runs_ok virt h L s \<Longrightarrow> b \<notin> set L \<Longrightarrow> runs_ok virt h L (upd_buffer b k s)"
  "runs_ok virt h L s \<Longrightarrow> runs_ok virt h L (s\<lparr>frames := F\<rparr>)"
  by (auto simp: upd_heap_def upd_buffer_def elim!: runs_ok_cong [rotated 2])

lemma runs_buffers: "runs_ok virt h L s \<Longrightarrow> distinct L \<and> (\<forall>b \<in> set L. ib_heap (ion_buffers s b) = h \<and> sg_table (ion_buffers s b) \<noteq> None)"
  by (auto simp: runs_ok_def run_ok_def)

subsection \<open>The contiguous heap\<close>

lemma contig_allocate:
  assumes ok: "runs_ok False h L s" and f: "fresh_pages env" and b: "b \<notin> set L" "ib_heap (ion_buffers s b) = h" "ib_size (ion_buffers s b) = len"
  shows "\<exists>r s'. ion_system_contig_heap_allocate env h b len s = Some (r, s') \<and> only_buffer h b L s s' \<and>
    (case r of Inl e \<Rightarrow> runs_ok False h L s' | Inr _ \<Rightarrow> runs_ok False h (b # L) s' \<and> filled True s' b len)"
proof (cases "kernel_page env (get_order len) s")
  case None
  then show ?thesis using ok only_buffer_same [OF ok refl refl] by (auto simp: ion_system_contig_heap_allocate_def Let_def)
next
  case (Some p)
  then have p: "p \<notin> set (in_use s)" using f by (simp add: fresh_pages_def)
  let ?s1 = "free_frames p [nr_frames len..<2 ^ get_order len] (take_page p (get_order len) s)"
  show ?thesis
  proof (cases "table_ok env ?s1 \<and> sg_ok env ?s1")
    case True
    let ?s = "upd_buffer b (\<lambda>bf. bf\<lparr>sg_table := Some [(p, PAGE_ALIGN len)]\<rparr>) ?s1"
    have bs: "ion_buffers ?s = (ion_buffers s)(b := (ion_buffers s b)\<lparr>sg_table := Some [(p, PAGE_ALIGN len)], priv_virt := priv_virt (ion_buffers s b)\<rparr>)"
      by (simp add: upd_buffer_def free_frames_def take_page_def)
    have "runs_ok False h (b # L) ?s"
      by (rule runs_ok_new [OF ok b(1) p _ _ b(2,3) bs]) (auto simp: upd_buffer_def free_frames_def take_page_def)
    moreover have "filled True ?s b len" by (rule filled_run [where p = p]) (simp_all add: upd_buffer_def free_frames_def take_page_def)
    moreover have "only_buffer h b L s ?s"
    proof (rule only_buffer_run [OF ok])
      show "\<exists>sg pv. ion_buffers ?s = (ion_buffers s)(b := (ion_buffers s b)\<lparr>sg_table := sg, priv_virt := pv\<rparr>)" using bs by blast
    qed (use p in \<open>auto simp: upd_buffer_def free_frames_def take_page_def\<close>)
    ultimately show ?thesis using Some True by (simp add: ion_system_contig_heap_allocate_def Let_def)
  next
    case False
    let ?s = "give_page p (free_frames p [0..<nr_frames len] ?s1)"
    have e: "ion_buffers ?s = ion_buffers s" "in_use ?s = in_use s" by (simp_all add: give_page_def free_frames_def take_page_def list_del_def)
    have "runs_ok False h L ?s" by (rule runs_ok_cong [OF _ _ ok]) (use e in auto)
    moreover have "only_buffer h b L s ?s"
      by (rule only_buffer_same [OF ok]) (use p e in \<open>auto simp: give_page_def free_frames_def take_page_def\<close>)
    ultimately show ?thesis using Some False by (auto simp: ion_system_contig_heap_allocate_def Let_def)
  qed
qed

lemma contig_free:
  assumes ok: "runs_ok False h L s" and b: "b \<in> set L"
  shows "\<exists>s'. ion_system_contig_heap_free env b s = Some s' \<and> runs_ok False h (remove1 b L) s' \<and> only_buffer h b L s s'"
proof -
  let ?s = "give_page (run_of s b) (free_frames (run_of s b) [0..<nr_frames (ib_size (buffer_at s b))] s)"
  have sg: "sg_table (ion_buffers s b) = Some [(run_of s b, PAGE_ALIGN (ib_size (ion_buffers s b)))]" using ok b by (auto simp: runs_ok_def run_ok_def)
  have "runs_ok False h (remove1 b L) ?s" by (rule runs_ok_free [OF ok b]) (simp_all add: give_page_def free_frames_def)
  moreover have "only_buffer h b L s ?s" by (rule only_buffer_same [OF ok]) (simp_all add: give_page_def free_frames_def)
  ultimately show ?thesis using sg by (simp add: ion_system_contig_heap_free_def buffer_at_def)
qed

interpretation contig: ion_heap_contract kmalloc_ops True fresh_pages "runs_ok False"
proof unfold_locales
  show "\<exists>r s'. op_allocate kmalloc_ops env h b len s = Some (r, s') \<and> only_buffer h b L s s' \<and>
      (case r of Inl e \<Rightarrow> runs_ok False h L s' | Inr _ \<Rightarrow> runs_ok False h (b # L) s' \<and> filled True s' b len)"
    if "runs_ok False h L s" "fresh_pages env" "b \<notin> set L" "ib_heap (ion_buffers s b) = h" "ib_size (ion_buffers s b) = len" for h L s env b len
    using contig_allocate [OF that] by (simp add: kmalloc_ops_def)
  show "\<exists>s'. op_free kmalloc_ops env b s = Some s' \<and> runs_ok False h (remove1 b L) s' \<and> only_buffer h b L s s'"
    if "runs_ok False h L s" "fresh_pages env" "b \<in> set L" for h L s env b
    using contig_free [OF that(1,3)] by (simp add: kmalloc_ops_def)
qed (simp_all add: kmalloc_ops_def run_laws runs_buffers)

subsection \<open>The CMA heap\<close>

definition fresh_regions :: "ion_env \<Rightarrow> bool" where
  "fresh_regions env \<longleftrightarrow> (\<forall>n a s p. cma_region env n a s = Some p \<longrightarrow> p \<notin> set (in_use s))"

lemma cma_clear_eq: "cma_clear p n s = s\<lparr>frames := (frames s)(p := (\<lambda>i. if i < n then (\<lambda>_. 0) else frames s p i))\<rparr>"
  by (auto simp: cma_clear_def fold_clear fun_eq_iff intro!: ion.equality)

lemma cma_allocate:
  assumes ok: "runs_ok True h L s" and f: "fresh_regions env" and b: "b \<notin> set L" "ib_heap (ion_buffers s b) = h" "ib_size (ion_buffers s b) = len"
  shows "\<exists>r s'. ion_cma_allocate env h b len s = Some (r, s') \<and> only_buffer h b L s s' \<and>
    (case r of Inl e \<Rightarrow> runs_ok True h L s' | Inr _ \<Rightarrow> runs_ok True h (b # L) s' \<and> filled True s' b len)"
proof (cases "cma_region env (nr_frames len) (min (get_order (PAGE_ALIGN len)) (cma_alignment env)) s")
  case None
  then show ?thesis using ok only_buffer_same [OF ok refl refl] by (auto simp: ion_cma_allocate_def Let_def)
next
  case (Some p)
  then have p: "p \<notin> set (in_use s)" using f by (simp add: fresh_regions_def)
  let ?s1 = "cma_clear p (nr_frames len) (take_region p s)"
  show ?thesis
  proof (cases "table_ok env ?s1 \<and> sg_ok env ?s1")
    case True
    let ?s = "upd_buffer b (\<lambda>bf. bf\<lparr>sg_table := Some [(p, PAGE_ALIGN len)], priv_virt := Some p\<rparr>) ?s1"
    have bs: "ion_buffers ?s = (ion_buffers s)(b := (ion_buffers s b)\<lparr>sg_table := Some [(p, PAGE_ALIGN len)], priv_virt := Some p\<rparr>)"
      by (simp add: upd_buffer_def cma_clear_eq take_region_def)
    have "runs_ok True h (b # L) ?s"
      by (rule runs_ok_new [OF ok b(1) p _ _ b(2,3) bs]) (auto simp: upd_buffer_def cma_clear_eq take_region_def)
    moreover have "filled True ?s b len" by (rule filled_run [where p = p]) (simp_all add: upd_buffer_def cma_clear_eq take_region_def)
    moreover have "only_buffer h b L s ?s"
      by (rule only_buffer_run [OF ok]) (use bs p in \<open>auto simp: upd_buffer_def cma_clear_eq take_region_def\<close>)
    ultimately show ?thesis using Some True by (simp add: ion_cma_allocate_def Let_def)
  next
    case False
    let ?s = "give_page p ?s1"
    have e: "ion_buffers ?s = ion_buffers s" "in_use ?s = in_use s" by (simp_all add: give_page_def cma_clear_eq take_region_def list_del_def)
    have "runs_ok True h L ?s" by (rule runs_ok_cong [OF _ _ ok]) (use e in auto)
    moreover have "only_buffer h b L s ?s"
      by (rule only_buffer_same [OF ok]) (use p e in \<open>auto simp: give_page_def cma_clear_eq take_region_def\<close>)
    ultimately show ?thesis using Some False by (auto simp: ion_cma_allocate_def Let_def)
  qed
qed

lemma cma_free:
  assumes ok: "runs_ok True h L s" and b: "b \<in> set L"
  shows "\<exists>s'. ion_cma_free env b s = Some s' \<and> runs_ok True h (remove1 b L) s' \<and> only_buffer h b L s s'"
proof -
  have rb: "priv_virt (ion_buffers s b) = Some (run_of s b)" "sg_table (ion_buffers s b) \<noteq> None" using ok b by (auto simp: runs_ok_def run_ok_def)
  have "runs_ok True h (remove1 b L) (give_page (run_of s b) s)" by (rule runs_ok_free [OF ok b]) (simp_all add: give_page_def)
  moreover have "only_buffer h b L s (give_page (run_of s b) s)" by (rule only_buffer_same [OF ok]) (simp_all add: give_page_def)
  ultimately show ?thesis using rb by (simp add: ion_cma_free_def buffer_at_def)
qed

interpretation cma: ion_heap_contract ion_cma_ops True fresh_regions "runs_ok True"
proof unfold_locales
  show "\<exists>r s'. op_allocate ion_cma_ops env h b len s = Some (r, s') \<and> only_buffer h b L s s' \<and>
      (case r of Inl e \<Rightarrow> runs_ok True h L s' | Inr _ \<Rightarrow> runs_ok True h (b # L) s' \<and> filled True s' b len)"
    if "runs_ok True h L s" "fresh_regions env" "b \<notin> set L" "ib_heap (ion_buffers s b) = h" "ib_size (ion_buffers s b) = len" for h L s env b len
    using cma_allocate [OF that] by (simp add: ion_cma_ops_def)
  show "\<exists>s'. op_free ion_cma_ops env b s = Some s' \<and> runs_ok True h (remove1 b L) s' \<and> only_buffer h b L s s'"
    if "runs_ok True h L s" "fresh_regions env" "b \<in> set L" for h L s env b
    using cma_free [OF that(1,3)] by (simp add: ion_cma_ops_def)
qed (simp_all add: ion_cma_ops_def run_laws runs_buffers)

section \<open>Consequences\<close>

text \<open>A new heap of either kind has no buffers.\<close>

lemma plain_heap_start: "runs_ok virt h [] s" "book_ok h [] (upd_heap h (\<lambda>_. plain_heap ty nm) s)"
  by (simp_all add: runs_ok_def book_ok_def upd_heap_def plain_heap_def)

text \<open>Rounding up to a power of two leaves room for the frames.\<close>

lemma fls_bound: "n < 2 ^ fls n"
proof (induction n rule: fls.induct)
  case (1 n)
  show ?case
  proof (cases "n = 0")
    case False
    then have "n div 2 < 2 ^ fls (n div 2)" using 1 by simp
    then have "n < 2 * 2 ^ fls (n div 2)" by linarith
    then show ?thesis using False by (simp add: fls.simps [of n])
  qed (simp add: fls.simps)
qed

lemma nr_frames_fit:
  assumes "len \<noteq> 0" "unat len + 4095 < 2 ^ 64"
  shows "nr_frames len \<le> 2 ^ get_order len"
proof -
  have u: "unat (len - 1) = unat len - 1" using assms(1) by (simp add: unat_minus_one)
  have "unat (ALIGN len (2 ^ 12)) = unat len + 4095 - (unat len + 4095) mod 2 ^ 12"
    using unat_ALIGN [of len 12] assms(2) by (simp add: mask_eq_exp_minus_1)
  then have "nr_frames len = (unat len + 4095) div 4096"
    by (simp add: nr_frames_def PAGE_ALIGN_def PAGE_SIZE_def minus_mod_eq_div_mult)
  moreover have "unat len \<noteq> 0" using assms(1) by (simp add: unat_eq_zero)
  then have "(unat len + 4095) div 4096 = Suc ((unat len - 1) div 4096)" by linarith
  ultimately show ?thesis using fls_bound [of "(unat len - 1) div 4096"] by (simp add: get_order_def u Suc_le_eq)
qed

text \<open>
  Over the life of a buffer of the contiguous heap every frame of the page it was split from goes back to the kernel exactly once: the
  surplus when it is allocated, the rest when it is freed or the allocation fails.
\<close>

theorem contig_frames_once:
  assumes k: "kernel_page env (get_order len) s = Some p" and len: "len \<noteq> 0" "unat len + 4095 < 2 ^ 64" and sz: "ib_size (ion_buffers s b) = len"
  shows "\<exists>r s'. ion_system_contig_heap_allocate env h b len s = Some (r, s') \<and>
    (case r of Inl _ \<Rightarrow> mset (freed_frames s') = mset (freed_frames s) + mset (map (Pair p) [0..<2 ^ get_order len])
     | Inr _ \<Rightarrow> \<exists>s''. ion_system_contig_heap_free env b s' = Some s'' \<and>
         mset (freed_frames s'') = mset (freed_frames s) + mset (map (Pair p) [0..<2 ^ get_order len]))"
proof -
  have sp: "[0..<2 ^ get_order len] = [0..<nr_frames len] @ [nr_frames len..<2 ^ get_order len]"
    using nr_frames_fit [OF len] by (metis le0 le_add_diff_inverse upt_add_eq_append)
  let ?s1 = "free_frames p [nr_frames len..<2 ^ get_order len] (take_page p (get_order len) s)"
  show ?thesis
  proof (cases "table_ok env ?s1 \<and> sg_ok env ?s1")
    case True
    then show ?thesis using k sz sp by (simp add: ion_system_contig_heap_allocate_def ion_system_contig_heap_free_def Let_def)
        (simp add: buffer_at_def upd_buffer_def free_frames_def take_page_def give_page_def)
  next
    case False
    then show ?thesis using k sp by (auto simp: ion_system_contig_heap_allocate_def Let_def)
        (auto simp: free_frames_def take_page_def give_page_def)
  qed
qed

end
