(* ===== verification/Binderfs.thy ===== *)
theory Binderfs
  imports Kernel_Bytes
begin

text \<open>
  The binderfs file system (\<open>binder/binderfs.c\<close>): super blocks with their mount options and the nodes in them, the minor
  numbers that all of them share, and the operations on them. The state lists the minor numbers in use; which one
  \<open>ida_alloc_max\<close> gives, and whether memory and names can be had, are answers of the kernel. Names are bytes without the
  terminating zero. Uids, gids and time stamps are left out.
\<close>

section \<open>Data\<close>

type_synonym name = "u8 list"

definition str :: "string \<Rightarrow> name" where "str cs = map of_char cs"

definition BINDERFS_MAX_MINOR :: nat where "BINDERFS_MAX_MINOR = 2 ^ 20"
definition BINDERFS_MAX_MINOR_CAPPED :: nat where "BINDERFS_MAX_MINOR_CAPPED = BINDERFS_MAX_MINOR - 4"
definition BINDERFS_MAX_NAME :: nat where "BINDERFS_MAX_NAME = 255"

datatype binderfs_stats_mode = STATS_NONE | STATS_GLOBAL

record binderfs_mount_opts =
  opt_max :: int
  stats_mode :: binderfs_stats_mode

text \<open>\<open>control_dentry\<close> and \<open>proc_log_dir\<close> hold paths.\<close>

record binderfs_info =
  init_ipc_ns :: bool
  control_dentry :: "name list option"
  mount_opts :: binderfs_mount_opts
  device_count :: int
  proc_log_dir :: "name list option"

text \<open>Device numbers of 32 bits: 12 for the major number and 20 for the minor number (\<open>linux/kdev_t.h\<close>).\<close>

definition MKDEV :: "u32 \<Rightarrow> u32 \<Rightarrow> u32" where "MKDEV ma mi = push_bit 20 ma OR mi"
definition MAJOR :: "u32 \<Rightarrow> u32" where "MAJOR dev = drop_bit 20 dev"
definition MINOR :: "u32 \<Rightarrow> u32" where "MINOR dev = dev AND 0xFFFFF"

text \<open>
  The inodes: devices with the number that \<open>ida_alloc_max\<close> gave (\<open>miscdev.minor\<close>), inode number and device number
  (\<open>i_rdev\<close>), the control device, directories and log files.
\<close>

datatype binderfs_inode =
    Device (minor_of: nat) (ino_of: nat) (rdev_of: u32)
  | Control (minor_of: nat) (rdev_of: u32)
  | Directory | Log_file

text \<open>\<open>orphans\<close> are inodes that have no name any more but are still open.\<close>

record super_block =
  sb_has_info :: bool
  sb_info :: binderfs_info
  dentries :: "(name list \<times> binderfs_inode) list"
  orphans :: "binderfs_inode list"

record binderfs =
  binderfs_dev :: u32
  minors :: "nat list"
  supers :: "ptr \<Rightarrow> super_block"
  chrdev_region :: bool
  fs_registered :: bool

record binderfs_env =
  e_ida :: "nat \<Rightarrow> nat list \<Rightarrow> nat result"
  e_device :: bool
  e_inode :: bool
  e_name :: bool
  e_dentry :: bool
  e_copy :: bool
  e_lookup :: "name list \<Rightarrow> errno option"

definition upd_super :: "ptr \<Rightarrow> (super_block \<Rightarrow> super_block) \<Rightarrow> binderfs \<Rightarrow> binderfs" where
  "upd_super sb f s = s\<lparr>supers := (supers s)(sb := f (supers s sb))\<rparr>"

definition upd_info :: "(binderfs_info \<Rightarrow> binderfs_info) \<Rightarrow> super_block \<Rightarrow> super_block" where
  "upd_info f b = b\<lparr>sb_info := f (sb_info b)\<rparr>"

definition add_count :: "int \<Rightarrow> binderfs_info \<Rightarrow> binderfs_info" where
  "add_count n i = i\<lparr>device_count := device_count i + n\<rparr>"

definition add_dentry :: "name list \<Rightarrow> binderfs_inode \<Rightarrow> super_block \<Rightarrow> super_block" where
  "add_dentry path nd b = b\<lparr>dentries := (path, nd) # dentries b\<rparr>"

definition ida_free :: "nat \<Rightarrow> binderfs \<Rightarrow> binderfs" where
  "ida_free m s = s\<lparr>minors := remove1 m (minors s)\<rparr>"

section \<open>Device nodes\<close>

text \<open>The device number of a node is made of the major number of binderfs and the number that was reserved for it.\<close>

definition dev_number :: "u32 \<Rightarrow> nat \<Rightarrow> u32" where
  "dev_number dev m = MKDEV (MAJOR dev) (word_of_nat m)"

definition INODE_OFFSET :: nat where "INODE_OFFSET = 3"

definition use_minors :: "binderfs_info \<Rightarrow> nat" where
  "use_minors i = (if init_ipc_ns i then BINDERFS_MAX_MINOR else BINDERFS_MAX_MINOR_CAPPED)"

definition reserve_minor :: "binderfs_env \<Rightarrow> binderfs_info \<Rightarrow> nat list \<Rightarrow> nat result" where
  "reserve_minor env i ids = (if device_count i + 1 \<le> opt_max (mount_opts i) then e_ida env (use_minors i) ids else Inl ENOSPC)"

text \<open>What can go wrong after the minor number is reserved, in the order of the code.\<close>

definition device_error :: "binderfs_env \<Rightarrow> bool \<Rightarrow> name \<Rightarrow> super_block \<Rightarrow> errno option" where
  "device_error env userp nm b =
     (if \<not> e_device env then Some ENOMEM
      else if \<not> e_inode env then Some ENOMEM
      else if \<not> e_name env then Some ENOMEM
      else if userp \<and> \<not> e_copy env then Some EFAULT
      else case e_lookup env [nm] of Some e \<Rightarrow> Some e
      | None \<Rightarrow> if map_of (dentries b) [nm] \<noteq> None then Some EEXIST else None)"

text \<open>\<open>userp\<close> tells whether the request comes from user space; the second component is the minor number written back to it.\<close>

definition binderfs_binder_device_create ::
    "binderfs_env \<Rightarrow> ptr \<Rightarrow> bool \<Rightarrow> name \<Rightarrow> binderfs \<Rightarrow> unit result \<times> nat option \<times> binderfs" where
  "binderfs_binder_device_create env sb userp req_name s =
     (let b = supers s sb; nm = takeWhile (\<lambda>c. c \<noteq> 0) (take BINDERFS_MAX_NAME req_name) in
      case reserve_minor env (sb_info b) (minors s) of
        Inl e \<Rightarrow> (Inl e, None, s)
      | Inr m \<Rightarrow>
          (let s1 = (upd_super sb (upd_info (add_count 1)) s)\<lparr>minors := m # minors s\<rparr>;
               told = (if userp \<and> e_device env \<and> e_inode env \<and> e_name env \<and> e_copy env then Some m else None)
           in case device_error env userp nm b of
                Some e \<Rightarrow> (Inl e, told, ida_free m (upd_super sb (upd_info (add_count (- 1))) s1))
              | None \<Rightarrow> (Inr (), told, upd_super sb (add_dentry [nm] (Device m (m + INODE_OFFSET) (dev_number (binderfs_dev s) m))) s1)))"

definition BINDER_CTL_ADD :: u32 where "BINDER_CTL_ADD = 0xC1086201"

text \<open>The request is 256 bytes of name, major and minor number.\<close>

definition binder_ctl_ioctl :: "binderfs_env \<Rightarrow> (u64 \<Rightarrow> u8 list) \<Rightarrow> ptr \<Rightarrow> u32 \<Rightarrow> u64 \<Rightarrow> binderfs \<Rightarrow> unit result \<times> nat option \<times> binderfs" where
  "binder_ctl_ioctl env user sb cmd arg s =
     (if cmd = BINDER_CTL_ADD then
        (case copy_from_user user arg 264 of None \<Rightarrow> (Inl EFAULT, None, s)
         | Some bs \<Rightarrow> binderfs_binder_device_create env sb True (take 256 bs) s)
      else (Inl EINVAL, None, s))"

fun binderfs_evict_inode :: "ptr \<Rightarrow> binderfs_inode \<Rightarrow> binderfs \<Rightarrow> binderfs" where
  "binderfs_evict_inode sb (Device m k rd) s = ida_free m (upd_super sb (upd_info (add_count (- 1))) s)"
| "binderfs_evict_inode sb (Control m rd) s = ida_free m (upd_super sb (upd_info (add_count (- 1))) s)"
| "binderfs_evict_inode sb Directory s = s"
| "binderfs_evict_inode sb Log_file s = s"

section \<open>Mount options\<close>

text \<open>
  What \<open>match_token\<close> and the functions that read its arguments make of one option: a number, if it is one, the argument of
  \<open>stats=\<close>, if it could be copied, or neither.
\<close>

datatype binderfs_token = Opt_max "int option" | Opt_stats_mode "name option" | Opt_err

definition comma :: u8 where "comma = 0x2C"

text \<open>\<open>strsep\<close>: the parts between the commas.\<close>

fun strsep :: "name \<Rightarrow> name \<Rightarrow> name list" where
  "strsep acc [] = [acc]"
| "strsep acc (c # cs) = (if c = comma then acc # strsep [] cs else strsep (acc @ [c]) cs)"

fun parse_opts :: "(name \<Rightarrow> binderfs_token) \<Rightarrow> bool \<Rightarrow> name list \<Rightarrow> binderfs_mount_opts \<Rightarrow> unit result \<times> binderfs_mount_opts" where
  "parse_opts tok admin [] opts = (Inr (), opts)"
| "parse_opts tok admin (p # ps) opts =
     (if p = [] then parse_opts tok admin ps opts
      else case tok p of
        Opt_max v \<Rightarrow>
          (case v of None \<Rightarrow> (Inl EINVAL, opts)
           | Some n \<Rightarrow>
               if n < 0 \<or> n > int BINDERFS_MAX_MINOR then (Inl EINVAL, opts)
               else parse_opts tok admin ps (opts\<lparr>opt_max := n\<rparr>))
      | Opt_stats_mode a \<Rightarrow>
          if \<not> admin then (Inl EINVAL, opts)
          else (case a of None \<Rightarrow> (Inl ENOMEM, opts)
            | Some v \<Rightarrow> if v \<noteq> str ''global'' then (Inl EINVAL, opts) else parse_opts tok admin ps (opts\<lparr>stats_mode := STATS_GLOBAL\<rparr>))
      | Opt_err \<Rightarrow> (Inl EINVAL, opts))"

definition binderfs_parse_mount_opts :: "(name \<Rightarrow> binderfs_token) \<Rightarrow> bool \<Rightarrow> name option \<Rightarrow> unit result \<times> binderfs_mount_opts" where
  "binderfs_parse_mount_opts tok admin data =
     parse_opts tok admin (case data of None \<Rightarrow> [] | Some d \<Rightarrow> strsep [] d) \<lparr>opt_max = int BINDERFS_MAX_MINOR, stats_mode = STATS_NONE\<rparr>"

definition binderfs_remount :: "(name \<Rightarrow> binderfs_token) \<Rightarrow> bool \<Rightarrow> ptr \<Rightarrow> name option \<Rightarrow> binderfs \<Rightarrow> unit result \<times> binderfs" where
  "binderfs_remount tok admin sb data s =
     (let prev_stats_mode = stats_mode (mount_opts (sb_info (supers s sb))) in
      case binderfs_parse_mount_opts tok admin data of
        (Inl e, opts) \<Rightarrow> (Inl e, upd_super sb (upd_info (\<lambda>i. i\<lparr>mount_opts := opts\<rparr>)) s)
      | (Inr _, opts) \<Rightarrow>
          if prev_stats_mode \<noteq> stats_mode opts
          then (Inl EINVAL, upd_super sb (upd_info (\<lambda>i. i\<lparr>mount_opts := opts\<lparr>stats_mode := prev_stats_mode\<rparr>\<rparr>)) s)
          else (Inr (), upd_super sb (upd_info (\<lambda>i. i\<lparr>mount_opts := opts\<rparr>)) s))"

text \<open>Decimal digits, as \<open>seq_printf\<close> prints a number.\<close>

fun digits :: "nat \<Rightarrow> name" where
  "digits n = (if n < 10 then [of_nat (48 + n)] else digits (n div 10) @ [of_nat (48 + n mod 10)])"

declare digits.simps [simp del]

definition print_int :: "int \<Rightarrow> name" where
  "print_int n = (if n < 0 then str ''-'' @ digits (nat (- n)) else digits (nat n))"

definition binderfs_show_mount_opts :: "binderfs_mount_opts \<Rightarrow> name" where
  "binderfs_show_mount_opts opts =
     (if opt_max opts \<le> int BINDERFS_MAX_MINOR then str '',max='' @ print_int (opt_max opts) else []) @
     (if stats_mode opts = STATS_GLOBAL then str '',stats=global'' else [])"

section \<open>Removing nodes\<close>

text \<open>\<open>simple_unlink\<close>: the name goes; the inode is evicted unless it is still \<open>held\<close> open.\<close>

definition simple_unlink :: "ptr \<Rightarrow> name list \<Rightarrow> bool \<Rightarrow> binderfs \<Rightarrow> binderfs" where
  "simple_unlink sb path held s =
     (case map_of (dentries (supers s sb)) path of None \<Rightarrow> s
      | Some nd \<Rightarrow>
          (let s1 = upd_super sb (\<lambda>b. b\<lparr>dentries := filter (\<lambda>d. fst d \<noteq> path) (dentries b)\<rparr>) s
           in if held then upd_super sb (\<lambda>b. b\<lparr>orphans := nd # orphans b\<rparr>) s1 else binderfs_evict_inode sb nd s1))"

definition is_binderfs_control_device :: "ptr \<Rightarrow> name list \<Rightarrow> binderfs \<Rightarrow> bool" where
  "is_binderfs_control_device sb path s \<longleftrightarrow> control_dentry (sb_info (supers s sb)) = Some path"

definition binderfs_unlink :: "ptr \<Rightarrow> name list \<Rightarrow> bool \<Rightarrow> binderfs \<Rightarrow> unit result \<times> binderfs" where
  "binderfs_unlink sb path held s =
     (if is_binderfs_control_device sb path s then (Inl EPERM, s) else (Inr (), simple_unlink sb path held s))"

text \<open>The last user of an inode without a name closes it.\<close>

definition drop_orphan :: "ptr \<Rightarrow> binderfs_inode \<Rightarrow> binderfs \<Rightarrow> binderfs" where
  "drop_orphan sb nd s =
     (if nd \<in> set (orphans (supers s sb)) then binderfs_evict_inode sb nd (upd_super sb (\<lambda>b. b\<lparr>orphans := remove1 nd (orphans b)\<rparr>) s) else s)"

definition binderfs_remove_file :: "ptr \<Rightarrow> name list \<Rightarrow> bool \<Rightarrow> binderfs \<Rightarrow> binderfs" where
  "binderfs_remove_file sb path held s =
     (if map_of (dentries (supers s sb)) path \<noteq> None then simple_unlink sb path held s else s)"

section \<open>The control device and the log directory\<close>

definition binderfs_binder_ctl_create :: "binderfs_env \<Rightarrow> ptr \<Rightarrow> binderfs \<Rightarrow> unit result \<times> binderfs" where
  "binderfs_binder_ctl_create env sb s =
     (let i = sb_info (supers s sb) in
      if \<not> e_device env then (Inl ENOMEM, s)
      else if control_dentry i \<noteq> None then (Inr (), s)
      else if \<not> e_inode env then (Inl ENOMEM, s)
      else case e_ida env (use_minors i) (minors s) of
        Inl e \<Rightarrow> (Inl e, s)
      | Inr m \<Rightarrow>
          (let s1 = s\<lparr>minors := m # minors s\<rparr>; path = [str ''binder-control''] in
           if \<not> e_dentry env then (Inl ENOMEM, s1)
           else (Inr (), upd_super sb (\<lambda>b. add_dentry path (Control m (dev_number (binderfs_dev s) m)) (upd_info (\<lambda>i. i\<lparr>control_dentry := Some path\<rparr>) b)) s1)))"

definition binderfs_create_dentry :: "binderfs_env \<Rightarrow> ptr \<Rightarrow> name list \<Rightarrow> binderfs \<Rightarrow> unit result" where
  "binderfs_create_dentry env sb path s =
     (case e_lookup env path of Some e \<Rightarrow> Inl e
      | None \<Rightarrow> if map_of (dentries (supers s sb)) path \<noteq> None then Inl EEXIST else Inr ())"

text \<open>Files and directories are created the same way but for the kind of the inode.\<close>

definition create_node :: "binderfs_env \<Rightarrow> ptr \<Rightarrow> name list \<Rightarrow> binderfs_inode \<Rightarrow> binderfs \<Rightarrow> name list result \<times> binderfs" where
  "create_node env sb path nd s =
     (case binderfs_create_dentry env sb path s of Inl e \<Rightarrow> (Inl e, s)
      | Inr _ \<Rightarrow> if \<not> e_inode env then (Inl ENOMEM, s) else (Inr path, upd_super sb (add_dentry path nd) s))"

definition binderfs_create_file :: "binderfs_env \<Rightarrow> ptr \<Rightarrow> name list \<Rightarrow> name \<Rightarrow> binderfs \<Rightarrow> name list result \<times> binderfs" where
  "binderfs_create_file env sb parent nm s = create_node env sb (parent @ [nm]) Log_file s"

definition binderfs_create_dir :: "binderfs_env \<Rightarrow> ptr \<Rightarrow> name list \<Rightarrow> name \<Rightarrow> binderfs \<Rightarrow> name list result \<times> binderfs" where
  "binderfs_create_dir env sb parent nm s = create_node env sb (parent @ [nm]) Directory s"

fun create_files :: "(nat \<Rightarrow> binderfs_env) \<Rightarrow> nat \<Rightarrow> ptr \<Rightarrow> name list \<Rightarrow> name list \<Rightarrow> binderfs \<Rightarrow> unit result \<times> binderfs" where
  "create_files envs k sb parent [] s = (Inr (), s)"
| "create_files envs k sb parent (nm # nms) s =
     (case binderfs_create_file (envs k) sb parent nm s of (Inl e, s1) \<Rightarrow> (Inl e, s1)
      | (Inr _, s1) \<Rightarrow> create_files envs (Suc k) sb parent nms s1)"

text \<open>\<open>envs\<close> gives the answers of the kernel to one call after the other.\<close>

definition init_binder_logs :: "(nat \<Rightarrow> binderfs_env) \<Rightarrow> ptr \<Rightarrow> binderfs \<Rightarrow> unit result \<times> binderfs" where
  "init_binder_logs envs sb s =
     (case binderfs_create_dir (envs 0) sb [] (str ''binder_logs'') s of (Inl e, s1) \<Rightarrow> (Inl e, s1)
      | (Inr root, s1) \<Rightarrow>
          (case create_files envs 1 sb root (map str [''stats'', ''state'', ''transactions'', ''transaction_log'', ''failed_transaction_log'']) s1 of
             (Inl e, s2) \<Rightarrow> (Inl e, s2)
           | (Inr _, s2) \<Rightarrow>
               (case binderfs_create_dir (envs 6) sb root (str ''proc'') s2 of (Inl e, s3) \<Rightarrow> (Inl e, s3)
                | (Inr dir, s3) \<Rightarrow> (Inr (), upd_super sb (upd_info (\<lambda>i. i\<lparr>proc_log_dir := Some dir\<rparr>)) s3))))"

section \<open>Mounting and unmounting\<close>

text \<open>The device names of the module parameter, up to the first empty one.\<close>

lemma drop_name_less: "takeWhile P p \<noteq> [] \<Longrightarrow> length p - length (takeWhile P p) < length p"
  by (cases p) auto

function device_names :: "name \<Rightarrow> name list" where
  "device_names p =
     (let len = length (takeWhile (\<lambda>c. c \<noteq> comma) p); r = drop len p in
      if len = 0 then [] else take len p # device_names (if r \<noteq> [] \<and> hd r = comma then tl r else r))"
  by pat_completeness auto
termination by (relation "measure length") (auto dest: drop_name_less)

declare device_names.simps [simp del]

text \<open>The names are copied into a buffer of 256 bytes; \<open>None\<close> is a write behind its end.\<close>

fun create_devices :: "(nat \<Rightarrow> binderfs_env) \<Rightarrow> nat \<Rightarrow> ptr \<Rightarrow> name list \<Rightarrow> binderfs \<Rightarrow> (unit result \<times> binderfs) option" where
  "create_devices envs k sb [] s = Some (Inr (), s)"
| "create_devices envs k sb (nm # nms) s =
     (if length nm + 1 > BINDERFS_MAX_NAME + 1 then None
      else case binderfs_binder_device_create (envs k) sb False nm s of
        (Inl e, _, s1) \<Rightarrow> Some (Inl e, s1)
      | (Inr _, _, s1) \<Rightarrow> create_devices envs (Suc k) sb nms s1)"

definition new_info :: "bool \<Rightarrow> binderfs_mount_opts \<Rightarrow> binderfs_info" where
  "new_info init_ns opts = \<lparr>init_ipc_ns = init_ns, control_dentry = None, mount_opts = opts, device_count = 0, proc_log_dir = None\<rparr>"

text \<open>
  \<open>info_ok\<close>, \<open>root_inode\<close> and \<open>root_dentry\<close> tell whether the memory for them could be had; \<open>envs 0\<close> answers the control
  device, the following ones the devices, \<open>lenvs\<close> the log files.
\<close>

record binderfs_mount =
  info_ok :: bool
  in_init_ns :: bool
  mount_admin :: bool
  mount_data :: "name option"
  root_inode :: bool
  root_dentry :: bool

definition binderfs_fill_super ::
    "(name \<Rightarrow> binderfs_token) \<Rightarrow> binderfs_mount \<Rightarrow> (nat \<Rightarrow> binderfs_env) \<Rightarrow> (nat \<Rightarrow> binderfs_env) \<Rightarrow> name \<Rightarrow> ptr \<Rightarrow> binderfs \<Rightarrow>
     (unit result \<times> binderfs) option" where
  "binderfs_fill_super tok mt envs lenvs devices sb s =
     (if \<not> info_ok mt then Some (Inl ENOMEM, upd_super sb (\<lambda>_. \<lparr>sb_has_info = False, sb_info = sb_info (supers s sb), dentries = [], orphans = []\<rparr>) s)
      else (let (r, opts) = binderfs_parse_mount_opts tok (mount_admin mt) (mount_data mt);
                s1 = upd_super sb (\<lambda>_. \<lparr>sb_has_info = True, sb_info = new_info (in_init_ns mt) opts, dentries = [], orphans = []\<rparr>) s
            in case r of Inl e \<Rightarrow> Some (Inl e, s1)
               | Inr _ \<Rightarrow>
                   if \<not> root_inode mt then Some (Inl ENOMEM, s1)
                   else if \<not> root_dentry mt then Some (Inl ENOMEM, s1)
                   else case binderfs_binder_ctl_create (envs 0) sb s1 of
                     (Inl e, s2) \<Rightarrow> Some (Inl e, s2)
                   | (Inr _, s2) \<Rightarrow>
                       (case create_devices envs 1 sb (device_names devices) s2 of None \<Rightarrow> None
                        | Some (Inl e, s3) \<Rightarrow> Some (Inl e, s3)
                        | Some (Inr _, s3) \<Rightarrow>
                            Some (if stats_mode opts = STATS_GLOBAL then init_binder_logs lenvs sb s3 else (Inr (), s3)))))"

text \<open>\<open>kill_litter_super\<close> evicts all inodes, the ones without a name are gone before.\<close>

definition binderfs_kill_super :: "ptr \<Rightarrow> binderfs \<Rightarrow> binderfs" where
  "binderfs_kill_super sb s =
     upd_super sb (\<lambda>b. b\<lparr>sb_has_info := False, dentries := []\<rparr>) (fold (\<lambda>d. binderfs_evict_inode sb (snd d)) (dentries (supers s sb)) s)"

text \<open>\<open>mount_nodev\<close> takes the super block down again when it cannot be filled.\<close>

definition binderfs_mount_nodev ::
    "(name \<Rightarrow> binderfs_token) \<Rightarrow> binderfs_mount \<Rightarrow> (nat \<Rightarrow> binderfs_env) \<Rightarrow> (nat \<Rightarrow> binderfs_env) \<Rightarrow> name \<Rightarrow> ptr \<Rightarrow> binderfs \<Rightarrow>
     (unit result \<times> binderfs) option" where
  "binderfs_mount_nodev tok mt envs lenvs devices sb s =
     (case binderfs_fill_super tok mt envs lenvs devices sb s of None \<Rightarrow> None
      | Some (Inl e, s1) \<Rightarrow> Some (Inl e, binderfs_kill_super sb s1)
      | Some (Inr _, s1) \<Rightarrow> Some (Inr (), s1))"

section \<open>The module\<close>

text \<open>\<open>region\<close> is what \<open>alloc_chrdev_region\<close> gives: the first device number of the region, or an error.\<close>

definition init_binderfs :: "name \<Rightarrow> u32 result \<Rightarrow> errno option \<Rightarrow> binderfs \<Rightarrow> unit result \<times> binderfs" where
  "init_binderfs devices region register_err s =
     (if \<exists>nm \<in> set (device_names devices). length nm > BINDERFS_MAX_NAME then (Inl E2BIG, s)
      else case region of Inl e \<Rightarrow> (Inl e, s)
      | Inr dev \<Rightarrow>
          (let s1 = s\<lparr>binderfs_dev := dev, chrdev_region := True\<rparr> in
           case register_err of Some e \<Rightarrow> (Inl e, s1\<lparr>chrdev_region := False\<rparr>) | None \<Rightarrow> (Inr (), s1\<lparr>fs_registered := True\<rparr>)))"

definition binderfs_exit :: "binderfs \<Rightarrow> binderfs" where
  "binderfs_exit s = s\<lparr>fs_registered := False, chrdev_region := False\<rparr>"

end
