(* ===== verification/Binderfs_Inv.thy ===== *)
theory Binderfs_Inv
  imports Binderfs "HOL-Library.Multiset"
begin

text \<open>
  The invariant of binderfs over all mounts: every minor number in use belongs to one node of one mount (or was leaked when a
  control device could not be created), and the counters of the mounts are exact.
\<close>

section \<open>Nodes and their minor numbers\<close>

fun has_minor :: "binderfs_inode \<Rightarrow> bool" where
  "has_minor (Device _ _ _) = True" | "has_minor (Control _ _) = True" | "has_minor Directory = False" | "has_minor Log_file = False"

fun is_ctl :: "binderfs_inode \<Rightarrow> bool" where
  "is_ctl (Control _ _) = True" | "is_ctl (Device _ _ _) = False" | "is_ctl Directory = False" | "is_ctl Log_file = False"

definition nodes :: "super_block \<Rightarrow> binderfs_inode list" where
  "nodes b = map snd (dentries b) @ orphans b"

definition minors_of :: "binderfs_inode list \<Rightarrow> nat list" where
  "minors_of ns = map minor_of (filter has_minor ns)"

lemma minors_of_simps [simp]: "minors_of [] = []" "minors_of (n # ns) = (if has_minor n then [minor_of n] else []) @ minors_of ns"
  "minors_of (xs @ ys) = minors_of xs @ minors_of ys"
  by (simp_all add: minors_of_def)

definition dev_count :: "binderfs_inode list \<Rightarrow> nat" where
  "dev_count ns = length (filter (\<lambda>n. has_minor n \<and> \<not> is_ctl n) ns)"

lemma dev_count_simps [simp]: "dev_count [] = 0" "dev_count (n # ns) = (if has_minor n \<and> \<not> is_ctl n then 1 else 0) + dev_count ns"
  "dev_count (xs @ ys) = dev_count xs + dev_count ys"
  by (simp_all add: dev_count_def)

text \<open>Every device node has the device number made of the major number of binderfs and its own number.\<close>

definition rdev_ok :: "u32 \<Rightarrow> binderfs_inode \<Rightarrow> bool" where
  "rdev_ok dev n \<longleftrightarrow> has_minor n \<longrightarrow> rdev_of n = dev_number dev (minor_of n)"

definition super_ok :: "u32 \<Rightarrow> super_block \<Rightarrow> bool" where
  "super_ok dev b \<longleftrightarrow> (\<forall>n \<in> set (nodes b). rdev_ok dev n) \<and> sb_has_info b \<and> distinct (map fst (dentries b)) \<and> device_count (sb_info b) = int (dev_count (nodes b)) \<and>
     (\<forall>(p, n) \<in> set (dentries b). is_ctl n \<longrightarrow> control_dentry (sb_info b) = Some p) \<and> (\<forall>n \<in> set (orphans b). \<not> is_ctl n)"

definition all_minors :: "ptr list \<Rightarrow> binderfs \<Rightarrow> nat list" where
  "all_minors M s = concat (map (\<lambda>sb. minors_of (nodes (supers s sb))) M)"

text \<open>\<open>M\<close> are the mounts, \<open>leak\<close> the minor numbers that belong to none.\<close>

definition fs_inv :: "ptr list \<Rightarrow> nat list \<Rightarrow> binderfs \<Rightarrow> bool" where
  "fs_inv M leak s \<longleftrightarrow> distinct M \<and> (\<forall>sb \<in> set M. super_ok (binderfs_dev s) (supers s sb)) \<and> distinct (minors s) \<and>
     (\<forall>m \<in> set (minors s). m \<le> BINDERFS_MAX_MINOR) \<and> mset (minors s) = mset (all_minors M s) + mset leak"

section \<open>Changes to one mount\<close>

definition only_super :: "ptr \<Rightarrow> binderfs \<Rightarrow> binderfs \<Rightarrow> bool" where
  "only_super sb s s' \<longleftrightarrow> binderfs_dev s' = binderfs_dev s \<and> (\<forall>x. x \<noteq> sb \<longrightarrow> supers s' x = supers s x)"

lemma only_super_refl [simp]: "only_super sb s s" and only_super_trans: "only_super sb s t \<Longrightarrow> only_super sb t u \<Longrightarrow> only_super sb s u"
  by (simp_all add: only_super_def)

lemma only_super_simps [simp]: "only_super sb s (upd_super sb f t) = only_super sb s t" "only_super sb s (ida_free m t) = only_super sb s t"
  "only_super sb s (t\<lparr>minors := ms\<rparr>) = only_super sb s t"
  by (auto simp: only_super_def upd_super_def ida_free_def)

lemma dev_simps [simp]: "binderfs_dev (upd_super sb f s) = binderfs_dev s" "binderfs_dev (ida_free m s) = binderfs_dev s"
  by (simp_all add: upd_super_def ida_free_def)

lemma mset_all_minors:
  assumes "distinct M" "sb \<in> set M" "only_super sb s s'"
  shows "mset (all_minors M s') + mset (minors_of (nodes (supers s sb))) = mset (all_minors M s) + mset (minors_of (nodes (supers s' sb)))"
proof -
  have "mset (all_minors M t) = mset (minors_of (nodes (supers t sb))) + mset (all_minors (remove1 sb M) t)" for t
    using assms(2) unfolding all_minors_def by (induction M) auto
  moreover have "all_minors (remove1 sb M) s' = all_minors (remove1 sb M) s"
    unfolding all_minors_def using assms(1,3) by (intro arg_cong [of _ _ concat] map_cong) (auto simp: only_super_def)
  ultimately show ?thesis by simp
qed

lemma fs_inv_change:
  assumes i: "fs_inv M leak s" and sb: "sb \<in> set M" and o1: "only_super sb s s'" and ok: "super_ok (binderfs_dev s) (supers s' sb)"
    and m: "distinct (minors s')" "\<forall>x \<in> set (minors s'). x \<le> BINDERFS_MAX_MINOR"
    and e: "mset (minors_of (nodes (supers s' sb))) + mset (minors s) = mset (minors_of (nodes (supers s sb))) + mset (minors s')"
  shows "fs_inv M leak s'"
proof -
  have d: "distinct M" and ms: "mset (minors s) = mset (all_minors M s) + mset leak" using i by (simp_all add: fs_inv_def)
  have a: "mset (all_minors M s') + mset (minors_of (nodes (supers s sb))) = mset (all_minors M s) + mset (minors_of (nodes (supers s' sb)))"
    by (rule mset_all_minors [OF d sb o1])
  have "mset (minors s') = mset (all_minors M s') + mset leak"
  proof (rule multiset_eqI)
    show "count (mset (minors s')) x = count (mset (all_minors M s') + mset leak) x" for x
      using a [THEN arg_cong, of "\<lambda>m. count m x"] ms [THEN arg_cong, of "\<lambda>m. count m x"] e [THEN arg_cong, of "\<lambda>m. count m x"] by simp
  qed
  moreover have "super_ok (binderfs_dev s') (supers s' x)" if "x \<in> set M" for x using i o1 ok that by (cases "x = sb") (auto simp: fs_inv_def only_super_def)
  ultimately show ?thesis using d m by (simp add: fs_inv_def)
qed

lemma fs_invD:
  assumes "fs_inv M leak s" "sb \<in> set M"
  shows "super_ok (binderfs_dev s) (supers s sb)" "distinct (minors s)" "\<forall>x \<in> set (minors s). x \<le> BINDERFS_MAX_MINOR" "distinct M"
    "set (minors_of (nodes (supers s sb))) \<subseteq> set (minors s)"
proof -
  show "super_ok (binderfs_dev s) (supers s sb)" "distinct (minors s)" "\<forall>x \<in> set (minors s). x \<le> BINDERFS_MAX_MINOR" "distinct M"
    using assms by (simp_all add: fs_inv_def)
  have "set_mset (mset (minors s)) = set_mset (mset (all_minors M s) + mset leak)" using assms(1) by (simp only: fs_inv_def)
  then show "set (minors_of (nodes (supers s sb))) \<subseteq> set (minors s)" using assms(2) by (auto simp: all_minors_def)
qed

section \<open>The operations\<close>

definition ida_ok :: "binderfs_env \<Rightarrow> bool" where
  "ida_ok env \<longleftrightarrow> (\<forall>mx ids m. e_ida env mx ids = Inr m \<longrightarrow> m \<le> mx \<and> m \<notin> set ids)"

lemma use_minors_le: "use_minors i \<le> BINDERFS_MAX_MINOR"
  by (simp add: use_minors_def BINDERFS_MAX_MINOR_CAPPED_def)

lemma reserve_minor_ok: "ida_ok env \<Longrightarrow> reserve_minor env i ids = Inr m \<Longrightarrow> m \<le> BINDERFS_MAX_MINOR \<and> m \<notin> set ids \<and> device_count i + 1 \<le> opt_max (mount_opts i)"
  using use_minors_le [of i] by (auto simp: reserve_minor_def ida_ok_def split: if_splits dest: le_trans)

lemma undo_id:
  "ida_free m (upd_super sb (upd_info (add_count (- 1))) ((upd_super sb (upd_info (add_count 1)) s)\<lparr>minors := m # minors s\<rparr>)) = s"
  by (simp add: ida_free_def upd_super_def upd_info_def add_count_def fun_upd_def) (auto simp: fun_eq_iff intro!: binderfs.equality)

lemma device_error_None: "device_error env userp nm b = None \<Longrightarrow> [nm] \<notin> fst ` set (dentries b)"
  by (auto simp: device_error_def map_of_eq_None_iff split: if_splits option.splits)

text \<open>Creating a device: either nothing changes, or there is a new node with a minor number that was free.\<close>

lemma device_create_cases:
  assumes "binderfs_binder_device_create env sb userp req s = (r, told, s')" "ida_ok env"
  obtains (err) e where "r = Inl e" "s' = s"
  | (ok) m nm where "r = Inr ()" "m \<notin> set (minors s)" "m \<le> BINDERFS_MAX_MINOR" "[nm] \<notin> fst ` set (dentries (supers s sb))"
    "nm = takeWhile (\<lambda>c. c \<noteq> 0) (take BINDERFS_MAX_NAME req)" "device_count (sb_info (supers s sb)) + 1 \<le> opt_max (mount_opts (sb_info (supers s sb)))"
    "s' = upd_super sb (add_dentry [nm] (Device m (m + INODE_OFFSET) (dev_number (binderfs_dev s) m))) ((upd_super sb (upd_info (add_count 1)) s)\<lparr>minors := m # minors s\<rparr>)"
proof (cases "reserve_minor env (sb_info (supers s sb)) (minors s)")
  case (Inl e) then show ?thesis using assms(1) err [of e] by (simp add: binderfs_binder_device_create_def Let_def)
next
  case (Inr m)
  let ?nm = "takeWhile (\<lambda>c. c \<noteq> 0) (take BINDERFS_MAX_NAME req)"
  show ?thesis
  proof (cases "device_error env userp ?nm (supers s sb)")
    case None
    from reserve_minor_ok [OF assms(2) Inr] device_error_None [OF None] show ?thesis
      using assms(1) Inr None by (intro ok [of m ?nm]) (simp_all add: binderfs_binder_device_create_def Let_def)
  next
    case (Some e) then show ?thesis using assms(1) Inr err [of e] undo_id by (simp add: binderfs_binder_device_create_def Let_def)
  qed
qed

lemma device_create_inv:
  assumes c: "binderfs_binder_device_create env sb userp req s = (r, told, s')" and e: "ida_ok env" and i: "fs_inv M leak s" and sb: "sb \<in> set M"
  shows "fs_inv M leak s' \<and> only_super sb s s'"
  using c e
proof (cases rule: device_create_cases)
  case (ok m nm)
  have b: "super_ok (binderfs_dev s) (supers s sb)" "distinct (minors s)" "\<forall>x \<in> set (minors s). x \<le> BINDERFS_MAX_MINOR" using fs_invD [OF i sb] by simp_all
  have s: "supers s' sb = add_dentry [nm] (Device m (m + INODE_OFFSET) (dev_number (binderfs_dev s) m)) (upd_info (add_count 1) (supers s sb))" "minors s' = m # minors s" "only_super sb s s'"
    using ok by (simp_all add: upd_super_def)
      (simp_all add: only_super_def)
  have "super_ok (binderfs_dev s) (supers s' sb)"
    using b(1) ok(4) by (auto simp: s(1) super_ok_def rdev_ok_def add_dentry_def upd_info_def add_count_def nodes_def)
  then show ?thesis using s fs_inv_change [OF i sb s(3)] b ok(2,3) by (simp add: nodes_def add_dentry_def upd_info_def)
qed (use i in simp)

text \<open>A node that has lost its name or its last user goes away with its minor number.\<close>

lemma super_upd_simps [simp]:
  "supers (upd_super sb f s) sb = f (supers s sb)" "minors (upd_super sb f s) = minors s" "supers (ida_free m s) = supers s"
  "minors (ida_free m s) = remove1 m (minors s)" "dentries (upd_info g b) = dentries b" "orphans (upd_info g b) = orphans b"
  "sb_info (upd_info g b) = g (sb_info b)" "sb_has_info (upd_info g b) = sb_has_info b" "nodes (upd_info g b) = nodes b"
  by (simp_all add: upd_super_def ida_free_def upd_info_def nodes_def)

lemma evict_effect:
  "supers (binderfs_evict_inode sb n s) sb = (if has_minor n then upd_info (add_count (- 1)) (supers s sb) else supers s sb)"
  "minors (binderfs_evict_inode sb n s) = (if has_minor n then remove1 (minor_of n) (minors s) else minors s)"
  "only_super sb t (binderfs_evict_inode sb n s) = only_super sb t s"
  by (cases n; simp)+

lemma mset_nodes_removed:
  assumes "(p, n) \<in> set ds" "distinct (map fst ds)"
  shows "mset (map snd ds) = add_mset n (mset (map snd (filter (\<lambda>d. fst d \<noteq> p) ds)))"
  using assms
proof (induction ds)
  case (Cons d ds)
  show ?case
  proof (cases "fst d = p")
    case True
    with Cons.prems have "d = (p, n)" "\<forall>x \<in> set ds. fst x \<noteq> p" by (auto simp: rev_image_eqI)
    then show ?thesis by simp
  qed (use Cons in auto)
qed simp

lemma minors_of_mset: "mset xs = mset ys \<Longrightarrow> mset (minors_of xs) = mset (minors_of ys) \<and> dev_count xs = dev_count ys"
proof -
  assume e: "mset xs = mset ys"
  have "length (filter P xs) = length (filter P ys)" for P using e by (simp only: size_mset [symmetric] mset_filter)
  then show ?thesis using e by (simp add: minors_of_def dev_count_def)
qed

lemma evict_inv:
  assumes i: "fs_inv M leak s" and sb: "sb \<in> set M" and t: "only_super sb s t" "minors t = minors s"
    and n: "mset (nodes (supers s sb)) = add_mset n (mset (nodes (supers t sb)))" "\<not> is_ctl n"
    and ok: "sb_has_info (supers t sb)" "distinct (map fst (dentries (supers t sb)))" "sb_info (supers t sb) = sb_info (supers s sb)"
      "set (dentries (supers t sb)) \<subseteq> set (dentries (supers s sb))" "set (orphans (supers t sb)) \<subseteq> set (orphans (supers s sb))"
  shows "fs_inv M leak (binderfs_evict_inode sb n t)"
proof -
  let ?u = "binderfs_evict_inode sb n t"
  note b = fs_invD [OF i sb]
  have "mset (nodes (supers s sb)) = mset (n # nodes (supers t sb))" using n(1) by simp
  note m = minors_of_mset [OF this]
  have "set_mset (mset (nodes (supers t sb))) \<subseteq> set_mset (mset (nodes (supers s sb)))" using n(1) by auto
  then have sub: "set (nodes (supers t sb)) \<subseteq> set (nodes (supers s sb))" by simp
  have nu: "nodes (supers ?u sb) = nodes (supers t sb)" by (simp add: evict_effect)
  have "super_ok (binderfs_dev s) (supers ?u sb)"
    using b(1) m n(2) ok sub by (auto simp: super_ok_def evict_effect add_count_def)
  moreover have "mset (minors_of (nodes (supers ?u sb))) + mset (minors s) = mset (minors_of (nodes (supers s sb))) + mset (minors ?u)"
  proof (cases "has_minor n")
    case True
    have "set_mset (mset (minors_of (nodes (supers s sb)))) = set_mset (mset (minors_of (n # nodes (supers t sb))))" using m by (simp only:)
    then have "minor_of n \<in> set (minors s)" using True b(5) by auto
    then show ?thesis using True m t(2) nu by (simp add: evict_effect)
  qed (use m t(2) nu in \<open>simp add: evict_effect\<close>)
  moreover have "distinct (minors ?u)" "\<forall>x \<in> set (minors ?u). x \<le> BINDERFS_MAX_MINOR"
    using b(2,3) t(2) by (auto simp: evict_effect dest: notin_set_remove1)
  ultimately show ?thesis using fs_inv_change [OF i sb] t(1) by (simp add: evict_effect)
qed

lemma super_ok_cong: "sb_has_info b' = sb_has_info b \<Longrightarrow> dentries b' = dentries b \<Longrightarrow> orphans b' = orphans b \<Longrightarrow>
    device_count (sb_info b') = device_count (sb_info b) \<Longrightarrow> control_dentry (sb_info b') = control_dentry (sb_info b) \<Longrightarrow> super_ok d b' = super_ok d b"
  by (simp add: super_ok_def nodes_def)

lemma simple_unlink_inv:
  assumes i: "fs_inv M leak s" and sb: "sb \<in> set M" and c: "\<And>n. map_of (dentries (supers s sb)) path = Some n \<Longrightarrow> \<not> is_ctl n"
  shows "fs_inv M leak (simple_unlink sb path held s)"
proof (cases "map_of (dentries (supers s sb)) path")
  case None then show ?thesis using i by (simp add: simple_unlink_def)
next
  case (Some n)
  let ?t = "upd_super sb (\<lambda>b. b\<lparr>dentries := filter (\<lambda>d. fst d \<noteq> path) (dentries b)\<rparr>) s"
  note b = fs_invD [OF i sb]
  have d: "distinct (map fst (dentries (supers s sb)))" using b(1) by (simp add: super_ok_def)
  have p: "(path, n) \<in> set (dentries (supers s sb))" using Some by (rule map_of_SomeD)
  have nc: "\<not> is_ctl n" by (rule c [OF Some])
  have ms: "mset (nodes (supers s sb)) = add_mset n (mset (nodes (supers ?t sb)))"
    using mset_nodes_removed [OF p d] by (simp add: nodes_def)
  have dt: "distinct (map fst (dentries (supers ?t sb)))" using d by (simp add: distinct_map_filter)
  show ?thesis
  proof (cases held)
    case False
    have "fs_inv M leak (binderfs_evict_inode sb n ?t)"
      by (rule evict_inv [OF i sb _ _ ms nc]) (use b(1) dt in \<open>auto simp: super_ok_def\<close>)
    then show ?thesis using Some False by (simp add: simple_unlink_def Let_def)
  next
    case True
    let ?u = "upd_super sb (\<lambda>b. b\<lparr>orphans := n # orphans b\<rparr>) ?t"
    have eq: "mset (nodes (supers ?u sb)) = mset (nodes (supers s sb))" using ms by (simp add: nodes_def)
    note m = minors_of_mset [OF eq]
    have "super_ok (binderfs_dev s) (supers ?u sb)" using b(1) m nc dt mset_eq_setD [OF eq] by (auto simp: super_ok_def)
    then have "fs_inv M leak ?u" using fs_inv_change [OF i sb, of ?u] b(2,3) m by simp
    then show ?thesis using Some True by (simp add: simple_unlink_def Let_def)
  qed
qed

lemma unlink_inv:
  assumes i: "fs_inv M leak s" and sb: "sb \<in> set M" and c: "\<not> is_binderfs_control_device sb path s"
  shows "fs_inv M leak (simple_unlink sb path held s)"
proof (rule simple_unlink_inv [OF i sb])
  show "\<not> is_ctl n" if "map_of (dentries (supers s sb)) path = Some n" for n
    using map_of_SomeD [OF that] fs_invD(1) [OF i sb] c by (auto simp: super_ok_def is_binderfs_control_device_def)
qed

lemma remove_log_inv:
  assumes i: "fs_inv M leak s" and sb: "sb \<in> set M" and c: "map_of (dentries (supers s sb)) path = Some Log_file"
  shows "fs_inv M leak (binderfs_remove_file sb path held s)"
  using simple_unlink_inv [OF i sb, of path held] c by (simp add: binderfs_remove_file_def)

lemma drop_orphan_inv:
  assumes i: "fs_inv M leak s" and sb: "sb \<in> set M"
  shows "fs_inv M leak (drop_orphan sb n s)"
proof (cases "n \<in> set (orphans (supers s sb))")
  case True
  let ?t = "upd_super sb (\<lambda>b. b\<lparr>orphans := remove1 n (orphans b)\<rparr>) s"
  note b = fs_invD [OF i sb]
  have "\<not> is_ctl n" using b(1) True by (auto simp: super_ok_def)
  moreover have "mset (nodes (supers s sb)) = add_mset n (mset (nodes (supers ?t sb)))" using True by (simp add: nodes_def)
  ultimately have "fs_inv M leak (binderfs_evict_inode sb n ?t)"
    by (intro evict_inv [OF i sb]) (use b(1) in \<open>auto simp: super_ok_def intro: set_remove1_subset [THEN subsetD]\<close>)
  then show ?thesis using True by (simp add: drop_orphan_def)
qed (use i in \<open>simp add: drop_orphan_def\<close>)

lemma opts_inv:
  assumes i: "fs_inv M leak s" and sb: "sb \<in> set M" and f: "\<And>i. device_count (f i) = device_count i \<and> control_dentry (f i) = control_dentry i"
  shows "fs_inv M leak (upd_super sb (upd_info f) s)"
proof -
  have "super_ok (binderfs_dev s) (upd_info f (supers s sb))" using fs_invD(1) [OF i sb] super_ok_cong [of "upd_info f (supers s sb)" "supers s sb"] f by simp
  then show ?thesis using fs_inv_change [OF i sb, of "upd_super sb (upd_info f) s"] fs_invD(2,3) [OF i sb] by simp
qed

lemma remount_inv:
  assumes "fs_inv M leak s" "sb \<in> set M"
  shows "fs_inv M leak (snd (binderfs_remount tok admin sb data s))"
proof -
  have "\<exists>o1. snd (binderfs_remount tok admin sb data s) = upd_super sb (upd_info (\<lambda>i. i\<lparr>mount_opts := o1\<rparr>)) s"
    by (auto simp: binderfs_remount_def Let_def split: prod.splits sum.splits)
  then show ?thesis using opts_inv [OF assms] by auto
qed

end
