(* ===== verification/Binderfs_Mount.thy ===== *)
theory Binderfs_Mount
  imports Binderfs_Inv
begin

text \<open>Mounting and unmounting keep the invariant, and binderfs as a transition system.\<close>

section \<open>Filling a super block\<close>

lemma ctl_create_inv:
  assumes i: "fs_inv M leak s" and sb: "sb \<in> set M" and e: "ida_ok env" and d: "dentries (supers s sb) = []"
    and c: "binderfs_binder_ctl_create env sb s = (r, s')"
  shows "(\<exists>leak'. fs_inv M leak' s') \<and> orphans (supers s' sb) = orphans (supers s sb)"
proof -
  let ?i = "sb_info (supers s sb)" and ?p = "[str ''binder-control'']"
  note b = fs_invD [OF i sb]
  consider "s' = s" | m where "e_ida env (use_minors ?i) (minors s) = Inr m" "s' = s\<lparr>minors := m # minors s\<rparr>"
    | m where "e_ida env (use_minors ?i) (minors s) = Inr m"
      "s' = upd_super sb (\<lambda>b. add_dentry ?p (Control m (dev_number (binderfs_dev s) m)) (upd_info (\<lambda>i. i\<lparr>control_dentry := Some ?p\<rparr>) b)) (s\<lparr>minors := m # minors s\<rparr>)"
  proof (cases "e_device env \<and> control_dentry ?i = None \<and> e_inode env")
    case False then show ?thesis using c that(1) by (simp add: binderfs_binder_ctl_create_def Let_def split: if_splits)
  next
    case True
    show ?thesis
    proof (cases "e_ida env (use_minors ?i) (minors s)")
      case (Inl er) then show ?thesis using True c that(1) by (simp add: binderfs_binder_ctl_create_def Let_def)
    next
      case (Inr m)
      then show ?thesis using True c that(2,3) [OF Inr] by (cases "e_dentry env") (simp_all add: binderfs_binder_ctl_create_def Let_def)
    qed
  qed
  then show ?thesis
  proof cases
    case 1 then show ?thesis using i by auto
  next
    case (2 m)
    then have "m \<notin> set (minors s)" "m \<le> BINDERFS_MAX_MINOR" using e use_minors_le [of ?i] by (auto simp: ida_ok_def dest: le_trans)
    then have "fs_inv M (m # leak) s'" using i 2 by (simp add: fs_inv_def all_minors_def)
    then show ?thesis using 2 by auto
  next
    case (3 m)
    then have m: "m \<notin> set (minors s)" "m \<le> BINDERFS_MAX_MINOR" using e use_minors_le [of ?i] by (auto simp: ida_ok_def dest: le_trans)
    have "super_ok (binderfs_dev s) (supers s' sb)" using b(1) 3 d by (auto simp: rdev_ok_def super_ok_def add_dentry_def nodes_def upd_super_def upd_info_def)
    then have "fs_inv M leak s'"
      using fs_inv_change [OF i sb, of s'] b(2,3) 3 m by (simp add: nodes_def add_dentry_def)
    then show ?thesis using 3 by (auto simp: upd_super_def add_dentry_def upd_info_def)
  qed
qed

lemma create_node_inv:
  assumes i: "fs_inv M leak s" and sb: "sb \<in> set M" and n: "\<not> has_minor n" and c: "create_node env sb path n s = (r, s')"
  shows "fs_inv M leak s' \<and> orphans (supers s' sb) = orphans (supers s sb)"
proof -
  note b = fs_invD [OF i sb]
  have nc: "\<not> is_ctl n" using n by (cases n) auto
  consider "s' = s" | "s' = upd_super sb (add_dentry path n) s" "path \<notin> fst ` set (dentries (supers s sb))"
    using c by (auto simp: create_node_def binderfs_create_dentry_def map_of_eq_None_iff split: if_splits sum.splits option.splits)
  then show ?thesis
  proof cases
    case 2
    then have "super_ok (binderfs_dev s) (supers s' sb)" using b(1) n nc by (auto simp: rdev_ok_def super_ok_def add_dentry_def nodes_def)
    then show ?thesis using fs_inv_change [OF i sb, of s'] b(2,3) 2 n by (simp add: nodes_def add_dentry_def)
  qed (use i in simp)
qed

lemma create_files_inv:
  assumes "fs_inv M leak s" "sb \<in> set M" "create_files envs k sb parent nms s = (r, s')"
  shows "fs_inv M leak s' \<and> orphans (supers s' sb) = orphans (supers s sb)"
  using assms
proof (induction nms arbitrary: k s)
  case (Cons nm nms)
  obtain r1 s1 where c: "binderfs_create_file (envs k) sb parent nm s = (r1, s1)" by fastforce
  have "fs_inv M leak s1 \<and> orphans (supers s1 sb) = orphans (supers s sb)"
    using create_node_inv [OF Cons.prems(1,2), of Log_file] c by (simp add: binderfs_create_file_def)
  then show ?case using Cons.IH [of s1 "Suc k"] Cons.prems c by (cases r1) auto
qed simp

lemma logs_inv:
  assumes "fs_inv M leak s" "sb \<in> set M" "init_binder_logs envs sb s = (r, s')"
  shows "fs_inv M leak s' \<and> orphans (supers s' sb) = orphans (supers s sb)"
proof -
  obtain r1 s1 where c1: "binderfs_create_dir (envs 0) sb [] (str ''binder_logs'') s = (r1, s1)" by fastforce
  have i1: "fs_inv M leak s1" "orphans (supers s1 sb) = orphans (supers s sb)"
    using create_node_inv [OF assms(1,2), of Directory] c1 by (simp_all add: binderfs_create_dir_def)
  show ?thesis
  proof (cases r1)
    case (Inl e) then show ?thesis using assms(3) c1 i1 by (simp add: init_binder_logs_def)
  next
    case (Inr root)
    let ?fs = "map str [''stats'', ''state'', ''transactions'', ''transaction_log'', ''failed_transaction_log'']"
    obtain r2 s2 where c2: "create_files envs 1 sb root ?fs s1 = (r2, s2)" by fastforce
    note i2 = create_files_inv [OF i1(1) assms(2) c2]
    obtain r3 s3 where c3: "binderfs_create_dir (envs 6) sb root (str ''proc'') s2 = (r3, s3)" by fastforce
    have i3: "fs_inv M leak s3" "orphans (supers s3 sb) = orphans (supers s2 sb)"
      using create_node_inv [OF _ assms(2), of leak s2 Directory] i2 c3 by (simp_all add: binderfs_create_dir_def)
    have "r2 = Inr () \<and> (\<exists>dir. s' = upd_super sb (upd_info (\<lambda>i. i\<lparr>proc_log_dir := Some dir\<rparr>)) s3) \<or> s' = s2 \<or> s' = s3"
      using assms(3) c1 c2 c3 Inr by (auto simp: init_binder_logs_def split: sum.splits)
    then show ?thesis using i1 i2 i3 opts_inv [OF i3(1) assms(2)] by auto
  qed
qed

lemma create_devices_inv:
  assumes "fs_inv M leak s" "sb \<in> set M" "\<forall>k. ida_ok (envs k)" "create_devices envs k sb nms s = Some (r, s')"
  shows "fs_inv M leak s' \<and> orphans (supers s' sb) = orphans (supers s sb)"
  using assms
proof (induction nms arbitrary: k s)
  case (Cons nm nms)
  obtain r1 t1 s1 where c: "binderfs_binder_device_create (envs k) sb False nm s = (r1, t1, s1)" by (metis prod_cases3)
  have e: "ida_ok (envs k)" using Cons.prems(3) by simp
  note i1 = device_create_inv [OF c e Cons.prems(1,2)]
  have "orphans (supers s1 sb) = orphans (supers s sb)"
    using c e by (cases rule: device_create_cases) (auto simp: add_dentry_def upd_super_def upd_info_def)
  then show ?case using Cons.IH [of s1 "Suc k"] Cons.prems c i1 by (cases r1) (auto split: if_splits)
qed simp

text \<open>A new super block, and the state when it could not be filled.\<close>

lemma new_super_inv:
  assumes "fs_inv M leak s" "sb \<notin> set M"
  shows "fs_inv (sb # M) leak (upd_super sb (\<lambda>_. \<lparr>sb_has_info = True, sb_info = new_info ns opts, dentries = [], orphans = []\<rparr>) s)"
proof -
  let ?s = "upd_super sb (\<lambda>_. \<lparr>sb_has_info = True, sb_info = new_info ns opts, dentries = [], orphans = []\<rparr>) s"
  have "supers ?s x = supers s x" if "x \<in> set M" for x using that assms(2) by (auto simp: upd_super_def)
  then have "all_minors M ?s = all_minors M s" unfolding all_minors_def by (intro arg_cong [of _ _ concat] map_cong refl) simp
  then have "all_minors (sb # M) ?s = all_minors M s" by (simp add: all_minors_def nodes_def)
  moreover have "super_ok (binderfs_dev ?s) (supers ?s x)" if "x \<in> set (sb # M)" for x
    using that assms by (cases "x = sb") (auto simp: super_ok_def nodes_def new_info_def upd_super_def fs_inv_def)
  ultimately show ?thesis using assms by (simp add: fs_inv_def)
qed

lemma fs_inv_other:
  assumes "fs_inv M leak s" "sb \<notin> set M" "only_super sb s s'" "minors s' = minors s"
  shows "fs_inv M leak s'"
proof -
  have x: "supers s' x = supers s x" if "x \<in> set M" for x using that assms(2,3) by (auto simp: only_super_def)
  then have "all_minors M s' = all_minors M s" unfolding all_minors_def by (intro arg_cong [of _ _ concat] map_cong refl) simp
  then show ?thesis using assms x by (simp add: fs_inv_def only_super_def)
qed

lemma fill_super_inv:
  assumes i: "fs_inv M leak s" and sb: "sb \<notin> set M" and e: "\<forall>k. ida_ok (envs k)"
    and f: "binderfs_fill_super tok mt envs lenvs devices sb s = Some (r, s')"
  shows "(\<exists>leak'. fs_inv (sb # M) leak' s') \<and> orphans (supers s' sb) = [] \<or> (\<exists>e. r = Inl e) \<and> fs_inv M leak s' \<and> dentries (supers s' sb) = []"
proof (cases "info_ok mt")
  case False
  then have s': "s' = upd_super sb (\<lambda>_. \<lparr>sb_has_info = False, sb_info = sb_info (supers s sb), dentries = [], orphans = []\<rparr>) s" "r = Inl ENOMEM"
    using f by (simp_all add: binderfs_fill_super_def)
  then have "fs_inv M leak s'" by (intro fs_inv_other [OF i sb]) simp_all
  then show ?thesis using s' by simp
next
  case True
  obtain pr opts where po: "binderfs_parse_mount_opts tok (mount_admin mt) (mount_data mt) = (pr, opts)" by fastforce
  let ?s1 = "upd_super sb (\<lambda>_. \<lparr>sb_has_info = True, sb_info = new_info (in_init_ns mt) opts, dentries = [], orphans = []\<rparr>) s"
  have i1: "fs_inv (sb # M) leak ?s1" by (rule new_super_inv [OF i sb])
  obtain cr s2 where c2: "binderfs_binder_ctl_create (envs 0) sb ?s1 = (cr, s2)" by fastforce
  have "ida_ok (envs 0)" using e by simp
  from ctl_create_inv [OF i1 _ this _ c2] obtain leak' where i2: "fs_inv (sb # M) leak' s2" and o2: "orphans (supers s2 sb) = []" by auto
  consider "s' = ?s1" | "s' = s2" | dr s3 where "create_devices envs 1 sb (device_names devices) s2 = Some (dr, s3)"
      "s' = s3 \<or> (\<exists>lr. init_binder_logs lenvs sb s3 = (lr, s'))"
  proof (cases pr)
    case (Inl er) then show ?thesis using f True po that(1) by (simp add: binderfs_fill_super_def Let_def)
  next
    case pok: (Inr u)
    show ?thesis
    proof (cases "root_inode mt \<and> root_dentry mt")
      case False then show ?thesis using f True po pok that(1) by (simp add: binderfs_fill_super_def Let_def split: if_splits)
    next
      case rt: True
      show ?thesis
      proof (cases cr)
        case (Inl er) then show ?thesis using f True po pok rt c2 that(2) by (simp add: binderfs_fill_super_def Let_def)
      next
        case cok: (Inr v)
        obtain dr s3 where d: "create_devices envs 1 sb (device_names devices) s2 = Some (dr, s3)"
          using f True po pok rt c2 cok by (cases "create_devices envs 1 sb (device_names devices) s2") (auto simp: binderfs_fill_super_def Let_def)
        show ?thesis using f True po pok rt c2 cok d that(3) [OF d]
          by (cases dr) (simp_all add: binderfs_fill_super_def Let_def split: if_splits)
      qed
    qed
  qed
  then show ?thesis
  proof cases
    case 1 then show ?thesis using i1 by auto
  next
    case 2 then show ?thesis using i2 o2 by auto
  next
    case (3 dr s3)
    have "fs_inv (sb # M) leak' s3" "orphans (supers s3 sb) = []" using create_devices_inv [OF i2 _ e 3(1)] o2 by simp_all
    then show ?thesis using 3(2) logs_inv [of "sb # M" leak' s3 sb] by auto
  qed
qed

section \<open>Taking a super block down\<close>

lemma fold_evict:
  "mset (minors (fold (\<lambda>d. binderfs_evict_inode sb (snd d)) ds s)) = mset (minors s) - mset (minors_of (map snd ds)) \<and>
   only_super sb s (fold (\<lambda>d. binderfs_evict_inode sb (snd d)) ds s)"
proof (induction ds arbitrary: s)
  case (Cons d ds)
  have "mset (minors (binderfs_evict_inode sb (snd d) s)) = mset (minors s) - mset (minors_of [snd d])" by (simp add: evict_effect)
  then show ?case using Cons [of "binderfs_evict_inode sb (snd d) s"] only_super_trans [of sb s "binderfs_evict_inode sb (snd d) s"]
    by (auto simp: evict_effect diff_diff_add_mset)
qed simp

lemma kill_inv:
  assumes i: "fs_inv M leak s" and sb: "sb \<in> set M" and o1: "orphans (supers s sb) = []"
  shows "fs_inv (remove1 sb M) leak (binderfs_kill_super sb s)"
proof -
  let ?s = "binderfs_kill_super sb s" and ?ns = "map snd (dentries (supers s sb))"
  have d: "distinct M" and ms: "mset (minors s) = mset (all_minors M s) + mset leak" using i by (simp_all add: fs_inv_def)
  have am: "mset (all_minors M s) = mset (minors_of (nodes (supers s sb))) + mset (all_minors (remove1 sb M) s)"
    using sb unfolding all_minors_def by (induction M) auto
  then have m: "mset (minors ?s) = mset (all_minors (remove1 sb M) s) + mset leak"
    using fold_evict [of sb "dentries (supers s sb)" s] ms o1 by (simp add: binderfs_kill_super_def nodes_def)
  have o2: "only_super sb s ?s" using fold_evict [of sb "dentries (supers s sb)" s] by (simp add: binderfs_kill_super_def)
  have x: "supers ?s x = supers s x" if "x \<in> set (remove1 sb M)" for x using that d o2 by (auto simp: only_super_def)
  then have a: "all_minors (remove1 sb M) ?s = all_minors (remove1 sb M) s"
    unfolding all_minors_def by (intro arg_cong [of _ _ concat] map_cong refl) simp
  have sub: "mset (minors ?s) \<subseteq># mset (minors s)"
    using fold_evict [of sb "dentries (supers s sb)" s] by (simp add: binderfs_kill_super_def)
  have "distinct (minors_of (nodes (supers s sb)) @ all_minors (remove1 sb M) s @ leak)"
    using fs_invD(2) [OF i sb] mset_eq_imp_distinct_iff [of "minors s" "minors_of (nodes (supers s sb)) @ all_minors (remove1 sb M) s @ leak"] ms am
    by simp
  then have "distinct (minors ?s)" using mset_eq_imp_distinct_iff [of "minors ?s" "all_minors (remove1 sb M) s @ leak"] m by simp
  moreover have "set (minors ?s) \<subseteq> set (minors s)" using sub by (metis set_mset_mono set_mset_mset)
  moreover have "binderfs_dev ?s = binderfs_dev s" using o2 by (simp add: only_super_def)
  ultimately show ?thesis using i m a x d by (auto simp: fs_inv_def dest: notin_set_remove1)
qed

end
