(* ===== verification/Binderfs_Props.thy ===== *)
theory Binderfs_Props
  imports Binderfs_Mount
begin

text \<open>The properties of binderfs: minor numbers, the outcome of creating a device, device names and mount options.\<close>

section \<open>Binderfs as a transition system\<close>

text \<open>
  A state is the list of the super blocks that are mounted and the state of binderfs. Nodes of the log directory come and go with the
  processes of the driver.
\<close>

inductive binderfs_step :: "(name \<Rightarrow> binderfs_token) \<Rightarrow> name \<Rightarrow> ptr list \<times> binderfs \<Rightarrow> ptr list \<times> binderfs \<Rightarrow> bool" for tok devices where
  Mount: "sb \<notin> set M \<Longrightarrow> \<forall>k. ida_ok (envs k) \<Longrightarrow> binderfs_mount_nodev tok mt envs lenvs devices sb s = Some (Inr (), s') \<Longrightarrow>
     binderfs_step tok devices (M, s) (sb # M, s')"
| Mount_error: "sb \<notin> set M \<Longrightarrow> \<forall>k. ida_ok (envs k) \<Longrightarrow> binderfs_mount_nodev tok mt envs lenvs devices sb s = Some (Inl e, s') \<Longrightarrow>
     binderfs_step tok devices (M, s) (M, s')"
| Ctl: "sb \<in> set M \<Longrightarrow> ida_ok env \<Longrightarrow> binder_ctl_ioctl env user sb cmd arg s = (r, told, s') \<Longrightarrow> binderfs_step tok devices (M, s) (M, s')"
| Unlink: "sb \<in> set M \<Longrightarrow> binderfs_unlink sb path held s = (r, s') \<Longrightarrow> binderfs_step tok devices (M, s) (M, s')"
| Close: "sb \<in> set M \<Longrightarrow> binderfs_step tok devices (M, s) (M, drop_orphan sb nd s)"
| Remount: "sb \<in> set M \<Longrightarrow> binderfs_remount tok admin sb data s = (r, s') \<Longrightarrow> binderfs_step tok devices (M, s) (M, s')"
| Log: "sb \<in> set M \<Longrightarrow> binderfs_create_file env sb parent nm s = (r, s') \<Longrightarrow> binderfs_step tok devices (M, s) (M, s')"
| Unlog: "sb \<in> set M \<Longrightarrow> map_of (dentries (supers s sb)) path = Some Log_file \<Longrightarrow>
     binderfs_step tok devices (M, s) (M, binderfs_remove_file sb path held s)"
| Unmount: "sb \<in> set M \<Longrightarrow> orphans (supers s sb) = [] \<Longrightarrow> binderfs_step tok devices (M, s) (remove1 sb M, binderfs_kill_super sb s)"

definition binderfs_reachable :: "(name \<Rightarrow> binderfs_token) \<Rightarrow> name \<Rightarrow> ptr list \<Rightarrow> binderfs \<Rightarrow> bool" where
  "binderfs_reachable tok devices M s \<longleftrightarrow> (\<exists>s0. minors s0 = [] \<and> (binderfs_step tok devices)\<^sup>*\<^sup>* ([], s0) (M, s))"

lemma fs_mount_inv:
  assumes i: "fs_inv M leak s" and sb: "sb \<notin> set M" and e: "\<forall>k. ida_ok (envs k)"
    and f: "binderfs_mount_nodev tok mt envs lenvs devices sb s = Some (r, s')"
  shows "\<exists>leak'. fs_inv (if r = Inr () then sb # M else M) leak' s'"
proof -
  from f obtain q s1 where q: "binderfs_fill_super tok mt envs lenvs devices sb s = Some (q, s1)"
    by (auto simp: binderfs_mount_nodev_def split: option.splits)
  consider (full) leak' where "fs_inv (sb # M) leak' s1" "orphans (supers s1 sb) = []"
    | (none) e where "q = Inl e" "fs_inv M leak s1" "dentries (supers s1 sb) = []" using fill_super_inv [OF i sb e q] by blast
  then show ?thesis
  proof cases
    case (full leak')
    show ?thesis
    proof (cases q)
      case (Inl er)
      then have "s' = binderfs_kill_super sb s1" "r = Inl er" using f q by (simp_all add: binderfs_mount_nodev_def)
      then show ?thesis using kill_inv [OF full(1) _ full(2)] by auto
    next
      case (Inr u) then show ?thesis using f q full(1) by (auto simp: binderfs_mount_nodev_def)
    qed
  next
    case (none er)
    then have "s' = binderfs_kill_super sb s1" "r = Inl er" using f q by (simp_all add: binderfs_mount_nodev_def)
    then have "fs_inv M leak s'" by (intro fs_inv_other [OF none(2) sb]) (simp_all add: binderfs_kill_super_def none(3))
    then show ?thesis using \<open>r = Inl er\<close> by auto
  qed
qed

lemma fs_step_inv:
  assumes "binderfs_step tok devices (M, s) (M', s')" "\<exists>leak. fs_inv M leak s"
  shows "\<exists>leak. fs_inv M' leak s'"
proof -
  from assms(2) obtain leak where i: "fs_inv M leak s" by blast
  from assms(1) show ?thesis
  proof cases
    case (Mount sb envs mt lenvs) then show ?thesis using fs_mount_inv [OF i Mount(2-4)] by simp
  next
    case (Mount_error sb envs mt lenvs e) then show ?thesis using fs_mount_inv [OF i Mount_error(2-4)] by simp
  next
    case (Ctl sb env user cmd arg r told)
    have "s' = s \<or> (\<exists>req. binderfs_binder_device_create env sb True req s = (r, told, s'))"
      using Ctl(4) by (auto simp: binder_ctl_ioctl_def split: if_splits option.splits)
    then show ?thesis using i Ctl(1) device_create_inv [OF _ Ctl(3) i Ctl(2)] by metis
  next
    case (Unlink sb path held r)
    then show ?thesis using i unlink_inv [OF i Unlink(2)] by (auto simp: binderfs_unlink_def split: if_splits)
  next
    case (Close sb nd) then show ?thesis using drop_orphan_inv [OF i] by auto
  next
    case (Remount sb admin data r) then show ?thesis using remount_inv [OF i Remount(2), of tok admin data] by auto
  next
    case (Log sb env parent nm r)
    then show ?thesis using create_node_inv [OF i Log(2), of Log_file env "parent @ [nm]"] by (auto simp: binderfs_create_file_def)
  next
    case (Unlog sb path held) then show ?thesis using remove_log_inv [OF i Unlog(3,4)] by auto
  next
    case (Unmount sb) then show ?thesis using kill_inv [OF i] by auto
  qed
qed

lemma fs_reachable_inv:
  assumes "binderfs_reachable tok devices M s"
  obtains leak where "fs_inv M leak s"
proof -
  from assms obtain s0 where s0: "minors s0 = []" and st: "(binderfs_step tok devices)\<^sup>*\<^sup>* ([], s0) (M, s)" by (auto simp: binderfs_reachable_def)
  from st have "\<exists>leak. fs_inv M leak s"
  proof (induction "(M, s)" arbitrary: M s rule: rtranclp_induct)
    case base then show ?case using s0 by (auto simp: fs_inv_def all_minors_def)
  next
    case (step y)
    obtain W t where y: "y = (W, t)" by fastforce
    show ?case by (rule fs_step_inv [OF step.hyps(2) [unfolded y] step.hyps(3) [OF y]])
  qed
  then show ?thesis using that by blast
qed

section \<open>A sample\<close>

text \<open>A kernel that gives the number behind the sum of those in use, and one mount with the device \<open>binder\<close>.\<close>

definition plain_env :: binderfs_env where
  "plain_env = \<lparr>e_ida = (\<lambda>mx ids. if sum_list ids + 1 \<le> mx then Inr (sum_list ids + 1) else Inl ENOSPC), e_device = True, e_inode = True, e_name = True,
     e_dentry = True, e_copy = True, e_lookup = (\<lambda>_. None)\<rparr>"

definition plain_mount :: binderfs_mount where
  "plain_mount = \<lparr>info_ok = True, in_init_ns = True, mount_admin = False, mount_data = None, root_inode = True, root_dentry = True\<rparr>"

definition no_super :: super_block where
  "no_super = \<lparr>sb_has_info = False, sb_info = new_info True \<lparr>opt_max = 0, stats_mode = STATS_NONE\<rparr>, dentries = [], orphans = []\<rparr>"

definition fs_blank :: binderfs where
  "fs_blank = \<lparr>binderfs_dev = MKDEV 240 0, minors = [], supers = (\<lambda>_. no_super), chrdev_region = True, fs_registered = True\<rparr>"

definition no_tok :: "name \<Rightarrow> binderfs_token" where
  "no_tok = (\<lambda>_. Opt_err)"

definition sample_super :: super_block where
  "sample_super = \<lparr>sb_has_info = True,
     sb_info = (new_info True \<lparr>opt_max = int BINDERFS_MAX_MINOR, stats_mode = STATS_NONE\<rparr>)\<lparr>control_dentry := Some [str ''binder-control''], device_count := 1\<rparr>,
     dentries = [([str ''binder''], Device 2 5 (MKDEV 240 2)), ([str ''binder-control''], Control 1 (MKDEV 240 1))], orphans = []\<rparr>"

definition fs_mounted :: binderfs where
  "fs_mounted = fs_blank\<lparr>minors := [2, 1], supers := (\<lambda>_. no_super)(7 := sample_super)\<rparr>"

lemma plain_ida_ok: "ida_ok plain_env"
  using member_le_sum_list [where 'a = nat] by (fastforce simp: ida_ok_def plain_env_def)

lemma fs_sample_names: "device_names (str ''binder'') = [str ''binder'']"
  by (simp add: device_names.simps str_def comma_def)

lemma fs_sample_mount:
  "binderfs_mount_nodev no_tok plain_mount (\<lambda>_. plain_env) (\<lambda>_. plain_env) (str ''binder'') 7 fs_blank = Some (Inr (), fs_mounted)"
proof -
  have n: "takeWhile (\<lambda>c. c \<noteq> 0) (str ''binder'') = str ''binder''" by (simp add: str_def)
  have dn: "dev_number (MKDEV 240 0) (Suc 0) = MKDEV 240 1" "dev_number (MKDEV 240 0) (Suc (Suc 0)) = MKDEV 240 2"
    by (simp_all add: dev_number_def MKDEV_def MAJOR_def)
  have ne: "str ''binder'' \<noteq> str ''binder-control''" "length (str ''binder'') = 6" by (simp_all add: str_def)
  show ?thesis
    by (simp add: binderfs_mount_nodev_def binderfs_fill_super_def plain_mount_def binderfs_parse_mount_opts_def binderfs_binder_ctl_create_def fs_sample_names
        binderfs_binder_device_create_def reserve_minor_def device_error_def use_minors_def plain_env_def fs_blank_def fs_mounted_def sample_super_def no_super_def
        new_info_def upd_super_def upd_info_def add_dentry_def add_count_def Let_def n ne BINDERFS_MAX_NAME_def BINDERFS_MAX_MINOR_def INODE_OFFSET_def
        fun_upd_def fun_eq_iff dn)
qed

lemma fs_sample_reachable: "binderfs_reachable no_tok (str ''binder'') [7] fs_mounted"
proof -
  have "binderfs_step no_tok (str ''binder'') ([], fs_blank) ([7], fs_mounted)" by (rule Mount [OF _ _ fs_sample_mount]) (simp_all add: plain_ida_ok)
  then show ?thesis unfolding binderfs_reachable_def by (intro exI [of _ fs_blank]) (auto simp: fs_blank_def)
qed

section \<open>Device numbers\<close>

lemma low_mask: "(0xFFFFF :: u32) = mask 20"
  by (simp add: mask_eq_exp_minus_1)

lemma dev_number_parts:
  assumes "m < 2 ^ 20"
  shows "MAJOR (dev_number dev m) = MAJOR dev" "MINOR (dev_number dev m) = word_of_nat m"
proof -
  have b: "\<not> bit m k" if "20 \<le> k" for k
    using assms that by (metis bit_take_bit_iff not_le take_bit_nat_eq_self)
  show "MAJOR (dev_number dev m) = MAJOR dev"
    by (rule bit_word_eqI) (auto simp: MAJOR_def dev_number_def MKDEV_def bit_simps b dest: bit_imp_le_length)
  show "MINOR (dev_number dev m) = word_of_nat m"
    unfolding MINOR_def low_mask using b
    by (intro bit_word_eqI) (auto simp: MAJOR_def dev_number_def MKDEV_def bit_simps, metis not_le)
qed

lemma dev_number_last:
  "MAJOR (dev_number dev (2 ^ 20)) = MAJOR dev OR 1" "MINOR (dev_number dev (2 ^ 20)) = 0"
proof -
  have w: "word_of_nat (2 ^ 20) = (push_bit 20 1 :: u32)" by (simp add: push_bit_eq_mult)
  show "MAJOR (dev_number dev (2 ^ 20)) = MAJOR dev OR 1"
    unfolding dev_number_def w by (rule bit_word_eqI) (auto simp: MAJOR_def MKDEV_def bit_simps dest: bit_imp_le_length)
  show "MINOR (dev_number dev (2 ^ 20)) = 0"
  proof -
    have "push_bit 20 x AND mask 20 = 0" for x :: u32 by (rule bit_word_eqI) (auto simp: bit_simps)
    then show ?thesis unfolding dev_number_def w MINOR_def low_mask MKDEV_def push_bit_or [symmetric] by blast
  qed
qed

section \<open>Properties\<close>

text \<open>All device nodes of all mounts, also those that lost their name and are still open.\<close>

definition device_nodes :: "ptr list \<Rightarrow> binderfs \<Rightarrow> binderfs_inode list" where
  "device_nodes M s = concat (map (\<lambda>sb. filter has_minor (nodes (supers s sb))) M)"

lemma minors_of_device_nodes: "map minor_of (device_nodes M s) = all_minors M s"
  by (simp add: device_nodes_def all_minors_def minors_of_def map_concat comp_def)

lemma device_nodes_rdev: "fs_inv M leak s \<Longrightarrow> n \<in> set (device_nodes M s) \<Longrightarrow> rdev_of n = dev_number (binderfs_dev s) (minor_of n)"
  by (auto simp: device_nodes_def fs_inv_def super_ok_def rdev_ok_def)

text \<open>
  C36. Over all mounts, no two device nodes have the same number of \<open>binderfs_minors\<close>, also not with nodes that lost their name and are still open;
  every such number is at most \<open>BINDERFS_MAX_MINOR\<close> and marked as used, and each mount counts its devices exactly. A node whose number is below
  $2^{20}$ has the major number of binderfs and its number as minor number, so the device numbers of these nodes are distinct. Only the
  number \<open>BINDERFS_MAX_MINOR\<close> itself, which the limit lets pass, does not fit: its node has minor number 0 and a major number with the lowest
  bit set. The numbers come from an \<open>ida_alloc_max\<close> that gives unused numbers up to its limit, as kernels since 4.19 do.
\<close>

theorem binderfs_minors_unique:
  assumes "binderfs_reachable tok devices M s"
  shows "distinct (map minor_of (device_nodes M s)) \<and>
    (\<forall>n \<in> set (device_nodes M s). minor_of n \<le> BINDERFS_MAX_MINOR \<and> minor_of n \<in> set (minors s)) \<and>
    (\<forall>sb \<in> set M. device_count (sb_info (supers s sb)) = int (dev_count (nodes (supers s sb)))) \<and>
    (\<forall>n \<in> set (device_nodes M s). minor_of n < BINDERFS_MAX_MINOR \<longrightarrow>
       MAJOR (rdev_of n) = MAJOR (binderfs_dev s) \<and> unat (MINOR (rdev_of n)) = minor_of n) \<and>
    distinct (map rdev_of (filter (\<lambda>n. minor_of n < BINDERFS_MAX_MINOR) (device_nodes M s))) \<and>
    (\<forall>n \<in> set (device_nodes M s). minor_of n = BINDERFS_MAX_MINOR \<longrightarrow>
       MAJOR (rdev_of n) = MAJOR (binderfs_dev s) OR 1 \<and> MINOR (rdev_of n) = 0)"
proof -
  from assms obtain leak where i: "fs_inv M leak s" by (rule fs_reachable_inv)
  let ?ns = "device_nodes M s"
  have m: "mset (minors s) = mset (all_minors M s @ leak)" and d: "distinct (minors s)" "\<forall>m \<in> set (minors s). m \<le> BINDERFS_MAX_MINOR"
    and sb: "\<forall>sb \<in> set M. super_ok (binderfs_dev s) (supers s sb)" using i by (simp_all add: fs_inv_def)
  have dist: "distinct (map minor_of ?ns)" using mset_eq_imp_distinct_iff [OF m] d by (simp add: minors_of_device_nodes)
  have used: "\<forall>n \<in> set ?ns. minor_of n \<in> set (minors s)" using mset_eq_setD [OF m] minors_of_device_nodes [of M s] by (metis UnCI image_eqI set_append set_map)
  have small: "MAJOR (rdev_of n) = MAJOR (binderfs_dev s) \<and> unat (MINOR (rdev_of n)) = minor_of n"
    if "n \<in> set ?ns" "minor_of n < BINDERFS_MAX_MINOR" for n
    using device_nodes_rdev [OF i that(1)] dev_number_parts [of "minor_of n" "binderfs_dev s"] that(2)
    by (simp add: BINDERFS_MAX_MINOR_def unat_of_nat)
  have "distinct (map minor_of (filter (\<lambda>n. minor_of n < BINDERFS_MAX_MINOR) ?ns))" using dist by (simp add: distinct_map_filter)
  then have "distinct (map (\<lambda>n. unat (MINOR (rdev_of n))) (filter (\<lambda>n. minor_of n < BINDERFS_MAX_MINOR) ?ns))"
    by (subst map_cong [OF refl, of _ _ minor_of]) (use small in auto)
  then have "distinct (map rdev_of (filter (\<lambda>n. minor_of n < BINDERFS_MAX_MINOR) ?ns))"
    by (metis (mono_tags, lifting) distinct_map comp_apply inj_on_def)
  moreover have "MAJOR (rdev_of n) = MAJOR (binderfs_dev s) OR 1 \<and> MINOR (rdev_of n) = 0"
    if "n \<in> set ?ns" "minor_of n = BINDERFS_MAX_MINOR" for n
    using device_nodes_rdev [OF i that(1)] dev_number_last [of "binderfs_dev s"] that(2) by (simp add: BINDERFS_MAX_MINOR_def)
  ultimately show ?thesis using dist used d(2) small sb by (auto simp: super_ok_def)
qed

theorem binderfs_minors_unique_witness:
  "distinct (map minor_of (device_nodes [7] fs_mounted)) \<and> map rdev_of (device_nodes [7] fs_mounted) = [MKDEV 240 2, MKDEV 240 1]"
  using binderfs_minors_unique [OF fs_sample_reachable] by (simp add: device_nodes_def nodes_def fs_mounted_def sample_super_def)

text \<open>A device that was created and is unlinked at once leaves nothing behind.\<close>

lemma create_unlink:
  fixes m k :: nat and rd :: u32
  assumes c: "\<not> is_binderfs_control_device sb [nm] s" and n: "[nm] \<notin> fst ` set (dentries (supers s sb))"
  defines "t \<equiv> upd_super sb (add_dentry [nm] (Device m k rd)) ((upd_super sb (upd_info (add_count 1)) s)\<lparr>minors := m # minors s\<rparr>)"
  shows "binderfs_unlink sb [nm] False t = (Inr (), s)"
proof -
  have f: "filter (\<lambda>d. fst d \<noteq> [nm]) (dentries (supers s sb)) = dentries (supers s sb)"
    using n by (force simp: filter_id_conv)
  have "\<not> is_binderfs_control_device sb [nm] t"
    using c by (simp add: t_def is_binderfs_control_device_def upd_super_def add_dentry_def upd_info_def add_count_def)
  moreover have "simple_unlink sb [nm] False t = s"
    by (simp add: t_def simple_unlink_def upd_super_def add_dentry_def upd_info_def add_count_def ida_free_def f)
  ultimately show ?thesis by (simp add: binderfs_unlink_def)
qed

text \<open>
  C37. A request for a device succeeds exactly when the limit of the mount is not reached, a number can be had, the memory for the
  device, the inode and the name is there, the answer can be written back to user space, the look-up works and the name is not taken. Then there is one more node,
  under the name that was asked for, with a number that no node of any mount has; nothing else changes, the limit still holds, and unlinking
  the node gives the state before. A request that fails leaves everything as it was. Numbers are those of an \<open>ida_alloc_max\<close> as
  in kernels since 4.19.
\<close>

theorem device_create_outcome:
  assumes r: "binderfs_reachable tok devices M s" and sb: "sb \<in> set M" and e: "ida_ok env"
    and c: "binderfs_binder_device_create env sb userp req s = (res, told, s')"
  defines "nm \<equiv> takeWhile (\<lambda>c. c \<noteq> 0) (take BINDERFS_MAX_NAME req)"
  shows "(res = Inr () \<longleftrightarrow> device_count (sb_info (supers s sb)) < opt_max (mount_opts (sb_info (supers s sb))) \<and>
       (\<exists>m. e_ida env (use_minors (sb_info (supers s sb))) (minors s) = Inr m) \<and>
       e_device env \<and> e_inode env \<and> e_name env \<and> (\<not> userp \<or> e_copy env) \<and> e_lookup env [nm] = None \<and>
       [nm] \<notin> fst ` set (dentries (supers s sb))) \<and>
    (case res of Inl _ \<Rightarrow> s' = s
     | Inr _ \<Rightarrow> only_super sb s s' \<and> orphans (supers s' sb) = orphans (supers s sb) \<and>
         device_count (sb_info (supers s' sb)) \<le> opt_max (mount_opts (sb_info (supers s' sb))) \<and>
         (\<exists>m. m \<notin> set (all_minors M s) \<and> m \<le> BINDERFS_MAX_MINOR \<and> told = (if userp then Some m else None) \<and>
            minors s' = m # minors s \<and>
            dentries (supers s' sb) = ([nm], Device m (m + INODE_OFFSET) (dev_number (binderfs_dev s) m)) # dentries (supers s sb)) \<and>
         (is_binderfs_control_device sb [nm] s \<or> binderfs_unlink sb [nm] False s' = (Inr (), s)))"
proof -
  from r obtain leak where i: "fs_inv M leak s" by (rule fs_reachable_inv)
  have "mset (minors s) = mset (all_minors M s @ leak)" using i by (simp add: fs_inv_def)
  then have sub: "set (all_minors M s) \<subseteq> set (minors s)" using mset_eq_setD by fastforce
  have iff: "res = Inr () \<longleftrightarrow> device_count (sb_info (supers s sb)) < opt_max (mount_opts (sb_info (supers s sb))) \<and>
      (\<exists>m. e_ida env (use_minors (sb_info (supers s sb))) (minors s) = Inr m) \<and>
      e_device env \<and> e_inode env \<and> e_name env \<and> (\<not> userp \<or> e_copy env) \<and> e_lookup env [nm] = None \<and>
      [nm] \<notin> fst ` set (dentries (supers s sb))"
    using c by (auto simp: binderfs_binder_device_create_def reserve_minor_def device_error_def map_of_eq_None_iff Let_def nm_def
        split: if_splits sum.splits option.splits)
  from c e show ?thesis
  proof (cases rule: device_create_cases)
    case (err er) then show ?thesis using iff by simp
  next
    case (ok m n)
    have n: "n = nm" using ok(5) by (simp add: nm_def)
    have tl: "told = (if userp then Some m else None)"
    proof -
      obtain x where x: "reserve_minor env (sb_info (supers s sb)) (minors s) = Inr x"
        using c ok(1) by (auto simp: binderfs_binder_device_create_def Let_def split: sum.splits)
      then have "minors s' = x # minors s" "told = (if userp then Some x else None)"
        using c ok(1) iff by (auto simp: binderfs_binder_device_create_def Let_def split: option.splits)
      then show ?thesis using ok(7) by simp
    qed
    have un: "binderfs_unlink sb [nm] False s' = (Inr (), s)" if "\<not> is_binderfs_control_device sb [nm] s"
      using that ok(4) unfolding ok(7) n by (rule create_unlink)
    show ?thesis using iff sub ok tl un n
      by (auto simp: only_super_def upd_super_def add_dentry_def upd_info_def add_count_def)
  qed
qed

theorem device_create_outcome_witness:
  "\<exists>told s'. binderfs_binder_device_create plain_env 7 True (str ''hwbinder'') fs_mounted = (Inr (), told, s') \<and>
    binderfs_unlink 7 [str ''hwbinder''] False s' = (Inr (), fs_mounted)"
proof -
  obtain res told s' where c: "binderfs_binder_device_create plain_env 7 True (str ''hwbinder'') fs_mounted = (res, told, s')" by (metis prod_cases3)
  have n: "takeWhile (\<lambda>c. c \<noteq> 0) (take BINDERFS_MAX_NAME (str ''hwbinder'')) = str ''hwbinder''" by (simp add: BINDERFS_MAX_NAME_def str_def)
  have s: "supers fs_mounted 7 = sample_super" "minors fs_mounted = [2, 1]"
    by (simp_all add: fs_mounted_def sample_super_def)
  have v: "e_device plain_env \<and> e_inode plain_env \<and> e_name plain_env \<and> e_copy plain_env \<and> e_lookup plain_env [str ''hwbinder''] = None"
    "[str ''hwbinder''] \<notin> fst ` set (dentries sample_super)" "device_count (sb_info sample_super) < opt_max (mount_opts (sb_info sample_super))"
    "\<exists>m. e_ida plain_env (use_minors (sb_info sample_super)) [2, 1] = Inr m" "\<not> is_binderfs_control_device 7 [str ''hwbinder''] fs_mounted"
    by (simp_all add: plain_env_def sample_super_def str_def new_info_def use_minors_def BINDERFS_MAX_MINOR_def is_binderfs_control_device_def fs_mounted_def)
  note oc = device_create_outcome [OF fs_sample_reachable _ plain_ida_ok c, unfolded n s]
  show ?thesis using oc v c by auto
qed

text \<open>
  C38. When the module was initialised with its list of device names, mounting never copies a name behind the end of its buffer.
\<close>

theorem device_names_fit:
  assumes "init_binderfs devices region register_err s0 = (Inr (), s1)"
  shows "\<exists>r s'. binderfs_mount_nodev tok mt envs lenvs devices sb s = Some (r, s')"
proof -
  have "\<forall>nm \<in> set (device_names devices). length nm \<le> BINDERFS_MAX_NAME" using assms by (auto simp: init_binderfs_def split: if_splits)
  moreover have "\<exists>r s'. create_devices envs k sb nms s = Some (r, s')" if "\<forall>nm \<in> set nms. length nm \<le> BINDERFS_MAX_NAME" for nms k s
    using that
  proof (induction nms arbitrary: k s)
    case (Cons nm nms)
    obtain r1 t1 s1 where c: "binderfs_binder_device_create (envs k) sb False nm s = (r1, t1, s1)" by (metis prod_cases3)
    show ?case using Cons c by (cases r1) auto
  qed simp
  ultimately have d: "\<exists>r s'. create_devices envs k sb (device_names devices) s = Some (r, s')" for k s by blast
  have "binderfs_fill_super tok mt envs lenvs devices sb s \<noteq> None"
    using d by (auto simp: binderfs_fill_super_def Let_def split: prod.split sum.split option.split) (metis option.distinct(1))+
  then show ?thesis by (auto simp: binderfs_mount_nodev_def split: option.splits sum.splits)
qed

theorem device_names_fit_witness:
  "\<exists>r s'. binderfs_mount_nodev no_tok plain_mount (\<lambda>_. plain_env) (\<lambda>_. plain_env) (str ''binder'') 7 fs_blank = Some (r, s')"
proof (rule device_names_fit)
  have "length (str ''binder'') = 6" by (simp add: str_def)
  then show "init_binderfs (str ''binder'') (Inr (MKDEV 240 0)) None fs_blank = (Inr (), fs_blank)"
    by (simp add: init_binderfs_def fs_sample_names BINDERFS_MAX_NAME_def fs_blank_def)
qed

section \<open>Mount options\<close>

lemma strsep_plain: "comma \<notin> set xs \<Longrightarrow> strsep acc (xs @ ys) = strsep (acc @ xs) ys"
  by (induction xs arbitrary: acc) auto

lemma strsep_parts: "comma \<notin> set xs \<Longrightarrow> strsep acc xs = [acc @ xs]" "comma \<notin> set xs \<Longrightarrow> strsep acc (xs @ comma # ys) = (acc @ xs) # strsep [] ys"
  using strsep_plain [of xs acc "[]"] strsep_plain [of xs acc "comma # ys"] by simp_all

lemma digits_plain: "comma \<notin> set (digits n)"
proof (induction n rule: digits.induct)
  case (1 n)
  have c: "(word_of_nat (48 + k) :: u8) \<noteq> comma" if "k < 10" for k :: nat
  proof -
    have "unat (word_of_nat (48 + k) :: u8) = 48 + k" using that by (simp add: unat_of_nat del: of_nat_add)
    then have "unat (word_of_nat (48 + k) :: u8) \<noteq> unat comma" by (simp add: comma_def del: of_nat_add)
    then show ?thesis by metis
  qed
  show ?case using 1 c [of n] c [of "n mod 10"] by (subst digits.simps) auto
qed

text \<open>
  What the matcher of the kernel makes of the two options as they are printed.
\<close>

definition reads_options :: "(name \<Rightarrow> binderfs_token) \<Rightarrow> bool" where
  "reads_options tok \<longleftrightarrow> (\<forall>n :: nat. n \<le> BINDERFS_MAX_MINOR \<longrightarrow> tok (str ''max='' @ digits n) = Opt_max (Some (int n))) \<and>
     tok (str ''stats=global'') = Opt_stats_mode (Some (str ''global''))"

text \<open>
  C39. The options that a mount shows are options that give it back: parsing them yields the same limit and statistics mode.
\<close>

theorem mount_opts_round_trip:
  assumes tok: "reads_options tok" and r: "0 \<le> opt_max opts" "opt_max opts \<le> int BINDERFS_MAX_MINOR"
  shows "binderfs_parse_mount_opts tok True (Some (binderfs_show_mount_opts opts)) = (Inr (), opts)"
proof -
  let ?m = "str ''max='' @ digits (nat (opt_max opts))" and ?g = "str ''stats=global''"
  have pl: "comma \<notin> set ?m" "comma \<notin> set ?g" using digits_plain by (simp_all add: str_def comma_def)
  have c: "str '',max='' = comma # str ''max=''" "str '',stats=global'' = comma # ?g" by (simp_all add: str_def comma_def)
  have t: "tok ?m = Opt_max (Some (opt_max opts))" "tok ?g = Opt_stats_mode (Some (str ''global''))" using tok r by (simp_all add: reads_options_def)
  have e: "?m \<noteq> []" "?g \<noteq> []" by (simp_all add: str_def)
  show ?thesis
  proof (cases "stats_mode opts")
    case STATS_NONE
    then have "strsep [] (binderfs_show_mount_opts opts) = [[], ?m]"
      using strsep_parts(1) [OF pl(1), of "[]"] r c by (simp add: binderfs_show_mount_opts_def print_int_def)
    then show ?thesis using t e r STATS_NONE by (simp add: binderfs_parse_mount_opts_def) (auto intro!: binderfs_mount_opts.equality)
  next
    case STATS_GLOBAL
    then have "strsep [] (binderfs_show_mount_opts opts) = [[], ?m, ?g]"
      using strsep_parts(2) [OF pl(1), of "[]" ?g] strsep_parts(1) [OF pl(2), of "[]"] r c by (simp add: binderfs_show_mount_opts_def print_int_def)
    then show ?thesis using t e r STATS_GLOBAL by (simp add: binderfs_parse_mount_opts_def) (auto intro!: binderfs_mount_opts.equality)
  qed
qed

text \<open>A matcher that reads decimal numbers.\<close>

definition undigits :: "name \<Rightarrow> nat" where
  "undigits cs = foldl (\<lambda>a c. 10 * a + (unat c - 48)) 0 cs"

lemma undigits_digits: "undigits (digits n) = n"
proof (induction n rule: digits.induct)
  case (1 n)
  have c: "unat (word_of_nat (48 + k) :: u8) - 48 = k" if "k < 10" for k :: nat using that by (simp add: unat_of_nat del: of_nat_add)
  have s: "undigits (xs @ [x]) = 10 * undigits xs + (unat x - 48)" for xs x by (simp add: undigits_def)
  show ?case
  proof (cases "n < 10")
    case True then show ?thesis using c [OF True] by (subst digits.simps) (simp add: undigits_def del: of_nat_add)
  next
    case False
    have "digits n = digits (n div 10) @ [word_of_nat (48 + n mod 10)]" using False by (subst digits.simps) simp
    then show ?thesis using 1 [OF False] c [of "n mod 10"] by (simp add: s del: of_nat_add)
  qed
qed

definition decimal_tok :: "name \<Rightarrow> binderfs_token" where
  "decimal_tok p = (if take 4 p = str ''max='' then Opt_max (Some (int (undigits (drop 4 p))))
     else if take 6 p = str ''stats='' then Opt_stats_mode (Some (drop 6 p)) else Opt_err)"

lemma decimal_tok_reads: "reads_options decimal_tok"
proof -
  have "length (str ''max='') = 4" by (simp add: str_def)
  then have "decimal_tok (str ''max='' @ digits n) = Opt_max (Some (int n))" for n by (simp add: decimal_tok_def undigits_digits)
  then show ?thesis by (simp add: reads_options_def) (simp add: decimal_tok_def str_def)
qed

theorem mount_opts_round_trip_witness:
  "binderfs_parse_mount_opts decimal_tok True (Some (binderfs_show_mount_opts \<lparr>opt_max = 4096, stats_mode = STATS_GLOBAL\<rparr>)) =
     (Inr (), \<lparr>opt_max = 4096, stats_mode = STATS_GLOBAL\<rparr>)"
  by (rule mount_opts_round_trip [OF decimal_tok_reads]) (simp_all add: BINDERFS_MAX_MINOR_def)

section \<open>A remount that fails\<close>

text \<open>
  A remount with a malformed option fails, but it has already replaced the options of the mount: a limit that was set is gone.
\<close>

theorem failed_remount_resets_max:
  assumes "tok p = Opt_err" "p \<noteq> []" "comma \<notin> set p"
  shows "\<exists>s'. binderfs_remount tok admin sb (Some p) s = (Inl EINVAL, s') \<and>
    opt_max (mount_opts (sb_info (supers s' sb))) = int BINDERFS_MAX_MINOR"
  using assms strsep_parts(1) [of p "[]"] by (simp add: binderfs_remount_def binderfs_parse_mount_opts_def Let_def upd_super_def upd_info_def)

text \<open>A control device whose name could not be had keeps its minor number for ever.\<close>

theorem failed_control_leaks_minor:
  "\<exists>s'. binderfs_mount_nodev no_tok plain_mount (\<lambda>_. plain_env\<lparr>e_dentry := False\<rparr>) (\<lambda>_. plain_env) (str ''binder'') 7 fs_blank = Some (Inl ENOMEM, s') \<and>
    minors s' = [1]"
  by (simp add: binderfs_mount_nodev_def binderfs_fill_super_def plain_mount_def binderfs_parse_mount_opts_def binderfs_binder_ctl_create_def use_minors_def
      plain_env_def fs_blank_def binderfs_kill_super_def upd_super_def new_info_def Let_def BINDERFS_MAX_MINOR_def)

text \<open>The largest minor number that \<open>ida_alloc_max\<close> may give is one too large for the 20 bits of a device number.\<close>

lemma max_minor_too_large: "init_ipc_ns i \<Longrightarrow> \<not> use_minors i < 2 ^ 20"
  by (simp add: use_minors_def BINDERFS_MAX_MINOR_def)

end
