(* ===== verification/Binder_Idr.thy ===== *)
theory Binder_Idr
  imports Binderfs_Inv
begin

text \<open>
  The number allocator that the module brings along for kernels before 4.19 (\<open>binder/idr.c\<close>, \<open>binder/linux/idr.h\<close>). The
  state of an \<open>ida\<close> is the list of the numbers in use. The functions of those kernels are parameters: \<open>get_above starting_id ids\<close> is what \<open>ida_get_new_above\<close> stores in its last argument, or \<open>None\<close> when it
  fails and stores nothing; \<open>pre_get\<close> is the answer of \<open>ida_pre_get\<close>. Error codes are negative numbers, as in the code.
\<close>

section \<open>Allocating and freeing\<close>

definition code_EAGAIN :: int where "code_EAGAIN = 11"
definition code_ENOMEM :: int where "code_ENOMEM = 12"
definition code_ENOSPC :: int where "code_ENOSPC = 28"
definition INT_MAX :: int where "INT_MAX = 2 ^ 31 - 1"

type_synonym ida_get = "int \<Rightarrow> int list \<Rightarrow> int option"

text \<open>The loop behind the label \<open>again\<close>; the result of \<open>ida_get_new_above\<close> is not looked at.\<close>

partial_function (option) ida_again :: "ida_get \<Rightarrow> bool \<Rightarrow> int \<Rightarrow> int \<Rightarrow> int \<Rightarrow> int list \<Rightarrow> (int \<times> int list) option" where
  "ida_again get_above pre_get mn mx i ids =
     (let (i1, ids1) = (case get_above mn ids of Some n \<Rightarrow> (n, n # ids) | None \<Rightarrow> (i, ids));
          (i2, ids2) = (if i1 > mx then (- code_ENOSPC, remove1 i1 ids1) else (i1, ids1))
      in if i2 = - code_EAGAIN then
           if \<not> pre_get then Some (- code_ENOMEM, ids2) else ida_again get_above pre_get mn mx i2 ids2
         else Some (i2, ids2))"

definition ida_alloc_range :: "ida_get \<Rightarrow> bool \<Rightarrow> u32 \<Rightarrow> u32 \<Rightarrow> int list \<Rightarrow> (int \<times> int list) option" where
  "ida_alloc_range get_above pre_get mn mx ids =
     (if sint mn < 0 then Some (- code_ENOSPC, ids)
      else ida_again get_above pre_get (sint mn) (if sint mx < 0 then INT_MAX else sint mx) 0 ids)"

definition ida_alloc_max :: "ida_get \<Rightarrow> bool \<Rightarrow> u32 \<Rightarrow> int list \<Rightarrow> (int \<times> int list) option" where
  "ida_alloc_max get_above pre_get mx ids = ida_alloc_range get_above pre_get 0 mx ids"

text \<open>\<open>None\<close> is the \<open>BUG_ON\<close>.\<close>

definition ida_free_compat :: "u32 \<Rightarrow> int list \<Rightarrow> int list option" where
  "ida_free_compat i ids = (if sint i < 0 then None else Some (remove1 (sint i) ids))"

section \<open>What it gives\<close>

text \<open>What \<open>ida_get_new_above\<close> promises: a number it stores is unused and not below the one asked for.\<close>

definition ida_get_ok :: "ida_get \<Rightarrow> bool" where
  "ida_get_ok get_above \<longleftrightarrow> (\<forall>mn ids n. get_above mn ids = Some n \<longrightarrow> mn \<le> n \<and> n \<le> INT_MAX \<and> n \<notin> set ids)"

lemma sint_int:
  assumes "0 \<le> n" "n \<le> INT_MAX"
  shows "sint (word_of_int n :: u32) = n"
  using assms by (simp add: sint_sbintrunc' INT_MAX_def signed_take_bit_int_eq_self)

lemma sint_minor: "mx \<le> BINDERFS_MAX_MINOR \<Longrightarrow> sint (word_of_nat mx :: u32) = int mx"
  using sint_int [of "int mx"] by (simp add: INT_MAX_def BINDERFS_MAX_MINOR_def)

text \<open>The loop ends in its first round: the error code it waits for is never stored.\<close>

lemma ida_alloc_range_result:
  assumes g: "ida_get_ok get_above" and r: "0 \<le> sint mn" "0 \<le> sint mx"
  shows "ida_alloc_range get_above pre_get mn mx ids =
     (case get_above (sint mn) ids of None \<Rightarrow> Some (0, ids)
      | Some n \<Rightarrow> Some (if n \<le> sint mx then (n, n # ids) else (- code_ENOSPC, ids)))"
proof (cases "get_above (sint mn) ids")
  case None
  then show ?thesis using r by (simp add: ida_alloc_range_def ida_again.simps code_EAGAIN_def)
next
  case (Some n)
  then have "0 \<le> n" using g r(1) by (force simp: ida_get_ok_def)
  then show ?thesis using r Some by (simp add: ida_alloc_range_def ida_again.simps code_EAGAIN_def code_ENOSPC_def)
qed

text \<open>A number that was given and is freed again leaves the numbers in use as they were.\<close>

lemma ida_alloc_free:
  assumes "ida_get_ok get_above" "0 \<le> sint mn" "0 \<le> sint mx" "get_above (sint mn) ids = Some n" "n \<le> sint mx"
    "ida_alloc_range get_above pre_get mn mx ids = Some (i, ids')"
  shows "ida_free_compat (word_of_int i) ids' = Some ids"
proof -
  have n: "0 \<le> n" "n \<le> INT_MAX" using assms(1,2,4) by (force simp: ida_get_ok_def)+
  show ?thesis using n sint_int [OF n] ida_alloc_range_result [OF assms(1-3), of pre_get ids] assms(4-6) by (simp add: ida_free_compat_def)
qed

text \<open>
  The allocator as binderfs uses it. As long as \<open>ida_get_new_above\<close> does not fail it is the allocator that the
  properties of binderfs rely on.
\<close>

definition compat_ida :: "ida_get \<Rightarrow> bool \<Rightarrow> nat \<Rightarrow> nat list \<Rightarrow> nat result" where
  "compat_ida get_above pre_get mx ids =
     (case ida_alloc_max get_above pre_get (word_of_nat mx) (map int ids) of
        Some (i, _) \<Rightarrow> if i < 0 then Inl (if i = - code_ENOMEM then ENOMEM else ENOSPC) else Inr (nat i)
      | None \<Rightarrow> Inl ENOMEM)"

lemma compat_ida_ok:
  assumes "ida_get_ok get_above" "get_above 0 (map int ids) \<noteq> None" "mx \<le> BINDERFS_MAX_MINOR" "compat_ida get_above pre_get mx ids = Inr m"
  shows "m \<le> mx \<and> m \<notin> set ids"
proof -
  note mx = sint_minor [OF assms(3)]
  obtain n where n: "get_above 0 (map int ids) = Some n" using assms(2) by auto
  then have "0 \<le> n" "n \<notin> int ` set ids" using assms(1) by (force simp: ida_get_ok_def)+
  then show ?thesis
    using assms(4) n ida_alloc_range_result [OF assms(1), of 0 "word_of_nat mx" pre_get "map int ids"] mx
    by (auto simp: compat_ida_def ida_alloc_max_def code_ENOSPC_def image_iff split: if_splits)
qed

text \<open>When \<open>ida_get_new_above\<close> has no memory at hand, the allocator gives the number 0, used or not.\<close>

lemma compat_ida_gives_used:
  assumes "ida_get_ok get_above" "get_above 0 (map int ids) = None" "mx \<le> BINDERFS_MAX_MINOR"
  shows "compat_ida get_above pre_get mx ids = Inr 0"
proof -
  note mx = sint_minor [OF assms(3)]
  show ?thesis
    using assms(2) ida_alloc_range_result [OF assms(1), of 0 "word_of_nat mx" pre_get "map int ids"] mx
    by (simp add: compat_ida_def ida_alloc_max_def)
qed

end
