(* ===== verification/Binder_Module.thy ===== *)
theory Binder_Module
  imports Binderfs Binder_Alloc
begin

text \<open>
  Loading and unloading the binder module (\<open>binder_init\<close>, \<open>init_binder_device\<close> and \<open>binder_exit\<close> of \<open>binder/binder.c\<close>): what is
  registered with the kernel, and what an attempt that fails leaves behind. With binderfs compiled in, the devices are created by
  mounting it; otherwise they are misc devices.
\<close>

section \<open>Loading\<close>

record binder_module =
  lru_exists :: bool
  shrinker_exists :: bool
  log_cur :: u32
  failed_log_cur :: u32
  debugfs_root :: bool
  debugfs_files :: "string list"
  misc_devices :: "name list"
  binder_devices :: "name list"
  bm_fs :: binderfs

record binder_init_env =
  lru_ret :: "errno option"
  shrinker_dynamic :: bool
  shrinker_ret :: "errno option"
  debugfs_ok :: bool
  names_ok :: bool
  device_ok :: "name \<Rightarrow> bool"
  misc_ret :: "name \<Rightarrow> errno option"
  region_ret :: "u32 result"
  register_ret :: "errno option"

definition init_binder_device :: "binder_init_env \<Rightarrow> name \<Rightarrow> binder_module \<Rightarrow> unit result \<times> binder_module" where
  "init_binder_device env nm st =
     (if \<not> device_ok env nm then (Inl ENOMEM, st)
      else case misc_ret env nm of Some e \<Rightarrow> (Inl e, st)
      | None \<Rightarrow> (Inr (), st\<lparr>misc_devices := nm # misc_devices st, binder_devices := nm # binder_devices st\<rparr>))"

fun init_binder_devices :: "binder_init_env \<Rightarrow> name list \<Rightarrow> binder_module \<Rightarrow> unit result \<times> binder_module" where
  "init_binder_devices env [] st = (Inr (), st)"
| "init_binder_devices env (nm # nms) st =
     (case init_binder_device env nm st of (Inl e, st1) \<Rightarrow> (Inl e, st1) | (Inr _, st1) \<Rightarrow> init_binder_devices env nms st1)"

text \<open>The loop over the list of devices when loading failed and when the module is unloaded.\<close>

fun remove_devices :: "name list \<Rightarrow> binder_module \<Rightarrow> binder_module" where
  "remove_devices [] st = st"
| "remove_devices (nm # nms) st =
     remove_devices nms (st\<lparr>misc_devices := list_del nm (misc_devices st), binder_devices := list_del nm (binder_devices st)\<rparr>)"

definition debugfs_remove_recursive :: "binder_module \<Rightarrow> binder_module" where
  "debugfs_remove_recursive st = st\<lparr>debugfs_root := False, debugfs_files := []\<rparr>"

definition create_debugfs :: "bool \<Rightarrow> binder_module \<Rightarrow> binder_module" where
  "create_debugfs ok st =
     (if ok then st\<lparr>debugfs_root := True, debugfs_files := [''proc'', ''state'', ''stats'', ''transactions'', ''transaction_log'', ''failed_transaction_log'']\<rparr>
      else st)"

text \<open>\<open>with_fs\<close> is \<open>IS_ENABLED(CONFIG_ANDROID_BINDERFS)\<close>.\<close>

definition make_devices :: "binder_init_env \<Rightarrow> bool \<Rightarrow> name \<Rightarrow> binder_module \<Rightarrow> unit result \<times> binder_module" where
  "make_devices env with_fs devices st =
     (if \<not> with_fs \<and> devices \<noteq> [] then init_binder_devices env (strsep [] devices) st else (Inr (), st))"

text \<open>
  The two entry points of binderfs as the module calls them: without \<open>CONFIG_ANDROID_BINDERFS\<close> they are the inline stubs of
  \<open>binder_internal.h\<close>, which register nothing.
\<close>

definition init_binderfs_config :: "binder_init_env \<Rightarrow> bool \<Rightarrow> name \<Rightarrow> binderfs \<Rightarrow> unit result \<times> binderfs" where
  "init_binderfs_config env with_fs devices f =
     (if with_fs then init_binderfs devices (region_ret env) (register_ret env) f else (Inr (), f))"

definition binderfs_exit_config :: "bool \<Rightarrow> binderfs \<Rightarrow> binderfs" where
  "binderfs_exit_config with_fs f = (if with_fs then binderfs_exit f else f)"

definition binder_init :: "binder_init_env \<Rightarrow> bool \<Rightarrow> name \<Rightarrow> binder_module \<Rightarrow> unit result \<times> binder_module" where
  "binder_init env with_fs devices st =
     (case binder_alloc_shrinker_init (lru_ret env) (shrinker_dynamic env) (shrinker_ret env) of
        (Some e, lru, shr) \<Rightarrow> (Inl e, st\<lparr>lru_exists := lru, shrinker_exists := shr\<rparr>)
      | (None, lru, shr) \<Rightarrow>
          (let st1 = create_debugfs (debugfs_ok env) (st\<lparr>lru_exists := lru, shrinker_exists := shr, log_cur := - 1, failed_log_cur := - 1\<rparr>) in
           if \<not> with_fs \<and> devices \<noteq> [] \<and> \<not> names_ok env then (Inl ENOMEM, debugfs_remove_recursive st1)
           else case make_devices env with_fs devices st1 of
             (Inl e, st2) \<Rightarrow> (Inl e, debugfs_remove_recursive (remove_devices (binder_devices st2) st2))
           | (Inr _, st2) \<Rightarrow>
               (case init_binderfs_config env with_fs devices (bm_fs st2) of
                  (Inl e, f) \<Rightarrow> (Inl e, debugfs_remove_recursive (remove_devices (binder_devices st2) (st2\<lparr>bm_fs := f\<rparr>)))
                | (Inr _, f) \<Rightarrow> (Inr (), st2\<lparr>bm_fs := f\<rparr>))))"

definition binder_alloc_shrinker_exit :: "binder_module \<Rightarrow> binder_module" where
  "binder_alloc_shrinker_exit st = st\<lparr>shrinker_exists := False, lru_exists := False\<rparr>"

definition binder_exit :: "bool \<Rightarrow> binder_module \<Rightarrow> binder_module" where
  "binder_exit with_fs st =
     (let st1 = st\<lparr>bm_fs := binderfs_exit_config with_fs (bm_fs st)\<rparr>
      in binder_alloc_shrinker_exit (debugfs_remove_recursive (remove_devices (binder_devices st1) st1)))"

section \<open>What is left\<close>

text \<open>A module that is not loaded: nothing is registered.\<close>

definition unloaded :: "binder_module \<Rightarrow> bool" where
  "unloaded st \<longleftrightarrow> \<not> lru_exists st \<and> \<not> shrinker_exists st \<and> \<not> debugfs_root st \<and> debugfs_files st = [] \<and> misc_devices st = [] \<and> binder_devices st = [] \<and>
     \<not> chrdev_region (bm_fs st) \<and> \<not> fs_registered (bm_fs st)"

lemma remove_devices_all:
  "misc_devices st = binder_devices st \<Longrightarrow> remove_devices (binder_devices st) st = st\<lparr>misc_devices := [], binder_devices := []\<rparr>"
proof (induction "binder_devices st" arbitrary: st)
  case Nil
  then show ?case by (metis (no_types, lifting) binder_module.surjective binder_module.update_convs(7,8) remove_devices.simps(1))
next
  case (Cons nm nms)
  let ?st = "st\<lparr>misc_devices := nms, binder_devices := nms\<rparr>"
  have "remove_devices (binder_devices st) st = remove_devices (binder_devices ?st) ?st"
    using Cons(2,3) by (metis binder_module.select_convs(8) binder_module.surjective binder_module.update_convs(7,8) list_del_def remove1.simps(2) remove_devices.simps(2))
  then show ?case using Cons(1) [of ?st] by simp
qed

lemma init_devices_effect:
  "init_binder_devices env nms st = (r, st') \<Longrightarrow> misc_devices st = binder_devices st \<Longrightarrow>
   misc_devices st' = binder_devices st' \<and> st'\<lparr>misc_devices := [], binder_devices := []\<rparr> = st\<lparr>misc_devices := [], binder_devices := []\<rparr>"
proof (induction nms arbitrary: st)
  case (Cons nm nms)
  obtain r1 st1 where c: "init_binder_device env nm st = (r1, st1)" by fastforce
  have "misc_devices st1 = binder_devices st1 \<and> st1\<lparr>misc_devices := [], binder_devices := []\<rparr> = st\<lparr>misc_devices := [], binder_devices := []\<rparr>"
    using c Cons.prems(2) by (auto simp: init_binder_device_def split: if_splits option.splits)
  then show ?case using Cons.IH [of st1] Cons.prems c by (cases r1) auto
qed simp

lemma make_devices_effect:
  "make_devices env with_fs devices st = (r, st') \<Longrightarrow> misc_devices st = binder_devices st \<Longrightarrow>
   misc_devices st' = binder_devices st' \<and> st'\<lparr>misc_devices := [], binder_devices := []\<rparr> = st\<lparr>misc_devices := [], binder_devices := []\<rparr>"
  using init_devices_effect by (auto simp: make_devices_def split: if_splits)

lemma gone:
  assumes "st\<lparr>misc_devices := [], binder_devices := []\<rparr> = st0\<lparr>misc_devices := [], binder_devices := []\<rparr>"
  shows "lru_exists st = lru_exists st0" "shrinker_exists st = shrinker_exists st0" "bm_fs st = bm_fs st0"
    "debugfs_root st = debugfs_root st0" "debugfs_files st = debugfs_files st0"
  using arg_cong [OF assms, of lru_exists] arg_cong [OF assms, of shrinker_exists] arg_cong [OF assms, of bm_fs] arg_cong [OF assms, of debugfs_root]
    arg_cong [OF assms, of debugfs_files] by simp_all

lemma init_devices_names:
  "init_binder_devices env nms st = (Inr u, st') \<Longrightarrow> misc_devices st' = rev nms @ misc_devices st"
  by (induction nms arbitrary: st) (auto simp: init_binder_device_def split: prod.splits sum.splits if_splits option.splits)

lemma make_devices_names:
  "make_devices env with_fs devices st = (Inr u, st') \<Longrightarrow>
   misc_devices st' = (if with_fs \<or> devices = [] then [] else rev (strsep [] devices)) @ misc_devices st"
  using init_devices_names by (auto simp: make_devices_def split: if_splits)

lemma init_binderfs_flags:
  "init_binderfs_config env with_fs devices f = (r, f') \<Longrightarrow> \<not> chrdev_region f \<Longrightarrow> \<not> fs_registered f \<Longrightarrow>
   (chrdev_region f' \<longleftrightarrow> with_fs \<and> r = Inr ()) \<and> (fs_registered f' \<longleftrightarrow> with_fs \<and> r = Inr ())"
  by (auto simp: init_binderfs_config_def init_binderfs_def Let_def split: if_splits option.splits sum.splits)

text \<open>
  C40. Loading the module registers the shrinker; with binderfs compiled in it also registers the device numbers and the file system and
  no misc device, without it no file system and one misc device for every name of the parameter. Unloading takes everything back. When loading fails,
  the devices, the debug files, the device numbers and the file system are taken back; the LRU list and the shrinker are not, and stay
  registered whenever they had been set up.
\<close>

theorem binder_init_exit:
  assumes u: "unloaded st" and c: "binder_init env with_fs devices st = (r, st')"
  shows "case r of
      Inr _ \<Rightarrow> lru_exists st' \<and> shrinker_exists st' \<and>
        (chrdev_region (bm_fs st') \<longleftrightarrow> with_fs) \<and> (fs_registered (bm_fs st') \<longleftrightarrow> with_fs) \<and>
        misc_devices st' = (if with_fs \<or> devices = [] then [] else rev (strsep [] devices)) \<and>
        unloaded (binder_exit with_fs st')
    | Inl _ \<Rightarrow> unloaded (st'\<lparr>lru_exists := False, shrinker_exists := False\<rparr>) \<and>
        (shrinker_exists st' \<longleftrightarrow> lru_ret env = None \<and> shrinker_ret env = None)"
proof (cases "lru_ret env = None \<and> shrinker_ret env = None")
  case False
  then obtain e where "binder_alloc_shrinker_init (lru_ret env) (shrinker_dynamic env) (shrinker_ret env) = (Some e, False, False)"
    by (cases "lru_ret env"; cases "shrinker_ret env"; cases "shrinker_dynamic env") (auto simp: binder_alloc_shrinker_init_def)
  then have "st' = st\<lparr>lru_exists := False, shrinker_exists := False\<rparr>" "r = Inl e" using c by (simp_all add: binder_init_def)
  then show ?thesis using u False by (auto simp: unloaded_def)
next
  case True
  let ?st1 = "create_debugfs (debugfs_ok env) (st\<lparr>lru_exists := True, shrinker_exists := True, log_cur := - 1, failed_log_cur := - 1\<rparr>)"
  have s1: "misc_devices ?st1 = []" "binder_devices ?st1 = []" "bm_fs ?st1 = bm_fs st" "lru_exists ?st1" "shrinker_exists ?st1"
    using u by (simp_all add: create_debugfs_def unloaded_def)
  have sh: "binder_alloc_shrinker_init (lru_ret env) (shrinker_dynamic env) (shrinker_ret env) = (None, True, True)"
    using True by (simp add: binder_alloc_shrinker_init_def)
  show ?thesis
  proof (cases "\<not> with_fs \<and> devices \<noteq> [] \<and> \<not> names_ok env")
    case mem: True
    then show ?thesis using u c s1 sh True by (auto simp: binder_init_def Let_def unloaded_def debugfs_remove_recursive_def)
  next
    case mem: False
    obtain dr st2 where d: "make_devices env with_fs devices ?st1 = (dr, st2)" by fastforce
    obtain fr f where f: "init_binderfs_config env with_fs devices (bm_fs st2) = (fr, f)" by fastforce
    have e2: "misc_devices st2 = binder_devices st2" "st2\<lparr>misc_devices := [], binder_devices := []\<rparr> = ?st1\<lparr>misc_devices := [], binder_devices := []\<rparr>"
      using make_devices_effect [OF d] s1 by simp_all
    have rm: "remove_devices (binder_devices t) t = t\<lparr>misc_devices := [], binder_devices := []\<rparr>" if "misc_devices t = binder_devices t" for t
      by (rule remove_devices_all [OF that])
    have ff: "(chrdev_region f \<longleftrightarrow> with_fs \<and> fr = Inr ()) \<and> (fs_registered f \<longleftrightarrow> with_fs \<and> fr = Inr ())"
      using init_binderfs_flags [OF f] gone(3) [OF e2(2)] s1(3) u by (simp add: unloaded_def)
    note g = gone [OF e2(2)]
    consider (dev) e where "dr = Inl e" "r = Inl e" "st' = debugfs_remove_recursive (remove_devices (binder_devices st2) st2)"
      | (fs) e where "fr = Inl e" "r = Inl e" "st' = debugfs_remove_recursive (remove_devices (binder_devices st2) (st2\<lparr>bm_fs := f\<rparr>))"
      | (ok) "dr = Inr ()" "fr = Inr ()" "r = Inr ()" "st' = st2\<lparr>bm_fs := f\<rparr>"
      using c sh mem d f by (cases dr; cases fr) (auto simp: binder_init_def Let_def)
    then show ?thesis
    proof cases
      case (dev e)
      then show ?thesis using rm [OF e2(1)] g s1 u True by (simp add: unloaded_def debugfs_remove_recursive_def)
    next
      case (fs e)
      have "remove_devices (binder_devices st2) (st2\<lparr>bm_fs := f\<rparr>) = (st2\<lparr>bm_fs := f\<rparr>)\<lparr>misc_devices := [], binder_devices := []\<rparr>"
        using rm [of "st2\<lparr>bm_fs := f\<rparr>"] e2(1) by simp
      then show ?thesis using fs g s1 u True ff by (simp add: unloaded_def debugfs_remove_recursive_def)
    next
      case ok
      let ?x = "st2\<lparr>bm_fs := binderfs_exit_config with_fs f\<rparr>"
      have "misc_devices st2 = (if with_fs \<or> devices = [] then [] else rev (strsep [] devices))"
        using make_devices_names [of env with_fs devices ?st1 "()" st2] d ok(1) s1 by simp
      moreover have "remove_devices (binder_devices st2) ?x = ?x\<lparr>misc_devices := [], binder_devices := []\<rparr>" using rm [of ?x] e2(1) by simp
      ultimately show ?thesis using ok g s1 ff
        by (simp add: unloaded_def binder_exit_def Let_def binder_alloc_shrinker_exit_def debugfs_remove_recursive_def)
          (simp add: binderfs_exit_config_def binderfs_exit_def)
    qed
  qed
qed

definition idle_env :: binder_init_env where
  "idle_env = \<lparr>lru_ret = None, shrinker_dynamic = True, shrinker_ret = None, debugfs_ok = True, names_ok = True, device_ok = (\<lambda>_. True),
     misc_ret = (\<lambda>_. None), region_ret = Inr 0x0F000000, register_ret = Some ENOMEM\<rparr>"

definition not_loaded :: binder_module where
  "not_loaded = \<lparr>lru_exists = False, shrinker_exists = False, log_cur = 0, failed_log_cur = 0, debugfs_root = False, debugfs_files = [], misc_devices = [],
     binder_devices = [], bm_fs = \<lparr>binderfs_dev = 0, minors = [], supers = (\<lambda>_. \<lparr>sb_has_info = False, sb_info = new_info True \<lparr>opt_max = 0, stats_mode = STATS_NONE\<rparr>,
       dentries = [], orphans = []\<rparr>), chrdev_region = False, fs_registered = False\<rparr>\<rparr>"

definition misc_env :: binder_init_env where
  "misc_env = idle_env\<lparr>register_ret := None\<rparr>"

theorem binder_init_exit_witness:
  "(\<exists>st'. binder_init idle_env True [] not_loaded = (Inl ENOMEM, st') \<and> shrinker_exists st' \<and> \<not> fs_registered (bm_fs st')) \<and>
   (\<exists>st'. binder_init misc_env False (str ''a,b'') not_loaded = (Inr (), st') \<and> misc_devices st' = [str ''b'', str ''a''] \<and> \<not> fs_registered (bm_fs st') \<and>
      unloaded (binder_exit False st'))"
proof -
  obtain r st' where c: "binder_init idle_env True [] not_loaded = (r, st')" by fastforce
  obtain r2 st2 where c2: "binder_init misc_env False (str ''a,b'') not_loaded = (r2, st2)" by fastforce
  have u: "unloaded not_loaded" by (simp add: unloaded_def not_loaded_def)
  have names: "strsep [] (str ''a,b'') = [str ''a'', str ''b'']" by (simp add: str_def comma_def)
  have "r = Inl ENOMEM"
    using c by (auto simp: binder_init_def idle_env_def binder_alloc_shrinker_init_def make_devices_def init_binderfs_config_def init_binderfs_def
        device_names.simps Let_def)
  moreover have "r2 = Inr ()"
    using c2 by (auto simp: binder_init_def misc_env_def idle_env_def binder_alloc_shrinker_init_def make_devices_def init_binderfs_config_def
        init_binder_device_def names Let_def split: if_splits)
  moreover have "str ''a,b'' \<noteq> []" by (simp add: str_def)
  ultimately show ?thesis using names binder_init_exit [OF u c] binder_init_exit [OF u c2] c c2
    by (auto simp: unloaded_def idle_env_def)
qed

end
