(* ===== verification/Spec2Isabelle.thy ===== *)
theory Spec2Isabelle
  imports Ashmem_Map_Props Binder_Alloc_Props Binder_Handle_Props Binder_Txn_Props Binder_Object_Props Binder_Async_Props
    Binder_Translate_Props Binder_Read_Props Binder_Ioctl Binder_Death_Props Binder_Call_Props Binder_File_Props Vsoc_Probe_Props Ion_Map_Props Ion_Contig
    Binderfs_Props Binder_Idr Binder_Module
begin

text \<open>
  A verification development for the out-of-tree Android kernel modules of this repository: the binder IPC driver with its file
  system, the ashmem shared memory driver, and the ION allocator and the VSoC driver that are shipped beside ashmem.

  \<^bold>\<open>The program.\<close> User space opens a binder device and talks to the driver by two command streams (\<open>binder.c\<close>). A transaction is
  copied into a buffer in the space that the receiver has mapped (\<open>binder_alloc.c\<close>); binders and handles in it are translated, which
  creates nodes and references with counts; it is queued for a thread of the receiver, and the reply takes the way back along the stacks
  of transactions. When a process goes away its nodes die, and those who asked are told. \<open>binderfs.c\<close> makes the devices. ashmem hands out
  memory areas whose unpinned page ranges a shrinker may purge while others pin them again. ION hands out buffers made of pages from
  pools, shared as dma-bufs. VSoC maps windows of an emulator's shared memory, parts of which a file may be given by a permission.

  \<^bold>\<open>How the code is modelled.\<close> Objects of the kernel are named by addresses (\<open>ptr\<close>), structs are records in a store from addresses,
  kernel lists are lists of addresses, and red-black trees are trees of addresses with the rebalancing of the kernel library as a parameter
  (\<open>Rbtree\<close>). Integers have their width where they can wrap (\<open>u8\<close>, \<open>u32\<close>, \<open>u64\<close>); counters that the code keeps in range are \<open>nat\<close> or
  \<open>int\<close>. (The counts of a reference, which a process can drive up to the end of the C \<open>int\<close>, are \<open>int\<close> with that range as a condition of the claim on them.) An operation takes the state and gives the new one; errors are values of \<open>errno + 'a\<close>; an outer \<open>option\<close> is \<open>None\<close> for a
  \<open>BUG_ON\<close>, a NULL or freed object, or a loop that does not end. What the kernel decides (memory, user copies, signals, scheduling,
  registration) is a parameter, mostly a record with a name ending in \<open>env\<close>. A function keeps the name it has in the code; a part of a
  function that has a name of its own is a loop or a stage of it. Each operation runs under the locks that the code takes; where the code drops a lock
  in the middle, the model has two steps (the ashmem shrinker) or lets others act in between (the waits of VSoC).

  \<^bold>\<open>Shared theories.\<close> \<open>Kernel_Prelude\<close>: machine types, error numbers, page macros, lists. \<open>Kernel_Bytes\<close>: little-endian words in
  memory and copies from user space, with their round trips. \<open>Rbtree\<close>: insertion and removal by the caller's own search, against the
  documented behaviour of the kernel's functions.

  \<^bold>\<open>ashmem\<close> (\<open>src/ashmem/ashmem.c\<close>).
  \<^item> \<open>Ashmem_Range\<close>: \<open>struct ashmem_range\<close>, the LRU list, \<open>range_alloc\<close>, \<open>range_del\<close>, \<open>range_shrink\<close>, \<open>ashmem_pin\<close>, \<open>ashmem_unpin\<close>,
    \<open>ashmem_get_pin_status\<close>. \<open>Ashmem_Driver\<close>: areas, the file operations, the ioctl, the shrinker and module initialisation.
  \<^item> \<open>Ashmem_Range_Inv\<close>, \<open>Ashmem_Range_Spec\<close>: ranges stay disjoint and descending, also when a request for no page has left an empty one
    (\<open>ashmem_wf\<close>; \<open>ashmem_inv\<close> is the stronger invariant without empty ranges); an area is abstracted to the set of its unpinned pages, on
    which pinning and unpinning are set operations; the locale \<open>page_tracker\<close> states this contract, interpreted on the driver.
  \<^item> \<open>Ashmem_Driver_Inv\<close>: the driver as a transition system with hole punches in flight, and its invariant.
  \<^item> \<open>Ashmem_Props\<close>, \<open>Ashmem_Map_Props\<close>: no page is punched while it is pinned; effects of pin and unpin; the shrinker returns; mappings
    respect size and protection mask; names, pin requests, initialisation.

  \<^bold>\<open>The buffer allocator of binder\<close> (\<open>src/binder/binder_alloc.c\<close>).
  \<^item> \<open>Binder_Alloc\<close>: the whole file: buffers in address order, the trees of free and allocated buffers, page slots, allocation,
    freeing, the page LRU, mapping and release, copies. The deferred release loop has as fuel the number of allocated buffers; that it
    is enough is part of what is shown.
  \<^item> \<open>Binder_Alloc_Inv\<close>, \<open>_Pages\<close>, \<open>_New\<close>, \<open>_Free\<close>, \<open>_Cover\<close>, \<open>_Bytes\<close>, \<open>_Life\<close>: the buffers tile the space, the trees agree with them, a page is in
    use exactly under a held buffer, bytes stay; every operation keeps this and hits no \<open>BUG_ON\<close>.
  \<^item> \<open>Binder_Alloc_Spec\<close>: the locale \<open>buffer_allocator\<close>, the contract with a client, with its consequences proved once, and its interpretation
    on the model. \<open>Binder_Alloc_Props\<close>: best fit, success when there is room, what failure leaves, coalescing, round trips, release.

  \<^bold>\<open>The binder driver\<close> (\<open>src/binder/binder.c\<close>).
  \<^item> \<open>Binder_State\<close>: processes, threads, nodes, references, work and the transaction log. \<open>Binder_Node\<close>, \<open>Binder_Ref\<close>: their creation and
    counts. \<open>Binder_Txn\<close>: transaction stacks and the failed reply. \<open>Binder_Object\<close>: objects in buffers as bytes and the fix-up checks.
    \<open>Binder_Translate\<close>: translation, release of a buffer, queueing. \<open>Binder_Send\<close>: \<open>binder_transaction\<close>. \<open>Binder_Write\<close>, \<open>Binder_Read\<close>: the two
    command streams. \<open>Binder_Release\<close>: threads, deferred work, open, mmap, poll. \<open>Binder_Ioctl\<close>: the ioctls.
  \<^item> Loops that follow pointers or user data (\<open>thread_read_loop\<close>, \<open>thread_write_loop\<close>, \<open>send_objects\<close>, \<open>release_loop\<close>, the release loops, the walk up a
    chain of transactions) are partial functions to \<open>option\<close>: nothing bounds them in the code. That they end is a theorem where a property needs it.
  \<^item> \<open>Binder_Ref_Inv\<close>, \<open>_Ops\<close>, \<open>_New\<close>, \<open>Binder_Handles\<close>, \<open>Binder_Handle_Props\<close>: the invariant of nodes and references, the table of handles of
    each process as their abstraction (locale \<open>handle_table\<close>), and that the operations refine those on the table.
  \<^item> \<open>Binder_Txn_Props\<close>, \<open>Binder_Object_Props\<close>, \<open>Binder_Async_Props\<close>, \<open>Binder_Translate_Inv\<close>, \<open>_Props\<close>: the failed reply reaches the caller; reading objects
    is parsing; one-way transactions go one at a time; a binder comes back as itself.
  \<^item> \<open>Binder_Call\<close>, \<open>Binder_Call_Props\<close>: a call from end to end, and a refused one. \<open>Binder_Read_Props\<close>: what is read stays in the buffer.
    \<open>Binder_Death\<close>, \<open>Binder_Exit\<close>, \<open>Binder_Death_Props\<close>: the end of a process, with the one-way transactions that still wait for its nodes, and the protocol of
    notifications; that no death of a node with a living owner is queued (\<open>deaths_idle\<close>) is kept by the commands and keeps the loop from its \<open>BUG_ON\<close>. \<open>Binder_File_Props\<close>: mappings are
    read-only. \<open>Binder_Sample\<close>: a concrete state for the examples.

  \<^bold>\<open>binderfs and the module\<close> (\<open>src/binder/binderfs.c\<close>, \<open>binder_init\<close>).
  \<^item> \<open>Binderfs\<close>: super blocks, nodes with their 32-bit device numbers, minor numbers, device creation, options, mounting. The id allocator
    of the kernel and the option matcher are parameters; \<open>ida_ok\<close> and \<open>reads_options\<close> say what is assumed of them. \<open>Binder_Idr\<close>: the allocator
    that the module brings along for kernels before 4.19 (\<open>src/binder/idr.c\<close>), which meets this only as long as the kernel's part does not fail. \<open>Binderfs_Inv\<close>, \<open>Binderfs_Mount\<close>: the invariant over all
    mounts. \<open>Binderfs_Props\<close>: ids and, below \<open>2\<^sup>2\<^sup>0\<close>, device numbers are unique, the outcome of a request, device names fit, options round-trip.
  \<^item> \<open>Binder_Module\<close>: loading and unloading with all error paths, with and without binderfs compiled in.

  \<^bold>\<open>ION\<close> (\<open>src/ashmem/ion/\<close>).
  \<^item> \<open>Ion_Pool\<close>: page pools and the data. \<open>Ion_Heap\<close>: clearing, mapping, the system heap. \<open>Ion\<close>: the core: buffers, the list of buffers to be freed, the
    shrinker, queries and the ioctl, against a table of heap operations. \<open>Ion_Contig\<close>: the contiguous and the CMA heap.
  \<^item> \<open>Ion_Inv\<close>, \<open>Ion_Sys\<close>, \<open>Ion_Sys_Ops\<close>: every page is in one pool or one buffer, pools are zeroed as long as no clearing fails (\<open>cl\<close>), collecting
    pages ends and is exact.
  \<^item> \<open>Ion_Client\<close>: the locale \<open>ion_heap_contract\<close> between the core and a heap; the core's lemmas are proved inside it, and it is interpreted on the system heap
    there and on the two others in \<open>Ion_Contig\<close>. \<open>Ion_Props\<close>, \<open>Ion_Map_Props\<close>: pages stay apart, new buffers are zeroed, outcomes
    of a request, exact mappings. Every step of a run has answers of the kernel of its own (\<open>ion_step\<close>); that mapping pages for clearing never failed
    (\<open>clear_envs\<close>) is a condition of the parts that say zeroed only, and \<open>failed_clear_leaks\<close> shows what happens without it.

  \<^bold>\<open>VSoC\<close> (\<open>src/ashmem/vsoc.c\<close>).
  \<^item> \<open>Vsoc\<close>, \<open>Vsoc_Ioctl\<close>, \<open>Vsoc_Probe\<close>: the window as bytes, files, permissions; ioctls and waits; attaching and removal.
    \<open>Vsoc_Inv\<close>, \<open>Vsoc_Ops\<close>, \<open>Vsoc_Steps\<close>: the invariant of the device as a transition system, whose steps are the file operations and stores of processes through
    mappings; left out are stores into the page of the descriptors and what \<open>fair_env\<close> excludes. \<open>Vsoc_Props\<close>, \<open>Vsoc_Probe_Props\<close>: files are confined, permissions exclusive,
    which mappings are granted, what attaching and removal leave behind, with disabling MSI-X under live handlers tolerated or a bug (\<open>pe_strict\<close>).

  \<^bold>\<open>Not modelled.\<close> The functions that only print state (\<open>print_*\<close>, \<open>*_show\<close>, trace points, fdinfo); the self-test of the allocator; the look-up
  of unexported kernel symbols (\<open>deps.c\<close>), the wrappers for kernel versions and the copies of kernel headers; the user-space programs under
  \<open>src/ipcverify\<close>, which probe a running kernel; locking as such, and memory ordering; DMA synchronisation; credentials beyond the uids that the
  code compares.
\<close>

end
